(* ===== verification/Prelude.thy ===== *)
theory Prelude
  imports Main "HOL-Library.Word" "HOL-Library.Monad_Syntax"
begin

text \<open>
  Shared ground of the development: the machine integer types of the C sources, the memory
  constants of \<^verbatim>\<open>include/kernel/memory/memory_defs.h\<close>, the reading of C's page-stride loops, and the
  generic lemmas on words, lists and options that the component theories use.

  A pointer dereference that has no object behind it is modelled by \<open>None\<close> in the option type
  (the machine faults); \<open>0\<close> is the null pointer.
\<close>

unbundle bit_operations_syntax

type_synonym u8 = "8 word"
type_synonym u16 = "16 word"
type_synonym u32 = "32 word"
type_synonym ptr = "32 word"

named_theorems kmem_simps \<open>frame facts: which fields of the kernel state an operation leaves alone\<close>
named_theorems word_bounds \<open>facts on the size of machine words\<close>

subsection \<open>Memory constants (memory\_defs.h)\<close>

definition KERN_VMA :: u32 where "KERN_VMA = 0xC0000000"
definition KERNEL_HEAP_INIT_ADDR :: u32 where "KERNEL_HEAP_INIT_ADDR = 0xD0000000"
definition PAGE_BYTE_LEN :: u32 where "PAGE_BYTE_LEN = 4096"
definition MG_SIZE :: u32 where "MG_SIZE = 0x400 * 0x400"
definition NO_OF_TABLE_ENTRIES :: nat where "NO_OF_TABLE_ENTRIES = 1024"
definition LAST_PAGE_TABLE_INDEX :: u32 where "LAST_PAGE_TABLE_INDEX = 0x3FF"

subsection \<open>Loops with a page stride\<close>

text \<open>
  \<^verbatim>\<open>for(addr = lo; addr < hi; addr += 0x1000) body\<close>: the addition wraps at 32 bits, so the loop need not
  end; \<open>None\<close> stands for not returning.
\<close>

partial_function (option) for_pages :: "u32 \<Rightarrow> u32 \<Rightarrow> (u32 \<Rightarrow> 's \<Rightarrow> 's) \<Rightarrow> 's \<Rightarrow> 's option" where
  "for_pages lo hi body s =
     (if lo < hi then for_pages (lo + 0x1000) hi body (body lo s) else Some s)"

text \<open>The addresses such a loop visits when it does not wrap.\<close>

definition page_steps :: "u32 \<Rightarrow> u32 \<Rightarrow> nat" where
  "page_steps lo hi = (unat hi - unat lo + 4095) div 4096"

definition page_addrs :: "u32 \<Rightarrow> u32 \<Rightarrow> u32 list" where
  "page_addrs lo hi = map (\<lambda>k. lo + of_nat (k * 4096)) [0..<page_steps lo hi]"

lemma page_steps_step:
  assumes "lo < hi" "unat hi \<le> 0xFFFFF000"
  shows "page_steps lo hi = Suc (page_steps (lo + 0x1000) hi)" "unat (lo + 0x1000) = unat lo + 4096"
proof -
  from assms have lt: "unat lo < unat hi" by (simp add: word_less_nat_alt)
  with assms(2) show 1: "unat (lo + 0x1000) = unat lo + 4096"
    by (simp add: unat_word_ariths)
  show "page_steps lo hi = Suc (page_steps (lo + 0x1000) hi)"
    unfolding page_steps_def 1 using lt by (cases "unat hi \<le> unat lo + 4096") (auto simp: div_eq_dividend_iff)
qed

lemma page_addrs_step:
  assumes "lo < hi" "unat hi \<le> 0xFFFFF000"
  shows "page_addrs lo hi = lo # page_addrs (lo + 0x1000) hi"
proof -
  have "[0..<Suc n] = 0 # map Suc [0..<n]" for n
    by (metis map_Suc_upt upt_conv_Cons zero_less_Suc)
  then show ?thesis
    unfolding page_addrs_def page_steps_step(1)[OF assms]
    by (simp add: algebra_simps)
qed

lemma page_addrs_done: "\<not> lo < hi \<Longrightarrow> page_addrs lo hi = []"
  by (simp add: page_addrs_def page_steps_def word_less_nat_alt)

lemma for_pages_fold:
  assumes "unat hi \<le> 0xFFFFF000"
  shows "for_pages lo hi body s = Some (fold body (page_addrs lo hi) s)"
proof (induction "unat hi - unat lo" arbitrary: lo s rule: less_induct)
  case less
  show ?case
  proof (cases "lo < hi")
    case True
    have "unat hi - unat (lo + 0x1000) < unat hi - unat lo"
      using True page_steps_step(2)[OF True assms] by (simp add: word_less_nat_alt)
    from less[OF this] True show ?thesis
      by (subst for_pages.simps) (simp add: page_addrs_step[OF True assms])
  next
    case False
    then show ?thesis by (subst for_pages.simps) (simp add: page_addrs_done)
  qed
qed

subsection \<open>Words\<close>

lemma unat_u8_less [word_bounds]: "unat (x :: u8) < 256"
  using unsigned_less[of x] by simp

lemma unat_u16_less [word_bounds]: "unat (x :: u16) < 65536"
  using unsigned_less[of x] by simp

lemma unat_u32_less [word_bounds]: "unat (x :: u32) < 4294967296"
  using unsigned_less[of x] by simp

lemma word_eqI_unat: "unat (x :: 'a::len word) = unat y \<Longrightarrow> x = y"
  by (rule unsigned_word_eqI)

lemma sint_small: "unat (x :: u32) < 2 ^ 31 \<Longrightarrow> sint x = int (unat x)"
proof -
  assume lt: "unat x < 2 ^ 31"
  obtain n where n: "unat x = n" by blast
  have "uint x = int n" by (simp flip: n)
  then have "sint x = signed_take_bit 31 (int n)" by (simp add: sint_uint)
  then show ?thesis using lt n by (simp add: signed_take_bit_int_eq_self)
qed

lemma unat_and_mask: "unat (x AND mask n) = unat (x :: 'a::len word) mod 2 ^ n"
proof -
  have "x AND mask n = take_bit n x" by (simp add: take_bit_eq_mask)
  then show ?thesis by (simp only: unsigned_take_bit_eq) (simp add: take_bit_eq_mod)
qed

lemma unat_and_not_mask: "unat (x AND NOT (mask n)) = unat (x :: 'a::len word) - unat x mod 2 ^ n"
proof -
  have "x AND NOT (mask n) = x - (x AND mask n)"
    by (subst disjunctive_diff) (auto simp: bit_eq_iff bit_simps)
  then show ?thesis by (simp add: unat_sub word_and_le2 unat_and_mask)
qed

lemma u8_and_255 [simp]: "(x :: u8) AND 255 = x"
proof -
  have "(255 :: u8) = - 1" by simp
  then show ?thesis by (simp only: bit.conj_one_right)
qed

lemma u16_and_65535 [simp]: "(x :: u16) AND 65535 = x"
proof -
  have "(65535 :: u16) = - 1" by simp
  then show ?thesis by (simp only: bit.conj_one_right)
qed

lemma u8_low_nibble: "(15 :: u8) = mask 4"
  by (simp add: mask_eq_exp_minus_1)

lemma u8_high_nibble: "(240 :: u8) = push_bit 4 (mask 4)"
  by (simp add: mask_eq_exp_minus_1)

text \<open>An address is page aligned when its low twelve bits are clear.\<close>

definition page_aligned :: "u32 \<Rightarrow> bool" where
  "page_aligned a \<longleftrightarrow> a mod 4096 = 0"

lemma page_aligned_unat: "page_aligned a \<longleftrightarrow> unat a mod 4096 = 0"
proof -
  have "unat (a mod 4096) = unat a mod 4096" by (simp add: unat_mod_distrib)
  then show ?thesis unfolding page_aligned_def by (metis unat_0 unat_eq_zero)
qed

end
