(* ===== verification/Heap_Core.thy ===== *)
theory Heap_Core
  imports Prelude
begin

text \<open>
  The linked-list heap allocator. \<^verbatim>\<open>kernel/memory/memory_heap.c\<close> (\<open>kern_malloc\<close>, \<open>kern_free\<close>) and
  \<^verbatim>\<open>libraries/alloc.c\<close> (\<open>alloc_allocate\<close>, \<open>alloc_free\<close>) are the same algorithm over the same structures and
  differ only in how the heap grows. The shared algorithm is \<open>heap_allocate\<close>, which takes the growing
  routine as its argument; \<open>Memory_Heap\<close> and \<open>Alloc\<close> instantiate it.

  Headers are kept in \<open>kh_items\<close>, the typed view of the heap memory at the header addresses; the
  bytes behind the headers are \<open>kh_bytes\<close>. The record is the root of the kernel state: the records
  of the other components extend it.
\<close>

subsection \<open>State\<close>

text \<open>\<open>kalloc_t\<close>: packed, so \<open>sizeof(kalloc_t)\<close> is 4 + 4 + 1.\<close>

record kalloc =
  ka_size :: u32
  ka_next :: ptr
  ka_present :: bool

definition sizeof_kalloc :: u32 where "sizeof_kalloc = 9"

text \<open>\<open>kern_heap_t\<close> and the heap memory.\<close>

record kheap =
  allocated_size :: u32
  kh_start :: ptr
  kh_end :: ptr
  kh_head :: ptr
  kh_items :: "ptr \<rightharpoonup> kalloc"
  kh_bytes :: "ptr \<Rightarrow> u8"

subsection \<open>Byte memory (kstdio.c)\<close>

text \<open>\<open>memset_8\<close> and \<open>memcpy_8\<close>: the loops \<^verbatim>\<open>while(i < len)\<close> over the bytes, in order.\<close>

definition memset_8 :: "ptr \<Rightarrow> u8 \<Rightarrow> u32 \<Rightarrow> (ptr \<Rightarrow> u8) \<Rightarrow> (ptr \<Rightarrow> u8)" where
  "memset_8 dest val len m = fold (\<lambda>i m. m(dest + of_nat i := val)) [0..<unat len] m"

definition memcpy_8 :: "ptr \<Rightarrow> ptr \<Rightarrow> u32 \<Rightarrow> (ptr \<Rightarrow> u8) \<Rightarrow> (ptr \<Rightarrow> u8)" where
  "memcpy_8 dest src len m = fold (\<lambda>i m. m(dest + of_nat i := m (src + of_nat i))) [0..<unat len] m"

subsection \<open>The allocator\<close>

text \<open>
  The search loop: walk from \<open>item\<close> until the last block, or a block that is free and large enough
  (the comparison is on C \<open>int\<close>s). The last block is never offered for reuse.
\<close>

partial_function (option) heap_walk :: "(ptr \<rightharpoonup> kalloc) \<Rightarrow> u32 \<Rightarrow> ptr \<Rightarrow> ptr option" where
  "heap_walk items sz item =
     (case items item of
        None \<Rightarrow> None
      | Some k \<Rightarrow>
          if ka_next k \<noteq> 0
          then (if sint sz \<le> sint (ka_size k) \<and> \<not> ka_present k then Some item
                else heap_walk items sz (ka_next k))
          else Some item)"

text \<open>The common tail: clear the payload and hand out its address.\<close>

definition heap_finish :: "ptr \<Rightarrow> 'z kheap_scheme \<Rightarrow> (ptr \<times> 'z kheap_scheme) option" where
  "heap_finish item s =
     (case kh_items s item of
        None \<Rightarrow> None
      | Some k \<Rightarrow>
          (let addr = item + sizeof_kalloc
           in Some (addr, s\<lparr>kh_bytes := memset_8 addr 0 (ka_size k) (kh_bytes s)\<rparr>)))"

definition heap_total_size :: "u32 \<Rightarrow> u32" where
  "heap_total_size sz = ((sz + 7) AND NOT 7) + sizeof_kalloc"

text \<open>A block in the middle of the heap is reused, split when at least one byte fits behind a new header.\<close>

definition heap_reuse :: "u32 \<Rightarrow> ptr \<Rightarrow> kalloc \<Rightarrow> (ptr \<rightharpoonup> kalloc) \<Rightarrow> (ptr \<rightharpoonup> kalloc)" where
  "heap_reuse sz item k items =
     (let diff = ka_size k - sz
      in if 0 < sint diff \<and> sint (sizeof_kalloc + 1) \<le> sint diff
         then (let sibling = item + (sizeof_kalloc + sz)
               in (items(item \<mapsto> \<lparr>ka_size = sz, ka_next = sibling, ka_present = True\<rparr>))
                    (sibling \<mapsto> \<lparr>ka_size = diff - sizeof_kalloc, ka_next = ka_next k, ka_present = False\<rparr>))
         else items(item \<mapsto> k\<lparr>ka_present := True\<rparr>))"

definition heap_allocate ::
  "(u32 \<Rightarrow> 'z kheap_scheme \<Rightarrow> 'z kheap_scheme) \<Rightarrow> u32 \<Rightarrow> 'z kheap_scheme \<Rightarrow> (ptr \<times> 'z kheap_scheme) option"
where
  "heap_allocate increase sz s =
     (let total_size = heap_total_size sz
      in if kh_head s = 0
         then (let item = kh_start s
               in heap_finish item
                    (s\<lparr>kh_items := (kh_items s)(item \<mapsto> \<lparr>ka_size = sz, ka_next = 0, ka_present = True\<rparr>),
                       kh_head := item\<rparr>))
         else do {
           item \<leftarrow> heap_walk (kh_items s) sz (kh_head s);
           k \<leftarrow> kh_items s item;
           if ka_next k = 0
           then (let hsaddr = item + (sizeof_kalloc + ka_size k);
                     headdr = hsaddr + total_size;
                     s1 = (if \<not> headdr < kh_end s then increase total_size s else s)
                 in if \<not> headdr < kh_end s1 then Some (0, s1)
                    else heap_finish hsaddr
                           (s1\<lparr>kh_items := ((kh_items s1)(item \<mapsto> k\<lparr>ka_next := hsaddr\<rparr>))
                                 (hsaddr \<mapsto> \<lparr>ka_size = sz, ka_next = 0, ka_present = True\<rparr>)\<rparr>))
           else heap_finish item (s\<lparr>kh_items := heap_reuse sz item k (kh_items s)\<rparr>)
         })"

text \<open>\<open>kern_free\<close> and \<open>alloc_free\<close> clear the present bit of the header in front of the object.\<close>

definition heap_free :: "ptr \<Rightarrow> 'z kheap_scheme \<Rightarrow> 'z kheap_scheme option" where
  "heap_free object s =
     (let freed = object - sizeof_kalloc
      in case kh_items s freed of
           None \<Rightarrow> None
         | Some k \<Rightarrow> Some (s\<lparr>kh_items := (kh_items s)(freed \<mapsto> k\<lparr>ka_present := False\<rparr>)\<rparr>))"

subsection \<open>Byte memory lemmas\<close>

lemma memset_8_fold_notin:
  "(\<forall>i<n. a \<noteq> d + of_nat i) \<Longrightarrow> fold (\<lambda>i m. m(d + of_nat i := v)) [0..<n] m a = m a"
  by (induction n) auto

lemma memset_8_apply:
  "memset_8 d v len m a = (if a - d < len then v else m a)"
proof (cases "a - d < len")
  case True
  let ?k = "unat (a - d)"
  have k: "?k < unat len" using True by (simp add: word_less_nat_alt)
  have a: "a = d + of_nat ?k" by simp
  have gen: "n \<le> unat len \<Longrightarrow> ?k < n \<Longrightarrow> fold (\<lambda>i m. m(d + of_nat i := v)) [0..<n] m a = v" for n
  proof (induction n)
    case 0
    then show ?case by simp
  next
    case (Suc n)
    then show ?case using a by (cases "?k = n") auto
  qed
  show ?thesis using gen[OF order_refl k] True by (simp add: memset_8_def)
next
  case False
  have "a \<noteq> d + of_nat i" if "i < unat len" for i
  proof
    assume eq: "a = d + of_nat i"
    then have "unat (a - d) = i" using that unat_u32_less[of len]
      by (simp add: unat_of_nat take_bit_nat_eq_self)
    with that False show False by (simp add: word_less_nat_alt)
  qed
  then show ?thesis using False unfolding memset_8_def by (simp add: memset_8_fold_notin)
qed

lemma memset_8_zero: "a - d < len \<Longrightarrow> memset_8 d v len m a = v"
  by (simp add: memset_8_apply)

lemma memset_8_frame: "\<not> a - d < len \<Longrightarrow> memset_8 d v len m a = m a"
  by (simp add: memset_8_apply)

subsection \<open>Well-formed heaps\<close>

text \<open>
  \<open>linked m p bs q\<close>: following the \<open>next\<close> fields from \<open>p\<close> visits exactly the blocks \<open>bs\<close> and ends
  in \<open>q\<close>. \<open>tiled lo bs\<close>: the blocks lie one behind the other from address \<open>lo\<close> and do not overlap; the
  last one ends at \<open>blocks_end lo bs\<close>. The allocator leaves no gap between blocks, but a gap does no harm.
\<close>

type_synonym block = "ptr \<times> kalloc"

fun linked :: "(ptr \<rightharpoonup> kalloc) \<Rightarrow> ptr \<Rightarrow> block list \<Rightarrow> ptr \<Rightarrow> bool" where
  "linked m p [] q \<longleftrightarrow> p = q"
| "linked m p ((a, k) # bs) q \<longleftrightarrow> p = a \<and> a \<noteq> 0 \<and> m a = Some k \<and> linked m (ka_next k) bs q"

definition block_len :: "block \<Rightarrow> nat" where
  "block_len b = 9 + unat (ka_size (snd b))"

fun blocks_end :: "nat \<Rightarrow> block list \<Rightarrow> nat" where
  "blocks_end lo [] = lo"
| "blocks_end lo (b # bs) = blocks_end (unat (fst b) + block_len b) bs"

fun tiled :: "nat \<Rightarrow> block list \<Rightarrow> bool" where
  "tiled lo [] \<longleftrightarrow> True"
| "tiled lo (b # bs) \<longleftrightarrow> lo \<le> unat (fst b) \<and> tiled (unat (fst b) + block_len b) bs"

definition wf_blocks :: "'z kheap_scheme \<Rightarrow> block list \<Rightarrow> bool" where
  "wf_blocks s bs \<longleftrightarrow>
     kh_start s \<noteq> 0 \<and> kh_head s = (if bs = [] then 0 else kh_start s) \<and>
     linked (kh_items s) (kh_head s) bs 0 \<and> dom (kh_items s) = fst ` set bs \<and>
     tiled (unat (kh_start s)) bs \<and>
     blocks_end (unat (kh_start s)) bs < unat (kh_end s) \<and>
     unat (kh_end s) \<le> unat (kh_start s) + 2 ^ 31"

definition wf_heap :: "'z kheap_scheme \<Rightarrow> bool" where
  "wf_heap s \<longleftrightarrow> (\<exists>bs. wf_blocks s bs)"

text \<open>The memory areas handed out and not yet freed: payload address and length.\<close>

definition live_of :: "(ptr \<rightharpoonup> kalloc) \<Rightarrow> (ptr \<times> u32) set" where
  "live_of m = {(a + sizeof_kalloc, ka_size k) | a k. m a = Some k \<and> ka_present k}"

abbreviation heap_live :: "'z kheap_scheme \<Rightarrow> (ptr \<times> u32) set" where
  "heap_live s \<equiv> live_of (kh_items s)"

definition area :: "ptr \<times> u32 \<Rightarrow> nat set" where
  "area b = {unat (fst b) ..< unat (fst b) + unat (snd b)}"

lemma blocks_end_append [simp]: "blocks_end lo (bs @ cs) = blocks_end (blocks_end lo bs) cs"
  by (induction bs arbitrary: lo) auto

lemma block_len_pos: "9 \<le> block_len b"
  by (simp add: block_len_def)

lemma linked_append [simp]:
  "linked m p (bs @ cs) q \<longleftrightarrow> (\<exists>r. linked m p bs r \<and> linked m r cs q)"
  by (induction bs arbitrary: p) auto

lemma linked_upd [simp]:
  "a \<notin> fst ` set bs \<Longrightarrow> linked (m(a \<mapsto> v)) p bs q = linked m p bs q"
  by (induction bs arbitrary: p) auto

lemma linked_dom: "linked m p bs q \<Longrightarrow> (a, k) \<in> set bs \<Longrightarrow> m a = Some k"
  by (induction bs arbitrary: p) auto

lemma tiled_append [simp]:
  "tiled lo (bs @ cs) \<longleftrightarrow> tiled lo bs \<and> tiled (blocks_end lo bs) cs"
  by (induction bs arbitrary: lo) auto

lemma tiled_mono: "tiled lo bs \<Longrightarrow> lo' \<le> lo \<Longrightarrow> tiled lo' bs"
  by (cases bs) auto

lemma blocks_end_le: "tiled lo bs \<Longrightarrow> lo \<le> blocks_end lo bs"
proof (induction bs arbitrary: lo)
  case (Cons b bs)
  then have "unat (fst b) + block_len b \<le> blocks_end lo (b # bs)" by simp
  with Cons.prems show ?case by simp
qed simp

lemma blocks_end_cong: "bs \<noteq> [] \<Longrightarrow> blocks_end lo bs = blocks_end lo' bs"
  by (cases bs) auto

lemma tiled_range:
  "tiled lo bs \<Longrightarrow> b \<in> set bs \<Longrightarrow> lo \<le> unat (fst b) \<and> unat (fst b) + block_len b \<le> blocks_end lo bs"
proof (induction bs arbitrary: lo)
  case (Cons c bs)
  show ?case
  proof (cases "b = c")
    case True
    then show ?thesis using Cons.prems blocks_end_le[of "unat (fst c) + block_len c" bs] by simp
  next
    case False
    then show ?thesis using Cons.prems Cons.IH[of "unat (fst c) + block_len c"] by simp
  qed
qed simp

lemma tiled_distinct: "tiled lo bs \<Longrightarrow> distinct (map fst bs)"
proof (induction bs arbitrary: lo)
  case (Cons b bs)
  then have "fst b \<noteq> fst c" if "c \<in> set bs" for c
    using tiled_range[of "unat (fst b) + block_len b" bs c] that block_len_pos[of b] by fastforce
  with Cons show ?case by auto
qed simp

lemma tiled_disjoint:
  assumes "tiled lo bs" "b \<in> set bs" "c \<in> set bs" "b \<noteq> c"
  shows "unat (fst b) + block_len b \<le> unat (fst c) \<or> unat (fst c) + block_len c \<le> unat (fst b)"
  using assms
proof (induction bs arbitrary: lo)
  case (Cons d bs)
  then show ?case using tiled_range[of "unat (fst d) + block_len d" bs] by (auto dest: tiled_range)
qed simp

lemma wf_blocks_fit:
  "wf_blocks s bs \<Longrightarrow> b \<in> set bs \<Longrightarrow> unat (fst b) + block_len b < unat (kh_end s)"
  unfolding wf_blocks_def using tiled_range[of "unat (kh_start s)" bs b] by auto

lemma wf_blocks_payload:
  assumes "wf_blocks s bs" "b \<in> set bs"
  shows "unat (fst b + sizeof_kalloc) = unat (fst b) + 9" "unat (ka_size (snd b)) < 2 ^ 31"
proof -
  note fit = wf_blocks_fit[OF assms]
  show "unat (fst b + sizeof_kalloc) = unat (fst b) + 9"
    using fit unat_u32_less[of "kh_end s"]
    by (simp add: sizeof_kalloc_def unat_word_ariths block_len_def)
  show "unat (ka_size (snd b)) < 2 ^ 31"
    using assms fit tiled_range[of "unat (kh_start s)" bs b]
    by (auto simp: wf_blocks_def block_len_def)
qed

subsection \<open>The search loop\<close>

lemma heap_walk_found:
  assumes "linked m p bs 0" "bs \<noteq> []"
  obtains pre a k post where "bs = pre @ (a, k) # post" "heap_walk m sz p = Some a"
    "post \<noteq> [] \<longrightarrow> sint sz \<le> sint (ka_size k) \<and> \<not> ka_present k"
proof -
  have "\<exists>pre a k post. bs = pre @ (a, k) # post \<and> heap_walk m sz p = Some a \<and>
          (post \<noteq> [] \<longrightarrow> sint sz \<le> sint (ka_size k) \<and> \<not> ka_present k)"
    using assms
  proof (induction bs arbitrary: p)
    case (Cons b bs)
    obtain a k where b: "b = (a, k)" by (cases b)
    from Cons.prems b have l: "m p = Some k" "linked m (ka_next k) bs 0" "p = a" by auto
    show ?case
    proof (cases "bs = [] \<or> sint sz \<le> sint (ka_size k) \<and> \<not> ka_present k")
      case True
      moreover have "heap_walk m sz p = Some a"
        using True l by (subst heap_walk.simps) auto
      ultimately show ?thesis using b by (metis append_Nil)
    next
      case False
      then have ne: "bs \<noteq> []" by simp
      with l(2) have nz: "ka_next k \<noteq> 0" by (cases bs) auto
      from Cons.IH[OF l(2) ne] obtain pre a' k' post where
        *: "bs = pre @ (a', k') # post" "heap_walk m sz (ka_next k) = Some a'"
           "post \<noteq> [] \<longrightarrow> sint sz \<le> sint (ka_size k') \<and> \<not> ka_present k'" by auto
      have "heap_walk m sz p = Some a'"
        using False l nz *(2) by (subst heap_walk.simps) auto
      with * b show ?thesis by (metis append_Cons)
    qed
  qed simp
  then show ?thesis using that by blast
qed

subsection \<open>Live areas\<close>

lemma in_live_of:
  "(p, n) \<in> live_of m \<longleftrightarrow> (\<exists>k. m (p - sizeof_kalloc) = Some k \<and> ka_present k \<and> n = ka_size k)"
proof
  assume "\<exists>k. m (p - sizeof_kalloc) = Some k \<and> ka_present k \<and> n = ka_size k"
  then obtain k where "m (p - sizeof_kalloc) = Some k" "ka_present k" "n = ka_size k" by blast
  moreover have "p = (p - sizeof_kalloc) + sizeof_kalloc" by simp
  ultimately show "(p, n) \<in> live_of m" unfolding live_of_def by blast
qed (auto simp: live_of_def)

lemma live_of_eqI: "(\<And>p n. (p, n) \<in> A \<longleftrightarrow> (p, n) \<in> live_of m) \<Longrightarrow> A = live_of m"
  by auto

lemma live_of_upd_present:
  assumes "\<forall>k'. m a = Some k' \<longrightarrow> \<not> ka_present k'" "ka_present k"
  shows "insert (a + sizeof_kalloc, ka_size k) (live_of m) = live_of (m(a \<mapsto> k))"
  by (rule live_of_eqI) (use assms in \<open>auto simp: in_live_of\<close>)

lemma live_of_upd_absent:
  assumes "\<forall>k'. m a = Some k' \<longrightarrow> \<not> ka_present k'" "\<not> ka_present k"
  shows "live_of m = live_of (m(a \<mapsto> k))"
  by (rule live_of_eqI) (use assms in \<open>auto simp: in_live_of\<close>)

lemma live_of_upd_same:
  assumes "m a = Some k'" "ka_present k = ka_present k'" "ka_size k = ka_size k'"
  shows "live_of m = live_of (m(a \<mapsto> k))"
  by (rule live_of_eqI) (use assms in \<open>auto simp: in_live_of\<close>)

lemma live_of_upd_free:
  assumes "m a = Some k"
  shows "live_of m - {(a + sizeof_kalloc, ka_size k)} = live_of (m(a \<mapsto> k\<lparr>ka_present := False\<rparr>))"
  by (rule live_of_eqI) (use assms in \<open>auto simp: in_live_of\<close>)

lemma live_of_fresh:
  assumes "\<forall>k'. m a = Some k' \<longrightarrow> \<not> ka_present k'"
  shows "a + sizeof_kalloc \<notin> fst ` live_of m"
  using assms by (auto simp: live_of_def)

lemma live_block:
  assumes "wf_blocks s bs" "x \<in> heap_live s"
  obtains a k where "(a, k) \<in> set bs" "ka_present k" "x = (a + sizeof_kalloc, ka_size k)"
    "area x = {unat a + 9 ..< unat a + block_len (a, k)}"
proof -
  from assms(2) obtain a k where x: "kh_items s a = Some k" "ka_present k" "x = (a + sizeof_kalloc, ka_size k)"
    by (auto simp: live_of_def)
  with assms(1) have "a \<in> fst ` set bs" by (auto simp: wf_blocks_def)
  then obtain k' where "(a, k') \<in> set bs" by auto
  with assms(1) x have ak: "(a, k) \<in> set bs"
    by (metis linked_dom option.inject wf_blocks_def)
  have "area x = {unat a + 9 ..< unat a + block_len (a, k)}"
    using wf_blocks_payload(1)[OF assms(1) ak] x by (simp add: area_def block_len_def add.assoc)
  with x ak that show ?thesis by blast
qed

lemma wf_live_disjoint:
  assumes "wf_heap s" "x \<in> heap_live s" "y \<in> heap_live s" "x \<noteq> y"
  shows "area x \<inter> area y = {}"
proof -
  from assms(1) obtain bs where w: "wf_blocks s bs" by (auto simp: wf_heap_def)
  from live_block[OF w assms(2)] obtain a k where x: "(a, k) \<in> set bs" "x = (a + sizeof_kalloc, ka_size k)"
    "area x = {unat a + 9 ..< unat a + block_len (a, k)}" .
  from live_block[OF w assms(3)] obtain b l where y: "(b, l) \<in> set bs" "y = (b + sizeof_kalloc, ka_size l)"
    "area y = {unat b + 9 ..< unat b + block_len (b, l)}" .
  from x y assms(4) have "(a, k) \<noteq> (b, l)" by auto
  from tiled_disjoint[OF _ x(1) y(1) this] w have
    "unat a + block_len (a, k) \<le> unat b \<or> unat b + block_len (b, l) \<le> unat a"
    by (auto simp: wf_blocks_def)
  then show ?thesis using x(3) y(3) by auto
qed

lemma word_sub_less_iff:
  fixes a d n :: u32
  assumes "unat d + unat n \<le> 2 ^ 32"
  shows "a - d < n \<longleftrightarrow> unat d \<le> unat a \<and> unat a < unat d + unat n"
proof (cases "d \<le> a")
  case True
  then show ?thesis using unat_sub[OF True] by (auto simp: word_less_nat_alt word_le_nat_alt)
next
  case False
  then have lt: "unat a < unat d" by (simp add: word_le_nat_alt)
  have "unat (a - d) = unat a + 4294967296 - unat d"
    using lt unat_u32_less[of a] unat_u32_less[of d] by (simp add: unat_sub_if')
  then show ?thesis using lt assms by (simp add: word_less_nat_alt)
qed

subsection \<open>What an allocation promises\<close>

text \<open>
  The contract of an allocation of \<open>sz\<close> bytes that took the heap from \<open>s\<close> to \<open>s'\<close> and returned \<open>p\<close>: a
  fresh area of at least \<open>sz\<close> bytes is live at \<open>p\<close>, disjoint from every live area, cleared, and no byte
  outside it has changed.
\<close>

definition heap_allocated :: "'z kheap_scheme \<Rightarrow> u32 \<Rightarrow> ptr \<Rightarrow> 'z kheap_scheme \<Rightarrow> bool" where
  "heap_allocated s sz p s' \<longleftrightarrow>
     wf_heap s' \<and> p \<noteq> 0 \<and> p \<notin> fst ` heap_live s \<and>
     (\<exists>n. sz \<le> n \<and> heap_live s' = insert (p, n) (heap_live s) \<and>
          (\<forall>b \<in> heap_live s. area b \<inter> area (p, n) = {}) \<and>
          (\<forall>a. kh_bytes s' a = (if unat a \<in> area (p, n) then 0 else kh_bytes s a)))"

lemma heap_finish_allocated:
  assumes wf: "wf_blocks s2 bs" and k: "kh_items s2 item = Some k" "ka_present k" "sz \<le> ka_size k"
    and live: "heap_live s2 = insert (item + sizeof_kalloc, ka_size k) (heap_live s)"
    and fresh: "item + sizeof_kalloc \<notin> fst ` heap_live s"
    and bytes: "kh_bytes s2 = kh_bytes s"
  shows "\<exists>s'. heap_finish item s2 = Some (item + sizeof_kalloc, s') \<and> heap_allocated s sz (item + sizeof_kalloc) s'"
proof -
  let ?p = "item + sizeof_kalloc" and ?n = "ka_size k"
  let ?s' = "s2\<lparr>kh_bytes := memset_8 ?p 0 ?n (kh_bytes s2)\<rparr>"
  have wf': "wf_blocks ?s' bs" using wf by (auto simp: wf_blocks_def)
  then have wfh: "wf_heap ?s'" by (auto simp: wf_heap_def)
  have mem: "(?p, ?n) \<in> heap_live s2" using live by simp
  obtain a l where al: "(a, l) \<in> set bs" "(?p, ?n) = (a + sizeof_kalloc, ka_size l)"
    using live_block[OF wf mem] by metis
  then have al': "(item, l) \<in> set bs" "ka_size l = ?n" by auto
  have pay: "unat ?p = unat item + 9" using wf_blocks_payload(1)[OF wf al'(1)] by simp
  have fit: "unat ?p + unat ?n \<le> 2 ^ 32"
    using wf_blocks_fit[OF wf al'(1)] unat_u32_less[of "kh_end s2"] al'(2) pay
    by (simp add: block_len_def)
  have p0: "?p \<noteq> 0" using pay by auto
  have disj: "area b \<inter> area (?p, ?n) = {}" if "b \<in> heap_live s" for b
  proof -
    have "b \<noteq> (?p, ?n)" using that fresh by force
    with that live show ?thesis using wf_live_disjoint[OF wfh, of b "(?p, ?n)"] by simp
  qed
  have "kh_bytes ?s' a = (if unat a \<in> area (?p, ?n) then 0 else kh_bytes s a)" for a
    using word_sub_less_iff[OF fit, of a] bytes by (auto simp: memset_8_apply area_def)
  with wfh p0 fresh live disj k(3) have "heap_allocated s sz ?p ?s'"
    unfolding heap_allocated_def by (intro conjI exI[of _ ?n]) simp_all
  moreover have "heap_finish item s2 = Some (?p, ?s')" using k by (simp add: heap_finish_def Let_def)
  ultimately show ?thesis by blast
qed

subsection \<open>Growing heaps\<close>

text \<open>
  What the allocator needs of the routine that grows the heap: it touches only the end of the heap,
  and when there is room it moves the end up by at least the bytes asked for.
\<close>

locale heap_grower =
  fixes increase :: "u32 \<Rightarrow> 'z kheap_scheme \<Rightarrow> 'z kheap_scheme"
    and room :: "u32 \<Rightarrow> 'z kheap_scheme \<Rightarrow> bool"
  assumes grow_items: "kh_items (increase n s) = kh_items s"
    and grow_head: "kh_head (increase n s) = kh_head s"
    and grow_start: "kh_start (increase n s) = kh_start s"
    and grow_bytes: "kh_bytes (increase n s) = kh_bytes s"
    and grow_end: "room n s \<Longrightarrow> unat (kh_end s) + unat n \<le> unat (kh_end (increase n s))"
    and grow_span: "room n s \<Longrightarrow> unat (kh_end s) \<le> unat (kh_start s) + 2 ^ 31 \<Longrightarrow>
           unat (kh_end (increase n s)) \<le> unat (kh_start s) + 2 ^ 31"
begin

lemmas grow_simps = grow_items grow_head grow_start grow_bytes

lemma increase_wf: "room n s \<Longrightarrow> wf_blocks s bs \<Longrightarrow> wf_blocks (increase n s) bs"
  using grow_end[of n s] grow_span[of n s] by (auto simp: wf_blocks_def grow_simps)

end

text \<open>The request sizes the allocator is built for: no wrap-around in the rounded-up total.\<close>

lemma heap_total_size_bounds:
  assumes "unat sz < 2 ^ 31"
  shows "unat sz + 9 \<le> unat (heap_total_size sz)" "unat (heap_total_size sz) \<le> unat sz + 16"
proof -
  have m: "(7 :: u32) = mask 3" by (simp add: mask_eq_exp_minus_1)
  have s7: "unat (sz + 7) = unat sz + 7" using assms by (simp add: unat_word_ariths)
  have "unat ((sz + 7) AND NOT 7) = (unat sz + 7) - (unat sz + 7) mod 8"
    unfolding m unat_and_not_mask using s7 m by simp
  moreover have "unat (heap_total_size sz) = unat ((sz + 7) AND NOT 7) + 9"
    unfolding heap_total_size_def sizeof_kalloc_def using calculation assms
    by (subst unat_word_ariths) simp
  moreover have "(unat sz + 7) mod 8 \<le> 7" by simp
  ultimately show "unat sz + 9 \<le> unat (heap_total_size sz)" "unat (heap_total_size sz) \<le> unat sz + 16"
    by linarith+
qed

subsection \<open>The three ways an allocation is served\<close>

lemma wf_blocks_start: "wf_blocks s bs \<Longrightarrow> blocks_end (unat (kh_start s)) bs < 2 ^ 32"
  unfolding wf_blocks_def using unat_u32_less[of "kh_end s"] by auto

text \<open>The first block of an empty heap.\<close>

lemma first_block_wf:
  assumes "wf_blocks s []" "unat (kh_start s) + 9 + unat sz < unat (kh_end s)"
  shows "wf_blocks (s\<lparr>kh_items := (kh_items s)(kh_start s \<mapsto> \<lparr>ka_size = sz, ka_next = 0, ka_present = True\<rparr>),
                      kh_head := kh_start s\<rparr>)
           [(kh_start s, \<lparr>ka_size = sz, ka_next = 0, ka_present = True\<rparr>)]"
  using assms by (auto simp: wf_blocks_def block_len_def)

text \<open>A new block behind the last one.\<close>

lemma append_block_wf:
  assumes wf: "wf_blocks s (pre @ [(a, k)])" and next0: "ka_next k = 0"
    and hs: "hs = a + (sizeof_kalloc + ka_size k)"
    and fit: "unat hs + 9 + unat sz < unat (kh_end s)"
  shows "wf_blocks (s\<lparr>kh_items := ((kh_items s)(a \<mapsto> k\<lparr>ka_next := hs\<rparr>))
                        (hs \<mapsto> \<lparr>ka_size = sz, ka_next = 0, ka_present = True\<rparr>)\<rparr>)
           (pre @ [(a, k\<lparr>ka_next := hs\<rparr>), (hs, \<lparr>ka_size = sz, ka_next = 0, ka_present = True\<rparr>)])"
    (is "wf_blocks ?s ?bs")
    and "hs \<notin> dom (kh_items s)"
proof -
  let ?old = "pre @ [(a, k)]"
  have top: "blocks_end (unat (kh_start s)) ?old < unat (kh_end s)"
    and til: "tiled (unat (kh_start s)) ?old" and lnk: "linked (kh_items s) (kh_head s) ?old 0"
    and dm: "dom (kh_items s) = fst ` set ?old"
    using wf by (auto simp: wf_blocks_def)
  have "unat (sizeof_kalloc + ka_size k) = 9 + unat (ka_size k)"
    using top unat_u32_less[of "kh_end s"] by (simp add: sizeof_kalloc_def unat_word_ariths block_len_def)
  then have uhs: "unat hs = blocks_end (unat (kh_start s)) ?old"
    using top unat_u32_less[of "kh_end s"] by (simp add: hs unat_word_ariths block_len_def)
  have new: "hs \<notin> fst ` set ?old"
  proof
    assume "hs \<in> fst ` set ?old"
    then obtain b where b: "b \<in> set ?old" "fst b = hs" by (metis imageE)
    from tiled_range[OF til b(1)] b(2) uhs block_len_pos[of b] show False by simp
  qed
  then show "hs \<notin> dom (kh_items s)" using dm by simp
  have hs0: "hs \<noteq> 0" using uhs block_len_pos[of "(a, k)"] by auto
  have apre: "a \<notin> fst ` set pre" "a \<noteq> 0" using tiled_distinct[OF til] lnk by auto
  have "linked (kh_items ?s) (kh_head ?s) ?bs 0"
    using lnk new apre hs0 by auto
  moreover have "tiled (unat (kh_start ?s)) ?bs" using til uhs by (simp add: block_len_def)
  moreover have "dom (kh_items ?s) = fst ` set ?bs" using dm by auto
  ultimately show "wf_blocks ?s ?bs"
    using wf uhs fit by (simp add: wf_blocks_def block_len_def)
qed

text \<open>A free block inside the heap, split or taken whole.\<close>

lemma heap_reuse_split:
  assumes "sz \<le> ka_size k" "unat (ka_size k) < 2 ^ 31"
  shows "(0 < sint (ka_size k - sz) \<and> sint (sizeof_kalloc + 1) \<le> sint (ka_size k - sz)) \<longleftrightarrow>
         unat sz + 10 \<le> unat (ka_size k)"
proof -
  have le: "unat sz \<le> unat (ka_size k)" using assms by (simp add: word_le_nat_alt)
  have d: "unat (ka_size k - sz) = unat (ka_size k) - unat sz" using assms by (simp add: unat_sub)
  have "sint (ka_size k - sz) = int (unat (ka_size k) - unat sz)"
    using d assms(2) by (simp add: sint_small)
  moreover have "sint (sizeof_kalloc + 1) = 10" by (simp add: sizeof_kalloc_def)
  moreover have "(0 < int (n - m) \<and> 10 \<le> int (n - m)) = (m + 10 \<le> n)" if "m \<le> n" for n m :: nat
    using that by auto
  ultimately show ?thesis using le by (simp only:)
qed

lemma reuse_whole_wf:
  assumes wf: "wf_blocks s (pre @ (a, k) # post)"
  shows "wf_blocks (s\<lparr>kh_items := (kh_items s)(a \<mapsto> k\<lparr>ka_present := True\<rparr>)\<rparr>)
           (pre @ (a, k\<lparr>ka_present := True\<rparr>) # post)"
proof -
  have "tiled (unat (kh_start s)) (pre @ (a, k) # post)" using wf by (simp add: wf_blocks_def)
  from tiled_distinct[OF this] have "a \<notin> fst ` set pre" "a \<notin> fst ` set post" by auto
  then show ?thesis using wf by (auto simp: wf_blocks_def block_len_def)
qed

lemma reuse_split_wf:
  assumes wf: "wf_blocks s (pre @ (a, k) # post)" and sz: "unat sz + 10 \<le> unat (ka_size k)"
    and sib: "sib = a + (sizeof_kalloc + sz)"
    and l: "l = \<lparr>ka_size = ka_size k - sz - sizeof_kalloc, ka_next = ka_next k, ka_present = False\<rparr>"
  shows "wf_blocks (s\<lparr>kh_items := ((kh_items s)(a \<mapsto> \<lparr>ka_size = sz, ka_next = sib, ka_present = True\<rparr>))(sib \<mapsto> l)\<rparr>)
           (pre @ (a, \<lparr>ka_size = sz, ka_next = sib, ka_present = True\<rparr>) # (sib, l) # post)"
    (is "wf_blocks ?s ?bs")
    and "sib \<notin> dom (kh_items s)" "sib \<noteq> a"
proof -
  let ?old = "pre @ (a, k) # post"
  have til: "tiled (unat (kh_start s)) ?old" and lnk: "linked (kh_items s) (kh_head s) ?old 0"
    and dm: "dom (kh_items s) = fst ` set ?old"
    using wf by (auto simp: wf_blocks_def)
  note fit = wf_blocks_fit[OF wf, of "(a, k)"]
  have usib: "unat sib = unat a + 9 + unat sz"
    using fit sz unat_u32_less[of "kh_end s"]
    by (simp add: sib sizeof_kalloc_def unat_word_ariths block_len_def)
  have ul: "unat (ka_size l) = unat (ka_size k) - unat sz - 9"
    using sz by (simp add: l sizeof_kalloc_def unat_sub word_le_nat_alt)
  have new: "sib \<notin> fst ` set ?old"
  proof
    assume "sib \<in> fst ` set ?old"
    then obtain b where b: "b \<in> set ?old" "fst b = sib" by (metis imageE)
    then have "b \<noteq> (a, k)" using usib by auto
    from tiled_disjoint[OF til b(1) _ this] b(2) usib block_len_pos[of b] sz
    show False by (simp add: block_len_def)
  qed
  then show "sib \<notin> dom (kh_items s)" "sib \<noteq> a" using dm by auto
  have dis: "a \<notin> fst ` set pre" "a \<notin> fst ` set post" "a \<noteq> 0"
    using tiled_distinct[OF til] lnk by auto
  have sib0: "sib \<noteq> 0" using usib by auto
  have "linked (kh_items ?s) (kh_head ?s) ?bs 0"
    using lnk new dis sib0 by (auto simp: l image_Un)
  moreover have len: "block_len (a, \<lparr>ka_size = sz, ka_next = sib, ka_present = True\<rparr>) + block_len (sib, l) = block_len (a, k)"
    using ul sz by (simp add: block_len_def)
  then have "tiled (unat (kh_start ?s)) ?bs"
    using til usib by (auto simp: block_len_def add.assoc elim!: back_subst[of "\<lambda>n. tiled n post"])
  moreover have "unat sib + block_len (sib, l) = unat a + block_len (a, k)" using len usib by (simp add: block_len_def)
  moreover have "dom (kh_items ?s) = fst ` set ?bs" using dm by auto
  ultimately show "wf_blocks ?s ?bs"
    using wf len by (simp add: wf_blocks_def)
qed

subsection \<open>Correctness of allocation and free\<close>

context heap_grower
begin

lemma allocate_first:
  assumes "wf_blocks s []" "unat (kh_start s) + 9 + unat sz < unat (kh_end s)"
  shows "\<exists>p s'. heap_allocate increase sz s = Some (p, s') \<and> heap_allocated s sz p s'"
proof -
  let ?k = "\<lparr>ka_size = sz, ka_next = 0, ka_present = True\<rparr>"
  let ?s2 = "s\<lparr>kh_items := (kh_items s)(kh_start s \<mapsto> ?k), kh_head := kh_start s\<rparr>"
  have h0: "kh_head s = 0" and none: "kh_items s = Map.empty" using assms(1) by (auto simp: wf_blocks_def)
  have "\<exists>s'. heap_finish (kh_start s) ?s2 = Some (kh_start s + sizeof_kalloc, s') \<and>
             heap_allocated s sz (kh_start s + sizeof_kalloc) s'"
    by (rule heap_finish_allocated[OF first_block_wf[OF assms], where k = ?k])
       (auto simp: none in_live_of live_of_def)
  then show ?thesis using h0 by (auto simp: heap_allocate_def Let_def)
qed

lemma allocate_last:
  assumes wf: "wf_blocks s (pre @ [(a, k)])" and room: "room (heap_total_size sz) s"
    and small: "unat sz < 2 ^ 31" and walk: "heap_walk (kh_items s) sz (kh_head s) = Some a"
  shows "\<exists>p s'. heap_allocate increase sz s = Some (p, s') \<and> heap_allocated s sz p s'"
proof -
  define hs where "hs = a + (sizeof_kalloc + ka_size k)"
  define s1 where "s1 = (if \<not> hs + heap_total_size sz < kh_end s then increase (heap_total_size sz) s else s)"
  have lnk: "linked (kh_items s) (kh_head s) (pre @ [(a, k)]) 0"
    and top: "blocks_end (unat (kh_start s)) (pre @ [(a, k)]) < unat (kh_end s)"
    and til: "tiled (unat (kh_start s)) (pre @ [(a, k)])"
    using wf by (auto simp: wf_blocks_def)
  have nk: "kh_items s a = Some k" "ka_next k = 0" using lnk by auto
  have h0: "kh_head s \<noteq> 0" using wf by (auto simp: wf_blocks_def)
  have same: "kh_items s1 = kh_items s" "kh_bytes s1 = kh_bytes s"
    by (simp_all add: s1_def grow_simps)
  have wf1: "wf_blocks s1 (pre @ [(a, k)])" using increase_wf[OF room wf] wf by (simp add: s1_def)
  have uhs: "unat hs = unat a + 9 + unat (ka_size k)"
    using wf_blocks_fit[OF wf, of "(a, k)"] unat_u32_less[of "kh_end s"]
    by (simp add: hs_def sizeof_kalloc_def unat_word_ariths block_len_def)
  have hs_lt: "unat hs < unat (kh_end s)" using top til uhs by (simp add: block_len_def)
  note ts = heap_total_size_bounds[OF small]
  have nowrap: "unat (hs + heap_total_size sz) = unat hs + unat (heap_total_size sz)"
    using hs_lt grow_end[OF room] unat_u32_less[of "kh_end (increase (heap_total_size sz) s)"]
    by (simp add: unat_word_ariths)
  have fits: "hs + heap_total_size sz < kh_end s1"
    using hs_lt grow_end[OF room] nowrap by (auto simp: s1_def word_less_nat_alt)
  then have fit: "unat hs + 9 + unat sz < unat (kh_end s1)"
    using nowrap ts(1) by (simp add: word_less_nat_alt)
  have hs': "hs = a + (sizeof_kalloc + ka_size k)" by (simp add: hs_def)
  let ?new = "\<lparr>ka_size = sz, ka_next = 0, ka_present = True\<rparr>"
  let ?s2 = "s1\<lparr>kh_items := ((kh_items s1)(a \<mapsto> k\<lparr>ka_next := hs\<rparr>))(hs \<mapsto> ?new)\<rparr>"
  note wf2 = append_block_wf[OF wf1 nk(2) hs' fit]
  have hsa: "hs \<noteq> a" "kh_items s hs = None" using wf2(2) nk same by auto
  have live: "heap_live ?s2 = insert (hs + sizeof_kalloc, sz) (heap_live s)"
    using live_of_upd_present[of "(kh_items s)(a \<mapsto> k\<lparr>ka_next := hs\<rparr>)" hs ?new]
      live_of_upd_same[of "kh_items s" a k "k\<lparr>ka_next := hs\<rparr>"] nk hsa same by simp
  have "\<exists>s'. heap_finish hs ?s2 = Some (hs + sizeof_kalloc, s') \<and> heap_allocated s sz (hs + sizeof_kalloc) s'"
    by (rule heap_finish_allocated[OF wf2(1), where k = ?new]) (use live live_of_fresh[of "kh_items s" hs] hsa same in simp_all)
  moreover have "heap_allocate increase sz s = heap_finish hs ?s2"
    using h0 walk nk fits by (simp add: heap_allocate_def Let_def hs_def s1_def)
  ultimately show ?thesis by auto
qed

lemma allocate_inside:
  assumes wf: "wf_blocks s (pre @ (a, k) # post)" and post: "post \<noteq> []"
    and free: "\<not> ka_present k" and sz: "sz \<le> ka_size k"
    and walk: "heap_walk (kh_items s) sz (kh_head s) = Some a"
  shows "\<exists>p s'. heap_allocate increase sz s = Some (p, s') \<and> heap_allocated s sz p s'"
proof -
  have lnk: "linked (kh_items s) (kh_head s) (pre @ (a, k) # post) 0"
    using wf by (auto simp: wf_blocks_def)
  have nk: "kh_items s a = Some k" "ka_next k \<noteq> 0" using lnk post by (auto, cases post) auto
  have h0: "kh_head s \<noteq> 0" using wf by (auto simp: wf_blocks_def)
  note small = wf_blocks_payload(2)[OF wf, of "(a, k)"]
  have split: "(0 < sint (ka_size k - sz) \<and> sint (sizeof_kalloc + 1) \<le> sint (ka_size k - sz)) \<longleftrightarrow>
                 unat sz + 10 \<le> unat (ka_size k)"
    using heap_reuse_split[OF sz] small by simp
  have alloc: "heap_allocate increase sz s = heap_finish a (s\<lparr>kh_items := heap_reuse sz a k (kh_items s)\<rparr>)"
    using h0 walk nk by (simp add: heap_allocate_def Let_def)
  have fresh: "a + sizeof_kalloc \<notin> fst ` heap_live s" using live_of_fresh[of "kh_items s" a] nk free by simp
  show ?thesis
  proof (cases "unat sz + 10 \<le> unat (ka_size k)")
    case True
    let ?k = "\<lparr>ka_size = sz, ka_next = a + (sizeof_kalloc + sz), ka_present = True\<rparr>"
    let ?l = "\<lparr>ka_size = ka_size k - sz - sizeof_kalloc, ka_next = ka_next k, ka_present = False\<rparr>"
    let ?sib = "a + (sizeof_kalloc + sz)"
    note wf2 = reuse_split_wf[OF wf True refl refl]
    have sib: "kh_items s ?sib = None" using wf2(2) by auto
    have r: "heap_reuse sz a k (kh_items s) = ((kh_items s)(a \<mapsto> ?k))(?sib \<mapsto> ?l)"
      using True split by (simp add: heap_reuse_def Let_def)
    have live: "live_of (((kh_items s)(a \<mapsto> ?k))(?sib \<mapsto> ?l)) = insert (a + sizeof_kalloc, sz) (heap_live s)"
      using live_of_upd_present[of "kh_items s" a ?k] live_of_upd_absent[of "(kh_items s)(a \<mapsto> ?k)" ?sib ?l]
        sib wf2(3) nk free by simp
    have "\<exists>s'. heap_finish a (s\<lparr>kh_items := ((kh_items s)(a \<mapsto> ?k))(?sib \<mapsto> ?l)\<rparr>) = Some (a + sizeof_kalloc, s') \<and>
               heap_allocated s sz (a + sizeof_kalloc) s'"
      by (rule heap_finish_allocated[OF wf2(1), where k = ?k]) (use live fresh wf2(3) in simp_all)
    then show ?thesis using alloc r by auto
  next
    case False
    have r: "heap_reuse sz a k (kh_items s) = (kh_items s)(a \<mapsto> k\<lparr>ka_present := True\<rparr>)"
      using False split by (auto simp: heap_reuse_def Let_def)
    have live: "live_of ((kh_items s)(a \<mapsto> k\<lparr>ka_present := True\<rparr>)) = insert (a + sizeof_kalloc, ka_size k) (heap_live s)"
      using live_of_upd_present[of "kh_items s" a "k\<lparr>ka_present := True\<rparr>"] nk free by simp
    have "\<exists>s'. heap_finish a (s\<lparr>kh_items := (kh_items s)(a \<mapsto> k\<lparr>ka_present := True\<rparr>)\<rparr>) = Some (a + sizeof_kalloc, s') \<and>
               heap_allocated s sz (a + sizeof_kalloc) s'"
      by (rule heap_finish_allocated[OF reuse_whole_wf[OF wf], where k = "k\<lparr>ka_present := True\<rparr>"]) (use live fresh sz in simp_all)
    then show ?thesis using alloc r by auto
  qed
qed

lemma heap_allocate_correct:
  assumes wf: "wf_heap s" and room: "room (heap_total_size sz) s" and small: "unat sz < 2 ^ 31"
    and first: "kh_head s = 0 \<Longrightarrow> unat (kh_start s) + 9 + unat sz < unat (kh_end s)"
  shows "\<exists>p s'. heap_allocate increase sz s = Some (p, s') \<and> heap_allocated s sz p s'"
proof -
  from wf obtain bs where w: "wf_blocks s bs" by (auto simp: wf_heap_def)
  show ?thesis
  proof (cases "bs = []")
    case True
    with w first show ?thesis by (intro allocate_first) (auto simp: wf_blocks_def)
  next
    case False
    have "linked (kh_items s) (kh_head s) bs 0" using w by (auto simp: wf_blocks_def)
    from heap_walk_found[OF this False, of sz] obtain pre a k post where
      b: "bs = pre @ (a, k) # post" "heap_walk (kh_items s) sz (kh_head s) = Some a"
         "post \<noteq> [] \<longrightarrow> sint sz \<le> sint (ka_size k) \<and> \<not> ka_present k" by metis
    show ?thesis
    proof (cases "post = []")
      case True
      with allocate_last[of s pre a k sz] w b room small show ?thesis by simp
    next
      case False
      have "unat (ka_size k) < 2 ^ 31" using wf_blocks_payload(2)[OF w, of "(a, k)"] b by simp
      then have "sz \<le> ka_size k" using b False small by (simp add: sint_small word_le_def)
      with allocate_inside[of s pre a k post sz] w b False show ?thesis by simp
    qed
  qed
qed
text \<open>
  Where the new block lies: it reuses a free block, or it is a new block behind all others. A free block that
  was none before is the rest of the reused one, and lies behind it.
\<close>

lemma heap_allocate_place:
  assumes wf: "wf_blocks s bs" and run: "heap_allocate increase sz s = Some (p, s')" and nz: "kh_head s \<noteq> 0" "p \<noteq> 0"
    and small: "unat sz < 2 ^ 31"
  obtains a where "p = a + sizeof_kalloc" "a \<in> dom (kh_items s')" "kh_start s' = kh_start s"
    "a \<notin> dom (kh_items s) \<and> dom (kh_items s') = insert a (dom (kh_items s)) \<and> (\<forall>b\<in>dom (kh_items s). unat b < unat a) \<or>
     (\<exists>k. kh_items s a = Some k \<and> \<not> ka_present k)"
    "\<forall>c k. c \<noteq> a \<longrightarrow> kh_items s' c = Some k \<longrightarrow> \<not> ka_present k \<longrightarrow>
       (\<exists>l. kh_items s c = Some l \<and> \<not> ka_present l) \<or> unat a < unat c"
proof -
  have w: "linked (kh_items s) (kh_head s) bs 0" "bs \<noteq> []" "dom (kh_items s) = fst ` set bs"
    "tiled (unat (kh_start s)) bs" using wf nz(1) by (auto simp: wf_blocks_def)
  from heap_walk_found[OF w(1,2), of sz] obtain pre a k post where b: "bs = pre @ (a, k) # post"
    "heap_walk (kh_items s) sz (kh_head s) = Some a" "post \<noteq> [] \<longrightarrow> sint sz \<le> sint (ka_size k) \<and> \<not> ka_present k" by metis
  have k: "kh_items s a = Some k" using linked_dom[OF w(1), of a k] b(1) by simp
  have fin: "p = i + sizeof_kalloc" "kh_items s' = kh_items u" "i \<in> dom (kh_items u)" "kh_start s' = kh_start u"
    if "heap_finish i u = Some (p, s')" for i and u :: "'z kheap_scheme"
    using that by (auto simp: heap_finish_def Let_def split: option.splits)
  show ?thesis
  proof (cases "post = []")
    case True
    let ?hs = "a + (sizeof_kalloc + ka_size k)"
    have next0: "ka_next k = 0" using w(1) b(1) True by simp
    have fit: "unat a + 9 + unat (ka_size k) < 2 ^ 32"
      using wf_blocks_fit[OF wf, of "(a, k)"] b(1) unat_u32_less[of "kh_end s"] by (simp add: block_len_def)
    then have uhs: "unat ?hs = unat a + 9 + unat (ka_size k)" by (simp add: sizeof_kalloc_def unat_word_ariths)
    have lt: "unat c < unat ?hs" if c: "c \<in> dom (kh_items s)" for c
    proof -
      obtain l where "(c, l) \<in> set bs" using c w(3) by auto
      from tiled_range[OF w(4) this] show ?thesis using b(1) True uhs block_len_pos[of "(c, l)"] by (simp add: block_len_def)
    qed
    obtain u :: "'z kheap_scheme" where u: "heap_finish ?hs u = Some (p, s')" "kh_start u = kh_start s"
      "kh_items u = ((kh_items s)(a \<mapsto> k\<lparr>ka_next := ?hs\<rparr>))(?hs \<mapsto> \<lparr>ka_size = sz, ka_next = 0, ka_present = True\<rparr>)"
      using run nz b(2) k next0 by (auto simp: heap_allocate_def Let_def grow_simps split: if_splits)
    have new: "?hs \<notin> dom (kh_items s)" "a \<noteq> ?hs" using lt k by (metis less_irrefl, metis domI less_irrefl)
    show ?thesis
      by (rule that[of ?hs]) (use fin[OF u(1)] u(2,3) k new lt in \<open>auto split: if_splits\<close>)
  next
    case False
    have next1: "ka_next k \<noteq> 0" using w(1) b(1) False by (cases post) auto
    have run': "heap_finish a (s\<lparr>kh_items := heap_reuse sz a k (kh_items s)\<rparr>) = Some (p, s')"
      using run nz b(2) k next1 by (simp add: heap_allocate_def Let_def)
    have size: "unat sz \<le> unat (ka_size k)" "unat a + 9 + unat (ka_size k) < 2 ^ 32"
      using wf_blocks_payload(2)[OF wf, of "(a, k)"] wf_blocks_fit[OF wf, of "(a, k)"] b False small unat_u32_less[of "kh_end s"]
      by (auto simp: block_len_def sint_small simp flip: word_le_nat_alt word_le_def)
    then have "unat a < unat (a + (sizeof_kalloc + sz))" by (simp add: sizeof_kalloc_def unat_word_ariths)
    then show ?thesis
      by (intro that[of a]) (use fin[OF run'] k b(3) False in \<open>auto simp: heap_reuse_def Let_def split: if_splits\<close>)
  qed
qed

end

lemma heap_free_correct:
  assumes wf: "wf_heap s" and live: "(p, n) \<in> heap_live s"
  shows "\<exists>s'. heap_free p s = Some s' \<and> wf_heap s' \<and> heap_live s' = heap_live s - {(p, n)} \<and>
              kh_bytes s' = kh_bytes s"
proof -
  from wf obtain bs where w: "wf_blocks s bs" by (auto simp: wf_heap_def)
  from live obtain k where k: "kh_items s (p - sizeof_kalloc) = Some k" "n = ka_size k"
    by (auto simp: in_live_of)
  let ?a = "p - sizeof_kalloc" and ?k = "k\<lparr>ka_present := False\<rparr>"
  let ?s' = "s\<lparr>kh_items := (kh_items s)(?a \<mapsto> ?k)\<rparr>"
  have "?a \<in> fst ` set bs" using w k by (auto simp: wf_blocks_def)
  then obtain pre l post where bs: "bs = pre @ (?a, l) # post" 
    by (auto dest!: split_list)
  have "l = k" using linked_dom[of "kh_items s" "kh_head s" bs 0 ?a l] w k bs by (auto simp: wf_blocks_def)
  with bs have bs: "bs = pre @ (?a, k) # post" by simp
  have "tiled (unat (kh_start s)) (pre @ (?a, k) # post)" using w bs by (simp add: wf_blocks_def)
  from tiled_distinct[OF this] have "?a \<notin> fst ` set pre" "?a \<notin> fst ` set post" by auto
  then have "wf_blocks ?s' (pre @ (?a, ?k) # post)"
    using w bs by (auto simp: wf_blocks_def block_len_def)
  then have "wf_heap ?s'" by (auto simp: wf_heap_def)
  moreover have "heap_live ?s' = heap_live s - {(p, n)}"
    using live_of_upd_free[of "kh_items s" ?a k] k by simp
  ultimately show ?thesis using k by (auto simp: heap_free_def Let_def)
qed

end
