(* ===== verification/Memory_Phys.thy ===== *)
theory Memory_Phys
  imports Heap_Core
begin

text \<open>
  The physical page allocator, \<^verbatim>\<open>kernel/memory/memory_phys.c\<close>: one reference count per page frame, a list
  of freed frames, and the search for a free frame. The bytemap \<open>allocations\<close> is the memory from the
  address \<open>allocations\<close> on, one byte per frame; a \<open>palloc_t *\<close> is an index into it.
\<close>

subsection \<open>State\<close>

record fpalloc =
  fp_allocation :: "nat option"
  fp_address :: u32

definition MEM_PHYS_FREE_MAX :: nat where "MEM_PHYS_FREE_MAX = 256"

record phys = kheap +
  total_usable_lower :: u32
  total_usable_lower_pages :: u32
  total_usable_upper :: u32
  total_usable_upper_pages :: u32
  total_usable_bytes :: u32
  total_usable_pages :: u32
  allocations_size :: u32
  allocations :: ptr
  refcount :: "nat \<Rightarrow> u8"
  free_list :: "fpalloc list"

text \<open>The two fields of the multiboot information that the allocator reads, in kibibytes.\<close>

record mboot_mem =
  memory_lower :: u32
  memory_upper :: u32

subsection \<open>Address arithmetic\<close>

definition align_to :: "u32 \<Rightarrow> u32 \<Rightarrow> u32" where
  "align_to addr alignment =
     (if addr mod alignment = 0 then addr
      else if addr \<noteq> 0 then alignment * (addr div alignment) else 0)"

definition align_page :: "u32 \<Rightarrow> u32" where
  "align_page addr = align_to addr PAGE_BYTE_LEN"

definition virtual_to_physical :: "u32 \<Rightarrow> u32" where
  "virtual_to_physical addr = (addr - KERN_VMA) + MG_SIZE"

definition physical_to_virtual :: "u32 \<Rightarrow> u32" where
  "physical_to_virtual addr = (addr + KERN_VMA) - MG_SIZE"

definition alloc_phys_addr_to_index :: "u32 \<Rightarrow> 'z phys_scheme \<Rightarrow> int" where
  "alloc_phys_addr_to_index p_addr s =
     (if p_addr < total_usable_lower s then sint (p_addr div 0x1000)
      else if 0x00100000 \<le> p_addr
      then sint (total_usable_lower_pages s) + sint ((p_addr - 0x00100000) div 0x1000)
      else -1)"

definition alloc_phys_index_to_addr :: "nat \<Rightarrow> 'z phys_scheme \<Rightarrow> u32" where
  "alloc_phys_index_to_addr index s =
     (if int index < sint (total_usable_lower_pages s) then of_nat (index * 0x1000)
      else (of_nat index - total_usable_lower_pages s) * 0x1000 + 0x00100000)"

definition alloc_phys_get_alloc :: "u32 \<Rightarrow> 'z phys_scheme \<Rightarrow> nat option" where
  "alloc_phys_get_alloc p_addr s =
     (let index = alloc_phys_addr_to_index (align_page p_addr) s
      in if index \<noteq> -1 then Some (nat index) else None)"

subsection \<open>Reference counts\<close>

definition set_refcount :: "nat \<Rightarrow> u8 \<Rightarrow> 'z phys_scheme \<Rightarrow> 'z phys_scheme" where
  "set_refcount i v s = s\<lparr>refcount := (refcount s)(i := v)\<rparr>"

definition alloc_phys_increase_refcount :: "u32 \<Rightarrow> 'z phys_scheme \<Rightarrow> 'z phys_scheme" where
  "alloc_phys_increase_refcount addr s =
     (case alloc_phys_get_alloc addr s of
        Some p \<Rightarrow> if 1 \<le> refcount s p then set_refcount p (refcount s p + 1) s else s
      | None \<Rightarrow> s)"

definition alloc_phys_decrease_refcount :: "u32 \<Rightarrow> 'z phys_scheme \<Rightarrow> 'z phys_scheme" where
  "alloc_phys_decrease_refcount addr s =
     (case alloc_phys_get_alloc addr s of
        Some p \<Rightarrow> if 0 < refcount s p then set_refcount p (refcount s p - 1) s else s
      | None \<Rightarrow> s)"

definition alloc_phys_get_refcount :: "u32 \<Rightarrow> 'z phys_scheme \<Rightarrow> int" where
  "alloc_phys_get_refcount addr s =
     (case alloc_phys_get_alloc addr s of Some p \<Rightarrow> uint (refcount s p) | None \<Rightarrow> -1)"

subsection \<open>Allocating and freeing frames\<close>

definition alloc_phys_addr :: "u32 \<Rightarrow> 'z phys_scheme \<Rightarrow> u32 \<times> 'z phys_scheme" where
  "alloc_phys_addr p_addr s =
     (case alloc_phys_get_alloc p_addr s of
        Some p \<Rightarrow> if refcount s p = 0 then (align_page p_addr, set_refcount p 1 s) else (0, s)
      | None \<Rightarrow> (0, s))"

text \<open>
  The loop of \<open>alloc_phys_free\<close> looks for an unused slot of the free list, but it writes the freed frame
  into a local copy \<open>fp\<close> of the slot: the result of the scan is that copy, and the list is not changed.
\<close>

fun free_list_scan :: "nat \<Rightarrow> u32 \<Rightarrow> fpalloc list \<Rightarrow> fpalloc option" where
  "free_list_scan p addr [] = None"
| "free_list_scan p addr (fp # fps) =
     (if fp_allocation fp = None then Some (fp\<lparr>fp_allocation := Some p, fp_address := addr\<rparr>)
      else free_list_scan p addr fps)"

definition alloc_phys_free :: "u32 \<Rightarrow> 'z phys_scheme \<Rightarrow> 'z phys_scheme" where
  "alloc_phys_free addr s =
     (case alloc_phys_get_alloc addr s of
        Some p \<Rightarrow>
          (let s1 = set_refcount p 0 s;
               fp = free_list_scan p addr (free_list s1)
           in s1)
      | None \<Rightarrow> s)"

text \<open>\<open>alloc_phys_page\<close>: first the free list, then the lowest frame with reference count 0.\<close>

fun first_freed :: "fpalloc list \<Rightarrow> nat \<Rightarrow> (nat \<times> nat \<times> u32) option" where
  "first_freed [] i = None"
| "first_freed (fp # fps) i =
     (case fp_allocation fp of Some p \<Rightarrow> Some (i, p, fp_address fp) | None \<Rightarrow> first_freed fps (Suc i))"

definition alloc_phys_page :: "'z phys_scheme \<Rightarrow> u32 \<times> 'z phys_scheme" where
  "alloc_phys_page s =
     (case first_freed (free_list s) 0 of
        Some (i, p, addr) \<Rightarrow>
          (addr, (set_refcount p 1 s)\<lparr>free_list := (free_list s)[i := \<lparr>fp_allocation = None, fp_address = 0\<rparr>]\<rparr>)
      | None \<Rightarrow>
          (case find (\<lambda>i. refcount s i = 0) [0..<nat (sint (total_usable_pages s))] of
             Some i \<Rightarrow> (alloc_phys_index_to_addr i s, set_refcount i 1 s)
           | None \<Rightarrow> (0, s)))"

definition alloc_phys_set_allocations_address :: "u32 \<Rightarrow> 'z phys_scheme \<Rightarrow> 'z phys_scheme" where
  "alloc_phys_set_allocations_address addr s = s\<lparr>allocations := addr\<rparr>"

definition alloc_phys_get_allocations_address :: "'z phys_scheme \<Rightarrow> ptr" where
  "alloc_phys_get_allocations_address s = allocations s"

definition alloc_phys_get_allocations_size :: "'z phys_scheme \<Rightarrow> int" where
  "alloc_phys_get_allocations_size s = sint (allocations_size s)"

subsection \<open>Initialisation\<close>

text \<open>
  \<open>memset_32\<close> clears \<open>(allocations_size + 4096) / 4\<close> words of the bytemap; the loop then reserves the
  frames the bytemap itself occupies. \<open>sizeof(palloc_t)\<close> is 1.
\<close>

definition init_phys_memory :: "mboot_mem \<Rightarrow> u32 \<Rightarrow> 'z phys_scheme \<Rightarrow> 'z phys_scheme option" where
  "init_phys_memory mboot last_mod_end_addr s =
     (let lower = memory_lower mboot * 1024;
          upper = memory_upper mboot * 1024;
          base = align_page last_mod_end_addr + 0x1000;
          pages = upper div 4096 + lower div 4096;
          asize = pages * 1;
          cleared = 4 * unat ((asize + 4096) div 4);
          s1 = s\<lparr>total_usable_lower := lower, total_usable_lower_pages := lower div 4096,
                 total_usable_upper := upper, total_usable_upper_pages := upper div 4096,
                 total_usable_bytes := lower + upper, total_usable_pages := pages,
                 allocations := base, allocations_size := asize,
                 refcount := (\<lambda>i. if i < cleared then 0 else refcount s i)\<rparr>
      in for_pages base (base + asize) (\<lambda>addr s. snd (alloc_phys_addr addr s)) s1)"

subsection \<open>Address arithmetic is right\<close>

lemma align_to_unat:
  assumes "alignment \<noteq> 0"
  shows "unat (align_to addr alignment) = unat addr - unat addr mod unat alignment"
proof -
  have "alignment * (addr div alignment) = addr - addr mod alignment"
    by (metis add_diff_cancel_right' mult_div_mod_eq)
  moreover have "addr mod alignment \<le> addr"
    by (simp add: word_le_nat_alt unat_mod_distrib)
  ultimately have "unat (alignment * (addr div alignment)) = unat addr - unat addr mod unat alignment"
    by (simp add: unat_sub unat_mod_distrib)
  moreover have "unat addr mod unat alignment = 0" if "addr mod alignment = 0"
    by (metis that unat_0 unat_mod_distrib)
  ultimately show ?thesis by (auto simp: align_to_def)
qed

lemma align_page_unat: "unat (align_page addr) = unat addr - unat addr mod 4096"
  by (simp add: align_page_def PAGE_BYTE_LEN_def align_to_unat)

lemma align_page_aligned: "page_aligned (align_page addr)"
  by (simp add: page_aligned_unat align_page_unat minus_mod_eq_mult_div)

lemma align_page_id: "page_aligned addr \<Longrightarrow> align_page addr = addr"
  by (rule word_eqI_unat) (simp add: page_aligned_unat align_page_unat)

lemma virtual_physical_roundtrip [simp]:
  "physical_to_virtual (virtual_to_physical a) = a" "virtual_to_physical (physical_to_virtual a) = a"
  by (simp_all add: physical_to_virtual_def virtual_to_physical_def)

subsection \<open>Indices and addresses\<close>

text \<open>
  What \<open>init_phys_memory\<close> establishes of the totals: the lower memory ends below one mebibyte and the
  upper memory, which starts there, ends within the 32-bit address space.
\<close>

definition wf_phys :: "'z phys_scheme \<Rightarrow> bool" where
  "wf_phys s \<longleftrightarrow>
     unat (total_usable_lower s) \<le> 0x100000 \<and> unat (total_usable_upper s) \<le> 0xFFF00000 \<and>
     total_usable_lower_pages s = total_usable_lower s div 4096 \<and>
     total_usable_upper_pages s = total_usable_upper s div 4096 \<and>
     total_usable_pages s = total_usable_upper_pages s + total_usable_lower_pages s"

definition lower_pages :: "'z phys_scheme \<Rightarrow> nat" where
  "lower_pages s = unat (total_usable_lower s) div 4096"

definition phys_pages :: "'z phys_scheme \<Rightarrow> nat" where
  "phys_pages s = unat (total_usable_lower s) div 4096 + unat (total_usable_upper s) div 4096"

lemma wf_phys_pages:
  assumes "wf_phys s"
  shows "unat (total_usable_lower_pages s) = lower_pages s"
    "sint (total_usable_lower_pages s) = int (lower_pages s)"
    "unat (total_usable_pages s) = phys_pages s"
    "sint (total_usable_pages s) = int (phys_pages s)"
    "lower_pages s \<le> 256" "phys_pages s \<le> 1048576" "lower_pages s \<le> phys_pages s"
proof -
  let ?l = "unat (total_usable_lower s)" and ?u = "unat (total_usable_upper s)"
  have l: "?l \<le> 0x100000" and u: "?u \<le> 0xFFF00000" using assms by (auto simp: wf_phys_def)
  from l have "?l div 4096 \<le> 256" by simp
  then show 1: "lower_pages s \<le> 256" by (simp add: lower_pages_def)
  have 2: "?u div 4096 \<le> 1048320" using u by simp
  then show 3: "phys_pages s \<le> 1048576" "lower_pages s \<le> phys_pages s"
    using 1 by (auto simp: phys_pages_def lower_pages_def)
  show 4: "unat (total_usable_lower_pages s) = lower_pages s"
    using assms by (simp add: wf_phys_def lower_pages_def unat_div_distrib)
  have "unat (total_usable_upper_pages s) = ?u div 4096"
    using assms by (simp add: wf_phys_def unat_div_distrib)
  then show 5: "unat (total_usable_pages s) = phys_pages s"
    using 1 2 4 assms by (simp add: wf_phys_def phys_pages_def lower_pages_def unat_word_ariths)
  show "sint (total_usable_lower_pages s) = int (lower_pages s)"
    using sint_small[of "total_usable_lower_pages s"] 1 4 by simp
  show "sint (total_usable_pages s) = int (phys_pages s)"
    using sint_small[of "total_usable_pages s"] 3 5 by simp
qed

lemma index_to_addr_unat:
  assumes "wf_phys s" "i < phys_pages s"
  shows "unat (alloc_phys_index_to_addr i s) =
           (if i < lower_pages s then i * 4096 else (i - lower_pages s) * 4096 + 0x100000)"
proof (cases "i < lower_pages s")
  case True
  then have "i < 256" using wf_phys_pages(5)[OF assms(1)] by simp
  with True show ?thesis using wf_phys_pages(2)[OF assms(1)]
    by (simp add: alloc_phys_index_to_addr_def unat_word_ariths unat_of_nat take_bit_nat_eq_self)
next
  case False
  have up: "i - lower_pages s < 1048320"
  proof -
    have "i - lower_pages s < unat (total_usable_upper s) div 4096"
      using assms False by (auto simp: phys_pages_def lower_pages_def)
    moreover have "unat (total_usable_upper s) \<le> 0xFFF00000" using assms by (simp add: wf_phys_def)
    then have "unat (total_usable_upper s) div 4096 \<le> 1048320" by simp
    ultimately show ?thesis by simp
  qed
  have i: "unat (of_nat i :: u32) = i"
    using assms(2) wf_phys_pages(6)[OF assms(1)] by (simp add: unat_of_nat take_bit_nat_eq_self)
  have "total_usable_lower_pages s \<le> of_nat i"
    unfolding word_le_nat_alt i wf_phys_pages(1)[OF assms(1)] using False by simp
  then have "unat (of_nat i - total_usable_lower_pages s) = i - lower_pages s"
    unfolding unat_sub[OF \<open>_ \<le> _\<close>] i wf_phys_pages(1)[OF assms(1)] by simp
  moreover have "unat (x * 0x1000 + 0x100000) = unat x * 4096 + 0x100000" if "unat x < 1048320" for x :: u32
    using that by (simp add: unat_word_ariths)
  ultimately have "unat ((of_nat i - total_usable_lower_pages s) * 0x1000 + 0x100000) = (i - lower_pages s) * 4096 + 0x100000"
    using up by presburger
  with False show ?thesis using wf_phys_pages(2)[OF assms(1)]
    by (simp add: alloc_phys_index_to_addr_def)
qed

lemma addr_to_index_unat:
  assumes "wf_phys s"
  shows "alloc_phys_addr_to_index a s =
           (if unat a < unat (total_usable_lower s) then int (unat a div 4096)
            else if 0x100000 \<le> unat a then int (lower_pages s + (unat a - 0x100000) div 4096) else -1)"
proof -
  have small: "sint (x div 0x1000) = int (unat x div 4096)" for x :: u32
  proof -
    have "unat (x div 0x1000) = unat x div 4096" by (simp add: unat_div_distrib)
    moreover have "unat x div 4096 < 2 ^ 31" using unat_u32_less[of x] by auto
    ultimately show ?thesis using sint_small[of "x div 0x1000"] by simp
  qed
  have "unat (a - 0x100000) = unat a - 0x100000" if "0x100000 \<le> a"
    using unat_sub[OF that] by simp
  then show ?thesis
    unfolding alloc_phys_addr_to_index_def small wf_phys_pages(2)[OF assms]
    by (simp add: word_less_nat_alt word_le_nat_alt)
qed

lemma index_to_addr_aligned:
  assumes "wf_phys s" "i < phys_pages s"
  shows "page_aligned (alloc_phys_index_to_addr i s)"
  unfolding page_aligned_unat index_to_addr_unat[OF assms] by (simp add: mod_add_eq[symmetric])

lemma index_to_addr_inverse:
  assumes "wf_phys s" "i < phys_pages s"
  shows "alloc_phys_addr_to_index (alloc_phys_index_to_addr i s) s = int i"
proof -
  have "lower_pages s * 4096 \<le> unat (total_usable_lower s)" by (simp add: lower_pages_def)
  then have "i < lower_pages s \<Longrightarrow> i * 4096 < unat (total_usable_lower s)" by simp
  moreover have "unat (total_usable_lower s) \<le> 0x100000" using assms by (simp add: wf_phys_def)
  ultimately show ?thesis
    unfolding addr_to_index_unat[OF assms(1)] index_to_addr_unat[OF assms] by auto
qed

lemma get_alloc_index [simp]:
  assumes "wf_phys s" "i < phys_pages s"
  shows "alloc_phys_get_alloc (alloc_phys_index_to_addr i s) s = Some i"
  using assms
  by (simp add: alloc_phys_get_alloc_def align_page_id index_to_addr_aligned index_to_addr_inverse)

lemma index_to_addr_inj:
  assumes "wf_phys s" "i < phys_pages s" "j < phys_pages s"
    "alloc_phys_index_to_addr i s = alloc_phys_index_to_addr j s"
  shows "i = j"
  by (metis get_alloc_index[OF assms(1,2)] get_alloc_index[OF assms(1,3)] assms(4) option.inject)

subsection \<open>The contract of a page frame allocator\<close>

text \<open>
  \<open>used s\<close> is the set of page frames in use and \<open>inv\<close> the allocator's invariant. Address 0 is the
  failure value, so an allocator keeps frame 0 in use.
\<close>

locale frame_allocator =
  fixes inv :: "'s \<Rightarrow> bool"
    and used :: "'s \<Rightarrow> u32 set"
    and frames :: "'s \<Rightarrow> u32 set"
    and alloc :: "'s \<Rightarrow> u32 \<times> 's"
    and free :: "u32 \<Rightarrow> 's \<Rightarrow> 's"
  assumes used_frames: "inv s \<Longrightarrow> used s \<subseteq> frames s"
    and frames_finite: "inv s \<Longrightarrow> finite (frames s)"
    and zero_used: "inv s \<Longrightarrow> 0 \<in> used s"
    and alloc_inv: "inv s \<Longrightarrow> inv (snd (alloc s)) \<and> frames (snd (alloc s)) = frames s"
    and alloc_full: "inv s \<Longrightarrow> used s = frames s \<Longrightarrow> alloc s = (0, s)"
    and alloc_fresh: "inv s \<Longrightarrow> used s \<noteq> frames s \<Longrightarrow>
          fst (alloc s) \<in> frames s - used s \<and> used (snd (alloc s)) = insert (fst (alloc s)) (used s)"
    and free_used: "inv s \<Longrightarrow> a \<in> frames s \<Longrightarrow> a \<noteq> 0 \<Longrightarrow>
          inv (free a s) \<and> frames (free a s) = frames s \<and> used (free a s) = used s - {a}"
begin

lemma alloc_zero_iff: "inv s \<Longrightarrow> fst (alloc s) = 0 \<longleftrightarrow> used s = frames s"
  by (metis DiffE alloc_fresh alloc_full fst_conv zero_used)

lemma alloc_free_restores:
  assumes "inv s" "used s \<noteq> frames s"
  shows "used (free (fst (alloc s)) (snd (alloc s))) = used s"
proof -
  note fr = alloc_fresh[OF assms]
  have "fst (alloc s) \<noteq> 0" using alloc_zero_iff assms by auto
  with fr alloc_inv[OF assms(1)] free_used[of "snd (alloc s)" "fst (alloc s)"] show ?thesis by auto
qed

fun alloc_many :: "nat \<Rightarrow> 's \<Rightarrow> u32 list \<times> 's" where
  "alloc_many 0 s = ([], s)"
| "alloc_many (Suc n) s = (let (a, s1) = alloc s; (as, s2) = alloc_many n s1 in (a # as, s2))"

lemma alloc_many_distinct:
  assumes "inv s" "n \<le> card (frames s - used s)"
  shows "distinct (fst (alloc_many n s)) \<and> set (fst (alloc_many n s)) \<subseteq> frames s - used s \<and>
         used (snd (alloc_many n s)) = used s \<union> set (fst (alloc_many n s))"
  using assms
proof (induction n arbitrary: s)
  case 0
  then show ?case by simp
next
  case (Suc n)
  obtain a s1 where a: "alloc s = (a, s1)" by (cases "alloc s")
  have ne: "used s \<noteq> frames s" using Suc.prems by auto
  note fr = alloc_fresh[OF Suc.prems(1) ne, unfolded a, simplified]
  have i1: "inv s1" "frames s1 = frames s" using alloc_inv[OF Suc.prems(1)] a by auto
  have "frames s1 - used s1 = (frames s - used s) - {a}" using fr i1 by auto
  then have "n \<le> card (frames s1 - used s1)"
    using Suc.prems(2) fr frames_finite[OF Suc.prems(1)] by (simp add: card_Diff_singleton)
  from Suc.IH[OF i1(1) this] fr i1 a show ?case by (auto split: prod.split simp: case_prod_beta)
qed

end

subsection \<open>The model meets the contract\<close>

definition no_freed :: "fpalloc list \<Rightarrow> bool" where
  "no_freed fl \<longleftrightarrow> (\<forall>fp \<in> set fl. fp_allocation fp = None)"

definition phys_inv :: "'z phys_scheme \<Rightarrow> bool" where
  "phys_inv s \<longleftrightarrow> wf_phys s \<and> no_freed (free_list s) \<and> 0 < lower_pages s \<and> refcount s 0 \<noteq> 0"

definition phys_frames :: "'z phys_scheme \<Rightarrow> u32 set" where
  "phys_frames s = (\<lambda>i. alloc_phys_index_to_addr i s) ` {..<phys_pages s}"

definition used_frames :: "'z phys_scheme \<Rightarrow> u32 set" where
  "used_frames s = (\<lambda>i. alloc_phys_index_to_addr i s) ` {i. i < phys_pages s \<and> refcount s i \<noteq> 0}"

lemma first_freed_none: "no_freed fl \<Longrightarrow> first_freed fl i = None"
  by (induction fl arbitrary: i) (auto simp: no_freed_def)

lemma set_refcount_sel [simp]:
  "refcount (set_refcount i v s) = (refcount s)(i := v)"
  "free_list (set_refcount i v s) = free_list s"
  "total_usable_pages (set_refcount i v s) = total_usable_pages s"
  "total_usable_lower_pages (set_refcount i v s) = total_usable_lower_pages s"
  "total_usable_lower (set_refcount i v s) = total_usable_lower s"
  "total_usable_upper (set_refcount i v s) = total_usable_upper s"
  "total_usable_upper_pages (set_refcount i v s) = total_usable_upper_pages s"
  by (simp_all add: set_refcount_def)

lemma set_refcount_derived [simp]:
  "wf_phys (set_refcount i v s) = wf_phys s" "lower_pages (set_refcount i v s) = lower_pages s"
  "phys_pages (set_refcount i v s) = phys_pages s"
  "alloc_phys_index_to_addr j (set_refcount i v s) = alloc_phys_index_to_addr j s"
  "alloc_phys_get_alloc a (set_refcount i v s) = alloc_phys_get_alloc a s"
  by (simp_all add: wf_phys_def lower_pages_def phys_pages_def alloc_phys_index_to_addr_def
      alloc_phys_get_alloc_def alloc_phys_addr_to_index_def)

lemma phys_frames_set_refcount [simp]: "phys_frames (set_refcount i v s) = phys_frames s"
  by (simp add: phys_frames_def)

lemma used_frames_set_refcount:
  assumes "wf_phys s" "i < phys_pages s"
  shows "used_frames (set_refcount i v s) =
     (if v = 0 then used_frames s - {alloc_phys_index_to_addr i s}
      else insert (alloc_phys_index_to_addr i s) (used_frames s))"
  using assms index_to_addr_inj[OF assms(1) _ assms(2)] by (auto simp: used_frames_def)

lemma used_frames_iff:
  assumes "wf_phys s" "i < phys_pages s"
  shows "alloc_phys_index_to_addr i s \<in> used_frames s \<longleftrightarrow> refcount s i \<noteq> 0"
  using assms index_to_addr_inj[OF assms(1)] by (auto simp: used_frames_def)

lemma find_upt_some: "find P [0..<n] = Some i \<longleftrightarrow> i < n \<and> P i \<and> (\<forall>j<i. \<not> P j)"
  by (auto simp: find_Some_iff)

lemma find_upt_none: "find P [0..<n] = None \<longleftrightarrow> (\<forall>i<n. \<not> P i)"
  by (auto simp: find_None_iff)

lemma alloc_phys_page_found:
  assumes "phys_inv s" "i < phys_pages s" "refcount s i = 0" "\<forall>j<i. refcount s j \<noteq> 0"
  shows "alloc_phys_page s = (alloc_phys_index_to_addr i s, set_refcount i 1 s)"
proof -
  have "find (\<lambda>i. refcount s i = 0) [0..<nat (sint (total_usable_pages s))] = Some i"
    using assms by (simp add: find_upt_some phys_inv_def wf_phys_pages(4))
  then show ?thesis using assms by (simp add: alloc_phys_page_def phys_inv_def first_freed_none)
qed

lemma alloc_phys_page_full:
  assumes "phys_inv s" "\<forall>i<phys_pages s. refcount s i \<noteq> 0"
  shows "alloc_phys_page s = (0, s)"
proof -
  have "find (\<lambda>i. refcount s i = 0) [0..<nat (sint (total_usable_pages s))] = None"
    using assms by (simp add: find_upt_none phys_inv_def wf_phys_pages(4))
  then show ?thesis using assms by (simp add: alloc_phys_page_def phys_inv_def first_freed_none)
qed

lemma first_unused:
  assumes "wf_phys s" "used_frames s \<noteq> phys_frames s"
  obtains i where "i < phys_pages s" "refcount s i = 0" "\<forall>j<i. refcount s j \<noteq> 0"
proof -
  from assms obtain k where "k < phys_pages s \<and> refcount s k = 0"
    by (auto simp: used_frames_def phys_frames_def)
  then have "\<exists>i. (i < phys_pages s \<and> refcount s i = 0) \<and> (\<forall>j<i. \<not> (j < phys_pages s \<and> refcount s j = 0))"
    by (rule exists_least_iff[THEN iffD1, OF exI])
  then show ?thesis using that by (meson order.strict_trans)
qed

lemma alloc_phys_free_index:
  "wf_phys s \<Longrightarrow> i < phys_pages s \<Longrightarrow> alloc_phys_free (alloc_phys_index_to_addr i s) s = set_refcount i 0 s"
  by (simp add: alloc_phys_free_def)

lemma index_zero_addr: "phys_inv s \<Longrightarrow> alloc_phys_index_to_addr 0 s = 0"
  by (simp add: phys_inv_def alloc_phys_index_to_addr_def wf_phys_pages(2))

interpretation pf: frame_allocator phys_inv used_frames phys_frames alloc_phys_page alloc_phys_free
proof unfold_locales
  fix s :: "'z phys_scheme" and a
  assume inv: "phys_inv s"
  then have wf: "wf_phys s" by (simp add: phys_inv_def)
  show "used_frames s \<subseteq> phys_frames s" by (auto simp: used_frames_def phys_frames_def)
  show "finite (phys_frames s)" by (simp add: phys_frames_def)
  have "0 < phys_pages s" using wf_phys_pages(7)[OF wf] inv by (simp add: phys_inv_def)
  then show "0 \<in> used_frames s"
    using used_frames_iff[OF wf, of 0] inv index_zero_addr[OF inv] by (simp add: phys_inv_def)
  { assume eq: "used_frames s = phys_frames s"
    then have "\<forall>i<phys_pages s. refcount s i \<noteq> 0"
      using used_frames_iff[OF wf] by (auto simp: phys_frames_def)
    then show "alloc_phys_page s = (0, s)" by (rule alloc_phys_page_full[OF inv]) }
  note full = this
  { assume "used_frames s \<noteq> phys_frames s"
    with wf obtain i where i: "i < phys_pages s" "refcount s i = 0" "\<forall>j<i. refcount s j \<noteq> 0"
      by (rule first_unused)
    then show "fst (alloc_phys_page s) \<in> phys_frames s - used_frames s \<and>
       used_frames (snd (alloc_phys_page s)) = insert (fst (alloc_phys_page s)) (used_frames s)"
      using alloc_phys_page_found[OF inv i] used_frames_iff[OF wf i(1)] used_frames_set_refcount[OF wf i(1)]
      by (auto simp: phys_frames_def) }
  show "phys_inv (snd (alloc_phys_page s)) \<and> phys_frames (snd (alloc_phys_page s)) = phys_frames s"
  proof (cases "used_frames s = phys_frames s")
    case True
    then show ?thesis using full inv by simp
  next
    case False
    with wf obtain i where i: "i < phys_pages s" "refcount s i = 0" "\<forall>j<i. refcount s j \<noteq> 0"
      by (rule first_unused)
    show ?thesis unfolding alloc_phys_page_found[OF inv i] using inv by (simp add: phys_inv_def)
  qed
  assume "a \<in> phys_frames s" "a \<noteq> 0"
  then obtain i where i: "i < phys_pages s" "a = alloc_phys_index_to_addr i s" by (auto simp: phys_frames_def)
  then have "i \<noteq> 0" using \<open>a \<noteq> 0\<close> index_zero_addr[OF inv] by metis
  then show "phys_inv (alloc_phys_free a s) \<and> phys_frames (alloc_phys_free a s) = phys_frames s \<and>
     used_frames (alloc_phys_free a s) = used_frames s - {a}"
    using inv wf i used_frames_set_refcount[OF wf i(1)] by (simp add: alloc_phys_free_index phys_inv_def)
qed

subsection \<open>Reserving frames at start-up\<close>

abbreviation reserve :: "u32 \<Rightarrow> 'z phys_scheme \<Rightarrow> 'z phys_scheme" where
  "reserve a s \<equiv> snd (alloc_phys_addr a s)"

lemma get_alloc_refcount_upd [simp]: "alloc_phys_get_alloc a (s\<lparr>refcount := r\<rparr>) = alloc_phys_get_alloc a s"
  by (simp add: alloc_phys_get_alloc_def alloc_phys_addr_to_index_def)

definition reserved :: "u32 list \<Rightarrow> 'z phys_scheme \<Rightarrow> nat \<Rightarrow> u8" where
  "reserved as s i = (if refcount s i = 0 \<and> (\<exists>a\<in>set as. alloc_phys_get_alloc a s = Some i) then 1 else refcount s i)"

lemma reserve_all: "fold reserve as s = s\<lparr>refcount := reserved as s\<rparr>"
proof (induction as arbitrary: s)
  case Nil
  then show ?case by (simp add: reserved_def[abs_def])
next
  case (Cons a as)
  have "reserved [a] s = (case alloc_phys_get_alloc a s of
      Some p \<Rightarrow> if refcount s p = 0 then (refcount s)(p := 1) else refcount s | None \<Rightarrow> refcount s)"
    by (auto simp: reserved_def fun_eq_iff split: option.split)
  then have *: "reserve a s = s\<lparr>refcount := reserved [a] s\<rparr>"
    by (cases "alloc_phys_get_alloc a s") (simp_all add: alloc_phys_addr_def set_refcount_def)
  have "reserved as (s\<lparr>refcount := r\<rparr>) i = (if r i = 0 \<and> (\<exists>b\<in>set as. alloc_phys_get_alloc b s = Some i) then 1 else r i)" for r i
    unfolding reserved_def get_alloc_refcount_upd by simp
  note upd = this
  have "reserved as (s\<lparr>refcount := reserved [a] s\<rparr>) i = reserved (a # as) s i" for i
    unfolding upd unfolding reserved_def
    by (cases "refcount s i = 0"; cases "alloc_phys_get_alloc a s = Some i") simp_all
  then have "reserved as (s\<lparr>refcount := reserved [a] s\<rparr>) = reserved (a # as) s" ..
  then show ?case by (simp add: Cons.IH *)
qed

text \<open>The totals that the bootloader's figures give, and the end of the bytemap.\<close>

definition mboot_sane :: "mboot_mem \<Rightarrow> bool" where
  "mboot_sane mb \<longleftrightarrow> unat (memory_lower mb) \<le> 1024 \<and> unat (memory_upper mb) \<le> 4193280"

definition bytemap_pages :: "mboot_mem \<Rightarrow> u32 \<Rightarrow> u32 list" where
  "bytemap_pages mb e =
     (let base = align_page e + 0x1000
      in page_addrs base (base + (memory_upper mb * 1024 div 4096 + memory_lower mb * 1024 div 4096)))"

lemma cleared_bytemap:
  assumes "unat (n :: u32) \<le> 1048576"
  shows "unat n \<le> 4 * unat ((n + 4096) div 4)"
proof -
  have "unat ((n + 4096) div 4) = (unat n + 4096) div 4"
    using assms by (simp add: unat_div_distrib unat_word_ariths)
  then show ?thesis by presburger
qed

lemma init_phys_memory_reserves:
  assumes "mboot_sane mb" "unat e \<le> 0xE0000000"
  shows "\<exists>s'. init_phys_memory mb e s = Some s' \<and> wf_phys s' \<and> free_list s' = free_list s \<and>
     phys_pages s' = unat (memory_upper mb) div 4 + unat (memory_lower mb) div 4 \<and>
     allocations s' = align_page e + 0x1000 \<and>
     (\<forall>i<phys_pages s'. refcount s' i =
        (if \<exists>a\<in>set (bytemap_pages mb e). alloc_phys_get_alloc a s' = Some i then 1 else 0))"
proof -
  define lo up base where d: "lo = memory_lower mb * 1024" "up = memory_upper mb * 1024" "base = align_page e + 0x1000"
  define n where n: "n = up div 4096 + lo div 4096"
  define c where c: "c = 4 * unat ((n + 4096) div 4)"
  define s1 where s1: "s1 = s\<lparr>total_usable_lower := lo, total_usable_lower_pages := lo div 4096,
                 total_usable_upper := up, total_usable_upper_pages := up div 4096,
                 total_usable_bytes := lo + up, total_usable_pages := n,
                 allocations := base, allocations_size := n,
                 refcount := (\<lambda>i. if i < c then 0 else refcount s i)\<rparr>"
  have ulo: "unat lo = unat (memory_lower mb) * 1024" and uup: "unat up = unat (memory_upper mb) * 1024"
    using assms(1) by (simp_all add: d mboot_sane_def unat_word_ariths)
  have wf: "wf_phys s1" using assms(1) ulo uup by (simp add: s1 n wf_phys_def mboot_sane_def)
  have pp: "phys_pages s1 = unat (memory_upper mb) div 4 + unat (memory_lower mb) div 4"
    using ulo uup by (simp add: s1 phys_pages_def)
  have un: "unat n = phys_pages s1" using wf_phys_pages(3)[OF wf] by (simp add: s1)
  have cap: "phys_pages s1 \<le> 1048576" by (rule wf_phys_pages(6)[OF wf])
  have cl: "i < phys_pages s1 \<Longrightarrow> i < c" for i using cleared_bytemap[of n] cap un c by simp
  have "unat (align_page e) \<le> 0xE0000000" using assms(2) by (simp add: align_page_unat)
  then have "unat (base + n) \<le> 0xFFFFF000" using cap un by (simp add: d unat_word_ariths)
  note loop = for_pages_fold[OF this, of base reserve s1, unfolded reserve_all]
  have "init_phys_memory mb e s = for_pages base (base + n) reserve s1"
    by (simp add: init_phys_memory_def Let_def d n c s1)
  with loop have run: "init_phys_memory mb e s = Some (s1\<lparr>refcount := reserved (bytemap_pages mb e) s1\<rparr>)"
    by (simp add: bytemap_pages_def Let_def d n)
  let ?s' = "s1\<lparr>refcount := reserved (bytemap_pages mb e) s1\<rparr>"
  have "wf_phys ?s'" "phys_pages ?s' = phys_pages s1" using wf by (simp_all add: wf_phys_def phys_pages_def)
  moreover have "\<forall>i<phys_pages s1. reserved (bytemap_pages mb e) s1 i =
      (if \<exists>a\<in>set (bytemap_pages mb e). alloc_phys_get_alloc a s1 = Some i then 1 else 0)"
    using cl by (simp add: reserved_def s1)
  moreover have "free_list ?s' = free_list s" "allocations ?s' = align_page e + 0x1000" by (simp_all add: s1 d)
  ultimately show ?thesis using run pp by simp
qed

end
