(* ===== verification/Gdt.thy ===== *)
theory Gdt
  imports Memory_Phys
begin

text \<open>
  Segmentation, \<^verbatim>\<open>kernel/memory/gdt.c\<close>: the global descriptor table with its six gates and the task
  state segment whose \<open>esp0\<close> the scheduler sets. The two inline assembly blocks load the table
  register, the segment registers and the task register; their operands are kept in the state.
\<close>

record gdt_entry =
  limit_low :: u16
  base_low :: u16
  base_middle :: u8
  ge_access :: u8
  granularity :: u8
  base_high :: u8

text \<open>The fields of \<open>tss_t\<close> that the kernel sets; \<open>memset_8\<close> clears all the others.\<close>

record tss =
  esp0 :: u32
  ss0 :: u32
  tss_cs :: u32
  tss_ss :: u32
  tss_ds :: u32
  tss_es :: u32
  tss_fs :: u32
  tss_gs :: u32
  io_map :: u16

record gdtr = phys +
  gdt :: "nat \<Rightarrow> gdt_entry"
  gp_limit :: u16
  gp_base :: u32
  tss_table :: tss
  seg_data :: u16
  seg_code :: u16
  task_register :: u16

definition KERN_NULL_GATE :: nat where "KERN_NULL_GATE = 0x00"
definition KERN_CODE_GATE :: nat where "KERN_CODE_GATE = 0x08"
definition KERN_DATA_GATE :: nat where "KERN_DATA_GATE = 0x10"
definition USER_CODE_GATE :: nat where "USER_CODE_GATE = 0x18"
definition USER_DATA_GATE :: nat where "USER_DATA_GATE = 0x20"
definition TSS_GATE :: nat where "TSS_GATE = 0x28"
definition GDT_ENTRIES :: nat where "GDT_ENTRIES = 6"
definition sizeof_gdt_entry :: nat where "sizeof_gdt_entry = 8"
definition sizeof_tss :: nat where "sizeof_tss = 104"

lemmas gate_defs = KERN_NULL_GATE_def KERN_CODE_GATE_def KERN_DATA_GATE_def USER_CODE_GATE_def
  USER_DATA_GATE_def TSS_GATE_def GDT_ENTRIES_def sizeof_gdt_entry_def sizeof_tss_def

definition gdt_entry_zero :: gdt_entry where
  "gdt_entry_zero = \<lparr>limit_low = 0, base_low = 0, base_middle = 0, ge_access = 0, granularity = 0, base_high = 0\<rparr>"

definition tss_zero :: tss where
  "tss_zero = \<lparr>esp0 = 0, ss0 = 0, tss_cs = 0, tss_ss = 0, tss_ds = 0, tss_es = 0, tss_fs = 0, tss_gs = 0, io_map = 0\<rparr>"

definition gate_entry :: "u32 \<Rightarrow> u32 \<Rightarrow> u8 \<Rightarrow> u8 \<Rightarrow> gdt_entry" where
  "gate_entry bas lim acc grn =
     \<lparr>limit_low = ucast lim AND 0xFFFF, base_low = ucast bas AND 0xFFFF,
      base_middle = ucast (drop_bit 16 bas) AND 0xFF, ge_access = acc,
      granularity = (ucast (drop_bit 16 lim) AND 0x0F) OR (grn AND 0xF0),
      base_high = ucast (drop_bit 24 bas) AND 0xFF\<rparr>"

definition initialise_gate :: "nat \<Rightarrow> u32 \<Rightarrow> u32 \<Rightarrow> u8 \<Rightarrow> u8 \<Rightarrow> 'z gdtr_scheme \<Rightarrow> 'z gdtr_scheme" where
  "initialise_gate sel bas lim acc grn s =
     (let index = sel div 8 in s\<lparr>gdt := (gdt s)(index := gate_entry bas lim acc grn)\<rparr>)"

text \<open>\<open>gdt_addr\<close> and \<open>tss_addr\<close> are the addresses the linker gives to \<open>gdt\<close> and \<open>tss_table\<close>.\<close>

definition gdt_initialise :: "u32 \<Rightarrow> u32 \<Rightarrow> 'z gdtr_scheme \<Rightarrow> 'z gdtr_scheme" where
  "gdt_initialise gdt_addr tss_addr s =
     (let s = s\<lparr>gp_limit := of_nat (sizeof_gdt_entry * GDT_ENTRIES) - 1, gp_base := gdt_addr,
                gdt := (\<lambda>i. if i < GDT_ENTRIES then gdt_entry_zero else gdt s i)\<rparr>;
          s = initialise_gate KERN_NULL_GATE 0 0 0x00 0x00 s;
          s = initialise_gate KERN_CODE_GATE 0 0xFFFFFFFF 0x9A 0xCF s;
          s = initialise_gate KERN_DATA_GATE 0 0xFFFFFFFF 0x92 0xCF s;
          s = initialise_gate USER_CODE_GATE 0 0xFFFFFFFF 0xFA 0xCF s;
          s = initialise_gate USER_DATA_GATE 0 0xFFFFFFFF 0xF2 0xCF s;
          s = initialise_gate TSS_GATE tss_addr (of_nat sizeof_tss) 0x89 0x00 s
      in s\<lparr>tss_table := tss_zero\<lparr>ss0 := 0x10, esp0 := 0x00, tss_cs := 0x0b, tss_ss := 0x13, tss_ds := 0x13,
             tss_es := 0x13, tss_fs := 0x13, tss_gs := 0x13, io_map := of_nat sizeof_tss\<rparr>,
           seg_data := of_nat KERN_DATA_GATE, seg_code := of_nat KERN_CODE_GATE, task_register := 0x2B\<rparr>)"

definition get_tss :: "'z gdtr_scheme \<Rightarrow> tss" where
  "get_tss s = tss_table s"

subsection \<open>What the processor reads from a descriptor\<close>

definition entry_base :: "gdt_entry \<Rightarrow> u32" where
  "entry_base e = ucast (base_low e) OR push_bit 16 (ucast (base_middle e)) OR push_bit 24 (ucast (base_high e))"

definition entry_limit :: "gdt_entry \<Rightarrow> u32" where
  "entry_limit e = ucast (limit_low e) OR push_bit 16 (ucast (granularity e AND 0x0F))"

definition entry_dpl :: "gdt_entry \<Rightarrow> nat" where
  "entry_dpl e = unat (drop_bit 5 (ge_access e) AND 3)"

definition entry_present :: "gdt_entry \<Rightarrow> bool" where
  "entry_present e \<longleftrightarrow> bit (ge_access e) 7"

definition entry_executable :: "gdt_entry \<Rightarrow> bool" where
  "entry_executable e \<longleftrightarrow> bit (ge_access e) 3"

definition entry_page_granular :: "gdt_entry \<Rightarrow> bool" where
  "entry_page_granular e \<longleftrightarrow> bit (granularity e) 7"

lemma gate_entry_base: "entry_base (gate_entry bas lim acc grn) = bas"
proof (rule bit_word_eqI)
  fix n assume "n < LENGTH(32)"
  then show "bit (entry_base (gate_entry bas lim acc grn)) n = bit bas n"
    by (cases "n < 16"; cases "n < 24") (auto simp: entry_base_def gate_entry_def bit_simps)
qed

lemma gate_entry_limit: "entry_limit (gate_entry bas lim acc grn) = lim AND mask 20"
proof (rule bit_word_eqI)
  fix n assume "n < LENGTH(32)"
  then show "bit (entry_limit (gate_entry bas lim acc grn)) n = bit (lim AND mask 20) n"
    by (auto simp: entry_limit_def gate_entry_def bit_simps u8_low_nibble u8_high_nibble)
qed

text \<open>
  After \<open>gdt_initialise\<close> the four code and data segments are flat, 4 GiB long, and separate ring 0
  from ring 3; the task gate describes the task state segment.
\<close>

lemma gdt_initialise_gdt:
  "gdt (gdt_initialise g t s) =
     ((((((\<lambda>i. if i < 6 then gdt_entry_zero else gdt s i)(0 := gate_entry 0 0 0 0))(1 := gate_entry 0 0xFFFFFFFF 0x9A 0xCF))
       (2 := gate_entry 0 0xFFFFFFFF 0x92 0xCF))(3 := gate_entry 0 0xFFFFFFFF 0xFA 0xCF))
       (4 := gate_entry 0 0xFFFFFFFF 0xF2 0xCF))(5 := gate_entry t 104 0x89 0x00)"
  by (simp add: gdt_initialise_def initialise_gate_def Let_def gate_defs)

definition seg :: "gdt_entry \<Rightarrow> u32 \<times> u32 \<times> nat \<times> bool \<times> bool \<times> bool" where
  "seg e = (entry_base e, entry_limit e, entry_dpl e, entry_present e, entry_executable e, entry_page_granular e)"

lemma gdt_initialise_segments:
  "seg (gdt (gdt_initialise g t s) (KERN_CODE_GATE div 8)) = (0, 0xFFFFF, 0, True, True, True)"
  "seg (gdt (gdt_initialise g t s) (KERN_DATA_GATE div 8)) = (0, 0xFFFFF, 0, True, False, True)"
  "seg (gdt (gdt_initialise g t s) (USER_CODE_GATE div 8)) = (0, 0xFFFFF, 3, True, True, True)"
  "seg (gdt (gdt_initialise g t s) (USER_DATA_GATE div 8)) = (0, 0xFFFFF, 3, True, False, True)"
  "entry_base (gdt (gdt_initialise g t s) (TSS_GATE div 8)) = t"
  unfolding gdt_initialise_gdt seg_def gate_entry_base
  by (simp_all add: gate_entry_limit gate_entry_base gate_defs)
     (simp_all add: gate_entry_def entry_dpl_def entry_present_def entry_executable_def entry_page_granular_def
        mask_eq_exp_minus_1)

end
