(* ===== verification/Interrupts.thy ===== *)
theory Interrupts
  imports Gdt
begin

text \<open>
  Interrupt descriptor table, dispatch and acknowledgement: \<^verbatim>\<open>kernel/interrupts/idt.c\<close>, \<^verbatim>\<open>isr.c\<close> and
  \<^verbatim>\<open>interrupts.c\<close>. Writes to i/o ports are appended to the trace \<open>port_log\<close>. The assembly entry
  stubs have addresses only the linker knows: they come as a record \<open>stubs\<close>. A handler is a function
  pointer; \<open>isr_handler\<close> takes what a call through it does as its argument.
\<close>

record registers =
  r_edi :: u32
  r_esi :: u32
  r_ebp :: u32
  r_esp :: u32
  r_ebx :: u32
  r_edx :: u32
  r_ecx :: u32
  r_eax :: u32
  int_no :: u32
  err_code :: u32
  r_eip :: u32
  r_cs :: u32
  r_ds :: u32
  r_es :: u32
  r_fs :: u32
  r_gs :: u32
  r_eflags :: u32
  useresp :: u32
  r_ss :: u32

record idt_entry =
  base_lo :: u16
  selector :: u16
  reserved_unknown :: u8
  ie_size :: "5 word"
  privilege :: "2 word"
  ie_present :: "1 word"
  base_hi :: u16

record stubs =
  isr_stub :: "nat \<Rightarrow> ptr"
  ignore_isr :: ptr
  ignore_isr_error :: ptr
  ignore_irq_master :: ptr
  ignore_irq_slave :: ptr

record intr = gdtr +
  idt :: "nat \<Rightarrow> idt_entry"
  idt_p_limit :: u16
  idt_p_base :: u32
  interrupt_vector_catchers :: "nat \<Rightarrow> ptr"
  interrupt_handlers :: "nat \<Rightarrow> ptr"
  interrupt_flag :: bool
  port_log :: "(u16 \<times> u8) list"

definition IDT_ENTRIES :: nat where "IDT_ENTRIES = 256"

definition DPL_KERNEL :: u8 where "DPL_KERNEL = 0"
definition DPL_USER :: u8 where "DPL_USER = 3"

definition write_port_8 :: "u16 \<Rightarrow> u8 \<Rightarrow> 'z intr_scheme \<Rightarrow> 'z intr_scheme" where
  "write_port_8 port val s = s\<lparr>port_log := port_log s @ [(port, val)]\<rparr>"

definition enable_interrupts :: "'z intr_scheme \<Rightarrow> 'z intr_scheme" where
  "enable_interrupts s = s\<lparr>interrupt_flag := True\<rparr>"

definition disable_interrupts :: "'z intr_scheme \<Rightarrow> 'z intr_scheme" where
  "disable_interrupts s = s\<lparr>interrupt_flag := False\<rparr>"

subsection \<open>Gates\<close>

definition gate_addr :: "idt_entry \<Rightarrow> u32" where
  "gate_addr e = (0xFFFF0000 AND push_bit 16 (ucast (base_hi e))) XOR (0x0000FFFF AND ucast (base_lo e))"

definition check_if_vector_installed :: "stubs \<Rightarrow> nat \<Rightarrow> 'z intr_scheme \<Rightarrow> bool" where
  "check_if_vector_installed st n s =
     (let addr = gate_addr (idt s n)
      in \<not> (addr = 0 \<or> addr = ignore_isr st \<or> addr = ignore_isr_error st \<or>
            addr = ignore_irq_master st \<or> addr = ignore_irq_slave st))"

definition set_gate :: "nat \<Rightarrow> ptr \<Rightarrow> u16 \<Rightarrow> u8 \<Rightarrow> u8 \<Rightarrow> 'z intr_scheme \<Rightarrow> 'z intr_scheme" where
  "set_gate n vector_catcher sel priv pres s =
     s\<lparr>idt := (idt s)(n := \<lparr>base_lo = ucast (vector_catcher AND 0xFFFF), selector = sel, reserved_unknown = 0,
                            ie_size = 0xE, privilege = ucast priv, ie_present = ucast pres,
                            base_hi = ucast (drop_bit 16 (vector_catcher AND 0xFFFF0000))\<rparr>)\<rparr>"

text \<open>The comparisons of the C \<open>int\<close> argument with the bounds make it an index below 256.\<close>

definition install_interrupt_vector :: "int \<Rightarrow> u8 \<Rightarrow> 'z intr_scheme \<Rightarrow> 'z intr_scheme" where
  "install_interrupt_vector n priv s =
     (if 0 \<le> n \<and> n < int IDT_ENTRIES
      then set_gate (nat n) (interrupt_vector_catchers s (nat n)) (of_nat KERN_CODE_GATE) priv 1 s else s)"

definition uninstall_interrupt_vector :: "stubs \<Rightarrow> int \<Rightarrow> 'z intr_scheme \<Rightarrow> 'z intr_scheme" where
  "uninstall_interrupt_vector st n s =
     (if 0 \<le> n \<and> n < int IDT_ENTRIES
      then (if (0 \<le> n \<and> n \<le> 7) \<or> n = 9 \<or> (15 \<le> n \<and> n \<le> 31)
            then set_gate (nat n) (ignore_isr st) (of_nat KERN_CODE_GATE) 0 1 s
            else if n = 8 \<or> (10 \<le> n \<and> n \<le> 14)
            then set_gate (nat n) (ignore_isr_error st) (of_nat KERN_CODE_GATE) 0 1 s
            else if 32 \<le> n \<and> n \<le> 39
            then set_gate (nat n) (ignore_irq_master st) (of_nat KERN_CODE_GATE) 0 1 s
            else if 40 \<le> n \<and> n \<le> 47
            then set_gate (nat n) (ignore_irq_slave st) (of_nat KERN_CODE_GATE) 0 1 s
            else s)
      else s)"

text \<open>The table of entry stubs: the 32 exceptions, the 16 hardware interrupts and the system call.\<close>

definition set_vector_catchers :: "stubs \<Rightarrow> 'z intr_scheme \<Rightarrow> 'z intr_scheme" where
  "set_vector_catchers st s =
     s\<lparr>interrupt_vector_catchers :=
         (\<lambda>n. if n < 48 \<or> n = 50 then isr_stub st n else interrupt_vector_catchers s n)\<rparr>"

definition idt_entry_zero :: idt_entry where
  "idt_entry_zero = \<lparr>base_lo = 0, selector = 0, reserved_unknown = 0, ie_size = 0, privilege = 0, ie_present = 0, base_hi = 0\<rparr>"

text \<open>The words sent to the two interrupt controllers.\<close>

definition pic_setup :: "(u16 \<times> u8) list" where
  "pic_setup = [(0x20, 0x11), (0xA0, 0x11), (0x21, 0x20), (0xA1, 0x28), (0x21, 0x04), (0xA1, 0x02),
                (0x21, 0x01), (0xA1, 0x01), (0x21, 0x00), (0xA1, 0x00)]"

definition idt_initialise :: "stubs \<Rightarrow> u32 \<Rightarrow> 'z intr_scheme \<Rightarrow> 'z intr_scheme" where
  "idt_initialise st idt_addr s =
     (let s = disable_interrupts s;
          s = set_vector_catchers st s;
          s = s\<lparr>idt_p_limit := of_nat (8 * IDT_ENTRIES) - 1, idt_p_base := idt_addr,
                idt := (\<lambda>i. if i < IDT_ENTRIES then idt_entry_zero else idt s i)\<rparr>;
          s = fold (\<lambda>v. uninstall_interrupt_vector st (int v)) [0..<IDT_ENTRIES] s;
          s = fold (\<lambda>v. install_interrupt_vector (int v) 0) [0..<32] s;
          s = fold (\<lambda>(p, v). write_port_8 p v) pic_setup s
      in enable_interrupts s)"

definition interrupts_initialise :: "stubs \<Rightarrow> u32 \<Rightarrow> 'z intr_scheme \<Rightarrow> 'z intr_scheme" where
  "interrupts_initialise st idt_addr s = idt_initialise st idt_addr s"

subsection \<open>Handlers\<close>

definition register_interrupt_handler :: "u8 \<Rightarrow> ptr \<Rightarrow> 'z intr_scheme \<Rightarrow> 'z intr_scheme" where
  "register_interrupt_handler n handler s =
     s\<lparr>interrupt_handlers := (interrupt_handlers s)(unat n := handler)\<rparr>"

text \<open>The interrupt number is one of the constants of \<^verbatim>\<open>isr.h\<close>, so it is a natural number below 256.\<close>

definition install_interrupt_handler :: "stubs \<Rightarrow> nat \<Rightarrow> ptr \<Rightarrow> u8 \<Rightarrow> 'z intr_scheme \<Rightarrow> 'z intr_scheme" where
  "install_interrupt_handler st n handler priv s =
     (let s = disable_interrupts s;
          s = (if \<not> check_if_vector_installed st n s then install_interrupt_vector (int n) priv s else s);
          s = register_interrupt_handler (of_nat n) handler s
      in enable_interrupts s)"

definition clear_irq :: "registers \<Rightarrow> 'z intr_scheme \<Rightarrow> 'z intr_scheme" where
  "clear_irq regs s =
     (let s = (if 32 \<le> int_no regs \<and> int_no regs \<le> 47 then write_port_8 0x20 0x20 s else s)
      in if 40 \<le> int_no regs \<and> int_no regs \<le> 47 then write_port_8 0xA0 0x20 s else s)"

definition isr_handler ::
  "(ptr \<Rightarrow> registers \<Rightarrow> 'z intr_scheme \<Rightarrow> registers \<times> 'z intr_scheme) \<Rightarrow> registers \<Rightarrow> 'z intr_scheme \<Rightarrow> registers \<times> 'z intr_scheme"
where
  "isr_handler call regs s =
     (let func = interrupt_handlers s (unat (int_no regs))
      in if func \<noteq> 0 then (let (ret_regs, s) = call func regs s in (ret_regs, clear_irq ret_regs s))
         else (regs, clear_irq regs s))"

subsection \<open>Gates and dispatch are right\<close>

lemma ffff0000: "(0xFFFF0000 :: u32) = push_bit 16 (mask 16)"
  by (simp add: mask_eq_exp_minus_1)

lemma ffff: "(0xFFFF :: u32) = mask 16"
  by (simp add: mask_eq_exp_minus_1)

lemma set_gate_idt:
  "idt (set_gate n c sel p q s) = (idt s)(n := idt (set_gate n c sel p q s) n)"
  by (simp add: set_gate_def)

lemma gate_addr_set_gate [simp]: "gate_addr (idt (set_gate n c sel p q s) n) = c"
proof (rule bit_word_eqI)
  fix i assume "i < LENGTH(32)"
  then show "bit (gate_addr (idt (set_gate n c sel p q s) n)) i = bit c i"
    by (cases "i < 16") (auto simp: gate_addr_def set_gate_def bit_simps ffff0000 ffff)
qed

lemma set_gate_other [simp]: "m \<noteq> n \<Longrightarrow> idt (set_gate n c sel p q s) m = idt s m"
  by (simp add: set_gate_def)

lemma set_gate_sel [simp]:
  "interrupt_vector_catchers (set_gate n c sel p q s) = interrupt_vector_catchers s"
  "interrupt_handlers (set_gate n c sel p q s) = interrupt_handlers s"
  "port_log (set_gate n c sel p q s) = port_log s"
  by (simp_all add: set_gate_def)

definition real_stub :: "stubs \<Rightarrow> ptr \<Rightarrow> bool" where
  "real_stub st a \<longleftrightarrow> a \<noteq> 0 \<and> a \<noteq> ignore_isr st \<and> a \<noteq> ignore_isr_error st \<and>
     a \<noteq> ignore_irq_master st \<and> a \<noteq> ignore_irq_slave st"

lemma check_vector_iff: "check_if_vector_installed st n s \<longleftrightarrow> real_stub st (gate_addr (idt s n))"
  by (simp add: check_if_vector_installed_def real_stub_def Let_def)

lemma install_interrupt_handler_effect:
  fixes h :: ptr and p :: u8
  assumes n: "n < 256" and stub: "real_stub st (interrupt_vector_catchers s n)"
  defines "s' \<equiv> install_interrupt_handler st n h p s"
  shows "interrupt_handlers s' = (interrupt_handlers s)(n := h)"
    "check_if_vector_installed st n s'" "interrupt_flag s'"
    "\<And>m. m \<noteq> n \<Longrightarrow> idt s' m = idt s m"
    "gate_addr (idt s' n) = (if check_if_vector_installed st n s then gate_addr (idt s n) else interrupt_vector_catchers s n)"
proof -
  have u: "unat (of_nat n :: u8) = n" using n by (simp add: unat_of_nat take_bit_nat_eq_self)
  note defs = s'_def install_interrupt_handler_def Let_def register_interrupt_handler_def enable_interrupts_def
    disable_interrupts_def install_interrupt_vector_def IDT_ENTRIES_def check_vector_iff
  show "interrupt_handlers s' = (interrupt_handlers s)(n := h)" using n u by (simp add: defs)
  show "check_if_vector_installed st n s'" using n stub by (simp add: defs)
  show "interrupt_flag s'" by (simp add: defs)
  show "\<And>m. m \<noteq> n \<Longrightarrow> idt s' m = idt s m" using n by (simp add: defs)
  show "gate_addr (idt s' n) = (if check_if_vector_installed st n s then gate_addr (idt s n) else interrupt_vector_catchers s n)"
    using n by (simp add: defs)
qed

lemma clear_irq_ports:
  "port_log (clear_irq regs s) = port_log s @
     (if 40 \<le> int_no regs \<and> int_no regs \<le> 47 then [(0x20, 0x20), (0xA0, 0x20)]
      else if 32 \<le> int_no regs \<and> int_no regs \<le> 47 then [(0x20, 0x20)] else [])"
proof -
  have "32 \<le> x" if "40 \<le> x" for x :: u32 using that by (rule order_trans[rotated]) simp
  then show ?thesis by (auto simp: clear_irq_def write_port_8_def Let_def)
qed

subsection \<open>The state after initialisation\<close>

definition quiet_stub :: "stubs \<Rightarrow> nat \<Rightarrow> ptr" where
  "quiet_stub st n = (if n \<le> 7 \<or> n = 9 \<or> (15 \<le> n \<and> n \<le> 31) then ignore_isr st
     else if n = 8 \<or> (10 \<le> n \<and> n \<le> 14) then ignore_isr_error st
     else if n \<le> 39 then ignore_irq_master st else ignore_irq_slave st)"

lemma uninstall_vector:
  "n < 48 \<Longrightarrow> uninstall_interrupt_vector st (int n) s = set_gate n (quiet_stub st n) 8 0 1 s"
  "48 \<le> n \<Longrightarrow> uninstall_interrupt_vector st (int n) s = s"
  by (auto simp: uninstall_interrupt_vector_def quiet_stub_def IDT_ENTRIES_def KERN_CODE_GATE_def)

lemma uninstall_vectors:
  "gate_addr (idt (fold (\<lambda>v. uninstall_interrupt_vector st (int v)) [0..<n] s) i) =
     (if i < n \<and> i < 48 then quiet_stub st i else gate_addr (idt s i))"
proof (induction n)
  case 0
  then show ?case by simp
next
  case (Suc n)
  then show ?case
    by (cases "n < 48"; cases "i = n") (simp_all add: uninstall_vector less_Suc_eq)
qed

lemma uninstall_vectors_sel:
  "interrupt_vector_catchers (fold (\<lambda>v. uninstall_interrupt_vector st (int v)) [0..<n] s) = interrupt_vector_catchers s"
  "port_log (fold (\<lambda>v. uninstall_interrupt_vector st (int v)) [0..<n] s) = port_log s"
  by (induction n) (simp_all add: uninstall_interrupt_vector_def)

lemma install_vectors_sel:
  "interrupt_vector_catchers (fold (\<lambda>v. install_interrupt_vector (int v) p) [0..<n] s) = interrupt_vector_catchers s"
  "port_log (fold (\<lambda>v. install_interrupt_vector (int v) p) [0..<n] s) = port_log s"
  by (induction n) (simp_all add: install_interrupt_vector_def)

lemma install_vectors:
  "n \<le> 256 \<Longrightarrow> gate_addr (idt (fold (\<lambda>v. install_interrupt_vector (int v) p) [0..<n] s) i) =
     (if i < n then interrupt_vector_catchers s i else gate_addr (idt s i))"
proof (induction n)
  case 0
  then show ?case by simp
next
  case (Suc n)
  then show ?case
    by (cases "i = n")
      (simp_all add: install_interrupt_vector_def[of "int n"] IDT_ENTRIES_def install_vectors_sel less_Suc_eq)
qed

lemma write_ports_sel:
  "idt (fold (\<lambda>(p, v). write_port_8 p v) ws s) = idt s"
  "port_log (fold (\<lambda>(p, v). write_port_8 p v) ws s) = port_log s @ ws"
  by (induction ws arbitrary: s) (auto simp: write_port_8_def)

lemma gate_addr_zero: "gate_addr idt_entry_zero = 0"
  by (simp add: gate_addr_def idt_entry_zero_def)

lemma idt_initialise_state:
  "gate_addr (idt (idt_initialise st a s) n) =
     (if n < 32 then isr_stub st n else if n < 48 then quiet_stub st n else if n < 256 then 0 else gate_addr (idt s n))"
  "port_log (idt_initialise st a s) = port_log s @ pic_setup"
  "interrupt_flag (idt_initialise st a s)"
  by (simp_all add: idt_initialise_def Let_def enable_interrupts_def write_ports_sel install_vectors install_vectors_sel
      uninstall_vectors uninstall_vectors_sel set_vector_catchers_def disable_interrupts_def IDT_ENTRIES_def
      gate_addr_zero)

end
