(* ===== verification/Memory_Paging.thy ===== *)
theory Memory_Paging
  imports Interrupts
begin

text \<open>
  Two-level paging, \<^verbatim>\<open>kernel/memory/memory_paging.c\<close>. Physical memory is a map from frame numbers to
  the 1024 words of a frame. The kernel reaches a frame it wants to edit through a window: the page at
  0xC0000000, which \<open>temp_map_page\<close> points at the frame. \<open>window\<close> is the frame the window shows, so a
  pointer obtained from \<open>temp_map_page\<close> reads and writes whatever frame the window shows at that moment.
  The translation buffer is not modelled: \<open>invlpg\<close> and the reload of \<open>cr3\<close> keep the state.
\<close>

subsection \<open>State and entries\<close>

record vm = intr +
  mem :: "u32 \<Rightarrow> nat \<Rightarrow> u32"
  window :: u32
  page_directory :: u32
  kernel_pagedir :: u32
  cr3 :: u32
  paging_status :: bool
  temp_page :: u32

definition present_bit :: "u32 \<Rightarrow> bool" where "present_bit e \<longleftrightarrow> bit e 0"
definition read_write :: "u32 \<Rightarrow> bool" where "read_write e \<longleftrightarrow> bit e 1"
definition user_supervisor :: "u32 \<Rightarrow> bool" where "user_supervisor e \<longleftrightarrow> bit e 2"

text \<open>\<open>page_addr\<close> and \<open>page_table_addr\<close>: the upper twenty bits of an entry.\<close>

definition page_addr :: "u32 \<Rightarrow> u32" where "page_addr e = drop_bit 12 e"

definition set_present :: "bool \<Rightarrow> u32 \<Rightarrow> u32" where "set_present b e = (if b then set_bit 0 e else unset_bit 0 e)"
definition set_read_write :: "bool \<Rightarrow> u32 \<Rightarrow> u32" where "set_read_write b e = (if b then set_bit 1 e else unset_bit 1 e)"
definition set_user :: "bool \<Rightarrow> u32 \<Rightarrow> u32" where "set_user b e = (if b then set_bit 2 e else unset_bit 2 e)"
definition set_page_addr :: "u32 \<Rightarrow> u32 \<Rightarrow> u32" where
  "set_page_addr f e = (e AND mask 12) OR push_bit 12 f"

definition get_page_directory_address :: "'z vm_scheme \<Rightarrow> u32" where
  "get_page_directory_address s = (if \<not> paging_status s then page_directory s else cr3 s)"

definition get_page_directory_index :: "u32 \<Rightarrow> nat" where
  "get_page_directory_index virt_addr = unat (drop_bit 22 virt_addr AND LAST_PAGE_TABLE_INDEX)"

definition get_page_table_index :: "u32 \<Rightarrow> nat" where
  "get_page_table_index virt_addr = unat (drop_bit 12 virt_addr AND LAST_PAGE_TABLE_INDEX)"

subsection \<open>The window\<close>

definition temp_map_page :: "u32 \<Rightarrow> 'z vm_scheme \<Rightarrow> 'z vm_scheme" where
  "temp_map_page physical s = s\<lparr>window := drop_bit 12 physical\<rparr>"

definition win_read :: "nat \<Rightarrow> 'z vm_scheme \<Rightarrow> u32" where
  "win_read i s = mem s (window s) i"

definition win_write :: "nat \<Rightarrow> u32 \<Rightarrow> 'z vm_scheme \<Rightarrow> 'z vm_scheme" where
  "win_write i v s = s\<lparr>mem := (mem s)(window s := (mem s (window s))(i := v))\<rparr>"

text \<open>\<open>memset_32\<close> of 1024 zero words through the window.\<close>

definition win_clear :: "'z vm_scheme \<Rightarrow> 'z vm_scheme" where
  "win_clear s = fold (\<lambda>i. win_write i 0) [0..<1024] s"

definition swap_page_directory :: "u32 \<Rightarrow> 'z vm_scheme \<Rightarrow> 'z vm_scheme" where
  "swap_page_directory a s = s\<lparr>page_directory := a, cr3 := a\<rparr>"

definition flush_tlb_specific :: "u32 \<Rightarrow> 'z vm_scheme \<Rightarrow> 'z vm_scheme" where
  "flush_tlb_specific addr s = s"

definition flush_tlb :: "'z vm_scheme \<Rightarrow> 'z vm_scheme" where
  "flush_tlb s = s\<lparr>cr3 := cr3 s\<rparr>"

text \<open>The frame that the processor finds behind a virtual address under the current directory.\<close>

definition mmu_frame :: "u32 \<Rightarrow> 'z vm_scheme \<Rightarrow> u32" where
  "mmu_frame v s =
     (let pde = mem s (page_addr (cr3 s)) (get_page_directory_index v)
      in page_addr (mem s (page_addr pde) (get_page_table_index v)))"

subsection \<open>Mapping one page\<close>

definition get_mapped_address :: "u32 \<Rightarrow> u32 \<Rightarrow> 'z vm_scheme \<Rightarrow> u32 \<times> 'z vm_scheme" where
  "get_mapped_address directory virt_addr s =
     (let virt_addr = align_page virt_addr;
          s = temp_map_page directory s;
          page_tab = push_bit 12 (page_addr (win_read (get_page_directory_index virt_addr) s))
      in if page_tab \<noteq> 0
         then (let s = temp_map_page page_tab s
               in (push_bit 12 (page_addr (win_read (get_page_table_index virt_addr) s)), s))
         else (0, s))"

definition unset_page_table_entry :: "u32 \<Rightarrow> u32 \<Rightarrow> 'z vm_scheme \<Rightarrow> 'z vm_scheme" where
  "unset_page_table_entry directory virt_addr s =
     (let virt_addr = align_page virt_addr;
          s = temp_map_page directory s;
          page_tab = push_bit 12 (page_addr (win_read (get_page_directory_index virt_addr) s))
      in if page_tab \<noteq> 0
         then win_write (get_page_table_index virt_addr) 0 (temp_map_page page_tab s)
         else s)"

text \<open>The directory entry is cleared and filled in field by field; so is the table entry below.\<close>

definition fresh_pde :: "bool \<Rightarrow> u32 \<Rightarrow> u32" where
  "fresh_pde us page_tab =
     set_page_addr (drop_bit 12 page_tab) (set_user us (set_read_write True (set_present True 0)))"

definition fresh_pte :: "bool \<Rightarrow> bool \<Rightarrow> u32 \<Rightarrow> u32" where
  "fresh_pte present us phys_addr =
     set_page_addr (drop_bit 12 phys_addr) (set_user us (set_read_write True (set_present present 0)))"

definition set_page_table_entry :: "u32 \<Rightarrow> u32 \<Rightarrow> u32 \<Rightarrow> bool \<Rightarrow> bool \<Rightarrow> 'z vm_scheme \<Rightarrow> 'z vm_scheme" where
  "set_page_table_entry directory virt_addr phys_addr present us s =
     (let virt_addr = align_page virt_addr;
          phys_addr = align_page phys_addr;
          s = temp_map_page directory s;
          pde = get_page_directory_index virt_addr;
          page_tab = push_bit 12 (page_addr (win_read pde s));
          (page_tab, s) =
            (if page_tab = 0
             then (let (page_tab, s) = alloc_phys_page s;
                       s = win_write pde (fresh_pde us page_tab) s;
                       s = win_clear (temp_map_page page_tab s)
                   in (page_tab, s))
             else (page_tab, s));
          s = temp_map_page page_tab s
      in win_write (get_page_table_index virt_addr) (fresh_pte present us phys_addr) s)"

subsection \<open>Whole address spaces\<close>

text \<open>The kernel's own directory is read at 0xFFFFF000, through the directory's entry for itself.\<close>

definition kernel_pde :: "nat \<Rightarrow> 'z vm_scheme \<Rightarrow> u32" where
  "kernel_pde i s = mem s (mmu_frame (kernel_pagedir s) s) i"

definition map_kernel_tables :: "u32 \<Rightarrow> 'z vm_scheme \<Rightarrow> 'z vm_scheme" where
  "map_kernel_tables pdir s =
     (let s = win_clear (temp_map_page pdir s);
          s = fold (\<lambda>i s. let val = kernel_pde i s
                         in if val \<noteq> 0 \<and> val \<noteq> 0xFFFFFFFF then win_write i val (temp_map_page pdir s) else s)
                [768..<1024] s;
          s = temp_map_page pdir s
      in win_write 1023 (set_page_addr (drop_bit 12 pdir) (win_read 1023 s)) s)"

text \<open>One entry of a page table: the frame becomes read-only in the source and is shared.\<close>

definition clone_pte :: "u32 \<Rightarrow> u32 \<Rightarrow> nat \<Rightarrow> 'z vm_scheme \<Rightarrow> 'z vm_scheme" where
  "clone_pte src_page_table new_page_table j s =
     (let s = temp_map_page src_page_table s
      in if present_bit (win_read j s)
         then (let s = win_write j (set_read_write False (win_read j s)) s;
                   entry = win_read j s;
                   addr = push_bit 12 (page_addr (win_read j s));
                   s = temp_map_page new_page_table s;
                   s = win_write j entry s
               in alloc_phys_increase_refcount addr s)
         else s)"

definition clone_pde :: "u32 \<Rightarrow> u32 \<Rightarrow> nat \<Rightarrow> 'z vm_scheme \<Rightarrow> 'z vm_scheme" where
  "clone_pde src_dir new_page_dir i s =
     (let s = temp_map_page src_dir s
      in if present_bit (win_read i s)
         then (if 768 \<le> i
               then (let entry = win_read i s;
                         s = win_write i entry (temp_map_page new_page_dir s)
                     in if i = 1023 then win_write i (set_page_addr (drop_bit 12 new_page_dir) (win_read i s)) s else s)
               else (let src_page_table = push_bit 12 (page_addr (win_read i s));
                         src_entry = win_read i s;
                         (new_page_table, s) = alloc_phys_page s;
                         s = win_clear (temp_map_page new_page_table s);
                         s = fold (clone_pte src_page_table new_page_table) [0..<1024] s;
                         s = win_write i src_entry (temp_map_page new_page_dir s)
                     in win_write i (set_page_addr (drop_bit 12 new_page_table) (win_read i s)) s))
         else s)"

definition clone_page_structures :: "u32 \<Rightarrow> 'z vm_scheme \<Rightarrow> u32 \<times> 'z vm_scheme" where
  "clone_page_structures src_dir s =
     (let (new_page_dir, s) = alloc_phys_page s;
          s = win_clear (temp_map_page new_page_dir s);
          s = fold (clone_pde src_dir new_page_dir) [0..<1024] s
      in (new_page_dir, flush_tlb s))"

text \<open>A frame that only one table refers to is freed, any other loses one reference.\<close>

definition release_frame :: "u32 \<Rightarrow> 'z vm_scheme \<Rightarrow> 'z vm_scheme" where
  "release_frame a s =
     (if alloc_phys_get_refcount a s = 1 then alloc_phys_free a s else alloc_phys_decrease_refcount a s)"

definition remove_pte :: "nat \<Rightarrow> 'z vm_scheme \<Rightarrow> 'z vm_scheme" where
  "remove_pte j s =
     (if present_bit (win_read j s)
      then win_write j 0 (release_frame (push_bit 12 (page_addr (win_read j s))) s) else s)"

definition remove_pde :: "u32 \<Rightarrow> nat \<Rightarrow> 'z vm_scheme \<Rightarrow> 'z vm_scheme" where
  "remove_pde page_dir i s =
     (let s = temp_map_page page_dir s
      in if present_bit (win_read i s)
         then (let ptab_phys = push_bit 12 (page_addr (win_read i s));
                   s = win_write i 0 s;
                   s = temp_map_page ptab_phys s;
                   s = fold remove_pte [0..<1024] s
               in alloc_phys_free ptab_phys s)
         else s)"

definition remove_address_space :: "u32 \<Rightarrow> 'z vm_scheme \<Rightarrow> 'z vm_scheme" where
  "remove_address_space page_dir s = flush_tlb (fold (remove_pde page_dir) [0..<768] s)"

definition nuke_pte :: "nat \<Rightarrow> 'z vm_scheme \<Rightarrow> 'z vm_scheme" where
  "nuke_pte j s =
     (if present_bit (win_read j s) then release_frame (push_bit 12 (page_addr (win_read j s))) s else s)"

definition nuke_pde :: "u32 \<Rightarrow> nat \<Rightarrow> 'z vm_scheme \<Rightarrow> 'z vm_scheme" where
  "nuke_pde page_dir i s =
     (let s = temp_map_page page_dir s
      in if present_bit (win_read i s)
         then (let ptab_phys = push_bit 12 (page_addr (win_read i s));
                   s = temp_map_page ptab_phys s;
                   s = fold nuke_pte [0..<1024] s
               in alloc_phys_free ptab_phys s)
         else s)"

definition nuke_page_directory :: "u32 \<Rightarrow> 'z vm_scheme \<Rightarrow> 'z vm_scheme" where
  "nuke_page_directory page_dir s =
     flush_tlb (alloc_phys_free page_dir (fold (nuke_pde page_dir) [0..<768] s))"

subsection \<open>Turning paging on\<close>

text \<open>
  \<^verbatim>\<open>for(...; addr_v < virt_e && addr_p < phys_e; addr_v += PAGE_SIZE, addr_p += PAGE_SIZE)\<close>;
  \<open>None\<close> when the counters wrap and the loop does not end.
\<close>

partial_function (option) map_kernel_image ::
  "u32 \<Rightarrow> u32 \<Rightarrow> u32 \<Rightarrow> u32 \<Rightarrow> u32 \<Rightarrow> 'z vm_scheme \<Rightarrow> 'z vm_scheme option"
where
  "map_kernel_image dir addr_v virt_e addr_p phys_e s =
     (if addr_v < virt_e \<and> addr_p < phys_e
      then map_kernel_image dir (addr_v + 0x1000) virt_e (addr_p + 0x1000) phys_e
             (set_page_table_entry dir addr_v addr_p True False s)
      else Some s)"

text \<open>\<open>kern_start\<close> is the address of \<open>_start\<close>, \<open>handler\<close> the address of \<open>page_fault_handler\<close>.\<close>

definition init_paging :: "stubs \<Rightarrow> u32 \<Rightarrow> ptr \<Rightarrow> u32 \<Rightarrow> 'z vm_scheme \<Rightarrow> 'z vm_scheme option" where
  "init_paging st kern_start handler phys_e_addr s =
     (let (pd, s) = alloc_phys_page s;
          s = s\<lparr>page_directory := pd\<rparr>;
          s = win_clear (temp_map_page pd s);
          s = fold (\<lambda>i s. win_write i (set_read_write False (set_present False (win_read i s))) s)
                [0..<NO_OF_TABLE_ENTRIES] s;
          last = unat LAST_PAGE_TABLE_INDEX;
          s = win_write last (set_page_addr (drop_bit 12 pd) (set_read_write True (set_present True (win_read last s)))) s;
          virt_e = physical_to_virtual phys_e_addr;
          phys_s = virtual_to_physical kern_start;
          phys_e = virtual_to_physical virt_e
      in do {
        s \<leftarrow> map_kernel_image pd kern_start virt_e phys_s phys_e s;
        let s = set_page_table_entry pd 0xC0000000 0 True False s;
        let s = install_interrupt_handler st 14 handler DPL_KERNEL s;
        Some (s\<lparr>kernel_pagedir := 0xFFFFF000\<rparr>)
      })"

definition reset_paging :: "'z vm_scheme \<Rightarrow> 'z vm_scheme" where
  "reset_paging s =
     (let s = swap_page_directory (page_directory s) s;
          (tp, s) = alloc_phys_page s;
          s = set_page_table_entry (page_directory s) 0xCFFFD000 tp True False s
      in s\<lparr>temp_page := 0xCFFFD000, paging_status := True\<rparr>)"

subsection \<open>Copy on write\<close>

text \<open>\<open>memcpy_32\<close> between the window and the work page at \<open>temp_page\<close>, word by word.\<close>

definition copy_from_window :: "'z vm_scheme \<Rightarrow> 'z vm_scheme" where
  "copy_from_window s =
     fold (\<lambda>i s. s\<lparr>mem := (mem s)(mmu_frame (temp_page s) s := (mem s (mmu_frame (temp_page s) s))(i := win_read i s))\<rparr>)
       [0..<1024] s"

definition copy_to_window :: "'z vm_scheme \<Rightarrow> 'z vm_scheme" where
  "copy_to_window s = fold (\<lambda>i s. win_write i (mem s (mmu_frame (temp_page s) s) i) s) [0..<1024] s"

text \<open>The branch of \<open>page_fault_handler\<close> for a user write to a present page.\<close>

definition page_fault_cow :: "u32 \<Rightarrow> u32 \<Rightarrow> 'z vm_scheme \<Rightarrow> 'z vm_scheme" where
  "page_fault_cow pdir page_fault_addr s =
     (let (frame, s) = get_mapped_address pdir page_fault_addr s;
          frame_refcount = alloc_phys_get_refcount frame s
      in if 1 < frame_refcount
         then (let s = alloc_phys_decrease_refcount frame s;
                   (new_frame, s) = alloc_phys_page s;
                   s = copy_from_window (temp_map_page frame s);
                   s = copy_to_window (temp_map_page new_frame s)
               in set_page_table_entry pdir page_fault_addr new_frame True True s)
         else if frame_refcount = 1
         then set_page_table_entry pdir page_fault_addr frame True True s
         else s)"

subsection \<open>Entries and indices\<close>

lemmas entry_defs = present_bit_def read_write_def user_supervisor_def page_addr_def set_present_def
  set_read_write_def set_user_def set_page_addr_def

lemma entry_sel [simp]:
  "page_addr (set_page_addr f e) = f AND mask 20"
  "present_bit (set_page_addr f e) = present_bit e" "read_write (set_page_addr f e) = read_write e"
  "user_supervisor (set_page_addr f e) = user_supervisor e"
  "present_bit (set_read_write b e) = present_bit e" "read_write (set_read_write b e) = b"
  "user_supervisor (set_read_write b e) = user_supervisor e"
  "present_bit (set_present b e) = b" "read_write (set_present b e) = read_write e"
  "user_supervisor (set_present b e) = user_supervisor e"
  "present_bit (set_user b e) = present_bit e" "read_write (set_user b e) = read_write e"
  "user_supervisor (set_user b e) = b"
  by (auto simp: entry_defs bit_simps intro!: bit_word_eqI)

lemma page_addr_flags [simp]:
  "page_addr (set_read_write b e) = page_addr e" "page_addr (set_present b e) = page_addr e"
  "page_addr (set_user b e) = page_addr e" "page_addr 0 = 0" "\<not> present_bit 0"
  by (auto simp: entry_defs bit_simps intro!: bit_word_eqI)

lemma drop_bit_12_mask [simp]: "drop_bit 12 (a :: u32) AND mask 20 = drop_bit 12 a"
  by (rule bit_word_eqI) (auto simp: bit_simps dest: bit_imp_le_length)

lemma page_addr_mask [simp]: "page_addr e AND mask 20 = page_addr e"
  by (simp add: page_addr_def)

lemma push_page_addr [simp]: "drop_bit 12 (push_bit 12 (page_addr e)) = page_addr e"
  by (rule bit_word_eqI) (auto simp: page_addr_def bit_simps dest: bit_imp_le_length)

lemma push_page_addr_zero [simp]: "push_bit 12 (page_addr e) = 0 \<longleftrightarrow> page_addr e = 0"
  by (metis drop_bit_of_0 push_bit_of_0 push_page_addr)

lemma push_drop_12: "push_bit 12 (drop_bit 12 (a :: u32)) = align_page a"
proof -
  have "push_bit 12 (drop_bit 12 a) = a AND NOT (mask 12)"
    by (rule bit_word_eqI) (auto simp: bit_simps)
  then show ?thesis
    by (intro word_eqI_unat) (simp only: unat_and_not_mask align_page_unat, simp)
qed

lemma fresh_pte_sel [simp]:
  "page_addr (fresh_pte p u a) = drop_bit 12 a" "present_bit (fresh_pte p u a) = p"
  "read_write (fresh_pte p u a)" "user_supervisor (fresh_pte p u a) = u"
  by (simp_all add: fresh_pte_def)

lemma fresh_pde_sel [simp]:
  "page_addr (fresh_pde u a) = drop_bit 12 a" "present_bit (fresh_pde u a)"
  "read_write (fresh_pde u a)" "user_supervisor (fresh_pde u a) = u"
  by (simp_all add: fresh_pde_def)

lemma drop_bit_align_page [simp]: "drop_bit 12 (align_page a) = drop_bit 12 a"
  by (metis page_addr_def push_drop_12 push_page_addr)

lemma index_mask: "(0x3FF :: u32) = mask 10"
  by (simp add: mask_eq_exp_minus_1)

lemma directory_index_unat: "get_page_directory_index v = unat v div 4194304"
proof -
  have "unat v div 4194304 < 1024" using unat_u32_less[of v] by (intro less_mult_imp_div_less) simp
  then show ?thesis
    by (simp add: get_page_directory_index_def LAST_PAGE_TABLE_INDEX_def index_mask unat_and_mask
        drop_bit_eq_div unat_div_distrib)
qed

lemma table_index_unat: "get_page_table_index v = unat v div 4096 mod 1024"
  by (simp add: get_page_table_index_def LAST_PAGE_TABLE_INDEX_def index_mask unat_and_mask
      drop_bit_eq_div unat_div_distrib)

lemma index_bounds: "get_page_directory_index v < 1024" "get_page_table_index v < 1024"
  using unat_u32_less[of v] by (simp_all add: directory_index_unat table_index_unat less_mult_imp_div_less)

lemma index_align_page [simp]:
  "get_page_directory_index (align_page v) = get_page_directory_index v"
  "get_page_table_index (align_page v) = get_page_table_index v"
proof -
  have *: "unat (align_page v) div 4096 = unat v div 4096" 
    by (simp add: align_page_unat minus_mod_eq_mult_div)
  then show "get_page_table_index (align_page v) = get_page_table_index v" by (simp add: table_index_unat)
  have "n div 4194304 = n div 4096 div 1024" for n :: nat by (simp add: div_mult2_eq[symmetric])
  with * show "get_page_directory_index (align_page v) = get_page_directory_index v"
    by (simp add: directory_index_unat)
qed

lemma same_page_iff:
  "align_page v = align_page w \<longleftrightarrow>
     get_page_directory_index v = get_page_directory_index w \<and> get_page_table_index v = get_page_table_index w"
proof
  assume "align_page v = align_page w"
  then show "get_page_directory_index v = get_page_directory_index w \<and> get_page_table_index v = get_page_table_index w"
    by (metis index_align_page)
next
  assume eq: "get_page_directory_index v = get_page_directory_index w \<and> get_page_table_index v = get_page_table_index w"
  have "n div 4194304 = n div 4096 div 1024" for n :: nat by (simp add: div_mult2_eq[symmetric])
  with eq have "unat v div 4096 = unat w div 4096"
    by (simp add: directory_index_unat table_index_unat) (metis div_mult_mod_eq)
  then show "align_page v = align_page w"
    by (intro word_eqI_unat) (simp add: align_page_unat minus_mod_eq_mult_div)
qed

subsection \<open>The window and the allocator leave the rest alone\<close>

lemma alloc_page_vm [kmem_simps, simp]:
  "mem (snd (alloc_phys_page s)) = mem s" "window (snd (alloc_phys_page s)) = window s"
  "cr3 (snd (alloc_phys_page s)) = cr3 s" "temp_page (snd (alloc_phys_page s)) = temp_page s"
  "kernel_pagedir (snd (alloc_phys_page s)) = kernel_pagedir s"
  by (simp_all add: alloc_phys_page_def set_refcount_def split: option.split prod.split)

lemma refcount_vm [kmem_simps, simp]:
  "mem (set_refcount i v s) = mem s" "window (set_refcount i v s) = window s"
  "cr3 (set_refcount i v s) = cr3 s" "temp_page (set_refcount i v s) = temp_page s"
  "kernel_pagedir (set_refcount i v s) = kernel_pagedir s"
  by (simp_all add: set_refcount_def)

lemma temp_map_sel [kmem_simps, simp]:
  "mem (temp_map_page a s) = mem s" "window (temp_map_page a s) = drop_bit 12 a"
  "cr3 (temp_map_page a s) = cr3 s" "temp_page (temp_map_page a s) = temp_page s"
  "kernel_pagedir (temp_map_page a s) = kernel_pagedir s" "refcount (temp_map_page a s) = refcount s"
  by (simp_all add: temp_map_page_def)

lemma win_write_sel [kmem_simps, simp]:
  "mem (win_write i v s) = (mem s)(window s := (mem s (window s))(i := v))"
  "window (win_write i v s) = window s" "cr3 (win_write i v s) = cr3 s"
  "temp_page (win_write i v s) = temp_page s" "kernel_pagedir (win_write i v s) = kernel_pagedir s"
  "refcount (win_write i v s) = refcount s"
  by (simp_all add: win_write_def)

lemma win_writes_fold:
  "fold (\<lambda>i s. win_write i (f i) s) is s =
     s\<lparr>mem := (mem s)(window s := (\<lambda>i. if i \<in> set is then f i else mem s (window s) i))\<rparr>"
proof (induction "is" arbitrary: s)
  case Nil
  then show ?case by simp
next
  case (Cons i "is")
  have eq: "(\<lambda>j. if j \<in> set is then f j else ((mem s (window s))(i := f i)) j) =
        (\<lambda>j. if j \<in> set (i # is) then f j else mem s (window s) j)" by auto
  show ?case
    by (simp only: fold_simps Cons.IH win_write_sel fun_upd_same fun_upd_upd eq) (simp add: win_write_def)
qed

lemma win_clear_eq:
  "win_clear s = s\<lparr>mem := (mem s)(window s := (\<lambda>i. if i < 1024 then 0 else mem s (window s) i))\<rparr>"
  unfolding win_clear_def win_writes_fold by simp

subsection \<open>Mapping one page is right\<close>

text \<open>
  \<open>table d i s\<close> is the frame of the page table that entry \<open>i\<close> of the directory in frame \<open>d\<close> names, and
  \<open>pte_of d v s\<close> the table entry for the virtual address \<open>v\<close> (0 when there is no table). A directory
  is well formed when it and its tables are frames in use, no table serves two entries and none is
  the directory. The last entry of a directory refers to the directory itself and is exempt.
\<close>

abbreviation pdi :: "u32 \<Rightarrow> nat" where "pdi \<equiv> get_page_directory_index"
abbreviation pti :: "u32 \<Rightarrow> nat" where "pti \<equiv> get_page_table_index"

definition table :: "u32 \<Rightarrow> nat \<Rightarrow> 'z vm_scheme \<Rightarrow> u32" where
  "table d i s = page_addr (mem s d i)"

definition pte_of :: "u32 \<Rightarrow> u32 \<Rightarrow> 'z vm_scheme \<Rightarrow> u32" where
  "pte_of d v s = (if table d (pdi v) s = 0 then 0 else mem s (table d (pdi v) s) (pti v))"

definition frame_used :: "u32 \<Rightarrow> 'z vm_scheme \<Rightarrow> bool" where
  "frame_used f s \<longleftrightarrow> push_bit 12 f \<in> used_frames s"

definition wf_dir :: "u32 \<Rightarrow> 'z vm_scheme \<Rightarrow> bool" where
  "wf_dir d s \<longleftrightarrow> frame_used d s \<and>
     (\<forall>i<1023. table d i s \<noteq> 0 \<longrightarrow> table d i s \<noteq> d \<and> frame_used (table d i s) s) \<and>
     (\<forall>i<1023. \<forall>j<1023. table d i s \<noteq> 0 \<and> table d i s = table d j s \<longrightarrow> i = j)"

definition can_alloc :: "'z vm_scheme \<Rightarrow> bool" where
  "can_alloc s \<longleftrightarrow> used_frames s \<noteq> phys_frames s"

lemma get_mapped_address_eq:
  "fst (get_mapped_address dir v s) = push_bit 12 (page_addr (pte_of (drop_bit 12 dir) v s))"
  by (simp add: get_mapped_address_def Let_def win_read_def pte_of_def table_def)

lemma get_mapped_address_sel [kmem_simps, simp]:
  "mem (snd (get_mapped_address dir v s)) = mem s" "refcount (snd (get_mapped_address dir v s)) = refcount s"
  "cr3 (snd (get_mapped_address dir v s)) = cr3 s" "temp_page (snd (get_mapped_address dir v s)) = temp_page s"
  by (simp_all add: get_mapped_address_def Let_def)

lemma win_clear_sel [kmem_simps, simp]:
  "window (win_clear s) = window s" "cr3 (win_clear s) = cr3 s" "temp_page (win_clear s) = temp_page s"
  "refcount (win_clear s) = refcount s"
  "mem (win_clear s) = (mem s)(window s := (\<lambda>i. if i < 1024 then 0 else mem s (window s) i))"
  by (simp_all add: win_clear_eq)

text \<open>The window operations do not touch what the frame allocator looks at.\<close>

definition same_phys :: "'z vm_scheme \<Rightarrow> 'z vm_scheme \<Rightarrow> bool" where
  "same_phys s' s \<longleftrightarrow> phys.truncate s' = phys.truncate s"

lemma truncate_window [simp]:
  "phys.truncate (temp_map_page a s) = phys.truncate s" "phys.truncate (win_write i v s) = phys.truncate s"
  "phys.truncate (win_clear s) = phys.truncate s"
  "phys.truncate (snd (get_mapped_address dir v s)) = phys.truncate s"
  by (simp_all add: temp_map_page_def win_write_def win_clear_eq phys.truncate_def get_mapped_address_def Let_def)

lemma phys_truncate_cong:
  assumes "phys.truncate s' = phys.truncate s"
  shows "used_frames s' = used_frames s" "phys_frames s' = phys_frames s" "phys_inv s' = phys_inv s"
    "refcount s' = refcount s" "alloc_phys_get_alloc a s' = alloc_phys_get_alloc a s"
    "alloc_phys_get_refcount a s' = alloc_phys_get_refcount a s"
proof -
  show 1: "refcount s' = refcount s" using assms by (simp add: phys.truncate_def)
  show 2: "alloc_phys_get_alloc a s' = alloc_phys_get_alloc a s"
    using assms by (simp add: phys.truncate_def alloc_phys_get_alloc_def alloc_phys_addr_to_index_def)
  show "alloc_phys_get_refcount a s' = alloc_phys_get_refcount a s"
    by (simp only: alloc_phys_get_refcount_def 1 2)
qed (use assms in \<open>simp_all add: phys.truncate_def used_frames_def phys_frames_def phys_inv_def
       alloc_phys_index_to_addr_def phys_pages_def lower_pages_def wf_phys_def\<close>)

lemma set_entry_existing:
  assumes "table (drop_bit 12 dir) (pdi v) s \<noteq> 0"
  shows "mem (set_page_table_entry dir v p pr us s) =
    (let t = table (drop_bit 12 dir) (pdi v) s in (mem s)(t := (mem s t)(pti v := fresh_pte pr us (align_page p))))"
    and "phys.truncate (set_page_table_entry dir v p pr us s) = phys.truncate s"
  using assms by (simp_all add: set_page_table_entry_def Let_def win_read_def table_def)

lemma alloc_page_temp_map:
  "alloc_phys_page (temp_map_page d s) = (fst (alloc_phys_page s), temp_map_page d (snd (alloc_phys_page s)))"
  by (simp add: alloc_phys_page_def temp_map_page_def set_refcount_def alloc_phys_index_to_addr_def
      split: option.split prod.split)

lemma set_entry_new:
  assumes "table (drop_bit 12 dir) (pdi v) s = 0" "alloc_phys_page s = (a, s1)"
  shows "mem (set_page_table_entry dir v p pr us s) =
    (let d = drop_bit 12 dir; n = drop_bit 12 a; m = (mem s)(d := (mem s d)(pdi v := fresh_pde us a))
     in m(n := (\<lambda>i. if i < 1024 then 0 else m n i)(pti v := fresh_pte pr us (align_page p))))"
    and "phys.truncate (set_page_table_entry dir v p pr us s) = phys.truncate s1"
proof -
  have "mem s1 = mem s" using alloc_page_vm(1)[of s] assms(2) by simp
  then show "mem (set_page_table_entry dir v p pr us s) =
    (let d = drop_bit 12 dir; n = drop_bit 12 a; m = (mem s)(d := (mem s d)(pdi v := fresh_pde us a))
     in m(n := (\<lambda>i. if i < 1024 then 0 else m n i)(pti v := fresh_pte pr us (align_page p))))"
    "phys.truncate (set_page_table_entry dir v p pr us s) = phys.truncate s1"
    using assms
    by (simp_all add: set_page_table_entry_def Let_def win_read_def table_def alloc_page_temp_map cong: if_cong)
qed

text \<open>What a fresh frame is: in range, page aligned, and not in use before.\<close>

lemma alloc_page_fresh:
  assumes "phys_inv s" "can_alloc s" "alloc_phys_page s = (a, s1)"
  shows "push_bit 12 (drop_bit 12 a) = a" "drop_bit 12 a \<noteq> 0" "\<not> frame_used (drop_bit 12 a) s"
    "used_frames s1 = insert a (used_frames s)" "phys_inv s1" "frame_used (drop_bit 12 a) s1"
    "frame_used f s \<Longrightarrow> frame_used f s1" "alloc_phys_get_refcount a s1 = 1"
    "refcount s j \<noteq> 0 \<Longrightarrow> refcount s1 j = refcount s j"
proof -
  have wf: "wf_phys s" using assms by (simp add: phys_inv_def)
  obtain m where m: "m < phys_pages s" "refcount s m = 0" "\<forall>j<m. refcount s j \<noteq> 0"
    using first_unused[OF wf] assms(2) by (auto simp: can_alloc_def)
  from alloc_phys_page_found[OF assms(1) m] assms(3)
  have s1: "s1 = set_refcount m 1 s" "a = alloc_phys_index_to_addr m s" by auto
  then show "alloc_phys_get_refcount a s1 = 1" "refcount s j \<noteq> 0 \<Longrightarrow> refcount s1 j = refcount s j"
    using m wf by (auto simp: alloc_phys_get_refcount_def)
  have fr: "a \<in> phys_frames s - used_frames s" "used_frames s1 = insert a (used_frames s)"
    using pf.alloc_fresh[OF assms(1)] assms by (auto simp: can_alloc_def)
  then obtain i where i: "i < phys_pages s" "a = alloc_phys_index_to_addr i s" by (auto simp: phys_frames_def)
  then have "page_aligned a" using index_to_addr_aligned assms(1) by (auto simp: phys_inv_def)
  then show al: "push_bit 12 (drop_bit 12 a) = a" by (simp add: push_drop_12 align_page_id)
  have "a \<noteq> 0" using fr pf.zero_used[OF assms(1)] by auto
  then show "drop_bit 12 a \<noteq> 0" using al by auto
  show "\<not> frame_used (drop_bit 12 a) s" using fr al by (simp add: frame_used_def)
  show "used_frames s1 = insert a (used_frames s)" by fact
  show "phys_inv s1" using pf.alloc_inv[OF assms(1)] assms(3) by auto
  show "frame_used (drop_bit 12 a) s1" "frame_used f s \<Longrightarrow> frame_used f s1"
    using fr al by (auto simp: frame_used_def)
qed

text \<open>
  The effect of \<open>set_page_table_entry\<close> in one statement: the address is mapped, every other page of the
  directory keeps its entry, the directory stays well formed, and of the frames that were in use only
  the directory and the page's own table are written.
\<close>

definition maps_page :: "u32 \<Rightarrow> u32 \<Rightarrow> u32 \<Rightarrow> 'z vm_scheme \<Rightarrow> 'z vm_scheme \<Rightarrow> bool" where
  "maps_page d v e s s' \<longleftrightarrow>
     pte_of d v s' = e \<and>
     (\<forall>w. pdi w < 1023 \<longrightarrow> align_page w \<noteq> align_page v \<longrightarrow> pte_of d w s' = pte_of d w s) \<and>
     wf_dir d s' \<and> phys_inv s' \<and> (\<forall>f. frame_used f s \<longrightarrow> frame_used f s') \<and>
     (\<forall>f. frame_used f s \<longrightarrow> f \<noteq> d \<longrightarrow> f \<noteq> table d (pdi v) s \<longrightarrow> mem s' f = mem s f)"

lemma wf_dirD:
  assumes "wf_dir d s"
  shows "frame_used d s" "i < 1023 \<Longrightarrow> table d i s \<noteq> 0 \<Longrightarrow> table d i s \<noteq> d"
    "i < 1023 \<Longrightarrow> table d i s \<noteq> 0 \<Longrightarrow> frame_used (table d i s) s"
    "i < 1023 \<Longrightarrow> j < 1023 \<Longrightarrow> table d i s \<noteq> 0 \<Longrightarrow> table d i s = table d j s \<Longrightarrow> i = j"
  using assms by (auto simp: wf_dir_def)

lemma set_entry_existing_maps:
  assumes inv: "phys_inv s" and wf: "wf_dir d s" and d: "d = drop_bit 12 dir" and v: "pdi v < 1023"
    and t: "table d (pdi v) s \<noteq> 0"
  shows "maps_page d v (fresh_pte pr us (align_page p)) s (set_page_table_entry dir v p pr us s)"
proof -
  let ?t = "table d (pdi v) s" and ?s' = "set_page_table_entry dir v p pr us s"
  note eff = set_entry_existing[of dir v s p pr us, folded d, OF t, unfolded Let_def]
  note tr = phys_truncate_cong[OF eff(2)]
  have td: "?t \<noteq> d" by (rule wf_dirD(2)[OF wf v t])
  have tab: "table d i ?s' = table d i s" for i using td by (simp add: table_def eff(1))
  have "pte_of d w ?s' = pte_of d w s" if "pdi w < 1023" "align_page w \<noteq> align_page v" for w
    using that wf_dirD(4)[OF wf that(1) v] by (auto simp: pte_of_def tab eff(1) same_page_iff)
  moreover have "wf_dir d ?s'" using wf unfolding wf_dir_def tab frame_used_def tr by blast
  ultimately show ?thesis using inv t by (auto simp: maps_page_def pte_of_def tab eff(1) tr frame_used_def)
qed

lemma set_entry_new_maps:
  assumes inv: "phys_inv s" and wf: "wf_dir d s" and d: "d = drop_bit 12 dir" and v: "pdi v < 1023"
    and t: "table d (pdi v) s = 0" and room: "can_alloc s"
  shows "maps_page d v (fresh_pte pr us (align_page p)) s (set_page_table_entry dir v p pr us s)"
proof -
  obtain a s1 where al: "alloc_phys_page s = (a, s1)" by (cases "alloc_phys_page s")
  let ?n = "drop_bit 12 a" and ?s' = "set_page_table_entry dir v p pr us s"
  note fr = alloc_page_fresh[OF inv room al]
  note eff = set_entry_new[of dir v s a s1 p pr us, folded d, OF t al, unfolded Let_def]
  note tr = phys_truncate_cong[OF eff(2)]
  have nd: "?n \<noteq> d" using fr(3) wf_dirD(1)[OF wf] by metis
  have nt: "table d i s \<noteq> ?n" if "i < 1023" for i using fr(2,3) wf_dirD(3)[OF wf that] by metis
  have tab: "table d i ?s' = (if i = pdi v then ?n else table d i s)" for i
    using nd by (simp add: table_def eff(1))
  have keep: "mem ?s' f = mem s f" if "f \<noteq> d" "f \<noteq> ?n" for f using that by (simp add: eff(1))
  have new: "mem ?s' ?n i = (if i = pti v then fresh_pte pr us (align_page p) else 0)" if "i < 1024" for i
    using that by (simp add: eff(1))
  have other: "pte_of d w ?s' = pte_of d w s" if w: "pdi w < 1023" "align_page w \<noteq> align_page v" for w
    using w t nt[OF w(1)] wf_dirD(2)[OF wf w(1)]
    by (cases "pdi w = pdi v") (auto simp: pte_of_def tab fr(2) new index_bounds same_page_iff keep)
  have "wf_dir d ?s'" unfolding wf_dir_def
  proof (intro conjI allI impI)
    show "frame_used d ?s'" using fr(7)[OF wf_dirD(1)[OF wf]] by (simp add: frame_used_def tr)
    fix i assume i: "i < 1023" "table d i ?s' \<noteq> 0"
    then show "table d i ?s' \<noteq> d" using nd wf_dirD(2)[OF wf, of i] by (auto simp: tab)
    show "frame_used (table d i ?s') ?s'"
      using i wf_dirD(3)[OF wf, of i] fr(6,7) by (auto simp: tab frame_used_def tr split: if_splits)
  next
    fix i j assume "i < 1023" "j < 1023" "table d i ?s' \<noteq> 0 \<and> table d i ?s' = table d j ?s'"
    then show "i = j" using nt[of i] nt[of j] wf_dirD(4)[OF wf, of i j] by (auto simp: tab split: if_splits)
  qed
  moreover have "pte_of d v ?s' = fresh_pte pr us (align_page p)"
    by (simp add: pte_of_def tab fr(2) new index_bounds)
  moreover have "\<forall>f. frame_used f s \<longrightarrow> f \<noteq> d \<longrightarrow> mem ?s' f = mem s f" using keep fr(3) by metis
  ultimately show ?thesis using fr(5,7) other by (simp add: maps_page_def tr frame_used_def)
qed

lemma set_entry_maps:
  assumes "phys_inv s" "wf_dir (drop_bit 12 dir) s" "pdi v < 1023"
    "table (drop_bit 12 dir) (pdi v) s \<noteq> 0 \<or> can_alloc s"
  shows "maps_page (drop_bit 12 dir) v (fresh_pte pr us (align_page p)) s (set_page_table_entry dir v p pr us s)"
  using set_entry_existing_maps[OF assms(1,2) refl assms(3)] set_entry_new_maps[OF assms(1,2) refl assms(3)] assms(4)
  by blast

subsection \<open>Copy on write is right\<close>

text \<open>A word-by-word copy whose two pointers keep showing the same two frames while it runs.\<close>

lemma copy_words_fold:
  assumes ne: "dst \<noteq> src"
    and ptrs: "\<And>m. (\<forall>f. f \<noteq> dst \<longrightarrow> m f = mem s f) \<Longrightarrow> g (s\<lparr>mem := m\<rparr>) = dst \<and> h (s\<lparr>mem := m\<rparr>) = src"
  shows "fold (\<lambda>i s. s\<lparr>mem := (mem s)(g s := (mem s (g s))(i := mem s (h s) i))\<rparr>) ks s =
         s\<lparr>mem := (mem s)(dst := (\<lambda>i. if i \<in> set ks then mem s src i else mem s dst i))\<rparr>"
  using ptrs
proof (induction ks arbitrary: s)
  case Nil
  then show ?case by simp
next
  case (Cons i ks)
  have gh: "g s = dst" "h s = src" using Cons.prems[of "mem s"] by auto
  let ?m = "(mem s)(dst := (mem s dst)(i := mem s src i))"
  let ?s1 = "s\<lparr>mem := ?m\<rparr>"
  have "g (?s1\<lparr>mem := m\<rparr>) = dst \<and> h (?s1\<lparr>mem := m\<rparr>) = src" if "\<forall>f. f \<noteq> dst \<longrightarrow> m f = mem ?s1 f" for m
    using Cons.prems[of m] that by auto
  note IH = Cons.IH[of ?s1, OF this]
  have A: "fold (\<lambda>i s. s\<lparr>mem := (mem s)(g s := (mem s (g s))(i := mem s (h s) i))\<rparr>) (i # ks) s =
        ?s1\<lparr>mem := (mem ?s1)(dst := (\<lambda>j. if j \<in> set ks then mem ?s1 src j else mem ?s1 dst j))\<rparr>"
    by (simp only: fold_simps gh IH)
  have B: "(mem ?s1)(dst := (\<lambda>j. if j \<in> set ks then mem ?s1 src j else mem ?s1 dst j)) =
        (mem s)(dst := (\<lambda>j. if j \<in> set (i # ks) then mem s src j else mem s dst j))"
    using ne by (auto simp: fun_eq_iff)
  show ?case unfolding A B by (simp add: fun_upd_def)
qed

text \<open>The three frames that reading or writing at the work page \<open>temp_page\<close> depends on.\<close>

definition walk_dir :: "'z vm_scheme \<Rightarrow> u32" where "walk_dir s = page_addr (cr3 s)"
definition walk_table :: "'z vm_scheme \<Rightarrow> u32" where
  "walk_table s = page_addr (mem s (walk_dir s) (pdi (temp_page s)))"
definition work_frame :: "'z vm_scheme \<Rightarrow> u32" where "work_frame s = mmu_frame (temp_page s) s"

lemma work_frame_stable:
  assumes "m (walk_dir s) = mem s (walk_dir s)" "m (walk_table s) = mem s (walk_table s)"
  shows "mmu_frame (temp_page s) (s\<lparr>mem := m\<rparr>) = work_frame s"
  using assms by (simp add: mmu_frame_def work_frame_def walk_dir_def walk_table_def)

lemma walk_stable:
  assumes "m (walk_dir s) = mem s (walk_dir s)" "m (walk_table s) = mem s (walk_table s)"
  shows "walk_dir (s\<lparr>mem := m\<rparr>) = walk_dir s" "walk_table (s\<lparr>mem := m\<rparr>) = walk_table s"
    "work_frame (s\<lparr>mem := m\<rparr>) = work_frame s"
  using assms work_frame_stable[OF assms] by (simp_all add: walk_dir_def walk_table_def work_frame_def)

lemma copy_from_window_eq:
  assumes "work_frame s \<notin> {walk_dir s, walk_table s, window s}"
  shows "copy_from_window s = s\<lparr>mem := (mem s)(work_frame s :=
           (\<lambda>i. if i < 1024 then mem s (window s) i else mem s (work_frame s) i))\<rparr>"
proof -
  have "mmu_frame (temp_page (s\<lparr>mem := m\<rparr>)) (s\<lparr>mem := m\<rparr>) = work_frame s \<and> window (s\<lparr>mem := m\<rparr>) = window s"
    if "\<forall>f. f \<noteq> work_frame s \<longrightarrow> m f = mem s f" for m
    using work_frame_stable[of m s] assms that by auto
  from copy_words_fold[where g = "\<lambda>s. mmu_frame (temp_page s) s" and h = window and s = s
      and dst = "work_frame s" and src = "window s" and ks = "[0..<1024]", OF _ this] assms
  show ?thesis by (auto simp: copy_from_window_def win_read_def)
qed

lemma copy_to_window_eq:
  assumes "window s \<notin> {walk_dir s, walk_table s, work_frame s}"
  shows "copy_to_window s = s\<lparr>mem := (mem s)(window s :=
           (\<lambda>i. if i < 1024 then mem s (work_frame s) i else mem s (window s) i))\<rparr>"
proof -
  have "window (s\<lparr>mem := m\<rparr>) = window s \<and> mmu_frame (temp_page (s\<lparr>mem := m\<rparr>)) (s\<lparr>mem := m\<rparr>) = work_frame s"
    if "\<forall>f. f \<noteq> window s \<longrightarrow> m f = mem s f" for m
    using work_frame_stable[of m s] assms that by auto
  from copy_words_fold[where h = "\<lambda>s. mmu_frame (temp_page s) s" and g = window and s = s
      and dst = "window s" and src = "work_frame s" and ks = "[0..<1024]", OF _ this] assms
  show ?thesis by (auto simp: copy_to_window_def win_write_def)
qed

text \<open>
  The situation of a copy-on-write fault: the faulting page of the directory \<open>d\<close> is mapped to frame
  \<open>f\<close>, which has index \<open>k\<close> and more than one reference; \<open>f\<close> and the work frame are data frames, apart
  from the directories and tables involved.
\<close>

definition cow_fault :: "u32 \<Rightarrow> u32 \<Rightarrow> u32 \<Rightarrow> nat \<Rightarrow> 'z vm_scheme \<Rightarrow> bool" where
  "cow_fault d v f k s \<longleftrightarrow>
     phys_inv s \<and> wf_dir d s \<and> can_alloc s \<and> pdi v < 1023 \<and>
     table d (pdi v) s \<noteq> 0 \<and> page_addr (pte_of d v s) = f \<and>
     k < phys_pages s \<and> push_bit 12 f = alloc_phys_index_to_addr k s \<and> 1 < refcount s k \<and>
     (\<forall>x\<in>{walk_dir s, walk_table s, work_frame s}. frame_used x s) \<and>
     (\<forall>x\<in>{f, work_frame s}. x \<notin> {d, walk_dir s, walk_table s} \<and> (\<forall>i<1023. x \<noteq> table d i s)) \<and>
     f \<noteq> work_frame s"

definition cow_resolved :: "u32 \<Rightarrow> u32 \<Rightarrow> u32 \<Rightarrow> nat \<Rightarrow> 'z vm_scheme \<Rightarrow> 'z vm_scheme \<Rightarrow> bool" where
  "cow_resolved d v f k s s' \<longleftrightarrow>
     (let e = pte_of d v s'; n = page_addr e
      in present_bit e \<and> read_write e \<and> user_supervisor e \<and> \<not> frame_used n s \<and> frame_used n s' \<and>
         alloc_phys_get_refcount (push_bit 12 n) s' = 1 \<and> (\<forall>i<1024. mem s' n i = mem s f i)) \<and>
     mem s' f = mem s f \<and> refcount s' k = refcount s k - 1 \<and> wf_dir d s' \<and>
     (\<forall>w. pdi w < 1023 \<longrightarrow> align_page w \<noteq> align_page v \<longrightarrow> pte_of d w s' = pte_of d w s)"

lemma copies_truncate [simp]:
  "work_frame s \<notin> {walk_dir s, walk_table s, window s} \<Longrightarrow> phys.truncate (copy_from_window s) = phys.truncate s"
  "window s \<notin> {walk_dir s, walk_table s, work_frame s} \<Longrightarrow> phys.truncate (copy_to_window s) = phys.truncate s"
  by (simp_all add: copy_from_window_eq copy_to_window_eq phys.truncate_def)

lemma walk_window [simp]:
  "walk_dir (temp_map_page a s) = walk_dir s" "walk_table (temp_map_page a s) = walk_table s"
  "work_frame (temp_map_page a s) = work_frame s"
  by (simp_all add: walk_dir_def walk_table_def work_frame_def mmu_frame_def)

text \<open>Copying frame \<open>f\<close> to frame \<open>n\<close> by way of the work frame.\<close>

definition copy_frame :: "u32 \<Rightarrow> u32 \<Rightarrow> 'z vm_scheme \<Rightarrow> 'z vm_scheme" where
  "copy_frame fa na s = copy_to_window (temp_map_page na (copy_from_window (temp_map_page fa s)))"

lemma copy_frame_eff:
  assumes f: "f = drop_bit 12 fa" and n: "n = drop_bit 12 na"
    and w: "work_frame s \<notin> {walk_dir s, walk_table s, f, n}" and nw: "n \<notin> {walk_dir s, walk_table s}"
  shows "\<exists>X. mem (copy_frame fa na s) =
           ((mem s)(work_frame s := X))(n := (\<lambda>i. if i < 1024 then mem s f i else mem s n i))"
    "phys.truncate (copy_frame fa na s) = phys.truncate s"
proof -
  let ?w = "work_frame s" and ?s1 = "temp_map_page fa s"
  have ww: "walk_dir s \<noteq> ?w" "walk_table s \<noteq> ?w" and wn: "drop_bit 12 na \<noteq> ?w" using w n by auto
  have s2: "copy_from_window ?s1 = ?s1\<lparr>mem := (mem s)(?w := (\<lambda>i. if i < 1024 then mem s f i else mem s ?w i))\<rparr>"
    using copy_from_window_eq[of ?s1] w f by (simp cong: if_cong)
  let ?s2 = "?s1\<lparr>mem := (mem s)(?w := (\<lambda>i. if i < 1024 then mem s f i else mem s ?w i))\<rparr>"
  have walk: "walk_dir ?s2 = walk_dir s" "walk_table ?s2 = walk_table s" "work_frame ?s2 = ?w"
    using walk_stable[of "mem ?s2" ?s1] ww by simp_all
  have s3: "copy_frame fa na s = (temp_map_page na ?s2)\<lparr>mem := (mem ?s2)(n := (\<lambda>i. if i < 1024 then mem ?s2 ?w i else mem ?s2 n i))\<rparr>"
    unfolding copy_frame_def s2 using copy_to_window_eq[of "temp_map_page na ?s2"] w nw n wn by (simp add: walk cong: if_cong)
  then show "phys.truncate (copy_frame fa na s) = phys.truncate s"
    by (simp add: phys.truncate_def temp_map_page_def)
  have "(\<lambda>i. if i < 1024 then mem ?s2 ?w i else mem ?s2 n i) = (\<lambda>i. if i < 1024 then mem s f i else mem s n i)"
    using w by auto
  then show "\<exists>X. mem (copy_frame fa na s) =
      ((mem s)(?w := X))(n := (\<lambda>i. if i < 1024 then mem s f i else mem s n i))"
    unfolding s3 by auto
qed

lemma page_fault_cow_shared:
  assumes cow: "cow_fault d v f k s" and d: "d = drop_bit 12 dir"
  obtains s1 a s2 where
    "s1 = set_refcount k (refcount s k - 1) (snd (get_mapped_address dir v s))" "alloc_phys_page s1 = (a, s2)"
    "page_fault_cow dir v s = set_page_table_entry dir v a True True (copy_frame (push_bit 12 f) a s2)"
proof -
  define s0 where "s0 = snd (get_mapped_address dir v s)"
  have wf: "wf_phys s" and k: "k < phys_pages s" "push_bit 12 f = alloc_phys_index_to_addr k s" "1 < refcount s k"
    using cow by (auto simp: cow_fault_def phys_inv_def)
  have tr: "phys.truncate s0 = phys.truncate s" by (simp add: s0_def)
  then have rc: "refcount s0 = refcount s" by (rule phys_truncate_cong)
  have ga: "alloc_phys_get_alloc (push_bit 12 f) s0 = Some k"
    using phys_truncate_cong(5)[OF tr] get_alloc_index[OF wf k(1)] k(2) by simp
  have pos: "0 < refcount s k" "1 < uint (refcount s k)" using k(3) by (auto simp: word_less_def)
  have g: "get_mapped_address dir v s = (push_bit 12 f, s0)"
    using cow get_mapped_address_eq[of dir v s] d by (simp add: cow_fault_def prod_eq_iff s0_def)
  obtain a s2 where al: "alloc_phys_page (set_refcount k (refcount s k - 1) s0) = (a, s2)" by fastforce
  have "alloc_phys_decrease_refcount (push_bit 12 f) s0 = set_refcount k (refcount s k - 1) s0"
    using ga pos rc by (simp add: alloc_phys_decrease_refcount_def)
  moreover have "alloc_phys_get_refcount (push_bit 12 f) s0 = uint (refcount s k)"
    using ga rc by (simp add: alloc_phys_get_refcount_def)
  ultimately have "page_fault_cow dir v s = set_page_table_entry dir v a True True (copy_frame (push_bit 12 f) a s2)"
    using pos al by (simp add: page_fault_cow_def g copy_frame_def Let_def)
  with al that show ?thesis unfolding s0_def by blast
qed

lemma cow_allocate:
  assumes cow: "cow_fault d v f k s"
    and s1: "s1 = set_refcount k (refcount s k - 1) (snd (get_mapped_address dir v s))" and al: "alloc_phys_page s1 = (a, s2)"
  shows "push_bit 12 (drop_bit 12 a) = a" "\<not> frame_used (drop_bit 12 a) s" "used_frames s2 = insert a (used_frames s)"
    "phys_inv s2" "alloc_phys_get_refcount a s2 = 1" "refcount s2 k = refcount s k - 1" "mem s2 = mem s"
    "walk_dir s2 = walk_dir s" "walk_table s2 = walk_table s" "work_frame s2 = work_frame s"
proof -
  define s0 where "s0 = snd (get_mapped_address dir v s)"
  have tr0: "phys.truncate s0 = phys.truncate s" by (simp add: s0_def)
  note tr = phys_truncate_cong[OF tr0]
  have s1': "s1 = set_refcount k (refcount s k - 1) s0" using s1 by (simp add: s0_def)
  have k: "k < phys_pages s" "1 < refcount s k" and inv: "phys_inv s" and room: "can_alloc s"
    using cow by (auto simp: cow_fault_def)
  have wf0: "phys_inv s0" "wf_phys s0" using inv tr(3) by (auto simp: phys_inv_def)
  have pp: "phys_pages s0 = phys_pages s" "alloc_phys_index_to_addr i s0 = alloc_phys_index_to_addr i s" for i
    using tr0 by (simp_all add: phys.truncate_def phys_pages_def alloc_phys_index_to_addr_def)
  have r: "refcount s k - 1 \<noteq> 0" "refcount s k \<noteq> 0" using k(2) by auto
  have "alloc_phys_index_to_addr k s \<in> used_frames s" using k(1) r(2) by (auto simp: used_frames_def)
  then have used1: "used_frames s1 = used_frames s"
    using used_frames_set_refcount[OF wf0(2), of k "refcount s k - 1"] k(1) r(1) by (simp add: s1' tr pp insert_absorb)
  have inv1: "phys_inv s1" using wf0 r by (auto simp: s1' phys_inv_def)
  have "can_alloc s1" using room used1 by (simp add: can_alloc_def s1' tr)
  note fr = alloc_page_fresh[OF inv1 this al]
  show "push_bit 12 (drop_bit 12 a) = a" "\<not> frame_used (drop_bit 12 a) s" "used_frames s2 = insert a (used_frames s)"
    "phys_inv s2" "alloc_phys_get_refcount a s2 = 1"
    using fr used1 by (simp_all add: frame_used_def)
  show "refcount s2 k = refcount s k - 1" using fr(9)[of k] r by (simp add: s1')
  have "mem s2 = mem s1" "cr3 s2 = cr3 s1" "temp_page s2 = temp_page s1"
    using al by (metis alloc_page_vm snd_conv)+
  then have "mem s2 = mem s \<and> cr3 s2 = cr3 s \<and> temp_page s2 = temp_page s" by (simp add: s1' s0_def)
  then show "mem s2 = mem s" "walk_dir s2 = walk_dir s" "walk_table s2 = walk_table s" "work_frame s2 = work_frame s"
    by (simp_all add: walk_dir_def walk_table_def work_frame_def mmu_frame_def)
qed

lemma cow_memory:
  assumes cow: "cow_fault (drop_bit 12 dir) v f k s"
  defines "d \<equiv> drop_bit 12 dir" and "s' \<equiv> page_fault_cow dir v s"
  obtains a X n s2 where "n = drop_bit 12 a" "phys.truncate s' = phys.truncate s2"
    "alloc_phys_page (set_refcount k (refcount s k - 1) (snd (get_mapped_address dir v s))) = (a, s2)"
    "mem s' = (((mem s)(work_frame s := X))(n := (\<lambda>i. if i < 1024 then mem s f i else mem s n i)))
       (table d (pdi v) s := (mem s (table d (pdi v) s))(pti v := fresh_pte True True (align_page a)))"
proof -
  from page_fault_cow_shared[OF cow refl] obtain s1 a s2 where
    s1: "s1 = set_refcount k (refcount s k - 1) (snd (get_mapped_address dir v s))" and
    al: "alloc_phys_page s1 = (a, s2)" and
    run: "s' = set_page_table_entry dir v a True True (copy_frame (push_bit 12 f) a s2)"
    unfolding s'_def .
  note c = cow[folded d_def, unfolded cow_fault_def]
  note al_facts = cow_allocate[OF cow s1 al]
  let ?n = "drop_bit 12 a" and ?w = "work_frame s" and ?t = "table d (pdi v) s"
  have f: "drop_bit 12 (push_bit 12 f) = f" using c by (metis push_page_addr)
  have n: "?n \<notin> {walk_dir s, walk_table s, ?w, d, ?t}"
    using al_facts(2) c wf_dirD(1)[of d s] wf_dirD(3)[of d s "pdi v"] by auto
  have w: "work_frame s2 \<notin> {walk_dir s2, walk_table s2, f, ?n}" "?w \<notin> {d, ?t}" using c n by (auto simp: al_facts)
  have "?n \<notin> {walk_dir s2, walk_table s2}" using n by (simp add: al_facts)
  note cf = copy_frame_eff[OF f[symmetric] refl w(1) this, unfolded al_facts]
  from cf(1) obtain X where X: "mem (copy_frame (push_bit 12 f) a s2) =
      ((mem s)(?w := X))(?n := (\<lambda>i. if i < 1024 then mem s f i else mem s ?n i))" by blast
  note tr = cf(2)
  have tab: "table d (pdi v) (copy_frame (push_bit 12 f) a s2) = ?t" using n w by (auto simp: table_def X)
  then have "table d (pdi v) (copy_frame (push_bit 12 f) a s2) \<noteq> 0" using c by simp
  note eff = set_entry_existing[of dir v "copy_frame (push_bit 12 f) a s2" a True True, folded d_def, OF this, unfolded Let_def tab]
  show ?thesis
  proof (rule that[OF refl])
    show "phys.truncate s' = phys.truncate s2" using eff(2) tr by (simp add: run)
    show "alloc_phys_page (set_refcount k (refcount s k - 1) (snd (get_mapped_address dir v s))) = (a, s2)"
      using al s1 by simp
    show "mem s' = (((mem s)(?w := X))(?n := (\<lambda>i. if i < 1024 then mem s f i else mem s ?n i)))
       (?t := (mem s ?t)(pti v := fresh_pte True True (align_page a)))"
      using n w(2) by (auto simp: run eff(1) X)
  qed
qed

lemma page_fault_cow_resolves:
  assumes cow: "cow_fault (drop_bit 12 dir) v f k s"
  shows "cow_resolved (drop_bit 12 dir) v f k s (page_fault_cow dir v s)"
proof -
  define d t w s' where "d = drop_bit 12 dir" and "t = table d (pdi v) s" and "w = work_frame s"
    and "s' = page_fault_cow dir v s"
  obtain a X n s2 where n: "n = drop_bit 12 a" and tr2: "phys.truncate s' = phys.truncate s2"
    and al: "alloc_phys_page (set_refcount k (refcount s k - 1) (snd (get_mapped_address dir v s))) = (a, s2)"
    and m: "mem s' = (((mem s)(w := X))(n := (\<lambda>i. if i < 1024 then mem s f i else mem s n i)))
       (t := (mem s t)(pti v := fresh_pte True True (align_page a)))"
    unfolding s'_def t_def d_def w_def by (rule cow_memory[OF cow])
  note fr = cow_allocate[OF cow refl al, folded n]
  note tr = phys_truncate_cong[OF tr2]
  note c = cow[folded d_def, unfolded cow_fault_def, folded t_def w_def]
  have wf: "wf_dir d s" and v: "pdi v < 1023" and t0: "t \<noteq> 0" and fw: "f \<noteq> w" "f \<noteq> d" "f \<noteq> t" "w \<noteq> d" "w \<noteq> t"
    and wu: "frame_used w s" and k: "k < phys_pages s" "push_bit 12 f = alloc_phys_index_to_addr k s" "refcount s k \<noteq> 0"
    and wt: "\<And>i. i < 1023 \<Longrightarrow> w \<noteq> table d i s"
    using c by (auto simp: t_def)
  have nu: "\<And>x. frame_used x s \<Longrightarrow> n \<noteq> x" using fr(2) by blast
  have fu: "frame_used f s" using k by (auto simp: frame_used_def used_frames_def)
  have td: "t \<noteq> d" and tu: "frame_used t s" using wf_dirD(2,3)[OF wf v] t0 by (auto simp: t_def)
  have nt: "n \<noteq> table d i s" if "i < 1023" "table d i s \<noteq> 0" for i using nu wf_dirD(3)[OF wf that] by blast
  have tab: "table d i s' = table d i s" for i
    using td nu[OF wf_dirD(1)[OF wf]] fw by (simp add: table_def m)
  have e: "pte_of d v s' = fresh_pte True True (align_page a)" using t0 by (simp add: pte_of_def tab flip: t_def) (simp add: m)
  have pn: "page_addr (pte_of d v s') = n" "push_bit 12 n = a" using fr(1) n by (simp_all add: e)
  have other: "pte_of d x s' = pte_of d x s" if x: "pdi x < 1023" "align_page x \<noteq> align_page v" for x
  proof (cases "table d (pdi x) s = 0")
    case False
    have "table d (pdi x) s = t \<Longrightarrow> pdi x = pdi v" using wf_dirD(4)[OF wf x(1) v False] by (simp add: t_def)
    then show ?thesis
      using x False nt[OF x(1) False] wt[OF x(1)] nu[OF tu] fw by (auto simp: pte_of_def tab m same_page_iff)
  qed (simp add: pte_of_def tab)
  have "wf_dir d s'" using wf fr(3) unfolding wf_dir_def tab frame_used_def tr by blast
  moreover have "\<forall>i<1024. mem s' n i = mem s f i" "mem s' f = mem s f"
    using nu[OF tu] nu[OF fu] fw by (simp_all add: m)
  moreover have "\<not> frame_used n s" "frame_used n s'" "alloc_phys_get_refcount (push_bit 12 n) s' = 1"
    "refcount s' k = refcount s k - 1"
    using fr pn(2) by (simp_all add: frame_used_def tr)
  ultimately show ?thesis
    using other unfolding cow_resolved_def Let_def d_def[symmetric] s'_def[symmetric] pn(1) unfolding e by simp
qed

end
