(* ===== verification/Memory_Heap.thy ===== *)
theory Memory_Heap
  imports Memory_Paging
begin

text \<open>
  The kernel heap, \<^verbatim>\<open>kernel/memory/memory_heap.c\<close>: the allocator of \<open>Heap_Core\<close> with a heap that grows by
  mapping fresh frames behind its end. \<open>allocator\<close> is the contract that the users of a heap rely on;
  the kernel heap is one instance of it.
\<close>

subsection \<open>The code\<close>

definition initialise_heap :: "'z vm_scheme \<Rightarrow> 'z vm_scheme" where
  "initialise_heap s =
     (let s = s\<lparr>allocated_size := PAGE_BYTE_LEN\<rparr>;
          (heap_init_phys, s) = alloc_phys_page s;
          s = set_page_table_entry (get_page_directory_address s) KERNEL_HEAP_INIT_ADDR heap_init_phys True False s
      in s\<lparr>kh_end := KERNEL_HEAP_INIT_ADDR + PAGE_BYTE_LEN, kh_start := KERNEL_HEAP_INIT_ADDR, kh_head := 0\<rparr>)"

text \<open>One round of the loop of \<open>increase_heap\<close>, and the number of rounds.\<close>

definition increase_heap_page :: "'z vm_scheme \<Rightarrow> 'z vm_scheme" where
  "increase_heap_page s =
     (let (heap_phys, s) = alloc_phys_page s;
          s = set_page_table_entry (get_page_directory_address s) (kh_end s) heap_phys True False s
      in s\<lparr>kh_end := kh_end s + PAGE_BYTE_LEN, allocated_size := allocated_size s + PAGE_BYTE_LEN\<rparr>)"

definition pages_for :: "u32 \<Rightarrow> nat" where
  "pages_for bytes =
     (let pages = bytes div PAGE_BYTE_LEN in unat (if 0 < bytes mod PAGE_BYTE_LEN then pages + 1 else pages))"

definition increase_heap :: "u32 \<Rightarrow> 'z vm_scheme \<Rightarrow> 'z vm_scheme" where
  "increase_heap bytes s = (increase_heap_page ^^ pages_for bytes) s"

definition kern_malloc :: "u32 \<Rightarrow> 'z vm_scheme \<Rightarrow> (ptr \<times> 'z vm_scheme) option" where
  "kern_malloc sz s = heap_allocate increase_heap sz s"

definition kern_free :: "ptr \<Rightarrow> 'z vm_scheme \<Rightarrow> 'z vm_scheme option" where
  "kern_free object s = heap_free object s"

definition get_heap_end :: "'z vm_scheme \<Rightarrow> u32" where
  "get_heap_end s = kh_end s"

subsection \<open>Growing the heap\<close>

lemma alloc_page_kheap [kmem_simps, simp]:
  "kh_items (snd (alloc_phys_page s)) = kh_items s" "kh_head (snd (alloc_phys_page s)) = kh_head s"
  "kh_start (snd (alloc_phys_page s)) = kh_start s" "kh_end (snd (alloc_phys_page s)) = kh_end s"
  "kh_bytes (snd (alloc_phys_page s)) = kh_bytes s"
  by (simp_all add: alloc_phys_page_def set_refcount_def split: option.split prod.split)

lemma window_kheap [kmem_simps, simp]:
  "kheap.truncate (temp_map_page a s) = kheap.truncate s" "kheap.truncate (win_write i v s) = kheap.truncate s"
  "kheap.truncate (win_clear s) = kheap.truncate s" "kheap.truncate (snd (alloc_phys_page s)) = kheap.truncate s"
  by (simp_all add: kheap.truncate_def temp_map_page_def win_write_def win_clear_eq alloc_phys_page_def
      set_refcount_def split: option.split prod.split)

lemma set_entry_kheap [kmem_simps, simp]: "kheap.truncate (set_page_table_entry d v p pr us s) = kheap.truncate s"
  by (simp add: set_page_table_entry_def Let_def case_prod_beta)

lemma kheap_truncate_cong:
  assumes "kheap.truncate s' = kheap.truncate s"
  shows "kh_items s' = kh_items s" "kh_head s' = kh_head s" "kh_start s' = kh_start s" "kh_end s' = kh_end s"
    "kh_bytes s' = kh_bytes s"
  using assms by (simp_all add: kheap.truncate_def)

lemma increase_heap_page_sel:
  "kh_items (increase_heap_page s) = kh_items s" "kh_head (increase_heap_page s) = kh_head s"
  "kh_start (increase_heap_page s) = kh_start s" "kh_bytes (increase_heap_page s) = kh_bytes s"
  "kh_end (increase_heap_page s) = kh_end s + 4096"
  by (simp_all add: increase_heap_page_def split_def Let_def kheap_truncate_cong[OF set_entry_kheap] PAGE_BYTE_LEN_def)

lemma increase_heap_sel:
  "kh_items (increase_heap n s) = kh_items s" "kh_head (increase_heap n s) = kh_head s"
  "kh_start (increase_heap n s) = kh_start s" "kh_bytes (increase_heap n s) = kh_bytes s"
  "kh_end (increase_heap n s) = kh_end s + of_nat (pages_for n) * 4096"
proof -
  have "kh_items ((increase_heap_page ^^ k) s) = kh_items s \<and> kh_head ((increase_heap_page ^^ k) s) = kh_head s \<and>
    kh_start ((increase_heap_page ^^ k) s) = kh_start s \<and> kh_bytes ((increase_heap_page ^^ k) s) = kh_bytes s \<and>
    kh_end ((increase_heap_page ^^ k) s) = kh_end s + of_nat k * 4096" for k
    by (induction k) (simp_all add: increase_heap_page_sel algebra_simps)
  then show "kh_items (increase_heap n s) = kh_items s" "kh_head (increase_heap n s) = kh_head s"
    "kh_start (increase_heap n s) = kh_start s" "kh_bytes (increase_heap n s) = kh_bytes s"
    "kh_end (increase_heap n s) = kh_end s + of_nat (pages_for n) * 4096"
    by (simp_all add: increase_heap_def)
qed

lemma pages_for_nat: "pages_for n = (unat n + 4095) div 4096"
proof -
  have q: "unat (n div 4096) = unat n div 4096" "unat (n mod 4096) = unat n mod 4096"
    by (simp_all add: unat_div_distrib unat_mod_distrib)
  have "unat n div 4096 < 1048576" using unat_u32_less[of n] by (intro less_mult_imp_div_less) simp
  then have "unat (n div 4096 + 1) = unat n div 4096 + 1" using q by (simp add: unat_word_ariths)
  moreover have "0 < n mod 4096 \<longleftrightarrow> unat n mod 4096 \<noteq> 0"
    using q(2) by (metis unat_eq_zero word_neq_0_conv)
  moreover have "(unat n + 4095) div 4096 = (if unat n mod 4096 \<noteq> 0 then unat n div 4096 + 1 else unat n div 4096)"
  proof -
    obtain q r where qr: "unat n = q * 4096 + r" "r < 4096"
      using div_mult_mod_eq[of "unat n" 4096] by (metis mod_less_divisor zero_less_numeral)
    then have "(unat n + 4095) div 4096 = (if r = 0 then q else q + 1)" by auto
    with qr show ?thesis by simp
  qed
  ultimately show ?thesis using q(1) by (simp add: pages_for_def PAGE_BYTE_LEN_def Let_def)
qed

text \<open>The heap may grow up to two gibibytes and to the end of the address space.\<close>

definition heap_room :: "u32 \<Rightarrow> 'z vm_scheme \<Rightarrow> bool" where
  "heap_room n s \<longleftrightarrow>
     unat (kh_end s) + 4096 * pages_for n \<le> unat (kh_start s) + 2 ^ 31 \<and>
     unat (kh_end s) + 4096 * pages_for n < 2 ^ 32"

lemma increase_heap_end:
  "heap_room n s \<Longrightarrow> unat (kh_end (increase_heap n s)) = unat (kh_end s) + 4096 * pages_for n"
  by (simp add: heap_room_def increase_heap_sel unat_word_ariths unat_of_nat take_bit_nat_eq_self)

interpretation kh: heap_grower increase_heap heap_room
proof unfold_locales
  fix n and s :: "'z vm_scheme"
  show "kh_items (increase_heap n s) = kh_items s" "kh_head (increase_heap n s) = kh_head s"
    "kh_start (increase_heap n s) = kh_start s" "kh_bytes (increase_heap n s) = kh_bytes s"
    by (rule increase_heap_sel)+
  assume room: "heap_room n s"
  have "unat n \<le> 4096 * pages_for n" by (simp add: pages_for_nat)
  then show "unat (kh_end s) + unat n \<le> unat (kh_end (increase_heap n s))"
    using increase_heap_end[OF room] by simp
  show "unat (kh_end (increase_heap n s)) \<le> unat (kh_start s) + 2 ^ 31"
    using increase_heap_end[OF room] room by (simp add: heap_room_def)
qed

subsection \<open>The contract of an allocator\<close>

locale allocator =
  fixes malloc :: "u32 \<Rightarrow> 'h \<Rightarrow> (ptr \<times> 'h) option"
    and release :: "ptr \<Rightarrow> 'h \<Rightarrow> 'h option"
    and live :: "'h \<Rightarrow> ptr set"
    and ok :: "'h \<Rightarrow> bool"
    and fits :: "u32 \<Rightarrow> 'h \<Rightarrow> bool"
  assumes malloc_ok: "ok h \<Longrightarrow> fits n h \<Longrightarrow>
      \<exists>p h'. malloc n h = Some (p, h') \<and> ok h' \<and> p \<noteq> 0 \<and> p \<notin> live h \<and> live h' = insert p (live h)"
    and release_ok: "ok h \<Longrightarrow> p \<in> live h \<Longrightarrow> \<exists>h'. release p h = Some h' \<and> ok h' \<and> live h' = live h - {p}"
begin

lemma malloc_release:
  assumes "ok h" "fits n h" "malloc n h = Some (p, h')"
  shows "\<exists>h''. release p h' = Some h'' \<and> ok h'' \<and> live h'' = live h"
  using malloc_ok[OF assms(1,2)] assms(3) release_ok[of h' p] by auto

end

definition kern_fits :: "u32 \<Rightarrow> 'z vm_scheme \<Rightarrow> bool" where
  "kern_fits sz s \<longleftrightarrow> unat sz < 2 ^ 31 \<and> heap_room (heap_total_size sz) s \<and>
     (kh_head s = 0 \<longrightarrow> unat (kh_start s) + 9 + unat sz < unat (kh_end s))"

definition kern_live :: "'z vm_scheme \<Rightarrow> ptr set" where
  "kern_live s = fst ` heap_live s"

lemma kern_malloc_ok:
  assumes "wf_heap s" "kern_fits sz s"
  shows "\<exists>p s'. kern_malloc sz s = Some (p, s') \<and> heap_allocated s sz p s'"
  using kh.heap_allocate_correct[of s sz] assms by (auto simp: kern_fits_def kern_malloc_def)

lemma live_unique: "(p, n) \<in> heap_live s \<Longrightarrow> (p, m) \<in> heap_live s \<Longrightarrow> n = m"
  by (auto simp: in_live_of)

lemma heap_allocated_live:
  "heap_allocated s n p s' \<Longrightarrow>
     wf_heap s' \<and> p \<noteq> 0 \<and> p \<notin> fst ` heap_live s \<and> fst ` heap_live s' = insert p (fst ` heap_live s)"
  unfolding heap_allocated_def by force

lemma heap_free_live:
  assumes wf: "wf_heap s" and "p \<in> fst ` heap_live s"
  shows "\<exists>s'. heap_free p s = Some s' \<and> wf_heap s' \<and> fst ` heap_live s' = fst ` heap_live s - {p}"
proof -
  from assms(2) obtain n where n: "(p, n) \<in> heap_live s" by force
  from heap_free_correct[OF wf n] obtain s' where
    s': "heap_free p s = Some s'" "wf_heap s'" "heap_live s' = heap_live s - {(p, n)}" by blast
  have "fst ` (L - {(p, n)}) = fst ` L - {p}" if "\<And>m. (p, m) \<in> L \<Longrightarrow> n = m" for L :: "(ptr \<times> u32) set"
    using that by force
  from this[OF live_unique[OF n]] have "fst ` heap_live s' = fst ` heap_live s - {p}" unfolding s'(3) .
  with s' show ?thesis by simp
qed

interpretation ka: allocator kern_malloc kern_free kern_live wf_heap kern_fits
proof unfold_locales
  fix n and s :: "'z vm_scheme"
  assume "wf_heap s" "kern_fits n s"
  from kern_malloc_ok[OF this] show "\<exists>p h'. kern_malloc n s = Some (p, h') \<and> wf_heap h' \<and> p \<noteq> 0 \<and>
      p \<notin> kern_live s \<and> kern_live h' = insert p (kern_live s)"
    unfolding kern_live_def using heap_allocated_live by blast
next
  fix p and s :: "'z vm_scheme"
  assume "wf_heap s" "p \<in> kern_live s"
  then show "\<exists>h'. kern_free p s = Some h' \<and> wf_heap h' \<and> kern_live h' = kern_live s - {p}"
    unfolding kern_live_def kern_free_def by (rule heap_free_live)
qed

subsection \<open>A budget for several allocations\<close>

text \<open>
  Operations above the heap allocate several times. \<open>heap_budget k s\<close>: the heap is well formed, its first block
  exists, and it can still grow by \<open>k\<close> bytes. An allocation spends at most \<open>alloc_cost n\<close>, and leaves what
  lies above the memory system alone.
\<close>

definition alloc_cost :: "u32 \<Rightarrow> nat" where
  "alloc_cost n = 4096 * pages_for (heap_total_size n)"

definition heap_budget :: "nat \<Rightarrow> 'z vm_scheme \<Rightarrow> bool" where
  "heap_budget k s \<longleftrightarrow> wf_heap s \<and> kh_head s \<noteq> 0 \<and>
     unat (kh_end s) + k \<le> unat (kh_start s) + 2 ^ 31 \<and> unat (kh_end s) + k < 2 ^ 32"

lemma more_simps [simp]:
  "vm.more (set_refcount i v s) = vm.more s" "vm.more (temp_map_page a s) = vm.more s" "vm.more (win_write i w s) = vm.more s"
  "vm.more (snd (alloc_phys_page s)) = vm.more s"
  by (auto simp: set_refcount_def temp_map_page_def win_write_def alloc_phys_page_def split: option.split)

lemma more_win_clear [simp]: "vm.more (win_clear s) = vm.more s"
proof -
  have "vm.more (fold (\<lambda>i. win_write i 0) is s) = vm.more s" for "is" by (induction "is" arbitrary: s) simp_all
  then show ?thesis by (simp add: win_clear_def)
qed

lemma more_set_entry [simp]: "vm.more (set_page_table_entry d v a b u s) = vm.more s"
  by (simp add: set_page_table_entry_def Let_def split_def)

lemma more_increase [simp]: "vm.more (increase_heap n s) = vm.more s"
proof -
  have "vm.more (increase_heap_page s) = vm.more s" for s :: "'a vm_scheme"
    by (simp add: increase_heap_page_def split_def Let_def)
  then have "vm.more ((increase_heap_page ^^ k) s) = vm.more s" for k by (induction k) simp_all
  then show ?thesis by (simp add: increase_heap_def)
qed

lemma kern_malloc_effect:
  assumes "kern_malloc n s = Some (p, s')"
  shows "vm.more s' = vm.more s \<and> kh_start s' = kh_start s \<and> (kh_head s \<noteq> 0 \<longrightarrow> kh_head s' = kh_head s) \<and>
    kh_end s' \<in> {kh_end s, kh_end (increase_heap (heap_total_size n) s)}"
proof -
  have fin: "vm.more u' = vm.more u \<and> kh_start u' = kh_start u \<and> kh_head u' = kh_head u \<and> kh_end u' = kh_end u"
    if "heap_finish i u = Some (b, u')" for i b and u u' :: "'a vm_scheme"
    using that by (auto simp: heap_finish_def Let_def split: option.splits)
  show ?thesis
  proof (cases "kh_head s = 0")
    case True
    then show ?thesis using assms by (auto simp: kern_malloc_def heap_allocate_def Let_def dest!: fin)
  next
    case False
    then obtain i k where ik: "heap_walk (kh_items s) n (kh_head s) = Some i" "kh_items s i = Some k"
      using assms by (auto simp: kern_malloc_def heap_allocate_def Let_def bind_eq_Some_conv)
    show ?thesis
    proof (cases "ka_next k = 0")
      case True
      then show ?thesis using assms False ik
        by (auto simp: kern_malloc_def heap_allocate_def Let_def increase_heap_sel(2,3) split: if_splits dest!: fin)
    next
      case nz: False
      then show ?thesis using assms False ik by (auto simp: kern_malloc_def heap_allocate_def Let_def dest!: fin)
    qed
  qed
qed

lemma kern_malloc_budget:
  assumes b: "heap_budget (alloc_cost n + k) s" and n: "unat n < 2 ^ 31"
  shows "\<exists>p s'. kern_malloc n s = Some (p, s') \<and> heap_allocated s n p s' \<and> heap_budget k s' \<and> vm.more s' = vm.more s"
proof -
  have room: "heap_room (heap_total_size n) s" using b by (auto simp: heap_budget_def heap_room_def alloc_cost_def)
  then have "kern_fits n s" "wf_heap s" using b n by (auto simp: kern_fits_def heap_budget_def)
  then obtain p s' where p: "kern_malloc n s = Some (p, s')" "heap_allocated s n p s'" using kern_malloc_ok by blast
  note eff = kern_malloc_effect[OF p(1)]
  have "unat (kh_end s') \<le> unat (kh_end s) + alloc_cost n"
    using eff increase_heap_end[OF room] by (auto simp: alloc_cost_def)
  moreover have "wf_heap s'" using p(2) by (simp add: heap_allocated_def)
  ultimately have "heap_budget k s'" using b eff by (auto simp: heap_budget_def)
  then show ?thesis using p eff by blast
qed

lemma kern_free_budget:
  assumes b: "heap_budget k s" and p: "p \<in> kern_live s"
  shows "\<exists>s'. kern_free p s = Some s' \<and> heap_budget k s' \<and> kern_live s' = kern_live s - {p} \<and> vm.more s' = vm.more s"
proof -
  obtain s' where s': "kern_free p s = Some s'" "wf_heap s'" "kern_live s' = kern_live s - {p}"
    using ka.release_ok[of s p] assms by (auto simp: heap_budget_def)
  moreover have "vm.more s' = vm.more s" "kh_start s' = kh_start s" "kh_end s' = kh_end s" "kh_head s' = kh_head s"
    using s'(1) by (auto simp: kern_free_def heap_free_def Let_def split: option.splits)
  ultimately show ?thesis using b by (auto simp: heap_budget_def)
qed

lemma heap_budget_mono: "heap_budget k s \<Longrightarrow> j \<le> k \<Longrightarrow> heap_budget j s"
  by (auto simp: heap_budget_def)

subsection \<open>Heaps without holes\<close>

text \<open>
  \<open>heap_full s\<close>: no block is free. \<open>free_behind s\<close>: the free blocks lie behind the blocks in use, so that no block
  in use follows a block that an allocation hands out.
\<close>

definition heap_full :: "'z vm_scheme \<Rightarrow> bool" where
  "heap_full s \<longleftrightarrow> (\<forall>k\<in>ran (kh_items s). ka_present k)"

definition free_behind :: "'z vm_scheme \<Rightarrow> bool" where
  "free_behind s \<longleftrightarrow> (\<forall>a k b l. kh_items s a = Some k \<longrightarrow> kh_items s b = Some l \<longrightarrow> ka_present k \<longrightarrow> \<not> ka_present l \<longrightarrow> unat a < unat b)"

lemma full_behind: "heap_full s \<Longrightarrow> free_behind s"
  by (auto simp: heap_full_def free_behind_def ran_def)

lemma present_live: "(\<exists>k. kh_items s a = Some k \<and> ka_present k) \<longleftrightarrow> a + sizeof_kalloc \<in> kern_live s"
  by (auto simp: kern_live_def live_of_def image_iff)

lemma malloc_place:
  assumes b: "heap_budget j s" and run: "kern_malloc n s = Some (p, s')" "p \<noteq> 0" and n: "unat n < 2 ^ 31"
  obtains a where "p = a + sizeof_kalloc" "a \<in> dom (kh_items s')"
    "a \<notin> dom (kh_items s) \<and> dom (kh_items s') = insert a (dom (kh_items s)) \<and> (\<forall>b\<in>dom (kh_items s). unat b < unat a) \<or>
     (\<exists>k. kh_items s a = Some k \<and> \<not> ka_present k)"
    "\<forall>c k. c \<noteq> a \<longrightarrow> kh_items s' c = Some k \<longrightarrow> \<not> ka_present k \<longrightarrow> (\<exists>l. kh_items s c = Some l \<and> \<not> ka_present l) \<or> unat a < unat c"
proof -
  obtain bs where "wf_blocks s bs" "kh_head s \<noteq> 0" using b by (auto simp: heap_budget_def wf_heap_def)
  then show ?thesis by (rule kh.heap_allocate_place[OF _ run(1)[unfolded kern_malloc_def] _ run(2) n]) (rule that)
qed

text \<open>An allocation from a full heap keeps it full, and nothing lies behind the new block.\<close>

lemma malloc_full:
  assumes b: "heap_budget (alloc_cost n + k) s" "unat n < 2 ^ 31" and f: "heap_full s" and run: "kern_malloc n s = Some (p, s')"
  shows "heap_full s'" "kh_items s' (p + n) = None"
proof -
  obtain m where p: "p \<noteq> 0" "wf_heap s'" and live: "heap_live s' = insert (p, m) (heap_live s)" and nm: "n \<le> m"
    using kern_malloc_budget[OF b] run by (auto simp: heap_allocated_def)
  obtain a where a: "p = a + sizeof_kalloc" "a \<in> dom (kh_items s')"
    "a \<notin> dom (kh_items s) \<and> dom (kh_items s') = insert a (dom (kh_items s)) \<and> (\<forall>b\<in>dom (kh_items s). unat b < unat a) \<or>
     (\<exists>k. kh_items s a = Some k \<and> \<not> ka_present k)" by (rule malloc_place[OF b(1) run p(1) b(2)])
  then have new: "dom (kh_items s') = insert a (dom (kh_items s))" "\<forall>b\<in>dom (kh_items s). unat b < unat a"
    using f by (auto simp: heap_full_def ran_def)
  have pres: "c + sizeof_kalloc \<in> kern_live s'" if "c \<in> dom (kh_items s')" for c
  proof (cases "c = a")
    case False
    then have "c + sizeof_kalloc \<in> kern_live s" using that new(1) f present_live[of s c] by (auto simp: heap_full_def ran_def)
    then show ?thesis using live by (auto simp: kern_live_def)
  qed (use live a(1) in \<open>simp add: kern_live_def\<close>)
  show "heap_full s'" unfolding heap_full_def
  proof
    fix k assume "k \<in> ran (kh_items s')"
    then obtain c where c: "kh_items s' c = Some k" by (auto simp: ran_def)
    then show "ka_present k" using pres[of c] present_live[of s' c] by auto
  qed
  obtain bs where bs: "wf_blocks s' bs" using p(2) by (auto simp: wf_heap_def)
  obtain l where l: "kh_items s' a = Some l" using a(2) by blast
  have "linked (kh_items s') (kh_head s') bs 0" "a \<in> fst ` set bs" using bs l by (auto simp: wf_blocks_def)
  with l have al: "(a, l) \<in> set bs" using linked_dom by fastforce
  have "(p, m) \<in> heap_live s'" using live by simp
  then have "ka_size l = m" using l a(1) by (auto simp: in_live_of)
  then have "unat a + 9 + unat n < 2 ^ 32"
    using wf_blocks_fit[OF bs al] unat_u32_less[of "kh_end s'"] nm by (simp add: block_len_def word_le_nat_alt)
  then have "unat a < unat (p + n)" by (simp add: a(1) sizeof_kalloc_def unat_word_ariths)
  then show "kh_items s' (p + n) = None" using new by (metis domIff insertE less_imp_not_eq not_less_iff_gr_or_eq)
qed

end
