(* ===== verification/Alloc.thy ===== *)
theory Alloc
  imports Memory_Heap
begin

text \<open>
  The user-space allocator, \<^verbatim>\<open>libraries/alloc.c\<close>: the same algorithm as the kernel heap, growing with the
  \<open>sbrk\<close> system call. What \<open>sbrk\<close> does is an argument of the definitions; the locale
  \<open>program_break\<close> states what the allocator needs of it, and the program break kept by the kernel
  (\<open>heap_end\<close> of the process, moved by \<open>sysc_sbrk\<close> in whole pages) satisfies it.
\<close>

subsection \<open>The code\<close>

definition ALLOC_HEAP_START :: u32 where "ALLOC_HEAP_START = 0x50000000"

text \<open>The difference of two \<open>uint32_t *\<close> is the distance in bytes divided by four.\<close>

definition alloc_initialise :: "u32 \<Rightarrow> u32 \<Rightarrow> 'z kheap_scheme \<Rightarrow> int \<times> 'z kheap_scheme" where
  "alloc_initialise used current_end s =
     (let start = ALLOC_HEAP_START + used
      in (0, s\<lparr>kh_start := start, kh_end := current_end,
               allocated_size := word_of_int (sint (current_end - start) div 4), kh_head := 0\<rparr>))"

definition alloc_increase_memory ::
  "(u32 \<Rightarrow> 'z kheap_scheme \<Rightarrow> u32 \<times> 'z kheap_scheme) \<Rightarrow> u32 \<Rightarrow> 'z kheap_scheme \<Rightarrow> 'z kheap_scheme"
where
  "alloc_increase_memory sbrk bytes s =
     (let (new_end, s) = sbrk bytes s;
          old_end = kh_end s
      in s\<lparr>kh_end := new_end, allocated_size := allocated_size s + (new_end - old_end)\<rparr>)"

definition alloc_allocate ::
  "(u32 \<Rightarrow> 'z kheap_scheme \<Rightarrow> u32 \<times> 'z kheap_scheme) \<Rightarrow> u32 \<Rightarrow> 'z kheap_scheme \<Rightarrow> (ptr \<times> 'z kheap_scheme) option"
where
  "alloc_allocate sbrk sz s = heap_allocate (alloc_increase_memory sbrk) sz s"

definition alloc_free :: "ptr \<Rightarrow> 'z kheap_scheme \<Rightarrow> 'z kheap_scheme option" where
  "alloc_free memory s = heap_free memory s"

definition alloc_reallocate ::
  "(u32 \<Rightarrow> 'z kheap_scheme \<Rightarrow> u32 \<times> 'z kheap_scheme) \<Rightarrow> ptr \<Rightarrow> u32 \<Rightarrow> 'z kheap_scheme \<Rightarrow> (ptr \<times> 'z kheap_scheme) option"
where
  "alloc_reallocate sbrk memory sz s = do { s \<leftarrow> alloc_free memory s; alloc_allocate sbrk sz s }"

subsection \<open>What the allocator needs of the program break\<close>

lemma live_no_wrap:
  assumes "wf_heap s" "(p, n) \<in> heap_live s"
  shows "unat p + unat n < 2 ^ 32"
proof -
  from assms(1) obtain bs where w: "wf_blocks s bs" by (auto simp: wf_heap_def)
  from live_block[OF w assms(2)] obtain a k where a: "(a, k) \<in> set bs" "(p, n) = (a + sizeof_kalloc, ka_size k)" by metis
  have "unat p = unat a + 9" using wf_blocks_payload(1)[OF w a(1)] a(2) by simp
  moreover have "unat a + block_len (a, k) < 2 ^ 32"
    using wf_blocks_fit[OF w a(1)] unat_u32_less[of "kh_end s"] by simp
  ultimately show ?thesis using a(2) by (simp add: block_len_def)
qed

locale program_break =
  fixes sbrk :: "u32 \<Rightarrow> 'z kheap_scheme \<Rightarrow> u32 \<times> 'z kheap_scheme"
    and brk_room :: "u32 \<Rightarrow> 'z kheap_scheme \<Rightarrow> bool"
  assumes sbrk_heap: "kheap.truncate (snd (sbrk n s)) = kheap.truncate s"
    and sbrk_up: "brk_room n s \<Longrightarrow> unat (kh_end s) + unat n \<le> unat (fst (sbrk n s))"
    and sbrk_span: "brk_room n s \<Longrightarrow> unat (fst (sbrk n s)) \<le> unat (kh_start s) + 2 ^ 31"
begin

lemma increase_memory_sel:
  "kh_items (alloc_increase_memory sbrk n s) = kh_items s" "kh_head (alloc_increase_memory sbrk n s) = kh_head s"
  "kh_start (alloc_increase_memory sbrk n s) = kh_start s" "kh_bytes (alloc_increase_memory sbrk n s) = kh_bytes s"
  "kh_end (alloc_increase_memory sbrk n s) = fst (sbrk n s)"
  using kheap_truncate_cong[OF sbrk_heap[of n s]]
  by (simp_all add: alloc_increase_memory_def Let_def case_prod_beta)

end

sublocale program_break \<subseteq> heap_grower "alloc_increase_memory sbrk" brk_room
  by unfold_locales (use sbrk_up sbrk_span in \<open>simp_all add: increase_memory_sel\<close>)

context program_break
begin

definition user_fits :: "u32 \<Rightarrow> 'z kheap_scheme \<Rightarrow> bool" where
  "user_fits sz s \<longleftrightarrow> unat sz < 2 ^ 31 \<and> brk_room (heap_total_size sz) s \<and>
     (kh_head s = 0 \<longrightarrow> unat (kh_start s) + 9 + unat sz < unat (kh_end s))"

lemma alloc_allocate_ok:
  assumes "wf_heap s" "user_fits sz s"
  shows "\<exists>p s'. alloc_allocate sbrk sz s = Some (p, s') \<and> heap_allocated s sz p s'"
  using heap_allocate_correct[of s sz] assms by (auto simp: user_fits_def alloc_allocate_def)

lemma reallocate_cleared:
  assumes wf: "wf_heap s" and live: "(p, n) \<in> heap_live s" and "alloc_free p s = Some s1" "user_fits sz s1"
  shows "\<exists>q s'. alloc_reallocate sbrk p sz s = Some (q, s') \<and> wf_heap s' \<and>
           (\<forall>i < unat sz. kh_bytes s' (q + of_nat i) = 0)"
proof -
  have "wf_heap s1" using heap_free_correct[OF wf live] assms(3) by (auto simp: alloc_free_def)
  from alloc_allocate_ok[OF this assms(4)] obtain q s' m where
    q: "alloc_allocate sbrk sz s1 = Some (q, s')" "wf_heap s'" "sz \<le> m" "(q, m) \<in> heap_live s'"
    "\<forall>a. kh_bytes s' a = (if unat a \<in> area (q, m) then 0 else kh_bytes s1 a)"
    by (auto simp: heap_allocated_def)
  have "unat (q + of_nat i) \<in> area (q, m)" if "i < unat sz" for i
  proof -
    have "i < unat m" using that q(3) by (simp add: word_le_nat_alt)
    then show ?thesis using live_no_wrap[OF q(2,4)]
      by (simp add: area_def unat_word_ariths unat_of_nat take_bit_nat_eq_self)
  qed
  with q assms(3) show ?thesis by (auto simp: alloc_reallocate_def)
qed

end

sublocale program_break \<subseteq> user: allocator "alloc_allocate sbrk" alloc_free "\<lambda>s. fst ` heap_live s" wf_heap user_fits
proof unfold_locales
  fix n and s :: "'z kheap_scheme"
  assume "wf_heap s" "user_fits n s"
  from alloc_allocate_ok[OF this] show "\<exists>p h'. alloc_allocate sbrk n s = Some (p, h') \<and> wf_heap h' \<and> p \<noteq> 0 \<and>
      p \<notin> fst ` heap_live s \<and> fst ` heap_live h' = insert p (fst ` heap_live s)"
    using heap_allocated_live by blast
next
  fix p and s :: "'z kheap_scheme"
  assume "wf_heap s" "p \<in> fst ` heap_live s"
  then show "\<exists>h'. alloc_free p s = Some h' \<and> wf_heap h' \<and> fst ` heap_live h' = fst ` heap_live s - {p}"
    unfolding alloc_free_def by (rule heap_free_live)
qed

subsection \<open>The program break of a process\<close>

text \<open>
  \<open>heap_end\<close> of the process as \<open>sysc_sbrk\<close> moves it: up by whole pages for a positive argument. For a
  negative one the page count is negative and the loop does not run.
\<close>

record user_heap = kheap +
  heap_end_k :: u32

definition sbrk_end :: "u32 \<Rightarrow> u32 \<Rightarrow> u32" where
  "sbrk_end bytes e = (if 0 <s bytes then e + of_nat (pages_for bytes) * 4096 else e)"

definition sbrk :: "u32 \<Rightarrow> 'z user_heap_scheme \<Rightarrow> u32 \<times> 'z user_heap_scheme" where
  "sbrk bytes s = (let e = sbrk_end bytes (heap_end_k s) in (e, s\<lparr>heap_end_k := e\<rparr>))"

definition sbrk_room :: "u32 \<Rightarrow> 'z user_heap_scheme \<Rightarrow> bool" where
  "sbrk_room n s \<longleftrightarrow> heap_end_k s = kh_end s \<and> unat n < 2 ^ 31 \<and>
     unat (kh_end s) + 4096 * pages_for n \<le> unat (kh_start s) + 2 ^ 31 \<and>
     unat (kh_end s) + 4096 * pages_for n < 2 ^ 32"

lemma sbrk_fst:
  assumes "sbrk_room n s"
  shows "unat (fst (sbrk n s)) = unat (kh_end s) + 4096 * pages_for n"
proof (cases "n = 0")
  case True
  then show ?thesis using assms by (simp add: sbrk_def sbrk_end_def sbrk_room_def pages_for_nat Let_def)
next
  case False
  then have "0 <s n" using assms sint_small[of n]
    by (simp add: word_sless_alt sbrk_room_def word_neq_0_conv word_less_def)
  then show ?thesis using assms
    by (simp add: sbrk_def sbrk_end_def sbrk_room_def Let_def unat_word_ariths unat_of_nat take_bit_nat_eq_self)
qed

interpretation pb: program_break sbrk sbrk_room
proof unfold_locales
  fix n and s :: "'z user_heap_scheme"
  show "kheap.truncate (snd (sbrk n s)) = kheap.truncate s" by (simp add: sbrk_def Let_def kheap.truncate_def)
  assume r: "sbrk_room n s"
  have "unat n \<le> 4096 * pages_for n" by (simp add: pages_for_nat)
  then show "unat (kh_end s) + unat n \<le> unat (fst (sbrk n s))" using sbrk_fst[OF r] by simp
  show "unat (fst (sbrk n s)) \<le> unat (kh_start s) + 2 ^ 31" using sbrk_fst[OF r] r by (simp add: sbrk_room_def)
qed

end
