(* ===== verification/Linked_List.thy ===== *)
theory Linked_List
  imports Alloc
begin

text \<open>
  Doubly linked lists at the level of pointers: \<^verbatim>\<open>kernel/util/linked_list.c\<close>, and \<^verbatim>\<open>liblist.c\<close>, its copy for
  user programs, which calls another allocator. List headers and nodes live in two typed stores next
  to the state of the allocator; a freed object is removed from its store, so that a use after free is a
  fault (\<open>None\<close>), as is a null pointer dereference. \<open>is_list\<close> relates a header to the sequence of its
  nodes and their data; the lemmas show that each operation is its counterpart on sequences.
\<close>

subsection \<open>Stores\<close>

record lnk_lst_node =
  previous :: ptr
  nxt :: ptr
  data :: ptr

record lnk_lst =
  list_head :: ptr
  list_tail :: ptr
  list_length :: int

record 'h lmem =
  hp :: 'h
  lsts :: "ptr \<rightharpoonup> lnk_lst"
  nodes :: "ptr \<rightharpoonup> lnk_lst_node"

definition sizeof_list :: u32 where "sizeof_list = 12"
definition sizeof_node :: u32 where "sizeof_node = 12"

definition upd_node :: "ptr \<Rightarrow> (lnk_lst_node \<Rightarrow> lnk_lst_node) \<Rightarrow> 'h lmem \<Rightarrow> 'h lmem option" where
  "upd_node p f s = do { n \<leftarrow> nodes s p; Some (s\<lparr>nodes := (nodes s)(p \<mapsto> f n)\<rparr>) }"

definition upd_list :: "ptr \<Rightarrow> (lnk_lst \<Rightarrow> lnk_lst) \<Rightarrow> 'h lmem \<Rightarrow> 'h lmem option" where
  "upd_list l f s = do { h \<leftarrow> lsts s l; Some (s\<lparr>lsts := (lsts s)(l \<mapsto> f h)\<rparr>) }"

definition free_node :: "(ptr \<Rightarrow> 'h \<Rightarrow> 'h option) \<Rightarrow> ptr \<Rightarrow> 'h lmem \<Rightarrow> 'h lmem option" where
  "free_node release p s = do { h \<leftarrow> release p (hp s); Some (s\<lparr>hp := h, nodes := (nodes s)(p := None)\<rparr>) }"

subsection \<open>Creating and destroying\<close>

definition linked_list_create :: "(u32 \<Rightarrow> 'h \<Rightarrow> (ptr \<times> 'h) option) \<Rightarrow> 'h lmem \<Rightarrow> (ptr \<times> 'h lmem) option" where
  "linked_list_create malloc s = do {
     (list, h) \<leftarrow> malloc sizeof_list (hp s);
     if list = 0 then None
     else Some (list, s\<lparr>hp := h, lsts := (lsts s)(list \<mapsto> \<lparr>list_head = 0, list_tail = 0, list_length = 0\<rparr>)\<rparr>)
   }"

partial_function (option) destroy_nodes :: "(ptr \<Rightarrow> 'h \<Rightarrow> 'h option) \<Rightarrow> ptr \<Rightarrow> 'h lmem \<Rightarrow> 'h lmem option" where
  "destroy_nodes release node_temp s =
     (if node_temp \<noteq> 0
      then do {
        n \<leftarrow> nodes s node_temp;
        s \<leftarrow> free_node release node_temp s;
        destroy_nodes release (nxt n) s
      }
      else Some s)"

definition linked_list_destroy :: "(ptr \<Rightarrow> 'h \<Rightarrow> 'h option) \<Rightarrow> ptr \<Rightarrow> 'h lmem \<Rightarrow> 'h lmem option" where
  "linked_list_destroy release list s =
     (if list \<noteq> 0
      then do {
        l \<leftarrow> lsts s list;
        s \<leftarrow> destroy_nodes release (list_head l) s;
        h \<leftarrow> release list (hp s);
        Some (s\<lparr>hp := h, lsts := (lsts s)(list := None)\<rparr>)
      }
      else Some s)"

text \<open>The allocator clears the memory it hands out, so a new node has no predecessor.\<close>

definition create_node :: "(u32 \<Rightarrow> 'h \<Rightarrow> (ptr \<times> 'h) option) \<Rightarrow> ptr \<Rightarrow> ptr \<Rightarrow> 'h lmem \<Rightarrow> (ptr \<times> 'h lmem) option" where
  "create_node malloc list d s =
     (if list \<noteq> 0 \<and> d \<noteq> 0
      then do {
        (node, h) \<leftarrow> malloc sizeof_node (hp s);
        if node = 0 then None
        else Some (node, s\<lparr>hp := h, nodes := (nodes s)(node \<mapsto> \<lparr>previous = 0, nxt = 0, data = d\<rparr>)\<rparr>)
      }
      else Some (0, s))"

subsection \<open>Inserting\<close>

definition bump :: "ptr \<Rightarrow> 'h lmem \<Rightarrow> 'h lmem option" where
  "bump list s = upd_list list (\<lambda>l. l\<lparr>list_length := list_length l + 1\<rparr>) s"

definition linked_list_append :: "(u32 \<Rightarrow> 'h \<Rightarrow> (ptr \<times> 'h) option) \<Rightarrow> ptr \<Rightarrow> ptr \<Rightarrow> 'h lmem \<Rightarrow> (ptr \<times> 'h lmem) option" where
  "linked_list_append malloc list d s =
     (if list \<noteq> 0 \<and> d \<noteq> 0
      then do {
        (node, s) \<leftarrow> create_node malloc list d s;
        l \<leftarrow> lsts s list;
        s \<leftarrow> (if list_length l = 0 \<and> list_head l = 0
              then do {
                s \<leftarrow> upd_list list (\<lambda>l. l\<lparr>list_head := node, list_tail := node\<rparr>) s;
                upd_node node (\<lambda>n. n\<lparr>previous := 0, nxt := 0\<rparr>) s
              }
              else if 0 < list_length l
              then (if list_head l = list_tail l
                    then do {
                      s \<leftarrow> upd_list list (\<lambda>l. l\<lparr>list_tail := node\<rparr>) s;
                      s \<leftarrow> upd_node (list_head l) (\<lambda>n. n\<lparr>nxt := node\<rparr>) s;
                      upd_node node (\<lambda>n. n\<lparr>previous := list_head l, nxt := 0\<rparr>) s
                    }
                    else do {
                      s \<leftarrow> upd_node (list_tail l) (\<lambda>n. n\<lparr>nxt := node\<rparr>) s;
                      s \<leftarrow> upd_node node (\<lambda>n. n\<lparr>previous := list_tail l\<rparr>) s;
                      upd_list list (\<lambda>l. l\<lparr>list_tail := node\<rparr>) s
                    })
              else Some s);
        s \<leftarrow> bump list s;
        Some (node, s)
      }
      else Some (0, s))"

text \<open>
  The search loops all follow \<open>next\<close> with a counter until a condition holds or the list ends; the
  result is the node reached (0 at the end) and the counter.
\<close>

partial_function (option) scan ::
  "(ptr \<Rightarrow> lnk_lst_node \<Rightarrow> int \<Rightarrow> bool) \<Rightarrow> (ptr \<rightharpoonup> lnk_lst_node) \<Rightarrow> ptr \<Rightarrow> int \<Rightarrow> (ptr \<times> int) option"
where
  "scan stop m p i =
     (if p = 0 then Some (0, i)
      else case m p of
             None \<Rightarrow> None
           | Some n \<Rightarrow> if stop p n i then Some (p, i) else scan stop m (nxt n) (i + 1))"

definition linked_list_insert_at_index ::
  "(u32 \<Rightarrow> 'h \<Rightarrow> (ptr \<times> 'h) option) \<Rightarrow> ptr \<Rightarrow> ptr \<Rightarrow> int \<Rightarrow> 'h lmem \<Rightarrow> (ptr \<times> 'h lmem) option"
where
  "linked_list_insert_at_index malloc list d index s =
     (if list \<noteq> 0 \<and> d \<noteq> 0 \<and> 0 \<le> index
      then do {
        (node, s) \<leftarrow> create_node malloc list d s;
        l \<leftarrow> lsts s list;
        s \<leftarrow> (if index = 0
              then (if list_length l = 0
                    then upd_list list (\<lambda>l. l\<lparr>list_head := node, list_tail := node\<rparr>) s
                    else do {
                      s \<leftarrow> upd_node node (\<lambda>n. n\<lparr>previous := 0, nxt := list_head l\<rparr>) s;
                      s \<leftarrow> upd_node (list_head l) (\<lambda>n. n\<lparr>previous := node\<rparr>) s;
                      upd_list list (\<lambda>l. l\<lparr>list_head := node\<rparr>) s
                    })
              else if list_length l \<le> index
              then do {
                s \<leftarrow> upd_node (list_tail l) (\<lambda>n. n\<lparr>nxt := node\<rparr>) s;
                s \<leftarrow> upd_node node (\<lambda>n. n\<lparr>previous := list_tail l, nxt := 0\<rparr>) s;
                upd_list list (\<lambda>l. l\<lparr>list_tail := node\<rparr>) s
              }
              else do {
                (tmp_node, i) \<leftarrow> scan (\<lambda>p n i. \<not> i < index) (nodes s) (list_head l) 0;
                t \<leftarrow> nodes s tmp_node;
                s \<leftarrow> upd_node (previous t) (\<lambda>n. n\<lparr>nxt := node\<rparr>) s;
                s \<leftarrow> upd_node node (\<lambda>n. n\<lparr>previous := previous t, nxt := tmp_node\<rparr>) s;
                upd_node tmp_node (\<lambda>n. n\<lparr>previous := node\<rparr>) s
              });
        s \<leftarrow> bump list s;
        Some (node, s)
      }
      else Some (0, s))"

subsection \<open>Searching\<close>

definition linked_list_find :: "ptr \<Rightarrow> ptr \<Rightarrow> 'h lmem \<Rightarrow> ptr option" where
  "linked_list_find list d s =
     (if list \<noteq> 0 \<and> d \<noteq> 0
      then do { l \<leftarrow> lsts s list; (p, i) \<leftarrow> scan (\<lambda>p n i. data n = d) (nodes s) (list_head l) 0; Some p }
      else Some 0)"

definition linked_list_get_at :: "ptr \<Rightarrow> int \<Rightarrow> 'h lmem \<Rightarrow> ptr option" where
  "linked_list_get_at list index s =
     (if list \<noteq> 0
      then do {
        l \<leftarrow> lsts s list;
        if 0 \<le> index
        then do { (p, i) \<leftarrow> scan (\<lambda>p n i. index = i) (nodes s) (list_head l) 0; Some p }
        else Some 0
      }
      else Some 0)"

definition linked_list_index_of :: "ptr \<Rightarrow> ptr \<Rightarrow> 'h lmem \<Rightarrow> int option" where
  "linked_list_index_of list node s =
     (if list \<noteq> 0 \<and> node \<noteq> 0
      then do {
        l \<leftarrow> lsts s list;
        k \<leftarrow> (if list_head l = 0 then Some 0 else map_option data (nodes s node));
        (p, i) \<leftarrow> scan (\<lambda>p n i. p = node \<or> data n = k) (nodes s) (list_head l) 0;
        Some (if p = 0 then -1 else i)
      }
      else Some (-1))"

subsection \<open>Removing\<close>

definition linked_list_remove :: "(ptr \<Rightarrow> 'h \<Rightarrow> 'h option) \<Rightarrow> ptr \<Rightarrow> ptr \<Rightarrow> 'h lmem \<Rightarrow> 'h lmem option" where
  "linked_list_remove release list node s =
     (if list \<noteq> 0 \<and> node \<noteq> 0
      then do {
        l \<leftarrow> lsts s list;
        (tmp, i) \<leftarrow> scan (\<lambda>p n i. p = node) (nodes s) (list_head l) 0;
        if tmp \<noteq> node then Some s
        else do {
          n \<leftarrow> nodes s node;
          s \<leftarrow> (if node = list_head l
                then (if nxt n \<noteq> 0
                      then do {
                        s \<leftarrow> upd_list list (\<lambda>l. l\<lparr>list_head := nxt n\<rparr>) s;
                        upd_node (nxt n) (\<lambda>m. m\<lparr>previous := 0\<rparr>) s
                      }
                      else upd_list list (\<lambda>l. l\<lparr>list_head := 0, list_tail := 0\<rparr>) s)
                else if node = list_tail l
                then do {
                  s \<leftarrow> upd_list list (\<lambda>l. l\<lparr>list_tail := previous n\<rparr>) s;
                  upd_node (previous n) (\<lambda>m. m\<lparr>nxt := 0\<rparr>) s
                }
                else do {
                  s \<leftarrow> upd_node (previous n) (\<lambda>m. m\<lparr>nxt := nxt n\<rparr>) s;
                  upd_node (nxt n) (\<lambda>m. m\<lparr>previous := previous n\<rparr>) s
                });
          s \<leftarrow> upd_node node (\<lambda>m. m\<lparr>nxt := 0, previous := 0\<rparr>) s;
          s \<leftarrow> free_node release node s;
          upd_list list (\<lambda>l. l\<lparr>list_length := list_length l - 1\<rparr>) s
        }
      }
      else Some s)"

definition linked_list_remove_at_index :: "(ptr \<Rightarrow> 'h \<Rightarrow> 'h option) \<Rightarrow> ptr \<Rightarrow> int \<Rightarrow> 'h lmem \<Rightarrow> 'h lmem option" where
  "linked_list_remove_at_index release list index s =
     (if list \<noteq> 0
      then do {
        l \<leftarrow> lsts s list;
        if index < list_length l
        then do {
          (head, i) \<leftarrow> scan (\<lambda>p n i. \<not> i < index) (nodes s) (list_head l) 0;
          if head = 0 \<and> i < index then None else linked_list_remove release list head s
        }
        else Some s
      }
      else Some s)"

subsection \<open>Traversing\<close>

partial_function (option) traverse_from ::
  "(ptr \<Rightarrow> int \<Rightarrow> 'h lmem \<Rightarrow> 'h lmem option) \<Rightarrow> ptr \<Rightarrow> int \<Rightarrow> 'h lmem \<Rightarrow> 'h lmem option"
where
  "traverse_from f node i s =
     (if node \<noteq> 0
      then do { s \<leftarrow> f node i s; n \<leftarrow> nodes s node; traverse_from f (nxt n) (i + 1) s }
      else Some s)"

definition linked_list_traverse :: "ptr \<Rightarrow> (ptr \<Rightarrow> int \<Rightarrow> 'h lmem \<Rightarrow> 'h lmem option) \<Rightarrow> 'h lmem \<Rightarrow> 'h lmem option" where
  "linked_list_traverse list f s = do { l \<leftarrow> lsts s list; traverse_from f (list_head l) 0 s }"

subsection \<open>Lists as sequences\<close>

text \<open>
  \<open>dseg m pr p xs q tp\<close>: from \<open>p\<close>, whose predecessor is \<open>pr\<close>, the nodes and data \<open>xs\<close> follow one another in
  both directions; behind the last node \<open>tp\<close> comes \<open>q\<close>.
\<close>

fun dseg :: "(ptr \<rightharpoonup> lnk_lst_node) \<Rightarrow> ptr \<Rightarrow> ptr \<Rightarrow> (ptr \<times> ptr) list \<Rightarrow> ptr \<Rightarrow> ptr \<Rightarrow> bool" where
  "dseg m pr p [] q tp \<longleftrightarrow> p = q \<and> tp = pr"
| "dseg m pr p ((a, d) # xs) q tp \<longleftrightarrow>
     p = a \<and> a \<noteq> 0 \<and> (\<exists>n. m a = Some \<lparr>previous = pr, nxt = n, data = d\<rparr> \<and> dseg m a n xs q tp)"

definition is_list :: "'h lmem \<Rightarrow> ptr \<Rightarrow> (ptr \<times> ptr) list \<Rightarrow> bool" where
  "is_list s l xs \<longleftrightarrow> l \<noteq> 0 \<and> distinct (map fst xs) \<and>
     (\<exists>h t. lsts s l = Some \<lparr>list_head = h, list_tail = t, list_length = int (length xs)\<rparr> \<and>
            dseg (nodes s) 0 h xs 0 t)"

lemma dseg_append:
  "dseg m pr p (xs @ ys) q tp \<longleftrightarrow> (\<exists>r t. dseg m pr p xs r t \<and> dseg m t r ys q tp)"
  by (induction xs arbitrary: pr p) (auto; blast)+

lemma dseg_upd_other [simp]: "a \<notin> fst ` set xs \<Longrightarrow> dseg (m(a := n)) pr p xs q tp = dseg m pr p xs q tp"
  by (induction m pr p xs q tp rule: dseg.induct) auto

lemma dseg_last:
  "dseg m pr p xs q tp \<Longrightarrow> xs \<noteq> [] \<Longrightarrow>
     \<exists>ys pr' d. xs = ys @ [(tp, d)] \<and> m tp = Some \<lparr>previous = pr', nxt = q, data = d\<rparr> \<and> dseg m pr p ys tp pr' \<and> tp \<noteq> 0"
proof (induction xs rule: rev_induct)
  case (snoc x xs)
  obtain a d where x: "x = (a, d)" by (cases x)
  with snoc.prems obtain t where "dseg m pr p xs a t" "a \<noteq> 0" "m a = Some \<lparr>previous = t, nxt = q, data = d\<rparr>" "tp = a"
    by (auto simp: dseg_append)
  then show ?case using x by auto
qed simp

lemma dseg_first:
  "dseg m pr p xs q tp \<Longrightarrow> xs \<noteq> [] \<Longrightarrow>
     \<exists>d n ys. xs = (p, d) # ys \<and> m p = Some \<lparr>previous = pr, nxt = n, data = d\<rparr> \<and> dseg m p n ys q tp \<and> p \<noteq> 0"
  by (cases xs) auto

text \<open>Redirecting the last node of a segment forwards, and the first one backwards.\<close>

lemma dseg_set_next:
  assumes "dseg m pr p xs q tp" "xs \<noteq> []" "distinct (map fst xs)"
  shows "\<exists>n. m tp = Some n \<and> dseg (m(tp \<mapsto> n\<lparr>nxt := r\<rparr>)) pr p xs r tp"
proof -
  obtain ys pr' d where x: "xs = ys @ [(tp, d)]" "m tp = Some \<lparr>previous = pr', nxt = q, data = d\<rparr>"
      "dseg m pr p ys tp pr'" "tp \<noteq> 0"
    using dseg_last[OF assms(1,2)] by auto
  then have "tp \<notin> fst ` set ys" using assms(3) by auto
  with x have "dseg (m(tp \<mapsto> \<lparr>previous = pr', nxt = r, data = d\<rparr>)) pr p xs r tp" by (auto simp: dseg_append)
  then show ?thesis using x by auto
qed

lemma dseg_set_prev:
  assumes "dseg m pr p xs q tp" "xs \<noteq> []" "distinct (map fst xs)"
  shows "\<exists>n. m p = Some n \<and> dseg (m(p \<mapsto> n\<lparr>previous := r\<rparr>)) r p xs q tp"
  using assms by (cases xs) auto

lemma dseg_node: "dseg m pr p xs q tp \<Longrightarrow> (a, d) \<in> set xs \<Longrightarrow> \<exists>n. m a = Some n \<and> data n = d \<and> a \<noteq> 0"
  by (induction m pr p xs q tp rule: dseg.induct) auto

lemma dseg_dom: "dseg m pr p xs q tp \<Longrightarrow> fst ` set xs \<subseteq> dom m - {0}"
  by (induction m pr p xs q tp rule: dseg.induct) auto

subsection \<open>Searching is right\<close>

text \<open>The scan finds the first node whose place and contents satisfy the condition.\<close>

fun first_at :: "(ptr \<Rightarrow> ptr \<Rightarrow> int \<Rightarrow> bool) \<Rightarrow> (ptr \<times> ptr) list \<Rightarrow> int \<Rightarrow> ptr \<times> int" where
  "first_at P [] i = (0, i)"
| "first_at P ((a, d) # xs) i = (if P a d i then (a, i) else first_at P xs (i + 1))"

lemma scan_first_at:
  "dseg m pr p xs 0 tp \<Longrightarrow> (\<And>a n i. stop a n i = P a (data n) i) \<Longrightarrow> scan stop m p i = Some (first_at P xs i)"
proof (induction m pr p xs "0 :: ptr" tp arbitrary: i rule: dseg.induct)
  case (1 m pr p tp)
  then show ?case by (subst scan.simps) simp
next
  case (2 m pr p a d xs tp)
  then show ?case by (subst scan.simps) auto
qed

lemma first_at_data: "first_at (\<lambda>a d i. d = k) xs i = (case find (\<lambda>x. snd x = k) xs of
    Some x \<Rightarrow> fst x | None \<Rightarrow> 0, snd (first_at (\<lambda>a d i. d = k) xs i))"
  by (induction xs arbitrary: i) auto

lemma first_at_index:
  "first_at (\<lambda>a d i. k = i) xs i = (if i \<le> k \<and> k < i + int (length xs) then (fst (xs ! nat (k - i)), k)
     else (0, i + int (length xs)))"
proof (induction xs arbitrary: i)
  case (Cons x xs)
  have "nat (k - (i + 1)) = nat (k - i) - 1" by simp
  with Cons show ?case by (cases x) (auto simp: nth_Cons')
qed auto

lemma linked_list_find_correct:
  assumes "is_list s l xs" "d \<noteq> 0"
  shows "linked_list_find l d s = Some (case find (\<lambda>x. snd x = d) xs of Some x \<Rightarrow> fst x | None \<Rightarrow> 0)"
proof -
  from assms obtain h t where h: "lsts s l = Some \<lparr>list_head = h, list_tail = t, list_length = int (length xs)\<rparr>"
    "dseg (nodes s) 0 h xs 0 t" "l \<noteq> 0" by (auto simp: is_list_def)
  have "scan (\<lambda>p n i. data n = d) (nodes s) h 0 = Some (first_at (\<lambda>a e i. e = d) xs 0)"
    by (rule scan_first_at[OF h(2)]) simp
  then show ?thesis using h assms(2) by (simp add: linked_list_find_def) (subst first_at_data, simp)
qed

lemma linked_list_get_at_correct:
  assumes "is_list s l xs"
  shows "linked_list_get_at l k s = Some (if 0 \<le> k \<and> k < int (length xs) then fst (xs ! nat k) else 0)"
proof -
  from assms obtain h t where h: "lsts s l = Some \<lparr>list_head = h, list_tail = t, list_length = int (length xs)\<rparr>"
    "dseg (nodes s) 0 h xs 0 t" "l \<noteq> 0" by (auto simp: is_list_def)
  have "scan (\<lambda>p n i. k = i) (nodes s) h 0 = Some (first_at (\<lambda>a e i. k = i) xs 0)"
    by (rule scan_first_at[OF h(2)]) simp
  then show ?thesis using h by (simp add: linked_list_get_at_def first_at_index)
qed

subsection \<open>Updates are right\<close>

lemma dseg_cong: "(\<And>a. a \<in> fst ` set xs \<Longrightarrow> m' a = m a) \<Longrightarrow> dseg m' pr p xs q tp = dseg m pr p xs q tp"
  by (induction m pr p xs q tp rule: dseg.induct) auto

lemma is_list_frame:
  assumes "is_list s l ys" "lsts s' l = lsts s l" "\<And>a. a \<in> fst ` set ys \<Longrightarrow> nodes s' a = nodes s a"
  shows "is_list s' l ys"
  using assms dseg_cong[of ys "nodes s'" "nodes s"] by (simp add: is_list_def)

context allocator
begin

definition wf_lmem :: "'h lmem \<Rightarrow> bool" where
  "wf_lmem s \<longleftrightarrow> ok (hp s) \<and> dom (nodes s) \<subseteq> live (hp s) \<and> dom (lsts s) \<subseteq> live (hp s) \<and>
     dom (nodes s) \<inter> dom (lsts s) = {} \<and> 0 \<notin> dom (nodes s)"

text \<open>What an insertion does: a fresh node, and nothing outside the list changes.\<close>

definition inserted :: "'h lmem \<Rightarrow> ptr \<Rightarrow> (ptr \<times> ptr) list \<Rightarrow> ptr \<Rightarrow> (ptr \<times> ptr) list \<Rightarrow> 'h lmem \<Rightarrow> bool" where
  "inserted s l xs n ys s' \<longleftrightarrow>
     n \<notin> dom (nodes s) \<and> is_list s' l ys \<and> wf_lmem s' \<and> live (hp s') = insert n (live (hp s)) \<and>
     (\<forall>k. k \<noteq> l \<longrightarrow> lsts s' k = lsts s k) \<and> (\<forall>a. a \<notin> insert n (fst ` set xs) \<longrightarrow> nodes s' a = nodes s a)"

lemma create_node_ok:
  assumes "wf_lmem s" "fits sizeof_node (hp s)" "l \<noteq> 0" "d \<noteq> 0"
  obtains n h where "create_node malloc l d s = Some (n, s\<lparr>hp := h, nodes := (nodes s)(n \<mapsto> \<lparr>previous = 0, nxt = 0, data = d\<rparr>)\<rparr>)"
    "n \<noteq> 0" "n \<notin> live (hp s)" "ok h" "live h = insert n (live (hp s))"
  using malloc_ok[of "hp s" sizeof_node] assms by (force simp: create_node_def wf_lmem_def)

text \<open>The stores after an append, as a function of the stores before it.\<close>

lemma append_run_empty:
  assumes "lsts s l = Some \<lparr>list_head = 0, list_tail = 0, list_length = 0\<rparr>" "l \<noteq> 0" "d \<noteq> 0"
    "create_node malloc l d s = Some (n, s\<lparr>hp := g, nodes := (nodes s)(n \<mapsto> \<lparr>previous = 0, nxt = 0, data = d\<rparr>)\<rparr>)"
  shows "linked_list_append malloc l d s = Some (n, s\<lparr>hp := g,
     lsts := (lsts s)(l \<mapsto> \<lparr>list_head = n, list_tail = n, list_length = 1\<rparr>),
     nodes := (nodes s)(n \<mapsto> \<lparr>previous = 0, nxt = 0, data = d\<rparr>)\<rparr>)"
  using assms by (simp add: linked_list_append_def upd_list_def upd_node_def bump_def)

lemma append_run_nonempty:
  assumes "lsts s l = Some \<lparr>list_head = h, list_tail = t, list_length = len\<rparr>" "l \<noteq> 0" "d \<noteq> 0" "0 < len"
    "create_node malloc l d s = Some (n, s\<lparr>hp := g, nodes := (nodes s)(n \<mapsto> \<lparr>previous = 0, nxt = 0, data = d\<rparr>)\<rparr>)"
    and k: "nodes s t = Some k" "t \<noteq> n"
  shows "linked_list_append malloc l d s = Some (n, s\<lparr>hp := g,
     lsts := (lsts s)(l \<mapsto> \<lparr>list_head = h, list_tail = n, list_length = len + 1\<rparr>),
     nodes := (nodes s)(t \<mapsto> k\<lparr>nxt := n\<rparr>, n \<mapsto> \<lparr>previous = t, nxt = 0, data = d\<rparr>)\<rparr>)"
proof -
  have m: "(nodes s)(n \<mapsto> \<lparr>previous = 0, nxt = 0, data = d\<rparr>, t \<mapsto> k\<lparr>nxt := n\<rparr>, n \<mapsto> \<lparr>previous = t, nxt = 0, data = d\<rparr>) =
        (nodes s)(t \<mapsto> k\<lparr>nxt := n\<rparr>, n \<mapsto> \<lparr>previous = t, nxt = 0, data = d\<rparr>)"
    using k(2) by auto
  show ?thesis using assms
    by (simp add: linked_list_append_def upd_list_def upd_node_def bump_def m)
qed

lemma insertedI:
  assumes "wf_lmem s" "lsts s l = Some L" "l \<noteq> 0" "n \<noteq> 0" "n \<notin> live (hp s)" "ok g" "live g = insert n (live (hp s))"
    "dseg m 0 h ys 0 t" "distinct (map fst ys)" "dom m = insert n (dom (nodes s))"
    "\<And>a. a \<notin> insert n (fst ` set xs) \<Longrightarrow> m a = nodes s a" "len = int (length ys)"
  shows "inserted s l xs n ys (s\<lparr>hp := g,
     lsts := (lsts s)(l \<mapsto> \<lparr>list_head = h, list_tail = t, list_length = len\<rparr>), nodes := m\<rparr>)"
proof -
  have "dom (nodes s) \<subseteq> live (hp s)" "dom (lsts s) \<subseteq> live (hp s)" "l \<in> dom (lsts s)"
    "dom (nodes s) \<inter> dom (lsts s) = {}" "0 \<notin> dom (nodes s)"
    using assms(1,2) by (auto simp: wf_lmem_def)
  with assms show ?thesis unfolding inserted_def is_list_def wf_lmem_def by auto
qed

lemma linked_list_append_correct:
  assumes wf: "wf_lmem s" and fit: "fits sizeof_node (hp s)" and l: "is_list s l xs" and d: "d \<noteq> 0"
  shows "\<exists>n s'. linked_list_append malloc l d s = Some (n, s') \<and> inserted s l xs n (xs @ [(n, d)]) s'"
proof -
  from l obtain h t where h: "lsts s l = Some \<lparr>list_head = h, list_tail = t, list_length = int (length xs)\<rparr>"
    "dseg (nodes s) 0 h xs 0 t" "l \<noteq> 0" "distinct (map fst xs)" by (auto simp: is_list_def)
  obtain n g where n: "create_node malloc l d s = Some (n, s\<lparr>hp := g, nodes := (nodes s)(n \<mapsto> \<lparr>previous = 0, nxt = 0, data = d\<rparr>)\<rparr>)"
    "n \<noteq> 0" "n \<notin> live (hp s)" "ok g" "live g = insert n (live (hp s))"
    by (rule create_node_ok[OF wf fit h(3) d])
  have nn: "n \<notin> dom (nodes s)" using n(3) wf by (auto simp: wf_lmem_def)
  have nx: "n \<notin> fst ` set xs" using dseg_dom[OF h(2)] nn by auto
  note ins = insertedI[OF wf h(1,3) n(2-5)]
  show ?thesis
  proof (cases "xs = []")
    case True
    then have z: "lsts s l = Some \<lparr>list_head = 0, list_tail = 0, list_length = 0\<rparr>" using h(1,2) by auto
    show ?thesis unfolding append_run_empty[OF z h(3) d n(1)]
      by (intro exI conjI, rule refl, rule ins) (use True n(2) in auto)
  next
    case False
    obtain k where k: "nodes s t = Some k" "dseg ((nodes s)(t \<mapsto> k\<lparr>nxt := n\<rparr>)) 0 h xs n t"
      using dseg_set_next[OF h(2) False h(4), of n] by auto
    have tn: "t \<noteq> n" using k(1) nn by auto
    have tx: "t \<in> fst ` set xs" using dseg_last[OF h(2) False] by auto
    let ?m = "(nodes s)(t \<mapsto> k\<lparr>nxt := n\<rparr>, n \<mapsto> \<lparr>previous = t, nxt = 0, data = d\<rparr>)"
    have "dseg ?m 0 h xs n t" "dseg ?m t n [(n, d)] 0 n" using k(2) nx n(2) by simp_all
    then have m: "dseg ?m 0 h (xs @ [(n, d)]) 0 n" unfolding dseg_append by blast
    have len: "0 < int (length xs)" using False by simp
    show ?thesis unfolding append_run_nonempty[OF h(1,3) d len n(1) k(1) tn]
      by (intro exI conjI, rule refl, rule ins, rule m) (use h(4) nx tx k(1) in auto)
  qed
qed

text \<open>What a removal does: the node is gone and freed, and nothing outside the list changes.\<close>

definition removed :: "'h lmem \<Rightarrow> ptr \<Rightarrow> (ptr \<times> ptr) list \<Rightarrow> ptr \<Rightarrow> (ptr \<times> ptr) list \<Rightarrow> 'h lmem \<Rightarrow> bool" where
  "removed s l xs n ys s' \<longleftrightarrow>
     is_list s' l ys \<and> wf_lmem s' \<and> nodes s' n = None \<and> live (hp s') = live (hp s) - {n} \<and>
     (\<forall>k. k \<noteq> l \<longrightarrow> lsts s' k = lsts s k) \<and> (\<forall>a. a \<notin> fst ` set xs \<longrightarrow> nodes s' a = nodes s a)"

lemma removedI:
  assumes "wf_lmem s" "lsts s l = Some L" "l \<noteq> 0" "n \<in> fst ` set xs" "ok g" "live g = live (hp s) - {n}"
    "dseg m 0 h ys 0 t" "distinct (map fst ys)" "dom m = dom (nodes s)" "n \<notin> fst ` set ys" "n \<in> dom (nodes s)"
    "\<And>a. a \<notin> fst ` set xs \<Longrightarrow> m a = nodes s a" "len = int (length ys)"
  shows "removed s l xs n ys (s\<lparr>hp := g,
     lsts := (lsts s)(l \<mapsto> \<lparr>list_head = h, list_tail = t, list_length = len\<rparr>), nodes := m(n := None)\<rparr>)"
proof -
  have "dom (nodes s) \<subseteq> live (hp s)" "dom (lsts s) \<subseteq> live (hp s)" "l \<in> dom (lsts s)"
    "dom (nodes s) \<inter> dom (lsts s) = {}" "0 \<notin> dom (nodes s)"
    using assms(1,2) by (auto simp: wf_lmem_def)
  with assms show ?thesis unfolding removed_def is_list_def wf_lmem_def by auto
qed

lemma first_at_node: "fst (first_at (\<lambda>a d i. a = n) xs i) = (if n \<in> fst ` set xs then n else 0)"
proof (induction xs arbitrary: i)
  case (Cons x xs)
  then show ?case by (cases x) auto
qed simp

lemma scan_node:
  assumes "dseg m 0 h xs 0 t" "n \<in> fst ` set xs"
  obtains i where "scan (\<lambda>p k i. p = n) m h 0 = Some (n, i)"
proof -
  have "scan (\<lambda>p k i. p = n) m h 0 = Some (first_at (\<lambda>a d i. a = n) xs 0)"
    by (rule scan_first_at[OF assms(1)]) simp
  moreover have "first_at (\<lambda>a d i. a = n) xs 0 = (n, snd (first_at (\<lambda>a d i. a = n) xs 0))"
    using first_at_node[of n xs 0] assms(2) by (simp add: prod_eq_iff)
  ultimately show ?thesis using that by metis
qed

text \<open>The unlinking step on the stores, case by case as in the code.\<close>

definition unlinked :: "lnk_lst \<Rightarrow> ptr \<Rightarrow> lnk_lst_node \<Rightarrow> (ptr \<rightharpoonup> lnk_lst_node) \<Rightarrow> (lnk_lst \<times> (ptr \<rightharpoonup> lnk_lst_node)) option" where
  "unlinked L n k m =
     (if n = list_head L
      then (if nxt k \<noteq> 0 then map_option (\<lambda>q. (L\<lparr>list_head := nxt k\<rparr>, m(nxt k \<mapsto> q\<lparr>previous := 0\<rparr>))) (m (nxt k))
            else Some (L\<lparr>list_head := 0, list_tail := 0\<rparr>, m))
      else if n = list_tail L
      then map_option (\<lambda>q. (L\<lparr>list_tail := previous k\<rparr>, m(previous k \<mapsto> q\<lparr>nxt := 0\<rparr>))) (m (previous k))
      else do {
        p \<leftarrow> m (previous k);
        let m = m(previous k \<mapsto> p\<lparr>nxt := nxt k\<rparr>);
        q \<leftarrow> m (nxt k);
        Some (L, m(nxt k \<mapsto> q\<lparr>previous := previous k\<rparr>))
      })"

lemma remove_run:
  assumes "lsts s l = Some L" "l \<noteq> 0" "n \<noteq> 0" "scan (\<lambda>p k i. p = n) (nodes s) (list_head L) 0 = Some (n, i)"
    "nodes s n = Some k" "unlinked L n k (nodes s) = Some (L', m)" "n \<in> dom m" "release n (hp s) = Some g"
  shows "linked_list_remove release l n s = Some (s\<lparr>hp := g,
     lsts := (lsts s)(l \<mapsto> L'\<lparr>list_length := list_length L' - 1\<rparr>), nodes := m(n := None)\<rparr>)"
  using assms
  by (auto simp: linked_list_remove_def unlinked_def upd_node_def upd_list_def free_node_def Let_def
      split: if_splits Option.bind_splits)

lemma unlinked_correct:
  assumes seg: "dseg m 0 h (as @ (n, e) # bs) 0 t" and dis: "distinct (map fst (as @ (n, e) # bs))"
  shows "\<exists>k m' h' t'. m n = Some k \<and>
     unlinked \<lparr>list_head = h, list_tail = t, list_length = len\<rparr> n k m =
       Some (\<lparr>list_head = h', list_tail = t', list_length = len\<rparr>, m') \<and>
     dseg m' 0 h' (as @ bs) 0 t' \<and> dom m' = dom m \<and> (\<forall>a. a \<notin> fst ` set (as @ bs) \<longrightarrow> m' a = m a)"
proof -
  obtain p q where sa: "dseg m 0 h as n p" and sn: "n \<noteq> 0" "m n = Some \<lparr>previous = p, nxt = q, data = e\<rparr>"
    and sb: "dseg m n q bs 0 t" using seg by (auto simp: dseg_append)
  have da: "distinct (map fst as)" "distinct (map fst bs)" "fst ` set as \<inter> fst ` set bs = {}"
    "n \<notin> fst ` set as" "n \<notin> fst ` set bs" using dis by auto
  have hn: "n = h \<longleftrightarrow> as = []" using sa da(4) by (cases as) auto
  have tn: "n = t \<longleftrightarrow> bs = []" using sb da(5) dseg_last[OF sb] by (cases "bs = []") auto
  have q0: "q = 0 \<longleftrightarrow> bs = []" using sb by (cases bs) auto
  have pa: "as \<noteq> [] \<Longrightarrow> p \<in> fst ` set as" using dseg_last[OF sa] by auto
  have qb: "bs \<noteq> [] \<Longrightarrow> q \<in> fst ` set bs" using dseg_first[OF sb] by auto
  note sel = sn hn tn q0
  show ?thesis
  proof (cases "as = []"; cases "bs = []")
    assume c: "as = []" "bs = []"
    then show ?thesis using sel by (auto simp: unlinked_def)
  next
    assume c: "as = []" "bs \<noteq> []"
    obtain k where "m q = Some k" "dseg (m(q \<mapsto> k\<lparr>previous := 0\<rparr>)) 0 q bs 0 t"
      using dseg_set_prev[OF sb c(2) da(2)] by blast
    with c sel qb show ?thesis by (auto simp: unlinked_def)
  next
    assume c: "as \<noteq> []" "bs = []"
    obtain k where "m p = Some k" "dseg (m(p \<mapsto> k\<lparr>nxt := 0\<rparr>)) 0 h as 0 p"
      using dseg_set_next[OF sa c(1) da(1)] by blast
    with c sel pa show ?thesis by (auto simp: unlinked_def)
  next
    assume c: "as \<noteq> []" "bs \<noteq> []"
    obtain k where k: "m p = Some k" "dseg (m(p \<mapsto> k\<lparr>nxt := q\<rparr>)) 0 h as q p"
      using dseg_set_next[OF sa c(1) da(1)] by blast
    let ?m1 = "m(p \<mapsto> k\<lparr>nxt := q\<rparr>)"
    have pq: "p \<notin> fst ` set bs" "q \<notin> fst ` set as" using pa qb c da(3) by auto
    then have "dseg ?m1 n q bs 0 t" using sb by simp
    from dseg_set_prev[OF this c(2) da(2)] obtain j where
      j: "?m1 q = Some j" "dseg (?m1(q \<mapsto> j\<lparr>previous := p\<rparr>)) p q bs 0 t" by blast
    have "dseg (?m1(q \<mapsto> j\<lparr>previous := p\<rparr>)) 0 h as q p" using k(2) pq(2) by simp
    with j(2) have "dseg (?m1(q \<mapsto> j\<lparr>previous := p\<rparr>)) 0 h (as @ bs) 0 t" unfolding dseg_append by blast
    moreover have "dom (?m1(q \<mapsto> j\<lparr>previous := p\<rparr>)) = dom m" using k(1) j(1) by (auto split: if_splits)
    moreover have "unlinked \<lparr>list_head = h, list_tail = t, list_length = len\<rparr> n \<lparr>previous = p, nxt = q, data = e\<rparr> m =
        Some (\<lparr>list_head = h, list_tail = t, list_length = len\<rparr>, ?m1(q \<mapsto> j\<lparr>previous := p\<rparr>))"
      using c sel k(1) j(1) by (simp add: unlinked_def Let_def)
    moreover have "\<forall>a. a \<notin> fst ` set (as @ bs) \<longrightarrow> (?m1(q \<mapsto> j\<lparr>previous := p\<rparr>)) a = m a"
      using pa qb c by auto
    ultimately show ?thesis using sn(2) by blast
  qed
qed

lemma linked_list_remove_correct:
  assumes wf: "wf_lmem s" and l: "is_list s l (as @ (n, e) # bs)"
  shows "\<exists>s'. linked_list_remove release l n s = Some s' \<and> removed s l (as @ (n, e) # bs) n (as @ bs) s'"
proof -
  let ?xs = "as @ (n, e) # bs"
  from l obtain h t where h: "lsts s l = Some \<lparr>list_head = h, list_tail = t, list_length = int (length ?xs)\<rparr>"
    "dseg (nodes s) 0 h ?xs 0 t" "l \<noteq> 0" "distinct (map fst ?xs)" by (auto simp: is_list_def)
  obtain i where sc: "scan (\<lambda>p k i. p = n) (nodes s) h 0 = Some (n, i)" by (rule scan_node[OF h(2)]) auto
  obtain k m' h' t' where u: "nodes s n = Some k"
    "unlinked \<lparr>list_head = h, list_tail = t, list_length = int (length ?xs)\<rparr> n k (nodes s) =
       Some (\<lparr>list_head = h', list_tail = t', list_length = int (length ?xs)\<rparr>, m')"
    "dseg m' 0 h' (as @ bs) 0 t'" "dom m' = dom (nodes s)" "\<forall>a. a \<notin> fst ` set (as @ bs) \<longrightarrow> m' a = nodes s a"
    using unlinked_correct[OF h(2,4)] by blast
  have n: "n \<noteq> 0" "n \<in> dom (nodes s)" "n \<in> live (hp s)" using wf u(1) by (auto simp: wf_lmem_def)
  obtain g where g: "release n (hp s) = Some g" "ok g" "live g = live (hp s) - {n}"
    using release_ok[OF _ n(3)] wf by (auto simp: wf_lmem_def)
  have nm: "n \<in> dom m'" using n u(4) by simp
  from remove_run[OF h(1,3) n(1) _ u(1,2) nm g(1)] sc
  have run: "linked_list_remove release l n s = Some (s\<lparr>hp := g,
     lsts := (lsts s)(l \<mapsto> \<lparr>list_head = h', list_tail = t', list_length = int (length ?xs) - 1\<rparr>), nodes := m'(n := None)\<rparr>)"
    by simp
  have "removed s l ?xs n (as @ bs) (s\<lparr>hp := g,
     lsts := (lsts s)(l \<mapsto> \<lparr>list_head = h', list_tail = t', list_length = int (length ?xs) - 1\<rparr>), nodes := m'(n := None)\<rparr>)"
    by (rule removedI[OF wf h(1,3) _ g(2,3) u(3)]) (use h(4) u(4,5) n in auto)
  with run show ?thesis by blast
qed

lemma linked_list_create_correct:
  assumes wf: "wf_lmem s" and fit: "fits sizeof_list (hp s)"
  shows "\<exists>l s'. linked_list_create malloc s = Some (l, s') \<and> is_list s' l [] \<and> wf_lmem s' \<and>
           l \<notin> dom (lsts s) \<and> nodes s' = nodes s \<and> (\<forall>k. k \<noteq> l \<longrightarrow> lsts s' k = lsts s k)"
proof -
  have dom: "dom (nodes s) \<subseteq> live (hp s)" "dom (lsts s) \<subseteq> live (hp s)" "ok (hp s)"
    "dom (nodes s) \<inter> dom (lsts s) = {}" "0 \<notin> dom (nodes s)"
    using wf by (auto simp: wf_lmem_def)
  obtain p g where p: "malloc sizeof_list (hp s) = Some (p, g)" "ok g" "p \<noteq> 0" "p \<notin> live (hp s)"
    "live g = insert p (live (hp s))" using malloc_ok[OF dom(3) fit] by blast
  let ?s' = "s\<lparr>hp := g, lsts := (lsts s)(p \<mapsto> \<lparr>list_head = 0, list_tail = 0, list_length = 0\<rparr>)\<rparr>"
  have "linked_list_create malloc s = Some (p, ?s')" using p by (simp add: linked_list_create_def)
  moreover have "is_list ?s' p []" using p by (simp add: is_list_def)
  moreover have "wf_lmem ?s'" "p \<notin> dom (lsts s)" using p dom by (auto simp: wf_lmem_def)
  ultimately show ?thesis by auto
qed

lemma free_node_ok:
  assumes wf: "wf_lmem s" and n: "nodes s n = Some k"
  obtains g where "free_node release n s = Some (s\<lparr>hp := g, nodes := (nodes s)(n := None)\<rparr>)"
    "live g = live (hp s) - {n}" "wf_lmem (s\<lparr>hp := g, nodes := (nodes s)(n := None)\<rparr>)"
proof -
  have dom: "dom (nodes s) \<subseteq> live (hp s)" "dom (lsts s) \<subseteq> live (hp s)" "ok (hp s)"
    "dom (nodes s) \<inter> dom (lsts s) = {}" "0 \<notin> dom (nodes s)"
    using wf by (auto simp: wf_lmem_def)
  have "n \<in> live (hp s)" "n \<notin> dom (lsts s)" using dom n by auto
  from release_ok[OF dom(3) this(1)] obtain g where g: "release n (hp s) = Some g" "ok g" "live g = live (hp s) - {n}" by blast
  have "wf_lmem (s\<lparr>hp := g, nodes := (nodes s)(n := None)\<rparr>)"
    using dom g(2,3) \<open>n \<notin> dom (lsts s)\<close> by (auto simp: wf_lmem_def)
  with g that show ?thesis by (simp add: free_node_def)
qed

lemma destroy_nodes_correct:
  assumes "wf_lmem s" "dseg (nodes s) pr p xs 0 t" "distinct (map fst xs)"
  shows "\<exists>s'. destroy_nodes release p s = Some s' \<and> wf_lmem s' \<and> lsts s' = lsts s \<and>
     nodes s' = (nodes s) |` (- (fst ` set xs)) \<and> live (hp s') = live (hp s) - fst ` set xs"
  using assms
proof (induction xs arbitrary: s pr p)
  case Nil
  then show ?case by (subst destroy_nodes.simps) (simp add: restrict_map_def)
next
  case (Cons x xs)
  obtain a d where x: "x = (a, d)" by (cases x)
  from Cons.prems x obtain n where n: "p = a" "a \<noteq> 0" "nodes s a = Some \<lparr>previous = pr, nxt = n, data = d\<rparr>"
    "dseg (nodes s) a n xs 0 t" and ax: "a \<notin> fst ` set xs" by auto
  obtain g where g: "free_node release a s = Some (s\<lparr>hp := g, nodes := (nodes s)(a := None)\<rparr>)"
    "live g = live (hp s) - {a}" "wf_lmem (s\<lparr>hp := g, nodes := (nodes s)(a := None)\<rparr>)"
    by (rule free_node_ok[OF Cons.prems(1) n(3)])
  let ?s1 = "s\<lparr>hp := g, nodes := (nodes s)(a := None)\<rparr>"
  have "dseg (nodes ?s1) a n xs 0 t" "distinct (map fst xs)" using n(4) ax Cons.prems(3) by simp_all
  from Cons.IH[OF g(3) this] obtain s' where s1: "destroy_nodes release n ?s1 = Some s'" "wf_lmem s'" "lsts s' = lsts ?s1"
    "nodes s' = (nodes ?s1) |` (- (fst ` set xs))" "live (hp s') = live (hp ?s1) - fst ` set xs" by blast
  note s' = s1[simplified]
  have "destroy_nodes release p s = Some s'" using n g(1) s'(1) by (subst destroy_nodes.simps) simp
  moreover have "nodes s' = (nodes s) |` (- (fst ` set (x # xs)))"
    using s1(4) x by (auto simp: restrict_map_def fun_eq_iff)
  moreover have "live (hp s') = live (hp s) - fst ` set (x # xs)" using s'(5) g(2) x by auto
  ultimately show ?case using s' by blast
qed

lemma linked_list_destroy_correct:
  assumes wf: "wf_lmem s" and l: "is_list s l xs"
  shows "\<exists>s'. linked_list_destroy release l s = Some s' \<and> wf_lmem s' \<and> lsts s' = (lsts s)(l := None) \<and>
     nodes s' = (nodes s) |` (- (fst ` set xs)) \<and> live (hp s') = live (hp s) - insert l (fst ` set xs)"
proof -
  from l obtain h t where h: "lsts s l = Some \<lparr>list_head = h, list_tail = t, list_length = int (length xs)\<rparr>"
    "dseg (nodes s) 0 h xs 0 t" "l \<noteq> 0" "distinct (map fst xs)" by (auto simp: is_list_def)
  from destroy_nodes_correct[OF wf h(2,4)] obtain s1 where s1: "destroy_nodes release h s = Some s1" "wf_lmem s1"
    "lsts s1 = lsts s" "nodes s1 = (nodes s) |` (- (fst ` set xs))" "live (hp s1) = live (hp s) - fst ` set xs" by blast
  have dom: "dom (nodes s1) \<subseteq> live (hp s1)" "dom (lsts s1) \<subseteq> live (hp s1)" "ok (hp s1)"
    "dom (nodes s1) \<inter> dom (lsts s1) = {}" "0 \<notin> dom (nodes s1)"
    using s1(2) by (auto simp: wf_lmem_def)
  have "l \<in> live (hp s1)" "l \<notin> dom (nodes s1)" using dom h(1) s1(3) by auto
  from release_ok[OF dom(3) this(1)] obtain g where g: "release l (hp s1) = Some g" "ok g" "live g = live (hp s1) - {l}" by blast
  let ?s' = "s1\<lparr>hp := g, lsts := (lsts s)(l := None)\<rparr>"
  have "linked_list_destroy release l s = Some ?s'" using h(1,3) s1(1,3) g(1) by (simp add: linked_list_destroy_def)
  moreover have "wf_lmem ?s'" using dom g(2,3) s1(3) \<open>l \<notin> dom (nodes s1)\<close> by (auto simp: wf_lmem_def)
  moreover have "live (hp ?s') = live (hp s) - insert l (fst ` set xs)" using g(3) s1(5) by auto
  ultimately show ?thesis using s1(4) by auto
qed

end

text \<open>On an empty list an insertion at a positive index dereferences the null tail.\<close>

lemma insert_at_empty_faults:
  assumes "lsts s l = Some \<lparr>list_head = 0, list_tail = 0, list_length = 0\<rparr>" "l \<noteq> 0" "0 < index" "d \<noteq> 0"
    "nodes s 0 = None"
  shows "linked_list_insert_at_index malloc l d index s = None"
proof -
  have "create_node malloc l d s = None \<or> (\<exists>n h. n \<noteq> 0 \<and>
      create_node malloc l d s = Some (n, s\<lparr>hp := h, nodes := (nodes s)(n \<mapsto> \<lparr>previous = 0, nxt = 0, data = d\<rparr>)\<rparr>))"
    using assms(2,4) by (auto simp: create_node_def split: Option.bind_split)
  then show ?thesis using assms by (auto simp: linked_list_insert_at_index_def upd_node_def)
qed

end
