(* ===== verification/Queue.thy ===== *)
theory Queue
  imports Linked_List
begin

text \<open>
  Bounded queues at the level of pointers, \<^verbatim>\<open>kernel/util/queue.c\<close>. A \<open>queue_node_t\<close> has the layout of a list
  node (\<open>p\<close>, \<open>n\<close>, \<open>data\<close>), so the node store and the segment predicate of \<open>Linked_List\<close> are reused.
  \<open>bounded_queue\<close> is the contract that the scheduler relies on; the value-level queue of the scheduler
  and this code are both shown to follow it.
\<close>

subsection \<open>The code\<close>

record queue_t =
  q_head :: ptr
  q_tail :: ptr
  q_length :: int
  q_limit :: int

record 'h qmem =
  qhp :: 'h
  queues :: "ptr \<rightharpoonup> queue_t"
  qnodes :: "ptr \<rightharpoonup> lnk_lst_node"

definition sizeof_queue :: u32 where "sizeof_queue = 16"
definition sizeof_queue_node :: u32 where "sizeof_queue_node = 12"

definition create_queue :: "(u32 \<Rightarrow> 'h \<Rightarrow> (ptr \<times> 'h) option) \<Rightarrow> int \<Rightarrow> 'h qmem \<Rightarrow> (ptr \<times> 'h qmem) option" where
  "create_queue malloc limit s = do {
     (queue, h) \<leftarrow> malloc sizeof_queue (qhp s);
     if queue = 0 then Some (0, s\<lparr>qhp := h\<rparr>)
     else Some (queue, s\<lparr>qhp := h,
            queues := (queues s)(queue \<mapsto> \<lparr>q_head = 0, q_tail = 0, q_length = 0, q_limit = limit\<rparr>)\<rparr>)
   }"

definition upd_qnode :: "ptr \<Rightarrow> (lnk_lst_node \<Rightarrow> lnk_lst_node) \<Rightarrow> 'h qmem \<Rightarrow> 'h qmem option" where
  "upd_qnode p f s = do { n \<leftarrow> qnodes s p; Some (s\<lparr>qnodes := (qnodes s)(p \<mapsto> f n)\<rparr>) }"

definition upd_queue :: "ptr \<Rightarrow> (queue_t \<Rightarrow> queue_t) \<Rightarrow> 'h qmem \<Rightarrow> 'h qmem option" where
  "upd_queue q f s = do { h \<leftarrow> queues s q; Some (s\<lparr>queues := (queues s)(q \<mapsto> f h)\<rparr>) }"

definition free_qnode :: "(ptr \<Rightarrow> 'h \<Rightarrow> 'h option) \<Rightarrow> ptr \<Rightarrow> 'h qmem \<Rightarrow> 'h qmem option" where
  "free_qnode release p s = do { h \<leftarrow> release p (qhp s); Some (s\<lparr>qhp := h, qnodes := (qnodes s)(p := None)\<rparr>) }"

text \<open>The removal of the node \<open>tmp_head\<close>, with the queue header re-read at every step.\<close>

definition force_unlink :: "ptr \<Rightarrow> ptr \<Rightarrow> 'h qmem \<Rightarrow> 'h qmem option" where
  "force_unlink queue tmp_head s = do {
     q \<leftarrow> queues s queue;
     n \<leftarrow> qnodes s tmp_head;
     if q_length q = 1 then upd_queue queue (\<lambda>q. q\<lparr>q_head := 0, q_tail := 0\<rparr>) s
     else if tmp_head = q_head q
     then do {
       s \<leftarrow> upd_queue queue (\<lambda>q. q\<lparr>q_head := nxt n\<rparr>) s;
       upd_qnode (nxt n) (\<lambda>m. m\<lparr>previous := 0\<rparr>) s
     }
     else if tmp_head = q_tail q
     then do {
       s \<leftarrow> upd_queue queue (\<lambda>q. q\<lparr>q_tail := previous n\<rparr>) s;
       upd_qnode (previous n) (\<lambda>m. m\<lparr>nxt := 0\<rparr>) s
     }
     else do {
       s \<leftarrow> upd_qnode (previous n) (\<lambda>m. m\<lparr>nxt := nxt n\<rparr>) s;
       upd_qnode (nxt n) (\<lambda>m. m\<lparr>previous := previous n\<rparr>) s
     }
   }"

partial_function (option) force_remove_from ::
  "(ptr \<Rightarrow> 'h \<Rightarrow> 'h option) \<Rightarrow> ptr \<Rightarrow> ptr \<Rightarrow> ptr \<Rightarrow> 'h qmem \<Rightarrow> 'h qmem option"
where
  "force_remove_from release queue d tmp_head s =
     (if tmp_head \<noteq> 0
      then do {
        n \<leftarrow> qnodes s tmp_head;
        s \<leftarrow> (if data n = d
              then do {
                s \<leftarrow> force_unlink queue tmp_head s;
                s \<leftarrow> upd_queue queue (\<lambda>q. q\<lparr>q_length := q_length q - 1\<rparr>) s;
                free_qnode release tmp_head s
              }
              else Some s);
        force_remove_from release queue d (nxt n) s
      }
      else Some s)"

definition queue_force_remove :: "(ptr \<Rightarrow> 'h \<Rightarrow> 'h option) \<Rightarrow> ptr \<Rightarrow> ptr \<Rightarrow> 'h qmem \<Rightarrow> 'h qmem option" where
  "queue_force_remove release queue d s =
     (if queue = 0 \<or> d = 0 then Some s
      else do {
        q \<leftarrow> queues s queue;
        if q_length q = 0 then Some s else force_remove_from release queue d (q_head q) s
      })"

definition queue_enqueue ::
  "(u32 \<Rightarrow> 'h \<Rightarrow> (ptr \<times> 'h) option) \<Rightarrow> (ptr \<Rightarrow> 'h \<Rightarrow> 'h option) \<Rightarrow> ptr \<Rightarrow> ptr \<Rightarrow> 'h qmem \<Rightarrow> (ptr \<times> 'h qmem) option"
where
  "queue_enqueue malloc release queue d s =
     (if queue = 0 \<or> d = 0 then Some (0, s)
      else do {
        (node, h) \<leftarrow> malloc sizeof_queue_node (qhp s);
        if node = 0 then Some (0, s\<lparr>qhp := h\<rparr>)
        else do {
          let s = s\<lparr>qhp := h, qnodes := (qnodes s)(node \<mapsto> \<lparr>previous = 0, nxt = 0, data = 0\<rparr>)\<rparr>;
          q \<leftarrow> queues s queue;
          if q_length q < q_limit q \<or> q_limit q = -1
          then do {
            s \<leftarrow> (if q_head q = 0 \<and> q_tail q = 0
                  then do {
                    s \<leftarrow> upd_queue queue (\<lambda>q. q\<lparr>q_head := node, q_tail := node\<rparr>) s;
                    upd_qnode node (\<lambda>n. n\<lparr>previous := 0, nxt := 0\<rparr>) s
                  }
                  else do {
                    s \<leftarrow> upd_qnode (q_tail q) (\<lambda>n. n\<lparr>nxt := node\<rparr>) s;
                    s \<leftarrow> upd_qnode node (\<lambda>n. n\<lparr>previous := q_tail q\<rparr>) s;
                    s \<leftarrow> upd_queue queue (\<lambda>q. q\<lparr>q_tail := node\<rparr>) s;
                    upd_qnode node (\<lambda>n. n\<lparr>nxt := 0\<rparr>) s
                  });
            s \<leftarrow> upd_qnode node (\<lambda>n. n\<lparr>data := d\<rparr>) s;
            s \<leftarrow> upd_queue queue (\<lambda>q. q\<lparr>q_length := q_length q + 1\<rparr>) s;
            Some (node, s)
          }
          else do { s \<leftarrow> free_qnode release node s; Some (0, s) }
        }
      })"

definition queue_dequeue :: "(ptr \<Rightarrow> 'h \<Rightarrow> 'h option) \<Rightarrow> ptr \<Rightarrow> 'h qmem \<Rightarrow> (ptr \<times> 'h qmem) option" where
  "queue_dequeue release queue s =
     (if queue = 0 then Some (0, s)
      else do {
        q \<leftarrow> queues s queue;
        if q_head q = 0 then Some (0, s)
        else do {
          n \<leftarrow> qnodes s (q_head q);
          s \<leftarrow> (if q_head q = q_tail q \<and> q_length q = 1
                then upd_queue queue (\<lambda>q. q\<lparr>q_head := 0, q_tail := 0\<rparr>) s
                else do {
                  s \<leftarrow> upd_queue queue (\<lambda>q. q\<lparr>q_head := nxt n\<rparr>) s;
                  upd_qnode (nxt n) (\<lambda>m. m\<lparr>previous := 0\<rparr>) s
                });
          s \<leftarrow> upd_queue queue (\<lambda>q. q\<lparr>q_length := q_length q - 1\<rparr>) s;
          s \<leftarrow> free_qnode release (q_head q) s;
          Some (data n, s)
        }
      })"

definition queue_is_empty :: "ptr \<Rightarrow> 'h qmem \<Rightarrow> int option" where
  "queue_is_empty queue s =
     (if queue \<noteq> 0 then do { q \<leftarrow> queues s queue; Some (if 0 < q_length q then 0 else 1) } else Some (-1))"

subsection \<open>The contract of a bounded queue\<close>

text \<open>
  \<open>contents s\<close> is the sequence of the items in state \<open>s\<close>, \<open>limit s\<close> the bound (-1: none). An item is
  a non-null pointer; \<open>enq\<close> drops the item when the queue is full, \<open>deq\<close> gives 0 when it is empty.
\<close>

locale bounded_queue =
  fixes inv :: "'s \<Rightarrow> bool"
    and contents :: "'s \<Rightarrow> ptr list"
    and limit :: "'s \<Rightarrow> int"
    and enq :: "ptr \<Rightarrow> 's \<Rightarrow> 's option"
    and deq :: "'s \<Rightarrow> (ptr \<times> 's) option"
    and purge :: "ptr \<Rightarrow> 's \<Rightarrow> 's option"
    and fits :: "'s \<Rightarrow> bool"
  assumes items: "inv s \<Longrightarrow> 0 \<notin> set (contents s)"
    and enq_ok: "inv s \<Longrightarrow> fits s \<Longrightarrow> d \<noteq> 0 \<Longrightarrow> \<exists>s'. enq d s = Some s' \<and> inv s' \<and> limit s' = limit s \<and>
          contents s' = (if int (length (contents s)) < limit s \<or> limit s = -1 then contents s @ [d] else contents s)"
    and deq_ok: "inv s \<Longrightarrow> \<exists>x s'. deq s = Some (x, s') \<and> inv s' \<and> limit s' = limit s \<and>
          x = (if contents s = [] then 0 else hd (contents s)) \<and> contents s' = tl (contents s)"
    and purge_ok: "inv s \<Longrightarrow> d \<noteq> 0 \<Longrightarrow> \<exists>s'. purge d s = Some s' \<and> inv s' \<and> limit s' = limit s \<and>
          contents s' = filter (\<lambda>x. x \<noteq> d) (contents s)"
begin

lemma enq_bounded:
  assumes "inv s" "fits s" "d \<noteq> 0" "0 \<le> limit s" "int (length (contents s)) \<le> limit s" "enq d s = Some s'"
  shows "int (length (contents s')) \<le> limit s'"
  using enq_ok[OF assms(1-3)] assms(4-6) by (auto split: if_splits)

lemma deq_zero_iff: "inv s \<Longrightarrow> deq s = Some (x, s') \<Longrightarrow> x = 0 \<longleftrightarrow> contents s = []"
  using deq_ok[of s] items[of s] by (cases "contents s") auto

lemma fifo:
  assumes "inv s" "fits s" "d \<noteq> 0" "contents s = []" "0 < limit s" "enq d s = Some s'"
  shows "\<exists>s''. deq s' = Some (d, s'') \<and> contents s'' = []"
  using enq_ok[OF assms(1-3)] assms(4-6) deq_ok[of s'] by auto

lemma purge_gone:
  assumes "inv s" "d \<noteq> 0" "purge d s = Some s'"
  shows "d \<notin> set (contents s')" "x \<noteq> d \<Longrightarrow> count_list (contents s') x = count_list (contents s) x"
proof -
  have c: "contents s' = filter (\<lambda>x. x \<noteq> d) (contents s)" using purge_ok[OF assms(1,2)] assms(3) by auto
  then show "d \<notin> set (contents s')" by simp
  have "x \<noteq> d \<Longrightarrow> count_list (filter (\<lambda>x. x \<noteq> d) ys) x = count_list ys x" for ys by (induction ys) auto
  then show "x \<noteq> d \<Longrightarrow> count_list (contents s') x = count_list (contents s) x" by (simp add: c)
qed

end

subsection \<open>The code keeps a sequence\<close>

definition is_queue :: "'h qmem \<Rightarrow> ptr \<Rightarrow> (ptr \<times> ptr) list \<Rightarrow> int \<Rightarrow> bool" where
  "is_queue s q xs lim \<longleftrightarrow> q \<noteq> 0 \<and> distinct (map fst xs) \<and> 0 \<notin> snd ` set xs \<and>
     (\<exists>h t. queues s q = Some \<lparr>q_head = h, q_tail = t, q_length = int (length xs), q_limit = lim\<rparr> \<and>
            dseg (qnodes s) 0 h xs 0 t)"

text \<open>Reading the items off the store.\<close>

partial_function (option) queue_items :: "(ptr \<rightharpoonup> lnk_lst_node) \<Rightarrow> ptr \<Rightarrow> ptr list option" where
  "queue_items m p = (if p = 0 then Some [] else do { n \<leftarrow> m p; xs \<leftarrow> queue_items m (nxt n); Some (data n # xs) })"

lemma queue_items_dseg: "dseg m pr p xs 0 t \<Longrightarrow> queue_items m p = Some (map snd xs)"
proof (induction xs arbitrary: pr p)
  case Nil
  then show ?case by (subst queue_items.simps) simp
next
  case (Cons x xs)
  then show ?case by (cases x) (subst queue_items.simps, auto)
qed

definition qcontents :: "ptr \<Rightarrow> 'h qmem \<Rightarrow> ptr list" where
  "qcontents q s = (case queues s q of None \<Rightarrow> [] | Some r \<Rightarrow> the (queue_items (qnodes s) (q_head r)))"

definition qlimit :: "ptr \<Rightarrow> 'h qmem \<Rightarrow> int" where
  "qlimit q s = (case queues s q of None \<Rightarrow> 0 | Some r \<Rightarrow> q_limit r)"

lemma is_queue_contents: "is_queue s q xs lim \<Longrightarrow> qcontents q s = map snd xs \<and> qlimit q s = lim"
  by (auto simp: is_queue_def qcontents_def qlimit_def dest!: queue_items_dseg)

context allocator
begin

definition wf_qmem :: "'h qmem \<Rightarrow> bool" where
  "wf_qmem s \<longleftrightarrow> ok (qhp s) \<and> dom (qnodes s) \<subseteq> live (qhp s) \<and> 0 \<notin> dom (qnodes s)"

text \<open>The stores after an accepted item.\<close>

lemma enqueue_room:
  assumes h: "queues s q = Some \<lparr>q_head = h, q_tail = t, q_length = int (length xs), q_limit = lim\<rparr>"
    "dseg (qnodes s) 0 h xs 0 t" "q \<noteq> 0" "distinct (map fst xs)"
    and n: "malloc sizeof_queue_node (qhp s) = Some (n, g)" "n \<noteq> 0" "n \<notin> dom (qnodes s)"
    and d: "d \<noteq> 0" and room: "int (length xs) < lim \<or> lim = -1" and z: "0 \<notin> dom (qnodes s)"
  shows "\<exists>m h'. queue_enqueue malloc release q d s = Some (n, s\<lparr>qhp := g, queues := (queues s)(q \<mapsto>
            \<lparr>q_head = h', q_tail = n, q_length = int (length xs) + 1, q_limit = lim\<rparr>), qnodes := m\<rparr>) \<and>
        dseg m 0 h' (xs @ [(n, d)]) 0 n \<and> dom m = insert n (dom (qnodes s))"
proof (cases "xs = []")
  case True
  then have z: "h = 0" "t = 0" using h(2) by auto
  let ?m = "(qnodes s)(n \<mapsto> \<lparr>previous = 0, nxt = 0, data = d\<rparr>)"
  have "queue_enqueue malloc release q d s = Some (n, s\<lparr>qhp := g, queues := (queues s)(q \<mapsto>
      \<lparr>q_head = n, q_tail = n, q_length = int (length xs) + 1, q_limit = lim\<rparr>), qnodes := ?m\<rparr>)"
    using h(1,3) n(1,2) d room z by (simp add: queue_enqueue_def upd_queue_def upd_qnode_def Let_def True)
  moreover have "dseg ?m 0 n (xs @ [(n, d)]) 0 n" "dom ?m = insert n (dom (qnodes s))" using True n(2) by auto
  ultimately show ?thesis by blast
next
  case False
  obtain k where k: "qnodes s t = Some k" "dseg ((qnodes s)(t \<mapsto> k\<lparr>nxt := n\<rparr>)) 0 h xs n t"
    using dseg_set_next[OF h(2) False h(4), of n] by auto
  have tn: "t \<noteq> n" "t \<noteq> 0" using k(1) n(3) z by auto
  have nx: "n \<notin> fst ` set xs" using dseg_dom[OF h(2)] n(3) by auto
  let ?m = "(qnodes s)(t \<mapsto> k\<lparr>nxt := n\<rparr>, n \<mapsto> \<lparr>previous = t, nxt = 0, data = d\<rparr>)"
  have "(qnodes s)(n \<mapsto> \<lparr>previous = 0, nxt = 0, data = 0\<rparr>, t \<mapsto> k\<lparr>nxt := n\<rparr>, n \<mapsto> \<lparr>previous = t, nxt = 0, data = d\<rparr>) = ?m"
    using tn by auto
  then have "queue_enqueue malloc release q d s = Some (n, s\<lparr>qhp := g, queues := (queues s)(q \<mapsto>
      \<lparr>q_head = h, q_tail = n, q_length = int (length xs) + 1, q_limit = lim\<rparr>), qnodes := ?m\<rparr>)"
    using h(1,3) n(1,2) d room tn k(1) by (simp add: queue_enqueue_def upd_queue_def upd_qnode_def Let_def)
  moreover have "dseg ?m 0 h xs n t" "dseg ?m t n [(n, d)] 0 n" using k(2) nx n(2) by simp_all
  then have "dseg ?m 0 h (xs @ [(n, d)]) 0 n" unfolding dseg_append by blast
  moreover have "dom ?m = insert n (dom (qnodes s))" using k(1) by auto
  ultimately show ?thesis by blast
qed

lemma queue_enqueue_correct:
  assumes wf: "wf_qmem s" and fit: "fits sizeof_queue_node (qhp s)" and q: "is_queue s q xs lim" and d: "d \<noteq> 0"
  shows "\<exists>n s'. queue_enqueue malloc release q d s = Some (n, s') \<and> wf_qmem s' \<and>
           is_queue s' q (if int (length xs) < lim \<or> lim = -1 then xs @ [(n, d)] else xs) lim"
proof -
  from q obtain h t where h: "queues s q = Some \<lparr>q_head = h, q_tail = t, q_length = int (length xs), q_limit = lim\<rparr>"
    "dseg (qnodes s) 0 h xs 0 t" "q \<noteq> 0" "distinct (map fst xs)" "0 \<notin> snd ` set xs" by (auto simp: is_queue_def)
  have dom: "ok (qhp s)" "dom (qnodes s) \<subseteq> live (qhp s)" "0 \<notin> dom (qnodes s)" using wf by (auto simp: wf_qmem_def)
  obtain n g where n: "malloc sizeof_queue_node (qhp s) = Some (n, g)" "ok g" "n \<noteq> 0" "n \<notin> live (qhp s)"
    "live g = insert n (live (qhp s))" using malloc_ok[OF dom(1) fit] by blast
  have nn: "n \<notin> dom (qnodes s)" using n(4) dom by auto
  have nx: "n \<notin> fst ` set xs" using dseg_dom[OF h(2)] nn by auto
  show ?thesis
  proof (cases "int (length xs) < lim \<or> lim = -1")
    case full: False
    obtain g' where g': "release n g = Some g'" "ok g'" "live g' = live (qhp s)"
      using release_ok[OF n(2), of n] n(4,5) by auto
    have "(qnodes s)(n := None) = qnodes s" using nn by auto
    then have "queue_enqueue malloc release q d s = Some (0, s\<lparr>qhp := g'\<rparr>)"
      using h(1,3) n(1,3) d full g'(1) by (simp add: queue_enqueue_def free_qnode_def Let_def)
    moreover have "wf_qmem (s\<lparr>qhp := g'\<rparr>)" "is_queue (s\<lparr>qhp := g'\<rparr>) q xs lim"
      using g' dom h by (auto simp: wf_qmem_def is_queue_def)
    ultimately show ?thesis using full by auto
  next
    case room: True
    obtain m h' where m: "queue_enqueue malloc release q d s = Some (n, s\<lparr>qhp := g, queues := (queues s)(q \<mapsto>
        \<lparr>q_head = h', q_tail = n, q_length = int (length xs) + 1, q_limit = lim\<rparr>), qnodes := m\<rparr>)" (is "_ = Some (n, ?s')")
      "dseg m 0 h' (xs @ [(n, d)]) 0 n" "dom m = insert n (dom (qnodes s))"
      using enqueue_room[OF h(1-4) n(1,3) nn d room dom(3)] by blast
    have "wf_qmem ?s'" using m(3) n(2,3,5) dom by (auto simp: wf_qmem_def)
    moreover have "is_queue ?s' q (xs @ [(n, d)]) lim" using m(2) h(3-5) nx d by (auto simp: is_queue_def)
    ultimately show ?thesis using m(1) room by auto
  qed
qed

lemma free_qnode_ok:
  assumes "wf_qmem s" "qnodes s n = Some k"
  obtains g where "release n (qhp s) = Some g"
    "\<And>m Q. dom m = dom (qnodes s) \<Longrightarrow> wf_qmem (s\<lparr>qhp := g, queues := Q, qnodes := m(n := None)\<rparr>)"
proof -
  have dom: "ok (qhp s)" "dom (qnodes s) \<subseteq> live (qhp s)" "0 \<notin> dom (qnodes s)" "n \<in> live (qhp s)"
    using assms by (auto simp: wf_qmem_def)
  from release_ok[OF dom(1,4)] obtain g where g: "release n (qhp s) = Some g" "ok g" "live g = live (qhp s) - {n}" by blast
  have "wf_qmem (s\<lparr>qhp := g, queues := Q, qnodes := m(n := None)\<rparr>)" if "dom m = dom (qnodes s)" for m Q
  proof -
    have "dom (m(n := None)) = dom (qnodes s) - {n}" using that by auto
    then show ?thesis using g dom unfolding wf_qmem_def by auto
  qed
  with g(1) that show ?thesis by blast
qed

lemma queue_dequeue_correct:
  assumes wf: "wf_qmem s" and q: "is_queue s q xs lim"
  shows "\<exists>s'. queue_dequeue release q s = Some (if xs = [] then 0 else snd (hd xs), s') \<and> wf_qmem s' \<and> is_queue s' q (tl xs) lim"
proof -
  from q obtain h t where h: "queues s q = Some \<lparr>q_head = h, q_tail = t, q_length = int (length xs), q_limit = lim\<rparr>"
    "dseg (qnodes s) 0 h xs 0 t" "q \<noteq> 0" "distinct (map fst xs)" "0 \<notin> snd ` set xs" by (auto simp: is_queue_def)
  show ?thesis
  proof (cases xs)
    case Nil
    then show ?thesis using h wf q by (simp add: queue_dequeue_def)
  next
    case (Cons x ys)
    obtain d where x: "x = (h, d)" using Cons h(2) by (cases x) auto
    then obtain n where n: "h \<noteq> 0" "qnodes s h = Some \<lparr>previous = 0, nxt = n, data = d\<rparr>" "dseg (qnodes s) h n ys 0 t"
      using Cons h(2) by auto
    have hy: "h \<notin> fst ` set ys" "distinct (map fst ys)" using Cons h(4) x by auto
    obtain g where g: "release h (qhp s) = Some g"
      "\<And>m Q. dom m = dom (qnodes s) \<Longrightarrow> wf_qmem (s\<lparr>qhp := g, queues := Q, qnodes := m(h := None)\<rparr>)"
      by (rule free_qnode_ok[OF wf n(2)]) blast
    show ?thesis
    proof (cases "ys = []")
      case True
      let ?s' = "s\<lparr>qhp := g, queues := (queues s)(q \<mapsto> \<lparr>q_head = 0, q_tail = 0, q_length = 0, q_limit = lim\<rparr>), qnodes := (qnodes s)(h := None)\<rparr>"
      have "queue_dequeue release q s = Some (d, ?s')"
        using True Cons x h(1,3) n g(1) by (simp add: queue_dequeue_def free_qnode_def upd_queue_def)
      moreover have "is_queue ?s' q [] lim" using h(3) by (simp add: is_queue_def)
      ultimately show ?thesis using True Cons x g(2)[of "qnodes s"] by auto
    next
      case False
      obtain k where k: "qnodes s n = Some k" "dseg ((qnodes s)(n \<mapsto> k\<lparr>previous := 0\<rparr>)) 0 n ys 0 t"
        using dseg_set_prev[OF n(3) False hy(2)] by blast
      have nh: "n \<noteq> h" using dseg_first[OF n(3) False] hy by auto
      let ?m = "(qnodes s)(n \<mapsto> k\<lparr>previous := 0\<rparr>)"
      let ?s' = "s\<lparr>qhp := g, queues := (queues s)(q \<mapsto> \<lparr>q_head = n, q_tail = t, q_length = int (length ys), q_limit = lim\<rparr>), qnodes := ?m(h := None)\<rparr>"
      have "queue_dequeue release q s = Some (d, ?s')"
        using False Cons x h(1,3) n k g(1) by (simp add: queue_dequeue_def free_qnode_def upd_queue_def upd_qnode_def)
      moreover have "is_queue ?s' q ys lim"
        using k(2) hy h(3,5) Cons by (auto simp: is_queue_def)
      moreover have "wf_qmem ?s'" by (rule g(2)) (use k(1) in auto)
      ultimately show ?thesis using Cons x by auto
    qed
  qed
qed

lemma force_unlink_run:
  assumes "queues s q = Some \<lparr>q_head = h, q_tail = t, q_length = len, q_limit = lim\<rparr>" "qnodes s n = Some k"
    "unlinked \<lparr>list_head = h, list_tail = t, list_length = len\<rparr> n k (qnodes s) =
       Some (\<lparr>list_head = h', list_tail = t', list_length = len\<rparr>, m)"
    "len = 1 \<longleftrightarrow> n = h \<and> nxt k = 0"
  shows "force_unlink q n s = Some (s\<lparr>queues := (queues s)(q \<mapsto>
           \<lparr>q_head = h', q_tail = t', q_length = len, q_limit = lim\<rparr>), qnodes := m\<rparr>)"
  using assms
  by (auto simp: force_unlink_def unlinked_def upd_queue_def upd_qnode_def Let_def fun_upd_idem split: if_splits Option.bind_splits)

lemma force_step:
  assumes wf: "wf_qmem s" and q: "is_queue s q (as @ (n, d) # bs) lim"
  shows "\<exists>s1 s2 s'. force_unlink q n s = Some s1 \<and> upd_queue q (\<lambda>q. q\<lparr>q_length := q_length q - 1\<rparr>) s1 = Some s2 \<and>
     free_qnode release n s2 = Some s' \<and> wf_qmem s' \<and> is_queue s' q (as @ bs) lim"
proof -
  let ?xs = "as @ (n, d) # bs"
  from q obtain h t where h: "queues s q = Some \<lparr>q_head = h, q_tail = t, q_length = int (length ?xs), q_limit = lim\<rparr>"
    "dseg (qnodes s) 0 h ?xs 0 t" "q \<noteq> 0" "distinct (map fst ?xs)" "0 \<notin> snd ` set ?xs" by (auto simp: is_queue_def)
  obtain k m h' t' where u: "qnodes s n = Some k"
    "unlinked \<lparr>list_head = h, list_tail = t, list_length = int (length ?xs)\<rparr> n k (qnodes s) =
       Some (\<lparr>list_head = h', list_tail = t', list_length = int (length ?xs)\<rparr>, m)"
    "dseg m 0 h' (as @ bs) 0 t'" "dom m = dom (qnodes s)"
    using unlinked_correct[OF h(2,4), of "int (length ?xs)"] by blast
  obtain p where p: "dseg (qnodes s) 0 h as n p" "dseg (qnodes s) n (nxt k) bs 0 t"
    using h(2) u(1) by (auto simp: dseg_append)
  have "as = [] \<longleftrightarrow> n = h" using p(1) h(4) by (cases as) auto
  moreover have "bs = [] \<longleftrightarrow> nxt k = 0" using p(2) by (cases bs) auto
  moreover have "int (length ?xs) = 1 \<longleftrightarrow> as = [] \<and> bs = []" by (cases as; cases bs) auto
  ultimately have one: "int (length ?xs) = 1 \<longleftrightarrow> n = h \<and> nxt k = 0" by auto
  obtain g where g: "release n (qhp s) = Some g"
    "\<And>m Q. dom m = dom (qnodes s) \<Longrightarrow> wf_qmem (s\<lparr>qhp := g, queues := Q, qnodes := m(n := None)\<rparr>)"
    by (rule free_qnode_ok[OF wf u(1)]) blast
  let ?Q = "(queues s)(q \<mapsto> \<lparr>q_head = h', q_tail = t', q_length = int (length ?xs) - 1, q_limit = lim\<rparr>)"
  let ?s' = "s\<lparr>qhp := g, queues := ?Q, qnodes := m(n := None)\<rparr>"
  have "n \<notin> fst ` set (as @ bs)" using h(4) by auto
  then have "is_queue ?s' q (as @ bs) lim" using u(3) h(3-5) by (auto simp: is_queue_def)
  moreover have "upd_queue q (\<lambda>q. q\<lparr>q_length := q_length q - 1\<rparr>) (s\<lparr>queues := (queues s)(q \<mapsto>
      \<lparr>q_head = h', q_tail = t', q_length = int (length ?xs), q_limit = lim\<rparr>), qnodes := m\<rparr>) = Some (s\<lparr>queues := ?Q, qnodes := m\<rparr>)"
    by (simp add: upd_queue_def)
  moreover have "free_qnode release n (s\<lparr>queues := ?Q, qnodes := m\<rparr>) = Some ?s'" using g(1) by (simp add: free_qnode_def)
  ultimately show ?thesis using force_unlink_run[OF h(1) u(1,2) one] g(2)[OF u(4)] by blast
qed

lemma force_remove_from_correct:
  assumes "wf_qmem s" "is_queue s q (as @ bs) lim" "dseg (qnodes s) pr p bs 0 t" "\<forall>x\<in>set as. snd x \<noteq> d"
  shows "\<exists>s'. force_remove_from release q d p s = Some s' \<and> wf_qmem s' \<and>
     is_queue s' q (as @ filter (\<lambda>x. snd x \<noteq> d) bs) lim"
  using assms
proof (induction bs arbitrary: s as pr p t)
  case Nil
  then show ?case by (subst force_remove_from.simps) simp
next
  case (Cons x bs)
  obtain a e where x: "x = (a, e)" by (cases x)
  from Cons.prems(3) x obtain n where n: "p = a" "a \<noteq> 0" "qnodes s a = Some \<lparr>previous = pr, nxt = n, data = e\<rparr>"
    "dseg (qnodes s) a n bs 0 t" by auto
  show ?case
  proof (cases "e = d")
    case False
    have "is_queue s q ((as @ [x]) @ bs) lim" "\<forall>x\<in>set (as @ [x]). snd x \<noteq> d" using Cons.prems(2,4) False x by auto
    from Cons.IH[OF Cons.prems(1) this(1) n(4) this(2)] False n x show ?thesis
      by (subst force_remove_from.simps) auto
  next
    case True
    obtain s1 s2 s' where s': "force_unlink q a s = Some s1" "upd_queue q (\<lambda>q. q\<lparr>q_length := q_length q - 1\<rparr>) s1 = Some s2"
      "free_qnode release a s2 = Some s'" "wf_qmem s'" "is_queue s' q (as @ bs) lim"
      using force_step[OF Cons.prems(1), of q as a e bs lim] Cons.prems(2) x by auto
    have run: "force_remove_from release q d p s = force_remove_from release q d n s'"
      using n True s' by (subst force_remove_from.simps) simp
    obtain pr' t' where "dseg (qnodes s') pr' n bs 0 t'"
    proof -
      obtain h r pr' t' where r: "dseg (qnodes s') 0 h as r pr'" "dseg (qnodes s') pr' r bs 0 t'"
        using s'(5) by (auto simp: is_queue_def dseg_append)
      have "r = n" using r(2) n(4) by (cases bs) auto
      with r(2) show ?thesis using that by blast
    qed
    from Cons.IH[OF s'(4,5) this Cons.prems(4)] show ?thesis using run x True by auto
  qed
qed

lemma queue_force_remove_correct:
  assumes wf: "wf_qmem s" and q: "is_queue s q xs lim" and d: "d \<noteq> 0"
  shows "\<exists>s'. queue_force_remove release q d s = Some s' \<and> wf_qmem s' \<and> is_queue s' q (filter (\<lambda>x. snd x \<noteq> d) xs) lim"
proof -
  from q obtain h t where h: "queues s q = Some \<lparr>q_head = h, q_tail = t, q_length = int (length xs), q_limit = lim\<rparr>"
    "dseg (qnodes s) 0 h xs 0 t" "q \<noteq> 0" by (auto simp: is_queue_def)
  show ?thesis
  proof (cases "xs = []")
    case True
    then show ?thesis using h d wf q by (auto simp: queue_force_remove_def)
  next
    case False
    then show ?thesis using force_remove_from_correct[of s q "[]" xs lim 0 h t d] wf q h d
      by (auto simp: queue_force_remove_def)
  qed
qed

end

subsection \<open>The kernel's queues meet the contract\<close>

definition kq_inv :: "ptr \<Rightarrow> 'z vm_scheme qmem \<Rightarrow> bool" where
  "kq_inv q s \<longleftrightarrow> ka.wf_qmem s \<and> (\<exists>xs. is_queue s q xs (qlimit q s))"

definition kq_fits :: "'z vm_scheme qmem \<Rightarrow> bool" where
  "kq_fits s \<longleftrightarrow> kern_fits sizeof_queue_node (qhp s)"

interpretation kq: bounded_queue "kq_inv q" "qcontents q" "qlimit q"
  "\<lambda>d s. map_option snd (queue_enqueue kern_malloc kern_free q d s)" "queue_dequeue kern_free q"
  "queue_force_remove kern_free q" kq_fits
proof unfold_locales
  fix s :: "'z vm_scheme qmem" and d :: ptr
  assume "kq_inv q s"
  then obtain xs where xs: "ka.wf_qmem s" "is_queue s q xs (qlimit q s)" by (auto simp: kq_inv_def)
  note c = is_queue_contents[OF xs(2)]
  show "0 \<notin> set (qcontents q s)" using c xs(2) by (auto simp: is_queue_def)
  { assume f: "kq_fits s" and d: "d \<noteq> 0"
    from ka.queue_enqueue_correct[OF xs(1) f[unfolded kq_fits_def] xs(2) d] obtain n s' where
      s': "queue_enqueue kern_malloc kern_free q d s = Some (n, s')" "ka.wf_qmem s'"
      "is_queue s' q (if int (length xs) < qlimit q s \<or> qlimit q s = -1 then xs @ [(n, d)] else xs) (qlimit q s)" by blast
    note c' = is_queue_contents[OF s'(3)]
    show "\<exists>s'. map_option snd (queue_enqueue kern_malloc kern_free q d s) = Some s' \<and> kq_inv q s' \<and> qlimit q s' = qlimit q s \<and>
      qcontents q s' = (if int (length (qcontents q s)) < qlimit q s \<or> qlimit q s = -1 then qcontents q s @ [d] else qcontents q s)"
      using s' c c' by (auto simp: kq_inv_def) }
  { from ka.queue_dequeue_correct[OF xs] obtain s' where
      s': "queue_dequeue kern_free q s = Some (if xs = [] then 0 else snd (hd xs), s')" "ka.wf_qmem s'"
      "is_queue s' q (tl xs) (qlimit q s)" by blast
    note c' = is_queue_contents[OF s'(3)]
    show "\<exists>x s'. queue_dequeue kern_free q s = Some (x, s') \<and> kq_inv q s' \<and> qlimit q s' = qlimit q s \<and>
       x = (if qcontents q s = [] then 0 else hd (qcontents q s)) \<and> qcontents q s' = tl (qcontents q s)"
      using s' c c' by (auto simp: kq_inv_def hd_map map_tl) }
  assume d: "d \<noteq> 0"
  from ka.queue_force_remove_correct[OF xs d] obtain s' where
    s': "queue_force_remove kern_free q d s = Some s'" "ka.wf_qmem s'"
    "is_queue s' q (filter (\<lambda>x. snd x \<noteq> d) xs) (qlimit q s)" by blast
  note c' = is_queue_contents[OF s'(3)]
  show "\<exists>s'. queue_force_remove kern_free q d s = Some s' \<and> kq_inv q s' \<and> qlimit q s' = qlimit q s \<and>
     qcontents q s' = filter (\<lambda>x. x \<noteq> d) (qcontents q s)"
    using s' c c' by (auto simp: kq_inv_def filter_map comp_def)
qed

subsection \<open>Queues as values\<close>

text \<open>
  The components above the data structures keep a queue as the list of its items. The same contract
  holds of these values, so they stand for the pointer structures wherever only the contract is used.
\<close>

definition vq_enqueue :: "int \<Rightarrow> ptr \<Rightarrow> ptr list \<Rightarrow> ptr list" where
  "vq_enqueue limit d q = (if d \<noteq> 0 \<and> (int (length q) < limit \<or> limit = -1) then q @ [d] else q)"

fun vq_dequeue :: "ptr list \<Rightarrow> ptr \<times> ptr list" where
  "vq_dequeue [] = (0, [])"
| "vq_dequeue (x # xs) = (x, xs)"

definition vq_force_remove :: "ptr \<Rightarrow> ptr list \<Rightarrow> ptr list" where
  "vq_force_remove d q = (if d = 0 then q else filter (\<lambda>x. x \<noteq> d) q)"

interpretation vq: bounded_queue "\<lambda>q. 0 \<notin> set q" "\<lambda>q. q" "\<lambda>q. limit"
  "\<lambda>d q. Some (vq_enqueue limit d q)" "\<lambda>q. Some (vq_dequeue q)" "\<lambda>d q. Some (vq_force_remove d q)" "\<lambda>q. True"
proof unfold_locales
  fix s :: "ptr list" and d :: ptr
  assume z: "0 \<notin> set s"
  then show "0 \<notin> set s" .
  show "\<exists>x s'. Some (vq_dequeue s) = Some (x, s') \<and> 0 \<notin> set s' \<and> limit = limit \<and>
     x = (if s = [] then 0 else hd s) \<and> s' = tl s" using z by (cases s) auto
  assume "d \<noteq> 0"
  with z show "\<exists>s'. Some (vq_enqueue limit d s) = Some s' \<and> 0 \<notin> set s' \<and> limit = limit \<and>
     s' = (if int (length s) < limit \<or> limit = -1 then s @ [d] else s)"
    and "\<exists>s'. Some (vq_force_remove d s) = Some s' \<and> 0 \<notin> set s' \<and> limit = limit \<and> s' = filter (\<lambda>x. x \<noteq> d) s"
    by (auto simp: vq_enqueue_def vq_force_remove_def)
qed

end
