(* ===== verification/Pit.thy ===== *)
theory Pit
  imports Queue
begin

text \<open>
  The interval timer, \<^verbatim>\<open>kernel/interrupts/pit.c\<close>: programming the chip, the tick counter and the routines that
  are called every given number of ticks. The list of routines is a value; the records in it are
  allocated from the kernel heap. A routine is a function pointer and what a call does is an argument.
\<close>

record pit_routine =
  pr_ptr :: ptr
  milis :: int
  pr_id :: int
  routine :: ptr

record pit = vm +
  pit_ticks :: u32
  routine_id :: int
  routines :: "pit_routine list"

definition PIT_FREQUENCY :: nat where "PIT_FREQUENCY = 1193180"
definition PIT_COMMAND_PORT :: u16 where "PIT_COMMAND_PORT = 0x43"
definition PIT_CHAN_0_PORT :: u16 where "PIT_CHAN_0_PORT = 0x40"
definition PIT_NO_OF_ROUTINES :: nat where "PIT_NO_OF_ROUTINES = 256"

text \<open>
  The casts bind tighter than the shift: \<^verbatim>\<open>(uint8_t) divisor >> 8\<close> shifts the low byte.
\<close>

definition pit_divisor :: u16 where "pit_divisor = of_nat (PIT_FREQUENCY div 1000)"

definition initialise_pit :: "stubs \<Rightarrow> ptr \<Rightarrow> 'z pit_scheme \<Rightarrow> 'z pit_scheme" where
  "initialise_pit st handler s =
     (let s = install_interrupt_handler st 32 handler DPL_KERNEL s;
          s = s\<lparr>routines := []\<rparr>;
          s = write_port_8 PIT_COMMAND_PORT 0x36 s;
          s = write_port_8 PIT_CHAN_0_PORT ((ucast pit_divisor :: u8) AND 0xFF) s
      in write_port_8 PIT_CHAN_0_PORT (drop_bit 8 (ucast pit_divisor :: u8)) s)"

text \<open>A division by an interval of zero faults.\<close>

fun run_routines ::
  "(ptr \<Rightarrow> registers \<Rightarrow> 'z pit_scheme \<Rightarrow> (registers \<times> 'z pit_scheme) option) \<Rightarrow> pit_routine list \<Rightarrow> registers \<Rightarrow> 'z pit_scheme \<Rightarrow> (registers \<times> 'z pit_scheme) option"
where
  "run_routines call [] regs s = Some (regs, s)"
| "run_routines call (r # rs) regs s =
     (if milis r = 0 then None
      else if sint (pit_ticks s) mod milis r = 0
      then do { (regs, s) \<leftarrow> call (routine r) regs s; run_routines call rs regs s }
      else run_routines call rs regs s)"

definition pit_interrupt_handler ::
  "(ptr \<Rightarrow> registers \<Rightarrow> 'z pit_scheme \<Rightarrow> (registers \<times> 'z pit_scheme) option) \<Rightarrow> registers \<Rightarrow> 'z pit_scheme \<Rightarrow> (registers \<times> 'z pit_scheme) option"
where
  "pit_interrupt_handler call regs s =
     (let s = s\<lparr>pit_ticks := pit_ticks s + 1\<rparr> in run_routines call (routines s) regs s)"

definition install_pit_routine :: "ptr \<Rightarrow> int \<Rightarrow> 'z pit_scheme \<Rightarrow> (int \<times> 'z pit_scheme) option" where
  "install_pit_routine f interval s =
     (if length (routines s) < PIT_NO_OF_ROUTINES
      then do {
        (r, s) \<leftarrow> kern_malloc 12 s;
        if r = 0 then None
        else do {
          let rid = routine_id s;
          let s = s\<lparr>routine_id := routine_id s + 1,
                    routines := routines s @ [\<lparr>pr_ptr = r, milis = interval, pr_id = rid, routine = f\<rparr>]\<rparr>;
          Some (rid, s)
        }
      }
      else Some (-1, s))"

fun change_first :: "int \<Rightarrow> int \<Rightarrow> pit_routine list \<Rightarrow> pit_routine list" where
  "change_first rid new [] = []"
| "change_first rid new (r # rs) = (if pr_id r = rid then r\<lparr>milis := new\<rparr> # rs else r # change_first rid new rs)"

definition change_routine_timing :: "int \<Rightarrow> int \<Rightarrow> 'z pit_scheme \<Rightarrow> 'z pit_scheme" where
  "change_routine_timing rid new_interval s = s\<lparr>routines := change_first rid new_interval (routines s)\<rparr>"

fun drop_first :: "int \<Rightarrow> pit_routine list \<Rightarrow> pit_routine list" where
  "drop_first rid [] = []"
| "drop_first rid (r # rs) = (if pr_id r = rid then rs else r # drop_first rid rs)"

definition uninstall_pit_routine :: "int \<Rightarrow> 'z pit_scheme \<Rightarrow> 'z pit_scheme option" where
  "uninstall_pit_routine rid s =
     (case find (\<lambda>r. pr_id r = rid) (routines s) of
        Some r \<Rightarrow> do { s \<leftarrow> kern_free (pr_ptr r) s; Some (s\<lparr>routines := drop_first rid (routines s)\<rparr>) }
      | None \<Rightarrow> Some s)"

subsection \<open>The rate the chip is programmed to\<close>

text \<open>
  The two bytes for channel 0 are 0xA9 and 0, the divisor 169: the timer runs at 7060 Hz instead of
  the 1000 Hz that the intervals in milliseconds assume.
\<close>

definition programmed_divisor :: "(u16 \<times> u8) list \<Rightarrow> nat" where
  "programmed_divisor ws =
     (case map snd (filter (\<lambda>w. fst w = PIT_CHAN_0_PORT) ws) of lo # hi # _ \<Rightarrow> unat lo + 256 * unat hi | _ \<Rightarrow> 0)"

lemma port_log_install [simp]: "port_log (install_interrupt_handler st n h p s) = port_log s"
  by (simp add: install_interrupt_handler_def Let_def enable_interrupts_def register_interrupt_handler_def
      install_interrupt_vector_def disable_interrupts_def set_gate_def)

lemma initialise_pit_ports:
  "port_log (initialise_pit st h s) = port_log s @ [(0x43, 0x36), (0x40, 0xA9), (0x40, 0)]"
  by (simp add: initialise_pit_def Let_def write_port_8_def PIT_COMMAND_PORT_def PIT_CHAN_0_PORT_def
      pit_divisor_def PIT_FREQUENCY_def)

subsection \<open>Routines are called at their interval\<close>

lemma run_routines_due:
  assumes "\<And>f r s. \<exists>r' s'. call f r s = Some (r', s') \<and> pit_ticks s' = pit_ticks s"
    "\<forall>r\<in>set rs. milis r \<noteq> 0"
  shows "\<exists>regs' s'. run_routines call rs regs s = Some (regs', s')"
  using assms(2)
proof (induction rs arbitrary: regs s)
  case (Cons r rs)
  obtain r' s' where "call (routine r) regs s = Some (r', s')" using assms(1) by blast
  with Cons show ?case by auto
qed simp

lemma change_first_ids: "map pr_id (change_first rid new rs) = map pr_id rs"
  by (induction rs) auto

lemma drop_first_distinct:
  "distinct (map pr_id rs) \<Longrightarrow> drop_first rid rs = filter (\<lambda>r. pr_id r \<noteq> rid) rs"
proof (induction rs)
  case (Cons r rs)
  have "pr_id r \<notin> pr_id ` set rs \<Longrightarrow> filter (\<lambda>q. pr_id q \<noteq> pr_id r) rs = rs"
    by (intro filter_True ballI notI) (metis imageI)
  with Cons show ?case by auto
qed simp

end
