(* ===== verification/Gen_Tree.thy ===== *)
theory Gen_Tree
  imports Prelude
begin

text \<open>
  Generic trees, \<^verbatim>\<open>kernel/util/generic_tree.c\<close>, as values: a tree is its data pointer and the list of its
  subtrees, in the order of the list \<open>sub_trees\<close>. The pointer \<open>parent_tree\<close> is the position in the
  enclosing tree. In the two trees of the kernel (processes, mount points) every subtree has data of
  its own, so a subtree is named by its data.
\<close>

datatype gen_tree = GTree (tdata: ptr) (sub_trees: "gen_tree list")

definition tree_finder_evaluator :: "gen_tree \<Rightarrow> ptr \<Rightarrow> bool" where
  "tree_finder_evaluator subtree d = (tdata subtree = d)"

fun generic_tree_traverse :: "(gen_tree \<Rightarrow> ptr \<Rightarrow> bool) \<Rightarrow> ptr \<Rightarrow> gen_tree \<Rightarrow> gen_tree option"
and traverse_subtrees :: "(gen_tree \<Rightarrow> ptr \<Rightarrow> bool) \<Rightarrow> ptr \<Rightarrow> gen_tree list \<Rightarrow> gen_tree option" where
  "generic_tree_traverse eval d (GTree x ts) =
     (if eval (GTree x ts) d then Some (GTree x ts) else traverse_subtrees eval d ts)"
| "traverse_subtrees eval d [] = None"
| "traverse_subtrees eval d (t # ts) =
     (case generic_tree_traverse eval d t of Some r \<Rightarrow> Some r | None \<Rightarrow> traverse_subtrees eval d ts)"

definition generic_tree_find_subtree :: "gen_tree option \<Rightarrow> ptr \<Rightarrow> gen_tree option" where
  "generic_tree_find_subtree tree search_data =
     (case tree of
        Some t \<Rightarrow> if search_data \<noteq> 0 then generic_tree_traverse tree_finder_evaluator search_data t else None
      | None \<Rightarrow> None)"

text \<open>
  \<open>generic_tree_create\<close> with a parent appends the new tree to the parent's subtrees; without one the
  new tree stands alone.
\<close>

fun tree_append :: "ptr \<Rightarrow> gen_tree \<Rightarrow> gen_tree \<Rightarrow> gen_tree" where
  "tree_append parent new (GTree x ts) =
     (if x = parent then GTree x (ts @ [new]) else GTree x (map (tree_append parent new) ts))"

definition generic_tree_create :: "ptr \<Rightarrow> (ptr \<times> gen_tree) option \<Rightarrow> gen_tree" where
  "generic_tree_create d parent =
     (case parent of
        Some (parent_data, tree) \<Rightarrow> tree_append parent_data (GTree d []) tree
      | None \<Rightarrow> GTree d [])"

text \<open>Taking a subtree out of its parent, its children having been appended to the parent before.\<close>

fun remove_child :: "ptr \<Rightarrow> gen_tree list \<Rightarrow> gen_tree list" where
  "remove_child d [] = []"
| "remove_child d (t # ts) = (if tdata t = d then ts else t # remove_child d ts)"

fun tree_splice :: "ptr \<Rightarrow> ptr \<Rightarrow> gen_tree list \<Rightarrow> gen_tree \<Rightarrow> gen_tree" where
  "tree_splice parent d kids (GTree x ts) =
     (if x = parent then GTree x (remove_child d (ts @ kids)) else GTree x (map (tree_splice parent d kids) ts))"

fun gen_tree_print :: "(ptr \<Rightarrow> string) \<Rightarrow> nat \<Rightarrow> gen_tree \<Rightarrow> string" where
  "gen_tree_print printer lvl (GTree d ts) =
     CHR 0x0A # concat (replicate lvl ''  '') @ ''--'' @ printer d @ concat (map (gen_tree_print printer (lvl + 1)) ts)"

definition generic_tree_print :: "(ptr \<Rightarrow> string) \<Rightarrow> gen_tree \<Rightarrow> string" where
  "generic_tree_print printer tree = gen_tree_print printer 0 tree"

subsection \<open>The data of a tree, in traversal order\<close>

fun preorder :: "gen_tree \<Rightarrow> ptr list" where
  "preorder (GTree d ts) = d # concat (map preorder ts)"

lemma traverse_none:
  "(generic_tree_traverse tree_finder_evaluator d t = None) = (d \<notin> set (preorder t))"
  "(traverse_subtrees tree_finder_evaluator d ts = None) = (\<forall>t\<in>set ts. d \<notin> set (preorder t))"
  by (induction tree_finder_evaluator d t and tree_finder_evaluator d ts rule: generic_tree_traverse_traverse_subtrees.induct)
    (auto simp: tree_finder_evaluator_def split: option.split)

lemma traverse_some:
  "generic_tree_traverse tree_finder_evaluator d t = Some r \<Longrightarrow> tdata r = d"
  "traverse_subtrees tree_finder_evaluator d ts = Some r \<Longrightarrow> tdata r = d"
  by (induction tree_finder_evaluator d t and tree_finder_evaluator d ts rule: generic_tree_traverse_traverse_subtrees.induct)
    (auto simp: tree_finder_evaluator_def split: option.splits if_splits)

lemma find_subtree_correct:
  "d \<noteq> 0 \<Longrightarrow> (\<exists>r. generic_tree_find_subtree (Some t) d = Some r \<and> tdata r = d) \<longleftrightarrow> d \<in> set (preorder t)"
  using traverse_none(1)[of d t] traverse_some(1)[of d t]
  by (cases "generic_tree_traverse tree_finder_evaluator d t") (auto simp: generic_tree_find_subtree_def)

lemma tree_append_preorder:
  "set (preorder (tree_append p new t)) = set (preorder t) \<union> (if p \<in> set (preorder t) then set (preorder new) else {})"
proof (induction t)
  case (GTree x ts)
  then show ?case by (cases "x = p") (auto split: if_splits)
qed

end
