(* ===== verification/Process.thy ===== *)
theory Process
  imports Pit Gen_Tree
begin

text \<open>
  Processes, \<^verbatim>\<open>kernel/process/process.c\<close>, with the queue operations of \<^verbatim>\<open>scheduler.c\<close> that they call. A
  \<open>proc_t *\<close> is a key of the store \<open>procs\<close>; a destroyed process is removed from it, so that a use after
  free is a fault. \<open>proc_regs\<close> holds the registers saved on the process's system stack. Lists and queues
  are values here, a \<open>t_process_t\<close> of the napping list with its address (\<open>Linked_List\<close> and \<open>Queue\<close> show that the pointer structures behave like them); the
  process structures, stacks, frames and page tables are allocated from the kernel state.
\<close>

subsection \<open>State\<close>

datatype pstate = PROCESS_STATE_READY | PROCESS_STATE_LIVING | PROCESS_STATE_NAPPING | PROCESS_STATE_DEAD
datatype ptype = PROCESS_TYPE_STANDALONE | PROCESS_TYPE_CLONE
datatype pprv = PROCESS_PRV_KERN | PROCESS_PRV_USER

definition PROCESS_CODE :: u32 where "PROCESS_CODE = 0x10000000"
definition PROCESS_STACK :: u32 where "PROCESS_STACK = 0x40000000"
definition PROCESS_HEAP :: u32 where "PROCESS_HEAP = 0x50000000"
definition PROCESS_STACK_PAGES :: nat where "PROCESS_STACK_PAGES = 5"
definition PROCESS_SYS_STACK_PAGES :: nat where "PROCESS_SYS_STACK_PAGES = 2"
definition SCHED_MAX_READY :: int where "SCHED_MAX_READY = 256"
definition SCHED_MAX_DEAD :: int where "SCHED_MAX_DEAD = 256"
definition sizeof_proc :: u32 where "sizeof_proc = 976"
definition sizeof_t_process :: u32 where "sizeof_t_process = 8"

record proc =
  proc_regs :: registers
  cpl :: pprv
  proc_pdir :: u32
  sys_stack :: ptr
  fpu_regs :: "u8 list"
  heap_start :: u32
  heap_end :: u32
  pname :: string
  details :: string
  pid :: int
  state :: pstate
  type :: ptype
  ustack_ptr :: ptr
  proc_ustack_phys :: "u32 list"
  waiters :: "ptr list"
  pnodes :: "ptr list"
  parent :: ptr

record t_process =
  tp_addr :: ptr
  tp_process :: ptr
  tp_counter :: u32

record kern = pit +
  procs :: "ptr \<rightharpoonup> proc"
  current_process :: ptr
  kernel_process :: ptr
  proc_pid :: int
  process_tree :: "gen_tree option"
  ready_queue :: "ptr list"
  dead_queue :: "ptr list"
  napping_list :: "t_process list"
  fpu_state :: "u8 list"
  klog :: "string list"

definition upd_proc :: "ptr \<Rightarrow> (proc \<Rightarrow> proc) \<Rightarrow> 'z kern_scheme \<Rightarrow> 'z kern_scheme option" where
  "upd_proc p f s = do { q \<leftarrow> procs s p; Some (s\<lparr>procs := (procs s)(p \<mapsto> f q)\<rparr>) }"

definition set_eax :: "u32 \<Rightarrow> proc \<Rightarrow> proc" where
  "set_eax v p = p\<lparr>proc_regs := (proc_regs p)\<lparr>r_eax := v\<rparr>\<rparr>"

definition klog_msg :: "string \<Rightarrow> 'z kern_scheme \<Rightarrow> 'z kern_scheme" where
  "klog_msg m s = s\<lparr>klog := klog s @ [m]\<rparr>"

subsection \<open>The scheduler's queues (scheduler.c)\<close>

definition sched_make_ready :: "ptr \<Rightarrow> 'z kern_scheme \<Rightarrow> 'z kern_scheme option" where
  "sched_make_ready p s = do {
     s \<leftarrow> upd_proc p (\<lambda>q. q\<lparr>state := PROCESS_STATE_READY\<rparr>) s;
     Some (s\<lparr>ready_queue := vq_enqueue SCHED_MAX_READY p (ready_queue s)\<rparr>)
   }"

definition sched_make_dead :: "ptr \<Rightarrow> 'z kern_scheme \<Rightarrow> 'z kern_scheme option" where
  "sched_make_dead p s = do {
     s \<leftarrow> upd_proc p (\<lambda>q. q\<lparr>state := PROCESS_STATE_DEAD\<rparr>) s;
     Some (s\<lparr>dead_queue := vq_enqueue SCHED_MAX_DEAD p (dead_queue s)\<rparr>)
   }"

definition sched_purge_process :: "ptr \<Rightarrow> 'z kern_scheme \<Rightarrow> 'z kern_scheme" where
  "sched_purge_process p s =
     s\<lparr>ready_queue := vq_force_remove p (ready_queue s), dead_queue := vq_force_remove p (dead_queue s)\<rparr>"

definition sched_get_ready :: "'z kern_scheme \<Rightarrow> ptr \<times> 'z kern_scheme" where
  "sched_get_ready s = (let (p, q) = vq_dequeue (ready_queue s) in (p, s\<lparr>ready_queue := q\<rparr>))"

definition sched_get_dead :: "'z kern_scheme \<Rightarrow> ptr \<times> 'z kern_scheme" where
  "sched_get_dead s = (let (p, q) = vq_dequeue (dead_queue s) in (p, s\<lparr>dead_queue := q\<rparr>))"

subsection \<open>Creating processes\<close>

definition proc_set_current_proc :: "ptr \<Rightarrow> 'z kern_scheme \<Rightarrow> 'z kern_scheme" where
  "proc_set_current_proc p s = s\<lparr>current_process := p\<rparr>"

definition proc_get_current_proc :: "'z kern_scheme \<Rightarrow> ptr" where
  "proc_get_current_proc s = current_process s"

definition proc_get_pid :: "'z kern_scheme \<Rightarrow> int \<times> 'z kern_scheme" where
  "proc_get_pid s = (proc_pid s + 1, s\<lparr>proc_pid := proc_pid s + 1\<rparr>)"

definition proc_attach_node :: "ptr \<Rightarrow> ptr \<Rightarrow> 'z kern_scheme \<Rightarrow> (int \<times> 'z kern_scheme) option" where
  "proc_attach_node p node s = do {
     s \<leftarrow> upd_proc p (\<lambda>q. q\<lparr>pnodes := (if node \<noteq> 0 then pnodes q @ [node] else pnodes q)\<rparr>) s;
     q \<leftarrow> procs s p;
     Some (int (length (pnodes q)) - 1, s)
   }"

definition zero_regs :: registers where
  "zero_regs = \<lparr>r_edi = 0, r_esi = 0, r_ebp = 0, r_esp = 0, r_ebx = 0, r_edx = 0, r_ecx = 0, r_eax = 0, int_no = 0,
     err_code = 0, r_eip = 0, r_cs = 0, r_ds = 0, r_es = 0, r_fs = 0, r_gs = 0, r_eflags = 0, useresp = 0, r_ss = 0\<rparr>"

definition tree_insert :: "ptr \<Rightarrow> ptr \<Rightarrow> 'z kern_scheme \<Rightarrow> 'z kern_scheme" where
  "tree_insert p par s = s\<lparr>process_tree := map_option (\<lambda>t. generic_tree_create p (Some (par, t))) (process_tree s)\<rparr>"

text \<open>
  \<open>kern_proc_stack\<close> is a global that is never assigned and stays 0, so the system stack of the kernel
  process is the address 4 words up, 16.
\<close>

definition proc_create_kernel :: "'z kern_scheme \<Rightarrow> (ptr \<times> 'z kern_scheme) option" where
  "proc_create_kernel s = do {
     (kernel, s) \<leftarrow> kern_malloc sizeof_proc s;
     if kernel = 0 then None
     else Some (kernel, s\<lparr>procs := (procs s)(kernel \<mapsto>
            \<lparr>proc_regs = zero_regs, cpl = PROCESS_PRV_KERN, proc_pdir = get_page_directory_address s,
             sys_stack = 16, fpu_regs = replicate 512 0, heap_start = KERNEL_HEAP_INIT_ADDR,
             heap_end = get_heap_end s, pname = ''kernel'', details = ''SYSTEM PROCESS'', pid = 1,
             state = PROCESS_STATE_LIVING, type = PROCESS_TYPE_STANDALONE, ustack_ptr = 0, proc_ustack_phys = [],
             waiters = [], pnodes = [], parent = 0\<rparr>),
            process_tree := Some (generic_tree_create kernel None)\<rparr>)
   }"

text \<open>
  A row of fresh pages, mapped for the user one by one: a frame is allocated, cleared and entered. The
  result is the list of the frames.
\<close>

fun map_pages :: "u32 \<Rightarrow> u32 list \<Rightarrow> 'z vm_scheme \<Rightarrow> u32 list \<times> 'z vm_scheme" where
  "map_pages pdir [] s = ([], s)"
| "map_pages pdir (v # vs) s =
     (let (phys, s) = alloc_phys_page s;
          s = win_clear (temp_map_page phys s);
          s = set_page_table_entry pdir v phys True True s;
          (ps, s) = map_pages pdir vs s
      in (phys # ps, s))"

definition stack_addrs :: "nat \<Rightarrow> u32 list" where
  "stack_addrs n = map (\<lambda>i. PROCESS_STACK + of_nat i * 0x1000) [0..<n]"

definition fresh_regs :: registers where
  "fresh_regs = zero_regs\<lparr>r_ds := 0x23, r_es := 0x23, r_fs := 0x23, r_gs := 0x23, int_no := 0x20, err_code := 0,
     r_cs := 0x1B, r_eflags := 0x0202, useresp := PROCESS_STACK + of_nat PROCESS_STACK_PAGES * 0x1000,
     r_ss := 0x23, r_eip := PROCESS_CODE\<rparr>"

text \<open>\<open>find_gtty\<close> is the call \<^verbatim>\<open>vfs_find_node("/dev/gtty")\<close> of a theory above this one.\<close>

definition proc_create ::
  "('z kern_scheme \<Rightarrow> (ptr \<times> 'z kern_scheme) option) \<Rightarrow> ptr \<Rightarrow> 'z kern_scheme \<Rightarrow> (ptr \<times> 'z kern_scheme) option"
where
  "proc_create find_gtty par s = do {
     (process, s) \<leftarrow> kern_malloc sizeof_proc s;
     if process = 0 then None
     else do {
       let (new_pid, s) = proc_get_pid s;
       let (pdir, s) = alloc_phys_page s;
       let s = map_kernel_tables pdir s;
       (ustack, s) \<leftarrow> kern_malloc (4 * of_nat PROCESS_STACK_PAGES) s;
       let (phys, s) = map_pages pdir (stack_addrs PROCESS_STACK_PAGES) s;
       (sstack, s) \<leftarrow> kern_malloc (4096 * of_nat PROCESS_SYS_STACK_PAGES) s;
       parent_proc \<leftarrow> procs s par;
       let s = s\<lparr>procs := (procs s)(process \<mapsto>
            \<lparr>proc_regs = fresh_regs, cpl = PROCESS_PRV_USER, proc_pdir = pdir, sys_stack = sstack,
             fpu_regs = replicate 512 0, heap_start = PROCESS_HEAP, heap_end = 0, pname = [], details = [],
             pid = new_pid, state = PROCESS_STATE_READY, type = PROCESS_TYPE_STANDALONE, ustack_ptr = ustack,
             proc_ustack_phys = phys, waiters = [], pnodes = [], parent = par\<rparr>)\<rparr>;
       let s = tree_insert process par s;
       (gtty, s) \<leftarrow> find_gtty s;
       (nid, s) \<leftarrow> proc_attach_node process gtty s;
       Some (process, s)
     }
   }"

definition proc_clone :: "ptr \<Rightarrow> 'z kern_scheme \<Rightarrow> (ptr \<times> 'z kern_scheme) option" where
  "proc_clone par s = do {
     (process, s) \<leftarrow> kern_malloc sizeof_proc s;
     if process = 0 then None
     else do {
       let (new_pid, s) = proc_get_pid s;
       parent_proc \<leftarrow> procs s par;
       let (pdir, s) = clone_page_structures (proc_pdir parent_proc) s;
       (ustack, s) \<leftarrow> kern_malloc (4 * of_nat (length (proc_ustack_phys parent_proc))) s;
       let s = fold alloc_phys_increase_refcount (proc_ustack_phys parent_proc) s;
       (sstack, s) \<leftarrow> kern_malloc (4096 * of_nat PROCESS_SYS_STACK_PAGES) s;
       let s = s\<lparr>procs := (procs s)(process \<mapsto>
            \<lparr>proc_regs = proc_regs parent_proc, cpl = PROCESS_PRV_USER, proc_pdir = pdir, sys_stack = sstack,
             fpu_regs = fpu_regs parent_proc, heap_start = heap_start parent_proc, heap_end = heap_end parent_proc,
             pname = pname parent_proc @ '' (clone)'', details = details parent_proc @ '' (clone)'',
             pid = new_pid, state = PROCESS_STATE_READY, type = PROCESS_TYPE_CLONE, ustack_ptr = ustack,
             proc_ustack_phys = proc_ustack_phys parent_proc, waiters = [], pnodes = pnodes parent_proc, parent = par\<rparr>)\<rparr>;
       Some (process, tree_insert process par s)
     }
   }"

subsection \<open>Destroying a process\<close>

text \<open>Every process that waits gets the pid as the result of its system call and is made ready.\<close>

fun wake_waiters :: "int \<Rightarrow> ptr list \<Rightarrow> 'z kern_scheme \<Rightarrow> 'z kern_scheme option" where
  "wake_waiters n [] s = Some s"
| "wake_waiters n (w # ws) s = do {
     s \<leftarrow> upd_proc w (set_eax (word_of_int n)) s;
     s \<leftarrow> sched_make_ready w (sched_purge_process w s);
     wake_waiters n ws s
   }"

fun reparent :: "ptr \<Rightarrow> gen_tree list \<Rightarrow> 'z kern_scheme \<Rightarrow> 'z kern_scheme option" where
  "reparent par [] s = Some s"
| "reparent par (t # ts) s = do {
     s \<leftarrow> upd_proc (tdata t) (\<lambda>c. c\<lparr>parent := par, type := PROCESS_TYPE_STANDALONE\<rparr>) s;
     reparent par ts s
   }"

definition proc_destroy :: "ptr \<Rightarrow> 'z kern_scheme \<Rightarrow> 'z kern_scheme option" where
  "proc_destroy process s = do {
     p \<leftarrow> procs s process;
     if pid p = 1 then Some s
     else do {
       s \<leftarrow> wake_waiters (pid p) (waiters p) s;
       s \<leftarrow> kern_free (sys_stack p) s;
       tree \<leftarrow> generic_tree_find_subtree (process_tree s) process;
       s \<leftarrow> reparent (parent p) (sub_trees tree) s;
       let s = s\<lparr>process_tree := map_option (tree_splice (parent p) process (sub_trees tree)) (process_tree s)\<rparr>;
       s \<leftarrow> kern_free (ustack_ptr p) s;
       let s = nuke_page_directory (proc_pdir p) s;
       s \<leftarrow> kern_free process s;
       Some (s\<lparr>procs := (procs s)(process := None)\<rparr>)
     }
   }"

subsection \<open>Finding a process\<close>

text \<open>
  As written, the loop over the children returns in its first round for a child with data, whatever
  the recursive call finds. A result of 0 is the null pointer.
\<close>

fun proc_find_recur :: "(ptr \<rightharpoonup> proc) \<Rightarrow> int \<Rightarrow> gen_tree \<Rightarrow> ptr option"
and find_in_children :: "(ptr \<rightharpoonup> proc) \<Rightarrow> int \<Rightarrow> gen_tree list \<Rightarrow> ptr option" where
  "proc_find_recur ps n (GTree d ts) =
     (if n = 0 \<or> d = 0 then Some 0
      else case ps d of
             None \<Rightarrow> None
           | Some p \<Rightarrow> if pid p = n then Some d else find_in_children ps n ts)"
| "find_in_children ps n [] = Some 0"
| "find_in_children ps n (t # ts) =
     (if tdata t = 0 then find_in_children ps n ts
      else case ps (tdata t) of
             None \<Rightarrow> None
           | Some p \<Rightarrow> if pid p = n then Some (tdata t) else proc_find_recur ps n t)"

text \<open>The chain that is searched: from each process to its first child.\<close>

fun first_chain :: "gen_tree \<Rightarrow> ptr list" and first_of_children :: "gen_tree list \<Rightarrow> ptr list" where
  "first_chain (GTree d ts) = d # first_of_children ts"
| "first_of_children [] = []"
| "first_of_children (t # ts) = (if tdata t = 0 then first_of_children ts else first_chain t)"

definition proc_find :: "int \<Rightarrow> 'z kern_scheme \<Rightarrow> ptr option" where
  "proc_find n s = (case process_tree s of None \<Rightarrow> Some 0 | Some t \<Rightarrow> proc_find_recur (procs s) n t)"

fun proc_get_next_in_tree_recurs :: "int \<Rightarrow> int \<Rightarrow> gen_tree \<Rightarrow> ptr"
and next_in_children :: "int \<Rightarrow> int \<Rightarrow> gen_tree list \<Rightarrow> ptr" where
  "proc_get_next_in_tree_recurs no cur_no (GTree d ts) =
     (if no = cur_no then d else next_in_children no cur_no ts)"
| "next_in_children no cur_no [] = 0"
| "next_in_children no cur_no (t # ts) =
     (let p = proc_get_next_in_tree_recurs no (cur_no + 1) t
      in if p \<noteq> 0 then p else next_in_children no (cur_no + 1) ts)"

definition proc_get_next_in_tree :: "int \<Rightarrow> 'z kern_scheme \<Rightarrow> ptr" where
  "proc_get_next_in_tree no s =
     (case process_tree s of None \<Rightarrow> 0 | Some t \<Rightarrow> proc_get_next_in_tree_recurs no 0 t)"

subsection \<open>The floating point unit (fpu.c)\<close>

definition fpu_save :: "ptr \<Rightarrow> 'z kern_scheme \<Rightarrow> 'z kern_scheme option" where
  "fpu_save p s = upd_proc p (\<lambda>q. q\<lparr>fpu_regs := fpu_state s\<rparr>) s"

definition fpu_reload :: "ptr \<Rightarrow> 'z kern_scheme \<Rightarrow> 'z kern_scheme option" where
  "fpu_reload p s = do { q \<leftarrow> procs s p; Some (s\<lparr>fpu_state := fpu_regs q\<rparr>) }"

subsection \<open>What is found\<close>

text \<open>The data of a tree, in the order of a full search.\<close>

fun tree_data :: "gen_tree \<Rightarrow> ptr list" where
  "tree_data (GTree d ts) = d # concat (map tree_data ts)"

lemma first_chain_data: "set (first_chain t) \<subseteq> set (tree_data t)" "set (first_of_children ts) \<subseteq> (\<Union>t\<in>set ts. set (tree_data t))"
  by (induction t and ts rule: first_chain_first_of_children.induct) auto

text \<open>The search is the search of the chain.\<close>

lemma proc_find_recur_chain:
  assumes "n \<noteq> 0"
  shows "tdata t \<noteq> 0 \<Longrightarrow> set (first_chain t) \<subseteq> dom ps \<Longrightarrow>
      proc_find_recur ps n t = Some (case find (\<lambda>d. pid (the (ps d)) = n) (first_chain t) of None \<Rightarrow> 0 | Some d \<Rightarrow> d)"
    and "set (first_of_children ts) \<subseteq> dom ps \<Longrightarrow>
      find_in_children ps n ts = Some (case find (\<lambda>d. pid (the (ps d)) = n) (first_of_children ts) of None \<Rightarrow> 0 | Some d \<Rightarrow> d)"
proof (induction t and ts rule: first_chain_first_of_children.induct)
  case (1 d ts)
  then show ?case using assms by auto
next
  case 2
  then show ?case by simp
next
  case (3 t ts)
  show ?case
  proof (cases "tdata t = 0")
    case True
    then show ?thesis using 3 by simp
  next
    case False
    then obtain cs where "first_chain t = tdata t # cs" by (cases t) simp
    then show ?thesis using 3 False by auto
  qed
qed

lemma proc_find_chain:
  assumes t: "process_tree s = Some t" "tdata t \<noteq> 0" "set (tree_data t) \<subseteq> dom (procs s)"
    and u: "inj_on (\<lambda>d. pid (the (procs s d))) (set (tree_data t))"
    and d: "d \<in> set (tree_data t)" "pid (the (procs s d)) = n" "n \<noteq> 0"
  shows "proc_find n s = Some (if d \<in> set (first_chain t) then d else 0)"
proof -
  have sub: "set (first_chain t) \<subseteq> set (tree_data t)" by (rule first_chain_data)
  have one: "x = d" if "x \<in> set (first_chain t)" "pid (the (procs s x)) = n" for x
    using inj_onD[OF u] that d sub by auto
  have "find (\<lambda>d. pid (the (procs s d)) = n) (first_chain t) = (if d \<in> set (first_chain t) then Some d else None)"
  proof (cases "d \<in> set (first_chain t)")
    case True
    then obtain x where x: "find (\<lambda>d. pid (the (procs s d)) = n) (first_chain t) = Some x"
      using d(2) find_None_iff[of "\<lambda>d. pid (the (procs s d)) = n" "first_chain t"] by fastforce
    then have "x = d" using one by (auto simp: find_Some_iff)
    then show ?thesis using True x by simp
  next
    case False
    then show ?thesis using one by (auto simp: find_None_iff)
  qed
  then show ?thesis using proc_find_recur_chain(1)[OF d(3) t(2), of "procs s"] sub t by (simp add: proc_find_def subset_trans)
qed

end
