(* ===== verification/Scheduler.thy ===== *)
theory Scheduler
  imports Process
begin

text \<open>
  The scheduler, \<^verbatim>\<open>kernel/process/scheduler.c\<close>, and the page fault handler of \<^verbatim>\<open>memory_paging.c\<close>, which calls it.
\<close>

subsection \<open>The code\<close>

text \<open>Round robin: the running process goes to the back, the front of the ready queue comes next.\<close>

definition sched_get_next :: "ptr \<Rightarrow> 'z kern_scheme \<Rightarrow> (ptr \<times> 'z kern_scheme) option" where
  "sched_get_next current s = do {
     c \<leftarrow> procs s current;
     s \<leftarrow> (if state c = PROCESS_STATE_LIVING then sched_make_ready current s else Some s);
     let (ready, s) = sched_get_ready s;
     let (dead, s) = sched_get_dead s;
     s \<leftarrow> (if dead \<noteq> 0 \<and> current = kernel_process s then proc_destroy dead s else Some s);
     c \<leftarrow> procs s current;
     s \<leftarrow> (if state c = PROCESS_STATE_DEAD then sched_make_dead current s else Some s);
     Some (ready, s)
   }"

definition sched_preempt_handler :: "registers \<Rightarrow> 'z kern_scheme \<Rightarrow> (registers \<times> 'z kern_scheme) option" where
  "sched_preempt_handler regs s = do {
     let current = proc_get_current_proc s;
     s \<leftarrow> upd_proc current (\<lambda>p. p\<lparr>proc_regs := regs\<rparr>) s;
     s \<leftarrow> fpu_save current s;
     (new, s) \<leftarrow> sched_get_next current s;
     n \<leftarrow> procs s new;
     let s = (if cpl n = PROCESS_PRV_USER
              then s\<lparr>tss_table := (tss_table s)\<lparr>ss0 := 0x10, esp0 := sys_stack n + 4096 * of_nat PROCESS_SYS_STACK_PAGES\<rparr>\<rparr>
              else s);
     let s = swap_page_directory (proc_pdir n) s;
     s \<leftarrow> upd_proc new (\<lambda>p. p\<lparr>state := PROCESS_STATE_LIVING\<rparr>) s;
     let s = proc_set_current_proc new s;
     s \<leftarrow> fpu_reload new s;
     n \<leftarrow> procs s new;
     Some (proc_regs n, s)
   }"

definition initialise_scheduler :: "ptr \<Rightarrow> ptr \<Rightarrow> ptr \<Rightarrow> 'z kern_scheme \<Rightarrow> 'z kern_scheme option" where
  "initialise_scheduler preempt timekeeper kproc s = do {
     let s = disable_interrupts s;
     let s = s\<lparr>kernel_process := kproc, ready_queue := [], dead_queue := [], napping_list := []\<rparr>;
     let s = proc_set_current_proc kproc s;
     (i, s) \<leftarrow> install_pit_routine preempt 1 s;
     (j, s) \<leftarrow> install_pit_routine timekeeper 1 s;
     Some (enable_interrupts s)
   }"

text \<open>
  One pass over the napping processes: count down, and wake those whose time is up. The counter is a signed integer of 32 bits and wraps.
\<close>

fun tick_nappers :: "t_process list \<Rightarrow> 'z kern_scheme \<Rightarrow> (t_process list \<times> 'z kern_scheme) option" where
  "tick_nappers [] s = Some ([], s)"
| "tick_nappers (t # ts) s =
     (let c = tp_counter t - 1
      in if sint c \<le> 0
         then do { s \<leftarrow> sched_make_ready (tp_process t) s; s \<leftarrow> kern_free (tp_addr t) s; tick_nappers ts s }
         else do { (ts, s) \<leftarrow> tick_nappers ts s; Some (t\<lparr>tp_counter := c\<rparr> # ts, s) })"

definition sched_timekeeper :: "registers \<Rightarrow> 'z kern_scheme \<Rightarrow> (registers \<times> 'z kern_scheme) option" where
  "sched_timekeeper regs s = do {
     (ts, s) \<leftarrow> tick_nappers (napping_list s) s;
     Some (regs, s\<lparr>napping_list := ts\<rparr>)
   }"

definition sched_make_napping :: "ptr \<Rightarrow> u32 \<Rightarrow> 'z kern_scheme \<Rightarrow> 'z kern_scheme option" where
  "sched_make_napping process time s = do {
     p \<leftarrow> procs s process;
     if state p \<noteq> PROCESS_STATE_DEAD \<and> state p \<noteq> PROCESS_STATE_NAPPING
     then do {
       let s = sched_purge_process process s;
       s \<leftarrow> upd_proc process (\<lambda>p. p\<lparr>state := PROCESS_STATE_NAPPING\<rparr>) s;
       (a, s) \<leftarrow> kern_malloc sizeof_t_process s;
       if a = 0 then None
       else Some (s\<lparr>napping_list := napping_list s @ [\<lparr>tp_addr = a, tp_process = process, tp_counter = time\<rparr>]\<rparr>)
     }
     else Some s
   }"

text \<open>The first entry whose process has the pid, with the entries before and after it.\<close>

fun find_napper :: "(ptr \<rightharpoonup> proc) \<Rightarrow> int \<Rightarrow> t_process list \<Rightarrow> ((t_process \<times> t_process list) option) option" where
  "find_napper ps n [] = Some None"
| "find_napper ps n (t # ts) = do {
     p \<leftarrow> ps (tp_process t);
     if pid p = n then Some (Some (t, ts))
     else do { r \<leftarrow> find_napper ps n ts; Some (map_option (\<lambda>(u, us). (u, t # us)) r) }
   }"

definition sched_wakeup :: "int \<Rightarrow> 'z kern_scheme \<Rightarrow> (int \<times> 'z kern_scheme) option" where
  "sched_wakeup n s = do {
     r \<leftarrow> find_napper (procs s) n (napping_list s);
     case r of
       Some (t, rest) \<Rightarrow> do {
         s \<leftarrow> kern_free (tp_addr t) s;
         let s = s\<lparr>napping_list := rest\<rparr>;
         s \<leftarrow> sched_make_ready (tp_process t) (sched_purge_process (tp_process t) s);
         Some (0, s)
       }
     | None \<Rightarrow> Some (-1, s)
   }"

definition sched_wait_for :: "ptr \<Rightarrow> int \<Rightarrow> 'z kern_scheme \<Rightarrow> (int \<times> 'z kern_scheme) option" where
  "sched_wait_for process n s = do {
     w \<leftarrow> proc_find n s;
     if w = 0 then Some (-1, s)
     else do {
       wait_for \<leftarrow> procs s w;
       if state wait_for = PROCESS_STATE_DEAD then Some (-1, s)
       else do {
         s \<leftarrow> upd_proc process (\<lambda>p. p\<lparr>state := PROCESS_STATE_NAPPING\<rparr>) s;
         s \<leftarrow> upd_proc w (\<lambda>p. p\<lparr>waiters := waiters p @ [process]\<rparr>) s;
         Some (0, sched_purge_process process s)
       }
     }
   }"

subsection \<open>The page fault handler\<close>

text \<open>
  \<open>Inl\<close> is the final halt after a fault in the kernel: interrupts off, and an endless loop.
\<close>

definition page_fault_handler :: "u32 \<Rightarrow> registers \<Rightarrow> 'z kern_scheme \<Rightarrow> ('z kern_scheme + registers \<times> 'z kern_scheme) option" where
  "page_fault_handler page_fault_addr regs s = do {
     let current = proc_get_current_proc s;
     s \<leftarrow> upd_proc current (\<lambda>p. p\<lparr>proc_regs := regs\<rparr>) s;
     c \<leftarrow> procs s current;
     if err_code regs AND 4 \<noteq> 0 \<and> err_code regs AND 2 \<noteq> 0 \<and> err_code regs AND 1 \<noteq> 0
     then do {
       let s = page_fault_cow (proc_pdir c) page_fault_addr s;
       c \<leftarrow> procs s current;
       Some (Inr (proc_regs c, s))
     }
     else if err_code regs AND 4 \<noteq> 0
     then do {
       s \<leftarrow> upd_proc current (\<lambda>p. p\<lparr>state := PROCESS_STATE_DEAD\<rparr>) s;
       let s = klog_msg ''Process caused a page fault!'' s;
       (r, s) \<leftarrow> sched_preempt_handler regs s;
       Some (Inr (r, s))
     }
     else Some (Inl (disable_interrupts s))
   }"

subsection \<open>What the memory operations leave alone\<close>

text \<open>The part of the state that the scheduler reasons about.\<close>

definition kview :: "'z kern_scheme \<Rightarrow> (ptr \<rightharpoonup> proc) \<times> ptr \<times> ptr \<times> ptr list \<times> ptr list \<times> t_process list \<times> gen_tree option \<times> ptr set" where
  "kview s = (procs s, current_process s, kernel_process s, ready_queue s, dead_queue s, napping_list s,
              process_tree s, dom (kh_items s))"

lemma kview_sel:
  assumes "kview s' = kview s"
  shows "procs s' = procs s" "current_process s' = current_process s" "kernel_process s' = kernel_process s"
    "ready_queue s' = ready_queue s" "dead_queue s' = dead_queue s" "napping_list s' = napping_list s"
    "process_tree s' = process_tree s" "dom (kh_items s') = dom (kh_items s)"
  using assms by (simp_all add: kview_def)

lemma fold_keep: "(\<And>x s. P (f x s) = P s) \<Longrightarrow> P (fold f xs s) = P s"
  by (induction xs arbitrary: s) auto

lemma kview_set_refcount [simp]: "kview (set_refcount i v s) = kview s"
  by (simp add: kview_def set_refcount_def)

lemma kview_window [simp]: "kview (temp_map_page a s) = kview s" "kview (win_write i v s) = kview s"
  by (simp_all add: kview_def temp_map_page_def win_write_def)

lemma kview_release [simp]:
  "kview (alloc_phys_free a s) = kview s" "kview (alloc_phys_decrease_refcount a s) = kview s"
  "kview (release_frame a s) = kview s"
  by (simp_all add: alloc_phys_free_def alloc_phys_decrease_refcount_def release_frame_def Let_def split: option.split)

lemma kview_nuke [simp]: "kview (nuke_page_directory d s) = kview s"
proof -
  have pte: "kview (nuke_pte j s) = kview s" for j and s :: "'a kern_scheme" by (simp add: nuke_pte_def)
  have pde: "kview (nuke_pde d i s) = kview s" for i and s :: "'a kern_scheme"
    by (simp add: nuke_pde_def Let_def fold_keep[where P = kview, OF pte])
  show ?thesis
    by (simp add: nuke_page_directory_def flush_tlb_def kview_def[of "s\<lparr>cr3 := c\<rparr>" for s c])
       (simp add: fold_keep[where P = kview, OF pde] flip: kview_def)
qed

lemma kern_free_keeps:
  assumes "p - sizeof_kalloc \<in> dom (kh_items s)"
  shows "\<exists>s'. kern_free p s = Some s' \<and> kview s' = kview s"
  using assms by (auto simp: kern_free_def heap_free_def Let_def kview_def)

lemma kview_alloc [simp]: "kview (snd (alloc_phys_page s)) = kview s"
proof -
  have fl: "kview (s\<lparr>free_list := f\<rparr>) = kview s" for f and s :: "'a kern_scheme" by (simp add: kview_def)
  show ?thesis by (auto simp: alloc_phys_page_def fl split: option.split)
qed

lemma kview_map [simp]: "kview (set_page_table_entry d v a b u s) = kview s"
  by (simp add: set_page_table_entry_def win_clear_def fold_keep[where P = kview] Let_def split_def)

lemma kview_increase [simp]: "kview (increase_heap n s) = kview s"
proof -
  have e: "kview (s\<lparr>kh_end := e, allocated_size := z\<rparr>) = kview s" for e z and s :: "'a kern_scheme" by (simp add: kview_def)
  have "kview (increase_heap_page s) = kview s" for s :: "'a kern_scheme"
    by (simp add: increase_heap_page_def split_def Let_def e)
  then have "kview ((increase_heap_page ^^ k) s) = kview s" for k by (induction k) simp_all
  then show ?thesis by (simp add: increase_heap_def)
qed

text \<open>Allocating adds headers to the kernel heap, and leaves the rest of the view alone.\<close>

lemma kern_malloc_keeps:
  assumes "kern_malloc n s = Some (a, s')"
  shows "procs s' = procs s" "current_process s' = current_process s" "kernel_process s' = kernel_process s"
    "ready_queue s' = ready_queue s" "dead_queue s' = dead_queue s" "napping_list s' = napping_list s"
    "process_tree s' = process_tree s" "dom (kh_items s) \<subseteq> dom (kh_items s')"
proof -
  define V where "V s' \<longleftrightarrow> procs s' = procs s \<and> current_process s' = current_process s \<and> kernel_process s' = kernel_process s \<and>
    ready_queue s' = ready_queue s \<and> dead_queue s' = dead_queue s \<and> napping_list s' = napping_list s \<and>
    process_tree s' = process_tree s \<and> dom (kh_items s) \<subseteq> dom (kh_items s')" for s' :: "'a kern_scheme"
  have fin: "V u'" if "heap_finish i u = Some (b, u')" "V u" for i b u u'
    using that by (auto simp: V_def heap_finish_def Let_def split: option.splits)
  have grow: "V (increase_heap m s)" for m using kview_sel[OF kview_increase[of m s]] by (simp add: V_def)
  have same: "V s" by (simp add: V_def)
  have first: "V (s\<lparr>kh_items := (kh_items s)(i \<mapsto> x), kh_head := i\<rparr>)" for i x by (auto simp: V_def)
  have last: "V (u\<lparr>kh_items := (kh_items u)(i \<mapsto> x, j \<mapsto> y)\<rparr>)" if "V u" for i j x y u using that by (auto simp: V_def)
  have reuse: "V (s\<lparr>kh_items := heap_reuse n i k (kh_items s)\<rparr>)" for i k by (auto simp: V_def heap_reuse_def Let_def)
  have "V s'"
  proof (cases "kh_head s = 0")
    case True
    then show ?thesis using assms fin first by (simp add: kern_malloc_def heap_allocate_def Let_def)
  next
    case False
    then obtain i k where ik: "heap_walk (kh_items s) n (kh_head s) = Some i" "kh_items s i = Some k"
      using assms by (auto simp: kern_malloc_def heap_allocate_def Let_def bind_eq_Some_conv)
    show ?thesis
    proof (cases "ka_next k = 0")
      case True
      define u where "u = (if \<not> i + (sizeof_kalloc + ka_size k) + heap_total_size n < kh_end s then increase_heap (heap_total_size n) s else s)"
      have "V u" using grow same by (simp add: u_def)
      then show ?thesis using assms False ik True fin last[OF \<open>V u\<close>]
        by (auto simp: kern_malloc_def heap_allocate_def Let_def simp flip: u_def split: if_splits)
    next
      case nz: False
      then show ?thesis using assms False ik fin reuse by (simp add: kern_malloc_def heap_allocate_def Let_def)
    qed
  qed
  then show "procs s' = procs s" "current_process s' = current_process s" "kernel_process s' = kernel_process s"
    "ready_queue s' = ready_queue s" "dead_queue s' = dead_queue s" "napping_list s' = napping_list s"
    "process_tree s' = process_tree s" "dom (kh_items s) \<subseteq> dom (kh_items s')"
    by (simp_all add: V_def)
qed

subsection \<open>The queue invariant\<close>

abbreviation st :: "(ptr \<rightharpoonup> proc) \<Rightarrow> ptr \<Rightarrow> pstate" where "st P p \<equiv> state (the (P p))"

text \<open>
  \<open>qinv P rq dq r k\<close>: the process \<open>r\<close> runs; it and the members of the ready queue \<open>rq\<close> are different
  processes of the store; the kernel process \<open>k\<close> is one of them and neither sleeps nor is dead; the
  queued processes have the state of their queue. At most 256 processes exist, the bound of the queues.
\<close>

definition qinv :: "(ptr \<rightharpoonup> proc) \<Rightarrow> ptr list \<Rightarrow> ptr list \<Rightarrow> ptr \<Rightarrow> ptr \<Rightarrow> bool" where
  "qinv P rq dq r k \<longleftrightarrow>
     finite (dom P) \<and> card (dom P) \<le> 256 \<and> 0 \<notin> dom P \<and>
     distinct (r # rq) \<and> set (r # rq) \<subseteq> dom P \<and> k \<in> set (r # rq) \<and>
     (\<forall>p\<in>set rq. st P p = PROCESS_STATE_READY) \<and>
     distinct dq \<and> (\<forall>p\<in>set dq. p \<in> dom P \<and> st P p = PROCESS_STATE_DEAD) \<and> r \<notin> set dq \<and>
     st P k \<noteq> PROCESS_STATE_DEAD \<and> st P k \<noteq> PROCESS_STATE_NAPPING"

definition sched_inv :: "'z kern_scheme \<Rightarrow> bool" where
  "sched_inv s \<longleftrightarrow> qinv (procs s) (ready_queue s) (dead_queue s) (current_process s) (kernel_process s) \<and>
     (current_process s = kernel_process s \<longrightarrow> st (procs s) (kernel_process s) = PROCESS_STATE_LIVING)"

text \<open>
  What a dead process needs so that it can be destroyed: it is in the process tree, its blocks on the heap
  have headers, and the processes that wait for it sleep.
\<close>

definition destroyable :: "ptr \<Rightarrow> 'z kern_scheme \<Rightarrow> bool" where
  "destroyable d s \<longleftrightarrow> (\<exists>p t. procs s d = Some p \<and> pid p \<noteq> 1 \<and>
     generic_tree_find_subtree (process_tree s) d = Some t \<and>
     tdata ` set (sub_trees t) \<subseteq> dom (procs s) \<and>
     (\<forall>a\<in>{sys_stack p, ustack_ptr p, d}. a - sizeof_kalloc \<in> dom (kh_items s)) \<and>
     distinct (waiters p) \<and> set (waiters p) \<subseteq> dom (procs s) - {d} \<and>
     (\<forall>w\<in>set (waiters p). st (procs s) w = PROCESS_STATE_NAPPING))"

lemma qinv_ready_room:
  assumes "qinv P rq dq r k"
  shows "length rq < 256"
proof -
  have "card (set (r # rq)) \<le> card (dom P)" using assms by (intro card_mono) (auto simp: qinv_def)
  then have "Suc (length rq) \<le> card (dom P)" using assms by (simp add: qinv_def distinct_card)
  then show ?thesis using assms by (simp add: qinv_def)
qed

text \<open>Changing processes without touching their states keeps the invariant.\<close>

lemma qinv_cong:
  assumes "qinv P rq dq r k" "dom P' = dom P" "\<And>p. st P' p = st P p"
  shows "qinv P' rq dq r k"
  using assms by (simp add: qinv_def)

subsection \<open>Destroying a process keeps the queues right\<close>

lemma wake_one:
  assumes q: "qinv (procs s) (ready_queue s) (dead_queue s) r k" and w: "procs s w = Some p"
    and nap: "state p = PROCESS_STATE_NAPPING"
  shows "\<exists>s1 s'. upd_proc w (set_eax v) s = Some s1 \<and> sched_make_ready w (sched_purge_process w s1) = Some s' \<and>
     s' = s\<lparr>procs := (procs s)(w \<mapsto> (set_eax v p)\<lparr>state := PROCESS_STATE_READY\<rparr>), ready_queue := ready_queue s @ [w]\<rparr>"
proof -
  have n: "w \<notin> set (ready_queue s)" "w \<notin> set (dead_queue s)" "w \<noteq> 0"
    using q w nap by (auto simp: qinv_def)
  have "vq_force_remove w (ready_queue s) = ready_queue s" "vq_force_remove w (dead_queue s) = dead_queue s"
    using n by (auto simp: vq_force_remove_def filter_id_conv)
  then show ?thesis using w n(3) qinv_ready_room[OF q]
    by (simp add: upd_proc_def sched_make_ready_def sched_purge_process_def vq_enqueue_def SCHED_MAX_READY_def)
qed

lemma qinv_wake:
  assumes q: "qinv P rq dq r k" and w: "P w = Some p" and nap: "state p = PROCESS_STATE_NAPPING" and r: "w \<noteq> r"
  shows "qinv (P(w \<mapsto> p'\<lparr>state := PROCESS_STATE_READY\<rparr>)) (rq @ [w]) dq r k"
proof -
  have "w \<notin> set rq" "w \<notin> set dq" "w \<noteq> k" using q w nap by (auto simp: qinv_def)
  moreover have "dom (P(w \<mapsto> p'\<lparr>state := PROCESS_STATE_READY\<rparr>)) = dom P" using w by auto
  ultimately show ?thesis using q r w unfolding qinv_def by auto
qed

lemma wake_waiters_ok:
  assumes "qinv (procs s) (ready_queue s) (dead_queue s) r k" "distinct ws" "set ws \<subseteq> dom (procs s)" "r \<notin> set ws"
    "\<forall>w\<in>set ws. st (procs s) w = PROCESS_STATE_NAPPING"
  shows "\<exists>P. wake_waiters n ws s = Some (s\<lparr>procs := P, ready_queue := ready_queue s @ ws\<rparr>) \<and>
     qinv P (ready_queue s @ ws) (dead_queue s) r k \<and> dom P = dom (procs s) \<and>
     (\<forall>p. p \<notin> set ws \<longrightarrow> P p = procs s p)"
  using assms
proof (induction ws arbitrary: s)
  case Nil
  then show ?case by (intro exI[of _ "procs s"]) simp
next
  case (Cons w ws)
  from Cons.prems obtain p where p: "procs s w = Some p" "state p = PROCESS_STATE_NAPPING" by auto
  let ?s1 = "s\<lparr>procs := (procs s)(w \<mapsto> (set_eax (word_of_int n) p)\<lparr>state := PROCESS_STATE_READY\<rparr>), ready_queue := ready_queue s @ [w]\<rparr>"
  have run: "wake_waiters n (w # ws) s = wake_waiters n ws ?s1"
    using wake_one[OF Cons.prems(1) p, of "word_of_int n"] by auto
  have q1: "qinv (procs ?s1) (ready_queue ?s1) (dead_queue ?s1) r k"
    using qinv_wake[OF Cons.prems(1) p] Cons.prems(4) by auto
  have "set ws \<subseteq> dom (procs ?s1)" "\<forall>w\<in>set ws. st (procs ?s1) w = PROCESS_STATE_NAPPING"
    using Cons.prems by auto
  moreover have "distinct ws" "r \<notin> set ws" using Cons.prems by auto
  ultimately obtain P where
    P: "wake_waiters n ws ?s1 = Some (?s1\<lparr>procs := P, ready_queue := ready_queue ?s1 @ ws\<rparr>)"
    "qinv P (ready_queue ?s1 @ ws) (dead_queue ?s1) r k" "dom P = dom (procs ?s1)"
    "\<forall>p. p \<notin> set ws \<longrightarrow> P p = procs ?s1 p" using Cons.IH[OF q1] by blast
  have "dom P = dom (procs s)" using P(3) p(1) by auto
  moreover have "\<forall>p. p \<notin> set (w # ws) \<longrightarrow> P p = procs s p" using P(4) by simp
  ultimately show ?case using run P(1,2) by (intro exI[of _ P]) simp
qed

lemma reparent_ok:
  assumes "tdata ` set ts \<subseteq> dom (procs s)"
  shows "\<exists>P. reparent par ts s = Some (s\<lparr>procs := P\<rparr>) \<and> dom P = dom (procs s) \<and> (\<forall>p. st P p = st (procs s) p)"
  using assms
proof (induction ts arbitrary: s)
  case Nil
  then show ?case by (intro exI[of _ "procs s"]) simp
next
  case (Cons t ts)
  from Cons.prems obtain c where c: "procs s (tdata t) = Some c" by auto
  let ?s1 = "s\<lparr>procs := (procs s)(tdata t \<mapsto> c\<lparr>parent := par, type := PROCESS_TYPE_STANDALONE\<rparr>)\<rparr>"
  have "tdata ` set ts \<subseteq> dom (procs ?s1)" using Cons.prems by auto
  from Cons.IH[OF this] obtain P where P: "reparent par ts ?s1 = Some (?s1\<lparr>procs := P\<rparr>)" "dom P = dom (procs ?s1)"
    "\<forall>p. st P p = st (procs ?s1) p" by blast
  have "reparent par (t # ts) s = Some (s\<lparr>procs := P\<rparr>)" using c P(1) by (simp add: upd_proc_def)
  moreover have "dom P = dom (procs s)" "\<forall>p. st P p = st (procs s) p" using P(2,3) c by auto
  ultimately show ?case by blast
qed

lemma qinv_remove:
  assumes "qinv P rq dq r k" "d \<noteq> r" "d \<notin> set rq" "d \<notin> set dq"
  shows "qinv (P(d := None)) rq dq r k"
proof -
  have "card (dom P - {d}) \<le> 256" using assms(1) card_mono[of "dom P" "dom P - {d}"] by (auto simp: qinv_def)
  then show ?thesis using assms unfolding qinv_def by auto
qed

lemma proc_destroy_ok:
  assumes q: "qinv (procs s) (ready_queue s) (dead_queue s) r k" and d: "destroyable d s"
    and out: "d \<noteq> r" "d \<notin> set (ready_queue s)" "d \<notin> set (dead_queue s)" and run: "st (procs s) r \<noteq> PROCESS_STATE_NAPPING"
  shows "\<exists>s' ws. proc_destroy d s = Some s' \<and> d \<notin> dom (procs s') \<and> kernel_process s' = kernel_process s \<and>
     ready_queue s' = ready_queue s @ ws \<and> dead_queue s' = dead_queue s \<and>
     qinv (procs s') (ready_queue s') (dead_queue s') r k \<and>
     (\<forall>p. p \<notin> set ws \<longrightarrow> p \<noteq> d \<longrightarrow> p \<in> dom (procs s') \<longleftrightarrow> p \<in> dom (procs s))"
proof -
  from d obtain p t where p: "procs s d = Some p" "pid p \<noteq> 1" "generic_tree_find_subtree (process_tree s) d = Some t"
    "tdata ` set (sub_trees t) \<subseteq> dom (procs s)" "distinct (waiters p)" "set (waiters p) \<subseteq> dom (procs s) - {d}"
    "\<forall>w\<in>set (waiters p). st (procs s) w = PROCESS_STATE_NAPPING"
    and heap: "sys_stack p - sizeof_kalloc \<in> dom (kh_items s)" "ustack_ptr p - sizeof_kalloc \<in> dom (kh_items s)"
      "d - sizeof_kalloc \<in> dom (kh_items s)"
    unfolding destroyable_def by (elim exE conjE) simp
  have "r \<notin> set (waiters p)" using p(7) run by auto
  with wake_waiters_ok[OF q p(5) _ _ p(7)] p(6) obtain P where
    w: "wake_waiters (pid p) (waiters p) s = Some (s\<lparr>procs := P, ready_queue := ready_queue s @ waiters p\<rparr>)" (is "_ = Some ?s1")
    "qinv P (ready_queue s @ waiters p) (dead_queue s) r k" "dom P = dom (procs s)" by blast
  have k1: "dom (kh_items ?s1) = dom (kh_items s)" by simp
  obtain s2 where s2: "kern_free (sys_stack p) ?s1 = Some s2" "kview s2 = kview ?s1"
    using kern_free_keeps[of "sys_stack p" ?s1] heap k1 by auto
  note v2 = kview_sel[OF s2(2)]
  have t2: "generic_tree_find_subtree (process_tree s2) d = Some t" "tdata ` set (sub_trees t) \<subseteq> dom (procs s2)"
    using p(3,4) w(3) by (simp_all add: v2)
  obtain P3 where r3: "reparent (parent p) (sub_trees t) s2 = Some (s2\<lparr>procs := P3\<rparr>)" "dom P3 = dom (procs s2)"
    "\<forall>x. st P3 x = st (procs s2) x" using reparent_ok[OF t2(2)] by blast
  define s3 where "s3 = s2\<lparr>procs := P3, process_tree := map_option (tree_splice (parent p) d (sub_trees t)) (process_tree s2)\<rparr>"
  have h3: "dom (kh_items s3) = dom (kh_items s)" by (simp add: s3_def v2)
  obtain s4 where s4: "kern_free (ustack_ptr p) s3 = Some s4" "kview s4 = kview s3"
    using kern_free_keeps[of "ustack_ptr p" s3] heap h3 by auto
  let ?s5 = "nuke_page_directory (proc_pdir p) s4"
  have v5: "kview ?s5 = kview s3" using s4(2) by simp
  obtain s6 where s6: "kern_free d ?s5 = Some s6" "kview s6 = kview ?s5"
    using kern_free_keeps[of d ?s5] heap h3 kview_sel(8)[OF v5] by auto
  let ?s' = "s6\<lparr>procs := (procs s6)(d := None)\<rparr>"
  note v6 = kview_sel[OF trans[OF s6(2) v5]]
  have "proc_destroy d s = Some ?s'"
    using p(1,2) w(1) s2(1) t2(1) r3(1) s4(1) s6(1) by (simp add: proc_destroy_def Let_def s3_def)
  moreover have "qinv P3 (ready_queue s @ waiters p) (dead_queue s) r k"
    by (rule qinv_cong[OF w(2)]) (use r3(2,3) in \<open>simp_all add: v2\<close>)
  then have "qinv (P3(d := None)) (ready_queue s @ waiters p) (dead_queue s) r k"
    by (rule qinv_remove) (use out p(6) in auto)
  moreover have "procs s6 = P3" "ready_queue s6 = ready_queue s @ waiters p" "dead_queue s6 = dead_queue s"
    "kernel_process s6 = kernel_process s" by (simp_all add: v6 s3_def v2)
  moreover have "dom P3 = dom (procs s)" using r3(2) w(3) by (simp add: v2)
  ultimately show ?thesis by (intro exI[of _ ?s'] exI[of _ "waiters p"]) auto
qed

subsection \<open>Switching never faults and keeps the invariant\<close>

lemma qinv_requeue:
  assumes q: "qinv P rq dq c k" and p: "P c = Some p" and live: "state p = PROCESS_STATE_LIVING"
  obtains n rest where "rq @ [c] = n # rest" "qinv (P(c \<mapsto> p\<lparr>state := PROCESS_STATE_READY\<rparr>)) rest dq n k"
proof -
  obtain n rest where n: "rq @ [c] = n # rest" by (cases "rq @ [c]") auto
  let ?P = "P(c \<mapsto> p\<lparr>state := PROCESS_STATE_READY\<rparr>)"
  have dom: "dom ?P = dom P" using p by auto
  have set: "set (n # rest) = set (c # rq)" "distinct (n # rest)" unfolding n[symmetric] using q by (auto simp: qinv_def)
  have ready: "\<forall>x\<in>set (n # rest). st ?P x = PROCESS_STATE_READY" unfolding set(1) using q by (auto simp: qinv_def)
  have "c \<notin> set dq" using q by (simp add: qinv_def)
  moreover have "n \<in> set (c # rq)" using set(1) by auto
  ultimately have "n \<notin> set dq" using q by (auto simp: qinv_def)
  have k: "k \<in> set (n # rest)" using q set(1) by (simp add: qinv_def)
  have "qinv ?P rest dq n k" unfolding qinv_def dom
  proof (intro conjI)
    show "\<forall>x\<in>set dq. x \<in> dom P \<and> st ?P x = PROCESS_STATE_DEAD" using q \<open>c \<notin> set dq\<close> by (auto simp: qinv_def)
    show "st ?P k \<noteq> PROCESS_STATE_DEAD" "st ?P k \<noteq> PROCESS_STATE_NAPPING" using ready k by auto
  qed (use q set ready k \<open>n \<notin> set dq\<close> in \<open>auto simp: qinv_def\<close>)
  with n that show ?thesis by blast
qed

lemma qinv_dead_tail:
  assumes "qinv P rq dq r k"
  shows "qinv P rq (snd (vq_dequeue dq)) r k"
  using assms by (cases dq) (auto simp: qinv_def)

lemma qinv_next:
  assumes q: "qinv P rq dq c k" and c: "c \<noteq> k"
  obtains n rest where "rq = n # rest" "qinv P rest dq n k"
proof -
  from assms obtain n rest where n: "rq = n # rest" by (cases rq) (auto simp: qinv_def)
  then have "qinv P rest dq n k" using q c by (auto simp: qinv_def)
  with n that show ?thesis by blast
qed

lemma qinv_make_dead:
  assumes q: "qinv P rq dq r k" and c: "P c = Some p" "state p = PROCESS_STATE_DEAD" "c \<noteq> r" "c \<notin> set dq"
  shows "qinv (P(c \<mapsto> p\<lparr>state := PROCESS_STATE_DEAD\<rparr>)) rq (vq_enqueue lim c dq) r k"
proof -
  have "P(c \<mapsto> p\<lparr>state := PROCESS_STATE_DEAD\<rparr>) = P" using c by auto
  then show ?thesis using q c by (auto simp: qinv_def vq_enqueue_def)
qed

lemma destroyable_requeue:
  assumes d: "destroyable d s" and c: "procs s c = Some p" "state p = PROCESS_STATE_LIVING" "c \<noteq> d"
  shows "destroyable d (s\<lparr>procs := (procs s)(c \<mapsto> p\<lparr>state := PROCESS_STATE_READY\<rparr>), ready_queue := rq, dead_queue := dq\<rparr>)"
proof -
  from d[unfolded destroyable_def] obtain x t where x: "procs s d = Some x" "pid x \<noteq> 1"
     "generic_tree_find_subtree (process_tree s) d = Some t" "tdata ` set (sub_trees t) \<subseteq> dom (procs s)"
     "\<forall>a\<in>{sys_stack x, ustack_ptr x, d}. a - sizeof_kalloc \<in> dom (kh_items s)"
     "distinct (waiters x)" "set (waiters x) \<subseteq> dom (procs s) - {d}"
     "\<forall>w\<in>set (waiters x). st (procs s) w = PROCESS_STATE_NAPPING" by (elim exE conjE) blast
  have "c \<notin> set (waiters x)" using x(8) c by auto
  then show ?thesis unfolding destroyable_def
    by (intro exI[of _ x] exI[of _ t]) (use x c in auto)
qed

text \<open>The part of \<open>sched_get_next\<close> up to the choice of the next process.\<close>

lemma sched_pick:
  assumes inv: "sched_inv s" and c: "c = current_process s" "procs s c = Some p"
  obtains s1 n rest where
    "(if state p = PROCESS_STATE_LIVING then sched_make_ready c s else Some s) = Some s1"
    "ready_queue s1 = n # rest" "qinv (procs s1) rest (dead_queue s) n (kernel_process s)"
    "s1 = s\<lparr>procs := procs s1, ready_queue := ready_queue s1\<rparr>" "c \<noteq> kernel_process s \<Longrightarrow> state p \<noteq> PROCESS_STATE_LIVING \<Longrightarrow> c \<notin> set (n # rest)"
    "state p = PROCESS_STATE_LIVING \<Longrightarrow> procs s1 = (procs s)(c \<mapsto> p\<lparr>state := PROCESS_STATE_READY\<rparr>) \<and> ready_queue s1 = ready_queue s @ [c]"
    "state p \<noteq> PROCESS_STATE_LIVING \<Longrightarrow> s1 = s \<and> c \<noteq> kernel_process s"
proof (cases "state p = PROCESS_STATE_LIVING")
  case True
  have q: "qinv (procs s) (ready_queue s) (dead_queue s) c (kernel_process s)" using inv c by (simp add: sched_inv_def)
  have "c \<noteq> 0" using q c by (auto simp: qinv_def)
  then have mk: "sched_make_ready c s = Some (s\<lparr>procs := (procs s)(c \<mapsto> p\<lparr>state := PROCESS_STATE_READY\<rparr>), ready_queue := ready_queue s @ [c]\<rparr>)"
    using c(2) qinv_ready_room[OF q] by (simp add: sched_make_ready_def upd_proc_def vq_enqueue_def SCHED_MAX_READY_def)
  obtain n rest where n: "ready_queue s @ [c] = n # rest"
    "qinv ((procs s)(c \<mapsto> p\<lparr>state := PROCESS_STATE_READY\<rparr>)) rest (dead_queue s) n (kernel_process s)"
    by (rule qinv_requeue[OF q c(2) True])
  show ?thesis
    by (rule that[of "s\<lparr>procs := (procs s)(c \<mapsto> p\<lparr>state := PROCESS_STATE_READY\<rparr>), ready_queue := ready_queue s @ [c]\<rparr>" n rest])
      (use True mk n in simp_all)
next
  case False
  have q: "qinv (procs s) (ready_queue s) (dead_queue s) c (kernel_process s)" using inv c by (simp add: sched_inv_def)
  have ck: "c \<noteq> kernel_process s" using inv c False by (auto simp: sched_inv_def)
  obtain n rest where n: "ready_queue s = n # rest" "qinv (procs s) rest (dead_queue s) n (kernel_process s)"
    by (rule qinv_next[OF q ck])
  show ?thesis by (rule that[of s n rest]) (use False n q ck in \<open>simp_all add: qinv_def\<close>)
qed

lemma sched_get_next_ok:
  assumes inv: "sched_inv s" and c: "c = current_process s" "procs s c = Some p"
    and dest: "c = kernel_process s \<Longrightarrow> dead_queue s \<noteq> [] \<Longrightarrow> destroyable (hd (dead_queue s)) s"
  shows "\<exists>n s'. sched_get_next c s = Some (n, s') \<and> kernel_process s' = kernel_process s \<and>
     qinv (procs s') (ready_queue s') (dead_queue s') n (kernel_process s) \<and>
     n = hd (ready_queue s @ (if state p = PROCESS_STATE_LIVING then [c] else []))"
proof -
  obtain s1 n rest where s1: "(if state p = PROCESS_STATE_LIVING then sched_make_ready c s else Some s) = Some s1"
    "ready_queue s1 = n # rest" "qinv (procs s1) rest (dead_queue s) n (kernel_process s)"
    "s1 = s\<lparr>procs := procs s1, ready_queue := ready_queue s1\<rparr>"
    "c \<noteq> kernel_process s \<Longrightarrow> state p \<noteq> PROCESS_STATE_LIVING \<Longrightarrow> c \<notin> set (n # rest)"
    "state p = PROCESS_STATE_LIVING \<Longrightarrow> procs s1 = (procs s)(c \<mapsto> p\<lparr>state := PROCESS_STATE_READY\<rparr>) \<and> ready_queue s1 = ready_queue s @ [c]"
    "state p \<noteq> PROCESS_STATE_LIVING \<Longrightarrow> s1 = s \<and> c \<noteq> kernel_process s"
    by (rule sched_pick[OF inv c]) blast
  let ?k = "kernel_process s" and ?s2 = "s1\<lparr>ready_queue := rest, dead_queue := snd (vq_dequeue (dead_queue s))\<rparr>"
  have n: "n = hd (ready_queue s @ (if state p = PROCESS_STATE_LIVING then [c] else []))"
    using s1(2,6,7) by (cases "state p = PROCESS_STATE_LIVING") (force dest: arg_cong[of _ _ hd])+
  have dq: "dead_queue s1 = dead_queue s" and k1: "kernel_process s1 = ?k" by (subst s1(4), simp)+
  have q2: "qinv (procs s1) rest (snd (vq_dequeue (dead_queue s))) n ?k" by (rule qinv_dead_tail[OF s1(3)])
  have run: "sched_get_next c s = do {
      s \<leftarrow> (if fst (vq_dequeue (dead_queue s)) \<noteq> 0 \<and> c = ?k then proc_destroy (fst (vq_dequeue (dead_queue s))) ?s2 else Some ?s2);
      c' \<leftarrow> procs s c;
      s \<leftarrow> (if state c' = PROCESS_STATE_DEAD then sched_make_dead c s else Some s);
      Some (n, s) }"
    using c(2) s1(1,2) by (simp add: sched_get_next_def sched_get_ready_def sched_get_dead_def dq k1 split_def Let_def)
  show ?thesis
  proof (cases "c = ?k")
    case True
    then have live: "state p = PROCESS_STATE_LIVING" using s1(7) by auto
    have fin: "sched_get_next c s = Some (n, s')"
      if "(if fst (vq_dequeue (dead_queue s)) \<noteq> 0 \<and> c = ?k then proc_destroy (fst (vq_dequeue (dead_queue s))) ?s2 else Some ?s2) = Some s'"
        "qinv (procs s') (ready_queue s') (dead_queue s') n ?k" for s'
    proof -
      have "\<exists>x. procs s' c = Some x \<and> state x \<noteq> PROCESS_STATE_DEAD" using that(2) True by (auto simp: qinv_def)
      then show ?thesis using run that(1) by auto
    qed
    show ?thesis
    proof (cases "dead_queue s")
      case Nil
      then have "qinv (procs ?s2) (ready_queue ?s2) (dead_queue ?s2) n ?k" using q2 by simp
      then show ?thesis using fin[of ?s2] Nil n k1 by (intro exI[of _ n] exI[of _ ?s2]) simp
    next
      case (Cons d ds)
      have q: "qinv (procs s1) (ready_queue ?s2) (dead_queue ?s2) n ?k" using q2 by simp
      have s1_eq: "?s2 = s\<lparr>procs := (procs s)(c \<mapsto> p\<lparr>state := PROCESS_STATE_READY\<rparr>), ready_queue := rest, dead_queue := ds\<rparr>"
        by (subst s1(4)) (use s1(6) live Cons in simp)
      have dead: "st (procs s1) d = PROCESS_STATE_DEAD" "d \<in> dom (procs s1)" "d \<notin> set ds" "d \<noteq> n" "d \<notin> set rest"
        using s1(3) Cons by (auto simp: qinv_def)
      have "n \<in> set (ready_queue s @ [c])" using s1(2,6) live by (metis list.set_intros(1))
      then have ready: "st (procs s1) n = PROCESS_STATE_READY" using s1(6) live inv c by (auto simp: sched_inv_def qinv_def)
      have "c \<noteq> d" using inv c Cons by (auto simp: sched_inv_def qinv_def)
      then have d: "destroyable d ?s2" unfolding s1_eq
        using destroyable_requeue[OF _ c(2) live] dest[OF True] Cons by simp
      have q': "qinv (procs ?s2) (ready_queue ?s2) (dead_queue ?s2) n ?k" using q by simp
      obtain s' where s': "proc_destroy d ?s2 = Some s'" "kernel_process s' = ?k"
        "qinv (procs s') (ready_queue s') (dead_queue s') n ?k"
        using proc_destroy_ok[OF q' d] dead Cons ready k1 by fastforce
      have "d \<noteq> 0" using dead(2) s1(3) by (auto simp: qinv_def)
      then have "sched_get_next c s = Some (n, s')" using fin[OF _ s'(3)] Cons True s'(1) by simp
      then show ?thesis using s'(2,3) n by blast
    qed
  next
    case False
    have no: "c \<notin> set (snd (vq_dequeue (dead_queue s)))"
      using inv c by (cases "dead_queue s") (auto simp: sched_inv_def qinv_def)
    show ?thesis
    proof (cases "state p = PROCESS_STATE_DEAD")
      case dead: True
      then have "procs s1 c = Some p" "c \<noteq> n" using s1(5,7) False c by auto
      moreover have "qinv ((procs s1)(c \<mapsto> p\<lparr>state := PROCESS_STATE_DEAD\<rparr>)) rest (vq_enqueue SCHED_MAX_DEAD c (snd (vq_dequeue (dead_queue s)))) n ?k"
        by (rule qinv_make_dead[OF q2 calculation(1) dead calculation(2) no])
      ultimately show ?thesis using run dead False n k1 by (simp add: sched_make_dead_def upd_proc_def)
    next
      case alive: False
      have "\<exists>x. procs s1 c = Some x \<and> state x \<noteq> PROCESS_STATE_DEAD"
        using alive s1(6,7) c by (cases "state p = PROCESS_STATE_LIVING") auto
      then show ?thesis using run False n k1 q2 by auto
    qed
  qed
qed

text \<open>Saving the registers and the floating point state of the current process changes neither states nor queues.\<close>

lemma save_current:
  fixes regs :: registers and s :: "'z kern_scheme"
  assumes inv: "sched_inv s" and p: "procs s (current_process s) = Some p"
    and dest: "current_process s = kernel_process s \<Longrightarrow> dead_queue s \<noteq> [] \<Longrightarrow> destroyable (hd (dead_queue s)) s"
  defines "s0 \<equiv> s\<lparr>procs := (procs s)(current_process s \<mapsto> p\<lparr>proc_regs := regs, fpu_regs := fpu_state s\<rparr>)\<rparr>"
  shows "do { s1 \<leftarrow> upd_proc (current_process s) (\<lambda>p. p\<lparr>proc_regs := regs\<rparr>) s; fpu_save (current_process s) s1 } = Some s0"
    and "sched_inv s0"
    and "current_process s = kernel_process s \<Longrightarrow> dead_queue s \<noteq> [] \<Longrightarrow> destroyable (hd (dead_queue s)) s0"
proof -
  show "do { s1 \<leftarrow> upd_proc (current_process s) (\<lambda>p. p\<lparr>proc_regs := regs\<rparr>) s; fpu_save (current_process s) s1 } = Some s0"
    using p by (simp add: upd_proc_def fpu_save_def s0_def)
  have st: "st (procs s0) x = st (procs s) x" for x using p by (simp add: s0_def)
  have dom: "dom (procs s0) = dom (procs s)" using p by (auto simp: s0_def)
  have "qinv (procs s0) (ready_queue s) (dead_queue s) (current_process s) (kernel_process s)"
    by (rule qinv_cong[OF _ dom st]) (use inv in \<open>simp add: sched_inv_def\<close>)
  then show "sched_inv s0" using inv p by (auto simp: sched_inv_def s0_def)
  assume *: "current_process s = kernel_process s" "dead_queue s \<noteq> []"
  then have "hd (dead_queue s) \<noteq> current_process s" using inv by (cases "dead_queue s") (auto simp: sched_inv_def qinv_def)
  then have "procs s0 (hd (dead_queue s)) = procs s (hd (dead_queue s))" by (simp add: s0_def)
  moreover have "process_tree s0 = process_tree s" "kh_items s0 = kh_items s" by (simp_all add: s0_def)
  ultimately show "destroyable (hd (dead_queue s)) s0" using dest[OF *] by (simp add: destroyable_def st dom)
qed

lemma sched_preempt_ok:
  assumes inv: "sched_inv s"
    and dest: "current_process s = kernel_process s \<Longrightarrow> dead_queue s \<noteq> [] \<Longrightarrow> destroyable (hd (dead_queue s)) s"
  shows "\<exists>r s'. sched_preempt_handler regs s = Some (r, s') \<and> sched_inv s' \<and> kernel_process s' = kernel_process s \<and>
     current_process s' = hd (ready_queue s @
       (if st (procs s) (current_process s) = PROCESS_STATE_LIVING then [current_process s] else [])) \<and>
     (\<exists>n. procs s' (current_process s') = Some n \<and> state n = PROCESS_STATE_LIVING \<and> r = proc_regs n \<and>
        cr3 s' = proc_pdir n \<and> fpu_state s' = fpu_regs n \<and>
        (cpl n = PROCESS_PRV_USER \<longrightarrow> ss0 (tss_table s') = 0x10 \<and> esp0 (tss_table s') = sys_stack n + 0x2000))"
proof -
  obtain p where p: "procs s (current_process s) = Some p" using inv by (auto simp: sched_inv_def qinv_def)
  define s0 where "s0 = s\<lparr>procs := (procs s)(current_process s \<mapsto> p\<lparr>proc_regs := regs, fpu_regs := fpu_state s\<rparr>)\<rparr>"
  note s0 = save_current[OF inv p dest, of regs, folded s0_def]
  have cur: "current_process s0 = current_process s" "kernel_process s0 = kernel_process s" "dead_queue s0 = dead_queue s"
    "ready_queue s0 = ready_queue s" "procs s0 (current_process s) = Some (p\<lparr>proc_regs := regs, fpu_regs := fpu_state s\<rparr>)"
    by (simp_all add: s0_def)
  obtain n s1 where s1: "sched_get_next (current_process s) s0 = Some (n, s1)" "kernel_process s1 = kernel_process s"
    "qinv (procs s1) (ready_queue s1) (dead_queue s1) n (kernel_process s)"
    "n = hd (ready_queue s @ (if state p = PROCESS_STATE_LIVING then [current_process s] else []))"
    using sched_get_next_ok[OF s0(2) cur(1)[symmetric] cur(5)] s0(3) cur by auto
  obtain q where q: "procs s1 n = Some q" using s1(3) by (auto simp: qinv_def)
  define s2 where "s2 = (if cpl q = PROCESS_PRV_USER
              then s1\<lparr>tss_table := (tss_table s1)\<lparr>ss0 := 0x10, esp0 := sys_stack q + 4096 * of_nat PROCESS_SYS_STACK_PAGES\<rparr>\<rparr>
              else s1)"
  have s2: "procs s2 = procs s1" "ready_queue s2 = ready_queue s1" "dead_queue s2 = dead_queue s1" "kernel_process s2 = kernel_process s1"
    "cpl q = PROCESS_PRV_USER \<Longrightarrow> ss0 (tss_table s2) = 0x10 \<and> esp0 (tss_table s2) = sys_stack q + 0x2000"
    by (simp_all add: s2_def PROCESS_SYS_STACK_PAGES_def)
  let ?q = "q\<lparr>state := PROCESS_STATE_LIVING\<rparr>"
  let ?s' = "s2\<lparr>page_directory := proc_pdir q, cr3 := proc_pdir q, procs := (procs s1)(n \<mapsto> ?q), current_process := n, fpu_state := fpu_regs q\<rparr>"
  have run: "sched_preempt_handler regs s = Some (proc_regs q, ?s')"
  proof -
    obtain s01 where "upd_proc (current_process s) (\<lambda>p. p\<lparr>proc_regs := regs\<rparr>) s = Some s01" "fpu_save (current_process s) s01 = Some s0"
      using s0(1) by (auto simp: bind_eq_Some_conv)
    moreover have "upd_proc n (\<lambda>p. p\<lparr>state := PROCESS_STATE_LIVING\<rparr>) (swap_page_directory (proc_pdir q) s2) =
      Some (s2\<lparr>page_directory := proc_pdir q, cr3 := proc_pdir q, procs := (procs s1)(n \<mapsto> ?q)\<rparr>)"
      using q by (simp add: upd_proc_def swap_page_directory_def s2)
    ultimately show ?thesis using s1(1) q
      by (simp add: sched_preempt_handler_def proc_get_current_proc_def Let_def s2_def[symmetric]
          proc_set_current_proc_def fpu_reload_def)
  qed
  have "qinv ((procs s1)(n \<mapsto> ?q)) (ready_queue s1) (dead_queue s1) n (kernel_process s)"
    using s1(3) q by (auto simp: qinv_def insert_absorb)
  moreover have "n = kernel_process s \<Longrightarrow> st (procs ?s') n = PROCESS_STATE_LIVING" by simp
  ultimately have "sched_inv ?s'" by (auto simp: sched_inv_def s1(2) s2)
  then show ?thesis using run s1(2,4) s2 p by (intro exI[of _ "proc_regs q"] exI[of _ ?s']) simp
qed

subsection \<open>Sleeping\<close>

text \<open>
  The entries of the napping list belong to different sleeping processes, none of them running, and each entry
  is a block of the kernel heap.
\<close>

definition napping_ok :: "t_process list \<Rightarrow> 'z kern_scheme \<Rightarrow> bool" where
  "napping_ok ts s \<longleftrightarrow> distinct (map tp_process ts) \<and> current_process s \<notin> tp_process ` set ts \<and>
     (\<forall>t\<in>set ts. tp_process t \<in> dom (procs s) \<and> st (procs s) (tp_process t) = PROCESS_STATE_NAPPING \<and>
        tp_addr t - sizeof_kalloc \<in> dom (kh_items s))"

lemma sched_inv_kview: "kview s' = kview s \<Longrightarrow> sched_inv s' = sched_inv s"
  by (simp add: sched_inv_def kview_def)

lemma make_ready_napper:
  assumes inv: "sched_inv s" and t: "procs s w = Some p" "state p = PROCESS_STATE_NAPPING" "w \<noteq> current_process s"
  shows "sched_make_ready w s = Some (s\<lparr>procs := (procs s)(w \<mapsto> p\<lparr>state := PROCESS_STATE_READY\<rparr>), ready_queue := ready_queue s @ [w]\<rparr>)"
    and "sched_inv (s\<lparr>procs := (procs s)(w \<mapsto> p\<lparr>state := PROCESS_STATE_READY\<rparr>), ready_queue := ready_queue s @ [w]\<rparr>)"
proof -
  have q: "qinv (procs s) (ready_queue s) (dead_queue s) (current_process s) (kernel_process s)"
    using inv by (simp add: sched_inv_def)
  have "w \<noteq> 0" using q t by (auto simp: qinv_def)
  then show "sched_make_ready w s = Some (s\<lparr>procs := (procs s)(w \<mapsto> p\<lparr>state := PROCESS_STATE_READY\<rparr>), ready_queue := ready_queue s @ [w]\<rparr>)"
    using t(1) qinv_ready_room[OF q] by (simp add: sched_make_ready_def upd_proc_def vq_enqueue_def SCHED_MAX_READY_def)
  show "sched_inv (s\<lparr>procs := (procs s)(w \<mapsto> p\<lparr>state := PROCESS_STATE_READY\<rparr>), ready_queue := ready_queue s @ [w]\<rparr>)"
    using qinv_wake[OF q t(1,2), of p] t(3) inv by (auto simp: sched_inv_def)
qed

text \<open>
  One tick: the processes whose counter reaches zero become ready, in the order of the list, the other counters
  drop by one, and the invariant is kept.
\<close>

lemma tick_nappers_ok:
  assumes "sched_inv s" "napping_ok ts s"
  shows "\<exists>s'. tick_nappers ts s = Some (map (\<lambda>t. t\<lparr>tp_counter := tp_counter t - 1\<rparr>) (filter (\<lambda>t. 0 < sint (tp_counter t - 1)) ts), s') \<and>
     sched_inv s' \<and> ready_queue s' = ready_queue s @ map tp_process (filter (\<lambda>t. sint (tp_counter t - 1) \<le> 0) ts) \<and>
     current_process s' = current_process s \<and> dead_queue s' = dead_queue s"
  using assms
proof (induction ts arbitrary: s)
  case Nil
  then show ?case by simp
next
  case (Cons t ts)
  show ?case
  proof (cases "0 < sint (tp_counter t - 1)")
    case True
    have "napping_ok ts s" using Cons.prems(2) by (simp add: napping_ok_def)
    from Cons.IH[OF Cons.prems(1) this] show ?thesis using True by fastforce
  next
    case False
    from Cons.prems(2) obtain p where p: "procs s (tp_process t) = Some p" "state p = PROCESS_STATE_NAPPING"
      "tp_process t \<noteq> current_process s" by (auto simp: napping_ok_def)
    define s1 where "s1 = s\<lparr>procs := (procs s)(tp_process t \<mapsto> p\<lparr>state := PROCESS_STATE_READY\<rparr>), ready_queue := ready_queue s @ [tp_process t]\<rparr>"
    note mk = make_ready_napper[OF Cons.prems(1) p, folded s1_def]
    have "tp_addr t - sizeof_kalloc \<in> dom (kh_items s1)" using Cons.prems(2) by (simp add: napping_ok_def s1_def)
    from kern_free_keeps[OF this] obtain s2 where s2: "kern_free (tp_addr t) s1 = Some s2" "kview s2 = kview s1" by blast
    have "napping_ok ts s1" using Cons.prems(2) p by (auto simp: napping_ok_def s1_def rev_image_eqI)
    then have "napping_ok ts s2" using kview_sel[OF s2(2)] by (simp add: napping_ok_def)
    moreover have "sched_inv s2" using mk(2) sched_inv_kview[OF s2(2)] by simp
    ultimately obtain s' where "tick_nappers ts s2 = Some (map (\<lambda>t. t\<lparr>tp_counter := tp_counter t - 1\<rparr>) (filter (\<lambda>t. 0 < sint (tp_counter t - 1)) ts), s')"
      "sched_inv s'" "ready_queue s' = ready_queue s2 @ map tp_process (filter (\<lambda>t. sint (tp_counter t - 1) \<le> 0) ts)"
      "current_process s' = current_process s2" "dead_queue s' = dead_queue s2" using Cons.IH by blast
    then show ?thesis using False mk(1) s2(1) kview_sel[OF s2(2)] by (intro exI[of _ s']) (simp add: s1_def)
  qed
qed

text \<open>A process that is put to sleep leaves the ready queue, and its entry goes to the end of the napping list.\<close>

lemma sched_make_napping_ok:
  assumes inv: "sched_inv s" and p: "procs s w = Some p" "state p = PROCESS_STATE_READY" "w \<noteq> current_process s" "w \<noteq> kernel_process s"
    and run: "sched_make_napping w n s = Some s'"
  shows "sched_inv s' \<and> w \<notin> set (ready_queue s') \<and> st (procs s') w = PROCESS_STATE_NAPPING \<and>
     (\<exists>a. napping_list s' = napping_list s @ [\<lparr>tp_addr = a, tp_process = w, tp_counter = n\<rparr>])"
proof -
  have q: "qinv (procs s) (ready_queue s) (dead_queue s) (current_process s) (kernel_process s)"
    using inv by (simp add: sched_inv_def)
  have w: "w \<noteq> 0" "w \<notin> set (dead_queue s)" using q p by (auto simp: qinv_def)
  let ?P = "(procs s)(w \<mapsto> p\<lparr>state := PROCESS_STATE_NAPPING\<rparr>)" and ?rq = "filter (\<lambda>x. x \<noteq> w) (ready_queue s)"
  have dq: "filter (\<lambda>x. x \<noteq> w) (dead_queue s) = dead_queue s" using w by (auto simp: filter_id_conv)
  have q': "qinv ?P ?rq (dead_queue s) (current_process s) (kernel_process s)"
    using q p(1,3,4) w domI[of "procs s" w, OF p(1)] by (auto simp: qinv_def insert_absorb)
  define s1 where "s1 = s\<lparr>ready_queue := ?rq, procs := ?P\<rparr>"
  from run obtain a s2 where s2: "kern_malloc sizeof_t_process s1 = Some (a, s2)"
    "s' = s2\<lparr>napping_list := napping_list s2 @ [\<lparr>tp_addr = a, tp_process = w, tp_counter = n\<rparr>]\<rparr>"
    using p w dq by (auto simp: sched_make_napping_def sched_purge_process_def vq_force_remove_def upd_proc_def s1_def
        bind_eq_Some_conv Let_def split: if_splits)
  note keep = kern_malloc_keeps[OF s2(1)]
  show ?thesis using q' inv p(3,4) by (auto simp: s2(2) keep sched_inv_def s1_def)
qed

end
