(* ===== verification/Kstring.thy ===== *)
theory Kstring
  imports Scheduler
begin

text \<open>
  The kernel's string functions, \<^verbatim>\<open>kernel/util/string.c\<close>. A C string that is only read is the list of its
  characters before the terminator, and a pointer into it is the suffix it points to. A destination is a
  buffer, the list of its bytes: writing past its end is a fault (\<open>None\<close>), and so is reading past it.
\<close>

definition NUL :: char where "NUL = CHR 0x00"

definition cstring :: "string \<Rightarrow> bool" where
  "cstring s \<longleftrightarrow> NUL \<notin> set s"

subsection \<open>Reading strings\<close>

fun strlen :: "string \<Rightarrow> int" where
  "strlen [] = 0"
| "strlen (c # cs) = strlen cs + 1"

text \<open>The end of a string reads as the terminator, which differs from every character.\<close>

fun strcmp :: "string \<Rightarrow> string \<Rightarrow> int" where
  "strcmp [] [] = 0"
| "strcmp [] (d # ds) = 1"
| "strcmp (c # cs) [] = 1"
| "strcmp (c # cs) (d # ds) = (if c \<noteq> d then 1 else strcmp cs ds)"

definition first_char :: "string \<Rightarrow> char" where
  "first_char s = (case s of [] \<Rightarrow> NUL | c # cs \<Rightarrow> c)"

fun strncmp :: "string \<Rightarrow> string \<Rightarrow> nat \<Rightarrow> int" where
  "strncmp s t 0 = 0"
| "strncmp s t (Suc n) =
     (let a = of_char (first_char s) :: nat; b = of_char (first_char t) :: nat
      in if a < b then -1 else if b < a then 1 else if a = 0 then 0 else strncmp (tl s) (tl t) n)"

fun strchr :: "string \<Rightarrow> char \<Rightarrow> string option" where
  "strchr [] c = (if c = NUL then Some [] else None)"
| "strchr (d # ds) c = (if d = c then Some (d # ds) else strchr ds c)"

fun strrchr :: "string \<Rightarrow> char \<Rightarrow> string option" where
  "strrchr [] c = (if c = NUL then Some [] else None)"
| "strrchr (d # ds) c =
     (case strrchr ds c of Some r \<Rightarrow> Some r | None \<Rightarrow> if d = c then Some (d # ds) else None)"

fun strcspn :: "string \<Rightarrow> string \<Rightarrow> nat" where
  "strcspn [] t = 0"
| "strcspn (c # cs) t = (if strchr t c \<noteq> None then 0 else strcspn cs t + 1)"

fun strspn :: "string \<Rightarrow> string \<Rightarrow> nat" where
  "strspn [] t = 0"
| "strspn (c # cs) t = (if strchr t c \<noteq> None then strspn cs t + 1 else 0)"

text \<open>
  \<open>strtok\<close> with its static variable \<open>stored_string\<close>: \<open>None\<close> as the argument is the null pointer. The result
  is the token and the new value of the static variable.
\<close>

fun skip_delims :: "string \<Rightarrow> string \<Rightarrow> string option" where
  "skip_delims delims [] = None"
| "skip_delims delims (c # cs) = (if strchr delims c \<noteq> None then skip_delims delims cs else Some (c # cs))"

definition strtok :: "string option \<Rightarrow> string \<Rightarrow> string \<Rightarrow> string option \<times> string" where
  "strtok arg delims stored =
     (let str = (case arg of Some s \<Rightarrow> s | None \<Rightarrow> stored)
      in case skip_delims delims str of
           None \<Rightarrow> (None, stored)
         | Some s \<Rightarrow> (let n = strcspn s delims in (Some (take n s), drop (Suc n) s)))"

text \<open>\<open>atoi\<close> in 32 bit arithmetic.\<close>

fun atoi_digits :: "u32 \<Rightarrow> string \<Rightarrow> u32" where
  "atoi_digits acum [] = acum"
| "atoi_digits acum (c # cs) =
     (if 48 \<le> (of_char c :: nat) \<and> (of_char c :: nat) \<le> 57 then atoi_digits (acum * 10 + of_nat (of_char c - 48)) cs else acum)"

definition atoi :: "string \<Rightarrow> u32" where
  "atoi str =
     (case str of
        [] \<Rightarrow> atoi_digits 0 []
      | c # cs \<Rightarrow> if c = CHR ''-'' then (-1) * atoi_digits 0 cs else atoi_digits 0 str)"

text \<open>
  \<open>strstr\<close> on the buffer that holds the haystack: the position of the first match. The pointer \<open>adv\<close> runs
  ahead by the length of the needle less one, and the loop ends when it reads the terminator.
\<close>

fun match_at :: "string \<Rightarrow> string \<Rightarrow> bool" where
  "match_at h [] = True"
| "match_at [] (n # ns) = False"
| "match_at (h # hs) (n # ns) = (h \<noteq> NUL \<and> h = n \<and> match_at hs ns)"

function strstr_from :: "string \<Rightarrow> string \<Rightarrow> nat \<Rightarrow> nat \<Rightarrow> nat option option" where
  "strstr_from buf needle oper1 adv =
     (if length buf \<le> adv then None
      else if buf ! adv = NUL then Some None
      else if match_at (drop oper1 buf) needle then Some (Some oper1)
      else strstr_from buf needle (Suc oper1) (Suc adv))"
  by auto
termination by (relation "measure (\<lambda>(buf, needle, oper1, adv). length buf - adv)") auto

declare strstr_from.simps [simp del]

definition strstr :: "string \<Rightarrow> string \<Rightarrow> nat option option" where
  "strstr buf needle =
     (if buf = [] then None
      else if hd buf = NUL \<or> needle = [] then Some None
      else strstr_from buf needle 0 (length needle - 1))"

subsection \<open>Writing strings\<close>

definition put :: "nat \<Rightarrow> char \<Rightarrow> string \<Rightarrow> string option" where
  "put i c buf = (if i < length buf then Some (buf[i := c]) else None)"

fun strcpy_from :: "nat \<Rightarrow> string \<Rightarrow> string \<Rightarrow> string option" where
  "strcpy_from i dest [] = put i NUL dest"
| "strcpy_from i dest (c # cs) = do { dest \<leftarrow> put i c dest; strcpy_from (Suc i) dest cs }"

definition strcpy :: "string \<Rightarrow> string \<Rightarrow> string option" where
  "strcpy dest src = strcpy_from 0 dest src"

fun strncpy_from :: "nat \<Rightarrow> string \<Rightarrow> string \<Rightarrow> int \<Rightarrow> string option" where
  "strncpy_from i dest [] len = put i NUL dest"
| "strncpy_from i dest (c # cs) len = do {
     dest \<leftarrow> put i c dest;
     if int i < len then strncpy_from (Suc i) dest cs len else Some dest
   }"

definition strncpy :: "string \<Rightarrow> string \<Rightarrow> int \<Rightarrow> string option" where
  "strncpy dest src len = strncpy_from 0 dest src len"

text \<open>The index of the terminator of the string in a buffer.\<close>

fun find_nul :: "string \<Rightarrow> nat option" where
  "find_nul [] = None"
| "find_nul (c # cs) = (if c = NUL then Some 0 else map_option Suc (find_nul cs))"

definition strcat :: "string \<Rightarrow> string \<Rightarrow> string option" where
  "strcat dest str = do { i \<leftarrow> find_nul dest; strcpy_from i dest str }"

text \<open>
  \<open>strdup\<close> on the kernel heap writes one terminator more than it has allocated. When the block is followed by
  another one, that byte is the low byte of the size in the next header.
\<close>

fun write_string :: "ptr \<Rightarrow> string \<Rightarrow> (ptr \<Rightarrow> u8) \<Rightarrow> (ptr \<Rightarrow> u8)" where
  "write_string p [] m = m"
| "write_string p (c # cs) m = write_string (p + 1) cs (m(p := of_char c))"

definition zero_behind :: "ptr \<Rightarrow> 'z vm_scheme \<Rightarrow> 'z vm_scheme" where
  "zero_behind a s =
     (let s = s\<lparr>kh_bytes := (kh_bytes s)(a := 0)\<rparr>
      in case kh_items s a of
           None \<Rightarrow> s
         | Some k \<Rightarrow> s\<lparr>kh_items := (kh_items s)(a \<mapsto> k\<lparr>ka_size := ka_size k AND NOT 0xFF\<rparr>)\<rparr>)"

definition strdup :: "string \<Rightarrow> 'z vm_scheme \<Rightarrow> (ptr \<times> 'z vm_scheme) option" where
  "strdup str s = do {
     let string_length = strlen str + 1;
     (tmp, s) \<leftarrow> kern_malloc (word_of_int string_length) s;
     let s = s\<lparr>kh_bytes := write_string tmp (str @ [NUL]) (kh_bytes s)\<rparr>;
     Some (tmp, zero_behind (tmp + word_of_int string_length) s)
   }"

subsection \<open>What they compute\<close>

lemma NUL_char [simp]: "of_char NUL = (0 :: nat)" "of_char c = (0 :: nat) \<longleftrightarrow> c = NUL"
proof -
  show "of_char NUL = (0 :: nat)" by (simp add: NUL_def)
  then show "of_char c = (0 :: nat) \<longleftrightarrow> c = NUL" using inj_of_char[where 'a = nat] by (metis injD)
qed

lemma strlen_length: "strlen s = int (length s)"
  by (induction s) auto

lemma strcmp_eq: "strcmp s t = 0 \<longleftrightarrow> s = t"
  by (induction s t rule: strcmp.induct) auto

lemma strncmp_eq:
  assumes "cstring s" "cstring t"
  shows "strncmp s t n = 0 \<longleftrightarrow> take n s = take n t"
  using assms
proof (induction s t n rule: strncmp.induct)
  case (2 s t n)
  have inj: "of_char a = (of_char b :: nat) \<longleftrightarrow> a = b" for a b by (metis inj_of_char injD)
  show ?case using 2
    by (cases s; cases t) (auto simp: first_char_def Let_def cstring_def inj nat_neq_iff)
qed simp

lemma strchr_some: "c \<noteq> NUL \<Longrightarrow> strchr s c = Some r \<longleftrightarrow> (\<exists>a. s = a @ r \<and> c \<notin> set a \<and> r \<noteq> [] \<and> hd r = c)"
proof (induction s)
  case (Cons d ds)
  show ?case
  proof (cases "d = c")
    case True
    then show ?thesis by (auto intro: exI[of _ "[]"] simp: Cons_eq_append_conv)
  next
    case False
    then show ?thesis using Cons by (auto simp: Cons_eq_append_conv)
  qed
qed auto

lemma strchr_none: "c \<noteq> NUL \<Longrightarrow> strchr s c = None \<longleftrightarrow> c \<notin> set s"
  by (induction s) auto

lemma strchr_ex: "c \<noteq> NUL \<Longrightarrow> (\<exists>r. strchr s c = Some r) \<longleftrightarrow> c \<in> set s"
  using strchr_none[of c s] by auto

lemma strrchr_none: "c \<noteq> NUL \<Longrightarrow> strrchr s c = None \<longleftrightarrow> c \<notin> set s"
  by (induction s) (auto split: option.split)

lemma strrchr_some:
  "c \<noteq> NUL \<Longrightarrow> strrchr (a @ c # r) c = Some (c # r)" if "c \<notin> set r"
proof (induction a)
  case Nil
  then have "strrchr r c = None" using that by (simp add: strrchr_none)
  then show ?case by simp
qed simp

lemma strcspn_takeWhile: "cstring s \<Longrightarrow> strcspn s t = length (takeWhile (\<lambda>c. c \<notin> set t) s)"
  by (induction s) (auto simp: strchr_ex strchr_none cstring_def)

lemma strspn_takeWhile: "cstring s \<Longrightarrow> strspn s t = length (takeWhile (\<lambda>c. c \<in> set t) s)"
  by (induction s) (auto simp: strchr_ex strchr_none cstring_def)

lemma skip_delims_eq:
  "cstring s \<Longrightarrow> skip_delims t s = (let r = dropWhile (\<lambda>c. c \<in> set t) s in if r = [] then None else Some r)"
proof (induction s)
  case (Cons c s)
  then have "strchr t c = None \<longleftrightarrow> c \<notin> set t" by (intro strchr_none) (auto simp: cstring_def)
  then show ?case using Cons by (cases "c \<in> set t") (auto simp: cstring_def Let_def)
qed simp

text \<open>\<open>strtok\<close> returns the next maximal run of characters that are no delimiters.\<close>

lemma strtok_token:
  assumes "cstring s" "dropWhile (\<lambda>c. c \<in> set t) s = r" "r \<noteq> []"
  shows "strtok (Some s) t stored = (Some (takeWhile (\<lambda>c. c \<notin> set t) r), tl (dropWhile (\<lambda>c. c \<notin> set t) r))"
proof -
  have "cstring r" using assms(1,2) by (auto simp: cstring_def dest: set_dropWhileD)
  then have "strcspn r t = length (takeWhile (\<lambda>c. c \<notin> set t) r)" by (rule strcspn_takeWhile)
  moreover have "take (length (takeWhile P r)) r = takeWhile P r" "drop (length (takeWhile P r)) r = dropWhile P r" for P
    by (simp_all flip: takeWhile_eq_take dropWhile_eq_drop)
  ultimately show ?thesis using assms
    by (simp add: strtok_def skip_delims_eq Let_def drop_Suc flip: tl_drop)
qed

lemma match_at_prefix: "cstring n \<Longrightarrow> cstring h \<Longrightarrow> match_at (h @ [NUL] @ x) n \<longleftrightarrow> take (length n) h = n"
proof (induction n arbitrary: h)
  case (Cons a n)
  then show ?case by (cases h) (auto simp: cstring_def)
qed simp

text \<open>With a needle that is not longer than the haystack, \<open>strstr\<close> finds the first occurrence.\<close>

lemma strstr_from_correct:
  assumes "cstring h" "cstring n" "n \<noteq> []" "i + length n \<le> length h + 1"
    "\<forall>j<i. take (length n) (drop j h) \<noteq> n"
  shows "strstr_from (h @ [NUL] @ x) n i (i + (length n - 1)) =
    Some (find (\<lambda>j. take (length n) (drop j h) = n) [0..<length h])"
  using assms(4,5)
proof (induction "length h + 1 - i" arbitrary: i)
  case 0
  then show ?case using assms(3) by (cases n) auto
next
  case (Suc k)
  let ?a = "i + (length n - 1)" and ?P = "\<lambda>j. take (length n) (drop j h) = n"
  have a: "?a \<le> length h" "Suc i + (length n - 1) = Suc ?a" using Suc.prems(1) assms(3) by (cases n; simp)+
  show ?case
  proof (cases "?a = length h")
    case True
    have "\<not> ?P j" if "j < length h" for j
    proof (cases "j < i")
      case False
      then have "length (take (length n) (drop j h)) < length n" using True that assms(3) by (cases n) auto
      then show ?thesis by auto
    qed (use Suc.prems(2) in simp)
    then have "find ?P [0..<length h] = None" by (simp add: find_None_iff)
    then show ?thesis using True by (subst strstr_from.simps) (simp add: nth_append)
  next
    case False
    then have ah: "?a < length h" using a(1) by simp
    then have ne: "(h @ [NUL] @ x) ! ?a \<noteq> NUL" "\<not> length (h @ [NUL] @ x) \<le> ?a"
      using assms(1) by (auto simp: nth_append cstring_def dest: nth_mem)
    have il: "i < length h" using ah by simp
    have "cstring (drop i h)" using assms(1) by (auto simp: cstring_def dest: in_set_dropD)
    then have m: "match_at (drop i (h @ [NUL] @ x)) n \<longleftrightarrow> ?P i"
      using match_at_prefix[OF assms(2), of "drop i h" x] il by simp
    show ?thesis
    proof (cases "?P i")
      case True
      then have "find ?P [0..<length h] = Some i" using Suc.prems(2) il by (simp add: find_upt_some)
      then show ?thesis using ne True m by (subst strstr_from.simps) simp
    next
      case np: False
      have "strstr_from (h @ [NUL] @ x) n (Suc i) (Suc i + (length n - 1)) = Some (find ?P [0..<length h])"
        using Suc.hyps(2) Suc.prems np ah less_Suc_eq by (intro Suc.hyps(1)) (auto simp: less_Suc_eq)
      then show ?thesis using ne np m a(2) by (subst strstr_from.simps) simp
    qed
  qed
qed

lemma strstr_correct:
  assumes "cstring h" "cstring n" "n \<noteq> []" "length n \<le> length h + 1"
  shows "strstr (h @ [NUL] @ x) n = Some (find (\<lambda>j. take (length n) (drop j h) = n) [0..<length h])"
proof (cases h)
  case (Cons c cs)
  then have "c \<noteq> NUL" using assms(1) by (auto simp: cstring_def)
  then show ?thesis using strstr_from_correct[OF assms(1-3), of 0 x] assms(3,4) Cons by (simp add: strstr_def)
qed (simp add: strstr_def)

text \<open>A longer needle makes \<open>strstr\<close> read behind the terminator.\<close>

lemma strstr_overreads:
  assumes "cstring h" "h \<noteq> []" "length h + 1 < length n"
  shows "strstr (h @ [NUL]) n = None"
proof -
  obtain c cs where h: "h = c # cs" using assms(2) by (cases h) auto
  have "strstr_from (h @ [NUL]) n 0 (length n - 1) = None"
    using assms(3) by (subst strstr_from.simps) (simp add: Suc_le_eq less_diff_conv)
  then show ?thesis using assms h by (auto simp: strstr_def cstring_def)
qed

lemma strcpy_from_eq:
  "strcpy_from i dest s = (if i + length s < length dest
     then Some (take i dest @ s @ [NUL] @ drop (Suc (i + length s)) dest) else None)"
proof (induction s arbitrary: i dest)
  case Nil
  then show ?case by (simp add: put_def upd_conv_take_nth_drop)
next
  case (Cons c s)
  have "take (Suc i) (dest[i := c]) = take i dest @ [c]" if "i < length dest"
    using that by (simp add: take_Suc_conv_app_nth)
  then show ?case using Cons by (auto simp: put_def)
qed

lemma strcpy_eq:
  "strcpy dest s = (if length s < length dest then Some (s @ [NUL] @ drop (Suc (length s)) dest) else None)"
  by (simp add: strcpy_def strcpy_from_eq)

lemma find_nul_cstring: "cstring s \<Longrightarrow> find_nul (s @ NUL # x) = Some (length s)"
  by (induction s) (auto simp: cstring_def)

lemma strcat_eq:
  assumes "cstring s"
  shows "strcat (s @ [NUL] @ x) t = (if length t \<le> length x then Some (s @ t @ [NUL] @ drop (length t) x) else None)"
  using assms by (auto simp: strcat_def find_nul_cstring strcpy_from_eq)

text \<open>\<open>strncpy\<close> copies up to \<open>len + 1\<close> characters, and no terminator when the source is longer.\<close>

lemma strncpy_from_eq:
  assumes "int i \<le> len"
  shows "strncpy_from i dest s len =
    (let w = take (Suc (nat len) - i) (s @ [NUL])
     in if i + length w \<le> length dest then Some (take i dest @ w @ drop (i + length w) dest) else None)"
  using assms
proof (induction s arbitrary: i dest)
  case Nil
  then show ?case by (auto simp: put_def upd_conv_take_nth_drop Suc_diff_le Let_def)
next
  case (Cons c s)
  have tk: "take (Suc i) (dest[i := c]) = take i dest @ [c]" if "i < length dest"
    using that by (simp add: take_Suc_conv_app_nth)
  show ?case
  proof (cases "int i < len")
    case True
    then have "Suc (nat len) - i = Suc (nat len - i)" by linarith
    then show ?thesis using True Cons.IH[of "Suc i" "dest[i := c]"] Cons.prems tk by (auto simp: put_def Let_def)
  next
    case False
    then have "nat len = i" using Cons.prems by simp
    then show ?thesis using False by (auto simp: put_def Let_def upd_conv_take_nth_drop)
  qed
qed

lemma strncpy_eq:
  assumes "0 \<le> len"
  shows "strncpy dest s len =
    (let w = take (Suc (nat len)) (s @ [NUL]) in if length w \<le> length dest then Some (w @ drop (length w) dest) else None)"
  using strncpy_from_eq[of 0 len dest s] assms by (simp add: strncpy_def Let_def)

subsection \<open>Duplicating a string\<close>

lemma write_string_apply:
  assumes "length cs < 2 ^ 32"
  shows "write_string p cs m x = (if unat (x - p) < length cs then of_char (cs ! unat (x - p)) else m x)"
  using assms
proof (induction cs arbitrary: p m)
  case (Cons c cs)
  show ?case
  proof (cases "x = p")
    case False
    then have "0 < unat (x - p)" by (simp add: unat_gt_0)
    then have "unat (x - p) = Suc (unat (x - (p + 1)))"
      using False unat_minus_one[of "x - p"] by (simp add: diff_diff_eq[symmetric])
    then show ?thesis using Cons False by simp
  next
    case True
    have "unat (- 1 :: u32) = 4294967295" by (simp add: unsigned_minus_1_eq_mask mask_eq_exp_minus_1)
    then show ?thesis using Cons True by simp
  qed
qed simp

text \<open>The bytes that somebody owns: those of the blocks in use, and those below the heap.\<close>

definition owned :: "'z vm_scheme \<Rightarrow> ptr \<Rightarrow> bool" where
  "owned s x \<longleftrightarrow> unat x < unat (kh_start s) \<or> (\<exists>b\<in>heap_live s. unat x \<in> area b)"

lemma live_area_range:
  assumes "wf_heap s" "b \<in> heap_live s" "x \<in> area b"
  shows "unat (kh_start s) < x" "x < unat (kh_end s)"
proof -
  obtain bs where bs: "wf_blocks s bs" using assms(1) by (auto simp: wf_heap_def)
  from live_block[OF bs assms(2)] obtain a k where a: "(a, k) \<in> set bs" "area b = {unat a + 9 ..< unat a + block_len (a, k)}" by metis
  have "tiled (unat (kh_start s)) bs" using bs by (simp add: wf_blocks_def)
  from tiled_range[OF this a(1)] wf_blocks_fit[OF bs a(1)] a(2) assms(3)
  show "unat (kh_start s) < x" "x < unat (kh_end s)" by auto
qed

text \<open>The byte behind a request belongs to no other block in use.\<close>

lemma behind_not_owned:
  assumes wf: "wf_heap s" and p: "(p, m) \<in> heap_live s" "n \<le> m"
  shows "unat (p + n) = unat p + unat n" "\<forall>b\<in>heap_live s - {(p, m)}. unat (p + n) \<notin> area b"
proof -
  obtain bs where bs: "wf_blocks s bs" using wf by (auto simp: wf_heap_def)
  from live_block[OF bs p(1)] obtain a k where a: "(a, k) \<in> set bs" "(p, m) = (a + sizeof_kalloc, ka_size k)" by metis
  have up: "unat p = unat a + 9" using wf_blocks_payload(1)[OF bs a(1)] a(2) by simp
  have fit: "unat p + unat m < 2 ^ 32" using wf_blocks_fit[OF bs a(1)] up a(2) unat_u32_less[of "kh_end s"] by (simp add: block_len_def)
  then show un: "unat (p + n) = unat p + unat n" using p(2) by (simp add: unat_word_ariths word_le_nat_alt)
  show "\<forall>b\<in>heap_live s - {(p, m)}. unat (p + n) \<notin> area b"
  proof
    fix b assume b: "b \<in> heap_live s - {(p, m)}"
    then obtain c l where c: "(c, l) \<in> set bs" "b = (c + sizeof_kalloc, ka_size l)" "area b = {unat c + 9 ..< unat c + block_len (c, l)}"
      using live_block[OF bs, of b] by (metis DiffD1)
    have "(a, k) \<noteq> (c, l)" using b a(2) c(2) by auto
    moreover have "tiled (unat (kh_start s)) bs" using bs by (simp add: wf_blocks_def)
    ultimately have "unat a + block_len (a, k) \<le> unat c \<or> unat c + block_len (c, l) \<le> unat a"
      using tiled_disjoint[OF _ a(1) c(1)] by simp
    then show "unat (p + n) \<notin> area b" using un up a(2) c(3) p(2) by (auto simp: block_len_def word_le_nat_alt)
  qed
qed

text \<open>Under \<open>free_behind\<close> the byte behind the block hits no block in use, so that nothing in use is damaged.\<close>

lemma wf_heap_bytes [simp]: "wf_heap (s\<lparr>kh_bytes := m\<rparr>) = wf_heap s"
proof -
  have "wf_blocks (s\<lparr>kh_bytes := m\<rparr>) bs = wf_blocks s bs" for bs by (simp add: wf_blocks_def)
  then show ?thesis by (simp add: wf_heap_def)
qed

lemma shrink_block:
  assumes wf: "wf_blocks s (pre @ (c, k) # post)" and n: "n \<le> ka_size k"
  shows "wf_blocks (s\<lparr>kh_items := (kh_items s)(c \<mapsto> k\<lparr>ka_size := n\<rparr>)\<rparr>) (pre @ (c, k\<lparr>ka_size := n\<rparr>) # post)"
proof -
  have til: "tiled (unat (kh_start s)) (pre @ (c, k) # post)" using wf by (simp add: wf_blocks_def)
  from tiled_distinct[OF this] have d: "c \<notin> fst ` set pre" "c \<notin> fst ` set post" by auto
  have le: "unat c + block_len (c, k\<lparr>ka_size := n\<rparr>) \<le> unat c + block_len (c, k)" using n by (simp add: block_len_def word_le_nat_alt)
  have "tiled (unat (kh_start s)) (pre @ (c, k\<lparr>ka_size := n\<rparr>) # post)" using til tiled_mono[OF _ le, of post] by simp
  moreover have "blocks_end (unat (kh_start s)) (pre @ (c, k\<lparr>ka_size := n\<rparr>) # post) \<le> blocks_end (unat (kh_start s)) (pre @ (c, k) # post)"
    using le by (cases post) auto
  ultimately show ?thesis using wf d by (auto simp: wf_blocks_def)
qed

lemma shrink_free_block:
  assumes wf: "wf_heap s" and c: "kh_items s c = Some k" "\<not> ka_present k" and n: "n \<le> ka_size k"
  shows "wf_heap (s\<lparr>kh_items := (kh_items s)(c \<mapsto> k\<lparr>ka_size := n\<rparr>)\<rparr>)"
    "live_of ((kh_items s)(c \<mapsto> k\<lparr>ka_size := n\<rparr>)) = heap_live s"
proof -
  obtain bs where bs: "wf_blocks s bs" using wf by (auto simp: wf_heap_def)
  have "c \<in> fst ` set bs" using bs c(1) by (auto simp: wf_blocks_def)
  then obtain pre l post where b: "bs = pre @ (c, l) # post" by (auto dest!: split_list)
  have "l = k" using linked_dom[of "kh_items s" "kh_head s" bs 0 c l] bs c(1) b by (auto simp: wf_blocks_def)
  then show "wf_heap (s\<lparr>kh_items := (kh_items s)(c \<mapsto> k\<lparr>ka_size := n\<rparr>)\<rparr>)"
    using shrink_block[OF _ n, of s pre c post] bs b by (auto simp: wf_heap_def)
  show "live_of ((kh_items s)(c \<mapsto> k\<lparr>ka_size := n\<rparr>)) = heap_live s"
    by (rule live_of_eqI[symmetric]) (use c in \<open>auto simp: in_live_of\<close>)
qed

lemma zero_behind_ok:
  assumes wf: "wf_heap s" and free: "\<forall>k. kh_items s a = Some k \<longrightarrow> \<not> ka_present k"
  shows "wf_heap (zero_behind a s)" "heap_live (zero_behind a s) = heap_live s"
    "kh_bytes (zero_behind a s) = (kh_bytes s)(a := 0)" "kh_start (zero_behind a s) = kh_start s"
    "kh_end (zero_behind a s) = kh_end s" "kh_head (zero_behind a s) = kh_head s" "vm.more (zero_behind a s) = vm.more s"
    "dom (kh_items (zero_behind a s)) = dom (kh_items s)"
    "\<forall>c. map_option ka_present (kh_items (zero_behind a s) c) = map_option ka_present (kh_items s c)"
proof -
  let ?s = "s\<lparr>kh_bytes := (kh_bytes s)(a := 0)\<rparr>"
  have w: "wf_heap ?s" using wf by simp
  have le: "x AND NOT 0xFF \<le> x" for x :: u32 by (rule word_and_le2)
  show "wf_heap (zero_behind a s)" "heap_live (zero_behind a s) = heap_live s"
    using w shrink_free_block[OF w, of a] free le by (auto simp: zero_behind_def Let_def split: option.split)
qed (auto simp: zero_behind_def Let_def split: option.split)

text \<open>
  What \<open>strdup\<close> promises: a fresh block that holds the string. The bytes that are owned keep their values, and
  freeing the copy restores the blocks in use and \<open>free_behind\<close>.
\<close>

definition duplicated :: "string \<Rightarrow> nat \<Rightarrow> 'z vm_scheme \<Rightarrow> ptr \<Rightarrow> 'z vm_scheme \<Rightarrow> bool" where
  "duplicated str k s p s' \<longleftrightarrow> p \<noteq> 0 \<and> p \<notin> kern_live s \<and> heap_budget k s' \<and> vm.more s' = vm.more s \<and> kh_start s' = kh_start s \<and>
     (\<exists>m. length str < unat m \<and> heap_live s' = insert (p, m) (heap_live s) \<and> (\<forall>b\<in>heap_live s. area b \<inter> area (p, m) = {})) \<and>
     (\<forall>i<length str. kh_bytes s' (p + of_nat i) = of_char (str ! i)) \<and>
     (\<forall>x. owned s x \<longrightarrow> kh_bytes s' x = kh_bytes s x) \<and>
     (\<forall>c l. kh_items s' c = Some l \<longrightarrow> c \<noteq> p - sizeof_kalloc \<longrightarrow>
        (if ka_present l then unat c < unat (p - sizeof_kalloc)
         else (\<exists>l'. kh_items s c = Some l' \<and> \<not> ka_present l') \<or> unat (p - sizeof_kalloc) < unat c))"

lemma strdup_ok:
  assumes b: "heap_budget (alloc_cost (word_of_int (int (length str) + 1)) + k) s" and f: "free_behind s" and len: "length str < 2 ^ 30"
  obtains p s' where "strdup str s = Some (p, s')" "duplicated str k s p s'"
    "heap_full s \<Longrightarrow> heap_full s'"
proof -
  define n :: u32 where "n = word_of_int (int (length str) + 1)"
  have un: "unat n = length str + 1"
  proof -
    have "n = of_nat (length str + 1)" by (simp add: n_def)
    then show ?thesis using len unat_of_nat[where 'a = 32, of "length str + 1"] by (simp only: take_bit_nat_eq_self) simp
  qed
  then have n31: "unat n < 2 ^ 31" using len by simp
  from kern_malloc_budget[OF b[folded n_def] n31] obtain p s1 where s1: "kern_malloc n s = Some (p, s1)" "heap_allocated s n p s1"
    "heap_budget k s1" "vm.more s1 = vm.more s" by blast
  obtain m where m: "wf_heap s1" "p \<noteq> 0" "p \<notin> kern_live s" "n \<le> m" "heap_live s1 = insert (p, m) (heap_live s)"
    "\<forall>b\<in>heap_live s. area b \<inter> area (p, m) = {}" "\<forall>x. kh_bytes s1 x = (if unat x \<in> area (p, m) then 0 else kh_bytes s x)"
    using s1(2) by (auto simp: heap_allocated_def kern_live_def)
  have start: "kh_start s1 = kh_start s" using kern_malloc_effect[OF s1(1)] by simp
  obtain a where a: "p = a + sizeof_kalloc" "a \<in> dom (kh_items s1)"
    "a \<notin> dom (kh_items s) \<and> dom (kh_items s1) = insert a (dom (kh_items s)) \<and> (\<forall>b\<in>dom (kh_items s). unat b < unat a) \<or>
     (\<exists>k. kh_items s a = Some k \<and> \<not> ka_present k)"
    "\<forall>c k. c \<noteq> a \<longrightarrow> kh_items s1 c = Some k \<longrightarrow> \<not> ka_present k \<longrightarrow> (\<exists>l. kh_items s c = Some l \<and> \<not> ka_present l) \<or> unat a < unat c"
    by (rule malloc_place[OF b s1(1) m(2) n31])
  have below: "unat c < unat a" if "kh_items s1 c = Some l" "ka_present l" "c \<noteq> a" for c l
  proof -
    have "c + sizeof_kalloc \<in> kern_live s" using that m(5) a(1) present_live[of s1 c] by (auto simp: kern_live_def)
    then obtain l' where l': "kh_items s c = Some l'" "ka_present l'" using present_live[of s c] by blast
    then show ?thesis using a(3) f by (auto simp: free_behind_def)
  qed
  have pm: "(p, m) \<in> heap_live s1" using m(5) by simp
  note end1 = behind_not_owned[OF m(1) pm m(4)]
  have ap: "unat p = unat a + 9"
  proof -
    obtain bs where bs: "wf_blocks s1 bs" using m(1) by (auto simp: wf_heap_def)
    from live_block[OF bs pm] a(1) obtain k' where "(a, k') \<in> set bs" by auto
    from wf_blocks_payload(1)[OF bs this] show ?thesis using a(1) by simp
  qed
  have free: "\<forall>l. kh_items s1 (p + n) = Some l \<longrightarrow> \<not> ka_present l" using below[of "p + n"] end1(1) ap by fastforce
  define s2 where "s2 = s1\<lparr>kh_bytes := write_string p (str @ [NUL]) (kh_bytes s1)\<rparr>"
  have wf2: "wf_heap s2" "heap_live s2 = heap_live s1" "\<forall>l. kh_items s2 (p + n) = Some l \<longrightarrow> \<not> ka_present l"
    using m(1) free by (simp_all add: s2_def)
  note z = zero_behind_ok[OF wf2(1,3)]
  let ?s' = "zero_behind (p + n) s2"
  have run: "strdup str s = Some (p, ?s')" using s1(1) by (simp add: strdup_def strlen_length s2_def n_def)
  have bytes: "kh_bytes ?s' x = (if x = p + n then 0 else if unat (x - p) < length str + 1 then of_char ((str @ [NUL]) ! unat (x - p)) else kh_bytes s1 x)" for x
    using len z(3) by (simp add: s2_def write_string_apply)
  have off: "unat (p + of_nat i - p) = i" if "i < length str" for i using that len by (simp add: unat_of_nat take_bit_nat_eq_self)
  have "kh_bytes ?s' (p + of_nat i) = of_char (str ! i)" if i: "i < length str" for i
  proof -
    have "p + of_nat i \<noteq> p + n" using off[OF i] un i by auto
    then show ?thesis using i off[OF i] bytes[of "p + of_nat i"] by (simp add: nth_append)
  qed
  moreover have "kh_bytes ?s' x = kh_bytes s x" if x: "owned s x" for x
  proof -
    have "p \<noteq> fst b" if "b \<in> heap_live s" for b using m(3) that by (auto simp: kern_live_def)
    then have "\<forall>b\<in>heap_live s. unat (p + n) \<notin> area b" using end1(2) m(5) by fastforce
    moreover have "unat (kh_start s) < unat p" using live_area_range(1)[OF m(1) pm, of "unat p"] un m(4) start
      by (simp add: area_def word_le_nat_alt)
    ultimately have dj: "unat x \<notin> area (p, m)" "x \<noteq> p + n"
      using x m(6) end1(1) by (auto simp: owned_def area_def)
    have "unat p + unat n \<le> 2 ^ 32" using end1(1) unat_u32_less[of "p + n"] by simp
    from word_sub_less_iff[OF this, of x] have "\<not> x - p < n" using dj(1) m(4) by (auto simp: area_def word_le_nat_alt)
    then have "\<not> unat (x - p) < length str + 1" using un by (simp add: word_less_nat_alt)
    then show ?thesis using bytes[of x] dj m(7) by simp
  qed
  moreover have "heap_budget k ?s'" using s1(3) z by (simp add: heap_budget_def s2_def)
  moreover have "if ka_present l then unat c < unat (p - sizeof_kalloc)
      else (\<exists>l'. kh_items s c = Some l' \<and> \<not> ka_present l') \<or> unat (p - sizeof_kalloc) < unat c"
    if c: "kh_items ?s' c = Some l" "c \<noteq> p - sizeof_kalloc" for c l
  proof -
    have "map_option ka_present (kh_items ?s' c) = map_option ka_present (kh_items s1 c)" using z(9) by (simp add: s2_def)
    then obtain l1 where "kh_items s1 c = Some l1" "ka_present l1 = ka_present l" using c(1) by (cases "kh_items s1 c") auto
    moreover have "p - sizeof_kalloc = a" using a(1) by simp
    ultimately show ?thesis using below[of c l1] a(4) c(2) by auto
  qed
  ultimately have "duplicated str k s p ?s'" unfolding duplicated_def
    using m z s1(4) start un by (auto simp: s2_def word_le_nat_alt intro!: exI[of _ m])
  moreover have "heap_full ?s'" if "heap_full s"
    using malloc_full[OF b[folded n_def] n31 that s1(1)] by (simp add: s2_def zero_behind_def heap_full_def)
  ultimately show ?thesis using that[OF run] by blast
qed

lemma free_duplicate:
  assumes f: "free_behind s" and d: "duplicated str k s p s1"
  obtains s2 where "kern_free p (s1\<lparr>kh_bytes := m\<rparr>) = Some s2" "free_behind s2" "heap_live s2 = heap_live s" "heap_budget k s2"
    "kh_bytes s2 = m" "kh_start s2 = kh_start s" "vm.more s2 = vm.more s"
proof -
  let ?a = "p - sizeof_kalloc" and ?s1 = "s1\<lparr>kh_bytes := m\<rparr>"
  note dup = d[unfolded duplicated_def]
  obtain n where n1: "heap_live s1 = insert (p, n) (heap_live s)" using dup by blast
  moreover have "p \<notin> fst ` heap_live s" using dup by (simp add: kern_live_def)
  ultimately have n: "heap_live s1 = insert (p, n) (heap_live s)" "(p, n) \<notin> heap_live s" by force+
  then obtain k' where k: "kh_items s1 ?a = Some k'" "ka_present k'" "ka_size k' = n" using in_live_of[of p n "kh_items s1"] by auto
  have place: "if ka_present l then unat c < unat ?a else (\<exists>l'. kh_items s c = Some l' \<and> \<not> ka_present l') \<or> unat ?a < unat c"
    if "kh_items s1 c = Some l" "c \<noteq> ?a" for c l using dup that by blast
  have wf: "wf_heap ?s1" using dup by (simp add: heap_budget_def)
  have mem: "(p, n) \<in> heap_live ?s1" using n by simp
  define s2 where "s2 = ?s1\<lparr>kh_items := (kh_items s1)(?a \<mapsto> k'\<lparr>ka_present := False\<rparr>)\<rparr>"
  have run: "kern_free p ?s1 = Some s2" using k by (simp add: kern_free_def heap_free_def s2_def Let_def)
  from heap_free_correct[OF wf mem] run have live: "wf_heap s2" "heap_live s2 = heap_live s" using n by (auto simp: kern_free_def)
  have pres: "\<exists>l'. kh_items s c = Some l' \<and> ka_present l'" if "kh_items s2 c = Some l" "ka_present l" for c l
    using that live(2) present_live[of s2 c] present_live[of s c] by (auto simp: kern_live_def)
  have "unat c < unat e" if c: "kh_items s2 c = Some l" "ka_present l" and e: "kh_items s2 e = Some l2" "\<not> ka_present l2" for c l e l2
  proof -
    have "c \<noteq> ?a" using c by (auto simp: s2_def)
    then have ca: "unat c < unat ?a" using place[of c l] c by (simp add: s2_def)
    show ?thesis
    proof (cases "e = ?a")
      case False
      then have "(\<exists>l'. kh_items s e = Some l' \<and> \<not> ka_present l') \<or> unat ?a < unat e" using place[of e l2] e by (simp add: s2_def)
      then show ?thesis using ca f pres[OF c] by (auto simp: free_behind_def)
    qed (use ca in simp)
  qed
  then have "free_behind s2" by (auto simp: free_behind_def)
  moreover have "heap_budget k s1" using dup by blast
  then have "heap_budget k s2" using live(1) by (simp add: heap_budget_def s2_def)
  ultimately show ?thesis using that[OF run] live(2) dup by (simp add: s2_def)
qed

text \<open>
  Without \<open>free_behind\<close> the extra byte does harm. Here a copy reuses a free block of exactly its size, and the last
  block of the heap follows: its recorded size becomes 0, and the next allocation is placed inside it.
\<close>

lemma heap_walk_first:
  assumes "linked m p (pre @ (a, k) # post) q" "\<forall>c\<in>set pre. ka_present (snd c)" "ka_next k \<noteq> 0" "\<not> ka_present k"
    "sint sz \<le> sint (ka_size k)"
  shows "heap_walk m sz p = Some a"
  using assms
proof (induction pre arbitrary: p)
  case Nil
  then show ?case by (subst heap_walk.simps) auto
next
  case (Cons c pre)
  obtain b l where c: "c = (b, l)" by (cases c)
  have "ka_next l \<noteq> 0" using Cons.prems(1) c by (cases pre) auto
  then show ?case using Cons c by (subst heap_walk.simps) auto
qed

lemma heap_walk_last:
  assumes "linked m p (pre @ [(a, k)]) 0" "\<forall>c\<in>set pre. ka_present (snd c)"
  shows "heap_walk m sz p = Some a"
  using assms
proof (induction pre arbitrary: p)
  case Nil
  then show ?case by (subst heap_walk.simps) auto
next
  case (Cons c pre)
  obtain b l where c: "c = (b, l)" by (cases c)
  have "ka_next l \<noteq> 0" using Cons.prems(1) c by (cases pre) auto
  then show ?case using Cons c by (subst heap_walk.simps) auto
qed

definition exact_hole :: "string \<Rightarrow> block list \<Rightarrow> block \<Rightarrow> block \<Rightarrow> 'z vm_scheme \<Rightarrow> bool" where
  "exact_hole str pre x y s \<longleftrightarrow> wf_blocks s (pre @ [x, y]) \<and> (\<forall>c\<in>set pre. ka_present (snd c)) \<and>
     \<not> ka_present (snd x) \<and> ka_size (snd x) = word_of_int (strlen str + 1) \<and> fst y = fst x + (sizeof_kalloc + ka_size (snd x)) \<and>
     ka_present (snd y) \<and> 9 < ka_size (snd y) \<and> ka_size (snd y) < 256"

lemma strdup_overlap:
  assumes h: "exact_hole str pre (a, k) (b, l) s" and bud: "heap_budget (alloc_cost n) s" "unat n < 2 ^ 31"
  shows "\<exists>s1 p s2. strdup str s = Some (a + sizeof_kalloc, s1) \<and> kern_malloc n s1 = Some (p, s2) \<and>
    (b + sizeof_kalloc, ka_size l) \<in> heap_live s \<and> unat p \<in> area (b + sizeof_kalloc, ka_size l)"
proof -
  note hole = h[unfolded exact_hole_def fst_conv snd_conv]
  define z where "z = (word_of_int (strlen str + 1) :: u32)"
  have wf: "wf_blocks s (pre @ (a, k) # [(b, l)])" using hole by blast
  note lnk = wf[unfolded wf_blocks_def]
  have it: "kh_items s a = Some k" "kh_items s b = Some l" "ka_next k = b" "ka_next l = 0" "b \<noteq> 0" "kh_head s \<noteq> 0" "a \<noteq> 0"
    using lnk by auto
  have sz: "ka_size k = z" "b = a + (sizeof_kalloc + z)" using hole by (simp_all add: z_def)
  have "linked (kh_items s) (kh_head s) (pre @ (a, k) # [(b, l)]) 0" using lnk by blast
  then have walk: "heap_walk (kh_items s) z (kh_head s) = Some a"
    by (rule heap_walk_first) (use hole it sz(1) in simp_all)
  have ab: "a \<noteq> b" using tiled_distinct[of "unat (kh_start s)" "pre @ [(a, k), (b, l)]"] lnk by auto
  have reuse: "heap_reuse z a k (kh_items s) = (kh_items s)(a \<mapsto> k\<lparr>ka_present := True\<rparr>)"
    by (simp add: heap_reuse_def sz(1) Let_def)
  have zero: "ka_size l AND NOT 0xFF = 0"
  proof (rule word_eqI_unat)
    have "(0xFF :: u32) = mask 8" by (simp add: mask_eq_exp_minus_1)
    then show "unat (ka_size l AND NOT 0xFF) = unat (0 :: u32)"
      using hole unat_and_not_mask[of "ka_size l" 8] by (simp add: word_less_nat_alt)
  qed
  let ?it = "((kh_items s)(a \<mapsto> k\<lparr>ka_present := True\<rparr>))(b \<mapsto> l\<lparr>ka_size := 0\<rparr>)"
  obtain m where s1: "strdup str s = Some (a + sizeof_kalloc, s\<lparr>kh_bytes := m, kh_items := ?it\<rparr>)"
  proof -
    let ?m = "memset_8 (a + sizeof_kalloc) 0 (ka_size k) (kh_bytes s)"
    have "kern_malloc z s = Some (a + sizeof_kalloc, s\<lparr>kh_items := (kh_items s)(a \<mapsto> k\<lparr>ka_present := True\<rparr>), kh_bytes := ?m\<rparr>)"
      using walk it(1,3,5,6) reuse by (simp add: kern_malloc_def heap_allocate_def heap_finish_def Let_def)
    moreover have "a + sizeof_kalloc + z = b" using sz(2) by simp
    ultimately have "strdup str s = Some (a + sizeof_kalloc, zero_behind b (s\<lparr>kh_items := (kh_items s)(a \<mapsto> k\<lparr>ka_present := True\<rparr>),
        kh_bytes := write_string (a + sizeof_kalloc) (str @ [NUL]) ?m\<rparr>))"
      unfolding strdup_def Let_def z_def[symmetric] by simp
    then show thesis using that it(2) ab zero by (auto simp: zero_behind_def)
  qed
  let ?s1 = "s\<lparr>kh_bytes := m, kh_items := ?it\<rparr>"
  have "wf_blocks (s\<lparr>kh_items := ?it\<rparr>) ((pre @ [(a, k\<lparr>ka_present := True\<rparr>)]) @ (b, l\<lparr>ka_size := 0\<rparr>) # [])"
    using shrink_block[of "s\<lparr>kh_items := (kh_items s)(a \<mapsto> k\<lparr>ka_present := True\<rparr>)\<rparr>" "pre @ [(a, k\<lparr>ka_present := True\<rparr>)]" b l "[]" 0]
      reuse_whole_wf[OF wf] by simp
  moreover have "wf_blocks ?s1 bs = wf_blocks (s\<lparr>kh_items := ?it\<rparr>) bs" for bs by (simp add: wf_blocks_def)
  ultimately have wf1: "wf_blocks ?s1 ((pre @ [(a, k\<lparr>ka_present := True\<rparr>)]) @ [(b, l\<lparr>ka_size := 0\<rparr>)])" by blast
  then have "heap_budget (alloc_cost n + 0) ?s1" using bud(1) by (auto simp: heap_budget_def wf_heap_def)
  from kern_malloc_budget[OF this bud(2)] obtain p s2 where s2: "kern_malloc n ?s1 = Some (p, s2)" "p \<noteq> 0"
    by (auto simp: heap_allocated_def)
  have "linked (kh_items ?s1) (kh_head ?s1) ((pre @ [(a, k\<lparr>ka_present := True\<rparr>)]) @ [(b, l\<lparr>ka_size := 0\<rparr>)]) 0"
    using wf1 unfolding wf_blocks_def by blast
  then have "heap_walk (kh_items ?s1) n (kh_head ?s1) = Some b" by (rule heap_walk_last) (use hole in auto)
  then have "p = b + sizeof_kalloc + sizeof_kalloc" using s2 it
    by (auto simp: kern_malloc_def heap_allocate_def heap_finish_def Let_def split: if_splits option.splits)
  moreover have "unat b + 9 + unat (ka_size l) < 2 ^ 32" "9 < unat (ka_size l)"
    using wf_blocks_fit[OF wf, of "(b, l)"] unat_u32_less[of "kh_end s"] hole by (auto simp: block_len_def word_less_nat_alt)
  ultimately have "unat p \<in> area (b + sizeof_kalloc, ka_size l)" by (simp add: area_def sizeof_kalloc_def unat_word_ariths)
  moreover have "ka_present l" using hole by blast
  then have "(b + sizeof_kalloc, ka_size l) \<in> heap_live s" using it(2) by (simp add: in_live_of)
  ultimately show ?thesis using s1 s2(1) by blast
qed

end
