(* ===== verification/Kstdio.thy ===== *)
theory Kstdio
  imports Kstring
begin

text \<open>
  Formatted output, \<^verbatim>\<open>kernel/util/kstdio.c\<close>: the decimal and hexadecimal conversions, the format strings of
  \<open>kprintf\<close> and \<open>ksprintf\<close>, and the writes into a buffer. What goes to the screen is the list of the
  characters given to \<open>kputchar\<close>.
\<close>

subsection \<open>Decimal numbers\<close>

definition digit :: "nat \<Rightarrow> char" where "digit d = char_of (48 + d)"

text \<open>The two loops of \<open>kputuint\<close>: find the largest power of ten to print, then print digit by digit.\<close>

function skip_divisor :: "nat \<Rightarrow> nat \<Rightarrow> nat" where
  "skip_divisor uinteg divisor =
     (if uinteg div divisor = 0 \<and> 10 \<le> divisor then skip_divisor uinteg (divisor div 10) else divisor)"
  by auto
termination by (relation "measure snd") auto

function uint_digits :: "nat \<Rightarrow> nat \<Rightarrow> string" where
  "uint_digits num divisor =
     (if 10 \<le> divisor then digit (num div divisor) # uint_digits (num mod divisor) (divisor div 10) else [digit num])"
  by auto
termination by (relation "measure snd") auto

declare skip_divisor.simps [simp del] uint_digits.simps [simp del]

definition kputuint :: "u32 \<Rightarrow> string" where
  "kputuint uinteg = uint_digits (unat uinteg) (skip_divisor (unat uinteg) 1000000000)"

definition kputint :: "u32 \<Rightarrow> string" where
  "kputint num = (if 0 \<le> sint num then kputuint num else CHR ''-'' # kputuint (- num))"

subsection \<open>Hexadecimal numbers\<close>

definition hex_digit :: "u32 \<Rightarrow> char" where
  "hex_digit temp = (if 0xA \<le> unat temp then char_of (unat temp - 0xA + 65) else char_of (unat temp + 48))"

fun hex_digits :: "u32 \<Rightarrow> bool \<Rightarrow> nat list \<Rightarrow> string" where
  "hex_digits hex no_ze [] = [hex_digit (hex AND 0xF)]"
| "hex_digits hex no_ze (i # is) =
     (let temp = drop_bit i hex AND 0xF
      in if temp = 0 \<and> no_ze then hex_digits hex no_ze is else hex_digit temp # hex_digits hex False is)"

definition kputhex :: "u32 \<Rightarrow> string" where
  "kputhex hex = CHR ''0'' # CHR ''x'' # hex_digits hex True [28, 24, 20, 16, 12, 8, 4]"

subsection \<open>Formats\<close>

datatype karg = Kstr string | Kchr char | Kint u32 | Kuint u32

text \<open>
  The text that a format produces; \<open>None\<close> when an argument is missing or has another type, or when the
  format ends in a percent sign, after which the loop runs on behind the terminator.
\<close>

fun kformat :: "string \<Rightarrow> karg list \<Rightarrow> string option" where
  "kformat [] args = Some []"
| "kformat [c] args = (if c = CHR ''%'' then None else Some [c])"
| "kformat (c # d # cs) args =
     (if c \<noteq> CHR ''%'' then do { r \<leftarrow> kformat (d # cs) args; Some (c # r) }
      else if d = CHR ''s'' then
        (case args of Kstr s # as \<Rightarrow> do { r \<leftarrow> kformat cs as; Some (s @ r) } | _ \<Rightarrow> None)
      else if d = CHR ''c'' then
        (case args of Kchr x # as \<Rightarrow> do { r \<leftarrow> kformat cs as; Some (x # r) } | _ \<Rightarrow> None)
      else if d = CHR ''d'' then
        (case args of Kint n # as \<Rightarrow> do { r \<leftarrow> kformat cs as; Some (kputint n @ r) } | _ \<Rightarrow> None)
      else if d = CHR ''u'' then
        (case args of Kuint n # as \<Rightarrow> do { r \<leftarrow> kformat cs as; Some (kputuint n @ r) } | _ \<Rightarrow> None)
      else if d = CHR ''x'' then
        (case args of Kuint n # as \<Rightarrow> do { r \<leftarrow> kformat cs as; Some (kputhex n @ r) } | _ \<Rightarrow> None)
      else do { r \<leftarrow> kformat cs args; Some (d # r) })"

definition kprintf :: "string \<Rightarrow> karg list \<Rightarrow> string option" where
  "kprintf str args = kformat str args"

subsection \<open>Writing into a buffer\<close>

definition kputcharatbuf :: "char \<Rightarrow> string \<Rightarrow> nat \<Rightarrow> string option" where
  "kputcharatbuf c buffer at = put at c buffer"

fun put_chars :: "string \<Rightarrow> string \<Rightarrow> nat \<Rightarrow> string option" where
  "put_chars [] buffer at = Some buffer"
| "put_chars (c # cs) buffer at = do { buffer \<leftarrow> kputcharatbuf c buffer at; put_chars cs buffer (Suc at) }"

definition kputhexbufat :: "u32 \<Rightarrow> string \<Rightarrow> nat \<Rightarrow> (nat \<times> string) option" where
  "kputhexbufat hex buffer at = do { b \<leftarrow> put_chars (kputhex hex) buffer at; Some (length (kputhex hex), b) }"

definition kputuintbufat :: "u32 \<Rightarrow> string \<Rightarrow> nat \<Rightarrow> (nat \<times> string) option" where
  "kputuintbufat uinteg buffer at = do { b \<leftarrow> put_chars (kputuint uinteg) buffer at; Some (length (kputuint uinteg), b) }"

definition kputintbufat :: "u32 \<Rightarrow> string \<Rightarrow> nat \<Rightarrow> (nat \<times> string) option" where
  "kputintbufat num buffer at =
     (if 0 \<le> sint num then kputuintbufat num buffer at
      else do {
        buffer \<leftarrow> kputcharatbuf (CHR ''-'') buffer at;
        (c, buffer) \<leftarrow> kputuintbufat (- num) buffer (at + 1);
        Some (c + 1, buffer)
      })"

definition ksprintf :: "string \<Rightarrow> string \<Rightarrow> karg list \<Rightarrow> string option" where
  "ksprintf dest text args = do {
     out \<leftarrow> kformat text args;
     dest \<leftarrow> put_chars out dest 0;
     put (length out) NUL dest
   }"

subsection \<open>Decimal numbers read back\<close>

lemma digit_val: "d < 10 \<Longrightarrow> (of_char (digit d) :: nat) = 48 + d"
  by (simp add: digit_def)

lemma skip_divisor_pow:
  assumes "u < 10 ^ Suc k"
  shows "\<exists>j\<le>k. skip_divisor u (10 ^ k) = 10 ^ j \<and> u < 10 ^ Suc j \<and> (0 < j \<longrightarrow> 10 ^ j \<le> u)"
  using assms
proof (induction k)
  case 0
  then show ?case by (simp add: skip_divisor.simps)
next
  case (Suc k)
  show ?case
  proof (cases "u < 10 ^ Suc k")
    case True
    then have "skip_divisor u (10 ^ Suc k) = skip_divisor u (10 ^ k)" by (subst skip_divisor.simps) simp
    with Suc.IH[OF True] show ?thesis by (metis le_SucI)
  next
    case False
    then have "u div 10 ^ Suc k \<noteq> 0" by (simp add: div_eq_0_iff)
    then have "skip_divisor u (10 ^ Suc k) = 10 ^ Suc k" by (subst skip_divisor.simps) simp
    then show ?thesis using Suc.prems False by (intro exI[of _ "Suc k"]) simp
  qed
qed

lemma atoi_uint_digits:
  assumes "num < 10 ^ Suc k"
  shows "atoi_digits a (uint_digits num (10 ^ k)) = a * 10 ^ Suc k + of_nat num"
  using assms
proof (induction k arbitrary: num a)
  case 0
  then show ?case by (simp add: uint_digits.simps digit_val)
next
  case (Suc k)
  have d: "num div 10 ^ Suc k < 10" using Suc.prems by (simp add: less_mult_imp_div_less)
  have m: "num mod 10 ^ Suc k < 10 ^ Suc k" by simp
  have "uint_digits num (10 ^ Suc k) = digit (num div 10 ^ Suc k) # uint_digits (num mod 10 ^ Suc k) (10 ^ k)"
    by (subst uint_digits.simps) simp
  then have "atoi_digits a (uint_digits num (10 ^ Suc k)) =
     (a * 10 + of_nat (num div 10 ^ Suc k)) * 10 ^ Suc k + of_nat (num mod 10 ^ Suc k)"
    using Suc.IH[OF m] d by (simp add: digit_val)
  also have "\<dots> = a * 10 ^ Suc (Suc k) + of_nat (num div 10 ^ Suc k * 10 ^ Suc k + num mod 10 ^ Suc k)"
    by (simp only: of_nat_add of_nat_mult of_nat_power of_nat_numeral) (simp add: algebra_simps)
  finally show ?case unfolding div_mult_mod_eq .
qed

lemma kputuint_shape:
  obtains j where "kputuint u = uint_digits (unat u) (10 ^ j)" "unat u < 10 ^ Suc j" "0 < j \<Longrightarrow> 10 ^ j \<le> unat u" "j \<le> 9"
proof -
  have "unat u < 10 ^ Suc 9" using unat_u32_less[of u] by simp
  from skip_divisor_pow[OF this] obtain j where j: "j \<le> 9" "skip_divisor (unat u) (10 ^ 9) = 10 ^ j"
    "unat u < 10 ^ Suc j" "0 < j \<longrightarrow> 10 ^ j \<le> unat u" by blast
  then have "kputuint u = uint_digits (unat u) (10 ^ j)" by (simp add: kputuint_def)
  with j that show ?thesis by blast
qed

lemma uint_digits_hd: "\<exists>cs. uint_digits n (10 ^ k) = digit (n div 10 ^ k) # cs"
  by (subst uint_digits.simps) (cases k, auto)

lemma atoi_kputuint: "atoi_digits 0 (kputuint u) = u"
proof -
  obtain j where j: "kputuint u = uint_digits (unat u) (10 ^ j)" "unat u < 10 ^ Suc j" by (rule kputuint_shape)
  then show ?thesis using atoi_uint_digits[OF j(2), of 0] by simp
qed

lemma kputuint_first:
  obtains d cs where "kputuint u = digit d # cs" "d < 10" "d = 0 \<longleftrightarrow> u = 0"
proof -
  obtain j where j: "kputuint u = uint_digits (unat u) (10 ^ j)" "unat u < 10 ^ Suc j" "0 < j \<Longrightarrow> 10 ^ j \<le> unat u"
    by (rule kputuint_shape[of u]) blast
  obtain cs where cs: "kputuint u = digit (unat u div 10 ^ j) # cs" using uint_digits_hd j(1) by metis
  have "unat u div 10 ^ j = 0 \<longleftrightarrow> u = 0"
    using j(3) by (cases j) (auto simp: div_eq_0_iff unat_eq_zero)
  moreover have "unat u div 10 ^ j < 10" using j(2) by (simp add: less_mult_imp_div_less)
  ultimately show ?thesis using that[OF cs] by simp
qed

text \<open>Printing a signed number and reading it back gives the number, for every 32 bit pattern.\<close>

lemma atoi_kputint: "atoi (kputint n) = n"
proof (cases "0 \<le> sint n")
  case True
  obtain d cs where d: "kputuint n = digit d # cs" "d < 10" by (rule kputuint_first)
  have "digit d \<noteq> CHR ''-''" using digit_val[OF d(2)] by auto
  then show ?thesis using True d(1) atoi_kputuint[of n] by (simp add: kputint_def atoi_def)
next
  case False
  then show ?thesis using atoi_kputuint[of "- n"] by (simp add: kputint_def atoi_def)
qed

subsection \<open>Hexadecimal numbers read back\<close>

definition hex_val :: "char \<Rightarrow> nat" where
  "hex_val c = (if (of_char c :: nat) \<le> 57 then of_char c - 48 else of_char c - 55)"

definition hex_value :: "nat \<Rightarrow> string \<Rightarrow> nat" where
  "hex_value a cs = foldl (\<lambda>a c. a * 16 + hex_val c) a cs"

lemma nibble: "unat (drop_bit i h AND 0xF) = unat h div 2 ^ i mod 16" for h :: u32
proof -
  have "drop_bit i h AND 0xF = take_bit 4 (drop_bit i h)" by (simp add: take_bit_eq_mask mask_eq_exp_minus_1)
  then have "unat (drop_bit i h AND 0xF) = take_bit 4 (unat (drop_bit i h))" by (simp add: unsigned_take_bit_eq)
  then show ?thesis unfolding unat_drop_bit_eq by (simp add: take_bit_eq_mod drop_bit_eq_div)
qed

lemma hex_val_digit: "unat t < 16 \<Longrightarrow> hex_val (hex_digit t) = unat t"
  by (auto simp: hex_val_def hex_digit_def)

lemma hex_digits_value:
  assumes "a = unat h div 2 ^ (4 * Suc k)" "nz \<Longrightarrow> a = 0"
  shows "hex_value a (hex_digits h nz (map ((*) 4) (rev [1..<Suc k]))) = unat h"
  using assms
proof (induction k arbitrary: a nz)
  case 0
  have "unat (h AND 0xF) = unat h mod 16" using nibble[of 0 h] by simp
  then show ?case using 0 by (simp add: hex_value_def hex_val_digit)
next
  case (Suc k)
  let ?t = "drop_bit (4 * Suc k) h AND 0xF"
  have t: "unat ?t = unat h div 2 ^ (4 * Suc k) mod 16" by (rule nibble)
  have "unat h div 2 ^ (4 * Suc (Suc k)) = unat h div 2 ^ (4 * Suc k) div 16" by (simp only: mult_Suc_right power_add div_mult2_eq) (simp add: div_mult2_eq[symmetric] mult.commute)
  then have a: "a * 16 + unat ?t = unat h div 2 ^ (4 * Suc k)" using Suc.prems(1) t by simp
  define ks where "ks = map ((*) 4) (rev [1..<Suc k])"
  have rev: "map ((*) 4) (rev [1..<Suc (Suc k)]) = 4 * Suc k # ks" by (simp add: ks_def)
  show ?case
  proof (cases "?t = 0 \<and> nz")
    case True
    then have z: "unat ?t = 0" "nz" by auto
    then have "a = unat h div 2 ^ (4 * Suc k)" using a Suc.prems(2) by simp
    then show ?thesis using Suc.IH[of a nz] Suc.prems(2) True unfolding rev ks_def[symmetric] by (simp del: mult_Suc_right)
  next
    case False
    have "unat ?t < 16" using t by simp
    then show ?thesis using Suc.IH[OF a, of False] False hex_val_digit unfolding rev ks_def[symmetric]
      by (auto simp: hex_value_def Let_def simp del: mult_Suc_right)
  qed
qed

lemma kputhex_value: "hex_value 0 (drop 2 (kputhex h)) = unat h"
proof -
  have l: "[28, 24, 20, 16, 12, 8, 4] = map ((*) 4) (rev [1..<Suc 7])" by (simp add: upt_rec)
  have "unat h div 2 ^ (4 * Suc 7) = 0" using unat_u32_less[of h] by simp
  then show ?thesis using hex_digits_value[of 0 h 7 True] by (simp add: kputhex_def l)
qed

lemma kputhex_inj: "kputhex g = kputhex h \<Longrightarrow> g = h"
  using kputhex_value[of g] kputhex_value[of h] by (simp add: word_unat_eq_iff)

lemma put_chars_eq:
  "put_chars cs buf i = (if cs = [] \<or> i + length cs \<le> length buf
     then Some (take i buf @ cs @ drop (i + length cs) buf) else None)" if "i \<le> length buf"
  using that
proof (induction cs arbitrary: i buf)
  case (Cons c cs)
  have "take (Suc i) (buf[i := c]) = take i buf @ [c]" if "i < length buf"
    using that by (simp add: take_Suc_conv_app_nth)
  then show ?case using Cons by (auto simp: kputcharatbuf_def put_def)
qed simp

text \<open>\<open>ksprintf\<close> writes the text and its terminator, or runs out of the buffer.\<close>

lemma ksprintf_eq:
  assumes "kformat text args = Some out"
  shows "ksprintf dest text args = (if length out < length dest then Some (out @ [NUL] @ drop (Suc (length out)) dest) else None)"
  using assms put_chars_eq[of 0 dest out]
  by (auto simp: ksprintf_def put_def list_update_append upd_conv_take_nth_drop)

end
