(* ===== verification/Byte_Memory.thy ===== *)
theory Byte_Memory
  imports Kstdio
begin

text \<open>
  Memory as a function from addresses to bytes: characters and bytes, strings of bytes, words of four bytes, and
  copies. The archive file system, the drivers and the C library share these facts.
\<close>

subsection \<open>Characters\<close>

lemma char_byte: "char_of (unat (of_char c :: u8)) = c" "char_of (unat b) = char_of (unat b') \<longleftrightarrow> b = (b' :: u8)"
  "char_of (unat b) = NUL \<longleftrightarrow> b = 0"
proof -
  have lt: "of_char c < (256 :: nat)" for c by (metis of_char_mod_256 mod_less_divisor zero_less_numeral)
  have u: "unat (of_char c :: u8) = of_char c" for c
    using unat_of_nat[where 'a = 8, of "of_char c"] lt[of c] by (simp add: of_nat_of_char take_bit_nat_eq_self)
  then show "char_of (unat (of_char c :: u8)) = c" by simp
  have "of_char (char_of (unat b)) = unat b" for b :: u8 using unat_u8_less[of b] by simp
  then show eq: "char_of (unat b) = char_of (unat b') \<longleftrightarrow> b = (b' :: u8)" for b b' by (metis word_eqI_unat)
  have "NUL = char_of (unat (0 :: u8))" by (simp add: NUL_def char_of_def)
  then show "char_of (unat b) = NUL \<longleftrightarrow> b = 0" using eq by metis
qed

lemma of_char_inj: "(of_char c :: u8) = of_char d \<longleftrightarrow> c = d"
  using char_byte(1)[of c] char_byte(1)[of d] by metis

subsection \<open>Sequences of bytes\<close>

definition load_bytes :: "ptr \<Rightarrow> nat \<Rightarrow> (ptr \<Rightarrow> u8) \<Rightarrow> string" where
  "load_bytes p n m = map (\<lambda>i. char_of (unat (m (p + of_nat i)))) [0..<n]"

lemma length_load_bytes [simp]: "length (load_bytes p n m) = n"
  by (simp add: load_bytes_def)

lemma nth_load_bytes [simp]: "i < n \<Longrightarrow> load_bytes p n m ! i = char_of (unat (m (p + of_nat i)))"
  by (simp add: load_bytes_def)

lemma load_bytes_cong: "(\<And>i. i < n \<Longrightarrow> m (p + of_nat i) = m' (p' + of_nat i)) \<Longrightarrow> load_bytes p n m = load_bytes p' n m'"
  by (simp add: load_bytes_def)

lemma load_bytes_add: "load_bytes p (a + b) m = load_bytes p a m @ load_bytes (p + of_nat a) b m"
  by (rule nth_equalityI) (auto simp: nth_append algebra_simps of_nat_diff)

lemma load_bytes_upd:
  assumes "k < n" "n \<le> 2 ^ 32"
  shows "load_bytes p n (m(p + of_nat k := v)) = (load_bytes p n m)[k := char_of (unat v)]"
proof (rule nth_equalityI)
  fix i assume i: "i < length (load_bytes p n (m(p + of_nat k := v)))"
  have "(of_nat i :: u32) = of_nat k \<longleftrightarrow> i = k"
    using i assms by (auto simp: word_unat_eq_iff unat_of_nat take_bit_nat_eq_self)
  then show "load_bytes p n (m(p + of_nat k := v)) ! i = (load_bytes p n m)[k := char_of (unat v)] ! i"
    using i assms by (cases "i = k") auto
qed simp

lemma load_bytes_sub: "a + b \<le> n \<Longrightarrow> load_bytes (p + of_nat a) b m = take b (drop a (load_bytes p n m))"
  by (rule nth_equalityI) (auto simp: algebra_simps)

subsection \<open>Words\<close>

definition load_u32 :: "ptr \<Rightarrow> (ptr \<Rightarrow> u8) \<Rightarrow> u32" where
  "load_u32 p m = ucast (m p) OR push_bit 8 (ucast (m (p + 1))) OR push_bit 16 (ucast (m (p + 2))) OR push_bit 24 (ucast (m (p + 3)))"

definition store_u32 :: "ptr \<Rightarrow> u32 \<Rightarrow> (ptr \<Rightarrow> u8) \<Rightarrow> (ptr \<Rightarrow> u8)" where
  "store_u32 p w m = m(p := ucast w, p + 1 := ucast (drop_bit 8 w), p + 2 := ucast (drop_bit 16 w), p + 3 := ucast (drop_bit 24 w))"

lemma bytes_u32: "(ucast (ucast w :: u8) :: u32) OR push_bit 8 (ucast (ucast (drop_bit 8 w) :: u8)) OR
   push_bit 16 (ucast (ucast (drop_bit 16 w) :: u8)) OR push_bit 24 (ucast (ucast (drop_bit 24 w) :: u8)) = w" for w :: u32
proof (rule bit_word_eqI)
  fix n assume "n < LENGTH(32)"
  then have "n < 8 \<or> 8 \<le> n \<and> n < 16 \<or> 16 \<le> n \<and> n < 24 \<or> 24 \<le> n \<and> n < 32" by auto
  then show "bit ((ucast (ucast w :: u8) :: u32) OR push_bit 8 (ucast (ucast (drop_bit 8 w) :: u8)) OR
      push_bit 16 (ucast (ucast (drop_bit 16 w) :: u8)) OR push_bit 24 (ucast (ucast (drop_bit 24 w) :: u8))) n = bit w n"
    by (elim disjE conjE) (simp_all add: bit_simps less_diff_conv2)
qed

lemma load_store_u32: "load_u32 p (store_u32 p w m) = w"
proof -
  have "p + 1 \<noteq> p" "p + 2 \<noteq> p" "p + 3 \<noteq> p" "p + 2 \<noteq> p + 1" "p + 3 \<noteq> p + 1" "p + 3 \<noteq> p + 2" by simp_all
  then have "store_u32 p w m p = ucast w" "store_u32 p w m (p + 1) = ucast (drop_bit 8 w)" "store_u32 p w m (p + 2) = ucast (drop_bit 16 w)"
    "store_u32 p w m (p + 3) = ucast (drop_bit 24 w)" unfolding store_u32_def by simp_all
  then show ?thesis using bytes_u32[of w] by (simp only: load_u32_def)
qed

lemma store_u32_other: "4 \<le> unat (x - p) \<Longrightarrow> store_u32 p w m x = m x"
  by (auto simp: store_u32_def)

subsection \<open>Copies\<close>

text \<open>A copy in ascending order is right when no byte is overwritten before it is read.\<close>

lemma memcpy_8_forward:
  assumes "\<forall>k<unat n. \<forall>j<k. src + of_nat k \<noteq> d + of_nat j"
  shows "memcpy_8 d src n m x = (if x - d < n then m (src + (x - d)) else m x)"
proof -
  define step where "step = (\<lambda>i (m :: ptr \<Rightarrow> u8). m(d + of_nat i := m (src + of_nat i)))"
  have step: "step i u x = (if x = d + of_nat i then u (src + of_nat i) else u x)" for i u x by (simp add: step_def)
  have "k \<le> unat n \<Longrightarrow> fold step [0..<k] m x = (if unat (x - d) < k then m (src + (x - d)) else m x)" for k x
  proof (induction k arbitrary: x)
    case (Suc k)
    have k: "unat (of_nat k :: u32) = k" using Suc.prems unat_u32_less[of n] by (simp add: unat_of_nat take_bit_nat_eq_self)
    have "k < unat n" using Suc.prems by simp
    moreover have "src + of_nat k = d + of_nat (unat (src + of_nat k - d))" by simp
    ultimately have "\<not> unat (src + of_nat k - d) < k" using assms by metis
    then have v: "fold step [0..<k] m (src + of_nat k) = m (src + of_nat k)" using Suc by simp
    show ?case
    proof (cases "x = d + of_nat k")
      case True
      then show ?thesis using v k step[of k "fold step [0..<k] m" x] by simp
    next
      case False
      then have "x - d \<noteq> of_nat k" by (auto simp: algebra_simps)
      then have "unat (x - d) \<noteq> k" using k by (metis word_eqI_unat)
      then show ?thesis using Suc False step[of k "fold step [0..<k] m" x] by (simp add: less_Suc_eq)
    qed
  qed simp
  from this[of "unat n" x] show ?thesis by (simp add: memcpy_8_def word_less_nat_alt step_def)
qed

lemma memcpy_8_apply:
  assumes "\<forall>j<unat n. \<not> src + of_nat j - d < n"
  shows "memcpy_8 d src n m x = (if x - d < n then m (src + (x - d)) else m x)"
proof (rule memcpy_8_forward, intro allI impI)
  fix k j assume kj: "k < unat n" "j < k"
  then have "unat (of_nat j :: u32) = j" using unat_u32_less[of n] by (simp add: unat_of_nat take_bit_nat_eq_self)
  then have "(of_nat j :: u32) < n" using kj by (simp add: word_less_nat_alt)
  then show "src + of_nat k \<noteq> d + of_nat j" using assms kj(1) by (metis add_diff_cancel_left')
qed

end
