(* ===== verification/Heap_View.thy ===== *)
theory Heap_View
  imports Byte_Memory
begin

text \<open>
  The memory of the kernel heap as code sees it that runs over the end of a block: headers are bytes like all others. The identifiers of file
  systems are strings of this kind, \<^verbatim>\<open>get_filesystem_id\<close> in \<^verbatim>\<open>vfs.c\<close> formats eleven bytes into a block of ten. Below are the comparison of two
  strings in this memory, and lemmas on where blocks are placed in a heap whose holes are small.
\<close>

subsection \<open>Bytes of headers\<close>

definition header_byte :: "kalloc \<Rightarrow> nat \<Rightarrow> u8" where
  "header_byte k i =
     (if i < 4 then ucast (drop_bit (8 * i) (ka_size k))
      else if i < 8 then ucast (drop_bit (8 * (i - 4)) (ka_next k))
      else if ka_present k then 1 else 0)"

definition heap_byte :: "'z kheap_scheme \<Rightarrow> ptr \<Rightarrow> u8" where
  "heap_byte s x =
     (case find (\<lambda>i. kh_items s (x - of_nat i) \<noteq> None) [0..<9] of
        None \<Rightarrow> kh_bytes s x
      | Some i \<Rightarrow> header_byte (the (kh_items s (x - of_nat i))) i)"

text \<open>\<open>strcmp\<close> on memory.\<close>

partial_function (option) strcmp_at :: "(ptr \<Rightarrow> u8) \<Rightarrow> ptr \<Rightarrow> ptr \<Rightarrow> int option" where
  "strcmp_at m str1 str2 =
     (if m str1 \<noteq> 0 \<or> m str2 \<noteq> 0
      then if m str1 \<noteq> m str2 then Some 1 else strcmp_at m (str1 + 1) (str2 + 1)
      else Some 0)"

subsection \<open>Headers and contents do not overlap\<close>

lemma block_offset:
  assumes "wf_blocks s bs" "(a, k) \<in> set bs" "i < block_len (a, k)"
  shows "unat (a + of_nat i) = unat a + i"
proof -
  have "unat a + i < 2 ^ 32" using wf_blocks_fit[OF assms(1,2)] assms(3) unat_u32_less[of "kh_end s"] by simp
  then show ?thesis by (simp add: unat_word_ariths unat_of_nat take_bit_nat_eq_self)
qed

lemma block_item:
  assumes "wf_blocks s bs" "kh_items s a = Some k"
  shows "(a, k) \<in> set bs"
proof -
  have "a \<in> fst ` set bs" "linked (kh_items s) (kh_head s) bs 0" using assms by (auto simp: wf_blocks_def)
  then obtain l where "(a, l) \<in> set bs" "kh_items s a = Some l" using linked_dom by force
  then show ?thesis using assms(2) by simp
qed

text \<open>A header that covers a byte of a block is the header of this block.\<close>

lemma header_of_block:
  assumes bs: "wf_blocks s bs" "(a, k) \<in> set bs" "i < block_len (a, k)" and h: "kh_items s (a + of_nat i - of_nat j) = Some l" "j < 9"
  shows "j = i \<and> a + of_nat i - of_nat j = a"
proof -
  define c where "c = a + of_nat i - of_nat j"
  have c: "(c, l) \<in> set bs" using block_item[OF bs(1)] h(1) by (simp add: c_def)
  have jl: "j < block_len (c, l)" using h(2) by (simp add: block_len_def)
  have "c + of_nat j = a + of_nat i" by (simp add: c_def)
  then have eq: "unat c + j = unat a + i" using block_offset[OF bs(1) c jl] block_offset[OF bs] by simp
  have "tiled (unat (kh_start s)) bs" using bs(1) by (simp add: wf_blocks_def)
  from tiled_disjoint[OF this bs(2) c] have "(a, k) = (c, l)" using eq bs(3) jl by (cases "(a, k) = (c, l)") auto
  then show ?thesis using eq by (simp add: c_def)
qed

lemma find_upt_first: "i < n \<Longrightarrow> P i \<Longrightarrow> (\<And>j. j < n \<Longrightarrow> P j \<Longrightarrow> j = i) \<Longrightarrow> find P [0..<n] = Some i"
proof -
  assume h: "i < n" "P i" "\<And>j. j < n \<Longrightarrow> P j \<Longrightarrow> j = i"
  have "find P [0..<n] \<noteq> None" unfolding find_None_iff using h(1,2) by auto
  then obtain j where j: "find P [0..<n] = Some j" by blast
  then obtain k where "k < length [0..<n]" "P ([0..<n] ! k)" "j = [0..<n] ! k" unfolding find_Some_iff by blast
  then have "j = i" using h(3)[of j] by simp
  then show ?thesis using j by simp
qed

lemma heap_byte_header:
  assumes "wf_blocks s bs" "(a, k) \<in> set bs" "i < 9"
  shows "heap_byte s (a + of_nat i) = header_byte k i"
proof -
  have i: "i < block_len (a, k)" using assms(3) by (simp add: block_len_def)
  have k: "kh_items s a = Some k" using linked_dom[of "kh_items s" "kh_head s" bs 0 a k] assms by (auto simp: wf_blocks_def)
  have "find (\<lambda>j. kh_items s (a + of_nat i - of_nat j) \<noteq> None) [0..<9] = Some i"
    by (rule find_upt_first) (use assms(3) k header_of_block[OF assms(1,2) i] in auto)
  then show ?thesis using k by (simp add: heap_byte_def)
qed

lemma heap_byte_payload:
  assumes "wf_heap s" "(p, m) \<in> heap_live s" "i < unat m"
  shows "heap_byte s (p + of_nat i) = kh_bytes s (p + of_nat i)"
proof -
  obtain bs where bs: "wf_blocks s bs" using assms(1) by (auto simp: wf_heap_def)
  from live_block[OF bs assms(2)] obtain a k where a: "(a, k) \<in> set bs" "p = a + sizeof_kalloc" "m = ka_size k" by (metis prod.inject)
  have e: "p + of_nat i = a + of_nat (9 + i)" by (simp add: a(2) sizeof_kalloc_def)
  have "9 + i < block_len (a, k)" using assms(3) a(3) by (simp add: block_len_def)
  from header_of_block[OF bs a(1) this] have "find (\<lambda>j. kh_items s (p + of_nat i - of_nat j) \<noteq> None) [0..<9] = None"
    unfolding e by (fastforce simp: find_None_iff)
  then show ?thesis by (simp add: heap_byte_def)
qed

text \<open>The last header ends the list with a null pointer, so that no string runs on for ever.\<close>

lemma heap_byte_zero:
  assumes "wf_heap s" "kh_head s \<noteq> 0"
  shows "\<exists>x. heap_byte s x = 0"
proof -
  obtain bs where bs: "wf_blocks s bs" using assms(1) by (auto simp: wf_heap_def)
  then have "bs \<noteq> []" using assms(2) by (auto simp: wf_blocks_def)
  then obtain pre a k where b: "bs = pre @ [(a, k)]" by (cases bs rule: rev_cases) auto
  then have "ka_next k = 0" using bs by (auto simp: wf_blocks_def)
  then have "heap_byte s (a + of_nat 4) = 0" using heap_byte_header[OF bs, of a k 4] b by (simp add: header_byte_def)
  then show ?thesis by blast
qed

subsection \<open>Comparisons\<close>

lemma strcmp_at_same:
  assumes "m x = 0"
  shows "strcmp_at m p p = Some 0"
proof -
  have "strcmp_at m q q = Some 0" if "x = q + of_nat n" for n q
    using that
  proof (induction n arbitrary: q)
    case 0
    then show ?case using assms by (subst strcmp_at.simps) simp
  next
    case (Suc n)
    then have "strcmp_at m (q + 1) (q + 1) = Some 0" by (intro Suc.IH) simp
    then show ?case by (subst strcmp_at.simps) simp
  qed
  from this[of p "unat (x - p)"] show ?thesis by simp
qed

lemma strcmp_at_differ:
  assumes "\<forall>j<i. m (p + of_nat j) = m (q + of_nat j) \<and> m (p + of_nat j) \<noteq> 0" "m (p + of_nat i) \<noteq> m (q + of_nat i)"
  shows "strcmp_at m p q = Some 1"
  using assms
proof (induction i arbitrary: p q)
  case 0
  then show ?case by (subst strcmp_at.simps) auto
next
  case (Suc i)
  have z: "p + of_nat 0 = p" "q + of_nat 0 = q" by simp_all
  have m: "m p = m q" "m p \<noteq> 0" using Suc.prems(1)[rule_format, OF zero_less_Suc, unfolded z] by blast+
  have "\<forall>j<i. m (p + 1 + of_nat j) = m (q + 1 + of_nat j) \<and> m (p + 1 + of_nat j) \<noteq> 0"
  proof (intro allI impI)
    fix j assume "j < i"
    then have "Suc j < Suc i" by simp
    moreover have "p + of_nat (Suc j) = p + 1 + of_nat j" "q + of_nat (Suc j) = q + 1 + of_nat j" by simp_all
    ultimately show "m (p + 1 + of_nat j) = m (q + 1 + of_nat j) \<and> m (p + 1 + of_nat j) \<noteq> 0" using Suc.prems(1) by metis
  qed
  moreover have "m (p + 1 + of_nat i) \<noteq> m (q + 1 + of_nat i)" using Suc.prems(2) by (simp add: add.assoc)
  ultimately have "strcmp_at m (p + 1) (q + 1) = Some 1" by (rule Suc.IH)
  then show ?case using m by (subst strcmp_at.simps) simp
qed

subsection \<open>Text in a block\<close>

text \<open>The bytes of a text at the start of a block in use. Its terminator may be outside of the block.\<close>

definition holds_at :: "ptr \<Rightarrow> string \<Rightarrow> 'z kheap_scheme \<Rightarrow> bool" where
  "holds_at p t s \<longleftrightarrow> NUL \<notin> set t \<and> (\<exists>m. (p, m) \<in> heap_live s \<and> length t \<le> unat m) \<and> (\<forall>i<length t. kh_bytes s (p + of_nat i) = of_char (t ! i))"

lemma holds_at_byte: "wf_heap s \<Longrightarrow> holds_at p t s \<Longrightarrow> i < length t \<Longrightarrow> heap_byte s (p + of_nat i) = of_char (t ! i)"
  using heap_byte_payload[of s p] by (fastforce simp: holds_at_def)

lemma strcmp_at_texts:
  assumes wf: "wf_heap s" and t: "holds_at p t s" "holds_at q u s" "length t = length u" "t \<noteq> u"
  shows "strcmp_at (heap_byte s) p q = Some 1"
proof -
  let ?d = "\<lambda>i. i < length t \<and> t ! i \<noteq> u ! i"
  have ex: "\<exists>i. ?d i" using t(3,4) by (auto simp: list_eq_iff_nth_eq)
  define i where "i = (LEAST i. ?d i)"
  have i: "?d i" unfolding i_def by (rule LeastI_ex[OF ex])
  have before: "t ! j = u ! j" if "j < i" for j using not_less_Least[OF that[unfolded i_def]] i that by auto
  have byte: "of_char c = (of_char d :: u8) \<longleftrightarrow> c = d" for c d by (metis char_byte(1))
  have nz: "of_char c \<noteq> (0 :: u8)" if "c \<noteq> NUL" for c
    using byte[of c NUL] that by (simp add: NUL_def)
  show ?thesis
  proof (rule strcmp_at_differ[of i])
    show "heap_byte s (p + of_nat i) \<noteq> heap_byte s (q + of_nat i)" using i t holds_at_byte[OF wf] byte by simp
    show "\<forall>j<i. heap_byte s (p + of_nat j) = heap_byte s (q + of_nat j) \<and> heap_byte s (p + of_nat j) \<noteq> 0"
    proof (intro allI impI)
      fix j assume j: "j < i"
      then have "j < length t" "j < length u" using i t(3) by auto
      moreover have "t ! j \<noteq> NUL" using t(1) nth_mem[OF \<open>j < length t\<close>] unfolding holds_at_def by metis
      ultimately show "heap_byte s (p + of_nat j) = heap_byte s (q + of_nat j) \<and> heap_byte s (p + of_nat j) \<noteq> 0"
        using before[OF j] holds_at_byte[OF wf t(1)] holds_at_byte[OF wf t(2)] nz by simp
    qed
  qed
qed

lemma area_byte: "unat p + unat n < 2 ^ 32 \<Longrightarrow> i < unat n \<Longrightarrow> unat (p + of_nat i) \<in> area (p, n)"
  "unat p + unat n < 2 ^ 32 \<Longrightarrow> i < unat n \<Longrightarrow> unat (p + of_nat i) = unat p + i"
  by (simp_all add: area_def unat_word_ariths unat_of_nat take_bit_nat_eq_self)

text \<open>An allocation leaves the texts in blocks alone.\<close>

lemma holds_at_allocated:
  assumes a: "heap_allocated s n q s'" and h: "holds_at p t s"
  shows "holds_at p t s'"
proof -
  obtain m where m: "(p, m) \<in> heap_live s" "length t \<le> unat m" using h by (auto simp: holds_at_def)
  obtain l where l: "heap_live s' = insert (q, l) (heap_live s)" "area (p, m) \<inter> area (q, l) = {}"
    "\<forall>x. kh_bytes s' x = (if unat x \<in> area (q, l) then 0 else kh_bytes s x)"
    using a m(1) unfolding heap_allocated_def by blast
  have nw: "unat p + unat m < 2 ^ 32"
  proof -
    have "wf_heap s'" "(p, m) \<in> heap_live s'" using a m(1) l(1) by (auto simp: heap_allocated_def)
    then show ?thesis by (rule live_no_wrap)
  qed
  have "kh_bytes s' (p + of_nat i) = kh_bytes s (p + of_nat i)" if i: "i < length t" for i
  proof -
    have "unat (p + of_nat i) \<in> area (p, m)" using area_byte(1)[OF nw] i m(2) by simp
    then show ?thesis using l(2,3) by auto
  qed
  then show ?thesis using h m l(1) by (auto simp: holds_at_def)
qed

subsection \<open>Where a block is placed\<close>

text \<open>A request is served behind the last block, or by a free block that is large enough.\<close>

lemma malloc_cases:
  assumes b: "heap_budget j s" and run: "kern_malloc n s = Some (p, s')" "p \<noteq> 0"
  obtains (behind) a k hs where "kh_items s a = Some k" "ka_next k = 0" "p = hs + sizeof_kalloc" "\<forall>c\<in>dom (kh_items s). unat c < unat hs"
      "kh_items s' = (kh_items s)(a \<mapsto> k\<lparr>ka_next := hs\<rparr>, hs \<mapsto> \<lparr>ka_size = n, ka_next = 0, ka_present = True\<rparr>)"
  | (reuse) a k where "kh_items s a = Some k" "\<not> ka_present k" "sint n \<le> sint (ka_size k)" "p = a + sizeof_kalloc"
      "kh_items s' = heap_reuse n a k (kh_items s)"
proof -
  obtain bs where wf: "wf_blocks s bs" "kh_head s \<noteq> 0" using b by (auto simp: heap_budget_def wf_heap_def)
  then have w: "linked (kh_items s) (kh_head s) bs 0" "bs \<noteq> []" "dom (kh_items s) = fst ` set bs"
    "tiled (unat (kh_start s)) bs" by (auto simp: wf_blocks_def)
  from heap_walk_found[OF w(1,2), of n] obtain pre a k post where h: "bs = pre @ (a, k) # post"
    "heap_walk (kh_items s) n (kh_head s) = Some a" "post \<noteq> [] \<longrightarrow> sint n \<le> sint (ka_size k) \<and> \<not> ka_present k" by metis
  have k: "kh_items s a = Some k" using linked_dom[OF w(1), of a k] h(1) by simp
  have fin: "p = i + sizeof_kalloc" "kh_items s' = kh_items u" if "heap_finish i u = Some (p, s')" for i and u :: "'a vm_scheme"
    using that by (auto simp: heap_finish_def Let_def split: option.splits)
  show ?thesis
  proof (cases "post = []")
    case True
    define hs where "hs = a + (sizeof_kalloc + ka_size k)"
    have next0: "ka_next k = 0" using w(1) h(1) True by simp
    have "unat a + 9 + unat (ka_size k) < 2 ^ 32"
      using wf_blocks_fit[OF wf(1), of "(a, k)"] h(1) unat_u32_less[of "kh_end s"] by (simp add: block_len_def)
    then have uhs: "unat hs = unat a + 9 + unat (ka_size k)" by (simp add: hs_def sizeof_kalloc_def unat_word_ariths)
    have "unat c < unat hs" if "c \<in> dom (kh_items s)" for c
    proof -
      from that obtain l where "(c, l) \<in> set bs" using w(3) by auto
      from tiled_range[OF w(4) this] show ?thesis using True h(1) uhs by (simp add: block_len_def)
    qed
    moreover obtain u where "heap_finish hs u = Some (p, s')"
      "kh_items u = (kh_items s)(a \<mapsto> k\<lparr>ka_next := hs\<rparr>, hs \<mapsto> \<lparr>ka_size = n, ka_next = 0, ka_present = True\<rparr>)"
      using run wf(2) h(2) k next0 by (auto simp: kern_malloc_def heap_allocate_def Let_def increase_heap_sel(1) hs_def[symmetric] split: if_splits)
    ultimately show ?thesis using behind[OF k next0, of hs] fin by auto
  next
    case False
    then obtain c l qs where post: "post = (c, l) # qs" by (cases post) auto
    have "ka_next k = c" "c \<noteq> 0" using w(1) h(1) post by auto
    then have "heap_finish a (s\<lparr>kh_items := heap_reuse n a k (kh_items s)\<rparr>) = Some (p, s')"
      using run wf(2) h(2) k by (simp add: kern_malloc_def heap_allocate_def Let_def)
    from fin[OF this] show ?thesis using reuse[OF k] h(3) False by simp
  qed
qed

text \<open>\<open>small_holes h s\<close>: every free block has less than \<open>h\<close> bytes.\<close>

definition small_holes :: "nat \<Rightarrow> 'z kheap_scheme \<Rightarrow> bool" where
  "small_holes h s \<longleftrightarrow> (\<forall>a k. kh_items s a = Some k \<longrightarrow> \<not> ka_present k \<longrightarrow> unat (ka_size k) < h)"

lemma full_small: "heap_full s \<Longrightarrow> small_holes h s"
  by (auto simp: heap_full_def small_holes_def ran_def)

lemma item_size: "wf_heap s \<Longrightarrow> kh_items s a = Some k \<Longrightarrow> unat (ka_size k) < 2 ^ 31"
  using block_item wf_blocks_payload(2)[of s _ "(a, k)"] by (fastforce simp: wf_heap_def)

lemma sint_small_le:
  fixes n m :: u32
  assumes "sint n \<le> sint m" "unat n < 2 ^ 31" "unat m < 2 ^ 31"
  shows "unat n \<le> unat m"
proof -
  have "sint n = uint n" "sint m = uint m" using assms sint_small by simp_all
  then show ?thesis using assms(1) by (metis word_le_def word_le_nat_alt)
qed

text \<open>Small holes stay small: what a request leaves of a free block is smaller than the block.\<close>

lemma malloc_small:
  assumes b: "heap_budget j s" and run: "kern_malloc n s = Some (p, s')" "p \<noteq> 0" and n: "unat n < 2 ^ 31" and h: "small_holes h s"
  shows "small_holes h s'" "\<exists>k. kh_items s' (p - sizeof_kalloc) = Some k \<and> (unat (ka_size k) < h \<or> ka_size k = n)"
    "h \<le> unat n \<Longrightarrow> \<exists>k. kh_items s' (p - sizeof_kalloc) = Some k \<and> ka_size k = n \<and> (\<forall>c\<in>dom (kh_items s'). unat c \<le> unat (p - sizeof_kalloc))"
proof -
  have wf: "wf_heap s" using b by (simp add: heap_budget_def)
  have "small_holes h s' \<and> (\<exists>k. kh_items s' (p - sizeof_kalloc) = Some k \<and> (unat (ka_size k) < h \<or> ka_size k = n)) \<and>
    (h \<le> unat n \<longrightarrow> (\<exists>k. kh_items s' (p - sizeof_kalloc) = Some k \<and> ka_size k = n \<and> (\<forall>c\<in>dom (kh_items s'). unat c \<le> unat (p - sizeof_kalloc))))"
  proof (cases rule: malloc_cases[OF b run, case_names behind reuse])
    case (behind a k hs)
    have "hs \<notin> dom (kh_items s)" using behind(4) by blast
    then have "small_holes h s'" using h behind(1) by (auto simp: small_holes_def behind(5))
    moreover have "\<forall>c\<in>dom (kh_items s'). unat c \<le> unat hs" 
    proof
      fix c assume "c \<in> dom (kh_items s')"
      then have "c = hs \<or> c \<in> dom (kh_items s)" using behind(1) by (auto simp: behind(5) split: if_splits)
      then show "unat c \<le> unat hs" using behind(4) less_imp_le by blast
    qed
    ultimately show ?thesis by (simp add: behind(3,5))
  next
    case (reuse a k)
    have sz: "unat (ka_size k) < 2 ^ 31" "unat (ka_size k) < h" using item_size[OF wf reuse(1)] h reuse(1,2) by (auto simp: small_holes_def)
    have le: "unat n \<le> unat (ka_size k)" by (rule sint_small_le[OF reuse(3) n sz(1)])
    have d: "unat (ka_size k - n) = unat (ka_size k) - unat n" using le by (simp add: unat_sub word_le_nat_alt)
    have sib: "unat (ka_size k - n - sizeof_kalloc) < h" if "sint (sizeof_kalloc + 1) \<le> sint (ka_size k - n)"
    proof -
      have "unat (ka_size k - n) < 2 ^ 31" using d sz(1) by simp
      from sint_small_le[OF that _ this] have "10 \<le> unat (ka_size k - n)" by (simp add: sizeof_kalloc_def)
      then have "unat (ka_size k - n - sizeof_kalloc) = unat (ka_size k - n) - 9" by (simp add: sizeof_kalloc_def unat_sub word_le_nat_alt)
      then show ?thesis using d sz(2) by simp
    qed
    have "small_holes h s'" using h sib by (auto simp: small_holes_def reuse(5) heap_reuse_def Let_def split: if_splits)
    moreover have "\<exists>k'. kh_items s' a = Some k' \<and> (unat (ka_size k') < h \<or> ka_size k' = n)"
      using sz(2) sib[unfolded sizeof_kalloc_def] by (auto simp: reuse(5) heap_reuse_def Let_def sizeof_kalloc_def)
    ultimately show ?thesis using le sz(2) by (simp add: reuse(4))
  qed
  then show "small_holes h s'" "\<exists>k. kh_items s' (p - sizeof_kalloc) = Some k \<and> (unat (ka_size k) < h \<or> ka_size k = n)"
    "h \<le> unat n \<Longrightarrow> \<exists>k. kh_items s' (p - sizeof_kalloc) = Some k \<and> ka_size k = n \<and> (\<forall>c\<in>dom (kh_items s'). unat c \<le> unat (p - sizeof_kalloc))"
    by blast+
qed

lemma free_small:
  assumes "small_holes h s" "kh_items s (p - sizeof_kalloc) = Some k" "unat (ka_size k) < h" "kern_free p s = Some s'"
  shows "small_holes h s'"
  using assms by (auto simp: small_holes_def kern_free_def heap_free_def Let_def split: if_splits)

text \<open>With all holes smaller than the request, the byte behind the new block belongs to no block.\<close>

lemma malloc_behind:
  assumes b: "heap_budget j s" and run: "kern_malloc n s = Some (p, s')" "p \<noteq> 0" and n: "unat n < 2 ^ 31" and h: "small_holes h s" "h \<le> unat n"
    and wf: "wf_heap s'"
  shows "kh_items s' (p + n) = None"
proof -
  obtain k where k: "kh_items s' (p - sizeof_kalloc) = Some k" "ka_size k = n" "\<forall>c\<in>dom (kh_items s'). unat c \<le> unat (p - sizeof_kalloc)"
    using malloc_small(3)[OF b run n h] by blast
  obtain bs where bs: "wf_blocks s' bs" using wf by (auto simp: wf_heap_def)
  note kb = block_item[OF bs k(1)]
  have "unat (p - sizeof_kalloc) + (9 + unat n) < 2 ^ 32"
    using wf_blocks_fit[OF bs kb] k(2) unat_u32_less[of "kh_end s'"] by (simp add: block_len_def)
  then have "unat (p - sizeof_kalloc) < unat ((p - sizeof_kalloc) + (9 + n))" by (simp add: unat_word_ariths)
  moreover have "(p - sizeof_kalloc) + (9 + n) = p + n" by (simp add: sizeof_kalloc_def)
  ultimately have "unat (p - sizeof_kalloc) < unat (p + n)" by metis
  then show ?thesis using k(3) by (metis domI leD not_None_eq)
qed

subsection \<open>What allocations keep\<close>

definition heap_kept :: "nat \<Rightarrow> 'z kheap_scheme \<Rightarrow> 'z kheap_scheme \<Rightarrow> bool" where
  "heap_kept h s s' \<longleftrightarrow> (small_holes h s \<longrightarrow> small_holes h s') \<and> (\<forall>p t. holds_at p t s \<longrightarrow> holds_at p t s')"

lemma heap_kept_trans: "heap_kept h s s1 \<Longrightarrow> heap_kept h s1 s2 \<Longrightarrow> heap_kept h s s2"
  by (auto simp: heap_kept_def)

lemma heap_kept_cong: "kh_items s' = kh_items s \<Longrightarrow> kh_bytes s' = kh_bytes s \<Longrightarrow> heap_kept h s s'"
  by (simp add: heap_kept_def small_holes_def holds_at_def)

lemma malloc_kept:
  assumes "heap_budget j s" "kern_malloc n s = Some (p, s')" "unat n < 2 ^ 31" "heap_allocated s n p s'"
  shows "heap_kept h s s'"
  using malloc_small(1)[OF assms(1,2) _ assms(3)] holds_at_allocated[OF assms(4)] assms(4) by (auto simp: heap_kept_def heap_allocated_def)

text \<open>A buffer smaller than the bound leaves no larger hole when it is given back.\<close>

lemma malloc_buffer:
  assumes b: "heap_budget j s" and run: "kern_malloc n s = Some (p, s')" and n: "unat n < 2 ^ 31" "unat n < h"
    and a: "heap_allocated s n p s'" and h: "small_holes h s"
  shows "\<exists>m. (p, m) \<in> heap_live s' \<and> unat m < h"
proof -
  obtain m where m: "(p, m) \<in> heap_live s'" "p \<noteq> 0" using a by (auto simp: heap_allocated_def)
  obtain k where k: "kh_items s' (p - sizeof_kalloc) = Some k" "unat (ka_size k) < h \<or> ka_size k = n"
    using malloc_small(2)[OF b run m(2) n(1) h] by blast
  have "m = ka_size k" using m(1) k(1) by (auto simp: in_live_of)
  then show ?thesis using m(1) k(2) n(2) by auto
qed

lemma free_buffer:
  assumes wf: "wf_heap s" and p: "(p, m) \<in> heap_live s" "unat m < h" and run: "kern_free p s = Some s'"
  shows "small_holes h s \<Longrightarrow> small_holes h s'" "holds_at q t s \<Longrightarrow> q \<noteq> p \<Longrightarrow> holds_at q t s'"
    "(q, l) \<in> heap_live s \<Longrightarrow> q \<noteq> p \<Longrightarrow> (q, l) \<in> heap_live s'"
proof -
  obtain k where k: "kh_items s (p - sizeof_kalloc) = Some k" "m = ka_size k" using p(1) by (auto simp: in_live_of)
  show "small_holes h s \<Longrightarrow> small_holes h s'" using free_small[OF _ k(1) _ run] p(2) k(2) by blast
  have l: "heap_live s' = heap_live s - {(p, m)}" "kh_bytes s' = kh_bytes s"
    using heap_free_correct[OF wf p(1)] run by (auto simp: kern_free_def)
  show "holds_at q t s \<Longrightarrow> q \<noteq> p \<Longrightarrow> holds_at q t s'" by (auto simp: holds_at_def l)
  show "(q, l) \<in> heap_live s \<Longrightarrow> q \<noteq> p \<Longrightarrow> (q, l) \<in> heap_live s'" by (simp add: l)
qed

text \<open>Two buffers that are taken and given back.\<close>

lemma two_buffers_kept:
  assumes b: "heap_budget j s" "heap_budget j1 s1" "heap_budget j2 s2" "heap_budget j3 s3"
    and m: "kern_malloc n s = Some (p, s1)" "heap_allocated s n p s1" "kern_malloc n s1 = Some (q, s2)" "heap_allocated s1 n q s2"
    and n: "unat n < 2 ^ 31" "unat n < h" and f: "kern_free p s2 = Some s3" "kern_free q s3 = Some s4"
  shows "heap_kept h s s4"
proof -
  have wf: "wf_heap s2" "wf_heap s3" using b(3,4) by (simp_all add: heap_budget_def)
  have sub: "heap_live s \<subseteq> heap_live s1" "heap_live s1 \<subseteq> heap_live s2" "p \<notin> fst ` heap_live s" "q \<notin> fst ` heap_live s1"
    using m(2,4) by (auto simp: heap_allocated_def)
  note k1 = malloc_kept[OF b(1) m(1) n(1) m(2)] and k2 = malloc_kept[OF b(2) m(3) n(1) m(4)]
  have k: "small_holes h s \<Longrightarrow> small_holes h s1" "small_holes h s \<Longrightarrow> small_holes h s2" "holds_at a t s \<Longrightarrow> holds_at a t s2" for a t
    using k1[of h] k2[of h] by (auto simp: heap_kept_def)
  have new: "\<exists>l. (r, l) \<in> heap_live u'" if "heap_allocated u n r u'" for r and u u' :: "'a vm_scheme"
    using that by (auto simp: heap_allocated_def)
  obtain l1 l2 where "(p, l1) \<in> heap_live s1" and lq: "(q, l2) \<in> heap_live s2" using new[OF m(2)] new[OF m(4)] by blast
  then have lp: "(p, l1) \<in> heap_live s2" using sub(2) by blast
  have pq: "p \<noteq> q" using m(2) sub(4) by (force simp: heap_allocated_def)
  have "holds_at a t s4" if h: "holds_at a t s" for a t
  proof -
    obtain l where "(a, l) \<in> heap_live s" using h by (auto simp: holds_at_def)
    then have "a \<noteq> p" "a \<noteq> q" using sub by force+
    moreover have i: "unat l1 < Suc (unat l1)" "unat l2 < Suc (unat l2)" by simp_all
    moreover have "holds_at a t s3" by (rule free_buffer(2)[OF wf(1) lp i(1) f(1) k(3)[OF h]]) fact
    ultimately show ?thesis using free_buffer(2)[OF wf(2) free_buffer(3)[OF wf(1) lp i(1) f(1) lq] i(2) f(2)] pq by blast
  qed
  moreover have "small_holes h s4" if h: "small_holes h s"
  proof -
    obtain n1 where n1: "(p, n1) \<in> heap_live s1" "unat n1 < h" using malloc_buffer[OF b(1) m(1) n m(2) h] by blast
    obtain n2 where n2: "(q, n2) \<in> heap_live s2" "unat n2 < h" using malloc_buffer[OF b(2) m(3) n m(4) k(1)[OF h]] by blast
    have p2: "(p, n1) \<in> heap_live s2" using n1(1) sub(2) by blast
    have "small_holes h s3" by (rule free_buffer(1)[OF wf(1) p2 n1(2) f(1) k(2)[OF h]])
    then show ?thesis using free_buffer(1)[OF wf(2) free_buffer(3)[OF wf(1) p2 n1(2) f(1) n2(1)] n2(2) f(2)] pq by blast
  qed
  ultimately show ?thesis by (simp add: heap_kept_def)
qed

end
