(* ===== verification/Vfs.thy ===== *)
theory Vfs
  imports Heap_View
begin

text \<open>
  The virtual file system, \<^verbatim>\<open>kernel/vfs/vfs.c\<close>, with \<^verbatim>\<open>kernel/util/path.c\<close>. A \<open>vfs_gen_node_t *\<close> is a key of the
  store \<open>vnodes\<close>, 0 the null pointer. A function pointer of a node is null or the name of the C function it
  points to, and a call through it goes to the record \<open>calls\<close>, the code of the file systems: the driver
  theories instantiate it. \<open>tree_pointer\<close> is the subtree of the mount tree whose data the node is.
\<close>

subsection \<open>State\<close>

datatype fn = NULL_fn | Sym string

definition VFS_NODE_TYPE_DIRE :: u16 where "VFS_NODE_TYPE_DIRE = 0x20"
definition VFS_NODE_TYPE_SDIR :: u16 where "VFS_NODE_TYPE_SDIR = 0x80"
definition sizeof_vnode :: u32 where "sizeof_vnode = 64"

record vfs_gen_node =
  nd_name :: string
  node_no :: u32
  nd_size :: u32
  type_flags :: u16
  specific_type :: u16
  node_create :: fn
  node_open :: fn
  node_close :: fn
  node_read :: fn
  node_write :: fn
  node_control :: fn
  node_status :: fn
  dir_read :: fn
  dir_find :: fn
  dir_list :: fn
  base_pointer :: ptr

record vfs = kern +
  vnodes :: "ptr \<rightharpoonup> vfs_gen_node"
  vfs_root_node :: ptr
  vfs_mountpoint_tree :: "gen_tree option"
  registered_filesystems :: "(ptr \<times> string) list"
  node_number :: int
  filesystem_id :: u16
  vfs_is_ready_flag :: bool

record 's calls =
  call_node :: "string \<Rightarrow> ptr \<Rightarrow> 's \<Rightarrow> (int \<times> 's) option"
  call_io :: "string \<Rightarrow> ptr \<Rightarrow> u32 \<Rightarrow> u32 \<Rightarrow> ptr \<Rightarrow> 's \<Rightarrow> (int \<times> 's) option"
  call_control :: "string \<Rightarrow> ptr \<Rightarrow> u32 \<Rightarrow> ptr \<Rightarrow> 's \<Rightarrow> (int \<times> 's) option"
  call_status :: "string \<Rightarrow> ptr \<Rightarrow> 's \<Rightarrow> (u32 \<times> 's) option"
  call_create :: "string \<Rightarrow> ptr \<Rightarrow> string \<Rightarrow> u16 \<Rightarrow> ptr \<Rightarrow> 's \<Rightarrow> (ptr \<times> 's) option"
  call_readdir :: "string \<Rightarrow> ptr \<Rightarrow> int \<Rightarrow> 's \<Rightarrow> (ptr \<times> 's) option"
  call_finddir :: "string \<Rightarrow> ptr \<Rightarrow> string \<Rightarrow> 's \<Rightarrow> (ptr \<times> 's) option"
  call_listdir :: "string \<Rightarrow> ptr \<Rightarrow> 's \<Rightarrow> (ptr list option \<times> 's) option"
  call_mount :: "string \<Rightarrow> ptr \<Rightarrow> string \<Rightarrow> 's \<Rightarrow> (ptr \<times> 's) option"

subsection \<open>Paths (path.c)\<close>

text \<open>The number of slashes, and the path with its slashes turned into terminators.\<close>

fun parse_path :: "string \<Rightarrow> nat \<times> string" where
  "parse_path [] = (0, [])"
| "parse_path (c # cs) =
     (let (segments, it) = parse_path cs
      in if c = CHR ''/'' then (segments + 1, NUL # it) else (segments, c # it))"

definition cstr_at :: "string \<Rightarrow> nat \<Rightarrow> string" where
  "cstr_at buf i = takeWhile (\<lambda>c. c \<noteq> NUL) (drop i buf)"

subsection \<open>Numbers and identifiers\<close>

definition vfs_is_ready :: "'z vfs_scheme \<Rightarrow> bool" where
  "vfs_is_ready s = vfs_is_ready_flag s"

text \<open>
  The characters of the identifier fill the block of ten bytes; the terminator that \<open>ksprintf\<close> puts behind them is the first byte of the
  header that follows, if there is one.
\<close>

definition get_filesystem_id :: "'z vfs_scheme \<Rightarrow> (ptr \<times> 'z vfs_scheme) option" where
  "get_filesystem_id s = do {
     (ident, s) \<leftarrow> kern_malloc 10 s;
     if ident = 0 then None
     else do {
       let s = s\<lparr>kh_bytes := memset_8 ident 0 10 (kh_bytes s)\<rparr>;
       txt \<leftarrow> kformat ''ID: %x'' [Kuint (ucast (filesystem_id s))];
       let s = zero_behind (ident + of_nat (length txt)) (s\<lparr>kh_bytes := write_string ident txt (kh_bytes s)\<rparr>);
       Some (ident, s\<lparr>filesystem_id := filesystem_id s + 1\<rparr>)
     }
   }"

definition get_node_no :: "'z vfs_scheme \<Rightarrow> int \<times> 'z vfs_scheme" where
  "get_node_no s = (node_number s + 1, s\<lparr>node_number := node_number s + 1\<rparr>)"

subsection \<open>Stub directories\<close>

definition tree_pointer :: "ptr \<Rightarrow> 'z vfs_scheme \<Rightarrow> gen_tree option" where
  "tree_pointer node s = generic_tree_find_subtree (vfs_mountpoint_tree s) node"

definition nth_child :: "gen_tree list \<Rightarrow> int \<Rightarrow> ptr" where
  "nth_child ts n = (if 0 \<le> n \<and> n < int (length ts) then tdata (ts ! nat n) else 0)"

definition vfs_stub_directory_readdir :: "ptr \<Rightarrow> int \<Rightarrow> 'z vfs_scheme \<Rightarrow> ptr" where
  "vfs_stub_directory_readdir node entry_no s =
     (case tree_pointer node s of None \<Rightarrow> 0 | Some t \<Rightarrow> nth_child (sub_trees t) entry_no)"

fun find_child :: "(ptr \<rightharpoonup> vfs_gen_node) \<Rightarrow> string \<Rightarrow> ptr list \<Rightarrow> ptr option" where
  "find_child nds nm [] = Some 0"
| "find_child nds nm (p # ps) = do {
     nd \<leftarrow> nds p;
     if strcmp (nd_name nd) nm = 0 then Some p else find_child nds nm ps
   }"

definition vfs_stub_directory_finddir :: "ptr \<Rightarrow> string \<Rightarrow> 'z vfs_scheme \<Rightarrow> ptr option" where
  "vfs_stub_directory_finddir node nm s =
     (case tree_pointer node s of None \<Rightarrow> Some 0 | Some t \<Rightarrow> find_child (vnodes s) nm (map tdata (sub_trees t)))"

definition vfs_stub_directory_listdir :: "ptr \<Rightarrow> 'z vfs_scheme \<Rightarrow> (ptr list \<times> 'z vfs_scheme) option" where
  "vfs_stub_directory_listdir node s = do {
     let ns = (case tree_pointer node s of None \<Rightarrow> [] | Some t \<Rightarrow> takeWhile (\<lambda>p. p \<noteq> 0) (map tdata (sub_trees t)));
     (a, s) \<leftarrow> kern_malloc (of_nat (length ns) * sizeof_vnode) s;
     if a = 0 \<and> ns \<noteq> [] then None else Some (ns, s)
   }"

definition vfs_create_stub_directory :: "string \<Rightarrow> 'z vfs_scheme \<Rightarrow> (ptr \<times> 'z vfs_scheme) option" where
  "vfs_create_stub_directory nm s = do {
     (node, s) \<leftarrow> kern_malloc sizeof_vnode s;
     if node = 0 then None
     else do {
       (nm_ptr, s) \<leftarrow> strdup nm s;
       let (no, s) = get_node_no s;
       Some (node, s\<lparr>vnodes := (vnodes s)(node \<mapsto>
         \<lparr>nd_name = nm, node_no = word_of_int no, nd_size = 0, type_flags = VFS_NODE_TYPE_SDIR, specific_type = 0,
          node_create = NULL_fn, node_open = NULL_fn, node_close = NULL_fn, node_read = NULL_fn, node_write = NULL_fn,
          node_control = NULL_fn, node_status = NULL_fn, dir_read = Sym ''vfs_stub_directory_readdir'',
          dir_find = Sym ''vfs_stub_directory_finddir'', dir_list = Sym ''vfs_stub_directory_listdir'',
          base_pointer = 0\<rparr>)\<rparr>)
     }
   }"

subsection \<open>Mounting\<close>

text \<open>One level of the walk in \<open>mount_in_vfs\<close>: the last child with the name becomes the new work tree.\<close>

fun match_children :: "(ptr \<rightharpoonup> vfs_gen_node) \<Rightarrow> string \<Rightarrow> ptr list \<Rightarrow> ptr \<times> bool \<Rightarrow> (ptr \<times> bool) option" where
  "match_children nds nm [] r = Some r"
| "match_children nds nm (p # ps) r = do {
     nd \<leftarrow> nds p;
     match_children nds nm ps (if strcmp (nd_name nd) nm = 0 then (p, True) else r)
   }"

fun mount_walk :: "string \<Rightarrow> nat \<Rightarrow> nat \<Rightarrow> ptr \<Rightarrow> 'z vfs_scheme \<Rightarrow> (ptr \<times> 'z vfs_scheme) option" where
  "mount_walk buf 0 i work s = Some (work, s)"
| "mount_walk buf (Suc segments) i work s = do {
     t \<leftarrow> generic_tree_find_subtree (vfs_mountpoint_tree s) work;
     (w, hit) \<leftarrow> match_children (vnodes s) (cstr_at buf i) (map tdata (sub_trees t)) (work, False);
     (w, s) \<leftarrow> (if hit then Some (w, s)
                 else do {
                   (cand, s) \<leftarrow> vfs_create_stub_directory (cstr_at buf i) s;
                   Some (cand, s\<lparr>vfs_mountpoint_tree :=
                     map_option (\<lambda>t. generic_tree_create cand (Some (work, t))) (vfs_mountpoint_tree s)\<rparr>)
                 });
     mount_walk buf segments (i + length (cstr_at buf i) + 1) w s
   }"

fun tree_set_data :: "ptr \<Rightarrow> ptr \<Rightarrow> gen_tree \<Rightarrow> gen_tree" where
  "tree_set_data old new (GTree d ts) = GTree (if d = old then new else d) (map (tree_set_data old new) ts)"

text \<open>Mounting at the root, and at a path below it; the result is the mounted node, or null.\<close>

definition mount_at_root :: "ptr \<Rightarrow> 'z vfs_scheme \<Rightarrow> (ptr \<times> 'z vfs_scheme) option" where
  "mount_at_root node s =
     (case vfs_mountpoint_tree s of
        None \<Rightarrow> Some (node, s\<lparr>vfs_mountpoint_tree := Some (generic_tree_create node None), vfs_root_node := node\<rparr>)
      | Some t \<Rightarrow> do {
          ret \<leftarrow> vnodes s (tdata t);
          if type_flags ret \<noteq> VFS_NODE_TYPE_SDIR then Some (0, s)
          else Some (node, s\<lparr>vfs_mountpoint_tree := Some (GTree node (sub_trees t)), vfs_root_node := node\<rparr>)
        })"

definition mount_below :: "ptr \<Rightarrow> nat \<Rightarrow> string \<Rightarrow> 'z vfs_scheme \<Rightarrow> (ptr \<times> 'z vfs_scheme) option" where
  "mount_below node segments buf s = do {
     t \<leftarrow> vfs_mountpoint_tree s;
     (w, s) \<leftarrow> mount_walk buf segments 1 (tdata t) s;
     ret \<leftarrow> vnodes s w;
     nd \<leftarrow> vnodes s node;
     if strcmp (nd_name ret) (nd_name nd) = 0
     then (if type_flags ret = VFS_NODE_TYPE_SDIR
           then do {
             s \<leftarrow> kern_free w s;
             Some (node, s\<lparr>vnodes := (vnodes s)(w := None),
                           vfs_mountpoint_tree := map_option (tree_set_data w node) (vfs_mountpoint_tree s)\<rparr>)
           }
           else Some (0, s))
     else Some (0, s)
   }"

definition mount_in_vfs :: "ptr \<Rightarrow> string option \<Rightarrow> 'z vfs_scheme \<Rightarrow> (ptr \<times> 'z vfs_scheme) option" where
  "mount_in_vfs node mountpoint s =
     (case mountpoint of
        None \<Rightarrow> Some (0, s)
      | Some path \<Rightarrow>
          if node = 0 \<or> first_char path \<noteq> CHR ''/'' then Some (0, s)
          else do {
            let path_len = length path;
            (it, s) \<leftarrow> kern_malloc (of_nat (path_len + 1)) s;
            if it = 0 then None
            else do {
              let (segments, buf) = parse_path path;
              (ret, s) \<leftarrow> (if segments = 1 \<and> path_len = 1 then mount_at_root node s else mount_below node segments buf s);
              s \<leftarrow> kern_free it s;
              Some (ret, s)
            }
          })"

definition initialise_vfs_layer :: "'z vfs_scheme \<Rightarrow> 'z vfs_scheme option" where
  "initialise_vfs_layer s = do {
     (root_stub, s) \<leftarrow> vfs_create_stub_directory ''/'' s;
     let s = s\<lparr>registered_filesystems := []\<rparr>;
     (r, s) \<leftarrow> mount_in_vfs root_stub (Some ''/'') s;
     Some (s\<lparr>vfs_root_node := r, vfs_is_ready_flag := True\<rparr>)
   }"

definition vfs_get_root_tree :: "'z vfs_scheme \<Rightarrow> gen_tree option" where
  "vfs_get_root_tree s = vfs_mountpoint_tree s"

definition vfs_get_root_node :: "'z vfs_scheme \<Rightarrow> ptr" where
  "vfs_get_root_node s = vfs_root_node s"

subsection \<open>Finding a node\<close>

text \<open>As written, a child that does not match resets the flag, also after an earlier child has matched.\<close>

fun find_children :: "(ptr \<rightharpoonup> vfs_gen_node) \<Rightarrow> string \<Rightarrow> ptr list \<Rightarrow> ptr \<times> bool \<Rightarrow> (ptr \<times> bool) option" where
  "find_children nds nm [] r = Some r"
| "find_children nds nm (p # ps) (w, hit) = do {
     nd \<leftarrow> nds p;
     find_children nds nm ps (if strcmp (nd_name nd) nm = 0 then (p, True) else (w, False))
   }"

text \<open>The work tree, the position of the path iterator and the segments left when the walk ends.\<close>

fun find_walk :: "string \<Rightarrow> nat \<Rightarrow> nat \<Rightarrow> ptr \<Rightarrow> 'z vfs_scheme \<Rightarrow> (ptr \<times> nat \<times> nat) option" where
  "find_walk buf 0 i work s = Some (work, i, 0)"
| "find_walk buf (Suc segments) i work s = do {
     t \<leftarrow> generic_tree_find_subtree (vfs_mountpoint_tree s) work;
     (w, hit) \<leftarrow> find_children (vnodes s) (cstr_at buf i) (map tdata (sub_trees t)) (work, False);
     if hit then find_walk buf segments (i + length (cstr_at buf i) + 1) w s
     else Some (w, i, Suc segments)
   }"

definition vfs_find_node :: "'z vfs_scheme calls \<Rightarrow> string option \<Rightarrow> 'z vfs_scheme \<Rightarrow> (ptr \<times> 'z vfs_scheme) option" where
  "vfs_find_node cs path s =
     (case path of
        None \<Rightarrow> Some (0, s)
      | Some path \<Rightarrow>
          if path = ''/'' then Some (vfs_root_node s, s)
          else do {
            (it, s) \<leftarrow> kern_malloc (of_nat (length path + 1)) s;
            (save, s) \<leftarrow> kern_malloc (of_nat (length path + 1)) s;
            if it = 0 then None
            else do {
              let (segments, buf) = parse_path path;
              t \<leftarrow> vfs_mountpoint_tree s;
              (w, i, left) \<leftarrow> find_walk buf segments 1 (tdata t) s;
              nd \<leftarrow> vnodes s w;
              (ret, s) \<leftarrow> (if left = 0 then Some (w, s)
                            else if type_flags nd \<noteq> VFS_NODE_TYPE_SDIR
                            then (case dir_find nd of
                                    NULL_fn \<Rightarrow> None
                                  | Sym f \<Rightarrow> call_finddir cs f w (drop (i - 1) path) s)
                            else Some (0, s));
              s \<leftarrow> kern_free it s;
              s \<leftarrow> kern_free save s;
              Some (ret, s)
            }
          })"

subsection \<open>File systems\<close>

text \<open>
  The identifiers are pointers, and their strings are read from memory as it is at the moment of the comparison: the terminator has been
  overwritten by the header of the block behind.
\<close>

definition register_filesystem_in_vfs :: "ptr \<Rightarrow> fn \<Rightarrow> 'z vfs_scheme \<Rightarrow> 'z vfs_scheme option" where
  "register_filesystem_in_vfs ident f s =
     (if ident = 0 then Some s
      else case f of
        NULL_fn \<Rightarrow> Some s
      | Sym m \<Rightarrow> do {
          (p, s) \<leftarrow> kern_malloc 8 s;
          if p = 0 then None
          else Some (s\<lparr>registered_filesystems := registered_filesystems s @ [(ident, m)]\<rparr>)
        })"

fun find_registered :: "(ptr \<Rightarrow> u8) \<Rightarrow> ptr \<Rightarrow> (ptr \<times> string) list \<Rightarrow> ((ptr \<times> string) option) option" where
  "find_registered m ident [] = Some None"
| "find_registered m ident (r # rs) = do {
     c \<leftarrow> strcmp_at m ident (fst r);
     if c = 0 then Some (Some r) else find_registered m ident rs
   }"

definition mount_filesystem_in_vfs ::
  "'z vfs_scheme calls \<Rightarrow> ptr \<Rightarrow> string option \<Rightarrow> string option \<Rightarrow> 'z vfs_scheme \<Rightarrow> (ptr \<times> 'z vfs_scheme) option"
where
  "mount_filesystem_in_vfs cs ident mountpoint device_path s =
     (case mountpoint of
        None \<Rightarrow> Some (0, s)
      | Some mp \<Rightarrow>
          if ident = 0 then Some (0, s)
          else do {
            registered \<leftarrow> find_registered (heap_byte s) ident (registered_filesystems s);
            case registered of
              None \<Rightarrow> Some (0, s)
            | Some r \<Rightarrow> do {
                (device, s) \<leftarrow> vfs_find_node cs device_path s;
                call_mount cs (snd r) device mp s
              }
          })"

subsection \<open>The operations on a node\<close>

text \<open>The error codes come in the order of the checks; a null \<open>node\<close> is the pointer 0.\<close>

definition read_from_vfs_node :: "'z vfs_scheme calls \<Rightarrow> ptr \<Rightarrow> u32 \<Rightarrow> u32 \<Rightarrow> ptr \<Rightarrow> 'z vfs_scheme \<Rightarrow> (int \<times> 'z vfs_scheme) option" where
  "read_from_vfs_node cs node start_at sz buffer s =
     (if node = 0 then Some (-1, s)
      else do {
        nd \<leftarrow> vnodes s node;
        (case node_read nd of
           NULL_fn \<Rightarrow> Some (-2, s)
         | Sym f \<Rightarrow> if buffer = 0 then Some (-3, s)
                    else if sz <s 0 then Some (-5, s)
                    else call_io cs f node start_at sz buffer s)
      })"

definition write_to_vfs_node :: "'z vfs_scheme calls \<Rightarrow> ptr \<Rightarrow> u32 \<Rightarrow> u32 \<Rightarrow> ptr \<Rightarrow> 'z vfs_scheme \<Rightarrow> (int \<times> 'z vfs_scheme) option" where
  "write_to_vfs_node cs node start_at sz buffer s =
     (if node = 0 then Some (-1, s)
      else do {
        nd \<leftarrow> vnodes s node;
        (case node_write nd of
           NULL_fn \<Rightarrow> Some (-2, s)
         | Sym f \<Rightarrow> if buffer = 0 then Some (-3, s)
                    else if sz <s 0 then Some (-5, s)
                    else call_io cs f node start_at sz buffer s)
      })"

definition close_node_vfs :: "'z vfs_scheme calls \<Rightarrow> ptr \<Rightarrow> 'z vfs_scheme \<Rightarrow> (int \<times> 'z vfs_scheme) option" where
  "close_node_vfs cs node s =
     (if node = 0 then Some (-1, s)
      else do {
        nd \<leftarrow> vnodes s node;
        (case node_close nd of NULL_fn \<Rightarrow> Some (-2, s) | Sym f \<Rightarrow> call_node cs f node s)
      })"

definition open_node_vfs :: "'z vfs_scheme calls \<Rightarrow> ptr \<Rightarrow> 'z vfs_scheme \<Rightarrow> (int \<times> 'z vfs_scheme) option" where
  "open_node_vfs cs node s =
     (if node = 0 then Some (-1, s)
      else do {
        nd \<leftarrow> vnodes s node;
        (case node_open nd of NULL_fn \<Rightarrow> Some (-2, s) | Sym f \<Rightarrow> call_node cs f node s)
      })"

definition control_vfs_node :: "'z vfs_scheme calls \<Rightarrow> ptr \<Rightarrow> u32 \<Rightarrow> ptr \<Rightarrow> 'z vfs_scheme \<Rightarrow> (int \<times> 'z vfs_scheme) option" where
  "control_vfs_node cs node command arguments s =
     (if node = 0 \<or> command = 0 then Some (-1, s)
      else do {
        nd \<leftarrow> vnodes s node;
        (case node_control nd of NULL_fn \<Rightarrow> Some (-1, s) | Sym f \<Rightarrow> call_control cs f node command arguments s)
      })"

definition status_of_vfs_node :: "'z vfs_scheme calls \<Rightarrow> ptr \<Rightarrow> 'z vfs_scheme \<Rightarrow> (u32 \<times> 'z vfs_scheme) option" where
  "status_of_vfs_node cs node s =
     (if node = 0 then Some (0xFFFFFFFF, s)
      else do {
        nd \<leftarrow> vnodes s node;
        (case node_status nd of NULL_fn \<Rightarrow> Some (0xFFFFFFFF, s) | Sym f \<Rightarrow> call_status cs f node s)
      })"

text \<open>\<open>create_node_vfs\<close> does not check the function pointer: calling a null one is a fault.\<close>

definition create_node_vfs ::
  "'z vfs_scheme calls \<Rightarrow> ptr \<Rightarrow> string option \<Rightarrow> u16 \<Rightarrow> ptr \<Rightarrow> 'z vfs_scheme \<Rightarrow> (ptr \<times> 'z vfs_scheme) option"
where
  "create_node_vfs cs node nm ty base s =
     (case nm of
        None \<Rightarrow> Some (0, s)
      | Some nm \<Rightarrow>
          if node = 0 \<or> ty = 0 \<or> base = 0 then Some (0, s)
          else do {
            nd \<leftarrow> vnodes s node;
            (case node_create nd of NULL_fn \<Rightarrow> None | Sym f \<Rightarrow> call_create cs f node nm ty base s)
          })"

definition read_directory_vfs :: "'z vfs_scheme calls \<Rightarrow> ptr \<Rightarrow> int \<Rightarrow> 'z vfs_scheme \<Rightarrow> (ptr \<times> 'z vfs_scheme) option" where
  "read_directory_vfs cs node entry_no s =
     (if node = 0 \<or> entry_no < 0 then Some (0, s)
      else do {
        nd \<leftarrow> vnodes s node;
        (case dir_read nd of NULL_fn \<Rightarrow> Some (0, s) | Sym f \<Rightarrow> call_readdir cs f node entry_no s)
      })"

definition find_in_directory_vfs :: "'z vfs_scheme calls \<Rightarrow> ptr \<Rightarrow> string option \<Rightarrow> 'z vfs_scheme \<Rightarrow> (ptr \<times> 'z vfs_scheme) option" where
  "find_in_directory_vfs cs node nm s =
     (case nm of
        None \<Rightarrow> Some (0, s)
      | Some nm \<Rightarrow>
          if node = 0 \<or> nm = [] then Some (0, s)
          else do {
            nd \<leftarrow> vnodes s node;
            (case dir_find nd of NULL_fn \<Rightarrow> Some (0, s) | Sym f \<Rightarrow> call_finddir cs f node nm s)
          })"

text \<open>The null result is \<open>None\<close> in the first component.\<close>

definition list_directory_vfs :: "'z vfs_scheme calls \<Rightarrow> ptr \<Rightarrow> 'z vfs_scheme \<Rightarrow> (ptr list option \<times> 'z vfs_scheme) option" where
  "list_directory_vfs cs node s =
     (if node = 0 then Some (None, s)
      else do {
        nd \<leftarrow> vnodes s node;
        (case dir_list nd of
           NULL_fn \<Rightarrow> Some (None, s)
         | Sym f \<Rightarrow> call_listdir cs f node s)
      })"

subsection \<open>What the memory operations leave alone\<close>

lemma vfs_more:
  fixes s s' :: "'z vfs_scheme"
  assumes "vm.more s' = vm.more s"
  shows "vnodes s' = vnodes s" "vfs_mountpoint_tree s' = vfs_mountpoint_tree s" "vfs_root_node s' = vfs_root_node s"
    "registered_filesystems s' = registered_filesystems s" "node_number s' = node_number s" "filesystem_id s' = filesystem_id s"
    "procs s' = procs s" "vfs.more s' = vfs.more s"
  using assms by (cases s, cases s', simp)+

lemma heap_budget_upd [simp]:
  "heap_budget k (s\<lparr>kh_bytes := m\<rparr>) = heap_budget k s"
  "heap_budget k (s\<lparr>node_number := n\<rparr>) = heap_budget k s" "heap_budget k (s\<lparr>vnodes := v\<rparr>) = heap_budget k s"
  "heap_budget k (s\<lparr>vfs_mountpoint_tree := t\<rparr>) = heap_budget k s" for s :: "'z vfs_scheme"
  by (simp_all add: heap_budget_def wf_heap_def wf_blocks_def)

lemma kern_live_upd [simp]:
  "kern_live (s\<lparr>kh_bytes := m\<rparr>) = kern_live s"
  "kern_live (s\<lparr>node_number := n\<rparr>) = kern_live s" "kern_live (s\<lparr>vnodes := v\<rparr>) = kern_live s"
  "kern_live (s\<lparr>vfs_mountpoint_tree := t\<rparr>) = kern_live s" for s :: "'z vfs_scheme"
  by (simp_all add: kern_live_def)

lemma heap_full_upd [simp]:
  "heap_full (s\<lparr>node_number := n\<rparr>) = heap_full s" "heap_full (s\<lparr>vnodes := v\<rparr>) = heap_full s"
  "heap_full (s\<lparr>vfs_mountpoint_tree := t\<rparr>) = heap_full s" "heap_full (s\<lparr>filesystem_id := i\<rparr>) = heap_full s"
  "heap_full (s\<lparr>registered_filesystems := fs\<rparr>) = heap_full s" for s :: "'z vfs_scheme"
  by (simp_all add: heap_full_def)

lemma malloc_live:
  assumes "heap_budget (alloc_cost n + k) s" "unat n < 2 ^ 31"
  obtains p s' where "kern_malloc n s = Some (p, s')" "p \<noteq> 0" "p \<notin> kern_live s" "kern_live s' = insert p (kern_live s)"
    "heap_budget k s'" "vm.more s' = vm.more s" "\<And>h. heap_kept h s s'" "heap_allocated s n p s'"
proof -
  obtain p s' where p: "kern_malloc n s = Some (p, s')" "heap_allocated s n p s'" "heap_budget k s'" "vm.more s' = vm.more s"
    using kern_malloc_budget[OF assms] by blast
  have "p \<noteq> 0 \<and> p \<notin> kern_live s \<and> kern_live s' = insert p (kern_live s)"
    using heap_allocated_live[OF p(2)] by (auto simp: kern_live_def)
  moreover have "heap_kept h s s'" for h by (rule malloc_kept[OF assms(1) p(1) assms(2) p(2)])
  ultimately show ?thesis using p that by blast
qed

subsection \<open>Identifiers of file systems\<close>

definition filesystem_ident :: "u16 \<Rightarrow> string" where
  "filesystem_ident i = ''ID: '' @ kputhex (ucast i)"

lemma hex_digit_char: "unat t < 16 \<Longrightarrow> hex_digit t \<noteq> NUL"
proof
  assume t: "unat t < 16" "hex_digit t = NUL"
  have "of_char (hex_digit t) = (if 0xA \<le> unat t then unat t - 0xA + 65 else unat t + 48)" using t(1) by (simp add: hex_digit_def)
  then show False using t(2) by (auto simp: NUL_def split: if_splits)
qed

lemma hex_digits_chars: "NUL \<notin> set (hex_digits h z is)"
proof -
  have "unat (drop_bit i h AND 0xF) < 16" for i by (simp add: nibble)
  moreover from this[of 0] have "unat (h AND 0xF) < 16" by simp
  ultimately show ?thesis using hex_digit_char by (induction "is" arbitrary: z) (auto simp: Let_def dest!: sym[of NUL])
qed

lemma kputhex_length:
  assumes "0x1000 \<le> n" "n \<le> 0xFFFF"
  shows "length (kputhex n) = 6"
proof -
  have n: "unat n < 2 ^ 16" "2 ^ 12 \<le> unat n" using assms by (simp_all add: word_le_nat_alt)
  have z: "drop_bit i n AND 0xF = 0" if "16 \<le> i" for i
  proof -
    have "unat n < 2 ^ i" using n(1) power_increasing[OF that, of "2 :: nat"] by simp
    then have "unat (drop_bit i n AND 0xF) = 0" by (simp add: nibble)
    then show ?thesis by (simp add: unat_eq_zero)
  qed
  have "unat (drop_bit 12 n AND 0xF) = unat n div 2 ^ 12" using n(1) by (simp add: nibble less_mult_imp_div_less)
  moreover have "unat n div 2 ^ 12 \<noteq> 0" using n(2) by (simp add: div_eq_0_iff)
  ultimately have "drop_bit 12 n AND 0xF \<noteq> 0" by auto
  then show ?thesis using z by (simp add: kputhex_def Let_def)
qed

lemma filesystem_ident_text:
  "NUL \<notin> set (filesystem_ident i)" "filesystem_ident i = filesystem_ident j \<longleftrightarrow> i = j"
  "0x1000 \<le> i \<Longrightarrow> length (filesystem_ident i) = 10"
proof -
  show "NUL \<notin> set (filesystem_ident i)"
    using hex_digits_chars by (auto simp: filesystem_ident_def kputhex_def NUL_def simp del: hex_digits.simps)
  have u: "unat (ucast i :: u32) = unat i" for i :: u16 using unat_u16_less[of i] by (simp add: unsigned_ucast_eq take_bit_nat_eq_self)
  have "ucast i = (ucast j :: u32) \<longleftrightarrow> i = j" using u[of i] u[of j] by (metis word_unat_eq_iff)
  then show "filesystem_ident i = filesystem_ident j \<longleftrightarrow> i = j" using kputhex_inj by (auto simp: filesystem_ident_def)
  show "length (filesystem_ident i) = 10" if "0x1000 \<le> i"
  proof -
    have "unat i < 2 ^ 16" using unat_u16_less[of i] by simp
    then have "0x1000 \<le> (ucast i :: u32)" "(ucast i :: u32) \<le> 0xFFFF" using that u[of i] by (simp_all add: word_le_nat_alt)
    then show ?thesis by (simp add: filesystem_ident_def kputhex_length)
  qed
qed

text \<open>
  The identifiers that are registered belong to numbers that have been given out, and their characters are in blocks in use. The numbers start
  at 0xF000.
\<close>

definition idents_ok :: "'z vfs_scheme \<Rightarrow> bool" where
  "idents_ok s \<longleftrightarrow> 0xF000 \<le> filesystem_id s \<and>
     (\<forall>r\<in>set (registered_filesystems s). \<exists>i. 0xF000 \<le> i \<and> i < filesystem_id s \<and> holds_at (fst r) (filesystem_ident i) s)"

text \<open>
  With holes too small for the identifier, its block is the last one, and its terminator is written behind all blocks.
\<close>

lemma filesystem_id_ok:
  fixes s :: "'z vfs_scheme"
  assumes b: "heap_budget (alloc_cost 10 + k) s" and h: "small_holes 8 s" and i: "0xF000 \<le> filesystem_id s"
  obtains p s' where "get_filesystem_id s = Some (p, s'\<lparr>filesystem_id := filesystem_id s + 1\<rparr>)" "p \<noteq> 0" "kern_live s' = insert p (kern_live s)"
    "heap_budget k s'" "vm.more s' = vm.more s" "heap_kept 8 s s'" "holds_at p (filesystem_ident (filesystem_id s)) s'" "heap_full s \<Longrightarrow> heap_full s'"
proof -
  define t where "t = filesystem_ident (filesystem_id s)"
  have t: "length t = 10" "NUL \<notin> set t" using filesystem_ident_text(1,3) i order_trans[of "0x1000" "0xF000" "filesystem_id s"] by (auto simp: t_def)
  obtain p s1 where s1: "kern_malloc 10 s = Some (p, s1)" "heap_allocated s 10 p s1" "heap_budget k s1" "vm.more s1 = vm.more s"
    using kern_malloc_budget[OF b] by auto
  obtain m where m: "wf_heap s1" "p \<noteq> 0" "p \<notin> fst ` heap_live s" "10 \<le> m" "heap_live s1 = insert (p, m) (heap_live s)"
    using s1(2) by (auto simp: heap_allocated_def)
  have none: "kh_items s1 (p + 10) = None" by (rule malloc_behind[OF b s1(1) m(2) _ h _ m(1)]) simp_all
  note small = malloc_small(1)[OF b s1(1) m(2) _ h]
  define s2 where "s2 = s1\<lparr>kh_bytes := (write_string p t (memset_8 p 0 10 (kh_bytes s1)))(p + 10 := 0)\<rparr>"
  have run: "get_filesystem_id s = Some (p, s2\<lparr>filesystem_id := filesystem_id s + 1\<rparr>)"
    using s1(1) m(2) none t(1) vfs_more[OF s1(4)]
    by (simp add: get_filesystem_id_def zero_behind_def Let_def s2_def t_def filesystem_ident_def)
  have pm: "(p, m) \<in> heap_live s1" using m(5) by simp
  note nw = live_no_wrap[OF m(1) pm] and bh = behind_not_owned[OF m(1) pm m(4)]
  have off: "unat (p + of_nat i - p) = i" if "i < 10" for i using that by (simp add: unat_of_nat take_bit_nat_eq_self)
  have "kh_bytes s2 (p + of_nat i) = of_char (t ! i)" if j: "i < 10" for i
  proof -
    have "p + of_nat i \<noteq> p + 10" using off[OF j] j by auto
    then show ?thesis using j off[OF j] t(1) by (simp add: s2_def write_string_apply)
  qed
  then have new: "holds_at p t s2" using t m(4,5) by (auto simp: holds_at_def s2_def word_le_nat_alt)
  have "holds_at q u s2" if q: "holds_at q u s" for q u
  proof -
    have q1: "holds_at q u s1" by (rule holds_at_allocated[OF s1(2) q])
    obtain l where l: "(q, l) \<in> heap_live s" "length u \<le> unat l" using q by (auto simp: holds_at_def)
    have ne: "(q, l) \<noteq> (p, m)" "(q, l) \<in> heap_live s1" using l(1) m(3,5) by force+
    have dj: "area (q, l) \<inter> area (p, m) = {}" by (rule wf_live_disjoint[OF m(1) ne(2) pm ne(1)])
    have "kh_bytes s2 (q + of_nat i) = kh_bytes s1 (q + of_nat i)" if j: "i < length u" for i
    proof -
      have a: "unat (q + of_nat i) \<in> area (q, l)" using area_byte(1)[OF live_no_wrap[OF m(1) ne(2)], of i] j l(2) by simp
      then have "q + of_nat i \<noteq> p + 10" using bh(2) ne by auto
      moreover have "\<not> q + of_nat i - p < 10"
        using word_sub_less_iff[of p 10 "q + of_nat i"] nw m(4) a dj by (auto simp: area_def word_le_nat_alt)
      ultimately show ?thesis using t(1) by (simp add: s2_def write_string_apply memset_8_apply word_less_nat_alt)
    qed
    then show ?thesis using q1 by (simp add: holds_at_def s2_def)
  qed
  then have "heap_kept 8 s s2" using small by (simp add: heap_kept_def small_holes_def s2_def)
  moreover have "heap_full s2" if "heap_full s" using malloc_full(1)[OF b _ that s1(1)] by (simp add: s2_def heap_full_def)
  moreover have "kern_live s2 = insert p (kern_live s)" "heap_budget k s2" using m(5) s1(3) by (simp_all add: s2_def kern_live_def heap_budget_def)
  moreover have "vm.more s2 = vm.more s" using s1(4) by (simp add: s2_def)
  ultimately show ?thesis using that[OF run m(2)] new by (simp add: t_def)
qed

text \<open>A new identifier is found behind those that are registered already.\<close>

lemma find_registered_last:
  assumes wf: "wf_heap s" "kh_head s \<noteq> 0" and p: "holds_at p (filesystem_ident n) s" "0xF000 \<le> n"
    and rs: "\<forall>r\<in>set rs. \<exists>i. 0xF000 \<le> i \<and> i < n \<and> holds_at (fst r) (filesystem_ident i) s"
  shows "find_registered (heap_byte s) p (rs @ [(p, f)]) = Some (Some (p, f))"
  using rs
proof (induction rs)
  case Nil
  obtain x where "heap_byte s x = 0" using heap_byte_zero[OF wf] by blast
  then show ?case by (simp add: strcmp_at_same)
next
  case (Cons r rs)
  then obtain i where i: "0xF000 \<le> i" "i < n" "holds_at (fst r) (filesystem_ident i) s" by auto
  have "0x1000 \<le> i" "0x1000 \<le> n" using i(1) p(2) order_trans[of "0x1000" "0xF000" i] order_trans[of "0x1000" "0xF000" n] by simp_all
  then have "length (filesystem_ident n) = length (filesystem_ident i)" by (simp add: filesystem_ident_text(3))
  moreover have "filesystem_ident n \<noteq> filesystem_ident i" using i(2) by (simp add: filesystem_ident_text(2))
  ultimately have "strcmp_at (heap_byte s) p (fst r) = Some 1" by (rule strcmp_at_texts[OF wf(1) p(1) i(3)])
  then show ?case using Cons by simp
qed

lemma register_ok:
  fixes s :: "'z vfs_scheme"
  assumes b: "heap_budget (alloc_cost 8 + k) s" and p: "p \<noteq> 0" "holds_at p (filesystem_ident n) s" "0xF000 \<le> n"
    and rs: "\<forall>r\<in>set (registered_filesystems s). \<exists>i. 0xF000 \<le> i \<and> i < n \<and> holds_at (fst r) (filesystem_ident i) s"
  obtains s' where "register_filesystem_in_vfs p (Sym f) s = Some s'"
    "find_registered (heap_byte s') p (registered_filesystems s') = Some (Some (p, f))" "heap_budget k s'" "kern_live s \<subseteq> kern_live s'"
    "vnodes s' = vnodes s" "vfs_mountpoint_tree s' = vfs_mountpoint_tree s" "node_number s' = node_number s" "vfs.more s' = vfs.more s"
    "heap_full s \<Longrightarrow> heap_full s'"
proof -
  obtain q s1 where s1: "kern_malloc 8 s = Some (q, s1)" "q \<noteq> 0" "kern_live s1 = insert q (kern_live s)" "heap_budget k s1"
    "vm.more s1 = vm.more s" "\<And>h. heap_kept h s s1" by (rule malloc_live[OF b]) simp_all
  note more = vfs_more[OF s1(5)]
  define s2 where "s2 = s1\<lparr>registered_filesystems := registered_filesystems s @ [(p, f)]\<rparr>"
  have reg: "register_filesystem_in_vfs p (Sym f) s = Some s2" using s1(1,2) p(1) by (simp add: register_filesystem_in_vfs_def s2_def more)
  have eq: "heap_byte s2 = heap_byte s1" by (simp add: s2_def heap_byte_def fun_eq_iff split: option.split)
  have kept: "holds_at x t s1" if "holds_at x t s" for x t using s1(6) that by (simp add: heap_kept_def)
  have wf: "wf_heap s1" "kh_head s1 \<noteq> 0" using s1(4) by (simp_all add: heap_budget_def)
  have "\<forall>r\<in>set (registered_filesystems s). \<exists>i. 0xF000 \<le> i \<and> i < n \<and> holds_at (fst r) (filesystem_ident i) s1" using rs kept by blast
  from find_registered_last[OF wf kept[OF p(2)] p(3) this]
  have "find_registered (heap_byte s2) p (registered_filesystems s2) = Some (Some (p, f))" by (simp add: eq) (simp add: s2_def)
  moreover have "heap_full s2" if "heap_full s" using malloc_full(1)[OF b _ that s1(1)] by (simp add: s2_def)
  moreover have "heap_budget k s2 = heap_budget k s1" "kern_live s2 = kern_live s1" by (simp_all add: s2_def heap_budget_def wf_heap_def wf_blocks_def kern_live_def)
  moreover have "vnodes s2 = vnodes s" "vfs_mountpoint_tree s2 = vfs_mountpoint_tree s" "node_number s2 = node_number s" "vfs.more s2 = vfs.more s"
    by (simp_all add: s2_def more)
  ultimately show ?thesis using that[OF reg] s1(3,4) by blast
qed

text \<open>What happens to other parts of the state leaves the identifiers alone.\<close>

lemma idents_ok_kept:
  assumes "idents_ok s" "heap_kept h s s'" "filesystem_id s' = filesystem_id s" "registered_filesystems s' = registered_filesystems s"
  shows "idents_ok s'"
  using assms unfolding idents_ok_def heap_kept_def by metis

subsection \<open>Stub directories are created\<close>

text \<open>The cost of a stub directory with a name of a given length.\<close>

definition stub_cost :: "nat \<Rightarrow> nat" where
  "stub_cost n = alloc_cost sizeof_vnode + alloc_cost (word_of_int (int n + 1))"

lemma unat_succ_small:
  assumes "n < 2 ^ 30"
  shows "unat (word_of_int (int n + 1) :: u32) < 2 ^ 31" "unat (of_nat (n + 1) :: u32) < 2 ^ 31"
proof -
  have eq: "(word_of_int (int n + 1) :: u32) = of_nat (n + 1)" by simp
  have v: "unat (of_nat (n + 1) :: u32) = n + 1"
    using assms unat_of_nat[where 'a = 32, of "n + 1"] by (simp only: take_bit_nat_eq_self) simp
  show "unat (of_nat (n + 1) :: u32) < 2 ^ 31" unfolding v using assms by simp
  then show "unat (word_of_int (int n + 1) :: u32) < 2 ^ 31" unfolding eq .
qed

text \<open>The name is duplicated, so the heap must be full: then the copy damages no block behind it.\<close>

lemma create_stub_ok:
  fixes s :: "'z vfs_scheme"
  assumes b: "heap_budget (stub_cost (length nm) + k) s" and n: "length nm < 2 ^ 30" and full: "heap_full s"
  obtains node s' nd where "vfs_create_stub_directory nm s = Some (node, s')" "node \<noteq> 0" "node \<notin> kern_live s"
    "insert node (kern_live s) \<subseteq> kern_live s'" "heap_budget k s'" "vnodes s' = (vnodes s)(node \<mapsto> nd)" "nd_name nd = nm"
    "type_flags nd = VFS_NODE_TYPE_SDIR" "vfs_mountpoint_tree s' = vfs_mountpoint_tree s" "vfs_root_node s' = vfs_root_node s"
    "registered_filesystems s' = registered_filesystems s" "vfs.more s' = vfs.more s"
proof -
  have b': "unat sizeof_vnode < 2 ^ 31" "heap_budget (alloc_cost sizeof_vnode + (alloc_cost (word_of_int (int (length nm) + 1)) + k)) s"
    using b by (simp_all add: sizeof_vnode_def stub_cost_def add.assoc)
  then obtain node s1 where s1: "kern_malloc sizeof_vnode s = Some (node, s1)" "node \<noteq> 0" "node \<notin> kern_live s"
    "kern_live s1 = insert node (kern_live s)" "heap_budget (alloc_cost (word_of_int (int (length nm) + 1)) + k) s1"
    "vm.more s1 = vm.more s" using malloc_live by metis
  have "heap_full s1" by (rule malloc_full(1)[OF b'(2,1) full s1(1)])
  then obtain q s2 where s2: "strdup nm s1 = Some (q, s2)" "duplicated nm k s1 q s2"
    by (rule strdup_ok[OF s1(5) full_behind n])
  have dup: "kern_live s2 = insert q (kern_live s1)" "heap_budget k s2" "vm.more s2 = vm.more s1"
    using s2(2) by (auto simp: duplicated_def kern_live_def)
  note more = vfs_more[OF trans[OF dup(3) s1(6)]]
  obtain s3 nd where run: "vfs_create_stub_directory nm s = Some (node, s3)" "vnodes s3 = (vnodes s2)(node \<mapsto> nd)"
    "nd_name nd = nm" "type_flags nd = VFS_NODE_TYPE_SDIR" and rest: "vfs_mountpoint_tree s3 = vfs_mountpoint_tree s2"
    "vfs_root_node s3 = vfs_root_node s2" "registered_filesystems s3 = registered_filesystems s2" "vfs.more s3 = vfs.more s2"
    "kern_live s3 = kern_live s2" "heap_budget k s3 = heap_budget k s2"
    using s1(1,2) s2(1) by (simp add: vfs_create_stub_directory_def get_node_no_def Let_def)
  show ?thesis by (rule that[OF run(1) s1(2,3)]) (use run rest s1(4) dup(1,2) more in auto)
qed

subsection \<open>Paths\<close>

lemma parse_path_eq:
  "parse_path p = (length (filter (\<lambda>c. c = CHR ''/'') p), map (\<lambda>c. if c = CHR ''/'' then NUL else c) p)"
  by (induction p) (auto simp: Let_def split_def)

text \<open>A path component: no slash, no terminator.\<close>

definition component :: "string \<Rightarrow> bool" where
  "component nm \<longleftrightarrow> CHR ''/'' \<notin> set nm \<and> NUL \<notin> set nm"

lemma component_map: "component nm \<Longrightarrow> map (\<lambda>c. if c = CHR ''/'' then NUL else c) nm = nm"
  by (induction nm) (auto simp: component_def)

lemma parse_component:
  assumes "component nm"
  shows "parse_path (CHR ''/'' # nm @ p) = (Suc (fst (parse_path p)), NUL # nm @ snd (parse_path p))"
proof -
  have "filter (\<lambda>c. c = CHR ''/'') nm = []" using assms by (auto simp: component_def filter_empty_conv)
  then show ?thesis using component_map[OF assms] by (simp add: parse_path_eq)
qed

lemma cstr_at_component:
  assumes "component nm" "rest = [] \<or> hd rest = NUL"
  shows "cstr_at (pre @ NUL # nm @ rest) (Suc (length pre)) = nm"
proof -
  have "takeWhile (\<lambda>c. c \<noteq> NUL) (nm @ rest) = nm"
    using assms by (induction nm) (cases rest, auto simp: component_def)
  then show ?thesis by (simp add: cstr_at_def)
qed

lemma drop_path_component: "drop (length a) (a @ b) = b"
  by simp

subsection \<open>Well-formed mount trees\<close>

text \<open>Nodes are live heap blocks, and every node of the mount tree is one of them, at one place.\<close>

definition vfs_wf :: "'z vfs_scheme \<Rightarrow> bool" where
  "vfs_wf s \<longleftrightarrow> dom (vnodes s) \<subseteq> kern_live s \<and> 0 \<notin> dom (vnodes s) \<and>
     (\<forall>t. vfs_mountpoint_tree s = Some t \<longrightarrow> set (preorder t) \<subseteq> dom (vnodes s) \<and> distinct (preorder t))"

lemma vfs_wf_grow:
  assumes "vfs_wf s" "vfs_mountpoint_tree s' = vfs_mountpoint_tree s" "dom (vnodes s) \<subseteq> dom (vnodes s')"
    "dom (vnodes s') \<subseteq> kern_live s'" "0 \<notin> dom (vnodes s')"
  shows "vfs_wf s'"
  using assms unfolding vfs_wf_def by (metis subset_trans)

lemma tree_append_fresh: "p \<notin> set (preorder t) \<Longrightarrow> tree_append p new t = t"
proof (induction t)
  case (GTree x ts)
  then have "map (tree_append p new) ts = ts" by (intro map_idI) auto
  then show ?case using GTree.prems by auto
qed

lemma tree_append_root: "tree_append r new (GTree r ts) = GTree r (ts @ [new])"
  by simp

lemma tree_set_data_fresh: "w \<notin> set (preorder t) \<Longrightarrow> tree_set_data w n t = t"
proof (induction t)
  case (GTree x ts)
  then have "map (tree_set_data w n) ts = ts" by (intro map_idI) auto
  then show ?case using GTree.prems by auto
qed

lemma tdata_preorder: "tdata ` set ts \<subseteq> set (concat (map preorder ts))"
proof
  fix d assume "d \<in> tdata ` set ts"
  then obtain us where "GTree d us \<in> set ts" by (metis gen_tree.collapse imageE)
  then show "d \<in> set (concat (map preorder ts))" by force
qed

lemma match_children_none:
  assumes "set ps \<subseteq> dom nds" "\<forall>p\<in>set ps. nd_name (the (nds p)) \<noteq> nm"
  shows "match_children nds nm ps r = Some r"
  using assms by (induction ps) (auto simp: strcmp_eq)

lemma find_children_last:
  assumes "set ps \<subseteq> dom nds" "nds q = Some nd" "nd_name nd = nm"
  shows "find_children nds nm (ps @ [q]) r = Some (q, True)"
  using assms
proof (induction ps arbitrary: r)
  case Nil
  then show ?case by (cases r) (simp add: strcmp_eq)
next
  case (Cons p ps)
  then show ?case by (cases r) auto
qed

subsection \<open>Mounting a node and finding it again\<close>

definition mount_cost :: "string \<Rightarrow> nat" where
  "mount_cost nm = alloc_cost (of_nat (length nm + 2)) + stub_cost (length nm)"

text \<open>A node that can be mounted under the root as \<open>nm\<close>: it has that name, and nothing else there has it.\<close>

definition mountable :: "ptr \<Rightarrow> string \<Rightarrow> ptr \<Rightarrow> gen_tree list \<Rightarrow> 'z vfs_scheme \<Rightarrow> bool" where
  "mountable node nm r ts s \<longleftrightarrow> vfs_wf s \<and> vfs_mountpoint_tree s = Some (GTree r ts) \<and>
     component nm \<and> nm \<noteq> [] \<and> length nm < 2 ^ 30 - 1 \<and> node \<notin> set (preorder (GTree r ts)) \<and>
     (\<exists>nd. vnodes s node = Some nd \<and> nd_name nd = nm) \<and>
     (\<forall>c\<in>tdata ` set ts. nd_name (the (vnodes s c)) \<noteq> nm)"

lemma find_root: "r \<noteq> 0 \<Longrightarrow> generic_tree_find_subtree (Some (GTree r ts)) r = Some (GTree r ts)"
  by (simp add: generic_tree_find_subtree_def tree_finder_evaluator_def)

lemma mount_walk_one:
  fixes s :: "'z vfs_scheme"
  assumes m: "mountable node nm r ts s" and b: "heap_budget (stub_cost (length nm) + k) s" and full: "heap_full s"
  obtains cand s' ndc where "mount_walk (NUL # nm) 1 1 r s = Some (cand, s')" "cand \<notin> kern_live s"
    "insert cand (kern_live s) \<subseteq> kern_live s'" "heap_budget k s'" "vnodes s' = (vnodes s)(cand \<mapsto> ndc)" "nd_name ndc = nm"
    "type_flags ndc = VFS_NODE_TYPE_SDIR" "vfs_mountpoint_tree s' = Some (GTree r (ts @ [GTree cand []]))"
    "vfs_root_node s' = vfs_root_node s" "vfs.more s' = vfs.more s"
proof -
  note wf = m[unfolded mountable_def vfs_wf_def]
  have r: "r \<noteq> 0" using wf by auto
  have nm: "cstr_at (NUL # nm) (Suc 0) = nm" using cstr_at_component[of nm "[]" "[]"] wf by simp
  have pre: "set (preorder (GTree r ts)) \<subseteq> dom (vnodes s)" using wf by blast
  then have "set (map tdata ts) \<subseteq> dom (vnodes s)" using tdata_preorder[of ts] by (simp only: set_map preorder.simps set_simps) blast
  then have mc: "match_children (vnodes s) nm (map tdata ts) (r, False) = Some (r, False)"
    using wf by (intro match_children_none) auto
  from b wf full obtain cand s' ndc where s': "vfs_create_stub_directory nm s = Some (cand, s')" "cand \<noteq> 0" "cand \<notin> kern_live s"
    "insert cand (kern_live s) \<subseteq> kern_live s'" "heap_budget k s'" "vnodes s' = (vnodes s)(cand \<mapsto> ndc)" "nd_name ndc = nm"
    "type_flags ndc = VFS_NODE_TYPE_SDIR" "vfs_mountpoint_tree s' = vfs_mountpoint_tree s" "vfs_root_node s' = vfs_root_node s"
    "vfs.more s' = vfs.more s" by (elim create_stub_ok[of nm k s]) auto
  let ?s2 = "s'\<lparr>vfs_mountpoint_tree := Some (GTree r (ts @ [GTree cand []]))\<rparr>"
  have "mount_walk (NUL # nm) 1 1 r s = Some (cand, ?s2)"
    using s'(1,9) wf r mc nm by (simp add: find_root generic_tree_create_def)
  then show ?thesis by (rule that) (use s' in simp_all)
qed

lemma mount_one:
  fixes s :: "'z vfs_scheme"
  assumes m: "mountable node nm r ts s" and b: "heap_budget (mount_cost nm + k) s" and full: "heap_full s"
  obtains s' where "mount_in_vfs node (Some (CHR ''/'' # nm)) s = Some (node, s')" "vnodes s' = vnodes s"
    "vfs_mountpoint_tree s' = Some (GTree r (ts @ [GTree node []]))" "vfs_wf s'" "heap_budget k s'"
    "vfs_root_node s' = vfs_root_node s" "vfs.more s' = vfs.more s"
proof -
  note wf = m[unfolded mountable_def vfs_wf_def]
  obtain nd where nd: "vnodes s node = Some nd" "nd_name nd = nm" using wf by blast
  have b': "heap_budget (alloc_cost (of_nat (length nm + 2)) + (stub_cost (length nm) + k)) s" "unat (of_nat (length nm + 2) :: u32) < 2 ^ 31"
    using b wf unat_succ_small(2)[of "length nm + 1"] by (simp_all add: mount_cost_def add.assoc)
  then obtain it s1 where s1: "kern_malloc (of_nat (length nm + 2)) s = Some (it, s1)" "it \<noteq> 0" "it \<notin> kern_live s"
    "kern_live s1 = insert it (kern_live s)" "heap_budget (stub_cost (length nm) + k) s1" "vm.more s1 = vm.more s"
    by (rule malloc_live)
  note more1 = vfs_more[OF s1(6)]
  have "mountable node nm r ts s1" using m s1(4) by (auto simp: mountable_def vfs_wf_def more1)
  from mount_walk_one[OF this s1(5) malloc_full(1)[OF b' full s1(1)]] obtain cand s2 ndc where s2: "mount_walk (NUL # nm) 1 1 r s1 = Some (cand, s2)"
    "cand \<notin> kern_live s1" "insert cand (kern_live s1) \<subseteq> kern_live s2" "heap_budget k s2" "vnodes s2 = (vnodes s1)(cand \<mapsto> ndc)"
    "nd_name ndc = nm" "type_flags ndc = VFS_NODE_TYPE_SDIR" "vfs_mountpoint_tree s2 = Some (GTree r (ts @ [GTree cand []]))"
    "vfs_root_node s2 = vfs_root_node s1" "vfs.more s2 = vfs.more s1" by blast
  have new: "cand \<notin> dom (vnodes s)" "cand \<noteq> it" "cand \<noteq> node" using s2(2) s1(4) wf nd by auto
  have "set (preorder (GTree r ts)) \<subseteq> dom (vnodes s)" using wf by blast
  note old = this
  have fresh: "cand \<notin> set (preorder (GTree r ts))" using old new(1) by blast
  from s2(3) have "cand \<in> kern_live s2" by simp
  from kern_free_budget[OF s2(4) this] obtain s3 where s3: "kern_free cand s2 = Some s3" "heap_budget k s3"
    "kern_live s3 = kern_live s2 - {cand}" "vm.more s3 = vm.more s2" by blast
  note more3 = vfs_more[OF s3(4)]
  define s4 where "s4 = s3\<lparr>vnodes := (vnodes s3)(cand := None), vfs_mountpoint_tree := Some (GTree r (ts @ [GTree node []]))\<rparr>"
  have "map (tree_set_data cand node) ts = ts" using fresh by (intro map_idI tree_set_data_fresh) simp
  then have set: "tree_set_data cand node (GTree r (ts @ [GTree cand []])) = GTree r (ts @ [GTree node []])" using fresh by auto
  have t1: "vfs_mountpoint_tree s1 = Some (GTree r ts)" "vnodes s2 cand = Some ndc" "vnodes s2 node = Some nd"
    using wf nd new s2(5) by (simp_all add: more1)
  have mb: "mount_below node 1 (NUL # nm) s1 = Some (node, s4)"
    by (simp add: mount_below_def t1 s2(1)[unfolded One_nat_def] s2(6-8) s3(1) nd(2) strcmp_eq more3 set s4_def
        del: mount_walk.simps tree_set_data.simps)
  have "it \<in> kern_live s4" "heap_budget k s4" using s2(3) s1(4) s3(2,3) new(2) by (auto simp: s4_def)
  then obtain s5 where s5: "kern_free it s4 = Some s5" "heap_budget k s5" "kern_live s5 = kern_live s4 - {it}" "vm.more s5 = vm.more s4"
    using kern_free_budget by blast
  note more5 = vfs_more[OF s5(4)]
  have v5: "vnodes s5 = vnodes s" using new(1) by (auto simp: more5 s4_def more3 s2(5) more1)
  have t5: "vfs_mountpoint_tree s5 = Some (GTree r (ts @ [GTree node []]))" by (simp add: more5 s4_def)
  have "mount_in_vfs node (Some (CHR ''/'' # nm)) s = Some (node, s5)"
    using s1(1,2) mb s5(1) nd wf parse_component[of nm "[]"] by (auto simp: mount_in_vfs_def first_char_def)
  then have mt: "mount_in_vfs node (Some (CHR ''/'' # nm)) s = Some (node, s5)" .
  have "dom (vnodes s) \<subseteq> kern_live s5"
    using wf s5(3) s3(3) s2(3) s1(3,4) new(1) by (auto simp: s4_def)
  moreover have "set (preorder (GTree r (ts @ [GTree node []]))) = insert node (set (preorder (GTree r ts)))" by auto
  moreover have "distinct (preorder (GTree r (ts @ [GTree node []])))" using wf by auto
  moreover have "node \<in> dom (vnodes s)" using nd(1) by blast
  ultimately have "vfs_wf s5" using wf old unfolding vfs_wf_def v5 t5 by simp
  moreover have "vfs_root_node s5 = vfs_root_node s" "vfs.more s5 = vfs.more s"
    using more5 more3 s2(9,10) more1 by (simp_all add: s4_def)
  ultimately show ?thesis using that[OF mt v5 t5 _ s5(2)] by blast
qed

definition find_cost :: "string \<Rightarrow> nat" where
  "find_cost path = 2 * alloc_cost (of_nat (length path + 1))"

lemma find_walk_cong:
  assumes "vm.more s' = vm.more s"
  shows "find_walk buf n i w s' = find_walk buf n i w s"
  using vfs_more[OF assms] by (induction n arbitrary: i w) (simp_all cong: if_cong)

text \<open>
  \<open>vfs_find_node\<close> after the walk: the node reached, or what its directory finds. The two buffers are freed again.
\<close>

lemma vfs_find_node_run:
  fixes s :: "'z vfs_scheme"
  assumes b: "heap_budget (find_cost path + k) s" and len: "length path < 2 ^ 30" and p: "path \<noteq> ''/''"
    and t: "vfs_mountpoint_tree s = Some t"
    and walk: "find_walk (snd (parse_path path)) (fst (parse_path path)) 1 (tdata t) s = Some (w, i, left)" "vnodes s w = Some nd"
    and fin: "\<And>s2. vm.more s2 = vm.more s \<Longrightarrow>
       (if left = 0 then Some (w, s2)
        else if type_flags nd \<noteq> VFS_NODE_TYPE_SDIR
        then (case dir_find nd of NULL_fn \<Rightarrow> None | Sym f \<Rightarrow> call_finddir cs f w (drop (i - 1) path) s2)
        else Some (0, s2)) = Some (ret, s2)"
  obtains s' where "vfs_find_node cs (Some path) s = Some (ret, s')" "vm.more s' = vm.more s" "heap_budget k s'"
    "kern_live s' = kern_live s" "\<And>h. length path + 1 < h \<Longrightarrow> heap_kept h s s'"
proof -
  let ?n = "of_nat (length path + 1) :: u32"
  have n: "unat ?n < 2 ^ 31" using len by (rule unat_succ_small(2))
  have b2: "heap_budget (alloc_cost ?n + (alloc_cost ?n + k)) s" using b unfolding find_cost_def by (simp only: mult_2 add.assoc)
  obtain it s1 where s1: "kern_malloc ?n s = Some (it, s1)" "it \<noteq> 0" "it \<notin> kern_live s" "kern_live s1 = insert it (kern_live s)"
    "heap_budget (alloc_cost ?n + k) s1" "vm.more s1 = vm.more s" "heap_allocated s ?n it s1" by (rule malloc_live[OF b2 n])
  obtain save s2 where s2: "kern_malloc ?n s1 = Some (save, s2)" "save \<noteq> 0" "save \<notin> kern_live s1"
    "kern_live s2 = insert save (kern_live s1)" "heap_budget k s2" "vm.more s2 = vm.more s1" "heap_allocated s1 ?n save s2"
    by (rule malloc_live[OF s1(5) n])
  have m2: "vm.more s2 = vm.more s" using s1(6) s2(6) by simp
  have "it \<in> kern_live s2" using s1(4) s2(4) by simp
  from kern_free_budget[OF s2(5) this] obtain s3 where s3: "kern_free it s2 = Some s3" "heap_budget k s3"
    "kern_live s3 = kern_live s2 - {it}" "vm.more s3 = vm.more s2" by blast
  have "save \<in> kern_live s3" using s3(3) s2(3,4) s1(4) by auto
  from kern_free_budget[OF s3(2) this] obtain s4 where s4: "kern_free save s3 = Some s4" "heap_budget k s4"
    "kern_live s4 = kern_live s3 - {save}" "vm.more s4 = vm.more s3" by blast
  have w2: "find_walk (snd (parse_path path)) (fst (parse_path path)) 1 (tdata t) s2 = Some (w, i, left)"
    using walk(1) find_walk_cong[OF m2] by metis
  have "vfs_find_node cs (Some path) s = Some (ret, s4)"
    using p s1(1,2) s2(1) s3(1) s4(1) t walk(2) w2 fin[OF m2]
    by (cases "left = 0"; cases "type_flags nd = VFS_NODE_TYPE_SDIR"; cases "dir_find nd")
      (simp_all add: vfs_find_node_def split_def Let_def vfs_more[OF m2])
  moreover have "kern_live s4 = kern_live s" using s1(3,4) s2(3,4) s3(3) s4(3) by auto
  moreover have "vm.more s4 = vm.more s" using s4(4) s3(4) m2 by simp
  moreover have "heap_kept h s s4" if "length path + 1 < h" for h
  proof -
    have "unat ?n \<le> length path + 1" by (simp only: unat_of_nat mod_less_eq_dividend)
    then have "unat ?n < h" using that by (rule le_less_trans)
    then show ?thesis by (rule two_buffers_kept[OF b2 s1(5) s2(5) s3(2) s1(1,7) s2(1,7) n _ s3(1) s4(1)])
  qed
  ultimately show ?thesis using that s4(2) by blast
qed

lemma tree_child:
  assumes "distinct (preorder (GTree r (ts @ [GTree n kids])))" "n \<noteq> 0"
  shows "generic_tree_find_subtree (Some (GTree r (ts @ [GTree n kids]))) n = Some (GTree n kids)"
proof -
  have "traverse_subtrees tree_finder_evaluator n ts = None" using assms(1) unfolding traverse_none by auto
  then have "traverse_subtrees tree_finder_evaluator n (ts @ us) = traverse_subtrees tree_finder_evaluator n us" for us
    by (induction ts) (auto split: option.splits)
  then show ?thesis using assms by (auto simp: generic_tree_find_subtree_def tree_finder_evaluator_def)
qed

text \<open>The last child of the root, under its name.\<close>

definition last_child :: "ptr \<Rightarrow> gen_tree list \<Rightarrow> ptr \<Rightarrow> gen_tree list \<Rightarrow> vfs_gen_node \<Rightarrow> 'z vfs_scheme \<Rightarrow> bool" where
  "last_child r ts n kids nd s \<longleftrightarrow> vfs_wf s \<and> vfs_mountpoint_tree s = Some (GTree r (ts @ [GTree n kids])) \<and>
     vnodes s n = Some nd \<and> component (nd_name nd) \<and> nd_name nd \<noteq> [] \<and> length (nd_name nd) < 2 ^ 28"

lemma walk_last_child:
  assumes l: "last_child r ts n kids nd s" and rest: "rest = [] \<or> hd rest = NUL"
  shows "find_walk (NUL # nd_name nd @ rest) (Suc m) 1 r s =
         find_walk (NUL # nd_name nd @ rest) m (length (nd_name nd) + 2) n s"
proof -
  note wf = l[unfolded last_child_def vfs_wf_def]
  have "set (preorder (GTree r (ts @ [GTree n kids]))) \<subseteq> dom (vnodes s)" using wf by blast
  then have dom: "set (map tdata ts) \<subseteq> dom (vnodes s)" "r \<in> dom (vnodes s)" using tdata_preorder[of ts] by auto
  then have "r \<noteq> 0" using wf by metis
  moreover have "cstr_at (NUL # nd_name nd @ rest) (Suc 0) = nd_name nd"
    using cstr_at_component[of "nd_name nd" rest "[]"] wf rest by simp
  moreover have "find_children (vnodes s) (nd_name nd) (map tdata ts @ [n]) (r, False) = Some (n, True)"
    using wf dom by (intro find_children_last) auto
  ultimately show ?thesis using wf by (simp add: find_root)
qed

lemma find_mounted:
  fixes s :: "'z vfs_scheme"
  assumes l: "last_child r ts n kids nd s" and b: "heap_budget (find_cost (CHR ''/'' # nd_name nd) + k) s"
  obtains s' where "vfs_find_node cs (Some (CHR ''/'' # nd_name nd)) s = Some (n, s')" "vm.more s' = vm.more s"
    "heap_budget k s'" "kern_live s' = kern_live s" "\<And>h. length (nd_name nd) + 2 < h \<Longrightarrow> heap_kept h s s'"
proof -
  note wf = l[unfolded last_child_def]
  have p: "parse_path (CHR ''/'' # nd_name nd) = (1, NUL # nd_name nd)" using parse_component[of "nd_name nd" "[]"] wf by simp
  have "find_walk (NUL # nd_name nd) 1 1 r s = Some (n, length (nd_name nd) + 2, 0)"
    using walk_last_child[OF l, of "[]" 0] by simp
  then have w: "find_walk (snd (parse_path (CHR ''/'' # nd_name nd))) (fst (parse_path (CHR ''/'' # nd_name nd))) 1
      (tdata (GTree r (ts @ [GTree n kids]))) s = Some (n, length (nd_name nd) + 2, 0)"
    unfolding p by simp
  have len: "length (CHR ''/'' # nd_name nd) < 2 ^ 30" "CHR ''/'' # nd_name nd \<noteq> ''/''"
    and t: "vfs_mountpoint_tree s = Some (GTree r (ts @ [GTree n kids]))" "vnodes s n = Some nd" using wf by auto
  show ?thesis by (rule vfs_find_node_run[OF b len t(1) w t(2)]) (use that in auto)
qed

text \<open>One level further down, the file system of the mounted node is asked for the rest of the path.\<close>

lemma find_below_mounted:
  fixes s :: "'z vfs_scheme"
  assumes l: "last_child r ts n [] nd s" and c: "component nm" "length nm < 2 ^ 28"
    and dir: "type_flags nd \<noteq> VFS_NODE_TYPE_SDIR" "dir_find nd = Sym f"
    and find: "\<And>s2. vm.more s2 = vm.more s \<Longrightarrow> call_finddir cs f n (CHR ''/'' # nm) s2 = Some (q, s2)"
    and b: "heap_budget (find_cost (CHR ''/'' # nd_name nd @ CHR ''/'' # nm) + k) s"
  obtains s' where "vfs_find_node cs (Some (CHR ''/'' # nd_name nd @ CHR ''/'' # nm)) s = Some (q, s')"
    "vm.more s' = vm.more s" "heap_budget k s'" "kern_live s' = kern_live s"
proof -
  note wf = l[unfolded last_child_def]
  let ?buf = "NUL # nd_name nd @ NUL # nm" and ?t = "GTree r (ts @ [GTree n []])"
  have "parse_path (CHR ''/'' # nm) = (1, NUL # nm)" using parse_component[OF c(1), of "[]"] by simp
  then have p: "parse_path (CHR ''/'' # nd_name nd @ CHR ''/'' # nm) = (2, ?buf)"
    using parse_component[of "nd_name nd" "CHR ''/'' # nm"] wf by (simp add: numeral_2_eq_2)
  have n: "n \<noteq> 0" "distinct (preorder ?t)" using wf by (auto simp: vfs_wf_def)
  have "find_walk ?buf 1 (length (nd_name nd) + 2) n s = Some (n, length (nd_name nd) + 2, 1)"
    using tree_child[OF n(2,1)] wf by simp
  then have w: "find_walk ?buf 2 1 r s = Some (n, length (nd_name nd) + 2, 1)"
    using walk_last_child[OF l, of "NUL # nm" 1] by (simp only: numeral_2_eq_2 One_nat_def list.sel) simp
  have d: "drop (length (nd_name nd) + 2 - 1) (CHR ''/'' # nd_name nd @ CHR ''/'' # nm) = CHR ''/'' # nm" by simp
  have w': "find_walk (snd (parse_path (CHR ''/'' # nd_name nd @ CHR ''/'' # nm))) (fst (parse_path (CHR ''/'' # nd_name nd @ CHR ''/'' # nm))) 1
      (tdata ?t) s = Some (n, length (nd_name nd) + 2, 1)"
    unfolding p using w by simp
  have len: "length (CHR ''/'' # nd_name nd @ CHR ''/'' # nm) < 2 ^ 30" "CHR ''/'' # nd_name nd @ CHR ''/'' # nm \<noteq> ''/''"
    and t: "vfs_mountpoint_tree s = Some ?t" "vnodes s n = Some nd" using wf c(2) by auto
  show ?thesis by (rule vfs_find_node_run[OF b len t(1) w' t(2), of cs q]) (use that dir find d in auto)
qed

end
