(* ===== verification/Devfs.thy ===== *)
theory Devfs
  imports Vfs
begin

text \<open>
  The device file system, \<^verbatim>\<open>drivers/devfs/devfs.c\<close>: a directory whose entries are device nodes. Every
  operation on a device node goes to the function of its driver, which is reached through \<open>drivers\<close>, the
  code of the device drivers. \<open>devfs_calls\<close> is the code behind the function pointers that devfs and the stub
  directories put into VFS nodes; all other symbols go to \<open>other\<close>.
\<close>

subsection \<open>State\<close>

definition VFS_FILESYSTEM_TYPE_DEVFS :: u16 where "VFS_FILESYSTEM_TYPE_DEVFS = 1"

record io_node =
  io_node_no :: u32
  io_node_type :: u32
  io_node_name :: string
  io_node_size :: u32
  io_open :: fn
  io_close :: fn
  io_read :: fn
  io_write :: fn
  io_control :: fn
  io_status :: fn
  io_base_pointer :: ptr

record devfs = vfs +
  root_node :: ptr
  devices :: "ptr list"
  device_node_no :: int
  devfs_is_ready_flag :: bool
  io_nodes :: "ptr \<rightharpoonup> io_node"

record 's drivers =
  drv_node :: "string \<Rightarrow> ptr \<Rightarrow> 's \<Rightarrow> (int \<times> 's) option"
  drv_io :: "string \<Rightarrow> ptr \<Rightarrow> u32 \<Rightarrow> u32 \<Rightarrow> ptr \<Rightarrow> 's \<Rightarrow> (int \<times> 's) option"
  drv_control :: "string \<Rightarrow> ptr \<Rightarrow> u32 \<Rightarrow> ptr \<Rightarrow> 's \<Rightarrow> (int \<times> 's) option"
  drv_status :: "string \<Rightarrow> ptr \<Rightarrow> 's \<Rightarrow> (u32 \<times> 's) option"

definition devfs_is_ready :: "'z devfs_scheme \<Rightarrow> bool" where
  "devfs_is_ready s = devfs_is_ready_flag s"

definition get_device_node_no :: "'z devfs_scheme \<Rightarrow> int \<times> 'z devfs_scheme" where
  "get_device_node_no s = (device_node_no s + 1, s\<lparr>device_node_no := device_node_no s + 1\<rparr>)"

subsection \<open>Operations on a device node\<close>

text \<open>The device behind a VFS node.\<close>

definition device_of :: "ptr \<Rightarrow> 'z devfs_scheme \<Rightarrow> (ptr \<times> io_node) option" where
  "device_of vfs_node s = do {
     nd \<leftarrow> vnodes s vfs_node;
     device \<leftarrow> io_nodes s (base_pointer nd);
     Some (base_pointer nd, device)
   }"

definition open_node_devfs :: "'z devfs_scheme drivers \<Rightarrow> ptr \<Rightarrow> 'z devfs_scheme \<Rightarrow> (int \<times> 'z devfs_scheme) option" where
  "open_node_devfs dr vfs_node s =
     (if vfs_node = 0 then Some (-1, s)
      else do {
        (d, device) \<leftarrow> device_of vfs_node s;
        (case io_open device of NULL_fn \<Rightarrow> Some (-1, s) | Sym f \<Rightarrow> drv_node dr f d s)
      })"

definition close_node_devfs :: "'z devfs_scheme drivers \<Rightarrow> ptr \<Rightarrow> 'z devfs_scheme \<Rightarrow> (int \<times> 'z devfs_scheme) option" where
  "close_node_devfs dr vfs_node s =
     (if vfs_node = 0 then Some (-1, s)
      else do {
        (d, device) \<leftarrow> device_of vfs_node s;
        (case io_close device of NULL_fn \<Rightarrow> Some (-1, s) | Sym f \<Rightarrow> drv_node dr f d s)
      })"

definition read_node_devfs ::
  "'z devfs_scheme drivers \<Rightarrow> ptr \<Rightarrow> u32 \<Rightarrow> u32 \<Rightarrow> ptr \<Rightarrow> 'z devfs_scheme \<Rightarrow> (int \<times> 'z devfs_scheme) option"
where
  "read_node_devfs dr vfs_node start_at sz buffer s =
     (if vfs_node = 0 \<or> buffer = 0 then Some (-1, s)
      else do {
        (d, device) \<leftarrow> device_of vfs_node s;
        (case io_read device of NULL_fn \<Rightarrow> Some (-1, s) | Sym f \<Rightarrow> drv_io dr f d start_at sz buffer s)
      })"

definition write_node_devfs ::
  "'z devfs_scheme drivers \<Rightarrow> ptr \<Rightarrow> u32 \<Rightarrow> u32 \<Rightarrow> ptr \<Rightarrow> 'z devfs_scheme \<Rightarrow> (int \<times> 'z devfs_scheme) option"
where
  "write_node_devfs dr vfs_node start_at sz buffer s =
     (if vfs_node = 0 \<or> buffer = 0 then Some (-1, s)
      else do {
        (d, device) \<leftarrow> device_of vfs_node s;
        (case io_write device of NULL_fn \<Rightarrow> Some (-1, s) | Sym f \<Rightarrow> drv_io dr f d start_at sz buffer s)
      })"

definition control_node_devfs ::
  "'z devfs_scheme drivers \<Rightarrow> ptr \<Rightarrow> u32 \<Rightarrow> ptr \<Rightarrow> 'z devfs_scheme \<Rightarrow> (int \<times> 'z devfs_scheme) option"
where
  "control_node_devfs dr vfs_node command arguments s =
     (if vfs_node = 0 \<or> command = 0 then Some (-1, s)
      else do {
        (d, device) \<leftarrow> device_of vfs_node s;
        (case io_control device of NULL_fn \<Rightarrow> Some (-1, s) | Sym f \<Rightarrow> drv_control dr f d command arguments s)
      })"

definition status_of_node_devfs :: "'z devfs_scheme drivers \<Rightarrow> ptr \<Rightarrow> 'z devfs_scheme \<Rightarrow> (u32 \<times> 'z devfs_scheme) option" where
  "status_of_node_devfs dr vfs_node s =
     (if vfs_node = 0 then Some (0xFFFFFFFF, s)
      else do {
        (d, device) \<leftarrow> device_of vfs_node s;
        (case io_status device of NULL_fn \<Rightarrow> Some (0xFFFFFFFF, s) | Sym f \<Rightarrow> drv_status dr f d s)
      })"

subsection \<open>The directory\<close>

definition create_node_devfs ::
  "ptr \<Rightarrow> string option \<Rightarrow> u16 \<Rightarrow> ptr \<Rightarrow> 'z devfs_scheme \<Rightarrow> (ptr \<times> 'z devfs_scheme) option"
where
  "create_node_devfs vfs_node nm ty base s =
     (case nm of
        None \<Rightarrow> Some (0, s)
      | Some nm \<Rightarrow>
          if vfs_node = 0 \<or> ty = 0 \<or> base = 0 then Some (0, s)
          else do {
            nd \<leftarrow> vnodes s vfs_node;
            root \<leftarrow> vnodes s (root_node s);
            if node_no nd \<noteq> node_no root then Some (0, s)
            else do {
              device \<leftarrow> io_nodes s base;
              (ret, s) \<leftarrow> kern_malloc sizeof_vnode s;
              if ret = 0 then None
              else Some (ret, s\<lparr>vnodes := (vnodes s)(ret \<mapsto>
                \<lparr>nd_name = nm, node_no = node_no nd + io_node_no device, nd_size = io_node_size device, type_flags = ty,
                 specific_type = ucast (io_node_type device), node_create = NULL_fn, node_open = Sym ''open_node_devfs'',
                 node_close = Sym ''close_node_devfs'', node_read = Sym ''read_node_devfs'', node_write = Sym ''write_node_devfs'',
                 node_control = Sym ''control_node_devfs'', node_status = Sym ''status_of_node_devfs'', dir_read = NULL_fn,
                 dir_find = NULL_fn, dir_list = NULL_fn, base_pointer = base\<rparr>),
                devices := devices s @ [ret]\<rparr>)
            }
          })"

definition read_directory_devfs :: "ptr \<Rightarrow> int \<Rightarrow> 'z devfs_scheme \<Rightarrow> ptr" where
  "read_directory_devfs vfs_node entry_no s =
     (if vfs_node = 0 \<or> entry_no < 0 \<or> vfs_node \<noteq> root_node s then 0
      else if entry_no < int (length (devices s)) then devices s ! nat entry_no else 0)"

text \<open>The name comes with its leading slash, which is skipped; an empty name would be read behind its end.\<close>

definition find_in_directory_devfs :: "ptr \<Rightarrow> string \<Rightarrow> 'z devfs_scheme \<Rightarrow> ptr option" where
  "find_in_directory_devfs vfs_node nm s =
     (if vfs_node = 0 \<or> vfs_node \<noteq> root_node s then Some 0
      else (case nm of [] \<Rightarrow> None | c # cs \<Rightarrow> find_child (vnodes s) cs (devices s)))"

definition list_directory_devfs :: "ptr \<Rightarrow> 'z devfs_scheme \<Rightarrow> (ptr list option \<times> 'z devfs_scheme) option" where
  "list_directory_devfs vfs_node s =
     (if vfs_node = 0 \<or> vfs_node \<noteq> root_node s then Some (None, s)
      else do {
        (ns, s) \<leftarrow> kern_malloc (4 * of_nat (length (devices s)) + 4) s;
        if ns = 0 then None else Some (Some (devices s @ [0]), s)
      })"

subsection \<open>Mounting and start-up\<close>

text \<open>The base pointer of the mounted root is the list \<open>devices\<close>, which is a value here; the node has 0.\<close>

definition mount_devfs :: "ptr \<Rightarrow> string \<Rightarrow> 'z devfs_scheme \<Rightarrow> (ptr \<times> 'z devfs_scheme) option" where
  "mount_devfs device mountpoint s = do {
     slash \<leftarrow> strrchr mountpoint (CHR ''/'');
     (node, s) \<leftarrow> kern_malloc sizeof_vnode s;
     if node = 0 then None
     else do {
       let (no, s) = get_node_no s;
       let s = s\<lparr>vnodes := (vnodes s)(node \<mapsto>
         \<lparr>nd_name = tl slash, node_no = word_of_int no, nd_size = 0, type_flags = VFS_NODE_TYPE_DIRE,
          specific_type = VFS_FILESYSTEM_TYPE_DEVFS, node_create = Sym ''create_node_devfs'', node_open = NULL_fn,
          node_close = NULL_fn, node_read = NULL_fn, node_write = NULL_fn, node_control = NULL_fn, node_status = NULL_fn,
          dir_read = Sym ''read_directory_devfs'', dir_find = Sym ''find_in_directory_devfs'',
          dir_list = Sym ''list_directory_devfs'', base_pointer = 0\<rparr>)\<rparr>;
       (r, s) \<leftarrow> mount_in_vfs node (Some mountpoint) s;
       Some (r, s\<lparr>root_node := r\<rparr>)
     }
   }"

text \<open>The code behind the function pointers.\<close>

definition devfs_calls :: "'z devfs_scheme drivers \<Rightarrow> 'z devfs_scheme calls \<Rightarrow> 'z devfs_scheme calls" where
  "devfs_calls dr other =
     \<lparr>call_node = (\<lambda>f n s. if f = ''open_node_devfs'' then open_node_devfs dr n s
                           else if f = ''close_node_devfs'' then close_node_devfs dr n s else call_node other f n s),
      call_io = (\<lambda>f n a z b s. if f = ''read_node_devfs'' then read_node_devfs dr n a z b s
                               else if f = ''write_node_devfs'' then write_node_devfs dr n a z b s
                               else call_io other f n a z b s),
      call_control = (\<lambda>f n c a s. if f = ''control_node_devfs'' then control_node_devfs dr n c a s
                                  else call_control other f n c a s),
      call_status = (\<lambda>f n s. if f = ''status_of_node_devfs'' then status_of_node_devfs dr n s
                             else call_status other f n s),
      call_create = (\<lambda>f n nm ty b s. if f = ''create_node_devfs'' then create_node_devfs n (Some nm) ty b s
                                     else call_create other f n nm ty b s),
      call_readdir = (\<lambda>f n e s. if f = ''read_directory_devfs'' then Some (read_directory_devfs n e s, s)
                                else if f = ''vfs_stub_directory_readdir'' then Some (vfs_stub_directory_readdir n e s, s)
                                else call_readdir other f n e s),
      call_finddir = (\<lambda>f n nm s. if f = ''find_in_directory_devfs''
                                 then do { r \<leftarrow> find_in_directory_devfs n nm s; Some (r, s) }
                                 else if f = ''vfs_stub_directory_finddir''
                                 then do { r \<leftarrow> vfs_stub_directory_finddir n nm s; Some (r, s) }
                                 else call_finddir other f n nm s),
      call_listdir = (\<lambda>f n s. if f = ''list_directory_devfs'' then list_directory_devfs n s
                              else if f = ''vfs_stub_directory_listdir''
                              then do { (ns, s) \<leftarrow> vfs_stub_directory_listdir n s; Some (Some ns, s) }
                              else call_listdir other f n s),
      call_mount = (\<lambda>f d mp s. if f = ''mount_devfs'' then mount_devfs d mp s else call_mount other f d mp s)\<rparr>"

definition initialise_devfs :: "'z devfs_scheme calls \<Rightarrow> string option \<Rightarrow> 'z devfs_scheme \<Rightarrow> 'z devfs_scheme option" where
  "initialise_devfs cs mountpoint s = do {
     (ident, s) \<leftarrow> get_filesystem_id s;
     if mountpoint = None then Some (s\<lparr>klog := klog s @ [''[ERROR initialising devfs!]'']\<rparr>)
     else do {
       let s = s\<lparr>devices := []\<rparr>;
       s \<leftarrow> register_filesystem_in_vfs ident (Sym ''mount_devfs'') s;
       (r, s) \<leftarrow> mount_filesystem_in_vfs cs ident mountpoint None s;
       Some (s\<lparr>root_node := r, devfs_is_ready_flag := True\<rparr>)
     }
   }"

subsection \<open>What devfs promises\<close>

lemma devfs_more:
  fixes s s' :: "'z devfs_scheme"
  assumes "vm.more s' = vm.more s"
  shows "root_node s' = root_node s" "devices s' = devices s" "io_nodes s' = io_nodes s" "device_node_no s' = device_node_no s"
  using assms by (cases s, cases s', simp)+

lemma vfs_ext_devfs:
  fixes s s' :: "'z devfs_scheme"
  assumes "vfs.more s' = vfs.more s"
  shows "root_node s' = root_node s" "devices s' = devices s" "io_nodes s' = io_nodes s" "device_node_no s' = device_node_no s"
  using assms by (cases s, cases s', simp)+

lemma devfs_upd_heap [simp]:
  "heap_budget k (s\<lparr>devices := d\<rparr>) = heap_budget k s" "heap_budget k (s\<lparr>root_node := p\<rparr>) = heap_budget k s"
  "heap_budget k (s\<lparr>devfs_is_ready_flag := b\<rparr>) = heap_budget k s" "heap_budget k (s\<lparr>filesystem_id := i\<rparr>) = heap_budget k s"
  "heap_budget k (s\<lparr>registered_filesystems := fs\<rparr>) = heap_budget k s"
  "kern_live (s\<lparr>devices := d\<rparr>) = kern_live s" "kern_live (s\<lparr>root_node := p\<rparr>) = kern_live s"
  "kern_live (s\<lparr>devfs_is_ready_flag := b\<rparr>) = kern_live s" "kern_live (s\<lparr>filesystem_id := i\<rparr>) = kern_live s"
  "kern_live (s\<lparr>registered_filesystems := fs\<rparr>) = kern_live s" for s :: "'z devfs_scheme"
  by (simp_all add: heap_budget_def wf_heap_def wf_blocks_def kern_live_def)

lemma heap_full_devices [simp]: "heap_full (s\<lparr>devices := d\<rparr>) = heap_full s" for s :: "'z devfs_scheme"
  by (simp add: heap_full_def)

lemma find_child_last:
  assumes "set ps \<subseteq> dom nds" "\<forall>p\<in>set ps. nd_name (the (nds p)) \<noteq> nm" "nds q = Some nd" "nd_name nd = nm"
  shows "find_child nds nm (ps @ [q]) = Some q"
  using assms by (induction ps) (auto simp: strcmp_eq)

text \<open>The mounted devfs: its root is the last child of the mount tree, and every device has a node.\<close>

definition devfs_mounted :: "ptr \<Rightarrow> gen_tree list \<Rightarrow> vfs_gen_node \<Rightarrow> 'z devfs_scheme \<Rightarrow> bool" where
  "devfs_mounted r ts nd s \<longleftrightarrow> last_child r ts (root_node s) [] nd s \<and>
     type_flags nd = VFS_NODE_TYPE_DIRE \<and> dir_find nd = Sym ''find_in_directory_devfs'' \<and>
     node_create nd = Sym ''create_node_devfs'' \<and> set (devices s) \<subseteq> dom (vnodes s)"

text \<open>A device node that can be created: a fresh name, a type and a registered device.\<close>

definition creatable :: "string \<Rightarrow> u16 \<Rightarrow> ptr \<Rightarrow> io_node \<Rightarrow> 'z devfs_scheme \<Rightarrow> bool" where
  "creatable nm ty base dev s \<longleftrightarrow> component nm \<and> length nm < 2 ^ 28 \<and> ty \<noteq> 0 \<and> base \<noteq> 0 \<and> io_nodes s base = Some dev \<and>
     (\<forall>d\<in>set (devices s). nd_name (the (vnodes s d)) \<noteq> nm)"

lemma create_node_devfs_ok:
  fixes s :: "'z devfs_scheme"
  assumes m: "devfs_mounted r ts nd s" and c: "creatable nm ty base dev s" and b: "heap_budget (alloc_cost sizeof_vnode + k) s"
  obtains q s' nd' where "create_node_devfs (root_node s) (Some nm) ty base s = Some (q, s')" "q \<noteq> 0" "q \<notin> dom (vnodes s)"
    "vnodes s' = (vnodes s)(q \<mapsto> nd')" "nd_name nd' = nm" "base_pointer nd' = base" "node_read nd' = Sym ''read_node_devfs''"
    "node_write nd' = Sym ''write_node_devfs''" "devices s' = devices s @ [q]" "io_nodes s' = io_nodes s" "root_node s' = root_node s"
    "devfs_mounted r ts nd s'" "heap_budget k s'" "nd_size nd' = io_node_size dev" "\<And>h. heap_kept h s s'"
proof -
  note wf = m[unfolded devfs_mounted_def last_child_def vfs_wf_def] and cr = c[unfolded creatable_def]
  have root: "vnodes s (root_node s) = Some nd" "root_node s \<noteq> 0" using wf by auto
  have "unat sizeof_vnode < 2 ^ 31" by (simp add: sizeof_vnode_def)
  from malloc_live[OF b this] obtain q s1 where s1: "kern_malloc sizeof_vnode s = Some (q, s1)" "q \<noteq> 0" "q \<notin> kern_live s"
    "kern_live s1 = insert q (kern_live s)" "heap_budget k s1" "vm.more s1 = vm.more s" "\<And>h. heap_kept h s s1" by metis
  note more = vfs_more[OF s1(6)] devfs_more[OF s1(6)]
  have q: "q \<notin> dom (vnodes s)" using s1(3) wf by auto
  obtain nd' s' where s': "create_node_devfs (root_node s) (Some nm) ty base s = Some (q, s')" "vnodes s' = (vnodes s)(q \<mapsto> nd')"
    "nd_name nd' = nm" "base_pointer nd' = base" "node_read nd' = Sym ''read_node_devfs''" "node_write nd' = Sym ''write_node_devfs''"
    "devices s' = devices s @ [q]" "io_nodes s' = io_nodes s" "root_node s' = root_node s" "heap_budget k s'"
    "vfs_mountpoint_tree s' = vfs_mountpoint_tree s" "kern_live s' = kern_live s1" "nd_size nd' = io_node_size dev"
    "kh_items s' = kh_items s1" "kh_bytes s' = kh_bytes s1"
    using s1(1,2,5) root cr by (simp add: create_node_devfs_def more)
  have "dom (vnodes s) \<subseteq> dom (vnodes s')" using s'(2) by auto
  moreover have "dom (vnodes s') \<subseteq> kern_live s'" "0 \<notin> dom (vnodes s')" using s' s1(2,4) wf by auto
  moreover have "vfs_wf s" using m by (simp add: devfs_mounted_def last_child_def)
  ultimately have "vfs_wf s'" using s'(11) vfs_wf_grow by blast
  moreover have "vnodes s' (root_node s') = Some nd" using s' root q by auto
  ultimately have "devfs_mounted r ts nd s'" using wf s' unfolding devfs_mounted_def last_child_def by auto
  moreover have "heap_kept h s s'" for h using heap_kept_trans[OF s1(7) heap_kept_cong[OF s'(14,15)]] .
  ultimately show ?thesis using that[OF s'(1) s1(2) q s'(2-9)] s'(10,13) by blast
qed

text \<open>The path of a device.\<close>

abbreviation device_path :: "vfs_gen_node \<Rightarrow> string \<Rightarrow> string" where
  "device_path nd nm \<equiv> CHR ''/'' # nd_name nd @ CHR ''/'' # nm"

text \<open>
  Clients of devfs need of the linked code only that its two symbols lead to devfs; the code of other file systems
  may stand in front of it or behind it.
\<close>

locale devfs_code =
  fixes cs :: "'z devfs_scheme calls"
  assumes finddir: "call_finddir cs ''find_in_directory_devfs'' n nm s = map_option (\<lambda>r. (r, s)) (find_in_directory_devfs n nm s)"
    and create: "call_create cs ''create_node_devfs'' n nm ty base s = create_node_devfs n (Some nm) ty base s"
begin

lemma find_device:
  fixes s :: "'z devfs_scheme"
  assumes m: "devfs_mounted r ts nd s" and c: "component nm" "length nm < 2 ^ 28"
    and q: "find_child (vnodes s) nm (devices s) = Some q" and b: "heap_budget (find_cost (device_path nd nm) + k) s"
  obtains s' where "vfs_find_node cs (Some (device_path nd nm)) s = Some (q, s')"
    "vm.more s' = vm.more s" "heap_budget k s'" "kern_live s' = kern_live s"
proof -
  note wf = m[unfolded devfs_mounted_def]
  have n: "root_node s \<noteq> 0" using wf by (auto simp: last_child_def vfs_wf_def)
  have find: "call_finddir cs ''find_in_directory_devfs'' (root_node s) (CHR ''/'' # nm) s2 = Some (q, s2)"
    if "vm.more s2 = vm.more s" for s2
    using n q by (simp add: finddir find_in_directory_devfs_def vfs_more[OF that] devfs_more[OF that])
  have l: "last_child r ts (root_node s) [] nd s" "type_flags nd \<noteq> VFS_NODE_TYPE_SDIR" "dir_find nd = Sym ''find_in_directory_devfs''"
    using wf by (auto simp: VFS_NODE_TYPE_DIRE_def VFS_NODE_TYPE_SDIR_def)
  show ?thesis by (rule find_below_mounted[OF l(1) c l(2,3) find b]) (use that in auto)
qed

lemma create_device:
  assumes "devfs_mounted r ts nd s" "base \<noteq> 0" "ty \<noteq> 0"
  shows "create_node_vfs cs (root_node s) (Some nm) ty base s = create_node_devfs (root_node s) (Some nm) ty base s"
proof -
  have "vnodes s (root_node s) = Some nd" "root_node s \<noteq> 0" "node_create nd = Sym ''create_node_devfs''"
    using assms(1) by (auto simp: devfs_mounted_def last_child_def vfs_wf_def)
  then show ?thesis using assms(2,3) by (simp add: create_node_vfs_def create)
qed

end

interpretation dv: devfs_code "devfs_calls dr other" for dr :: "'z devfs_scheme drivers" and other
  by unfold_locales (simp_all add: devfs_calls_def map_option_case split: option.split)

subsection \<open>Start-up\<close>

definition devfs_cost :: "string \<Rightarrow> nat" where
  "devfs_cost nm = alloc_cost 10 + alloc_cost 8 + alloc_cost sizeof_vnode + mount_cost nm"

text \<open>A place where devfs can be mounted: a fresh name under the root of a well-formed mount tree.\<close>

definition devfs_place :: "string \<Rightarrow> ptr \<Rightarrow> gen_tree list \<Rightarrow> 'z devfs_scheme \<Rightarrow> bool" where
  "devfs_place nm r ts s \<longleftrightarrow> vfs_wf s \<and> vfs_mountpoint_tree s = Some (GTree r ts) \<and>
     component nm \<and> nm \<noteq> [] \<and> length nm < 2 ^ 28 \<and> (\<forall>c\<in>tdata ` set ts. nd_name (the (vnodes s c)) \<noteq> nm)"

lemma devfs_place_cong:
  assumes "devfs_place nm r ts s" "vnodes s' = vnodes s" "vfs_mountpoint_tree s' = vfs_mountpoint_tree s" "kern_live s \<subseteq> kern_live s'"
  shows "devfs_place nm r ts s'"
  using assms by (auto simp: devfs_place_def vfs_wf_def)

lemma mount_devfs_ok:
  fixes s :: "'z devfs_scheme"
  assumes pl: "devfs_place nm r ts s" and b: "heap_budget (alloc_cost sizeof_vnode + (mount_cost nm + k)) s" and full: "heap_full s"
  obtains nd s' where "mount_devfs d (CHR ''/'' # nm) s = Some (root_node s', s')" "last_child r ts (root_node s') [] nd s'"
    "nd_name nd = nm" "type_flags nd = VFS_NODE_TYPE_DIRE" "dir_find nd = Sym ''find_in_directory_devfs''"
    "node_create nd = Sym ''create_node_devfs''" "devices s' = devices s" "heap_budget k s'" "io_nodes s' = io_nodes s"
proof -
  note wf = pl[unfolded devfs_place_def vfs_wf_def]
  have sz: "unat sizeof_vnode < 2 ^ 31" by (simp add: sizeof_vnode_def)
  from malloc_live[OF b this] obtain node s1 where s1: "kern_malloc sizeof_vnode s = Some (node, s1)" "node \<noteq> 0" "node \<notin> kern_live s"
    "kern_live s1 = insert node (kern_live s)" "heap_budget (mount_cost nm + k) s1" "vm.more s1 = vm.more s" by metis
  note more1 = vfs_more[OF s1(6)] devfs_more[OF s1(6)]
  define nd where "nd = \<lparr>nd_name = nm, node_no = word_of_int (node_number s + 1), nd_size = 0, type_flags = VFS_NODE_TYPE_DIRE,
          specific_type = VFS_FILESYSTEM_TYPE_DEVFS, node_create = Sym ''create_node_devfs'', node_open = NULL_fn,
          node_close = NULL_fn, node_read = NULL_fn, node_write = NULL_fn, node_control = NULL_fn, node_status = NULL_fn,
          dir_read = Sym ''read_directory_devfs'', dir_find = Sym ''find_in_directory_devfs'',
          dir_list = Sym ''list_directory_devfs'', base_pointer = 0\<rparr>"
  define s2 where "s2 = s1\<lparr>node_number := node_number s + 1, vnodes := (vnodes s)(node \<mapsto> nd)\<rparr>"
  have new: "node \<notin> dom (vnodes s)" "set (preorder (GTree r ts)) \<subseteq> dom (vnodes s)" using wf s1(3) by blast+
  have "vfs_wf s2"
    by (rule vfs_wf_grow[of s]) (use pl wf s1(2,4) in \<open>auto simp: s2_def more1 devfs_place_def\<close>)
  moreover have "vnodes s2 node = Some nd" "nd_name nd = nm" by (simp_all add: s2_def nd_def)
  moreover have "node \<notin> set (preorder (GTree r ts))" using new by blast
  moreover have "nd_name (the (vnodes s2 c)) \<noteq> nm" if "c \<in> tdata ` set ts" for c
    using that wf new tdata_preorder[of ts] by (auto simp: s2_def)
  ultimately have "mountable node nm r ts s2" using wf by (auto simp: mountable_def s2_def more1)
  moreover have "heap_budget (mount_cost nm + k) s2" using s1(5) by (simp add: s2_def)
  moreover have "heap_full s2" using malloc_full(1)[OF b sz full s1(1)] by (simp add: s2_def)
  ultimately obtain s3 where s3: "mount_in_vfs node (Some (CHR ''/'' # nm)) s2 = Some (node, s3)" "vnodes s3 = vnodes s2"
    "vfs_mountpoint_tree s3 = Some (GTree r (ts @ [GTree node []]))" "vfs_wf s3" "heap_budget k s3" "vfs.more s3 = vfs.more s2"
    by (rule mount_one)
  let ?s' = "s3\<lparr>root_node := node\<rparr>"
  have "strrchr (CHR ''/'' # nm) (CHR ''/'') = Some (CHR ''/'' # nm)"
    using strrchr_some[of "CHR ''/''" nm "[]"] wf by (simp add: component_def NUL_def)
  then have "mount_devfs d (CHR ''/'' # nm) s = Some (node, ?s')"
    using s1(1,2) s3(1) by (simp add: mount_devfs_def get_node_no_def Let_def more1 s2_def nd_def)
  moreover have "vfs_wf ?s'" using s3(4) by (simp add: vfs_wf_def)
  then have "last_child r ts node [] nd ?s'" using wf s3(2,3) \<open>vnodes s2 node = Some nd\<close> by (simp add: last_child_def nd_def)
  moreover have "devices s3 = devices s" "io_nodes s3 = io_nodes s" using vfs_ext_devfs[OF s3(6)] by (simp_all add: s2_def more1)
  ultimately show ?thesis using that[of ?s' nd] s3(5) by (simp add: nd_def)
qed

text \<open>Every identifier is one byte too long for the ten bytes that \<open>get_filesystem_id\<close> allocates for it.\<close>

lemma filesystem_ident_overflow:
  assumes "0x1000 \<le> n" "n \<le> 0xFFFF"
  shows "ksprintf (replicate 10 NUL) ''ID: %x'' [Kuint n] = None"
proof -
  have "kformat ''ID: %x'' [Kuint n] = Some (''ID: '' @ kputhex n)" by simp
  then show ?thesis using ksprintf_eq[of "''ID: %x''"] kputhex_length[OF assms] by simp
qed

text \<open>After \<open>initialise_devfs\<close> devfs is mounted, empty and ready.\<close>

lemma initialise_devfs_ok:
  fixes s :: "'z devfs_scheme"
  assumes pl: "devfs_place nm r ts s" and b: "heap_budget (devfs_cost nm + k) s" and ids: "idents_ok s" and full: "heap_full s"
  obtains nd s' where "initialise_devfs (devfs_calls dr other) (Some (CHR ''/'' # nm)) s = Some s'" "devfs_mounted r ts nd s'"
    "nd_name nd = nm" "devices s' = []" "devfs_is_ready s'" "heap_budget k s'" "io_nodes s' = io_nodes s"
proof -
  let ?b = "alloc_cost sizeof_vnode + (mount_cost nm + k)"
  have b': "heap_budget (alloc_cost 10 + (alloc_cost 8 + ?b)) s" using b by (simp only: devfs_cost_def add.assoc)
  have n: "0xF000 \<le> filesystem_id s" using ids by (simp add: idents_ok_def)
  obtain p s1 where s1: "get_filesystem_id s = Some (p, s1\<lparr>filesystem_id := filesystem_id s + 1\<rparr>)" "p \<noteq> 0"
    "kern_live s1 = insert p (kern_live s)" "heap_budget (alloc_cost 8 + ?b) s1" "vm.more s1 = vm.more s" "heap_kept 8 s s1"
    "holds_at p (filesystem_ident (filesystem_id s)) s1" "heap_full s1"
    by (rule filesystem_id_ok[OF b' full_small[OF full] n]) (use full in blast)
  note more1 = vfs_more[OF s1(5)] devfs_more[OF s1(5)]
  define s2 where "s2 = s1\<lparr>filesystem_id := filesystem_id s + 1, devices := []\<rparr>"
  have same: "holds_at x t s2 = holds_at x t s1" for x t by (simp add: holds_at_def s2_def)
  have ids2: "\<forall>r\<in>set (registered_filesystems s2). \<exists>i. 0xF000 \<le> i \<and> i < filesystem_id s \<and> holds_at (fst r) (filesystem_ident i) s2"
    using ids s1(6) unfolding same heap_kept_def idents_ok_def by (simp add: s2_def more1) blast
  have p2: "holds_at p (filesystem_ident (filesystem_id s)) s2" "heap_budget (alloc_cost 8 + ?b) s2" "heap_full s2"
    using s1(4,7,8) by (simp add: same, simp_all add: s2_def)
  obtain s4 where s4: "register_filesystem_in_vfs p (Sym ''mount_devfs'') s2 = Some s4"
    "find_registered (heap_byte s4) p (registered_filesystems s4) = Some (Some (p, ''mount_devfs''))" "heap_budget ?b s4"
    "kern_live s2 \<subseteq> kern_live s4" "vnodes s4 = vnodes s2" "vfs_mountpoint_tree s4 = vfs_mountpoint_tree s2" "vfs.more s4 = vfs.more s2" "heap_full s4"
    by (rule register_ok[OF p2(2) s1(2) p2(1) n ids2]) (use p2(3) in blast)
  have "devfs_place nm r ts s4" by (rule devfs_place_cong[OF pl]) (use s1(3) s4(4-6) in \<open>auto simp: s2_def more1\<close>)
  from mount_devfs_ok[OF this s4(3,8), of 0]
  obtain nd s5 where s5: "mount_devfs 0 (CHR ''/'' # nm) s4 = Some (root_node s5, s5)" "last_child r ts (root_node s5) [] nd s5"
    "nd_name nd = nm" "type_flags nd = VFS_NODE_TYPE_DIRE" "dir_find nd = Sym ''find_in_directory_devfs''"
    "node_create nd = Sym ''create_node_devfs''" "devices s5 = devices s4" "heap_budget k s5" "io_nodes s5 = io_nodes s4" by blast
  have mt: "mount_filesystem_in_vfs (devfs_calls dr other) p (Some (CHR ''/'' # nm)) None s4 = Some (root_node s5, s5)"
    using s5(1) s4(2) s1(2) by (simp add: mount_filesystem_in_vfs_def vfs_find_node_def devfs_calls_def)
  let ?s' = "s5\<lparr>root_node := root_node s5, devfs_is_ready_flag := True\<rparr>"
  have "initialise_devfs (devfs_calls dr other) (Some (CHR ''/'' # nm)) s = Some ?s'"
    using s1(1) s4(1) mt by (simp add: initialise_devfs_def Let_def s2_def[symmetric])
  moreover have dv: "devices s5 = []" "io_nodes s5 = io_nodes s" using s5(7,9) vfs_ext_devfs[OF s4(7)] by (simp_all add: s2_def more1)
  moreover have "devfs_mounted r ts nd ?s'"
    using s5(2,4-6) dv by (simp add: devfs_mounted_def last_child_def vfs_wf_def)
  ultimately show ?thesis using that[of ?s' nd] s5(3,8) by (simp add: devfs_is_ready_def)
qed

text \<open>From start-up to a device: mount devfs, create a node, and find it by its path.\<close>

definition device_cost :: "string \<Rightarrow> string \<Rightarrow> nat" where
  "device_cost nm dn = devfs_cost nm + (alloc_cost sizeof_vnode + find_cost (CHR ''/'' # nm @ CHR ''/'' # dn))"

lemma device_found:
  fixes s :: "'z devfs_scheme"
  assumes pl: "devfs_place nm r ts s" and b: "heap_budget (device_cost nm dn) s" and ids: "idents_ok s" and full: "heap_full s"
    and dn: "component dn" "length dn < 2 ^ 28" "ty \<noteq> 0" "base \<noteq> 0" "io_nodes s base = Some dev"
  obtains s1 q s2 s3 nd where "initialise_devfs (devfs_calls dr other) (Some (CHR ''/'' # nm)) s = Some s1" "devfs_is_ready s1"
    "create_node_devfs (root_node s1) (Some dn) ty base s1 = Some (q, s2)" "q \<noteq> 0"
    "vfs_find_node (devfs_calls dr other) (Some (CHR ''/'' # nm @ CHR ''/'' # dn)) s2 = Some (q, s3)"
    "vnodes s3 q = Some nd" "base_pointer nd = base" "node_read nd = Sym ''read_node_devfs''"
proof -
  let ?f = "find_cost (CHR ''/'' # nm @ CHR ''/'' # dn)"
  obtain rn s1 where s1: "initialise_devfs (devfs_calls dr other) (Some (CHR ''/'' # nm)) s = Some s1" "devfs_mounted r ts rn s1"
    "nd_name rn = nm" "devices s1 = []" "devfs_is_ready s1" "heap_budget (alloc_cost sizeof_vnode + ?f) s1" "io_nodes s1 = io_nodes s"
    by (rule initialise_devfs_ok[OF pl b[unfolded device_cost_def] ids full])
  have cr: "creatable dn ty base dev s1" using dn s1(4,7) by (simp add: creatable_def)
  have b1: "heap_budget (alloc_cost sizeof_vnode + (?f + 0)) s1" using s1(6) by simp
  obtain q s2 nd where s2: "create_node_devfs (root_node s1) (Some dn) ty base s1 = Some (q, s2)" "q \<noteq> 0"
    "vnodes s2 = (vnodes s1)(q \<mapsto> nd)" "nd_name nd = dn" "base_pointer nd = base" "node_read nd = Sym ''read_node_devfs''"
    "devices s2 = devices s1 @ [q]" "devfs_mounted r ts rn s2" "heap_budget (?f + 0) s2"
    by (rule create_node_devfs_ok[OF s1(2) cr b1])
  have "find_child (vnodes s2) dn (devices s2) = Some q" using s2(3,4,7) s1(4) by (simp add: strcmp_eq)
  then obtain s3 where s3: "vfs_find_node (devfs_calls dr other) (Some (device_path rn dn)) s2 = Some (q, s3)" "vm.more s3 = vm.more s2"
    by (rule dv.find_device[where k = 0, OF s2(8) dn(1,2)]) (use s2(9) s1(3) in auto)
  show ?thesis by (rule that[OF s1(1,5) s2(1,2)]) (use s3 s1(3) s2(3,5,6) vfs_more[OF s3(2)] in auto)
qed

end
