(* ===== verification/Elf.thy ===== *)
theory Elf
  imports Devfs
begin

text \<open>
  Loading programs, \<^verbatim>\<open>kernel/process/elf.c\<close> and \<^verbatim>\<open>kernel/process/loader.c\<close>. Reading a file is the argument \<open>fr\<close>:
  \<open>fr node off len\<close> are the bytes that \<^verbatim>\<open>read_from_vfs_node(node, off, len, buffer)\<close> stores at the start of
  the buffer. A header read from fewer bytes than it has is undefined (\<open>None\<close>), and so is an index outside
  of an array or a copy that leaves its buffer. Frames are arrays of words; a byte of a frame is a byte of
  one of its words, in little endian order.
\<close>

subsection \<open>Bytes of words and frames\<close>

definition get_byte :: "u32 \<Rightarrow> nat \<Rightarrow> u8" where
  "get_byte w i = ucast (drop_bit (8 * i) w)"

definition set_byte :: "u32 \<Rightarrow> nat \<Rightarrow> u8 \<Rightarrow> u32" where
  "set_byte w i b = (w AND NOT (push_bit (8 * i) 0xFF)) OR push_bit (8 * i) (ucast b)"

definition window_put :: "nat \<Rightarrow> u8 \<Rightarrow> 'z vm_scheme \<Rightarrow> 'z vm_scheme" where
  "window_put k b s = win_write (k div 4) (set_byte (win_read (k div 4) s) (k mod 4) b) s"

fun window_load :: "nat \<Rightarrow> u8 list \<Rightarrow> 'z vm_scheme \<Rightarrow> 'z vm_scheme option" where
  "window_load k [] s = Some s"
| "window_load k (b # bs) s = (if k < 4096 then window_load (Suc k) bs (window_put k b s) else None)"

definition le16 :: "u8 list \<Rightarrow> nat \<Rightarrow> u16" where
  "le16 bs i = ucast (bs ! i) OR push_bit 8 (ucast (bs ! (i + 1)))"

definition le32 :: "u8 list \<Rightarrow> nat \<Rightarrow> u32" where
  "le32 bs i = ucast (bs ! i) OR push_bit 8 (ucast (bs ! (i + 1))) OR push_bit 16 (ucast (bs ! (i + 2))) OR push_bit 24 (ucast (bs ! (i + 3)))"

subsection \<open>Headers\<close>

record Elf32_Ehdr =
  e_ident :: "u8 list"
  e_type :: u16
  e_machine :: u16
  e_version :: u32
  e_entry :: u32
  e_phoff :: u32
  e_shoff :: u32
  e_flags :: u32
  e_ehsize :: u16
  e_phentsize :: u16
  e_phnum :: u16
  e_shentsize :: u16
  e_shnum :: u16
  e_shstrndx :: u16

record Elf32_Phdr =
  p_type :: u32
  p_offset :: u32
  p_vaddr :: u32
  p_paddr :: u32
  p_filesz :: u32
  p_memsz :: u32
  p_flags :: u32
  p_align :: u32

definition sizeof_Elf32_Ehdr :: u32 where "sizeof_Elf32_Ehdr = 52"
definition sizeof_Elf32_Phdr :: u32 where "sizeof_Elf32_Phdr = 32"
definition PT_LOAD :: u32 where "PT_LOAD = 1"

definition read_ehdr :: "u8 list \<Rightarrow> Elf32_Ehdr option" where
  "read_ehdr bs =
     (if length bs < 52 then None
      else Some \<lparr>e_ident = take 16 bs, e_type = le16 bs 16, e_machine = le16 bs 18, e_version = le32 bs 20,
        e_entry = le32 bs 24, e_phoff = le32 bs 28, e_shoff = le32 bs 32, e_flags = le32 bs 36, e_ehsize = le16 bs 40,
        e_phentsize = le16 bs 42, e_phnum = le16 bs 44, e_shentsize = le16 bs 46, e_shnum = le16 bs 48,
        e_shstrndx = le16 bs 50\<rparr>)"

definition read_phdr :: "u8 list \<Rightarrow> Elf32_Phdr option" where
  "read_phdr bs =
     (if length bs < 32 then None
      else Some \<lparr>p_type = le32 bs 0, p_offset = le32 bs 4, p_vaddr = le32 bs 8, p_paddr = le32 bs 12,
        p_filesz = le32 bs 16, p_memsz = le32 bs 20, p_flags = le32 bs 24, p_align = le32 bs 28\<rparr>)"

definition validate_elf :: "Elf32_Ehdr \<Rightarrow> int" where
  "validate_elf hdr =
     (if e_ident hdr ! 0 \<noteq> 0x7F then -1
      else if e_ident hdr ! 1 \<noteq> of_char (CHR ''E'') then -1
      else if e_ident hdr ! 2 \<noteq> of_char (CHR ''L'') then -1
      else if e_ident hdr ! 3 \<noteq> of_char (CHR ''F'') then -1
      else if e_ident hdr ! 4 \<noteq> 1 then -1
      else if e_ident hdr ! 5 \<noteq> 1 then -1
      else if e_ident hdr ! 6 \<noteq> 1 then -1
      else if e_machine hdr \<noteq> 3 then -1
      else if e_type hdr \<noteq> 1 \<and> e_type hdr \<noteq> 2 then -1
      else 0)"

subsection \<open>Loading the segments\<close>

definition size_in_pages :: "u32 \<Rightarrow> u32 \<Rightarrow> nat" where
  "size_in_pages start fin =
     (let n = (fin - start) div 4096 in unat (if (fin - start) mod 4096 \<noteq> 0 then n + 1 else n))"

text \<open>The copy loop; a file part that is longer than the segment runs out of the array of frames.\<close>

fun copy_pages :: "(u32 \<Rightarrow> u32 \<Rightarrow> u8 list) \<Rightarrow> u32 \<Rightarrow> u32 \<Rightarrow> u32 list \<Rightarrow> 'z vm_scheme \<Rightarrow> 'z vm_scheme option" where
  "copy_pages rd cur fin [] s = (if cur < fin then None else Some s)"
| "copy_pages rd cur fin (p # ps) s =
     (if cur < fin
      then do {
        let n = (if 0x1000 < fin - cur then 4096 else fin - cur);
        s \<leftarrow> window_load 0 (rd cur n) (temp_map_page p s);
        copy_pages rd (cur + 0x1000) fin ps s
      }
      else Some s)"

definition load_segment :: "(u32 \<Rightarrow> u32 \<Rightarrow> u8 list) \<Rightarrow> u32 \<Rightarrow> Elf32_Phdr \<Rightarrow> 'z vm_scheme \<Rightarrow> 'z vm_scheme option" where
  "load_segment rd pdir p_hdr s =
     (if p_vaddr p_hdr \<noteq> 0 \<and> p_type p_hdr = PT_LOAD
      then (let start = p_vaddr p_hdr;
                fin = p_vaddr p_hdr + p_memsz p_hdr;
                (physicals, s) = map_pages pdir (map (\<lambda>i. start + of_nat i * 0x1000) [0..<size_in_pages start fin]) s
            in copy_pages rd (p_offset p_hdr) (p_offset p_hdr + p_filesz p_hdr) physicals s)
      else Some s)"

fun load_segments :: "(u32 \<Rightarrow> u32 \<Rightarrow> u8 list) \<Rightarrow> u32 \<Rightarrow> u32 list \<Rightarrow> 'z vm_scheme \<Rightarrow> 'z vm_scheme option" where
  "load_segments rd pdir [] s = Some s"
| "load_segments rd pdir (a # as) s = do {
     p_hdr \<leftarrow> read_phdr (rd a sizeof_Elf32_Phdr);
     s \<leftarrow> load_segment rd pdir p_hdr s;
     load_segments rd pdir as s
   }"

text \<open>The loop over the program headers runs \<open>e_phnum\<close> times, or not at all for an entry size of 0.\<close>

definition phdr_offsets :: "Elf32_Ehdr \<Rightarrow> u32 list" where
  "phdr_offsets hdr =
     (if e_phentsize hdr = 0 then []
      else map (\<lambda>k. e_phoff hdr + of_nat k * ucast (e_phentsize hdr)) [0..<unat (e_phnum hdr)])"

definition elf_load_executable ::
  "(ptr \<Rightarrow> u32 \<Rightarrow> u32 \<Rightarrow> u8 list) \<Rightarrow> ptr \<Rightarrow> ptr \<Rightarrow> 'z devfs_scheme \<Rightarrow> (Elf32_Ehdr \<times> 'z devfs_scheme) option"
where
  "elf_load_executable fr process file s = do {
     p \<leftarrow> procs s process;
     e_hdr \<leftarrow> read_ehdr (fr file 0 sizeof_Elf32_Ehdr);
     if validate_elf e_hdr = -1 then Some (e_hdr, s)
     else do {
       s \<leftarrow> load_segments (fr file) (proc_pdir p) (phdr_offsets e_hdr) s;
       Some (e_hdr, s)
     }
   }"

subsection \<open>The loader\<close>

text \<open>The page with the program name and the arguments, each with its terminator.\<close>

definition argv_bytes :: "string \<Rightarrow> string list \<Rightarrow> u8 list" where
  "argv_bytes nm argv = map of_char (concat (map (\<lambda>a. a @ [NUL]) (nm # argv)))"

definition argv_total_length :: "string \<Rightarrow> string list \<Rightarrow> nat" where
  "argv_total_length nm argv = sum_list (map (\<lambda>a. length a + 1) (nm # argv))"

text \<open>The four words on top of the user stack.\<close>

definition push_start_words :: "u32 \<Rightarrow> u32 \<Rightarrow> nat \<Rightarrow> nat \<Rightarrow> 'z vm_scheme \<Rightarrow> 'z vm_scheme" where
  "push_start_words page heap_end_ptr len argc s =
     (let s = temp_map_page page s;
          s = win_write 1020 0xDB05DB05 s;
          s = win_write 1021 heap_end_ptr s;
          s = win_write 1022 (of_nat len) s
      in win_write 1023 (of_nat argc + 1) s)"

text \<open>Name and details are copied into arrays of 128 and 256 characters.\<close>

definition set_proc_name :: "ptr \<Rightarrow> string \<Rightarrow> 'z kern_scheme \<Rightarrow> 'z kern_scheme option" where
  "set_proc_name process nm s =
     (if length nm < 128 then upd_proc process (\<lambda>p. p\<lparr>pname := nm, details := ''USER PROCESS''\<rparr>) s else None)"

text \<open>The part that \<open>loader_exec\<close> and \<open>loader_spawn\<close> share: arguments, heap and start words.\<close>

definition load_arguments :: "ptr \<Rightarrow> string list \<Rightarrow> 'z devfs_scheme \<Rightarrow> 'z devfs_scheme option" where
  "load_arguments process argv s = do {
     let (argv_phys, s) = alloc_phys_page s;
     p \<leftarrow> procs s process;
     s \<leftarrow> window_load 0 (argv_bytes (pname p) argv) (temp_map_page argv_phys s);
     let s = set_page_table_entry (proc_pdir p) PROCESS_HEAP argv_phys True True s;
     upd_proc process (\<lambda>p. p\<lparr>heap_end := heap_start p + 0x1000\<rparr>) s
   }"

definition finish_load :: "ptr \<Rightarrow> string list \<Rightarrow> 'z devfs_scheme \<Rightarrow> 'z devfs_scheme option" where
  "finish_load process argv s = do {
     p \<leftarrow> procs s process;
     if proc_ustack_phys p = [] then None
     else do {
       let s = push_start_words (last (proc_ustack_phys p)) (heap_end p) (argv_total_length (pname p) argv) (length argv) s;
       upd_proc process (\<lambda>p. p\<lparr>proc_regs := (proc_regs p)\<lparr>useresp := useresp (proc_regs p) - 16\<rparr>\<rparr>) s
     }
   }"

text \<open>The copies of the file name and of the arguments on the kernel heap.\<close>

fun malloc_all :: "u32 list \<Rightarrow> 'z vm_scheme \<Rightarrow> (ptr list \<times> 'z vm_scheme) option" where
  "malloc_all [] s = Some ([], s)"
| "malloc_all (n # ns) s = do {
     (p, s) \<leftarrow> kern_malloc n s;
     if p = 0 then None
     else do { (ps, s) \<leftarrow> malloc_all ns s; Some (p # ps, s) }
   }"

fun free_all :: "ptr list \<Rightarrow> 'z vm_scheme \<Rightarrow> 'z vm_scheme option" where
  "free_all [] s = Some s"
| "free_all (p # ps) s = do { s \<leftarrow> kern_free p s; free_all ps s }"

definition loader_exec ::
  "'z devfs_scheme calls \<Rightarrow> (ptr \<Rightarrow> u32 \<Rightarrow> u32 \<Rightarrow> u8 list) \<Rightarrow> ptr \<Rightarrow> string \<Rightarrow> string list \<Rightarrow> 'z devfs_scheme \<Rightarrow> (int \<times> 'z devfs_scheme) option"
where
  "loader_exec cs fr process filename argv s = do {
     (binary, s) \<leftarrow> vfs_find_node cs (Some filename) s;
     if binary = 0 then Some (-1, s)
     else do {
       (fname_copy, s) \<leftarrow> kern_malloc (of_nat (length filename + 1)) s;
       (argv_copy, s) \<leftarrow> kern_malloc (4 * of_nat (length argv)) s;
       (copies, s) \<leftarrow> (if fname_copy = 0 \<or> (argv_copy = 0 \<and> argv \<noteq> []) then None
                        else malloc_all (map (\<lambda>a. of_nat (length a + 1)) argv) s);
       p \<leftarrow> procs s process;
       let s = remove_address_space (proc_pdir p) s;
       s \<leftarrow> upd_proc process (\<lambda>p. p\<lparr>type := PROCESS_TYPE_STANDALONE\<rparr>) s;
       nd \<leftarrow> vnodes s binary;
       s \<leftarrow> set_proc_name process (nd_name nd) s;
       (header, s) \<leftarrow> elf_load_executable fr process binary s;
       s \<leftarrow> upd_proc process (\<lambda>p. p\<lparr>proc_regs := (proc_regs p)\<lparr>r_eip := e_entry header\<rparr>\<rparr>) s;
       let (phys, s) = map_pages (proc_pdir p) (stack_addrs (length (proc_ustack_phys p))) s;
       s \<leftarrow> upd_proc process (\<lambda>p. p\<lparr>proc_ustack_phys := phys, heap_start := PROCESS_HEAP\<rparr>) s;
       s \<leftarrow> load_arguments process argv s;
       s \<leftarrow> upd_proc process (\<lambda>p. p\<lparr>proc_regs := (proc_regs p)\<lparr>int_no := 0x20, err_code := 0, r_eflags := 0x0202,
              useresp := PROCESS_STACK + of_nat PROCESS_STACK_PAGES * 0x1000\<rparr>\<rparr>) s;
       s \<leftarrow> finish_load process argv s;
       s \<leftarrow> kern_free fname_copy s;
       s \<leftarrow> free_all copies s;
       s \<leftarrow> kern_free argv_copy s;
       Some (0, s)
     }
   }"

definition loader_spawn ::
  "'z devfs_scheme calls \<Rightarrow> (ptr \<Rightarrow> u32 \<Rightarrow> u32 \<Rightarrow> u8 list) \<Rightarrow> string \<Rightarrow> ptr \<Rightarrow> string list \<Rightarrow> 'z devfs_scheme \<Rightarrow> (int \<times> 'z devfs_scheme) option"
where
  "loader_spawn cs fr filename par argv s = do {
     (binary, s) \<leftarrow> vfs_find_node cs (Some filename) s;
     if binary = 0 then Some (-1, s)
     else do {
       (new_proc, s) \<leftarrow> proc_create (vfs_find_node cs (Some ''/dev/gtty'')) par s;
       nd \<leftarrow> vnodes s binary;
       s \<leftarrow> set_proc_name new_proc (nd_name nd) s;
       (header, s) \<leftarrow> elf_load_executable fr new_proc binary s;
       s \<leftarrow> upd_proc new_proc (\<lambda>p. p\<lparr>proc_regs := (proc_regs p)\<lparr>r_eip := e_entry header\<rparr>\<rparr>) s;
       s \<leftarrow> load_arguments new_proc argv s;
       s \<leftarrow> finish_load new_proc argv s;
       s \<leftarrow> sched_make_ready new_proc s;
       p \<leftarrow> procs s new_proc;
       Some (pid p, s)
     }
   }"

subsection \<open>A row of fresh pages\<close>

text \<open>The frames that are still free.\<close>

definition free_frames :: "'z vm_scheme \<Rightarrow> u32 set" where
  "free_frames s = phys_frames s - used_frames s"

lemma can_alloc_free: "phys_inv s \<Longrightarrow> 0 < card (free_frames s) \<Longrightarrow> can_alloc s"
  by (auto simp: can_alloc_def free_frames_def card_gt_0_iff)

lemma set_entry_uses:
  fixes dir v p :: u32 and pr us :: bool and s :: "'z vm_scheme"
  assumes inv: "phys_inv s" and wf: "wf_dir (drop_bit 12 dir) s" and v: "pdi v < 1023" and room: "can_alloc s"
  defines "d \<equiv> drop_bit 12 dir" and "s' \<equiv> set_page_table_entry dir v p pr us s"
  shows "i < 1023 \<Longrightarrow> table d i s' = table d i s \<or> \<not> frame_used (table d i s') s"
    and "\<exists>x. used_frames s' \<subseteq> insert x (used_frames s)" and "phys_frames s' = phys_frames s" and "used_frames s \<subseteq> used_frames s'"
proof -
  have "(i < 1023 \<longrightarrow> table d i s' = table d i s \<or> \<not> frame_used (table d i s') s) \<and>
    (\<exists>x. used_frames s' \<subseteq> insert x (used_frames s)) \<and> phys_frames s' = phys_frames s \<and> used_frames s \<subseteq> used_frames s'"
  proof (cases "table d (pdi v) s = 0")
    case True
    obtain a s1 where al: "alloc_phys_page s = (a, s1)" by (cases "alloc_phys_page s")
    note fr = alloc_page_fresh[OF inv room al]
    note eff = set_entry_new[of dir v s a s1 p pr us, folded d_def, OF True al, unfolded Let_def, folded s'_def]
    note tr = phys_truncate_cong[OF eff(2)]
    have "drop_bit 12 a \<noteq> d" using fr(3) wf_dirD(1)[OF wf] by (metis d_def)
    then have "table d i s' = (if i = pdi v then drop_bit 12 a else table d i s)" by (simp add: table_def eff(1))
    moreover have "phys_frames s1 = phys_frames s" using pf.alloc_inv[OF inv] al by simp
    ultimately show ?thesis using fr(3,4) tr by auto
  next
    case False
    note eff = set_entry_existing[of dir v s p pr us, folded d_def, OF False, unfolded Let_def, folded s'_def]
    note tr = phys_truncate_cong[OF eff(2)]
    have "table d (pdi v) s \<noteq> d" using wf_dirD(2)[OF wf v] False by (simp add: d_def)
    then have "table d i s' = table d i s" by (simp add: table_def eff(1))
    then show ?thesis using tr by auto
  qed
  then show "i < 1023 \<Longrightarrow> table d i s' = table d i s \<or> \<not> frame_used (table d i s') s"
    "\<exists>x. used_frames s' \<subseteq> insert x (used_frames s)" "phys_frames s' = phys_frames s" "used_frames s \<subseteq> used_frames s'" by auto
qed

text \<open>One round: what is known of the fresh frame \<open>a\<close> and of the state afterwards.\<close>

definition zeroed :: "(nat \<Rightarrow> u32) \<Rightarrow> bool" where
  "zeroed m \<longleftrightarrow> (\<forall>j<1024. m j = 0)"

definition page_added_as :: "bool \<Rightarrow> ((nat \<Rightarrow> u32) \<Rightarrow> bool) \<Rightarrow> u32 \<Rightarrow> u32 \<Rightarrow> u32 \<Rightarrow> 'z vm_scheme \<Rightarrow> 'z vm_scheme \<Rightarrow> bool" where
  "page_added_as us Z d v a s s' \<longleftrightarrow>
     phys_inv s' \<and> wf_dir d s' \<and> a \<notin> used_frames s \<and> insert a (used_frames s) \<subseteq> used_frames s' \<and> push_bit 12 (drop_bit 12 a) = a \<and>
     card (free_frames s) \<le> card (free_frames s') + 2 \<and> pte_of d v s' = fresh_pte True us a \<and>
     (\<forall>w. pdi w < 1023 \<longrightarrow> align_page w \<noteq> align_page v \<longrightarrow> pte_of d w s' = pte_of d w s) \<and>
     Z (mem s' (drop_bit 12 a)) \<and> drop_bit 12 a \<noteq> d \<and> (\<forall>i<1023. drop_bit 12 a \<noteq> table d i s') \<and>
     (\<forall>f. frame_used f s \<longrightarrow> f \<noteq> d \<longrightarrow> (\<forall>i<1023. f \<noteq> table d i s) \<longrightarrow> mem s' f = mem s f \<and> (\<forall>i<1023. f \<noteq> table d i s'))"

abbreviation page_added :: "((nat \<Rightarrow> u32) \<Rightarrow> bool) \<Rightarrow> u32 \<Rightarrow> u32 \<Rightarrow> u32 \<Rightarrow> 'z vm_scheme \<Rightarrow> 'z vm_scheme \<Rightarrow> bool" where
  "page_added \<equiv> page_added_as True"

lemma wf_dir_truncate:
  assumes "wf_dir d s" "\<And>f. frame_used f s \<Longrightarrow> frame_used f s'" "\<And>i. i < 1023 \<Longrightarrow> table d i s' = table d i s"
  shows "wf_dir d s'"
  using assms unfolding wf_dir_def by metis

lemma add_page:
  assumes inv: "phys_inv s" and wf: "wf_dir (drop_bit 12 dir) s" and v: "pdi v < 1023" and room: "2 \<le> card (free_frames s)"
    and al: "alloc_phys_page s = (a, s1)" and keep: "phys.truncate s2 = phys.truncate s1"
    and mem2: "\<And>f. f \<noteq> drop_bit 12 a \<Longrightarrow> mem s2 f = mem s f" and z: "Z (mem s2 (drop_bit 12 a))"
  shows "page_added_as us Z (drop_bit 12 dir) v a s (set_page_table_entry dir v a True us s2)"
proof -
  define d n s' where "d = drop_bit 12 dir" and "n = drop_bit 12 a" and "s' = set_page_table_entry dir v a True us s2"
  note mem2 = mem2[folded n_def] and z = z[folded n_def]
  have can: "can_alloc s" by (rule can_alloc_free[OF inv]) (use room in simp)
  note fr = alloc_page_fresh[OF inv can al, folded n_def]
  note tr = phys_truncate_cong[OF keep]
  have nd: "n \<noteq> d" using fr(3) wf_dirD(1)[OF wf] by (metis d_def)
  have nt: "table d i s \<noteq> n" if "i < 1023" for i using fr(2,3) wf_dirD(3)[OF wf that] by (metis d_def)
  have tab: "table d i s2 = table d i s" for i using nd by (simp add: table_def mem2)
  have inv2: "phys_inv s2" using fr(5) tr by simp
  have used2: "frame_used n s2" "\<And>f. frame_used f s \<Longrightarrow> frame_used f s2"
    using fr(1,4) by (auto simp: frame_used_def tr)
  have wf2: "wf_dir d s2" by (rule wf_dir_truncate[OF wf[folded d_def] used2(2) tab])
  have fin: "finite (free_frames s)" "free_frames s2 = free_frames s - {a}" "a \<in> free_frames s"
    using pf.frames_finite[OF inv] pf.alloc_inv[OF inv] pf.alloc_fresh[OF inv] al can fr(4)
    by (auto simp: free_frames_def tr can_alloc_def)
  then have c2: "card (free_frames s) = card (free_frames s2) + 1" using room by (simp add: card_Diff_singleton)
  have can2: "can_alloc s2" by (rule can_alloc_free[OF inv2]) (use c2 room in simp)
  note m = set_entry_maps[of s2 dir v True us a, OF inv2 wf2[unfolded d_def] v disjI2[OF can2], folded d_def s'_def, unfolded maps_page_def]
  note u = set_entry_uses[where p = a and pr = True and us = us, OF inv2 wf2[unfolded d_def] v can2, folded d_def s'_def]
  obtain x where x: "used_frames s' \<subseteq> insert x (used_frames s2)" using u(2) by blast
  have "free_frames s2 \<subseteq> insert x (free_frames s')" using x u(3) by (auto simp: free_frames_def)
  moreover have "finite (free_frames s')" using pf.frames_finite[of s'] m by (simp add: free_frames_def)
  ultimately have c3: "card (free_frames s2) \<le> card (free_frames s') + 1"
    using card_mono[of "insert x (free_frames s')" "free_frames s2"] by (simp add: card_insert_if split: if_splits)
  have pte: "pte_of d w s2 = pte_of d w s" if "pdi w < 1023" for w
    using nt[OF that] by (simp add: pte_of_def tab mem2)
  have tab': "table d i s' \<noteq> f" if "i < 1023" "frame_used f s2" "\<forall>i<1023. f \<noteq> table d i s2" for i f
    using u(1)[OF that(1)] that by metis
  show ?thesis unfolding page_added_as_def d_def[symmetric] n_def[symmetric] s'_def[symmetric]
  proof (intro conjI allI impI)
    have "align_page a = a" using fr(1) push_drop_12[of a] by (simp add: n_def)
    then show "pte_of d v s' = fresh_pte True us a" using m by simp
    have "n \<noteq> table d (pdi v) s2" using nt[OF v] tab by metis
    then have "mem s' n = mem s2 n" using m nd used2 by blast
    then show "Z (mem s' n)" using z by simp
    show "a \<notin> used_frames s" using fr(1,3) by (simp add: frame_used_def)
    show "insert a (used_frames s) \<subseteq> used_frames s'" using u(4) fr(4) tr by auto
    show "n \<noteq> table d i s'" if "i < 1023" for i
      using tab'[OF that used2(1)] nt tab by metis
    fix f assume f: "frame_used f s" "f \<noteq> d" "\<forall>i<1023. f \<noteq> table d i s"
    then have "f \<noteq> n" using fr(3) by auto
    then have "mem s2 f = mem s f" by (simp add: mem2)
    moreover have "mem s' f = mem s2 f" using m f used2(2) tab v by metis
    ultimately show "mem s' f = mem s f" by simp
    show "f \<noteq> table d i s'" if "i < 1023" for i
      using tab'[OF that used2(2)[OF f(1)]] f(3) tab by metis
  qed (use m fr c2 c3 nd pte in auto)
qed

lemma add_cleared_page:
  assumes "phys_inv s" "wf_dir (drop_bit 12 dir) s" "pdi v < 1023" "2 \<le> card (free_frames s)" "alloc_phys_page s = (a, s1)"
  shows "page_added zeroed (drop_bit 12 dir) v a s (set_page_table_entry dir v a True True (win_clear (temp_map_page a s1)))"
proof -
  have "mem s1 = mem s" using alloc_page_vm(1)[of s] assms(5) by simp
  then show ?thesis by (intro add_page[OF assms]) (simp_all add: zeroed_def)
qed

text \<open>The whole row: distinct new frames, all zero, one under each address, and nothing else disturbed.\<close>

definition pages_mapped :: "((nat \<Rightarrow> u32) \<Rightarrow> bool) \<Rightarrow> u32 \<Rightarrow> u32 list \<Rightarrow> u32 list \<Rightarrow> 'z vm_scheme \<Rightarrow> 'z vm_scheme \<Rightarrow> bool" where
  "pages_mapped Z d vs ps s s' \<longleftrightarrow>
     phys_inv s' \<and> wf_dir d s' \<and> used_frames s \<union> set ps \<subseteq> used_frames s' \<and> set ps \<inter> used_frames s = {} \<and> distinct ps \<and>
     list_all2 (\<lambda>v p. pte_of d v s' = fresh_pte True True p) vs ps \<and>
     (\<forall>p \<in> set ps. Z (mem s' (drop_bit 12 p)) \<and> drop_bit 12 p \<noteq> d \<and> (\<forall>i<1023. drop_bit 12 p \<noteq> table d i s')) \<and>
     (\<forall>w. pdi w < 1023 \<longrightarrow> align_page w \<notin> align_page ` set vs \<longrightarrow> pte_of d w s' = pte_of d w s) \<and>
     (\<forall>f. frame_used f s \<longrightarrow> f \<noteq> d \<longrightarrow> (\<forall>i<1023. f \<noteq> table d i s) \<longrightarrow> mem s' f = mem s f \<and> (\<forall>i<1023. f \<noteq> table d i s'))"

lemma pages_mapped_Cons:
  assumes one: "page_added Z d v a s s1" and rest: "pages_mapped Z d vs ps s1 s'"
    and v: "pdi v < 1023" "align_page v \<notin> align_page ` set vs"
  shows "pages_mapped Z d (v # vs) (a # ps) s s'"
proof -
  note o = one[unfolded page_added_as_def] and r = rest[unfolded pages_mapped_def]
  have a: "frame_used (drop_bit 12 a) s1" using o by (auto simp: frame_used_def)
  have ma: "mem s' (drop_bit 12 a) = mem s1 (drop_bit 12 a) \<and> (\<forall>i<1023. drop_bit 12 a \<noteq> table d i s')" using a o r by blast
  have up: "frame_used f s \<Longrightarrow> frame_used f s1" for f using o by (auto simp: frame_used_def)
  have frame: "mem s' f = mem s f \<and> (\<forall>i<1023. f \<noteq> table d i s')" if f: "frame_used f s" "f \<noteq> d" "\<forall>i<1023. f \<noteq> table d i s" for f
  proof -
    have one: "mem s1 f = mem s f \<and> (\<forall>i<1023. f \<noteq> table d i s1)" using o f by blast
    then have "mem s' f = mem s1 f \<and> (\<forall>i<1023. f \<noteq> table d i s')" using r f(2) up[OF f(1)] by blast
    then show ?thesis using one by simp
  qed
  have w: "pte_of d w s' = pte_of d w s" if "pdi w < 1023" "align_page w \<notin> align_page ` set (v # vs)" for w
    using o r that by simp
  have pv: "pte_of d v s' = fresh_pte True True a" using o r v by simp
  have sub: "insert a (used_frames s) \<subseteq> used_frames s1" "a \<notin> used_frames s" using o by - (elim conjE, assumption)+
  have sub': "used_frames s1 \<union> set ps \<subseteq> used_frames s'" "set ps \<inter> used_frames s1 = {}" using r by - (elim conjE, assumption)+
  have "\<forall>p \<in> set (a # ps). Z (mem s' (drop_bit 12 p)) \<and> drop_bit 12 p \<noteq> d \<and> (\<forall>i<1023. drop_bit 12 p \<noteq> table d i s')"
  proof (rule ballI)
    fix p assume "p \<in> set (a # ps)"
    then consider "p = a" | "p \<in> set ps" by auto
    then show "Z (mem s' (drop_bit 12 p)) \<and> drop_bit 12 p \<noteq> d \<and> (\<forall>i<1023. drop_bit 12 p \<noteq> table d i s')"
    proof cases
      case 1
      have "Z (mem s1 (drop_bit 12 a))" "drop_bit 12 a \<noteq> d" using o by blast+
      then show ?thesis using ma 1 by simp
    next
      case 2
      then show ?thesis using r by blast
    qed
  qed
  moreover have "phys_inv s'" "wf_dir d s'" "distinct ps" "list_all2 (\<lambda>v p. pte_of d v s' = fresh_pte True True p) vs ps"
    using r by - (elim conjE, assumption)+
  moreover have "used_frames s \<union> set (a # ps) \<subseteq> used_frames s'" "set (a # ps) \<inter> used_frames s = {}" "a \<notin> set ps" using sub sub' by auto
  ultimately show ?thesis unfolding pages_mapped_def using frame w pv by simp
qed

lemma map_pages_ok:
  assumes "phys_inv s" "wf_dir (drop_bit 12 dir) s" "2 * length vs \<le> card (free_frames s)"
    "\<forall>v \<in> set vs. pdi v < 1023" "distinct (map align_page vs)"
  shows "pages_mapped zeroed (drop_bit 12 dir) vs (fst (map_pages dir vs s)) s (snd (map_pages dir vs s))"
  using assms
proof (induction vs arbitrary: s)
  case Nil
  then show ?case by (simp add: pages_mapped_def)
next
  case (Cons v vs)
  obtain a s1 where al: "alloc_phys_page s = (a, s1)" by (cases "alloc_phys_page s")
  define s2 where "s2 = set_page_table_entry dir v a True True (win_clear (temp_map_page a s1))"
  have add: "page_added zeroed (drop_bit 12 dir) v a s s2" unfolding s2_def
    by (rule add_cleared_page[OF Cons.prems(1,2) _ _ al]) (use Cons.prems in auto)
  then have "phys_inv s2" "wf_dir (drop_bit 12 dir) s2" "2 * length vs \<le> card (free_frames s2)"
    using Cons.prems(3) by (auto simp: page_added_as_def)
  then have "pages_mapped zeroed (drop_bit 12 dir) vs (fst (map_pages dir vs s2)) s2 (snd (map_pages dir vs s2))"
    by (rule Cons.IH) (use Cons.prems in auto)
  from pages_mapped_Cons[OF add this] Cons.prems show ?case
    by (simp add: al s2_def case_prod_beta Let_def)
qed

subsection \<open>The bytes of a segment\<close>

definition frame_byte :: "u32 \<Rightarrow> nat \<Rightarrow> 'z vm_scheme \<Rightarrow> u8" where
  "frame_byte f k s = get_byte (mem s f (k div 4)) (k mod 4)"

lemma get_set_byte:
  assumes "i < 4" "j < 4"
  shows "get_byte (set_byte w i b) j = (if i = j then b else get_byte w j)"
proof -
  have m: "(0xFF :: u32) = mask 8" by (simp add: mask_eq_exp_minus_1)
  have "i = 0 \<or> i = 1 \<or> i = 2 \<or> i = 3" "j = 0 \<or> j = 1 \<or> j = 2 \<or> j = 3" using assms by auto
  then show ?thesis unfolding get_byte_def set_byte_def m
    by (intro bit_word_eqI) (auto simp: bit_simps dest: bit_imp_le_length)
qed

lemma window_put_byte:
  assumes "k < 4096" "j < 4096"
  shows "frame_byte f j (window_put k b s) = (if f = window s \<and> j = k then b else frame_byte f j s)"
proof -
  have "j div 4 = k div 4 \<Longrightarrow> j \<noteq> k \<Longrightarrow> k mod 4 \<noteq> j mod 4" by (metis mult_div_mod_eq)
  then show ?thesis by (auto simp: frame_byte_def window_put_def win_read_def get_set_byte)
qed

lemma window_load_ok:
  assumes "k + length bs \<le> 4096"
  obtains s' where "window_load k bs s = Some s'" "window s' = window s" "phys.truncate s' = phys.truncate s"
    "\<And>f. f \<noteq> window s \<Longrightarrow> mem s' f = mem s f"
    "\<And>j. j < 4096 \<Longrightarrow> frame_byte (window s) j s' = (if k \<le> j \<and> j < k + length bs then bs ! (j - k) else frame_byte (window s) j s)"
  using assms
proof (induction bs arbitrary: k s thesis)
  case Nil
  show ?case by (rule Nil.prems(1)[of s]) auto
next
  case (Cons b bs)
  have k: "k < 4096" "Suc k + length bs \<le> 4096" using Cons.prems(2) by simp_all
  let ?s = "window_put k b s"
  have w: "window ?s = window s" "phys.truncate ?s = phys.truncate s" "\<And>f. f \<noteq> window s \<Longrightarrow> mem ?s f = mem s f"
    by (simp_all add: window_put_def)
  obtain s' where s': "window_load (Suc k) bs ?s = Some s'" "window s' = window ?s" "phys.truncate s' = phys.truncate ?s"
    "\<And>f. f \<noteq> window ?s \<Longrightarrow> mem s' f = mem ?s f"
    "\<And>j. j < 4096 \<Longrightarrow> frame_byte (window ?s) j s' = (if Suc k \<le> j \<and> j < Suc k + length bs then bs ! (j - Suc k) else frame_byte (window ?s) j ?s)"
    using Cons.IH[OF _ k(2), of ?s] by blast
  show ?case
  proof (rule Cons.prems(1)[of s'])
    show "window_load k (b # bs) s = Some s'" using s'(1) k(1) by simp
    fix j :: nat assume j: "j < 4096"
    show "frame_byte (window s) j s' = (if k \<le> j \<and> j < k + length (b # bs) then (b # bs) ! (j - k) else frame_byte (window s) j s)"
      using s'(5)[OF j] window_put_byte[OF k(1) j, of "window s" b s] w(1) by (auto simp: nth_Cons' Suc_diff_Suc)
  qed (use s' w in simp_all)
qed

text \<open>Reads within the first \<open>m\<close> bytes of the file return its bytes \<open>F\<close>.\<close>

definition reads_file :: "(u32 \<Rightarrow> u32 \<Rightarrow> u8 list) \<Rightarrow> (nat \<Rightarrow> u8) \<Rightarrow> nat \<Rightarrow> bool" where
  "reads_file rd F m \<longleftrightarrow> (\<forall>a n. unat a + unat n \<le> m \<longrightarrow> rd a n = map F [unat a..<unat a + unat n])"

definition segment_bytes :: "(nat \<Rightarrow> u8) \<Rightarrow> nat \<Rightarrow> nat \<Rightarrow> u32 list \<Rightarrow> 'z vm_scheme \<Rightarrow> 'z vm_scheme \<Rightarrow> bool" where
  "segment_bytes F cur fin ps s s' \<longleftrightarrow>
     (\<forall>i < length ps. \<forall>j < 4096. frame_byte (drop_bit 12 (ps ! i)) j s' =
        (if cur + 4096 * i + j < fin then F (cur + 4096 * i + j) else frame_byte (drop_bit 12 (ps ! i)) j s)) \<and>
     (\<forall>f. f \<notin> drop_bit 12 ` set ps \<longrightarrow> mem s' f = mem s f) \<and> phys.truncate s' = phys.truncate s"

lemma segment_bytes_Cons:
  assumes one: "\<And>j. j < 4096 \<Longrightarrow> frame_byte (drop_bit 12 p) j s1 = (if cur + j < fin then F (cur + j) else frame_byte (drop_bit 12 p) j s)"
    and other: "\<And>f. f \<noteq> drop_bit 12 p \<Longrightarrow> mem s1 f = mem s f" and tr: "phys.truncate s1 = phys.truncate s"
    and rest: "segment_bytes F (cur + 4096) fin ps s1 s'" and new: "drop_bit 12 p \<notin> drop_bit 12 ` set ps"
  shows "segment_bytes F cur fin (p # ps) s s'"
proof -
  have p: "mem s' (drop_bit 12 p) = mem s1 (drop_bit 12 p)" using rest new by (simp add: segment_bytes_def)
  have "frame_byte (drop_bit 12 ((p # ps) ! i)) j s' = (if cur + 4096 * i + j < fin then F (cur + 4096 * i + j) else frame_byte (drop_bit 12 ((p # ps) ! i)) j s)"
    if i: "i < length (p # ps)" and j: "j < 4096" for i j
  proof (cases i)
    case 0
    then show ?thesis using one[OF j] p by (simp add: frame_byte_def)
  next
    case (Suc k)
    then have "drop_bit 12 (ps ! k) \<noteq> drop_bit 12 p" using new i by (metis image_eqI length_Cons not_less_eq nth_mem)
    then have "frame_byte (drop_bit 12 (ps ! k)) j s1 = frame_byte (drop_bit 12 (ps ! k)) j s"
      using other by (simp add: frame_byte_def)
    then show ?thesis using rest Suc i j by (simp add: segment_bytes_def algebra_simps)
  qed
  then show ?thesis using rest other tr by (simp add: segment_bytes_def)
qed

lemma copy_pages_done: "\<not> cur < fin \<Longrightarrow> copy_pages rd cur fin ps s = Some s"
  by (cases ps) simp_all

lemma copy_pages_ok:
  assumes "reads_file rd F (unat fin)" "distinct (map (drop_bit 12) ps)" "unat fin \<le> unat cur + 4096 * length ps" "unat fin \<le> 0xFFFFF000"
  shows "\<exists>s'. copy_pages rd cur fin ps s = Some s' \<and> segment_bytes F (unat cur) (unat fin) ps s s'"
  using assms
proof (induction ps arbitrary: cur s)
  case Nil
  then show ?case by (simp add: word_less_nat_alt segment_bytes_def)
next
  case (Cons p ps)
  show ?case
  proof (cases "cur < fin")
    case False
    then show ?thesis by (simp add: word_less_nat_alt segment_bytes_def)
  next
    case True
    then have lt: "unat cur < unat fin" by (simp add: word_less_nat_alt)
    define n :: u32 where "n = (if 0x1000 < fin - cur then 4096 else fin - cur)"
    have sub: "unat (fin - cur) = unat fin - unat cur" using True by (simp add: unat_sub order.strict_implies_order)
    have n: "unat n = min 4096 (unat fin - unat cur)" by (simp add: n_def sub word_less_nat_alt)
    then have rd: "rd cur n = map F [unat cur..<unat cur + unat n]"
      using Cons.prems(1) lt unfolding reads_file_def by simp
    define s0 where "s0 = temp_map_page p s"
    have w0: "window s0 = drop_bit 12 p" "mem s0 = mem s" "phys.truncate s0 = phys.truncate s" by (simp_all add: s0_def)
    obtain s1 where s1: "window_load 0 (rd cur n) s0 = Some s1" "phys.truncate s1 = phys.truncate s0"
      "\<And>f. f \<noteq> window s0 \<Longrightarrow> mem s1 f = mem s0 f"
      "\<And>j. j < 4096 \<Longrightarrow> frame_byte (window s0) j s1 = (if 0 \<le> j \<and> j < 0 + length (rd cur n) then rd cur n ! (j - 0) else frame_byte (window s0) j s0)"
      by (rule window_load_ok[of 0 "rd cur n" s0]) (use n rd in auto)
    have step: "unat (cur + 0x1000) = unat cur + 4096" by (rule page_steps_step(2)[OF True Cons.prems(4)])
    obtain s' where s': "copy_pages rd (cur + 0x1000) fin ps s1 = Some s'" "segment_bytes F (unat cur + 4096) (unat fin) ps s1 s'"
      using Cons.IH[of "cur + 0x1000" s1] Cons.prems step by auto
    have "segment_bytes F (unat cur) (unat fin) (p # ps) s s'"
    proof (rule segment_bytes_Cons[OF _ _ _ s'(2)])
      fix j :: nat assume j: "j < 4096"
      show "frame_byte (drop_bit 12 p) j s1 = (if unat cur + j < unat fin then F (unat cur + j) else frame_byte (drop_bit 12 p) j s)"
        using s1(4)[OF j] w0 rd n j by (auto simp: frame_byte_def)
    qed (use s1 w0 Cons.prems(2) in auto)
    moreover have "copy_pages rd cur fin (p # ps) s = Some s'"
      using True s1(1) s'(1) by (simp add: n_def[symmetric] s0_def[symmetric] Let_def)
    ultimately show ?thesis by blast
  qed
qed

text \<open>What a program finds at the virtual address \<open>v\<close> of the address space \<open>d\<close>.\<close>

definition virt_byte :: "u32 \<Rightarrow> u32 \<Rightarrow> 'z vm_scheme \<Rightarrow> u8" where
  "virt_byte d v s = frame_byte (page_addr (pte_of d v s)) (unat v mod 4096) s"

lemma round_up_pages: "(m + 4095) div 4096 = (if m mod 4096 = 0 then m div 4096 else m div 4096 + 1)" for m :: nat
proof -
  have "(m + 4095) div 4096 = m div 4096 + (m mod 4096 + 4095) div 4096"
    by (subst div_add1_eq) simp
  moreover have "(m mod 4096 + 4095) div 4096 = (if m mod 4096 = 0 then 0 else 1)"
    using mod_less_divisor[of 4096 m] by (auto intro!: div_nat_eqI)
  ultimately show ?thesis by simp
qed

lemma size_in_pages_eq: "size_in_pages a (a + n) = (unat n + 4095) div 4096"
proof -
  have "unat (n mod 4096) = unat n mod 4096" by (simp add: unat_mod_distrib)
  then have z: "n mod 4096 = 0 \<longleftrightarrow> unat n mod 4096 = 0" by (metis unat_0 unat_eq_zero)
  have d: "unat (n div 4096) = unat n div 4096" by (simp add: unat_div_distrib)
  then have "unat (n div 4096 + 1) = unat n div 4096 + 1" using unat_u32_less[of n] by (simp add: unat_word_ariths)
  then show ?thesis using z d by (simp add: size_in_pages_def Let_def round_up_pages)
qed

lemma used_frame_aligned:
  assumes "phys_inv s" "a \<in> used_frames s"
  shows "push_bit 12 (drop_bit 12 a) = a"
proof -
  have "page_aligned a" using assms index_to_addr_aligned by (auto simp: used_frames_def phys_inv_def)
  then show ?thesis by (simp add: push_drop_12 align_page_id)
qed

lemma page_of_offset:
  assumes "page_aligned a" "unat a + k < 2 ^ 32"
  shows "align_page (a + of_nat k) = a + of_nat (k div 4096) * 0x1000" "unat (a + of_nat k) = unat a + k"
    "unat (a + of_nat k) mod 4096 = k mod 4096"
proof -
  show u: "unat (a + of_nat k) = unat a + k" using assms(2) by (simp add: unat_word_ariths unat_of_nat)
  have m: "unat a mod 4096 = 0" using assms(1) by (simp add: page_aligned_unat)
  then show "unat (a + of_nat k) mod 4096 = k mod 4096" by (simp add: u mod_add_eq[symmetric])
  have "a + of_nat (k div 4096) * 0x1000 = a + of_nat (k div 4096 * 4096)" by simp
  moreover have "unat (a + of_nat (k div 4096 * 4096)) = unat a + k div 4096 * 4096"
    using assms(2) by (simp add: unat_word_ariths unat_of_nat)
  moreover have "unat (align_page (a + of_nat k)) = unat a + k div 4096 * 4096"
    using m minus_mod_eq_div_mult[of k 4096] by (simp add: align_page_unat u mod_add_eq[symmetric])
  ultimately show "align_page (a + of_nat k) = a + of_nat (k div 4096) * 0x1000" by (metis word_eqI_unat)
qed

text \<open>A program header that the loader can place: page aligned, below the last directory entry, no longer in the file than in memory.\<close>

definition loadable :: "Elf32_Phdr \<Rightarrow> 'z vm_scheme \<Rightarrow> bool" where
  "loadable ph s \<longleftrightarrow>
     p_type ph = PT_LOAD \<and> p_vaddr ph \<noteq> 0 \<and> page_aligned (p_vaddr ph) \<and> unat (p_vaddr ph) + unat (p_memsz ph) \<le> 0xFFC00000 \<and>
     unat (p_filesz ph) \<le> unat (p_memsz ph) \<and> unat (p_offset ph) + unat (p_filesz ph) \<le> 0xFFFFF000 \<and>
     2 * ((unat (p_memsz ph) + 4095) div 4096) \<le> card (free_frames s)"

definition segment_addrs :: "u32 \<Rightarrow> nat \<Rightarrow> u32 list" where
  "segment_addrs a n = map (\<lambda>i. a + of_nat i * 0x1000) [0..<n]"

lemma segment_addr:
  assumes "page_aligned a" "unat a + n \<le> 0xFFC00000" "k < n"
  shows "unat (a + of_nat (k div 4096) * 0x1000) = unat a + k div 4096 * 4096"
    "align_page (a + of_nat (k div 4096) * 0x1000) = a + of_nat (k div 4096) * 0x1000" "pdi (a + of_nat k) < 1023"
proof -
  have lt: "unat a + k < 2 ^ 32" "unat a + k div 4096 * 4096 < 2 ^ 32" using assms(2,3) by auto
  have e: "a + of_nat (k div 4096) * 0x1000 = a + of_nat (k div 4096 * 4096)" by simp
  show "unat (a + of_nat (k div 4096) * 0x1000) = unat a + k div 4096 * 4096"
    unfolding e by (rule page_of_offset(2)[OF assms(1) lt(2)])
  show "align_page (a + of_nat (k div 4096) * 0x1000) = a + of_nat (k div 4096) * 0x1000"
    unfolding e using page_of_offset(1)[OF assms(1) lt(2)] by simp
  show "pdi (a + of_nat k) < 1023" unfolding directory_index_unat page_of_offset(2)[OF assms(1) lt(1)] using assms(2,3) by auto
qed

lemma segment_addrs_ok:
  assumes "page_aligned a" "unat a + m \<le> 0xFFC00000"
  shows "\<forall>v \<in> set (segment_addrs a ((m + 4095) div 4096)). pdi v < 1023"
    "distinct (map align_page (segment_addrs a ((m + 4095) div 4096)))"
proof -
  have k: "i * 4096 < m" if "i < (m + 4095) div 4096" for i using that by simp
  have s: "unat (a + of_nat i * 0x1000) = unat a + i * 4096" "align_page (a + of_nat i * 0x1000) = a + of_nat i * 0x1000"
    "pdi (a + of_nat i * 0x1000) < 1023" if "i < (m + 4095) div 4096" for i
    using segment_addr[OF assms k[OF that]] by simp_all
  show "\<forall>v \<in> set (segment_addrs a ((m + 4095) div 4096)). pdi v < 1023" using s(3) by (auto simp: segment_addrs_def)
  have "inj_on (\<lambda>i. align_page (a + of_nat i * 0x1000)) {0..<(m + 4095) div 4096}"
  proof (rule inj_onI)
    fix i j assume ij: "i \<in> {0..<(m + 4095) div 4096}" "j \<in> {0..<(m + 4095) div 4096}"
      and eq: "align_page (a + of_nat i * 0x1000) = align_page (a + of_nat j * 0x1000)"
    then have "unat (a + of_nat i * 0x1000) = unat (a + of_nat j * 0x1000)" by (simp add: s(2))
    then show "i = j" using ij by (simp add: s(1))
  qed
  then show "distinct (map align_page (segment_addrs a ((m + 4095) div 4096)))"
    by (simp add: segment_addrs_def distinct_map comp_def)
qed

lemma segment_bytes_tables:
  assumes pm: "pages_mapped zeroed d vs ps s s1" and sb: "segment_bytes F cur fin ps s1 s'"
  shows "phys_inv s'" "wf_dir d s'" "pdi w < 1023 \<Longrightarrow> pte_of d w s' = pte_of d w s1"
proof -
  note pmD = pm[unfolded pages_mapped_def] and sbD = sb[unfolded segment_bytes_def]
  have "phys.truncate s' = phys.truncate s1" using sbD by blast
  note tr = phys_truncate_cong[OF this]
  show "phys_inv s'" using pmD tr by simp
  have d: "mem s' d = mem s1 d" and t: "i < 1023 \<Longrightarrow> mem s' (table d i s1) = mem s1 (table d i s1)" for i
  proof -
    have "\<forall>p \<in> set ps. drop_bit 12 p \<noteq> d \<and> (\<forall>i<1023. drop_bit 12 p \<noteq> table d i s1)" using pmD by blast
    then have "d \<notin> drop_bit 12 ` set ps" "i < 1023 \<Longrightarrow> table d i s1 \<notin> drop_bit 12 ` set ps" by (metis imageE)+
    then show "mem s' d = mem s1 d" "i < 1023 \<Longrightarrow> mem s' (table d i s1) = mem s1 (table d i s1)" using sbD by blast+
  qed
  have tab: "table d i s' = table d i s1" for i by (simp add: table_def d)
  then show "pdi w < 1023 \<Longrightarrow> pte_of d w s' = pte_of d w s1" using t by (simp add: pte_of_def)
  have "wf_dir d s1" using pmD by blast
  then show "wf_dir d s'" by (rule wf_dir_truncate) (simp_all add: frame_used_def tr tab)
qed

lemma segment_image:
  assumes al: "page_aligned a" "unat a + m \<le> 0xFFC00000" and k: "k < m" and d: "pages_mapped zeroed d (segment_addrs a ((m + 4095) div 4096)) ps s s1"
    and sb: "segment_bytes F cur (cur + fz) ps s1 s'"
  shows "pte_of d (a + of_nat k) s' = fresh_pte True True (ps ! (k div 4096))"
    "virt_byte d (a + of_nat k) s' = (if k < fz then F (cur + k) else 0)"
proof -
  let ?vs = "segment_addrs a ((m + 4095) div 4096)" and ?i = "k div 4096" and ?j = "k mod 4096"
  note pmD = d[unfolded pages_mapped_def]
  have "Suc ?i * 4096 \<le> m + 4095" using k div_times_less_eq_dividend[of k 4096] by simp
  then have i: "?i < (m + 4095) div 4096" by (simp add: less_eq_div_iff_mult_less_eq Suc_le_eq[symmetric])
  have vi: "?vs ! ?i = a + of_nat ?i * 0x1000" "length ?vs = (m + 4095) div 4096" using i by (simp_all add: segment_addrs_def)
  have k32: "unat a + k < 2 ^ 32" using al k by simp
  have "align_page (a + of_nat k) = align_page (?vs ! ?i)"
    using segment_addr[OF al k] page_of_offset(1)[OF al(1) k32] vi by simp
  then have "pte_of d (a + of_nat k) s1 = pte_of d (?vs ! ?i) s1" by (simp add: same_page_iff pte_of_def)
  also have "\<dots> = fresh_pte True True (ps ! ?i)" using pmD i vi(2) by (auto simp: list_all2_conv_all_nth)
  finally show pte: "pte_of d (a + of_nat k) s' = fresh_pte True True (ps ! ?i)"
    using segment_bytes_tables(3)[OF d sb] segment_addr(3)[OF al k] by simp
  have il: "?i < length ps" using pmD i vi(2) by (auto simp: list_all2_conv_all_nth)
  then have "ps ! ?i \<in> set ps" by simp
  then have "mem s1 (drop_bit 12 (ps ! ?i)) (?j div 4) = 0" using pmD by (auto simp: zeroed_def)
  then have "frame_byte (drop_bit 12 (ps ! ?i)) ?j s1 = 0" by (simp add: frame_byte_def get_byte_def)
  then have "frame_byte (drop_bit 12 (ps ! ?i)) ?j s' = (if cur + 4096 * ?i + ?j < cur + fz then F (cur + 4096 * ?i + ?j) else 0)"
    using sb il unfolding segment_bytes_def by simp
  then have "frame_byte (drop_bit 12 (ps ! ?i)) ?j s' = (if k < fz then F (cur + k) else 0)"
    by (simp add: add.assoc)
  then show "virt_byte d (a + of_nat k) s' = (if k < fz then F (cur + k) else 0)"
    unfolding virt_byte_def pte using page_of_offset(3)[OF al(1) k32] by simp
qed

lemma load_segment_ok:
  assumes inv: "phys_inv s" "wf_dir (drop_bit 12 pdir) s" and ld: "loadable ph s"
    and rd: "reads_file rd F (unat (p_offset ph) + unat (p_filesz ph))"
  defines "d \<equiv> drop_bit 12 pdir"
  shows "\<exists>s'. load_segment rd pdir ph s = Some s' \<and> phys_inv s' \<and> wf_dir d s' \<and>
    (\<forall>k < unat (p_memsz ph). present_bit (pte_of d (p_vaddr ph + of_nat k) s') \<and> user_supervisor (pte_of d (p_vaddr ph + of_nat k) s') \<and>
       virt_byte d (p_vaddr ph + of_nat k) s' = (if k < unat (p_filesz ph) then F (unat (p_offset ph) + k) else 0)) \<and>
    (\<forall>w. pdi w < 1023 \<longrightarrow> (\<forall>k < unat (p_memsz ph). align_page w \<noteq> align_page (p_vaddr ph + of_nat k)) \<longrightarrow> pte_of d w s' = pte_of d w s)"
proof -
  let ?a = "p_vaddr ph" and ?m = "unat (p_memsz ph)" and ?o = "unat (p_offset ph)" and ?fz = "unat (p_filesz ph)"
  define vs where "vs = segment_addrs ?a ((?m + 4095) div 4096)"
  obtain ps s1 where mp: "map_pages pdir vs s = (ps, s1)" by (cases "map_pages pdir vs s")
  have al: "page_aligned ?a" "unat ?a + ?m \<le> 0xFFC00000" using ld by (simp_all add: loadable_def)
  have len: "length vs = (?m + 4095) div 4096" by (simp add: vs_def segment_addrs_def)
  have pm: "pages_mapped zeroed d vs ps s s1" unfolding d_def
    using map_pages_ok[OF inv, of vs] segment_addrs_ok[OF al] ld mp by (simp add: vs_def loadable_def segment_addrs_def)
  note pmD = pm[unfolded pages_mapped_def]
  have lps: "length ps = length vs" using pmD list_all2_lengthD by metis
  have "inj_on (drop_bit 12) (set ps)"
    by (rule inj_onI) (metis pmD used_frame_aligned Un_upper2 subset_iff)
  then have dist: "distinct (map (drop_bit 12) ps)" using pmD by (simp add: distinct_map)
  have fin: "unat (p_offset ph + p_filesz ph) = ?o + ?fz" using ld by (simp add: loadable_def unat_word_ariths)
  have "?m \<le> 4096 * ((?m + 4095) div 4096)" using dividend_less_times_div[of 4096 "?m + 4095"] by simp
  then have room: "?o + ?fz \<le> ?o + 4096 * length ps" "?o + ?fz \<le> 0xFFFFF000" using ld lps len by (simp_all add: loadable_def)
  obtain s' where cp: "copy_pages rd (p_offset ph) (p_offset ph + p_filesz ph) ps s1 = Some s'" "segment_bytes F ?o (?o + ?fz) ps s1 s'"
    using copy_pages_ok[OF _ dist, of rd F "p_offset ph + p_filesz ph" "p_offset ph" s1] rd fin room by auto
  have run: "load_segment rd pdir ph s = Some s'"
    using ld mp cp(1) by (simp add: load_segment_def loadable_def size_in_pages_eq Let_def segment_addrs_def vs_def)
  have other: "pte_of d w s' = pte_of d w s" if w: "pdi w < 1023" "\<forall>k < ?m. align_page w \<noteq> align_page (?a + of_nat k)" for w
  proof -
    have "align_page w \<noteq> align_page v" if v: "v \<in> set vs" for v
    proof -
      obtain i where i: "i < (?m + 4095) div 4096" "v = ?a + of_nat (i * 4096)" using v by (auto simp: vs_def segment_addrs_def)
      then have "i * 4096 < ?m" by simp
      then show ?thesis using w(2) i(2) by blast
    qed
    then have "pte_of d w s1 = pte_of d w s" using pmD w(1) by blast
    then show ?thesis using segment_bytes_tables(3)[OF pm cp(2) w(1)] by simp
  qed
  show ?thesis using run segment_bytes_tables(1,2)[OF pm cp(2)] segment_image[OF al _ pm[unfolded vs_def] cp(2)] other by auto
qed

end
