(* ===== verification/Syscall.thy ===== *)
theory Syscall
  imports Elf
begin

text \<open>
  The system calls, \<^verbatim>\<open>kernel/process/syscall.c\<close>. Pointers that a program passes are addresses of its own address
  space: the kernel reads and writes through the page tables that \<open>cr3\<close> names, and an access to a page that is
  not present is a fault (\<open>None\<close>). The write protection of supervisor accesses is off, so only the present bits
  count. The environment of a call has the code behind the function pointers of the file system nodes, the
  contents of files as in \<open>Elf\<close>, and the bytes that lie behind the terminator of a process's name and details.
\<close>

subsection \<open>User memory\<close>

definition user_present :: "u32 \<Rightarrow> 'z vm_scheme \<Rightarrow> bool" where
  "user_present v s =
     (let pde = mem s (page_addr (cr3 s)) (get_page_directory_index v)
      in present_bit pde \<and> present_bit (mem s (page_addr pde) (get_page_table_index v)))"

definition user_byte :: "u32 \<Rightarrow> 'z vm_scheme \<Rightarrow> u8 option" where
  "user_byte v s = (if user_present v s then Some (frame_byte (mmu_frame v s) (unat v mod 4096) s) else None)"

definition user_put :: "u32 \<Rightarrow> u8 \<Rightarrow> 'z vm_scheme \<Rightarrow> 'z vm_scheme option" where
  "user_put v b s =
     (if user_present v s
      then (let f = mmu_frame v s; i = unat v mod 4096 div 4
            in Some (s\<lparr>mem := (mem s)(f := (mem s f)(i := set_byte (mem s f i) (unat v mod 4) b))\<rparr>))
      else None)"

fun user_write :: "u32 \<Rightarrow> u8 list \<Rightarrow> 'z vm_scheme \<Rightarrow> 'z vm_scheme option" where
  "user_write v [] s = Some s"
| "user_write v (b # bs) s = do { s \<leftarrow> user_put v b s; user_write (v + 1) bs s }"

definition user_word :: "u32 \<Rightarrow> 'z vm_scheme \<Rightarrow> u32 option" where
  "user_word v s = do {
     b0 \<leftarrow> user_byte v s; b1 \<leftarrow> user_byte (v + 1) s; b2 \<leftarrow> user_byte (v + 2) s; b3 \<leftarrow> user_byte (v + 3) s;
     Some (le32 [b0, b1, b2, b3] 0)
   }"

definition word_bytes :: "u32 \<Rightarrow> u8 list" where
  "word_bytes w = map (get_byte w) [0..<4]"

text \<open>A string ends at its terminator; one without an end is never read to the end.\<close>

partial_function (option) user_string :: "u32 \<Rightarrow> 'z vm_scheme \<Rightarrow> string option" where
  "user_string v s = do {
     b \<leftarrow> user_byte v s;
     if b = 0 then Some [] else do { cs \<leftarrow> user_string (v + 1) s; Some (char_of (unat b) # cs) }
   }"

fun user_strings :: "u32 \<Rightarrow> nat \<Rightarrow> 'z vm_scheme \<Rightarrow> string list option" where
  "user_strings v 0 s = Some []"
| "user_strings v (Suc n) s = do {
     a \<leftarrow> user_word v s;
     x \<leftarrow> user_string a s;
     xs \<leftarrow> user_strings (v + 4) n s;
     Some (x # xs)
   }"

record 's sysenv =
  fs_calls :: "'s calls"
  file_bytes :: "ptr \<Rightarrow> u32 \<Rightarrow> u32 \<Rightarrow> u8 list"
  slack :: "ptr \<Rightarrow> nat \<Rightarrow> u8"

subsection \<open>Nodes of a process\<close>

definition sysc_get_proc_node :: "ptr \<Rightarrow> int \<Rightarrow> 'z kern_scheme \<Rightarrow> ptr option" where
  "sysc_get_proc_node process node_id s = do {
     p \<leftarrow> procs s process;
     Some (if 0 \<le> node_id \<and> node_id < int (length (pnodes p)) then pnodes p ! nat node_id else 0)
   }"

definition sysc_set_process_node :: "ptr \<Rightarrow> ptr \<Rightarrow> 'z kern_scheme \<Rightarrow> (int \<times> 'z kern_scheme) option" where
  "sysc_set_process_node process node s = do {
     s \<leftarrow> upd_proc process (\<lambda>p. p\<lparr>pnodes := pnodes p @ [node]\<rparr>) s;
     p \<leftarrow> procs s process;
     Some (int (length (pnodes p)) - 1, s)
   }"

text \<open>\<^verbatim>\<open>process->proc_regs->eax = v\<close>.\<close>

definition sysc_return :: "ptr \<Rightarrow> u32 \<Rightarrow> 'z kern_scheme \<Rightarrow> 'z kern_scheme option" where
  "sysc_return process v s = upd_proc process (set_eax v) s"

text \<open>\<^verbatim>\<open>sched_preempt_handler(process->proc_regs)\<close>.\<close>

definition sysc_preempt :: "ptr \<Rightarrow> 'z kern_scheme \<Rightarrow> 'z kern_scheme option" where
  "sysc_preempt process s = do {
     p \<leftarrow> procs s process;
     (r, s) \<leftarrow> sched_preempt_handler (proc_regs p) s;
     Some s
   }"

subsection \<open>Processes\<close>

definition sysc_exit :: "ptr \<Rightarrow> u32 \<Rightarrow> 'z kern_scheme \<Rightarrow> 'z kern_scheme option" where
  "sysc_exit process status s = do {
     let s = (if status \<noteq> 0 then klog_msg ''Something went wrong! Process returned exit status other than 0!'' s else s);
     s \<leftarrow> upd_proc process (\<lambda>p. p\<lparr>state := PROCESS_STATE_DEAD\<rparr>) s;
     sysc_preempt process s
   }"

definition sysc_fork :: "ptr \<Rightarrow> 'z kern_scheme \<Rightarrow> 'z kern_scheme option" where
  "sysc_fork process s = do {
     (forked, s) \<leftarrow> proc_clone process s;
     s \<leftarrow> sysc_return forked 0 s;
     f \<leftarrow> procs s forked;
     s \<leftarrow> sysc_return process (word_of_int (pid f)) s;
     sched_make_ready forked s
   }"

definition sysc_execve :: "'z devfs_scheme sysenv \<Rightarrow> ptr \<Rightarrow> u32 \<Rightarrow> u32 \<Rightarrow> u32 \<Rightarrow> 'z devfs_scheme \<Rightarrow> 'z devfs_scheme option" where
  "sysc_execve env process path argv argc s = do {
     filename \<leftarrow> user_string path s;
     args \<leftarrow> user_strings argv (nat (sint argc)) s;
     (ret, s) \<leftarrow> loader_exec (fs_calls env) (file_bytes env) process filename args s;
     s \<leftarrow> (if ret \<noteq> 0 then upd_proc process (\<lambda>p. p\<lparr>state := PROCESS_STATE_DEAD\<rparr>) s else Some s);
     sysc_preempt process s
   }"

definition sysc_spawn :: "'z devfs_scheme sysenv \<Rightarrow> ptr \<Rightarrow> u32 \<Rightarrow> u32 \<Rightarrow> u32 \<Rightarrow> 'z devfs_scheme \<Rightarrow> 'z devfs_scheme option" where
  "sysc_spawn env process path argv argc s = do {
     filename \<leftarrow> user_string path s;
     args \<leftarrow> user_strings argv (nat (sint argc)) s;
     (ret, s) \<leftarrow> loader_spawn (fs_calls env) (file_bytes env) filename process args s;
     sysc_return process (word_of_int ret) s
   }"

definition sysc_wait :: "ptr \<Rightarrow> u32 \<Rightarrow> 'z kern_scheme \<Rightarrow> 'z kern_scheme option" where
  "sysc_wait process n s = do {
     s \<leftarrow> sysc_preempt process s;
     (r, s) \<leftarrow> sched_wait_for process (sint n) s;
     Some s
   }"

definition sysc_wakeup :: "ptr \<Rightarrow> u32 \<Rightarrow> 'z kern_scheme \<Rightarrow> 'z kern_scheme option" where
  "sysc_wakeup process n s = do {
     (res, s) \<leftarrow> sched_wakeup (sint n) s;
     sysc_return process (word_of_int res) s
   }"

definition sysc_sleep :: "ptr \<Rightarrow> u32 \<Rightarrow> 'z kern_scheme \<Rightarrow> 'z kern_scheme option" where
  "sysc_sleep process time s = do {
     s \<leftarrow> sysc_preempt process s;
     sched_make_napping process time s
   }"

definition sysc_kill :: "ptr \<Rightarrow> u32 \<Rightarrow> 'z kern_scheme \<Rightarrow> 'z kern_scheme option" where
  "sysc_kill process n s = do {
     target \<leftarrow> proc_find (sint n) s;
     if target = 0 then sysc_return process (-1) s
     else do {
       t \<leftarrow> procs s target;
       if state t \<noteq> PROCESS_STATE_DEAD
       then do {
         s \<leftarrow> sched_make_dead target (sched_purge_process target s);
         sysc_return process 0 s
       }
       else sysc_return process (-1) s
     }
   }"

subsection \<open>The heap of a process\<close>

text \<open>Division and remainder of C, which round towards zero.\<close>

definition c_div :: "int \<Rightarrow> int \<Rightarrow> int" where
  "c_div a b = sgn a * sgn b * (\<bar>a\<bar> div \<bar>b\<bar>)"

definition c_mod :: "int \<Rightarrow> int \<Rightarrow> int" where
  "c_mod a b = a - c_div a b * b"

text \<open>The number of rounds of both loops.\<close>

definition sbrk_pages :: "int \<Rightarrow> int" where
  "sbrk_pages bytes = c_div bytes 4096 + (if c_mod bytes 4096 > 0 then 1 else 0)"

fun sbrk_grow :: "nat \<Rightarrow> ptr \<Rightarrow> 'z kern_scheme \<Rightarrow> 'z kern_scheme option" where
  "sbrk_grow 0 process s = Some s"
| "sbrk_grow (Suc n) process s = do {
     p \<leftarrow> procs s process;
     let (heap_phys, s) = alloc_phys_page s;
     let s = set_page_table_entry (proc_pdir p) (heap_end p) heap_phys True True s;
     s \<leftarrow> upd_proc process (\<lambda>p. p\<lparr>heap_end := heap_end p + 0x1000\<rparr>) s;
     sbrk_grow n process s
   }"

fun sbrk_shrink :: "nat \<Rightarrow> ptr \<Rightarrow> 'z kern_scheme \<Rightarrow> 'z kern_scheme option" where
  "sbrk_shrink 0 process s = Some s"
| "sbrk_shrink (Suc n) process s = do {
     p \<leftarrow> procs s process;
     let (phys, s) = get_mapped_address (proc_pdir p) (heap_end p - 0x1000) s;
     let s = unset_page_table_entry (proc_pdir p) (heap_end p - 0x1000) s;
     let s = alloc_phys_free phys s;
     s \<leftarrow> upd_proc process (\<lambda>p. p\<lparr>heap_end := heap_end p - 0x1000\<rparr>) s;
     sbrk_shrink n process s
   }"

definition sysc_sbrk :: "ptr \<Rightarrow> u32 \<Rightarrow> 'z kern_scheme \<Rightarrow> 'z kern_scheme option" where
  "sysc_sbrk process bytes s = do {
     s \<leftarrow> (if sint bytes = 0 then Some s
            else if sint bytes > 0 then sbrk_grow (nat (sbrk_pages (sint bytes))) process s
            else sbrk_shrink (nat (sbrk_pages (sint bytes))) process s);
     p \<leftarrow> procs s process;
     sysc_return process (heap_end p) s
   }"

subsection \<open>Files\<close>

definition sysc_open :: "'z devfs_scheme sysenv \<Rightarrow> ptr \<Rightarrow> u32 \<Rightarrow> 'z devfs_scheme \<Rightarrow> 'z devfs_scheme option" where
  "sysc_open env process path s = do {
     nm \<leftarrow> user_string path s;
     (node, s) \<leftarrow> vfs_find_node (fs_calls env) (Some nm) s;
     if node = 0 then sysc_return process (-1) s
     else do {
       (node_id, s) \<leftarrow> sysc_set_process_node process node s;
       sysc_return process (word_of_int node_id) s
     }
   }"

text \<open>An identifier that no node has leaves the pointer \<open>node\<close> uninitialised.\<close>

definition sysc_close :: "ptr \<Rightarrow> u32 \<Rightarrow> 'z kern_scheme \<Rightarrow> 'z kern_scheme option" where
  "sysc_close process node_id s = do {
     p \<leftarrow> procs s process;
     let n = sint node_id;
     if 0 \<le> n \<and> n < int (length (pnodes p))
     then do {
       s \<leftarrow> upd_proc process (\<lambda>p. p\<lparr>pnodes := take (nat n) (pnodes p) @ drop (Suc (nat n)) (pnodes p)\<rparr>) s;
       sysc_return process 0 s
     }
     else None
   }"

definition sysc_read :: "'z devfs_scheme sysenv \<Rightarrow> ptr \<Rightarrow> u32 \<Rightarrow> u32 \<Rightarrow> u32 \<Rightarrow> u32 \<Rightarrow> 'z devfs_scheme \<Rightarrow> 'z devfs_scheme option" where
  "sysc_read env process node_id start_at sz buffer s = do {
     node \<leftarrow> sysc_get_proc_node process (sint node_id) s;
     if node = 0 then sysc_return process (-1) s
     else do {
       nd \<leftarrow> vnodes s node;
       (ret, s) \<leftarrow> (case node_read nd of NULL_fn \<Rightarrow> None | Sym f \<Rightarrow> call_io (fs_calls env) f node start_at sz buffer s);
       sysc_return process (word_of_int ret) s
     }
   }"

definition sysc_write :: "'z devfs_scheme sysenv \<Rightarrow> ptr \<Rightarrow> u32 \<Rightarrow> u32 \<Rightarrow> u32 \<Rightarrow> u32 \<Rightarrow> 'z devfs_scheme \<Rightarrow> 'z devfs_scheme option" where
  "sysc_write env process node_id start_at sz buffer s = do {
     node \<leftarrow> sysc_get_proc_node process (sint node_id) s;
     if node = 0 then sysc_return process (-1) s
     else do {
       nd \<leftarrow> vnodes s node;
       (ret, s) \<leftarrow> (case node_write nd of NULL_fn \<Rightarrow> None | Sym f \<Rightarrow> call_io (fs_calls env) f node start_at sz buffer s);
       sysc_return process (word_of_int ret) s
     }
   }"

definition sysc_ioctl :: "'z devfs_scheme sysenv \<Rightarrow> ptr \<Rightarrow> u32 \<Rightarrow> u32 \<Rightarrow> u32 \<Rightarrow> 'z devfs_scheme \<Rightarrow> 'z devfs_scheme option" where
  "sysc_ioctl env process node_id cmd arguments s = do {
     node \<leftarrow> sysc_get_proc_node process (sint node_id) s;
     if node = 0 then sysc_return process (-1) s
     else do {
       nd \<leftarrow> vnodes s node;
       (ret, s) \<leftarrow> (case node_control nd of NULL_fn \<Rightarrow> None | Sym f \<Rightarrow> call_control (fs_calls env) f node cmd arguments s);
       sysc_return process (word_of_int ret) s
     }
   }"

subsection \<open>Listings\<close>

definition state_code :: "pstate \<Rightarrow> u32" where
  "state_code x = (case x of PROCESS_STATE_READY \<Rightarrow> 1 | PROCESS_STATE_LIVING \<Rightarrow> 2 | PROCESS_STATE_NAPPING \<Rightarrow> 3 | PROCESS_STATE_DEAD \<Rightarrow> 4)"

definition privilege_code :: "pprv \<Rightarrow> u32" where
  "privilege_code x = (case x of PROCESS_PRV_KERN \<Rightarrow> 1 | PROCESS_PRV_USER \<Rightarrow> 2)"

definition type_code :: "ptype \<Rightarrow> u32" where
  "type_code x = (case x of PROCESS_TYPE_STANDALONE \<Rightarrow> 1 | PROCESS_TYPE_CLONE \<Rightarrow> 2)"

text \<open>The first \<open>n\<close> bytes of an array that holds a string.\<close>

definition array_bytes :: "(nat \<Rightarrow> u8) \<Rightarrow> nat \<Rightarrow> string \<Rightarrow> u8 list" where
  "array_bytes rest n x = map (\<lambda>i. if i < length x then of_char (x ! i) else if i = length x then 0 else rest i) [0..<n]"

text \<open>The structure \<open>ps_en_t\<close> has its fields at the offsets 0, 4, 132, 388, 392 and 396.\<close>

definition sysc_ps :: "'z devfs_scheme sysenv \<Rightarrow> ptr \<Rightarrow> u32 \<Rightarrow> u32 \<Rightarrow> 'z devfs_scheme \<Rightarrow> 'z devfs_scheme option" where
  "sysc_ps env process entry no s = do {
     let x = proc_get_next_in_tree (sint no) s;
     if x = 0 then sysc_return process (-1) s
     else do {
       p \<leftarrow> procs s x;
       s \<leftarrow> user_write entry (word_bytes (word_of_int (pid p))) s;
       s \<leftarrow> user_write (entry + 388) (word_bytes (state_code (state p))) s;
       s \<leftarrow> user_write (entry + 392) (word_bytes (privilege_code (cpl p))) s;
       s \<leftarrow> user_write (entry + 396) (word_bytes (type_code (type p))) s;
       s \<leftarrow> user_write (entry + 4) (array_bytes (slack env x) 128 (pname p)) s;
       s \<leftarrow> user_write (entry + 132) (array_bytes (\<lambda>i. slack env x (128 + i)) 256 (details p)) s;
       sysc_return process 0 s
     }
   }"

text \<open>The structure \<open>dir_en_t\<close> has its fields at the offsets 0, 256 and 260; the name goes without terminator.\<close>

definition sysc_list :: "'z devfs_scheme sysenv \<Rightarrow> ptr \<Rightarrow> u32 \<Rightarrow> u32 \<Rightarrow> u32 \<Rightarrow> 'z devfs_scheme \<Rightarrow> 'z devfs_scheme option" where
  "sysc_list env process node_id entry no s = do {
     node \<leftarrow> sysc_get_proc_node process (sint node_id) s;
     if node = 0 then sysc_return process (-1) s
     else do {
       nd \<leftarrow> vnodes s node;
       if type_flags nd \<noteq> VFS_NODE_TYPE_DIRE then sysc_return process (-1) s
       else do {
         (found_node, s) \<leftarrow> (case dir_read nd of NULL_fn \<Rightarrow> None | Sym f \<Rightarrow> call_readdir (fs_calls env) f node (sint no) s);
         if found_node = 0 then sysc_return process (-1) s
         else do {
           fd \<leftarrow> vnodes s found_node;
           s \<leftarrow> user_write (entry + 260) (take 2 (word_bytes (ucast (type_flags fd)))) s;
           s \<leftarrow> user_write (entry + 256) (word_bytes (nd_size fd)) s;
           s \<leftarrow> user_write entry (map of_char (nd_name fd)) s;
           sysc_return process 0 s
         }
       }
     }
   }"

subsection \<open>The handler\<close>

text \<open>An entry of the table: its callback, with as many parameters as its \<open>param_count\<close>.\<close>

datatype 's syscall =
    Callb1 "ptr \<Rightarrow> u32 \<Rightarrow> 's \<Rightarrow> 's option"
  | Callb2 "ptr \<Rightarrow> u32 \<Rightarrow> u32 \<Rightarrow> 's \<Rightarrow> 's option"
  | Callb3 "ptr \<Rightarrow> u32 \<Rightarrow> u32 \<Rightarrow> u32 \<Rightarrow> 's \<Rightarrow> 's option"
  | Callb4 "ptr \<Rightarrow> u32 \<Rightarrow> u32 \<Rightarrow> u32 \<Rightarrow> u32 \<Rightarrow> 's \<Rightarrow> 's option"

definition SYSCALL_COUNT :: int where "SYSCALL_COUNT = 16"

definition system_calls :: "'z devfs_scheme sysenv \<Rightarrow> 'z devfs_scheme syscall list" where
  "system_calls env =
     [Callb1 sysc_exit, Callb1 (\<lambda>p x. sysc_fork p), Callb3 (sysc_spawn env), Callb1 sysc_wait, Callb1 sysc_wakeup,
      Callb1 sysc_kill, Callb3 (sysc_execve env), Callb1 sysc_sbrk, Callb1 sysc_sleep, Callb1 (sysc_open env),
      Callb1 sysc_close, Callb4 (sysc_read env), Callb4 (sysc_write env), Callb3 (sysc_ioctl env), Callb2 (sysc_ps env),
      Callb3 (sysc_list env)]"

definition run_syscall :: "'s syscall \<Rightarrow> ptr \<Rightarrow> registers \<Rightarrow> 's \<Rightarrow> 's option" where
  "run_syscall c p regs s =
     (case c of
        Callb1 f \<Rightarrow> f p (r_ebx regs) s
      | Callb2 f \<Rightarrow> f p (r_ebx regs) (r_ecx regs) s
      | Callb3 f \<Rightarrow> f p (r_ebx regs) (r_ecx regs) (r_edx regs) s
      | Callb4 f \<Rightarrow> f p (r_ebx regs) (r_ecx regs) (r_edx regs) (r_esi regs) s)"

definition syscall_handler :: "'z devfs_scheme sysenv \<Rightarrow> registers \<Rightarrow> 'z devfs_scheme \<Rightarrow> (registers \<times> 'z devfs_scheme) option" where
  "syscall_handler env regs s = do {
     let current = proc_get_current_proc s;
     s \<leftarrow> upd_proc current (\<lambda>p. p\<lparr>proc_regs := regs\<rparr>) s;
     let sno = sint (r_eax regs);
     s \<leftarrow> (if sno \<le> 0 \<or> sno > SYSCALL_COUNT then Some s
            else run_syscall (system_calls env ! nat (sno - 1)) current regs s);
     p \<leftarrow> procs s (proc_get_current_proc s);
     Some (proc_regs p, s)
   }"

text \<open>\<open>sb\<close> are the addresses of the assembly stubs, \<open>h\<close> the address of \<open>syscall_handler\<close>.\<close>

definition initialise_syscalls :: "stubs \<Rightarrow> ptr \<Rightarrow> 'z kern_scheme \<Rightarrow> 'z kern_scheme" where
  "initialise_syscalls sb h s = install_interrupt_handler sb 0x32 h DPL_USER s"

section \<open>Properties\<close>

subsection \<open>Dispatch\<close>

lemma syscall_unknown:
  assumes "sint (r_eax regs) \<le> 0 \<or> 16 < sint (r_eax regs)" "procs s (current_process s) = Some p"
  shows "syscall_handler env regs s = Some (regs, s\<lparr>procs := (procs s)(current_process s \<mapsto> p\<lparr>proc_regs := regs\<rparr>)\<rparr>)"
  using assms by (auto simp: syscall_handler_def proc_get_current_proc_def upd_proc_def SYSCALL_COUNT_def Let_def)

text \<open>A call by its number runs the entry of the table on the state with the registers saved.\<close>

lemma syscall_known:
  assumes "r_eax regs = of_nat (Suc n)" "n < 16" "procs s (current_process s) = Some p"
    "run_syscall (system_calls env ! n) (current_process s) regs (s\<lparr>procs := (procs s)(current_process s \<mapsto> p\<lparr>proc_regs := regs\<rparr>)\<rparr>) = Some s'"
    "procs s' (current_process s') = Some q"
  shows "syscall_handler env regs s = Some (proc_regs q, s')"
proof -
  have "unat (r_eax regs) = Suc n" using assms(1,2) by (simp add: unat_of_nat take_bit_nat_eq_self del: of_nat_Suc)
  then have "sint (r_eax regs) = int (Suc n)" using sint_small[of "r_eax regs"] assms(2) by simp
  then show ?thesis using assms(2-5)
    by (simp add: syscall_handler_def proc_get_current_proc_def upd_proc_def SYSCALL_COUNT_def Let_def)
qed

subsection \<open>The heap of a process\<close>

lemma sbrk_pages_pos: "0 \<le> n \<Longrightarrow> sbrk_pages n = (n + 4095) div 4096"
proof -
  assume n: "0 \<le> n"
  then have d: "c_div n 4096 = n div 4096" by (cases "n = 0") (auto simp: c_div_def sgn_if)
  then have m: "c_mod n 4096 = n mod 4096" by (simp add: c_mod_def minus_div_mult_eq_mod)
  obtain k where k: "n = int k" using n zero_le_imp_eq_int by blast
  have pos: "0 < int k mod 4096 \<longleftrightarrow> k mod 4096 \<noteq> 0" by (metis of_nat_0_less_iff of_nat_mod of_nat_numeral neq0_conv)
  have "(int k + 4095) div 4096 = int ((k + 4095) div 4096)" by (simp add: zdiv_int)
  also have "\<dots> = int (if k mod 4096 = 0 then k div 4096 else k div 4096 + 1)" by (simp add: round_up_pages)
  also have "\<dots> = int k div 4096 + (if int k mod 4096 > 0 then 1 else 0)" by (simp add: zdiv_int pos)
  finally show ?thesis by (simp add: sbrk_pages_def d m) (simp add: k)
qed

text \<open>A negative argument of C has a quotient and a remainder of at most 0: no page is released.\<close>

lemma sbrk_pages_neg: "n < 0 \<Longrightarrow> sbrk_pages n \<le> 0"
proof -
  assume n: "n < 0"
  then have d: "c_div n 4096 = - (- n div 4096)" by (simp add: c_div_def)
  have "- (- n div 4096) * 4096 \<ge> n" using div_mult_mod_eq[of "- n" 4096] pos_mod_bound[of 4096 "- n"] pos_mod_sign[of 4096 "- n"] by linarith
  then have "c_mod n 4096 \<le> 0" by (simp add: c_mod_def d)
  moreover have "0 \<le> - n div 4096" using n by (simp add: pos_imp_zdiv_nonneg_iff)
  ultimately show ?thesis by (simp add: sbrk_pages_def d)
qed

lemma sysc_sbrk_negative:
  assumes "sint bytes < 0" "procs s process = Some p"
  shows "sysc_sbrk process bytes s = Some (s\<lparr>procs := (procs s)(process \<mapsto> set_eax (heap_end p) p)\<rparr>)"
  using assms sbrk_pages_neg[OF assms(1)] by (simp add: sysc_sbrk_def sysc_return_def upd_proc_def)

text \<open>Growing maps one new page of its own under every address of the new part, and touches no other page.\<close>

text \<open>Changing a process changes nothing of the address spaces.\<close>

lemma procs_update_vm [simp]:
  "used_frames (s\<lparr>procs := P\<rparr>) = used_frames s" "phys_frames (s\<lparr>procs := P\<rparr>) = phys_frames s"
  "phys_inv (s\<lparr>procs := P\<rparr>) = phys_inv s" "table d i (s\<lparr>procs := P\<rparr>) = table d i s"
  "pte_of d v (s\<lparr>procs := P\<rparr>) = pte_of d v s" "wf_dir d (s\<lparr>procs := P\<rparr>) = wf_dir d s"
proof -
  have "phys.truncate (s\<lparr>procs := P\<rparr>) = phys.truncate s" by (simp add: phys.truncate_def)
  note tr = phys_truncate_cong[OF this]
  show "used_frames (s\<lparr>procs := P\<rparr>) = used_frames s" "phys_frames (s\<lparr>procs := P\<rparr>) = phys_frames s"
    "phys_inv (s\<lparr>procs := P\<rparr>) = phys_inv s" by (fact tr)+
  show t: "table d i (s\<lparr>procs := P\<rparr>) = table d i s" for i by (simp add: table_def)
  show "wf_dir d (s\<lparr>procs := P\<rparr>) = wf_dir d s" by (simp add: wf_dir_def t frame_used_def tr)
  show "pte_of d v (s\<lparr>procs := P\<rparr>) = pte_of d v s" by (simp add: pte_of_def t)
qed

lemma page_added_procs: "page_added Z d v a s (s'\<lparr>procs := P\<rparr>) = page_added Z d v a s s'"
  by (simp add: page_added_as_def free_frames_def)

lemma pages_mapped_procs: "pages_mapped Z d vs ps s (s'\<lparr>procs := P\<rparr>) = pages_mapped Z d vs ps s s'"
  by (simp add: pages_mapped_def)

lemma segment_addrs_Suc: "segment_addrs v (Suc n) = v # segment_addrs (v + 0x1000) n"
proof -
  have "[0..<Suc n] = 0 # map Suc [0..<n]" by (metis map_Suc_upt upt_conv_Cons zero_less_Suc)
  then show ?thesis by (simp add: segment_addrs_def algebra_simps)
qed

lemma sbrk_grow_ok:
  assumes "phys_inv s" "wf_dir (drop_bit 12 (proc_pdir p)) s" "procs s process = Some p" "2 * n \<le> card (free_frames s)"
    "page_aligned (heap_end p)" "unat (heap_end p) + 4096 * n \<le> 0xFFC00000"
  shows "\<exists>s' ps. sbrk_grow n process s = Some s' \<and>
    pages_mapped (\<lambda>m. True) (drop_bit 12 (proc_pdir p)) (segment_addrs (heap_end p) n) ps s s' \<and>
    procs s' = (procs s)(process \<mapsto> p\<lparr>heap_end := heap_end p + of_nat n * 0x1000\<rparr>)"
  using assms
proof (induction n arbitrary: s p)
  case 0
  then show ?case by (auto simp: pages_mapped_def segment_addrs_def map_upd_triv intro: exI[of _ "[]"])
next
  case (Suc n)
  let ?d = "drop_bit 12 (proc_pdir p)" and ?v = "heap_end p" and ?p = "p\<lparr>heap_end := heap_end p + 0x1000\<rparr>"
  have v: "pdi ?v < 1023" using Suc.prems(6) by (auto simp: directory_index_unat)
  obtain a s1 where al: "alloc_phys_page s = (a, s1)" by (cases "alloc_phys_page s")
  define s2 where "s2 = set_page_table_entry (proc_pdir p) ?v a True True s1"
  have "mem s1 = mem s" using alloc_page_vm(1)[of s] al by simp
  then have add: "page_added (\<lambda>m. True) ?d ?v a s s2" unfolding s2_def
    using Suc.prems(4) by (intro add_page[OF Suc.prems(1,2) v _ al]) simp_all
  have pr: "procs s2 = procs s" using kview_sel(1)[OF kview_alloc[of s]] al by (simp add: s2_def kview_sel(1)[OF kview_map])
  define s3 where "s3 = s2\<lparr>procs := (procs s)(process \<mapsto> ?p)\<rparr>"
  have up: "upd_proc process (\<lambda>p. p\<lparr>heap_end := heap_end p + 0x1000\<rparr>) s2 = Some s3" using Suc.prems(3) by (simp add: upd_proc_def pr s3_def)
  have same: "page_added Z d v a s s3 = page_added Z d v a s s2" for Z d v a
    by (simp add: s3_def page_added_procs)
  have u: "unat (?v + 0x1000) = unat ?v + 4096" using Suc.prems(6) by (simp add: unat_word_ariths)
  have al': "page_aligned (?v + 0x1000)" using Suc.prems(5) u by (simp add: page_aligned_unat)
  note a3 = add[folded same, unfolded page_added_as_def]
  obtain s' ps where s': "sbrk_grow n process s3 = Some s'"
    "pages_mapped (\<lambda>m. True) ?d (segment_addrs (?v + 0x1000) n) ps s3 s'"
    "procs s' = (procs s)(process \<mapsto> p\<lparr>heap_end := ?v + 0x1000 + of_nat n * 0x1000\<rparr>)"
  proof -
    have p3: "procs s3 process = Some ?p" "procs s3 = (procs s)(process \<mapsto> ?p)" by (simp_all add: s3_def)
    have "phys_inv s3" "wf_dir ?d s3" using a3 by blast+
    moreover have "2 * n \<le> card (free_frames s3)" using a3 Suc.prems(4) by simp
    ultimately have "\<exists>s' ps. sbrk_grow n process s3 = Some s' \<and> pages_mapped (\<lambda>m. True) ?d (segment_addrs (?v + 0x1000) n) ps s3 s' \<and>
      procs s' = (procs s3)(process \<mapsto> p\<lparr>heap_end := ?v + 0x1000 + of_nat n * 0x1000\<rparr>)"
      using Suc.IH[of s3 ?p, OF _ _ p3(1)] al' u Suc.prems(6) by (simp add: fun_upd_def)
    then show thesis using that unfolding p3(2) fun_upd_upd by blast
  qed
  have "(4096 * Suc n + 4095) div 4096 = Suc n" by simp
  then have "distinct (map align_page (segment_addrs ?v (Suc n)))"
    using segment_addrs_ok(2)[OF Suc.prems(5), of "4096 * Suc n"] Suc.prems(6) by simp
  then have "pages_mapped (\<lambda>m. True) ?d (segment_addrs ?v (Suc n)) (a # ps) s s'" unfolding segment_addrs_Suc
    by (intro pages_mapped_Cons[OF add[folded same] s'(2) v]) simp
  moreover have "sbrk_grow (Suc n) process s = Some s'" using Suc.prems(3) al up s'(1) by (simp add: Let_def s2_def)
  ultimately show ?case using s'(3) by (auto simp: algebra_simps)
qed

lemma sysc_sbrk_ok:
  assumes inv: "phys_inv s" "wf_dir (drop_bit 12 (proc_pdir p)) s" "procs s process = Some p" "page_aligned (heap_end p)"
    and bytes: "0 < sint bytes" and n: "n = nat ((sint bytes + 4095) div 4096)"
    and room: "2 * n \<le> card (free_frames s)" "unat (heap_end p) + 4096 * n \<le> 0xFFC00000"
  shows "\<exists>s' ps. sysc_sbrk process bytes s = Some s' \<and>
    pages_mapped (\<lambda>m. True) (drop_bit 12 (proc_pdir p)) (segment_addrs (heap_end p) n) ps s s' \<and>
    procs s' = (procs s)(process \<mapsto> set_eax (heap_end p + of_nat n * 0x1000) (p\<lparr>heap_end := heap_end p + of_nat n * 0x1000\<rparr>))"
proof -
  obtain s1 ps where s1: "sbrk_grow n process s = Some s1"
    "pages_mapped (\<lambda>m. True) (drop_bit 12 (proc_pdir p)) (segment_addrs (heap_end p) n) ps s s1"
    "procs s1 = (procs s)(process \<mapsto> p\<lparr>heap_end := heap_end p + of_nat n * 0x1000\<rparr>)"
    using sbrk_grow_ok[OF inv(1-3) room(1) inv(4) room(2)] by blast
  define q where "q = set_eax (heap_end p + of_nat n * 0x1000) (p\<lparr>heap_end := heap_end p + of_nat n * 0x1000\<rparr>)"
  have "nat (sbrk_pages (sint bytes)) = n" using bytes sbrk_pages_pos[of "sint bytes"] n by simp
  then have "sysc_sbrk process bytes s = Some (s1\<lparr>procs := (procs s)(process \<mapsto> q)\<rparr>)"
    using bytes s1(1) by (simp add: sysc_sbrk_def sysc_return_def upd_proc_def s1(3) q_def)
  moreover have "pages_mapped (\<lambda>m. True) (drop_bit 12 (proc_pdir p)) (segment_addrs (heap_end p) n) ps s (s1\<lparr>procs := (procs s)(process \<mapsto> q)\<rparr>)"
    using s1(2) by (simp add: pages_mapped_procs)
  ultimately show ?thesis unfolding q_def[symmetric] by (intro exI[of _ "s1\<lparr>procs := (procs s)(process \<mapsto> q)\<rparr>"] exI[of _ ps]) simp
qed

subsection \<open>Ending a process\<close>

lemma qinv_dead_room:
  assumes "qinv P rq dq r k"
  shows "length dq < 256"
proof -
  have "card (set (r # dq)) \<le> card (dom P)" using assms by (intro card_mono) (auto simp: qinv_def)
  then have "Suc (length dq) \<le> card (dom P)" using assms by (simp add: qinv_def distinct_card)
  then show ?thesis using assms by (simp add: qinv_def)
qed

text \<open>
  A dead process gives way to the front of the ready queue and joins the dead queue; the entry at the front of the
  dead queue is taken out, and destroyed only when the kernel process is the one that gives way.
\<close>

lemma sched_get_next_dead:
  assumes inv: "sched_inv s" and c: "c = current_process s" "procs s c = Some p" "state p = PROCESS_STATE_DEAD" "c \<noteq> kernel_process s"
  shows "sched_get_next c s =
    Some (hd (ready_queue s), s\<lparr>ready_queue := tl (ready_queue s), dead_queue := tl (dead_queue s) @ [c]\<rparr>)"
proof -
  have q: "qinv (procs s) (ready_queue s) (dead_queue s) c (kernel_process s)" using inv c by (simp add: sched_inv_def)
  obtain n rest where n: "ready_queue s = n # rest" by (rule qinv_next[OF q c(4)])
  have "length (tl (dead_queue s)) < 256" "c \<noteq> 0" using qinv_dead_room[OF q] q c(2) by (auto simp: qinv_def)
  moreover have "snd (vq_dequeue (dead_queue s)) = tl (dead_queue s)" by (cases "dead_queue s") simp_all
  moreover have "p\<lparr>state := PROCESS_STATE_DEAD\<rparr> = p" using c(3) by simp
  ultimately show ?thesis using c n
    by (simp add: sched_get_next_def sched_get_ready_def sched_get_dead_def sched_make_dead_def upd_proc_def vq_enqueue_def
        SCHED_MAX_DEAD_def split_def Let_def map_upd_triv)
qed

lemma sched_preempt_dead:
  assumes inv: "sched_inv s" and c: "c = current_process s" "procs s c = Some p" "state p = PROCESS_STATE_DEAD" "c \<noteq> kernel_process s"
    and run: "sched_preempt_handler regs s = Some (r, s')"
  shows "ready_queue s' = tl (ready_queue s)" "dead_queue s' = tl (dead_queue s) @ [c]" "st (procs s') c = PROCESS_STATE_DEAD"
proof -
  define p0 where "p0 = p\<lparr>proc_regs := regs, fpu_regs := fpu_state s\<rparr>"
  define s0 where "s0 = s\<lparr>procs := (procs s)(c \<mapsto> p0)\<rparr>"
  have save: "do { s1 \<leftarrow> upd_proc c (\<lambda>p. p\<lparr>proc_regs := regs\<rparr>) s; fpu_save c s1 } = Some s0" and inv0: "sched_inv s0"
    using save_current[OF inv, of p regs] c by (auto simp: s0_def p0_def)
  have nx: "sched_get_next c s0 = Some (hd (ready_queue s), s0\<lparr>ready_queue := tl (ready_queue s), dead_queue := tl (dead_queue s) @ [c]\<rparr>)"
    using sched_get_next_dead[OF inv0, of c p0] c by (simp add: s0_def p0_def)
  define n where "n = hd (ready_queue s)"
  have "n \<noteq> c" "n \<in> dom (procs s)" using inv c by (cases "ready_queue s"; auto simp: sched_inv_def qinv_def n_def)+
  then obtain q where n: "n \<noteq> c" "procs s n = Some q" by auto
  define s2 where "s2 = s0\<lparr>ready_queue := tl (ready_queue s), dead_queue := tl (dead_queue s) @ [c]\<rparr>"
  define s3 where "s3 = (if cpl q = PROCESS_PRV_USER
              then s2\<lparr>tss_table := (tss_table s2)\<lparr>ss0 := 0x10, esp0 := sys_stack q + 4096 * of_nat PROCESS_SYS_STACK_PAGES\<rparr>\<rparr>
              else s2)"
  have s3: "procs s3 = procs s0" "ready_queue s3 = tl (ready_queue s)" "dead_queue s3 = tl (dead_queue s) @ [c]"
    by (simp_all add: s3_def s2_def)
  obtain s01 where "upd_proc c (\<lambda>p. p\<lparr>proc_regs := regs\<rparr>) s = Some s01" "fpu_save c s01 = Some s0"
    using save by (auto simp: bind_eq_Some_conv)
  moreover have q: "procs s2 n = Some q" "procs s0 n = Some q" using n by (simp_all add: s2_def s0_def)
  moreover have "upd_proc n (\<lambda>p. p\<lparr>state := PROCESS_STATE_LIVING\<rparr>) (swap_page_directory (proc_pdir q) s3) =
      Some (s3\<lparr>page_directory := proc_pdir q, cr3 := proc_pdir q, procs := (procs s0)(n \<mapsto> q\<lparr>state := PROCESS_STATE_LIVING\<rparr>)\<rparr>)"
    using q by (simp add: upd_proc_def swap_page_directory_def s3)
  ultimately have "s' = s3\<lparr>page_directory := proc_pdir q, cr3 := proc_pdir q, procs := (procs s0)(n \<mapsto> q\<lparr>state := PROCESS_STATE_LIVING\<rparr>),
      current_process := n, fpu_state := fpu_regs q\<rparr>"
    using run nx unfolding sched_preempt_handler_def proc_get_current_proc_def c(1)[symmetric] n_def[symmetric] s2_def[symmetric]
    by (simp add: Let_def s3_def[symmetric] proc_set_current_proc_def fpu_reload_def)
  then show "ready_queue s' = tl (ready_queue s)" "dead_queue s' = tl (dead_queue s) @ [c]" "st (procs s') c = PROCESS_STATE_DEAD"
    using s3 n c(3) by (simp_all add: s0_def p0_def)
qed

lemma sched_inv_state:
  assumes inv: "sched_inv s" and c: "c = current_process s" "procs s c = Some p" "c \<noteq> kernel_process s"
  shows "sched_inv (s\<lparr>procs := (procs s)(c \<mapsto> p\<lparr>state := v\<rparr>)\<rparr>)"
  using inv c domI[of "procs s" c, OF c(2)] by (auto simp: sched_inv_def qinv_def insert_absorb)

text \<open>Exit: the process is dead and on the dead queue, and the process at the front of the ready queue runs.\<close>

lemma sysc_exit_ok:
  assumes inv: "sched_inv s" and c: "c = current_process s" "c \<noteq> kernel_process s"
  shows "\<exists>s'. sysc_exit c status s = Some s' \<and> sched_inv s' \<and> current_process s' = hd (ready_queue s) \<and>
    ready_queue s' = tl (ready_queue s) \<and> dead_queue s' = tl (dead_queue s) @ [c] \<and> st (procs s') c = PROCESS_STATE_DEAD"
proof -
  obtain p where p: "procs s c = Some p" using inv c by (auto simp: sched_inv_def qinv_def)
  define s0 where "s0 = (if status \<noteq> 0 then klog_msg ''Something went wrong! Process returned exit status other than 0!'' s else s)"
  have k0: "kview s0 = kview s" by (simp add: s0_def klog_msg_def kview_def)
  note s0 = kview_sel[OF k0]
  define s1 where "s1 = s0\<lparr>procs := (procs s)(c \<mapsto> p\<lparr>state := PROCESS_STATE_DEAD\<rparr>)\<rparr>"
  have inv0: "sched_inv s0" using inv sched_inv_kview[OF k0] by simp
  have s1: "sched_inv s1" "current_process s1 = c" "kernel_process s1 = kernel_process s" "ready_queue s1 = ready_queue s"
    "dead_queue s1 = dead_queue s" "procs s1 c = Some (p\<lparr>state := PROCESS_STATE_DEAD\<rparr>)"
    using sched_inv_state[OF inv0, of c p PROCESS_STATE_DEAD] p c by (simp_all add: s1_def s0)
  have up: "upd_proc c (\<lambda>p. p\<lparr>state := PROCESS_STATE_DEAD\<rparr>) s0 = Some s1" by (simp add: upd_proc_def s0 p s1_def)
  obtain r s' where s': "sched_preempt_handler (proc_regs p) s1 = Some (r, s')" "sched_inv s'" "current_process s' = hd (ready_queue s)"
    using sched_preempt_ok[OF s1(1), of "proc_regs p"] s1 c by auto
  have "sysc_exit c status s = Some s'"
    using up s1(6) s'(1) by (simp add: sysc_exit_def sysc_preempt_def s0_def[symmetric])
  moreover note sched_preempt_dead[OF s1(1) _ s1(6) _ _ s'(1)]
  ultimately show ?thesis using s'(2,3) s1 c by simp
qed

text \<open>Killing another process that is ready.\<close>

lemma qinv_kill:
  assumes q: "qinv P rq dq r k" and t: "P t = Some x" "state x = PROCESS_STATE_READY" "t \<noteq> r" "t \<noteq> k"
  shows "qinv (P(t \<mapsto> x\<lparr>state := PROCESS_STATE_DEAD\<rparr>)) (filter (\<lambda>y. y \<noteq> t) rq) (dq @ [t]) r k"
  using assms domI[of P t, OF t(1)] by (auto simp: qinv_def insert_absorb)

lemma sysc_kill_ok:
  assumes inv: "sched_inv s" and f: "proc_find (sint n) s = Some t" "procs s t = Some x" "state x = PROCESS_STATE_READY"
    and t: "t \<noteq> current_process s" "t \<noteq> kernel_process s"
  shows "\<exists>s'. sysc_kill (current_process s) n s = Some s' \<and> sched_inv s' \<and> t \<notin> set (ready_queue s') \<and>
    dead_queue s' = dead_queue s @ [t] \<and> current_process s' = current_process s \<and>
    r_eax (proc_regs (the (procs s' (current_process s)))) = 0"
proof -
  have q: "qinv (procs s) (ready_queue s) (dead_queue s) (current_process s) (kernel_process s)" using inv by (simp add: sched_inv_def)
  obtain p where p: "procs s (current_process s) = Some p" using q by (auto simp: qinv_def)
  have t0: "t \<noteq> 0" "t \<notin> set (dead_queue s)" using q f by (auto simp: qinv_def)
  let ?P = "(procs s)(t \<mapsto> x\<lparr>state := PROCESS_STATE_DEAD\<rparr>)"
  let ?s = "s\<lparr>ready_queue := filter (\<lambda>y. y \<noteq> t) (ready_queue s), dead_queue := dead_queue s @ [t],
     procs := ?P(current_process s \<mapsto> set_eax 0 p)\<rparr>"
  have dq: "filter (\<lambda>y. y \<noteq> t) (dead_queue s) = dead_queue s" using t0 by (auto simp: filter_id_conv)
  have run: "sysc_kill (current_process s) n s = Some ?s"
    using f t t0 p qinv_dead_room[OF q]
    by (simp add: sysc_kill_def sched_purge_process_def vq_force_remove_def dq sched_make_dead_def upd_proc_def vq_enqueue_def
        SCHED_MAX_DEAD_def sysc_return_def)
  have "qinv (?P(current_process s \<mapsto> set_eax 0 p)) (filter (\<lambda>y. y \<noteq> t) (ready_queue s)) (dead_queue s @ [t]) (current_process s) (kernel_process s)"
    by (rule qinv_cong[OF qinv_kill[OF q f(2,3) t]]) (use p t in \<open>auto simp: set_eax_def\<close>)
  then have "sched_inv ?s" using inv p t by (auto simp: sched_inv_def set_eax_def)
  then show ?thesis using run by (intro exI[of _ ?s]) (simp add: set_eax_def)
qed

subsection \<open>Files\<close>

lemma sint_of_nat: "n < 2 ^ 31 \<Longrightarrow> sint (of_nat n :: u32) = int n"
  using sint_small[of "of_nat n"] by (simp add: unat_of_nat take_bit_nat_eq_self)

lemma get_proc_node: "procs s process = Some p \<Longrightarrow> i < length (pnodes p) \<Longrightarrow> sysc_get_proc_node process (int i) s = Some (pnodes p ! i)"
  by (simp add: sysc_get_proc_node_def)

text \<open>An opened node gets the next identifier, and every identifier in use keeps its node.\<close>

lemma sysc_open_ok:
  assumes "user_string path s = Some nm" "vfs_find_node (fs_calls env) (Some nm) s = Some (node, s1)" "node \<noteq> 0"
    "procs s1 process = Some p"
  shows "sysc_open env process path s =
    Some (s1\<lparr>procs := (procs s1)(process \<mapsto> set_eax (of_nat (length (pnodes p))) (p\<lparr>pnodes := pnodes p @ [node]\<rparr>))\<rparr>)"
  using assms by (simp add: sysc_open_def sysc_set_process_node_def sysc_return_def upd_proc_def)

lemma sysc_open_missing:
  assumes "user_string path s = Some nm" "vfs_find_node (fs_calls env) (Some nm) s = Some (0, s1)" "procs s1 process = Some p"
  shows "sysc_open env process path s = Some (s1\<lparr>procs := (procs s1)(process \<mapsto> set_eax (-1) p)\<rparr>)"
  using assms by (simp add: sysc_open_def sysc_return_def upd_proc_def)

text \<open>Closing a node moves every later node one identifier down.\<close>

lemma sysc_close_ok:
  assumes "procs s process = Some p" "k < length (pnodes p)" "k < 2 ^ 31"
  shows "\<exists>s'. sysc_close process (of_nat k) s = Some s' \<and>
    (\<forall>i. sysc_get_proc_node process (int i) s' = sysc_get_proc_node process (int (if i < k then i else Suc i)) s)"
proof -
  let ?ps = "take k (pnodes p) @ drop (Suc k) (pnodes p)"
  let ?s = "s\<lparr>procs := (procs s)(process \<mapsto> set_eax 0 (p\<lparr>pnodes := ?ps\<rparr>))\<rparr>"
  have "sysc_close process (of_nat k) s = Some ?s"
    using assms by (simp add: sysc_close_def sint_of_nat Let_def sysc_return_def upd_proc_def)
  moreover have "sysc_get_proc_node process (int i) ?s = sysc_get_proc_node process (int (if i < k then i else Suc i)) s" for i
    using assms(1,2) by (auto simp: sysc_get_proc_node_def set_eax_def nth_append)
  ultimately show ?thesis by blast
qed

lemma sysc_read_bad_id:
  assumes "procs s process = Some p" "sint n < 0 \<or> int (length (pnodes p)) \<le> sint n"
  shows "sysc_read env process n a z b s = Some (s\<lparr>procs := (procs s)(process \<mapsto> set_eax (-1) p)\<rparr>)"
    "sysc_write env process n a z b s = Some (s\<lparr>procs := (procs s)(process \<mapsto> set_eax (-1) p)\<rparr>)"
    "sysc_ioctl env process n c b s = Some (s\<lparr>procs := (procs s)(process \<mapsto> set_eax (-1) p)\<rparr>)"
    "sysc_list env process n b c s = Some (s\<lparr>procs := (procs s)(process \<mapsto> set_eax (-1) p)\<rparr>)"
  using assms by (auto simp: sysc_read_def sysc_write_def sysc_ioctl_def sysc_list_def sysc_get_proc_node_def sysc_return_def upd_proc_def)

text \<open>The environment in which devfs serves the device nodes.\<close>

definition dev_env :: "'z devfs_scheme drivers \<Rightarrow> 'z devfs_scheme calls \<Rightarrow> 'z devfs_scheme sysenv" where
  "dev_env dr other = \<lparr>fs_calls = devfs_calls dr other, file_bytes = \<lambda>n a z. [], slack = \<lambda>p i. 0\<rparr>"

text \<open>From the path of a device to its driver: what \<open>open\<close> returns leads \<open>read\<close> to the driver's function.\<close>

lemma device_open_read:
  fixes s :: "'z devfs_scheme"
  assumes env: "fs_calls env = devfs_calls dr other"
    and m: "devfs_mounted r ts nd s" "component nm" "length nm < 2 ^ 28" "heap_budget (find_cost (device_path nd nm) + k) s"
    and q: "find_child (vnodes s) nm (devices s) = Some q" "q \<noteq> 0" "vnodes s q = Some nd'" "node_read nd' = Sym ''read_node_devfs''"
    and dev: "io_nodes s (base_pointer nd') = Some device" "io_read device = Sym f"
    and p: "procs s process = Some p" "length (pnodes p) < 2 ^ 31" and u: "user_string path s = Some (device_path nd nm)" and b: "b \<noteq> 0"
  shows "\<exists>s1. sysc_open env process path s = Some s1 \<and>
    r_eax (proc_regs (the (procs s1 process))) = of_nat (length (pnodes p)) \<and>
    sysc_read env process (of_nat (length (pnodes p))) a z b s1 =
      do { (ret, s2) \<leftarrow> drv_io dr f (base_pointer nd') a z b s1; sysc_return process (word_of_int ret) s2 }"
proof -
  obtain s0 where s0: "vfs_find_node (devfs_calls dr other) (Some (device_path nd nm)) s = Some (q, s0)" "vm.more s0 = vm.more s"
    by (rule dv.find_device[OF m(1-3) q(1) m(4)])
  note more = vfs_more[OF s0(2)] devfs_more[OF s0(2)]
  have pr: "procs s0 process = Some p" using p(1) more by simp
  let ?p = "set_eax (of_nat (length (pnodes p))) (p\<lparr>pnodes := pnodes p @ [q]\<rparr>)"
  let ?s1 = "s0\<lparr>procs := (procs s0)(process \<mapsto> ?p)\<rparr>"
  have op: "sysc_open env process path s = Some ?s1"
    using sysc_open_ok[OF u, of env q s0 process p] env s0(1) q(2) pr by simp
  have "sysc_get_proc_node process (sint (of_nat (length (pnodes p)) :: u32)) ?s1 = Some q"
    using p(2) by (simp add: sint_of_nat sysc_get_proc_node_def set_eax_def)
  then have "sysc_read env process (of_nat (length (pnodes p))) a z b ?s1 =
      do { (ret, s2) \<leftarrow> drv_io dr f (base_pointer nd') a z b ?s1; sysc_return process (word_of_int ret) s2 }"
    using q(2-4) dev b env more by (simp add: sysc_read_def devfs_calls_def read_node_devfs_def device_of_def)
  then show ?thesis using op by (intro exI[of _ ?s1]) (simp add: set_eax_def)
qed

end
