(* ===== verification/Liblist.thy ===== *)
theory Liblist
  imports Linked_List
begin

text \<open>
  The list library of user programs, \<^verbatim>\<open>libraries/liblist/liblist.c\<close>: the code of \<^verbatim>\<open>linked_list.c\<close> with \<open>malloc\<close>
  and \<open>free\<close> of \<^verbatim>\<open>alloc.c\<close> in the place of the kernel's allocator. Each operation is the pointer-level
  operation of \<open>Linked_List\<close> on the user heap.
\<close>

abbreviation umalloc :: "u32 \<Rightarrow> 'z user_heap_scheme \<Rightarrow> (ptr \<times> 'z user_heap_scheme) option" where
  "umalloc \<equiv> alloc_allocate sbrk"

definition list_create :: "'z user_heap_scheme lmem \<Rightarrow> (ptr \<times> 'z user_heap_scheme lmem) option" where
  "list_create s = linked_list_create umalloc s"

definition list_destroy :: "ptr \<Rightarrow> 'z user_heap_scheme lmem \<Rightarrow> 'z user_heap_scheme lmem option" where
  "list_destroy l s = linked_list_destroy alloc_free l s"

definition list_insert_at_index :: "ptr \<Rightarrow> ptr \<Rightarrow> int \<Rightarrow> 'z user_heap_scheme lmem \<Rightarrow> (ptr \<times> 'z user_heap_scheme lmem) option" where
  "list_insert_at_index l d index s = linked_list_insert_at_index umalloc l d index s"

definition list_append :: "ptr \<Rightarrow> ptr \<Rightarrow> 'z user_heap_scheme lmem \<Rightarrow> (ptr \<times> 'z user_heap_scheme lmem) option" where
  "list_append l d s = linked_list_append umalloc l d s"

definition list_find :: "ptr \<Rightarrow> ptr \<Rightarrow> 'z user_heap_scheme lmem \<Rightarrow> ptr option" where
  "list_find l d s = linked_list_find l d s"

definition list_get_at :: "ptr \<Rightarrow> int \<Rightarrow> 'z user_heap_scheme lmem \<Rightarrow> ptr option" where
  "list_get_at l index s = linked_list_get_at l index s"

definition list_index_of :: "ptr \<Rightarrow> ptr \<Rightarrow> 'z user_heap_scheme lmem \<Rightarrow> int option" where
  "list_index_of l node s = linked_list_index_of l node s"

definition list_remove :: "ptr \<Rightarrow> ptr \<Rightarrow> 'z user_heap_scheme lmem \<Rightarrow> 'z user_heap_scheme lmem option" where
  "list_remove l node s = linked_list_remove alloc_free l node s"

definition list_remove_at_index :: "ptr \<Rightarrow> int \<Rightarrow> 'z user_heap_scheme lmem \<Rightarrow> 'z user_heap_scheme lmem option" where
  "list_remove_at_index l index s = linked_list_remove_at_index alloc_free l index s"

definition list_traverse ::
  "ptr \<Rightarrow> (ptr \<Rightarrow> int \<Rightarrow> 'z user_heap_scheme lmem \<Rightarrow> 'z user_heap_scheme lmem option) \<Rightarrow> 'z user_heap_scheme lmem \<Rightarrow> 'z user_heap_scheme lmem option"
where
  "list_traverse l f s = linked_list_traverse l f s"

text \<open>
  Appending on the user heap: the item is found again at the end, under the index the list had as its
  length, and an item looked up by its data is the first node that holds it.
\<close>

lemma list_append_get_at:
  assumes "pb.user.wf_lmem s" "pb.user_fits sizeof_node (hp s)" "is_list s l xs" "d \<noteq> 0"
  shows "\<exists>n s'. list_append l d s = Some (n, s') \<and> n \<noteq> 0 \<and> is_list s' l (xs @ [(n, d)]) \<and>
           list_get_at l (int (length xs)) s' = Some n \<and>
           (d \<notin> snd ` set xs \<longrightarrow> list_find l d s' = Some n)"
proof -
  from pb.user.linked_list_append_correct[OF assms] obtain n s' where
    s': "linked_list_append umalloc l d s = Some (n, s')" "is_list s' l (xs @ [(n, d)])"
    by (auto simp: pb.user.inserted_def)
  have "n \<noteq> 0" using s'(2) dseg_dom by (fastforce simp: is_list_def)
  moreover have "find (\<lambda>x. snd x = d) (xs @ [(n, d)]) = Some (n, d)" if "d \<notin> snd ` set xs"
    using that by (induction xs) auto
  ultimately show ?thesis using s' assms(4) linked_list_get_at_correct[OF s'(2), of "int (length xs)"]
      linked_list_find_correct[OF s'(2) assms(4)]
    by (auto simp: list_append_def list_get_at_def list_find_def nth_append)
qed

end
