(* ===== verification/Tarfs.thy ===== *)
theory Tarfs
  imports Devfs Byte_Memory
begin

text \<open>
  The archive file system, \<^verbatim>\<open>drivers/tarfs/tarfs.c\<close>: a read-only file system over a tar image in memory. A node of
  it points at the bytes of its file in the image, and a directory at the start of the image, whose headers are
  searched one after the other. A header is a block of 512 bytes on the kernel heap; its fields are read at
  their offsets: the name at 0, the size at 124, the type at 156 and the magic at 257. The image lies in the
  kernel's memory below the heap, so that \<open>kh_bytes\<close> holds its bytes too.
\<close>

subsection \<open>Header fields\<close>

definition TARFS_HDR_SIZE :: u32 where "TARFS_HDR_SIZE = 512"
definition VFS_NODE_TYPE_SLNK :: u16 where "VFS_NODE_TYPE_SLNK = 0x2"
definition VFS_NODE_TYPE_FILE :: u16 where "VFS_NODE_TYPE_FILE = 0x4"
definition VFS_NODE_TYPE_BLKD :: u16 where "VFS_NODE_TYPE_BLKD = 0x8"
definition VFS_NODE_TYPE_CHRD :: u16 where "VFS_NODE_TYPE_CHRD = 0x10"
definition VFS_NODE_TYPE_FIFO :: u16 where "VFS_NODE_TYPE_FIFO = 0x40"

text \<open>The string at the start of a buffer; without a terminator it would be read too far.\<close>

definition c_string :: "string \<Rightarrow> string option" where
  "c_string buf = map_option (\<lambda>n. take n buf) (find_nul buf)"

text \<open>The fields of the header at \<open>hdr\<close>.\<close>

definition hdr_name :: "ptr \<Rightarrow> 'z vm_scheme \<Rightarrow> string option" where
  "hdr_name hdr s = c_string (load_bytes hdr 512 (kh_bytes s))"

definition hdr_size :: "ptr \<Rightarrow> 'z vm_scheme \<Rightarrow> string" where
  "hdr_size hdr s = load_bytes (hdr + 124) 12 (kh_bytes s)"

definition hdr_typeflag :: "ptr \<Rightarrow> 'z vm_scheme \<Rightarrow> char" where
  "hdr_typeflag hdr s = char_of (unat (kh_bytes s (hdr + 156)))"

text \<open>The comparison of the magic stops at the eighth character at the latest.\<close>

definition hdr_magic_ok :: "ptr \<Rightarrow> 'z vm_scheme \<Rightarrow> bool" where
  "hdr_magic_ok hdr s \<longleftrightarrow> strcmp (takeWhile (\<lambda>c. c \<noteq> NUL) (load_bytes (hdr + 257) 8 (kh_bytes s))) ''ustar  '' = 0"

definition get_type_flags :: "char \<Rightarrow> u16" where
  "get_type_flags flag =
     (if flag = CHR ''0'' then VFS_NODE_TYPE_FILE
      else if flag = NUL then VFS_NODE_TYPE_FILE
      else if flag = CHR ''1'' then VFS_NODE_TYPE_SLNK
      else if flag = CHR ''2'' then VFS_NODE_TYPE_SLNK
      else if flag = CHR ''3'' then VFS_NODE_TYPE_CHRD
      else if flag = CHR ''4'' then VFS_NODE_TYPE_BLKD
      else if flag = CHR ''5'' then VFS_NODE_TYPE_DIRE
      else if flag = CHR ''6'' then VFS_NODE_TYPE_FIFO
      else 0)"

text \<open>\<open>char\<close> is signed: a byte above 127 counts as a negative digit.\<close>

definition get_file_size_tarfs :: "string \<Rightarrow> u32" where
  "get_file_size_tarfs sz =
     foldl (\<lambda>file_size c. if c = NUL \<or> c = CHR '' '' then file_size
                           else file_size * 8 + (scast (of_char c :: u8) - 48)) 0 (take 12 sz)"

subsection \<open>Nodes\<close>

definition open_node_tarfs :: "ptr \<Rightarrow> 'z vfs_scheme \<Rightarrow> (int \<times> 'z vfs_scheme) option" where
  "open_node_tarfs vfs_node s = Some (0, s)"

definition close_node_tarfs :: "ptr \<Rightarrow> 'z vfs_scheme \<Rightarrow> (int \<times> 'z vfs_scheme) option" where
  "close_node_tarfs vfs_node s = Some (0, s)"

definition write_node_tarfs :: "ptr \<Rightarrow> u32 \<Rightarrow> u32 \<Rightarrow> ptr \<Rightarrow> 'z vfs_scheme \<Rightarrow> (int \<times> 'z vfs_scheme) option" where
  "write_node_tarfs vfs_node start_at sz buffer s = Some (0, s)"

definition read_node_tarfs :: "ptr \<Rightarrow> u32 \<Rightarrow> u32 \<Rightarrow> ptr \<Rightarrow> 'z vfs_scheme \<Rightarrow> (int \<times> 'z vfs_scheme) option" where
  "read_node_tarfs vfs_node start_at sz buffer s = do {
     nd \<leftarrow> vnodes s vfs_node;
     if base_pointer nd = 0 then Some (-1, s)
     else do {
       let node_size = nd_size nd;
       if type_flags nd \<noteq> VFS_NODE_TYPE_DIRE \<and> (node_size \<le> start_at \<or> start_at <s 0) then Some (-1, s)
       else do {
         let len = (if node_size - 1 < start_at + sz then node_size - start_at else sz);
         Some (sint len, s\<lparr>kh_bytes := memcpy_8 buffer (base_pointer nd + start_at) len (kh_bytes s)\<rparr>)
       }
     }
   }"

text \<open>The code behind the function pointers of a tarfs node that act on one node.\<close>

definition tarfs_files :: "'z devfs_scheme calls \<Rightarrow> 'z devfs_scheme calls" where
  "tarfs_files other = other
     \<lparr>call_node := \<lambda>f n s. if f = ''open_node_tarfs'' then open_node_tarfs n s
                           else if f = ''close_node_tarfs'' then close_node_tarfs n s else call_node other f n s,
      call_io := \<lambda>f n a z b s. if f = ''read_node_tarfs'' then read_node_tarfs n a z b s
                               else if f = ''write_node_tarfs'' then write_node_tarfs n a z b s else call_io other f n a z b s\<rparr>"

text \<open>A node as \<open>build_node_tarfs\<close> and \<open>mount_tarfs\<close> fill it in; \<open>kern_malloc\<close> has cleared the other fields.\<close>

definition tarfs_node :: "string \<Rightarrow> u32 \<Rightarrow> u32 \<Rightarrow> u16 \<Rightarrow> ptr \<Rightarrow> vfs_gen_node" where
  "tarfs_node nm no sz ty base =
     \<lparr>nd_name = nm, node_no = no, nd_size = sz, type_flags = ty, specific_type = 0, node_create = NULL_fn,
      node_open = Sym ''open_node_tarfs'', node_close = Sym ''close_node_tarfs'', node_read = Sym ''read_node_tarfs'',
      node_write = Sym ''write_node_tarfs'', node_control = NULL_fn, node_status = NULL_fn,
      dir_read = Sym ''read_directory_tarfs'', dir_find = Sym ''find_in_directory_tarfs'',
      dir_list = Sym ''list_directory_tarfs'', base_pointer = base\<rparr>"

definition build_node_tarfs :: "ptr \<Rightarrow> ptr \<Rightarrow> 'z vfs_scheme \<Rightarrow> (ptr \<times> 'z vfs_scheme) option" where
  "build_node_tarfs header file_contents s = do {
     (node, s) \<leftarrow> kern_malloc sizeof_vnode s;
     if node = 0 then None
     else do {
       nm \<leftarrow> hdr_name header s;
       Some (node, s\<lparr>vnodes := (vnodes s)(node \<mapsto>
         tarfs_node nm 0 (get_file_size_tarfs (hdr_size header s)) (get_type_flags (hdr_typeflag header s)) file_contents)\<rparr>)
     }
   }"

subsection \<open>Mounting\<close>

definition mount_tarfs :: "ptr \<Rightarrow> string \<Rightarrow> 'z devfs_scheme \<Rightarrow> (ptr \<times> 'z devfs_scheme) option" where
  "mount_tarfs device mountpoint s = do {
     (root, s) \<leftarrow> kern_malloc sizeof_vnode s;
     if root = 0 then None
     else do {
       let (no, s) = get_node_no s;
       devnode \<leftarrow> vnodes s device;
       dev \<leftarrow> io_nodes s (base_pointer devnode);
       let s = s\<lparr>vnodes := (vnodes s)(root \<mapsto>
         tarfs_node mountpoint (word_of_int no) (nd_size devnode) VFS_NODE_TYPE_DIRE (io_base_pointer dev))\<rparr>;
       mount_in_vfs root (Some mountpoint) s
     }
   }"

definition create_tarfs_filesystem ::
  "'z devfs_scheme calls \<Rightarrow> string option \<Rightarrow> string option \<Rightarrow> 'z devfs_scheme \<Rightarrow> (ptr \<times> 'z devfs_scheme) option"
where
  "create_tarfs_filesystem cs device mountpoint s = do {
     (ident, s) \<leftarrow> get_filesystem_id s;
     if device = None \<or> mountpoint = None then Some (0, s)
     else do {
       s \<leftarrow> register_filesystem_in_vfs ident (Sym ''mount_tarfs'') s;
       mount_filesystem_in_vfs cs ident mountpoint device s
     }
   }"

subsection \<open>Names\<close>

text \<open>
  The path of a header is its name without the leading dot. Result 1: the header is the archive's root, and gets
  the parent's name; 0: it is taken for a child of the parent, and gets the last component of its path as its name;
  -1 otherwise. A path that contains the parent's name but no slash makes the code read a null pointer.
\<close>

definition remove_slash :: "ptr \<Rightarrow> nat \<Rightarrow> 'z vm_scheme \<Rightarrow> 'z vm_scheme" where
  "remove_slash hdr path_len s =
     (let last = hdr + of_nat path_len
      in if kh_bytes s last = of_char (CHR ''/'') then s\<lparr>kh_bytes := (kh_bytes s)(last := 0)\<rparr> else s)"

definition parse_child :: "ptr \<Rightarrow> string \<Rightarrow> 'z vm_scheme \<Rightarrow> (int \<times> 'z vm_scheme) option" where
  "parse_child hdr parent_name s = do {
     path \<leftarrow> c_string (load_bytes (hdr + 1) 511 (kh_bytes s));
     occ \<leftarrow> strstr (load_bytes (hdr + 1) 511 (kh_bytes s)) parent_name;
     (case occ of
        None \<Rightarrow> Some (-1, s)
      | Some i \<Rightarrow> do {
          child_name \<leftarrow> strrchr path (CHR ''/'');
          let occ = (if parent_name = ''/'' then drop i path else drop (i + length parent_name) path);
          if strncmp occ child_name (length child_name) = 0
          then do {
            (dup, s) \<leftarrow> strdup (tl child_name) s;
            let s = s\<lparr>kh_bytes := memcpy_8 hdr dup (of_nat (length (tl child_name))) (memset_8 hdr 0 100 (kh_bytes s))\<rparr>;
            s \<leftarrow> kern_free dup s;
            Some (0, s)
          }
          else Some (-1, s)
        })
   }"

definition check_parse_filename :: "ptr \<Rightarrow> string \<Rightarrow> 'z vm_scheme \<Rightarrow> (int \<times> 'z vm_scheme) option" where
  "check_parse_filename hdr parent_name s =
     (if hdr = 0 \<or> kh_bytes s hdr = 0 then Some (-1, s)
      else do {
        path \<leftarrow> c_string (load_bytes (hdr + 1) 511 (kh_bytes s));
        if path = ''/''
        then Some (1, s\<lparr>kh_bytes := write_string hdr parent_name (memset_8 hdr 0 100 (kh_bytes s))\<rparr>)
        else parse_child hdr parent_name (remove_slash hdr (length path) s)
      })"

subsection \<open>Directories\<close>

definition tar_align :: "u32 \<Rightarrow> u32" where
  "tar_align address = (let rem = address mod TARFS_HDR_SIZE in if rem \<noteq> 0 then address + (TARFS_HDR_SIZE - rem) else address)"

text \<open>
  \<open>kern_free\<close> of a null pointer clears the lowest bit of the byte at 0xFFFFFFFF: through the directory's entry for
  itself this is bit 24 of the last word of the directory.
\<close>

definition kern_free_null :: "'z vm_scheme \<Rightarrow> 'z vm_scheme option" where
  "kern_free_null s =
     (let pde = mem s (page_addr (cr3 s)) 1023; pte = mem s (page_addr pde) 1023; f = page_addr pte
      in if present_bit pde \<and> present_bit pte then Some (s\<lparr>mem := (mem s)(f := (mem s f)(1023 := unset_bit 24 (mem s f 1023)))\<rparr>)
         else None)"

text \<open>The block of 8 bytes for the header and the contents of a file, and the header's data in it.\<close>

definition file_contents :: "ptr \<Rightarrow> u32 \<Rightarrow> u32 \<Rightarrow> 'z vfs_scheme \<Rightarrow> ptr option" where
  "file_contents vfs_node address sz s = do {
     nd \<leftarrow> vnodes s vfs_node;
     Some (if 0 < sz then base_pointer nd + (address + TARFS_HDR_SIZE) else base_pointer nd)
   }"

text \<open>How the search in a directory ends: at the parent itself, with a file, or without one.\<close>

datatype tarfs_exit = Is_parent | Found ptr ptr | Not_found

partial_function (option) read_directory_loop ::
  "'z devfs_scheme calls \<Rightarrow> ptr \<Rightarrow> ptr \<Rightarrow> int \<Rightarrow> u32 \<Rightarrow> int \<Rightarrow> 'z devfs_scheme \<Rightarrow> (tarfs_exit \<times> 'z devfs_scheme) option"
where
  "read_directory_loop cs vfs_node header entry_no address current_entry s = do {
     let address = tar_align address;
     (read_status, s) \<leftarrow> read_from_vfs_node cs vfs_node address TARFS_HDR_SIZE header s;
     let sz = get_file_size_tarfs (hdr_size header s);
     if hdr_magic_ok header s
     then do {
       nd \<leftarrow> vnodes s vfs_node;
       (is_child, s) \<leftarrow> check_parse_filename header (nd_name nd) s;
       if is_child = 1 \<and> entry_no = 0 \<and> current_entry = 0
       then do { s \<leftarrow> kern_free header s; Some (Is_parent, s) }
       else if is_child = 0 \<and> current_entry = entry_no
       then do {
         (file, s) \<leftarrow> kern_malloc 8 s;
         if file = 0 then None
         else do { contents \<leftarrow> file_contents vfs_node address sz s; Some (Found file contents, s) }
       }
       else read_directory_loop cs vfs_node header entry_no (address + (TARFS_HDR_SIZE + sz))
              (if is_child \<noteq> -1 then current_entry + 1 else current_entry) s
     }
     else Some (Not_found, s)
   }"

definition read_directory_tarfs :: "'z devfs_scheme calls \<Rightarrow> ptr \<Rightarrow> int \<Rightarrow> 'z devfs_scheme \<Rightarrow> (ptr \<times> 'z devfs_scheme) option" where
  "read_directory_tarfs cs vfs_node entry_no s =
     (if vfs_node = 0 \<or> entry_no < 0 then Some (0, s)
      else do {
        nd \<leftarrow> vnodes s vfs_node;
        if type_flags nd \<noteq> VFS_NODE_TYPE_DIRE then Some (0, s)
        else do {
          (header, s) \<leftarrow> kern_malloc TARFS_HDR_SIZE s;
          let s = s\<lparr>kh_bytes := memset_8 header 0 TARFS_HDR_SIZE (kh_bytes s)\<rparr>;
          (res, s) \<leftarrow> read_directory_loop cs vfs_node header entry_no 0 0 s;
          (case res of
             Is_parent \<Rightarrow> Some (vfs_node, s)
           | Found file contents \<Rightarrow> do {
               (node, s) \<leftarrow> build_node_tarfs header contents s;
               s \<leftarrow> kern_free file s;
               Some (node, s)
             }
           | Not_found \<Rightarrow> do { s \<leftarrow> kern_free header s; s \<leftarrow> kern_free_null s; Some (0, s) })
        }
      })"

text \<open>The loop of the lookup by name.\<close>

partial_function (option) find_in_directory_loop ::
  "'z devfs_scheme calls \<Rightarrow> ptr \<Rightarrow> ptr \<Rightarrow> string \<Rightarrow> u32 \<Rightarrow> 'z devfs_scheme \<Rightarrow> ((ptr \<times> ptr) option \<times> 'z devfs_scheme) option"
where
  "find_in_directory_loop cs vfs_node header tmp address s = do {
     let address = tar_align address;
     (read_status, s) \<leftarrow> read_from_vfs_node cs vfs_node address TARFS_HDR_SIZE header s;
     let sz = get_file_size_tarfs (hdr_size header s);
     if hdr_magic_ok header s
     then do {
       nd \<leftarrow> vnodes s vfs_node;
       (is_child, s) \<leftarrow> check_parse_filename header (nd_name nd) s;
       nm \<leftarrow> (if is_child = 0 then hdr_name header s else Some []);
       if is_child = 0 \<and> strcmp nm tmp = 0
       then do {
         (file, s) \<leftarrow> kern_malloc 8 s;
         if file = 0 then None
         else do { contents \<leftarrow> file_contents vfs_node address sz s; Some (Some (file, contents), s) }
       }
       else find_in_directory_loop cs vfs_node header tmp (address + (TARFS_HDR_SIZE + sz)) s
     }
     else Some (None, s)
   }"

text \<open>
  One level of the path: the chunk up to the next slash is copied behind the first character of a new block, which
  is never freed. A node whose name is the file name sought ends the search, also when it is a directory on the way.
\<close>

function (sequential) find_in_directory_tarfs_internal ::
  "'z devfs_scheme calls \<Rightarrow> ptr \<Rightarrow> string \<Rightarrow> string \<Rightarrow> 'z devfs_scheme \<Rightarrow> (ptr \<times> 'z devfs_scheme) option"
where
  "find_in_directory_tarfs_internal cs vfs_node [] filename s = None"
| "find_in_directory_tarfs_internal cs vfs_node (c # path) filename s = do {
     let chunk_len = length (takeWhile (\<lambda>c. c \<noteq> CHR ''/'') path);
     (tmp, s) \<leftarrow> kern_malloc (word_of_int (strlen (c # path) + 1)) s;
     if tmp = 0 then None
     else do {
       buf \<leftarrow> strncpy (load_bytes tmp (length path + 2) (kh_bytes s)) (c # path) (int chunk_len);
       let s = s\<lparr>kh_bytes := write_string tmp buf (kh_bytes s)\<rparr>;
       chunk \<leftarrow> c_string (tl buf);
       (header, s) \<leftarrow> kern_malloc TARFS_HDR_SIZE s;
       let s = s\<lparr>kh_bytes := memset_8 header 0 TARFS_HDR_SIZE (kh_bytes s)\<rparr>;
       (res, s) \<leftarrow> find_in_directory_loop cs vfs_node header chunk 0 s;
       (case res of
          Some (file, contents) \<Rightarrow> do {
            (node, s) \<leftarrow> build_node_tarfs header contents s;
            s \<leftarrow> kern_free file s;
            nd \<leftarrow> vnodes s node;
            if strcmp (nd_name nd) filename = 0 then Some (node, s)
            else find_in_directory_tarfs_internal cs node (drop chunk_len path) filename s
          }
        | None \<Rightarrow> do { s \<leftarrow> kern_free header s; s \<leftarrow> kern_free_null s; Some (0, s) })
     }
   }"
  by pat_completeness auto
termination by (relation "measure (\<lambda>(cs, n, path, f, s). length path)") auto

declare find_in_directory_tarfs_internal.simps [simp del]

definition find_in_directory_tarfs :: "'z devfs_scheme calls \<Rightarrow> ptr \<Rightarrow> string \<Rightarrow> 'z devfs_scheme \<Rightarrow> (ptr \<times> 'z devfs_scheme) option" where
  "find_in_directory_tarfs cs vfs_node path s =
     (if vfs_node = 0 \<or> first_char path \<noteq> CHR ''/'' then Some (0, s)
      else if strlen path = 1 then Some (vfs_node, s)
      else do {
        slash \<leftarrow> strrchr path (CHR ''/'');
        find_in_directory_tarfs_internal cs vfs_node path (tl slash) s
      })"

text \<open>
  Listing a directory: the entries from 1 on are collected in a linked list and copied into an array with a null at
  its end. The list is local, so its two stores start empty.
\<close>

partial_function (option) list_directory_loop ::
  "'z devfs_scheme calls \<Rightarrow> ptr \<Rightarrow> ptr \<Rightarrow> int \<Rightarrow> 'z devfs_scheme lmem \<Rightarrow> 'z devfs_scheme lmem option"
where
  "list_directory_loop cs vfs_node list i ls = do {
     (tmpnode, h) \<leftarrow> read_directory_tarfs cs vfs_node i (hp ls);
     let ls = ls\<lparr>hp := h\<rparr>;
     if tmpnode \<noteq> 0
     then do { (item, ls) \<leftarrow> linked_list_append kern_malloc list tmpnode ls; list_directory_loop cs vfs_node list (i + 1) ls }
     else Some ls
   }"

partial_function (option) each_data :: "(ptr \<rightharpoonup> lnk_lst_node) \<Rightarrow> ptr \<Rightarrow> ptr list option" where
  "each_data m item =
     (if item = 0 then Some []
      else do { n \<leftarrow> m item; ds \<leftarrow> each_data m (nxt n); Some (data n # ds) })"

definition list_directory_tarfs :: "'z devfs_scheme calls \<Rightarrow> ptr \<Rightarrow> 'z devfs_scheme \<Rightarrow> (ptr list option \<times> 'z devfs_scheme) option" where
  "list_directory_tarfs cs vfs_node s =
     (if vfs_node = 0 then Some (None, s)
      else do {
        (list, ls) \<leftarrow> linked_list_create kern_malloc \<lparr>hp = s, lsts = Map.empty, nodes = Map.empty\<rparr>;
        ls \<leftarrow> list_directory_loop cs vfs_node list 1 ls;
        l \<leftarrow> lsts ls list;
        let alloc_size = 4 * word_of_int (list_length l);
        (ns, h) \<leftarrow> kern_malloc (alloc_size + 4) (hp ls);
        if ns = 0 then None
        else do {
          let ls = ls\<lparr>hp := h\<lparr>kh_bytes := memset_8 ns 0 alloc_size (kh_bytes h)\<rparr>\<rparr>;
          ds \<leftarrow> each_data (nodes ls) (list_head l);
          ls \<leftarrow> linked_list_destroy kern_free list ls;
          Some (Some (ds @ [0]), hp ls)
        }
      })"

text \<open>The code behind all function pointers of tarfs, in front of the code of the other file systems.\<close>

definition tarfs_calls :: "'z devfs_scheme calls \<Rightarrow> 'z devfs_scheme calls" where
  "tarfs_calls other = (let files = tarfs_files other in files
     \<lparr>call_readdir := \<lambda>f n e s. if f = ''read_directory_tarfs'' then read_directory_tarfs files n e s else call_readdir other f n e s,
      call_finddir := \<lambda>f n nm s. if f = ''find_in_directory_tarfs'' then find_in_directory_tarfs files n nm s
                                 else call_finddir other f n nm s,
      call_listdir := \<lambda>f n s. if f = ''list_directory_tarfs'' then list_directory_tarfs files n s else call_listdir other f n s,
      call_mount := \<lambda>f d mp s. if f = ''mount_tarfs'' then mount_tarfs d mp s else call_mount other f d mp s\<rparr>)"

subsection \<open>Sizes\<close>

text \<open>A number in \<open>k\<close> octal digits, as tar writes it.\<close>

fun octal :: "nat \<Rightarrow> nat \<Rightarrow> string" where
  "octal 0 n = []"
| "octal (Suc k) n = octal k (n div 8) @ [char_of (48 + n mod 8)]"

lemma length_octal [simp]: "length (octal k n) = k"
  by (induction k arbitrary: n) auto

lemma octal_digit:
  assumes "d < 8"
  shows "char_of (48 + d) \<noteq> NUL" "char_of (48 + d) \<noteq> CHR '' ''"
    "scast (of_char (char_of (48 + d)) :: u8) - 48 = (of_nat d :: u32)"
proof -
  have d: "of_char (char_of (48 + d)) = 48 + d" using assms by simp
  then show "char_of (48 + d) \<noteq> NUL" by (metis NUL_char(1) add_is_0 numeral_neq_zero)
  show "char_of (48 + d) \<noteq> CHR '' ''"
  proof
    assume "char_of (48 + d) = CHR '' ''"
    then have "of_char (char_of (48 + d)) = (32 :: nat)" by simp
    then show False using d by simp
  qed
  have "of_char (char_of (48 + d)) = (of_nat (of_char (char_of (48 + d))) :: u8)" by (rule of_nat_of_char[symmetric])
  then have c: "of_char (char_of (48 + d)) = (of_nat (48 + d) :: u8)" unfolding d .
  have "d \<in> {0, 1, 2, 3, 4, 5, 6, 7}" using assms by auto
  then have "scast (of_nat (48 + d) :: u8) - 48 = (of_nat d :: u32)" by (elim insertE) simp_all
  then show "scast (of_char (char_of (48 + d)) :: u8) - 48 = (of_nat d :: u32)" unfolding c .
qed

lemma octal_value:
  "foldl (\<lambda>v c. if c = NUL \<or> c = CHR '' '' then v else v * 8 + (scast (of_char c :: u8) - 48)) a (octal k n) =
     a * 8 ^ k + of_nat (n mod 8 ^ k)" for a :: u32
proof (induction k arbitrary: n)
  case (Suc k)
  have "n mod 8 ^ Suc k = 8 * (n div 8 mod 8 ^ k) + n mod 8" by (simp add: mod_mult2_eq)
  then show ?case using Suc[of "n div 8"] octal_digit[of "n mod 8"] by (simp add: algebra_simps)
qed simp

lemma file_size_octal: "n < 8 ^ 11 \<Longrightarrow> get_file_size_tarfs (octal 11 n @ [NUL]) = of_nat n"
  by (simp add: get_file_size_tarfs_def octal_value)

subsection \<open>Reading a file\<close>

text \<open>
  A read of a file returns what is left of it, up to the bytes asked for, and copies exactly these bytes. The buffer
  must not overlap them.
\<close>

definition reads_from :: "ptr \<Rightarrow> ptr \<Rightarrow> u32 \<Rightarrow> 'z vm_scheme \<Rightarrow> 'z vm_scheme \<Rightarrow> bool" where
  "reads_from buf src n s s' \<longleftrightarrow> vm.more s' = vm.more s \<and>
     (\<forall>x. kh_bytes s' x = (if x - buf < n then kh_bytes s (src + (x - buf)) else kh_bytes s x))"

definition apart :: "ptr \<Rightarrow> ptr \<Rightarrow> u32 \<Rightarrow> bool" where
  "apart buf src n \<longleftrightarrow> (\<forall>j<unat n. \<not> src + of_nat j - buf < n)"

lemma read_file_tarfs:
  fixes s :: "'z devfs_scheme"
  assumes nd: "vnodes s node = Some nd" "node \<noteq> 0" "node_read nd = Sym ''read_node_tarfs''" "base_pointer nd \<noteq> 0"
    "type_flags nd \<noteq> VFS_NODE_TYPE_DIRE" "unat (nd_size nd) < 2 ^ 31"
    and arg: "a < nd_size nd" "unat z < 2 ^ 31" "buf \<noteq> 0" "apart buf (base_pointer nd + a) (min z (nd_size nd - a))"
  obtains s' where "read_from_vfs_node (tarfs_files other) node a z buf s = Some (int (min (unat z) (unat (nd_size nd) - unat a)), s')"
    "reads_from buf (base_pointer nd + a) (min z (nd_size nd - a)) s s'"
proof -
  let ?len = "if nd_size nd - 1 < a + z then nd_size nd - a else z"
  have u: "unat (a + z) = unat a + unat z" "unat (nd_size nd - 1) = unat (nd_size nd) - 1" "unat (nd_size nd - a) = unat (nd_size nd) - unat a"
    using nd(6) arg(1,2) by (simp_all add: unat_word_ariths word_less_nat_alt unat_sub word_le_nat_alt)
  have len: "?len = min z (nd_size nd - a)" using u arg(1) by (auto simp: min_def word_less_nat_alt word_le_nat_alt intro!: word_eqI_unat)
  have "unat (min z (nd_size nd - a)) = min (unat z) (unat (nd_size nd) - unat a)" using u by (simp add: min_def word_le_nat_alt)
  moreover have "unat (min z (nd_size nd - a)) < 2 ^ 31" using calculation arg(2) by simp
  ultimately have v: "sint ?len = int (min (unat z) (unat (nd_size nd) - unat a))" unfolding len by (simp add: sint_small)
  have pos: "\<not> z <s 0" "\<not> a <s 0" "\<not> nd_size nd \<le> a"
    using arg nd(6) by (simp_all add: word_sless_alt sint_small word_less_nat_alt word_le_nat_alt)
  let ?s' = "s\<lparr>kh_bytes := memcpy_8 buf (base_pointer nd + a) ?len (kh_bytes s)\<rparr>"
  have "read_from_vfs_node (tarfs_files other) node a z buf s = Some (sint ?len, ?s')"
    using nd arg(1,3) pos by (simp add: read_from_vfs_node_def tarfs_files_def read_node_tarfs_def Let_def)
  moreover have "reads_from buf (base_pointer nd + a) (min z (nd_size nd - a)) s ?s'"
    unfolding reads_from_def len using arg(4) by (simp add: memcpy_8_apply apart_def)
  ultimately show ?thesis using that v by simp
qed

subsection \<open>Buffers and strings\<close>

lemma c_string_nul: "cstring nm \<Longrightarrow> c_string (nm @ NUL # x) = Some nm"
  by (simp add: c_string_def find_nul_cstring)

subsection \<open>Paths of headers\<close>

text \<open>A header whose name is a dot and a path; the path without a slash at its end, and its last component.\<close>

definition hdr_path :: "ptr \<Rightarrow> string \<Rightarrow> 'z vm_scheme \<Rightarrow> bool" where
  "hdr_path hdr path s \<longleftrightarrow> length path < 99 \<and> cstring path \<and> load_bytes hdr 100 (kh_bytes s) = CHR ''.'' # path @ replicate (99 - length path) NUL"

definition strip :: "string \<Rightarrow> string" where
  "strip path = (if path \<noteq> [] \<and> last path = CHR ''/'' then butlast path else path)"

definition tail_name :: "string \<Rightarrow> string" where
  "tail_name p = rev (takeWhile (\<lambda>c. c \<noteq> CHR ''/'') (rev p))"

lemma tail_name_eq: "CHR ''/'' \<notin> set c \<Longrightarrow> tail_name (a @ CHR ''/'' # c) = c"
proof -
  assume "CHR ''/'' \<notin> set c"
  then have "takeWhile (\<lambda>c. c \<noteq> CHR ''/'') (rev c @ CHR ''/'' # rev a) = rev c @ takeWhile (\<lambda>c. c \<noteq> CHR ''/'') (CHR ''/'' # rev a)"
    by (intro takeWhile_append2) auto
  then show ?thesis by (simp add: tail_name_def)
qed

lemma tail_name_split:
  assumes "CHR ''/'' \<in> set p"
  obtains a where "p = a @ CHR ''/'' # tail_name p" "CHR ''/'' \<notin> set (tail_name p)"
proof -
  obtain a c where "p = a @ CHR ''/'' # c" "CHR ''/'' \<notin> set c" using split_list_last[OF assms] by blast
  with that tail_name_eq[of c a] show ?thesis by simp
qed

text \<open>What \<open>check_parse_filename\<close> takes for an entry of the archive's root directory.\<close>

definition root_child :: "string \<Rightarrow> bool" where
  "root_child path \<longleftrightarrow> path \<noteq> ''/'' \<and> take (Suc (length (tail_name (strip path)))) (strip path) = CHR ''/'' # tail_name (strip path)"

lemma cstring_strip: "cstring path \<Longrightarrow> cstring (strip path)" "length (strip path) \<le> length path"
  by (auto simp: strip_def cstring_def dest: in_set_butlastD)

lemma hdr_path_bytes:
  assumes "hdr_path hdr path s"
  shows "load_bytes (hdr + 1) 511 (kh_bytes s) = path @ NUL # (replicate (98 - length path) NUL @ load_bytes (hdr + 100) 412 (kh_bytes s))"
proof -
  have "load_bytes hdr 1 (kh_bytes s) @ load_bytes (hdr + 1) 511 (kh_bytes s) = load_bytes hdr 100 (kh_bytes s) @ load_bytes (hdr + 100) 412 (kh_bytes s)"
    using load_bytes_add[of hdr 1 511 "kh_bytes s"] load_bytes_add[of hdr 100 412 "kh_bytes s"] by simp
  also have "\<dots> = CHR ''.'' # path @ NUL # (replicate (98 - length path) NUL @ load_bytes (hdr + 100) 412 (kh_bytes s))"
    using assms replicate_Suc[of "98 - length path" NUL] Suc_diff_le[of "length path" 98] by (simp add: hdr_path_def)
  finally show ?thesis by (cases "load_bytes hdr 1 (kh_bytes s)") (auto dest: arg_cong[where f = length])
qed

lemma hdr_path_head: "hdr_path hdr path s \<Longrightarrow> kh_bytes s hdr \<noteq> 0"
proof -
  assume "hdr_path hdr path s"
  then have "load_bytes hdr 100 (kh_bytes s) ! 0 = CHR ''.''" by (simp add: hdr_path_def)
  then have "char_of (unat (kh_bytes s hdr)) \<noteq> NUL" by (simp add: NUL_def)
  then show ?thesis using char_byte(3) by blast
qed

text \<open>The step that removes the slash at the end.\<close>

lemma strip_step:
  assumes h: "hdr_path hdr path s" and p: "path \<noteq> []"
  defines "s' \<equiv> remove_slash hdr (length path) s"
  shows "hdr_path hdr (strip path) s'"
proof -
  let ?b = "load_bytes hdr 100 (kh_bytes s)"
  note hp = h[unfolded hdr_path_def]
  have "?b ! length path = last path" using hp p by (simp add: nth_append last_conv_nth nth_Cons')
  moreover have "?b ! length path = char_of (unat (kh_bytes s (hdr + of_nat (length path))))" using hp by (intro nth_load_bytes) simp
  ultimately have "char_of (unat (kh_bytes s (hdr + of_nat (length path)))) = last path" by simp
  then have iff: "kh_bytes s (hdr + of_nat (length path)) = of_char (CHR ''/'') \<longleftrightarrow> last path = CHR ''/''"
    using char_byte(1)[of "CHR ''/''"] char_byte(2) by metis
  show ?thesis
  proof (cases "last path = CHR ''/''")
    case True
    obtain q where q: "path = q @ [CHR ''/'']" using p True by (metis append_butlast_last_id)
    have len: "length path < 100" using hp by simp
    have "load_bytes hdr 100 (kh_bytes s') = ?b[length path := NUL]"
      using True iff load_bytes_upd[OF len, of hdr "kh_bytes s" 0] char_byte(3)[of 0] by (simp add: s'_def remove_slash_def Let_def)
    also have "\<dots> = CHR ''.'' # q @ NUL # replicate (98 - length q) NUL" using hp q by (simp add: list_update_append)
    also have "\<dots> = CHR ''.'' # q @ replicate (99 - length q) NUL"
      using hp q replicate_Suc[of "98 - length q" NUL] Suc_diff_le[of "length q" 98] by simp
    finally show ?thesis using hp q by (simp add: hdr_path_def strip_def cstring_def)
  qed (use h iff in \<open>simp add: strip_def s'_def remove_slash_def Let_def\<close>)
qed

subsection \<open>Parsing a name in the root directory\<close>

text \<open>
  A header block on the heap, and what a step of the search leaves alone: everything that is owned, except the first
  \<open>n\<close> bytes of the header.
\<close>

definition hdr_block :: "ptr \<Rightarrow> 'z vm_scheme \<Rightarrow> bool" where
  "hdr_block hdr s \<longleftrightarrow> (\<exists>n. (hdr, n) \<in> heap_live s \<and> 512 \<le> unat n)"

definition hdr_frame :: "ptr \<Rightarrow> nat \<Rightarrow> 'z vm_scheme \<Rightarrow> 'z vm_scheme \<Rightarrow> bool" where
  "hdr_frame hdr n s s' \<longleftrightarrow> heap_live s' = heap_live s \<and> free_behind s' \<and> vm.more s' = vm.more s \<and> kh_start s' = kh_start s \<and>
     (\<forall>x. owned s x \<longrightarrow> n \<le> unat (x - hdr) \<longrightarrow> kh_bytes s' x = kh_bytes s x)"

lemma hdr_frame_owned: "hdr_frame hdr n s s' \<Longrightarrow> owned s' = owned s"
  by (auto simp: hdr_frame_def owned_def)

lemma hdr_frame_trans:
  assumes "hdr_frame hdr n s s'" "hdr_frame hdr m s' s''"
  shows "hdr_frame hdr (max n m) s s''"
  using assms hdr_frame_owned[OF assms(1)] by (auto simp: hdr_frame_def)

lemma hdr_frame_bytes:
  assumes "free_behind s" "\<And>x. n \<le> unat (x - hdr) \<Longrightarrow> m x = kh_bytes s x"
  shows "hdr_frame hdr n s (s\<lparr>kh_bytes := m\<rparr>)"
  using assms by (simp add: hdr_frame_def free_behind_def)

lemma hdr_block_area:
  assumes wf: "wf_heap s" and b: "hdr_block hdr s" and x: "unat (x - hdr) < 512"
  shows "owned s x" "unat x = unat hdr + unat (x - hdr)" "hdr \<noteq> 0" "unat hdr + 512 < 2 ^ 32"
proof -
  obtain n where n: "(hdr, n) \<in> heap_live s" "512 \<le> unat n" using b by (auto simp: hdr_block_def)
  have "unat hdr + unat n - 1 \<in> area (hdr, n)" using n by (simp add: area_def)
  from live_area_range[OF wf n(1) this] have lim: "unat hdr + 512 < 2 ^ 32" "unat (kh_start s) < unat hdr + unat n - 1"
    using n(2) unat_u32_less[of "kh_end s"] by auto
  then show "unat hdr + 512 < 2 ^ 32" by simp
  have "hdr \<noteq> 0" using live_area_range(1)[OF wf n(1), of "unat hdr"] n(2) by (auto simp: area_def)
  then show "hdr \<noteq> 0" .
  have "unat x = (unat hdr + unat (x - hdr)) mod 2 ^ 32" using unat_word_ariths(1)[of hdr "x - hdr"] by simp
  then show ux: "unat x = unat hdr + unat (x - hdr)" using lim(1) x by simp
  have "unat x \<in> area (hdr, n)" using ux n(2) x by (simp add: area_def)
  then show "owned s x" using n(1) by (auto simp: owned_def)
qed

lemma alloc_cost_small: "unat n \<le> 4000 \<Longrightarrow> alloc_cost n = 4096"
proof -
  assume n: "unat n \<le> 4000"
  then have "unat n + 9 \<le> unat (heap_total_size n)" "unat (heap_total_size n) \<le> unat n + 16" using heap_total_size_bounds[of n] by auto
  then have "4096 \<le> unat (heap_total_size n) + 4095" "unat (heap_total_size n) + 4095 < 2 * 4096" using n by auto
  then have "(unat (heap_total_size n) + 4095) div 4096 = 1" by (intro div_nat_eqI) auto
  then show ?thesis by (simp add: alloc_cost_def pages_for_nat)
qed

text \<open>The name that the duplicate leaves in the header.\<close>

lemma renamed:
  assumes d: "duplicated c k s dup s1" and wf: "wf_heap s" and blk: "hdr_block hdr s" and c: "length c < 99" "cstring c"
  defines "m \<equiv> memcpy_8 hdr dup (of_nat (length c)) (memset_8 hdr 0 100 (kh_bytes s1))"
  shows "c_string (load_bytes hdr 512 m) = Some c" "\<And>x. 100 \<le> unat (x - hdr) \<Longrightarrow> m x = kh_bytes s1 x"
proof -
  have len: "unat (of_nat (length c) :: u32) = length c" using c(1) by (simp add: unat_of_nat take_bit_nat_eq_self)
  obtain n where n: "(hdr, n) \<in> heap_live s" "512 \<le> unat n" using blk by (auto simp: hdr_block_def)
  obtain l where l: "length c < unat l" "heap_live s1 = insert (dup, l) (heap_live s)" "area (hdr, n) \<inter> area (dup, l) = {}"
    using d n(1) unfolding duplicated_def by blast
  have wf1: "wf_heap s1" using d by (simp add: duplicated_def heap_budget_def)
  have far: "\<not> unat (dup + of_nat i - hdr) < 512" if i: "i < length c" for i
  proof
    assume x: "unat (dup + of_nat i - hdr) < 512"
    have ui: "unat (of_nat i :: u32) = i" using i c(1) by (simp add: unat_of_nat take_bit_nat_eq_self)
    have "(of_nat i :: u32) \<le> l" using ui i l(1) by (simp add: word_le_nat_alt)
    from behind_not_owned(1)[OF wf1 _ this, of dup] l(2) have "unat (dup + of_nat i) = unat dup + i" using ui by simp
    then have "unat (dup + of_nat i) \<in> area (dup, l)" using i l(1) by (simp add: area_def)
    moreover have "unat (dup + of_nat i) \<in> area (hdr, n)" using hdr_block_area(2)[OF wf blk x] x n(2) by (simp add: area_def)
    ultimately show False using l(3) by blast
  qed
  have ap: "\<forall>j<unat (of_nat (length c) :: u32). \<not> dup + of_nat j - hdr < of_nat (length c)"
    using far len c(1) by (fastforce simp: word_less_nat_alt)
  have m: "m x = (if unat (x - hdr) < length c then memset_8 hdr 0 100 (kh_bytes s1) (dup + (x - hdr))
                  else if unat (x - hdr) < 100 then 0 else kh_bytes s1 x)" for x
    unfolding m_def memcpy_8_apply[OF ap] by (simp add: word_less_nat_alt len memset_8_apply)
  have cp: "memset_8 hdr 0 100 (kh_bytes s1) (dup + of_nat i) = of_char (c ! i)" if i: "i < length c" for i
    using far[OF i] i d by (simp add: memset_8_apply word_less_nat_alt duplicated_def)
  have ui: "unat (of_nat i :: u32) = i" if "i < 512" for i using that by (simp add: unat_of_nat take_bit_nat_eq_self)
  have b1: "load_bytes hdr 512 m ! i = c ! i" if "i < length c" for i
    using that c(1) m[of "hdr + of_nat i"] ui[of i] cp[OF that] by (simp add: char_byte(1))
  have b2: "load_bytes hdr 512 m ! length c = NUL"
    using c(1) m[of "hdr + of_nat (length c)"] len char_byte(3)[of 0] by simp
  have "load_bytes hdr 512 m = take (length c) (load_bytes hdr 512 m) @ load_bytes hdr 512 m ! length c # drop (Suc (length c)) (load_bytes hdr 512 m)"
    using c(1) by (intro id_take_nth_drop) simp
  moreover have "take (length c) (load_bytes hdr 512 m) = c" using c(1) b1 by (intro nth_equalityI) simp_all
  ultimately show "c_string (load_bytes hdr 512 m) = Some c" using b2 c_string_nul[OF c(2)] by metis
  show "\<And>x. 100 \<le> unat (x - hdr) \<Longrightarrow> m x = kh_bytes s1 x" using m c(1) by simp
qed

lemma strip_root:
  assumes "path \<noteq> []" "hd path = CHR ''/''" "path \<noteq> ''/''"
  obtains a where "strip path = CHR ''/'' # a"
proof -
  obtain c cs where path: "path = c # cs" using assms(1) by (cases path) auto
  then have cs: "cs \<noteq> []" "c = CHR ''/''" using assms by auto
  show ?thesis
  proof (cases "last cs = CHR ''/''")
    case True
    show ?thesis by (rule that[of "butlast cs"]) (use cs path True in \<open>simp add: strip_def\<close>)
  next
    case False
    show ?thesis by (rule that[of cs]) (use cs path False in \<open>simp add: strip_def\<close>)
  qed
qed

lemma strstr_root:
  assumes "hdr_path hdr (CHR ''/'' # a) s"
  shows "strstr (load_bytes (hdr + 1) 511 (kh_bytes s)) ''/'' = Some (Some 0)"
proof -
  have "cstring (CHR ''/'' # a)" "cstring ''/''" using assms by (auto simp: hdr_path_def cstring_def NUL_def)
  from strstr_correct[OF this] show ?thesis unfolding hdr_path_bytes[OF assms] by (simp add: upt_rec[of 0])
qed

lemma check_parse_tail:
  fixes s :: "'z vm_scheme"
  assumes h: "hdr_path hdr p s" "p = CHR ''/'' # a" and blk: "hdr_block hdr s" and b: "heap_budget (4096 + k) s" and f: "free_behind s"
  defines "child \<equiv> CHR ''/'' # tail_name p"
  shows "strrchr p (CHR ''/'') = Some child" "strncmp p child (length child) = 0 \<longleftrightarrow> take (length child) p = child"
    "\<exists>dup s1 s2. strdup (tail_name p) s = Some (dup, s1) \<and>
       kern_free dup (s1\<lparr>kh_bytes := memcpy_8 hdr dup (of_nat (length (tail_name p))) (memset_8 hdr 0 100 (kh_bytes s1))\<rparr>) = Some s2 \<and>
       hdr_frame hdr 100 s s2 \<and> heap_budget k s2 \<and> hdr_name hdr s2 = Some (tail_name p)"
proof -
  have cs: "cstring p" "length p < 99" using h by (auto simp: hdr_path_def)
  obtain q where q: "p = q @ child" "CHR ''/'' \<notin> set (tail_name p)"
    using tail_name_split[of p] h(2) unfolding child_def by auto
  have sub: "cstring child" "cstring (tail_name p)" "length (tail_name p) < 99"
    using cs arg_cong[OF q(1), of set] arg_cong[OF q(1), of length] by (auto simp: cstring_def child_def)
  show "strrchr p (CHR ''/'') = Some child"
    using strrchr_some[of "CHR ''/''" "tail_name p" q] q unfolding child_def by (simp add: NUL_def)
  show "strncmp p child (length child) = 0 \<longleftrightarrow> take (length child) p = child" using strncmp_eq[OF cs(1) sub(1)] by simp
  have wf: "wf_heap s" using b by (simp add: heap_budget_def)
  have "alloc_cost (word_of_int (int (length (tail_name p)) + 1)) = 4096"
    by (rule alloc_cost_small) (use sub(3) in \<open>simp add: unat_word_ariths unat_of_nat take_bit_nat_eq_self\<close>)
  then have b': "heap_budget (alloc_cost (word_of_int (int (length (tail_name p)) + 1)) + k) s" using b by simp
  have len: "length (tail_name p) < 2 ^ 30" using sub(3) by simp
  obtain dup s1 where s1: "strdup (tail_name p) s = Some (dup, s1)" "duplicated (tail_name p) k s dup s1" by (rule strdup_ok[OF b' f len])
  let ?m = "memcpy_8 hdr dup (of_nat (length (tail_name p))) (memset_8 hdr 0 100 (kh_bytes s1))"
  note rn = renamed[OF s1(2) wf blk sub(3,2)]
  obtain s2 where s2: "kern_free dup (s1\<lparr>kh_bytes := ?m\<rparr>) = Some s2" "free_behind s2" "heap_live s2 = heap_live s" "heap_budget k s2"
    "kh_bytes s2 = ?m" "kh_start s2 = kh_start s" "vm.more s2 = vm.more s" by (rule free_duplicate[OF f s1(2)])
  have "\<forall>x. owned s x \<longrightarrow> kh_bytes s1 x = kh_bytes s x" using s1(2) unfolding duplicated_def by blast
  then have "hdr_frame hdr 100 s s2" unfolding hdr_frame_def using s2 rn(2) by simp
  moreover have "hdr_name hdr s2 = Some (tail_name p)" using rn(1) s2(5) by (simp add: hdr_name_def)
  ultimately show "\<exists>dup s1 s2. strdup (tail_name p) s = Some (dup, s1) \<and>
       kern_free dup (s1\<lparr>kh_bytes := memcpy_8 hdr dup (of_nat (length (tail_name p))) (memset_8 hdr 0 100 (kh_bytes s1))\<rparr>) = Some s2 \<and>
       hdr_frame hdr 100 s s2 \<and> heap_budget k s2 \<and> hdr_name hdr s2 = Some (tail_name p)" using s1(1) s2(1,4) by blast
qed

lemma check_parse_root:
  fixes s :: "'z vm_scheme"
  assumes h: "hdr_path hdr path s" and p: "path \<noteq> []" "hd path = CHR ''/''" and blk: "hdr_block hdr s"
    and b: "heap_budget (4096 + k) s" and f: "free_behind s"
  obtains s' where "check_parse_filename hdr ''/'' s = Some (if path = ''/'' then 1 else if root_child path then 0 else -1, s')"
    "hdr_frame hdr 100 s s'" "heap_budget k s'" "root_child path \<longrightarrow> hdr_name hdr s' = Some (tail_name (strip path))"
proof -
  have wf: "wf_heap s" using b by (simp add: heap_budget_def)
  have hdr: "hdr \<noteq> 0" "kh_bytes s hdr \<noteq> 0" using hdr_block_area(3)[OF wf blk, of hdr] hdr_path_head[OF h] by simp_all
  have cs: "cstring path" "length path < 99" using h by (auto simp: hdr_path_def)
  have path: "c_string (load_bytes (hdr + 1) 511 (kh_bytes s)) = Some path" unfolding hdr_path_bytes[OF h] by (rule c_string_nul[OF cs(1)])
  have bk: "heap_budget k s" using b by (rule heap_budget_mono) simp
  show ?thesis
  proof (cases "path = ''/''")
    case True
    let ?m = "write_string hdr ''/'' (memset_8 hdr 0 100 (kh_bytes s))"
    have "hdr_frame hdr 100 s (s\<lparr>kh_bytes := ?m\<rparr>)"
      by (rule hdr_frame_bytes[OF f]) (auto simp: memset_8_apply word_less_nat_alt)
    moreover have "check_parse_filename hdr ''/'' s = Some (1, s\<lparr>kh_bytes := ?m\<rparr>)"
      using hdr path True by (simp add: check_parse_filename_def)
    ultimately show ?thesis using that[of "s\<lparr>kh_bytes := ?m\<rparr>"] bk True by (simp add: root_child_def heap_budget_def)
  next
    case False
    obtain a where a: "strip path = CHR ''/'' # a" using strip_root[OF p False] by blast
    define s1 where "s1 = remove_slash hdr (length path) s"
    have h1: "hdr_path hdr (strip path) s1" unfolding s1_def by (rule strip_step[OF h p(1)])
    have same: "heap_live s1 = heap_live s" "free_behind s1" "heap_budget (4096 + k) s1" "hdr_block hdr s1"
      using f b blk by (auto simp: s1_def remove_slash_def Let_def heap_budget_def free_behind_def hdr_block_def)
    have u: "unat (of_nat (length path) :: u32) = length path" using cs(2) by (simp add: unat_of_nat take_bit_nat_eq_self)
    have fr1: "hdr_frame hdr 100 s s1"
    proof (cases "kh_bytes s (hdr + of_nat (length path)) = of_char (CHR ''/'')")
      case True
      have "hdr_frame hdr 100 s (s\<lparr>kh_bytes := (kh_bytes s)(hdr + of_nat (length path) := 0)\<rparr>)"
        by (rule hdr_frame_bytes[OF f]) (use u cs(2) in auto)
      then show ?thesis using True by (simp add: s1_def remove_slash_def Let_def)
    qed (use f in \<open>simp add: s1_def remove_slash_def Let_def hdr_frame_def\<close>)
    have "c_string (load_bytes (hdr + 1) 511 (kh_bytes s1)) = Some (strip path)"
      unfolding hdr_path_bytes[OF h1] by (rule c_string_nul[OF cstring_strip(1)[OF cs(1)]])
    note facts = this strstr_root[OF h1[unfolded a]] check_parse_tail(1,2)[OF h1 a same(4,3,2)]
    have rc: "root_child path \<longleftrightarrow> take (length (CHR ''/'' # tail_name (strip path))) (strip path) = CHR ''/'' # tail_name (strip path)"
      using False by (simp add: root_child_def)
    have cp: "check_parse_filename hdr ''/'' s = parse_child hdr ''/'' s1"
      using hdr path False by (simp add: check_parse_filename_def s1_def)
    show ?thesis
    proof (cases "root_child path")
      case True
      obtain dup s2 s3 where s3: "strdup (tail_name (strip path)) s1 = Some (dup, s2)"
        "kern_free dup (s2\<lparr>kh_bytes := memcpy_8 hdr dup (of_nat (length (tail_name (strip path)))) (memset_8 hdr 0 100 (kh_bytes s2))\<rparr>) = Some s3"
        "hdr_frame hdr 100 s1 s3" "heap_budget k s3" "hdr_name hdr s3 = Some (tail_name (strip path))"
        using check_parse_tail(3)[OF h1 a same(4,3,2)] by blast
      have "parse_child hdr ''/'' s1 = Some (0, s3)"
        unfolding parse_child_def facts(1,2) using facts(3,4) s3(1,2) True rc by simp
      then show ?thesis using that cp hdr_frame_trans[OF fr1 s3(3)] s3(4,5) True False by simp
    next
      case nc: False
      have "parse_child hdr ''/'' s1 = Some (-1, s1)"
        unfolding parse_child_def facts(1,2) using facts(3,4) nc rc by simp
      moreover have "heap_budget k s1" using same(3) by (rule heap_budget_mono) simp
      ultimately show ?thesis using that cp fr1 nc False by simp
    qed
  qed
qed

subsection \<open>Archives\<close>

text \<open>
  An archive in memory: for each entry its path and size, a header at a multiple of 512 behind the contents of the
  entry before, and at the end a block that is no header.
\<close>

type_synonym tar_entry = "string \<times> nat"

definition entry_len :: "tar_entry \<Rightarrow> nat" where
  "entry_len e = 512 + (snd e + 511) div 512 * 512"

definition tar_len :: "tar_entry list \<Rightarrow> nat" where
  "tar_len es = sum_list (map entry_len es)"

fun tar_at :: "ptr \<Rightarrow> nat \<Rightarrow> tar_entry list \<Rightarrow> 'z vm_scheme \<Rightarrow> bool" where
  "tar_at base off [] s \<longleftrightarrow> \<not> hdr_magic_ok (base + of_nat off) s"
| "tar_at base off ((path, n) # es) s \<longleftrightarrow> path \<noteq> [] \<and> hd path = CHR ''/'' \<and> n < 2 ^ 31 \<and> hdr_path (base + of_nat off) path s \<and>
     hdr_magic_ok (base + of_nat off) s \<and> get_file_size_tarfs (hdr_size (base + of_nat off) s) = of_nat n \<and>
     tar_at base (off + entry_len (path, n)) es s"

lemma tar_len_simps [simp]: "tar_len [] = 0" "tar_len (e # es) = entry_len e + tar_len es" "tar_len (es @ fs) = tar_len es + tar_len fs"
  by (simp_all add: tar_len_def)

lemma entry_len_mod [simp]: "(off + entry_len e) mod 512 = off mod 512"
  by (simp add: entry_len_def mod_add_eq[symmetric])

lemma tar_align_unat:
  assumes "unat a < 2 ^ 31"
  shows "unat (tar_align a) = (if unat a mod 512 = 0 then unat a else unat a + (512 - unat a mod 512))"
proof -
  define r where "r = a mod TARFS_HDR_SIZE"
  have r: "unat r = unat a mod 512" by (simp add: r_def unat_mod TARFS_HDR_SIZE_def)
  have "unat a mod 512 < 512" by simp
  then have "unat r < 512" by (simp only: r)
  then have "unat (TARFS_HDR_SIZE - r) = 512 - unat r" by (simp add: TARFS_HDR_SIZE_def unat_sub word_le_nat_alt)
  then have "unat (a + (TARFS_HDR_SIZE - r)) = unat a + (512 - unat r)" using assms by (simp add: unat_word_ariths)
  moreover have "r = 0 \<longleftrightarrow> unat r = 0" by (simp add: unat_eq_zero)
  ultimately show ?thesis unfolding tar_align_def Let_def r_def[symmetric] r[symmetric] by simp
qed

lemma tar_align_next:
  assumes "off mod 512 = 0" "off + entry_len (path, n) < 2 ^ 31"
  shows "tar_align (of_nat off + (TARFS_HDR_SIZE + of_nat n)) = of_nat (off + entry_len (path, n))"
proof (rule word_eqI_unat)
  let ?a = "of_nat off + (TARFS_HDR_SIZE + of_nat n) :: u32" and ?r = "n mod 512"
  have "n + 511 = (?r + 511) + n div 512 * 512" by simp
  then have "(n + 511) div 512 = n div 512 + (?r + 511) div 512" by (metis div_mult_self1 numeral_neq_zero mult.commute)
  moreover have "(?r + 511) div 512 = (if ?r = 0 then 0 else 1)" by (auto intro!: div_nat_eqI)
  moreover have "n div 512 * 512 = n - ?r" "?r \<le> n" "?r < 512" by (simp_all add: minus_mod_eq_div_mult)
  ultimately have n: "(n + 511) div 512 * 512 = (if ?r = 0 then n else n + (512 - ?r))" by (auto simp: add_mult_distrib)
  have lim: "off + 512 + n < 2 ^ 31" using assms(2) n by (auto simp: entry_len_def split: if_splits)
  then have ua: "unat ?a = off + 512 + n" by (simp add: TARFS_HDR_SIZE_def unat_word_ariths unat_of_nat take_bit_nat_eq_self)
  have "(off + 512 + n) mod 512 = (off mod 512 + (512 + n) mod 512) mod 512" by (simp only: mod_add_eq add.assoc)
  then have "(off + 512 + n) mod 512 = ?r" using assms(1) by simp
  then have "unat (tar_align ?a) = (if ?r = 0 then off + 512 + n else off + 512 + n + (512 - ?r))"
    using tar_align_unat[of ?a] ua lim by (simp only: ua)
  also have "\<dots> = off + entry_len (path, n)" using n by (simp add: entry_len_def add.assoc add.left_commute)
  finally show "unat (tar_align ?a) = unat (of_nat (off + entry_len (path, n)) :: u32)"
    using assms(2) unat_of_nat[where 'a = 32, of "off + entry_len (path, n)"] by (simp add: take_bit_nat_eq_self)
qed

text \<open>The fields of a header are read from its 512 bytes.\<close>

lemma header_fields:
  assumes "load_bytes p 512 (kh_bytes s) = load_bytes q 512 (kh_bytes s')"
  shows "hdr_path p path s = hdr_path q path s'" "hdr_size p s = hdr_size q s'" "hdr_magic_ok p s = hdr_magic_ok q s'"
    "hdr_typeflag p s = hdr_typeflag q s'"
proof -
  have "load_bytes (p + of_nat a) b (kh_bytes s) = load_bytes (q + of_nat a) b (kh_bytes s')" if "a + b \<le> 512" for a b
    using load_bytes_sub[OF that, of p "kh_bytes s"] load_bytes_sub[OF that, of q "kh_bytes s'"] assms by simp
  from this[of 0 100] this[of 124 12] this[of 257 8]
  show "hdr_path p path s = hdr_path q path s'" "hdr_size p s = hdr_size q s'" "hdr_magic_ok p s = hdr_magic_ok q s'"
    by (simp_all add: hdr_path_def hdr_size_def hdr_magic_ok_def)
  show "hdr_typeflag p s = hdr_typeflag q s'" using arg_cong[OF assms, of "\<lambda>b. b ! 156"] by (simp add: hdr_typeflag_def)
qed

text \<open>The fields behind the name survive the parsing of the name.\<close>

lemma header_tail:
  assumes "wf_heap s" "hdr_block hdr s" "hdr_frame hdr 100 s s'"
  shows "hdr_size hdr s' = hdr_size hdr s" "hdr_typeflag hdr s' = hdr_typeflag hdr s"
proof -
  have same: "kh_bytes s' (hdr + of_nat i) = kh_bytes s (hdr + of_nat i)" if i: "100 \<le> i" "i < 512" for i
  proof -
    have "unat (hdr + of_nat i - hdr) = i" using i by (simp add: unat_of_nat take_bit_nat_eq_self)
    moreover from this have "owned s (hdr + of_nat i)" using hdr_block_area(1)[OF assms(1,2)] i by simp
    ultimately show ?thesis using assms(3) i by (simp add: hdr_frame_def)
  qed
  have "load_bytes (hdr + 124) 12 (kh_bytes s') = load_bytes (hdr + 124) 12 (kh_bytes s)"
  proof (rule load_bytes_cong)
    fix i :: nat assume "i < 12"
    then show "kh_bytes s' (hdr + 124 + of_nat i) = kh_bytes s (hdr + 124 + of_nat i)" using same[of "124 + i"] by (simp add: add.assoc)
  qed
  then show "hdr_size hdr s' = hdr_size hdr s" by (simp add: hdr_size_def)
  show "hdr_typeflag hdr s' = hdr_typeflag hdr s" using same[of 156] by (simp add: hdr_typeflag_def)
qed

subsection \<open>Searching the root directory\<close>

text \<open>An archive that a mounted root node shows: below the heap, and not longer than the node's size.\<close>

definition tar_root :: "ptr \<Rightarrow> ptr \<Rightarrow> nat \<Rightarrow> tar_entry list \<Rightarrow> 'z devfs_scheme \<Rightarrow> bool" where
  "tar_root node base lim es s \<longleftrightarrow> node \<noteq> 0 \<and> base \<noteq> 0 \<and> lim < 2 ^ 31 \<and> tar_at base 0 es s \<and> tar_len es + 512 \<le> lim \<and>
     unat base + lim \<le> unat (kh_start s) \<and>
     (\<exists>no. vnodes s node = Some (tarfs_node ''/'' no (of_nat lim) VFS_NODE_TYPE_DIRE base))"

lemma low_owned:
  assumes wf: "wf_heap s" and b: "hdr_block hdr s" and x: "unat x < unat (kh_start s)"
  shows "owned s x" "512 \<le> unat (x - hdr)"
proof -
  show "owned s x" using x by (simp add: owned_def)
  obtain n where n: "(hdr, n) \<in> heap_live s" "512 \<le> unat n" using b by (auto simp: hdr_block_def)
  have "unat (kh_start s) < unat hdr" using live_area_range(1)[OF wf n(1), of "unat hdr"] n(2) by (simp add: area_def)
  then show "512 \<le> unat (x - hdr)" using hdr_block_area(2)[OF wf b, of x] x by linarith
qed

text \<open>One header is read into the header block.\<close>

lemma read_header:
  fixes s :: "'z devfs_scheme"
  assumes blk: "hdr_block hdr s" and b: "heap_budget k s" and f: "free_behind s"
    and nd: "vnodes s node = Some (tarfs_node ''/'' no (of_nat lim) VFS_NODE_TYPE_DIRE base)" "node \<noteq> 0" "base \<noteq> 0"
    and lim: "lim < 2 ^ 31" "off + 512 \<le> lim" "unat base + lim \<le> unat (kh_start s)"
  obtains r s' where "read_from_vfs_node (tarfs_files other) node (of_nat off) TARFS_HDR_SIZE hdr s = Some (r, s')"
    "hdr_frame hdr 512 s s'" "heap_budget k s'" "load_bytes hdr 512 (kh_bytes s') = load_bytes (base + of_nat off) 512 (kh_bytes s)"
proof -
  have wf: "wf_heap s" using b by (simp add: heap_budget_def)
  have u: "unat (of_nat off :: u32) = off" "unat (of_nat lim :: u32) = lim" using lim by (simp_all add: unat_of_nat take_bit_nat_eq_self)
  let ?len = "if of_nat lim - 1 < of_nat off + TARFS_HDR_SIZE then of_nat lim - of_nat off else TARFS_HDR_SIZE :: u32"
  have v: "unat (of_nat lim - 1 :: u32) = lim - 1" "unat (of_nat off + TARFS_HDR_SIZE) = off + 512" "unat (of_nat lim - of_nat off :: u32) = lim - off"
    using u lim by (simp_all add: unat_sub word_le_nat_alt TARFS_HDR_SIZE_def unat_word_ariths)
  have len: "?len = 512" using v lim(2) by (auto simp: word_less_nat_alt TARFS_HDR_SIZE_def intro!: word_eqI_unat)
  let ?m = "memcpy_8 hdr (base + of_nat off) 512 (kh_bytes s)"
  have low: "unat (base + of_nat off + of_nat j) < unat (kh_start s)" if "j < 512" for j
  proof -
    have "unat (base + of_nat off + of_nat j) = unat base + off + j"
      using that u lim unat_u32_less[of "kh_start s"] by (simp add: unat_word_ariths unat_of_nat take_bit_nat_eq_self)
    then show ?thesis using that lim by simp
  qed
  have ap: "\<forall>j<unat (512 :: u32). \<not> base + of_nat off + of_nat j - hdr < 512"
    using low low_owned(2)[OF wf blk] by (fastforce simp: word_less_nat_alt)
  have m: "?m x = (if unat (x - hdr) < 512 then kh_bytes s (base + of_nat off + (x - hdr)) else kh_bytes s x)" for x
    unfolding memcpy_8_apply[OF ap] by (simp add: word_less_nat_alt)
  have "read_node_tarfs node (of_nat off) TARFS_HDR_SIZE hdr s = Some (sint ?len, s\<lparr>kh_bytes := memcpy_8 hdr (base + of_nat off) ?len (kh_bytes s)\<rparr>)"
    using nd by (simp add: read_node_tarfs_def tarfs_node_def Let_def)
  then have rn: "read_node_tarfs node (of_nat off) TARFS_HDR_SIZE hdr s = Some (sint (512 :: u32), s\<lparr>kh_bytes := ?m\<rparr>)" unfolding len .
  have "\<not> TARFS_HDR_SIZE <s 0" by (simp add: TARFS_HDR_SIZE_def word_sless_alt)
  then have "read_from_vfs_node (tarfs_files other) node (of_nat off) TARFS_HDR_SIZE hdr s = Some (sint (512 :: u32), s\<lparr>kh_bytes := ?m\<rparr>)"
    using nd hdr_block_area(3)[OF wf blk, of hdr] rn by (simp add: read_from_vfs_node_def tarfs_files_def tarfs_node_def)
  moreover have "hdr_frame hdr 512 s (s\<lparr>kh_bytes := ?m\<rparr>)" by (rule hdr_frame_bytes[OF f]) (simp add: m)
  moreover have "load_bytes hdr 512 ?m = load_bytes (base + of_nat off) 512 (kh_bytes s)"
    by (rule load_bytes_cong) (simp add: m unat_of_nat take_bit_nat_eq_self)
  ultimately show ?thesis using that b by (simp add: heap_budget_def)
qed

text \<open>An allocation keeps what is owned.\<close>

lemma malloc_owned:
  assumes b: "heap_budget (4096 + k) s" and n: "unat n \<le> 4000"
  obtains p m s' where "kern_malloc n s = Some (p, s')" "p \<noteq> 0" "p \<notin> kern_live s" "n \<le> m" "heap_live s' = insert (p, m) (heap_live s)"
    "heap_budget k s'" "vm.more s' = vm.more s" "kh_start s' = kh_start s" "\<forall>x. owned s x \<longrightarrow> kh_bytes s' x = kh_bytes s x"
    "\<forall>x. unat x \<in> area (p, m) \<longrightarrow> kh_bytes s' x = 0" "heap_full s \<longrightarrow> heap_full s'"
proof -
  have bc: "heap_budget (alloc_cost n + k) s" using b alloc_cost_small[OF n] by simp
  from kern_malloc_budget[OF bc] n obtain p s' where s': "kern_malloc n s = Some (p, s')" "heap_allocated s n p s'" "heap_budget k s'"
    "vm.more s' = vm.more s" by auto
  obtain m where m: "wf_heap s'" "p \<noteq> 0" "p \<notin> kern_live s" "n \<le> m" "heap_live s' = insert (p, m) (heap_live s)"
    "\<forall>b\<in>heap_live s. area b \<inter> area (p, m) = {}" "\<forall>x. kh_bytes s' x = (if unat x \<in> area (p, m) then 0 else kh_bytes s x)"
    using s'(2) by (auto simp: heap_allocated_def kern_live_def)
  have st: "kh_start s' = kh_start s" using kern_malloc_effect[OF s'(1)] by simp
  have keep: "kh_bytes s' x = kh_bytes s x" if x: "owned s x" for x
  proof -
    have "unat x \<notin> area (p, m)" using x m(6) live_area_range(1)[OF m(1), of "(p, m)" "unat x"] m(5) st by (auto simp: owned_def)
    then show ?thesis using m(7) by simp
  qed
  have "unat n < 2 ^ 31" using n by simp
  note full = malloc_full(1)[OF bc this _ s'(1)]
  show ?thesis by (rule that[OF s'(1) m(2-5) s'(3,4) st]) (use keep m(7) full in auto)
qed

text \<open>One round of the search: the header at \<open>off\<close> is read and its name parsed.\<close>

lemma search_round:
  fixes s s0 :: "'z devfs_scheme"
  assumes blk: "hdr_block hdr s0" and b: "heap_budget (4096 + k) s" and fr: "hdr_frame hdr 512 s0 s"
    and nd: "vnodes s0 node = Some (tarfs_node ''/'' no (of_nat lim) VFS_NODE_TYPE_DIRE base)" "node \<noteq> 0" "base \<noteq> 0"
    and lim: "lim < 2 ^ 31" "off + 512 \<le> lim" "unat base + lim \<le> unat (kh_start s0)"
    and e: "tar_at base off ((path, n) # es) s0"
  obtains r s1 s2 where "read_from_vfs_node (tarfs_files other) node (of_nat off) TARFS_HDR_SIZE hdr s = Some (r, s1)"
    "hdr_magic_ok hdr s1" "get_file_size_tarfs (hdr_size hdr s1) = of_nat n" "vnodes s1 = vnodes s0"
    "check_parse_filename hdr ''/'' s1 = Some (if path = ''/'' then 1 else if root_child path then 0 else -1, s2)"
    "root_child path \<longrightarrow> hdr_name hdr s2 = Some (tail_name (strip path))" "hdr_frame hdr 512 s0 s2" "heap_budget k s2"
    "hdr_size hdr s2 = hdr_size (base + of_nat off) s0" "hdr_typeflag hdr s2 = hdr_typeflag (base + of_nat off) s0"
proof -
  have f: "free_behind s" "vm.more s = vm.more s0" "kh_start s = kh_start s0" "heap_live s = heap_live s0" using fr by (auto simp: hdr_frame_def)
  have wf: "wf_heap s" using b by (simp add: heap_budget_def)
  have blk1: "hdr_block hdr s" using blk f(4) by (simp add: hdr_block_def)
  have nd1: "vnodes s node = Some (tarfs_node ''/'' no (of_nat lim) VFS_NODE_TYPE_DIRE base)" using nd(1) vfs_more[OF f(2)] by simp
  obtain r s1 where s1: "read_from_vfs_node (tarfs_files other) node (of_nat off) TARFS_HDR_SIZE hdr s = Some (r, s1)"
    "hdr_frame hdr 512 s s1" "heap_budget (4096 + k) s1" "load_bytes hdr 512 (kh_bytes s1) = load_bytes (base + of_nat off) 512 (kh_bytes s)"
    by (rule read_header[OF blk1 b f(1) nd1 nd(2,3) lim(1,2)]) (use lim(3) f(3) in simp_all)
  have low: "kh_bytes s (base + of_nat off + of_nat j) = kh_bytes s0 (base + of_nat off + of_nat j)" if j: "j < 512" for j
  proof -
    have "unat (base + of_nat off + of_nat j) = unat base + off + j"
      using j lim unat_u32_less[of "kh_start s0"] by (simp add: unat_word_ariths unat_of_nat take_bit_nat_eq_self)
    then have "unat (base + of_nat off + of_nat j) < unat (kh_start s)" using j lim f(3) by simp
    from low_owned[OF wf blk1 this] have "owned s (base + of_nat off + of_nat j)" "512 \<le> unat (base + of_nat off + of_nat j - hdr)" .
    then show ?thesis using fr hdr_frame_owned[OF fr] by (simp add: hdr_frame_def)
  qed
  have "load_bytes hdr 512 (kh_bytes s1) = load_bytes (base + of_nat off) 512 (kh_bytes s0)"
    unfolding s1(4) by (rule load_bytes_cong) (rule low)
  note fields = header_fields[OF this]
  have fr1: "hdr_frame hdr 512 s0 s1" using hdr_frame_trans[OF fr s1(2)] by simp
  then have st: "free_behind s1" "vm.more s1 = vm.more s0" "hdr_block hdr s1" using blk by (auto simp: hdr_frame_def hdr_block_def)
  have pth: "hdr_path hdr path s1" "path \<noteq> []" "hd path = CHR ''/''" using e fields(1) by auto
  obtain s2 where s2: "check_parse_filename hdr ''/'' s1 = Some (if path = ''/'' then 1 else if root_child path then 0 else -1, s2)"
    "hdr_frame hdr 100 s1 s2" "heap_budget k s2" "root_child path \<longrightarrow> hdr_name hdr s2 = Some (tail_name (strip path))"
    by (rule check_parse_root[OF pth st(3) s1(3) st(1)])
  have "wf_heap s1" using s1(3) by (simp add: heap_budget_def)
  note tl = header_tail[OF this st(3) s2(2)]
  have "hdr_frame hdr 512 s0 s2" using hdr_frame_trans[OF fr1 s2(2)] by simp
  then show ?thesis
    by (intro that[OF s1(1) _ _ _ s2(1) s2(4) _ s2(3)]) (use e fields tl vfs_more[OF st(2)] in auto)
qed

lemma header_owned:
  assumes "wf_heap s" "hdr_block hdr s" "\<And>x. owned s x \<Longrightarrow> kh_bytes s' x = kh_bytes s x"
  shows "load_bytes hdr 512 (kh_bytes s') = load_bytes hdr 512 (kh_bytes s)"
proof (rule load_bytes_cong)
  fix i :: nat assume "i < 512"
  then have "unat (hdr + of_nat i - hdr) < 512" by (simp add: unat_of_nat take_bit_nat_eq_self)
  then show "kh_bytes s' (hdr + of_nat i) = kh_bytes s (hdr + of_nat i)" using assms(3) hdr_block_area(1)[OF assms(1,2)] by blast
qed

lemma of_nat_pos_u32: "n < 2 ^ 31 \<Longrightarrow> 0 < (of_nat n :: u32) \<longleftrightarrow> n \<noteq> 0"
  by (simp add: word_less_nat_alt unat_of_nat take_bit_nat_eq_self)

text \<open>The search finds the first entry of the root directory with the name.\<close>

lemma find_loop:
  fixes s s0 :: "'z devfs_scheme"
  assumes blk: "hdr_block hdr s0" and nd: "vnodes s0 node = Some (tarfs_node ''/'' no (of_nat lim) VFS_NODE_TYPE_DIRE base)" "node \<noteq> 0" "base \<noteq> 0"
    and lim: "lim < 2 ^ 31" "unat base + lim \<le> unat (kh_start s0)"
    and hit: "root_child path" "tail_name (strip path) = nm" "path \<noteq> ''/''"
  shows "hdr_frame hdr 512 s0 s \<Longrightarrow> heap_budget (4096 * (length pre + 2) + k) s \<Longrightarrow> tar_at base off (pre @ (path, n) # es) s0 \<Longrightarrow>
    off mod 512 = 0 \<Longrightarrow> off + tar_len (pre @ (path, n) # es) + 512 \<le> lim \<Longrightarrow> tar_align address = of_nat off \<Longrightarrow>
    \<forall>e\<in>set pre. \<not> (root_child (fst e) \<and> tail_name (strip (fst e)) = nm) \<Longrightarrow>
    \<exists>fp m s'. find_in_directory_loop (tarfs_files other) node hdr nm address s =
        Some (Some (fp, if n = 0 then base else base + of_nat (off + tar_len pre + 512)), s') \<and>
      fp \<noteq> 0 \<and> fp \<notin> kern_live s0 \<and> heap_live s' = insert (fp, m) (heap_live s0) \<and> heap_budget k s' \<and> vm.more s' = vm.more s0 \<and>
      kh_start s' = kh_start s0 \<and> (\<forall>x. owned s0 x \<longrightarrow> 512 \<le> unat (x - hdr) \<longrightarrow> kh_bytes s' x = kh_bytes s0 x) \<and>
      hdr_name hdr s' = Some nm \<and> hdr_size hdr s' = hdr_size (base + of_nat (off + tar_len pre)) s0 \<and>
      hdr_typeflag hdr s' = hdr_typeflag (base + of_nat (off + tar_len pre)) s0"
proof (induction pre arbitrary: off address s)
  case Nil
  let ?q = "base + of_nat off"
  have al: "tar_align address = of_nat off" "off + 512 \<le> lim" using Nil by (auto simp: entry_len_def)
  have b: "heap_budget (4096 + (4096 + k)) s" using Nil(2) by simp
  have e: "tar_at base off ((path, n) # es) s0" using Nil(3) by simp
  obtain r s1 s2 where rd: "read_from_vfs_node (tarfs_files other) node (of_nat off) TARFS_HDR_SIZE hdr s = Some (r, s1)"
    "hdr_magic_ok hdr s1" "get_file_size_tarfs (hdr_size hdr s1) = of_nat n" "vnodes s1 = vnodes s0"
    "check_parse_filename hdr ''/'' s1 = Some (if path = ''/'' then 1 else if root_child path then 0 else -1, s2)"
    "root_child path \<longrightarrow> hdr_name hdr s2 = Some (tail_name (strip path))" "hdr_frame hdr 512 s0 s2" "heap_budget (4096 + k) s2"
    "hdr_size hdr s2 = hdr_size ?q s0" "hdr_typeflag hdr s2 = hdr_typeflag ?q s0"
    by (rule search_round[OF blk b Nil(1) nd lim(1) al(2) lim(2) e])
  obtain fp m s3 where s3: "kern_malloc 8 s2 = Some (fp, s3)" "fp \<noteq> 0" "fp \<notin> kern_live s2" "heap_live s3 = insert (fp, m) (heap_live s2)"
    "heap_budget k s3" "vm.more s3 = vm.more s2" "kh_start s3 = kh_start s2" "\<forall>x. owned s2 x \<longrightarrow> kh_bytes s3 x = kh_bytes s2 x"
    by (rule malloc_owned[OF rd(8), of 8]) auto
  have f2: "heap_live s2 = heap_live s0" "vm.more s2 = vm.more s0" "kh_start s2 = kh_start s0" "owned s2 = owned s0" "hdr_block hdr s2"
    using rd(7) hdr_frame_owned[OF rd(7)] blk by (auto simp: hdr_frame_def hdr_block_def)
  have "wf_heap s2" using rd(8) by (simp add: heap_budget_def)
  note ld = header_owned[OF this f2(5) s3(8)[rule_format]]
  have hf: "hdr_name hdr s3 = Some nm" "hdr_size hdr s3 = hdr_size ?q s0" "hdr_typeflag hdr s3 = hdr_typeflag ?q s0"
    using header_fields[OF ld] rd(6,9,10) hit ld by (simp_all add: hdr_name_def)
  have vn: "vnodes s3 = vnodes s0" using vfs_more[OF trans[OF s3(6) f2(2)]] by simp
  have n: "n < 2 ^ 31" using e by simp
  have fc: "file_contents node (of_nat off) (of_nat n) s3 = Some (if n = 0 then base else base + of_nat (off + tar_len [] + 512))"
    using vn nd(1) of_nat_pos_u32[OF n] by (simp add: file_contents_def tarfs_node_def TARFS_HDR_SIZE_def add.commute)
  have "find_in_directory_loop (tarfs_files other) node hdr nm address s =
      Some (Some (fp, if n = 0 then base else base + of_nat (off + tar_len [] + 512)), s3)"
    by (subst find_in_directory_loop.simps)
       (use al rd nd(1) hit s3(1,2) fc in \<open>simp add: Let_def strcmp_eq tarfs_node_def\<close>)
  moreover have "\<forall>x. owned s0 x \<longrightarrow> 512 \<le> unat (x - hdr) \<longrightarrow> kh_bytes s3 x = kh_bytes s0 x"
    using rd(7) s3(8) f2(4) by (simp add: hdr_frame_def)
  moreover have "fp \<notin> kern_live s0" using s3(3) f2(1) by (simp add: kern_live_def)
  ultimately show ?case using s3(2,4-7) f2 hf by (intro exI[of _ fp] exI[of _ m] exI[of _ s3]) simp
next
  case (Cons e pre)
  obtain q l where eq: "e = (q, l)" by (cases e)
  have al: "tar_align address = of_nat off" "off + 512 \<le> lim" using Cons.prems by (auto simp: entry_len_def)
  have b: "heap_budget (4096 + (4096 * (length pre + 2) + k)) s" using Cons.prems(2) by (simp add: add.assoc)
  have e: "tar_at base off ((q, l) # (pre @ (path, n) # es)) s0" using Cons.prems(3) eq by simp
  obtain r s1 s2 where rd: "read_from_vfs_node (tarfs_files other) node (of_nat off) TARFS_HDR_SIZE hdr s = Some (r, s1)"
    "hdr_magic_ok hdr s1" "get_file_size_tarfs (hdr_size hdr s1) = of_nat l" "vnodes s1 = vnodes s0"
    "check_parse_filename hdr ''/'' s1 = Some (if q = ''/'' then 1 else if root_child q then 0 else -1, s2)"
    "root_child q \<longrightarrow> hdr_name hdr s2 = Some (tail_name (strip q))" "hdr_frame hdr 512 s0 s2" "heap_budget (4096 * (length pre + 2) + k) s2"
    by (rule search_round[OF blk b Cons.prems(1) nd lim(1) al(2) lim(2) e])
  have "q \<noteq> ''/'' \<and> root_child q \<longrightarrow> tail_name (strip q) \<noteq> nm" using Cons.prems(7) eq by simp
  then have run: "find_in_directory_loop (tarfs_files other) node hdr nm address s =
      find_in_directory_loop (tarfs_files other) node hdr nm (of_nat off + (TARFS_HDR_SIZE + of_nat l)) s2"
    by (subst find_in_directory_loop.simps) (use al rd(1-6) nd(1) in \<open>auto simp: Let_def strcmp_eq tarfs_node_def\<close>)
  have next1: "tar_align (of_nat off + (TARFS_HDR_SIZE + of_nat l)) = of_nat (off + entry_len e)"
    unfolding eq by (rule tar_align_next) (use Cons.prems lim(1) eq in auto)
  have tar: "tar_at base (off + entry_len e) (pre @ (path, n) # es) s0" using e eq by simp
  have len: "off + entry_len e + tar_len (pre @ (path, n) # es) + 512 \<le> lim" using Cons.prems(5) by simp
  have rest: "(off + entry_len e) mod 512 = 0" "\<forall>e\<in>set pre. \<not> (root_child (fst e) \<and> tail_name (strip (fst e)) = nm)"
    using Cons.prems(4,7) by simp_all
  from Cons.IH[OF rd(7,8) tar rest(1) len next1 rest(2)] show ?case unfolding run by (simp only: tar_len_simps add.assoc)
qed

subsection \<open>Finding a file\<close>

text \<open>Memory below the heap is left alone.\<close>

definition low_same :: "'z vm_scheme \<Rightarrow> 'z vm_scheme \<Rightarrow> bool" where
  "low_same s s' \<longleftrightarrow> kh_start s' = kh_start s \<and> (\<forall>x. unat x < unat (kh_start s) \<longrightarrow> kh_bytes s' x = kh_bytes s x)"

lemma low_same_trans: "low_same s s' \<Longrightarrow> low_same s' s'' \<Longrightarrow> low_same s s''"
  by (simp add: low_same_def)

lemma low_same_owned: "kh_start s' = kh_start s \<Longrightarrow> (\<And>x. owned s x \<Longrightarrow> kh_bytes s' x = kh_bytes s x) \<Longrightarrow> low_same s s'"
  by (simp add: low_same_def owned_def)

text \<open>Writing inside a block in use leaves the memory below the heap alone.\<close>

lemma low_same_write:
  assumes wf: "wf_heap s" and p: "(p, m) \<in> heap_live s" and n: "0 < n" "n \<le> unat m" and w: "\<And>x. n \<le> unat (x - p) \<Longrightarrow> f x = kh_bytes s x"
  shows "low_same s (s\<lparr>kh_bytes := f\<rparr>)"
proof -
  have "f x = kh_bytes s x" if x: "unat x < unat (kh_start s)" for x
  proof (rule w, rule ccontr)
    assume lt: "\<not> n \<le> unat (x - p)"
    have "unat (kh_start s) < unat p" using live_area_range(1)[OF wf p, of "unat p"] n by (simp add: area_def)
    moreover have "unat p + unat m - 1 \<in> area (p, m)" using n by (simp add: area_def)
    from live_area_range(2)[OF wf p this] have "unat p + unat m \<le> 2 ^ 32" using unat_u32_less[of "kh_end s"] by simp
    ultimately show False using word_sub_less_iff[of p m x] lt n(2) x by (simp add: word_less_nat_alt)
  qed
  then show ?thesis by (simp add: low_same_def)
qed

lemma load_low:
  assumes "low_same s s'" "unat base + off + 512 \<le> unat (kh_start s)"
  shows "load_bytes (base + of_nat off) 512 (kh_bytes s') = load_bytes (base + of_nat off) 512 (kh_bytes s)"
proof (rule load_bytes_cong)
  fix i :: nat assume i: "i < 512"
  have "unat (base + of_nat off + of_nat i) = unat base + off + i"
    using assms(2) i unat_u32_less[of "kh_start s"] by (simp add: unat_word_ariths unat_of_nat take_bit_nat_eq_self)
  then show "kh_bytes s' (base + of_nat off + of_nat i) = kh_bytes s (base + of_nat off + of_nat i)"
    using assms i by (simp add: low_same_def)
qed

lemma tar_at_low:
  assumes low: "low_same s s'" and lim: "unat base + off + tar_len es + 512 \<le> unat (kh_start s)"
  shows "tar_at base off es s' = tar_at base off es s"
  using lim
proof (induction es arbitrary: off)
  case Nil
  then show ?case using header_fields(3)[OF load_low[OF low, of base off]] by simp
next
  case (Cons e es)
  obtain q l where e: "e = (q, l)" by (cases e)
  have "unat base + (off + entry_len e) + tar_len es + 512 \<le> unat (kh_start s)" using Cons.prems by simp
  then show ?case using Cons.IH[of "off + entry_len e"] header_fields[OF load_low[OF low, of base off]] Cons.prems e by simp
qed

text \<open>
  The blocks that the lookup of a name allocates first: one for the name, and the header. The name is copied with the
  slash in front of it, and the zero that ends it is there because the block is cleared.
\<close>

lemma find_prepare:
  fixes s :: "'z devfs_scheme"
  assumes b: "heap_budget (4096 + (4096 + k)) s" and full: "heap_full s" and nm: "component nm" "length nm < 99"
  obtains tmp s1 buf s2 header s3 where "kern_malloc (word_of_int (strlen (CHR ''/'' # nm) + 1)) s = Some (tmp, s1)" "tmp \<noteq> 0"
    "strncpy (load_bytes tmp (length nm + 2) (kh_bytes s1)) (CHR ''/'' # nm) (int (length nm)) = Some buf" "c_string (tl buf) = Some nm"
    "s2 = s1\<lparr>kh_bytes := write_string tmp buf (kh_bytes s1)\<rparr>" "kern_malloc TARFS_HDR_SIZE s2 = Some (header, s3)"
    "let s4 = s3\<lparr>kh_bytes := memset_8 header 0 TARFS_HDR_SIZE (kh_bytes s3)\<rparr> in
       hdr_block header s4 \<and> heap_budget k s4 \<and> hdr_frame header 512 s4 s4 \<and> vm.more s4 = vm.more s \<and> low_same s s4 \<and> kern_live s \<subseteq> kern_live s4"
proof -
  let ?n = "word_of_int (strlen (CHR ''/'' # nm) + 1) :: u32"
  have un: "unat ?n = length nm + 2" using nm(2) by (simp add: strlen_length unat_word_ariths unat_of_nat take_bit_nat_eq_self)
  then have small: "unat ?n \<le> 4000" using nm(2) by simp
  obtain tmp m s1 where s1: "kern_malloc ?n s = Some (tmp, s1)" "tmp \<noteq> 0" "?n \<le> m" "heap_live s1 = insert (tmp, m) (heap_live s)"
    "heap_budget (4096 + k) s1" "vm.more s1 = vm.more s" "kh_start s1 = kh_start s" "\<forall>x. owned s x \<longrightarrow> kh_bytes s1 x = kh_bytes s x"
    "\<forall>x. unat x \<in> area (tmp, m) \<longrightarrow> kh_bytes s1 x = 0" "heap_full s \<longrightarrow> heap_full s1"
    by (rule malloc_owned[OF b small])
  have wf1: "wf_heap s1" and tm: "(tmp, m) \<in> heap_live s1" "length nm + 2 \<le> unat m"
    using s1(3-5) un by (auto simp: heap_budget_def word_le_nat_alt)
  let ?ld = "load_bytes tmp (length nm + 2) (kh_bytes s1)" and ?i = "of_nat (length nm + 1) :: u32"
  have ui: "unat ?i = length nm + 1" using nm(2) unat_of_nat[where 'a = 32, of "length nm + 1"] by (simp add: take_bit_nat_eq_self)
  have "?i \<le> m" using ui tm(2) by (simp add: word_le_nat_alt)
  from behind_not_owned(1)[OF wf1 tm(1) this] have "unat (tmp + ?i) = unat tmp + (length nm + 1)" using ui by simp
  then have "kh_bytes s1 (tmp + ?i) = 0" using tm(2) by (intro s1(9)[rule_format]) (simp add: area_def)
  then have z: "?ld ! (length nm + 1) = NUL" using char_byte(3)[of 0] by simp
  define buf where "buf = CHR ''/'' # nm @ [NUL]"
  have "drop (Suc (length nm)) ?ld = [?ld ! (length nm + 1)]" by (intro nth_equalityI) auto
  then have cp: "strncpy ?ld (CHR ''/'' # nm) (int (length nm)) = Some buf" using z by (simp add: strncpy_eq Let_def buf_def)
  have cs: "c_string (tl buf) = Some nm" using c_string_nul[of nm "[]"] nm(1) by (simp add: buf_def component_def cstring_def)
  define s2 where "s2 = s1\<lparr>kh_bytes := write_string tmp buf (kh_bytes s1)\<rparr>"
  have w: "write_string tmp buf (kh_bytes s1) x = kh_bytes s1 x" if "length nm + 2 \<le> unat (x - tmp)" for x
    using that nm(2) write_string_apply[of buf tmp "kh_bytes s1" x] by (simp add: buf_def)
  have lo2: "low_same s1 s2" unfolding s2_def by (rule low_same_write[OF wf1 tm(1) _ tm(2)]) (use w in auto)
  have s2: "heap_budget (4096 + k) s2" "heap_full s2" "heap_live s2 = heap_live s1" "vm.more s2 = vm.more s1"
    using s1(5,10) full by (simp_all add: s2_def heap_budget_def heap_full_def)
  obtain header h s3 where s3: "kern_malloc TARFS_HDR_SIZE s2 = Some (header, s3)" "TARFS_HDR_SIZE \<le> h"
    "heap_live s3 = insert (header, h) (heap_live s2)" "heap_budget k s3" "vm.more s3 = vm.more s2" "kh_start s3 = kh_start s2"
    "\<forall>x. owned s2 x \<longrightarrow> kh_bytes s3 x = kh_bytes s2 x" "heap_full s2 \<longrightarrow> heap_full s3"
    by (rule malloc_owned[OF s2(1), of TARFS_HDR_SIZE]) (auto simp: TARFS_HDR_SIZE_def)
  define s4 where "s4 = s3\<lparr>kh_bytes := memset_8 header 0 TARFS_HDR_SIZE (kh_bytes s3)\<rparr>"
  have wf3: "wf_heap s3" and hb: "(header, h) \<in> heap_live s3" "512 \<le> unat h"
    using s3(2-4) by (auto simp: heap_budget_def TARFS_HDR_SIZE_def word_le_nat_alt)
  have "memset_8 header 0 TARFS_HDR_SIZE (kh_bytes s3) x = kh_bytes s3 x" if "512 \<le> unat (x - header)" for x
    using that by (simp add: memset_8_apply TARFS_HDR_SIZE_def word_less_nat_alt)
  then have lo4: "low_same s3 s4" unfolding s4_def by (intro low_same_write[OF wf3 hb(1) _ hb(2)]) auto
  have "low_same s s4"
    using low_same_trans[OF low_same_owned[OF s1(7) s1(8)[rule_format]] low_same_trans[OF lo2 low_same_trans[OF low_same_owned[OF s3(6) s3(7)[rule_format]] lo4]]] .
  moreover have "free_behind s3" using s3(8) s2(2) full_behind by blast
  then have "hdr_frame header 512 s4 s4" by (simp add: hdr_frame_def s4_def free_behind_def)
  moreover have "heap_live s4 = heap_live s3" "vm.more s4 = vm.more s3" "heap_budget k s4 = heap_budget k s3"
    by (simp_all add: s4_def heap_budget_def)
  moreover from this have "hdr_block header s4" unfolding hdr_block_def using hb by metis
  moreover have "heap_live s \<subseteq> heap_live s3" using s3(3) s2(3) s1(4) by blast
  then have "kern_live s \<subseteq> kern_live s4" unfolding kern_live_def using calculation(3) by auto
  moreover have "vm.more s3 = vm.more s" using s3(5) s2(4) s1(6) by simp
  ultimately show ?thesis using s3(4) by (intro that[OF s1(1,2) cp cs s2_def s3(1)]) (simp only: Let_def s4_def[symmetric] simp_thms)
qed

lemma tar_at_skip: "tar_at base off (pre @ es) s \<Longrightarrow> tar_at base (off + tar_len pre) es s"
  by (induction pre arbitrary: off) (force simp: add.assoc)+

text \<open>The node for a file, built from the header behind the search; the block for the file is freed again.\<close>

lemma build_found:
  fixes s :: "'z devfs_scheme"
  assumes b: "heap_budget (4096 + k) s" and blk: "hdr_block header s" and nm: "hdr_name header s = Some nm"
    and fp: "fp \<in> kern_live s"
  obtains q s1 s2 where "build_node_tarfs header contents s = Some (q, s1)" "kern_free fp s1 = Some s2" "q \<noteq> 0" "q \<notin> kern_live s"
    "vnodes s2 = (vnodes s)(q \<mapsto> tarfs_node nm 0 (get_file_size_tarfs (hdr_size header s)) (get_type_flags (hdr_typeflag header s)) contents)"
    "heap_budget k s2" "low_same s s2" "insert q (kern_live s) - {fp} \<subseteq> kern_live s2"
proof -
  obtain q m s1 where s1: "kern_malloc sizeof_vnode s = Some (q, s1)" "q \<noteq> 0" "q \<notin> kern_live s" "heap_live s1 = insert (q, m) (heap_live s)"
    "heap_budget k s1" "vm.more s1 = vm.more s" "kh_start s1 = kh_start s" "\<forall>x. owned s x \<longrightarrow> kh_bytes s1 x = kh_bytes s x"
    by (rule malloc_owned[OF b, of sizeof_vnode]) (auto simp: sizeof_vnode_def)
  have wf: "wf_heap s" using b by (simp add: heap_budget_def)
  have ld: "load_bytes header 512 (kh_bytes s1) = load_bytes header 512 (kh_bytes s)"
    using s1(8) by (intro header_owned[OF wf blk]) blast
  note fields = header_fields(2,4)[OF ld]
  have nm1: "hdr_name header s1 = Some nm" using nm ld by (simp add: hdr_name_def)
  let ?nd = "tarfs_node nm 0 (get_file_size_tarfs (hdr_size header s)) (get_type_flags (hdr_typeflag header s)) contents"
  define s2 where "s2 = s1\<lparr>vnodes := (vnodes s)(q \<mapsto> ?nd)\<rparr>"
  have run: "build_node_tarfs header contents s = Some (q, s2)"
    using s1(1,2) nm1 fields vfs_more[OF s1(6)] by (simp add: build_node_tarfs_def s2_def)
  have "fp \<in> kern_live s2" "heap_budget k s2" and l2: "kern_live s2 = insert q (kern_live s)"
    using fp s1(4,5) by (auto simp: s2_def kern_live_def)
  then obtain s3 where s3: "kern_free fp s2 = Some s3" "heap_budget k s3" "vm.more s3 = vm.more s2" "kern_live s3 = kern_live s2 - {fp}"
    using kern_free_budget by blast
  have "kh_bytes s3 = kh_bytes s1" "kh_start s3 = kh_start s1"
    using s3(1) by (auto simp: kern_free_def heap_free_def s2_def Let_def split: option.splits)
  then have "low_same s s3" using low_same_owned[OF s1(7) s1(8)[rule_format]] by (simp add: low_same_def)
  moreover have "vnodes s3 = (vnodes s)(q \<mapsto> ?nd)" using vfs_more[OF s3(3)] by (simp add: s2_def)
  ultimately show ?thesis using that[OF run s3(1) s1(2,3)] s3(2,4) l2 by blast
qed

lemma tail_component:
  assumes at: "tar_at base off ((path, n) # es) s" and hit: "root_child path"
  shows "component (tail_name (strip path))" "length (tail_name (strip path)) < 99"
proof -
  have pth: "cstring path" "length path < 99" using at by (auto simp: hdr_path_def)
  obtain a where "strip path = CHR ''/'' # a" using strip_root[of path] at hit by (auto simp: root_child_def)
  then have "CHR ''/'' \<in> set (strip path)" by simp
  then obtain w where w: "strip path = w @ CHR ''/'' # tail_name (strip path)" "CHR ''/'' \<notin> set (tail_name (strip path))"
    using tail_name_split[of "strip path"] by blast
  have "set (tail_name (strip path)) \<subseteq> set (strip path)" "length (tail_name (strip path)) \<le> length (strip path)"
    using arg_cong[OF w(1), of set] arg_cong[OF w(1), of length] by auto
  then show "component (tail_name (strip path))" "length (tail_name (strip path)) < 99"
    using cstring_strip(1)[OF pth(1)] cstring_strip(2)[of path] pth(2) w(2) by (auto simp: component_def cstring_def)
qed

lemma find_file:
  fixes s :: "'z devfs_scheme"
  assumes root: "tar_root node base lim (pre @ (path, n) # es) s" and full: "heap_full s" and b: "heap_budget (4096 * (length pre + 5) + k) s"
    and hit: "root_child path" "tail_name (strip path) = nm" "nm \<noteq> []"
    and first: "\<forall>e\<in>set pre. \<not> (root_child (fst e) \<and> tail_name (strip (fst e)) = nm)"
  obtains q s' where "find_in_directory_tarfs (tarfs_files other) node (CHR ''/'' # nm) s = Some (q, s')" "q \<noteq> 0" "q \<notin> kern_live s"
    "vnodes s' = (vnodes s)(q \<mapsto> tarfs_node nm 0 (of_nat n) (get_type_flags (hdr_typeflag (base + of_nat (tar_len pre)) s))
       (if n = 0 then base else base + of_nat (tar_len pre + 512)))"
    "heap_budget k s'" "low_same s s'" "kern_live s \<subseteq> kern_live s'"
proof -
  note rt = root[unfolded tar_root_def]
  obtain no where nd: "vnodes s node = Some (tarfs_node ''/'' no (of_nat lim) VFS_NODE_TYPE_DIRE base)" using rt by blast
  have tar: "tar_at base 0 (pre @ (path, n) # es) s" using rt by blast
  have at: "tar_at base (tar_len pre) ((path, n) # es) s" using tar_at_skip[OF tar] by (simp only: add_0)
  have nm: "component nm" "length nm < 99" using tail_component[OF at hit(1)] hit(2) by auto
  have b1: "heap_budget (4096 + (4096 + (4096 * (length pre + 2) + (4096 + k)))) s" using b by (simp add: algebra_simps)
  obtain tmp s1 buf s2 header s3 where pr: "kern_malloc (word_of_int (strlen (CHR ''/'' # nm) + 1)) s = Some (tmp, s1)" "tmp \<noteq> 0"
    "strncpy (load_bytes tmp (length nm + 2) (kh_bytes s1)) (CHR ''/'' # nm) (int (length nm)) = Some buf" "c_string (tl buf) = Some nm"
    "s2 = s1\<lparr>kh_bytes := write_string tmp buf (kh_bytes s1)\<rparr>" "kern_malloc TARFS_HDR_SIZE s2 = Some (header, s3)"
    and let4: "let s4 = s3\<lparr>kh_bytes := memset_8 header 0 TARFS_HDR_SIZE (kh_bytes s3)\<rparr> in
       hdr_block header s4 \<and> heap_budget (4096 * (length pre + 2) + (4096 + k)) s4 \<and> hdr_frame header 512 s4 s4 \<and> vm.more s4 = vm.more s \<and>
       low_same s s4 \<and> kern_live s \<subseteq> kern_live s4"
    by (rule find_prepare[OF b1 full nm])
  define s4 where "s4 = s3\<lparr>kh_bytes := memset_8 header 0 TARFS_HDR_SIZE (kh_bytes s3)\<rparr>"
  have s4: "hdr_block header s4" "heap_budget (4096 * (length pre + 2) + (4096 + k)) s4" "hdr_frame header 512 s4 s4" "vm.more s4 = vm.more s"
    "low_same s s4" "kern_live s \<subseteq> kern_live s4" using let4 unfolding Let_def s4_def[symmetric] by blast+
  have lim: "lim < 2 ^ 31" "tar_len (pre @ (path, n) # es) + 512 \<le> lim" "unat base + lim \<le> unat (kh_start s)" "node \<noteq> 0" "base \<noteq> 0"
    using rt by blast+
  have st: "kh_start s4 = kh_start s" using s4(5) by (simp add: low_same_def)
  have nd4: "vnodes s4 node = Some (tarfs_node ''/'' no (of_nat lim) VFS_NODE_TYPE_DIRE base)" using nd vfs_more[OF s4(4)] by simp
  have tar4: "tar_at base 0 (pre @ (path, n) # es) s4" using tar tar_at_low[OF s4(5), of base 0 "pre @ (path, n) # es"] lim by simp
  have ne: "path \<noteq> ''/''" using hit(1) by (simp add: root_child_def)
  have lim4: "unat base + lim \<le> unat (kh_start s4)" "0 + tar_len (pre @ (path, n) # es) + 512 \<le> lim" using lim st by simp_all
  have al: "tar_align 0 = of_nat 0" "(0 :: nat) mod 512 = 0" by (simp_all add: tar_align_def)
  define c where "c = (if n = 0 then base else base + of_nat (tar_len pre + 512))"
  have "\<exists>fp m s'. find_in_directory_loop (tarfs_files other) node header nm 0 s4 = Some (Some (fp, c), s') \<and>
      fp \<noteq> 0 \<and> fp \<notin> kern_live s4 \<and> heap_live s' = insert (fp, m) (heap_live s4) \<and> heap_budget (4096 + k) s' \<and> vm.more s' = vm.more s4 \<and>
      kh_start s' = kh_start s4 \<and> (\<forall>x. owned s4 x \<longrightarrow> 512 \<le> unat (x - header) \<longrightarrow> kh_bytes s' x = kh_bytes s4 x) \<and>
      hdr_name header s' = Some nm \<and> hdr_size header s' = hdr_size (base + of_nat (tar_len pre)) s4 \<and>
      hdr_typeflag header s' = hdr_typeflag (base + of_nat (tar_len pre)) s4"
    using find_loop[OF s4(1) nd4 lim(4,5) lim(1) lim4(1) hit(1,2) ne s4(3,2) tar4 al(2) lim4(2) al(1) first, of other] unfolding c_def add_0 .
  then obtain fp m s5 where fp: "fp \<notin> kern_live s4" and
    s5: "find_in_directory_loop (tarfs_files other) node header nm 0 s4 = Some (Some (fp, c), s5)"
    "heap_live s5 = insert (fp, m) (heap_live s4)" "heap_budget (4096 + k) s5" "vm.more s5 = vm.more s4" "kh_start s5 = kh_start s4"
    "\<forall>x. owned s4 x \<longrightarrow> 512 \<le> unat (x - header) \<longrightarrow> kh_bytes s5 x = kh_bytes s4 x" "hdr_name header s5 = Some nm"
    "hdr_size header s5 = hdr_size (base + of_nat (tar_len pre)) s4" "hdr_typeflag header s5 = hdr_typeflag (base + of_nat (tar_len pre)) s4"
    by blast
  have "wf_heap s4" using s4(2) by (simp add: heap_budget_def)
  then have low5: "low_same s4 s5" using s5(5,6) low_owned[OF _ s4(1)] by (simp add: low_same_def)
  have blk5: "hdr_block header s5" "fp \<in> kern_live s5" "kern_live s4 \<subseteq> kern_live s5" using s4(1) s5(2) by (auto simp: hdr_block_def kern_live_def)
  obtain q s6 s7 where s7: "build_node_tarfs header c s5 = Some (q, s6)" "kern_free fp s6 = Some s7" "q \<noteq> 0" "q \<notin> kern_live s5"
    "vnodes s7 = (vnodes s5)(q \<mapsto> tarfs_node nm 0 (get_file_size_tarfs (hdr_size header s5)) (get_type_flags (hdr_typeflag header s5)) c)"
    "heap_budget k s7" "low_same s5 s7" "insert q (kern_live s5) - {fp} \<subseteq> kern_live s7" by (rule build_found[OF s5(3) blk5(1) s5(7) blk5(2)])
  have at4: "get_file_size_tarfs (hdr_size (base + of_nat (tar_len pre)) s4) = of_nat n" using tar_at_skip[OF tar4] by simp
  have "load_bytes (base + of_nat (tar_len pre)) 512 (kh_bytes s4) = load_bytes (base + of_nat (tar_len pre)) 512 (kh_bytes s)"
    by (rule load_low[OF s4(5)]) (use lim in \<open>simp add: entry_len_def\<close>)
  note ty = header_fields(4)[OF this]
  have vn: "vnodes s7 = (vnodes s)(q \<mapsto> tarfs_node nm 0 (of_nat n) (get_type_flags (hdr_typeflag (base + of_nat (tar_len pre)) s)) c)"
    using s7(5) s5(8,9) at4 ty vfs_more[OF trans[OF s5(4) s4(4)]] by simp
  have tw: "takeWhile (\<lambda>c. c \<noteq> CHR ''/'') nm = nm" using nm(1) by (auto simp: takeWhile_eq_all_conv component_def)
  have "find_in_directory_tarfs_internal (tarfs_files other) node (CHR ''/'' # nm) nm s = Some (q, s7)"
    unfolding find_in_directory_tarfs_internal.simps Let_def tw
    using pr s5(1)[unfolded s4_def] s7(1,2) vn by (simp add: strcmp_eq tarfs_node_def del: strlen.simps)
  moreover have "strrchr (CHR ''/'' # nm) (CHR ''/'') = Some (CHR ''/'' # nm)"
    using strrchr_some[of "CHR ''/''" nm "[]"] nm(1) by (simp add: NUL_def component_def)
  ultimately have "find_in_directory_tarfs (tarfs_files other) node (CHR ''/'' # nm) s = Some (q, s7)"
    using lim(4) hit(3) by (simp add: find_in_directory_tarfs_def first_char_def strlen_length del: strrchr.simps)
  moreover have "q \<notin> kern_live s" using s7(4) blk5(3) s4(6) by blast
  moreover have "low_same s s7" using low_same_trans[OF s4(5) low_same_trans[OF low5 s7(7)]] .
  moreover have "kern_live s \<subseteq> kern_live s7" using s7(8) blk5(3) s4(6) fp by blast
  ultimately show ?thesis using that s7(3,6) vn unfolding c_def by blast
qed

subsection \<open>Through the virtual file system\<close>

lemma find_children_none:
  assumes "set ps \<subseteq> dom nds" "\<forall>p\<in>set ps. nd_name (the (nds p)) \<noteq> nm"
  shows "find_children nds nm ps (w, False) = Some (w, False)"
  using assms by (induction ps) (auto simp: strcmp_eq)

lemma tarfs_calls_sel:
  "call_finddir (tarfs_calls other) ''find_in_directory_tarfs'' = find_in_directory_tarfs (tarfs_files other)"
  "call_io (tarfs_calls other) = call_io (tarfs_files other)"
  by (simp_all add: tarfs_calls_def Let_def fun_eq_iff)

text \<open>An archive mounted as the root of the mount tree.\<close>

definition tar_mounted :: "ptr \<Rightarrow> gen_tree list \<Rightarrow> ptr \<Rightarrow> nat \<Rightarrow> tar_entry list \<Rightarrow> 'z devfs_scheme \<Rightarrow> bool" where
  "tar_mounted r ts base lim es s \<longleftrightarrow> tar_root r base lim es s \<and> vfs_wf s \<and> vfs_mountpoint_tree s = Some (GTree r ts)"

lemma tar_root_low:
  assumes "tar_root node base lim es s" "low_same s s'" "vnodes s' = vnodes s"
  shows "tar_root node base lim es s'"
  using assms tar_at_low[OF assms(2), of base 0 es] by (auto simp: tar_root_def low_same_def)

lemma vfs_find_file:
  fixes s :: "'z devfs_scheme"
  assumes m: "tar_mounted r ts base lim (pre @ (path, n) # es) s" and full: "heap_full s" and b: "heap_budget (4096 * (length pre + 7) + k) s"
    and hit: "root_child path" "tail_name (strip path) = nm" "nm \<noteq> []"
    and first: "\<forall>e\<in>set pre. \<not> (root_child (fst e) \<and> tail_name (strip (fst e)) = nm)"
    and free: "\<forall>c\<in>tdata ` set ts. nd_name (the (vnodes s c)) \<noteq> nm"
  obtains q s' where "vfs_find_node (tarfs_calls other) (Some (CHR ''/'' # nm)) s = Some (q, s')" "q \<noteq> 0" "q \<notin> kern_live s"
    "vnodes s' = (vnodes s)(q \<mapsto> tarfs_node nm 0 (of_nat n) (get_type_flags (hdr_typeflag (base + of_nat (tar_len pre)) s))
       (if n = 0 then base else base + of_nat (tar_len pre + 512)))"
    "heap_budget k s'" "low_same s s'"
proof -
  note mt = m[unfolded tar_mounted_def]
  have tar: "tar_at base 0 (pre @ (path, n) # es) s" using mt by (simp add: tar_root_def)
  have at: "tar_at base (tar_len pre) ((path, n) # es) s" using tar_at_skip[OF tar] by (simp only: add_0)
  have nm: "component nm" "length nm < 99" using tail_component[OF at hit(1)] hit(2) by auto
  let ?p = "CHR ''/'' # nm" and ?n = "of_nat (length (CHR ''/'' # nm) + 1) :: u32"
  have "unat ?n = length nm + 2" using nm(2) unat_of_nat[where 'a = 32, of "length nm + 2"] by (simp add: take_bit_nat_eq_self)
  then have n: "unat ?n \<le> 4000" using nm(2) by simp
  have b1: "heap_budget (4096 + (4096 + (4096 * (length pre + 5) + k))) s" using b by (simp add: algebra_simps)
  obtain it m1 s1 where s1: "kern_malloc ?n s = Some (it, s1)" "it \<noteq> 0" "it \<notin> kern_live s" "heap_live s1 = insert (it, m1) (heap_live s)"
    "heap_budget (4096 + (4096 * (length pre + 5) + k)) s1" "vm.more s1 = vm.more s" "kh_start s1 = kh_start s"
    "\<forall>x. owned s x \<longrightarrow> kh_bytes s1 x = kh_bytes s x" "heap_full s \<longrightarrow> heap_full s1"
    by (rule malloc_owned[OF b1 n])
  obtain save m2 s2 where s2: "kern_malloc ?n s1 = Some (save, s2)" "save \<notin> kern_live s1" "heap_live s2 = insert (save, m2) (heap_live s1)"
    "heap_budget (4096 * (length pre + 5) + k) s2" "vm.more s2 = vm.more s1" "kh_start s2 = kh_start s1"
    "\<forall>x. owned s1 x \<longrightarrow> kh_bytes s2 x = kh_bytes s1 x" "heap_full s1 \<longrightarrow> heap_full s2"
    by (rule malloc_owned[OF s1(5) n])
  have low: "low_same s s2"
    using low_same_trans[OF low_same_owned[OF s1(7) s1(8)[rule_format]] low_same_owned[OF s2(6) s2(7)[rule_format]]] .
  have more: "vm.more s2 = vm.more s" using s1(6) s2(5) by simp
  note vm2 = vfs_more[OF more]
  have live: "kern_live s2 = insert save (insert it (kern_live s))" using s1(4) s2(3) by (simp add: kern_live_def)
  have root: "tar_root r base lim (pre @ (path, n) # es) s2" using mt tar_root_low[OF _ low vm2(1)] by blast
  have "load_bytes (base + of_nat (tar_len pre)) 512 (kh_bytes s2) = load_bytes (base + of_nat (tar_len pre)) 512 (kh_bytes s)"
    by (rule load_low[OF low]) (use mt in \<open>auto simp: tar_root_def entry_len_def\<close>)
  note ty = header_fields(4)[OF this]
  have full2: "heap_full s2" using full s1(9) s2(8) by blast
  obtain q s3 where s3: "find_in_directory_tarfs (tarfs_files other) r ?p s2 = Some (q, s3)" "q \<noteq> 0" "q \<notin> kern_live s2"
    "vnodes s3 = (vnodes s2)(q \<mapsto> tarfs_node nm 0 (of_nat n) (get_type_flags (hdr_typeflag (base + of_nat (tar_len pre)) s2))
       (if n = 0 then base else base + of_nat (tar_len pre + 512)))" "heap_budget k s3" "low_same s2 s3" "kern_live s2 \<subseteq> kern_live s3"
    by (rule find_file[OF root full2 s2(4) hit first])
  have "it \<in> kern_live s3" using s3(7) live by blast
  from kern_free_budget[OF s3(5) this] obtain s4 where s4: "kern_free it s3 = Some s4" "heap_budget k s4"
    "kern_live s4 = kern_live s3 - {it}" "vm.more s4 = vm.more s3" by blast
  have "save \<noteq> it" using s2(2) s1(4) by (auto simp: kern_live_def)
  then have "save \<in> kern_live s4" using s4(3) s3(7) live by blast
  from kern_free_budget[OF s4(2) this] obtain s5 where s5: "kern_free save s4 = Some s5" "heap_budget k s5" "vm.more s5 = vm.more s4" by blast
  have bytes: "kh_bytes s5 = kh_bytes s3" "kh_start s5 = kh_start s3"
    using s4(1) s5(1) by (auto simp: kern_free_def heap_free_def Let_def split: option.splits)
  obtain no where nd: "vnodes s r = Some (tarfs_node ''/'' no (of_nat lim) VFS_NODE_TYPE_DIRE base)" "r \<noteq> 0" "lim < 2 ^ 31"
    using mt by (auto simp: tar_root_def)
  have "vfs_wf s" "vfs_mountpoint_tree s = Some (GTree r ts)" using mt by blast+
  then have tree: "vfs_mountpoint_tree s2 = Some (GTree r ts)" "set (preorder (GTree r ts)) \<subseteq> dom (vnodes s)"
    using vm2(2) unfolding vfs_wf_def by (simp, blast)
  have "set (map tdata ts) \<subseteq> dom (vnodes s)" using tree(2) tdata_preorder[of ts] by auto
  then have fc: "find_children (vnodes s2) nm (map tdata ts) (r, False) = Some (r, False)"
    using free vm2(1) by (intro find_children_none) auto
  have pp: "parse_path ?p = (1, NUL # nm)" using parse_component[OF nm(1), of "[]"] by simp
  have "cstr_at (NUL # nm) (Suc 0) = nm" using cstr_at_component[of nm "[]" "[]"] nm(1) by simp
  then have walk: "find_walk (NUL # nm) (Suc 0) (Suc 0) r s2 = Some (r, Suc 0, Suc 0)" using tree(1) nd(2) fc by (simp add: find_root)
  have sd: "VFS_NODE_TYPE_DIRE \<noteq> VFS_NODE_TYPE_SDIR" by (simp add: VFS_NODE_TYPE_DIRE_def VFS_NODE_TYPE_SDIR_def)
  have "vfs_find_node (tarfs_calls other) (Some ?p) s = Some (q, s5)"
    using hit(3) s1(1,2) s2(1) s3(1) s4(1) s5(1) tree(1) walk pp nd(1) vm2(1) sd
    by (simp add: vfs_find_node_def tarfs_calls_sel tarfs_node_def Let_def del: find_walk.simps parse_path.simps)
  moreover have "vnodes s5 = (vnodes s)(q \<mapsto> tarfs_node nm 0 (of_nat n) (get_type_flags (hdr_typeflag (base + of_nat (tar_len pre)) s))
       (if n = 0 then base else base + of_nat (tar_len pre + 512)))"
    using s3(4) vm2(1) vfs_more(1)[OF s5(3)] vfs_more(1)[OF s4(4)] ty by (simp only:)
  moreover have "low_same s s5" using low_same_trans[OF low s3(6)] bytes by (simp add: low_same_def)
  moreover have "q \<notin> kern_live s" using s3(3) live by blast
  ultimately show ?thesis using that s3(2) s5(2) by blast
qed

text \<open>A file found by its path reads as the bytes behind its header in the archive.\<close>

lemma vfs_read_file:
  fixes s :: "'z devfs_scheme"
  assumes m: "tar_mounted r ts base lim (pre @ (path, n) # es) s" and full: "heap_full s" and b: "heap_budget (4096 * (length pre + 7)) s"
    and hit: "root_child path" "tail_name (strip path) = nm" "nm \<noteq> []"
    and first: "\<forall>e\<in>set pre. \<not> (root_child (fst e) \<and> tail_name (strip (fst e)) = nm)"
    and free: "\<forall>c\<in>tdata ` set ts. nd_name (the (vnodes s c)) \<noteq> nm"
    and ty: "get_type_flags (hdr_typeflag (base + of_nat (tar_len pre)) s) \<noteq> VFS_NODE_TYPE_DIRE"
    and arg: "a < n" "unat z < 2 ^ 31" "kh_start s \<le> buf" "unat buf + unat z \<le> 2 ^ 32"
  shows "\<exists>q s1 s2. vfs_find_node (tarfs_calls other) (Some (CHR ''/'' # nm)) s = Some (q, s1) \<and>
    read_from_vfs_node (tarfs_calls other) q (of_nat a) z buf s1 = Some (int (min (unat z) (n - a)), s2) \<and>
    (\<forall>i<min (unat z) (n - a). kh_bytes s2 (buf + of_nat i) = kh_bytes s (base + of_nat (tar_len pre + 512 + a + i)))"
proof -
  have b0: "heap_budget (4096 * (length pre + 7) + 0) s" using b by simp
  obtain q s1 where s1: "vfs_find_node (tarfs_calls other) (Some (CHR ''/'' # nm)) s = Some (q, s1)" "q \<noteq> 0"
    "vnodes s1 = (vnodes s)(q \<mapsto> tarfs_node nm 0 (of_nat n) (get_type_flags (hdr_typeflag (base + of_nat (tar_len pre)) s))
       (if n = 0 then base else base + of_nat (tar_len pre + 512)))" "low_same s s1"
    by (rule vfs_find_file[OF m full b0 hit first free])
  let ?c = "base + of_nat (tar_len pre + 512) :: u32"
  define nd where "nd = tarfs_node nm 0 (of_nat n) (get_type_flags (hdr_typeflag (base + of_nat (tar_len pre)) s)) ?c"
  have "tar_root r base lim (pre @ (path, n) # es) s" using m by (simp add: tar_mounted_def)
  then have "lim < 2 ^ 31" "unat base + lim \<le> unat (kh_start s)" "tar_len pre + entry_len (path, n) + 512 \<le> lim"
    by (auto simp: tar_root_def)
  moreover have "n + 512 \<le> entry_len (path, n)" by (simp add: entry_len_def)
  ultimately have lim: "unat base + (tar_len pre + 512 + n) \<le> unat (kh_start s)" "n < 2 ^ 31" by auto
  have un: "unat (of_nat n :: u32) = n" "unat (of_nat a :: u32) = a" using lim(2) arg(1) by (simp_all add: unat_of_nat take_bit_nat_eq_self)
  have addr: "unat (base + of_nat (tar_len pre + 512 + j)) = unat base + (tar_len pre + 512 + j)" if "j \<le> n" for j
    using lim(1) that unat_u32_less[of "kh_start s"] by (simp add: unat_word_ariths(1) unat_of_nat take_bit_nat_eq_self)
  have c0: "?c \<noteq> 0" using addr[of 0] by auto
  let ?len = "min z (of_nat n - of_nat a)"
  have ul: "unat ?len = min (unat z) (n - a)" using un arg(1) by (simp add: min_def word_le_nat_alt unat_sub)
  have src: "?c + of_nat a + of_nat j = base + of_nat (tar_len pre + 512 + (a + j))" for j by (simp add: algebra_simps)
  have below: "unat (?c + of_nat a + of_nat j) < unat (kh_start s)" if j: "a + j < n" for j
  proof -
    have "unat (base + of_nat (tar_len pre + 512 + (a + j))) = unat base + (tar_len pre + 512 + (a + j))" using j by (intro addr) simp
    then show ?thesis unfolding src using lim(1) j by linarith
  qed
  have ap: "apart buf (?c + of_nat a) ?len" unfolding apart_def
  proof (intro allI impI)
    fix j assume j: "j < unat ?len"
    have "a + j < n" using j unfolding ul by linarith
    then have "unat (?c + of_nat a + of_nat j) < unat (kh_start s)" by (rule below)
    then have "unat (?c + of_nat a + of_nat j) < unat buf" using arg(3) by (simp add: word_le_nat_alt)
    moreover have "unat buf + unat ?len \<le> 2 ^ 32" using arg(4) ul by simp
    ultimately show "\<not> ?c + of_nat a + of_nat j - buf < ?len" using word_sub_less_iff[of buf ?len "?c + of_nat a + of_nat j"] by linarith
  qed
  have bz: "buf \<noteq> 0" using arg(3) lim(1) by (auto simp: word_le_nat_alt)
  have vn: "vnodes s1 q = Some nd" using s1(3) arg(1) by (simp add: nd_def)
  obtain s2 where s2: "read_from_vfs_node (tarfs_files other) q (of_nat a) z buf s1 = Some (int (min (unat z) (unat (nd_size nd) - unat (of_nat a :: u32))), s2)"
    "reads_from buf (base_pointer nd + of_nat a) (min z (nd_size nd - of_nat a)) s1 s2"
    by (rule read_file_tarfs[OF vn s1(2), of "of_nat a" z buf])
       (use ty c0 ap bz arg(1,2) un lim(2) in \<open>auto simp: nd_def tarfs_node_def word_less_nat_alt\<close>)
  have read: "read_from_vfs_node (tarfs_calls other) q (of_nat a) z buf s1 = Some (int (min (unat z) (n - a)), s2)"
    using s2(1) s1(2) vn un by (simp add: read_from_vfs_node_def tarfs_calls_sel nd_def tarfs_node_def split: if_splits)
  have "kh_bytes s2 (buf + of_nat i) = kh_bytes s (base + of_nat (tar_len pre + 512 + a + i))" if i: "i < min (unat z) (n - a)" for i
  proof -
    have "i < 2 ^ 32" using i arg(2) by simp
    then have ui: "unat (of_nat i :: u32) = i" by (simp add: unat_of_nat take_bit_nat_eq_self)
    then have "of_nat i < ?len" using i ul by (simp add: word_less_nat_alt)
    then have "kh_bytes s2 (buf + of_nat i) = kh_bytes s1 (?c + of_nat a + of_nat i)"
      using s2(2) by (simp add: reads_from_def nd_def tarfs_node_def)
    also have "\<dots> = kh_bytes s (?c + of_nat a + of_nat i)"
    proof -
      have "a + i < n" using i by linarith
      then have "unat (?c + of_nat a + of_nat i) < unat (kh_start s)" by (rule below)
      then show ?thesis using s1(4) unfolding low_same_def by blast
    qed
    finally show ?thesis unfolding src by (simp add: add.assoc)
  qed
  then show ?thesis using s1(1) read by blast
qed

end
