(* ===== verification/Heap_Mapping.thy ===== *)
theory Heap_Mapping
  imports Elf
begin

text \<open>
  The pages of the kernel heap. The bytes of the heap are the map \<open>kh_bytes\<close> from addresses; this is memory only as long as every page of the
  heap has a frame of its own under it that is neither a page table nor the directory. \<open>heap_mapped\<close> says so, and the lemmas show that
  \<^verbatim>\<open>increase_heap\<close> and \<^verbatim>\<open>kern_malloc\<close> keep it while frames are free and the heap stays below the page table window.
\<close>

subsection \<open>The heap and its frames\<close>

definition heap_dir :: "'z vm_scheme \<Rightarrow> u32" where
  "heap_dir s = drop_bit 12 (get_page_directory_address s)"

definition heap_page :: "u32 \<Rightarrow> 'z vm_scheme \<Rightarrow> bool" where
  "heap_page v s \<longleftrightarrow> page_aligned v \<and> unat (kh_start s) \<le> unat v \<and> unat v < unat (kh_end s)"

definition heap_frame :: "u32 \<Rightarrow> 'z vm_scheme \<Rightarrow> u32" where
  "heap_frame v s = page_addr (pte_of (heap_dir s) v s)"

text \<open>A frame under the heap: present, writable, in use, and no part of the address translation.\<close>

definition heap_backed :: "u32 \<Rightarrow> 'z vm_scheme \<Rightarrow> bool" where
  "heap_backed v s \<longleftrightarrow> present_bit (pte_of (heap_dir s) v s) \<and> read_write (pte_of (heap_dir s) v s) \<and>
     frame_used (heap_frame v s) s \<and> heap_frame v s \<noteq> heap_dir s \<and> (\<forall>i<1023. heap_frame v s \<noteq> table (heap_dir s) i s)"

definition heap_mapped :: "'z vm_scheme \<Rightarrow> bool" where
  "heap_mapped s \<longleftrightarrow> phys_inv s \<and> wf_dir (heap_dir s) s \<and> page_aligned (kh_start s) \<and> page_aligned (kh_end s) \<and>
     unat (kh_start s) \<le> unat (kh_end s) \<and> unat (kh_end s) \<le> 0xFFC00000 \<and> (\<forall>v. heap_page v s \<longrightarrow> heap_backed v s) \<and>
     (\<forall>v w. heap_page v s \<longrightarrow> heap_page w s \<longrightarrow> heap_frame v s = heap_frame w s \<longrightarrow> v = w)"

text \<open>The pages that were there stay where they are, and nothing writes into them.\<close>

definition heap_keeps :: "'z vm_scheme \<Rightarrow> 'z vm_scheme \<Rightarrow> bool" where
  "heap_keeps s s' \<longleftrightarrow> heap_dir s' = heap_dir s \<and>
     (\<forall>v. heap_page v s \<longrightarrow> heap_page v s' \<and> pte_of (heap_dir s) v s' = pte_of (heap_dir s) v s \<and> mem s' (heap_frame v s) = mem s (heap_frame v s))"

lemma heap_keeps_refl: "heap_keeps s s"
  by (simp add: heap_keeps_def)

lemma heap_keeps_trans: "heap_keeps s s1 \<Longrightarrow> heap_keeps s1 s2 \<Longrightarrow> heap_keeps s s2"
  unfolding heap_keeps_def heap_frame_def by metis

text \<open>The place of a byte of the heap in physical memory.\<close>

definition heap_location :: "'z vm_scheme \<Rightarrow> u32 \<Rightarrow> u32 \<times> nat" where
  "heap_location s a = (heap_frame a s, unat a mod 4096)"

lemma heap_location_inj:
  assumes m: "heap_mapped s"
  shows "inj_on (heap_location s) {a. unat (kh_start s) \<le> unat a \<and> unat a < unat (kh_end s)}"
proof (rule inj_onI)
  have page: "heap_page (align_page a) s" if "unat (kh_start s) \<le> unat a" "unat a < unat (kh_end s)" for a
  proof -
    have "unat (kh_start s) mod 4096 = 0" using m by (simp add: heap_mapped_def page_aligned_unat)
    then have "unat (kh_start s) \<le> unat a div 4096 * 4096"
      using div_le_mono[OF that(1), of 4096] by (metis add_0_right div_mult_mod_eq mult_le_mono1)
    then show ?thesis using that(2) by (simp add: heap_page_def align_page_aligned align_page_unat minus_mod_eq_div_mult)
  qed
  have frame: "heap_frame (align_page a) s = heap_frame a s" for a by (simp add: heap_frame_def pte_of_def)
  fix a b assume ab: "a \<in> {a. unat (kh_start s) \<le> unat a \<and> unat a < unat (kh_end s)}" "b \<in> {a. unat (kh_start s) \<le> unat a \<and> unat a < unat (kh_end s)}"
    "heap_location s a = heap_location s b"
  then have "align_page a = align_page b" using m page[of a] page[of b] frame by (simp add: heap_mapped_def heap_location_def)
  moreover have "unat c = unat (align_page c) + unat c mod 4096" for c by (simp add: align_page_unat)
  ultimately have "unat a = unat b" using ab(3) by (metis heap_location_def prod.inject)
  then show "a = b" by (simp add: word_unat_eq_iff)
qed

subsection \<open>One page more\<close>

lemma directory_kept [simp]:
  "get_page_directory_address (set_page_table_entry d v a p u s) = get_page_directory_address s"
  "get_page_directory_address (snd (alloc_phys_page s)) = get_page_directory_address s"
proof -
  have same: "get_page_directory_address (temp_map_page x s) = get_page_directory_address s"
    "get_page_directory_address (win_write i w s) = get_page_directory_address s"
    "get_page_directory_address (win_clear s) = get_page_directory_address s"
    "get_page_directory_address (snd (alloc_phys_page s)) = get_page_directory_address s" for x i w and s :: "'a vm_scheme"
    by (simp_all add: get_page_directory_address_def temp_map_page_def win_write_def win_clear_eq alloc_phys_page_def set_refcount_def
        split: option.split prod.split)
  then show "get_page_directory_address (set_page_table_entry d v a p u s) = get_page_directory_address s"
    "get_page_directory_address (snd (alloc_phys_page s)) = get_page_directory_address s"
    by (simp_all add: set_page_table_entry_def Let_def case_prod_beta)
qed

text \<open>The fields of the heap itself are not part of the address translation.\<close>

lemma beneath_heap:
  fixes s s' :: "'z vm_scheme"
  assumes "kheap.more s' = kheap.more s"
  shows "mem s' = mem s" "heap_dir s' = heap_dir s" "free_frames s' = free_frames s" "phys_inv s' = phys_inv s" "used_frames s' = used_frames s"
    "table d i s' = table d i s" "pte_of d v s' = pte_of d v s" "wf_dir d s' = wf_dir d s"
proof -
  have f: "refcount s' = refcount s" "free_list s' = free_list s" "total_usable_lower s' = total_usable_lower s"
    "total_usable_lower_pages s' = total_usable_lower_pages s" "total_usable_upper s' = total_usable_upper s"
    "total_usable_upper_pages s' = total_usable_upper_pages s" "total_usable_bytes s' = total_usable_bytes s"
    "total_usable_pages s' = total_usable_pages s" "allocations s' = allocations s" "allocations_size s' = allocations_size s"
    using assms by (cases s, cases s', simp)+
  have v: "mem s' = mem s" "cr3 s' = cr3 s" "paging_status s' = paging_status s" "page_directory s' = page_directory s"
    using assms by (cases s, cases s', simp)+
  show "mem s' = mem s" "heap_dir s' = heap_dir s" using v by (simp_all add: heap_dir_def get_page_directory_address_def)
  show u: "used_frames s' = used_frames s" using f by (simp add: used_frames_def phys_pages_def lower_pages_def alloc_phys_index_to_addr_def)
  show "free_frames s' = free_frames s" using f u by (simp add: free_frames_def phys_frames_def phys_pages_def lower_pages_def alloc_phys_index_to_addr_def)
  show "phys_inv s' = phys_inv s" using f by (simp add: phys_inv_def wf_phys_def lower_pages_def phys_pages_def alloc_phys_index_to_addr_def)
  show tb: "table d i s' = table d i s" for d i using v by (simp add: table_def)
  show "pte_of d v s' = pte_of d v s" using v by (simp add: pte_of_def tb)
  show "wf_dir d s' = wf_dir d s" by (simp add: wf_dir_def tb frame_used_def u)
qed

lemma next_page:
  fixes x y :: nat
  assumes "x mod 4096 = 0" "y mod 4096 = 0" "x < y + 4096" "\<not> x < y"
  shows "x = y"
proof -
  obtain j k where "x = 4096 * j" "y = 4096 * k" using assms(1,2) unfolding mod_eq_0_iff_dvd dvd_def by blast
  then show ?thesis using assms(3,4) by simp
qed

lemma increase_page_mapped:
  assumes m: "heap_mapped s" and room: "2 \<le> card (free_frames s)" "unat (kh_end s) + 4096 \<le> 0xFFC00000"
  shows "heap_mapped (increase_heap_page s)" "heap_keeps s (increase_heap_page s)"
    "card (free_frames s) \<le> card (free_frames (increase_heap_page s)) + 2"
proof -
  define v d where "v = kh_end s" and "d = heap_dir s"
  obtain a s1 where al: "alloc_phys_page s = (a, s1)" by (cases "alloc_phys_page s")
  define s2 where "s2 = set_page_table_entry (get_page_directory_address s) v a True False s1"
  define s' where "s' = increase_heap_page s"
  have d1: "get_page_directory_address s1 = get_page_directory_address s" "mem s1 = mem s" "kh_end s1 = kh_end s"
    using directory_kept(2)[of s] alloc_page_vm(1)[of s] alloc_page_kheap(4)[of s] al by simp_all
  have e2: "kh_end s2 = v" "kh_start s2 = kh_start s"
    using kheap_truncate_cong(3,4)[OF set_entry_kheap, of "get_page_directory_address s" v a True False s1] alloc_page_kheap(3,4)[of s] al
    by (simp_all add: s2_def v_def)
  have s': "s' = s2\<lparr>kh_end := v + 4096, allocated_size := allocated_size s2 + 4096\<rparr>"
    using e2 by (simp add: s'_def increase_heap_page_def al Let_def d1 s2_def v_def PAGE_BYTE_LEN_def)
  have "kheap.more s' = kheap.more s2" by (simp add: s')
  note low = beneath_heap[OF this]
  have "heap_dir s2 = d" using d1 by (simp add: d_def heap_dir_def s2_def)
  then have dir: "heap_dir s' = d" using low(2) by simp
  note hm = m[unfolded heap_mapped_def, folded v_def d_def]
  have vi: "pdi v < 1023" using room(2) by (auto simp: directory_index_unat v_def)
  have add: "page_added_as False (\<lambda>m. True) d v a s s2" unfolding s2_def d_def heap_dir_def
    by (rule add_page[OF _ _ vi room(1) al]) (use hm d1 in \<open>simp_all add: d_def heap_dir_def\<close>)
  note ad = add[unfolded page_added_as_def]
  have end': "unat (v + 4096) = unat v + 4096" using room(2) by (simp add: v_def unat_word_ariths)
  have pages: "heap_page w s' \<longleftrightarrow> heap_page w s \<or> w = v" for w
  proof
    assume w: "heap_page w s'"
    show "heap_page w s \<or> w = v"
    proof (cases "unat w < unat v")
      case True
      then show ?thesis using w e2 by (simp add: heap_page_def s' v_def)
    next
      case False
      have "unat w mod 4096 = 0" "unat v mod 4096 = 0" using w hm by (simp_all add: heap_page_def page_aligned_unat)
      moreover have "unat w < unat v + 4096" using w end' by (simp add: heap_page_def s')
      ultimately have "unat w = unat v" using False by (rule next_page)
      then show ?thesis by (simp add: word_unat_eq_iff)
    qed
  next
    assume "heap_page w s \<or> w = v"
    then show "heap_page w s'" using hm e2 end' by (auto simp: heap_page_def s' v_def)
  qed
  have old: "pte_of d w s' = pte_of d w s \<and> mem s' (heap_frame w s) = mem s (heap_frame w s) \<and> (\<forall>i<1023. heap_frame w s \<noteq> table d i s')"
    if w: "heap_page w s" for w
  proof -
    have "unat w < unat v" "page_aligned w" using w by (simp_all add: heap_page_def v_def)
    then have "pdi w < 1023" "align_page w \<noteq> align_page v" using hm by (auto simp: directory_index_unat align_page_id)
    moreover have "frame_used (heap_frame w s) s" "heap_frame w s \<noteq> d" "\<forall>i<1023. heap_frame w s \<noteq> table d i s"
      using w hm by (auto simp: heap_backed_def d_def)
    ultimately show ?thesis using ad by (auto simp: low)
  qed
  have oldf: "heap_frame w s' = heap_frame w s" if "heap_page w s" for w using old[OF that] by (simp add: heap_frame_def dir d_def)
  have nf: "heap_frame v s' = drop_bit 12 a" using ad by (simp add: heap_frame_def dir low)
  have up: "frame_used f s \<Longrightarrow> frame_used f s'" for f using ad by (auto simp: frame_used_def low)
  have na: "\<not> frame_used (drop_bit 12 a) s" using ad by (simp add: frame_used_def)
  have backed: "heap_backed w s'" if w: "heap_page w s" for w
    using hm w old[OF w] oldf[OF w] up unfolding heap_backed_def dir by (auto simp: heap_backed_def d_def)
  moreover have "heap_backed v s'" unfolding heap_backed_def nf dir using ad by (auto simp: low frame_used_def)
  moreover have "w = x" if "heap_page w s'" "heap_page x s'" "heap_frame w s' = heap_frame x s'" for w x
  proof -
    have used: "frame_used (heap_frame y s') s" if "heap_page y s" for y using hm that oldf[OF that] by (simp add: heap_backed_def)
    then show ?thesis using that hm na unfolding pages by (metis oldf nf)
  qed
  moreover have "page_aligned (v + 4096)" using hm end' by (simp add: page_aligned_unat)
  moreover have "phys_inv s'" "wf_dir d s'" using ad by (simp_all add: low)
  moreover have "kh_start s' = kh_start s" "kh_end s' = v + 4096" using e2 by (simp_all add: s')
  ultimately show "heap_mapped (increase_heap_page s)"
    using hm room(2) end' unfolding s'_def[symmetric] heap_mapped_def dir pages v_def by auto
  show "heap_keeps s (increase_heap_page s)" using old pages by (auto simp: heap_keeps_def dir d_def simp flip: s'_def)
  show "card (free_frames s) \<le> card (free_frames (increase_heap_page s)) + 2" using ad by (simp add: low flip: s'_def)
qed

subsection \<open>Growing the heap\<close>

text \<open>Each page takes at most two frames: the page itself and a page table for it.\<close>

lemma increase_pages_mapped:
  assumes "heap_mapped s" "2 * n \<le> card (free_frames s)" "unat (kh_end s) + 4096 * n \<le> 0xFFC00000"
  shows "heap_mapped ((increase_heap_page ^^ n) s) \<and> heap_keeps s ((increase_heap_page ^^ n) s)"
  using assms
proof (induction n arbitrary: s)
  case 0
  then show ?case by (simp add: heap_keeps_refl)
next
  case (Suc n)
  define s1 where "s1 = increase_heap_page s"
  have "2 \<le> card (free_frames s)" "unat (kh_end s) + 4096 \<le> 0xFFC00000" using Suc.prems(2,3) by simp_all
  note one = increase_page_mapped[OF Suc.prems(1) this, folded s1_def]
  have "unat (kh_end s1) = unat (kh_end s) + 4096" using Suc.prems(3) by (simp add: s1_def increase_heap_page_sel unat_word_ariths)
  then have "heap_mapped ((increase_heap_page ^^ n) s1) \<and> heap_keeps s1 ((increase_heap_page ^^ n) s1)"
    using Suc.prems(2,3) one(3) by (intro Suc.IH[OF one(1)]) simp_all
  then show ?case using one(2) heap_keeps_trans by (auto simp: s1_def funpow_swap1)
qed

lemma heap_fields_mapped:
  assumes "kheap.more s' = kheap.more s" "kh_start s' = kh_start s" "kh_end s' = kh_end s"
  shows "heap_mapped s' = heap_mapped s" "heap_keeps r s' = heap_keeps r s"
proof -
  note low = beneath_heap[OF assms(1)]
  have e: "heap_page v s' = heap_page v s" "heap_frame v s' = heap_frame v s" for v by (simp_all add: heap_page_def heap_frame_def assms low)
  have b: "heap_backed v s' = heap_backed v s" for v by (simp add: heap_backed_def e low frame_used_def)
  show "heap_mapped s' = heap_mapped s" by (simp add: heap_mapped_def e b low assms)
  show "heap_keeps r s' = heap_keeps r s" by (simp add: heap_keeps_def e low)
qed

text \<open>What \<open>kern_malloc\<close> does beside the fields of the heap is to let it grow.\<close>

lemma kern_malloc_grows:
  assumes "kern_malloc n s = Some (p, s')"
  shows "\<exists>u\<in>{s, increase_heap (heap_total_size n) s}. kheap.more s' = kheap.more u \<and> kh_start s' = kh_start u \<and> kh_end s' = kh_end u"
proof -
  have fin: "kheap.more u' = kheap.more u \<and> kh_start u' = kh_start u \<and> kh_end u' = kh_end u"
    if "heap_finish i u = Some (b, u')" for i b and u u' :: "'a vm_scheme"
    using that by (auto simp: heap_finish_def Let_def split: option.splits)
  show ?thesis
  proof (cases "kh_head s = 0")
    case True
    then show ?thesis using assms by (auto simp: kern_malloc_def heap_allocate_def Let_def dest!: fin)
  next
    case False
    then obtain i k where ik: "heap_walk (kh_items s) n (kh_head s) = Some i" "kh_items s i = Some k"
      using assms by (auto simp: kern_malloc_def heap_allocate_def Let_def bind_eq_Some_conv)
    show ?thesis
      using assms False ik by (cases "ka_next k = 0") (auto simp: kern_malloc_def heap_allocate_def Let_def split: if_splits dest!: fin)
  qed
qed

lemma kern_malloc_mapped:
  assumes m: "heap_mapped s" and frames: "2 * pages_for (heap_total_size n) \<le> card (free_frames s)"
    and room: "unat (kh_end s) + 4096 * pages_for (heap_total_size n) \<le> 0xFFC00000" and run: "kern_malloc n s = Some (p, s')"
  shows "heap_mapped s'" "heap_keeps s s'"
proof -
  obtain u where u: "u \<in> {s, increase_heap (heap_total_size n) s}" "kheap.more s' = kheap.more u" "kh_start s' = kh_start u" "kh_end s' = kh_end u"
    using kern_malloc_grows[OF run] by blast
  have "heap_mapped u \<and> heap_keeps s u" using u(1) m heap_keeps_refl increase_pages_mapped[OF m frames room] by (auto simp: increase_heap_def)
  then show "heap_mapped s'" "heap_keeps s s'" using heap_fields_mapped[OF u(2-4)] by simp_all
qed

end
