(* ===== verification/Sample.thy ===== *)
theory Sample
  imports Syscall Liblist Tarfs Heap_Mapping
begin

text \<open>
  A small system at one moment, against which the properties are instantiated: a kernel process, a process that
  is ready and one that sleeps; a heap with five blocks in one page; an address space with one table for the program, one
  for the heap, one for the temporary mapping, a page that two processes share and a page with a path; devfs mounted at
  \<^verbatim>\<open>/dev\<close> with one device.
\<close>

subsection \<open>Its parts\<close>

definition sample_blocks :: "block list" where
  "sample_blocks =
     [(0xD0000000, \<lparr>ka_size = 64, ka_next = 0xD0000049, ka_present = True\<rparr>),
      (0xD0000049, \<lparr>ka_size = 64, ka_next = 0xD0000092, ka_present = True\<rparr>),
      (0xD0000092, \<lparr>ka_size = 64, ka_next = 0xD00000DB, ka_present = True\<rparr>),
      (0xD00000DB, \<lparr>ka_size = 12, ka_next = 0xD00000F0, ka_present = True\<rparr>),
      (0xD00000F0, \<lparr>ka_size = 12, ka_next = 0, ka_present = True\<rparr>)]"

definition sample_memory :: "u32 \<Rightarrow> nat \<Rightarrow> u32" where
  "sample_memory f i =
     (if f = 1 then (if i = 64 then 0x2007 else if i = 769 then 0x4003 else if i = 832 then 0x7003 else 0)
      else if f = 2 then (if i = 0 then 0x3005 else if i = 1 then 0x6007 else 0)
      else if f = 3 then of_nat i
      else if f = 4 then (if i = 0 then 0x5003 else 0)
      else if f = 7 then (if i = 0 then 0x8003 else 0)
      else if f = 6 then (if i = 0 then 0x7665642F else if i = 1 then 0x7974742F else 0)
      else 0)"

definition sample_proc :: "int \<Rightarrow> pstate \<Rightarrow> pprv \<Rightarrow> proc" where
  "sample_proc n x v =
     \<lparr>proc_regs = zero_regs, cpl = v, proc_pdir = 0x1000, sys_stack = 0xD0000500, fpu_regs = replicate 512 0,
      heap_start = PROCESS_HEAP, heap_end = PROCESS_HEAP + 0x1000, pname = ''sample'', details = [], pid = n,
      state = x, type = PROCESS_TYPE_STANDALONE, ustack_ptr = 0, proc_ustack_phys = [], waiters = [], pnodes = [0xD0000052],
      parent = 0x1000\<rparr>"

definition sample_node :: "string \<Rightarrow> u16 \<Rightarrow> fn \<Rightarrow> ptr \<Rightarrow> vfs_gen_node" where
  "sample_node nm ty rd base =
     \<lparr>nd_name = nm, node_no = 1, nd_size = 0, type_flags = ty, specific_type = 0, node_create = Sym ''create_node_devfs'',
      node_open = NULL_fn, node_close = NULL_fn, node_read = rd, node_write = NULL_fn, node_control = NULL_fn,
      node_status = NULL_fn, dir_read = NULL_fn, dir_find = Sym ''find_in_directory_devfs'', dir_list = NULL_fn,
      base_pointer = base\<rparr>"

definition sample_device :: io_node where
  "sample_device =
     \<lparr>io_node_no = 1, io_node_type = 1, io_node_name = ''tty'', io_node_size = 0, io_open = NULL_fn, io_close = NULL_fn,
      io_read = Sym ''gtty_read'', io_write = NULL_fn, io_control = NULL_fn, io_status = NULL_fn, io_base_pointer = 0\<rparr>"

definition sample_regs :: "u32 \<Rightarrow> registers" where
  "sample_regs n = zero_regs\<lparr>r_eax := n\<rparr>"

subsection \<open>The state\<close>

definition sample :: devfs where
  "sample =
     \<lparr>allocated_size = 0, kh_start = 0xD0000000, kh_end = 0xD0001000, kh_head = 0xD0000000, kh_items = map_of sample_blocks,
      kh_bytes = \<lambda>a. 0xAA,
      total_usable_lower = 0x9F000, total_usable_lower_pages = 0x9F, total_usable_upper = 0x100000,
      total_usable_upper_pages = 0x100, total_usable_bytes = 0x19F000, total_usable_pages = 0x19F, allocations_size = 0x19F,
      allocations = 0xC0200000, refcount = \<lambda>i. if i = 3 then 2 else if i < 9 then 1 else 0, free_list = [],
      gdt = \<lambda>i. \<lparr>limit_low = 0, base_low = 0, base_middle = 0, ge_access = 0, granularity = 0, base_high = 0\<rparr>, gp_limit = 0, gp_base = 0,
      tss_table = \<lparr>esp0 = 0, ss0 = 0, tss_cs = 0, tss_ss = 0, tss_ds = 0, tss_es = 0, tss_fs = 0, tss_gs = 0, io_map = 0\<rparr>,
      seg_data = 0, seg_code = 0, task_register = 0,
      idt = \<lambda>i. idt_entry_zero, idt_p_limit = 0, idt_p_base = 0, interrupt_vector_catchers = \<lambda>i. 0xC0100000 + of_nat i,
      interrupt_handlers = \<lambda>i. 0, interrupt_flag = False, port_log = [],
      mem = sample_memory, window = 0, page_directory = 0x1000, kernel_pagedir = 0x1000, cr3 = 0x1000, paging_status = True,
      temp_page = 0xC0400000,
      pit_ticks = 0, routine_id = 0, routines = [],
      procs = [0x1000 \<mapsto> sample_proc 1 PROCESS_STATE_READY PROCESS_PRV_KERN, 0x2000 \<mapsto> sample_proc 2 PROCESS_STATE_LIVING PROCESS_PRV_USER,
               0x3000 \<mapsto> sample_proc 3 PROCESS_STATE_READY PROCESS_PRV_USER, 0x4000 \<mapsto> sample_proc 4 PROCESS_STATE_NAPPING PROCESS_PRV_USER],
      current_process = 0x2000, kernel_process = 0x1000, proc_pid = 4,
      process_tree = Some (GTree 0x1000 [GTree 0x3000 [GTree 0x2000 []], GTree 0x4000 []]),
      ready_queue = [0x3000, 0x1000], dead_queue = [],
      napping_list = [\<lparr>tp_addr = 0xD00000F9, tp_process = 0x4000, tp_counter = 1\<rparr>], fpu_state = replicate 512 0, klog = [],
      vnodes = [0xD0000009 \<mapsto> sample_node ''/'' VFS_NODE_TYPE_SDIR NULL_fn 0, 0xD0000052 \<mapsto> sample_node ''dev'' VFS_NODE_TYPE_DIRE NULL_fn 0,
                0xD000009B \<mapsto> sample_node ''tty'' 0x10 (Sym ''read_node_devfs'') 0x5000],
      vfs_root_node = 0xD0000009, vfs_mountpoint_tree = Some (GTree 0xD0000009 [GTree 0xD0000052 []]), registered_filesystems = [],
      node_number = 2, filesystem_id = 0xF001, vfs_is_ready_flag = True,
      root_node = 0xD0000052, devices = [0xD000009B], device_node_no = 1, devfs_is_ready_flag = True, io_nodes = [0x5000 \<mapsto> sample_device]\<rparr>"

subsection \<open>Its invariants\<close>

lemma sample_sel [simp]:
  "vfs_mountpoint_tree sample = Some (GTree 0xD0000009 [GTree 0xD0000052 []])" "devices sample = [0xD000009B]" "root_node sample = 0xD0000052"
  "vnodes sample 0xD0000052 = Some (sample_node ''dev'' VFS_NODE_TYPE_DIRE NULL_fn 0)"
  "vnodes sample 0xD000009B = Some (sample_node ''tty'' 0x10 (Sym ''read_node_devfs'') 0x5000)"
  "io_nodes sample 0x5000 = Some sample_device" "mem sample = sample_memory" "cr3 sample = 0x1000" "temp_page sample = 0xC0400000"
  "current_process sample = 0x2000" "kernel_process sample = 0x1000" "ready_queue sample = [0x3000, 0x1000]" "dead_queue sample = []"
  "napping_list sample = [\<lparr>tp_addr = 0xD00000F9, tp_process = 0x4000, tp_counter = 1\<rparr>]"
  "procs sample 0x1000 = Some (sample_proc 1 PROCESS_STATE_READY PROCESS_PRV_KERN)"
  "procs sample 0x2000 = Some (sample_proc 2 PROCESS_STATE_LIVING PROCESS_PRV_USER)"
  "procs sample 0x3000 = Some (sample_proc 3 PROCESS_STATE_READY PROCESS_PRV_USER)"
  "procs sample 0x4000 = Some (sample_proc 4 PROCESS_STATE_NAPPING PROCESS_PRV_USER)"
  "process_tree sample = Some (GTree 0x1000 [GTree 0x3000 [GTree 0x2000 []], GTree 0x4000 []])"
  "registered_filesystems sample = []" "filesystem_id sample = 0xF001" "port_log sample = []"
  by (simp_all add: sample_def)

lemma sample_proc_sel [simp]:
  "state (sample_proc n x v) = x" "pid (sample_proc n x v) = n" "proc_pdir (sample_proc n x v) = 0x1000"
  "heap_end (sample_proc n x v) = 0x50001000" "pnodes (sample_proc n x v) = [0xD0000052]" "cpl (sample_proc n x v) = v"
  by (simp_all add: sample_proc_def PROCESS_HEAP_def)

lemma sample_node_sel [simp]:
  "nd_name (sample_node nm ty rd base) = nm" "type_flags (sample_node nm ty rd base) = ty" "node_read (sample_node nm ty rd base) = rd"
  "base_pointer (sample_node nm ty rd base) = base" "dir_find (sample_node nm ty rd base) = Sym ''find_in_directory_devfs''"
  "node_create (sample_node nm ty rd base) = Sym ''create_node_devfs''"
  by (simp_all add: sample_node_def)

lemma sample_heap: "wf_blocks sample sample_blocks"
  by (simp add: wf_blocks_def sample_def sample_blocks_def block_len_def)

lemma sample_wf_heap: "wf_heap sample"
  using sample_heap by (auto simp: wf_heap_def)

lemma sample_full: "heap_full sample"
  by (auto simp: heap_full_def ran_def sample_def sample_blocks_def split: if_splits)

lemma sample_budget: "k \<le> 0x20000000 \<Longrightarrow> heap_budget k sample"
  using sample_wf_heap by (simp add: heap_budget_def sample_def)

lemma live_of_blocks:
  "distinct (map fst bs) \<Longrightarrow> live_of (map_of bs) = (\<lambda>(a, k). (a + sizeof_kalloc, ka_size k)) ` set (filter (\<lambda>b. ka_present (snd b)) bs)"
  by (force simp: live_of_def)

lemma sample_live:
  "heap_live sample = {(0xD0000009, 64), (0xD0000052, 64), (0xD000009B, 64), (0xD00000E4, 12), (0xD00000F9, 12)}"
proof -
  have "distinct (map fst sample_blocks)" by (simp add: sample_blocks_def)
  then have "heap_live sample = (\<lambda>(a, k). (a + sizeof_kalloc, ka_size k)) ` set (filter (\<lambda>b. ka_present (snd b)) sample_blocks)"
    by (simp add: live_of_blocks sample_def)
  then show ?thesis by (simp add: sample_blocks_def sizeof_kalloc_def)
qed

lemma sample_pages: "phys_pages sample = 415" "lower_pages sample = 159"
  by (simp_all add: phys_pages_def lower_pages_def sample_def)

lemma sample_phys: "phys_inv sample"
  by (simp add: phys_inv_def wf_phys_def no_freed_def sample_pages) (simp add: sample_def)

lemma sample_index: "i < 159 \<Longrightarrow> alloc_phys_index_to_addr i sample = of_nat i * 4096"
  by (simp add: alloc_phys_index_to_addr_def sample_def word_less_nat_alt unat_of_nat take_bit_nat_eq_self)

lemma sample_refcount: "refcount sample i = (if i = 3 then 2 else if i < 9 then 1 else 0)"
  by (simp add: sample_def)

lemma sample_frame_used: "i < 9 \<Longrightarrow> f = of_nat i \<Longrightarrow> frame_used f sample"
proof -
  assume i: "i < 9" "f = of_nat i"
  then have "push_bit 12 f = alloc_phys_index_to_addr i sample" by (simp add: sample_index push_bit_eq_mult)
  moreover have "i < phys_pages sample" "refcount sample i \<noteq> 0" using i by (simp_all add: sample_pages sample_refcount)
  ultimately show ?thesis unfolding frame_used_def used_frames_def by blast
qed

lemma sample_free: "card (free_frames sample) = 406"
proof -
  have inj: "inj_on (\<lambda>i. alloc_phys_index_to_addr i sample) {..<415}"
    using index_to_addr_inj[of sample] sample_phys by (auto simp: inj_on_def phys_inv_def sample_pages)
  have used: "{i. i < 415 \<and> refcount sample i \<noteq> 0} = {..<9}" by (auto simp: sample_refcount)
  have "free_frames sample = (\<lambda>i. alloc_phys_index_to_addr i sample) ` ({..<415} - {..<9})"
    unfolding free_frames_def phys_frames_def used_frames_def sample_pages used
    by (rule inj_on_image_set_diff[OF inj, symmetric]) auto
  moreover have "card ((\<lambda>i. alloc_phys_index_to_addr i sample) ` ({..<415} - {..<9})) = card ({..<415::nat} - {..<9})"
    by (rule card_image) (rule inj_on_subset[OF inj], auto)
  ultimately show ?thesis by (simp add: card_Diff_subset)
qed

lemma sample_can_alloc: "can_alloc sample"
  by (rule can_alloc_free[OF sample_phys]) (simp add: sample_free)

lemma sample_table: "table 1 i sample = (if i = 64 then 2 else if i = 769 then 4 else if i = 832 then 7 else 0)"
  by (simp add: table_def sample_def sample_memory_def page_addr_def)

lemma sample_dir: "wf_dir 1 sample"
  using sample_frame_used[of 1 1] sample_frame_used[of 2 2] sample_frame_used[of 4 4] sample_frame_used[of 7 7]
  by (auto simp: wf_dir_def sample_table)

lemma sample_idents: "idents_ok sample"
  by (simp add: idents_ok_def)

lemma sample_mapped: "heap_mapped sample"
proof -
  have page: "heap_page v sample \<longleftrightarrow> v = 0xD0000000" for v
  proof -
    have "unat v = 0xD0000000" if "unat v mod 4096 = 0" "0xD0000000 \<le> unat v" "unat v < 0xD0001000"
      by (rule next_page) (use that in simp_all)
    then show ?thesis by (auto simp: heap_page_def page_aligned_unat sample_def word_unat_eq_iff)
  qed
  have d: "heap_dir sample = 1" by (simp add: heap_dir_def get_page_directory_address_def sample_def)
  have "pdi 0xD0000000 = 832" "pti 0xD0000000 = 0" by (simp_all add: directory_index_unat table_index_unat)
  then have e: "pte_of 1 0xD0000000 sample = 0x8003" by (simp add: pte_of_def sample_table sample_memory_def)
  then have "heap_frame 0xD0000000 sample = 8" by (simp add: heap_frame_def d page_addr_def)
  then have "heap_backed 0xD0000000 sample" using sample_frame_used[of 8 8] by (simp add: heap_backed_def d e sample_table present_bit_def read_write_def)
  then show ?thesis using sample_phys sample_dir unfolding heap_mapped_def page d by (simp add: page_aligned_unat) (simp add: sample_def)
qed

lemma sample_sched: "sched_inv sample"
proof -
  have d: "dom (procs sample) = {0x1000, 0x2000, 0x3000, 0x4000}" by (auto simp: sample_def split: if_splits)
  show ?thesis unfolding sched_inv_def qinv_def d by (simp add: sample_def sample_proc_def)
qed

lemma sample_napping: "napping_ok (napping_list sample) sample"
  by (simp add: napping_ok_def sample_def sample_proc_def sample_blocks_def sizeof_kalloc_def)

lemma sample_index_of: "pdi 0x10000000 = 64" "pti 0x10000000 = 0" "pdi 0xC0400000 = 769" "pti 0xC0400000 = 0"
  "pdi 0x50001000 = 320" "pdi PROCESS_HEAP = 320"
  by (simp_all add: directory_index_unat table_index_unat PROCESS_HEAP_def)

lemma sample_walk: "walk_dir sample = 1" "walk_table sample = 4" "work_frame sample = 5" "page_addr (pte_of 1 0x10000000 sample) = 3"
  by (simp_all add: walk_dir_def walk_table_def work_frame_def mmu_frame_def pte_of_def sample_table sample_index_of Let_def)
     (simp_all add: page_addr_def sample_memory_def sample_index_of)

lemma sample_cow: "cow_fault 1 0x10000000 3 3 sample"
proof -
  have "\<forall>x\<in>{walk_dir sample, walk_table sample, work_frame sample}. frame_used x sample"
    using sample_frame_used[of 1 1] sample_frame_used[of 4 4] sample_frame_used[of 5 5] by (simp add: sample_walk)
  moreover have "push_bit 12 (3 :: u32) = alloc_phys_index_to_addr 3 sample" by (simp add: sample_index)
  ultimately show ?thesis unfolding cow_fault_def
    using sample_phys sample_dir sample_can_alloc by (simp add: sample_walk sample_table sample_index_of sample_pages sample_refcount)
qed

lemma sample_kern_live: "kern_live sample = {0xD0000009, 0xD0000052, 0xD000009B, 0xD00000E4, 0xD00000F9}"
  by (simp add: kern_live_def sample_live)

lemma sample_vnodes: "dom (vnodes sample) = {0xD0000009, 0xD0000052, 0xD000009B}"
  by (auto simp: sample_def split: if_splits)

lemma sample_vfs: "vfs_wf sample"
  unfolding vfs_wf_def sample_vnodes sample_kern_live by simp

definition sample_dev :: vfs_gen_node where
  "sample_dev = sample_node ''dev'' VFS_NODE_TYPE_DIRE NULL_fn 0"

lemma sample_devfs: "devfs_mounted 0xD0000009 [] sample_dev sample"
proof -
  have "last_child 0xD0000009 [] 0xD0000052 [] sample_dev sample"
    using sample_vfs unfolding last_child_def by (simp add: sample_dev_def component_def NUL_def)
  moreover have "set (devices sample) \<subseteq> dom (vnodes sample)" unfolding sample_vnodes by simp
  ultimately show ?thesis by (simp add: devfs_mounted_def sample_dev_def)
qed

lemma sample_present: "user_present v sample" "mmu_frame v sample = 6" if "pdi v = 64" "pti v = 1"
  using that by (simp_all add: user_present_def mmu_frame_def Let_def sample_memory_def page_addr_def present_bit_def)

lemma sample_byte: "k < 16 \<Longrightarrow> user_byte (0x10001000 + of_nat k) sample = Some (get_byte (sample_memory 6 (k div 4)) (k mod 4))"
proof -
  assume k: "k < 16"
  have u: "unat (0x10001000 + of_nat k :: u32) = 0x10001000 + k" using k by (simp add: unat_word_ariths unat_of_nat)
  have "(0x10001000 + k) mod 4096 = k" using k by (simp add: mod_add_eq[symmetric])
  moreover have "(0x10001000 + k) div 4194304 = 64" "(0x10001000 + k) div 4096 = 65537" using k by (auto intro!: div_nat_eqI)
  ultimately show ?thesis using k sample_present[of "0x10001000 + of_nat k"]
    by (simp add: user_byte_def u frame_byte_def directory_index_unat table_index_unat)
qed

lemma sample_string: "user_string 0x10001000 sample = Some ''/dev/tty''"
proof -
  have b: "user_byte 0x10001000 sample = Some 0x2F" "user_byte 0x10001001 sample = Some 0x64" "user_byte 0x10001002 sample = Some 0x65"
    "user_byte 0x10001003 sample = Some 0x76" "user_byte 0x10001004 sample = Some 0x2F" "user_byte 0x10001005 sample = Some 0x74"
    "user_byte 0x10001006 sample = Some 0x74" "user_byte 0x10001007 sample = Some 0x79" "user_byte 0x10001008 sample = Some 0"
    using sample_byte[of 0] sample_byte[of 1] sample_byte[of 2] sample_byte[of 3] sample_byte[of 4] sample_byte[of 5]
      sample_byte[of 6] sample_byte[of 7] sample_byte[of 8]
    by (simp_all add: get_byte_def sample_memory_def)
  have step: "user_byte v sample = Some w \<Longrightarrow> w \<noteq> 0 \<Longrightarrow> user_string (v + 1) sample = Some cs \<Longrightarrow>
      user_string v sample = Some (char_of (unat w) # cs)" for v w cs
    by (subst user_string.simps) simp
  have "user_string 0x10001008 sample = Some []" by (subst user_string.simps) (simp add: b)
  then show ?thesis
    using step[OF b(8)] step[OF b(7)] step[OF b(6)] step[OF b(5)] step[OF b(4)] step[OF b(3)] step[OF b(2)] step[OF b(1)]
    by (simp add: char_of_def bit_Suc_0_iff)
qed

subsection \<open>Code behind the function pointers\<close>

text \<open>No file system besides devfs, and a driver that reads as many bytes as it is asked for.\<close>

definition sample_calls :: "devfs calls" where
  "sample_calls =
     \<lparr>call_node = \<lambda>f n s. None, call_io = \<lambda>f n a z b s. None, call_control = \<lambda>f n c a s. None, call_status = \<lambda>f n s. None,
      call_create = \<lambda>f n nm ty b s. None, call_readdir = \<lambda>f n i s. None, call_finddir = \<lambda>f n nm s. None, call_listdir = \<lambda>f n s. None,
      call_mount = \<lambda>f d mp s. None\<rparr>"

definition sample_drivers :: "devfs drivers" where
  "sample_drivers =
     \<lparr>drv_node = \<lambda>f d s. Some (0, s), drv_io = \<lambda>f d a z b s. Some (int (unat z), s), drv_control = \<lambda>f d c a s. Some (0, s),
      drv_status = \<lambda>f d s. Some (0, s)\<rparr>"

end
