(* ===== verification/Devices.thy ===== *)
theory Devices
  imports Tarfs
begin

text \<open>
  What all device drivers do at start-up: allocate an \<open>io_node\<close>, fill in the driver's functions, and create a node
  for it in the directory \<^verbatim>\<open>/dev\<close>. The functions of a driver have a common prefix in their names, e.g.
  \<^verbatim>\<open>vga_dev_\<close>. The drivers call this code before the tar image is mounted, so the code behind the function pointers
  of the file systems is a parameter here too.
\<close>

subsection \<open>A device node\<close>

definition sizeof_io_node :: u32 where "sizeof_io_node = 44"
definition DEVFS_CHAR_DEV :: u32 where "DEVFS_CHAR_DEV = 2"

definition device_node :: "u32 \<Rightarrow> string \<Rightarrow> u32 \<Rightarrow> string \<Rightarrow> ptr \<Rightarrow> io_node" where
  "device_node no nm sz prefix base =
     \<lparr>io_node_no = no, io_node_type = DEVFS_CHAR_DEV, io_node_name = nm, io_node_size = sz,
      io_open = Sym (prefix @ ''open''), io_close = Sym (prefix @ ''close''), io_read = Sym (prefix @ ''read''),
      io_write = Sym (prefix @ ''write''), io_control = Sym (prefix @ ''control''), io_status = Sym (prefix @ ''status''),
      io_base_pointer = base\<rparr>"

text \<open>The result: the device and its file.\<close>

definition add_device ::
  "'z devfs_scheme calls \<Rightarrow> string \<Rightarrow> u32 \<Rightarrow> string \<Rightarrow> ptr \<Rightarrow> 'z devfs_scheme \<Rightarrow> ((ptr \<times> ptr) \<times> 'z devfs_scheme) option"
where
  "add_device cs nm sz prefix base s = do {
     (device, s) \<leftarrow> kern_malloc sizeof_io_node s;
     if device = 0 then None
     else do {
       let (no, s) = get_device_node_no s;
       let s = s\<lparr>io_nodes := (io_nodes s)(device \<mapsto> device_node (word_of_int no) nm sz prefix base)\<rparr>;
       (dir, s) \<leftarrow> vfs_find_node cs (Some ''/dev'') s;
       (dfile, s) \<leftarrow> create_node_vfs cs dir (Some nm) VFS_NODE_TYPE_CHRD device s;
       Some ((device, dfile), s)
     }
   }"

subsection \<open>The device is found by its path\<close>

lemma heap_budget_dev [simp]:
  "heap_budget k (s\<lparr>device_node_no := n\<rparr>) = heap_budget k s" "heap_budget k (s\<lparr>io_nodes := v\<rparr>) = heap_budget k s"
  "kern_live (s\<lparr>device_node_no := n\<rparr>) = kern_live s" "kern_live (s\<lparr>io_nodes := v\<rparr>) = kern_live s" for s :: "'z devfs_scheme"
  by (simp_all add: heap_budget_def wf_heap_def wf_blocks_def kern_live_def)

lemma devfs_mounted_cong:
  fixes s s' :: "'z devfs_scheme"
  assumes "devfs_mounted r ts nd s" "vnodes s' = vnodes s" "vfs_mountpoint_tree s' = vfs_mountpoint_tree s"
    "root_node s' = root_node s" "devices s' = devices s" "kern_live s \<subseteq> kern_live s'"
  shows "devfs_mounted r ts nd s'"
  using assms unfolding devfs_mounted_def last_child_def vfs_wf_def by auto

definition add_device_cost :: nat where
  "add_device_cost = alloc_cost sizeof_io_node + (find_cost ''/dev'' + alloc_cost sizeof_vnode)"

lemma devfs_tail_vm: "vm.more s' = vm.more s \<Longrightarrow> devfs.more s' = devfs.more s" for s s' :: "'z devfs_scheme"
  by (cases s, cases s') simp

lemma create_node_devfs_tail:
  fixes s :: "'z devfs_scheme"
  assumes "create_node_devfs n nm ty base s = Some (q, s')" and m: "\<And>p s1. kern_malloc sizeof_vnode s = Some (p, s1) \<Longrightarrow> vm.more s1 = vm.more s"
  shows "devfs.more s' = devfs.more s" "filesystem_id s' = filesystem_id s" "registered_filesystems s' = registered_filesystems s"
proof -
  obtain p s1 v d where "s' = s \<or> kern_malloc sizeof_vnode s = Some (p, s1) \<and> s' = s1\<lparr>vnodes := v, devices := d\<rparr>"
    using assms(1) by (auto simp: create_node_devfs_def bind_eq_Some_conv split: option.splits if_splits)
  then show "devfs.more s' = devfs.more s" "filesystem_id s' = filesystem_id s" "registered_filesystems s' = registered_filesystems s"
    using m devfs_tail_vm[of s1 s] vfs_more[of s1 s] by auto
qed

context devfs_code
begin

lemma add_device_ok:
  fixes s :: "'z devfs_scheme"
  assumes m: "devfs_mounted r ts nd s" "nd_name nd = ''dev''" and nm: "component nm" "length nm < 2 ^ 28"
    and new: "\<forall>d\<in>set (devices s). nd_name (the (vnodes s d)) \<noteq> nm" and b: "heap_budget (add_device_cost + k) s"
  obtains d q s' nd' where "add_device cs nm sz prefix base s = Some ((d, q), s')" "d \<noteq> 0" "q \<noteq> 0" "d \<notin> kern_live s"
    "q \<notin> dom (vnodes s)" "vnodes s' = (vnodes s)(q \<mapsto> nd')" "nd_name nd' = nm" "base_pointer nd' = d" "node_read nd' = Sym ''read_node_devfs''"
    "node_write nd' = Sym ''write_node_devfs''" "devices s' = devices s @ [q]" "root_node s' = root_node s"
    "io_nodes s' = (io_nodes s)(d \<mapsto> device_node (word_of_int (device_node_no s + 1)) nm sz prefix base)"
    "devfs_mounted r ts nd s'" "heap_budget k s'" "devfs.more s' = devfs.more s" "nd_size nd' = sz"
    "filesystem_id s' = filesystem_id s" "registered_filesystems s' = registered_filesystems s" "heap_kept 8 s s'"
proof -
  let ?dev = "device_node (word_of_int (device_node_no s + 1)) nm sz prefix base"
  have b0: "heap_budget (alloc_cost sizeof_io_node + (find_cost ''/dev'' + (alloc_cost sizeof_vnode + k))) s"
    using b by (simp add: add_device_cost_def add.assoc)
  obtain d s1 where s1: "kern_malloc sizeof_io_node s = Some (d, s1)" "d \<noteq> 0" "d \<notin> kern_live s" "kern_live s1 = insert d (kern_live s)"
    "heap_budget (find_cost ''/dev'' + (alloc_cost sizeof_vnode + k)) s1" "vm.more s1 = vm.more s" "\<And>h. heap_kept h s s1"
    by (rule malloc_live[OF b0]) (simp_all add: sizeof_io_node_def)
  note more1 = vfs_more[OF s1(6)] devfs_more[OF s1(6)]
  define s2 where "s2 = s1\<lparr>device_node_no := device_node_no s + 1, io_nodes := (io_nodes s)(d \<mapsto> ?dev)\<rparr>"
  have m2: "devfs_mounted r ts nd s2" by (rule devfs_mounted_cong[OF m(1)]) (use s1(4) in \<open>auto simp: s2_def more1\<close>)
  then have l: "last_child r ts (root_node s2) [] nd s2" "node_create nd = Sym ''create_node_devfs''"
    by (simp_all add: devfs_mounted_def)
  have b2: "heap_budget (find_cost (CHR ''/'' # nd_name nd) + (alloc_cost sizeof_vnode + k)) s2" using s1(5) m(2) by (simp add: s2_def)
  obtain s3 where s3: "vfs_find_node cs (Some (CHR ''/'' # nd_name nd)) s2 = Some (root_node s2, s3)" "vm.more s3 = vm.more s2"
    "heap_budget (alloc_cost sizeof_vnode + k) s3" "kern_live s3 = kern_live s2" "\<And>h. length (nd_name nd) + 2 < h \<Longrightarrow> heap_kept h s2 s3"
    by (rule find_mounted[OF l(1) b2, of cs]) blast
  note more3 = vfs_more[OF s3(2)] devfs_more[OF s3(2)]
  have m3: "devfs_mounted r ts nd s3" by (rule devfs_mounted_cong[OF m2]) (use s3(4) in \<open>auto simp: more3\<close>)
  have c: "creatable nm VFS_NODE_TYPE_CHRD d ?dev s3"
    using nm new s1(2) by (simp add: creatable_def more3) (simp add: s2_def more1 VFS_NODE_TYPE_CHRD_def)
  obtain q s4 nd' where s4: "create_node_devfs (root_node s3) (Some nm) VFS_NODE_TYPE_CHRD d s3 = Some (q, s4)" "q \<noteq> 0" "q \<notin> dom (vnodes s3)"
    "vnodes s4 = (vnodes s3)(q \<mapsto> nd')" "nd_name nd' = nm" "base_pointer nd' = d" "node_read nd' = Sym ''read_node_devfs''"
    "node_write nd' = Sym ''write_node_devfs''" "devices s4 = devices s3 @ [q]" "io_nodes s4 = io_nodes s3" "root_node s4 = root_node s3"
    "devfs_mounted r ts nd s4" "heap_budget k s4" "nd_size nd' = io_node_size ?dev" "\<And>h. heap_kept h s3 s4"
    by (rule create_node_devfs_ok[OF m3 c s3(3)]) blast
  have "create_node_vfs cs (root_node s3) (Some nm) VFS_NODE_TYPE_CHRD d s3 = Some (q, s4)"
    using s4(1) create_device[OF m3 s1(2), of VFS_NODE_TYPE_CHRD nm] by (simp add: VFS_NODE_TYPE_CHRD_def)
  moreover have "heap_kept 8 s1 s2" by (rule heap_kept_cong) (simp_all add: s2_def)
  then have "heap_kept 8 s s2" by (rule heap_kept_trans[OF s1(7)])
  then have "heap_kept 8 s s3" by (rule heap_kept_trans) (rule s3(5), simp add: m(2))
  then have kept: "heap_kept 8 s s4" by (rule heap_kept_trans[OF _ s4(15)])
  ultimately have run: "add_device cs nm sz prefix base s = Some ((d, q), s4)"
    using s1(1,2) s3(1) more3 m(2) by (simp add: add_device_def get_device_node_no_def Let_def more1 s2_def)
  have "vm.more s3' = vm.more s3" if "kern_malloc sizeof_vnode s3 = Some (p, s3')" for p s3'
    using malloc_live[OF s3(3)] that by (fastforce simp: sizeof_vnode_def)
  note tl4 = create_node_devfs_tail[OF s4(1) this]
  have "devfs.more s3 = devfs.more s" using devfs_tail_vm[OF s3(2)] devfs_tail_vm[OF s1(6)] by (simp add: s2_def)
  moreover have "filesystem_id s3 = filesystem_id s" "registered_filesystems s3 = registered_filesystems s" by (simp_all add: more3) (simp_all add: s2_def more1)
  ultimately have tail: "devfs.more s4 = devfs.more s" "filesystem_id s4 = filesystem_id s" "registered_filesystems s4 = registered_filesystems s"
    using tl4 by simp_all
  have vn: "vnodes s3 = vnodes s" "devices s3 = devices s" "root_node s3 = root_node s" "io_nodes s3 = (io_nodes s)(d \<mapsto> ?dev)"
    by (simp_all add: more3) (simp_all add: s2_def more1)
  show ?thesis by (rule that[OF run s1(2) s4(2) s1(3)]) (use s4 vn tail kept in \<open>auto simp: device_node_def\<close>)
qed

end

text \<open>The code of tarfs in front of the code of devfs.\<close>

interpretation tv: devfs_code "tarfs_calls (devfs_calls dr other)" for dr :: "'z devfs_scheme drivers" and other
  by unfold_locales (simp_all add: tarfs_calls_def tarfs_files_def Let_def dv.finddir dv.create)

end
