(* ===== verification/Initrd.thy ===== *)
theory Initrd
  imports Devices
begin

text \<open>
  The modules that the boot loader puts into memory, \<^verbatim>\<open>kernel/mboot/mboot_modules.c\<close>, and the ram disk over one of
  them, \<^verbatim>\<open>drivers/devices/storage/initrd.c\<close>. The module table is the list \<open>module_definitions\<close>; the memory of a module
  is part of \<open>kh_bytes\<close>.
\<close>

subsection \<open>Boot modules\<close>

definition MAGIC :: u32 where "MAGIC = 0x2BADB002"

record mboot_mod =
  mod_start :: ptr
  mod_end :: ptr
  mod_cmd :: string

record initrd = devfs +
  module_definitions :: "mboot_mod list"
  initrd_memory_start :: ptr
  initrd_memory_end :: ptr
  initrd_memory_length :: u32
  initrd_device :: ptr
  initrd_device_file :: ptr
  initrd_status :: int

definition parse_multiboot_modules :: "u32 \<Rightarrow> u32 \<Rightarrow> mboot_mod list \<Rightarrow> 'z initrd_scheme \<Rightarrow> 'z initrd_scheme" where
  "parse_multiboot_modules magic flags mods s =
     (if magic = MAGIC \<and> flags AND push_bit 3 1 \<noteq> 0 then s\<lparr>module_definitions := mods\<rparr> else s)"

text \<open>The last module with the name; without one the result is an uninitialised structure, \<open>None\<close> here.\<close>

fun last_module :: "string \<Rightarrow> mboot_mod option \<Rightarrow> mboot_mod list \<Rightarrow> mboot_mod option" where
  "last_module mod_name r [] = r"
| "last_module mod_name r (d # ds) = last_module mod_name (if strcmp mod_name (mod_cmd d) = 0 then Some d else r) ds"

definition get_mod_def_by_name :: "string \<Rightarrow> 'z initrd_scheme \<Rightarrow> mboot_mod option" where
  "get_mod_def_by_name mod_name s = last_module mod_name None (module_definitions s)"

subsection \<open>The ram disk\<close>

definition initialise_initrd :: "'z initrd_scheme calls \<Rightarrow> 'z initrd_scheme \<Rightarrow> 'z initrd_scheme option" where
  "initialise_initrd cs s = do {
     initrd \<leftarrow> get_mod_def_by_name ''dbos.initrd'' s;
     let s = s\<lparr>initrd_memory_start := mod_start initrd, initrd_memory_end := mod_end initrd,
               initrd_memory_length := mod_end initrd - mod_start initrd\<rparr>;
     ((d, f), s) \<leftarrow> add_device cs ''ramdisk'' (initrd_memory_length s) ''initrd_dev_'' (initrd_memory_start s) s;
     Some (s\<lparr>initrd_device := d, initrd_device_file := f, initrd_status := 1\<rparr>)
   }"

definition initrd_dev_open :: "ptr \<Rightarrow> 'z initrd_scheme \<Rightarrow> int \<times> 'z initrd_scheme" where
  "initrd_dev_open device s = (0, s)"

definition initrd_dev_close :: "ptr \<Rightarrow> 'z initrd_scheme \<Rightarrow> int \<times> 'z initrd_scheme" where
  "initrd_dev_close device s = (0, s)"

definition initrd_dev_read :: "ptr \<Rightarrow> u32 \<Rightarrow> u32 \<Rightarrow> ptr \<Rightarrow> 'z initrd_scheme \<Rightarrow> int \<times> 'z initrd_scheme" where
  "initrd_dev_read device start_at sz buffer s =
     (if initrd_memory_start s = 0 \<or> initrd_memory_end s = 0 then (-1, s)
      else if start_at > initrd_memory_length s then (-1, s)
      else let sz = (if start_at + sz > initrd_memory_length s then initrd_memory_length s - start_at else sz)
           in (sint sz, s\<lparr>kh_bytes := memcpy_8 buffer (initrd_memory_start s + start_at) sz (kh_bytes s)\<rparr>))"

definition initrd_dev_write :: "ptr \<Rightarrow> u32 \<Rightarrow> u32 \<Rightarrow> ptr \<Rightarrow> 'z initrd_scheme \<Rightarrow> int \<times> 'z initrd_scheme" where
  "initrd_dev_write device start_at sz buffer s = (0, s)"

definition initrd_dev_control :: "ptr \<Rightarrow> u32 \<Rightarrow> ptr \<Rightarrow> 'z initrd_scheme \<Rightarrow> int \<times> 'z initrd_scheme" where
  "initrd_dev_control device command arguments s = (0, s)"

definition initrd_dev_status :: "ptr \<Rightarrow> 'z initrd_scheme \<Rightarrow> u32" where
  "initrd_dev_status device s = (if device = initrd_device s then word_of_int (initrd_status s) else 0xFFFFFFFF)"

text \<open>The code behind the function pointers of the device.\<close>

definition initrd_drivers :: "'z initrd_scheme drivers \<Rightarrow> 'z initrd_scheme drivers" where
  "initrd_drivers other =
     \<lparr>drv_node = (\<lambda>f d s. if f = ''initrd_dev_open'' then Some (initrd_dev_open d s)
                          else if f = ''initrd_dev_close'' then Some (initrd_dev_close d s) else drv_node other f d s),
      drv_io = (\<lambda>f d a z b s. if f = ''initrd_dev_read'' then Some (initrd_dev_read d a z b s)
                              else if f = ''initrd_dev_write'' then Some (initrd_dev_write d a z b s) else drv_io other f d a z b s),
      drv_control = (\<lambda>f d c a s. if f = ''initrd_dev_control'' then Some (initrd_dev_control d c a s) else drv_control other f d c a s),
      drv_status = (\<lambda>f d s. if f = ''initrd_dev_status'' then Some (initrd_dev_status d s, s) else drv_status other f d s)\<rparr>"

subsection \<open>Finding a module\<close>

lemma last_module_eq:
  "last_module nm r ds = (case filter (\<lambda>d. mod_cmd d = nm) ds of [] \<Rightarrow> r | ms \<Rightarrow> Some (last ms))"
  by (induction ds arbitrary: r) (auto simp: strcmp_eq split: list.splits)

subsection \<open>Reading the ram disk\<close>

text \<open>
  A read below the end of the disk returns the bytes of the module from the position on, up to its end. The sum of
  position and size must not wrap around.
\<close>

lemma initrd_read:
  assumes "initrd_memory_start s \<noteq> 0" "initrd_memory_end s \<noteq> 0" "start_at \<le> initrd_memory_length s"
    "unat start_at + unat sz < 2 ^ 32" "unat (initrd_memory_length s) < 2 ^ 31"
    "apart buffer (initrd_memory_start s + start_at) (min sz (initrd_memory_length s - start_at))"
  defines "n \<equiv> min sz (initrd_memory_length s - start_at)"
  obtains s' where "initrd_dev_read device start_at sz buffer s = (int (unat n), s')" "reads_from buffer (initrd_memory_start s + start_at) n s s'"
proof -
  let ?len = "initrd_memory_length s"
  have sum: "unat (start_at + sz) = unat start_at + unat sz" using assms(4) by (simp add: unat_word_ariths)
  have "unat (?len - start_at) = unat ?len - unat start_at" using assms(3) by (simp add: unat_sub)
  then have n: "(if start_at + sz > ?len then ?len - start_at else sz) = n"
    unfolding n_def using sum assms(3) by (auto simp: min_def word_less_nat_alt word_le_nat_alt)
  have "n \<le> ?len - start_at" by (simp add: n_def)
  moreover have "?len - start_at \<le> ?len" using assms(3) by (simp add: word_le_nat_alt unat_sub)
  ultimately have "unat n < 2 ^ 31" using assms(5) by (simp add: word_le_nat_alt)
  then have si: "sint n = int (unat n)" by (rule sint_small)
  let ?s' = "s\<lparr>kh_bytes := memcpy_8 buffer (initrd_memory_start s + start_at) n (kh_bytes s)\<rparr>"
  have "initrd_dev_read device start_at sz buffer s = (int (unat n), ?s')"
    using assms(1-3) si n by (simp add: initrd_dev_read_def Let_def linorder_not_less[symmetric])
  moreover have "reads_from buffer (initrd_memory_start s + start_at) n s ?s'"
    using assms(6) memcpy_8_apply[of n "initrd_memory_start s + start_at" buffer "kh_bytes s"]
    by (simp add: reads_from_def apart_def n_def)
  ultimately show ?thesis using that by blast
qed

end
