(* ===== verification/Boot.thy ===== *)
theory Boot
  imports Initrd
begin

text \<open>
  The file system part of \<^verbatim>\<open>kmain\<close>: with devfs mounted at \<^verbatim>\<open>/dev\<close>, the ram disk becomes a device, and
  \<^verbatim>\<open>create_tarfs_filesystem("/dev/ramdisk", "/")\<close> puts the archive in the place of the root's stub directory.
\<close>

subsection \<open>Mounting at the root\<close>

lemma root_node_heap [simp]:
  "heap_budget k (s\<lparr>vfs_root_node := n\<rparr>) = heap_budget k s" "kern_live (s\<lparr>vfs_root_node := n\<rparr>) = kern_live s" for s :: "'z vfs_scheme"
  by (simp_all add: heap_budget_def wf_heap_def wf_blocks_def kern_live_def)

lemma mount_root_ok:
  fixes s :: "'z vfs_scheme"
  assumes t: "vfs_mountpoint_tree s = Some (GTree r ts)" "vnodes s r = Some rn" "type_flags rn = VFS_NODE_TYPE_SDIR" "node \<noteq> 0"
    and b: "heap_budget (alloc_cost 2 + k) s"
  obtains s' where "mount_in_vfs node (Some ''/'') s = Some (node, s')" "vfs_mountpoint_tree s' = Some (GTree node ts)" "vfs_root_node s' = node"
    "vnodes s' = vnodes s" "heap_budget k s'" "kern_live s' = kern_live s" "vfs.more s' = vfs.more s"
proof -
  obtain it s1 where s1: "kern_malloc 2 s = Some (it, s1)" "it \<noteq> 0" "it \<notin> kern_live s" "kern_live s1 = insert it (kern_live s)"
    "heap_budget k s1" "vm.more s1 = vm.more s" by (rule malloc_live[OF b]) simp
  note more1 = vfs_more[OF s1(6)]
  define s2 where "s2 = s1\<lparr>vfs_mountpoint_tree := Some (GTree node ts), vfs_root_node := node\<rparr>"
  have b2: "heap_budget k s2" using s1(5) by (simp add: s2_def)
  have l2: "kern_live s2 = kern_live s1" by (simp add: s2_def)
  then have "it \<in> kern_live s2" using s1(4) by simp
  from kern_free_budget[OF b2 this] obtain s3 where s3: "kern_free it s2 = Some s3" "heap_budget k s3"
    "kern_live s3 = kern_live s2 - {it}" "vm.more s3 = vm.more s2" by blast
  have "mount_at_root node s1 = Some (node, s2)" using t by (simp add: mount_at_root_def more1 s2_def)
  moreover have "parse_path ''/'' = (1, [NUL])" by simp
  ultimately have run: "mount_in_vfs node (Some ''/'') s = Some (node, s3)"
    using s1(1,2) s3(1) t(4) by (simp add: mount_in_vfs_def first_char_def Let_def numeral_2_eq_2 del: parse_path.simps)
  have live: "kern_live s3 = kern_live s" using s3(3) l2 s1(3,4) by auto
  note more3 = vfs_more[OF s3(4)]
  show ?thesis by (rule that[OF run]) (use s3(2) live in \<open>simp_all add: more3\<close>, simp_all add: s2_def more1)
qed

subsection \<open>The archive as the root\<close>

definition create_tarfs_cost :: "string \<Rightarrow> nat" where
  "create_tarfs_cost path = alloc_cost 10 + (alloc_cost 8 + (find_cost path + (alloc_cost sizeof_vnode + alloc_cost 2)))"

text \<open>The identifier is taken and registered; all holes of the heap are too small for it.\<close>

lemma take_and_register:
  fixes s :: "'z devfs_scheme"
  assumes b: "heap_budget (alloc_cost 10 + (alloc_cost 8 + k)) s" and ids: "idents_ok s" and h: "small_holes 8 s"
  obtains p s1 s2 where "get_filesystem_id s = Some (p, s1)" "p \<noteq> 0" "register_filesystem_in_vfs p (Sym m) s1 = Some s2"
    "find_registered (heap_byte s2) p (registered_filesystems s2) = Some (Some (p, m))"
    "heap_budget k s2" "kern_live s \<subseteq> kern_live s2" "vnodes s2 = vnodes s" "vfs_mountpoint_tree s2 = vfs_mountpoint_tree s"
    "node_number s2 = node_number s" "vfs.more s2 = vfs.more s"
proof -
  have n: "0xF000 \<le> filesystem_id s" using ids by (simp add: idents_ok_def)
  obtain p s1 where s1: "get_filesystem_id s = Some (p, s1\<lparr>filesystem_id := filesystem_id s + 1\<rparr>)" "p \<noteq> 0"
    "kern_live s1 = insert p (kern_live s)" "heap_budget (alloc_cost 8 + k) s1" "vm.more s1 = vm.more s" "heap_kept 8 s s1"
    "holds_at p (filesystem_ident (filesystem_id s)) s1"
    by (rule filesystem_id_ok[OF b h n])
  note more1 = vfs_more[OF s1(5)]
  define s2 where "s2 = s1\<lparr>filesystem_id := filesystem_id s + 1\<rparr>"
  have same: "holds_at x t s2 = holds_at x t s1" for x t by (simp add: holds_at_def s2_def)
  have ids2: "\<forall>r\<in>set (registered_filesystems s2). \<exists>i. 0xF000 \<le> i \<and> i < filesystem_id s \<and> holds_at (fst r) (filesystem_ident i) s2"
    using ids s1(6) unfolding same heap_kept_def idents_ok_def by (simp add: s2_def more1) blast
  have p2: "holds_at p (filesystem_ident (filesystem_id s)) s2" "heap_budget (alloc_cost 8 + k) s2"
    using s1(4,7) by (simp add: same, simp add: s2_def)
  obtain s3 where s3: "register_filesystem_in_vfs p (Sym m) s2 = Some s3"
    "find_registered (heap_byte s3) p (registered_filesystems s3) = Some (Some (p, m))" "heap_budget k s3" "kern_live s2 \<subseteq> kern_live s3"
    "vnodes s3 = vnodes s2" "vfs_mountpoint_tree s3 = vfs_mountpoint_tree s2" "node_number s3 = node_number s2" "vfs.more s3 = vfs.more s2"
    by (rule register_ok[OF p2(2) s1(2) p2(1) n ids2])
  show ?thesis by (rule that[OF s1(1)[folded s2_def] s1(2) s3(1-3)]) (use s3(4-8) s1(3) in \<open>auto simp: s2_def more1\<close>)
qed

lemma create_tarfs_ok:
  fixes s :: "'z devfs_scheme" and dr :: "'z devfs_scheme drivers" and other
  assumes m: "devfs_mounted r ts nd s" and root: "vnodes s r = Some rn" "type_flags rn = VFS_NODE_TYPE_SDIR"
    and dev: "component dn" "length dn < 2 ^ 28" "find_child (vnodes s) dn (devices s) = Some q" "vnodes s q = Some dnd"
      "io_nodes s (base_pointer dnd) = Some d"
    and ids: "idents_ok s" "small_holes 8 s"
    and b: "heap_budget (create_tarfs_cost (device_path nd dn) + k) s"
  defines "cs \<equiv> tarfs_calls (devfs_calls dr other)"
  obtains p s' where "create_tarfs_filesystem cs (Some (device_path nd dn)) (Some ''/'') s = Some (p, s')" "p \<noteq> 0" "p \<notin> dom (vnodes s)"
    "vfs_mountpoint_tree s' = Some (GTree p (ts @ [GTree (root_node s) []]))" "vfs_root_node s' = p"
    "vnodes s' = (vnodes s)(p \<mapsto> tarfs_node ''/'' (word_of_int (node_number s + 1)) (nd_size dnd) VFS_NODE_TYPE_DIRE (io_base_pointer d))"
    "heap_budget k s'"
proof -
  have b0: "heap_budget (alloc_cost 10 + (alloc_cost 8 + (find_cost (device_path nd dn) + (alloc_cost sizeof_vnode + (alloc_cost 2 + k))))) s"
    using b by (simp only: create_tarfs_cost_def add.assoc)
  obtain ident s1 s2 where id: "get_filesystem_id s = Some (ident, s1)" "ident \<noteq> 0" "register_filesystem_in_vfs ident (Sym ''mount_tarfs'') s1 = Some s2"
    "find_registered (heap_byte s2) ident (registered_filesystems s2) = Some (Some (ident, ''mount_tarfs''))" and s2:
    "heap_budget (find_cost (device_path nd dn) + (alloc_cost sizeof_vnode + (alloc_cost 2 + k))) s2" "kern_live s \<subseteq> kern_live s2"
    "vnodes s2 = vnodes s" "vfs_mountpoint_tree s2 = vfs_mountpoint_tree s" "node_number s2 = node_number s" "vfs.more s2 = vfs.more s"
    by (rule take_and_register[OF b0 ids, of "''mount_tarfs''"])
  note dv2 = vfs_ext_devfs[OF s2(6)]
  have m2: "devfs_mounted r ts nd s2" by (rule devfs_mounted_cong[OF m]) (use s2 dv2 in auto)
  have fc: "find_child (vnodes s2) dn (devices s2) = Some q" using dev(3) by (simp add: s2(3) dv2)
  obtain s3 where s3: "vfs_find_node cs (Some (device_path nd dn)) s2 = Some (q, s3)" "vm.more s3 = vm.more s2"
    "heap_budget (alloc_cost sizeof_vnode + (alloc_cost 2 + k)) s3" "kern_live s3 = kern_live s2"
    unfolding cs_def by (rule tv.find_device[OF m2 dev(1,2) fc s2(1)])
  obtain p s4 where s4: "kern_malloc sizeof_vnode s3 = Some (p, s4)" "p \<noteq> 0" "p \<notin> kern_live s3" "heap_budget (alloc_cost 2 + k) s4"
    "vm.more s4 = vm.more s3" by (rule malloc_live[OF s3(3)]) (simp add: sizeof_vnode_def)
  have m4: "vm.more s4 = vm.more s2" using s4(5) s3(2) by simp
  note more4 = vfs_more[OF m4] devfs_more[OF m4]
  let ?nd = "tarfs_node ''/'' (word_of_int (node_number s + 1)) (nd_size dnd) VFS_NODE_TYPE_DIRE (io_base_pointer d)"
  define s5 where "s5 = s4\<lparr>node_number := node_number s + 1, vnodes := (vnodes s)(p \<mapsto> ?nd)\<rparr>"
  have wf: "vfs_wf s" "vfs_mountpoint_tree s = Some (GTree r (ts @ [GTree (root_node s) []]))" using m by (auto simp: devfs_mounted_def last_child_def)
  have p: "p \<notin> dom (vnodes s)" using wf(1) s4(3) s3(4) s2(2) by (auto simp: vfs_wf_def)
  then have pr: "p \<noteq> r" "p \<noteq> q" using root(1) dev(4) by auto
  have "vfs_mountpoint_tree s5 = Some (GTree r (ts @ [GTree (root_node s) []]))" "vnodes s5 r = Some rn" "heap_budget (alloc_cost 2 + k) s5"
    using wf(2) root(1) pr s4(4) by (simp_all add: s5_def more4 s2(4))
  from mount_root_ok[OF this(1,2) root(2) s4(2) this(3)]
  obtain s6 where s6: "mount_in_vfs p (Some ''/'') s5 = Some (p, s6)" "vfs_mountpoint_tree s6 = Some (GTree p (ts @ [GTree (root_node s) []]))"
    "vfs_root_node s6 = p" "vnodes s6 = vnodes s5" "heap_budget k s6" by blast
  have "mount_tarfs q ''/'' s3 = Some (p, s6)"
    using s4(1,2) s6(1) dev(4,5) pr by (simp add: mount_tarfs_def get_node_no_def Let_def more4 s2 dv2 s5_def)
  moreover have "call_mount cs ''mount_tarfs'' = mount_tarfs" by (simp add: cs_def tarfs_calls_def Let_def fun_eq_iff)
  ultimately have run: "create_tarfs_filesystem cs (Some (device_path nd dn)) (Some ''/'') s = Some (p, s6)"
    using id s3(1) by (simp add: create_tarfs_filesystem_def mount_filesystem_in_vfs_def)
  show ?thesis by (rule that[OF run s4(2) p s6(2,3) _ s6(5)]) (simp add: s6(4) s5_def)
qed

subsection \<open>From the module to the root directory\<close>

definition boot_cost :: nat where
  "boot_cost = add_device_cost + create_tarfs_cost ''/dev/ramdisk''"

lemma boot_archive:
  fixes s :: "'z initrd_scheme" and dr :: "'z initrd_scheme drivers" and other
  assumes m: "devfs_mounted r ts nd s" "nd_name nd = ''dev''" and root: "vnodes s r = Some rn" "type_flags rn = VFS_NODE_TYPE_SDIR"
    and img: "get_mod_def_by_name ''dbos.initrd'' s = Some img" and new: "\<forall>d\<in>set (devices s). nd_name (the (vnodes s d)) \<noteq> ''ramdisk''"
    and ids: "idents_ok s" "small_holes 8 s" and b: "heap_budget boot_cost s"
  defines "cs \<equiv> tarfs_calls (devfs_calls dr other)"
  obtains s1 p s2 no where "initialise_initrd cs s = Some s1" "initrd_dev_status (initrd_device s1) s1 = 1"
    "create_tarfs_filesystem cs (Some ''/dev/ramdisk'') (Some ''/'') s1 = Some (p, s2)" "vfs_find_node cs (Some ''/'') s2 = Some (p, s2)"
    "vfs_mountpoint_tree s2 = Some (GTree p (ts @ [GTree (root_node s) []]))"
    "vnodes s2 p = Some (tarfs_node ''/'' no (mod_end img - mod_start img) VFS_NODE_TYPE_DIRE (mod_start img))"
proof -
  let ?len = "mod_end img - mod_start img"
  define s0 where "s0 = s\<lparr>initrd_memory_start := mod_start img, initrd_memory_end := mod_end img, initrd_memory_length := ?len\<rparr>"
  have eq: "kern_live s0 = kern_live s" "heap_budget k s0 = heap_budget k s" for k
    by (simp_all add: s0_def kern_live_def heap_budget_def wf_heap_def wf_blocks_def)
  have m0: "devfs_mounted r ts nd s0" by (rule devfs_mounted_cong[OF m(1)]) (auto simp: eq, simp_all add: s0_def)
  have new0: "\<forall>d\<in>set (devices s0). nd_name (the (vnodes s0 d)) \<noteq> ''ramdisk''" using new by (simp add: s0_def)
  have b0: "heap_budget (add_device_cost + (create_tarfs_cost ''/dev/ramdisk'' + 0)) s0" using b by (simp add: eq boot_cost_def)
  have nm: "component ''ramdisk''" "length ''ramdisk'' < 2 ^ 28" by (simp_all add: component_def NUL_def)
  obtain d q s1 nd' where s1: "add_device cs ''ramdisk'' ?len ''initrd_dev_'' (mod_start img) s0 = Some ((d, q), s1)" "d \<noteq> 0" "q \<noteq> 0" "d \<notin> kern_live s0"
    "q \<notin> dom (vnodes s0)" "vnodes s1 = (vnodes s0)(q \<mapsto> nd')" "nd_name nd' = ''ramdisk''" "base_pointer nd' = d"
    "node_read nd' = Sym ''read_node_devfs''" "node_write nd' = Sym ''write_node_devfs''" "devices s1 = devices s0 @ [q]" "root_node s1 = root_node s0"
    "io_nodes s1 = (io_nodes s0)(d \<mapsto> device_node (word_of_int (device_node_no s0 + 1)) ''ramdisk'' ?len ''initrd_dev_'' (mod_start img))"
    "devfs_mounted r ts nd s1" "heap_budget (create_tarfs_cost ''/dev/ramdisk'' + 0) s1" "devfs.more s1 = devfs.more s0" "nd_size nd' = ?len"
    "filesystem_id s1 = filesystem_id s0" "registered_filesystems s1 = registered_filesystems s0" "heap_kept 8 s0 s1"
    unfolding cs_def by (rule tv.add_device_ok[OF m0 m(2) nm new0 b0])
  define s2 where "s2 = s1\<lparr>initrd_device := d, initrd_device_file := q, initrd_status := 1\<rparr>"
  have init: "initialise_initrd cs s = Some s2"
    using img s1(1) by (simp add: initialise_initrd_def Let_def s2_def) (simp add: s0_def)
  have eq2: "kern_live s2 = kern_live s1" "heap_budget k s2 = heap_budget k s1" for k
    by (simp_all add: s2_def kern_live_def heap_budget_def wf_heap_def wf_blocks_def)
  have m2: "devfs_mounted r ts nd s2" by (rule devfs_mounted_cong[OF s1(14)]) (auto simp: eq2, simp_all add: s2_def)
  have sel: "vnodes s2 = (vnodes s)(q \<mapsto> nd')" "devices s2 = devices s @ [q]" "root_node s2 = root_node s" "filesystem_id s2 = filesystem_id s"
      "registered_filesystems s2 = registered_filesystems s" "q \<notin> dom (vnodes s)"
    using s1(5,6,11,12,18,19) by (simp_all add: s2_def s0_def)
  have old: "set (devices s) \<subseteq> dom (vnodes s)" using m(1) by (simp add: devfs_mounted_def)
  then have f1: "find_child (vnodes s2) ''ramdisk'' (devices s2) = Some q"
    unfolding sel using sel(6) new s1(7) by (intro find_child_last) auto
  have f2: "vnodes s2 r = Some rn" "vnodes s2 q = Some nd'" using sel(1,6) root(1) by auto
  let ?dev = "device_node (word_of_int (device_node_no s0 + 1)) ''ramdisk'' ?len ''initrd_dev_'' (mod_start img)"
  have f3: "io_nodes s2 (base_pointer nd') = Some ?dev" using s1(8,13) by (simp add: s2_def)
  have "heap_kept 8 s s0" "heap_kept 8 s1 s2" by (rule heap_kept_cong; simp add: s0_def s2_def)+
  then have kept: "heap_kept 8 s s2" using s1(20) heap_kept_trans by blast
  have f4: "idents_ok s2" "small_holes 8 s2" using idents_ok_kept[OF ids(1) kept sel(4,5)] kept ids(2) by (simp_all add: heap_kept_def)
  have f5: "heap_budget (create_tarfs_cost (device_path nd ''ramdisk'') + 0) s2" using s1(15) m(2) by (simp add: eq2)
  obtain p s3 where s3: "create_tarfs_filesystem cs (Some (device_path nd ''ramdisk'')) (Some ''/'') s2 = Some (p, s3)"
    "vfs_mountpoint_tree s3 = Some (GTree p (ts @ [GTree (root_node s2) []]))" "vfs_root_node s3 = p"
    "vnodes s3 = (vnodes s2)(p \<mapsto> tarfs_node ''/'' (word_of_int (node_number s2 + 1)) (nd_size nd') VFS_NODE_TYPE_DIRE (io_base_pointer ?dev))"
    unfolding cs_def by (rule create_tarfs_ok[OF m2 f2(1) root(2) nm f1 f2(2) f3 f4 f5])
  show ?thesis by (rule that[OF init])
    (use s3 s1(17) m(2) sel in \<open>auto simp: vfs_find_node_def initrd_dev_status_def s2_def device_node_def\<close>)
qed

end
