(* ===== verification/Vga.thy ===== *)
theory Vga
  imports Initrd Byte_Memory
begin

text \<open>
  The text screen, \<^verbatim>\<open>drivers/devices/vga/vga.c\<close>: 25 rows of 80 cells in video memory, each a character with a
  colour byte. Video memory is the function \<open>video\<close> from cell numbers; it lies apart from the memory in \<open>kh_bytes\<close>.
  The cursor is moved by port writes. A command that reads its arguments through a null pointer faults.
\<close>

subsection \<open>State\<close>

definition ROWS :: nat where "ROWS = 25"
definition COLS :: nat where "COLS = 80"
definition CRT_VGA_CURS_CONF_PORT :: u16 where "CRT_VGA_CURS_CONF_PORT = 0x3D4"
definition CRT_VGA_CURS_OUTP_PORT :: u16 where "CRT_VGA_CURS_OUTP_PORT = 0x3D5"

definition VGA_CMD_SCROLL :: u32 where "VGA_CMD_SCROLL = 1"
definition VGA_CMD_MOVCRS :: u32 where "VGA_CMD_MOVCRS = 2"
definition VGA_CMD_MOVCRS_XY :: u32 where "VGA_CMD_MOVCRS_XY = 3"
definition VGA_CMD_CLRSCR :: u32 where "VGA_CMD_CLRSCR = 4"
definition VGA_CMD_SET_FG_COLOUR :: u32 where "VGA_CMD_SET_FG_COLOUR = 5"
definition VGA_CMD_GET_FG_COLOUR :: u32 where "VGA_CMD_GET_FG_COLOUR = 6"
definition VGA_CMD_SET_BG_COLOUR :: u32 where "VGA_CMD_SET_BG_COLOUR = 7"
definition VGA_CMD_GET_BG_COLOUR :: u32 where "VGA_CMD_GET_BG_COLOUR = 8"
definition VGA_CMD_GET_W :: u32 where "VGA_CMD_GET_W = 9"
definition VGA_CMD_GET_H :: u32 where "VGA_CMD_GET_H = 10"

lemmas vga_cmds = VGA_CMD_SCROLL_def VGA_CMD_MOVCRS_def VGA_CMD_MOVCRS_XY_def VGA_CMD_CLRSCR_def VGA_CMD_SET_FG_COLOUR_def
  VGA_CMD_GET_FG_COLOUR_def VGA_CMD_SET_BG_COLOUR_def VGA_CMD_GET_BG_COLOUR_def VGA_CMD_GET_W_def VGA_CMD_GET_H_def

record vga = initrd +
  vid_mem :: ptr
  video_memory :: ptr
  video :: "nat \<Rightarrow> u16"
  colour_setting :: u8
  vga_device :: ptr
  vga_device_file :: ptr
  vga_status :: int

subsection \<open>Colours\<close>

definition vga_get_foreground_colour :: "'z vga_scheme \<Rightarrow> u8" where
  "vga_get_foreground_colour s = colour_setting s AND 0x0F"

definition vga_get_background_colour :: "'z vga_scheme \<Rightarrow> u8" where
  "vga_get_background_colour s = drop_bit 4 (colour_setting s)"

definition vga_set_foreground_colour :: "u8 \<Rightarrow> 'z vga_scheme \<Rightarrow> 'z vga_scheme" where
  "vga_set_foreground_colour colour s =
     (let current_bg = drop_bit 4 (colour_setting s) in s\<lparr>colour_setting := push_bit 4 current_bg OR (colour AND 0x0F)\<rparr>)"

definition vga_set_background_colour :: "u8 \<Rightarrow> 'z vga_scheme \<Rightarrow> 'z vga_scheme" where
  "vga_set_background_colour colour s =
     (let current_fg = colour_setting s AND 0x0F in s\<lparr>colour_setting := push_bit 4 colour OR (current_fg AND 0x0F)\<rparr>)"

definition vga_change_colour_settings :: "u8 \<Rightarrow> u8 \<Rightarrow> 'z vga_scheme \<Rightarrow> 'z vga_scheme" where
  "vga_change_colour_settings foreground background s = s\<lparr>colour_setting := push_bit 4 background OR (foreground AND 0x0F)\<rparr>"

definition vga_get_colour_settings :: "'z vga_scheme \<Rightarrow> u8" where
  "vga_get_colour_settings s = colour_setting s"

subsection \<open>The screen\<close>

text \<open>A cell with a character in a colour.\<close>

definition vga_cell :: "u8 \<Rightarrow> u8 \<Rightarrow> u16" where
  "vga_cell c colour = ucast c OR push_bit 8 (ucast colour)"

definition vga_scroll :: "'z vga_scheme \<Rightarrow> 'z vga_scheme" where
  "vga_scroll s =
     (let v = fold (\<lambda>x v. v(x := v (x + COLS))) [0..<(ROWS - 1) * COLS] (video s);
          location = (ROWS - 1) * COLS;
          v = fold (\<lambda>x v. v(x := vga_cell 0x20 (colour_setting s))) [location..<location + COLS] v
      in s\<lparr>video := v\<rparr>)"

definition vga_move_cursor_xy :: "int \<Rightarrow> int \<Rightarrow> 'z vga_scheme \<Rightarrow> 'z vga_scheme" where
  "vga_move_cursor_xy x y s =
     (let cursor_location = word_of_int (y * int COLS + x) :: u16
      in fold (\<lambda>(p, v). write_port_8 p v)
           [(CRT_VGA_CURS_CONF_PORT, 14), (CRT_VGA_CURS_OUTP_PORT, ucast (drop_bit 8 cursor_location)),
            (CRT_VGA_CURS_CONF_PORT, 15), (CRT_VGA_CURS_OUTP_PORT, ucast cursor_location)] s)"

definition vga_move_cursor :: "u32 \<Rightarrow> 'z vga_scheme \<Rightarrow> 'z vga_scheme" where
  "vga_move_cursor location s =
     fold (\<lambda>(p, v). write_port_8 p v)
       [(CRT_VGA_CURS_CONF_PORT, 14), (CRT_VGA_CURS_OUTP_PORT, ucast (drop_bit 8 location)),
        (CRT_VGA_CURS_CONF_PORT, 15), (CRT_VGA_CURS_OUTP_PORT, ucast location)] s"

definition vga_clrscr :: "'z vga_scheme \<Rightarrow> 'z vga_scheme" where
  "vga_clrscr s = vga_move_cursor_xy 0 0 (fold (\<lambda>y. vga_scroll) [0..<ROWS] s)"

subsection \<open>The device\<close>

definition initialise_vga :: "'z vga_scheme calls \<Rightarrow> 'z vga_scheme \<Rightarrow> 'z vga_scheme option" where
  "initialise_vga cs s = do {
     let s = s\<lparr>video_memory := vid_mem s\<rparr>;
     ((d, f), s) \<leftarrow> add_device cs ''vga'' (of_nat (ROWS * COLS)) ''vga_dev_'' (video_memory s) s;
     let s = vga_change_colour_settings 7 0 (s\<lparr>vga_device := d, vga_device_file := f\<rparr>);
     Some (s\<lparr>vga_status := 1\<rparr>)
   }"

definition vga_dev_open :: "ptr \<Rightarrow> 'z vga_scheme \<Rightarrow> int \<times> 'z vga_scheme" where
  "vga_dev_open device s = (0, s)"

definition vga_dev_close :: "ptr \<Rightarrow> 'z vga_scheme \<Rightarrow> int \<times> 'z vga_scheme" where
  "vga_dev_close device s = (0, s)"

text \<open>The loops run over the cells from \<open>start_at\<close> up to the sum with the length, which may wrap around.\<close>

definition vga_dev_read :: "ptr \<Rightarrow> u32 \<Rightarrow> u32 \<Rightarrow> ptr \<Rightarrow> 'z vga_scheme \<Rightarrow> int \<times> 'z vga_scheme" where
  "vga_dev_read device start_at sz buffer s =
     (let video_mem_length = of_nat (ROWS * COLS)
      in if start_at > video_mem_length - 1 then (-1, s)
         else let read_length = (if start_at + sz > video_mem_length then video_mem_length - start_at else sz)
              in (sint read_length, s\<lparr>kh_bytes := fold (\<lambda>j m. m(buffer + of_nat j := ucast (video s (unat start_at + j))))
                    [0..<unat (start_at + read_length) - unat start_at] (kh_bytes s)\<rparr>))"

definition vga_dev_write :: "ptr \<Rightarrow> u32 \<Rightarrow> u32 \<Rightarrow> ptr \<Rightarrow> 'z vga_scheme \<Rightarrow> int \<times> 'z vga_scheme" where
  "vga_dev_write device start_at sz buffer s =
     (let video_mem_length = of_nat (ROWS * COLS)
      in if start_at > video_mem_length - 1 then (-1, s)
         else let written_length = (if start_at + sz > video_mem_length then video_mem_length - start_at else sz)
              in (sint written_length, s\<lparr>video := fold
                    (\<lambda>j v. v(unat start_at + j := vga_cell (kh_bytes s (buffer + of_nat j)) (colour_setting s)))
                    [0..<unat (start_at + written_length) - unat start_at] (video s)\<rparr>))"

definition vga_dev_control :: "ptr \<Rightarrow> u32 \<Rightarrow> ptr \<Rightarrow> 'z vga_scheme \<Rightarrow> (int \<times> 'z vga_scheme) option" where
  "vga_dev_control device command arguments s =
     (let arg = (\<lambda>i. if arguments = 0 then None else Some (load_u32 (arguments + 4 * i) (kh_bytes s)))
      in if device \<noteq> vga_device s \<or> command = 0 then Some (-1, s)
         else if command = VGA_CMD_SCROLL then Some (0, vga_scroll s)
         else if command = VGA_CMD_MOVCRS_XY then do { x \<leftarrow> arg 0; y \<leftarrow> arg 1; Some (0, vga_move_cursor_xy (sint x) (sint y) s) }
         else if command = VGA_CMD_MOVCRS then do { l \<leftarrow> arg 0; Some (0, vga_move_cursor l s) }
         else if command = VGA_CMD_CLRSCR then Some (0, vga_clrscr s)
         else if command = VGA_CMD_GET_W then Some (int COLS, s)
         else if command = VGA_CMD_GET_H then Some (int ROWS, s)
         else if command = VGA_CMD_GET_FG_COLOUR then Some (int (unat (vga_get_foreground_colour s)), s)
         else if command = VGA_CMD_GET_BG_COLOUR then Some (int (unat (vga_get_background_colour s)), s)
         else if command = VGA_CMD_SET_FG_COLOUR then do { c \<leftarrow> arg 0; Some (0, vga_set_foreground_colour (ucast c) s) }
         else if command = VGA_CMD_SET_BG_COLOUR then do { c \<leftarrow> arg 0; Some (0, vga_set_background_colour (ucast c) s) }
         else Some (-1, s))"

definition vga_dev_status :: "ptr \<Rightarrow> 'z vga_scheme \<Rightarrow> u32" where
  "vga_dev_status device s = (if device = vga_device s then word_of_int (vga_status s) else 0xFFFFFFFF)"

definition vga_drivers :: "'z vga_scheme drivers \<Rightarrow> 'z vga_scheme drivers" where
  "vga_drivers other =
     \<lparr>drv_node = (\<lambda>f d s. if f = ''vga_dev_open'' then Some (vga_dev_open d s)
                          else if f = ''vga_dev_close'' then Some (vga_dev_close d s) else drv_node other f d s),
      drv_io = (\<lambda>f d a z b s. if f = ''vga_dev_read'' then Some (vga_dev_read d a z b s)
                              else if f = ''vga_dev_write'' then Some (vga_dev_write d a z b s) else drv_io other f d a z b s),
      drv_control = (\<lambda>f d c a s. if f = ''vga_dev_control'' then vga_dev_control d c a s else drv_control other f d c a s),
      drv_status = (\<lambda>f d s. if f = ''vga_dev_status'' then Some (vga_dev_status d s, s) else drv_status other f d s)\<rparr>"

subsection \<open>Loops over cells\<close>

lemma fill_cells:
  "fold (\<lambda>j v. v(a + j := g j)) [0..<n] v x = (if a \<le> x \<and> x < a + n then g (x - a) else v x)" for v :: "nat \<Rightarrow> 'b"
  by (induction n) (auto simp: less_Suc_eq)

lemma fill_from:
  "fold (\<lambda>x v. v(x := c)) [a..<a + n] v x = (if a \<le> x \<and> x < a + n then c else v x)" for v :: "nat \<Rightarrow> 'b"
  by (induction n) (auto simp: less_Suc_eq)

lemma move_cells:
  "0 < d \<Longrightarrow> fold (\<lambda>x v. v(x := v (x + d))) [0..<n] v x = (if x < n then v (x + d) else v x)" for v :: "nat \<Rightarrow> 'b"
  by (induction n arbitrary: x) (auto simp: less_Suc_eq)

text \<open>Scrolling moves every row up by one and leaves a blank row at the bottom.\<close>

lemma video_scroll:
  "video (vga_scroll s) x =
     (if x < 1920 then video s (x + 80) else if x < 2000 then vga_cell 0x20 (colour_setting s) else video s x)"
proof -
  have c: "0 < COLS" by (simp add: COLS_def)
  have "video (vga_scroll s) x = (if (ROWS - 1) * COLS \<le> x \<and> x < (ROWS - 1) * COLS + COLS then vga_cell 0x20 (colour_setting s)
      else if x < (ROWS - 1) * COLS then video s (x + COLS) else video s x)"
    by (simp add: vga_scroll_def Let_def fill_from move_cells[OF c])
  then show ?thesis by (auto simp: COLS_def ROWS_def)
qed

lemma vga_scroll_frame [simp]:
  "colour_setting (vga_scroll s) = colour_setting s" "vga_device (vga_scroll s) = vga_device s" "kh_bytes (vga_scroll s) = kh_bytes s"
  "port_log (vga_scroll s) = port_log s" "vga.more (vga_scroll s) = vga.more s"
  by (simp_all add: vga_scroll_def Let_def)

lemma video_scrolls:
  "n \<le> 25 \<Longrightarrow> x < 2000 \<Longrightarrow> video (fold (\<lambda>y. vga_scroll) [0..<n] s) x =
     (if x + n * 80 < 2000 then video s (x + n * 80) else vga_cell 0x20 (colour_setting s)) \<and>
   colour_setting (fold (\<lambda>y. vga_scroll) [0..<n] s) = colour_setting s"
proof (induction n arbitrary: x)
  case (Suc n)
  have c: "colour_setting (fold (\<lambda>y. vga_scroll) [0..<n] s) = colour_setting s" using Suc.IH[of x] Suc.prems by simp
  show ?case
  proof (cases "x < 1920")
    case True
    then have "video (fold (\<lambda>y. vga_scroll) [0..<n] s) (x + 80) =
        (if x + 80 + n * 80 < 2000 then video s (x + 80 + n * 80) else vga_cell 0x20 (colour_setting s))"
      using Suc.IH[of "x + 80"] Suc.prems by simp
    then show ?thesis using True c by (simp add: video_scroll add.assoc)
  qed (use Suc.prems c in \<open>simp add: video_scroll\<close>)
qed simp

lemma move_cursor_frame [simp]:
  "video (vga_move_cursor_xy x y s) = video s" "colour_setting (vga_move_cursor_xy x y s) = colour_setting s"
  "video (vga_move_cursor l s) = video s" "colour_setting (vga_move_cursor l s) = colour_setting s"
  "kh_bytes (vga_move_cursor l s) = kh_bytes s" "vga_device (vga_move_cursor l s) = vga_device s" "vga.more (vga_move_cursor l s) = vga.more s"
  by (simp_all add: vga_move_cursor_xy_def vga_move_cursor_def Let_def write_port_8_def)

lemma video_clrscr: "x < 2000 \<Longrightarrow> video (vga_clrscr s) x = vga_cell 0x20 (colour_setting s)"
proof -
  assume x: "x < 2000"
  have r: "ROWS \<le> 25" "\<not> x + ROWS * 80 < 2000" by (simp_all add: ROWS_def)
  then show ?thesis using video_scrolls[OF r(1) x, of s] by (simp add: vga_clrscr_def)
qed

subsection \<open>Writing and reading\<close>

lemma vga_clip:
  fixes a n :: u32
  assumes "unat a < 2000" "unat a + unat n < 2 ^ 32"
  defines "k \<equiv> min (unat n) (2000 - unat a)"
  shows "\<not> a > of_nat (ROWS * COLS) - 1"
    "unat (if a + n > of_nat (ROWS * COLS) then of_nat (ROWS * COLS) - a else n) = k"
    "unat (a + (if a + n > of_nat (ROWS * COLS) then of_nat (ROWS * COLS) - a else n)) - unat a = k"
proof -
  have l: "of_nat (ROWS * COLS) = (2000 :: u32)" by (simp add: ROWS_def COLS_def)
  have s: "unat (a + n) = unat a + unat n" using assms(2) by (simp add: unat_word_ariths)
  have d: "unat (2000 - a) = 2000 - unat a" using assms(1) by (simp add: unat_sub word_le_nat_alt)
  show "\<not> a > of_nat (ROWS * COLS) - 1" unfolding l using assms(1) by (simp add: word_less_nat_alt)
  show k: "unat (if a + n > of_nat (ROWS * COLS) then of_nat (ROWS * COLS) - a else n) = k"
    unfolding l k_def using s d assms(1) by (auto simp: word_less_nat_alt)
  have "unat (a + (if a + n > of_nat (ROWS * COLS) then of_nat (ROWS * COLS) - a else n)) = unat a + k"
    using k assms(1) by (simp add: unat_word_ariths k_def)
  then show "unat (a + (if a + n > of_nat (ROWS * COLS) then of_nat (ROWS * COLS) - a else n)) - unat a = k" by simp
qed

text \<open>A write inside the screen puts the characters in the current colour into its cells, up to the end of the screen.\<close>

lemma vga_write:
  assumes "unat a < 2000" "unat a + unat n < 2 ^ 32"
  defines "k \<equiv> min (unat n) (2000 - unat a)"
  obtains s' where "vga_dev_write d a n buf s = (int k, s')"
    "s' = s\<lparr>video := \<lambda>x. if unat a \<le> x \<and> x < unat a + k then vga_cell (kh_bytes s (buf + of_nat (x - unat a))) (colour_setting s) else video s x\<rparr>"
proof -
  note c = vga_clip[OF assms(1,2), folded k_def]
  let ?n = "if a + n > of_nat (ROWS * COLS) then of_nat (ROWS * COLS) - a else n"
  have "k < 2 ^ 31" by (simp add: k_def)
  then have si: "sint ?n = int k" using c(2) by (metis sint_small)
  let ?v = "fold (\<lambda>j v. v(unat a + j := vga_cell (kh_bytes s (buf + of_nat j)) (colour_setting s))) [0..<k] (video s)"
  have v: "?v = (\<lambda>x. if unat a \<le> x \<and> x < unat a + k then vga_cell (kh_bytes s (buf + of_nat (x - unat a))) (colour_setting s) else video s x)"
    by (rule ext) (rule fill_cells)
  have "vga_dev_write d a n buf s = (sint ?n, s\<lparr>video := fold (\<lambda>j v. v(unat a + j := vga_cell (kh_bytes s (buf + of_nat j)) (colour_setting s)))
      [0..<unat (a + ?n) - unat a] (video s)\<rparr>)"
    using c(1) unfolding vga_dev_write_def Let_def by (simp only: if_False)
  then have "vga_dev_write d a n buf s = (int k, s\<lparr>video := ?v\<rparr>)" unfolding si c(3) .
  then show ?thesis unfolding v by (rule that) (rule refl)
qed

lemma fill_bytes:
  "n < 2 ^ 32 \<Longrightarrow> fold (\<lambda>j m. m(b + of_nat j := g j)) [0..<n] m x = (if unat (x - b) < n then g (unat (x - b)) else m x)" for b :: ptr and m :: "ptr \<Rightarrow> 'b"
proof (induction n)
  case (Suc n)
  have "unat (of_nat n :: u32) = n" using Suc.prems by (simp add: unat_of_nat take_bit_nat_eq_self)
  then have "x = b + of_nat n \<longleftrightarrow> unat (x - b) = n" by (metis add_diff_cancel_left' word_eqI_unat diff_add_cancel add.commute)
  then show ?case using Suc by (auto simp: less_Suc_eq)
qed simp

lemma vga_read:
  assumes "unat a < 2000" "unat a + unat n < 2 ^ 32"
  defines "k \<equiv> min (unat n) (2000 - unat a)"
  shows "vga_dev_read d a n buf s =
    (int k, s\<lparr>kh_bytes := \<lambda>x. if unat (x - buf) < k then ucast (video s (unat a + unat (x - buf))) else kh_bytes s x\<rparr>)"
proof -
  note c = vga_clip[OF assms(1,2), folded k_def]
  let ?n = "if a + n > of_nat (ROWS * COLS) then of_nat (ROWS * COLS) - a else n"
  have k: "k < 2 ^ 31" by (simp add: k_def)
  then have si: "sint ?n = int k" using c(2) by (metis sint_small)
  have m: "fold (\<lambda>j m. m(buf + of_nat j := ucast (video s (unat a + j)))) [0..<k] (kh_bytes s) =
      (\<lambda>x. if unat (x - buf) < k then ucast (video s (unat a + unat (x - buf))) else kh_bytes s x)"
    using k by (intro ext fill_bytes) simp
  have "vga_dev_read d a n buf s = (sint ?n, s\<lparr>kh_bytes := fold (\<lambda>j m. m(buf + of_nat j := ucast (video s (unat a + j))))
      [0..<unat (a + ?n) - unat a] (kh_bytes s)\<rparr>)"
    using c(1) unfolding vga_dev_read_def Let_def by (simp only: if_False)
  then show ?thesis unfolding si c(3) m .
qed

lemma char_of_cell [simp]: "ucast (vga_cell c colour) = c"
  by (rule bit_word_eqI) (simp add: vga_cell_def bit_simps)

lemma vga_write_read:
  assumes a: "unat a < 2000" "unat a + unat n < 2 ^ 32" and k: "k = min (unat n) (2000 - unat a)"
  shows "\<exists>s1 s2. vga_dev_write d a n buf s = (int k, s1) \<and> vga_dev_read d a n buf2 s1 = (int k, s2) \<and>
    (\<forall>i<k. kh_bytes s2 (buf2 + of_nat i) = kh_bytes s (buf + of_nat i))"
proof -
  obtain s1 where s1: "vga_dev_write d a n buf s = (int k, s1)"
    "s1 = s\<lparr>video := \<lambda>x. if unat a \<le> x \<and> x < unat a + k then vga_cell (kh_bytes s (buf + of_nat (x - unat a))) (colour_setting s) else video s x\<rparr>"
    unfolding k by (rule vga_write[OF a])
  obtain s2 where s2: "vga_dev_read d a n buf2 s1 = (int k, s2)"
    "s2 = s1\<lparr>kh_bytes := \<lambda>x. if unat (x - buf2) < k then ucast (video s1 (unat a + unat (x - buf2))) else kh_bytes s1 x\<rparr>"
    using vga_read[OF a, of d buf2 s1] k by blast
  have "kh_bytes s2 (buf2 + of_nat i) = kh_bytes s (buf + of_nat i)" if i: "i < k" for i
  proof -
    have "k \<le> 2000" using k by simp
    then have "i < 2 ^ 32" using i by simp
    then have "unat (of_nat i :: u32) = i" by (simp add: unat_of_nat take_bit_nat_eq_self)
    then show ?thesis using i by (simp add: s2(2) s1(2))
  qed
  then show ?thesis using s1(1) s2(1) by blast
qed

subsection \<open>Colours are kept apart\<close>

lemma colour_roundtrip:
  "vga_get_foreground_colour (vga_set_foreground_colour c s) = c AND 0x0F"
  "vga_get_background_colour (vga_set_foreground_colour c s) = vga_get_background_colour s"
  "vga_get_background_colour (vga_set_background_colour c s) = c AND 0x0F"
  "vga_get_foreground_colour (vga_set_background_colour c s) = vga_get_foreground_colour s"
proof -
  have m: "(0xF :: u8) = mask 4" by (simp add: mask_eq_exp_minus_1)
  have b: "bit w k \<Longrightarrow> k < 8" for w :: u8 and k using bit_imp_le_length[of w k] by simp
  note defs = vga_get_foreground_colour_def vga_set_foreground_colour_def vga_get_background_colour_def vga_set_background_colour_def
  show "vga_get_foreground_colour (vga_set_foreground_colour c s) = c AND 0x0F"
    "vga_get_background_colour (vga_set_foreground_colour c s) = vga_get_background_colour s"
    "vga_get_background_colour (vga_set_background_colour c s) = c AND 0x0F"
    "vga_get_foreground_colour (vga_set_background_colour c s) = vga_get_foreground_colour s"
    unfolding defs m Let_def by (auto simp: bit_eq_iff bit_simps dest: b)
qed

end
