(* ===== verification/Keyboard.thy ===== *)
theory Keyboard
  imports Vga
begin

text \<open>
  The keyboard, \<^verbatim>\<open>drivers/devices/keyboard/keyboard.c\<close>: an interrupt handler reads a scan code, keeps track of the
  modifier keys and gives a value to every registered listener. The listeners are addresses of functions; the code
  behind an address is the parameter \<open>code\<close>. What a port read returns is an argument.
\<close>

subsection \<open>State\<close>

definition KBD_CAPSLCK :: u8 where "KBD_CAPSLCK = 0x3A"
definition KBD_SHIFT_L :: u8 where "KBD_SHIFT_L = 0x2A"
definition KBD_CTRL_L :: u8 where "KBD_CTRL_L = 0x1D"
definition KBD_ALT_L :: u8 where "KBD_ALT_L = 0x38"
definition KBD_SHIFT_R :: u8 where "KBD_SHIFT_R = 0xB6"
definition KBD_SHIFT_LR_R :: u8 where "KBD_SHIFT_LR_R = 0xAA"
definition KBD_SHIFT_R_R :: u8 where "KBD_SHIFT_R_R = 0x36"

text \<open>The keys that are only passed on: escape, the function keys and the arrows.\<close>

definition kbd_special :: "u8 list" where
  "kbd_special = [0x01, 0x3B, 0x3C, 0x3D, 0x3E, 0x3F, 0x40, 0x41, 0x42, 0x43, 0x44, 0x57, 0x58, 0x48, 0x50, 0x4B, 0x4D]"

definition KBD_STATUS_READY :: int where "KBD_STATUS_READY = 1"
definition KBD_STATUS_BUSY :: int where "KBD_STATUS_BUSY = 2"
definition KBD_CMD_REGISTER_LISTENER :: u32 where "KBD_CMD_REGISTER_LISTENER = 1"
definition KBD_VAL_TYPE_REGULAR :: int where "KBD_VAL_TYPE_REGULAR = 1"
definition KBD_VAL_TYPE_SPECIAL :: int where "KBD_VAL_TYPE_SPECIAL = 2"

lemmas kbd_codes = KBD_CAPSLCK_def KBD_SHIFT_L_def KBD_CTRL_L_def KBD_ALT_L_def KBD_SHIFT_R_def KBD_SHIFT_LR_R_def KBD_SHIFT_R_R_def
  kbd_special_def

definition kbd_map :: string where
  "kbd_map = [NUL, NUL] @ ''1234567890-='' @ [CHR 0x08, CHR 0x09] @ ''qwertyuiop[]'' @ [CHR 0x0A, NUL] @ ''asdfghjkl;'' @ [CHR 0x27] @
     [CHR 0x60] @ [NUL] @ ''#zxcvbnm,./'' @ [NUL, NUL, NUL] @ '' '' @ replicate 30 NUL @ [CHR 0x5C] @ replicate 11 NUL"

definition kbd_map_up :: string where
  "kbd_map_up = [NUL, NUL] @ [CHR ''!'', CHR 0x22, NUL] @ ''$%^&*()_+'' @ [CHR 0x08, CHR 0x09] @ ''QWERTYUIOP{}'' @ [CHR 0x0A, NUL] @
     ''ASDFGHJKL:@'' @ [NUL, NUL] @ ''~ZXCVBNM<>?'' @ [NUL, NUL, NUL] @ '' '' @ replicate 30 NUL @ ''|'' @ replicate 11 NUL"

record kbd = vga +
  kbd_lshift :: int
  kbd_rshift :: int
  kbd_lctrl :: int
  kbd_lalt :: int
  kbd_caps :: int
  kbd_device :: ptr
  kbd_device_file :: ptr
  kbd_status :: int
  kbd_listeners :: "ptr list"

type_synonym 's listener_code = "ptr \<Rightarrow> int \<Rightarrow> u8 \<Rightarrow> 's \<Rightarrow> 's option"

subsection \<open>The device\<close>

definition kbd_reset :: "u8 \<Rightarrow> 'z intr_scheme \<Rightarrow> 'z intr_scheme" where
  "kbd_reset tmp s = write_port_8 0x61 (tmp AND 0x7F) (write_port_8 0x61 (tmp OR 0x80) s)"

definition initialise_keyboard ::
  "stubs \<Rightarrow> ptr \<Rightarrow> u8 \<Rightarrow> 'z kbd_scheme calls \<Rightarrow> 'z kbd_scheme \<Rightarrow> 'z kbd_scheme option"
where
  "initialise_keyboard sb handler port61 cs s = do {
     let s = install_interrupt_handler sb 33 handler DPL_KERNEL s;
     let s = s\<lparr>kbd_listeners := []\<rparr>;
     ((d, f), s) \<leftarrow> add_device cs ''kbd'' 0 ''kbd_dev_'' 0 s;
     let s = kbd_reset port61 (s\<lparr>kbd_device := d, kbd_device_file := f\<rparr>);
     Some (s\<lparr>kbd_status := KBD_STATUS_READY\<rparr>)
   }"

definition kbd_dev_open :: "ptr \<Rightarrow> 'z kbd_scheme \<Rightarrow> int \<times> 'z kbd_scheme" where
  "kbd_dev_open device s = (0, s)"

definition kbd_dev_close :: "ptr \<Rightarrow> 'z kbd_scheme \<Rightarrow> int \<times> 'z kbd_scheme" where
  "kbd_dev_close device s = (0, s)"

definition kbd_dev_read :: "ptr \<Rightarrow> u32 \<Rightarrow> u32 \<Rightarrow> ptr \<Rightarrow> 'z kbd_scheme \<Rightarrow> int \<times> 'z kbd_scheme" where
  "kbd_dev_read device start_at sz buffer s = (0, s)"

definition kbd_dev_write :: "ptr \<Rightarrow> u32 \<Rightarrow> u32 \<Rightarrow> ptr \<Rightarrow> 'z kbd_scheme \<Rightarrow> int \<times> 'z kbd_scheme" where
  "kbd_dev_write device start_at sz buffer s = (0, s)"

definition kbd_dev_control :: "ptr \<Rightarrow> u32 \<Rightarrow> ptr \<Rightarrow> 'z kbd_scheme \<Rightarrow> int \<times> 'z kbd_scheme" where
  "kbd_dev_control device command arguments s =
     (if device \<noteq> kbd_device s \<or> command = 0 then (-1, s)
      else if command = KBD_CMD_REGISTER_LISTENER then (0, s\<lparr>kbd_listeners := kbd_listeners s @ [arguments]\<rparr>)
      else (-1, s))"

definition kbd_dev_status :: "ptr \<Rightarrow> 'z kbd_scheme \<Rightarrow> u32" where
  "kbd_dev_status device s = (if device = kbd_device s then word_of_int (kbd_status s) else 0xFFFFFFFF)"

definition kbd_drivers :: "'z kbd_scheme drivers \<Rightarrow> 'z kbd_scheme drivers" where
  "kbd_drivers other =
     \<lparr>drv_node = (\<lambda>f d s. if f = ''kbd_dev_open'' then Some (kbd_dev_open d s)
                          else if f = ''kbd_dev_close'' then Some (kbd_dev_close d s) else drv_node other f d s),
      drv_io = (\<lambda>f d a z b s. if f = ''kbd_dev_read'' then Some (kbd_dev_read d a z b s)
                              else if f = ''kbd_dev_write'' then Some (kbd_dev_write d a z b s) else drv_io other f d a z b s),
      drv_control = (\<lambda>f d c a s. if f = ''kbd_dev_control'' then Some (kbd_dev_control d c a s) else drv_control other f d c a s),
      drv_status = (\<lambda>f d s. if f = ''kbd_dev_status'' then Some (kbd_dev_status d s, s) else drv_status other f d s)\<rparr>"

subsection \<open>The interrupt handler\<close>

fun serve_each :: "'s listener_code \<Rightarrow> ptr list \<Rightarrow> int \<Rightarrow> u8 \<Rightarrow> 's \<Rightarrow> 's option" where
  "serve_each code [] ty val s = Some s"
| "serve_each code (callb # rest) ty val s = do { s \<leftarrow> code callb ty val s; serve_each code rest ty val s }"

definition serve_listeners :: "'z kbd_scheme listener_code \<Rightarrow> int \<Rightarrow> u8 \<Rightarrow> 'z kbd_scheme \<Rightarrow> 'z kbd_scheme option" where
  "serve_listeners code ty val s = serve_each code (kbd_listeners s) ty val s"

definition scan_char :: "u8 \<Rightarrow> 'z kbd_scheme \<Rightarrow> char" where
  "scan_char scan_code s =
     (if kbd_lshift s \<noteq> 0 \<or> (kbd_caps s \<noteq> 0 \<and> kbd_lshift s = 0) then kbd_map_up ! unat scan_code else kbd_map ! unat scan_code)"

definition parse_key :: "'z kbd_scheme listener_code \<Rightarrow> u8 \<Rightarrow> 'z kbd_scheme \<Rightarrow> 'z kbd_scheme option" where
  "parse_key code scan_code s =
     (if scan_code \<in> set kbd_special then serve_listeners code KBD_VAL_TYPE_SPECIAL scan_code s
      else if scan_code = KBD_CAPSLCK
      then serve_listeners code KBD_VAL_TYPE_SPECIAL scan_code (s\<lparr>kbd_caps := if kbd_caps s = 0 then 1 else 0\<rparr>)
      else if scan_code = KBD_SHIFT_L then serve_listeners code KBD_VAL_TYPE_SPECIAL scan_code (s\<lparr>kbd_lshift := 1\<rparr>)
      else if scan_code = KBD_CTRL_L then serve_listeners code KBD_VAL_TYPE_SPECIAL scan_code (s\<lparr>kbd_lctrl := 1\<rparr>)
      else if scan_code = KBD_ALT_L then serve_listeners code KBD_VAL_TYPE_SPECIAL scan_code (s\<lparr>kbd_lalt := 1\<rparr>)
      else if scan_code = KBD_SHIFT_R then serve_listeners code KBD_VAL_TYPE_SPECIAL scan_code (s\<lparr>kbd_rshift := 1\<rparr>)
      else if scan_code = KBD_SHIFT_LR_R
      then serve_listeners code KBD_VAL_TYPE_SPECIAL scan_code (s\<lparr>kbd_lshift := 0, kbd_rshift := 0\<rparr>)
      else if scan_code = KBD_SHIFT_R_R then Some s
      else if 1 \<le> scan_code \<and> scan_code < 100
      then serve_listeners code KBD_VAL_TYPE_REGULAR (of_char (scan_char scan_code s)) s
      else Some s)"

definition parse_scancode ::
  "'z kbd_scheme listener_code \<Rightarrow> u8 \<Rightarrow> registers \<Rightarrow> 'z kbd_scheme \<Rightarrow> (registers \<times> 'z kbd_scheme) option"
where
  "parse_scancode code scan_code regs s = do {
     s \<leftarrow> parse_key code scan_code (s\<lparr>kbd_status := KBD_STATUS_BUSY\<rparr>);
     Some (regs, s\<lparr>kbd_status := KBD_STATUS_READY\<rparr>)
   }"

subsection \<open>The tables\<close>

lemma kbd_map_length [simp]: "length kbd_map = 100" "length kbd_map_up = 100"
  by (simp_all add: kbd_map_def kbd_map_up_def)

text \<open>
  The character at position 88 of the tables, the backslash, is never sent: 88 is the code of F12. The right shift key
  changes no character: its press is ignored, and the flag that its release sets is not looked at.
\<close>

definition regular_code :: "u8 \<Rightarrow> bool" where
  "regular_code c \<longleftrightarrow> c \<notin> set kbd_special \<and> c \<notin> {KBD_CAPSLCK, KBD_SHIFT_L, KBD_CTRL_L, KBD_ALT_L, KBD_SHIFT_R, KBD_SHIFT_LR_R, KBD_SHIFT_R_R} \<and>
     1 \<le> c \<and> c < 100"

lemma backslash_positions: "i < 100 \<Longrightarrow> kbd_map ! i = CHR 0x5C \<Longrightarrow> i = 88" "i < 100 \<Longrightarrow> kbd_map_up ! i \<noteq> CHR 0x5C"
proof -
  have "\<forall>i<100. kbd_map ! i = CHR 0x5C \<longrightarrow> i = 88" "\<forall>i<100. kbd_map_up ! i \<noteq> CHR 0x5C" by code_simp+
  then show "i < 100 \<Longrightarrow> kbd_map ! i = CHR 0x5C \<Longrightarrow> i = 88" "i < 100 \<Longrightarrow> kbd_map_up ! i \<noteq> CHR 0x5C" by blast+
qed

lemma no_backslash: "regular_code c \<Longrightarrow> scan_char c s \<noteq> CHR 0x5C"
proof -
  assume c: "regular_code c"
  then have "unat c < 100" by (simp add: regular_code_def word_less_nat_alt)
  moreover have "unat c \<noteq> 88"
  proof
    assume "unat c = 88"
    then have "c = 88" using word_eqI_unat[of c 88] by simp
    then show False using c by (simp add: regular_code_def kbd_special_def)
  qed
  ultimately show ?thesis using backslash_positions by (auto simp: scan_char_def)
qed

subsection \<open>Modifier keys\<close>

text \<open>A sequence of interrupts.\<close>

fun kbd_run :: "'z kbd_scheme listener_code \<Rightarrow> u8 list \<Rightarrow> registers \<Rightarrow> 'z kbd_scheme \<Rightarrow> 'z kbd_scheme option" where
  "kbd_run code [] regs s = Some s"
| "kbd_run code (c # cs) regs s = do { (regs, s) \<leftarrow> parse_scancode code c regs s; kbd_run code cs regs s }"

text \<open>Whether shift is held after a sequence of codes.\<close>

definition shift_after :: "u8 list \<Rightarrow> bool \<Rightarrow> bool" where
  "shift_after cs held = (case filter (\<lambda>c. c = KBD_SHIFT_L \<or> c = KBD_SHIFT_LR_R) cs of [] \<Rightarrow> held | es \<Rightarrow> last es = KBD_SHIFT_L)"

lemma shift_after_Cons:
  "shift_after (c # cs) held = shift_after cs (if c = KBD_SHIFT_L then True else if c = KBD_SHIFT_LR_R then False else held)"
proof -
  have "KBD_SHIFT_L \<noteq> KBD_SHIFT_LR_R" by (simp add: kbd_codes)
  then show ?thesis by (auto simp: shift_after_def split: list.split)
qed

text \<open>
  What the keyboard needs of a listener: on states that satisfy the listener's invariant it returns, keeps the invariant
  and leaves the keyboard's state alone; and the invariant does not depend on that state.
\<close>

definition kbd_same :: "'z kbd_scheme \<Rightarrow> 'z kbd_scheme \<Rightarrow> bool" where
  "kbd_same s s' \<longleftrightarrow> kbd_lshift s' = kbd_lshift s \<and> kbd_caps s' = kbd_caps s \<and> kbd_listeners s' = kbd_listeners s"

locale kbd_listener =
  fixes code :: "'z kbd_scheme listener_code" and inv :: "'z kbd_scheme \<Rightarrow> bool"
  assumes serve: "inv s \<Longrightarrow> p \<in> set (kbd_listeners s) \<Longrightarrow> \<exists>s'. code p ty val s = Some s' \<and> inv s' \<and> kbd_same s s'"
    and inv_upd [simp]: "inv (s\<lparr>kbd_lshift := n\<rparr>) = inv s" "inv (s\<lparr>kbd_rshift := n\<rparr>) = inv s" "inv (s\<lparr>kbd_caps := n\<rparr>) = inv s"
      "inv (s\<lparr>kbd_lctrl := n\<rparr>) = inv s" "inv (s\<lparr>kbd_lalt := n\<rparr>) = inv s" "inv (s\<lparr>kbd_status := n\<rparr>) = inv s"
begin

lemma serve_list:
  "inv s \<Longrightarrow> set ps \<subseteq> set (kbd_listeners s) \<Longrightarrow> \<exists>s'. serve_each code ps ty val s = Some s' \<and> inv s' \<and> kbd_same s s'"
proof (induction ps arbitrary: s)
  case (Cons p ps)
  obtain s1 where s1: "code p ty val s = Some s1" "inv s1" "kbd_same s s1" using serve[of s p ty val] Cons.prems by auto
  then have "set ps \<subseteq> set (kbd_listeners s1)" using Cons.prems by (simp add: kbd_same_def)
  from Cons.IH[OF s1(2) this] s1 show ?case by (auto simp: kbd_same_def)
qed (simp add: kbd_same_def)

lemma served: "inv s \<Longrightarrow> \<exists>s'. serve_listeners code ty val s = Some s' \<and> inv s' \<and> kbd_same s s'"
  using serve_list[of s "kbd_listeners s"] by (simp add: serve_listeners_def)

text \<open>One key: the flags after it, whatever the listeners do.\<close>

lemma key_by:
  assumes "parse_key code c s = serve_listeners code ty v s1" "inv s1" "kbd_listeners s1 = kbd_listeners s" "kbd_lshift s1 = a" "kbd_caps s1 = b"
  shows "\<exists>s'. parse_key code c s = Some s' \<and> inv s' \<and> kbd_listeners s' = kbd_listeners s \<and> kbd_lshift s' = a \<and> kbd_caps s' = b"
  using served[OF assms(2), of ty v] assms by (auto simp: kbd_same_def)

lemma parse_key_flags:
  assumes i: "inv s"
  shows "\<exists>s'. parse_key code c s = Some s' \<and> inv s' \<and> kbd_listeners s' = kbd_listeners s \<and>
    kbd_lshift s' = (if c = KBD_SHIFT_L then 1 else if c = KBD_SHIFT_LR_R then 0 else kbd_lshift s) \<and>
    kbd_caps s' = (if c = KBD_CAPSLCK then (if kbd_caps s = 0 then 1 else 0) else kbd_caps s)"
proof -
  consider "c \<in> set kbd_special" | "c = KBD_CAPSLCK" | "c = KBD_SHIFT_L" | "c = KBD_CTRL_L" | "c = KBD_ALT_L" | "c = KBD_SHIFT_R"
    | "c = KBD_SHIFT_LR_R" | "c = KBD_SHIFT_R_R" | "regular_code c" | "\<not> (1 \<le> c \<and> c < 100)" "c \<noteq> KBD_SHIFT_R" "c \<noteq> KBD_SHIFT_LR_R"
    unfolding regular_code_def by blast
  then show ?thesis
  proof cases
    case 1
    then show ?thesis by (intro key_by[where ty = 2 and v = c]) (use i in \<open>auto simp: parse_key_def kbd_codes KBD_VAL_TYPE_SPECIAL_def\<close>)
  next
    case 2
    then show ?thesis by (intro key_by[where ty = 2 and v = c and ?s1.0 = "s\<lparr>kbd_caps := if kbd_caps s = 0 then 1 else 0\<rparr>"])
      (use i in \<open>simp_all add: parse_key_def kbd_codes KBD_VAL_TYPE_SPECIAL_def\<close>)
  next
    case 3
    then show ?thesis by (intro key_by[where ty = 2 and v = c and ?s1.0 = "s\<lparr>kbd_lshift := 1\<rparr>"])
      (use i in \<open>simp_all add: parse_key_def kbd_codes KBD_VAL_TYPE_SPECIAL_def\<close>)
  next
    case 4
    then show ?thesis by (intro key_by[where ty = 2 and v = c and ?s1.0 = "s\<lparr>kbd_lctrl := 1\<rparr>"])
      (use i in \<open>simp_all add: parse_key_def kbd_codes KBD_VAL_TYPE_SPECIAL_def\<close>)
  next
    case 5
    then show ?thesis by (intro key_by[where ty = 2 and v = c and ?s1.0 = "s\<lparr>kbd_lalt := 1\<rparr>"])
      (use i in \<open>simp_all add: parse_key_def kbd_codes KBD_VAL_TYPE_SPECIAL_def\<close>)
  next
    case 6
    then show ?thesis by (intro key_by[where ty = 2 and v = c and ?s1.0 = "s\<lparr>kbd_rshift := 1\<rparr>"])
      (use i in \<open>simp_all add: parse_key_def kbd_codes KBD_VAL_TYPE_SPECIAL_def\<close>)
  next
    case 7
    then show ?thesis by (intro key_by[where ty = 2 and v = c and ?s1.0 = "s\<lparr>kbd_lshift := 0, kbd_rshift := 0\<rparr>"])
      (use i in \<open>simp_all add: parse_key_def kbd_codes KBD_VAL_TYPE_SPECIAL_def\<close>)
  next
    case 9
    then show ?thesis by (intro key_by[where ty = 1 and v = "of_char (scan_char c s)"])
      (use i in \<open>auto simp: parse_key_def regular_code_def KBD_VAL_TYPE_REGULAR_def\<close>)
  next
    case 10
    then show ?thesis using i by (auto simp: parse_key_def kbd_codes)
  qed (use i in \<open>simp add: parse_key_def kbd_codes\<close>)
qed

text \<open>
  After any sequence of scan codes the shift flag is that of the last press or release of the left shift key, and the
  caps flag has changed with every press of the caps lock key.
\<close>

lemma run_flags:
  "inv s \<Longrightarrow> \<exists>s'. kbd_run code cs regs s = Some s' \<and> inv s' \<and> kbd_listeners s' = kbd_listeners s \<and>
    (kbd_lshift s' \<noteq> 0 \<longleftrightarrow> shift_after cs (kbd_lshift s \<noteq> 0)) \<and> (kbd_caps s' \<noteq> 0 \<longleftrightarrow> ((kbd_caps s \<noteq> 0) \<noteq> odd (count_list cs KBD_CAPSLCK)))"
proof (induction cs arbitrary: s regs)
  case (Cons c cs)
  let ?s0 = "s\<lparr>kbd_status := KBD_STATUS_BUSY\<rparr>"
  from Cons.prems have "inv ?s0" by simp
  from parse_key_flags[OF this, of c] obtain s1 where s1: "parse_key code c ?s0 = Some s1" "inv s1" "kbd_listeners s1 = kbd_listeners s"
    "kbd_lshift s1 = (if c = KBD_SHIFT_L then 1 else if c = KBD_SHIFT_LR_R then 0 else kbd_lshift s)"
    "kbd_caps s1 = (if c = KBD_CAPSLCK then (if kbd_caps s = 0 then 1 else 0) else kbd_caps s)" by auto
  let ?s2 = "s1\<lparr>kbd_status := KBD_STATUS_READY\<rparr>"
  have "inv ?s2" using s1(2) by simp
  from Cons.IH[OF this, of regs] obtain s' where s': "kbd_run code cs regs ?s2 = Some s'" "inv s'" "kbd_listeners s' = kbd_listeners s1"
    "kbd_lshift s' \<noteq> 0 \<longleftrightarrow> shift_after cs (kbd_lshift s1 \<noteq> 0)" "kbd_caps s' \<noteq> 0 \<longleftrightarrow> ((kbd_caps s1 \<noteq> 0) \<noteq> odd (count_list cs KBD_CAPSLCK))" by auto
  have "kbd_run code (c # cs) regs s = Some s'" using s1(1) s'(1) by (simp add: parse_scancode_def)
  moreover have "kbd_lshift s' \<noteq> 0 \<longleftrightarrow> shift_after (c # cs) (kbd_lshift s \<noteq> 0)" using s'(4) s1(4) by (auto simp: shift_after_Cons)
  moreover have "kbd_caps s' \<noteq> 0 \<longleftrightarrow> ((kbd_caps s \<noteq> 0) \<noteq> odd (count_list (c # cs) KBD_CAPSLCK))" using s'(5) s1(5) by auto
  ultimately show ?case using s'(2,3) s1(3) by auto
qed (simp add: shift_after_def)

end

end
