(* ===== verification/Gtty.thy ===== *)
theory Gtty
  imports Keyboard "HOL-Library.Signed_Division"
begin

text \<open>
  The terminal, \<^verbatim>\<open>drivers/devices/gtty/gtty.c\<close>, and \<^verbatim>\<open>kputchar\<close> of \<^verbatim>\<open>kernel/util/kstdio.c\<close>, which prints through
  it. The terminal writes text to the display device and collects the characters of the keyboard in an input buffer.
  The display is reached through the functions of its VFS node, so the code \<open>cs\<close> behind the function pointers is an
  argument. A local character whose address is passed on lives at the address \<open>slot\<close>. The font is an argument: the rows of
  each symbol, by the value of the character as a signed number.
\<close>

subsection \<open>State\<close>

definition GTTY_CMD_SET_MODE :: u32 where "GTTY_CMD_SET_MODE = 1"
definition GTTY_CMD_GET_MODE :: u32 where "GTTY_CMD_GET_MODE = 2"
definition GTTY_CMD_GETW :: u32 where "GTTY_CMD_GETW = 3"
definition GTTY_CMD_GETH :: u32 where "GTTY_CMD_GETH = 4"
definition GTTY_CMD_CLEAR :: u32 where "GTTY_CMD_CLEAR = 5"
definition GTTY_CMD_GET_FG_COLOUR :: u32 where "GTTY_CMD_GET_FG_COLOUR = 6"
definition GTTY_CMD_SET_FG_COLOUR :: u32 where "GTTY_CMD_SET_FG_COLOUR = 7"
definition GTTY_CMD_GET_BG_COLOUR :: u32 where "GTTY_CMD_GET_BG_COLOUR = 8"
definition GTTY_CMD_SET_BG_COLOUR :: u32 where "GTTY_CMD_SET_BG_COLOUR = 9"
definition GTTY_CMD_ECHO_ENABLE :: u32 where "GTTY_CMD_ECHO_ENABLE = 10"
definition GTTY_CMD_ECHO_DISABLE :: u32 where "GTTY_CMD_ECHO_DISABLE = 11"
definition GTTY_CMD_INPUT_READY :: u32 where "GTTY_CMD_INPUT_READY = 12"
definition GTTY_CMD_GET_DISP_TYPE :: u32 where "GTTY_CMD_GET_DISP_TYPE = 13"
definition GTTY_MODE_TXT :: int where "GTTY_MODE_TXT = 0"
definition GTTY_MODE_PX :: int where "GTTY_MODE_PX = 1"
definition GTTY_DISP_TYPE_VGA :: int where "GTTY_DISP_TYPE_VGA = 0"
definition GTTY_DISP_TYPE_VESA :: int where "GTTY_DISP_TYPE_VESA = 1"
definition GTTY_INPUT_BUFFER_LEN :: u32 where "GTTY_INPUT_BUFFER_LEN = 1024"

definition VESA_CMD_CLRSC :: u32 where "VESA_CMD_CLRSC = 1"
definition VESA_CMD_GETW :: u32 where "VESA_CMD_GETW = 4"
definition VESA_CMD_GETH :: u32 where "VESA_CMD_GETH = 5"
definition VESA_CMD_MOVD :: u32 where "VESA_CMD_MOVD = 6"
definition VESA_CMD_SETD :: u32 where "VESA_CMD_SETD = 7"
definition VESA_CMD_CLRFROM :: u32 where "VESA_CMD_CLRFROM = 8"

lemmas gtty_cmds = GTTY_CMD_SET_MODE_def GTTY_CMD_GET_MODE_def GTTY_CMD_GETW_def GTTY_CMD_GETH_def GTTY_CMD_CLEAR_def
  GTTY_CMD_GET_FG_COLOUR_def GTTY_CMD_SET_FG_COLOUR_def GTTY_CMD_GET_BG_COLOUR_def GTTY_CMD_SET_BG_COLOUR_def GTTY_CMD_ECHO_ENABLE_def
  GTTY_CMD_ECHO_DISABLE_def GTTY_CMD_INPUT_READY_def GTTY_CMD_GET_DISP_TYPE_def

definition margin_x :: int where "margin_x = 8"
definition margin_y_top :: int where "margin_y_top = 44"
definition margin_y_bottom :: int where "margin_y_bottom = 8"
definition line_height :: int where "line_height = 16"
definition line_width :: int where "line_width = 8"

definition vesa_cursor_on :: "u8 list" where "vesa_cursor_on = replicate 16 0xC0"
definition vesa_cursor_off :: "u8 list" where "vesa_cursor_off = replicate 16 0"

record gtty = kbd +
  gtty_device :: ptr
  gtty_device_file :: ptr
  display_device_file :: ptr
  vga_node :: ptr
  vesa_node :: ptr
  kbd_node :: ptr
  input_buffer :: ptr
  input_buffer_index :: int
  input_buffer_size :: int
  input_buffer_flag :: int
  display_type :: int
  display_mode :: int
  gtty_status :: int
  buffer_width :: int
  buffer_height :: int
  main_x :: int
  main_y :: int
  gtty_echo :: int
  fg_colour :: u32
  bg_colour :: u32
  command_buffer :: ptr
  vesa_cursor_status :: int
  console :: ptr
  base_init :: bool

text \<open>The colour components \<^verbatim>\<open>current_r\<close>, \<^verbatim>\<open>current_g\<close>, \<^verbatim>\<open>current_b\<close>, \<^verbatim>\<open>current_alpha\<close> are the bytes of \<open>fg_colour\<close>, those of the
  background the bytes of \<open>bg_colour\<close>.\<close>

definition colour_byte :: "nat \<Rightarrow> u32 \<Rightarrow> u8" where
  "colour_byte i colour = ucast (drop_bit (8 * i) colour AND 0xFF)"

definition pixel :: "u8 \<Rightarrow> u8 \<Rightarrow> u8 \<Rightarrow> u8 \<Rightarrow> u32" where
  "pixel alpha r g b = push_bit 24 (ucast alpha) OR push_bit 16 (ucast r) OR push_bit 8 (ucast g) OR ucast b"

subsection \<open>The display\<close>

definition display_write :: "'z gtty_scheme calls \<Rightarrow> u32 \<Rightarrow> u32 \<Rightarrow> ptr \<Rightarrow> 'z gtty_scheme \<Rightarrow> (int \<times> 'z gtty_scheme) option" where
  "display_write cs start_at sz buffer s = do {
     nd \<leftarrow> vnodes s (display_device_file s);
     (case node_write nd of NULL_fn \<Rightarrow> None | Sym f \<Rightarrow> call_io cs f (display_device_file s) start_at sz buffer s)
   }"

definition node_control_at :: "'z gtty_scheme calls \<Rightarrow> ptr \<Rightarrow> u32 \<Rightarrow> ptr \<Rightarrow> 'z gtty_scheme \<Rightarrow> (int \<times> 'z gtty_scheme) option" where
  "node_control_at cs node command arguments s = do {
     nd \<leftarrow> vnodes s node;
     (case node_control nd of NULL_fn \<Rightarrow> None | Sym f \<Rightarrow> call_control cs f node command arguments s)
   }"

definition node_status_at :: "'z gtty_scheme calls \<Rightarrow> ptr \<Rightarrow> 'z gtty_scheme \<Rightarrow> (u32 \<times> 'z gtty_scheme) option" where
  "node_status_at cs node s = do {
     nd \<leftarrow> vnodes s node;
     (case node_status nd of NULL_fn \<Rightarrow> None | Sym f \<Rightarrow> call_status cs f node s)
   }"

definition display_control :: "'z gtty_scheme calls \<Rightarrow> u32 \<Rightarrow> ptr \<Rightarrow> 'z gtty_scheme \<Rightarrow> (int \<times> 'z gtty_scheme) option" where
  "display_control cs command arguments s = node_control_at cs (display_device_file s) command arguments s"

definition gtty_xy_to_location :: "int \<Rightarrow> int \<Rightarrow> 'z gtty_scheme \<Rightarrow> u32" where
  "gtty_xy_to_location x y s = word_of_int (x + y * buffer_width s)"

definition set_command :: "nat \<Rightarrow> u32 \<Rightarrow> 'z gtty_scheme \<Rightarrow> 'z gtty_scheme" where
  "set_command i w s = s\<lparr>kh_bytes := store_u32 (command_buffer s + of_nat (4 * i)) w (kh_bytes s)\<rparr>"

definition set_byte_at :: "ptr \<Rightarrow> u8 \<Rightarrow> 'z gtty_scheme \<Rightarrow> 'z gtty_scheme" where
  "set_byte_at p b s = s\<lparr>kh_bytes := (kh_bytes s)(p := b)\<rparr>"

subsection \<open>Text on the VGA display\<close>

definition vga_move :: "'z gtty_scheme calls \<Rightarrow> int \<Rightarrow> int \<Rightarrow> 'z gtty_scheme \<Rightarrow> 'z gtty_scheme option" where
  "vga_move cs x y s = do {
     let s = set_command 0 (gtty_xy_to_location x y s) s;
     (r, s) \<leftarrow> display_control cs VGA_CMD_MOVCRS (command_buffer s) s;
     Some s
   }"

text \<open>What follows every character: the end of the line, and the end of the screen.\<close>

definition vga_wrap :: "'z gtty_scheme calls \<Rightarrow> 'z gtty_scheme \<Rightarrow> 'z gtty_scheme option" where
  "vga_wrap cs s = do {
     s \<leftarrow> (if main_x s > buffer_width s - 1
           then do {
             let s = s\<lparr>main_x := 0, main_y := main_y s + 1\<rparr>;
             vga_move cs (main_x s) (main_y s) s
           }
           else Some s);
     if main_y s > buffer_height s - 1
     then do {
       (r, s) \<leftarrow> display_control cs VGA_CMD_SCROLL 0 s;
       s \<leftarrow> vga_move cs (main_x s) (buffer_height s - 1) s;
       Some (s\<lparr>main_y := main_y s - 1\<rparr>)
     }
     else Some s
   }"

definition vga_plain :: "'z gtty_scheme calls \<Rightarrow> ptr \<Rightarrow> 'z gtty_scheme \<Rightarrow> 'z gtty_scheme option" where
  "vga_plain cs p s = do {
     (r, s) \<leftarrow> display_write cs (gtty_xy_to_location (main_x s) (main_y s) s) 1 p s;
     let s = s\<lparr>main_x := main_x s + 1\<rparr>;
     vga_move cs (main_x s) (main_y s) s
   }"

definition vga_backspace :: "'z gtty_scheme calls \<Rightarrow> ptr \<Rightarrow> 'z gtty_scheme \<Rightarrow> 'z gtty_scheme option" where
  "vga_backspace cs slot s =
     (if input_buffer_index s \<ge> 1
      then do {
        let s = s\<lparr>input_buffer_index := input_buffer_index s - 1\<rparr>;
        let s = set_byte_at (input_buffer s + word_of_int (input_buffer_index s)) 0 s;
        let s = (if main_x s > 0 then s\<lparr>main_x := main_x s - 1\<rparr>
                 else if main_y s > 0 then s\<lparr>main_x := buffer_width s - 1, main_y := main_y s - 1\<rparr> else s);
        let s = set_byte_at slot 0x20 s;
        (r, s) \<leftarrow> display_write cs (gtty_xy_to_location (main_x s) (main_y s) s) 1 slot s;
        vga_move cs (main_x s) (main_y s) s
      }
      else Some s)"

text \<open>The recursive call that a tab makes four times writes a single space.\<close>

definition vga_space :: "'z gtty_scheme calls \<Rightarrow> ptr \<Rightarrow> 'z gtty_scheme \<Rightarrow> 'z gtty_scheme option" where
  "vga_space cs slot s = do { s \<leftarrow> vga_plain cs slot s; vga_wrap cs s }"

definition vga_dispatch :: "'z gtty_scheme calls \<Rightarrow> ptr \<Rightarrow> ptr \<Rightarrow> 'z gtty_scheme \<Rightarrow> 'z gtty_scheme option" where
  "vga_dispatch cs slot p s =
     (let c = kh_bytes s p
      in if c = 0x08 then vga_backspace cs slot s
         else if c = 0x0A
         then let s = s\<lparr>main_x := 0, main_y := main_y s + 1\<rparr> in vga_move cs (main_x s) (main_y s) s
         else if c = 0x09
         then do {
           s \<leftarrow> vga_space cs slot (set_byte_at slot 0x20 s);
           s \<leftarrow> vga_space cs slot s;
           s \<leftarrow> vga_space cs slot s;
           vga_space cs slot s
         }
         else if c = 0x0D then vga_move cs 0 (main_y s) (s\<lparr>main_x := 0\<rparr>)
         else vga_plain cs p s)"

definition vga_char :: "'z gtty_scheme calls \<Rightarrow> ptr \<Rightarrow> ptr \<Rightarrow> 'z gtty_scheme \<Rightarrow> 'z gtty_scheme option" where
  "vga_char cs slot p s = do { s \<leftarrow> vga_dispatch cs slot p s; vga_wrap cs s }"

fun vga_chars :: "'z gtty_scheme calls \<Rightarrow> ptr \<Rightarrow> ptr \<Rightarrow> nat \<Rightarrow> 'z gtty_scheme \<Rightarrow> 'z gtty_scheme option" where
  "vga_chars cs slot p 0 s = Some s"
| "vga_chars cs slot p (Suc n) s = do { s \<leftarrow> vga_char cs slot p s; vga_chars cs slot (p + 1) n s }"

definition gtty_write_vga :: "'z gtty_scheme calls \<Rightarrow> ptr \<Rightarrow> u32 \<Rightarrow> u32 \<Rightarrow> ptr \<Rightarrow> 'z gtty_scheme \<Rightarrow> (int \<times> 'z gtty_scheme) option" where
  "gtty_write_vga cs slot start_at sz buffer s =
     (if display_mode s = GTTY_MODE_PX then Some (-1, s)
      else do { s \<leftarrow> vga_chars cs slot buffer (nat (sint sz)) s; Some (sint sz, s) })"

subsection \<open>Text on the VESA display\<close>

text \<open>The pixels of a symbol, row by row, the highest bit of a row first.\<close>

definition fg_pixel :: "'z gtty_scheme \<Rightarrow> u32" where
  "fg_pixel s = pixel (colour_byte 3 (fg_colour s)) (colour_byte 2 (fg_colour s)) (colour_byte 1 (fg_colour s)) (colour_byte 0 (fg_colour s))"

definition bg_pixel :: "'z gtty_scheme \<Rightarrow> u32" where
  "bg_pixel s = pixel (colour_byte 3 (bg_colour s)) (colour_byte 2 (bg_colour s)) (colour_byte 1 (bg_colour s)) (colour_byte 0 (bg_colour s))"

fun draw_pixels :: "'z gtty_scheme calls \<Rightarrow> int \<Rightarrow> int \<Rightarrow> u8 list \<Rightarrow> u32 \<Rightarrow> (nat \<times> nat) list \<Rightarrow> 'z gtty_scheme \<Rightarrow> 'z gtty_scheme option" where
  "draw_pixels cs x y rows colour [] s = Some s"
| "draw_pixels cs x y rows colour ((yd, xd) # ps) s = do {
     let s = set_command 0 (if bit (rows ! yd) (7 - xd) then colour else bg_pixel s) s;
     (r, s) \<leftarrow> display_write cs (gtty_xy_to_location (int xd + x) (int yd + y) s) 1 (command_buffer s) s;
     draw_pixels cs x y rows colour ps s
   }"

definition gtty_vesa_draw_symbol :: "'z gtty_scheme calls \<Rightarrow> int \<Rightarrow> int \<Rightarrow> u8 list \<Rightarrow> u32 \<Rightarrow> 'z gtty_scheme \<Rightarrow> 'z gtty_scheme option" where
  "gtty_vesa_draw_symbol cs x y rows colour s =
     draw_pixels cs x y rows colour (List.product [0..<nat line_height] [0..<nat line_width]) s"

definition gtty_vesa_draw_char ::
  "'z gtty_scheme calls \<Rightarrow> (int \<Rightarrow> u8 list) \<Rightarrow> int \<Rightarrow> int \<Rightarrow> u8 \<Rightarrow> u32 \<Rightarrow> 'z gtty_scheme \<Rightarrow> 'z gtty_scheme option"
where
  "gtty_vesa_draw_char cs font x y c colour s = gtty_vesa_draw_symbol cs x y (font (sint c)) colour s"

definition vesa_cursor_handler :: "'z gtty_scheme calls \<Rightarrow> 'z gtty_scheme \<Rightarrow> 'z gtty_scheme option" where
  "vesa_cursor_handler cs s =
     (if vesa_cursor_status s = 0
      then do {
        s \<leftarrow> gtty_vesa_draw_symbol cs (main_x s + 1) (main_y s) vesa_cursor_on (fg_pixel s) s;
        Some (s\<lparr>vesa_cursor_status := 1\<rparr>)
      }
      else do {
        s \<leftarrow> gtty_vesa_draw_symbol cs (main_x s + 1) (main_y s) vesa_cursor_off (fg_pixel s) s;
        Some (s\<lparr>vesa_cursor_status := 0\<rparr>)
      })"

text \<open>What the writer does before it moves on: clear the cursor.\<close>

definition vesa_no_cursor :: "'z gtty_scheme calls \<Rightarrow> 'z gtty_scheme \<Rightarrow> 'z gtty_scheme option" where
  "vesa_no_cursor cs s = vesa_cursor_handler cs (s\<lparr>vesa_cursor_status := 1\<rparr>)"

definition gtty_vesa_scroll :: "'z gtty_scheme calls \<Rightarrow> 'z gtty_scheme \<Rightarrow> 'z gtty_scheme option" where
  "gtty_vesa_scroll cs s = do {
     let w = buffer_width s;
     let index_in = w * margin_y_top + margin_x;
     let index_out = w * (buffer_height s - (margin_y_bottom + line_height)) + (w - margin_x);
     let index_in_plus = w * (margin_y_top + line_height) + margin_x;
     let s = set_command 2 (word_of_int (index_out - index_in))
               (set_command 1 (word_of_int index_in_plus) (set_command 0 (word_of_int index_in) s));
     (r, s) \<leftarrow> display_control cs VESA_CMD_MOVD (command_buffer s) s;
     let index2_in = w * ((buffer_height s - margin_y_bottom) - line_height) + margin_x;
     let index2_out = w * (buffer_height s - margin_y_bottom) + (w - margin_x);
     let s = set_command 2 (bg_pixel s)
               (set_command 1 (word_of_int (index2_out - index2_in)) (set_command 0 (word_of_int index2_in) s));
     (r, s) \<leftarrow> display_control cs VESA_CMD_SETD (command_buffer s) s;
     Some s
   }"

definition vesa_wrap :: "'z gtty_scheme calls \<Rightarrow> 'z gtty_scheme \<Rightarrow> 'z gtty_scheme option" where
  "vesa_wrap cs s = do {
     s \<leftarrow> (if main_x s > buffer_width s - margin_x - 1
           then do { s \<leftarrow> vesa_no_cursor cs s; Some (s\<lparr>main_y := main_y s + line_height, main_x := margin_x\<rparr>) }
           else Some s);
     if main_y s > buffer_height s - (margin_y_bottom + line_height)
     then do {
       s \<leftarrow> vesa_no_cursor cs s;
       s \<leftarrow> gtty_vesa_scroll cs s;
       Some (s\<lparr>main_y := buffer_height s - (margin_y_bottom + line_height)\<rparr>)
     }
     else Some s
   }"

definition vesa_plain :: "'z gtty_scheme calls \<Rightarrow> (int \<Rightarrow> u8 list) \<Rightarrow> u8 \<Rightarrow> 'z gtty_scheme \<Rightarrow> 'z gtty_scheme option" where
  "vesa_plain cs font c s = do {
     s \<leftarrow> vesa_no_cursor cs s;
     s \<leftarrow> gtty_vesa_draw_char cs font (main_x s) (main_y s) c (fg_pixel s) s;
     Some (s\<lparr>main_x := main_x s + line_width\<rparr>)
   }"

definition vesa_backspace :: "'z gtty_scheme calls \<Rightarrow> (int \<Rightarrow> u8 list) \<Rightarrow> 'z gtty_scheme \<Rightarrow> 'z gtty_scheme option" where
  "vesa_backspace cs font s = do {
     s \<leftarrow> vesa_no_cursor cs s;
     if input_buffer_index s \<ge> 1
     then do {
       let s = s\<lparr>input_buffer_index := input_buffer_index s - 1\<rparr>;
       let s = set_byte_at (input_buffer s + word_of_int (input_buffer_index s)) 0 s;
       let s = (if main_x s > 0 then s\<lparr>main_x := main_x s - line_width\<rparr>
                else if main_y s > 0 then s\<lparr>main_x := buffer_width s - line_width, main_y := main_y s - line_height\<rparr> else s);
       gtty_vesa_draw_char cs font (main_x s) (main_y s) 0x20 (fg_pixel s) s
     }
     else Some s
   }"

definition vesa_space :: "'z gtty_scheme calls \<Rightarrow> (int \<Rightarrow> u8 list) \<Rightarrow> 'z gtty_scheme \<Rightarrow> 'z gtty_scheme option" where
  "vesa_space cs font s = do { s \<leftarrow> vesa_plain cs font 0x20 s; vesa_wrap cs s }"

definition vesa_dispatch :: "'z gtty_scheme calls \<Rightarrow> (int \<Rightarrow> u8 list) \<Rightarrow> u8 \<Rightarrow> 'z gtty_scheme \<Rightarrow> 'z gtty_scheme option" where
  "vesa_dispatch cs font c s =
     (if c = 0x08 then vesa_backspace cs font s
      else if c = 0x0A then do { s \<leftarrow> vesa_no_cursor cs s; Some (s\<lparr>main_y := main_y s + line_height, main_x := margin_x\<rparr>) }
      else if c = 0x09
      then do {
        s \<leftarrow> vesa_space cs font s;
        s \<leftarrow> vesa_space cs font s;
        s \<leftarrow> vesa_space cs font s;
        vesa_space cs font s
      }
      else if c = 0x0D then do { s \<leftarrow> vesa_no_cursor cs s; Some (s\<lparr>main_x := margin_x\<rparr>) }
      else vesa_plain cs font c s)"

definition vesa_char :: "'z gtty_scheme calls \<Rightarrow> (int \<Rightarrow> u8 list) \<Rightarrow> u8 \<Rightarrow> 'z gtty_scheme \<Rightarrow> 'z gtty_scheme option" where
  "vesa_char cs font c s = do { s \<leftarrow> vesa_dispatch cs font c s; vesa_wrap cs s }"

fun vesa_chars :: "'z gtty_scheme calls \<Rightarrow> (int \<Rightarrow> u8 list) \<Rightarrow> ptr \<Rightarrow> nat \<Rightarrow> 'z gtty_scheme \<Rightarrow> 'z gtty_scheme option" where
  "vesa_chars cs font p 0 s = Some s"
| "vesa_chars cs font p (Suc n) s = do { s \<leftarrow> vesa_char cs font (kh_bytes s p) s; vesa_chars cs font (p + 1) n s }"

definition gtty_write_vesa ::
  "'z gtty_scheme calls \<Rightarrow> (int \<Rightarrow> u8 list) \<Rightarrow> u32 \<Rightarrow> u32 \<Rightarrow> ptr \<Rightarrow> 'z gtty_scheme \<Rightarrow> (int \<times> 'z gtty_scheme) option"
where
  "gtty_write_vesa cs font start_at sz buffer s =
     (if display_mode s = GTTY_MODE_PX then display_write cs start_at sz buffer s
      else do { s \<leftarrow> vesa_chars cs font buffer (nat (sint sz)) s; Some (sint sz, s) })"

subsection \<open>The device\<close>

definition gtty_dev_open :: "ptr \<Rightarrow> 'z gtty_scheme \<Rightarrow> int \<times> 'z gtty_scheme" where
  "gtty_dev_open device s = (0, s)"

definition gtty_dev_close :: "ptr \<Rightarrow> 'z gtty_scheme \<Rightarrow> int \<times> 'z gtty_scheme" where
  "gtty_dev_close device s = (0, s)"

definition gtty_dev_read :: "ptr \<Rightarrow> u32 \<Rightarrow> u32 \<Rightarrow> ptr \<Rightarrow> 'z gtty_scheme \<Rightarrow> int \<times> 'z gtty_scheme" where
  "gtty_dev_read device start_at sz buffer s =
     (if device = 0 \<or> buffer = 0 then (-1, s)
      else if input_buffer_flag s = 1 \<and> sint sz = input_buffer_size s
      then let m = memcpy_8 buffer (input_buffer s) (word_of_int (input_buffer_index s)) (kh_bytes s);
               m = memset_8 (input_buffer s) 0 GTTY_INPUT_BUFFER_LEN m
           in (input_buffer_index s, s\<lparr>kh_bytes := m, input_buffer_flag := 0, input_buffer_size := 0, input_buffer_index := 0\<rparr>)
      else (-1, s))"

definition gtty_dev_write ::
  "'z gtty_scheme calls \<Rightarrow> (int \<Rightarrow> u8 list) \<Rightarrow> ptr \<Rightarrow> ptr \<Rightarrow> u32 \<Rightarrow> u32 \<Rightarrow> ptr \<Rightarrow> 'z gtty_scheme \<Rightarrow> (int \<times> 'z gtty_scheme) option"
where
  "gtty_dev_write cs font slot device start_at sz buffer s =
     (if device = 0 \<or> buffer = 0 then Some (-1, s)
      else if display_type s = GTTY_DISP_TYPE_VESA then gtty_write_vesa cs font start_at sz buffer s
      else gtty_write_vga cs slot start_at sz buffer s)"

text \<open>The branches of the control function that ask the display.\<close>

definition gtty_get_width :: "'z gtty_scheme calls \<Rightarrow> 'z gtty_scheme \<Rightarrow> (int \<times> 'z gtty_scheme) option" where
  "gtty_get_width cs s =
     (if display_type s = GTTY_DISP_TYPE_VESA
      then if display_mode s = GTTY_MODE_TXT
           then do { (w, s) \<leftarrow> display_control cs VESA_CMD_GETW 0 s; Some ((w - margin_x * 2) sdiv line_width, s) }
           else display_control cs VESA_CMD_GETW 0 s
      else if display_type s = GTTY_DISP_TYPE_VGA then display_control cs VGA_CMD_GET_W 0 s
      else Some (-1, s))"

definition gtty_get_height :: "'z gtty_scheme calls \<Rightarrow> 'z gtty_scheme \<Rightarrow> (int \<times> 'z gtty_scheme) option" where
  "gtty_get_height cs s =
     (if display_type s = GTTY_DISP_TYPE_VESA
      then if display_mode s = GTTY_MODE_TXT
           then do { (h, s) \<leftarrow> display_control cs VESA_CMD_GETH 0 s; Some ((h - (margin_y_top + margin_y_bottom)) sdiv line_height, s) }
           else display_control cs VESA_CMD_GETH 0 s
      else if display_type s = GTTY_DISP_TYPE_VGA then display_control cs VGA_CMD_GET_H 0 s
      else Some (-1, s))"

definition gtty_clear :: "'z gtty_scheme calls \<Rightarrow> ptr \<Rightarrow> 'z gtty_scheme \<Rightarrow> (int \<times> 'z gtty_scheme) option" where
  "gtty_clear cs slot s =
     (if display_type s = GTTY_DISP_TYPE_VESA
      then do {
        (ret, s) \<leftarrow> (if display_mode s = GTTY_MODE_PX then display_control cs VESA_CMD_CLRSC 0 s
                      else do {
                        let s = s\<lparr>kh_bytes := store_u32 slot (word_of_int (margin_y_top * buffer_width s)) (kh_bytes s)\<rparr>;
                        (r, s) \<leftarrow> display_control cs VESA_CMD_CLRFROM slot s;
                        Some (0, s)
                      });
        Some (ret, s\<lparr>main_y := margin_y_top, main_x := margin_x\<rparr>)
      }
      else display_control cs VGA_CMD_CLRSCR 0 (s\<lparr>main_y := 0, main_x := 0\<rparr>))"

definition gtty_dev_control ::
  "'z gtty_scheme calls \<Rightarrow> ptr \<Rightarrow> ptr \<Rightarrow> u32 \<Rightarrow> ptr \<Rightarrow> 'z gtty_scheme \<Rightarrow> (int \<times> 'z gtty_scheme) option"
where
  "gtty_dev_control cs slot device command arguments s =
     (let arg0 = (if arguments = 0 then None else Some (load_u32 arguments (kh_bytes s)))
      in if device \<noteq> gtty_device s \<or> command = 0 then Some (-1, s)
         else if command = GTTY_CMD_SET_MODE
         then do {
           a \<leftarrow> arg0;
           if display_type s = GTTY_DISP_TYPE_VGA \<and> sint a = GTTY_MODE_PX then Some (-1, s)
           else if sint a = GTTY_MODE_PX \<or> sint a = GTTY_MODE_TXT then Some (sint a, s\<lparr>display_mode := sint a\<rparr>)
           else Some (0, s)
         }
         else if command = GTTY_CMD_GET_MODE then Some (display_mode s, s)
         else if command = GTTY_CMD_GETW then gtty_get_width cs s
         else if command = GTTY_CMD_GETH then gtty_get_height cs s
         else if command = GTTY_CMD_CLEAR then gtty_clear cs slot s
         else if command = GTTY_CMD_GET_FG_COLOUR
         then (if display_type s = GTTY_DISP_TYPE_VESA
               then Some (sint (pixel (colour_byte 3 (bg_colour s)) (colour_byte 2 (fg_colour s)) (colour_byte 1 (fg_colour s)) (colour_byte 0 (fg_colour s))), s)
               else display_control cs VGA_CMD_GET_FG_COLOUR 0 s)
         else if command = GTTY_CMD_GET_BG_COLOUR
         then (if display_type s = GTTY_DISP_TYPE_VESA then Some (sint (bg_pixel s), s) else display_control cs VGA_CMD_GET_BG_COLOUR 0 s)
         else if command = GTTY_CMD_SET_FG_COLOUR
         then (if display_type s = GTTY_DISP_TYPE_VESA then do { a \<leftarrow> arg0; Some (0, s\<lparr>fg_colour := a\<rparr>) }
               else display_control cs VGA_CMD_SET_FG_COLOUR arguments s)
         else if command = GTTY_CMD_SET_BG_COLOUR
         then (if display_type s = GTTY_DISP_TYPE_VESA then do { a \<leftarrow> arg0; Some (0, s\<lparr>bg_colour := a\<rparr>) }
               else display_control cs VGA_CMD_SET_BG_COLOUR arguments s)
         else if command = GTTY_CMD_ECHO_ENABLE then Some (0, s\<lparr>gtty_echo := 1\<rparr>)
         else if command = GTTY_CMD_ECHO_DISABLE then Some (0, s\<lparr>gtty_echo := 0\<rparr>)
         else if command = GTTY_CMD_INPUT_READY
         then (if input_buffer_size s = 0
               then do { a \<leftarrow> arg0; Some (0, s\<lparr>input_buffer_size := sint a, input_buffer_flag := 0\<rparr>) }
               else Some (input_buffer_flag s, s))
         else if command = GTTY_CMD_GET_DISP_TYPE then Some (display_type s, s)
         else Some (-1, s))"

definition gtty_dev_status :: "ptr \<Rightarrow> 'z gtty_scheme \<Rightarrow> u32" where
  "gtty_dev_status device s = (if device = gtty_device s then word_of_int (gtty_status s) else 0xFFFFFFFF)"

definition gtty_drivers ::
  "'z gtty_scheme calls \<Rightarrow> (int \<Rightarrow> u8 list) \<Rightarrow> ptr \<Rightarrow> 'z gtty_scheme drivers \<Rightarrow> 'z gtty_scheme drivers"
where
  "gtty_drivers cs font slot other =
     \<lparr>drv_node = (\<lambda>f d s. if f = ''gtty_dev_open'' then Some (gtty_dev_open d s)
                          else if f = ''gtty_dev_close'' then Some (gtty_dev_close d s) else drv_node other f d s),
      drv_io = (\<lambda>f d a z b s. if f = ''gtty_dev_read'' then Some (gtty_dev_read d a z b s)
                              else if f = ''gtty_dev_write'' then gtty_dev_write cs font slot d a z b s else drv_io other f d a z b s),
      drv_control = (\<lambda>f d c a s. if f = ''gtty_dev_control'' then gtty_dev_control cs slot d c a s else drv_control other f d c a s),
      drv_status = (\<lambda>f d s. if f = ''gtty_dev_status'' then Some (gtty_dev_status d s, s) else drv_status other f d s)\<rparr>"

subsection \<open>Printing a character\<close>

definition logchar :: "char \<Rightarrow> 'z kern_scheme \<Rightarrow> 'z kern_scheme" where
  "logchar c s = klog_msg (if c = CHR 0x0A then [c, CHR 0x0D] else [c]) s"

definition kputchar :: "'z gtty_scheme calls \<Rightarrow> ptr \<Rightarrow> char \<Rightarrow> 'z gtty_scheme \<Rightarrow> 'z gtty_scheme option" where
  "kputchar cs slot c s =
     (if base_init s
      then do {
        s \<leftarrow> (if console s = 0 then do { (p, s) \<leftarrow> vfs_find_node cs (Some ''/dev/gtty'') s; Some (s\<lparr>console := p\<rparr>) } else Some s);
        if console s \<noteq> 0
        then do {
          (status, s) \<leftarrow> node_status_at cs (console s) s;
          if status \<noteq> 0
          then do {
            let s = set_byte_at slot (of_char c) s;
            nd \<leftarrow> vnodes s (console s);
            (case node_write nd of
               NULL_fn \<Rightarrow> None
             | Sym f \<Rightarrow> do { (r, s) \<leftarrow> call_io cs f (console s) 0xFFFFFFFF 1 slot s; Some s })
          }
          else Some (logchar c s)
        }
        else Some (logchar c s)
      }
      else Some (logchar c s))"

subsection \<open>Input from the keyboard\<close>

text \<open>The character goes into the input buffer; a tab takes four places of which only the first is written.\<close>

definition gtty_input :: "char \<Rightarrow> 'z gtty_scheme \<Rightarrow> 'z gtty_scheme" where
  "gtty_input c s =
     (let s = (if c = CHR 0x0A \<or> c = CHR 0x0D then s\<lparr>input_buffer_flag := 1\<rparr> else s);
          s = (if input_buffer_index s < input_buffer_size s \<and> c \<noteq> CHR 0x08 \<and> c \<noteq> CHR 0x0A \<and> c \<noteq> CHR 0x0D
               then (set_byte_at (input_buffer s + word_of_int (input_buffer_index s)) (of_char c) s)
                      \<lparr>input_buffer_index := input_buffer_index s + (if c \<noteq> CHR 0x09 then 1 else 4)\<rparr>
               else s)
      in if input_buffer_index s \<ge> input_buffer_size s then s\<lparr>input_buffer_flag := 1\<rparr> else s)"

definition gtty_keyboard_listener ::
  "'z gtty_scheme calls \<Rightarrow> ptr \<Rightarrow> int \<Rightarrow> u8 \<Rightarrow> 'z gtty_scheme \<Rightarrow> 'z gtty_scheme option"
where
  "gtty_keyboard_listener cs slot ty val s =
     (if ty = KBD_VAL_TYPE_REGULAR
      then let c = char_of (unat val); s = gtty_input c s
           in if gtty_echo s = 1 \<and> c \<noteq> CHR 0x0A \<and> c \<noteq> CHR 0x0D then kputchar cs slot c s else Some s
      else Some s)"

subsection \<open>Start-up\<close>

text \<open>The display that works, VESA before VGA; \<open>listener\<close> and \<open>cursor\<close> are the addresses of the two callbacks.\<close>

definition find_display :: "'z gtty_scheme calls \<Rightarrow> 'z gtty_scheme \<Rightarrow> (bool \<times> 'z gtty_scheme) option" where
  "find_display cs s = do {
     (vesa_ok, s) \<leftarrow> (if vesa_node s \<noteq> 0 then do { (r, s) \<leftarrow> node_status_at cs (vesa_node s) s; Some (r = 1, s) } else Some (False, s));
     if vesa_ok then Some (True, s\<lparr>display_device_file := vesa_node s, display_type := GTTY_DISP_TYPE_VESA\<rparr>)
     else do {
       (vga_ok, s) \<leftarrow> (if vga_node s \<noteq> 0 then do { (r, s) \<leftarrow> node_status_at cs (vga_node s) s; Some (r = 1, s) } else Some (False, s));
       if vga_ok then Some (True, s\<lparr>display_device_file := vga_node s, display_type := GTTY_DISP_TYPE_VGA\<rparr>)
       else Some (False, s)
     }
   }"

definition initialise_gtty :: "'z gtty_scheme calls \<Rightarrow> ptr \<Rightarrow> ptr \<Rightarrow> 'z gtty_scheme \<Rightarrow> 'z gtty_scheme option" where
  "initialise_gtty cs listener cursor s = do {
     (p, s) \<leftarrow> kern_malloc 20 s;
     let s = s\<lparr>command_buffer := p\<rparr>;
     (v, s) \<leftarrow> vfs_find_node cs (Some ''/dev/vga'') s;
     let s = s\<lparr>vga_node := v\<rparr>;
     (v, s) \<leftarrow> vfs_find_node cs (Some ''/dev/vesa'') s;
     let s = s\<lparr>vesa_node := v\<rparr>;
     (v, s) \<leftarrow> vfs_find_node cs (Some ''/dev/kbd'') s;
     let s = s\<lparr>kbd_node := v\<rparr>;
     (found, s) \<leftarrow> find_display cs s;
     if \<not> found then Some s
     else do {
       (w, s) \<leftarrow> display_control cs (if display_type s = GTTY_DISP_TYPE_VGA then VGA_CMD_GET_W else VESA_CMD_GETW) 0 s;
       let s = s\<lparr>buffer_width := w\<rparr>;
       (h, s) \<leftarrow> display_control cs (if display_type s = GTTY_DISP_TYPE_VGA then VGA_CMD_GET_H else VESA_CMD_GETH) 0 s;
       let s = s\<lparr>buffer_height := h\<rparr>;
       (kbd_ok, s) \<leftarrow> (if kbd_node s \<noteq> 0 then do { (r, s) \<leftarrow> node_status_at cs (kbd_node s) s; Some (r = 1, s) } else Some (False, s));
       if \<not> kbd_ok then Some s
       else do {
         (r, s) \<leftarrow> node_control_at cs (kbd_node s) KBD_CMD_REGISTER_LISTENER listener s;
         (ib, s) \<leftarrow> kern_malloc GTTY_INPUT_BUFFER_LEN s;
         let s = s\<lparr>input_buffer := ib\<rparr>;
         ((d, f), s) \<leftarrow> add_device cs ''gtty'' (word_of_int (buffer_width s * buffer_height s)) ''gtty_dev_'' (display_device_file s) s;
         let s = s\<lparr>gtty_device := d, gtty_device_file := f\<rparr>;
         s \<leftarrow> (if display_type s = GTTY_DISP_TYPE_VESA
               then do {
                 let s = s\<lparr>main_y := margin_y_top, main_x := margin_x\<rparr>;
                 (r, s) \<leftarrow> install_pit_routine cursor 1500 s;
                 Some s
               }
               else do { (r, s) \<leftarrow> display_control cs VGA_CMD_CLRSCR 0 s; Some s });
         Some (s\<lparr>gtty_status := if display_device_file s \<noteq> 0 \<and> gtty_device s \<noteq> 0 \<and> gtty_device_file s \<noteq> 0 then 1 else 0\<rparr>)
       }
     }
   }"

end
