(* ===== verification/Terminal.thy ===== *)
theory Terminal
  imports Gtty
begin

text \<open>
  What the terminal promises on a VGA display. The terminal relies on the display only through the calls of its node, so
  the lemmas are proved for all code in which these calls lead to the VGA driver.
\<close>

subsection \<open>The display behind the calls\<close>

definition vga_linked :: "'z gtty_scheme \<Rightarrow> bool" where
  "vga_linked s \<longleftrightarrow> display_device_file s \<noteq> 0 \<and> command_buffer s \<noteq> 0 \<and>
     (\<exists>nd dev. vnodes s (display_device_file s) = Some nd \<and> node_write nd = Sym ''write_node_devfs'' \<and> node_control nd = Sym ''control_node_devfs'' \<and>
       base_pointer nd = vga_device s \<and> io_nodes s (vga_device s) = Some dev \<and>
       io_write dev = Sym ''vga_dev_write'' \<and> io_control dev = Sym ''vga_dev_control'')"

definition cursor_ports :: "u32 \<Rightarrow> (u16 \<times> u8) list" where
  "cursor_ports l = [(CRT_VGA_CURS_CONF_PORT, 14), (CRT_VGA_CURS_OUTP_PORT, ucast (drop_bit 8 l)),
     (CRT_VGA_CURS_CONF_PORT, 15), (CRT_VGA_CURS_OUTP_PORT, ucast l)]"

lemma vga_move_cursor_eq: "vga_move_cursor l s = s\<lparr>port_log := port_log s @ cursor_ports l\<rparr>"
  by (simp add: vga_move_cursor_def cursor_ports_def write_port_8_def)

text \<open>The state without what a write to the terminal changes; a write is a step between states that agree on the rest.\<close>

definition blank :: "'z gtty_scheme \<Rightarrow> 'z gtty_scheme" where
  "blank s = s\<lparr>video := \<lambda>x. 0, kh_bytes := \<lambda>x. 0, port_log := [], main_x := 0, main_y := 0, input_buffer_index := 0\<rparr>"

definition term_step :: "'z gtty_scheme \<Rightarrow> 'z gtty_scheme \<Rightarrow> bool" where
  "term_step s s' \<longleftrightarrow> blank s' = blank s"

lemma term_step_refl [simp]: "term_step s s"
  by (simp add: term_step_def)

lemma term_step_trans [trans]: "term_step s s' \<Longrightarrow> term_step s' s'' \<Longrightarrow> term_step s s''"
  by (simp add: term_step_def)

lemma term_step_upd [simp]:
  "term_step s (t\<lparr>video := v\<rparr>) = term_step s t" "term_step s (t\<lparr>kh_bytes := m\<rparr>) = term_step s t" "term_step s (t\<lparr>port_log := l\<rparr>) = term_step s t"
  "term_step s (t\<lparr>main_x := x\<rparr>) = term_step s t" "term_step s (t\<lparr>main_y := x\<rparr>) = term_step s t" "term_step s (t\<lparr>input_buffer_index := x\<rparr>) = term_step s t"
  by (simp_all add: term_step_def blank_def)

lemma term_step_sel:
  assumes "term_step s s'"
  shows "vga_linked s' = vga_linked s" "buffer_width s' = buffer_width s" "buffer_height s' = buffer_height s"
    "display_mode s' = display_mode s" "display_type s' = display_type s" "command_buffer s' = command_buffer s" "colour_setting s' = colour_setting s"
    "input_buffer s' = input_buffer s" "input_buffer_size s' = input_buffer_size s" "input_buffer_flag s' = input_buffer_flag s"
    "vga_device s' = vga_device s" "gtty_echo s' = gtty_echo s" "kbd_same s s'"
proof -
  note eq = assms[unfolded term_step_def]
  have "vga_linked (blank s) = vga_linked s" for s :: "'z gtty_scheme" by (simp add: vga_linked_def blank_def)
  then show "vga_linked s' = vga_linked s" using eq by metis
  show "buffer_width s' = buffer_width s" "buffer_height s' = buffer_height s" using arg_cong[OF eq, of buffer_width] arg_cong[OF eq, of buffer_height]
    by (simp_all add: blank_def)
  show "display_mode s' = display_mode s" "display_type s' = display_type s" using arg_cong[OF eq, of display_mode] arg_cong[OF eq, of display_type]
    by (simp_all add: blank_def)
  show "command_buffer s' = command_buffer s" "colour_setting s' = colour_setting s"
    using arg_cong[OF eq, of command_buffer] arg_cong[OF eq, of colour_setting] by (simp_all add: blank_def)
  show "input_buffer s' = input_buffer s" "input_buffer_size s' = input_buffer_size s" "input_buffer_flag s' = input_buffer_flag s"
    using arg_cong[OF eq, of input_buffer] arg_cong[OF eq, of input_buffer_size] arg_cong[OF eq, of input_buffer_flag] by (simp_all add: blank_def)
  show "vga_device s' = vga_device s" "gtty_echo s' = gtty_echo s" using arg_cong[OF eq, of vga_device] arg_cong[OF eq, of gtty_echo]
    by (simp_all add: blank_def)
  show "kbd_same s s'" using arg_cong[OF eq, of kbd_lshift] arg_cong[OF eq, of kbd_caps] arg_cong[OF eq, of kbd_listeners]
    by (simp add: blank_def kbd_same_def)
qed

text \<open>Most characters change memory only in the command buffer.\<close>

definition mem_same :: "'z gtty_scheme \<Rightarrow> 'z gtty_scheme \<Rightarrow> bool" where
  "mem_same s s' \<longleftrightarrow> command_buffer s' = command_buffer s \<and> input_buffer_index s' = input_buffer_index s \<and>
     (\<forall>x. 4 \<le> unat (x - command_buffer s) \<longrightarrow> kh_bytes s' x = kh_bytes s x)"

lemma mem_same_refl [simp]: "mem_same s s"
  by (simp add: mem_same_def)

lemma mem_same_trans [trans]: "mem_same s s' \<Longrightarrow> mem_same s' s'' \<Longrightarrow> mem_same s s''"
  by (simp add: mem_same_def)

text \<open>
  The cursor is on the screen, and the hardware cursor is at the same place. \<open>term_pre\<close> holds between a character and the
  treatment of line and screen ends.
\<close>

definition screen_inv :: "'z gtty_scheme \<Rightarrow> bool" where
  "screen_inv s \<longleftrightarrow> vga_linked s \<and> buffer_width s = 80 \<and> buffer_height s = 25 \<and> 0 \<le> main_x s \<and> main_x s < 80 \<and> 0 \<le> main_y s \<and> main_y s < 25"

definition synced :: "'z gtty_scheme \<Rightarrow> bool" where
  "synced s \<longleftrightarrow> (\<exists>l. port_log s = l @ cursor_ports (gtty_xy_to_location (main_x s) (main_y s) s))"

definition term_pre :: "'z gtty_scheme \<Rightarrow> bool" where
  "term_pre s \<longleftrightarrow> vga_linked s \<and> buffer_width s = 80 \<and> buffer_height s = 25 \<and> 0 \<le> main_x s \<and> main_x s \<le> 80 \<and> 0 \<le> main_y s \<and> main_y s \<le> 25 \<and>
     (main_x s = 80 \<longrightarrow> main_y s < 25) \<and> synced s"

lemma unat_small: "0 \<le> z \<Longrightarrow> z < 2 ^ 31 \<Longrightarrow> unat (word_of_int z :: u32) = nat z"
proof -
  assume z: "0 \<le> z" "z < 2 ^ 31"
  then obtain n where n: "z = int n" using nonneg_int_cases by blast
  then show ?thesis using z(2) by (simp add: unat_of_nat take_bit_nat_eq_self)
qed

text \<open>Characters that are shown as such.\<close>

definition printable :: "u8 \<Rightarrow> bool" where
  "printable c \<longleftrightarrow> c \<notin> {0x08, 0x09, 0x0A, 0x0D}"

locale vga_display =
  fixes cs :: "'z gtty_scheme calls" and dr :: "'z gtty_scheme drivers"
  assumes io: "call_io cs ''write_node_devfs'' n a z b s = write_node_devfs dr n a z b s"
    and control: "call_control cs ''control_node_devfs'' n c a s = control_node_devfs dr n c a s"
    and vga_io: "drv_io dr ''vga_dev_write'' d a z b s = Some (vga_dev_write d a z b s)"
    and vga_control: "drv_control dr ''vga_dev_control'' d c a s = vga_dev_control d c a s"
begin

lemma write_eq:
  "vga_linked s \<Longrightarrow> display_write cs a n p s = Some (if p = 0 then (-1, s) else vga_dev_write (vga_device s) a n p s)"
  by (auto simp: display_write_def vga_linked_def io write_node_devfs_def device_of_def vga_io)

lemma control_eq:
  "vga_linked s \<Longrightarrow> c \<noteq> 0 \<Longrightarrow> display_control cs c a s = vga_dev_control (vga_device s) c a s"
  by (auto simp: display_control_def node_control_at_def vga_linked_def control control_node_devfs_def device_of_def vga_control)

lemma move_eq:
  assumes "vga_linked s" and l: "l = gtty_xy_to_location x y s"
  shows "vga_move cs x y s = Some (s\<lparr>kh_bytes := store_u32 (command_buffer s) l (kh_bytes s), port_log := port_log s @ cursor_ports l\<rparr>)"
proof -
  let ?s = "set_command 0 l s"
  have "term_step s ?s" by (simp add: set_command_def)
  then have "vga_linked ?s" using assms(1) term_step_sel(1) by blast
  then have "display_control cs VGA_CMD_MOVCRS (command_buffer s) ?s = vga_dev_control (vga_device s) VGA_CMD_MOVCRS (command_buffer s) ?s"
    using control_eq[of ?s VGA_CMD_MOVCRS] by (simp add: VGA_CMD_MOVCRS_def set_command_def)
  moreover have "command_buffer s \<noteq> 0" using assms(1) by (simp add: vga_linked_def)
  ultimately show ?thesis
    by (simp add: vga_move_def l[symmetric] Let_def) (simp add: vga_dev_control_def vga_cmds set_command_def load_store_u32 vga_move_cursor_eq)
qed

lemma write_upd: "vga_linked s \<Longrightarrow> \<exists>r v. display_write cs a n p s = Some (r, s\<lparr>video := v\<rparr>)"
proof -
  have self: "\<exists>v. s = s\<lparr>video := v\<rparr>" by (rule exI[of _ "video s"]) simp
  then have "\<exists>r v. vga_dev_write d a n p s = (r, s\<lparr>video := v\<rparr>)" for d
    unfolding vga_dev_write_def Let_def by (auto split: if_splits)
  moreover assume "vga_linked s"
  ultimately show ?thesis using self by (auto simp: write_eq)
qed

lemma scroll_eq: "vga_linked s \<Longrightarrow> display_control cs VGA_CMD_SCROLL a s = Some (0, vga_scroll s)"
  using control_eq[of s VGA_CMD_SCROLL] by (simp add: vga_dev_control_def vga_cmds)

subsubsection \<open>The cursor stays on the screen\<close>

lemma wrap_ok:
  assumes "term_pre s"
  shows "\<exists>s'. vga_wrap cs s = Some s' \<and> term_step s s' \<and> screen_inv s' \<and> synced s' \<and> mem_same s s'"
proof -
  note pre = assms[unfolded term_pre_def]
  have lk: "vga_linked s" using pre by blast
  define s1 where "s1 = (if main_x s > buffer_width s - 1 then s\<lparr>main_x := 0, main_y := main_y s + 1,
      kh_bytes := store_u32 (command_buffer s) (gtty_xy_to_location 0 (main_y s + 1) s) (kh_bytes s),
      port_log := port_log s @ cursor_ports (gtty_xy_to_location 0 (main_y s + 1) s)\<rparr> else s)"
  have t1: "term_step s s1" "mem_same s s1" by (simp_all add: s1_def mem_same_def store_u32_other)
  have lk0: "vga_linked (s\<lparr>main_x := 0, main_y := main_y s + 1\<rparr>)" using lk term_step_sel(1)[of s "s\<lparr>main_x := 0, main_y := main_y s + 1\<rparr>"] by simp
  have first: "(if main_x s > buffer_width s - 1 then do { let s = s\<lparr>main_x := 0, main_y := main_y s + 1\<rparr>; vga_move cs (main_x s) (main_y s) s } else Some s) = Some s1"
    using move_eq[OF lk0 refl, of 0 "main_y s + 1"] by (simp add: s1_def gtty_xy_to_location_def)
  have p1: "vga_linked s1" "buffer_width s1 = 80" "buffer_height s1 = 25" "0 \<le> main_x s1" "main_x s1 < 80" "0 \<le> main_y s1" "main_y s1 \<le> 25" "synced s1"
    using pre term_step_sel(1)[OF t1(1)] by (auto simp: s1_def synced_def gtty_xy_to_location_def)
  show ?thesis
  proof (cases "main_y s1 > buffer_height s1 - 1")
    case True
    let ?s2 = "vga_scroll s1"
    have t2: "term_step s1 ?s2" by (simp add: vga_scroll_def Let_def)
    have lk2: "vga_linked ?s2" using p1(1) term_step_sel(1)[OF t2] by simp
    have w2: "buffer_width ?s2 = 80" "buffer_height ?s2 = 25" "main_x ?s2 = main_x s1" "main_y ?s2 = main_y s1"
      using p1(2,3) by (simp_all add: vga_scroll_def Let_def)
    define l where "l = gtty_xy_to_location (main_x s1) 24 ?s2"
    let ?s3 = "?s2\<lparr>kh_bytes := store_u32 (command_buffer ?s2) l (kh_bytes ?s2), port_log := port_log ?s2 @ cursor_ports l\<rparr>"
    have "vga_move cs (main_x s1) 24 ?s2 = Some ?s3" by (rule move_eq[OF lk2 l_def])
    then have run: "vga_wrap cs s = Some (?s3\<lparr>main_y := main_y s1 - 1\<rparr>)"
      unfolding vga_wrap_def first using True scroll_eq[OF p1(1)] w2 p1(3) by simp
    have y: "main_y s1 = 25" using True p1(3,7) by simp
    have "mem_same s1 (?s3\<lparr>main_y := main_y s1 - 1\<rparr>)" using term_step_sel(6)[OF t2] by (simp add: mem_same_def store_u32_other vga_scroll_def Let_def)
    note ms = mem_same_trans[OF t1(2) this]
    have "term_step s1 (?s3\<lparr>main_y := main_y s1 - 1\<rparr>)" using t2 by simp
    from term_step_trans[OF t1(1) this] ms run y p1(4,5) w2 lk2 term_step_sel(1)[OF this] p1(1) show ?thesis
      by (auto simp: screen_inv_def synced_def gtty_xy_to_location_def l_def)
  next
    case False
    then have "vga_wrap cs s = Some s1" unfolding vga_wrap_def first by simp
    then show ?thesis using t1 p1 False by (auto simp: screen_inv_def)
  qed
qed

lemma screen_pre: "screen_inv s \<Longrightarrow> synced s \<Longrightarrow> term_pre s"
  by (simp add: screen_inv_def term_pre_def)

lemma move_pre:
  assumes "vga_linked s" "buffer_width s = 80" "buffer_height s = 25" "0 \<le> main_x s" "main_x s \<le> 80" "0 \<le> main_y s" "main_y s \<le> 25"
    "main_x s = 80 \<longrightarrow> main_y s < 25"
  shows "\<exists>s'. vga_move cs (main_x s) (main_y s) s = Some s' \<and> term_step s s' \<and> term_pre s' \<and> main_x s' = main_x s \<and> main_y s' = main_y s \<and>
    video s' = video s \<and> mem_same s s'"
proof -
  let ?l = "gtty_xy_to_location (main_x s) (main_y s) s"
  let ?s' = "s\<lparr>kh_bytes := store_u32 (command_buffer s) ?l (kh_bytes s), port_log := port_log s @ cursor_ports ?l\<rparr>"
  have "vga_linked ?s'" using assms(1) term_step_sel(1)[of s ?s'] by simp
  then have "term_pre ?s'" using assms by (auto simp: term_pre_def synced_def gtty_xy_to_location_def)
  moreover have "mem_same s ?s'" by (simp add: mem_same_def store_u32_other)
  ultimately show ?thesis using move_eq[OF assms(1) refl] by auto
qed

lemma plain_ok:
  assumes "screen_inv s"
  shows "\<exists>s'. vga_plain cs p s = Some s' \<and> term_step s s' \<and> term_pre s' \<and> mem_same s s'"
proof -
  note inv = assms[unfolded screen_inv_def]
  obtain r v where w: "display_write cs (gtty_xy_to_location (main_x s) (main_y s) s) 1 p s = Some (r, s\<lparr>video := v\<rparr>)"
    using write_upd[of s] inv by blast
  let ?s1 = "s\<lparr>video := v, main_x := main_x s + 1\<rparr>"
  have t: "term_step s ?s1" by simp
  from move_pre[of ?s1] obtain s' where "vga_move cs (main_x ?s1) (main_y ?s1) ?s1 = Some s'" "term_step ?s1 s'" "term_pre s'" "mem_same ?s1 s'"
    using inv term_step_sel(1)[OF t] by auto
  moreover have "mem_same s ?s1" by (simp add: mem_same_def)
  ultimately show ?thesis using w term_step_trans[OF t] mem_same_trans by (auto simp: vga_plain_def)
qed

lemma space_ok:
  assumes "screen_inv s"
  shows "\<exists>s'. vga_space cs slot s = Some s' \<and> term_step s s' \<and> screen_inv s' \<and> synced s'"
proof -
  obtain s1 where s1: "vga_plain cs slot s = Some s1" "term_step s s1" "term_pre s1" using plain_ok[OF assms] by blast
  obtain s2 where s2: "vga_wrap cs s1 = Some s2" "term_step s1 s2" "screen_inv s2" "synced s2" using wrap_ok[OF s1(3)] by blast
  show ?thesis using s1(1) s2(1,3,4) term_step_trans[OF s1(2) s2(2)] by (auto simp: vga_space_def)
qed

lemma backspace_ok:
  assumes inv: "screen_inv s" and sy: "synced s"
  shows "\<exists>s'. vga_backspace cs slot s = Some s' \<and> term_step s s' \<and> term_pre s'"
proof (cases "input_buffer_index s \<ge> 1")
  case True
  note sc = inv[unfolded screen_inv_def]
  define s0 where "s0 = s\<lparr>input_buffer_index := input_buffer_index s - 1\<rparr>"
  define s1 where "s1 = set_byte_at (input_buffer s0 + word_of_int (input_buffer_index s0)) 0 s0"
  define s2 where "s2 = (if main_x s1 > 0 then s1\<lparr>main_x := main_x s1 - 1\<rparr>
      else if main_y s1 > 0 then s1\<lparr>main_x := buffer_width s1 - 1, main_y := main_y s1 - 1\<rparr> else s1)"
  define s3 where "s3 = set_byte_at slot 0x20 s2"
  have t3: "term_step s s3" by (simp add: s3_def s2_def s1_def s0_def set_byte_at_def)
  have x3: "0 \<le> main_x s3" "main_x s3 < 80" "0 \<le> main_y s3" "main_y s3 < 25" using sc by (auto simp: s3_def s2_def s1_def s0_def set_byte_at_def)
  have lk: "vga_linked s3" using sc term_step_sel(1)[OF t3] by simp
  obtain r v where w: "display_write cs (gtty_xy_to_location (main_x s3) (main_y s3) s3) 1 slot s3 = Some (r, s3\<lparr>video := v\<rparr>)"
    using write_upd[OF lk] by blast
  let ?s4 = "s3\<lparr>video := v\<rparr>"
  have t4: "term_step s ?s4" using t3 by simp
  from move_pre[of ?s4] obtain s5 where s5: "vga_move cs (main_x ?s4) (main_y ?s4) ?s4 = Some s5" "term_step ?s4 s5" "term_pre s5"
    using sc x3 term_step_sel(1-3)[OF t4] by auto
  have "vga_backspace cs slot s = display_write cs (gtty_xy_to_location (main_x s3) (main_y s3) s3) 1 slot s3 \<bind> (\<lambda>(r, s). vga_move cs (main_x s) (main_y s) s)"
    unfolding vga_backspace_def s3_def s2_def s1_def s0_def Let_def by (simp only: True if_True)
  then have "vga_backspace cs slot s = Some s5" using w s5(1) by simp
  then show ?thesis using s5(3) term_step_trans[OF t4 s5(2)] by blast
qed (use screen_pre[OF assms] in \<open>simp add: vga_backspace_def\<close>)

lemma tab_ok:
  assumes "screen_inv s"
  shows "\<exists>s'. do { s \<leftarrow> vga_space cs slot s; s \<leftarrow> vga_space cs slot s; s \<leftarrow> vga_space cs slot s; vga_space cs slot s } = Some s' \<and>
    term_step s s' \<and> screen_inv s' \<and> synced s'"
proof -
  obtain s1 where s1: "vga_space cs slot s = Some s1" "term_step s s1" "screen_inv s1" using space_ok[OF assms] by blast
  obtain s2 where s2: "vga_space cs slot s1 = Some s2" "term_step s1 s2" "screen_inv s2" using space_ok[OF s1(3)] by blast
  obtain s3 where s3: "vga_space cs slot s2 = Some s3" "term_step s2 s3" "screen_inv s3" using space_ok[OF s2(3)] by blast
  obtain s4 where s4: "vga_space cs slot s3 = Some s4" "term_step s3 s4" "screen_inv s4" "synced s4" using space_ok[OF s3(3)] by blast
  show ?thesis using s1(1) s2(1) s3(1) s4(1,3,4) term_step_trans[OF s1(2) term_step_trans[OF s2(2) term_step_trans[OF s3(2) s4(2)]]] by simp
qed

lemma dispatch_ok:
  assumes inv: "screen_inv s" and sy: "synced s"
  shows "\<exists>s1. vga_dispatch cs slot p s = Some s1 \<and> term_step s s1 \<and> term_pre s1"
proof -
  note sc = inv[unfolded screen_inv_def]
  let ?n = "s\<lparr>main_x := 0, main_y := main_y s + 1\<rparr>" and ?r = "s\<lparr>main_x := 0\<rparr>" and ?t = "set_byte_at slot 0x20 s"
  have st: "term_step s ?n" "term_step s ?r" "term_step s ?t" by (simp_all add: set_byte_at_def)
  have lk: "vga_linked ?n" "vga_linked ?r" "screen_inv ?t"
    using sc term_step_sel(1)[OF st(1)] term_step_sel(1)[OF st(2)] term_step_sel(1)[OF st(3)] by (auto simp: screen_inv_def set_byte_at_def)
  have "\<exists>s1. vga_move cs 0 (main_y s + 1) ?n = Some s1 \<and> term_step s s1 \<and> term_pre s1"
    using move_pre[of ?n] lk(1) sc term_step_trans[OF st(1)] by auto
  moreover have "\<exists>s1. vga_move cs 0 (main_y s) ?r = Some s1 \<and> term_step s s1 \<and> term_pre s1"
    using move_pre[of ?r] lk(2) sc term_step_trans[OF st(2)] by auto
  moreover have "\<exists>s1. do { s \<leftarrow> vga_space cs slot ?t; s \<leftarrow> vga_space cs slot s; s \<leftarrow> vga_space cs slot s; vga_space cs slot s } = Some s1 \<and>
      term_step s s1 \<and> term_pre s1"
    using tab_ok[OF lk(3), of slot] screen_pre term_step_trans[OF st(3)] by blast
  moreover have "\<exists>s1. vga_plain cs p s = Some s1 \<and> term_step s s1 \<and> term_pre s1" using plain_ok[OF inv, of p] by blast
  ultimately show ?thesis using backspace_ok[OF inv sy, of slot] by (simp add: vga_dispatch_def Let_def)
qed

lemma char_ok:
  assumes "screen_inv s" "synced s"
  shows "\<exists>s'. vga_char cs slot p s = Some s' \<and> term_step s s' \<and> screen_inv s' \<and> synced s'"
proof -
  obtain s1 where s1: "vga_dispatch cs slot p s = Some s1" "term_step s s1" "term_pre s1" using dispatch_ok[OF assms] by blast
  obtain s2 where s2: "vga_wrap cs s1 = Some s2" "term_step s1 s2" "screen_inv s2" "synced s2" using wrap_ok[OF s1(3)] by blast
  show ?thesis using s1(1) s2(1,3,4) term_step_trans[OF s1(2) s2(2)] by (auto simp: vga_char_def)
qed

lemma chars_ok:
  "screen_inv s \<Longrightarrow> synced s \<Longrightarrow> \<exists>s'. vga_chars cs slot p n s = Some s' \<and> term_step s s' \<and> screen_inv s' \<and> synced s'"
proof (induction n arbitrary: p s)
  case (Suc n)
  obtain s1 where s1: "vga_char cs slot p s = Some s1" "term_step s s1" "screen_inv s1" "synced s1" using char_ok[OF Suc.prems] by blast
  from Suc.IH[OF s1(3,4), of "p + 1"] s1(1,2) show ?case by (auto intro: term_step_trans)
qed auto

lemma write_ok:
  assumes "screen_inv s" "synced s" "display_mode s = GTTY_MODE_TXT"
  shows "\<exists>s'. gtty_write_vga cs slot a n buf s = Some (sint n, s') \<and> term_step s s' \<and> screen_inv s' \<and> synced s'"
  using chars_ok[OF assms(1,2), of slot buf "nat (sint n)"] assms(3)
  by (auto simp: gtty_write_vga_def GTTY_MODE_TXT_def GTTY_MODE_PX_def)

subsubsection \<open>Text\<close>

lemma printable_ok:
  assumes "screen_inv s" "printable (kh_bytes s p)"
  shows "\<exists>s'. vga_char cs slot p s = Some s' \<and> term_step s s' \<and> screen_inv s' \<and> synced s' \<and> mem_same s s'"
proof -
  obtain s1 where s1: "vga_plain cs p s = Some s1" "term_step s s1" "term_pre s1" "mem_same s s1" using plain_ok[OF assms(1)] by blast
  obtain s2 where s2: "vga_wrap cs s1 = Some s2" "term_step s1 s2" "screen_inv s2" "synced s2" "mem_same s1 s2" using wrap_ok[OF s1(3)] by blast
  have "vga_dispatch cs slot p s = Some s1" using s1(1) assms(2) by (simp add: vga_dispatch_def printable_def Let_def)
  then show ?thesis using s2(1,3,4) term_step_trans[OF s1(2) s2(2)] mem_same_trans[OF s1(4) s2(5)] by (auto simp: vga_char_def)
qed

text \<open>A character that is not the last of its line goes into the cell at the cursor, and the cursor moves on by one.\<close>

lemma cell_ok:
  assumes inv: "screen_inv s" and c: "printable (kh_bytes s p)" "p \<noteq> 0" and x: "main_x s < 79"
  defines "loc \<equiv> nat (main_x s + main_y s * 80)"
  shows "\<exists>s'. vga_char cs slot p s = Some s' \<and> term_step s s' \<and> screen_inv s' \<and> mem_same s s' \<and> main_x s' = main_x s + 1 \<and> main_y s' = main_y s \<and>
    video s' = (video s)(loc := vga_cell (kh_bytes s p) (colour_setting s))"
proof -
  note sc = inv[unfolded screen_inv_def]
  let ?a = "gtty_xy_to_location (main_x s) (main_y s) s"
  have "main_y s * 80 \<le> 24 * 80" using sc by simp
  then have r: "0 \<le> main_x s + main_y s * 80" "main_x s + main_y s * 80 < 2000" using sc by simp_all
  have a: "unat ?a = loc" using sc r unat_small[OF r(1)] by (simp add: gtty_xy_to_location_def loc_def)
  have a2: "loc < 2000" using r by (simp add: loc_def)
  have w1: "unat ?a < 2000" "unat ?a + unat (1 :: u32) < 2 ^ 32" using a a2 by simp_all
  obtain s1 where w: "vga_dev_write (vga_device s) ?a 1 p s = (int (min (unat (1 :: u32)) (2000 - unat ?a)), s1)"
    "s1 = s\<lparr>video := \<lambda>x. if unat ?a \<le> x \<and> x < unat ?a + min (unat (1 :: u32)) (2000 - unat ?a) then vga_cell (kh_bytes s (p + of_nat (x - unat ?a))) (colour_setting s) else video s x\<rparr>"
    by (rule vga_write[OF w1])
  have s1: "s1 = s\<lparr>video := (video s)(loc := vga_cell (kh_bytes s p) (colour_setting s))\<rparr>"
    using w(2) a a2 by (auto simp: fun_eq_iff)
  let ?s2 = "s1\<lparr>main_x := main_x s + 1\<rparr>"
  have t2: "term_step s ?s2" "mem_same s ?s2" by (simp_all add: s1 mem_same_def)
  from move_pre[of ?s2] obtain s3 where s3: "vga_move cs (main_x ?s2) (main_y ?s2) ?s2 = Some s3" "term_step ?s2 s3" "term_pre s3"
    "main_x s3 = main_x s + 1" "main_y s3 = main_y s" "video s3 = video s1" "mem_same ?s2 s3"
    using sc x term_step_sel(1)[OF t2(1)] by (auto simp: s1)
  have t3: "term_step s s3" using term_step_trans[OF t2(1) s3(2)] .
  have "vga_plain cs p s = Some s3"
    using write_eq[of s ?a 1 p] sc c(2) w(1) s3(1) by (simp add: vga_plain_def s1)
  then have "vga_dispatch cs slot p s = Some s3" using c(1) by (simp add: vga_dispatch_def printable_def Let_def)
  moreover have "vga_wrap cs s3 = Some s3" using s3(4,5) x sc term_step_sel(2,3)[OF t3] by (simp add: vga_wrap_def)
  moreover have "screen_inv s3" using s3(4,5) sc x term_step_sel(1-3)[OF t3] by (simp add: screen_inv_def)
  ultimately show ?thesis using t3 s3(4-6) mem_same_trans[OF t2(2) s3(7)] by (auto simp: vga_char_def s1)
qed

lemma text_ok:
  "screen_inv s \<Longrightarrow> main_x s + int n < 80 \<Longrightarrow>
    \<forall>j<n. printable (kh_bytes s (p + of_nat j)) \<and> p + of_nat j \<noteq> 0 \<and> 4 \<le> unat (p + of_nat j - command_buffer s) \<Longrightarrow>
    loc = nat (main_x s + main_y s * 80) \<Longrightarrow> \<exists>s'. vga_chars cs slot p n s = Some s' \<and> term_step s s' \<and> screen_inv s' \<and> main_x s' = main_x s + int n \<and> main_y s' = main_y s \<and>
    (\<forall>x. video s' x = (if loc \<le> x \<and> x < loc + n then vga_cell (kh_bytes s (p + of_nat (x - loc))) (colour_setting s) else video s x))"
proof (induction n arbitrary: s p loc)
  case (Suc n)
  have c: "printable (kh_bytes s p)" "p \<noteq> 0" "main_x s < 79" using Suc.prems(2) Suc.prems(3)[rule_format, of 0] by auto
  note sc = Suc.prems(1)[unfolded screen_inv_def]
  obtain s1 where s1: "vga_char cs slot p s = Some s1" "term_step s s1" "screen_inv s1" "mem_same s s1" "main_x s1 = main_x s + 1" "main_y s1 = main_y s"
    "video s1 = (video s)(nat (main_x s + main_y s * 80) := vga_cell (kh_bytes s p) (colour_setting s))"
    using cell_ok[OF Suc.prems(1) c] by blast
  have mem: "kh_bytes s1 (p + 1 + of_nat j) = kh_bytes s (p + of_nat (Suc j))" if "j < n" for j
    using s1(4) Suc.prems(3)[rule_format, of "Suc j"] that by (simp add: mem_same_def algebra_simps)
  have "printable (kh_bytes s1 (p + 1 + of_nat j)) \<and> p + 1 + of_nat j \<noteq> 0 \<and> 4 \<le> unat (p + 1 + of_nat j - command_buffer s1)" if j: "j < n" for j
  proof -
    have "p + of_nat (Suc j) = p + 1 + of_nat j" by (simp only: of_nat_Suc add.assoc)
    then show ?thesis using Suc.prems(3)[rule_format, of "Suc j"] mem[OF j] j term_step_sel(6)[OF s1(2)] by (simp only: add.assoc) simp
  qed
  then have "\<forall>j<n. printable (kh_bytes s1 (p + 1 + of_nat j)) \<and> p + 1 + of_nat j \<noteq> 0 \<and> 4 \<le> unat (p + 1 + of_nat j - command_buffer s1)" by blast
  moreover have "main_x s1 + int n < 80" using Suc.prems(2) s1(5) by simp
  ultimately obtain s2 where s2: "vga_chars cs slot (p + 1) n s1 = Some s2" "term_step s1 s2" "screen_inv s2" "main_x s2 = main_x s1 + int n" "main_y s2 = main_y s1"
    "\<forall>x. video s2 x = (if nat (main_x s1 + main_y s1 * 80) \<le> x \<and> x < nat (main_x s1 + main_y s1 * 80) + n
       then vga_cell (kh_bytes s1 (p + 1 + of_nat (x - nat (main_x s1 + main_y s1 * 80)))) (colour_setting s1) else video s1 x)"
    using Suc.IH[OF s1(3), of "p + 1"] by blast
  have l1: "nat (main_x s1 + main_y s1 * 80) = Suc loc" using sc s1(5,6) Suc.prems(4) nat_add_distrib[of "main_x s + main_y s * 80" 1] by (simp add: algebra_simps)
  have "video s2 x = (if loc \<le> x \<and> x < loc + Suc n then vga_cell (kh_bytes s (p + of_nat (x - loc))) (colour_setting s) else video s x)" for x
  proof (cases "Suc loc \<le> x \<and> x < Suc loc + n")
    case True
    then have "x - loc = Suc (x - Suc loc)" "x - Suc loc < n" by auto
    then show ?thesis using s2(6)[rule_format, of x] True mem[of "x - Suc loc"] term_step_sel(7)[OF s1(2)] unfolding l1 by simp
  next
    case False
    then have "video s2 x = video s1 x" using s2(6)[rule_format, of x] unfolding l1 by (simp only: if_False)
    then show ?thesis using False s1(7) by (auto simp: Suc.prems(4))
  qed
  then show ?case using s1(1,5,6) s2(1,3-5) term_step_trans[OF s1(2) s2(2)] by auto
qed auto

end

text \<open>The linked kernel.\<close>

interpretation vd: vga_display "devfs_calls (vga_drivers dr) other" "vga_drivers dr" for dr :: "'z gtty_scheme drivers" and other
  by unfold_locales (simp_all add: devfs_calls_def vga_drivers_def)

end
