(* ===== verification/Line_Input.thy ===== *)
theory Line_Input
  imports Terminal
begin

text \<open>
  A line from the keyboard to a program: scan codes reach the terminal's listener, which fills the input buffer and
  echoes each character on the screen; a read then returns the line.
\<close>

subsection \<open>Echo\<close>

definition console_linked :: "'z gtty_scheme \<Rightarrow> bool" where
  "console_linked s \<longleftrightarrow> console s \<noteq> 0 \<and> base_init s \<and> gtty_device s \<noteq> 0 \<and> gtty_status s = 1 \<and> display_type s = GTTY_DISP_TYPE_VGA \<and>
     display_mode s = GTTY_MODE_TXT \<and>
     (\<exists>nd dev. vnodes s (console s) = Some nd \<and> node_write nd = Sym ''write_node_devfs'' \<and> node_status nd = Sym ''status_of_node_devfs'' \<and>
       base_pointer nd = gtty_device s \<and> io_nodes s (gtty_device s) = Some dev \<and>
       io_write dev = Sym ''gtty_dev_write'' \<and> io_status dev = Sym ''gtty_dev_status'')"

lemma console_linked_step: "term_step s s' \<Longrightarrow> console_linked s' = console_linked s"
proof -
  assume "term_step s s'"
  moreover have "console_linked (blank s) = console_linked s" for s :: "'z gtty_scheme" by (simp add: console_linked_def blank_def)
  ultimately show ?thesis unfolding term_step_def by metis
qed

definition text_char :: "char \<Rightarrow> bool" where
  "text_char c \<longleftrightarrow> c \<notin> {CHR 0x08, CHR 0x09, CHR 0x0A, CHR 0x0D}"

lemma printable_char: "text_char c \<Longrightarrow> printable (of_char c)"
proof -
  have e: "(8 :: u8) = of_char (CHR 0x08)" "(9 :: u8) = of_char (CHR 0x09)" "(10 :: u8) = of_char (CHR 0x0A)" "(13 :: u8) = of_char (CHR 0x0D)"
    by simp_all
  assume "text_char c"
  then show ?thesis unfolding printable_def text_char_def e by (simp only: insert_iff empty_iff of_char_inj simp_thms)
qed

text \<open>An echoed character changes the screen, the command buffer and the local variable that holds it.\<close>

definition echo_mem :: "ptr \<Rightarrow> 'z gtty_scheme \<Rightarrow> 'z gtty_scheme \<Rightarrow> bool" where
  "echo_mem cslot s s' \<longleftrightarrow> input_buffer_index s' = input_buffer_index s \<and>
     (\<forall>x. 4 \<le> unat (x - command_buffer s) \<longrightarrow> x \<noteq> cslot \<longrightarrow> kh_bytes s' x = kh_bytes s x)"

text \<open>
  A line being typed: the characters so far are in the input buffer, which a program of \<open>n\<close> characters has asked for. The
  buffer lies apart from the command buffer and the local variable.
\<close>

definition input_apart :: "ptr \<Rightarrow> 'z gtty_scheme \<Rightarrow> bool" where
  "input_apart cslot s \<longleftrightarrow> cslot \<noteq> 0 \<and> (\<forall>i<1024. 4 \<le> unat (input_buffer s + of_nat i - command_buffer s) \<and> input_buffer s + of_nat i \<noteq> cslot)"

definition line_state :: "ptr \<Rightarrow> nat \<Rightarrow> ptr \<Rightarrow> ptr \<Rightarrow> string \<Rightarrow> 'z gtty_scheme \<Rightarrow> bool" where
  "line_state cslot n q ib line s \<longleftrightarrow> screen_inv s \<and> console_linked s \<and> input_apart cslot s \<and> kbd_listeners s = [q] \<and> input_buffer s = ib \<and>
     kbd_lshift s = 0 \<and> kbd_caps s = 0 \<and> input_buffer_flag s = 0 \<and> input_buffer_size s = int n \<and> n \<le> 1024 \<and> length line < n \<and>
     input_buffer_index s = int (length line) \<and> (\<forall>i<length line. kh_bytes s (input_buffer s + of_nat i) = of_char (line ! i))"

lemma line_state_status: "line_state cslot n q ib line (s\<lparr>kbd_status := x\<rparr>) = line_state cslot n q ib line s"
  by (simp add: line_state_def screen_inv_def vga_linked_def console_linked_def input_apart_def)

text \<open>The states in which any key can be pressed.\<close>

definition console_ok :: "ptr \<Rightarrow> 'z gtty_scheme \<Rightarrow> bool" where
  "console_ok cslot s \<longleftrightarrow> cslot \<noteq> 0 \<and> screen_inv s \<and> synced s \<and> console_linked s"

lemma console_ok_input: "console_ok cslot (gtty_input c s) = console_ok cslot s"
  by (simp add: console_ok_def screen_inv_def synced_def console_linked_def vga_linked_def gtty_xy_to_location_def gtty_input_def set_byte_at_def Let_def)

lemma gtty_input_kbd: "kbd_same s (gtty_input c s)"
  by (simp add: kbd_same_def gtty_input_def set_byte_at_def Let_def)

locale console_code = vga_display cs dr for cs :: "'z gtty_scheme calls" and dr +
  fixes ccs :: "'z gtty_scheme calls" and cdr :: "'z gtty_scheme drivers" and font :: "int \<Rightarrow> u8 list" and slot cslot :: ptr
  assumes cio: "call_io ccs ''write_node_devfs'' n a z b s = write_node_devfs cdr n a z b s"
    and cstatus: "call_status ccs ''status_of_node_devfs'' n s = status_of_node_devfs cdr n s"
    and gtty_io: "drv_io cdr ''gtty_dev_write'' d a z b s = gtty_dev_write cs font slot d a z b s"
    and gtty_status: "drv_status cdr ''gtty_dev_status'' d s = Some (gtty_dev_status d s, s)"
begin

lemma kputchar_eq:
  assumes "console_linked s" and cslot: "cslot \<noteq> 0"
  shows "kputchar ccs cslot c s = map_option snd (gtty_write_vga cs slot 0xFFFFFFFF 1 cslot (set_byte_at cslot (of_char c) s))"
proof -
  obtain nd dev where l: "vnodes s (console s) = Some nd" "node_write nd = Sym ''write_node_devfs''" "node_status nd = Sym ''status_of_node_devfs''"
    "base_pointer nd = gtty_device s" "io_nodes s (gtty_device s) = Some dev" "io_write dev = Sym ''gtty_dev_write''" "io_status dev = Sym ''gtty_dev_status''"
    "console s \<noteq> 0" "base_init s" "gtty_device s \<noteq> 0" "gtty_status s = 1" "display_type s = GTTY_DISP_TYPE_VGA"
    using assms(1) by (auto simp: console_linked_def)
  have st: "node_status_at ccs (console s) s = Some (1, s)"
    using l by (simp add: node_status_at_def cstatus status_of_node_devfs_def device_of_def gtty_status gtty_dev_status_def)
  let ?s = "set_byte_at cslot (of_char c) s"
  have sel: "vnodes ?s = vnodes s" "console ?s = console s" "io_nodes ?s = io_nodes s" "gtty_device ?s = gtty_device s" "display_type ?s = display_type s"
    by (simp_all add: set_byte_at_def)
  have "call_io ccs ''write_node_devfs'' (console s) 0xFFFFFFFF 1 cslot ?s = gtty_write_vga cs slot 0xFFFFFFFF 1 cslot ?s"
    using l cslot by (simp add: cio write_node_devfs_def device_of_def sel gtty_io gtty_dev_write_def GTTY_DISP_TYPE_VGA_def GTTY_DISP_TYPE_VESA_def)
  then show ?thesis using l st
    by (cases "gtty_write_vga cs slot 0xFFFFFFFF 1 cslot ?s") (auto simp: kputchar_def sel)
qed

lemma kputchar_ok:
  assumes sc: "screen_inv s" and l: "console_linked s" "cslot \<noteq> 0" and c: "text_char c"
  shows "\<exists>s'. kputchar ccs cslot c s = Some s' \<and> term_step s s' \<and> screen_inv s' \<and> synced s' \<and> echo_mem cslot s s'"
proof -
  let ?s = "set_byte_at cslot (of_char c) s"
  have t: "term_step s ?s" by (simp add: set_byte_at_def)
  have "screen_inv ?s" using sc term_step_sel(1-3)[OF t] by (auto simp: screen_inv_def set_byte_at_def)
  moreover have "printable (kh_bytes ?s cslot)" using printable_char[OF c] by (simp add: set_byte_at_def)
  ultimately obtain s' where s': "vga_char cs slot cslot ?s = Some s'" "term_step ?s s'" "screen_inv s'" "synced s'" "mem_same ?s s'"
    using printable_ok by blast
  have "vga_chars cs slot cslot (Suc 0) ?s = Some s'" using s'(1) by simp
  moreover have "display_mode ?s \<noteq> GTTY_MODE_PX" using l(1) term_step_sel(4)[OF t] by (simp add: console_linked_def GTTY_MODE_TXT_def GTTY_MODE_PX_def)
  ultimately have "gtty_write_vga cs slot 0xFFFFFFFF 1 cslot ?s = Some (1, s')" by (simp add: gtty_write_vga_def)
  then have "kputchar ccs cslot c s = Some s'" using kputchar_eq[OF l, of c] by simp
  moreover have "echo_mem cslot s s'" using s'(5) by (auto simp: mem_same_def echo_mem_def set_byte_at_def)
  ultimately show ?thesis using s'(3,4) term_step_trans[OF t s'(2)] by blast
qed

subsubsection \<open>Typing\<close>

lemma listen_char:
  assumes ls: "line_state cslot n q ib line s" and c: "text_char c" and room: "Suc (length line) < n"
  shows "\<exists>s'. gtty_keyboard_listener ccs cslot KBD_VAL_TYPE_REGULAR (of_char c) s = Some s' \<and> line_state cslot n q ib (line @ [c]) s'"
proof -
  note st = ls[unfolded line_state_def]
  let ?p = "input_buffer s + of_nat (length line)"
  define s1 where "s1 = s\<lparr>kh_bytes := (kh_bytes s)(?p := of_char c), input_buffer_index := int (Suc (length line))\<rparr>"
  have t1: "term_step s s1" by (simp add: s1_def)
  have in1: "gtty_input c s = s1" using st c room by (simp add: gtty_input_def text_char_def set_byte_at_def s1_def Let_def)
  have ne: "(of_nat i :: u32) \<noteq> of_nat (length line)" if "i < length line" for i
  proof -
    have "unat (of_nat i :: u32) = i" "unat (of_nat (length line) :: u32) = length line"
      using that st by (simp_all add: unat_of_nat take_bit_nat_eq_self)
    then show ?thesis using that by auto
  qed
  have b1: "\<forall>i<Suc (length line). kh_bytes s1 (input_buffer s + of_nat i) = of_char ((line @ [c]) ! i)"
    using st ne by (auto simp: s1_def nth_append less_Suc_eq)
  have k: "kbd_lshift s1 = 0" "kbd_caps s1 = 0" "kbd_listeners s1 = [q]" "input_buffer_flag s1 = 0" using st by (simp_all add: s1_def)
  have sc1: "screen_inv s1" "console_linked s1" using st term_step_sel(1)[OF t1] console_linked_step[OF t1] by (simp_all add: screen_inv_def s1_def)
  have keep: "line_state cslot n q ib (line @ [c]) s2" if t2: "term_step s1 s2" and m: "screen_inv s2" "echo_mem cslot s1 s2" for s2
  proof -
    note sel = term_step_sel[OF t2] term_step_sel[OF t1] and same = term_step_sel(13)[OF t2, unfolded kbd_same_def]
    have "input_apart cslot s2 = input_apart cslot s" using sel unfolding input_apart_def by simp
    then have "input_apart cslot s2" using st by blast
    moreover have "kh_bytes s2 (input_buffer s2 + of_nat i) = of_char ((line @ [c]) ! i)" if i: "i < Suc (length line)" for i
    proof -
      have "i < 1024" using i st room by simp
      then have "4 \<le> unat (input_buffer s + of_nat i - command_buffer s) \<and> input_buffer s + of_nat i \<noteq> cslot"
        using st unfolding input_apart_def by blast
      then have "kh_bytes s2 (input_buffer s + of_nat i) = kh_bytes s1 (input_buffer s + of_nat i)"
        using m(2) term_step_sel(6)[OF t1] unfolding echo_mem_def by simp
      then show ?thesis using b1 i sel by simp
    qed
    moreover have "input_buffer_index s2 = int (Suc (length line))" using m(2) by (simp add: echo_mem_def s1_def)
    ultimately show ?thesis using st room sel same k m(1) console_linked_step[OF t2] sc1(2) unfolding line_state_def by (simp add: kbd_same_def)
  qed
  have v: "char_of (unat (of_char c :: u8)) = c" "c \<noteq> CHR 0x0A" "c \<noteq> CHR 0x0D" using c char_byte(1) by (auto simp: text_char_def)
  show ?thesis
  proof (cases "gtty_echo s1 = 1")
    case True
    obtain s2 where s2: "kputchar ccs cslot c s1 = Some s2" "term_step s1 s2" "screen_inv s2" "echo_mem cslot s1 s2" using kputchar_ok[OF sc1 _ c] st by (auto simp: input_apart_def)
    have "gtty_keyboard_listener ccs cslot KBD_VAL_TYPE_REGULAR (of_char c) s = Some s2"
      using s2(1) v True in1 by (simp add: gtty_keyboard_listener_def Let_def)
    then show ?thesis using keep[OF s2(2-4)] by blast
  next
    case False
    then have "gtty_keyboard_listener ccs cslot KBD_VAL_TYPE_REGULAR (of_char c) s = Some s1"
      using v in1 by (simp add: gtty_keyboard_listener_def Let_def)
    then show ?thesis using keep[of s1] sc1 by (simp add: echo_mem_def)
  qed
qed

lemma type_key:
  assumes ls: "line_state cslot n q ib line s" and k: "regular_code k" "text_char (kbd_map ! unat k)" and room: "Suc (length line) < n"
  shows "\<exists>s'. parse_scancode (\<lambda>p. gtty_keyboard_listener ccs cslot) k regs s = Some (regs, s') \<and>
    line_state cslot n q ib (line @ [kbd_map ! unat k]) s'"
proof -
  let ?s = "s\<lparr>kbd_status := KBD_STATUS_BUSY\<rparr>"
  have ls1: "line_state cslot n q ib line ?s" using ls by (simp add: line_state_status)
  then have st: "kbd_listeners ?s = [q]" "kbd_lshift ?s = 0" "kbd_caps ?s = 0" by (auto simp: line_state_def)
  obtain s1 where s1: "gtty_keyboard_listener ccs cslot KBD_VAL_TYPE_REGULAR (of_char (kbd_map ! unat k)) ?s = Some s1" "line_state cslot n q ib (line @ [kbd_map ! unat k]) s1"
    using listen_char[OF ls1 k(2) room] by blast
  have "parse_key (\<lambda>p. gtty_keyboard_listener ccs cslot) k ?s = Some s1"
    using k(1) s1(1) st by (simp add: parse_key_def regular_code_def serve_listeners_def scan_char_def)
  then show ?thesis using s1(2) by (simp add: parse_scancode_def line_state_status)
qed

lemma type_line:
  "line_state cslot n q ib line s \<Longrightarrow> \<forall>k\<in>set ks. regular_code k \<and> text_char (kbd_map ! unat k) \<Longrightarrow> length line + length ks < n \<Longrightarrow>
   \<exists>s'. kbd_run (\<lambda>p. gtty_keyboard_listener ccs cslot) ks regs s = Some s' \<and> line_state cslot n q ib (line @ map (\<lambda>k. kbd_map ! unat k) ks) s'"
proof (induction ks arbitrary: line s)
  case (Cons k ks)
  obtain s1 where s1: "parse_scancode (\<lambda>p. gtty_keyboard_listener ccs cslot) k regs s = Some (regs, s1)" "line_state cslot n q ib (line @ [kbd_map ! unat k]) s1"
    using type_key[OF Cons.prems(1), of k] Cons.prems by auto
  from Cons.IH[OF s1(2)] Cons.prems s1(1) show ?case by auto
qed simp

text \<open>The enter key ends the line.\<close>

lemma type_enter:
  assumes ls: "line_state cslot n q ib line s"
  obtains s' where "parse_scancode (\<lambda>p. gtty_keyboard_listener ccs cslot) 0x1C regs s = Some (regs, s')" "screen_inv s'"
    "input_buffer_flag s' = 1" "input_buffer_size s' = int n" "input_buffer_index s' = int (length line)" "input_buffer s' = input_buffer s" "kh_bytes s' = kh_bytes s"
proof -
  note st = ls[unfolded line_state_def]
  have m: "kbd_map ! 28 = CHR 0x0A" by (simp add: kbd_map_def)
  have r: "regular_code 0x1C" by (simp add: regular_code_def kbd_codes)
  have cb: "char_of (unat (of_char (CHR 0x0A) :: u8)) = CHR 0x0A" by (rule char_byte(1))
  let ?s0 = "s\<lparr>kbd_status := KBD_STATUS_BUSY\<rparr>" and ?s1 = "s\<lparr>kbd_status := KBD_STATUS_BUSY, input_buffer_flag := 1\<rparr>"
  have "gtty_input (CHR 0x0A) ?s0 = ?s1" using st by (simp add: gtty_input_def Let_def)
  then have "gtty_keyboard_listener ccs cslot KBD_VAL_TYPE_REGULAR (of_char (CHR 0x0A)) ?s0 = Some ?s1"
    unfolding gtty_keyboard_listener_def cb Let_def by simp
  then have "parse_key (\<lambda>p. gtty_keyboard_listener ccs cslot) 0x1C ?s0 = Some ?s1"
    using r st m by (simp add: parse_key_def regular_code_def serve_listeners_def scan_char_def del: of_char_Char)
  then have "parse_scancode (\<lambda>p. gtty_keyboard_listener ccs cslot) 0x1C regs s = Some (regs, ?s1\<lparr>kbd_status := KBD_STATUS_READY\<rparr>)"
    by (simp add: parse_scancode_def)
  then show ?thesis using that st by (auto simp: screen_inv_def vga_linked_def)
qed

subsubsection \<open>Any key\<close>

lemma kputchar_any:
  assumes "console_ok cslot s"
  shows "\<exists>s'. kputchar ccs cslot c s = Some s' \<and> term_step s s' \<and> console_ok cslot s'"
proof -
  note ok = assms[unfolded console_ok_def]
  let ?s = "set_byte_at cslot (of_char c) s"
  have t: "term_step s ?s" by (simp add: set_byte_at_def)
  have "screen_inv ?s = screen_inv s" "synced ?s = synced s" "display_mode ?s = display_mode s" using term_step_sel(1)[OF t]
    by (simp_all add: screen_inv_def synced_def gtty_xy_to_location_def set_byte_at_def)
  then have "screen_inv ?s" "synced ?s" "display_mode ?s = GTTY_MODE_TXT" using ok by (simp_all add: console_linked_def)
  then obtain s' where s': "gtty_write_vga cs slot 0xFFFFFFFF 1 cslot ?s = Some (sint (1 :: u32), s')" "term_step ?s s'" "screen_inv s'" "synced s'"
    using write_ok by blast
  have "kputchar ccs cslot c s = Some s'" using kputchar_eq[of s c] ok s'(1) by simp
  then show ?thesis using s'(3,4) ok term_step_trans[OF t s'(2)] console_linked_step by (auto simp: console_ok_def)
qed

lemma listen_any:
  assumes ok: "console_ok cslot s"
  shows "\<exists>s'. gtty_keyboard_listener ccs cslot ty v s = Some s' \<and> console_ok cslot s' \<and> kbd_same s s'"
proof (cases "ty = KBD_VAL_TYPE_REGULAR \<and> gtty_echo (gtty_input (char_of (unat v)) s) = 1 \<and> char_of (unat v) \<notin> {CHR 0x0A, CHR 0x0D}")
  case True
  let ?s = "gtty_input (char_of (unat v)) s"
  obtain s' where "kputchar ccs cslot (char_of (unat v)) ?s = Some s'" "term_step ?s s'" "console_ok cslot s'"
    using kputchar_any[of ?s] ok by (auto simp: console_ok_input)
  then show ?thesis using True gtty_input_kbd[of s "char_of (unat v)"] term_step_sel(13)[of ?s s']
    by (auto simp: gtty_keyboard_listener_def Let_def kbd_same_def)
next
  case False
  then have "gtty_keyboard_listener ccs cslot ty v s = Some s \<or> gtty_keyboard_listener ccs cslot ty v s = Some (gtty_input (char_of (unat v)) s)"
    by (auto simp: gtty_keyboard_listener_def Let_def)
  then show ?thesis using ok gtty_input_kbd[of s "char_of (unat v)"] by (auto simp: console_ok_input kbd_same_def)
qed

end

text \<open>A read of the size that was asked for copies what is in the input buffer, and empties it.\<close>

lemma read_copies:
  assumes f: "input_buffer_flag s = 1" "input_buffer_size s = int n" "input_buffer_index s = int k" "k \<le> 1024" "n \<le> 1024"
    and buf: "buf \<noteq> 0" "device \<noteq> 0" "\<forall>i<k. 1024 \<le> unat (buf + of_nat i - input_buffer s)" "apart buf (input_buffer s) (of_nat k)"
  shows "\<exists>s'. gtty_dev_read device a (of_nat n) buf s = (int k, s') \<and> input_buffer_index s' = 0 \<and> input_buffer_size s' = 0 \<and>
    (\<forall>i<k. kh_bytes s' (buf + of_nat i) = kh_bytes s (input_buffer s + of_nat i))"
proof -
  have n: "sint (of_nat n :: u32) = int n" using f(5) by (subst sint_small) (simp_all add: unat_of_nat take_bit_nat_eq_self)
  let ?k = "of_nat k :: u32"
  have k: "word_of_int (int k) = ?k" "unat ?k = k" using f(4) by (simp_all add: unat_of_nat take_bit_nat_eq_self)
  let ?m1 = "memcpy_8 buf (input_buffer s) ?k (kh_bytes s)"
  let ?m = "memset_8 (input_buffer s) 0 GTTY_INPUT_BUFFER_LEN ?m1"
  let ?s' = "s\<lparr>kh_bytes := ?m, input_buffer_flag := 0, input_buffer_size := 0, input_buffer_index := 0\<rparr>"
  have run: "gtty_dev_read device a (of_nat n) buf s = (int k, ?s')"
    unfolding gtty_dev_read_def using f buf(1,2) n k(1) by simp
  have "?m (buf + of_nat i) = kh_bytes s (input_buffer s + of_nat i)" if i: "i < k" for i
  proof -
    have u: "unat (of_nat i :: u32) = i" using i f(4) by (simp add: unat_of_nat take_bit_nat_eq_self)
    have "\<not> unat (buf + of_nat i - input_buffer s) < 1024" using buf(3) i by (simp add: not_less)
    then have "?m (buf + of_nat i) = ?m1 (buf + of_nat i)" by (simp add: memset_8_apply GTTY_INPUT_BUFFER_LEN_def word_less_nat_alt)
    also have "\<dots> = kh_bytes s (input_buffer s + of_nat i)"
      using memcpy_8_apply[OF buf(4)[unfolded apart_def], of "kh_bytes s" "buf + of_nat i"] i u k(2) by (simp add: word_less_nat_alt)
    finally show ?thesis .
  qed
  then show ?thesis using run by auto
qed

text \<open>
  A tab counts as four characters without a look at the size that was asked for: typed as the last character of a line, it makes
  the read copy three bytes more than the caller has room for.
\<close>

lemma tab_overrun:
  assumes f: "input_buffer_size s = int n" "input_buffer_index s = int n - 1" "0 < n" "n \<le> 1000"
    and buf: "buf \<noteq> 0" "device \<noteq> 0" "\<forall>i<n + 3. 1024 \<le> unat (buf + of_nat i - input_buffer s)" "apart buf (input_buffer s) (of_nat (n + 3))"
  shows "\<exists>s1 s2. gtty_keyboard_listener cs cslot KBD_VAL_TYPE_REGULAR 0x09 (s\<lparr>gtty_echo := 0\<rparr>) = Some s1 \<and>
    gtty_dev_read device a (of_nat n) buf s1 = (int n + 3, s2) \<and>
    (\<forall>i<n + 3. kh_bytes s2 (buf + of_nat i) = kh_bytes s1 (input_buffer s + of_nat i))"
proof -
  let ?s = "s\<lparr>gtty_echo := 0\<rparr>" and ?s1 = "gtty_input (CHR 0x09) (s\<lparr>gtty_echo := 0\<rparr>)"
  have c: "char_of (unat (0x09 :: u8)) = CHR 0x09" using char_byte(1)[of "CHR 0x09"] by simp
  have "gtty_echo ?s1 = 0" by (simp add: gtty_input_def set_byte_at_def Let_def)
  then have l: "gtty_keyboard_listener cs cslot KBD_VAL_TYPE_REGULAR 0x09 ?s = Some ?s1"
    unfolding gtty_keyboard_listener_def c Let_def by simp
  have s1: "input_buffer_flag ?s1 = 1" "input_buffer_size ?s1 = int n" "input_buffer_index ?s1 = int (n + 3)" "input_buffer ?s1 = input_buffer s"
    using f by (simp_all add: gtty_input_def set_byte_at_def Let_def)
  have n: "n + 3 \<le> 1024" "n \<le> 1024" using f(4) by simp_all
  have b: "\<forall>i<n + 3. 1024 \<le> unat (buf + of_nat i - input_buffer ?s1)" "apart buf (input_buffer ?s1) (of_nat (n + 3))"
    unfolding s1(4) by (rule buf(3), rule buf(4))
  from read_copies[OF s1(1-3) n buf(1,2) b, of a]
  obtain s2 where "gtty_dev_read device a (of_nat n) buf ?s1 = (int (n + 3), s2)"
    "\<forall>i<n + 3. kh_bytes s2 (buf + of_nat i) = kh_bytes ?s1 (input_buffer s + of_nat i)"
    unfolding s1(4) by blast
  then show ?thesis using l by auto
qed

lemma line_read:
  assumes f: "input_buffer_flag s = 1" "input_buffer_size s = int n" "input_buffer_index s = int (length line)" "n \<le> 1024" "length line < n"
    and b: "\<forall>i<length line. kh_bytes s (input_buffer s + of_nat i) = of_char (line ! i)"
    and buf: "buf \<noteq> 0" "device \<noteq> 0" "\<forall>i<length line. 1024 \<le> unat (buf + of_nat i - input_buffer s)"
      "apart buf (input_buffer s) (of_nat (length line))"
  shows "\<exists>s'. gtty_dev_read device a (of_nat n) buf s = (int (length line), s') \<and> load_bytes buf (length line) (kh_bytes s') = line"
proof -
  have k: "length line \<le> 1024" using f(4,5) by simp
  obtain s' where s': "gtty_dev_read device a (of_nat n) buf s = (int (length line), s')"
    "\<forall>i<length line. kh_bytes s' (buf + of_nat i) = kh_bytes s (input_buffer s + of_nat i)"
    using read_copies[OF f(1-3) k f(4) buf] by blast
  have "load_bytes buf (length line) (kh_bytes s') = line"
    using s'(2) b by (intro nth_equalityI) (auto simp: load_bytes_def char_byte(1))
  then show ?thesis using s'(1) by blast
qed

subsection \<open>The linked kernel\<close>

text \<open>The drivers of the console in front of each other: terminal, keyboard, text screen.\<close>

definition console_drivers ::
  "'z gtty_scheme drivers \<Rightarrow> 'z gtty_scheme calls \<Rightarrow> (int \<Rightarrow> u8 list) \<Rightarrow> ptr \<Rightarrow> 'z gtty_scheme drivers"
where
  "console_drivers dr other font slot = gtty_drivers (devfs_calls (vga_drivers dr) other) font slot (kbd_drivers (vga_drivers dr))"

interpretation cc: console_code "devfs_calls (vga_drivers dr) other" "vga_drivers dr"
    "devfs_calls (console_drivers dr other font slot) other" "console_drivers dr other font slot" font slot cslot
  for dr :: "'z gtty_scheme drivers" and other font slot cslot
  by unfold_locales (simp_all add: devfs_calls_def console_drivers_def gtty_drivers_def)

lemma kbd_run_append: "kbd_run code (xs @ ys) regs s = kbd_run code xs regs s \<bind> kbd_run code ys regs"
proof (induction xs arbitrary: s)
  case (Cons x xs)
  then show ?case by (cases "parse_key code x (s\<lparr>kbd_status := KBD_STATUS_BUSY\<rparr>)") (simp_all add: parse_scancode_def)
qed simp

text \<open>From the keys to the program: the keys of a line, enter, and a read that returns it.\<close>

lemma typed_line:
  fixes s :: "'z gtty_scheme" and dr :: "'z gtty_scheme drivers" and other font slot cslot
  defines "listener \<equiv> \<lambda>p :: ptr. gtty_keyboard_listener (devfs_calls (console_drivers dr other font slot) other) cslot"
  assumes ls: "line_state cslot n q ib [] s" and ks: "\<forall>k\<in>set ks. regular_code k \<and> text_char (kbd_map ! unat k)" "length ks < n"
    and buf: "buf \<noteq> 0" "device \<noteq> 0" "\<forall>i<length ks. 1024 \<le> unat (buf + of_nat i - ib)" "apart buf ib (of_nat (length ks))"
  obtains s1 s2 where "kbd_run listener (ks @ [0x1C]) regs s = Some s1" "screen_inv s1" "input_buffer_flag s1 = 1"
    "gtty_dev_read device a (of_nat n) buf s1 = (int (length ks), s2)" "load_bytes buf (length ks) (kh_bytes s2) = map (\<lambda>k. kbd_map ! unat k) ks"
proof -
  let ?line = "map (\<lambda>k. kbd_map ! unat k) ks"
  obtain s1 where s1: "kbd_run listener ks regs s = Some s1" "line_state cslot n q ib ?line s1"
    using cc.type_line[OF ls ks(1), where dr = dr and other = other and font = font and slot = slot and regs = regs] ks(2)
    unfolding listener_def by auto
  obtain s2 where s2: "parse_scancode listener 0x1C regs s1 = Some (regs, s2)" "screen_inv s2" "input_buffer_flag s2 = 1" "input_buffer_size s2 = int n"
    "input_buffer_index s2 = int (length ?line)" "input_buffer s2 = input_buffer s1" "kh_bytes s2 = kh_bytes s1"
    unfolding listener_def by (rule cc.type_enter[OF s1(2)])
  have st: "input_buffer s1 = ib" "n \<le> 1024" "\<forall>i<length ?line. kh_bytes s1 (ib + of_nat i) = of_char (?line ! i)" "length ?line < n"
    using s1(2) by (auto simp: line_state_def)
  obtain s3 where s3: "gtty_dev_read device a (of_nat n) buf s2 = (int (length ?line), s3)" "load_bytes buf (length ?line) (kh_bytes s3) = ?line"
    using line_read[OF s2(3-5) st(2,4), of buf device a] st(1,3) buf s2(6,7) by auto
  have "kbd_run listener (ks @ [0x1C]) regs s = Some s2" using s1(1) s2(1) by (simp add: kbd_run_append)
  then show ?thesis using that s2(2,3) s3 by simp
qed

text \<open>The terminal's listener satisfies the keyboard's contract.\<close>

interpretation kl: kbd_listener "\<lambda>p. gtty_keyboard_listener (devfs_calls (console_drivers dr other font slot) other) cslot" "console_ok cslot"
  for dr :: "'z gtty_scheme drivers" and other font slot cslot
proof unfold_locales
  show "\<exists>s'. gtty_keyboard_listener (devfs_calls (console_drivers dr other font slot) other) cslot ty v s = Some s' \<and> console_ok cslot s' \<and> kbd_same s s'"
    if "console_ok cslot s" for s p ty v using cc.listen_any[OF that] .
qed (simp_all add: console_ok_def screen_inv_def synced_def console_linked_def vga_linked_def gtty_xy_to_location_def)

end
