(* ===== verification/Sample_Drivers.thy ===== *)
theory Sample_Drivers
  imports Sample Boot Line_Input
begin

text \<open>
  More concrete states, for the properties of the file system on the boot module and of the console: a heap with a
  hole, an archive with one file in memory, a boot module, and a console with keyboard and text screen.
\<close>

subsection \<open>A heap with a hole\<close>

text \<open>A free block of six bytes, and a block in use behind it.\<close>

definition hole_block :: block where
  "hole_block = (0xD0000000, \<lparr>ka_size = 6, ka_next = 0xD000000F, ka_present = False\<rparr>)"

definition next_block :: block where
  "next_block = (0xD000000F, \<lparr>ka_size = 20, ka_next = 0, ka_present = True\<rparr>)"

definition sample_hole :: devfs where
  "sample_hole = sample\<lparr>kh_items := map_of [hole_block, next_block]\<rparr>"

lemma sample_hole_wf: "wf_blocks sample_hole [hole_block, next_block]"
  by (simp add: wf_blocks_def sample_hole_def sample_def hole_block_def next_block_def block_len_def)

lemma sample_hole_exact: "exact_hole ''hello'' [] hole_block next_block sample_hole"
  using sample_hole_wf by (simp add: exact_hole_def) (simp add: hole_block_def next_block_def sizeof_kalloc_def)

lemma sample_hole_budget: "k \<le> 0x20000000 \<Longrightarrow> heap_budget k sample_hole"
  using sample_hole_wf by (auto simp: heap_budget_def wf_heap_def sample_hole_def sample_def)

subsection \<open>An archive\<close>

definition sample_image :: string where
  "sample_image =
     (''./motd'' @ replicate 94 NUL) @ replicate 24 NUL @ (octal 11 5 @ [NUL]) @ replicate 20 NUL @ ''0'' @ replicate 100 NUL @
     (''ustar  '' @ [NUL]) @ replicate 247 NUL @ ''hello'' @ replicate 1019 NUL"

definition sample_tar :: devfs where
  "sample_tar = sample\<lparr>
     kh_bytes := \<lambda>x. if unat (x - 0xC0300000) < 1536 then of_char (sample_image ! unat (x - 0xC0300000)) else 0,
     vnodes := [0xD0000009 \<mapsto> tarfs_node ''/'' 3 2048 VFS_NODE_TYPE_DIRE 0xC0300000],
     vfs_mountpoint_tree := Some (GTree 0xD0000009 [])\<rparr>"

lemma sample_image_length: "length sample_image = 1536"
  by (simp add: sample_image_def)

lemma sample_tar_bytes: "off + n \<le> 1536 \<Longrightarrow> load_bytes (0xC0300000 + of_nat off) n (kh_bytes sample_tar) = take n (drop off sample_image)"
  by (rule nth_equalityI) (auto simp: sample_image_length sample_tar_def unat_word_ariths unat_of_nat take_bit_nat_eq_self char_byte)

lemma sample_tar_at: "tar_at 0xC0300000 0 [(''/motd'', 5)] sample_tar"
proof -
  have "load_bytes 0xC0300000 100 (kh_bytes sample_tar) = ''./motd'' @ replicate 94 NUL"
    using sample_tar_bytes[of 0 100] by (simp add: sample_image_def)
  then have "hdr_path 0xC0300000 ''/motd'' sample_tar" by (simp add: hdr_path_def cstring_def NUL_def)
  moreover have "load_bytes 0xC030007C 12 (kh_bytes sample_tar) = octal 11 5 @ [NUL]"
    using sample_tar_bytes[of 124 12] by (simp add: sample_image_def)
  then have "get_file_size_tarfs (hdr_size 0xC0300000 sample_tar) = of_nat 5" using file_size_octal[of 5] by (simp add: hdr_size_def)
  moreover have "load_bytes 0xC0300101 8 (kh_bytes sample_tar) = ''ustar  '' @ [NUL]"
    using sample_tar_bytes[of 257 8] by (simp add: sample_image_def)
  then have "hdr_magic_ok 0xC0300000 sample_tar" by (simp add: hdr_magic_ok_def strcmp_eq NUL_def)
  moreover have "load_bytes 0xC0300501 8 (kh_bytes sample_tar) = replicate 8 NUL"
    using sample_tar_bytes[of 1281 8] by (simp add: sample_image_def)
  then have "\<not> hdr_magic_ok 0xC0300400 sample_tar" by (simp add: hdr_magic_ok_def strcmp_eq)
  ultimately show ?thesis by (simp add: entry_len_def)
qed

lemma sample_tar_type: "hdr_typeflag 0xC0300000 sample_tar = CHR ''0''"
  using arg_cong[OF sample_tar_bytes[of 156 1], of hd] by (simp add: hdr_typeflag_def load_bytes_def sample_image_def)

lemma sample_tar_heap: "wf_heap sample_tar" "heap_full sample_tar" "kern_live sample_tar = kern_live sample" "k \<le> 0x20000000 \<Longrightarrow> heap_budget k sample_tar"
proof -
  have "wf_blocks sample_tar bs = wf_blocks sample bs" for bs by (simp add: wf_blocks_def sample_tar_def)
  then show w: "wf_heap sample_tar" using sample_wf_heap by (simp add: wf_heap_def)
  show "heap_full sample_tar" using sample_full by (simp add: heap_full_def sample_tar_def)
  show "kern_live sample_tar = kern_live sample" by (simp add: kern_live_def sample_tar_def)
  show "heap_budget k sample_tar" if "k \<le> 0x20000000" using w sample_budget[OF that] by (simp add: heap_budget_def sample_tar_def)
qed

lemma sample_tar_mounted: "tar_mounted 0xD0000009 [] 0xC0300000 2048 [(''/motd'', 5)] sample_tar"
proof -
  have "vfs_wf sample_tar" unfolding vfs_wf_def sample_tar_heap(3) sample_kern_live by (simp add: sample_tar_def)
  moreover have "vnodes sample_tar 0xD0000009 = Some (tarfs_node ''/'' 3 (of_nat 2048) VFS_NODE_TYPE_DIRE 0xC0300000)"
    "kh_start sample_tar = 0xD0000000" "vfs_mountpoint_tree sample_tar = Some (GTree 0xD0000009 [])"
    by (simp_all add: sample_tar_def sample_def)
  ultimately show ?thesis unfolding tar_mounted_def tar_root_def using sample_tar_at by (auto simp: entry_len_def)
qed

subsection \<open>A boot module\<close>

definition sample_boot :: initrd where
  "sample_boot = devfs.extend sample
     (initrd.fields [\<lparr>mod_start = 0xC0300000, mod_end = 0xC0300800, mod_cmd = ''dbos.initrd''\<rparr>] 0 0 0 0 0 0)"

lemma sample_boot_devfs: "devfs_mounted 0xD0000009 [] sample_dev sample_boot"
proof -
  have "kern_live sample_boot = kern_live sample" by (simp add: kern_live_def sample_boot_def devfs.defs)
  then show ?thesis using sample_devfs
    by (simp add: devfs_mounted_def last_child_def vfs_wf_def) (simp add: sample_boot_def devfs.defs)
qed

lemma sample_boot_budget: "k \<le> 0x20000000 \<Longrightarrow> heap_budget k sample_boot"
proof -
  have "wf_blocks sample_boot bs = wf_blocks sample bs" for bs by (simp add: wf_blocks_def sample_boot_def devfs.defs)
  then show "k \<le> 0x20000000 \<Longrightarrow> heap_budget k sample_boot"
    using sample_budget[of k] by (simp add: heap_budget_def wf_heap_def) (simp add: sample_boot_def devfs.defs)
qed

text \<open>The same with devfs registered: its identifier is in the fourth block.\<close>

definition sample_started :: initrd where
  "sample_started = sample_boot\<lparr>registered_filesystems := [(0xD00000E4, ''mount_devfs'')],
     kh_bytes := write_string 0xD00000E4 ''ID: 0xF000'' (kh_bytes sample_boot)\<rparr>"

lemma sample_started_heap:
  "devfs_mounted 0xD0000009 [] sample_dev sample_started" "k \<le> 0x20000000 \<Longrightarrow> heap_budget k sample_started" "small_holes 8 sample_started"
proof -
  show "devfs_mounted 0xD0000009 [] sample_dev sample_started"
    by (rule devfs_mounted_cong[OF sample_boot_devfs]) (simp_all add: sample_started_def kern_live_def)
  have "wf_blocks sample_started bs = wf_blocks sample_boot bs" for bs by (simp add: wf_blocks_def sample_started_def)
  then show "k \<le> 0x20000000 \<Longrightarrow> heap_budget k sample_started"
    using sample_boot_budget[of k] by (simp add: heap_budget_def wf_heap_def) (simp add: sample_started_def)
  show "small_holes 8 sample_started" using sample_full
    by (auto simp: small_holes_def heap_full_def ran_def sample_started_def sample_boot_def devfs.defs)
qed

lemma sample_started_idents: "idents_ok sample_started"
proof -
  have id: "filesystem_ident 0xF000 = ''ID: 0xF000''" by code_simp
  have "heap_live sample_started = heap_live sample" by (simp add: sample_started_def sample_boot_def devfs.defs)
  then have live: "(0xD00000E4, 12) \<in> heap_live sample_started" by (simp add: sample_live)
  have b: "kh_bytes sample_started = write_string 0xD00000E4 ''ID: 0xF000'' (kh_bytes sample_boot)" by (simp add: sample_started_def)
  have byte: "kh_bytes sample_started (0xD00000E4 + of_nat i) = of_char (''ID: 0xF000'' ! i)" if "i < 10" for i
    unfolding b by (subst write_string_apply) (use that in \<open>simp_all add: unat_of_nat take_bit_nat_eq_self\<close>)
  have "length ''ID: 0xF000'' = 10" by simp
  then have "holds_at 0xD00000E4 ''ID: 0xF000'' sample_started" using live byte unfolding holds_at_def
    by (intro conjI exI[of _ 12]) (simp_all add: NUL_def)
  then have "\<exists>i. 0xF000 \<le> i \<and> i < 0xF001 \<and> holds_at 0xD00000E4 (filesystem_ident i) sample_started" by (intro exI[of _ "0xF000"]) (simp add: id)
  moreover have "registered_filesystems sample_started = [(0xD00000E4, ''mount_devfs'')]" "filesystem_id sample_started = 0xF001"
    by (simp_all add: sample_started_def sample_boot_def sample_def devfs.defs)
  ultimately show ?thesis by (simp add: idents_ok_def)
qed

subsection \<open>A console\<close>

text \<open>The text screen at \<^verbatim>\<open>/dev/vga\<close>, the terminal at \<^verbatim>\<open>/dev/gtty\<close>; a program has asked for up to 16 characters.\<close>

definition sample_file :: "string \<Rightarrow> ptr \<Rightarrow> vfs_gen_node" where
  "sample_file nm base = (sample_node nm 0x10 (Sym ''read_node_devfs'') base)\<lparr>node_write := Sym ''write_node_devfs'',
     node_control := Sym ''control_node_devfs'', node_status := Sym ''status_of_node_devfs''\<rparr>"

definition sample_console :: gtty where
  "sample_console =
     kbd.extend
       (vga.extend
         (initrd.extend
           (sample_boot\<lparr>vnodes := [0xD0000052 \<mapsto> sample_file ''vga'' 0x5000, 0xD000009B \<mapsto> sample_file ''gtty'' 0x6000],
              io_nodes := [0x5000 \<mapsto> device_node 1 ''vga'' 2000 ''vga_dev_'' 0xC00B8000, 0x6000 \<mapsto> device_node 2 ''gtty'' 2000 ''gtty_dev_'' 0xD0000052],
              port_log := cursor_ports 0\<rparr>)
           (vga.fields 0xC00B8000 0xC00B8000 (\<lambda>x. 0x0720) 0x07 0x5000 0xD0000052 1))
         (kbd.fields 0 0 0 0 0 0x7000 0xD0000009 1 [0xC0105000]))
       (gtty.fields 0x6000 0xD000009B 0xD0000052 0xD0000052 0 0xD0000009 0xD0000300 0 16 0 GTTY_DISP_TYPE_VGA GTTY_MODE_TXT 1 80 25
         0 0 1 0x00FFFFFF 0 0xD0000200 0 0xD000009B True)"

lemma sample_console_sel [simp]:
  "display_device_file sample_console = 0xD0000052" "command_buffer sample_console = 0xD0000200" "buffer_width sample_console = 80"
  "buffer_height sample_console = 25" "main_x sample_console = 0" "main_y sample_console = 0" "display_mode sample_console = GTTY_MODE_TXT"
  "input_buffer sample_console = 0xD0000300" "kbd_listeners sample_console = [0xC0105000]" "kh_bytes sample_console x = 0xAA"
  "input_buffer_size sample_console = 16" "input_buffer_index sample_console = 0" "kbd_lshift sample_console = 0" "kbd_caps sample_console = 0"
  "colour_setting sample_console = 0x07"
  by (simp_all add: sample_console_def sample_boot_def sample_def initrd.defs vga.defs kbd.defs gtty.defs devfs.defs)

lemma sample_console_screen: "screen_inv sample_console" "synced sample_console"
proof -
  show "screen_inv sample_console" unfolding screen_inv_def vga_linked_def sample_console_sel
    by (simp add: sample_console_def initrd.defs vga.defs kbd.defs gtty.defs sample_file_def device_node_def)
  show "synced sample_console" unfolding synced_def gtty_xy_to_location_def sample_console_sel
    by (simp add: sample_console_def initrd.defs vga.defs kbd.defs gtty.defs)
qed

lemma sample_console_linked: "console_linked sample_console"
  unfolding console_linked_def
  by (simp add: sample_console_def initrd.defs vga.defs kbd.defs gtty.defs sample_file_def device_node_def)

lemma sample_console_apart: "input_apart 0xD0000100 sample_console"
proof -
  have e: "0xD0000300 + of_nat i - 0xD0000200 = (0x100 + of_nat i :: u32)" for i by (simp add: algebra_simps)
  have u: "unat (0x100 + of_nat i :: u32) = 0x100 + i" "unat (0xD0000300 + of_nat i :: u32) = 0xD0000300 + i" if "i < 1024" for i
    using that by (simp_all add: unat_word_ariths unat_of_nat take_bit_nat_eq_self)
  have n: "0xD0000300 + of_nat i \<noteq> (0xD0000100 :: u32)" if "i < 1024" for i
  proof
    assume "0xD0000300 + of_nat i = (0xD0000100 :: u32)"
    from arg_cong[OF this, of unat] show False unfolding u(2)[OF that] by simp
  qed
  show ?thesis unfolding input_apart_def sample_console_sel e using u(1) n by simp
qed

lemma sample_console_line: "line_state 0xD0000100 16 0xC0105000 0xD0000300 [] sample_console"
  unfolding line_state_def using sample_console_screen(1) sample_console_linked sample_console_apart
  by (simp add: sample_console_def initrd.defs vga.defs kbd.defs gtty.defs)

lemma sample_console_ok: "console_ok 0xD0000100 sample_console"
  unfolding console_ok_def using sample_console_screen sample_console_linked by simp

text \<open>A buffer behind the source is apart from it.\<close>

lemma apart_below:
  assumes "unat src + unat n \<le> unat buf" "unat buf + unat n \<le> 2 ^ 32"
  shows "apart buf src n"
  unfolding apart_def
proof (intro allI impI)
  fix j assume j: "j < unat n"
  have u: "unat (src + of_nat j) = unat src + j" using j assms by (simp add: unat_word_ariths unat_of_nat take_bit_nat_eq_self)
  then show "\<not> src + of_nat j - buf < n" using word_sub_less_iff[of buf n "src + of_nat j"] j assms by linarith
qed

text \<open>A buffer apart from the input buffer.\<close>

lemma sample_buffer:
  assumes "n \<le> 64" shows "\<forall>i<n. 1024 \<le> unat (0xD0000800 + of_nat i - 0xD0000300 :: u32)" "apart 0xD0000800 0xD0000300 (of_nat n)"
proof -
  have e: "0xD0000800 + of_nat i - 0xD0000300 = (0x500 + of_nat i :: u32)" for i
    by (simp add: algebra_simps)
  show "\<forall>i<n. 1024 \<le> unat (0xD0000800 + of_nat i - 0xD0000300 :: u32)"
    unfolding e using assms by (simp add: unat_word_ariths unat_of_nat take_bit_nat_eq_self)
  have "unat (of_nat n :: u32) = n" using assms by (simp add: unat_of_nat take_bit_nat_eq_self)
  then show "apart 0xD0000800 0xD0000300 (of_nat n)" using assms by (intro apart_below) simp_all
qed

subsection \<open>Code that nothing reaches\<close>

definition no_calls :: "'s calls" where
  "no_calls =
     \<lparr>call_node = \<lambda>f n s. None, call_io = \<lambda>f n a z b s. None, call_control = \<lambda>f n c a s. None, call_status = \<lambda>f n s. None,
      call_create = \<lambda>f n nm ty b s. None, call_readdir = \<lambda>f n i s. None, call_finddir = \<lambda>f n nm s. None, call_listdir = \<lambda>f n s. None,
      call_mount = \<lambda>f d mp s. None\<rparr>"

definition no_drivers :: "'s drivers" where
  "no_drivers = \<lparr>drv_node = \<lambda>f d s. None, drv_io = \<lambda>f d a z b s. None, drv_control = \<lambda>f d c a s. None, drv_status = \<lambda>f d s. None\<rparr>"

end
