(* ===== verification/Pci.thy ===== *)
theory Pci
  imports Gtty
begin

text \<open>
  The PCI bus, \<open>drivers/devices/pci.c\<close>. Configuration space is the argument \<open>cfg\<close>: what the data port returns after an address has been
  written to the configuration port. The tables of names (\<open>pci_database_devices.h\<close>, data only) are the argument \<open>tb\<close>. Messages go to the
  kernel log, since the devices are initialised before the console. The list of devices is a sequence of pointers.
\<close>

subsection \<open>Registers\<close>

definition PCI_FAIL :: u16 where "PCI_FAIL = 0xFFFF"
definition PCI_MULTI_FUNC :: u8 where "PCI_MULTI_FUNC = 0x80"
definition PCI_VEN_ID :: u8 where "PCI_VEN_ID = 0x00"
definition PCI_DEV_ID :: u8 where "PCI_DEV_ID = 0x02"
definition PCI_REVISION_ID :: u8 where "PCI_REVISION_ID = 0x08"
definition PCI_PROG_IF :: u8 where "PCI_PROG_IF = 0x09"
definition PCI_SUB_CLASS :: u8 where "PCI_SUB_CLASS = 0x0A"
definition PCI_CLASS_CODE :: u8 where "PCI_CLASS_CODE = 0x0B"
definition PCI_CACHE_LINE :: u8 where "PCI_CACHE_LINE = 0x0C"
definition PCI_LATENCY_TIMER :: u8 where "PCI_LATENCY_TIMER = 0x0D"
definition PCI_HEADER_TYPE :: u8 where "PCI_HEADER_TYPE = 0x0E"
definition PCI_BIST :: u8 where "PCI_BIST = 0x0F"
definition PCI_FUN_PER_DEV :: nat where "PCI_FUN_PER_DEV = 8"
definition PCI_DEV_PER_BUS :: nat where "PCI_DEV_PER_BUS = 32"
definition PCI_BAR0 :: u8 where "PCI_BAR0 = 0x10"
definition PCI_BAR1 :: u8 where "PCI_BAR1 = 0x14"
definition PCI_BAR2 :: u8 where "PCI_BAR2 = 0x18"
definition PCI_BAR3 :: u8 where "PCI_BAR3 = 0x1C"
definition PCI_BAR4 :: u8 where "PCI_BAR4 = 0x20"
definition PCI_BAR5 :: u8 where "PCI_BAR5 = 0x24"
definition PCI_CARDBUS_CIS :: u8 where "PCI_CARDBUS_CIS = 0x28"
definition PCI_SUBSYS_VENDOR :: u8 where "PCI_SUBSYS_VENDOR = 0x2C"
definition PCI_SUBSYS :: u8 where "PCI_SUBSYS = 0x2E"
definition PCI_EXPANSION_ROM :: u8 where "PCI_EXPANSION_ROM = 0x30"
definition PCI_CAPABILITIES :: u8 where "PCI_CAPABILITIES = 0x34"
definition PCI_IRQ_LINE :: u8 where "PCI_IRQ_LINE = 0x3C"
definition PCI_IRQ_PIN :: u8 where "PCI_IRQ_PIN = 0x3D"
definition PCI_MIN_GRANT :: u8 where "PCI_MIN_GRANT = 0x3E"
definition PCI_MAX_LATENCY :: u8 where "PCI_MAX_LATENCY = 0x3F"
definition PCI_SECONDARY_BUS :: u8 where "PCI_SECONDARY_BUS = 0x19"
definition PCI_BASE_CLASS_BRIDGE :: u8 where "PCI_BASE_CLASS_BRIDGE = 0x06"
definition PCI_SUB_CLASS_BRIDGE :: u8 where "PCI_SUB_CLASS_BRIDGE = 0x04"

definition pci_make_config_space :: "u32 \<Rightarrow> u32 \<Rightarrow> u32 \<Rightarrow> u8 \<Rightarrow> u32" where
  "pci_make_config_space bus_no device_no function_no reg_no =
     0x80000000 OR push_bit 16 bus_no OR push_bit 11 device_no OR push_bit 8 function_no OR ucast (reg_no AND 0xFC)"

text \<open>The half of the word that has the register; \<open>read\<close> is the value of the data port.\<close>

definition pci_read_base :: "u32 \<Rightarrow> u8 \<Rightarrow> u16" where
  "pci_read_base read reg_no = ucast (drop_bit (unat (reg_no AND 2) * 8) read AND 0xFFFF)"

definition pci_read :: "(u32 \<Rightarrow> u32) \<Rightarrow> u8 \<Rightarrow> u8 \<Rightarrow> u8 \<Rightarrow> u8 \<Rightarrow> u16" where
  "pci_read cfg bus_no device_no function_no reg_no =
     pci_read_base (cfg (pci_make_config_space (ucast bus_no) (ucast device_no) (ucast function_no) reg_no)) reg_no"

text \<open>Writes: the sequence of port, number of bytes and value.\<close>

definition pci_write_base :: "u32 \<Rightarrow> int \<Rightarrow> u32 \<Rightarrow> (u16 \<times> int \<times> u32) list" where
  "pci_write_base base sz d =
     (if sz = 4 then [(ucast base, 4, d)] else if sz = 2 then [(ucast base, 2, ucast (ucast d :: u16))]
      else if sz = 1 then [(ucast base, 1, ucast (ucast d :: u8))] else [])"

definition pci_write :: "u8 \<Rightarrow> u8 \<Rightarrow> u8 \<Rightarrow> u8 \<Rightarrow> int \<Rightarrow> u32 \<Rightarrow> (u16 \<times> int \<times> u32) list" where
  "pci_write bus_no device_no function_no reg_no sz d =
     (0xCF8, 4, pci_make_config_space (ucast bus_no) (ucast device_no) (ucast function_no) reg_no) #
     pci_write_base (0xCFC + ucast (reg_no AND 3)) sz d"

subsection \<open>Devices\<close>

record pci_dev_std_hdr =
  bar0 :: u32
  bar1 :: u32
  bar2 :: u32
  bar3 :: u32
  bar4 :: u32
  bar5 :: u32
  cardbus_cis :: u32
  subsystem_vendor_id :: u16
  subsystem_id :: u16
  exp_rom_base :: u32
  capabilities :: u16
  int_line :: u8
  int_pin :: u8
  min_grant :: u8
  max_latency :: u8

record pci_dev =
  pd_bus :: u8
  pd_dev :: u8
  ven_id :: u16
  dev_id :: u16
  rev_id :: u8
  prog_if :: u8
  sub_class :: u8
  class_code :: u8
  cache_line_size :: u8
  latency_timer :: u8
  header_type :: u8
  bist :: u8
  ven_name :: "string option"
  ven_desc :: "string option"
  dev_name :: "string option"
  dev_desc :: "string option"
  base_class_desc :: "string option"
  sub_class_desc :: "string option"
  prog_if_desc :: "string option"
  additional_info :: ptr

type_synonym PCI_VENTABLE = "u16 \<times> string \<times> string"
type_synonym PCI_DEVTABLE = "u16 \<times> u16 \<times> string \<times> string"
type_synonym PCI_CLASSCODETABLE = "(u8 \<times> u8 \<times> u8) \<times> string \<times> string \<times> string"

record pci_tables =
  PciVenTable :: "PCI_VENTABLE list"
  PciDevTable :: "PCI_DEVTABLE list"
  PciClassCodeTable :: "PCI_CLASSCODETABLE list"

record pci = gtty +
  pci_devs :: "ptr \<rightharpoonup> pci_dev"
  pci_hdrs :: "ptr \<rightharpoonup> pci_dev_std_hdr"
  pci_devices :: "ptr list"

definition sizeof_pci_dev :: u32 where "sizeof_pci_dev = 48"
definition sizeof_pci_hdr :: u32 where "sizeof_pci_hdr = 44"

text \<open>The first entry for the device and for the vendor, but the last one for the class.\<close>

definition pci_set_names :: "pci_tables \<Rightarrow> pci_dev \<Rightarrow> pci_dev" where
  "pci_set_names tb device =
     (let device = (case find (\<lambda>(v, d, c, e). v = ven_id device \<and> d = dev_id device) (PciDevTable tb) of
                      None \<Rightarrow> device | Some (v, d, c, e) \<Rightarrow> device\<lparr>dev_name := Some c, dev_desc := Some e\<rparr>);
          device = (case find (\<lambda>(v, n, f). v = ven_id device) (PciVenTable tb) of
                      None \<Rightarrow> device | Some (v, n, f) \<Rightarrow> device\<lparr>ven_name := Some n, ven_desc := Some f\<rparr>)
      in fold (\<lambda>((b, sc, p), bd, sd, pd) device.
           if b = class_code device \<and> sc = sub_class device \<and> p = prog_if device
           then device\<lparr>base_class_desc := Some bd, sub_class_desc := Some sd, prog_if_desc := Some pd\<rparr> else device)
         (PciClassCodeTable tb) device)"

text \<open>A register of four bytes in two reads.\<close>

definition pci_read_long :: "(u32 \<Rightarrow> u32) \<Rightarrow> u8 \<Rightarrow> u8 \<Rightarrow> u8 \<Rightarrow> u32" where
  "pci_read_long cfg bus dev reg = ucast (pci_read cfg bus dev 0 reg) OR push_bit 16 (ucast (pci_read cfg bus dev 0 (reg + 2)))"

definition pci_std_hdr :: "(u32 \<Rightarrow> u32) \<Rightarrow> u8 \<Rightarrow> u8 \<Rightarrow> pci_dev_std_hdr" where
  "pci_std_hdr cfg bus dev =
     \<lparr>bar0 = pci_read_long cfg bus dev PCI_BAR0, bar1 = pci_read_long cfg bus dev PCI_BAR1, bar2 = pci_read_long cfg bus dev PCI_BAR2,
      bar3 = pci_read_long cfg bus dev PCI_BAR3, bar4 = pci_read_long cfg bus dev PCI_BAR4, bar5 = pci_read_long cfg bus dev PCI_BAR5,
      cardbus_cis = pci_read_long cfg bus dev PCI_CARDBUS_CIS,
      subsystem_vendor_id = pci_read cfg bus dev 0 PCI_SUBSYS_VENDOR, subsystem_id = pci_read cfg bus dev 0 PCI_SUBSYS,
      exp_rom_base = pci_read_long cfg bus dev PCI_EXPANSION_ROM, capabilities = pci_read cfg bus dev 0 PCI_CAPABILITIES,
      int_line = ucast (pci_read cfg bus dev 0 PCI_IRQ_LINE), int_pin = ucast (pci_read cfg bus dev 0 PCI_IRQ_PIN),
      min_grant = ucast (pci_read cfg bus dev 0 PCI_MIN_GRANT), max_latency = ucast (pci_read cfg bus dev 0 PCI_MAX_LATENCY)\<rparr>"

definition pci_set_standard_header :: "(u32 \<Rightarrow> u32) \<Rightarrow> pci_dev \<Rightarrow> 'z pci_scheme \<Rightarrow> (pci_dev \<times> 'z pci_scheme) option" where
  "pci_set_standard_header cfg device s = do {
     (h, s) \<leftarrow> kern_malloc sizeof_pci_hdr s;
     if h = 0 then None
     else Some (device\<lparr>additional_info := h\<rparr>, s\<lparr>pci_hdrs := (pci_hdrs s)(h \<mapsto> pci_std_hdr cfg (pd_bus device) (pd_dev device))\<rparr>)
   }"

definition pci_set_header :: "(u32 \<Rightarrow> u32) \<Rightarrow> pci_dev \<Rightarrow> 'z pci_scheme \<Rightarrow> (pci_dev \<times> 'z pci_scheme) option" where
  "pci_set_header cfg device s =
     (if header_type device = 0x00 then pci_set_standard_header cfg device s
      else if header_type device = 0x01 then Some (device, klog_msg ''Header type 0x01'' s)
      else if header_type device = 0x02 then Some (device, klog_msg ''Header type 0x02'' s)
      else if header_type device = 0x80 then pci_set_standard_header cfg device s
      else Some (device, s))"

text \<open>The structure before names and header are added.\<close>

definition pci_fields :: "(u32 \<Rightarrow> u32) \<Rightarrow> u8 \<Rightarrow> u8 \<Rightarrow> u16 \<Rightarrow> u8 \<Rightarrow> u8 \<Rightarrow> u8 \<Rightarrow> pci_dev" where
  "pci_fields cfg bus dev ven bc sc hdr =
     \<lparr>pd_bus = bus, pd_dev = dev, ven_id = ven, dev_id = pci_read cfg bus dev 0 PCI_DEV_ID,
      rev_id = ucast (pci_read cfg bus dev 0 PCI_REVISION_ID), prog_if = ucast (pci_read cfg bus dev 0 PCI_PROG_IF),
      sub_class = sc, class_code = bc, cache_line_size = ucast (pci_read cfg bus dev 0 PCI_CACHE_LINE),
      latency_timer = ucast (pci_read cfg bus dev 0 PCI_LATENCY_TIMER), header_type = hdr, bist = ucast (pci_read cfg bus dev 0 PCI_BIST),
      ven_name = None, ven_desc = None, dev_name = None, dev_desc = None, base_class_desc = None, sub_class_desc = None,
      prog_if_desc = None, additional_info = 0\<rparr>"

definition pci_build_device ::
  "pci_tables \<Rightarrow> (u32 \<Rightarrow> u32) \<Rightarrow> u8 \<Rightarrow> u8 \<Rightarrow> u16 \<Rightarrow> u8 \<Rightarrow> u8 \<Rightarrow> u8 \<Rightarrow> 'z pci_scheme \<Rightarrow> 'z pci_scheme option"
where
  "pci_build_device tb cfg bus dev ven bc sc hdr s = do {
     (p, s) \<leftarrow> kern_malloc sizeof_pci_dev s;
     if p = 0 then None
     else do {
       (device, s) \<leftarrow> pci_set_header cfg (pci_set_names tb (pci_fields cfg bus dev ven bc sc hdr)) s;
       Some (s\<lparr>pci_devs := (pci_devs s)(p \<mapsto> device), pci_devices := pci_devices s @ [p]\<rparr>)
     }
   }"

subsection \<open>Enumeration\<close>

definition is_bridge :: "(u32 \<Rightarrow> u32) \<Rightarrow> u8 \<Rightarrow> u8 \<Rightarrow> u8 \<Rightarrow> bool" where
  "is_bridge cfg bus d f \<longleftrightarrow> (ucast (pci_read cfg bus d f PCI_CLASS_CODE) :: u8) = PCI_BASE_CLASS_BRIDGE \<and>
     (ucast (pci_read cfg bus d f PCI_SUB_CLASS) :: u8) = PCI_SUB_CLASS_BRIDGE"

text \<open>
  The loops of \<open>pci_scan_bus\<close> from device \<open>d\<close> on: at the start of the round of a device, or in front of its function \<open>f\<close>. A bridge
  starts the scan of the bus behind it.
\<close>

partial_function (option) pci_scan_from ::
  "pci_tables \<Rightarrow> (u32 \<Rightarrow> u32) \<Rightarrow> u8 \<Rightarrow> nat \<Rightarrow> nat option \<Rightarrow> 'z pci_scheme \<Rightarrow> 'z pci_scheme option"
where
  "pci_scan_from tb cfg bus_no d f s =
     (if PCI_DEV_PER_BUS \<le> d then Some s
      else case f of
        None \<Rightarrow>
          if pci_read cfg bus_no (of_nat d) 0 PCI_VEN_ID = PCI_FAIL then pci_scan_from tb cfg bus_no (d + 1) None s
          else do {
            s \<leftarrow> (if is_bridge cfg bus_no (of_nat d) 0
                  then pci_scan_from tb cfg (ucast (pci_read cfg bus_no (of_nat d) 0 PCI_SECONDARY_BUS)) 0 None s else Some s);
            pci_scan_from tb cfg bus_no d
              (Some (if ucast (pci_read cfg bus_no (of_nat d) 0 PCI_HEADER_TYPE) AND PCI_MULTI_FUNC \<noteq> 0 then 0 else PCI_FUN_PER_DEV)) s
          }
      | Some f \<Rightarrow>
          if f < PCI_FUN_PER_DEV
          then do {
            s \<leftarrow> (if pci_read cfg bus_no (of_nat d) (of_nat f) PCI_VEN_ID \<noteq> PCI_FAIL \<and> is_bridge cfg bus_no (of_nat d) (of_nat f)
                  then pci_scan_from tb cfg (ucast (pci_read cfg bus_no (of_nat d) (of_nat f) PCI_SECONDARY_BUS)) 0 None s else Some s);
            pci_scan_from tb cfg bus_no d (Some (f + 1)) s
          }
          else do {
            s \<leftarrow> pci_build_device tb cfg bus_no (of_nat d) (pci_read cfg bus_no (of_nat d) 0 PCI_VEN_ID)
                  (ucast (pci_read cfg bus_no (of_nat d) 0 PCI_CLASS_CODE)) (ucast (pci_read cfg bus_no (of_nat d) 0 PCI_SUB_CLASS))
                  (ucast (pci_read cfg bus_no (of_nat d) 0 PCI_HEADER_TYPE)) s;
            pci_scan_from tb cfg bus_no (d + 1) None s
          })"

definition pci_scan_bus :: "pci_tables \<Rightarrow> (u32 \<Rightarrow> u32) \<Rightarrow> u8 \<Rightarrow> 'z pci_scheme \<Rightarrow> 'z pci_scheme option" where
  "pci_scan_bus tb cfg bus_no s = pci_scan_from tb cfg bus_no 0 None s"

text \<open>The functions of a host controller with several: the loop ends at the first one that is present.\<close>

fun pci_scan_hosts :: "pci_tables \<Rightarrow> (u32 \<Rightarrow> u32) \<Rightarrow> nat list \<Rightarrow> 'z pci_scheme \<Rightarrow> 'z pci_scheme option" where
  "pci_scan_hosts tb cfg [] s = Some s"
| "pci_scan_hosts tb cfg (i # is) s =
     (if pci_read cfg 0 0 (of_nat i) PCI_VEN_ID \<noteq> PCI_FAIL then Some s
      else do { s \<leftarrow> pci_scan_bus tb cfg (of_nat i) s; pci_scan_hosts tb cfg is s })"

definition pci_initialise :: "pci_tables \<Rightarrow> (u32 \<Rightarrow> u32) \<Rightarrow> 'z pci_scheme \<Rightarrow> 'z pci_scheme option" where
  "pci_initialise tb cfg s =
     (let s = s\<lparr>pci_devices := []\<rparr>;
          header = ucast (pci_read cfg 0 0 0 PCI_HEADER_TYPE) :: u8
      in if header AND PCI_MULTI_FUNC = 0 then pci_scan_bus tb cfg 0 s else pci_scan_hosts tb cfg [0..<PCI_FUN_PER_DEV] s)"

subsection \<open>Searching\<close>

fun find_device :: "u16 \<Rightarrow> u16 \<Rightarrow> ptr list \<Rightarrow> 'z pci_scheme \<Rightarrow> ptr option" where
  "find_device v i [] s = Some 0"
| "find_device v i (p # ps) s = do { d \<leftarrow> pci_devs s p; if ven_id d = v \<and> dev_id d = i then Some p else find_device v i ps s }"

definition pci_get_device :: "u16 \<Rightarrow> u16 \<Rightarrow> 'z pci_scheme \<Rightarrow> ptr option" where
  "pci_get_device vendor_id device_id s = find_device vendor_id device_id (pci_devices s) s"

definition pci_get_devices :: "u8 \<Rightarrow> u8 \<Rightarrow> 'z pci_scheme \<Rightarrow> ptr list option" where
  "pci_get_devices cc sc s =
     (let ps = filter (\<lambda>p. case pci_devs s p of None \<Rightarrow> False | Some d \<Rightarrow> class_code d = cc \<and> sub_class d = sc) (pci_devices s)
      in if ps = [] then None else Some ps)"

subsection \<open>Registers at odd addresses\<close>

text \<open>
  A read returns the half word that has the register, and its lower byte is taken: a register at an odd address reads as the one in front of it.
\<close>

lemma odd_registers:
  "pci_read cfg b d f PCI_CLASS_CODE = pci_read cfg b d f PCI_SUB_CLASS"
  "pci_read cfg b d f PCI_PROG_IF = pci_read cfg b d f PCI_REVISION_ID"
  "pci_read cfg b d f PCI_LATENCY_TIMER = pci_read cfg b d f PCI_CACHE_LINE"
  "pci_read cfg b d f PCI_BIST = pci_read cfg b d f PCI_HEADER_TYPE"
  "pci_read cfg b d f PCI_IRQ_PIN = pci_read cfg b d f PCI_IRQ_LINE"
  by (simp_all add: pci_read_def pci_read_base_def pci_make_config_space_def PCI_CLASS_CODE_def PCI_SUB_CLASS_def PCI_PROG_IF_def
      PCI_REVISION_ID_def PCI_LATENCY_TIMER_def PCI_CACHE_LINE_def PCI_BIST_def PCI_HEADER_TYPE_def PCI_IRQ_PIN_def PCI_IRQ_LINE_def)

text \<open>So the class of a device reads as its subclass, and no device is taken for a bridge.\<close>

lemma no_bridge: "\<not> is_bridge cfg b d f"
  by (auto simp: is_bridge_def odd_registers PCI_BASE_CLASS_BRIDGE_def PCI_SUB_CLASS_BRIDGE_def)

subsection \<open>What the scan finds\<close>

definition present :: "(u32 \<Rightarrow> u32) \<Rightarrow> u8 \<Rightarrow> nat \<Rightarrow> bool" where
  "present cfg bus d \<longleftrightarrow> pci_read cfg bus (of_nat d) 0 PCI_VEN_ID \<noteq> PCI_FAIL"

definition standard_header :: "u8 \<Rightarrow> bool" where
  "standard_header h \<longleftrightarrow> h = 0 \<or> h = 0x80"

text \<open>The structure at \<open>p\<close> describes the device \<open>d\<close> of the bus.\<close>

definition describes :: "(u32 \<Rightarrow> u32) \<Rightarrow> u8 \<Rightarrow> nat \<Rightarrow> ptr \<Rightarrow> 'z pci_scheme \<Rightarrow> bool" where
  "describes cfg bus d p s \<longleftrightarrow> (\<exists>dv. pci_devs s p = Some dv \<and> pd_bus dv = bus \<and> pd_dev dv = of_nat d \<and>
     ven_id dv = pci_read cfg bus (of_nat d) 0 PCI_VEN_ID \<and> dev_id dv = pci_read cfg bus (of_nat d) 0 PCI_DEV_ID \<and>
     (standard_header (ucast (pci_read cfg bus (of_nat d) 0 PCI_HEADER_TYPE)) \<longrightarrow>
        pci_hdrs s (additional_info dv) = Some (pci_std_hdr cfg bus (of_nat d))))"

definition pci_wf :: "'z pci_scheme \<Rightarrow> bool" where
  "pci_wf s \<longleftrightarrow> set (pci_devices s) \<subseteq> dom (pci_devs s) \<and> dom (pci_devs s) \<subseteq> kern_live s \<and> dom (pci_hdrs s) \<subseteq> kern_live s \<and> 0 \<notin> dom (pci_devs s)"

definition pci_cost :: nat where
  "pci_cost = alloc_cost sizeof_pci_dev + alloc_cost sizeof_pci_hdr"

lemma pci_more:
  fixes s s' :: "'z pci_scheme"
  assumes "vm.more s' = vm.more s"
  shows "pci_devs s' = pci_devs s" "pci_hdrs s' = pci_hdrs s" "pci_devices s' = pci_devices s"
  using assms by (cases s, cases s', simp)+

lemma heap_budget_pci [simp]:
  "heap_budget k (s\<lparr>pci_devs := v\<rparr>) = heap_budget k s" "heap_budget k (s\<lparr>pci_hdrs := w\<rparr>) = heap_budget k s"
  "heap_budget k (s\<lparr>pci_devices := l\<rparr>) = heap_budget k s" "heap_budget k (s\<lparr>klog := m\<rparr>) = heap_budget k s"
  "kern_live (s\<lparr>pci_devs := v\<rparr>) = kern_live s" "kern_live (s\<lparr>pci_hdrs := w\<rparr>) = kern_live s"
  "kern_live (s\<lparr>pci_devices := l\<rparr>) = kern_live s" "kern_live (s\<lparr>klog := m\<rparr>) = kern_live s" for s :: "'z pci_scheme"
  by (simp_all add: heap_budget_def wf_heap_def wf_blocks_def kern_live_def)

lemma pci_set_names_keeps:
  "pd_bus (pci_set_names tb dv) = pd_bus dv" "pd_dev (pci_set_names tb dv) = pd_dev dv" "ven_id (pci_set_names tb dv) = ven_id dv"
  "dev_id (pci_set_names tb dv) = dev_id dv" "header_type (pci_set_names tb dv) = header_type dv"
proof -
  have f: "pd_bus (fold g xs dv) = pd_bus dv \<and> pd_dev (fold g xs dv) = pd_dev dv \<and> ven_id (fold g xs dv) = ven_id dv \<and>
      dev_id (fold g xs dv) = dev_id dv \<and> header_type (fold g xs dv) = header_type dv"
    if "\<And>x dv. pd_bus (g x dv) = pd_bus dv \<and> pd_dev (g x dv) = pd_dev dv \<and> ven_id (g x dv) = ven_id dv \<and>
      dev_id (g x dv) = dev_id dv \<and> header_type (g x dv) = header_type dv" for g :: "'a \<Rightarrow> pci_dev \<Rightarrow> pci_dev" and xs dv
    using that by (induction xs arbitrary: dv) simp_all
  show "pd_bus (pci_set_names tb dv) = pd_bus dv" "pd_dev (pci_set_names tb dv) = pd_dev dv" "ven_id (pci_set_names tb dv) = ven_id dv"
    "dev_id (pci_set_names tb dv) = dev_id dv" "header_type (pci_set_names tb dv) = header_type dv"
    unfolding pci_set_names_def Let_def by (subst f; force split: option.splits prod.splits)+
qed

lemma pci_set_header_ok:
  assumes b: "heap_budget (alloc_cost sizeof_pci_hdr + k) s" and w: "dom (pci_hdrs s) \<subseteq> kern_live s"
  obtains dv' s' where "pci_set_header cfg dv s = Some (dv', s')" "pd_bus dv' = pd_bus dv" "pd_dev dv' = pd_dev dv" "ven_id dv' = ven_id dv"
    "dev_id dv' = dev_id dv" "standard_header (header_type dv) \<longrightarrow> pci_hdrs s' (additional_info dv') = Some (pci_std_hdr cfg (pd_bus dv) (pd_dev dv))"
    "pci_hdrs s \<subseteq>\<^sub>m pci_hdrs s'" "pci_devs s' = pci_devs s" "pci_devices s' = pci_devices s" "heap_budget k s'"
    "kern_live s \<subseteq> kern_live s'" "dom (pci_hdrs s') \<subseteq> kern_live s'"
proof (cases "standard_header (header_type dv)")
  case True
  obtain h s1 where s1: "kern_malloc sizeof_pci_hdr s = Some (h, s1)" "h \<noteq> 0" "h \<notin> kern_live s" "kern_live s1 = insert h (kern_live s)"
    "heap_budget k s1" "vm.more s1 = vm.more s" by (rule malloc_live[OF b]) (simp add: sizeof_pci_hdr_def)
  note more = pci_more[OF s1(6)]
  have run: "pci_set_header cfg dv s = Some (dv\<lparr>additional_info := h\<rparr>, s1\<lparr>pci_hdrs := (pci_hdrs s)(h \<mapsto> pci_std_hdr cfg (pd_bus dv) (pd_dev dv))\<rparr>)"
  proof -
    have "pci_set_header cfg dv s = pci_set_standard_header cfg dv s" using True by (auto simp: standard_header_def pci_set_header_def)
    then show ?thesis using s1(1,2) more(2) by (simp add: pci_set_standard_header_def)
  qed
  have "pci_hdrs s h = None" using s1(3) w by blast
  then have "pci_hdrs s \<subseteq>\<^sub>m (pci_hdrs s)(h \<mapsto> x)" for x by (auto simp: map_le_def)
  moreover have "dom ((pci_hdrs s)(h \<mapsto> x)) \<subseteq> kern_live s1" for x using w s1(4) by auto
  ultimately show ?thesis by (intro that[OF run]) (use s1(4,5) more in simp_all, blast)
next
  case False
  obtain m where m: "pci_set_header cfg dv s = Some (dv, s\<lparr>klog := m\<rparr>)"
  proof (cases "header_type dv = 1 \<or> header_type dv = 2")
    case True
    then consider "header_type dv = 1" | "header_type dv = 2" by blast
    then show ?thesis by cases (rule that, simp add: pci_set_header_def klog_msg_def)+
  next
    case other: False
    then have "pci_set_header cfg dv s = Some (dv, s\<lparr>klog := klog s\<rparr>)" using False by (simp add: pci_set_header_def standard_header_def)
    then show ?thesis by (rule that)
  qed
  have "heap_budget k s" by (rule heap_budget_mono[OF b]) simp
  then show ?thesis using that[OF m] False w by simp
qed

lemma map_le_Some: "m \<subseteq>\<^sub>m m' \<Longrightarrow> m x = Some y \<Longrightarrow> m' x = Some y"
  by (metis domI map_le_def)

lemma describes_mono:
  "describes cfg bus d p s \<Longrightarrow> pci_devs s \<subseteq>\<^sub>m pci_devs s' \<Longrightarrow> pci_hdrs s \<subseteq>\<^sub>m pci_hdrs s' \<Longrightarrow> describes cfg bus d p s'"
  unfolding describes_def using map_le_Some[of "pci_devs s" "pci_devs s'"] map_le_Some[of "pci_hdrs s" "pci_hdrs s'"] by blast

lemma pci_build_device_ok:
  assumes b: "heap_budget (pci_cost + k) s" and w: "pci_wf s"
    and v: "ven = pci_read cfg bus (of_nat d) 0 PCI_VEN_ID" "hdr = ucast (pci_read cfg bus (of_nat d) 0 PCI_HEADER_TYPE)"
  obtains p s' where "pci_build_device tb cfg bus (of_nat d) ven bc sc hdr s = Some s'" "pci_devices s' = pci_devices s @ [p]"
    "describes cfg bus d p s'" "pci_devs s \<subseteq>\<^sub>m pci_devs s'" "pci_hdrs s \<subseteq>\<^sub>m pci_hdrs s'" "pci_wf s'" "heap_budget k s'"
proof -
  have b0: "heap_budget (alloc_cost sizeof_pci_dev + (alloc_cost sizeof_pci_hdr + k)) s" using b by (simp add: pci_cost_def add.assoc)
  obtain p s1 where s1: "kern_malloc sizeof_pci_dev s = Some (p, s1)" "p \<noteq> 0" "p \<notin> kern_live s" "kern_live s1 = insert p (kern_live s)"
    "heap_budget (alloc_cost sizeof_pci_hdr + k) s1" "vm.more s1 = vm.more s" by (rule malloc_live[OF b0]) (simp add: sizeof_pci_dev_def)
  note more = pci_more[OF s1(6)]
  let ?dv = "pci_set_names tb (pci_fields cfg bus (of_nat d) ven bc sc hdr)"
  have w1: "dom (pci_hdrs s1) \<subseteq> kern_live s1" using w s1(4) by (auto simp: pci_wf_def more)
  obtain dv' s2 where s2: "pci_set_header cfg ?dv s1 = Some (dv', s2)" "pd_bus dv' = pd_bus ?dv" "pd_dev dv' = pd_dev ?dv" "ven_id dv' = ven_id ?dv"
    "dev_id dv' = dev_id ?dv" "standard_header (header_type ?dv) \<longrightarrow> pci_hdrs s2 (additional_info dv') = Some (pci_std_hdr cfg (pd_bus ?dv) (pd_dev ?dv))"
    "pci_hdrs s1 \<subseteq>\<^sub>m pci_hdrs s2" "pci_devs s2 = pci_devs s1" "pci_devices s2 = pci_devices s1" "heap_budget k s2"
    "kern_live s1 \<subseteq> kern_live s2" "dom (pci_hdrs s2) \<subseteq> kern_live s2"
    by (rule pci_set_header_ok[OF s1(5) w1])
  let ?s = "s2\<lparr>pci_devs := (pci_devs s)(p \<mapsto> dv'), pci_devices := pci_devices s @ [p]\<rparr>"
  have run: "pci_build_device tb cfg bus (of_nat d) ven bc sc hdr s = Some ?s"
    using s1(1,2) s2(1,8,9) by (simp add: pci_build_device_def more)
  have "describes cfg bus d p ?s"
    using s2(2-6) v by (simp add: describes_def pci_set_names_keeps) (simp add: pci_fields_def)
  moreover have "pci_devs s p = None" using w s1(3) by (auto simp: pci_wf_def)
  then have "pci_devs s \<subseteq>\<^sub>m pci_devs ?s" by (auto simp: map_le_def)
  moreover have "pci_wf ?s" using w s1(2,4) s2(11,12) by (auto simp: pci_wf_def)
  ultimately show ?thesis by (intro that[OF run]) (use s2(7,10) more in simp_all)
qed

lemma scan_functions: "d < 32 \<Longrightarrow> f \<le> 8 \<Longrightarrow> pci_scan_from tb cfg bus d (Some f) s = pci_scan_from tb cfg bus d (Some 8) s"
proof (induction "8 - f" arbitrary: f)
  case (Suc n)
  have f: "f < 8" using Suc.hyps(2) by simp
  have "pci_scan_from tb cfg bus d (Some f) s = pci_scan_from tb cfg bus d (Some (f + 1)) s"
    using f Suc.prems(1) by (subst pci_scan_from.simps) (simp add: no_bridge PCI_FUN_PER_DEV_def PCI_DEV_PER_BUS_def)
  also have "\<dots> = pci_scan_from tb cfg bus d (Some 8) s" using Suc.hyps f Suc.prems by (intro Suc.hyps(1)) simp_all
  finally show ?case .
qed simp

lemma scan_step:
  assumes "d < 32"
  shows "pci_scan_from tb cfg bus d None s =
    (if present cfg bus d
     then do { s \<leftarrow> pci_build_device tb cfg bus (of_nat d) (pci_read cfg bus (of_nat d) 0 PCI_VEN_ID)
                      (ucast (pci_read cfg bus (of_nat d) 0 PCI_CLASS_CODE)) (ucast (pci_read cfg bus (of_nat d) 0 PCI_SUB_CLASS))
                      (ucast (pci_read cfg bus (of_nat d) 0 PCI_HEADER_TYPE)) s;
               pci_scan_from tb cfg bus (d + 1) None s }
     else pci_scan_from tb cfg bus (d + 1) None s)"
proof (cases "present cfg bus d")
  case True
  let ?f = "if ucast (pci_read cfg bus (of_nat d) 0 PCI_HEADER_TYPE) AND PCI_MULTI_FUNC \<noteq> 0 then 0 else PCI_FUN_PER_DEV"
  have "pci_scan_from tb cfg bus d None s = pci_scan_from tb cfg bus d (Some ?f) s"
    using True assms by (subst pci_scan_from.simps) (simp add: no_bridge present_def PCI_DEV_PER_BUS_def)
  also have "\<dots> = pci_scan_from tb cfg bus d (Some 8) s" by (rule scan_functions[OF assms]) (simp add: PCI_FUN_PER_DEV_def)
  finally show ?thesis using True assms by (simp add: pci_scan_from.simps[of tb cfg bus d "Some 8"] PCI_FUN_PER_DEV_def PCI_DEV_PER_BUS_def)
next
  case False
  then show ?thesis using assms by (subst pci_scan_from.simps) (simp add: present_def PCI_DEV_PER_BUS_def)
qed

lemma scan_from_ok:
  assumes "heap_budget (length (filter (present cfg bus) [d..<32]) * pci_cost + k) s" "pci_wf s" "d \<le> 32"
  shows "\<exists>ps s'. pci_scan_from tb cfg bus d None s = Some s' \<and> pci_devices s' = pci_devices s @ ps \<and>
    list_all2 (\<lambda>d p. describes cfg bus d p s') (filter (present cfg bus) [d..<32]) ps \<and>
    pci_devs s \<subseteq>\<^sub>m pci_devs s' \<and> pci_hdrs s \<subseteq>\<^sub>m pci_hdrs s' \<and> pci_wf s' \<and> heap_budget k s'"
  using assms
proof (induction "32 - d" arbitrary: d s)
  case 0
  then show ?case by (subst pci_scan_from.simps) (simp add: PCI_DEV_PER_BUS_def)
next
  case (Suc n)
  then have d: "d < 32" "n = 32 - (d + 1)" "d + 1 \<le> 32" by simp_all
  have up: "[d..<32] = d # [d + 1..<32]" using d(1) by (simp add: upt_rec)
  show ?case
  proof (cases "present cfg bus d")
    case True
    let ?l = "filter (present cfg bus) [d + 1..<32]"
    have b: "heap_budget (pci_cost + (length ?l * pci_cost + k)) s" using Suc.prems(1) True unfolding up by (simp add: add.assoc)
    obtain p s1 where s1: "pci_build_device tb cfg bus (of_nat d) (pci_read cfg bus (of_nat d) 0 PCI_VEN_ID)
        (ucast (pci_read cfg bus (of_nat d) 0 PCI_CLASS_CODE)) (ucast (pci_read cfg bus (of_nat d) 0 PCI_SUB_CLASS))
        (ucast (pci_read cfg bus (of_nat d) 0 PCI_HEADER_TYPE)) s = Some s1" "pci_devices s1 = pci_devices s @ [p]"
      "describes cfg bus d p s1" "pci_devs s \<subseteq>\<^sub>m pci_devs s1" "pci_hdrs s \<subseteq>\<^sub>m pci_hdrs s1" "pci_wf s1" "heap_budget (length ?l * pci_cost + k) s1"
      by (rule pci_build_device_ok[OF b Suc.prems(2) refl refl])
    from Suc.hyps(1)[OF d(2) s1(7,6) d(3)] obtain ps s2 where s2: "pci_scan_from tb cfg bus (d + 1) None s1 = Some s2"
      "pci_devices s2 = pci_devices s1 @ ps" "list_all2 (\<lambda>d p. describes cfg bus d p s2) ?l ps"
      "pci_devs s1 \<subseteq>\<^sub>m pci_devs s2" "pci_hdrs s1 \<subseteq>\<^sub>m pci_hdrs s2" "pci_wf s2" "heap_budget k s2" by blast
    have "pci_scan_from tb cfg bus d None s = Some s2" unfolding scan_step[OF d(1)] using True s1(1) s2(1) by simp
    moreover have "describes cfg bus d p s2" by (rule describes_mono[OF s1(3) s2(4,5)])
    ultimately show ?thesis using s1(2,4,5) s2 True unfolding up
      by (intro exI[of _ "p # ps"] exI[of _ s2]) (auto intro: map_le_trans)
  next
    case False
    then show ?thesis using Suc.hyps(1)[OF d(2) _ Suc.prems(2) d(3)] Suc.prems(1) unfolding up scan_step[OF d(1)] by simp
  qed
qed

subsection \<open>Devices by their identifiers\<close>

definition has_ids :: "(u32 \<Rightarrow> u32) \<Rightarrow> u8 \<Rightarrow> u16 \<Rightarrow> u16 \<Rightarrow> nat \<Rightarrow> bool" where
  "has_ids cfg bus v i d \<longleftrightarrow> present cfg bus d \<and> pci_read cfg bus (of_nat d) 0 PCI_VEN_ID = v \<and> pci_read cfg bus (of_nat d) 0 PCI_DEV_ID = i"

lemma find_device_ok:
  assumes "list_all2 (\<lambda>d p. describes cfg bus d p s) ds ps" "\<forall>d\<in>set ds. present cfg bus d"
  shows "case find (has_ids cfg bus v i) ds of None \<Rightarrow> find_device v i ps s = Some 0
    | Some d \<Rightarrow> \<exists>p\<in>set ps. find_device v i ps s = Some p \<and> describes cfg bus d p s"
  using assms
proof (induction rule: list_all2_induct)
  case (Cons d ds p ps)
  obtain dv where dv: "pci_devs s p = Some dv" "ven_id dv = pci_read cfg bus (of_nat d) 0 PCI_VEN_ID" "dev_id dv = pci_read cfg bus (of_nat d) 0 PCI_DEV_ID"
    using Cons.hyps(1) by (auto simp: describes_def)
  then have "has_ids cfg bus v i d \<longleftrightarrow> ven_id dv = v \<and> dev_id dv = i" using Cons.prems by (simp add: has_ids_def)
  then show ?case using Cons.IH Cons.hyps(1) Cons.prems dv(1) by (auto split: option.splits)
qed simp

lemma find_filter: "find Q xs = find Q (filter P xs)" if "\<And>x. Q x \<Longrightarrow> P x"
  using that by (induction xs) auto

lemma pci_initialise_ok:
  assumes h: "(ucast (pci_read cfg 0 0 0 PCI_HEADER_TYPE) :: u8) AND PCI_MULTI_FUNC = 0"
    and b: "heap_budget (32 * pci_cost) s" and w: "pci_wf (s\<lparr>pci_devices := []\<rparr>)"
  obtains s' where "pci_initialise tb cfg s = Some s'" "list_all2 (\<lambda>d p. describes cfg 0 d p s') (filter (present cfg 0) [0..<32]) (pci_devices s')" "pci_wf s'"
proof -
  let ?s = "s\<lparr>pci_devices := []\<rparr>"
  have "length (filter (present cfg 0) [0..<32]) * pci_cost \<le> 32 * pci_cost" using length_filter_le[of "present cfg 0" "[0..<32]"] by simp
  then have "heap_budget (length (filter (present cfg 0) [0..<32]) * pci_cost + 0) ?s" using heap_budget_mono[OF b] by simp
  from scan_from_ok[OF this w, of tb] obtain ps s' where "pci_scan_from tb cfg 0 0 None ?s = Some s'" "pci_devices s' = ps"
    "list_all2 (\<lambda>d p. describes cfg 0 d p s') (filter (present cfg 0) [0..<32]) ps" "pci_wf s'" by auto
  then show ?thesis using that[of s'] h by (simp add: pci_initialise_def pci_scan_bus_def Let_def)
qed

lemma pci_device_of_ids:
  assumes "(ucast (pci_read cfg 0 0 0 PCI_HEADER_TYPE) :: u8) AND PCI_MULTI_FUNC = 0"
    "heap_budget (32 * pci_cost) s" "pci_wf (s\<lparr>pci_devices := []\<rparr>)"
  shows "\<exists>s'. pci_initialise tb cfg s = Some s' \<and>
    (case find (has_ids cfg 0 v i) [0..<32] of None \<Rightarrow> pci_get_device v i s' = Some 0
     | Some d \<Rightarrow> \<exists>p. p \<noteq> 0 \<and> pci_get_device v i s' = Some p \<and> describes cfg 0 d p s')"
proof -
  obtain s' where s': "pci_initialise tb cfg s = Some s'" "list_all2 (\<lambda>d p. describes cfg 0 d p s') (filter (present cfg 0) [0..<32]) (pci_devices s')" "pci_wf s'"
    by (rule pci_initialise_ok[OF assms])
  have "find (has_ids cfg 0 v i) [0..<32] = find (has_ids cfg 0 v i) (filter (present cfg 0) [0..<32])" by (rule find_filter) (simp add: has_ids_def)
  moreover have "0 \<notin> set (pci_devices s')" using s'(3) by (auto simp: pci_wf_def)
  ultimately show ?thesis using s'(1) find_device_ok[OF s'(2), of v i] by (fastforce simp: pci_get_device_def split: option.splits)
qed

lemma pci_several_hosts:
  assumes "(ucast (pci_read cfg 0 0 0 PCI_HEADER_TYPE) :: u8) AND PCI_MULTI_FUNC \<noteq> 0" "present cfg 0 0"
  shows "pci_initialise tb cfg s = Some (s\<lparr>pci_devices := []\<rparr>)"
  using assms by (simp add: pci_initialise_def present_def PCI_FUN_PER_DEV_def upt_rec Let_def)

end
