(* ===== verification/Boot_Params.thy ===== *)
theory Boot_Params
  imports Kstring
begin

text \<open>
  The parameters on the boot command line, \<open>kernel/mboot/multiboot.c\<close>: a list of the form \<^verbatim>\<open>key=value,key=value\<close>, taken apart with \<open>strtok\<close>,
  whose static variable is threaded through. The list of parameters is a value; a null pointer is \<open>None\<close>.
\<close>

subsection \<open>The code\<close>

type_synonym mboot_param = "string option \<times> string option"

lemma strtok_shorter: "strtok None d ss = (Some t, ss') \<Longrightarrow> length ss' < length ss"
proof -
  assume h: "strtok None d ss = (Some t, ss')"
  then obtain r where r: "skip_delims d ss = Some r" "ss' = drop (Suc (strcspn r d)) r" by (auto simp: strtok_def Let_def split: option.splits)
  have "skip_delims d ss = Some r \<Longrightarrow> r \<noteq> [] \<and> length r \<le> length ss" for ss by (induction ss) (auto split: if_splits)
  with r show ?thesis by (metis One_nat_def diff_less leD length_drop length_greater_0_conv not_less order_less_le_trans zero_less_Suc)
qed

text \<open>The tokens that are left, and the static variable behind them.\<close>

function rest_params :: "string \<Rightarrow> string list \<times> string" where
  "rest_params stored =
     (case strtok None '','' stored of
        (None, ss) \<Rightarrow> ([], ss)
      | (Some fullparam, ss) \<Rightarrow> (let (ps, ss) = rest_params ss in (fullparam # ps, ss)))"
  by auto
termination by (relation "measure length") (auto dest!: strtok_shorter[OF sym])

declare rest_params.simps [simp del]

fun set_params :: "string list \<Rightarrow> string \<Rightarrow> mboot_param list \<times> string" where
  "set_params [] stored = ([], stored)"
| "set_params (full # ps) stored =
     (let (k, ss) = strtok (Some full) ''='' stored;
          (v, ss) = strtok None ''='' ss;
          (rest, ss) = set_params ps ss
      in ((k, v) # rest, ss))"

text \<open>
  The list ignores a null pointer. The last call has a null pointer for the delimiters, which it reads unless the rest of the string is empty.
\<close>

definition parse_multiboot_params :: "string \<Rightarrow> string \<Rightarrow> (mboot_param list \<times> string) option" where
  "parse_multiboot_params cmd stored =
     (let (first, ss) = strtok (Some cmd) '','' stored;
          (others, ss) = rest_params ss;
          (params, ss) = set_params ((case first of None \<Rightarrow> [] | Some f \<Rightarrow> [f]) @ others) ss
      in if ss = [] then Some (params, ss) else None)"

fun params_find_by_key :: "mboot_param list \<Rightarrow> string \<Rightarrow> string option option" where
  "params_find_by_key [] key = Some None"
| "params_find_by_key ((k, v) # ps) key =
     (case k of None \<Rightarrow> None | Some k \<Rightarrow> if strcmp k key = 0 then Some v else params_find_by_key ps key)"

subsection \<open>Key and value\<close>

definition param_text :: "string \<Rightarrow> bool" where
  "param_text t \<longleftrightarrow> t \<noteq> [] \<and> NUL \<notin> set t \<and> CHR '','' \<notin> set t \<and> CHR ''='' \<notin> set t"

fun command_line :: "(string \<times> string) list \<Rightarrow> string" where
  "command_line [] = []"
| "command_line [(k, v)] = k @ CHR ''='' # v"
| "command_line ((k, v) # ps) = k @ CHR ''='' # v @ CHR '','' # command_line ps"

text \<open>A token in front of a delimiter, or at the end.\<close>

lemma strtok_front:
  assumes "t \<noteq> []" "cstring t" "c \<noteq> NUL" "c \<notin> set t"
  shows "strtok (Some (t @ c # r)) [c] x = (Some t, r)" "strtok None [c] (t @ c # r) = (Some t, r)"
    "strtok (Some t) [c] x = (Some t, [])" "strtok None [c] t = (Some t, [])"
proof -
  obtain a as where t: "t = a # as" "a \<noteq> c" "a \<noteq> NUL" using assms by (cases t) (auto simp: cstring_def)
  have n: "strcspn (as @ c # r) [c] = length as" "strcspn as [c] = length as" if "c \<notin> set as" "NUL \<notin> set as" for as
    using that assms(3) by (induction as) auto
  have "c \<notin> set as" "NUL \<notin> set as" using assms t by (auto simp: cstring_def)
  then show "strtok (Some (t @ c # r)) [c] x = (Some t, r)" "strtok None [c] (t @ c # r) = (Some t, r)"
    "strtok (Some t) [c] x = (Some t, [])" "strtok None [c] t = (Some t, [])"
    using t n[of as] by (auto simp: strtok_def)
qed

lemma param_split:
  assumes "param_text k" "param_text v"
  shows "strtok (Some (k @ CHR ''='' # v)) ''='' x = (Some k, v)" "strtok None ''='' v = (Some v, [])"
  using assms strtok_front(1)[of k "CHR ''=''" v x] strtok_front(4)[of v "CHR ''=''"] by (auto simp: param_text_def cstring_def NUL_def)

lemma rest_params_line:
  assumes "\<forall>(k, v)\<in>set ps. param_text k \<and> param_text v"
  shows "rest_params (command_line ps) = (map (\<lambda>(k, v). k @ CHR ''='' # v) ps, [])"
  using assms
proof (induction ps rule: command_line.induct)
  case 1
  then show ?case by (subst rest_params.simps) (simp add: strtok_def)
next
  case (2 k v)
  then have "strtok None '','' (k @ CHR ''='' # v) = (Some (k @ CHR ''='' # v), [])"
    by (intro strtok_front(4)) (auto simp: param_text_def cstring_def NUL_def)
  moreover have "rest_params [] = ([], [])" by (subst rest_params.simps) (simp add: strtok_def)
  ultimately show ?case by (subst rest_params.simps) simp
next
  case (3 k v p ps)
  then have "strtok None '','' ((k @ CHR ''='' # v) @ CHR '','' # command_line (p # ps)) = (Some (k @ CHR ''='' # v), command_line (p # ps))"
    by (intro strtok_front(2)) (auto simp: param_text_def cstring_def NUL_def)
  moreover have "rest_params (command_line (p # ps)) = (map (\<lambda>(k, v). k @ CHR ''='' # v) (p # ps), [])" using 3 by auto
  ultimately show ?case by (subst rest_params.simps) simp
qed

lemma set_params_pairs:
  "\<forall>(k, v)\<in>set ps. param_text k \<and> param_text v \<Longrightarrow>
    set_params (map (\<lambda>(k, v). k @ CHR ''='' # v) ps) x = (map (\<lambda>(k, v). (Some k, Some v)) ps, if ps = [] then x else [])"
  by (induction ps arbitrary: x) (auto simp: param_split Let_def)

lemma parse_command_line:
  assumes "\<forall>(k, v)\<in>set ps. param_text k \<and> param_text v" "ps \<noteq> []"
  shows "parse_multiboot_params (command_line ps) x = Some (map (\<lambda>(k, v). (Some k, Some v)) ps, [])"
proof -
  obtain k v qs where ps: "ps = (k, v) # qs" using assms(2) by (cases ps) auto
  let ?t = "k @ CHR ''='' # v"
  have t: "?t \<noteq> []" "cstring ?t" "CHR '','' \<notin> set ?t" "param_text k" "param_text v" using assms(1) ps by (auto simp: param_text_def cstring_def NUL_def)
  have "strtok (Some (command_line ps)) '','' x = (Some ?t, command_line qs)"
  proof (cases qs)
    case Nil
    then show ?thesis using strtok_front(3)[OF t(1,2) _ t(3), of x] ps by (simp add: NUL_def)
  next
    case (Cons q rs)
    then show ?thesis using strtok_front(1)[OF t(1,2) _ t(3), of "command_line qs" x] ps by (simp add: NUL_def)
  qed
  moreover have "rest_params (command_line qs) = (map (\<lambda>(k, v). k @ CHR ''='' # v) qs, [])" by (rule rest_params_line) (use assms(1) ps in auto)
  moreover have "set_params (?t # map (\<lambda>(k, v). k @ CHR ''='' # v) qs) [] = (map (\<lambda>(k, v). (Some k, Some v)) ps, [])"
    using set_params_pairs[OF assms(1), of "[]"] ps by (simp split: if_splits)
  ultimately show ?thesis by (simp add: parse_multiboot_params_def)
qed

lemma find_param:
  "params_find_by_key (map (\<lambda>(k, v). (Some k, Some v)) ps) key = Some (map_of ps key)"
  by (induction ps) (auto simp: strcmp_eq)

end
