(* ===== verification/Vesa.thy ===== *)
theory Vesa
  imports Pci Boot_Params
begin

text \<open>
  The graphics screen, \<open>drivers/devices/vesa/vesa.c\<close>. The frame buffer is a function from addresses to words, apart from the memory in
  \<open>kh_bytes\<close>; \<open>&lfb[i]\<close> is the address \<open>lfb + 4 * i\<close> of 32 bits. Writes to the ports of the controller are a trace; the version it reports
  is an argument. A command that reads its arguments through a null pointer faults.
\<close>

subsection \<open>State\<close>

definition VESA_PCI_VENDOR_ID :: u16 where "VESA_PCI_VENDOR_ID = 0x1234"
definition VESA_PCI_DEVICE_ID :: u16 where "VESA_PCI_DEVICE_ID = 0x1111"
definition VESA_PCI_VENDOR_ID_2 :: u16 where "VESA_PCI_VENDOR_ID_2 = 0x80EE"
definition VESA_PCI_DEVICE_ID_2 :: u16 where "VESA_PCI_DEVICE_ID_2 = 0xBEEF"
definition VESA_INDEX_PORT :: u16 where "VESA_INDEX_PORT = 0x01CE"
definition VESA_DATA_PORT :: u16 where "VESA_DATA_PORT = 0x01CF"
definition VESA_INDEX_ID :: u16 where "VESA_INDEX_ID = 0"
definition VESA_INDEX_XRES :: u16 where "VESA_INDEX_XRES = 1"
definition VESA_INDEX_YRES :: u16 where "VESA_INDEX_YRES = 2"
definition VESA_INDEX_BPP :: u16 where "VESA_INDEX_BPP = 3"
definition VESA_INDEX_ENABLE :: u16 where "VESA_INDEX_ENABLE = 4"
definition VESA_BOCHS_VER_OLDEST :: u16 where "VESA_BOCHS_VER_OLDEST = 0xB0C0"
definition VESA_BOCHS_VER_NEWEST :: u16 where "VESA_BOCHS_VER_NEWEST = 0xB0C5"
definition VESA_CMD_DRAWPX :: u32 where "VESA_CMD_DRAWPX = 2"
definition VESA_CMD_GETPX :: u32 where "VESA_CMD_GETPX = 3"

record vesa = pci +
  vesa_pci_device :: ptr
  vesa_device :: ptr
  vesa_device_file :: ptr
  vesa_status :: int
  lfb :: ptr
  lfb_width :: int
  lfb_height :: int
  lfb_bpp :: int
  frame :: "ptr \<Rightarrow> u32"
  vesa_ports :: "(u16 \<times> u16) list"

record mboot_framebuffer =
  framebuffer_addr :: "64 word"
  framebuffer_width :: u32
  framebuffer_height :: u32
  framebuffer_bpp :: u32

definition write_port_16 :: "u16 \<Rightarrow> u16 \<Rightarrow> 'z vesa_scheme \<Rightarrow> 'z vesa_scheme" where
  "write_port_16 port val s = s\<lparr>vesa_ports := vesa_ports s @ [(port, val)]\<rparr>"

subsection \<open>Words of memory\<close>

definition memset_32 :: "ptr \<Rightarrow> u32 \<Rightarrow> u32 \<Rightarrow> (ptr \<Rightarrow> u32) \<Rightarrow> ptr \<Rightarrow> u32" where
  "memset_32 dest val len f = fold (\<lambda>i f. f(dest + 4 * of_nat i := val)) [0..<unat len] f"

definition memcpy_32 :: "ptr \<Rightarrow> ptr \<Rightarrow> u32 \<Rightarrow> (ptr \<Rightarrow> u32) \<Rightarrow> ptr \<Rightarrow> u32" where
  "memcpy_32 dest src len f = fold (\<lambda>i f. f(dest + 4 * of_nat i := f (src + 4 * of_nat i))) [0..<unat len] f"

text \<open>The same loop between the frame buffer and the memory of the caller.\<close>

definition memcpy_32_out :: "ptr \<Rightarrow> ptr \<Rightarrow> u32 \<Rightarrow> (ptr \<Rightarrow> u32) \<Rightarrow> (ptr \<Rightarrow> u8) \<Rightarrow> ptr \<Rightarrow> u8" where
  "memcpy_32_out dest src len f m = fold (\<lambda>i m. store_u32 (dest + 4 * of_nat i) (f (src + 4 * of_nat i)) m) [0..<unat len] m"

definition memcpy_32_in :: "ptr \<Rightarrow> ptr \<Rightarrow> u32 \<Rightarrow> (ptr \<Rightarrow> u8) \<Rightarrow> (ptr \<Rightarrow> u32) \<Rightarrow> ptr \<Rightarrow> u32" where
  "memcpy_32_in dest src len m f = fold (\<lambda>i f. f(dest + 4 * of_nat i := load_u32 (src + 4 * of_nat i) m)) [0..<unat len] f"

subsection \<open>Pixels\<close>

definition vesa_get_pixel_value :: "u8 \<Rightarrow> u8 \<Rightarrow> u8 \<Rightarrow> u8 \<Rightarrow> u32" where
  "vesa_get_pixel_value r g b alpha = push_bit 24 (ucast alpha) OR push_bit 16 (ucast r) OR push_bit 8 (ucast g) OR ucast b"

definition pixel_index :: "int \<Rightarrow> int \<Rightarrow> 'z vesa_scheme \<Rightarrow> u32" where
  "pixel_index x y s = word_of_int (lfb_width s * y + x)"

definition vesa_draw_pixel :: "int \<Rightarrow> int \<Rightarrow> u32 \<Rightarrow> 'z vesa_scheme \<Rightarrow> int \<times> 'z vesa_scheme" where
  "vesa_draw_pixel x y px s =
     (if lfb s \<noteq> 0 then (0, s\<lparr>frame := (frame s)(lfb s + 4 * pixel_index x y s := px)\<rparr>) else (-1, s))"

definition vesa_get_pixel_at :: "int \<Rightarrow> int \<Rightarrow> 'z vesa_scheme \<Rightarrow> u32" where
  "vesa_get_pixel_at x y s = (if lfb s \<noteq> 0 then frame s (lfb s + 4 * pixel_index x y s) else 0)"

definition video_mem_length :: "'z vesa_scheme \<Rightarrow> u32" where
  "video_mem_length s = word_of_int (lfb_width s * lfb_height s)"

definition vesa_clear_screen :: "'z vesa_scheme \<Rightarrow> 'z vesa_scheme" where
  "vesa_clear_screen s = s\<lparr>frame := memset_32 (lfb s) (vesa_get_pixel_value 0 0 0 0) (video_mem_length s) (frame s)\<rparr>"

definition vesa_clear_from :: "u32 \<Rightarrow> 'z vesa_scheme \<Rightarrow> 'z vesa_scheme" where
  "vesa_clear_from location_index s =
     s\<lparr>frame := memset_32 (lfb s + 4 * location_index) (vesa_get_pixel_value 0 0 0 0) (video_mem_length s - location_index) (frame s)\<rparr>"

definition vesa_move_data :: "u32 \<Rightarrow> u32 \<Rightarrow> u32 \<Rightarrow> 'z vesa_scheme \<Rightarrow> 'z vesa_scheme" where
  "vesa_move_data to from sz s = s\<lparr>frame := memcpy_32 (lfb s + 4 * to) (lfb s + 4 * from) sz (frame s)\<rparr>"

definition vesa_set_data :: "u32 \<Rightarrow> u32 \<Rightarrow> u32 \<Rightarrow> 'z vesa_scheme \<Rightarrow> 'z vesa_scheme" where
  "vesa_set_data begin_at len d s = s\<lparr>frame := memset_32 (lfb s + 4 * begin_at) d len (frame s)\<rparr>"

subsection \<open>The device\<close>

definition vesa_dev_open :: "ptr \<Rightarrow> 'z vesa_scheme \<Rightarrow> int \<times> 'z vesa_scheme" where
  "vesa_dev_open device s = (0, s)"

definition vesa_dev_close :: "ptr \<Rightarrow> 'z vesa_scheme \<Rightarrow> int \<times> 'z vesa_scheme" where
  "vesa_dev_close device s = (0, s)"

definition vesa_dev_read :: "ptr \<Rightarrow> u32 \<Rightarrow> u32 \<Rightarrow> ptr \<Rightarrow> 'z vesa_scheme \<Rightarrow> int \<times> 'z vesa_scheme" where
  "vesa_dev_read device start_at sz buffer s =
     (if start_at > video_mem_length s - 1 then (-1, s)
      else let read_length = (if start_at + sz > video_mem_length s then video_mem_length s - start_at else sz)
           in (sint read_length, s\<lparr>kh_bytes := memcpy_32_out buffer (lfb s + 4 * start_at) read_length (frame s) (kh_bytes s)\<rparr>))"

definition vesa_dev_write :: "ptr \<Rightarrow> u32 \<Rightarrow> u32 \<Rightarrow> ptr \<Rightarrow> 'z vesa_scheme \<Rightarrow> int \<times> 'z vesa_scheme" where
  "vesa_dev_write device start_at sz buffer s =
     (if start_at > video_mem_length s - 1 then (-1, s)
      else let written_length = (if start_at + sz > video_mem_length s then video_mem_length s - start_at else sz)
           in (sint written_length, s\<lparr>frame := memcpy_32_in (lfb s + 4 * start_at) buffer written_length (kh_bytes s) (frame s)\<rparr>))"

definition vesa_dev_control :: "ptr \<Rightarrow> u32 \<Rightarrow> ptr \<Rightarrow> 'z vesa_scheme \<Rightarrow> (int \<times> 'z vesa_scheme) option" where
  "vesa_dev_control device command arguments s =
     (let arg = (\<lambda>i. if arguments = 0 then None else Some (load_u32 (arguments + 4 * i) (kh_bytes s)))
      in if device \<noteq> vesa_device s \<or> command = 0 then Some (-1, s)
         else if command = VESA_CMD_CLRSC then Some (0, vesa_clear_screen s)
         else if command = VESA_CMD_CLRFROM then do { l \<leftarrow> arg 0; Some (0, vesa_clear_from l s) }
         else if command = VESA_CMD_DRAWPX
         then do { x \<leftarrow> arg 0; y \<leftarrow> arg 1; px \<leftarrow> arg 2; Some (0, snd (vesa_draw_pixel (sint x) (sint y) px s)) }
         else if command = VESA_CMD_GETPX then do { x \<leftarrow> arg 0; y \<leftarrow> arg 1; Some (sint (vesa_get_pixel_at (sint x) (sint y) s), s) }
         else if command = VESA_CMD_GETW then Some (lfb_width s, s)
         else if command = VESA_CMD_GETH then Some (lfb_height s, s)
         else if command = VESA_CMD_MOVD then do { a \<leftarrow> arg 0; b \<leftarrow> arg 1; n \<leftarrow> arg 2; Some (0, vesa_move_data a b n s) }
         else if command = VESA_CMD_SETD then do { a \<leftarrow> arg 0; n \<leftarrow> arg 1; d \<leftarrow> arg 2; Some (0, vesa_set_data a n d s) }
         else Some (-1, s))"

definition vesa_dev_status :: "ptr \<Rightarrow> 'z vesa_scheme \<Rightarrow> u32" where
  "vesa_dev_status device s = (if device = vesa_device s then word_of_int (vesa_status s) else 0xFFFFFFFF)"

definition vesa_drivers :: "'z vesa_scheme drivers \<Rightarrow> 'z vesa_scheme drivers" where
  "vesa_drivers other =
     \<lparr>drv_node = (\<lambda>f d s. if f = ''vesa_dev_open'' then Some (vesa_dev_open d s)
                          else if f = ''vesa_dev_close'' then Some (vesa_dev_close d s) else drv_node other f d s),
      drv_io = (\<lambda>f d a z b s. if f = ''vesa_dev_read'' then Some (vesa_dev_read d a z b s)
                              else if f = ''vesa_dev_write'' then Some (vesa_dev_write d a z b s) else drv_io other f d a z b s),
      drv_control = (\<lambda>f d c a s. if f = ''vesa_dev_control'' then vesa_dev_control d c a s else drv_control other f d c a s),
      drv_status = (\<lambda>f d s. if f = ''vesa_dev_status'' then Some (vesa_dev_status d s, s) else drv_status other f d s)\<rparr>"

subsection \<open>Start-up\<close>

definition init_with_pci :: "u16 \<Rightarrow> int \<Rightarrow> int \<Rightarrow> 'z vesa_scheme \<Rightarrow> (int \<times> 'z vesa_scheme) option" where
  "init_with_pci version user_w user_h s = do {
     p \<leftarrow> pci_get_device VESA_PCI_VENDOR_ID VESA_PCI_DEVICE_ID s;
     p \<leftarrow> (if p = 0 then pci_get_device VESA_PCI_VENDOR_ID_2 VESA_PCI_DEVICE_ID_2 s else Some p);
     let s = s\<lparr>vesa_pci_device := p\<rparr>;
     if p = 0 then Some (-1, s)
     else do {
       dv \<leftarrow> pci_devs s p;
       h \<leftarrow> pci_hdrs s (additional_info dv);
       let s = s\<lparr>lfb := bar0 h AND 0xFFFFFFF0, lfb_width := user_w, lfb_height := user_h, lfb_bpp := 32\<rparr>;
       let s = write_port_16 VESA_INDEX_PORT VESA_INDEX_ID s;
       Some (0, if VESA_BOCHS_VER_OLDEST \<le> version \<and> version \<le> VESA_BOCHS_VER_NEWEST
                then fold (\<lambda>(q, v). write_port_16 q v)
                  [(VESA_DATA_PORT, VESA_BOCHS_VER_NEWEST), (VESA_INDEX_PORT, VESA_INDEX_ENABLE), (VESA_DATA_PORT, 0),
                   (VESA_INDEX_PORT, VESA_INDEX_XRES), (VESA_DATA_PORT, word_of_int user_w),
                   (VESA_INDEX_PORT, VESA_INDEX_YRES), (VESA_DATA_PORT, word_of_int user_h),
                   (VESA_INDEX_PORT, VESA_INDEX_BPP), (VESA_DATA_PORT, 32), (VESA_INDEX_PORT, VESA_INDEX_ENABLE), (VESA_DATA_PORT, 0x41)] s
                else s)
     }
   }"

definition resolutions :: "(string \<times> int \<times> int) list" where
  "resolutions = [(''1920x1080'', 1920, 1080), (''1280x1024'', 1280, 1024), (''1024x768'', 1024, 768), (''800x600'', 800, 600),
     (''640x480'', 640, 480), (''320x200'', 320, 200)]"

text \<open>The frame buffer is mapped page by page, up to the page of \<open>limit\<close>; the comparison is on words.\<close>

partial_function (option) map_frame :: "u32 \<Rightarrow> u32 \<Rightarrow> u32 \<Rightarrow> 'z vesa_scheme \<Rightarrow> 'z vesa_scheme option" where
  "map_frame v p limit s =
     (if p \<le> limit then map_frame (v + 0x1000) (p + 0x1000) limit (set_page_table_entry (get_page_directory_address s) v p True False s)
      else Some s)"

definition initialise_vesa ::
  "'z vesa_scheme calls \<Rightarrow> u16 \<Rightarrow> mboot_param list \<Rightarrow> mboot_framebuffer \<Rightarrow> 'z vesa_scheme \<Rightarrow> 'z vesa_scheme option"
where
  "initialise_vesa cs version params mboot s = do {
     res \<leftarrow> params_find_by_key params ''res'';
     case res of
       None \<Rightarrow> Some s
     | Some resolution \<Rightarrow>
         (case find (\<lambda>(n, w, h). strcmp n resolution = 0) resolutions of
            None \<Rightarrow> Some s
          | Some (n, user_w, user_h) \<Rightarrow> do {
              let s = s\<lparr>lfb := ucast (framebuffer_addr mboot), lfb_width := sint (framebuffer_width mboot),
                        lfb_height := sint (framebuffer_height mboot), lfb_bpp := sint (framebuffer_bpp mboot)\<rparr>;
              (go, s) \<leftarrow> (if lfb s = 0 \<or> lfb_width s = 0 \<or> lfb_height s = 0 \<or> lfb_bpp s = 0
                          then do { (r, s) \<leftarrow> init_with_pci version user_w user_h s; Some (r \<noteq> -1, s) }
                          else Some (lfb_width s = user_w \<and> lfb_height s = user_h, s));
              if \<not> go then Some s
              else do {
                s \<leftarrow> map_frame 0xF0000000 (lfb s) (lfb s + 0xFF0000) s;
                let s = s\<lparr>lfb := 0xF0000000\<rparr>;
                ((d, f), s) \<leftarrow> add_device cs ''vesa'' (video_mem_length s) ''vesa_dev_'' (lfb s) s;
                Some (s\<lparr>vesa_device := d, vesa_device_file := f, vesa_status := 1\<rparr>)
              }
            })
   }"

subsection \<open>Loops over words\<close>

lemma of_nat_u32_inj: "of_nat a = (of_nat b :: u32) \<Longrightarrow> a < 2 ^ 32 \<Longrightarrow> b < 2 ^ 32 \<Longrightarrow> a = b"
proof -
  assume h: "of_nat a = (of_nat b :: u32)" "a < 2 ^ 32" "b < 2 ^ 32"
  have "unat (of_nat a :: u32) = a" "unat (of_nat b :: u32) = b" using h(2,3) by (simp_all add: unat_of_nat take_bit_nat_eq_self)
  then show "a = b" using h(1) by metis
qed

lemma word_place_inj: "i < 2 ^ 30 \<Longrightarrow> j < 2 ^ 30 \<Longrightarrow> d + 4 * of_nat i = d + (4 * of_nat j :: u32) \<longleftrightarrow> i = j"
proof
  assume h: "i < 2 ^ 30" "j < 2 ^ 30" "d + 4 * of_nat i = d + (4 * of_nat j :: u32)"
  have "unat (4 * of_nat k :: u32) = 4 * k" if "k < 2 ^ 30" for k
    using that by (simp add: unat_word_ariths unat_of_nat take_bit_nat_eq_self)
  then have "4 * i = 4 * j" using h by (metis add_left_cancel)
  then show "i = j" by simp
qed simp

lemma fill_words:
  fixes d :: u32
  assumes "n \<le> 2 ^ 30" "j < 2 ^ 30"
  shows "fold (\<lambda>i f. f(d + 4 * of_nat i := g i)) [0..<n] f (d + 4 * of_nat j) = (if j < n then g j else f (d + 4 * of_nat j))"
  using assms
proof (induction n)
  case (Suc n)
  have "d + 4 * of_nat j = d + 4 * of_nat n \<longleftrightarrow> j = n" using Suc.prems by (intro word_place_inj) simp_all
  then show ?case using Suc by (cases "j = n") (simp_all add: less_Suc_eq)
qed simp

lemma fill_words_other:
  fixes d :: u32
  shows "(\<And>i. i < n \<Longrightarrow> a \<noteq> d + 4 * of_nat i) \<Longrightarrow> fold (\<lambda>i f. f(d + 4 * of_nat i := g i)) [0..<n] f a = f a"
  by (induction n) auto

text \<open>A copy towards lower addresses does not run into itself.\<close>

lemma move_words:
  fixes d :: u32
  assumes "e + n \<le> 2 ^ 30" "j < 2 ^ 30" "0 < e"
  shows "fold (\<lambda>i f. f(d + 4 * of_nat i := f (d + 4 * of_nat (e + i)))) [0..<n] f (d + 4 * of_nat j) =
    (if j < n then f (d + 4 * of_nat (e + j)) else f (d + 4 * of_nat j))"
  using assms
proof (induction n arbitrary: j)
  case (Suc n)
  define h where "h = fold (\<lambda>i f. f(d + 4 * of_nat i := f (d + 4 * of_nat (e + i)))) [0..<n] f"
  have IH: "h (d + 4 * of_nat k) = (if k < n then f (d + 4 * of_nat (e + k)) else f (d + 4 * of_nat k))" if "k < 2 ^ 30" for k
    unfolding h_def using that Suc.prems by (intro Suc.IH) simp_all
  have step: "fold (\<lambda>i f. f(d + 4 * of_nat i := f (d + 4 * of_nat (e + i)))) [0..<Suc n] f = h(d + 4 * of_nat n := h (d + 4 * of_nat (e + n)))"
    by (simp add: h_def)
  have "d + 4 * of_nat j = d + 4 * of_nat n \<longleftrightarrow> j = n" using Suc.prems by (intro word_place_inj) simp_all
  then show ?case unfolding step using IH[of j] IH[of "e + n"] Suc.prems by (cases "j = n") (simp_all add: less_Suc_eq)
qed simp

text \<open>The words in the memory of the caller do not overlap either.\<close>

lemma store_words:
  assumes "n \<le> 2 ^ 30" "j < n"
  shows "load_u32 (d + 4 * of_nat j) (fold (\<lambda>i m. store_u32 (d + 4 * of_nat i) (g i) m) [0..<n] m) = g j"
  using assms
proof (induction n)
  case (Suc n)
  show ?case
  proof (cases "j = n")
    case True
    then show ?thesis by (simp add: load_store_u32)
  next
    case False
    then have "j < n" using Suc.prems by simp
    have far: "4 \<le> unat (d + 4 * of_nat j + of_nat k - (d + 4 * of_nat n) :: u32)" if "k < 4" for k
    proof (rule ccontr)
      let ?l = "unat (d + 4 * of_nat j + of_nat k - (d + 4 * of_nat n) :: u32)"
      assume "\<not> 4 \<le> ?l"
      moreover have "of_nat (4 * j + k) = (of_nat (4 * n + ?l) :: u32)" by simp
      ultimately show False using \<open>j < n\<close> Suc.prems(1) that of_nat_u32_inj[of "4 * j + k" "4 * n + ?l"] by simp
    qed
    have "load_u32 (d + 4 * of_nat j) (store_u32 (d + 4 * of_nat n) w m') = load_u32 (d + 4 * of_nat j) m'" for w m'
      using far[of 0] far[of 1] far[of 2] far[of 3] by (simp add: load_u32_def store_u32_other)
    then show ?thesis using Suc.IH Suc.prems(1) \<open>j < n\<close> by simp
  qed
qed simp

subsection \<open>The screen as a rectangle of pixels\<close>

text \<open>A mode: the frame buffer is mapped and all of its pixels have addresses of their own.\<close>

definition vesa_mode :: "'z vesa_scheme \<Rightarrow> bool" where
  "vesa_mode s \<longleftrightarrow> lfb s \<noteq> 0 \<and> 0 < lfb_width s \<and> 0 < lfb_height s \<and> lfb_width s * lfb_height s \<le> 2 ^ 30"

definition on_screen :: "int \<Rightarrow> int \<Rightarrow> 'z vesa_scheme \<Rightarrow> bool" where
  "on_screen x y s \<longleftrightarrow> 0 \<le> x \<and> x < lfb_width s \<and> 0 \<le> y \<and> y < lfb_height s"

lemma pixel_place:
  assumes "vesa_mode s" "on_screen x y s"
  shows "pixel_index x y s = of_nat (nat (lfb_width s * y + x))" "nat (lfb_width s * y + x) < 2 ^ 30" "0 \<le> lfb_width s * y + x"
proof -
  have "lfb_width s * y + x < lfb_width s * (y + 1)" using assms(2) by (simp add: on_screen_def algebra_simps)
  also have "\<dots> \<le> lfb_width s * lfb_height s" using assms by (intro mult_left_mono) (auto simp: on_screen_def vesa_mode_def)
  finally have lt: "lfb_width s * y + x < 2 ^ 30" using assms(1) by (simp add: vesa_mode_def)
  show ge: "0 \<le> lfb_width s * y + x" using assms by (simp add: on_screen_def vesa_mode_def)
  show "nat (lfb_width s * y + x) < 2 ^ 30" using lt by (simp add: nat_less_iff)
  show "pixel_index x y s = of_nat (nat (lfb_width s * y + x))" using ge by (simp add: pixel_index_def of_nat_nat)
qed

lemma row_unique: "0 \<le> x \<Longrightarrow> x < w \<Longrightarrow> 0 \<le> x' \<Longrightarrow> x' < w \<Longrightarrow> w * y + x = w * y' + x' \<Longrightarrow> x = x' \<and> y = y'" for w :: int
proof -
  assume h: "0 \<le> x" "x < w" "0 \<le> x'" "x' < w" "w * y + x = w * y' + x'"
  have "x = (w * y + x) mod w" using h(1,2) by simp
  also have "\<dots> = x'" using h(3,4,5) by simp
  finally show ?thesis using h by simp
qed

lemma draw_get_pixel:
  assumes m: "vesa_mode s" and p: "on_screen x y s" "on_screen x' y' s"
  shows "vesa_get_pixel_at x' y' (snd (vesa_draw_pixel x y px s)) = (if x' = x \<and> y' = y then px else vesa_get_pixel_at x' y' s)"
proof -
  note a = pixel_place[OF m p(1)] and b = pixel_place[OF m p(2)]
  have "lfb s + 4 * pixel_index x' y' s = lfb s + 4 * pixel_index x y s \<longleftrightarrow> x' = x \<and> y' = y"
  proof
    assume "lfb s + 4 * pixel_index x' y' s = lfb s + 4 * pixel_index x y s"
    then have "nat (lfb_width s * y' + x') = nat (lfb_width s * y + x)" using word_place_inj[OF b(2) a(2), of "lfb s"] a(1) b(1) by simp
    then have "lfb_width s * y' + x' = lfb_width s * y + x" using a(3) b(3) by linarith
    then show "x' = x \<and> y' = y" using p row_unique[of x' "lfb_width s" x y' y] by (auto simp: on_screen_def)
  qed simp
  then show ?thesis using m by (auto simp: vesa_draw_pixel_def vesa_get_pixel_at_def vesa_mode_def pixel_index_def)
qed

lemma mode_length:
  assumes "vesa_mode s"
  shows "unat (video_mem_length s) = nat (lfb_width s * lfb_height s)" "0 < nat (lfb_width s * lfb_height s)"
proof -
  define n where "n = nat (lfb_width s * lfb_height s)"
  have "0 < lfb_width s * lfb_height s" "lfb_width s * lfb_height s \<le> 2 ^ 30" using assms by (simp_all add: vesa_mode_def)
  then have n: "lfb_width s * lfb_height s = int n" "0 < n" "n < 2 ^ 32" by (simp_all add: n_def nat_less_iff)
  have "unat (video_mem_length s) = n" using n(3) unfolding video_mem_length_def n(1) by (simp add: unat_of_nat take_bit_nat_eq_self)
  then show "unat (video_mem_length s) = nat (lfb_width s * lfb_height s)" "0 < nat (lfb_width s * lfb_height s)" using n(1,2) by simp_all
qed

subsection \<open>Transfers\<close>

text \<open>A transfer is clipped at the end of the screen.\<close>

definition clip :: "u32 \<Rightarrow> u32 \<Rightarrow> 'z vesa_scheme \<Rightarrow> nat" where
  "clip start_at sz s = min (unat sz) (unat (video_mem_length s) - unat start_at)"

lemma clip_length:
  assumes m: "vesa_mode s" and r: "unat start_at < unat (video_mem_length s)" "unat start_at + unat sz < 2 ^ 32"
  shows "\<not> start_at > video_mem_length s - 1" "unat (if start_at + sz > video_mem_length s then video_mem_length s - start_at else sz) = clip start_at sz s"
    "clip start_at sz s \<le> 2 ^ 30" "sint (if start_at + sz > video_mem_length s then video_mem_length s - start_at else sz) = int (clip start_at sz s)"
proof -
  let ?n = "if start_at + sz > video_mem_length s then video_mem_length s - start_at else sz"
  have L: "unat (video_mem_length s) \<le> 2 ^ 30" "0 < unat (video_mem_length s)" using mode_length[OF m] m by (auto simp: vesa_mode_def nat_le_iff)
  have "unat (video_mem_length s - 1) = unat (video_mem_length s) - 1" using L(2) by (subst unat_minus_one) auto
  then show "\<not> start_at > video_mem_length s - 1" using r(1) by (simp add: word_less_nat_alt)
  have "unat (start_at + sz) = unat start_at + unat sz" using r(2) by (simp add: unat_word_ariths)
  moreover have "unat (video_mem_length s - start_at) = unat (video_mem_length s) - unat start_at" using r(1) by (intro unat_sub) (simp add: word_le_nat_alt)
  ultimately show n: "unat ?n = clip start_at sz s" by (auto simp: clip_def word_less_nat_alt)
  show c: "clip start_at sz s \<le> 2 ^ 30" using L(1) by (simp add: clip_def)
  show "sint ?n = int (clip start_at sz s)" using sint_small[of ?n] n c by (simp only: n) simp
qed

lemma vesa_write_read:
  assumes m: "vesa_mode s" and r: "unat start_at < unat (video_mem_length s)" "unat start_at + unat sz < 2 ^ 32"
  shows "\<exists>s1 s2. vesa_dev_write dev start_at sz buf s = (int (clip start_at sz s), s1) \<and>
    vesa_dev_read dev start_at sz buf2 s1 = (int (clip start_at sz s), s2) \<and>
    (\<forall>i<clip start_at sz s. load_u32 (buf2 + 4 * of_nat i) (kh_bytes s2) = load_u32 (buf + 4 * of_nat i) (kh_bytes s))"
proof -
  let ?n = "clip start_at sz s" and ?d = "lfb s + 4 * start_at"
  note c = clip_length[OF m r]
  define s1 where "s1 = s\<lparr>frame := memcpy_32_in ?d buf (if start_at + sz > video_mem_length s then video_mem_length s - start_at else sz) (kh_bytes s) (frame s)\<rparr>"
  have w: "vesa_dev_write dev start_at sz buf s = (int ?n, s1)" unfolding vesa_dev_write_def Let_def c(4) s1_def using c(1) by (simp only: if_False)
  have f: "frame s1 (?d + 4 * of_nat i) = load_u32 (buf + 4 * of_nat i) (kh_bytes s)" if "i < ?n" for i
    unfolding s1_def memcpy_32_in_def c(2)
    using fill_words[OF c(3), of i ?d "\<lambda>i. load_u32 (buf + 4 * of_nat i) (kh_bytes s)" "frame s"] that c(3) by simp
  have len: "video_mem_length s1 = video_mem_length s" "lfb s1 = lfb s" "kh_bytes s1 = kh_bytes s" by (simp_all add: s1_def video_mem_length_def)
  define s2 where "s2 = s1\<lparr>kh_bytes := memcpy_32_out buf2 ?d (if start_at + sz > video_mem_length s then video_mem_length s - start_at else sz) (frame s1) (kh_bytes s)\<rparr>"
  have rd: "vesa_dev_read dev start_at sz buf2 s1 = (int ?n, s2)" unfolding vesa_dev_read_def Let_def len c(4) s2_def using c(1) by (simp only: if_False)
  have "load_u32 (buf2 + 4 * of_nat i) (kh_bytes s2) = load_u32 (buf + 4 * of_nat i) (kh_bytes s)" if "i < ?n" for i
    unfolding s2_def memcpy_32_out_def c(2) using store_words[OF c(3) that, of buf2 "\<lambda>i. frame s1 (?d + 4 * of_nat i)" "kh_bytes s"] f[OF that] by simp
  then show ?thesis using w rd by blast
qed

text \<open>Moving data up the screen, as the terminal does to scroll.\<close>

lemma vesa_move_up:
  assumes "0 < e" "e + n \<le> 2 ^ 30" "j < 2 ^ 30"
  shows "frame (vesa_move_data to (to + of_nat e) (of_nat n) s) (lfb s + 4 * (to + of_nat j)) =
    (if j < n then frame s (lfb s + 4 * (to + of_nat (e + j))) else frame s (lfb s + 4 * (to + of_nat j)))"
proof -
  have n: "unat (of_nat n :: u32) = n" using assms(2) by (simp add: unat_of_nat take_bit_nat_eq_self)
  show ?thesis using move_words[OF assms(2,3,1), of "lfb s + 4 * to" "frame s"]
    by (simp add: vesa_move_data_def memcpy_32_def n algebra_simps)
qed

subsection \<open>The display on the bus\<close>

text \<open>The writes that set a mode, on controllers of the known versions.\<close>

definition mode_ports :: "u16 \<Rightarrow> int \<Rightarrow> int \<Rightarrow> (u16 \<times> u16) list" where
  "mode_ports version w h = (VESA_INDEX_PORT, VESA_INDEX_ID) #
     (if VESA_BOCHS_VER_OLDEST \<le> version \<and> version \<le> VESA_BOCHS_VER_NEWEST
      then [(VESA_DATA_PORT, VESA_BOCHS_VER_NEWEST), (VESA_INDEX_PORT, VESA_INDEX_ENABLE), (VESA_DATA_PORT, 0),
        (VESA_INDEX_PORT, VESA_INDEX_XRES), (VESA_DATA_PORT, word_of_int w), (VESA_INDEX_PORT, VESA_INDEX_YRES), (VESA_DATA_PORT, word_of_int h),
        (VESA_INDEX_PORT, VESA_INDEX_BPP), (VESA_DATA_PORT, 32), (VESA_INDEX_PORT, VESA_INDEX_ENABLE), (VESA_DATA_PORT, 0x41)]
      else [])"

lemma init_with_pci_ok:
  assumes p: "pci_get_device VESA_PCI_VENDOR_ID VESA_PCI_DEVICE_ID s = Some p" "p \<noteq> 0" and d: "describes cfg 0 d p s"
    and h: "standard_header (ucast (pci_read cfg 0 (of_nat d) 0 PCI_HEADER_TYPE))"
  shows "\<exists>s'. init_with_pci version w h s = Some (0, s') \<and> lfb s' = pci_read_long cfg 0 (of_nat d) PCI_BAR0 AND 0xFFFFFFF0 \<and>
    lfb_width s' = w \<and> lfb_height s' = h \<and> vesa_pci_device s' = p \<and> vesa_ports s' = vesa_ports s @ mode_ports version w h"
proof -
  obtain dv where dv: "pci_devs s p = Some dv" "pci_hdrs s (additional_info dv) = Some (pci_std_hdr cfg 0 (of_nat d))"
    using d h by (auto simp: describes_def)
  then show ?thesis using p
    by (simp add: init_with_pci_def write_port_16_def Let_def mode_ports_def) (simp add: pci_std_hdr_def)
qed

lemma display_on_bus:
  assumes "(ucast (pci_read cfg 0 0 0 PCI_HEADER_TYPE) :: u8) AND PCI_MULTI_FUNC = 0"
    "heap_budget (32 * pci_cost) s" "pci_wf (s\<lparr>pci_devices := []\<rparr>)"
    "find (has_ids cfg 0 VESA_PCI_VENDOR_ID VESA_PCI_DEVICE_ID) [0..<32] = Some d"
    "standard_header (ucast (pci_read cfg 0 (of_nat d) 0 PCI_HEADER_TYPE))"
  shows "\<exists>s1 s2. pci_initialise tb cfg s = Some s1 \<and> init_with_pci version w h s1 = Some (0, s2) \<and>
    lfb s2 = pci_read_long cfg 0 (of_nat d) PCI_BAR0 AND 0xFFFFFFF0 \<and> lfb_width s2 = w \<and> lfb_height s2 = h \<and>
    vesa_ports s2 = vesa_ports s1 @ mode_ports version w h"
proof -
  obtain s1 p where s1: "pci_initialise tb cfg s = Some s1" "p \<noteq> 0" "pci_get_device VESA_PCI_VENDOR_ID VESA_PCI_DEVICE_ID s1 = Some p" "describes cfg 0 d p s1"
    using pci_device_of_ids[OF assms(1-3), of tb VESA_PCI_VENDOR_ID VESA_PCI_DEVICE_ID] assms(4) by auto
  then show ?thesis using init_with_pci_ok[OF s1(3,2,4) assms(5), of version w h] by blast
qed

end
