(* ===== verification/Serial.thy ===== *)
theory Serial
  imports Vesa
begin

text \<open>
  The serial line, \<open>drivers/devices/serial/serial.c\<close>, and the log, \<open>kernel/util/logging.c\<close>, which writes to it. The values that reads
  of ports return are the argument \<open>inp\<close>: the value of the \<open>n\<close>-th read of a port. Waiting for the line to be ready is a loop over reads.
\<close>

subsection \<open>State\<close>

definition SERIAL_PORT :: u16 where "SERIAL_PORT = 0x3F8"

record serial = vesa +
  serial_device :: ptr
  serial_device_file :: ptr
  serial_status :: int
  serial_initialised :: bool
  port_reads :: nat
  serial_dev_file :: ptr
  ser_dev_ready :: bool

type_synonym port_input = "nat \<Rightarrow> u16 \<Rightarrow> u8"

definition read_port_8 :: "port_input \<Rightarrow> u16 \<Rightarrow> 'z serial_scheme \<Rightarrow> u8 \<times> 'z serial_scheme" where
  "read_port_8 inp port s = (inp (port_reads s) port, s\<lparr>port_reads := port_reads s + 1\<rparr>)"

subsection \<open>Single characters\<close>

definition serial_setup :: "(u16 \<times> u8) list" where
  "serial_setup = [(SERIAL_PORT + 3, 0x80), (SERIAL_PORT + 0, 0x01), (SERIAL_PORT + 1, 0x00), (SERIAL_PORT + 3, 0x03),
     (SERIAL_PORT + 2, 0xC7), (SERIAL_PORT + 4, 0x0B)]"

definition serial_init :: "'z serial_scheme \<Rightarrow> 'z serial_scheme" where
  "serial_init s = (fold (\<lambda>(p, v). write_port_8 p v) serial_setup s)\<lparr>serial_initialised := True\<rparr>"

partial_function (option) wait_line :: "port_input \<Rightarrow> u8 \<Rightarrow> 'z serial_scheme \<Rightarrow> 'z serial_scheme option" where
  "wait_line inp flag s = do {
     (v, s) \<leftarrow> Some (read_port_8 inp (SERIAL_PORT + 5) s);
     if v AND flag = 0 then wait_line inp flag s else Some s
   }"

definition check_if_ready :: "port_input \<Rightarrow> 'z serial_scheme \<Rightarrow> (u8 \<times> 'z serial_scheme) option" where
  "check_if_ready inp s = do { s \<leftarrow> wait_line inp 0x20 s; Some (1, s) }"

definition serial_send :: "port_input \<Rightarrow> u8 \<Rightarrow> 'z serial_scheme \<Rightarrow> 'z serial_scheme option" where
  "serial_send inp character s = do {
     let s = (if \<not> serial_initialised s then serial_init s else s);
     (r, s) \<leftarrow> check_if_ready inp s;
     Some (if r = 1 then write_port_8 SERIAL_PORT character s else s)
   }"

definition serial_got_something :: "port_input \<Rightarrow> 'z serial_scheme \<Rightarrow> (u8 \<times> 'z serial_scheme) option" where
  "serial_got_something inp s = do { s \<leftarrow> wait_line inp 1 s; Some (1, s) }"

definition serial_receive :: "port_input \<Rightarrow> 'z serial_scheme \<Rightarrow> (u8 \<times> 'z serial_scheme) option" where
  "serial_receive inp s = do {
     (r, s) \<leftarrow> serial_got_something inp s;
     Some (if r = 1 then read_port_8 inp SERIAL_PORT s else (0, s))
   }"

subsection \<open>The device\<close>

definition initialise_serial :: "'z serial_scheme calls \<Rightarrow> 'z serial_scheme \<Rightarrow> 'z serial_scheme option" where
  "initialise_serial cs s = do {
     ((d, f), s) \<leftarrow> add_device cs ''ser'' 0 ''serial_dev_'' 0 s;
     Some (s\<lparr>serial_device := d, serial_device_file := f, serial_status := 1\<rparr>)
   }"

definition serial_dev_open :: "ptr \<Rightarrow> 'z serial_scheme \<Rightarrow> int \<times> 'z serial_scheme" where
  "serial_dev_open device s = (0, s)"

definition serial_dev_close :: "ptr \<Rightarrow> 'z serial_scheme \<Rightarrow> int \<times> 'z serial_scheme" where
  "serial_dev_close device s = (0, s)"

fun receive_bytes :: "port_input \<Rightarrow> ptr \<Rightarrow> nat list \<Rightarrow> 'z serial_scheme \<Rightarrow> 'z serial_scheme option" where
  "receive_bytes inp buffer [] s = Some s"
| "receive_bytes inp buffer (i # is) s = do {
     (c, s) \<leftarrow> serial_receive inp s;
     receive_bytes inp buffer is (s\<lparr>kh_bytes := (kh_bytes s)(buffer + of_nat i := c)\<rparr>)
   }"

definition serial_dev_read :: "port_input \<Rightarrow> ptr \<Rightarrow> u32 \<Rightarrow> u32 \<Rightarrow> ptr \<Rightarrow> 'z serial_scheme \<Rightarrow> (int \<times> 'z serial_scheme) option" where
  "serial_dev_read inp device start_at sz buffer s = do { s \<leftarrow> receive_bytes inp buffer [0..<nat (sint sz)] s; Some (sint sz, s) }"

fun send_bytes :: "port_input \<Rightarrow> u8 list \<Rightarrow> 'z serial_scheme \<Rightarrow> 'z serial_scheme option" where
  "send_bytes inp [] s = Some s"
| "send_bytes inp (c # cs) s = do { s \<leftarrow> serial_send inp c s; send_bytes inp cs s }"

definition serial_dev_write :: "port_input \<Rightarrow> ptr \<Rightarrow> u32 \<Rightarrow> u32 \<Rightarrow> ptr \<Rightarrow> 'z serial_scheme \<Rightarrow> (int \<times> 'z serial_scheme) option" where
  "serial_dev_write inp device start_at sz buffer s = do {
     s \<leftarrow> send_bytes inp (map (\<lambda>i. kh_bytes s (buffer + of_nat i)) [0..<nat (sint sz)]) s;
     Some (sint sz, s)
   }"

definition serial_dev_control :: "ptr \<Rightarrow> u32 \<Rightarrow> ptr \<Rightarrow> 'z serial_scheme \<Rightarrow> (int \<times> 'z serial_scheme) option" where
  "serial_dev_control device command arguments s = Some (0, s)"

definition serial_dev_status :: "ptr \<Rightarrow> 'z serial_scheme \<Rightarrow> u32" where
  "serial_dev_status device s = (if device = serial_device s then word_of_int (serial_status s) else 0xFFFFFFFF)"

definition serial_drivers :: "port_input \<Rightarrow> 'z serial_scheme drivers \<Rightarrow> 'z serial_scheme drivers" where
  "serial_drivers inp other =
     \<lparr>drv_node = (\<lambda>f d s. if f = ''serial_dev_open'' then Some (serial_dev_open d s)
                          else if f = ''serial_dev_close'' then Some (serial_dev_close d s) else drv_node other f d s),
      drv_io = (\<lambda>f d a z b s. if f = ''serial_dev_read'' then serial_dev_read inp d a z b s
                              else if f = ''serial_dev_write'' then serial_dev_write inp d a z b s else drv_io other f d a z b s),
      drv_control = (\<lambda>f d c a s. if f = ''serial_dev_control'' then serial_dev_control d c a s else drv_control other f d c a s),
      drv_status = (\<lambda>f d s. if f = ''serial_dev_status'' then Some (serial_dev_status d s, s) else drv_status other f d s)\<rparr>"

subsection \<open>The log\<close>

text \<open>
  One character: to the device once it is there, before that straight to the line. \<open>log_once\<close> is \<open>logchar\<close> for a character that is not
  a newline; after a newline, \<open>logchar\<close> calls itself with a carriage return.
\<close>

definition log_once :: "'z serial_scheme calls \<Rightarrow> port_input \<Rightarrow> ptr \<Rightarrow> char \<Rightarrow> 'z serial_scheme \<Rightarrow> 'z serial_scheme option" where
  "log_once cs inp slot c s = do {
     s \<leftarrow> (if serial_dev_file s = 0 \<and> vfs_is_ready s \<and> devfs_is_ready s
           then do {
             (p, s) \<leftarrow> vfs_find_node cs (Some ''/dev/ser'') s;
             Some (s\<lparr>serial_dev_file := p, ser_dev_ready := if p \<noteq> 0 then True else ser_dev_ready s\<rparr>)
           }
           else Some s);
     if ser_dev_ready s
     then do {
       let s = set_byte_at slot (of_char c) s;
       nd \<leftarrow> vnodes s (serial_dev_file s);
       (case node_write nd of
          NULL_fn \<Rightarrow> None
        | Sym f \<Rightarrow> do { (r, s) \<leftarrow> call_io cs f (serial_dev_file s) 0 1 slot s; Some s })
     }
     else serial_send inp (of_char c) s
   }"

definition log_char :: "'z serial_scheme calls \<Rightarrow> port_input \<Rightarrow> ptr \<Rightarrow> char \<Rightarrow> 'z serial_scheme \<Rightarrow> 'z serial_scheme option" where
  "log_char cs inp slot c s = do {
     s \<leftarrow> log_once cs inp slot c s;
     if c = CHR 0x0A then log_once cs inp slot (CHR 0x0D) s else Some s
   }"

fun log_string :: "'z serial_scheme calls \<Rightarrow> port_input \<Rightarrow> ptr \<Rightarrow> string \<Rightarrow> 'z serial_scheme \<Rightarrow> 'z serial_scheme option" where
  "log_string cs inp slot [] s = Some s"
| "log_string cs inp slot (c # str) s = do {
     s \<leftarrow> log_char cs inp slot c s;
     s \<leftarrow> (if c = CHR 0x0A then log_char cs inp slot (CHR 0x0D) s else Some s);
     log_string cs inp slot str s
   }"

subsection \<open>What is sent\<close>

text \<open>The line becomes ready again and again.\<close>

definition line_ready :: "port_input \<Rightarrow> u8 \<Rightarrow> bool" where
  "line_ready inp flag \<longleftrightarrow> (\<forall>n. \<exists>k\<ge>n. inp k (SERIAL_PORT + 5) AND flag \<noteq> 0)"

lemma wait_line_ok:
  assumes "inp k (SERIAL_PORT + 5) AND flag \<noteq> 0" "port_reads s \<le> k"
  shows "\<exists>n. wait_line inp flag s = Some (s\<lparr>port_reads := n\<rparr>)"
  using assms(2)
proof (induction "k - port_reads s" arbitrary: s rule: less_induct)
  case less
  let ?s = "s\<lparr>port_reads := port_reads s + 1\<rparr>"
  show ?case
  proof (cases "inp (port_reads s) (SERIAL_PORT + 5) AND flag = 0")
    case True
    then have "port_reads s < k" using assms(1) less.prems by (metis le_neq_implies_less)
    then obtain n where "wait_line inp flag ?s = Some (?s\<lparr>port_reads := n\<rparr>)" using less.hyps[of ?s] by fastforce
    then show ?thesis using True by (subst wait_line.simps) (auto simp: read_port_8_def)
  next
    case False
    then show ?thesis by (subst wait_line.simps) (auto simp: read_port_8_def)
  qed
qed

lemma port_writes: "fold (\<lambda>(p, v). write_port_8 p v) ws s = s\<lparr>port_log := port_log s @ ws\<rparr>" for s :: "'z serial_scheme"
  by (induction ws arbitrary: s) (auto simp: write_port_8_def)

lemma serial_send_ok:
  assumes "line_ready inp 0x20"
  shows "\<exists>n. serial_send inp c s = Some (s\<lparr>port_log := port_log s @ (if serial_initialised s then [] else serial_setup) @ [(SERIAL_PORT, c)],
    serial_initialised := True, port_reads := n\<rparr>)"
proof -
  let ?s = "if \<not> serial_initialised s then serial_init s else s"
  obtain k where "inp k (SERIAL_PORT + 5) AND 0x20 \<noteq> 0" "port_reads ?s \<le> k" using assms unfolding line_ready_def by blast
  then obtain n where "wait_line inp 0x20 ?s = Some (?s\<lparr>port_reads := n\<rparr>)" using wait_line_ok by blast
  then have "serial_send inp c s = Some (write_port_8 SERIAL_PORT c (?s\<lparr>port_reads := n\<rparr>))" by (simp add: serial_send_def check_if_ready_def Let_def)
  also have "write_port_8 SERIAL_PORT c (?s\<lparr>port_reads := n\<rparr>) =
      s\<lparr>port_log := port_log s @ (if serial_initialised s then [] else serial_setup) @ [(SERIAL_PORT, c)], serial_initialised := True, port_reads := n\<rparr>"
    by (cases s) (simp add: write_port_8_def serial_init_def port_writes)
  finally show ?thesis by blast
qed

lemma send_bytes_ok:
  assumes "line_ready inp 0x20" "serial_initialised s"
  shows "\<exists>n. send_bytes inp cs s = Some (s\<lparr>port_log := port_log s @ map (Pair SERIAL_PORT) cs, port_reads := n\<rparr>)"
  using assms(2)
proof (induction cs arbitrary: s)
  case Nil
  then show ?case by (auto intro: exI[of _ "port_reads s"])
next
  case (Cons c cs)
  obtain n where n: "serial_send inp c s = Some (s\<lparr>port_log := port_log s @ [(SERIAL_PORT, c)], serial_initialised := True, port_reads := n\<rparr>)"
    using serial_send_ok[OF assms(1), of c s] Cons.prems by auto
  let ?s = "s\<lparr>port_log := port_log s @ [(SERIAL_PORT, c)], serial_initialised := True, port_reads := n\<rparr>"
  have same: "s\<lparr>serial_initialised := True\<rparr> = s" using Cons.prems by simp
  obtain k where "send_bytes inp cs ?s = Some (?s\<lparr>port_log := port_log ?s @ map (Pair SERIAL_PORT) cs, port_reads := k\<rparr>)"
    using Cons.IH[of ?s] by auto
  then show ?case using n same by auto
qed

lemma serial_write_ok:
  assumes "line_ready inp 0x20" "serial_initialised s" "0 \<le> sint sz"
  shows "\<exists>n. serial_dev_write inp device start_at sz buffer s = Some (sint sz,
    s\<lparr>port_log := port_log s @ map (\<lambda>i. (SERIAL_PORT, kh_bytes s (buffer + of_nat i))) [0..<nat (sint sz)], port_reads := n\<rparr>)"
  using send_bytes_ok[OF assms(1,2), of "map (\<lambda>i. kh_bytes s (buffer + of_nat i)) [0..<nat (sint sz)]"]
  by (auto simp: serial_dev_write_def comp_def)

text \<open>Before the device is there, the log sends every newline with two carriage returns: \<open>log\<close> and \<open>logchar\<close> both add one.\<close>

definition log_bytes :: "char \<Rightarrow> u8 list" where
  "log_bytes c = (if c = CHR 0x0A then [0x0A, 0x0D, 0x0D] else [of_char c])"

definition early :: "'z serial_scheme \<Rightarrow> bool" where
  "early s \<longleftrightarrow> serial_initialised s \<and> \<not> vfs_is_ready s \<and> \<not> ser_dev_ready s"

lemma send_early:
  assumes "line_ready inp 0x20" "early s"
  obtains s' where "send_bytes inp cs s = Some s'" "early s'"
  using send_bytes_ok[OF assms(1), of s cs] assms(2) that by (auto simp: early_def vfs_is_ready_def)

lemma send_bytes_append: "send_bytes inp (as @ bs) s = do { s \<leftarrow> send_bytes inp as s; send_bytes inp bs s }"
  by (induction as arbitrary: s) (auto split: bind_split)

lemma send_bytes_Nil: "send_bytes inp [] = Some"
  by (rule ext) simp

lemma log_once_early: "early s \<Longrightarrow> log_once cs inp slot c s = send_bytes inp [of_char c] s"
  by (simp add: log_once_def early_def send_bytes_Nil)

lemma log_char_early:
  assumes "line_ready inp 0x20" "early s"
  shows "log_char cs inp slot c s = send_bytes inp (if c = CHR 0x0A then [0x0A, 0x0D] else [of_char c]) s"
proof -
  obtain s' where s': "send_bytes inp [of_char c] s = Some s'" "early s'" by (rule send_early[OF assms])
  have "send_bytes inp [0x0A, 0x0D] s = do { s \<leftarrow> send_bytes inp [0x0A] s; send_bytes inp [0x0D] s }" using send_bytes_append[of inp "[0x0A]" "[0x0D]" s] by simp
  then show ?thesis using s' log_once_early[OF assms(2), of cs inp slot c] log_once_early[OF s'(2), of cs inp slot "CHR 0x0D"]
    by (auto simp: log_char_def simp del: send_bytes.simps)
qed

lemma log_string_early:
  assumes "line_ready inp 0x20" "early s"
  shows "log_string cs inp slot str s = send_bytes inp (concat (map log_bytes str)) s"
  using assms(2)
proof (induction str arbitrary: s)
  case (Cons c str)
  let ?b = "if c = CHR 0x0A then [0x0A, 0x0D] else [of_char c]"
  obtain s1 where s1: "send_bytes inp ?b s = Some s1" "early s1" by (rule send_early[OF assms(1) Cons.prems])
  obtain s2 where s2: "send_bytes inp (if c = CHR 0x0A then [0x0D] else []) s1 = Some s2" "early s2" by (rule send_early[OF assms(1) s1(2)])
  have "log_bytes c = ?b @ (if c = CHR 0x0A then [0x0D] else [])" by (simp add: log_bytes_def)
  then have "send_bytes inp (concat (map log_bytes (c # str))) s = send_bytes inp (concat (map log_bytes str)) s2"
    using s1(1) s2(1) by (simp add: send_bytes_append del: send_bytes.simps)
  moreover have "log_string cs inp slot (c # str) s = log_string cs inp slot str s2"
    using s1 s2(1) log_char_early[OF assms(1) Cons.prems, of cs slot c] log_char_early[OF assms(1) s1(2), of cs slot "CHR 0x0D"]
    by (cases "c = CHR 0x0A") (auto simp: send_bytes_Nil simp del: send_bytes.simps(2))
  ultimately show ?case using Cons.IH[OF s2(2)] by simp
qed simp

lemma log_early_sent:
  assumes "line_ready inp 0x20" "early s"
  shows "\<exists>n. log_string cs inp slot str s =
    Some (s\<lparr>port_log := port_log s @ map (Pair SERIAL_PORT) (concat (map log_bytes str)), port_reads := n\<rparr>)"
  using send_bytes_ok[OF assms(1), of s "concat (map log_bytes str)"] assms(2) log_string_early[OF assms] by (simp add: early_def)

end
