(* ===== verification/Sample_Screen.thy ===== *)
theory Sample_Screen
  imports Sample_Drivers Serial
begin

text \<open>
  A machine with a PCI bus, a graphics screen and a serial line, for the properties of their drivers: the console of
  \<open>Sample_Drivers\<close> before the file system is ready, a frame buffer of 640 times 480 pixels, and a line that is always ready.
\<close>

definition sample_screen :: serial where
  "sample_screen =
     vesa.extend
       (pci.extend
         (gtty.extend (sample_console\<lparr>vfs_mountpoint_tree := None, vfs_is_ready_flag := False\<rparr>) (pci.fields (\<lambda>p. None) (\<lambda>p. None) []))
         (vesa.fields 0 0x8000 0xD0000009 1 0xF0000000 640 480 32 (\<lambda>x. 0) []))
       (serial.fields 0 0 0 True 0 0 False)"

text \<open>Configuration space: the host bridge in slot 0 and a display controller in slot 2, nothing elsewhere.\<close>

definition sample_cfg :: "u32 \<Rightarrow> u32" where
  "sample_cfg x = (if x = 0x80000000 then 0x12378086 else if x = 0x8000000C then 0 else if x = 0x80001000 then 0x11111234
     else if x = 0x8000100C then 0 else if x = 0x80001010 then 0xFD000008 else 0xFFFFFFFF)"

text \<open>The same, but the host bridge says that it has several functions.\<close>

definition sample_cfg_multi :: "u32 \<Rightarrow> u32" where
  "sample_cfg_multi = sample_cfg(0x8000000C := 0x00800000)"

definition sample_tables :: pci_tables where
  "sample_tables = \<lparr>PciVenTable = [(0x8086, ''Intel'', ''Intel Corporation'')], PciDevTable = [], PciClassCodeTable = []\<rparr>"

definition sample_line :: port_input where
  "sample_line n port = 0x20"

lemma sample_line_ready: "line_ready sample_line 0x20"
  by (auto simp: line_ready_def sample_line_def)

lemma sample_screen_sel [simp]:
  "lfb sample_screen = 0xF0000000" "lfb_width sample_screen = 640" "lfb_height sample_screen = 480" "pci_devs sample_screen = (\<lambda>p. None)"
  "pci_hdrs sample_screen = (\<lambda>p. None)" "serial_initialised sample_screen" "ser_dev_ready sample_screen = False" "port_reads sample_screen = 0"
  "vfs_is_ready_flag sample_screen = False" "kh_bytes sample_screen x = 0xAA"
  using sample_console_sel(10)[of x]
  by (simp_all add: sample_screen_def gtty.defs pci.defs vesa.defs serial.defs)

lemma sample_screen_mode: "vesa_mode sample_screen"
  by (simp add: vesa_mode_def)

lemma sample_screen_early: "early sample_screen"
  by (simp add: early_def vfs_is_ready_def)

lemma sample_screen_budget: "k \<le> 0x20000000 \<Longrightarrow> heap_budget k sample_screen"
proof -
  have "wf_blocks sample_screen bs = wf_blocks sample_boot bs" for bs
    by (simp add: wf_blocks_def sample_screen_def sample_console_def initrd.defs vga.defs kbd.defs gtty.defs pci.defs vesa.defs)
  then show "k \<le> 0x20000000 \<Longrightarrow> heap_budget k sample_screen" using sample_boot_budget[of k]
    by (simp add: heap_budget_def wf_heap_def)
      (simp add: sample_screen_def sample_console_def initrd.defs vga.defs kbd.defs gtty.defs pci.defs vesa.defs)
qed

lemma sample_screen_pci: "heap_budget (32 * pci_cost) sample_screen" "pci_wf (sample_screen\<lparr>pci_devices := []\<rparr>)"
proof -
  have "pci_cost \<le> 0x4000" by (simp add: pci_cost_def alloc_cost_def heap_total_size_def sizeof_kalloc_def sizeof_pci_dev_def sizeof_pci_hdr_def pages_for_nat)
  then show "heap_budget (32 * pci_cost) sample_screen" by (intro sample_screen_budget) simp
  show "pci_wf (sample_screen\<lparr>pci_devices := []\<rparr>)" by (simp add: pci_wf_def)
qed

lemmas sample_cfg_read = pci_read_def pci_read_base_def pci_make_config_space_def sample_cfg_def PCI_VEN_ID_def PCI_DEV_ID_def PCI_HEADER_TYPE_def
  PCI_MULTI_FUNC_def PCI_FAIL_def

lemma sample_cfg_single: "(ucast (pci_read sample_cfg 0 0 0 PCI_HEADER_TYPE) :: u8) AND PCI_MULTI_FUNC = 0"
  by (simp add: sample_cfg_read)

lemma sample_cfg_display: "find (has_ids sample_cfg 0 0x1234 0x1111) [0..<32] = Some 2"
proof -
  have "[0..<32] = [0, 1, 2] @ [3..<32]" by (simp add: upt_rec)
  then show ?thesis by (simp add: has_ids_def present_def sample_cfg_read)
qed

end
