(* ===== verification/Libc_String.thy ===== *)
theory Libc_String
  imports Byte_Memory "HOL-Library.List_Lexorder" "HOL-Library.Char_ord"
begin

text \<open>
  Strings and memory of the C library, \<^verbatim>\<open>libraries/libc/string.c\<close>, on the bytes of a program's memory. A loop that
  looks for a terminator is a partial function: without one it runs forever and has the value \<open>None\<close>. Characters are
  signed, indices of type \<^verbatim>\<open>size_t\<close> wrap around at 32 bits. The names that the kernel's own string functions have too end in \<open>_libc\<close>.
\<close>

type_synonym mem8 = "ptr \<Rightarrow> u8"

subsection \<open>Memory\<close>

fun memcmp_loop :: "ptr \<Rightarrow> ptr \<Rightarrow> nat \<Rightarrow> mem8 \<Rightarrow> int" where
  "memcmp_loop p1 p2 0 m = 0"
| "memcmp_loop p1 p2 (Suc n) m = (if m p1 \<noteq> m p2 then uint (m p1) - uint (m p2) else memcmp_loop (p1 + 1) (p2 + 1) n m)"

definition memcmp :: "ptr \<Rightarrow> ptr \<Rightarrow> u32 \<Rightarrow> mem8 \<Rightarrow> int" where
  "memcmp s1 s2 n m = memcmp_loop s1 s2 (unat n) m"

definition memcpy :: "ptr \<Rightarrow> ptr \<Rightarrow> u32 \<Rightarrow> mem8 \<Rightarrow> ptr \<times> mem8" where
  "memcpy dst src num m = (dst, fold (\<lambda>i m. m(dst + of_nat i := m (src + of_nat i))) [0..<unat num] m)"

text \<open>Copies towards higher addresses go backwards, word by word when both addresses and the length allow it.\<close>

definition memmove :: "ptr \<Rightarrow> ptr \<Rightarrow> u32 \<Rightarrow> mem8 \<Rightarrow> ptr \<times> mem8" where
  "memmove dst src len m =
     (if dst < src then memcpy dst src len m
      else if dst mod 4 = 0 \<and> src mod 4 = 0 \<and> len mod 4 = 0
      then (dst, fold (\<lambda>i m. store_u32 (dst + 4 * of_nat i) (load_u32 (src + 4 * of_nat i) m) m) (rev [0..<unat (len div 4)]) m)
      else (dst, fold (\<lambda>i m. m(dst + of_nat i := m (src + of_nat i))) (rev [0..<unat len]) m))"

definition memset :: "ptr \<Rightarrow> int \<Rightarrow> u32 \<Rightarrow> mem8 \<Rightarrow> ptr \<times> mem8" where
  "memset p val num m = (p, fold (\<lambda>i m. m(p + of_nat i := word_of_int val)) [0..<unat num] m)"

subsection \<open>Strings\<close>

partial_function (option) strchr_libc :: "ptr \<Rightarrow> u8 \<Rightarrow> mem8 \<Rightarrow> ptr option" where
  "strchr_libc str c m = (if m str = c then Some str else if m str = 0 then Some 0 else strchr_libc (str + 1) c m)"

partial_function (option) strlen_from :: "ptr \<Rightarrow> u32 \<Rightarrow> mem8 \<Rightarrow> u32 option" where
  "strlen_from str i m = (if m (str + i) \<noteq> 0 then strlen_from str (i + 1) m else Some i)"

definition strlen_libc :: "ptr \<Rightarrow> mem8 \<Rightarrow> u32 option" where
  "strlen_libc str m = strlen_from str 0 m"

partial_function (option) strcpy_from :: "ptr \<Rightarrow> ptr \<Rightarrow> u32 \<Rightarrow> mem8 \<Rightarrow> mem8 option" where
  "strcpy_from dst src i m =
     (let c = m (src + i); m = m(dst + i := c) in if c \<noteq> 0 then strcpy_from dst src (i + 1) m else Some m)"

definition strcpy_libc :: "ptr \<Rightarrow> ptr \<Rightarrow> mem8 \<Rightarrow> (ptr \<times> mem8) option" where
  "strcpy_libc dst src m = map_option (Pair dst) (strcpy_from dst src 0 m)"

text \<open>The terminator is not copied.\<close>

fun strncpy_loop :: "ptr \<Rightarrow> ptr \<Rightarrow> u32 \<Rightarrow> nat \<Rightarrow> mem8 \<Rightarrow> mem8" where
  "strncpy_loop dst src i 0 m = m"
| "strncpy_loop dst src i (Suc n) m =
     (if m (src + i) \<noteq> 0 then strncpy_loop dst src (i + 1) n (m(dst + i := m (src + i))) else m)"

definition strncpy_libc :: "ptr \<Rightarrow> ptr \<Rightarrow> u32 \<Rightarrow> mem8 \<Rightarrow> ptr \<times> mem8" where
  "strncpy_libc dst src n m = (dst, strncpy_loop dst src 0 (unat n) m)"

partial_function (option) strcmp_libc :: "ptr \<Rightarrow> ptr \<Rightarrow> mem8 \<Rightarrow> int option" where
  "strcmp_libc str1 str2 m =
     (if m str1 = m str2 then (if m str1 = 0 then Some 0 else strcmp_libc (str1 + 1) (str2 + 1) m)
      else Some (uint (m str1) - uint (m str2)))"

fun strncmp_loop :: "ptr \<Rightarrow> ptr \<Rightarrow> nat \<Rightarrow> mem8 \<Rightarrow> int" where
  "strncmp_loop str1 str2 0 m = 0"
| "strncmp_loop str1 str2 (Suc n) m =
     (if m str1 \<noteq> 0 \<and> m str2 \<noteq> 0
      then if sint (m str1) > sint (m str2) then 1
           else if sint (m str2) > sint (m str1) then -1
           else strncmp_loop (str1 + 1) (str2 + 1) n m
      else 0)"

definition strncmp_libc :: "ptr \<Rightarrow> ptr \<Rightarrow> u32 \<Rightarrow> mem8 \<Rightarrow> int" where
  "strncmp_libc str1 str2 n m = strncmp_loop str1 str2 (unat n) m"

partial_function (option) string_end :: "ptr \<Rightarrow> mem8 \<Rightarrow> ptr option" where
  "string_end p m = (if m p \<noteq> 0 then string_end (p + 1) m else Some p)"

definition strcat_libc :: "ptr \<Rightarrow> ptr \<Rightarrow> mem8 \<Rightarrow> (ptr \<times> mem8) option" where
  "strcat_libc dst src m = do {
     e \<leftarrow> string_end dst m;
     m \<leftarrow> strcpy_from e src 0 m;
     Some (dst, m)
   }"

definition sappend :: "ptr \<Rightarrow> u8 \<Rightarrow> mem8 \<Rightarrow> (ptr \<times> mem8) option" where
  "sappend str c m = do { len \<leftarrow> strlen_libc str m; Some (str, m(str + len := c, str + len + 1 := 0)) }"

text \<open>The second parameter is a length, declared as a pointer.\<close>

function strrev_loop :: "ptr \<Rightarrow> int \<Rightarrow> int \<Rightarrow> mem8 \<Rightarrow> mem8" where
  "strrev_loop s i j m =
     (if i < j
      then strrev_loop s (i + 1) (j - 1) (m(s + word_of_int i := m (s + word_of_int j), s + word_of_int j := m (s + word_of_int i)))
      else m)"
  by auto
termination by (relation "measure (\<lambda>(s, i, j, m). nat (j - i))") auto

declare strrev_loop.simps [simp del]

definition strrev :: "ptr \<Rightarrow> u32 \<Rightarrow> mem8 \<Rightarrow> mem8" where
  "strrev s l m = strrev_loop s 0 (sint (l - 1)) m"

partial_function (option) strcspn_from :: "ptr \<Rightarrow> ptr \<Rightarrow> int \<Rightarrow> mem8 \<Rightarrow> int option" where
  "strcspn_from string1 string2 len m =
     (if m string1 \<noteq> 0
      then do { temp \<leftarrow> strchr_libc string2 (m string1) m; if temp \<noteq> 0 then Some len else strcspn_from (string1 + 1) string2 (len + 1) m }
      else Some len)"

definition strcspn_libc :: "ptr \<Rightarrow> ptr \<Rightarrow> mem8 \<Rightarrow> int option" where
  "strcspn_libc string1 string2 m = strcspn_from string1 string2 0 m"

subsection \<open>Numbers to text\<close>

text \<open>The digits from position \<open>str_i\<close> on, for the remaining shifts; no terminator is written.\<close>

definition hex_byte :: "u32 \<Rightarrow> u8" where
  "hex_byte temp = ucast (if temp \<ge> 0xA then temp - 0xA + 0x41 else temp + 0x30)"

fun sputhex_loop :: "ptr \<Rightarrow> u32 \<Rightarrow> bool \<Rightarrow> nat list \<Rightarrow> u32 \<Rightarrow> mem8 \<Rightarrow> u32 \<times> mem8" where
  "sputhex_loop str str_i no_ze [] uinteg m = (str_i + 2, m(str + (str_i + 1) := hex_byte (uinteg AND 0xF)))"
| "sputhex_loop str str_i no_ze (i # is) uinteg m =
     (let temp = drop_bit i uinteg AND 0xF
      in if temp = 0 \<and> no_ze then sputhex_loop str str_i no_ze is uinteg m
         else sputhex_loop str (str_i + 1) False is uinteg (m(str + (str_i + 1) := hex_byte temp)))"

definition sputhex :: "ptr \<Rightarrow> u32 \<Rightarrow> mem8 \<Rightarrow> u32 \<times> mem8" where
  "sputhex str uinteg m = sputhex_loop str 1 True [28, 24, 20, 16, 12, 8, 4] uinteg (m(str := 0x30, str + 1 := 0x78))"

function sputuint_loop :: "ptr \<Rightarrow> u32 \<Rightarrow> nat \<Rightarrow> nat \<Rightarrow> mem8 \<Rightarrow> u32 \<times> mem8" where
  "sputuint_loop str index num divisor m =
     (if 10 \<le> divisor
      then sputuint_loop str (index + 1) (num mod divisor) (divisor div 10) (m(str + index := of_nat (48 + num div divisor)))
      else (index + 1, m(str + index := of_nat (48 + num), str + (index + 1) := 0)))"
  by auto
termination by (relation "measure (\<lambda>(str, index, num, divisor, m). divisor)") auto

declare sputuint_loop.simps [simp del]

definition sputuint :: "ptr \<Rightarrow> u32 \<Rightarrow> mem8 \<Rightarrow> u32 \<times> mem8" where
  "sputuint str uinteg m = sputuint_loop str 0 (unat uinteg) (skip_divisor (unat uinteg) 1000000000) m"

definition sputint :: "ptr \<Rightarrow> u32 \<Rightarrow> mem8 \<Rightarrow> u32 \<times> mem8" where
  "sputint str num m =
     (if 0 \<le> sint num then sputuint str num m
      else let (written, m) = sputuint (str + 1) (- num) (m(str := 0x2D)) in (written + 1, m))"

subsection \<open>Text to numbers\<close>

definition isdigit :: "u8 \<Rightarrow> bool" where "isdigit c \<longleftrightarrow> 0x30 \<le> c \<and> c \<le> 0x39"
definition isxdigit :: "u8 \<Rightarrow> bool" where "isxdigit c \<longleftrightarrow> isdigit c \<or> 0x61 \<le> c \<and> c \<le> 0x66 \<or> 0x41 \<le> c \<and> c \<le> 0x46"
definition islower :: "u8 \<Rightarrow> bool" where "islower c \<longleftrightarrow> 0x61 \<le> c \<and> c \<le> 0x7A"
definition toupper :: "u8 \<Rightarrow> u8" where "toupper c = (if islower c then c - 0x20 else c)"
definition isspace :: "u8 \<Rightarrow> bool" where "isspace c \<longleftrightarrow> c = 0x20 \<or> c = 0x0A \<or> c = 0x09"

definition digit_value :: "u8 \<Rightarrow> u8" where
  "digit_value c = (if isdigit c then c - 0x30 else toupper c - 0x41 + 10)"

text \<open>The base that a prefix gives when none is asked for, and the position behind the prefix.\<close>

definition number_base :: "ptr \<Rightarrow> u32 \<Rightarrow> mem8 \<Rightarrow> u32 \<times> ptr" where
  "number_base cp base m =
     (if base \<noteq> 0 then (base, cp)
      else if m cp = 0x30 then (if m (cp + 1) = 0x78 \<and> isxdigit (m (cp + 2)) then (16, cp + 2) else (8, cp + 1))
      else (10, cp))"

partial_function (option) strtoul_loop :: "ptr \<Rightarrow> u32 \<Rightarrow> 'a::len word \<Rightarrow> mem8 \<Rightarrow> ('a word \<times> ptr) option" where
  "strtoul_loop cp base result m =
     (if isxdigit (m cp) \<and> ucast (digit_value (m cp)) < base
      then strtoul_loop (cp + 1) base (result * ucast base + ucast (digit_value (m cp))) m
      else Some (result, cp))"

definition strtou :: "ptr \<Rightarrow> ptr \<Rightarrow> u32 \<Rightarrow> mem8 \<Rightarrow> ('a::len word \<times> mem8) option" where
  "strtou cp endp base m = do {
     let (base, cp) = number_base cp base m;
     (result, cp) \<leftarrow> strtoul_loop cp base 0 m;
     Some (result, if endp \<noteq> 0 then store_u32 endp cp m else m)
   }"

definition strtoul :: "ptr \<Rightarrow> ptr \<Rightarrow> u32 \<Rightarrow> mem8 \<Rightarrow> (u32 \<times> mem8) option" where
  "strtoul = strtou"

definition strtol :: "ptr \<Rightarrow> ptr \<Rightarrow> u32 \<Rightarrow> mem8 \<Rightarrow> (u32 \<times> mem8) option" where
  "strtol cp endp base m =
     (if m cp = 0x2D then do { (r, m) \<leftarrow> strtoul (cp + 1) endp base m; Some (- r, m) } else strtoul cp endp base m)"

definition strtoull :: "ptr \<Rightarrow> ptr \<Rightarrow> u32 \<Rightarrow> mem8 \<Rightarrow> (64 word \<times> mem8) option" where
  "strtoull = strtou"

definition strtoll :: "ptr \<Rightarrow> ptr \<Rightarrow> u32 \<Rightarrow> mem8 \<Rightarrow> (64 word \<times> mem8) option" where
  "strtoll cp endp base m =
     (if m cp = 0x2D then do { (r, m) \<leftarrow> strtoull (cp + 1) endp base m; Some (- r, m) } else strtoull cp endp base m)"

subsection \<open>Strings in memory\<close>

fun str_at :: "ptr \<Rightarrow> string \<Rightarrow> mem8 \<Rightarrow> bool" where
  "str_at p [] m \<longleftrightarrow> m p = 0"
| "str_at p (c # cs) m \<longleftrightarrow> c \<noteq> NUL \<and> m p = of_char c \<and> str_at (p + 1) cs m"

text \<open>Memory after a sequence of characters has been written.\<close>

fun put_str :: "ptr \<Rightarrow> string \<Rightarrow> mem8 \<Rightarrow> mem8" where
  "put_str p [] m = m"
| "put_str p (c # cs) m = put_str (p + 1) cs (m(p := of_char c))"

lemma of_char_NUL [simp]: "(of_char c :: u8) = 0 \<longleftrightarrow> c = NUL" "of_char NUL = (0 :: u8)"
proof -
  have n: "of_char NUL = (0 :: u8)" by (simp add: NUL_def)
  then show "of_char NUL = (0 :: u8)" .
  show "(of_char c :: u8) = 0 \<longleftrightarrow> c = NUL" using of_char_inj[of c NUL] n by simp
qed

lemma unat_of_nat_eq_u32: "n < 2 ^ 32 \<Longrightarrow> unat (of_nat n :: u32) = n"
  by (simp add: unat_of_nat take_bit_nat_eq_self)

lemma unat_of_char: "unat (of_char c :: u8) = of_char c"
proof -
  have "of_char (char_of (unat (of_char c :: u8))) = unat (of_char c :: u8)" using unat_u8_less[of "of_char c"] by simp
  then show ?thesis unfolding char_byte(1) by simp
qed

lemma uint_of_char: "uint (of_char c :: u8) = int (of_char c)"
  using arg_cong[OF unat_of_char[of c], of int] by simp

lemma uint_char_pos: "c \<noteq> NUL \<Longrightarrow> 0 < uint (of_char c :: u8)"
  using unsigned_eq_0_iff[of "of_char c :: u8"] uint_ge_0[of "of_char c :: u8"] by (simp add: order_less_le)

lemma str_at_byte: "str_at p cs m \<Longrightarrow> i < length cs \<Longrightarrow> m (p + of_nat i) = of_char (cs ! i) \<and> cs ! i \<noteq> NUL"
proof (induction cs arbitrary: p i)
  case (Cons c cs)
  then show ?case using Cons.IH[of "p + 1" "i - 1"] by (cases i) (auto simp: add.assoc)
qed simp

lemma str_at_end: "str_at p cs m \<Longrightarrow> m (p + of_nat (length cs)) = 0"
proof (induction cs arbitrary: p)
  case (Cons c cs)
  then show ?case using Cons.IH[of "p + 1"] by (simp add: add.assoc)
qed simp

lemma str_at_length: "str_at p cs m \<Longrightarrow> length cs < 2 ^ 32"
proof (rule ccontr)
  assume s: "str_at p cs m" "\<not> length cs < 2 ^ 32"
  let ?n = "length cs"
  have "?n mod 2 ^ 32 < 2 ^ 32" by simp
  then have "?n mod 2 ^ 32 < ?n" using s(2) by (simp only: not_less)
  moreover have "(of_nat (?n mod 2 ^ 32) :: u32) = of_nat ?n" by (rule word_eqI_unat) (simp add: unat_of_nat take_bit_eq_mod)
  ultimately show False using str_at_byte[OF s(1), of "?n mod 2 ^ 32"] str_at_end[OF s(1)] by simp
qed

lemma str_at_cong: "(\<And>i. i \<le> length cs \<Longrightarrow> m' (p + of_nat i) = m (p + of_nat i)) \<Longrightarrow> str_at p cs m' = str_at p cs m"
proof (induction cs arbitrary: p)
  case Nil
  from Nil[of 0] show ?case by simp
next
  case (Cons c cs)
  have "m' p = m p" using Cons.prems[of 0] by simp
  moreover have "str_at (p + 1) cs m' = str_at (p + 1) cs m"
    by (rule Cons.IH) (use Cons.prems[of "Suc i" for i] in \<open>simp add: add.assoc\<close>)
  ultimately show ?case by simp
qed

lemma put_str_apply:
  "length cs \<le> 2 ^ 32 \<Longrightarrow> put_str p cs m x = (if unat (x - p) < length cs then of_char (cs ! unat (x - p)) else m x)"
proof (induction cs arbitrary: p m)
  case (Cons c cs)
  show ?case
  proof (cases "x = p")
    case True
    have "unat (- 1 :: u32) = 2 ^ 32 - 1" by (simp add: unsigned_minus_1_eq_mask mask_eq_exp_minus_1)
    then have "\<not> unat (p - (p + 1)) < length cs" using Cons.prems by simp
    then show ?thesis using True Cons by simp
  next
    case False
    then have "x - p \<noteq> 0" by simp
    then have "unat (x - p) = Suc (unat (x - (p + 1)))" using unat_minus_one[of "x - p"] by (simp add: algebra_simps unat_gt_0)
    then show ?thesis using False Cons by simp
  qed
qed simp

lemma put_str_append: "put_str p (as @ bs) m = put_str (p + of_nat (length as)) bs (put_str p as m)"
  by (induction as arbitrary: p m) (simp_all add: add.assoc)

lemma str_at_bytes:
  "NUL \<notin> set ds \<Longrightarrow> (\<And>i. i \<le> length ds \<Longrightarrow> m (q + of_nat i) = of_char ((ds @ [NUL]) ! i)) \<Longrightarrow> str_at q ds m"
proof (induction ds arbitrary: q)
  case Nil
  from Nil(2)[of 0] show ?case by simp
next
  case (Cons d ds)
  have "m q = of_char d" using Cons.prems(2)[of 0] by simp
  moreover have "str_at (q + 1) ds m"
    by (rule Cons.IH) (use Cons.prems(1) Cons.prems(2)[of "Suc i" for i] in \<open>auto simp: add.assoc\<close>)
  ultimately show ?case using Cons.prems(1) by auto
qed

lemma put_str_at:
  assumes "NUL \<notin> set cs" "length cs < 2 ^ 32" shows "str_at p cs (put_str p (cs @ [NUL]) m)"
proof (rule str_at_bytes[OF assms(1)])
  fix i assume "i \<le> length cs"
  then show "put_str p (cs @ [NUL]) m (p + of_nat i) = of_char ((cs @ [NUL]) ! i)"
    using assms(2) put_str_apply[of "cs @ [NUL]" p m "p + of_nat i"] by (simp add: unat_of_nat take_bit_nat_eq_self)
qed

text \<open>A written area apart from a string leaves it alone.\<close>

definition areas_apart :: "ptr \<Rightarrow> nat \<Rightarrow> ptr \<Rightarrow> nat \<Rightarrow> bool" where
  "areas_apart p a q b \<longleftrightarrow> (\<forall>i<a. \<forall>j<b. p + of_nat i \<noteq> q + of_nat j)"

lemma areas_apart_put: "areas_apart p (length cs) q n \<Longrightarrow> i < n \<Longrightarrow> put_str p cs m (q + of_nat i) = m (q + of_nat i)"
proof (induction cs arbitrary: p m)
  case (Cons c cs)
  have "p \<noteq> q + of_nat i" using Cons.prems(1)[unfolded areas_apart_def, rule_format, of 0 i] Cons.prems(2) by simp
  moreover have "areas_apart (p + 1) (length cs) q n"
    unfolding areas_apart_def
  proof (intro allI impI)
    fix i j assume "i < length cs" "j < n"
    then show "p + 1 + of_nat i \<noteq> q + of_nat j" using Cons.prems(1)[unfolded areas_apart_def, rule_format, of "Suc i" j] by (simp add: add.assoc)
  qed
  ultimately show ?case using Cons by simp
qed simp

lemma str_at_put: "areas_apart p (length cs) q (Suc (length ds)) \<Longrightarrow> str_at q ds (put_str p cs m) = str_at q ds m"
  by (rule str_at_cong) (simp add: areas_apart_put)

subsection \<open>The string functions\<close>

lemma strlen_at: "str_at (p + i) cs m \<Longrightarrow> strlen_from p i m = Some (i + of_nat (length cs))"
proof (induction cs arbitrary: i)
  case Nil
  then show ?case by (subst strlen_from.simps) simp
next
  case (Cons c cs)
  then show ?case by (subst strlen_from.simps) (simp add: add.assoc)
qed

lemma string_end_at: "str_at p cs m \<Longrightarrow> string_end p m = Some (p + of_nat (length cs))"
proof (induction cs arbitrary: p)
  case Nil
  then show ?case by (subst string_end.simps) simp
next
  case (Cons c cs)
  then show ?case by (subst string_end.simps) (simp add: add.assoc)
qed

lemma strlen_libc_at: "str_at p cs m \<Longrightarrow> strlen_libc p m = Some (of_nat (length cs))"
  using strlen_at[of p 0 cs m] by (simp add: strlen_libc_def)

lemma strchr_at:
  "str_at p cs m \<Longrightarrow> c \<noteq> NUL \<Longrightarrow>
    strchr_libc p (of_char c) m = Some (if c \<in> set cs then p + of_nat (length (takeWhile (\<lambda>d. d \<noteq> c) cs)) else 0)"
proof (induction cs arbitrary: p)
  case Nil
  then show ?case by (subst strchr_libc.simps) simp
next
  case (Cons d ds)
  then show ?case by (subst strchr_libc.simps) (auto simp: of_char_inj add.assoc)
qed

lemma strcpy_at:
  "str_at (src + i) cs m \<Longrightarrow> areas_apart (dst + i) (Suc (length cs)) (src + i) (Suc (length cs)) \<Longrightarrow>
    strcpy_from dst src i m = Some (put_str (dst + i) (cs @ [NUL]) m)"
proof (induction cs arbitrary: i m)
  case Nil
  then show ?case by (subst strcpy_from.simps) simp
next
  case (Cons c cs)
  note ap = Cons.prems(2)[unfolded areas_apart_def, rule_format]
  let ?m = "m(dst + i := of_char c)"
  have "str_at (src + (i + 1)) cs ?m = str_at (src + (i + 1)) cs m"
  proof (rule str_at_cong)
    fix j assume "j \<le> length cs"
    then show "?m (src + (i + 1) + of_nat j) = m (src + (i + 1) + of_nat j)" using ap[of 0 "Suc j"] by (simp add: add.assoc)
  qed
  moreover have "areas_apart (dst + (i + 1)) (Suc (length cs)) (src + (i + 1)) (Suc (length cs))"
    unfolding areas_apart_def
  proof (intro allI impI)
    fix j k assume "j < Suc (length cs)" "k < Suc (length cs)"
    then show "dst + (i + 1) + of_nat j \<noteq> src + (i + 1) + of_nat k" using ap[of "Suc j" "Suc k"] by (simp add: add.assoc)
  qed
  ultimately have "strcpy_from dst src (i + 1) ?m = Some (put_str (dst + (i + 1)) (cs @ [NUL]) ?m)"
    using Cons.IH Cons.prems(1) by (simp add: add.assoc)
  then show ?case using Cons.prems(1) by (subst strcpy_from.simps) (simp add: Let_def add.assoc)
qed

lemma strcpy_libc_at:
  "str_at src cs m \<Longrightarrow> areas_apart dst (Suc (length cs)) src (Suc (length cs)) \<Longrightarrow> strcpy_libc dst src m = Some (dst, put_str dst (cs @ [NUL]) m)"
  using strcpy_at[of src 0 cs m dst] by (simp add: strcpy_libc_def)

text \<open>Comparison is the order of strings, with characters as unsigned numbers.\<close>

lemma strcmp_at:
  "str_at p as m \<Longrightarrow> str_at q bs m \<Longrightarrow> \<exists>r. strcmp_libc p q m = Some r \<and> (r = 0 \<longleftrightarrow> as = bs) \<and> (r < 0 \<longleftrightarrow> as < bs)"
proof (induction as arbitrary: p q bs)
  case Nil
  then show ?case by (cases bs) (subst strcmp_libc.simps, auto dest: uint_char_pos)+
next
  case (Cons a as)
  show ?case
  proof (cases bs)
    case Nil
    then show ?thesis using Cons.prems uint_char_pos[of a] by (subst strcmp_libc.simps) auto
  next
    case (Cons b bs')
    show ?thesis
    proof (cases "a = b")
      case True
      then show ?thesis using Cons.IH[of "p + 1" "q + 1" bs'] Cons.prems Cons by (subst strcmp_libc.simps) auto
    next
      case False
      then show ?thesis using Cons.prems Cons by (subst strcmp_libc.simps) (auto simp: of_char_inj less_char_def uint_of_char)
    qed
  qed
qed

lemma strcat_at:
  assumes "str_at d as m" "str_at src bs m" "areas_apart (d + of_nat (length as)) (Suc (length bs)) src (Suc (length bs))"
    "length as + length bs < 2 ^ 32"
  obtains m' where "strcat_libc d src m = Some (d, m')" "str_at d (as @ bs) m'" "m' = put_str (d + of_nat (length as)) (bs @ [NUL]) m"
proof -
  let ?e = "d + of_nat (length as)" and ?m = "put_str (d + of_nat (length as)) (bs @ [NUL]) m"
  have run: "strcat_libc d src m = Some (d, ?m)"
    using string_end_at[OF assms(1)] strcpy_at[of src 0 bs m ?e] assms(2,3) by (simp add: strcat_libc_def)
  have nn: "NUL \<notin> set bs" using str_at_byte[OF assms(2)] by (metis in_set_conv_nth)
  have "str_at p (xs @ bs) ?m" if "p + of_nat (length xs) = ?e" "str_at p xs m" "length xs \<le> length as" for p xs
    using that
  proof (induction xs arbitrary: p)
    case Nil
    then show ?case using put_str_at[OF nn, of ?e m] str_at_length[OF assms(2)] by simp
  next
    case (Cons x xs)
    have "\<not> unat (p - ?e) < Suc (length bs)"
    proof
      let ?j = "unat (p - ?e)"
      assume j: "?j < Suc (length bs)"
      have "p + 0 = p + of_nat (length (x # xs)) + of_nat ?j" using Cons.prems(1) by simp
      then have "p + 0 = p + of_nat (length (x # xs) + ?j)" by (simp only: of_nat_add add.assoc)
      then have "(of_nat (length (x # xs) + ?j) :: u32) = 0" by (simp only: add_left_cancel)
      moreover have "unat (of_nat (length (x # xs) + ?j) :: u32) = length (x # xs) + ?j"
        using j assms(4) Cons.prems(3) by (intro unat_of_nat_eq_u32) simp
      ultimately show False by simp
    qed
    then have "?m p = m p" using put_str_apply[of "bs @ [NUL]" ?e m p] assms(4) Cons.prems(3) by simp
    moreover have "str_at (p + 1) (xs @ bs) ?m" using Cons by (intro Cons.IH) (simp_all add: add.assoc)
    ultimately show ?case using Cons.prems by simp
  qed
  from this[of d as] run assms(1) show ?thesis using that by simp
qed

subsection \<open>Copies that may overlap\<close>

text \<open>Descending order is right when no byte is overwritten before it is read.\<close>

lemma copy_down:
  assumes "n \<le> 2 ^ 32" "\<forall>k<n. \<forall>j<n. k < j \<longrightarrow> src + of_nat k \<noteq> (d + of_nat j :: u32)"
  shows "fold (\<lambda>i m. m(d + of_nat i := m (src + of_nat i))) (rev [0..<n]) (m :: mem8) x = (if unat (x - d) < n then m (src + (x - d)) else m x)"
  using assms
proof (induction n arbitrary: m)
  case (Suc n)
  define step where "step = (\<lambda>i (m :: mem8). m(d + of_nat i := m (src + of_nat i)))"
  let ?m = "m(d + of_nat n := m (src + of_nat n))"
  have stepn: "step n m = ?m" by (simp add: step_def)
  have un: "unat (of_nat n :: u32) = n" using Suc.prems(1) by (simp add: unat_of_nat take_bit_nat_eq_self)
  have IH: "fold (\<lambda>i m. m(d + of_nat i := m (src + of_nat i))) (rev [0..<n]) ?m x = (if unat (x - d) < n then ?m (src + (x - d)) else ?m x)"
    by (rule Suc.IH) (use Suc.prems in auto)
  have run: "fold step (rev [0..<Suc n]) m x = (if unat (x - d) < n then ?m (src + (x - d)) else ?m x)"
    using IH unfolding step_def[symmetric] stepn[symmetric] by simp
  have below: "?m (src + (x - d)) = m (src + (x - d))" if "unat (x - d) < n"
  proof -
    have "x - d = of_nat (unat (x - d))" by simp
    then show ?thesis using that Suc.prems(2) by (metis fun_upd_apply lessI less_Suc_eq)
  qed
  have "fold step (rev [0..<Suc n]) m x = (if unat (x - d) < Suc n then m (src + (x - d)) else m x)"
  proof (cases "x = d + of_nat n")
    case True
    then show ?thesis using run un by simp
  next
    case False
    then have "x - d \<noteq> of_nat n" by (auto simp: algebra_simps)
    then have "unat (x - d) \<noteq> n" using un by (metis word_eqI_unat)
    then show ?thesis using run below False by (simp add: less_Suc_eq)
  qed
  then show ?case unfolding step_def .
qed simp

lemma store_load_u32: "store_u32 d (load_u32 s m) m = m(d := m s, d + 1 := m (s + 1), d + 2 := m (s + 2), d + 3 := m (s + 3))"
proof -
  have "ucast (load_u32 s m) = m s" "ucast (drop_bit 8 (load_u32 s m)) = m (s + 1)" "ucast (drop_bit 16 (load_u32 s m)) = m (s + 2)"
    "ucast (drop_bit 24 (load_u32 s m)) = m (s + 3)"
    by (rule bit_word_eqI, auto simp: load_u32_def bit_simps dest: bit_imp_le_length)+
  then show ?thesis by (simp add: store_u32_def)
qed

lemma copy_words_down:
  assumes "unat src \<le> unat d" "unat d + 4 * n \<le> 2 ^ 32"
  shows "fold (\<lambda>i m. store_u32 (d + 4 * of_nat i) (load_u32 (src + 4 * of_nat i) m) m) (rev [0..<n]) (m :: mem8) x =
    (if unat (x - d) < 4 * n then m (src + (x - d)) else m x)"
  using assms(2)
proof (induction n arbitrary: m)
  case (Suc n)
  define step where "step = (\<lambda>i (m :: mem8). store_u32 (d + 4 * of_nat i) (load_u32 (src + 4 * of_nat i) m) m)"
  let ?a = "d + 4 * of_nat n" and ?b = "src + 4 * of_nat n"
  have IH: "fold step (rev [0..<n]) (step n m) x = (if unat (x - d) < 4 * n then step n m (src + (x - d)) else step n m x)"
    unfolding step_def using Suc.prems by (intro Suc.IH) simp
  have run: "fold step (rev [0..<Suc n]) m x = (if unat (x - d) < 4 * n then step n m (src + (x - d)) else step n m x)"
    using IH by simp
  have top: "step n m y = (if y = ?a then m ?b else if y = ?a + 1 then m (?b + 1) else if y = ?a + 2 then m (?b + 2) else if y = ?a + 3 then m (?b + 3) else m y)" for y
    unfolding step_def store_load_u32 by auto
  have u: "unat (?a + of_nat k) = unat d + 4 * n + k" if "k < 4" for k
    using Suc.prems that by (simp add: unat_word_ariths unat_of_nat take_bit_nat_eq_self)
  have a: "unat ?a = unat d + 4 * n" "unat (?a + 1) = unat d + 4 * n + 1" "unat (?a + 2) = unat d + 4 * n + 2" "unat (?a + 3) = unat d + 4 * n + 3"
    using u[of 0] u[of 1] u[of 2] u[of 3] by simp_all
  have keep: "step n m y = m y" if "unat y < unat d + 4 * n" for y
    using that a by (auto simp: top)
  have low: "step n m (src + (x - d)) = m (src + (x - d))" if k: "unat (x - d) < 4 * n"
  proof -
    have "unat (src + (x - d)) < unat d + 4 * n" using k assms(1) Suc.prems by (simp add: unat_word_ariths)
    then show ?thesis by (rule keep)
  qed
  have d: "4 * n \<le> unat (x - d) \<and> unat (x - d) < 4 * Suc n \<longleftrightarrow> x = ?a \<or> x = ?a + 1 \<or> x = ?a + 2 \<or> x = ?a + 3"
  proof -
    have "unat (x - d) = 4 * n + k \<longleftrightarrow> x = ?a + of_nat k" if "k < 4" for k
    proof -
      have "unat (of_nat (4 * n + k) :: u32) = 4 * n + k" using Suc.prems that by (intro unat_of_nat_eq_u32) simp
      then have "unat (x - d) = 4 * n + k \<longleftrightarrow> x - d = of_nat (4 * n + k)" by (metis word_eqI_unat)
      then show ?thesis by (auto simp: algebra_simps)
    qed
    from this[of 0] this[of 1] this[of 2] this[of 3] show ?thesis by auto
  qed
  have "fold step (rev [0..<Suc n]) m x = (if unat (x - d) < 4 * Suc n then m (src + (x - d)) else m x)"
  proof (cases "unat (x - d) < 4 * n")
    case True
    then show ?thesis using run low by simp
  next
    case False
    have e: "src + (?a + k - d) = ?b + k" "src + (?a - d) = ?b" for k by simp_all
    show ?thesis
    proof (cases "unat (x - d) < 4 * Suc n")
      case True
      then have "x = ?a \<or> x = ?a + 1 \<or> x = ?a + 2 \<or> x = ?a + 3" using d False by linarith
      moreover have "step n m ?a = m ?b" "step n m (?a + 1) = m (?b + 1)" "step n m (?a + 2) = m (?b + 2)" "step n m (?a + 3) = m (?b + 3)"
        by (simp_all add: top)
      ultimately have "step n m x = m (src + (x - d))" using e by metis
      then show ?thesis using run False True by simp
    next
      case no: False
      then have "step n m x = m x" using d False unfolding top by (simp add: not_less)
      then show ?thesis using run False no by simp
    qed
  qed
  then show ?case unfolding step_def .
qed simp

text \<open>
  \<open>memmove\<close> against a copy that reads everything before it writes, whatever the overlap, as long as both areas end within the
  address space.
\<close>

lemma memmove_eq:
  assumes "unat dst + unat len \<le> 2 ^ 32" "unat src + unat len \<le> 2 ^ 32"
  shows "memmove dst src len m = (dst, \<lambda>x. if x - dst < len then m (src + (x - dst)) else m x)"
proof -
  have addr: "unat (p + of_nat i) = unat p + i" if "unat p + unat len \<le> 2 ^ 32" "i < unat len" for p :: ptr and i
    using that unat_u32_less[of len] by (simp add: unat_word_ariths unat_of_nat take_bit_nat_eq_self)
  consider "dst < src" | "\<not> dst < src" "dst mod 4 = 0 \<and> src mod 4 = 0 \<and> len mod 4 = 0" | "\<not> dst < src" "\<not> (dst mod 4 = 0 \<and> src mod 4 = 0 \<and> len mod 4 = 0)"
    by blast
  then show ?thesis
  proof cases
    case 1
    have "\<forall>k<unat len. \<forall>j<k. src + of_nat k \<noteq> dst + of_nat j"
    proof (intro allI impI)
      fix k j assume "k < unat len" "j < k"
      then have "unat (src + of_nat k) = unat src + k" "unat (dst + of_nat j) = unat dst + j" using addr assms by simp_all
      then show "src + of_nat k \<noteq> dst + of_nat j" using 1 \<open>j < k\<close> by (auto simp: word_less_nat_alt)
    qed
    from memcpy_8_forward[OF this, of m] 1 show ?thesis by (simp add: memmove_def memcpy_def memcpy_8_def fun_eq_iff)
  next
    case 2
    have "unat len = 4 * unat (len div 4)"
    proof -
      have "unat (len mod 4) = unat len mod 4" by (simp add: unat_mod)
      then have "unat len mod 4 = 0" using 2(2) by simp
      then show ?thesis by (simp add: unat_div mod_eq_0_iff_dvd)
    qed
    then have len: "4 * unat (len div 4) = unat len" by simp
    have "unat src \<le> unat dst" using 2(1) by (simp add: word_less_nat_alt)
    from copy_words_down[OF this, of "unat (len div 4)" m] assms(1) 2 show ?thesis
      unfolding len by (simp add: memmove_def fun_eq_iff word_less_nat_alt)
  next
    case 3
    have "\<forall>k<unat len. \<forall>j<unat len. k < j \<longrightarrow> src + of_nat k \<noteq> dst + of_nat j"
    proof (intro allI impI)
      fix k j assume "k < unat len" "j < unat len" "k < j"
      then have "unat (src + of_nat k) = unat src + k" "unat (dst + of_nat j) = unat dst + j" using addr assms by simp_all
      then show "src + of_nat k \<noteq> dst + of_nat j" using 3(1) \<open>k < j\<close> by (auto simp: word_less_nat_alt)
    qed
    from copy_down[OF _ this, of m] unat_u32_less[of len]
    have "fold (\<lambda>i m. m(dst + of_nat i := m (src + of_nat i))) (rev [0..<unat len]) m =
      (\<lambda>x. if x - dst < len then m (src + (x - dst)) else m x)" by (simp add: fun_eq_iff word_less_nat_alt)
    then show ?thesis unfolding memmove_def by (simp only: 3 if_False)
  qed
qed

subsection \<open>Numbers\<close>

lemma char_word: "n < 256 \<Longrightarrow> (of_char (char_of n) :: u8) = of_nat n" for n :: nat
proof -
  assume "n < 256"
  then have "(of_nat (of_char (char_of n)) :: u8) = of_nat n" by simp
  then show ?thesis by (simp only: of_nat_of_char)
qed

lemma unat_u8_u32: "unat (ucast b :: u32) = unat b" for b :: u8
  using unat_u8_less[of b] by (simp add: unsigned_ucast_eq take_bit_nat_eq_self)

lemma digit_byte: "d < 10 \<Longrightarrow> (of_char (digit d) :: u8) = of_nat (48 + d)"
  by (simp add: digit_def char_word)

lemma sputuint_loop_eq:
  "num < 10 ^ Suc k \<Longrightarrow> sputuint_loop str index num (10 ^ k) m =
    (index + of_nat (length (uint_digits num (10 ^ k))), put_str (str + index) (uint_digits num (10 ^ k) @ [NUL]) m)"
proof (induction k arbitrary: index num m)
  case 0
  then show ?case using digit_byte[of num] by (simp add: sputuint_loop.simps uint_digits.simps add.assoc del: fun_upd_apply)
next
  case (Suc k)
  have d: "num div 10 ^ Suc k < 10" using Suc.prems by (simp add: less_mult_imp_div_less)
  have m: "num mod 10 ^ Suc k < 10 ^ Suc k" by simp
  have u: "uint_digits num (10 ^ Suc k) = digit (num div 10 ^ Suc k) # uint_digits (num mod 10 ^ Suc k) (10 ^ k)"
    by (subst uint_digits.simps) simp
  have "sputuint_loop str index num (10 ^ Suc k) m =
      sputuint_loop str (index + 1) (num mod 10 ^ Suc k) (10 ^ k) (m(str + index := of_nat (48 + num div 10 ^ Suc k)))"
    by (subst sputuint_loop.simps) simp
  then show ?case unfolding u using Suc.IH[OF m] digit_byte[OF d] by (simp add: add.assoc del: fun_upd_apply)
qed

text \<open>The library prints what the kernel prints.\<close>

lemma sputuint_eq: "sputuint str u m = (of_nat (length (kputuint u)), put_str str (kputuint u @ [NUL]) m)"
proof -
  have "unat u < 10 ^ Suc 9" using unat_u32_less[of u] by simp
  from skip_divisor_pow[OF this] obtain j where j: "skip_divisor (unat u) (10 ^ 9) = 10 ^ j" "unat u < 10 ^ Suc j" by blast
  then show ?thesis using sputuint_loop_eq[OF j(2), of str 0 m] by (simp add: sputuint_def kputuint_def)
qed

lemma sputint_eq: "sputint str n m = (of_nat (length (kputint n)), put_str str (kputint n @ [NUL]) m)"
proof -
  have "of_char (CHR ''-'') = (0x2D :: u8)" by simp
  then show ?thesis by (simp add: sputint_def kputint_def sputuint_eq)
qed

lemma hex_byte_eq: "unat t < 16 \<Longrightarrow> hex_byte t = of_char (hex_digit t)"
proof -
  assume t: "unat t < 16"
  define k where "k = unat t"
  then have k: "t = of_nat k" "k < 16" using t by simp_all
  have "k = 0 \<or> k = 1 \<or> k = 2 \<or> k = 3 \<or> k = 4 \<or> k = 5 \<or> k = 6 \<or> k = 7 \<or> k = 8 \<or> k = 9 \<or> k = 10 \<or> k = 11 \<or> k = 12 \<or>
      k = 13 \<or> k = 14 \<or> k = 15" using k(2) by presburger
  then show ?thesis unfolding k(1) by (elim disjE) (simp_all add: hex_byte_def hex_digit_def char_word word_le_nat_alt)
qed

lemma sputhex_loop_eq:
  "sputhex_loop str i nz ks u m = (i + 1 + of_nat (length (hex_digits u nz ks)), put_str (str + (i + 1)) (hex_digits u nz ks) m)"
proof (induction ks arbitrary: i nz m)
  case Nil
  have "unat (u AND 0xF) < 16" using nibble[of 0 u] by simp
  then show ?case by (simp add: hex_byte_eq del: fun_upd_apply)
next
  case (Cons k ks)
  have "unat (drop_bit k u AND 0xF) < 16" unfolding nibble by simp
  then show ?case using Cons by (simp add: hex_byte_eq Let_def algebra_simps del: fun_upd_apply)
qed

lemma sputhex_eq: "sputhex str u m = (of_nat (length (kputhex u)), put_str str (kputhex u) m)"
proof -
  have "of_char (CHR ''0'') = (0x30 :: u8)" "of_char (CHR ''x'') = (0x78 :: u8)" by simp_all
  then show ?thesis by (simp add: sputhex_def kputhex_def sputhex_loop_eq add.assoc)
qed

lemma dec_digit: "isxdigit c \<and> ucast (digit_value c) < (10 :: u32) \<longleftrightarrow> isdigit c"
proof (cases "isdigit c")
  case True
  then have "unat (c - 0x30) < 10" by (auto simp: isdigit_def word_le_nat_alt unat_sub)
  then show ?thesis using True by (simp add: isxdigit_def digit_value_def word_less_nat_alt unat_u8_u32)
next
  case False
  have "10 \<le> unat (digit_value c)" if "isxdigit c"
  proof (cases "islower c")
    case True
    then have "0x61 \<le> unat c" "unat c \<le> 0x66" using that False by (auto simp: isxdigit_def islower_def word_le_nat_alt)
    then have "unat (c - 87) = unat c - 87" by (simp add: unat_sub word_le_nat_alt)
    then show ?thesis using \<open>0x61 \<le> unat c\<close> True False by (simp add: digit_value_def toupper_def)
  next
    case up: False
    then have "0x41 \<le> unat c" "unat c \<le> 0x46" using that False by (auto simp: isxdigit_def islower_def word_le_nat_alt)
    then show ?thesis using up False by (simp add: digit_value_def toupper_def unat_word_ariths unat_sub word_le_nat_alt)
  qed
  then show ?thesis using False by (auto simp: word_less_nat_alt unat_u8_u32)
qed

definition dec_char :: "char \<Rightarrow> bool" where
  "dec_char c \<longleftrightarrow> 48 \<le> (of_char c :: nat) \<and> (of_char c :: nat) \<le> 57"

lemma dec_char_byte:
  "isdigit (of_char c) \<longleftrightarrow> dec_char c"
  "dec_char c \<Longrightarrow> (ucast (digit_value (of_char c)) :: u32) = of_nat (of_char c - 48)"
proof -
  note u = unat_of_char[of c]
  show d: "isdigit (of_char c) \<longleftrightarrow> dec_char c" by (simp add: isdigit_def dec_char_def word_le_nat_alt u)
  assume c: "dec_char c"
  then have lt: "of_char c - 48 < (2 ^ 32 :: nat)" by (auto simp: dec_char_def)
  from c have "unat (of_char c - 0x30 :: u8) = of_char c - 48" using u by (simp add: dec_char_def unat_sub word_le_nat_alt)
  then have "unat (ucast (of_char c - 0x30 :: u8) :: u32) = unat (of_nat (of_char c - 48) :: u32)"
    using unat_of_nat_eq_u32[OF lt] by (simp only: unat_u8_u32)
  then have "ucast (of_char c - 0x30 :: u8) = (of_nat (of_char c - 48) :: u32)" by (rule word_eqI_unat)
  then show "(ucast (digit_value (of_char c)) :: u32) = of_nat (of_char c - 48)" using c d by (simp add: digit_value_def)
qed

text \<open>Decimal digits up to the first other character.\<close>

lemma strtoul_decimal:
  "str_at p (ds @ rest) m \<Longrightarrow> \<forall>d\<in>set ds. dec_char d \<Longrightarrow> rest = [] \<or> \<not> dec_char (hd rest) \<Longrightarrow>
    strtoul_loop p 10 r m = Some (atoi_digits r ds, p + of_nat (length ds))"
proof (induction ds arbitrary: p r)
  case Nil
  have "\<not> isdigit (m p)"
  proof (cases rest)
    case Nil
    then show ?thesis using \<open>str_at p ([] @ rest) m\<close> by (simp add: isdigit_def)
  next
    case (Cons c cs)
    then show ?thesis using Nil by (simp add: dec_char_byte)
  qed
  then show ?case by (subst strtoul_loop.simps) (simp only: dec_digit, simp)
next
  case (Cons d ds)
  have d: "m p = of_char d" "dec_char d" using Cons.prems by auto
  then have "isdigit (m p)" by (simp add: dec_char_byte)
  then have "strtoul_loop p 10 r m = strtoul_loop (p + 1) 10 (r * 10 + ucast (digit_value (m p))) m"
    by (subst strtoul_loop.simps) (simp only: dec_digit, simp)
  also have "\<dots> = Some (atoi_digits (r * 10 + of_nat (of_char d - 48)) ds, p + 1 + of_nat (length ds))"
    unfolding d(1) dec_char_byte(2)[OF d(2)] using Cons.prems by (intro Cons.IH) auto
  finally show ?case using d(2) by (simp add: dec_char_def add.assoc)
qed

lemma uint_digits_dec: "num < 10 ^ Suc k \<Longrightarrow> d \<in> set (uint_digits num (10 ^ k)) \<Longrightarrow> dec_char d"
proof (induction k arbitrary: num)
  case 0
  then show ?case by (simp add: uint_digits.simps dec_char_def digit_val)
next
  case (Suc k)
  have "num div 10 ^ Suc k < 10" using Suc.prems by (simp add: less_mult_imp_div_less)
  then have "dec_char (digit (num div 10 ^ Suc k))" by (simp add: dec_char_def digit_val)
  moreover have "uint_digits num (10 ^ Suc k) = digit (num div 10 ^ Suc k) # uint_digits (num mod 10 ^ Suc k) (10 ^ k)"
    by (subst uint_digits.simps) simp
  moreover have "num mod 10 ^ Suc k < 10 ^ Suc k" by simp
  ultimately show ?case using Suc.IH[of "num mod 10 ^ Suc k"] Suc.prems(2) by (metis set_ConsD)
qed

lemma kputuint_dec: "d \<in> set (kputuint u) \<Longrightarrow> dec_char d"
proof -
  obtain j where j: "kputuint u = uint_digits (unat u) (10 ^ j)" "unat u < 10 ^ Suc j" by (rule kputuint_shape)
  then show "d \<in> set (kputuint u) \<Longrightarrow> dec_char d" using uint_digits_dec[OF j(2)] by simp
qed

text \<open>Reading a printed number gives the number, and the end pointer is behind it.\<close>

lemma strtol_kputint:
  assumes s: "str_at p (kputint n @ rest) m" and r: "rest = [] \<or> \<not> dec_char (hd rest)"
  shows "strtol p endp 10 m = Some (n, if endp \<noteq> 0 then store_u32 endp (p + of_nat (length (kputint n))) m else m)"
proof (cases "0 \<le> sint n")
  case True
  obtain d cs where d: "kputuint n = digit d # cs" "d < 10" by (rule kputuint_first)
  have "of_char (digit d) \<noteq> (0x2D :: u8)"
  proof
    assume "of_char (digit d) = (0x2D :: u8)"
    then have "uint (of_char (digit d) :: u8) = 0x2D" by simp
    then show False using digit_val[OF d(2)] by (simp add: uint_of_char)
  qed
  then have "m p \<noteq> 0x2D" using s True d by (simp add: kputint_def)
  moreover have "strtoul_loop p 10 0 m = Some (n, p + of_nat (length (kputint n)))"
    using strtoul_decimal[of p "kputuint n" rest m 0] s r True kputuint_dec[of _ n] atoi_kputuint[of n] by (simp add: kputint_def)
  ultimately show ?thesis by (simp add: strtol_def strtoul_def strtou_def number_base_def)
next
  case False
  have k: "kputint n = CHR ''-'' # kputuint (- n)" using False by (simp add: kputint_def)
  have "m p = 0x2D" "str_at (p + 1) (kputuint (- n) @ rest) m" using s by (simp_all add: k)
  moreover from this have "strtoul_loop (p + 1) 10 0 m = Some (- n, p + 1 + of_nat (length (kputuint (- n))))"
    using strtoul_decimal[of "p + 1" "kputuint (- n)" rest m 0] r kputuint_dec[of _ "- n"] atoi_kputuint[of "- n"] by simp
  ultimately show ?thesis by (simp add: strtol_def strtoul_def strtou_def number_base_def k add.assoc)
qed

end
