(* ===== verification/Libc_Stdio.thy ===== *)
theory Libc_Stdio
  imports Libc_String Alloc "HOL-Library.Signed_Division"
begin

text \<open>
  Formatted text and files of the C library, \<^verbatim>\<open>libraries/libc/stdio.c\<close>, and the conversions and wrappers of \<^verbatim>\<open>stdlib.c\<close>.
  Variable arguments are a list of words, of which each \<^verbatim>\<open>va_arg\<close> takes the next; a missing one is a fault. The system
  calls are the record \<open>os\<close>; local variables whose address is taken have the addresses \<open>slot\<close>, \<open>nslot\<close> and \<open>tmp\<close>. Floating point is not
  modelled: the conversion of a double is the parameter \<open>fp\<close>.
\<close>

subsection \<open>Formats into memory\<close>

type_synonym sputfpoint = "ptr \<Rightarrow> u32 \<Rightarrow> u32 \<Rightarrow> mem8 \<Rightarrow> u32 \<times> mem8"

text \<open>One conversion: the characters for the conversion \<open>c\<close> go to \<open>dst\<close>; the result is their number and the arguments that are left.\<close>

definition print_conv :: "u8 \<Rightarrow> ptr \<Rightarrow> u32 list \<Rightarrow> mem8 \<Rightarrow> (u32 \<times> u32 list \<times> mem8) option" where
  "print_conv c dst arg m =
     (if c \<in> {0x73, 0x63, 0x64, 0x75, 0x78}
      then (case arg of [] \<Rightarrow> None
            | a # arg \<Rightarrow>
                if c = 0x73 then do { (d, m) \<leftarrow> strcpy_libc dst a m; len \<leftarrow> strlen_libc a m; Some (len, arg, m) }
                else if c = 0x63 then Some (1, arg, m(dst := ucast a))
                else if c = 0x64 then Some (fst (sputint dst a m), arg, snd (sputint dst a m))
                else if c = 0x75 then Some (fst (sputuint dst a m), arg, snd (sputuint dst a m))
                else Some (fst (sputhex dst a m), arg, snd (sputhex dst a m)))
      else Some (1, arg, m(dst := c)))"

definition print_conv_fp :: "sputfpoint \<Rightarrow> u8 \<Rightarrow> ptr \<Rightarrow> u32 list \<Rightarrow> mem8 \<Rightarrow> (u32 \<times> u32 list \<times> mem8) option" where
  "print_conv_fp fp c dst arg m =
     (if c = 0x66 then (case arg of a # b # arg \<Rightarrow> Some (fst (fp dst a b m), arg, snd (fp dst a b m)) | _ \<Rightarrow> None)
      else print_conv c dst arg m)"

partial_function (option) vsprintf_loop ::
  "sputfpoint \<Rightarrow> ptr \<Rightarrow> ptr \<Rightarrow> u32 list \<Rightarrow> u32 \<Rightarrow> u32 \<Rightarrow> mem8 \<Rightarrow> (u32 \<times> mem8) option"
where
  "vsprintf_loop fp str format arg i j m =
     (if m (format + i) = 0 then Some (j, m)
      else if m (format + i) = 0x25
      then do {
        (n, arg, m) \<leftarrow> print_conv_fp fp (m (format + (i + 1))) (str + j) arg m;
        vsprintf_loop fp str format arg (i + 2) (j + n) m
      }
      else vsprintf_loop fp str format arg (i + 1) (j + 1) (m(str + j := m (format + i))))"

definition vsprintf :: "sputfpoint \<Rightarrow> ptr \<Rightarrow> ptr \<Rightarrow> u32 list \<Rightarrow> mem8 \<Rightarrow> (u32 \<times> mem8) option" where
  "vsprintf fp str format arg m = vsprintf_loop fp str format arg 0 0 m"

text \<open>The condition of the loop is the bitwise conjunction of the character with the comparison.\<close>

partial_function (option) vsnprintf_loop ::
  "ptr \<Rightarrow> u32 \<Rightarrow> ptr \<Rightarrow> u32 list \<Rightarrow> u32 \<Rightarrow> u32 \<Rightarrow> mem8 \<Rightarrow> (u32 \<times> mem8) option"
where
  "vsnprintf_loop str sz format arg i j m =
     (if m (format + i) AND (if j < sz then 1 else 0) = 0 then Some (j, m)
      else if m (format + i) = 0x25
      then do {
        (n, arg, m) \<leftarrow> print_conv (m (format + (i + 1))) (str + j) arg m;
        vsnprintf_loop str sz format arg (i + 2) (j + n) m
      }
      else vsnprintf_loop str sz format arg (i + 1) (j + 1) (m(str + j := m (format + i))))"

definition vsnprintf :: "ptr \<Rightarrow> u32 \<Rightarrow> ptr \<Rightarrow> u32 list \<Rightarrow> mem8 \<Rightarrow> (u32 \<times> mem8) option" where
  "vsnprintf str sz format arg m = vsnprintf_loop str sz format arg 0 0 m"

definition sprintf :: "sputfpoint \<Rightarrow> ptr \<Rightarrow> ptr \<Rightarrow> u32 list \<Rightarrow> mem8 \<Rightarrow> (u32 \<times> mem8) option" where
  "sprintf fp str format args m = vsprintf fp str format args m"

definition snprintf :: "ptr \<Rightarrow> u32 \<Rightarrow> ptr \<Rightarrow> u32 list \<Rightarrow> mem8 \<Rightarrow> (u32 \<times> mem8) option" where
  "snprintf str sz format args m = vsnprintf str sz format args m"

subsection \<open>Reading formats\<close>

partial_function (option) skip_space :: "ptr \<Rightarrow> mem8 \<Rightarrow> ptr option" where
  "skip_space p m = (if isspace (m p) then skip_space (p + 1) m else Some p)"

partial_function (option) skip_word :: "ptr \<Rightarrow> mem8 \<Rightarrow> ptr option" where
  "skip_word p m = (if \<not> isspace (m p) \<and> m p \<noteq> 0 then skip_word (p + 1) m else Some p)"

partial_function (option) skip_atoi :: "ptr \<Rightarrow> u32 \<Rightarrow> mem8 \<Rightarrow> (u32 \<times> ptr) option" where
  "skip_atoi s i m = (if isdigit (m s) then skip_atoi (s + 1) (i * 10 + ucast (m s) - 0x30) m else Some (i, s))"

text \<open>Characters into the argument: at least one, as many as the width says, not past the terminator.\<close>

partial_function (option) scan_chars :: "ptr \<Rightarrow> ptr \<Rightarrow> u32 \<Rightarrow> mem8 \<Rightarrow> (ptr \<times> mem8) option" where
  "scan_chars s str width m =
     (let m' = m(s := m str); width = width - 1
      in if 0 < sint width \<and> m' (str + 1) \<noteq> 0 then scan_chars (s + 1) (str + 1) width m' else Some (str + 1, m'))"

partial_function (option) scan_word :: "ptr \<Rightarrow> ptr \<Rightarrow> u32 \<Rightarrow> mem8 \<Rightarrow> (ptr \<times> mem8) option" where
  "scan_word s str width m =
     (if m str \<noteq> 0 \<and> \<not> isspace (m str) \<and> width \<noteq> 0 then scan_word (s + 1) (str + 1) (width - 1) (m(s := m str))
      else Some (str, m(s := 0)))"

definition scan_qualifier :: "ptr \<Rightarrow> mem8 \<Rightarrow> u8 option \<times> ptr" where
  "scan_qualifier format m =
     (let q = m format
      in if q = 0x68 \<or> q = 0x6C \<or> q = 0x4C \<or> q = 0x5A \<or> q = 0x7A
         then if q = m (format + 1)
              then if q = 0x68 then (Some 0x48, format + 2) else if q = 0x6C then (Some 0x4C, format + 2) else (Some q, format + 1)
              else (Some q, format + 1)
         else (None, format))"

text \<open>Base and sign of a conversion.\<close>

definition scan_base :: "u8 \<Rightarrow> (u32 \<times> bool) option" where
  "scan_base c =
     (if c = 0x6F then Some (8, False) else if c = 0x78 \<or> c = 0x58 then Some (16, False) else if c = 0x69 then Some (0, True)
      else if c = 0x64 then Some (10, True) else if c = 0x75 then Some (10, False) else None)"

definition bad_digit :: "u32 \<Rightarrow> u8 \<Rightarrow> bool" where
  "bad_digit base d \<longleftrightarrow> d = 0 \<or> base = 16 \<and> \<not> isxdigit d \<or> base = 10 \<and> \<not> isdigit d \<or>
     base = 8 \<and> (\<not> isdigit d \<or> d > 0x37) \<or> base = 0 \<and> \<not> isdigit d"

definition store_u16 :: "ptr \<Rightarrow> 16 word \<Rightarrow> mem8 \<Rightarrow> mem8" where
  "store_u16 p w m = m(p := ucast w, p + 1 := ucast (drop_bit 8 w))"

definition store_u64 :: "ptr \<Rightarrow> 64 word \<Rightarrow> mem8 \<Rightarrow> mem8" where
  "store_u64 p w m = store_u32 (p + 4) (ucast (drop_bit 32 w)) (store_u32 p (ucast w) m)"

definition scan_number :: "ptr \<Rightarrow> u8 option \<Rightarrow> bool \<Rightarrow> u32 \<Rightarrow> ptr \<Rightarrow> ptr \<Rightarrow> mem8 \<Rightarrow> mem8 option" where
  "scan_number nslot qualifier is_sign base str a m =
     (if qualifier = Some 0x4C
      then do { (r, m) \<leftarrow> (if is_sign then strtoll str nslot base m else strtoull str nslot base m); Some (store_u64 a r m) }
      else do {
        (r, m) \<leftarrow> (if is_sign \<and> qualifier \<noteq> Some 0x5A \<and> qualifier \<noteq> Some 0x7A then strtol str nslot base m else strtoul str nslot base m);
        Some (if qualifier = Some 0x48 then m(a := ucast r) else if qualifier = Some 0x68 then store_u16 a (ucast r) m else store_u32 a r m)
      })"

text \<open>
  One conversion \<open>c\<close>, behind width and qualifier: whether the scan goes on, then the position in the text, the
  arguments that are left, the number of items and the memory.
\<close>

definition scan_conv ::
  "ptr \<Rightarrow> ptr \<Rightarrow> u8 \<Rightarrow> u32 \<Rightarrow> u8 option \<Rightarrow> ptr \<Rightarrow> u32 list \<Rightarrow> u32 \<Rightarrow> mem8 \<Rightarrow> (bool \<times> ptr \<times> u32 list \<times> u32 \<times> mem8) option"
where
  "scan_conv nslot buf c width qualifier str args num m =
     (if c = 0x63
      then (case args of [] \<Rightarrow> None
            | a # args \<Rightarrow> do { (str, m) \<leftarrow> scan_chars a str (if width = -1 then 1 else width) m; Some (True, str, args, num + 1, m) })
      else if c = 0x73
      then (case args of [] \<Rightarrow> None
            | a # args \<Rightarrow> do { str \<leftarrow> skip_space str m;
                               (str, m) \<leftarrow> scan_word a str (if width = -1 then 0x7FFFFFFF else width) m;
                               Some (True, str, args, num + 1, m) })
      else if c = 0x6E
      then (case args of [] \<Rightarrow> None | a # args \<Rightarrow> Some (True, str, args, num, store_u32 a (str - buf) m))
      else if c = 0x25
      then Some (m str = 0x25, str + 1, args, num, m)
      else (case scan_base c of None \<Rightarrow> Some (False, str, args, num, m)
            | Some (base, is_sign) \<Rightarrow> do {
                str \<leftarrow> skip_space str m;
                if bad_digit base (if is_sign \<and> m str = 0x2D then m (str + 1) else m str) then Some (False, str, args, num, m)
                else (case args of [] \<Rightarrow> None
                      | a # args \<Rightarrow> do {
                          m \<leftarrow> scan_number nslot qualifier is_sign base str a m;
                          Some (load_u32 nslot m \<noteq> 0, load_u32 nslot m, args, num + 1, m)
                        })
              }))"

text \<open>White space in the format skips white space on both sides.\<close>

definition scan_spaces :: "ptr \<Rightarrow> ptr \<Rightarrow> mem8 \<Rightarrow> (ptr \<times> ptr) option" where
  "scan_spaces format str m =
     (if isspace (m format) then do { f \<leftarrow> skip_space format m; t \<leftarrow> skip_space str m; Some (f, t) } else Some (format, str))"

definition scan_width :: "ptr \<Rightarrow> mem8 \<Rightarrow> (u32 \<times> ptr) option" where
  "scan_width format m = (if isdigit (m format) then skip_atoi format 0 m else Some (-1, format))"

partial_function (option) vsscanf_loop ::
  "ptr \<Rightarrow> ptr \<Rightarrow> ptr \<Rightarrow> ptr \<Rightarrow> u32 list \<Rightarrow> u32 \<Rightarrow> mem8 \<Rightarrow> (u32 \<times> mem8) option"
where
  "vsscanf_loop nslot buf format str args num m =
     (if m format = 0 \<or> m str = 0 then Some (num, m)
      else do {
        (format, str) \<leftarrow> scan_spaces format str m;
        if m format \<noteq> 0x25 \<and> m format \<noteq> 0
        then if m format \<noteq> m str then Some (num, m) else vsscanf_loop nslot buf (format + 1) (str + 1) args num m
        else if m format = 0 then Some (num, m)
        else if m (format + 1) = 0x2A
        then do { f \<leftarrow> skip_word (format + 1) m; t \<leftarrow> skip_word str m; vsscanf_loop nslot buf f t args num m }
        else do {
          (width, format) \<leftarrow> scan_width (format + 1) m;
          (qualifier, format) \<leftarrow> Some (scan_qualifier format m);
          if m format = 0 \<or> m str = 0 then Some (num, m)
          else do {
            (more, str, args, num, m) \<leftarrow> scan_conv nslot buf (m format) width qualifier str args num m;
            if more then vsscanf_loop nslot buf (format + 1) str args num m else Some (num, m)
          }
        }
      })"

definition vsscanf :: "ptr \<Rightarrow> ptr \<Rightarrow> ptr \<Rightarrow> u32 list \<Rightarrow> mem8 \<Rightarrow> (u32 \<times> mem8) option" where
  "vsscanf nslot buf format args m = vsscanf_loop nslot buf format buf args 0 m"

definition sscanf :: "ptr \<Rightarrow> ptr \<Rightarrow> ptr \<Rightarrow> u32 list \<Rightarrow> mem8 \<Rightarrow> (u32 \<times> mem8) option" where
  "sscanf nslot buf fmt args m = vsscanf nslot buf fmt args m"

end
