(* ===== verification/Libc_Files.thy ===== *)
theory Libc_Files
  imports Libc_Stdio
begin

text \<open>
  Files of the C library, \<^verbatim>\<open>libraries/libc/stdio.c\<close>, and \<^verbatim>\<open>libraries/libc/stdlib.c\<close>. A program's state is its heap and memory,
  the structures behind file pointers, and the world behind the system calls, which are the record \<open>os\<close>. The memory break
  is the parameter \<open>brk\<close>, as in theory \<open>Alloc\<close>.
\<close>

subsection \<open>State and system calls\<close>

record FILE =
  f_id :: int
  seek_index :: u32
  f_mode :: int

record 'w stdio = user_heap +
  files :: "ptr \<rightharpoonup> FILE"
  stdin :: ptr
  stdout :: ptr
  stderr :: ptr
  world :: 'w

record 'w os =
  os_open :: "ptr \<Rightarrow> mem8 \<Rightarrow> 'w \<Rightarrow> int \<times> 'w"
  os_close :: "int \<Rightarrow> 'w \<Rightarrow> int \<times> 'w"
  os_read :: "int \<Rightarrow> u32 \<Rightarrow> u32 \<Rightarrow> ptr \<Rightarrow> mem8 \<Rightarrow> 'w \<Rightarrow> int \<times> mem8 \<times> 'w"
  os_write :: "int \<Rightarrow> u32 \<Rightarrow> u32 \<Rightarrow> ptr \<Rightarrow> mem8 \<Rightarrow> 'w \<Rightarrow> int \<times> 'w"
  os_ioctl :: "int \<Rightarrow> u32 \<Rightarrow> ptr \<Rightarrow> mem8 \<Rightarrow> 'w \<Rightarrow> int \<times> mem8 \<times> 'w"
  os_sleep :: "u32 \<Rightarrow> 'w \<Rightarrow> 'w"

definition MODE_R :: int where "MODE_R = 0"
definition MODE_W :: int where "MODE_W = 1"
definition MODE_RW :: int where "MODE_RW = 2"
definition SEEK_SET :: int where "SEEK_SET = 0"
definition SEEK_CUR :: int where "SEEK_CUR = 1"
definition SEEK_END :: int where "SEEK_END = 2"
definition STDIN_CMD_INPUT_READY :: u32 where "STDIN_CMD_INPUT_READY = 0x0C"
definition sizeof_FILE :: u32 where "sizeof_FILE = 12"

text \<open>The three streams are static structures with the same contents.\<close>

definition std_stream :: FILE where
  "std_stream = \<lparr>f_id = 0, seek_index = 0, f_mode = MODE_R\<rparr>"

definition stdio_init :: "ptr \<Rightarrow> ptr \<Rightarrow> ptr \<Rightarrow> ('w, 'z) stdio_scheme \<Rightarrow> ('w, 'z) stdio_scheme" where
  "stdio_init stdin_s stdout_s stderr_s s = s\<lparr>stdin := stdin_s, stdout := stdout_s, stderr := stderr_s\<rparr>"

subsection \<open>Reading and writing\<close>

definition fwrite ::
  "'w os \<Rightarrow> ptr \<Rightarrow> u32 \<Rightarrow> u32 \<Rightarrow> ptr \<Rightarrow> ('w, 'z) stdio_scheme \<Rightarrow> (u32 \<times> ('w, 'z) stdio_scheme) option"
where
  "fwrite os p sz count f s = do {
     fd \<leftarrow> files s f;
     let total_count = sz * count;
     let (ret, w) = os_write os (f_id fd) (seek_index fd) total_count p (kh_bytes s) (world s);
     Some (word_of_int ret, s\<lparr>files := (files s)(f \<mapsto> fd\<lparr>seek_index := seek_index fd + total_count\<rparr>), world := w\<rparr>)
   }"

definition fread ::
  "'w os \<Rightarrow> ptr \<Rightarrow> u32 \<Rightarrow> u32 \<Rightarrow> ptr \<Rightarrow> ('w, 'z) stdio_scheme \<Rightarrow> (u32 \<times> ('w, 'z) stdio_scheme) option"
where
  "fread os p sz count f s = do {
     fd \<leftarrow> files s f;
     let total_count = sz * count;
     let (ret, m, w) = os_read os (f_id fd) (seek_index fd) total_count p (kh_bytes s) (world s);
     Some (word_of_int ret, s\<lparr>kh_bytes := m, files := (files s)(f \<mapsto> fd\<lparr>seek_index := seek_index fd + total_count\<rparr>), world := w\<rparr>)
   }"

definition fputc :: "'w os \<Rightarrow> ptr \<Rightarrow> u32 \<Rightarrow> ptr \<Rightarrow> ('w, 'z) stdio_scheme \<Rightarrow> (u32 \<times> ('w, 'z) stdio_scheme) option" where
  "fputc os slot character f s = fwrite os slot 1 1 f (s\<lparr>kh_bytes := store_u32 slot character (kh_bytes s)\<rparr>)"

definition fputs :: "'w os \<Rightarrow> ptr \<Rightarrow> ptr \<Rightarrow> ('w, 'z) stdio_scheme \<Rightarrow> (u32 \<times> ('w, 'z) stdio_scheme) option" where
  "fputs os str f s = do { len \<leftarrow> strlen_libc str (kh_bytes s); fwrite os str len 1 f s }"

definition fgetc :: "'w os \<Rightarrow> ptr \<Rightarrow> ptr \<Rightarrow> ('w, 'z) stdio_scheme \<Rightarrow> (int \<times> ('w, 'z) stdio_scheme) option" where
  "fgetc os slot f s = do {
     (r, s) \<leftarrow> fread os slot 1 1 f (s\<lparr>kh_bytes := (kh_bytes s)(slot := -1)\<rparr>);
     Some (sint (kh_bytes s slot), s)
   }"

subsection \<open>Printing\<close>

text \<open>A number goes through the local array \<open>tmp\<close> of 100 bytes.\<close>

definition print_number ::
  "'w os \<Rightarrow> ptr \<Rightarrow> (ptr \<Rightarrow> mem8 \<Rightarrow> u32 \<times> mem8) \<Rightarrow> ptr \<Rightarrow> ('w, 'z) stdio_scheme \<Rightarrow> (u32 \<times> ('w, 'z) stdio_scheme) option"
where
  "print_number os tmp conv f s = do {
     let (n, m) = conv tmp (snd (memset tmp 0 100 (kh_bytes s)));
     (r, s) \<leftarrow> fputs os tmp f (s\<lparr>kh_bytes := m\<rparr>);
     Some (n, s)
   }"

definition file_conv ::
  "'w os \<Rightarrow> sputfpoint \<Rightarrow> ptr \<Rightarrow> ptr \<Rightarrow> u8 \<Rightarrow> ptr \<Rightarrow> u32 list \<Rightarrow> ('w, 'z) stdio_scheme \<Rightarrow> (u32 \<times> u32 list \<times> ('w, 'z) stdio_scheme) option"
where
  "file_conv os fp slot tmp c f arg s =
     (if c \<in> {0x73, 0x63, 0x64, 0x75, 0x78}
      then (case arg of [] \<Rightarrow> None
            | a # arg \<Rightarrow> do {
                (n, s) \<leftarrow>
                  (if c = 0x73 then do { (r, s) \<leftarrow> fputs os a f s; len \<leftarrow> strlen_libc a (kh_bytes s); Some (len, s) }
                   else if c = 0x63 then do { (r, s) \<leftarrow> fputc os slot (scast (ucast a :: u8)) f s; Some (1, s) }
                   else if c = 0x64 then print_number os tmp (\<lambda>t. sputint t a) f s
                   else if c = 0x75 then print_number os tmp (\<lambda>t. sputuint t a) f s
                   else print_number os tmp (\<lambda>t. sputhex t a) f s);
                Some (n, arg, s)
              })
      else if c = 0x66
      then (case arg of a # b # arg \<Rightarrow> do { (n, s) \<leftarrow> print_number os tmp (\<lambda>t. fp t a b) f s; Some (n, arg, s) } | _ \<Rightarrow> None)
      else do { (r, s) \<leftarrow> fputc os slot (scast c) f s; Some (1, arg, s) })"

partial_function (option) vfprintf_loop ::
  "'w os \<Rightarrow> sputfpoint \<Rightarrow> ptr \<Rightarrow> ptr \<Rightarrow> ptr \<Rightarrow> ptr \<Rightarrow> u32 list \<Rightarrow> u32 \<Rightarrow> u32 \<Rightarrow> ('w, 'z) stdio_scheme \<Rightarrow> (u32 \<times> ('w, 'z) stdio_scheme) option"
where
  "vfprintf_loop os fp slot tmp f format arg i j s =
     (if kh_bytes s (format + i) = 0 then Some (j, s)
      else if kh_bytes s (format + i) = 0x25
      then do {
        (n, arg, s) \<leftarrow> file_conv os fp slot tmp (kh_bytes s (format + (i + 1))) f arg s;
        vfprintf_loop os fp slot tmp f format arg (i + 2) (j + n) s
      }
      else do {
        (r, s) \<leftarrow> fputc os slot (scast (kh_bytes s (format + i))) f s;
        vfprintf_loop os fp slot tmp f format arg (i + 1) (j + 1) s
      })"

definition vfprintf ::
  "'w os \<Rightarrow> sputfpoint \<Rightarrow> ptr \<Rightarrow> ptr \<Rightarrow> ptr \<Rightarrow> ptr \<Rightarrow> u32 list \<Rightarrow> ('w, 'z) stdio_scheme \<Rightarrow> (u32 \<times> ('w, 'z) stdio_scheme) option"
where
  "vfprintf os fp slot tmp f format arg s =
     vfprintf_loop os fp slot tmp f format arg 0 0 (s\<lparr>kh_bytes := snd (memset tmp 0 100 (kh_bytes s))\<rparr>)"

definition fprintf ::
  "'w os \<Rightarrow> sputfpoint \<Rightarrow> ptr \<Rightarrow> ptr \<Rightarrow> ptr \<Rightarrow> ptr \<Rightarrow> u32 list \<Rightarrow> ('w, 'z) stdio_scheme \<Rightarrow> (u32 \<times> ('w, 'z) stdio_scheme) option"
where
  "fprintf os fp slot tmp f format arg s = vfprintf os fp slot tmp f format arg s"

definition printf ::
  "'w os \<Rightarrow> sputfpoint \<Rightarrow> ptr \<Rightarrow> ptr \<Rightarrow> ptr \<Rightarrow> u32 list \<Rightarrow> ('w, 'z) stdio_scheme \<Rightarrow> (u32 \<times> ('w, 'z) stdio_scheme) option"
where
  "printf os fp slot tmp format arg s = vfprintf os fp slot tmp (stdout s) format arg s"

subsection \<open>Input\<close>

text \<open>The program asks until the terminal has the input; \<open>gets\<close> sleeps in between.\<close>

partial_function (option) wait_input ::
  "'w os \<Rightarrow> u32 \<Rightarrow> ptr \<Rightarrow> ('w, 'z) stdio_scheme \<Rightarrow> ('w, 'z) stdio_scheme option"
where
  "wait_input os nap slot s = do {
     fd \<leftarrow> files s (stdin s);
     (r, m, w) \<leftarrow> Some (os_ioctl os (f_id fd) STDIN_CMD_INPUT_READY slot (kh_bytes s) (world s));
     if r = 0 then wait_input os nap slot (s\<lparr>kh_bytes := m, world := if nap = 0 then w else os_sleep os nap w\<rparr>)
     else Some (s\<lparr>kh_bytes := m, world := w\<rparr>)
   }"

definition getchar :: "'w os \<Rightarrow> ptr \<Rightarrow> ptr \<Rightarrow> ('w, 'z) stdio_scheme \<Rightarrow> (int \<times> ('w, 'z) stdio_scheme) option" where
  "getchar os slot cslot s = do {
     s \<leftarrow> wait_input os 0 slot (s\<lparr>kh_bytes := store_u32 slot 1 (kh_bytes s)\<rparr>);
     fgetc os cslot (stdin s) s
   }"

definition gets :: "'w os \<Rightarrow> ptr \<Rightarrow> ptr \<Rightarrow> u32 \<Rightarrow> ('w, 'z) stdio_scheme \<Rightarrow> (ptr \<times> ('w, 'z) stdio_scheme) option" where
  "gets os slot str sz s = do {
     s \<leftarrow> wait_input os 10 slot (s\<lparr>kh_bytes := store_u32 slot sz (kh_bytes s)\<rparr>);
     (n, s) \<leftarrow> fread os str (load_u32 slot (kh_bytes s)) 1 (stdin s) s;
     Some (str, s\<lparr>kh_bytes := (kh_bytes s)(str + n := 0)\<rparr>)
   }"

subsection \<open>Memory\<close>

definition free :: "ptr \<Rightarrow> 'z kheap_scheme \<Rightarrow> 'z kheap_scheme option" where
  "free p s = alloc_free p s"

definition malloc ::
  "(u32 \<Rightarrow> 'z kheap_scheme \<Rightarrow> u32 \<times> 'z kheap_scheme) \<Rightarrow> u32 \<Rightarrow> 'z kheap_scheme \<Rightarrow> (ptr \<times> 'z kheap_scheme) option"
where
  "malloc brk sz s = alloc_allocate brk sz s"

definition realloc ::
  "(u32 \<Rightarrow> 'z kheap_scheme \<Rightarrow> u32 \<times> 'z kheap_scheme) \<Rightarrow> ptr \<Rightarrow> u32 \<Rightarrow> 'z kheap_scheme \<Rightarrow> (ptr \<times> 'z kheap_scheme) option"
where
  "realloc brk p sz s =
     (if sz = 0 then do { s \<leftarrow> free p s; Some (0, s) }
      else if p = 0 then malloc brk sz s
      else alloc_reallocate brk p sz s)"

subsection \<open>Opening and closing\<close>

text \<open>The comparison of a string with a literal.\<close>

fun equals_lit :: "ptr \<Rightarrow> string \<Rightarrow> mem8 \<Rightarrow> bool" where
  "equals_lit p [] m \<longleftrightarrow> m p = 0"
| "equals_lit p (c # cs) m \<longleftrightarrow> m p = of_char c \<and> equals_lit (p + 1) cs m"

definition open_mode :: "ptr \<Rightarrow> mem8 \<Rightarrow> int" where
  "open_mode mode m =
     (if equals_lit mode ''r'' m then MODE_R else if equals_lit mode ''w'' m then MODE_W else if equals_lit mode ''rw'' m then MODE_RW else -1)"

definition fopen ::
  "'w os \<Rightarrow> (u32 \<Rightarrow> ('w, 'z) stdio_scheme \<Rightarrow> u32 \<times> ('w, 'z) stdio_scheme) \<Rightarrow> ptr \<Rightarrow> ptr \<Rightarrow> ('w, 'z) stdio_scheme \<Rightarrow>
     (ptr \<times> ('w, 'z) stdio_scheme) option"
where
  "fopen os brk filename mode s =
     (let mode_num = open_mode mode (kh_bytes s)
      in if mode_num < 0 then Some (0, s)
         else do {
           (f, s) \<leftarrow> malloc brk sizeof_FILE s;
           if f = 0 then Some (0, s)
           else do {
             let (n, w) = os_open os filename (kh_bytes s) (world s);
             let s = s\<lparr>world := w\<rparr>;
             if n = -1 then do { s \<leftarrow> free f s; Some (0, s) }
             else Some (f, s\<lparr>files := (files s)(f \<mapsto> \<lparr>f_id = n, seek_index = 0, f_mode = mode_num\<rparr>)\<rparr>)
           }
         })"

definition fclose :: "'w os \<Rightarrow> ptr \<Rightarrow> ('w, 'z) stdio_scheme \<Rightarrow> (int \<times> ('w, 'z) stdio_scheme) option" where
  "fclose os f s = do {
     fd \<leftarrow> files s f;
     let (ret, w) = os_close os (f_id fd) (world s);
     s \<leftarrow> free f (s\<lparr>world := w, files := (files s)(f := None)\<rparr>);
     Some (ret, s)
   }"

definition fseek :: "ptr \<Rightarrow> u32 \<Rightarrow> int \<Rightarrow> ('w, 'z) stdio_scheme \<Rightarrow> (int \<times> ('w, 'z) stdio_scheme) option" where
  "fseek f offset origin s =
     (if origin = SEEK_SET then do { fd \<leftarrow> files s f; Some (0, s\<lparr>files := (files s)(f \<mapsto> fd\<lparr>seek_index := offset\<rparr>)\<rparr>) }
      else if origin = SEEK_CUR
      then do { fd \<leftarrow> files s f; Some (0, s\<lparr>files := (files s)(f \<mapsto> fd\<lparr>seek_index := seek_index fd + offset\<rparr>)\<rparr>) }
      else if origin = SEEK_END then Some (0, s)
      else Some (-1, s))"

definition ftell :: "ptr \<Rightarrow> ('w, 'z) stdio_scheme \<Rightarrow> int option" where
  "ftell f s = do { fd \<leftarrow> files s f; Some (sint (seek_index fd)) }"

definition setbuf :: "ptr \<Rightarrow> ptr \<Rightarrow> ('w, 'z) stdio_scheme \<Rightarrow> ('w, 'z) stdio_scheme" where
  "setbuf f buffer s = s"

definition fflush :: "ptr \<Rightarrow> int" where
  "fflush f = -1"

subsection \<open>Numbers\<close>

partial_function (option) atoi_loop :: "ptr \<Rightarrow> u32 \<Rightarrow> u32 \<Rightarrow> mem8 \<Rightarrow> (u32 \<times> u32) option" where
  "atoi_loop str acum cur_len m =
     (if isdigit (m str) then atoi_loop (str + 1) (acum * 10 + (ucast (m str) - 48)) (cur_len + 1) m else Some (acum, cur_len))"

text \<open>The sign counts for the length of the string, and not for the digits that were read.\<close>

definition atoi_libc :: "ptr \<Rightarrow> mem8 \<Rightarrow> u32 option" where
  "atoi_libc str m = do {
     len \<leftarrow> strlen_libc str m;
     (acum, cur_len) \<leftarrow> atoi_loop (if m str = 0x2D then str + 1 else str) 0 0 m;
     Some (if cur_len \<noteq> len then -1 else if m str = 0x2D then -1 * acum else acum)
   }"

function itoa_loop :: "ptr \<Rightarrow> int \<Rightarrow> mem8 \<Rightarrow> ptr \<times> mem8" where
  "itoa_loop s n m =
     (let m = m(s := word_of_int (n smod 10 + 48))
      in if 0 < n sdiv 10 then itoa_loop (s + 1) (n sdiv 10) m else (s + 1, m))"
  by auto
termination
proof (relation "measure (\<lambda>(s, n, m). nat n)")
  fix n :: int assume "0 < n sdiv 10"
  then have "0 < n" by (auto simp: signed_divide_int_def sgn_if split: if_splits)
  moreover from this have "n sdiv 10 = n div 10" by (simp add: signed_divide_int_def)
  ultimately show "((s', n sdiv 10, m'), s, n, m) \<in> measure (\<lambda>(s, n, m). nat n)" for s' m' s m by simp
qed simp

declare itoa_loop.simps [simp del]

text \<open>No terminator is written: \<^verbatim>\<open>s[strlen(s)] = 0\<close> stores a zero where one is already.\<close>

definition itoa :: "u32 \<Rightarrow> ptr \<Rightarrow> mem8 \<Rightarrow> (u32 \<times> mem8) option" where
  "itoa val s m =
     (let rev = (if sint val < 0 then s + 1 else s);
          m = (if sint val < 0 then m(s := 0x2D) else m);
          (e, m) = itoa_loop rev (if sint val < 0 then sint (- val) else sint val) m;
          m = strrev rev (e - rev) m
      in do { len \<leftarrow> strlen_libc e m; Some (e - s, m(e + len := 0)) })"

end
