(* ===== verification/Libc_Facts.thy ===== *)
theory Libc_Facts
  imports Libc_Files
begin

text \<open>
  What the formatted input and output of the C library (\<open>libraries/libc/stdio.c\<close>, \<open>libraries/libc/stdlib.c\<close>)
  does to the memory: \<open>vsprintf\<close> stores the text the kernel's \<open>kformat\<close> makes of the same format,
  \<open>sscanf\<close> and \<open>atoi\<close> read a printed number back, \<open>itoa\<close> stores the digits the kernel prints,
  and the tests that go wrong: \<open>vsnprintf\<close> stops at a character of even code, \<open>atoi\<close> refuses every negative number.
\<close>

subsection \<open>What a print writes\<close>

text \<open>The text is at the place, what lies behind the text and one byte more is as before.\<close>

definition wrote :: "ptr \<Rightarrow> string \<Rightarrow> mem8 \<Rightarrow> mem8 \<Rightarrow> bool" where
  "wrote d out m m' \<longleftrightarrow> (\<forall>x. unat (x - d) < length out \<longrightarrow> m' x = of_char (out ! unat (x - d))) \<and> (\<forall>x. length out < unat (x - d) \<longrightarrow> m' x = m x)"

lemma wrote_Nil: "wrote d [] m m"
  by (simp add: wrote_def)

lemma unat_sub_add: "n < 2 ^ 32 \<Longrightarrow> unat (x - (d + of_nat n) :: u32) = (if n \<le> unat (x - d) then unat (x - d) - n else 2 ^ 32 + unat (x - d) - n)"
proof -
  assume n: "n < 2 ^ 32"
  have u: "unat (of_nat n :: u32) = n" by (rule unat_of_nat_eq_u32[OF n])
  have e: "x - (d + of_nat n) = (x - d) - of_nat n" by simp
  show ?thesis
  proof (cases "n \<le> unat (x - d)")
    case True
    then have "of_nat n \<le> x - d" using u by (simp add: word_le_nat_alt)
    then show ?thesis unfolding e using True u by (simp add: unat_sub)
  next
    case False
    then have "unat (x - d - of_nat n) = 2 ^ 32 + unat (x - d) - n"
      using unat_sub_if_size[of "x - d" "of_nat n"] u by (simp add: word_size)
    then show ?thesis unfolding e using False by simp
  qed
qed

lemma wrote_append:
  assumes "wrote d as m m1" "wrote (d + of_nat (length as)) bs m1 m2" "length as + length bs < 2 ^ 32"
  shows "wrote d (as @ bs) m m2"
proof -
  have la: "length as < 2 ^ 32" using assms(3) by simp
  have "m2 x = (if unat (x - d) < length (as @ bs) then of_char ((as @ bs) ! unat (x - d)) else m x)" if x: "unat (x - d) \<noteq> length (as @ bs)" for x
  proof (cases "length as \<le> unat (x - d)")
    case True
    then have "unat (x - (d + of_nat (length as))) = unat (x - d) - length as" using unat_sub_add[OF la, of x d] by simp
    then show ?thesis using assms(1,2) True x unfolding wrote_def by (auto simp: nth_append)
  next
    case False
    then have "unat (x - (d + of_nat (length as))) = 2 ^ 32 + unat (x - d) - length as" using unat_sub_add[OF la, of x d] by simp
    then have "length bs < unat (x - (d + of_nat (length as)))" using assms(3) by simp
    then show ?thesis using assms(1,2) False unfolding wrote_def by (auto simp: nth_append)
  qed
  then show ?thesis by (simp add: wrote_def)
qed

lemma wrote_put: "length cs < 2 ^ 32 \<Longrightarrow> wrote d cs m (put_str d cs m)" "length cs < 2 ^ 32 \<Longrightarrow> wrote d cs m (put_str d (cs @ [NUL]) m)"
  by (simp_all add: wrote_def put_str_apply nth_append)

lemma wrote_other:
  assumes "wrote d out m m'" "areas_apart d n q k" "length out < n" "i < k"
  shows "m' (q + of_nat i) = m (q + of_nat i)"
proof -
  let ?j = "unat (q + of_nat i - d)"
  have "q + of_nat i = d + of_nat ?j" by simp
  then have "\<not> ?j < n" using assms(2,4) unfolding areas_apart_def by metis
  then show ?thesis using assms(1,3) by (simp add: wrote_def)
qed

lemma str_at_wrote: "wrote d out m m' \<Longrightarrow> areas_apart d n q (Suc (length cs)) \<Longrightarrow> length out < n \<Longrightarrow> str_at q cs m' = str_at q cs m"
  by (rule str_at_cong) (simp add: wrote_other)

lemma areas_apart_drop: "areas_apart d (a + n) q (b + k) \<Longrightarrow> areas_apart (d + of_nat a) n (q + of_nat b) k"
  unfolding areas_apart_def
proof (intro allI impI)
  fix i j assume h: "\<forall>i<a + n. \<forall>j<b + k. d + of_nat i \<noteq> q + of_nat j" "i < n" "j < k"
  show "d + of_nat a + of_nat i \<noteq> q + of_nat b + of_nat j"
    using h(1)[rule_format, of "a + i" "b + j"] h(2,3) by (simp add: add.assoc)
qed

lemma areas_apart_mono: "areas_apart d n q k \<Longrightarrow> n' \<le> n \<Longrightarrow> k' \<le> k \<Longrightarrow> areas_apart d n' q k'"
  by (auto simp: areas_apart_def)

subsection \<open>Formats\<close>

text \<open>One conversion of the reference, and the words that stand for its arguments.\<close>

fun piece :: "char \<Rightarrow> karg list \<Rightarrow> (string \<times> karg list) option" where
  "piece d args =
     (if d = CHR ''s'' then (case args of Kstr s # as \<Rightarrow> Some (s, as) | _ \<Rightarrow> None)
      else if d = CHR ''c'' then (case args of Kchr x # as \<Rightarrow> Some ([x], as) | _ \<Rightarrow> None)
      else if d = CHR ''d'' then (case args of Kint n # as \<Rightarrow> Some (kputint n, as) | _ \<Rightarrow> None)
      else if d = CHR ''u'' then (case args of Kuint n # as \<Rightarrow> Some (kputuint n, as) | _ \<Rightarrow> None)
      else if d = CHR ''x'' then (case args of Kuint n # as \<Rightarrow> Some (kputhex n, as) | _ \<Rightarrow> None)
      else Some ([d], args))"

lemma kformat_piece: "kformat (CHR ''%'' # d # cs) args = do { (p, as) \<leftarrow> piece d args; r \<leftarrow> kformat cs as; Some (p @ r) }"
  by (auto split: list.splits karg.splits option.splits)

fun plain_format :: "string \<Rightarrow> bool" where
  "plain_format (c # d # cs) \<longleftrightarrow> (if c = CHR ''%'' then d \<noteq> CHR ''f'' \<and> plain_format cs else plain_format (d # cs))"
| "plain_format cs \<longleftrightarrow> True"

fun arg_word :: "ptr \<Rightarrow> nat \<Rightarrow> mem8 \<Rightarrow> karg \<Rightarrow> u32 \<Rightarrow> bool" where
  "arg_word d n m (Kstr s) w \<longleftrightarrow> str_at w s m \<and> areas_apart d n w (Suc (length s))"
| "arg_word d n m (Kchr c) w \<longleftrightarrow> ucast w = (of_char c :: u8)"
| "arg_word d n m (Kint v) w \<longleftrightarrow> w = v"
| "arg_word d n m (Kuint v) w \<longleftrightarrow> w = v"

lemma print_conv_piece:
  assumes p: "piece d args = Some (p, as)" and a: "list_all2 (arg_word dst n m) args ws" and n: "length p < n" "length p < 2 ^ 32"
  shows "\<exists>vs m'. print_conv (of_char d) dst ws m = Some (of_nat (length p), vs, m') \<and> wrote dst p m m' \<and> list_all2 (arg_word dst n m) as vs"
proof -
  note e = of_char_inj[of d]
  have c: "(of_char d :: u8) = 0x73 \<longleftrightarrow> d = CHR ''s''" "(of_char d :: u8) = 0x63 \<longleftrightarrow> d = CHR ''c''" "(of_char d :: u8) = 0x64 \<longleftrightarrow> d = CHR ''d''"
    "(of_char d :: u8) = 0x75 \<longleftrightarrow> d = CHR ''u''" "(of_char d :: u8) = 0x78 \<longleftrightarrow> d = CHR ''x''"
    using e[of "CHR ''s''"] e[of "CHR ''c''"] e[of "CHR ''d''"] e[of "CHR ''u''"] e[of "CHR ''x''"] by simp_all
  consider (s) str bs where "d = CHR ''s''" "args = Kstr str # bs" "p = str" "as = bs"
    | (c) x bs where "d = CHR ''c''" "args = Kchr x # bs" "p = [x]" "as = bs"
    | (i) v bs where "d = CHR ''d''" "args = Kint v # bs" "p = kputint v" "as = bs"
    | (u) v bs where "d = CHR ''u''" "args = Kuint v # bs" "p = kputuint v" "as = bs"
    | (x) v bs where "d = CHR ''x''" "args = Kuint v # bs" "p = kputhex v" "as = bs"
    | (o) "d \<notin> {CHR ''s'', CHR ''c'', CHR ''d'', CHR ''u'', CHR ''x''}" "p = [d]" "as = args"
    using p by (auto split: if_splits list.splits karg.splits)
  then show ?thesis
  proof cases
    case s
    then obtain w vs where w: "ws = w # vs" "str_at w str m" "areas_apart dst n w (Suc (length str))" "list_all2 (arg_word dst n m) as vs"
      using a by (auto simp: list_all2_Cons1)
    have "strcpy_libc dst w m = Some (dst, put_str dst (str @ [NUL]) m)"
      using w(2) areas_apart_mono[OF w(3)] n s by (intro strcpy_libc_at) auto
    moreover have "str_at w str (put_str dst (str @ [NUL]) m)" using w(2) str_at_put[of dst "str @ [NUL]" w str m] areas_apart_mono[OF w(3)] n s by auto
    ultimately show ?thesis using w s n wrote_put(2)[of str dst m] by (auto simp: print_conv_def strlen_libc_at)
  next
    case c
    then show ?thesis using a wrote_put(1)[of p dst m] n by (auto simp: print_conv_def list_all2_Cons1)
  next
    case i
    then show ?thesis using a wrote_put(2)[of p dst m] n by (auto simp: print_conv_def list_all2_Cons1 sputint_eq)
  next
    case u
    then show ?thesis using a wrote_put(2)[of p dst m] n by (auto simp: print_conv_def list_all2_Cons1 sputuint_eq)
  next
    case x
    then show ?thesis using a wrote_put(1)[of p dst m] n by (auto simp: print_conv_def list_all2_Cons1 sputhex_eq)
  next
    case o
    then show ?thesis using a wrote_put(1)[of p dst m] n c by (auto simp: print_conv_def)
  qed
qed

lemma arg_word_wrote:
  assumes "list_all2 (arg_word d n m) as ws" "wrote d p m m'" "length p < n" "n = length p + k"
  shows "list_all2 (arg_word (d + of_nat (length p)) k m') as ws"
  using assms(1)
proof (rule list_all2_mono)
  fix a w assume "arg_word d n m a w"
  then show "arg_word (d + of_nat (length p)) k m' a w"
  proof (cases a)
    case (Kstr s)
    then have "str_at w s m" "areas_apart d n w (Suc (length s))" using \<open>arg_word d n m a w\<close> by auto
    then show ?thesis using Kstr str_at_wrote[OF assms(2), of n w s] assms(3,4) areas_apart_drop[of d "length p" k w 0 "Suc (length s)"] by simp
  qed auto
qed

lemma format_step:
  assumes "str_at f (c # cs) m" "areas_apart d (length p + k) f (Suc (length (c # cs)))" "wrote d p m m'" "length p < length p + k"
  shows "str_at (f + 1) cs m'" "areas_apart (d + of_nat (length p)) k (f + 1) (Suc (length cs))"
proof -
  have "str_at f (c # cs) m'" using str_at_wrote[OF assms(3,2,4)] assms(1) by simp
  then show "str_at (f + 1) cs m'" by simp
  show "areas_apart (d + of_nat (length p)) k (f + 1) (Suc (length cs))" using areas_apart_drop[of d "length p" k f 1] assms(2) by simp
qed

text \<open>
  \<open>vsprintf\<close> writes the text of the reference \<open>kformat\<close>, which the kernel's printing satisfies too, and returns its length.
  The destination lies apart from the format and the string arguments.
\<close>

lemma vsprintf_loop_text:
  assumes "kformat fmt args = Some out" "plain_format fmt" "str_at (format + i) fmt m"
    "list_all2 (arg_word (str + j) (Suc (length out)) m) args ws" "areas_apart (str + j) (Suc (length out)) (format + i) (Suc (length fmt))"
    "length out < 2 ^ 32"
  shows "\<exists>m'. vsprintf_loop fp str format ws i j m = Some (j + of_nat (length out), m') \<and> wrote (str + j) out m m'"
  using assms
proof (induction "length fmt" arbitrary: fmt args i j m ws out rule: less_induct)
  case less
  note IH = less.hyps and prems = less.prems
  consider "fmt = []" | c where "fmt = [c]" | c d cs where "fmt = c # d # cs" by (cases fmt rule: remdups_adj.cases) auto
  then show ?case
  proof cases
  case 1
  then show ?thesis using prems by (subst vsprintf_loop.simps) (simp add: wrote_Nil)
next
  case (2 c)
  note prems2 = prems[unfolded 2]
  have c: "c \<noteq> CHR ''%''" "out = [c]" using prems2(1) by (auto split: if_splits)
  have b: "m (format + i) = of_char c" "c \<noteq> NUL" "m (format + i + 1) = 0" using prems2(3) by auto
  have nc: "(of_char c :: u8) \<noteq> 0x25" using of_char_inj[of c "CHR ''%''"] c(1) by simp
  have "wrote (str + j) [c] m (put_str (str + j) [c] m)" by (rule wrote_put(1)) simp
  then have w: "wrote (str + j) [c] m (m(str + j := of_char c))" by simp
  have "areas_apart (str + j) (length [c] + 1) (format + i) (Suc (length [c]))" using prems2(5) c by simp
  from format_step(1)[OF prems2(3) this w] have "(m(str + j := of_char c)) (format + i + 1) = 0" by simp
  then have "vsprintf_loop fp str format ws (i + 1) (j + 1) (m(str + j := of_char c)) = Some (j + 1, m(str + j := of_char c))"
    by (subst vsprintf_loop.simps) (simp add: add.assoc)
  then have "vsprintf_loop fp str format ws i j m = Some (j + 1, m(str + j := of_char c))"
    using b nc by (subst vsprintf_loop.simps) simp
  then show ?thesis using w c 2 by auto
next
  case (3 c d cs)
  note prems3 = prems[unfolded 3]
  have b: "m (format + i) = of_char c" "c \<noteq> NUL" "str_at (format + i + 1) (d # cs) m" using prems3(3) by auto
  show ?thesis
  proof (cases "c = CHR ''%''")
    case False
    then obtain r where r: "kformat (d # cs) args = Some r" "out = c # r" using prems3(1) by (auto simp: bind_eq_Some_conv)
    have nc: "(of_char c :: u8) \<noteq> 0x25" using of_char_inj[of c "CHR ''%''"] False by simp
    let ?m = "m(str + j := of_char c)"
    have "wrote (str + j) [c] m (put_str (str + j) [c] m)" by (rule wrote_put(1)) simp
    then have w: "wrote (str + j) [c] m ?m" by simp
    have ap: "areas_apart (str + j) (length [c] + Suc (length r)) (format + i) (Suc (length (c # d # cs)))" using prems3(5) r by simp
    note fs = format_step[OF prems3(3) ap w]
    have "list_all2 (arg_word (str + j + 1) (Suc (length r)) ?m) args ws"
      using arg_word_wrote[OF prems3(4) w, of "Suc (length r)"] r by simp
    then obtain m' where m': "vsprintf_loop fp str format ws (i + 1) (j + 1) ?m = Some (j + 1 + of_nat (length r), m')" "wrote (str + (j + 1)) r ?m m'"
      using IH[OF _ r(1), of "i + 1" ?m "j + 1" ws] prems3(2,6) fs r(2) False 3 by (auto simp: add.assoc)
    have "wrote (str + j) ([c] @ r) m m'" by (rule wrote_append[OF w]) (use m'(2) prems3(6) r(2) in \<open>simp_all add: add.assoc\<close>)
    moreover have "vsprintf_loop fp str format ws i j m = vsprintf_loop fp str format ws (i + 1) (j + 1) ?m"
      using b nc by (subst vsprintf_loop.simps) simp
    ultimately show ?thesis using m'(1) r(2) by (simp add: add.assoc)
  next
    case True
    obtain p as r where p: "piece d args = Some (p, as)" "kformat cs as = Some r" "out = p @ r"
      using prems3(1) unfolding True kformat_piece by (auto split: bind_splits)
    have n: "length p < Suc (length out)" "length p < 2 ^ 32" using p(3) prems3(6) by simp_all
    obtain vs m1 where m1: "print_conv (of_char d) (str + j) ws m = Some (of_nat (length p), vs, m1)" "wrote (str + j) p m m1"
      "list_all2 (arg_word (str + j) (Suc (length out)) m) as vs" using print_conv_piece[OF p(1) prems3(4) n] by blast
    have k: "Suc (length out) = length p + Suc (length r)" using p(3) by simp
    have ap: "areas_apart (str + j) (length p + Suc (length r)) (format + i) (Suc (length (c # d # cs)))" using prems3(5) k by simp
    note fs = format_step[OF prems3(3) ap m1(2)]
    have f2: "str_at (format + (i + 2)) cs m1" using fs(1) by (simp add: add.assoc)
    have ap2: "areas_apart (str + j + of_nat (length p)) (Suc (length r)) (format + (i + 2)) (Suc (length cs))"
      using areas_apart_drop[of "str + j + of_nat (length p)" 0 "Suc (length r)" "format + i + 1" 1 "Suc (length cs)"] fs(2) by (simp add: add.assoc)
    have "list_all2 (arg_word (str + j + of_nat (length p)) (Suc (length r)) m1) as vs"
      by (rule arg_word_wrote[OF m1(3,2) n(1) k])
    moreover have nf: "d \<noteq> CHR ''f''" "plain_format cs" using prems3(2) True by auto
    ultimately obtain m' where m': "vsprintf_loop fp str format vs (i + 2) (j + of_nat (length p)) m1 = Some (j + of_nat (length p) + of_nat (length r), m')"
      "wrote (str + (j + of_nat (length p))) r m1 m'"
      using IH[OF _ p(2), of "i + 2" m1 "j + of_nat (length p)" vs] f2 ap2 3 prems3(6) p(3) by (auto simp: add.assoc)
    have "wrote (str + j) (p @ r) m m'" by (rule wrote_append[OF m1(2)]) (use m'(2) prems3(6) p(3) in \<open>simp_all add: add.assoc\<close>)
    moreover have "print_conv_fp fp (of_char d) (str + j) ws m = print_conv (of_char d) (str + j) ws m"
      using of_char_inj[of d "CHR ''f''"] nf(1) by (simp add: print_conv_fp_def)
    ultimately show ?thesis using m'(1) m1(1) b True p(3) by (subst vsprintf_loop.simps) (auto simp: add.assoc)
  qed
  qed
qed

lemma vsprintf_text:
  assumes "kformat fmt args = Some out" "plain_format fmt" "str_at format fmt m" "list_all2 (arg_word str (Suc (length out)) m) args ws"
    "areas_apart str (Suc (length out)) format (Suc (length fmt))" "length out < 2 ^ 32"
  shows "\<exists>m'. vsprintf fp str format ws m = Some (of_nat (length out), m') \<and> wrote str out m m'"
  using vsprintf_loop_text[of fmt args out format 0 m str 0 ws fp] assms by (simp add: vsprintf_def)

text \<open>A format without conversions: the characters are copied, and nothing behind them is written, no terminator either.\<close>

lemma vsprintf_literal:
  "str_at (format + i) fmt m \<Longrightarrow> CHR ''%'' \<notin> set fmt \<Longrightarrow> areas_apart (str + j) (Suc (length fmt)) (format + i) (Suc (length fmt)) \<Longrightarrow>
    vsprintf_loop fp str format ws i j m = Some (j + of_nat (length fmt), put_str (str + j) fmt m)"
proof (induction fmt arbitrary: i j m)
  case Nil
  then show ?case by (subst vsprintf_loop.simps) simp
next
  case (Cons c cs)
  let ?m = "m(str + j := of_char c)"
  have "wrote (str + j) [c] m (put_str (str + j) [c] m)" by (rule wrote_put(1)) simp
  then have w: "wrote (str + j) [c] m ?m" by simp
  have ap: "areas_apart (str + j) (length [c] + Suc (length cs)) (format + i) (Suc (length (c # cs)))" using Cons.prems(3) by simp
  note fs = format_step[OF Cons.prems(1) ap w]
  have nc: "(of_char c :: u8) \<noteq> 0x25" using of_char_inj[of c "CHR ''%''"] Cons.prems(2) by auto
  have "vsprintf_loop fp str format ws i j m = vsprintf_loop fp str format ws (i + 1) (j + 1) ?m"
    using Cons.prems(1) nc by (subst vsprintf_loop.simps) simp
  also have "\<dots> = Some (j + 1 + of_nat (length cs), put_str (str + (j + 1)) cs ?m)"
    using Cons.prems(2) fs by (intro Cons.IH) (simp_all add: add.assoc del: fun_upd_apply)
  finally show ?case by (simp add: add.assoc del: fun_upd_apply)
qed

subsection \<open>Scanning\<close>

lemma store_u32_apart: "areas_apart a 4 p n \<Longrightarrow> i < n \<Longrightarrow> store_u32 a w m (p + of_nat i) = m (p + of_nat i)"
proof -
  assume h: "areas_apart a 4 p n" "i < n"
  have "a + of_nat k \<noteq> p + of_nat i" if "k < 4" for k using h that unfolding areas_apart_def by blast
  from this[of 0] this[of 1] this[of 2] this[of 3] show ?thesis by (auto simp: store_u32_def)
qed

lemma load_store_apart: "areas_apart a 4 p 4 \<Longrightarrow> load_u32 p (store_u32 a w m) = load_u32 p m"
  using store_u32_apart[of a p 4 0 w m] store_u32_apart[of a p 4 1 w m] store_u32_apart[of a p 4 2 w m] store_u32_apart[of a p 4 3 w m]
  by (simp add: load_u32_def)

lemma kputint_first:
  obtains c cs where "kputint n = c # cs" "c = CHR ''-'' \<and> 0 > sint n \<and> cs = kputuint (- n) \<or> dec_char c \<and> 0 \<le> sint n" "c \<noteq> NUL"
proof (cases "0 \<le> sint n")
  case True
  obtain d cs where d: "kputuint n = digit d # cs" by (rule kputuint_first)
  then have "dec_char (digit d)" using kputuint_dec[of "digit d" n] by simp
  moreover from this have "digit d \<noteq> NUL" by (auto simp: dec_char_def NUL_def)
  ultimately show ?thesis using that[of "digit d" cs] True d by (simp add: kputint_def)
next
  case False
  then show ?thesis using that[of "CHR ''-''" "kputuint (- n)"] by (simp add: kputint_def NUL_def)
qed

lemma sscanf_int:
  assumes f: "str_at fmt ''%d'' m" and b: "str_at buf (kputint n) m"
    and ap: "areas_apart nslot 4 fmt 3" "areas_apart a 4 fmt 3"
  shows "\<exists>m'. sscanf nslot buf fmt [a] m = Some (1, m') \<and> load_u32 a m' = n \<and> (\<forall>x. 4 \<le> unat (x - a) \<longrightarrow> 4 \<le> unat (x - nslot) \<longrightarrow> m' x = m x)"
proof -
  have fb: "m fmt = 0x25" "m (fmt + 1) = 0x64" "m (fmt + 2) = 0" using f by (simp_all add: add.assoc)
  obtain c cs where c: "kputint n = c # cs" "c = CHR ''-'' \<and> 0 > sint n \<and> cs = kputuint (- n) \<or> dec_char c \<and> 0 \<le> sint n" "c \<noteq> NUL"
    by (rule kputint_first)
  have mb: "m buf = of_char c" "m buf \<noteq> 0" using b c by auto
  have nsp: "\<not> isspace (m buf)"
  proof
    assume "isspace (m buf)"
    then have "unat (m buf) \<in> {0x20, 0x0A, 0x09}" by (auto simp: isspace_def)
    then have "of_char c \<in> {0x20, 0x0A, 0x09 :: nat}" by (simp add: mb unat_of_char)
    then show False using c(2) by (auto simp: dec_char_def)
  qed
  then have sp: "skip_space buf m = Some buf" by (subst skip_space.simps) simp
  have dg: "\<not> bad_digit 10 (if m buf = 0x2D then m (buf + 1) else m buf)"
  proof (cases "0 \<le> sint n")
    case True
    then have d: "isdigit (m buf)" using c(2) mb by (auto simp: dec_char_byte)
    then have "m buf \<noteq> 0x2D" by (auto simp: isdigit_def)
    then show ?thesis using d by (auto simp: bad_digit_def isdigit_def)
  next
    case False
    then have k: "c = CHR ''-''" "cs = kputuint (- n)" using c(2) by auto
    obtain d ds where d: "kputuint (- n) = digit d # ds" by (rule kputuint_first)
    then have "dec_char (digit d)" using kputuint_dec[of "digit d" "- n"] by simp
    moreover have "m (buf + 1) = of_char (digit d)" using b c(1) k d by simp
    ultimately have "isdigit (m (buf + 1))" by (simp add: dec_char_byte)
    then show ?thesis using k(1) mb by (auto simp: bad_digit_def isdigit_def)
  qed
  let ?e = "buf + of_nat (length (kputint n))"
  let ?m1 = "if nslot \<noteq> 0 then store_u32 nslot ?e m else m"
  have st: "strtol buf nslot 10 m = Some (n, ?m1)" using strtol_kputint[of buf n "[]" m nslot] b by simp
  define m2 where "m2 = store_u32 a n ?m1"
  have num: "scan_number nslot None True 10 buf a m = Some m2" using st by (simp add: scan_number_def m2_def)
  have "m2 (fmt + of_nat 2) = m (fmt + of_nat 2)" unfolding m2_def using store_u32_apart[OF ap(2), of 2] store_u32_apart[OF ap(1), of 2] by auto
  then have e: "m2 (fmt + 2) = 0" using fb by simp
  have conv: "scan_conv nslot buf 0x64 (-1) None buf [a] 0 m = Some (load_u32 nslot m2 \<noteq> 0, load_u32 nslot m2, [], 1, m2)"
    using sp dg num by (simp add: scan_conv_def scan_base_def)
  have w: "scan_width (fmt + 1) m = Some (-1, fmt + 1)" "scan_qualifier (fmt + 1) m = (None, fmt + 1)" "scan_spaces fmt buf m = Some (fmt, buf)"
    using fb by (simp_all add: scan_width_def scan_qualifier_def scan_spaces_def isdigit_def isspace_def)
  have last: "vsscanf_loop nslot buf (fmt + 2) s [] 1 m2 = Some (1, m2)" for s by (subst vsscanf_loop.simps) (simp add: e)
  have "sscanf nslot buf fmt [a] m = Some (1, m2)"
    unfolding sscanf_def vsscanf_def by (subst vsscanf_loop.simps) (simp add: fb mb(2) w conv last add.assoc)
  moreover have "load_u32 a m2 = n" by (simp add: m2_def load_store_u32)
  moreover have "\<forall>x. 4 \<le> unat (x - a) \<longrightarrow> 4 \<le> unat (x - nslot) \<longrightarrow> m2 x = m x" by (simp add: m2_def store_u32_other)
  ultimately show ?thesis by blast
qed

text \<open>The loop of \<open>vsnprintf\<close> stops at the first character with an even code, however much room there is.\<close>

lemma snprintf_even: "str_at format (c # cs) m \<Longrightarrow> even (of_char c :: nat) \<Longrightarrow> snprintf str sz format ws m = Some (0, m)"
proof -
  assume h: "str_at format (c # cs) m" "even (of_char c :: nat)"
  have "bit (unat (m format)) 0 = bit (m format) 0" by (simp only: bit_unsigned_iff) simp
  then have "\<not> bit (m format) 0" using h by (simp add: bit_0 unat_of_char)
  then have "m format AND 1 = 0" by (simp add: and_one_eq mod_2_eq_odd bit_0)
  then show "snprintf str sz format ws m = Some (0, m)"
    unfolding snprintf_def vsnprintf_def by (subst vsnprintf_loop.simps) auto
qed

subsection \<open>Numbers\<close>

lemma atoi_loop_digits:
  "str_at p ds m \<Longrightarrow> \<forall>d\<in>set ds. dec_char d \<Longrightarrow> atoi_loop p r k m = Some (atoi_digits r ds, k + of_nat (length ds))"
proof (induction ds arbitrary: p r k)
  case Nil
  then show ?case by (subst atoi_loop.simps) (simp add: isdigit_def)
next
  case (Cons d ds)
  have d: "m p = of_char d" "dec_char d" using Cons.prems by auto
  then have "isdigit (m p)" by (simp add: dec_char_byte)
  have "(ucast (of_char d :: u8) - 48 :: u32) = of_nat (of_char d - 48)"
  proof (rule word_eqI_unat)
    have u: "unat (ucast (of_char d :: u8) :: u32) = of_char d" by (simp only: unat_u8_u32 unat_of_char)
    have "unat (ucast (of_char d :: u8) - 48 :: u32) = of_char d - 48"
      using d(2) u by (simp add: dec_char_def unat_sub word_le_nat_alt)
    moreover have "of_char d - 48 < (2 ^ 32 :: nat)" using d(2) by (auto simp: dec_char_def)
    ultimately show "unat (ucast (of_char d :: u8) - 48 :: u32) = unat (of_nat (of_char d - 48) :: u32)"
      using unat_of_nat_eq_u32 by metis
  qed
  moreover have "atoi_loop (p + 1) (r * 10 + of_nat (of_char d - 48)) (k + 1) m =
      Some (atoi_digits (r * 10 + of_nat (of_char d - 48)) ds, k + 1 + of_nat (length ds))"
    using Cons.prems by (intro Cons.IH) auto
  ultimately show ?case using \<open>isdigit (m p)\<close> d by (subst atoi_loop.simps) (simp add: dec_char_def add.assoc)
qed

text \<open>Only numbers without a sign are read; every negative number gives -1.\<close>

lemma atoi_libc_kputint:
  assumes "str_at p (kputint n) m"
  shows "atoi_libc p m = Some (if 0 \<le> sint n then n else -1)"
proof -
  obtain c cs where c: "kputint n = c # cs" "c = CHR ''-'' \<and> 0 > sint n \<and> cs = kputuint (- n) \<or> dec_char c \<and> 0 \<le> sint n" "c \<noteq> NUL"
    by (rule kputint_first)
  have m: "m p = of_char c" using assms c by simp
  have len: "strlen_libc p m = Some (of_nat (length (kputint n)))" by (rule strlen_libc_at[OF assms])
  show ?thesis
  proof (cases "0 \<le> sint n")
    case True
    then have k: "kputint n = kputuint n" "dec_char c" using c(2) by (auto simp: kputint_def)
    then have "m p \<noteq> 0x2D" using of_char_inj[of c "CHR ''-''"] m by (auto simp: dec_char_def)
    moreover have "atoi_loop p 0 0 m = Some (n, of_nat (length (kputint n)))"
      using atoi_loop_digits[of p "kputuint n" m 0 0] assms k(1) kputuint_dec[of _ n] atoi_kputuint[of n] by simp
    ultimately show ?thesis using len True by (simp add: atoi_libc_def)
  next
    case False
    then have k: "c = CHR ''-''" "cs = kputuint (- n)" using c(2) by auto
    have "str_at (p + 1) (kputuint (- n)) m" using assms c(1) k(2) by simp
    then have "atoi_loop (p + 1) 0 0 m = Some (- n, of_nat (length cs))"
      using atoi_loop_digits[of "p + 1" "kputuint (- n)" m 0 0] k(2) kputuint_dec[of _ "- n"] atoi_kputuint[of "- n"] by simp
    moreover have "m p = 0x2D" using m k(1) by simp
    moreover have "(of_nat (length cs) :: u32) \<noteq> of_nat (length (kputint n))" using c(1) by simp
    ultimately show ?thesis using len False by (simp add: atoi_libc_def)
  qed
qed

text \<open>\<open>itoa\<close> produces the digits from the last one and reverses them.\<close>

lemma uint_digits_last:
  "uint_digits num (10 ^ Suc k) = uint_digits (num div 10) (10 ^ k) @ [digit (num mod 10)]"
proof (induction k arbitrary: num)
  case 0
  then show ?case by (simp add: uint_digits.simps)
next
  case (Suc k)
  have "uint_digits num (10 ^ Suc (Suc k)) = digit (num div 10 ^ Suc (Suc k)) # uint_digits (num mod 10 ^ Suc (Suc k)) (10 ^ Suc k)"
    by (subst uint_digits.simps) simp
  also have "\<dots> = digit (num div 10 ^ Suc (Suc k)) # uint_digits (num mod 10 ^ Suc (Suc k) div 10) (10 ^ k) @ [digit (num mod 10 ^ Suc (Suc k) mod 10)]"
    by (simp only: Suc.IH)
  also have "num mod 10 ^ Suc (Suc k) div 10 = num div 10 mod 10 ^ Suc k" using mod_mult2_eq[of num 10 "10 ^ Suc k"] by simp
  also have "num mod 10 ^ Suc (Suc k) mod 10 = num mod 10" by (simp add: mod_mod_cancel)
  also have "num div 10 ^ Suc (Suc k) = num div 10 div 10 ^ Suc k" using div_mult2_eq[of num 10 "10 ^ Suc k"] by simp
  also have "digit (num div 10 div 10 ^ Suc k) # uint_digits (num div 10 mod 10 ^ Suc k) (10 ^ k) @ [digit (num mod 10)] =
      uint_digits (num div 10) (10 ^ Suc k) @ [digit (num mod 10)]"
    using uint_digits.simps[of "num div 10" "10 ^ Suc k"] by simp
  finally show ?case .
qed

lemma itoa_loop_eq:
  "n < 10 ^ Suc k \<Longrightarrow> 0 < k \<longrightarrow> 10 ^ k \<le> n \<Longrightarrow> itoa_loop s (int n) m = (s + of_nat (Suc k), put_str s (rev (uint_digits n (10 ^ k))) m)"
proof (induction k arbitrary: n s m)
  case 0
  then have "int n smod 10 = int n" "int n sdiv 10 = 0" by (auto simp: signed_modulo_int_def signed_divide_int_def)
  moreover have "of_char (digit n) = (of_nat (48 + n) :: u8)" using 0 by (intro digit_byte) simp
  ultimately show ?case by (subst itoa_loop.simps) (simp add: uint_digits.simps add.commute del: fun_upd_apply)
next
  case (Suc k)
  have q: "int n smod 10 = int (n mod 10)" "int n sdiv 10 = int (n div 10)"
    by (cases "n = 0"; simp add: signed_modulo_int_def signed_divide_int_def zmod_int zdiv_int)+
  have "10 ^ Suc k \<le> n" using Suc.prems(2) by simp
  then have b: "10 ^ k \<le> n div 10" "n div 10 < 10 ^ Suc k" using Suc.prems(1) by (simp_all add: less_mult_imp_div_less less_eq_div_iff_mult_less_eq mult.commute)
  have pos: "0 < n div 10" using b(1) by (metis less_le_trans zero_less_power zero_less_numeral)
  have "of_char (digit (n mod 10)) = (of_nat (48 + n mod 10) :: u8)" by (intro digit_byte) simp
  moreover have "itoa_loop (s + 1) (int (n div 10)) (m(s := word_of_int (int (n mod 10) + 48))) =
      (s + 1 + of_nat (Suc k), put_str (s + 1) (rev (uint_digits (n div 10) (10 ^ k))) (m(s := word_of_int (int (n mod 10) + 48))))"
    using b by (intro Suc.IH) simp_all
  ultimately show ?case using pos unfolding uint_digits_last
    by (subst itoa_loop.simps) (simp add: q Let_def add.commute add.left_commute del: fun_upd_apply)
qed

lemma word_of_int_inj: "0 \<le> i \<Longrightarrow> i < 2 ^ 32 \<Longrightarrow> 0 \<le> j \<Longrightarrow> j < 2 ^ 32 \<Longrightarrow> (word_of_int i :: u32) = word_of_int j \<longleftrightarrow> i = j"
  by (auto simp: word_of_int_eq_iff take_bit_int_eq_self)

lemma strrev_loop_eq:
  "0 \<le> i \<Longrightarrow> j < 2 ^ 31 \<Longrightarrow> 0 \<le> k \<Longrightarrow> k < 2 ^ 32 \<Longrightarrow>
    strrev_loop s i j m (s + word_of_int k) = (if i \<le> k \<and> k \<le> j then m (s + word_of_int (i + j - k)) else m (s + word_of_int k))"
proof (induction s i j m rule: strrev_loop.induct)
  case (1 s i j m)
  show ?case
  proof (cases "i < j")
    case True
    define m1 where "m1 = m(s + word_of_int i := m (s + word_of_int j), s + word_of_int j := m (s + word_of_int i))"
    have ap: "m1 (s + word_of_int x) = (if x = i then m (s + word_of_int j) else if x = j then m (s + word_of_int i) else m (s + word_of_int x))"
      if "0 \<le> x" "x < 2 ^ 32" for x
      using that True "1.prems" word_of_int_inj[of x i] word_of_int_inj[of x j] unfolding m1_def by auto
    have "strrev_loop s i j m = strrev_loop s (i + 1) (j - 1) m1"
      unfolding m1_def strrev_loop.simps[of s i j m] using True by (simp only: if_True)
    moreover have "strrev_loop s (i + 1) (j - 1) m1 (s + word_of_int k) =
        (if i + 1 \<le> k \<and> k \<le> j - 1 then m1 (s + word_of_int (i + 1 + (j - 1) - k)) else m1 (s + word_of_int k))"
      unfolding m1_def using "1.prems" by (intro "1.IH"[OF True]) linarith+
    moreover have "(if i + 1 \<le> k \<and> k \<le> j - 1 then m1 (s + word_of_int (i + 1 + (j - 1) - k)) else m1 (s + word_of_int k)) =
        (if i \<le> k \<and> k \<le> j then m (s + word_of_int (i + j - k)) else m (s + word_of_int k))"
    proof (cases "i + 1 \<le> k \<and> k \<le> j - 1")
      case True
      then show ?thesis using ap[of "i + j - k"] "1.prems" by auto
    next
      case False
      then show ?thesis using ap[of k] \<open>i < j\<close> "1.prems" by auto
    qed
    ultimately show ?thesis by (simp only:)
  next
    case False
    then have "strrev_loop s i j m = m" by (subst strrev_loop.simps) simp
    moreover have "i + j - k = k" if "i \<le> k" "k \<le> j" using that False by linarith
    ultimately show ?thesis by simp
  qed
qed

lemma strrev_put_at:
  assumes "0 < length cs" "length cs < 2 ^ 31" "k < 2 ^ 32"
  shows "strrev p (of_nat (length cs)) (put_str p cs m) (p + of_nat k) = put_str p (rev cs) m (p + of_nat k)"
proof -
  let ?n = "length cs"
  have j: "sint (of_nat ?n - 1 :: u32) = int (?n - 1)"
  proof -
    have "of_nat ?n - 1 = (of_nat (?n - 1) :: u32)" using assms(1) by (cases ?n) simp_all
    moreover have "unat (of_nat (?n - 1) :: u32) = ?n - 1" using assms(2) by (intro unat_of_nat_eq_u32) simp
    ultimately show ?thesis using sint_small[of "of_nat (?n - 1)"] assms(2) by (simp only:)
  qed
  have put: "put_str p ds m (p + of_nat q) = (if q < ?n then of_char (ds ! q) else m (p + of_nat q))"
    if "q < 2 ^ 32" "length ds = ?n" for ds q
    using that put_str_apply[of ds p m "p + of_nat q"] unat_of_nat_eq_u32[of q] assms by simp
  have at: "strrev p (of_nat ?n) (put_str p cs m) (p + word_of_int (int k)) =
      (if 0 \<le> int k \<and> int k \<le> int (?n - 1) then put_str p cs m (p + word_of_int (0 + int (?n - 1) - int k)) else put_str p cs m (p + word_of_int (int k)))"
    unfolding strrev_def j using assms by (intro strrev_loop_eq) simp_all
  show ?thesis
  proof (cases "k < ?n")
    case True
    then have "0 + int (?n - 1) - int k = int (?n - Suc k)" by simp
    then show ?thesis using True at put[of "?n - Suc k" cs] put[of k "rev cs"] assms by (simp add: rev_nth diff_diff_eq)
  next
    case False
    then have "\<not> k \<le> ?n - 1" using assms(1) by linarith
    then show ?thesis using False at put[of k cs] put[of k "rev cs"] assms by simp
  qed
qed

lemma strrev_put:
  assumes "0 < length cs" "length cs < 2 ^ 31"
  shows "strrev p (of_nat (length cs)) (put_str p cs m) = put_str p (rev cs) m"
proof
  fix x
  obtain k where "x = p + of_nat k" "k < 2 ^ 32"
  proof (rule that)
    show "x = p + of_nat (unat (x - p))" by simp
    show "unat (x - p) < 2 ^ 32" using unat_u32_less[of "x - p"] by simp
  qed
  then show "strrev p (of_nat (length cs)) (put_str p cs m) x = put_str p (rev cs) m x" using strrev_put_at[OF assms] by simp
qed

lemma sint_big: "2147483648 \<le> unat x \<Longrightarrow> sint (x :: u32) = int (unat x) - 4294967296"
proof -
  assume ge: "2147483648 \<le> unat x"
  obtain n where n: "unat x = n" by blast
  have lt: "n < 4294967296" using unat_u32_less[of x] by (simp add: n)
  have "uint x = int n" by (simp flip: n)
  then have "sint x = (int n + 2147483648) mod 4294967296 - 2147483648"
    by (simp add: sint_uint signed_take_bit_eq_take_bit_shift take_bit_eq_mod)
  also have "(int n + 2147483648) mod 4294967296 = (int n + 2147483648 - 4294967296) mod 4294967296" by (simp only: minus_mod_self2)
  also have "\<dots> = int n - 2147483648" using ge lt n by simp
  finally show ?thesis by (simp add: n)
qed

lemma sint_nonneg: "0 \<le> sint (x :: u32) \<longleftrightarrow> unat x < 2 ^ 31"
proof (cases "unat x < 2 ^ 31")
  case True
  then show ?thesis using sint_small[of x] by simp
next
  case False
  then have "sint x = int (unat x) - 4294967296" by (intro sint_big) simp
  then have "sint x < 0" using unat_u32_less[of x] by linarith
  then show ?thesis using False by simp
qed

lemma sint_minus:
  assumes "sint (x :: u32) < 0" "sint x \<noteq> - (2 ^ 31)"
  shows "0 \<le> sint (- x)"
proof -
  have ge: "2147483648 \<le> unat x" using assms(1) sint_nonneg[of x] by simp
  then have "int (unat x) \<noteq> 2147483648" using sint_big[of x] assms(2) by auto
  then have gt: "2147483648 < unat x" using ge by linarith
  have "- x = of_nat (4294967296 - unat x)" using unat_u32_less[of x] by (simp add: of_nat_diff)
  then have "unat (- x) = 4294967296 - unat x" using unat_of_nat_eq_u32[of "4294967296 - unat x"] gt by simp
  then have "unat (- x) < 2147483648" using gt by linarith
  then show ?thesis by (simp add: sint_nonneg)
qed

lemma uint_digits_length: "length (uint_digits num (10 ^ k)) = Suc k"
proof (induction k arbitrary: num)
  case 0
  then show ?case by (simp add: uint_digits.simps)
next
  case (Suc k)
  then show ?case by (subst uint_digits.simps) simp
qed

lemma kputuint_length: "length (kputuint u) \<le> 10"
  by (rule kputuint_shape[of u]) (simp add: uint_digits_length)

lemma itoa_digits:
  assumes "0 \<le> sint u" "m (r + of_nat (length (kputuint u))) = 0"
  obtains e m1 where "itoa_loop r (sint u) m = (e, m1)" "e = r + of_nat (length (kputuint u))"
    "strrev r (e - r) m1 = put_str r (kputuint u) m" "put_str r (kputuint u) m e = 0" "strlen_libc e (put_str r (kputuint u) m) = Some 0"
proof -
  obtain j where j: "kputuint u = uint_digits (unat u) (10 ^ j)" "unat u < 10 ^ Suc j" "0 < j \<Longrightarrow> 10 ^ j \<le> unat u" "j \<le> 9"
    by (rule kputuint_shape[of u]) blast
  let ?e = "r + of_nat (length (kputuint u))"
  have len: "length (kputuint u) = Suc j" unfolding j(1) by (rule uint_digits_length)
  have "sint u = int (unat u)" using assms(1) sint_small[of u] sint_nonneg[of u] by simp
  then have "itoa_loop r (sint u) m = (?e, put_str r (rev (kputuint u)) m)" using itoa_loop_eq[OF j(2), of r m] j(1,3) len by simp
  moreover have "strrev r (?e - r) (put_str r (rev (kputuint u)) m) = put_str r (kputuint u) m"
    using strrev_put[of "rev (kputuint u)" r m] len j(4) by simp
  moreover have z: "put_str r (kputuint u) m ?e = 0"
    using put_str_apply[of "kputuint u" r m ?e] assms(2) len j(4) by (simp add: unat_of_nat_eq_u32 del: of_nat_Suc)
  moreover have "strlen_libc ?e (put_str r (kputuint u) m) = Some 0" using strlen_libc_at[of ?e "[]"] z by simp
  ultimately show ?thesis by (intro that) simp_all
qed

lemma itoa_eq:
  assumes "sint val \<noteq> - (2 ^ 31)" "m (s + of_nat (length (kputint val))) = 0"
  shows "itoa val s m = Some (of_nat (length (kputint val)), put_str s (kputint val) m)"
proof (cases "0 \<le> sint val")
  case True
  then have "m (s + of_nat (length (kputuint val))) = 0" using assms(2) by (simp add: kputint_def)
  with True obtain e m1 where "itoa_loop s (sint val) m = (e, m1)" "e = s + of_nat (length (kputuint val))"
    "strrev s (e - s) m1 = put_str s (kputuint val) m" "put_str s (kputuint val) m e = 0" "strlen_libc e (put_str s (kputuint val) m) = Some 0"
    by (rule itoa_digits)
  then show ?thesis using True by (simp add: itoa_def kputint_def fun_upd_idem del: fun_upd_apply)
next
  case False
  let ?m = "m(s := 0x2D)" and ?r = "s + 1" and ?u = "- val"
  have u: "0 \<le> sint ?u" using False assms(1) by (intro sint_minus) simp_all
  have "kputint val = CHR ''-'' # kputuint ?u" using False by (simp add: kputint_def)
  moreover have "of_nat (Suc (length (kputuint ?u))) \<noteq> (0 :: u32)" using kputuint_length[of ?u] unat_of_nat_eq_u32[of "Suc (length (kputuint ?u))"] by fastforce
  ultimately have k: "kputint val = CHR ''-'' # kputuint ?u" "?m (?r + of_nat (length (kputuint ?u))) = 0" using assms(2) by (auto simp: add.assoc)
  from u k(2) obtain e m1 where "itoa_loop ?r (sint ?u) ?m = (e, m1)" "e = ?r + of_nat (length (kputuint ?u))"
    "strrev ?r (e - ?r) m1 = put_str ?r (kputuint ?u) ?m" "put_str ?r (kputuint ?u) ?m e = 0" "strlen_libc e (put_str ?r (kputuint ?u) ?m) = Some 0"
    by (rule itoa_digits)
  then show ?thesis using False k(1) by (simp add: itoa_def fun_upd_idem del: fun_upd_apply)
qed

subsection \<open>Print and scan\<close>

lemma areas_apart_below:
  assumes "unat p + a \<le> unat q \<and> unat q + b \<le> 2 ^ 32 \<or> unat q + b \<le> unat p \<and> unat p + a \<le> 2 ^ 32"
  shows "areas_apart p a q b"
  unfolding areas_apart_def
proof (intro allI impI notI)
  fix i j assume ij: "i < a" "j < b" "p + of_nat i = q + of_nat j"
  have "unat (p + of_nat i) = unat p + i" "unat (q + of_nat j) = unat q + j"
    using assms ij(1,2) by (auto simp: unat_word_ariths unat_of_nat take_bit_nat_eq_self)
  then have "unat p + i = unat q + j" using ij(3) by simp
  then show False using assms ij(1,2) by linarith
qed

text \<open>Printing an integer alone leaves the text and the terminator behind it.\<close>

lemma sprintf_int:
  assumes "str_at fmt ''%d'' m" "areas_apart buf 12 fmt 3"
  shows "sprintf fp buf fmt [n] m = Some (of_nat (length (kputint n)), put_str buf (kputint n @ [NUL]) m)"
proof -
  let ?m = "put_str buf (kputint n @ [NUL]) m"
  have fb: "m fmt = 0x25" "m (fmt + 1) = 0x64" "m (fmt + 2) = 0" using assms(1) by (simp_all add: add.assoc)
  have "length (kputint n) \<le> 11" using kputuint_length[of n] kputuint_length[of "- n"] by (simp add: kputint_def)
  then have "areas_apart buf (length (kputint n @ [NUL])) fmt 3" by (intro areas_apart_mono[OF assms(2)]) simp_all
  then have "?m (fmt + of_nat 2) = m (fmt + of_nat 2)" by (rule areas_apart_put) simp
  then have end_byte: "?m (fmt + 2) = 0" using fb(3) by simp
  have "print_conv_fp fp 0x64 buf [n] m = Some (of_nat (length (kputint n)), [], ?m)"
    by (simp add: print_conv_fp_def print_conv_def sputint_eq)
  then have "vsprintf_loop fp buf fmt [n] 0 0 m = vsprintf_loop fp buf fmt [] 2 (of_nat (length (kputint n))) ?m"
    using fb by (subst vsprintf_loop.simps) simp
  also have "\<dots> = Some (of_nat (length (kputint n)), ?m)" using end_byte by (subst vsprintf_loop.simps) simp
  finally show ?thesis by (simp add: sprintf_def vsprintf_def)
qed

lemma kputint_no_nul: "NUL \<notin> set (kputint n)"
  by (cases "0 \<le> sint n") (auto simp: kputint_def NUL_def dec_char_def dest!: kputuint_dec)

lemma sprintf_sscanf:
  assumes "str_at fmt ''%d'' m" "areas_apart buf 12 fmt 3" "areas_apart nslot 4 fmt 3" "areas_apart a 4 fmt 3"
  shows "\<exists>k m1 m2. sprintf fp buf fmt [n] m = Some (k, m1) \<and> sscanf nslot buf fmt [a] m1 = Some (1, m2) \<and> load_u32 a m2 = n"
proof -
  let ?m = "put_str buf (kputint n @ [NUL]) m"
  have len: "length (kputint n) \<le> 11" using kputuint_length[of n] kputuint_length[of "- n"] by (simp add: kputint_def)
  have "areas_apart buf (length (kputint n @ [NUL])) fmt (Suc (length ''%d''))" using len by (intro areas_apart_mono[OF assms(2)]) simp_all
  then have "str_at fmt ''%d'' ?m" using str_at_put assms(1) by blast
  moreover have "str_at buf (kputint n) ?m" using len by (intro put_str_at kputint_no_nul) simp
  ultimately show ?thesis using sscanf_int[of fmt ?m buf n nslot a] sprintf_int[OF assms(1,2), of fp n] assms(3,4) by blast
qed

end
