(* ===== verification/Libc_Print.thy ===== *)
theory Libc_Print
  imports Libc_Facts
begin

text \<open>
  Printing to a stream (\<open>vfprintf\<close>, \<open>fprintf\<close> and \<open>printf\<close> of \<open>libraries/libc/stdio.c\<close>) on a descriptor whose device takes bytes in
  order: what arrives there is the text the reference \<open>kformat\<close> makes of the format and the arguments.
\<close>

subsection \<open>A device that takes bytes in order\<close>

text \<open>The writes to \<open>fid\<close> append to the text received so far, whatever the position in the file.\<close>

definition appends :: "string os \<Rightarrow> int \<Rightarrow> bool" where
  "appends os fid \<longleftrightarrow> (\<forall>seek len p m w. os_write os fid seek len p m w = (uint len, w @ load_bytes p (unat len) m))"

definition stream_to :: "ptr \<Rightarrow> int \<Rightarrow> ('w, 'z) stdio_scheme \<Rightarrow> bool" where
  "stream_to f fid s \<longleftrightarrow> (\<exists>fd. files s f = Some fd \<and> f_id fd = fid)"

text \<open>The memory is as before but for the two places that printing uses on the stack.\<close>

definition same_outside :: "ptr \<Rightarrow> ptr \<Rightarrow> mem8 \<Rightarrow> mem8 \<Rightarrow> bool" where
  "same_outside slot tmp m m' \<longleftrightarrow> (\<forall>x. 4 \<le> unat (x - slot) \<longrightarrow> 100 \<le> unat (x - tmp) \<longrightarrow> m' x = m x)"

lemma same_outside_refl: "same_outside slot tmp m m"
  by (simp add: same_outside_def)

lemma same_outside_trans: "same_outside slot tmp m m1 \<Longrightarrow> same_outside slot tmp m1 m2 \<Longrightarrow> same_outside slot tmp m m2"
  by (simp add: same_outside_def)

definition clear_of :: "ptr \<Rightarrow> ptr \<Rightarrow> ptr \<Rightarrow> nat \<Rightarrow> bool" where
  "clear_of slot tmp q n \<longleftrightarrow> areas_apart slot 4 q n \<and> areas_apart tmp 100 q n"

lemma areas_apart_far: "areas_apart d k q n \<Longrightarrow> i < n \<Longrightarrow> k \<le> unat (q + of_nat i - d)"
proof (rule ccontr)
  assume h: "areas_apart d k q n" "i < n" "\<not> k \<le> unat (q + of_nat i - d)"
  then have "d + of_nat (unat (q + of_nat i - d)) \<noteq> q + of_nat i" unfolding areas_apart_def not_le by blast
  then show False by simp
qed

lemma str_at_same: "same_outside slot tmp m m' \<Longrightarrow> clear_of slot tmp q (Suc (length cs)) \<Longrightarrow> str_at q cs m' = str_at q cs m"
  unfolding same_outside_def clear_of_def
  using areas_apart_far[of slot 4 q "Suc (length cs)"] areas_apart_far[of tmp 100 q "Suc (length cs)"] by (intro str_at_cong) (simp add: less_Suc_eq_le)

lemma clear_of_drop: "clear_of slot tmp q (Suc n) \<Longrightarrow> clear_of slot tmp (q + 1) n"
  using areas_apart_drop[of slot 0 4 q 1 n] areas_apart_drop[of tmp 0 100 q 1 n] by (simp add: clear_of_def)

subsection \<open>Single writes\<close>

lemma load_bytes_str: "str_at p cs m \<Longrightarrow> load_bytes p (length cs) m = cs"
  by (rule nth_equalityI) (auto dest: str_at_byte simp: char_byte)

lemma fwrite_appends:
  assumes "appends os fid" "stream_to f fid s"
  obtains r s' where "fwrite os p sz count f s = Some (r, s')" "world s' = world s @ load_bytes p (unat (sz * count)) (kh_bytes s)"
    "kh_bytes s' = kh_bytes s" "stream_to f fid s'"
  using assms by (auto simp: fwrite_def stream_to_def appends_def Let_def)

lemma fputs_appends:
  assumes "appends os fid" "stream_to f fid s" "str_at p cs (kh_bytes s)"
  obtains r s' where "fputs os p f s = Some (r, s')" "world s' = world s @ cs" "kh_bytes s' = kh_bytes s" "stream_to f fid s'"
proof -
  obtain r s' where "fwrite os p (of_nat (length cs)) 1 f s = Some (r, s')"
    "world s' = world s @ load_bytes p (unat (of_nat (length cs) * 1 :: u32)) (kh_bytes s)" "kh_bytes s' = kh_bytes s" "stream_to f fid s'"
    by (rule fwrite_appends[OF assms(1,2)])
  then show ?thesis using that[of r s'] assms(3) str_at_length[OF assms(3)]
    by (simp add: fputs_def strlen_libc_at unat_of_nat_eq_u32 load_bytes_str)
qed

lemma fputc_appends:
  assumes "appends os fid" "stream_to f fid s" "ucast ch = (of_char c :: u8)"
  obtains r s' where "fputc os slot ch f s = Some (r, s')" "world s' = world s @ [c]" "same_outside slot tmp (kh_bytes s) (kh_bytes s')" "stream_to f fid s'"
proof -
  let ?s = "s\<lparr>kh_bytes := store_u32 slot ch (kh_bytes s)\<rparr>"
  have "stream_to f fid ?s" using assms(2) by (simp add: stream_to_def)
  then obtain r s' where s': "fwrite os slot 1 1 f ?s = Some (r, s')"
    "world s' = world ?s @ load_bytes slot (unat (1 * 1 :: u32)) (kh_bytes ?s)" "kh_bytes s' = kh_bytes ?s" "stream_to f fid s'"
    by (rule fwrite_appends[OF assms(1)])
  have "load_bytes slot 1 (store_u32 slot ch (kh_bytes s)) = [c]"
    using assms(3) by (simp add: load_bytes_def store_u32_def char_byte)
  moreover have "same_outside slot tmp (kh_bytes s) (store_u32 slot ch (kh_bytes s))"
    by (simp add: same_outside_def store_u32_other)
  ultimately show ?thesis using that[of r s'] s' by (simp add: fputc_def)
qed

subsection \<open>Conversions\<close>

lemma memset_zero: "snd (memset tmp 0 100 m) x = (if unat (x - tmp) < 100 then 0 else m x)"
  using memset_8_apply[of tmp 0 100 m x] by (simp add: memset_def memset_8_def word_less_nat_alt)

text \<open>The number is in the cleared array, so that it ends there with or without a terminator of its own.\<close>

lemma cleared_str:
  assumes "NUL \<notin> set cs" "length cs < 100"
  shows "str_at tmp cs (put_str tmp cs (snd (memset tmp 0 100 m)))"
    "put_str tmp (cs @ [NUL]) (snd (memset tmp 0 100 m)) = put_str tmp cs (snd (memset tmp 0 100 m))"
    "same_outside slot tmp m (put_str tmp cs (snd (memset tmp 0 100 m)))"
proof -
  let ?m = "put_str tmp cs (snd (memset tmp 0 100 m))"
  have z: "snd (memset tmp 0 100 m) (tmp + of_nat (length cs)) = 0"
    using assms(2) unat_of_nat_eq_u32[of "length cs"] by (simp add: memset_zero)
  have "put_str tmp cs (snd (memset tmp 0 100 m)) (tmp + of_nat (length cs)) = 0"
    using put_str_apply[of cs tmp "snd (memset tmp 0 100 m)" "tmp + of_nat (length cs)"] z assms(2) unat_of_nat_eq_u32[of "length cs"] by simp
  then show e: "put_str tmp (cs @ [NUL]) (snd (memset tmp 0 100 m)) = ?m" by (simp add: put_str_append fun_upd_idem del: fun_upd_apply)
  have "str_at tmp cs (put_str tmp (cs @ [NUL]) (snd (memset tmp 0 100 m)))" using assms by (intro put_str_at) simp_all
  then show "str_at tmp cs ?m" by (simp only: e)
  show "same_outside slot tmp m ?m" using assms(2) by (simp add: same_outside_def put_str_apply memset_zero)
qed

lemma print_number_appends:
  assumes "appends os fid" "stream_to f fid s" "NUL \<notin> set cs" "length cs < 100"
    "conv tmp (snd (memset tmp 0 100 (kh_bytes s))) = (of_nat (length cs), put_str tmp cs (snd (memset tmp 0 100 (kh_bytes s))))"
  obtains s' where "print_number os tmp conv f s = Some (of_nat (length cs), s')" "world s' = world s @ cs"
    "same_outside slot tmp (kh_bytes s) (kh_bytes s')" "stream_to f fid s'"
proof -
  note c = cleared_str[OF assms(3,4), where tmp = tmp and m = "kh_bytes s"]
  let ?s = "s\<lparr>kh_bytes := put_str tmp cs (snd (memset tmp 0 100 (kh_bytes s)))\<rparr>"
  have "stream_to f fid ?s" "str_at tmp cs (kh_bytes ?s)" using assms(2) c(1) by (simp_all add: stream_to_def)
  then obtain r s' where "fputs os tmp f ?s = Some (r, s')" "world s' = world ?s @ cs" "kh_bytes s' = kh_bytes ?s" "stream_to f fid s'"
    by (rule fputs_appends[OF assms(1)])
  then show ?thesis using that[of s'] c(3)[where slot = slot] assms(5) by (simp add: print_number_def)
qed

lemma kputuint_no_nul: "NUL \<notin> set (kputuint n)"
  by (auto simp: NUL_def dec_char_def dest!: kputuint_dec)

lemma hex_digit_no_nul: "hex_digit (t AND 0xF) \<noteq> NUL"
proof -
  have "unat (t AND 0xF) < 16" using unat_and_mask[of t 4] by (simp add: mask_eq_exp_minus_1)
  then have "(0 :: nat) < of_char (hex_digit (t AND 0xF))" by (cases "10 \<le> unat (t AND 0xF)") (simp_all add: hex_digit_def)
  moreover have "(of_char NUL :: nat) = 0" by (simp add: NUL_def)
  ultimately show ?thesis by (metis less_irrefl)
qed

lemma hex_digits_no_nul: "NUL \<notin> set (hex_digits u z is)" "length (hex_digits u z is) \<le> Suc (length is)"
  by (induction u z "is" rule: hex_digits.induct) (auto simp: hex_digit_no_nul[symmetric] hex_digit_no_nul Let_def)

lemma kputhex_no_nul: "NUL \<notin> set (kputhex u)" "length (kputhex u) < 100"
  using hex_digits_no_nul[of u True "[28, 24, 20, 16, 12, 8, 4]"] by (auto simp: kputhex_def NUL_def)

definition print_arg :: "ptr \<Rightarrow> ptr \<Rightarrow> mem8 \<Rightarrow> karg \<Rightarrow> u32 \<Rightarrow> bool" where
  "print_arg slot tmp m a w \<longleftrightarrow> arg_word slot 4 m a w \<and> arg_word tmp 100 m a w"

lemma print_arg_same: "same_outside slot tmp m m' \<Longrightarrow> list_all2 (print_arg slot tmp m) as ws \<Longrightarrow> list_all2 (print_arg slot tmp m') as ws"
proof (erule list_all2_mono)
  fix a w assume "same_outside slot tmp m m'" "print_arg slot tmp m a w"
  then show "print_arg slot tmp m' a w" using str_at_same[of slot tmp m m' w] by (cases a) (auto simp: print_arg_def clear_of_def)
qed

lemma file_conv_appends:
  assumes o: "appends os fid" and st: "stream_to f fid s" and p: "piece d args = Some (p, as)" and d: "d \<noteq> CHR ''f''"
    and a: "list_all2 (print_arg slot tmp (kh_bytes s)) args ws"
  shows "\<exists>vs s'. file_conv os fp slot tmp (of_char d) f ws s = Some (of_nat (length p), vs, s') \<and> world s' = world s @ p \<and>
    same_outside slot tmp (kh_bytes s) (kh_bytes s') \<and> stream_to f fid s' \<and> list_all2 (print_arg slot tmp (kh_bytes s)) as vs"
proof -
  note e = of_char_inj[of d]
  have c: "(of_char d :: u8) = 0x73 \<longleftrightarrow> d = CHR ''s''" "(of_char d :: u8) = 0x63 \<longleftrightarrow> d = CHR ''c''" "(of_char d :: u8) = 0x64 \<longleftrightarrow> d = CHR ''d''"
    "(of_char d :: u8) = 0x75 \<longleftrightarrow> d = CHR ''u''" "(of_char d :: u8) = 0x78 \<longleftrightarrow> d = CHR ''x''" "(of_char d :: u8) = 0x66 \<longleftrightarrow> d = CHR ''f''"
    using e[of "CHR ''s''"] e[of "CHR ''c''"] e[of "CHR ''d''"] e[of "CHR ''u''"] e[of "CHR ''x''"] e[of "CHR ''f''"] by simp_all
  note num = print_number_appends[OF o st, where slot = slot and tmp = tmp]
  have low: "ucast (scast (b :: u8) :: u32) = b" for b :: u8 by (rule bit_word_eqI) (auto simp: bit_simps)
  consider (s) str bs where "d = CHR ''s''" "args = Kstr str # bs" "p = str" "as = bs"
    | (c) x bs where "d = CHR ''c''" "args = Kchr x # bs" "p = [x]" "as = bs"
    | (i) v bs where "d = CHR ''d''" "args = Kint v # bs" "p = kputint v" "as = bs"
    | (u) v bs where "d = CHR ''u''" "args = Kuint v # bs" "p = kputuint v" "as = bs"
    | (x) v bs where "d = CHR ''x''" "args = Kuint v # bs" "p = kputhex v" "as = bs"
    | (o) "d \<notin> {CHR ''s'', CHR ''c'', CHR ''d'', CHR ''u'', CHR ''x''}" "p = [d]" "as = args"
    using p by (auto split: if_splits list.splits karg.splits)
  then show ?thesis
  proof cases
    case s
    then obtain w vs where w: "ws = w # vs" "str_at w str (kh_bytes s)" "list_all2 (print_arg slot tmp (kh_bytes s)) as vs"
      using a by (auto simp: list_all2_Cons1 print_arg_def)
    obtain r s' where "fputs os w f s = Some (r, s')" "world s' = world s @ str" "kh_bytes s' = kh_bytes s" "stream_to f fid s'"
      by (rule fputs_appends[OF o st w(2)])
    then show ?thesis using w s by (simp add: file_conv_def strlen_libc_at same_outside_refl)
  next
    case c
    then obtain w vs where w: "ws = w # vs" "ucast w = (of_char x :: u8)" "list_all2 (print_arg slot tmp (kh_bytes s)) as vs"
      using a by (auto simp: list_all2_Cons1 print_arg_def)
    obtain r s' where "fputc os slot (scast (ucast w :: u8)) f s = Some (r, s')" "world s' = world s @ [x]"
      "same_outside slot tmp (kh_bytes s) (kh_bytes s')" "stream_to f fid s'"
      by (rule fputc_appends[OF o st, of "scast (ucast w :: u8)" x slot tmp]) (use low w(2) in simp_all)
    then show ?thesis using w c by (simp add: file_conv_def)
  next
    case i
    then obtain vs where w: "ws = v # vs" "list_all2 (print_arg slot tmp (kh_bytes s)) as vs" using a by (auto simp: list_all2_Cons1 print_arg_def)
    have n: "NUL \<notin> set (kputint v)" "length (kputint v) < 100"
      using kputint_no_nul[of v] kputuint_length[of v] kputuint_length[of "- v"] by (simp_all add: kputint_def)
    obtain s' where "print_number os tmp (\<lambda>t. sputint t v) f s = Some (of_nat (length (kputint v)), s')" "world s' = world s @ kputint v"
      "same_outside slot tmp (kh_bytes s) (kh_bytes s')" "stream_to f fid s'"
      by (rule num[OF n, where conv = "\<lambda>t. sputint t v"]) (simp_all add: sputint_eq cleared_str(2)[OF n])
    then show ?thesis using w i by (simp add: file_conv_def)
  next
    case u
    then obtain vs where w: "ws = v # vs" "list_all2 (print_arg slot tmp (kh_bytes s)) as vs" using a by (auto simp: list_all2_Cons1 print_arg_def)
    have n: "NUL \<notin> set (kputuint v)" "length (kputuint v) < 100" using kputuint_no_nul[of v] kputuint_length[of v] by simp_all
    obtain s' where "print_number os tmp (\<lambda>t. sputuint t v) f s = Some (of_nat (length (kputuint v)), s')" "world s' = world s @ kputuint v"
      "same_outside slot tmp (kh_bytes s) (kh_bytes s')" "stream_to f fid s'"
      by (rule num[OF n, where conv = "\<lambda>t. sputuint t v"]) (simp_all add: sputuint_eq cleared_str(2)[OF n])
    then show ?thesis using w u by (simp add: file_conv_def)
  next
    case x
    then obtain vs where w: "ws = v # vs" "list_all2 (print_arg slot tmp (kh_bytes s)) as vs" using a by (auto simp: list_all2_Cons1 print_arg_def)
    obtain s' where "print_number os tmp (\<lambda>t. sputhex t v) f s = Some (of_nat (length (kputhex v)), s')" "world s' = world s @ kputhex v"
      "same_outside slot tmp (kh_bytes s) (kh_bytes s')" "stream_to f fid s'"
      by (rule num[OF kputhex_no_nul[of v], where conv = "\<lambda>t. sputhex t v"]) (simp_all add: sputhex_eq)
    then show ?thesis using w x by (simp add: file_conv_def)
  next
    case o
    obtain r s' where "fputc os slot (scast (of_char d :: u8)) f s = Some (r, s')" "world s' = world s @ [d]"
      "same_outside slot tmp (kh_bytes s) (kh_bytes s')" "stream_to f fid s'"
      by (rule fputc_appends[OF assms(1) st, of "scast (of_char d :: u8)" d slot tmp]) (use low in simp_all)
    then show ?thesis using a c d o by (simp add: file_conv_def)
  qed
qed

subsection \<open>Formats\<close>

lemma fputc_step:
  assumes "appends os fid" "stream_to f fid s" "kh_bytes s p = of_char c"
  obtains r s' where "fputc os slot (scast (kh_bytes s p)) f s = Some (r, s')" "world s' = world s @ [c]"
    "same_outside slot tmp (kh_bytes s) (kh_bytes s')" "stream_to f fid s'"
proof -
  have "ucast (scast (b :: u8) :: u32) = b" for b :: u8 by (rule bit_word_eqI) (auto simp: bit_simps)
  then show ?thesis using fputc_appends[OF assms(1,2), of "scast (kh_bytes s p)" c slot tmp] assms(3) that by auto
qed

lemma kformat_literal:
  assumes "kformat (c # cs) args = Some out" "plain_format (c # cs)" "c \<noteq> CHR ''%''"
  obtains r where "kformat cs args = Some r" "out = c # r" "plain_format cs"
  using assms by (cases cs) (auto split: bind_splits)

lemma kformat_conv:
  assumes "kformat (c # cs) args = Some out" "plain_format (c # cs)" "c = CHR ''%''"
  obtains d ds p as r where "cs = d # ds" "piece d args = Some (p, as)" "kformat ds as = Some r" "out = p @ r" "d \<noteq> CHR ''f''" "plain_format ds"
proof -
  obtain d ds where ds: "cs = d # ds" using assms by (cases cs) auto
  obtain p as r where "piece d args = Some (p, as)" "kformat ds as = Some r" "out = p @ r"
    using assms(1) unfolding ds assms(3) kformat_piece by (auto split: bind_splits)
  then show ?thesis using that ds assms(2,3) by simp
qed

lemma vfprintf_loop_text:
  assumes o: "appends os fid" and "kformat fmt args = Some out" "plain_format fmt" "stream_to f fid s" "str_at (format + i) fmt (kh_bytes s)"
    "list_all2 (print_arg slot tmp (kh_bytes s)) args ws" "clear_of slot tmp (format + i) (Suc (length fmt))"
  shows "\<exists>s'. vfprintf_loop os fp slot tmp f format ws i j s = Some (j + of_nat (length out), s') \<and> world s' = world s @ out \<and>
    same_outside slot tmp (kh_bytes s) (kh_bytes s')"
  using assms(2-)
proof (induction "length fmt" arbitrary: fmt args i j s ws out rule: less_induct)
  case less
  show ?case
  proof (cases fmt)
    case Nil
    then show ?thesis using less.prems by (subst vfprintf_loop.simps) (simp add: same_outside_refl)
  next
    case (Cons c cs)
    note prems = less.prems[unfolded Cons]
    have b: "kh_bytes s (format + i) = of_char c" "c \<noteq> NUL" using prems(4) by auto
    have cl: "clear_of slot tmp (format + (i + 1)) (Suc (length cs))" using clear_of_drop[of slot tmp "format + i" "Suc (length cs)"] prems(6) by (simp add: add.assoc)
    have t: "str_at (format + (i + 1)) cs m'" if "same_outside slot tmp (kh_bytes s) m'" for m'
      using str_at_same[OF that cl] prems(4) by (simp add: add.assoc)
    show ?thesis
    proof (cases "c = CHR ''%''")
      case False
      then obtain r where r: "kformat cs args = Some r" "out = c # r" "plain_format cs" by (rule kformat_literal[OF prems(1,2)])
      obtain x s1 where s1: "fputc os slot (scast (kh_bytes s (format + i))) f s = Some (x, s1)" "world s1 = world s @ [c]"
        "same_outside slot tmp (kh_bytes s) (kh_bytes s1)" "stream_to f fid s1"
        by (rule fputc_step[OF o prems(3) b(1)])
      obtain s2 where "vfprintf_loop os fp slot tmp f format ws (i + 1) (j + 1) s1 = Some (j + 1 + of_nat (length r), s2)"
        "world s2 = world s1 @ r" "same_outside slot tmp (kh_bytes s1) (kh_bytes s2)"
        using less.hyps[OF _ r(1,3) s1(4) t[OF s1(3)] print_arg_same[OF s1(3) prems(5)] cl, of "j + 1"] Cons by auto
      moreover have "(of_char c :: u8) \<noteq> 0x25" using of_char_inj[of c "CHR ''%''"] False by simp
      ultimately show ?thesis using s1 b r(2) same_outside_trans[OF s1(3), of "kh_bytes s2"]
        by (subst vfprintf_loop.simps) (simp add: add.assoc)
    next
      case True
      then obtain d ds p as r where k: "cs = d # ds" "piece d args = Some (p, as)" "kformat ds as = Some r" "out = p @ r" "d \<noteq> CHR ''f''" "plain_format ds"
        by (rule kformat_conv[OF prems(1,2)])
      have d: "kh_bytes s (format + (i + 1)) = of_char d" using t[OF same_outside_refl] k(1) by simp
      obtain vs s1 where s1: "file_conv os fp slot tmp (of_char d) f ws s = Some (of_nat (length p), vs, s1)" "world s1 = world s @ p"
        "same_outside slot tmp (kh_bytes s) (kh_bytes s1)" "stream_to f fid s1" "list_all2 (print_arg slot tmp (kh_bytes s)) as vs"
        using file_conv_appends[OF o prems(3) k(2,5) prems(5)] by blast
      have cl2: "clear_of slot tmp (format + (i + 2)) (Suc (length ds))"
        using clear_of_drop[of slot tmp "format + (i + 1)" "Suc (length ds)"] cl k(1) by (simp add: add.assoc)
      have "str_at (format + (i + 2)) ds (kh_bytes s1)" using t[OF s1(3)] k(1) by (simp add: add.assoc)
      then obtain s2 where "vfprintf_loop os fp slot tmp f format vs (i + 2) (j + of_nat (length p)) s1 = Some (j + of_nat (length p) + of_nat (length r), s2)"
        "world s2 = world s1 @ r" "same_outside slot tmp (kh_bytes s1) (kh_bytes s2)"
        using less.hyps[OF _ k(3,6) s1(4) _ print_arg_same[OF s1(3,5)] cl2, of "j + of_nat (length p)"] Cons k(1) by auto
      then show ?thesis using s1 b True d k(4) same_outside_trans[OF s1(3), of "kh_bytes s2"]
        by (subst vfprintf_loop.simps) (simp add: add.assoc)
    qed
  qed
qed

lemma printf_text:
  assumes "appends os fid" "stream_to (stdout s) fid s" "kformat fmt args = Some out" "plain_format fmt"
    "str_at format fmt (kh_bytes s)" "clear_of slot tmp format (Suc (length fmt))" "list_all2 (print_arg slot tmp (kh_bytes s)) args ws"
  shows "\<exists>s'. printf os fp slot tmp format ws s = Some (of_nat (length out), s') \<and> world s' = world s @ out \<and>
    same_outside slot tmp (kh_bytes s) (kh_bytes s')"
proof -
  let ?m = "snd (memset tmp 0 100 (kh_bytes s))"
  have same: "same_outside slot tmp (kh_bytes s) ?m" by (simp add: same_outside_def memset_zero)
  have "stream_to (stdout s) fid (s\<lparr>kh_bytes := ?m\<rparr>)" using assms(2) by (simp add: stream_to_def)
  moreover have "str_at (format + 0) fmt ?m" using str_at_same[OF same assms(6)] assms(5) by simp
  ultimately show ?thesis
    using vfprintf_loop_text[OF assms(1,3,4), of "stdout s" "s\<lparr>kh_bytes := ?m\<rparr>" format 0 slot tmp ws fp 0] print_arg_same[OF same assms(7)] assms(6)
      same_outside_trans[OF same] by (fastforce simp: printf_def vfprintf_def)
qed

end
