(* ===== verification/Bootstrap.thy ===== *)
theory Bootstrap
  imports Libc_Facts Elf
begin

text \<open>
  The start of a program, \<open>libraries/bootstrap.c\<close>: the function that the start code calls with the words the kernel's loader
  pushed on the stack. It sets up the streams and the allocator behind the arguments, which the loader put at the start of
  the heap, copies the arguments, and calls \<open>main\<close>. Also \<open>atexit\<close> of \<open>libraries/libc/stdlib.c\<close>. \<open>main\<close> and the call of a function by its
  address are parameters.
\<close>

subsection \<open>The code\<close>

definition BOOTSTRAP_MAGIC :: u32 where "BOOTSTRAP_MAGIC = 0xDB05DB05"

text \<open>\<open>caller\<close> is a static variable of a header: \<open>stdlib.c\<close> and \<open>bootstrap.c\<close> each have one.\<close>

record 'w program = "'w stdio" +
  stdlib_caller :: ptr
  bootstrap_caller :: ptr
  optind :: int

definition sizeof_at_exit :: u32 where "sizeof_at_exit = 8"

definition atexit :: "u32 \<Rightarrow> ('w, 'z) program_scheme \<Rightarrow> (int \<times> ('w, 'z) program_scheme) option" where
  "atexit callback s = do {
     (call, s) \<leftarrow> malloc sbrk sizeof_at_exit s;
     Some (if call = 0 then (-1, s)
           else (0, s\<lparr>kh_bytes := store_u32 call callback (store_u32 (call + 4) (stdlib_caller s) (kh_bytes s)), stdlib_caller := call\<rparr>))
   }"

partial_function (option) run_callers ::
  "(u32 \<Rightarrow> ('w, 'z) program_scheme \<Rightarrow> ('w, 'z) program_scheme option) \<Rightarrow> ('w, 'z) program_scheme \<Rightarrow> ('w, 'z) program_scheme option"
where
  "run_callers invoke s =
     (if bootstrap_caller s = 0 then Some s
      else do {
        s \<leftarrow> invoke (load_u32 (bootstrap_caller s) (kh_bytes s)) s;
        run_callers invoke (s\<lparr>bootstrap_caller := load_u32 (bootstrap_caller s + 4) (kh_bytes s)\<rparr>)
      })"

fun copy_arguments :: "ptr \<Rightarrow> nat \<Rightarrow> u32 \<Rightarrow> ptr \<Rightarrow> ('w, 'z) program_scheme \<Rightarrow> ('w, 'z) program_scheme option" where
  "copy_arguments arguments 0 i str s = Some s"
| "copy_arguments arguments (Suc n) i str s = do {
     len \<leftarrow> strlen_libc str (kh_bytes s);
     (arg, s) \<leftarrow> malloc sbrk (len + 1) s;
     let m = snd (strncpy_libc arg str len (kh_bytes s));
     copy_arguments arguments n (i + 1) (str + (len + 1)) (s\<lparr>kh_bytes := store_u32 (arguments + 4 * i) arg m\<rparr>)
   }"

definition bootstrap ::
  "(u32 \<Rightarrow> ('w, 'z) program_scheme \<Rightarrow> ('w, 'z) program_scheme option) \<Rightarrow> ptr \<Rightarrow> ptr \<Rightarrow> ptr \<Rightarrow>
   (u32 \<Rightarrow> ptr \<Rightarrow> ('w, 'z) program_scheme \<Rightarrow> (int \<times> ('w, 'z) program_scheme) option) \<Rightarrow>
   u32 \<Rightarrow> u32 \<Rightarrow> u32 \<Rightarrow> u32 \<Rightarrow> ('w, 'z) program_scheme \<Rightarrow> (int \<times> ('w, 'z) program_scheme) option"
where
  "bootstrap invoke stdin_s stdout_s stderr_s main magic current_end total_length argc s =
     (if magic \<noteq> BOOTSTRAP_MAGIC then Some (-999, s)
      else let (r, s) = alloc_initialise total_length current_end (stdio_init stdin_s stdout_s stderr_s s)
           in if r = -1 then Some (-9999, s)
              else do {
                (arguments, s) \<leftarrow> malloc sbrk (4 * argc) s;
                s \<leftarrow> copy_arguments arguments (nat (sint argc)) 0 ALLOC_HEAP_START s;
                (ret, s) \<leftarrow> main argc arguments (s\<lparr>optind := 1\<rparr>);
                s \<leftarrow> run_callers invoke s;
                Some (ret, s)
              })"

subsection \<open>Allocations of a program\<close>

definition user_budget :: "nat \<Rightarrow> 'z user_heap_scheme \<Rightarrow> bool" where
  "user_budget k s \<longleftrightarrow> wf_heap s \<and> kh_head s \<noteq> 0 \<and> heap_end_k s = kh_end s \<and>
     unat (kh_end s) + k \<le> unat (kh_start s) + 2 ^ 31 \<and> unat (kh_end s) + k < 2 ^ 32"

lemma user_budget_bytes: "user_budget k (s\<lparr>kh_bytes := m\<rparr>) = user_budget k s"
  by (simp add: user_budget_def wf_heap_bytes)

lemma malloc_effect:
  fixes s :: "'z user_heap_scheme"
  assumes "malloc sbrk n s = Some (p, s')" "heap_end_k s = kh_end s"
  shows "user_heap.more s' = user_heap.more s \<and> kh_start s' = kh_start s \<and> (kh_head s \<noteq> 0 \<longrightarrow> kh_head s' = kh_head s) \<and>
    heap_end_k s' = kh_end s' \<and> kh_end s' \<in> {kh_end s, fst (sbrk (heap_total_size n) s)}"
proof -
  have fin: "user_heap.more u' = user_heap.more u \<and> kh_start u' = kh_start u \<and> kh_head u' = kh_head u \<and> kh_end u' = kh_end u \<and> heap_end_k u' = heap_end_k u"
    if "heap_finish i u = Some (b, u')" for i b and u u' :: "'z user_heap_scheme"
    using that by (auto simp: heap_finish_def Let_def split: option.splits)
  have inc: "user_heap.more (alloc_increase_memory sbrk c s) = user_heap.more s" "heap_end_k (alloc_increase_memory sbrk c s) = fst (sbrk c s)"
    "kh_head (alloc_increase_memory sbrk c s) = kh_head s" "kh_start (alloc_increase_memory sbrk c s) = kh_start s"
    "kh_end (alloc_increase_memory sbrk c s) = fst (sbrk c s)" for c
    by (simp_all add: alloc_increase_memory_def sbrk_def Let_def)
  show ?thesis
  proof (cases "kh_head s = 0")
    case True
    then show ?thesis using assms by (auto simp: malloc_def alloc_allocate_def heap_allocate_def Let_def dest!: fin)
  next
    case False
    then obtain i k where ik: "heap_walk (kh_items s) n (kh_head s) = Some i" "kh_items s i = Some k"
      using assms by (auto simp: malloc_def alloc_allocate_def heap_allocate_def Let_def bind_eq_Some_conv)
    show ?thesis
    proof (cases "ka_next k = 0")
      case True
      then show ?thesis using assms False ik
        by (auto simp: malloc_def alloc_allocate_def heap_allocate_def Let_def inc split: if_splits dest!: fin)
    next
      case nz: False
      then show ?thesis using assms False ik by (auto simp: malloc_def alloc_allocate_def heap_allocate_def Let_def dest!: fin)
    qed
  qed
qed

lemma malloc_budget:
  assumes b: "user_budget (alloc_cost n + k) s" and n: "unat n < 2 ^ 30"
  obtains p s' where "malloc sbrk n s = Some (p, s')" "heap_allocated s n p s'" "user_budget k s'" "user_heap.more s' = user_heap.more s"
    "kh_start s' = kh_start s"
proof -
  have room: "sbrk_room (heap_total_size n) s"
    using b n heap_total_size_bounds(2)[of n] by (auto simp: user_budget_def sbrk_room_def alloc_cost_def)
  then have "pb.user_fits n s" "wf_heap s" using b n by (auto simp: pb.user_fits_def user_budget_def)
  then obtain p s' where p: "malloc sbrk n s = Some (p, s')" "heap_allocated s n p s'" using pb.alloc_allocate_ok unfolding malloc_def by blast
  have "heap_end_k s = kh_end s" using b by (simp add: user_budget_def)
  note eff = malloc_effect[OF p(1) this]
  have "unat (kh_end s') \<le> unat (kh_end s) + alloc_cost n" using eff sbrk_fst[OF room] by (auto simp: alloc_cost_def)
  moreover have "wf_heap s'" using p(2) by (simp add: heap_allocated_def)
  ultimately have "user_budget k s'" using b eff by (auto simp: user_budget_def)
  then show ?thesis using that p eff by blast
qed

subsection \<open>Arguments\<close>

text \<open>Strings one behind the other, each with its terminator.\<close>

fun args_at :: "ptr \<Rightarrow> string list \<Rightarrow> mem8 \<Rightarrow> bool" where
  "args_at p [] m \<longleftrightarrow> True"
| "args_at p (a # as) m \<longleftrightarrow> str_at p a m \<and> args_at (p + of_nat (Suc (length a))) as m"

definition args_length :: "string list \<Rightarrow> nat" where
  "args_length as = sum_list (map (\<lambda>a. Suc (length a)) as)"

lemma args_length_simps [simp]: "args_length [] = 0" "args_length (a # as) = Suc (length a) + args_length as"
  by (simp_all add: args_length_def)

lemma args_at_cong:
  "(\<And>i. i < args_length as \<Longrightarrow> m' (p + of_nat i) = m (p + of_nat i)) \<Longrightarrow> args_at p as m' = args_at p as m"
proof (induction as arbitrary: p)
  case (Cons a as)
  have "str_at p a m' = str_at p a m" by (rule str_at_cong) (use Cons.prems in simp)
  moreover have "args_at (p + of_nat (Suc (length a))) as m' = args_at (p + of_nat (Suc (length a))) as m"
  proof (rule Cons.IH)
    fix i assume "i < args_length as"
    then show "m' (p + of_nat (Suc (length a)) + of_nat i) = m (p + of_nat (Suc (length a)) + of_nat i)"
      using Cons.prems[of "Suc (length a) + i"] by (simp add: add.assoc)
  qed
  ultimately show ?case by simp
qed simp

definition args_cost :: "string list \<Rightarrow> nat" where
  "args_cost as = sum_list (map (\<lambda>a. alloc_cost (of_nat (length a) + 1)) as)"

lemma strncpy_at:
  assumes "str_at (src + i) cs m" "areas_apart (dst + i) (length cs) (src + i) (Suc (length cs))" "length cs \<le> n"
  shows "strncpy_loop dst src i n m = put_str (dst + i) cs m"
  using assms
proof (induction cs arbitrary: i n m)
  case Nil
  then show ?case by (cases n) simp_all
next
  case (Cons c cs)
  then obtain k where n: "n = Suc k" "length cs \<le> k" by (cases n) auto
  let ?m = "m(dst + i := of_char c)"
  have "areas_apart (dst + i) 1 (src + i + 1) (Suc (length cs))"
    using areas_apart_drop[of "dst + i" 0 1 "src + i" 1 "Suc (length cs)"] areas_apart_mono[OF Cons.prems(2), of 1] by simp
  then have "str_at (src + i + 1) cs (put_str (dst + i) [c] m) = str_at (src + i + 1) cs m" by (intro str_at_put) simp
  then have "str_at (src + (i + 1)) cs ?m" using Cons.prems(1) by (simp add: add.assoc)
  moreover have "areas_apart (dst + (i + 1)) (length cs) (src + (i + 1)) (Suc (length cs))"
    using areas_apart_drop[of "dst + i" 1 "length cs" "src + i" 1 "Suc (length cs)"] Cons.prems(2) by (simp add: add.assoc)
  ultimately have "strncpy_loop dst src (i + 1) k ?m = put_str (dst + (i + 1)) cs ?m" using n(2) by (rule Cons.IH)
  then show ?case using Cons.prems(1) n(1) by (simp add: add.assoc del: fun_upd_apply)
qed

subsection \<open>Blocks of the heap\<close>

lemma live_above: "wf_heap s \<Longrightarrow> (p, n) \<in> heap_live s \<Longrightarrow> x \<in> area (p, n) \<Longrightarrow> unat (kh_start s) < x"
proof -
  assume h: "wf_heap s" "(p, n) \<in> heap_live s" "x \<in> area (p, n)"
  then obtain bs where w: "wf_blocks s bs" by (auto simp: wf_heap_def)
  obtain a k where a: "(a, k) \<in> set bs" "area (p, n) = {unat a + 9 ..< unat a + block_len (a, k)}" using live_block[OF w h(2)] by metis
  then have "unat (kh_start s) \<le> unat a" using w tiled_range[of "unat (kh_start s)" bs "(a, k)"] by (auto simp: wf_blocks_def)
  then show ?thesis using a(2) h(3) by auto
qed

lemma str_at_area:
  assumes "\<And>x. unat x \<in> area (p, n) \<Longrightarrow> m' x = m x" "length cs < unat n" "unat p + unat n < 2 ^ 32"
  shows "str_at p cs m' = str_at p cs m"
  by (rule str_at_cong) (use assms area_byte(1)[OF assms(3)] in auto)

subsection \<open>One argument\<close>

text \<open>The block for the copy is new, so nothing but the block changes.\<close>

lemma copy_argument:
  assumes b: "user_budget (alloc_cost (of_nat (length a) + 1) + k) s" and a: "str_at str a (kh_bytes s)"
    and below: "unat str + Suc (length a) \<le> unat (kh_start s)" and small: "length a < 2 ^ 20"
  obtains arg n s1 m1 where "malloc sbrk (of_nat (length a) + 1) s = Some (arg, s1)" "snd (strncpy_libc arg str (of_nat (length a)) (kh_bytes s1)) = m1"
    "heap_live s1 = insert (arg, n) (heap_live s)" "arg \<notin> fst ` heap_live s" "length a < unat n" "str_at arg a m1"
    "\<forall>x. unat x \<notin> area (arg, n) \<longrightarrow> m1 x = kh_bytes s x" "\<forall>q\<in>heap_live s. area q \<inter> area (arg, n) = {}"
    "user_budget k s1" "user_heap.more s1 = user_heap.more s" "kh_start s1 = kh_start s"
proof -
  have sz: "unat (of_nat (length a) + 1 :: u32) = Suc (length a)" using small by (simp add: unat_word_ariths unat_of_nat take_bit_nat_eq_self)
  obtain arg s1 where s1: "malloc sbrk (of_nat (length a) + 1) s = Some (arg, s1)" "heap_allocated s (of_nat (length a) + 1) arg s1"
    "user_budget k s1" "user_heap.more s1 = user_heap.more s" "kh_start s1 = kh_start s"
    by (rule malloc_budget[OF b]) (use sz small in simp)
  obtain n where n: "of_nat (length a) + 1 \<le> n" "heap_live s1 = insert (arg, n) (heap_live s)" "\<forall>b \<in> heap_live s. area b \<inter> area (arg, n) = {}"
    "\<forall>x. kh_bytes s1 x = (if unat x \<in> area (arg, n) then 0 else kh_bytes s x)" "arg \<notin> fst ` heap_live s" "wf_heap s1"
    using s1(2) by (auto simp: heap_allocated_def)
  have len: "length a < unat n" using n(1) sz by (simp add: word_le_nat_alt)
  have live: "(arg, n) \<in> heap_live s1" using n(2) by simp
  have nw: "unat arg + unat n < 2 ^ 32" by (rule live_no_wrap[OF n(6) live])
  have above: "unat (kh_start s) < unat arg + i" if "i < unat n" for i
    using live_above[OF n(6) live area_byte(1)[OF nw that]] area_byte(2)[OF nw that] s1(5) by simp
  have src: "unat (str + of_nat i) = unat str + i" if "i \<le> length a" for i
    using that below unat_u32_less[of "kh_start s"] by (simp add: unat_word_ariths unat_of_nat take_bit_nat_eq_self)
  have "kh_bytes s1 (str + of_nat i) = kh_bytes s (str + of_nat i)" if "i \<le> length a" for i
    using n(4) live_above[OF n(6) live] src[OF that] below that s1(5) by fastforce
  then have a1: "str_at str a (kh_bytes s1)" using a str_at_cong[of a "kh_bytes s1" str "kh_bytes s"] by simp
  have ap: "areas_apart arg (length a) str (Suc (length a))"
    using above[of 0] len below nw by (intro areas_apart_below) simp
  define m1 where "m1 = put_str arg a (kh_bytes s1)"
  have run: "snd (strncpy_libc arg str (of_nat (length a)) (kh_bytes s1)) = m1"
    using strncpy_at[of str 0 a "kh_bytes s1" arg] a1 ap small by (simp add: strncpy_libc_def m1_def unat_of_nat_eq_u32)
  have m1: "m1 x = (if unat (x - arg) < length a then of_char (a ! unat (x - arg)) else kh_bytes s1 x)" for x
    using put_str_apply[of a arg "kh_bytes s1" x] small by (simp add: m1_def)
  have "put_str arg (a @ [NUL]) (kh_bytes s1) = m1"
  proof -
    have "m1 (arg + of_nat (length a)) = 0" using m1[of "arg + of_nat (length a)"] n(4) area_byte(1)[OF nw len] small by (simp add: unat_of_nat_eq_u32)
    then show ?thesis by (simp add: put_str_append m1_def fun_upd_idem del: fun_upd_apply)
  qed
  moreover have "NUL \<notin> set a" using str_at_byte[OF a] by (auto simp: in_set_conv_nth)
  ultimately have "str_at arg a m1" using put_str_at[of a arg "kh_bytes s1"] small by simp
  moreover have "m1 x = kh_bytes s x" if "unat x \<notin> area (arg, n)" for x
  proof -
    have "\<not> unat (x - arg) < length a"
      using that area_byte(1)[OF nw, of "unat (x - arg)"] len by auto
    then show ?thesis using m1[of x] n(4) that by simp
  qed
  ultimately show ?thesis using that[of arg s1 m1 n] s1 n run len by blast
qed

subsection \<open>All arguments\<close>

text \<open>The entries of the argument vector that are filled: each points to a block of its own with the string.\<close>

definition arg_entry :: "ptr \<Rightarrow> nat \<Rightarrow> string \<Rightarrow> 'z kheap_scheme \<Rightarrow> bool" where
  "arg_entry arguments j a s \<longleftrightarrow> (\<exists>q n. load_u32 (arguments + 4 * of_nat j) (kh_bytes s) = q \<and> (q, n) \<in> heap_live s \<and> q \<noteq> arguments \<and>
     length a < unat n \<and> str_at q a (kh_bytes s))"

lemma vector_byte:
  assumes "unat p + unat n < 2 ^ 32" "4 * j + 4 \<le> unat n"
  shows "unat (p + 4 * of_nat j) = unat p + 4 * j" "\<And>x. unat (x - (p + 4 * of_nat j)) < 4 \<Longrightarrow> unat x \<in> area (p, n)"
proof -
  have e: "p + 4 * of_nat j = p + of_nat (4 * j)" by simp
  show "unat (p + 4 * of_nat j) = unat p + 4 * j" unfolding e using assms by (intro area_byte(2)[of p n]) simp_all
  fix x assume t: "unat (x - (p + 4 * of_nat j)) < 4"
  have "x = p + of_nat (4 * j + unat (x - (p + 4 * of_nat j)))" by simp
  then show "unat x \<in> area (p, n)" using area_byte(1)[OF assms(1), of "4 * j + unat (x - (p + 4 * of_nat j))"] assms(2) t by simp
qed

lemma load_u32_cong: "(\<And>x. unat (x - p) < 4 \<Longrightarrow> m' x = m x) \<Longrightarrow> load_u32 p m' = load_u32 p m"
  by (simp add: load_u32_def)

lemma arg_entry_kept:
  assumes e: "arg_entry arguments j a s" and wf: "wf_heap s" and l: "(arguments, n) \<in> heap_live s" "4 * j + 4 \<le> unat n" "4 * i + 4 \<le> unat n" "i \<noteq> j"
    and new: "\<And>x. unat x \<notin> area (arg, na) \<Longrightarrow> m1 x = kh_bytes s x" "\<And>q. q \<in> heap_live s \<Longrightarrow> area q \<inter> area (arg, na) = {}"
    and s': "kh_bytes s' = store_u32 (arguments + 4 * of_nat i) arg m1" "heap_live s \<subseteq> heap_live s'"
  shows "arg_entry arguments j a s'"
proof -
  obtain q nq where q: "load_u32 (arguments + 4 * of_nat j) (kh_bytes s) = q" "(q, nq) \<in> heap_live s" "q \<noteq> arguments" "length a < unat nq" "str_at q a (kh_bytes s)"
    using e by (auto simp: arg_entry_def)
  note nw = live_no_wrap[OF wf l(1)]
  have out: "m1 x = kh_bytes s x" if "unat x \<in> area b" "b \<in> heap_live s" for x b using new that by blast
  have "load_u32 (arguments + 4 * of_nat j) (kh_bytes s') = load_u32 (arguments + 4 * of_nat j) m1"
    unfolding s'(1) using vector_byte(1)[OF nw l(2)] vector_byte(1)[OF nw l(3)] l nw by (intro load_store_apart areas_apart_below) auto
  also have "\<dots> = q" using load_u32_cong[of "arguments + 4 * of_nat j" m1 "kh_bytes s"] vector_byte(2)[OF nw l(2)] out[OF _ l(1)] q(1) by blast
  finally have "load_u32 (arguments + 4 * of_nat j) (kh_bytes s') = q" .
  moreover have "str_at q a (kh_bytes s')"
  proof -
    have "kh_bytes s' x = kh_bytes s x" if x: "unat x \<in> area (q, nq)" for x
    proof -
      have "area (q, nq) \<inter> area (arguments, n) = {}" using wf_live_disjoint[OF wf q(2) l(1)] q(3) by simp
      then have "\<not> unat (x - (arguments + 4 * of_nat i)) < 4" using vector_byte(2)[OF nw l(3)] x by blast
      then show ?thesis unfolding s'(1) using out[OF x q(2)] by (simp add: store_u32_other)
    qed
    then show ?thesis using str_at_area[OF _ q(4) live_no_wrap[OF wf q(2)]] q(5) by blast
  qed
  ultimately show ?thesis using q s'(2) unfolding arg_entry_def by blast
qed

lemma copy_arguments_ok:
  assumes "user_budget (args_cost as + k) s" "args_at str as (kh_bytes s)" "unat str + args_length as \<le> unat (kh_start s)"
    "\<forall>a\<in>set as. length a < 2 ^ 20" "(arguments, n) \<in> heap_live s" "4 * (length dn + length as) \<le> unat n"
    "\<forall>j<length dn. arg_entry arguments j (dn ! j) s"
  shows "\<exists>s'. copy_arguments arguments (length as) (of_nat (length dn)) str s = Some s' \<and> user_budget k s' \<and>
    user_heap.more s' = user_heap.more s \<and> (\<forall>j<length (dn @ as). arg_entry arguments j ((dn @ as) ! j) s')"
  using assms
proof (induction as arbitrary: dn str s)
  case Nil
  then show ?case by (simp add: args_cost_def)
next
  case (Cons a as)
  let ?i = "length dn" and ?next = "str + of_nat (Suc (length a))"
  have wf: "wf_heap s" using Cons.prems(1) by (simp add: user_budget_def)
  have nw: "unat arguments + unat n < 2 ^ 32" by (rule live_no_wrap[OF wf Cons.prems(5)])
  have b: "user_budget (alloc_cost (of_nat (length a) + 1) + (args_cost as + k)) s" using Cons.prems(1) by (simp add: args_cost_def add.assoc)
  have pre: "str_at str a (kh_bytes s)" "unat str + Suc (length a) \<le> unat (kh_start s)" "length a < 2 ^ 20" using Cons.prems(2-4) by auto
  obtain arg na s1 m1 where s1: "malloc sbrk (of_nat (length a) + 1) s = Some (arg, s1)" "snd (strncpy_libc arg str (of_nat (length a)) (kh_bytes s1)) = m1"
    "heap_live s1 = insert (arg, na) (heap_live s)" "arg \<notin> fst ` heap_live s" "length a < unat na" "str_at arg a m1"
    "\<forall>x. unat x \<notin> area (arg, na) \<longrightarrow> m1 x = kh_bytes s x" "\<forall>q\<in>heap_live s. area q \<inter> area (arg, na) = {}"
    "user_budget (args_cost as + k) s1" "user_heap.more s1 = user_heap.more s" "kh_start s1 = kh_start s"
    by (rule copy_argument[OF b pre])
  define s2 where "s2 = s1\<lparr>kh_bytes := store_u32 (arguments + 4 * of_nat ?i) arg m1\<rparr>"
  have wf1: "wf_heap s1" using s1(9) by (simp add: user_budget_def)
  have i4: "4 * ?i + 4 \<le> unat n" using Cons.prems(6) by simp
  have s2: "kh_bytes s2 = store_u32 (arguments + 4 * of_nat ?i) arg m1" "heap_live s2 = heap_live s1" "kh_start s2 = kh_start s1" "user_heap.more s2 = user_heap.more s1"
    "user_budget (args_cost as + k) s2"
    using s1(9) by (simp_all add: s2_def user_budget_bytes)
  have step: "copy_arguments arguments (length (a # as)) (of_nat ?i) str s = copy_arguments arguments (length as) (of_nat (length (dn @ [a]))) ?next s2"
    using strlen_libc_at[OF pre(1)] s1(1,2) by (simp add: s2_def add.commute)
  have "args_at ?next as (kh_bytes s2) = args_at ?next as (kh_bytes s)"
  proof (rule args_at_cong)
    fix j assume j: "j < args_length as"
    let ?x = "?next + of_nat j"
    have "unat ?x = unat str + Suc (length a) + j" using Cons.prems(3) j unat_u32_less[of "kh_start s"]
      by (simp add: unat_word_ariths unat_of_nat take_bit_nat_eq_self)
    then have lo: "unat ?x < unat (kh_start s)" using Cons.prems(3) j by simp
    have "unat ?x \<notin> area (arg, na)" using live_above[OF wf1, of arg na "unat ?x"] s1(3,11) lo by auto
    moreover have "unat ?x \<notin> area (arguments, n)" using live_above[OF wf Cons.prems(5), of "unat ?x"] lo by auto
    then have "\<not> unat (?x - (arguments + 4 * of_nat ?i)) < 4" using vector_byte(2)[OF nw i4] by blast
    ultimately show "kh_bytes s2 ?x = kh_bytes s ?x" unfolding s2(1) using s1(7)[rule_format, of ?x] store_u32_other[of ?x "arguments + 4 * of_nat ?i"] by simp
  qed
  then have rest: "args_at ?next as (kh_bytes s2)" using Cons.prems(2) by simp
  have nxt: "unat ?next + args_length as \<le> unat (kh_start s2)" using Cons.prems(3) s1(11) s2(3) unat_u32_less[of "kh_start s"]
    by (simp add: unat_word_ariths unat_of_nat take_bit_nat_eq_self)
  have entries: "\<forall>j<length (dn @ [a]). arg_entry arguments j ((dn @ [a]) ! j) s2"
  proof (intro allI impI)
    fix j assume "j < length (dn @ [a])"
    then consider "j < ?i" | "j = ?i" by fastforce
    then show "arg_entry arguments j ((dn @ [a]) ! j) s2"
    proof cases
      case 1
      then have "arg_entry arguments j (dn ! j) s" using Cons.prems(7) by simp
      then have "arg_entry arguments j (dn ! j) s2"
        by (rule arg_entry_kept[OF _ wf Cons.prems(5) _ i4 _ s1(7)[rule_format] s1(8)[rule_format] s2(1)]) (use 1 Cons.prems(6) s1(3) s2(2) in auto)
      then show ?thesis using 1 by (simp add: nth_append)
    next
      case 2
      have ne: "arg \<noteq> arguments" using s1(4) Cons.prems(5) by force
      have live: "(arg, na) \<in> heap_live s1" using s1(3) by simp
      have "kh_bytes s2 x = m1 x" if x: "unat x \<in> area (arg, na)" for x
      proof -
        have "area (arguments, n) \<inter> area (arg, na) = {}" by (rule s1(8)[rule_format, OF Cons.prems(5)])
        then have "\<not> unat (x - (arguments + 4 * of_nat ?i)) < 4" using vector_byte(2)[OF nw i4] x by blast
        then show ?thesis unfolding s2(1) by (simp add: store_u32_other)
      qed
      then have "str_at arg a (kh_bytes s2)" using str_at_area[OF _ s1(5) live_no_wrap[OF wf1 live]] s1(6) by blast
      then show ?thesis using 2 s1(5) live s2(2) ne unfolding arg_entry_def s2(1) by (auto simp: load_store_u32)
    qed
  qed
  have "\<exists>s'. copy_arguments arguments (length as) (of_nat (length (dn @ [a]))) ?next s2 = Some s' \<and> user_budget k s' \<and>
    user_heap.more s' = user_heap.more s2 \<and> (\<forall>j<length ((dn @ [a]) @ as). arg_entry arguments j (((dn @ [a]) @ as) ! j) s')"
    by (rule Cons.IH[OF s2(5) rest nxt _ _ _ entries]) (use Cons.prems s1(3) s2(2) in auto)
  then show ?case unfolding step using s1(10) s2(4) by simp
qed

subsection \<open>The start\<close>

text \<open>
  What \<open>main\<close> finds: the number of arguments, and a vector of pointers to copies of the strings, in blocks of the heap. The strings lie
  at the start of the heap, the kernel's break is the end given, and the first block fits into the memory the program got.
\<close>

definition main_ready :: "string list \<Rightarrow> ptr \<Rightarrow> ('w, 'z) program_scheme \<Rightarrow> bool" where
  "main_ready as arguments s \<longleftrightarrow> wf_heap s \<and> optind s = 1 \<and>
     (\<forall>j<length as. str_at (load_u32 (arguments + 4 * of_nat j) (kh_bytes s)) (as ! j) (kh_bytes s))"

lemma program_more:
  fixes s t :: "('w, 'z) program_scheme"
  assumes "user_heap.more s = user_heap.more t"
  shows "stdin s = stdin t" "stdout s = stdout t" "stderr s = stderr t" "bootstrap_caller s = bootstrap_caller t"
  using assms by (cases s; cases t; simp)+

lemma bootstrap_arguments:
  assumes args: "args_at ALLOC_HEAP_START as (kh_bytes s)" "\<forall>a\<in>set as. length a < 2 ^ 20" "length as < 2 ^ 20"
    and init: "kh_items s = Map.empty" "heap_end_k s = current_end"
    and room: "0x50000000 + args_length as + 9 + 4 * length as < unat current_end" "unat current_end + alloc_cost (4 * of_nat (length as)) + args_cost as \<le> 0xD0000000"
  shows "\<exists>arguments s'. main_ready as arguments s' \<and>
    stdin s' = stdin_s \<and> stdout s' = stdout_s \<and> stderr s' = stderr_s \<and> bootstrap_caller s' = bootstrap_caller s \<and>
    bootstrap invoke stdin_s stdout_s stderr_s main BOOTSTRAP_MAGIC current_end (of_nat (args_length as)) (of_nat (length as)) s =
      do { (ret, s) \<leftarrow> main (of_nat (length as)) arguments s'; s \<leftarrow> run_callers invoke s; Some (ret, s) }"
proof -
  let ?n = "length as" and ?len = "args_length as"
  define s0 where "s0 = snd (alloc_initialise (of_nat ?len) current_end (stdio_init stdin_s stdout_s stderr_s s))"
  have len: "?len < 0x80000000" using room by simp
  then have start: "unat (kh_start s0) = 0x50000000 + ?len"
    by (simp add: s0_def alloc_initialise_def ALLOC_HEAP_START_def Let_def unat_word_ariths unat_of_nat take_bit_nat_eq_self)
  have s0: "kh_head s0 = 0" "kh_end s0 = current_end" "heap_end_k s0 = current_end" "kh_bytes s0 = kh_bytes s" "kh_items s0 = Map.empty"
    using init by (simp_all add: s0_def alloc_initialise_def stdio_init_def Let_def)
  have sz: "unat (4 * of_nat ?n :: u32) = 4 * ?n" using args(3) by (simp add: unat_word_ariths unat_of_nat take_bit_nat_eq_self)
  have "kh_start s0 \<noteq> 0" using start by auto
  then have wf0: "wf_blocks s0 []" using s0 start room by (simp add: wf_blocks_def)
  have room0: "sbrk_room (heap_total_size (4 * of_nat ?n)) s0"
    using heap_total_size_bounds(2)[of "4 * of_nat ?n"] sz args(3) s0 start room(2) by (simp add: sbrk_room_def alloc_cost_def)
  then have "pb.user_fits (4 * of_nat ?n) s0" using sz args(3) s0 start room(1) by (simp add: pb.user_fits_def)
  moreover have "wf_heap s0" using wf0 by (auto simp: wf_heap_def)
  ultimately obtain arguments s1 where s1: "malloc sbrk (4 * of_nat ?n) s0 = Some (arguments, s1)" "heap_allocated s0 (4 * of_nat ?n) arguments s1"
    using pb.alloc_allocate_ok unfolding malloc_def by blast
  note eff = malloc_effect[OF s1(1), unfolded s0, OF refl]
  have end1: "unat (kh_end s1) \<le> unat current_end + alloc_cost (4 * of_nat ?n)"
    using eff sbrk_fst[OF room0] s0(2) by (auto simp: alloc_cost_def)
  obtain n where n: "4 * of_nat ?n \<le> n" "heap_live s1 = insert (arguments, n) (heap_live s0)" "wf_heap s1"
    "\<forall>x. kh_bytes s1 x = (if unat x \<in> area (arguments, n) then 0 else kh_bytes s0 x)"
    using s1(2) by (auto simp: heap_allocated_def)
  have live: "(arguments, n) \<in> heap_live s1" using n(2) by simp
  have "kh_head s1 \<noteq> 0"
  proof
    assume "kh_head s1 = 0"
    then have "heap_live s1 = {}" using n(3) by (auto simp: wf_heap_def wf_blocks_def live_of_def split: if_splits)
    then show False using live by simp
  qed
  then have b1: "user_budget (args_cost as + 0) s1" using n(3) eff end1 start room(2) by (simp add: user_budget_def)
  have keep: "args_at ALLOC_HEAP_START as (kh_bytes s1) = args_at ALLOC_HEAP_START as (kh_bytes s)"
  proof (rule args_at_cong)
    fix i assume i: "i < ?len"
    then have "unat (ALLOC_HEAP_START + of_nat i) = 0x50000000 + i" using len by (simp add: ALLOC_HEAP_START_def unat_word_ariths unat_of_nat take_bit_nat_eq_self)
    then have "unat (ALLOC_HEAP_START + of_nat i) \<notin> area (arguments, n)"
      using live_above[OF n(3) live, of "unat (ALLOC_HEAP_START + of_nat i)"] eff start i by auto
    then show "kh_bytes s1 (ALLOC_HEAP_START + of_nat i) = kh_bytes s (ALLOC_HEAP_START + of_nat i)" using n(4) s0(4) by simp
  qed
  have "\<exists>s'. copy_arguments arguments (length as) (of_nat (length ([] :: string list))) ALLOC_HEAP_START s1 = Some s' \<and> user_budget 0 s' \<and>
    user_heap.more s' = user_heap.more s1 \<and> (\<forall>j<length ([] @ as). arg_entry arguments j (([] @ as) ! j) s')"
    using keep args start eff n(1) sz b1 live
    by (intro copy_arguments_ok[of as 0 s1 ALLOC_HEAP_START arguments n "[]"]) (simp_all add: ALLOC_HEAP_START_def word_le_nat_alt)
  then obtain s2 where s2: "copy_arguments arguments ?n 0 ALLOC_HEAP_START s1 = Some s2" "wf_heap s2" "user_heap.more s2 = user_heap.more s1"
    "\<forall>j<?n. arg_entry arguments j (as ! j) s2" by (auto simp: user_budget_def)
  have more: "user_heap.more s2 = user_heap.more (stdio_init stdin_s stdout_s stderr_s s)" using s2(3) eff by (simp add: s0_def alloc_initialise_def Let_def)
  have u: "unat (of_nat ?n :: u32) = ?n" using args(3) by (intro unat_of_nat_eq_u32) simp
  have ar: "sint (of_nat ?n :: u32) = int ?n" using sint_small[of "of_nat ?n"] args(3) by (simp only: u) simp
  have run: "bootstrap invoke stdin_s stdout_s stderr_s main BOOTSTRAP_MAGIC current_end (of_nat ?len) (of_nat ?n) s =
      do { (ret, s) \<leftarrow> main (of_nat ?n) arguments (s2\<lparr>optind := 1\<rparr>); s \<leftarrow> run_callers invoke s; Some (ret, s) }"
  proof -
    have "alloc_initialise (of_nat ?len) current_end (stdio_init stdin_s stdout_s stderr_s s) = (0, s0)" by (simp add: s0_def alloc_initialise_def Let_def)
    then show ?thesis using s1(1) s2(1) ar by (simp add: bootstrap_def)
  qed
  have "wf_heap (s2\<lparr>optind := 1\<rparr>) = wf_heap s2" by (simp add: wf_heap_def wf_blocks_def)
  moreover have "str_at (load_u32 (arguments + 4 * of_nat j) (kh_bytes s2)) (as ! j) (kh_bytes s2)" if "j < ?n" for j
    using s2(4) that unfolding arg_entry_def by blast
  ultimately have ready: "main_ready as arguments (s2\<lparr>optind := 1\<rparr>)" using s2(2) by (simp add: main_ready_def)
  have streams: "stdin (s2\<lparr>optind := 1\<rparr>) = stdin_s" "stdout (s2\<lparr>optind := 1\<rparr>) = stdout_s" "stderr (s2\<lparr>optind := 1\<rparr>) = stderr_s"
    "bootstrap_caller (s2\<lparr>optind := 1\<rparr>) = bootstrap_caller s"
    by (simp_all add: program_more[OF more] stdio_init_def)
  show ?thesis by (intro exI[of _ arguments] exI[of _ "s2\<lparr>optind := 1\<rparr>"] conjI) (rule ready streams run)+
qed

subsection \<open>What the loader left\<close>

text \<open>The bytes that the kernel's loader copies to the start of the heap are the strings of the arguments, the name of the program first.\<close>

lemma args_at_concat:
  "\<forall>a\<in>set as. NUL \<notin> set a \<Longrightarrow> (\<And>i. i < args_length as \<Longrightarrow> m (p + of_nat i) = of_char (concat (map (\<lambda>a. a @ [NUL]) as) ! i)) \<Longrightarrow> args_at p as m"
proof (induction as arbitrary: p)
  case (Cons a as)
  let ?B = "concat (map (\<lambda>a. a @ [NUL]) as)"
  have "m (p + of_nat i) = of_char ((a @ [NUL]) ! i)" if "i \<le> length a" for i
    using Cons.prems(2)[of i] that nth_append[of "a @ [NUL]" ?B i] by simp
  then have "str_at p a m" using Cons.prems(1) by (intro str_at_bytes) simp_all
  moreover have "args_at (p + of_nat (Suc (length a))) as m"
  proof (rule Cons.IH)
    fix i assume "i < args_length as"
    then show "m (p + of_nat (Suc (length a)) + of_nat i) = of_char (?B ! i)"
      using Cons.prems(2)[of "Suc (length a) + i"] nth_append[of "a @ [NUL]" ?B "Suc (length a) + i"] by (simp add: add.assoc)
  qed (use Cons.prems in simp)
  ultimately show ?case by simp
qed simp

lemma args_length_loader: "argv_total_length nm argv = args_length (nm # argv)" "length (concat (map (\<lambda>a. a @ [NUL]) as)) = args_length as"
  by (simp add: argv_total_length_def args_length_def) (induction as; simp)

lemma loader_args:
  assumes "\<forall>a\<in>set (nm # argv). NUL \<notin> set a"
    "\<forall>i<argv_total_length nm argv. m (p + of_nat i) = argv_bytes nm argv ! i"
  shows "args_at p (nm # argv) m"
proof (rule args_at_concat[OF assms(1)])
  fix i assume i: "i < args_length (nm # argv)"
  then have "i < length (concat (map (\<lambda>a. a @ [NUL]) (nm # argv)))" by (simp only: args_length_loader(2))
  then show "m (p + of_nat i) = of_char (concat (map (\<lambda>a. a @ [NUL]) (nm # argv)) ! i)"
    using assms(2) i unfolding args_length_loader(1) argv_bytes_def by (simp del: concat.simps list.map)
qed

end
