(* ===== verification/Sample_Libc.thy ===== *)
theory Sample_Libc
  imports Libc_Print Bootstrap
begin

text \<open>A concrete program state for the properties of the C library: memory with formats and strings, a device that collects what is written, and the memory that the loader leaves.\<close>

definition sample_text :: mem8 where
  "sample_text = put_str 0x300 (''abc'' @ [NUL]) (put_str 0x200 (''%d'' @ [NUL]) (put_str 0x100 (''n=%d %s'' @ [NUL]) (\<lambda>x. 0)))"

definition sample_os :: "string os" where
  "sample_os = \<lparr>os_open = \<lambda>p m w. (-1, w), os_close = \<lambda>i w. (0, w), os_read = \<lambda>i seek len p m w. (0, m, w),
     os_write = \<lambda>i seek len p m w. (uint len, w @ load_bytes p (unat len) m), os_ioctl = \<lambda>i c p m w. (0, m, w), os_sleep = \<lambda>t w. w\<rparr>"

definition sample_program :: "string stdio" where
  "sample_program = stdio_init 0x10 0x20 0x30
     \<lparr>allocated_size = 0, kh_start = 0x50000000, kh_end = 0x50001000, kh_head = 0, kh_items = Map.empty, kh_bytes = sample_text, heap_end_k = 0x50001000,
      files = [0x10 \<mapsto> std_stream, 0x20 \<mapsto> std_stream, 0x30 \<mapsto> std_stream], stdin = 0, stdout = 0, stderr = 0, world = ''''\<rparr>"

lemma sample_text_strings: "str_at 0x100 ''n=%d %s'' sample_text" "str_at 0x200 ''%d'' sample_text" "str_at 0x300 ''abc'' sample_text"
  by (simp_all add: sample_text_def NUL_def)

lemma sample_program_bytes [simp]: "kh_bytes sample_program = sample_text" "stdout sample_program = 0x20" "world sample_program = ''''"
  by (simp_all add: sample_program_def stdio_init_def)

lemma sample_program_stream: "appends sample_os 0" "stream_to 0x20 0 sample_program"
  by (simp_all add: appends_def sample_os_def stream_to_def sample_program_def stdio_init_def std_stream_def)

lemma kputint_42: "kputint 42 = ''42''" "kputint (-42) = ''-42''"
  by (simp_all add: kputint_def kputuint_def skip_divisor.simps uint_digits.simps digit_def char_of_def bit_0)

lemma sample_format: "kformat ''n=%d %s'' [Kint 42, Kstr ''abc''] = Some ''n=42 abc''"
  by (simp add: kputint_42)

definition sample_start :: "string program" where
  "sample_start = \<lparr>allocated_size = 0, kh_start = 0, kh_end = 0, kh_head = 0, kh_items = Map.empty,
     kh_bytes = put_str ALLOC_HEAP_START (''ls'' @ NUL # ''-a'' @ [NUL]) (\<lambda>x. 0), heap_end_k = 0x50001000,
     files = Map.empty, stdin = 0, stdout = 0, stderr = 0, world = [], stdlib_caller = 0, bootstrap_caller = 0, optind = 0\<rparr>"

lemma sample_start_sel [simp]: "kh_items sample_start = Map.empty" "heap_end_k sample_start = 0x50001000"
  by (simp_all add: sample_start_def)

lemma sample_start_bytes: "i < 6 \<Longrightarrow> kh_bytes sample_start (ALLOC_HEAP_START + of_nat i) = argv_bytes ''ls'' [''-a''] ! i"
proof -
  assume "i < 6"
  then have "i \<in> {0, 1, 2, 3, 4, 5}" by auto
  then show ?thesis by (auto simp: sample_start_def argv_bytes_def ALLOC_HEAP_START_def)
qed

end
