(* ===== verification/Calc.thy ===== *)
theory Calc
  imports Libc_Facts
begin

text \<open>
  The calculator, \<open>userland/calc.c\<close>, with the conversions of numbers it uses from \<open>libraries/libc/stdlib.c\<close>. Arithmetic on \<open>double\<close> and the
  functions of the mathematics library are the argument \<open>ar\<close>. Strings are values, but the printed result is in memory, as \<open>itoa\<close> leaves it.
  The tokens are an array of 64 pointers; \<open>next_tok\<close> is an index into it. A function that ends without a \<open>return\<close> gives its caller
  whatever is in the return register: this value is the argument \<open>fall\<close>. Freeing the static token of the end is a fault, as is a token text of
  32 characters, whose terminator does not fit. What is printed is collected in \<open>calc_out\<close>.
\<close>

subsection \<open>Data\<close>

datatype sym_t = add_s | sub_s | mul_s | exp_s | lpar_s | rpar_s | dig_s | div_s | dec_s | txt_s | comma_s | num_s |
  inval_s | eof_s | ceil_f | fmod_f | floor_f | fabs_f | atan_f | acos_f | asin_f | atan2_f | cos_f |
  sin_f | tan_f | cosh_f | sinh_f | tanh_f | sqrt_f | log_f | log10_f | log2_f | cbrt_f | trunc_f | inval_f

record tok =
  tok_symbol :: sym_t
  tok_txt :: string

record 'n arith =
  d_int :: "int \<Rightarrow> 'n"
  d_tenth :: 'n
  d_add :: "'n \<Rightarrow> 'n \<Rightarrow> 'n"
  d_sub :: "'n \<Rightarrow> 'n \<Rightarrow> 'n"
  d_mul :: "'n \<Rightarrow> 'n \<Rightarrow> 'n"
  d_div :: "'n \<Rightarrow> 'n \<Rightarrow> 'n"
  d_pow :: "'n \<Rightarrow> 'n \<Rightarrow> 'n"
  d_is_zero :: "'n \<Rightarrow> bool"
  d_trunc :: "'n \<Rightarrow> u32"
  d_fun1 :: "sym_t \<Rightarrow> 'n \<Rightarrow> 'n"
  d_fun2 :: "sym_t \<Rightarrow> 'n \<Rightarrow> 'n \<Rightarrow> 'n"

definition MAX_TOK_LEN :: nat where "MAX_TOK_LEN = 32"
definition MAX_INP_LEN :: nat where "MAX_INP_LEN = 256"
definition MAX_OUT_LEN :: nat where "MAX_OUT_LEN = 256"
definition MAX_TOKENS :: nat where "MAX_TOKENS = 64"

record calc =
  tokens :: "tok option list"
  tokens_len :: nat
  current_idx :: nat
  next_tok :: "nat option"
  calc_out :: string
  calc_mem :: mem8

definition eof_token :: tok where "eof_token = \<lparr>tok_symbol = eof_s, tok_txt = ''EOF''\<rparr>"

definition calc_print :: "string \<Rightarrow> calc \<Rightarrow> calc" where
  "calc_print t s = s\<lparr>calc_out := calc_out s @ t\<rparr>"

definition calc_error :: "string \<Rightarrow> calc \<Rightarrow> calc" where
  "calc_error e s = calc_print (CHR 0x0A # ''[ERR]: '' @ e) s"

text \<open>Every entry is freed; the static token is not from the heap.\<close>

fun clear_from :: "nat list \<Rightarrow> calc \<Rightarrow> calc option" where
  "clear_from [] s = Some s"
| "clear_from (i # is) s =
     (if i < MAX_TOKENS
      then do { t \<leftarrow> tokens s ! i; if t = eof_token then None else clear_from is (s\<lparr>tokens := (tokens s)[i := None]\<rparr>) }
      else None)"

definition clear_toks :: "calc \<Rightarrow> calc option" where
  "clear_toks s = clear_from [0..<tokens_len s] s"

subsection \<open>Numbers\<close>

fun trim_end :: "string \<Rightarrow> string" where
  "trim_end [] = []"
| "trim_end [c] = [c]"
| "trim_end (c # d # cs) =
     (if isspace (of_char (last (d # cs))) then trim_end (butlast (c # d # cs)) else c # d # cs)"

definition trim :: "string \<Rightarrow> string" where
  "trim str = trim_end (dropWhile (\<lambda>c. isspace (of_char c)) str)"

definition add_digits :: "'n arith \<Rightarrow> string \<Rightarrow> 'n \<Rightarrow> 'n" where
  "add_digits ar ds a = fold (\<lambda>c a. d_add ar (d_mul ar a (d_int ar 10)) (d_int ar (int (of_char c) - 48))) ds a"

definition digits :: "string \<Rightarrow> string" where "digits cs = takeWhile (\<lambda>c. isdigit (of_char c)) cs"

text \<open>The exponent behind an \<open>e\<close>; it overflows for too many digits.\<close>

definition exponent :: "string \<Rightarrow> int option" where
  "exponent cs =
     (let (sign, cs) = (case cs of c # r \<Rightarrow> if c = CHR ''+'' then (1, r) else if c = CHR ''-'' then (-1, r) else (1, cs) | [] \<Rightarrow> (1, cs));
          i = fold (\<lambda>c i. i * 10 + (int (of_char c) - 48)) (digits cs) 0
      in if i < 2 ^ 31 then Some (i * sign) else None)"

definition scale :: "'n arith \<Rightarrow> int \<Rightarrow> 'n \<Rightarrow> 'n" where
  "scale ar e a = (if 0 < e then ((\<lambda>a. d_mul ar a (d_int ar 10)) ^^ nat e) a else ((\<lambda>a. d_mul ar a (d_tenth ar)) ^^ nat (- e)) a)"

definition atof :: "'n arith \<Rightarrow> string \<Rightarrow> 'n option" where
  "atof ar s =
     (let a = add_digits ar (digits s) (d_int ar 0);
          s = drop (length (digits s)) s;
          (a, e, s) = (case s of
             c # r \<Rightarrow> if c = CHR ''.'' then (add_digits ar (digits r) a, - int (length (digits r)), drop (length (digits r)) r) else (a, 0, s)
           | [] \<Rightarrow> (a, 0, s))
      in case s of
           c # r \<Rightarrow> if c = CHR ''e'' \<or> c = CHR ''E'' then do { i \<leftarrow> exponent r; Some (scale ar (e + i) a) } else Some (scale ar e a)
         | [] \<Rightarrow> Some (scale ar e a))"

definition string_to_num :: "'n arith \<Rightarrow> string \<Rightarrow> 'n option" where
  "string_to_num ar t = atof ar t"

definition num_to_string :: "'n arith \<Rightarrow> 'n \<Rightarrow> ptr \<Rightarrow> mem8 \<Rightarrow> mem8 option" where
  "num_to_string ar num res m = do {
     let ip = d_trunc ar num;
     let fp = d_sub ar num (d_int ar (sint ip));
     (i, m) \<leftarrow> itoa ip res m;
     let m = m(res + i := 0x2E);
     let fp = d_mul ar fp (d_pow ar (d_int ar 10) (d_int ar 5));
     (j, m) \<leftarrow> itoa (d_trunc ar (d_fun1 ar fabs_f fp)) (res + i + 1) m;
     Some m
   }"

subsection \<open>Tokens\<close>

definition IS_ALPHA :: "char \<Rightarrow> bool" where
  "IS_ALPHA c \<longleftrightarrow> (let b = of_char c :: nat in 97 \<le> b \<and> b \<le> 122 \<or> 65 \<le> b \<and> b \<le> 90)"

definition symbol :: "char \<Rightarrow> sym_t" where
  "symbol c =
     (if isdigit (of_char c) then dig_s
      else if IS_ALPHA c then txt_s
      else if c = CHR ''+'' then add_s
      else if c = CHR ''-'' then sub_s
      else if c = CHR ''*'' then mul_s
      else if c = CHR ''/'' then div_s
      else if c = CHR ''^'' then exp_s
      else if c = CHR ''('' then lpar_s
      else if c = CHR '')'' then rpar_s
      else if c = CHR ''.'' then dec_s
      else if c = CHR '','' then comma_s
      else inval_s)"

definition func_table :: "(string \<times> sym_t) list" where
  "func_table = [(''ceil'', ceil_f), (''fmod'', fmod_f), (''floor'', floor_f), (''fabs'', fabs_f), (''atan'', atan_f), (''acos'', acos_f),
     (''asin'', asin_f), (''atan2'', atan2_f), (''cos'', cos_f), (''sin'', sin_f), (''tan'', tan_f), (''cosh'', cosh_f), (''sinh'', sinh_f),
     (''tanh'', tanh_f), (''sqrt'', sqrt_f), (''log'', log_f), (''log10'', log10_f), (''log2'', log2_f), (''cbrt'', cbrt_f), (''trunc'', trunc_f)]"

definition get_func :: "string \<Rightarrow> calc \<Rightarrow> sym_t \<times> calc" where
  "get_func t s = (case map_of func_table t of Some f \<Rightarrow> (f, s) | None \<Rightarrow> (inval_f, calc_error ''Invalid function name!'' s))"

text \<open>The loop that collects a text: \<open>len\<close> counts, the result is the text and the rest of the line.\<close>

fun collect :: "(sym_t \<Rightarrow> bool) \<Rightarrow> nat \<Rightarrow> string \<Rightarrow> string \<times> string" where
  "collect P len [] = ([], [])"
| "collect P len (c # cs) =
     (if P (symbol c) \<and> len < MAX_TOK_LEN then let (t, r) = collect P (len + 1) cs in (c # t, r) else ([], c # cs))"

lemma collect_rest: "collect P len cs = (t, r) \<Longrightarrow> length r \<le> length cs"
  by (induction cs arbitrary: len t r) (auto simp: le_SucI split: prod.splits if_splits)

definition put_token :: "tok \<Rightarrow> calc \<Rightarrow> calc option" where
  "put_token t s =
     (if tokens_len s < MAX_TOKENS then Some (s\<lparr>tokens := (tokens s)[tokens_len s := Some t], tokens_len := tokens_len s + 1\<rparr>) else None)"

definition after_text :: "calc \<Rightarrow> bool option" where
  "after_text s = (if 0 < tokens_len s then do { t \<leftarrow> tokens s ! (tokens_len s - 1); Some (tok_symbol t = txt_s) } else Some False)"

function tokenize :: "string \<Rightarrow> calc \<Rightarrow> (int \<times> calc) option" where
  "tokenize [] s = do { s \<leftarrow> put_token eof_token s; Some (0, s) }"
| "tokenize (ch # str) s =
     (if ch = CHR '' '' then tokenize str s
      else if symbol ch = inval_s then Some (-1, s)
      else do {
        func \<leftarrow> (if symbol ch = dig_s then after_text s else Some (symbol ch = txt_s));
        if func
        then (case collect (\<lambda>y. y = txt_s \<or> y = dig_s) 1 str of (t, r) \<Rightarrow>
          if Suc (length t) = MAX_TOK_LEN then None
          else case get_func (ch # t) s of (f, s) \<Rightarrow>
            if f = inval_f then Some (-1, s)
            else do { s \<leftarrow> put_token \<lparr>tok_symbol = txt_s, tok_txt = ch # t\<rparr> s; tokenize r s })
        else if symbol ch = dig_s
        then (case collect (\<lambda>y. y = dig_s \<or> y = dec_s) 1 str of (t, r) \<Rightarrow>
          if Suc (length t) = MAX_TOK_LEN then None
          else do { s \<leftarrow> put_token \<lparr>tok_symbol = num_s, tok_txt = ch # t\<rparr> s; tokenize r s })
        else do { s \<leftarrow> put_token \<lparr>tok_symbol = symbol ch, tok_txt = [ch]\<rparr> s; tokenize str s }
      })"
  by pat_completeness auto
termination by (relation "measure (\<lambda>(str, s). length str)") (auto dest!: collect_rest[OF sym])

subsection \<open>Operations\<close>

definition perf_op :: "'n arith \<Rightarrow> sym_t \<Rightarrow> 'n \<Rightarrow> 'n \<Rightarrow> calc \<Rightarrow> int \<times> 'n option \<times> calc" where
  "perf_op ar op op1 op2 s =
     (case op of
        add_s \<Rightarrow> (0, Some (d_add ar op1 op2), s)
      | sub_s \<Rightarrow> (0, Some (d_sub ar op1 op2), s)
      | mul_s \<Rightarrow> (0, Some (d_mul ar op1 op2), s)
      | div_s \<Rightarrow> if d_is_zero ar op2 then (-1, None, calc_error ''Division by 0!'' s) else (0, Some (d_div ar op1 op2), s)
      | exp_s \<Rightarrow> (0, Some (d_pow ar op1 op2), s)
      | _ \<Rightarrow> (-1, None, s))"

definition is_func :: "sym_t \<Rightarrow> bool" where "is_func f \<longleftrightarrow> f \<in> set (map snd func_table)"

definition perf_func :: "'n arith \<Rightarrow> sym_t \<Rightarrow> 'n \<Rightarrow> 'n option \<Rightarrow> calc \<Rightarrow> int \<times> 'n option \<times> calc" where
  "perf_func ar f op1 op2 s =
     (if \<not> is_func f then (-1, None, calc_error ''Invalid function operand(s)!'' s)
      else if f = fmod_f \<or> f = atan2_f then (case op2 of None \<Rightarrow> (-1, None, s) | Some y \<Rightarrow> (0, Some (d_fun2 ar f op1 y), s))
      else (case op2 of None \<Rightarrow> (0, Some (d_fun1 ar f op1), s) | Some y \<Rightarrow> (-1, None, s)))"

subsection \<open>Parser\<close>

text \<open>
  Each function returns its status, the number it stored through its argument, if any, and the state. Reading a number that was never stored is a fault.
\<close>

type_synonym 'n parser = "calc \<Rightarrow> (int \<times> 'n option \<times> calc) option"

definition get_next :: "calc \<Rightarrow> calc option" where
  "get_next s =
     (if current_idx s < MAX_TOKENS
      then Some (s\<lparr>next_tok := if tokens s ! current_idx s = None then None else Some (current_idx s), current_idx := current_idx s + 1\<rparr>)
      else None)"

definition the_tok :: "calc \<Rightarrow> tok option" where
  "the_tok s = do { i \<leftarrow> next_tok s; tokens s ! i }"

definition accept_token :: "sym_t \<Rightarrow> calc \<Rightarrow> (int \<times> calc) option" where
  "accept_token y s = do { t \<leftarrow> the_tok s; if tok_symbol t = y then do { s \<leftarrow> get_next s; Some (0, s) } else Some (-1, s) }"

definition parse_numb :: "'n arith \<Rightarrow> 'n parser" where
  "parse_numb ar s = do {
     t \<leftarrow> the_tok s;
     (r, s) \<leftarrow> accept_token num_s s;
     if r \<noteq> 0 then Some (-1, None, s) else do { v \<leftarrow> string_to_num ar (tok_txt t); Some (0, Some v, s) }
   }"

definition parse_func_rest :: "'n parser \<Rightarrow> 'n parser" where
  "parse_func_rest atom s = do {
     t \<leftarrow> the_tok s;
     if tok_symbol t = rpar_s then do { (r, s) \<leftarrow> accept_token rpar_s s; Some (r, None, s) }
     else if tok_symbol t = comma_s
     then do {
       (r, s) \<leftarrow> accept_token comma_s s;
       if r \<noteq> 0 then Some (-1, None, s)
       else do {
         (r, v, s) \<leftarrow> atom s;
         if r \<noteq> 0 then Some (-1, v, s)
         else do { (r, s) \<leftarrow> accept_token rpar_s s; if r \<noteq> 0 then Some (-1, v, s) else Some (1, v, s) }
       }
     }
     else Some (-1, None, s)
   }"

definition set_symbol :: "sym_t \<Rightarrow> calc \<Rightarrow> calc option" where
  "set_symbol f s = do { i \<leftarrow> next_tok s; t \<leftarrow> tokens s ! i; Some (s\<lparr>tokens := (tokens s)[i := Some (t\<lparr>tok_symbol := f\<rparr>)]\<rparr>) }"

definition parse_func :: "'n arith \<Rightarrow> 'n parser \<Rightarrow> 'n parser" where
  "parse_func ar atom s = do {
     t \<leftarrow> the_tok s;
     let (f, s) = get_func (tok_txt t) s;
     s \<leftarrow> set_symbol f s;
     (r, s) \<leftarrow> accept_token f s;
     if r \<noteq> 0 then Some (-1, None, s)
     else do {
       (r, s) \<leftarrow> accept_token lpar_s s;
       if r \<noteq> 0 then Some (-1, None, s)
       else do {
         (r, op1, s) \<leftarrow> atom s;
         if r \<noteq> 0 then Some (-1, None, s)
         else do {
           (st, op2, s) \<leftarrow> parse_func_rest atom s;
           if st = 1 then do { x \<leftarrow> op1; y \<leftarrow> op2; Some (perf_func ar f x (Some y) s) }
           else if st = 0 then do { x \<leftarrow> op1; Some (perf_func ar f x None s) }
           else Some (-1, None, s)
         }
       }
     }
   }"

definition parse_s_atom :: "'n arith \<Rightarrow> 'n parser \<Rightarrow> 'n parser" where
  "parse_s_atom ar atom s = do {
     t \<leftarrow> the_tok s;
     if tok_symbol t = sub_s
     then do {
       (r, s) \<leftarrow> accept_token sub_s s;
       if r \<noteq> 0 then Some (-1, None, s)
       else do {
         (r, v, s) \<leftarrow> atom s;
         if r \<noteq> 0 then Some (-1, v, s) else do { x \<leftarrow> v; Some (0, Some (d_sub ar (d_int ar 0) x), s) }
       }
     }
     else do { (r, v, s) \<leftarrow> atom s; if r \<noteq> 0 then Some (-1, v, s) else Some (0, v, s) }
   }"

text \<open>
  The three levels of operators have the same form: an operand, and if an operator of the level follows, one more. \<open>fin\<close> is the status at the end
  of the branch with an operator.
\<close>

definition parse_level :: "'n arith \<Rightarrow> int \<Rightarrow> (sym_t \<Rightarrow> bool) \<Rightarrow> 'n parser \<Rightarrow> 'n parser" where
  "parse_level ar fin ops operand s = do {
     (r, op1, s) \<leftarrow> operand s;
     if r \<noteq> 0 then Some (-1, None, s)
     else do {
       t \<leftarrow> the_tok s;
       if ops (tok_symbol t)
       then do {
         (r, s) \<leftarrow> accept_token (tok_symbol t) s;
         if r \<noteq> 0 then Some (-1, None, s)
         else do {
           (r, op2, s) \<leftarrow> operand s;
           if r \<noteq> 0 then Some (-1, None, s)
           else do {
             x \<leftarrow> op1;
             y \<leftarrow> op2;
             let (r, v, s) = perf_op ar (tok_symbol t) x y s;
             Some (if r \<noteq> 0 then -1 else fin, v, s)
           }
         }
       }
       else do { x \<leftarrow> op1; Some (0, Some x, s) }
     }
   }"

definition parse_factor :: "'n arith \<Rightarrow> 'n parser \<Rightarrow> 'n parser" where
  "parse_factor ar atom = parse_level ar 0 (\<lambda>y. y = exp_s) (parse_s_atom ar atom)"

definition parse_term :: "'n arith \<Rightarrow> 'n parser \<Rightarrow> 'n parser" where
  "parse_term ar atom = parse_level ar 0 (\<lambda>y. y = mul_s \<or> y = div_s) (parse_factor ar atom)"

definition parse_expression :: "'n arith \<Rightarrow> int \<Rightarrow> 'n parser \<Rightarrow> 'n parser" where
  "parse_expression ar fall atom = parse_level ar fall (\<lambda>y. y = add_s \<or> y = sub_s) (parse_term ar atom)"

text \<open>The nesting is bounded by the number of tokens; the first argument counts it down.\<close>

fun parse_atom :: "nat \<Rightarrow> 'n arith \<Rightarrow> int \<Rightarrow> 'n parser" where
  "parse_atom 0 ar fall s = None"
| "parse_atom (Suc n) ar fall s = do {
     t \<leftarrow> the_tok s;
     if tok_symbol t = lpar_s
     then do {
       (r, s) \<leftarrow> accept_token lpar_s s;
       if r \<noteq> 0 then Some (-1, None, s)
       else do {
         (r, v, s) \<leftarrow> parse_expression ar fall (parse_atom n ar fall) s;
         if r \<noteq> 0 then Some (-1, v, s)
         else do { (r, s) \<leftarrow> accept_token rpar_s s; if r \<noteq> 0 then Some (-1, v, s) else Some (0, v, s) }
       }
     }
     else if tok_symbol t = num_s then do { (r, v, s) \<leftarrow> parse_numb ar s; Some (if r \<noteq> 0 then -1 else fall, v, s) }
     else if tok_symbol t = txt_s then do { (r, v, s) \<leftarrow> parse_func ar (parse_atom n ar fall) s; Some (if r \<noteq> 0 then -1 else fall, v, s) }
     else Some (-1, None, s)
   }"

definition parse :: "'n arith \<Rightarrow> int \<Rightarrow> 'n parser" where
  "parse ar fall s = do {
     s \<leftarrow> get_next s;
     (res, v, s) \<leftarrow> parse_expression ar fall (parse_atom MAX_TOKENS ar fall) s;
     if res = -1 then Some (-1, v, s)
     else do { (res, s) \<leftarrow> accept_token (tok_symbol eof_token) s; Some (res, v, s) }
   }"

subsection \<open>Requests\<close>

definition process_request :: "'n arith \<Rightarrow> int \<Rightarrow> string \<Rightarrow> ptr \<Rightarrow> calc \<Rightarrow> (int \<times> calc) option" where
  "process_request ar fall req res s = do {
     s \<leftarrow> clear_toks s;
     let s = s\<lparr>tokens_len := 0, current_idx := 0, next_tok := None\<rparr>;
     (stat, s) \<leftarrow> tokenize (trim req) s;
     if stat = -1 then Some (-1, calc_error ''Couldn't tokenize the expression!'' s)
     else do {
       (stat, v, s) \<leftarrow> parse ar fall s;
       if stat = -1 then Some (-1, calc_error ''Couldn't parse the expression!'' s)
       else do {
         m \<leftarrow> num_to_string ar (case v of None \<Rightarrow> d_int ar 0 | Some x \<Rightarrow> x) res (calc_mem s);
         Some (0, s\<lparr>calc_mem := m\<rparr>)
       }
     }
   }"

definition prompt :: string where "prompt = CHR 0x0A # ''[---]:> ''"

definition quoted :: "string \<Rightarrow> string" where "quoted t = CHR 0x27 # t @ [CHR 0x27]"

definition help_lines :: "string list" where
  "help_lines =
     [''***************************************************************'', ''               [---]: DBOS CALCULATOR :[---]'',
      ''***************************************************************'', ''[INF]: Type in any expression in the form of: (1 * 2) + 3 ... '',
      ''[INF]: Operators: '' @ quoted ''+'' @ '', '' @ quoted ''-'' @ '', '' @ quoted ''*'' @ '', '' @ quoted ''/'' @ '', '' @ quoted ''^ (power)'',
      ''[INF]: Functions[1]: ceil(x), fmod(x, y), floor(x), fabs(x)'', ''[INF]: Functions[2]: atan(x), atan2(x, y), acos(x), asin(x)'',
      ''[INF]: Functions[3]: cos(x), sin(x), tan(x), cosh(x), sinh(x)'', ''[INF]: Functions[4]: tanh(x), sqrt(x), log(x), log10(x)'',
      ''[INF]: Functions[5]: log2(x), cbrt(x), trunc(x)'', []]"

definition do_help :: "calc \<Rightarrow> calc" where
  "do_help s = fold (\<lambda>l. calc_print (CHR 0x0A # l)) help_lines s"

definition do_exit :: "calc \<Rightarrow> calc" where
  "do_exit s = calc_print (CHR 0x0A # ''[EXT]: GOODBYE'') s"

text \<open>One line of input; the first component says that the loop goes on.\<close>

definition do_line :: "'n arith \<Rightarrow> int \<Rightarrow> ptr \<Rightarrow> string \<Rightarrow> calc \<Rightarrow> (bool \<times> calc) option" where
  "do_line ar fall res line s =
     (if take 4 line = ''exit'' then Some (False, do_exit s)
      else if take 4 line = ''help'' then Some (True, calc_print prompt (do_help s))
      else do {
        (r, s) \<leftarrow> process_request ar fall line res s;
        s \<leftarrow> (if r \<noteq> 0 then Some s
              else do { n \<leftarrow> strlen_libc res (calc_mem s); Some (calc_print ('' = '' @ load_bytes res (unat n) (calc_mem s)) s) });
        Some (True, calc_print prompt (s\<lparr>calc_mem := snd (memset res 0 (of_nat MAX_OUT_LEN) (calc_mem s))\<rparr>))
      })"

fun calc_lines :: "'n arith \<Rightarrow> int \<Rightarrow> ptr \<Rightarrow> string list \<Rightarrow> calc \<Rightarrow> calc option" where
  "calc_lines ar fall res [] s = Some s"
| "calc_lines ar fall res (line # ls) s = do {
     (more, s) \<leftarrow> do_line ar fall res line s;
     if more then calc_lines ar fall res ls s else Some s
   }"

definition calc_main :: "'n arith \<Rightarrow> int \<Rightarrow> ptr \<Rightarrow> string list \<Rightarrow> calc \<Rightarrow> calc option" where
  "calc_main ar fall res ls s = calc_lines ar fall res ls (calc_print prompt s)"

end
