(* ===== verification/Calc_Grammar.thy ===== *)
theory Calc_Grammar
  imports Calc
begin

text \<open>
  The expressions of the calculator as trees, their text and their value, and the proof that the calculator computes this value. The grammar
  has at most one operator per level, and the arguments of functions are atoms: longer sums need parentheses.
\<close>

subsection \<open>Expressions\<close>

datatype atom = Par expr | Num string | Fn1 string atom | Fn2 string atom atom
  and satom = Plain atom | Minus atom
  and factor = Base satom | Power satom satom
  and summand = Fac factor | Times factor factor | Over factor factor
  and expr = Sum summand | Plus summand summand | Less summand summand

definition op_tok :: "char \<Rightarrow> tok" where "op_tok c = \<lparr>tok_symbol = symbol c, tok_txt = [c]\<rparr>"
definition num_tok :: "string \<Rightarrow> tok" where "num_tok t = \<lparr>tok_symbol = num_s, tok_txt = t\<rparr>"
definition fn_tok :: "string \<Rightarrow> tok" where "fn_tok f = \<lparr>tok_symbol = txt_s, tok_txt = f\<rparr>"

primrec toks_atom :: "atom \<Rightarrow> tok list" and toks_satom :: "satom \<Rightarrow> tok list" and toks_factor :: "factor \<Rightarrow> tok list"
  and toks_summand :: "summand \<Rightarrow> tok list" and toks_expr :: "expr \<Rightarrow> tok list"
where
  "toks_atom (Par e) = op_tok (CHR ''('') # toks_expr e @ [op_tok (CHR '')'')]"
| "toks_atom (Num t) = [num_tok t]"
| "toks_atom (Fn1 f a) = fn_tok f # op_tok (CHR ''('') # toks_atom a @ [op_tok (CHR '')'')]"
| "toks_atom (Fn2 f a b) = fn_tok f # op_tok (CHR ''('') # toks_atom a @ op_tok (CHR '','') # toks_atom b @ [op_tok (CHR '')'')]"
| "toks_satom (Plain a) = toks_atom a"
| "toks_satom (Minus a) = op_tok (CHR ''-'') # toks_atom a"
| "toks_factor (Base x) = toks_satom x"
| "toks_factor (Power x y) = toks_satom x @ op_tok (CHR ''^'') # toks_satom y"
| "toks_summand (Fac x) = toks_factor x"
| "toks_summand (Times x y) = toks_factor x @ op_tok (CHR ''*'') # toks_factor y"
| "toks_summand (Over x y) = toks_factor x @ op_tok (CHR ''/'') # toks_factor y"
| "toks_expr (Sum x) = toks_summand x"
| "toks_expr (Plus x y) = toks_summand x @ op_tok (CHR ''+'') # toks_summand y"
| "toks_expr (Less x y) = toks_summand x @ op_tok (CHR ''-'') # toks_summand y"

definition text_of :: "expr \<Rightarrow> string" where "text_of e = concat (map tok_txt (toks_expr e))"

text \<open>The value; there is none after a division by zero or a function with the wrong number of arguments.\<close>

definition apply_fn :: "'n arith \<Rightarrow> string \<Rightarrow> 'n \<Rightarrow> 'n option \<Rightarrow> 'n option" where
  "apply_fn ar f x y =
     (case map_of func_table f of
        None \<Rightarrow> None
      | Some g \<Rightarrow> if g = fmod_f \<or> g = atan2_f then map_option (d_fun2 ar g x) y else if y = None then Some (d_fun1 ar g x) else None)"

primrec eval_atom :: "'n arith \<Rightarrow> atom \<Rightarrow> 'n option" and eval_satom :: "'n arith \<Rightarrow> satom \<Rightarrow> 'n option"
  and eval_factor :: "'n arith \<Rightarrow> factor \<Rightarrow> 'n option" and eval_summand :: "'n arith \<Rightarrow> summand \<Rightarrow> 'n option"
  and eval_expr :: "'n arith \<Rightarrow> expr \<Rightarrow> 'n option"
where
  "eval_atom ar (Par e) = eval_expr ar e"
| "eval_atom ar (Num t) = atof ar t"
| "eval_atom ar (Fn1 f a) = do { x \<leftarrow> eval_atom ar a; apply_fn ar f x None }"
| "eval_atom ar (Fn2 f a b) = do { x \<leftarrow> eval_atom ar a; y \<leftarrow> eval_atom ar b; apply_fn ar f x (Some y) }"
| "eval_satom ar (Plain a) = eval_atom ar a"
| "eval_satom ar (Minus a) = do { x \<leftarrow> eval_atom ar a; Some (d_sub ar (d_int ar 0) x) }"
| "eval_factor ar (Base x) = eval_satom ar x"
| "eval_factor ar (Power x y) = do { a \<leftarrow> eval_satom ar x; b \<leftarrow> eval_satom ar y; Some (d_pow ar a b) }"
| "eval_summand ar (Fac x) = eval_factor ar x"
| "eval_summand ar (Times x y) = do { a \<leftarrow> eval_factor ar x; b \<leftarrow> eval_factor ar y; Some (d_mul ar a b) }"
| "eval_summand ar (Over x y) = do { a \<leftarrow> eval_factor ar x; b \<leftarrow> eval_factor ar y; if d_is_zero ar b then None else Some (d_div ar a b) }"
| "eval_expr ar (Sum x) = eval_summand ar x"
| "eval_expr ar (Plus x y) = do { a \<leftarrow> eval_summand ar x; b \<leftarrow> eval_summand ar y; Some (d_add ar a b) }"
| "eval_expr ar (Less x y) = do { a \<leftarrow> eval_summand ar x; b \<leftarrow> eval_summand ar y; Some (d_sub ar a b) }"

text \<open>Well-formed texts of numbers and names of functions; the depth of nesting.\<close>

definition num_text :: "string \<Rightarrow> bool" where
  "num_text t \<longleftrightarrow> t \<noteq> [] \<and> length t < MAX_TOK_LEN \<and> symbol (hd t) = dig_s \<and> (\<forall>c\<in>set t. symbol c = dig_s \<or> symbol c = dec_s)"

primrec wf_atom :: "atom \<Rightarrow> bool" and wf_satom :: "satom \<Rightarrow> bool" and wf_factor :: "factor \<Rightarrow> bool"
  and wf_summand :: "summand \<Rightarrow> bool" and wf_expr :: "expr \<Rightarrow> bool"
where
  "wf_atom (Par e) = wf_expr e"
| "wf_atom (Num t) = num_text t"
| "wf_atom (Fn1 f a) = (map_of func_table f \<noteq> None \<and> wf_atom a)"
| "wf_atom (Fn2 f a b) = (map_of func_table f \<noteq> None \<and> wf_atom a \<and> wf_atom b)"
| "wf_satom (Plain a) = wf_atom a"
| "wf_satom (Minus a) = wf_atom a"
| "wf_factor (Base x) = wf_satom x"
| "wf_factor (Power x y) = (wf_satom x \<and> wf_satom y)"
| "wf_summand (Fac x) = wf_factor x"
| "wf_summand (Times x y) = (wf_factor x \<and> wf_factor y)"
| "wf_summand (Over x y) = (wf_factor x \<and> wf_factor y)"
| "wf_expr (Sum x) = wf_summand x"
| "wf_expr (Plus x y) = (wf_summand x \<and> wf_summand y)"
| "wf_expr (Less x y) = (wf_summand x \<and> wf_summand y)"

subsection \<open>What a parser does\<close>

text \<open>The tokens from \<open>next_tok\<close> on, and what stays the same.\<close>

definition ahead :: "tok list \<Rightarrow> calc \<Rightarrow> bool" where
  "ahead ts s \<longleftrightarrow> length (tokens s) = MAX_TOKENS \<and> tokens_len s < MAX_TOKENS \<and>
     (\<exists>i u. next_tok s = Some i \<and> current_idx s = Suc i \<and> i + length ts = tokens_len s \<and> drop i (tokens s) = map Some ts @ u)"

definition keeps :: "calc \<Rightarrow> calc \<Rightarrow> bool" where
  "keeps s s' \<longleftrightarrow> calc_out s' = calc_out s \<and> calc_mem s' = calc_mem s"

lemma keeps_trans: "keeps s s1 \<Longrightarrow> keeps s1 s2 \<Longrightarrow> keeps s s2"
  by (simp add: keeps_def)

lemma ahead_tok: "ahead (t # ts) s \<Longrightarrow> the_tok s = Some t"
proof -
  assume "ahead (t # ts) s"
  then obtain i u where i: "next_tok s = Some i" "drop i (tokens s) = Some t # map Some ts @ u" by (auto simp: ahead_def)
  then have "tokens s ! i = Some t" by (metis hd_drop_conv_nth drop_all list.sel(1) list.distinct(1) linorder_not_less)
  then show ?thesis using i(1) by (simp add: the_tok_def)
qed

lemma accept_ok:
  assumes "ahead (t # u # ts) s" "tok_symbol t = y"
  shows "\<exists>s'. accept_token y s = Some (0, s') \<and> ahead (u # ts) s' \<and> keeps s s'"
proof -
  obtain i w where i: "next_tok s = Some i" "current_idx s = Suc i" "drop i (tokens s) = Some t # Some u # map Some ts @ w" "length (tokens s) = MAX_TOKENS"
    "i + length (t # u # ts) = tokens_len s" "tokens_len s < MAX_TOKENS"
    using assms(1) by (auto simp: ahead_def)
  have d: "drop (Suc i) (tokens s) = Some u # map Some ts @ w" using i(3) by (metis drop_Suc tl_drop list.sel(3))
  then have l: "Suc i < MAX_TOKENS" "tokens s ! Suc i = Some u"
    using i(4) by (metis drop_all linorder_not_less list.distinct(1), metis hd_drop_conv_nth drop_all list.sel(1) list.distinct(1) linorder_not_less)
  then show ?thesis using ahead_tok[OF assms(1)] assms(2) i d by (auto simp: accept_token_def get_next_def ahead_def keeps_def)
qed

lemma set_symbol_ok:
  assumes "ahead (t # ts) s"
  shows "\<exists>s'. set_symbol f s = Some s' \<and> ahead (t\<lparr>tok_symbol := f\<rparr> # ts) s' \<and> keeps s s'"
proof -
  obtain i w where i: "next_tok s = Some i" "current_idx s = Suc i" "drop i (tokens s) = Some t # map Some ts @ w" "length (tokens s) = MAX_TOKENS"
    "i + length (t # ts) = tokens_len s" "tokens_len s < MAX_TOKENS"
    using assms by (auto simp: ahead_def)
  have "i < length (tokens s)" using i(3) by (metis drop_all linorder_not_less list.distinct(1))
  then have "tokens s ! i = Some t" "drop i ((tokens s)[i := x]) = x # map Some ts @ w" for x
    using i(3) by (simp_all add: drop_update_swap flip: Cons_nth_drop_Suc)
  then show ?thesis using i by (auto simp: set_symbol_def ahead_def keeps_def)
qed

text \<open>
  The parser \<open>p\<close> reads the tokens \<open>xs\<close> if the symbol behind them satisfies \<open>F\<close>, and stores the value \<open>r\<close>, or fails when there is none.
\<close>

definition reads :: "'n parser \<Rightarrow> tok list \<Rightarrow> 'n option \<Rightarrow> (sym_t \<Rightarrow> bool) \<Rightarrow> bool" where
  "reads p xs r F \<longleftrightarrow> (\<forall>s u ts. ahead (xs @ u # ts) s \<longrightarrow> F (tok_symbol u) \<longrightarrow>
     (case r of Some v \<Rightarrow> \<exists>s'. p s = Some (0, Some v, s') \<and> ahead (u # ts) s' \<and> keeps s s' | None \<Rightarrow> \<exists>v s'. p s = Some (-1, v, s')))"

lemma reads_Some: "reads p xs (Some v) F \<Longrightarrow> ahead (xs @ u # ts) s \<Longrightarrow> F (tok_symbol u) \<Longrightarrow>
    (\<And>s'. p s = Some (0, Some v, s') \<Longrightarrow> ahead (u # ts) s' \<Longrightarrow> keeps s s' \<Longrightarrow> thesis) \<Longrightarrow> thesis"
  by (fastforce simp: reads_def)

lemma reads_None: "reads p xs None F \<Longrightarrow> ahead (xs @ u # ts) s \<Longrightarrow> F (tok_symbol u) \<Longrightarrow> (\<And>v s'. p s = Some (-1, v, s') \<Longrightarrow> thesis) \<Longrightarrow> thesis"
  by (fastforce simp: reads_def)

lemma readsI:
  assumes "\<And>s u ts v. r = Some v \<Longrightarrow> ahead (xs @ u # ts) s \<Longrightarrow> F (tok_symbol u) \<Longrightarrow> \<exists>s'. p s = Some (0, Some v, s') \<and> ahead (u # ts) s' \<and> keeps s s'"
    "\<And>s u ts. r = None \<Longrightarrow> ahead (xs @ u # ts) s \<Longrightarrow> F (tok_symbol u) \<Longrightarrow> \<exists>v s'. p s = Some (-1, v, s')"
  shows "reads p xs r F"
  unfolding reads_def using assms by (auto split: option.splits)

subsection \<open>One level of operators\<close>

lemma level_one:
  assumes "reads p xs r F" "\<And>y. F' y \<Longrightarrow> F y \<and> \<not> ops y"
  shows "reads (parse_level ar 0 ops p) xs r F'"
proof (rule readsI)
  fix s u ts v assume h: "r = Some v" "ahead (xs @ u # ts) s" "F' (tok_symbol u)"
  obtain s' where s': "p s = Some (0, Some v, s')" "ahead (u # ts) s'" "keeps s s'"
    by (rule reads_Some[OF assms(1)[unfolded h(1)] h(2)]) (use assms(2) h(3) in auto)
  then show "\<exists>s'. parse_level ar 0 ops p s = Some (0, Some v, s') \<and> ahead (u # ts) s' \<and> keeps s s'"
    using assms(2)[OF h(3)] ahead_tok[OF s'(2)] by (simp add: parse_level_def)
next
  fix s u ts assume h: "r = None" "ahead (xs @ u # ts) s" "F' (tok_symbol u)"
  obtain v s' where "p s = Some (-1, v, s')" by (rule reads_None[OF assms(1)[unfolded h(1)] h(2)]) (use assms(2) h(3) in auto)
  then show "\<exists>v s'. parse_level ar 0 ops p s = Some (-1, v, s')" by (simp add: parse_level_def)
qed

definition op_value :: "'n arith \<Rightarrow> sym_t \<Rightarrow> 'n \<Rightarrow> 'n \<Rightarrow> 'n option" where
  "op_value ar y a b = (if y = add_s then Some (d_add ar a b) else if y = sub_s then Some (d_sub ar a b) else if y = mul_s then Some (d_mul ar a b)
     else if y = div_s then (if d_is_zero ar b then None else Some (d_div ar a b)) else if y = exp_s then Some (d_pow ar a b) else None)"

lemma perf_op_value:
  "perf_op ar y a b s = (case op_value ar y a b of Some v \<Rightarrow> (0, Some v, s) | None \<Rightarrow> (-1, None, snd (snd (perf_op ar y a b s))))"
  by (cases y) (simp_all add: perf_op_def op_value_def)

lemma level_two:
  assumes p: "reads p xs r F" and q: "reads p (v # ys) r' F" and o: "ops (tok_symbol o1)" "F (tok_symbol o1)" and F: "\<And>y. F' y \<Longrightarrow> F y"
  shows "reads (parse_level ar 0 ops p) (xs @ o1 # v # ys) (do { a \<leftarrow> r; b \<leftarrow> r'; op_value ar (tok_symbol o1) a b }) F'"
proof -
  have first: "\<exists>a s1 s2. r = Some a \<and> p s = Some (0, Some a, s1) \<and> the_tok s1 = Some o1 \<and> accept_token (tok_symbol o1) s1 = Some (0, s2) \<and>
      ahead ((v # ys) @ u # ts) s2 \<and> keeps s s2" if h0: "ahead ((xs @ o1 # v # ys) @ u # ts) s" "r \<noteq> None" for s u ts
  proof -
    obtain a where a: "r = Some a" using h0(2) by auto
    have h: "ahead (xs @ o1 # (v # ys) @ u # ts) s" using h0(1) by simp
    obtain s1 where s1: "p s = Some (0, Some a, s1)" "ahead (o1 # (v # ys) @ u # ts) s1" "keeps s s1" by (rule reads_Some[OF p[unfolded a] h o(2)])
    obtain s2 where "accept_token (tok_symbol o1) s1 = Some (0, s2)" "ahead ((v # ys) @ u # ts) s2" "keeps s1 s2"
      using accept_ok[of o1 v "ys @ u # ts" s1] s1(2) by auto
    then show ?thesis using a s1(1) ahead_tok[OF s1(2)] keeps_trans[OF s1(3)] by blast
  qed
  show ?thesis
  proof (rule readsI)
    fix s u ts w assume h: "(do { a \<leftarrow> r; b \<leftarrow> r'; op_value ar (tok_symbol o1) a b }) = Some w" "ahead ((xs @ o1 # v # ys) @ u # ts) s" "F' (tok_symbol u)"
    then obtain a b where ab: "r = Some a" "r' = Some b" "op_value ar (tok_symbol o1) a b = Some w" by (auto split: bind_splits)
    from first[OF h(2)] ab(1) obtain s1 s2 where s: "p s = Some (0, Some a, s1)" "the_tok s1 = Some o1" "accept_token (tok_symbol o1) s1 = Some (0, s2)"
      "ahead ((v # ys) @ u # ts) s2" "keeps s s2" by auto
    obtain s3 where s3: "p s2 = Some (0, Some b, s3)" "ahead (u # ts) s3" "keeps s2 s3" by (rule reads_Some[OF q[unfolded ab(2)] s(4) F[OF h(3)]])
    have "parse_level ar 0 ops p s = Some (0, Some w, s3)" using s s3(1) o(1) ab(3) perf_op_value[of ar "tok_symbol o1" a b s3] by (simp add: parse_level_def)
    then show "\<exists>s'. parse_level ar 0 ops p s = Some (0, Some w, s') \<and> ahead (u # ts) s' \<and> keeps s s'" using s3 keeps_trans[OF s(5)] by blast
  next
    fix s u ts assume h: "(do { a \<leftarrow> r; b \<leftarrow> r'; op_value ar (tok_symbol o1) a b }) = None" "ahead ((xs @ o1 # v # ys) @ u # ts) s" "F' (tok_symbol u)"
    show "\<exists>w s'. parse_level ar 0 ops p s = Some (-1, w, s')"
    proof (cases r)
      case None
      have h': "ahead (xs @ o1 # (v # ys) @ u # ts) s" using h(2) by simp
      obtain w s' where "p s = Some (-1, w, s')" by (rule reads_None[OF p[unfolded None] h' o(2)])
      then show ?thesis by (simp add: parse_level_def)
    next
      case (Some a)
      with first[OF h(2)] obtain s1 s2 where s: "p s = Some (0, Some a, s1)" "the_tok s1 = Some o1" "accept_token (tok_symbol o1) s1 = Some (0, s2)"
        "ahead ((v # ys) @ u # ts) s2" by auto
      show ?thesis
      proof (cases r')
        case None
        obtain w s' where "p s2 = Some (-1, w, s')" by (rule reads_None[OF q[unfolded None] s(4) F[OF h(3)]])
        then show ?thesis using s(1-3) o(1) by (simp add: parse_level_def)
      next
        case (Some b)
        obtain s3 where s3: "p s2 = Some (0, Some b, s3)" by (rule reads_Some[OF q[unfolded Some] s(4) F[OF h(3)]])
        have "op_value ar (tok_symbol o1) a b = None" using h(1) \<open>r = Some a\<close> Some by simp
        then show ?thesis using s s3 o(1) perf_op_value[of ar "tok_symbol o1" a b s3] by (auto simp: parse_level_def split: prod.splits)
      qed
    qed
  qed
qed

subsection \<open>Atoms\<close>

lemma op_symbols [simp]:
  "tok_symbol (op_tok (CHR ''('')) = lpar_s" "tok_symbol (op_tok (CHR '')'')) = rpar_s" "tok_symbol (op_tok (CHR '','')) = comma_s"
  "tok_symbol (op_tok (CHR ''-'')) = sub_s" "tok_symbol (op_tok (CHR ''+'')) = add_s" "tok_symbol (op_tok (CHR ''*'')) = mul_s"
  "tok_symbol (op_tok (CHR ''/'')) = div_s" "tok_symbol (op_tok (CHR ''^'')) = exp_s" "tok_symbol (num_tok t) = num_s" "tok_symbol (fn_tok f) = txt_s"
  by (simp_all add: op_tok_def num_tok_def fn_tok_def symbol_def isdigit_def IS_ALPHA_def)

lemma tok_texts [simp]: "tok_txt (op_tok c) = [c]" "tok_txt (num_tok t) = t" "tok_txt (fn_tok f) = f"
  by (simp_all add: op_tok_def num_tok_def fn_tok_def)

lemma atom_par:
  assumes p: "reads (parse_expression ar 0 (parse_atom n ar 0)) (v # ys) r F" and F: "F rpar_s"
  shows "reads (parse_atom (Suc n) ar 0) (op_tok (CHR ''('') # (v # ys) @ [op_tok (CHR '')'')]) r (\<lambda>y. True)"
proof (rule readsI)
  fix s u ts w assume h: "r = Some w" "ahead ((op_tok (CHR ''('') # (v # ys) @ [op_tok (CHR '')'')]) @ u # ts) s"
  then obtain s1 where s1: "accept_token lpar_s s = Some (0, s1)" "ahead ((v # ys) @ op_tok (CHR '')'') # u # ts) s1" "keeps s s1"
    using accept_ok[of "op_tok (CHR ''('')" v "ys @ op_tok (CHR '')'') # u # ts" s] by auto
  obtain s2 where s2: "parse_expression ar 0 (parse_atom n ar 0) s1 = Some (0, Some w, s2)" "ahead (op_tok (CHR '')'') # u # ts) s2" "keeps s1 s2"
    by (rule reads_Some[OF p[unfolded h(1)] s1(2)]) (use F in simp_all)
  obtain s3 where s3: "accept_token rpar_s s2 = Some (0, s3)" "ahead (u # ts) s3" "keeps s2 s3" using accept_ok[OF s2(2)] by auto
  have "the_tok s = Some (op_tok (CHR ''(''))" using h(2) by (simp add: ahead_tok)
  then have "parse_atom (Suc n) ar 0 s = Some (0, Some w, s3)" using s1(1) s2(1) s3(1) by simp
  then show "\<exists>s'. parse_atom (Suc n) ar 0 s = Some (0, Some w, s') \<and> ahead (u # ts) s' \<and> keeps s s'"
    using s3(2) keeps_trans[OF keeps_trans[OF s1(3) s2(3)] s3(3)] by blast
next
  fix s u ts assume h: "r = None" "ahead ((op_tok (CHR ''('') # (v # ys) @ [op_tok (CHR '')'')]) @ u # ts) s"
  then obtain s1 where s1: "accept_token lpar_s s = Some (0, s1)" "ahead ((v # ys) @ op_tok (CHR '')'') # u # ts) s1"
    using accept_ok[of "op_tok (CHR ''('')" v "ys @ op_tok (CHR '')'') # u # ts" s] by auto
  obtain w s2 where "parse_expression ar 0 (parse_atom n ar 0) s1 = Some (-1, w, s2)"
    by (rule reads_None[OF p[unfolded h(1)] s1(2)]) (use F in simp_all)
  then show "\<exists>w s'. parse_atom (Suc n) ar 0 s = Some (-1, w, s')" using s1(1) ahead_tok[of "op_tok (CHR ''('')" _ s] h(2) by simp
qed

lemma atom_num:
  assumes "atof ar t = Some w"
  shows "reads (parse_atom (Suc n) ar 0) [num_tok t] (Some w) (\<lambda>y. True)"
proof (rule readsI)
  fix s u ts v assume h: "Some w = Some v" "ahead ([num_tok t] @ u # ts) s"
  then show "\<exists>s'. parse_atom (Suc n) ar 0 s = Some (0, Some v, s') \<and> ahead (u # ts) s' \<and> keeps s s'"
    using accept_ok[of "num_tok t" u ts s] ahead_tok[of "num_tok t" _ s] assms by (auto simp: parse_numb_def string_to_num_def)
qed simp

text \<open>What is left of \<open>parse_func\<close> behind the opening parenthesis.\<close>

definition func_tail :: "'n arith \<Rightarrow> sym_t \<Rightarrow> 'n parser \<Rightarrow> 'n parser" where
  "func_tail ar f atom s = do {
     (r, op1, s) \<leftarrow> atom s;
     if r \<noteq> 0 then Some (-1, None, s)
     else do {
       (st, op2, s) \<leftarrow> parse_func_rest atom s;
       if st = 1 then do { x \<leftarrow> op1; y \<leftarrow> op2; Some (perf_func ar f x (Some y) s) }
       else if st = 0 then do { x \<leftarrow> op1; Some (perf_func ar f x None s) }
       else Some (-1, None, s)
     }
   }"

lemma func_prefix:
  assumes "ahead (fn_tok f # op_tok (CHR ''('') # v # ts) s" "map_of func_table f = Some g"
  shows "\<exists>s'. ahead (v # ts) s' \<and> keeps s s' \<and> parse_func ar p s = func_tail ar g p s'"
proof -
  obtain s1 where s1: "set_symbol g s = Some s1" "ahead ((fn_tok f)\<lparr>tok_symbol := g\<rparr> # op_tok (CHR ''('') # v # ts) s1" "keeps s s1"
    using set_symbol_ok[OF assms(1)] by blast
  obtain s2 where s2: "accept_token g s1 = Some (0, s2)" "ahead (op_tok (CHR ''('') # v # ts) s2" "keeps s1 s2" using accept_ok[OF s1(2)] by auto
  obtain s3 where s3: "accept_token lpar_s s2 = Some (0, s3)" "ahead (v # ts) s3" "keeps s2 s3" using accept_ok[OF s2(2)] by auto
  have "parse_func ar p s = func_tail ar g p s3"
    using ahead_tok[OF assms(1)] assms(2) s1(1) s2(1) s3(1) by (simp add: parse_func_def get_func_def func_tail_def)
  then show ?thesis using s3(2) keeps_trans[OF keeps_trans[OF s1(3) s2(3)] s3(3)] by blast
qed

lemma perf_func_value:
  assumes "map_of func_table f = Some g"
  shows "perf_func ar g x y s = (case apply_fn ar f x y of Some v \<Rightarrow> (0, Some v, s) | None \<Rightarrow> (-1, None, s))"
proof -
  have "is_func g" using map_of_SomeD[OF assms] by (force simp: is_func_def)
  then show ?thesis using assms by (cases y) (simp_all add: perf_func_def apply_fn_def)
qed

lemma func_one:
  assumes p: "reads p (v # ys) r (\<lambda>y. True)" and f: "map_of func_table f = Some g"
  shows "reads (parse_func ar p) (fn_tok f # op_tok (CHR ''('') # (v # ys) @ [op_tok (CHR '')'')]) (do { x \<leftarrow> r; apply_fn ar f x None }) (\<lambda>y. True)"
proof -
  have pre: "\<exists>s1. ahead ((v # ys) @ op_tok (CHR '')'') # u # ts) s1 \<and> keeps s s1 \<and> parse_func ar p s = func_tail ar g p s1"
    if "ahead ((fn_tok f # op_tok (CHR ''('') # (v # ys) @ [op_tok (CHR '')'')]) @ u # ts) s" for s u ts
    using func_prefix[of f v "ys @ op_tok (CHR '')'') # u # ts" s g ar p] that f by simp
  have tail: "\<exists>s2. ahead (u # ts) s2 \<and> keeps s1 s2 \<and> func_tail ar g p s1 = Some (perf_func ar g x None s2)"
    if ts: "ahead ((v # ys) @ op_tok (CHR '')'') # u # ts) s1" "r = Some x" for s1 u ts x
  proof -
    obtain s2 where s2: "p s1 = Some (0, Some x, s2)" "ahead (op_tok (CHR '')'') # u # ts) s2" "keeps s1 s2" by (rule reads_Some[OF p[unfolded ts(2)] ts(1)]) simp_all
    obtain s3 where "accept_token rpar_s s2 = Some (0, s3)" "ahead (u # ts) s3" "keeps s2 s3" using accept_ok[OF s2(2)] by auto
    then show ?thesis using s2(1) ahead_tok[OF s2(2)] keeps_trans[OF s2(3)] by (intro exI[of _ s3]) (simp add: func_tail_def parse_func_rest_def)
  qed
  show ?thesis
  proof (rule readsI)
    fix s u ts w assume h: "(do { x \<leftarrow> r; apply_fn ar f x None }) = Some w" "ahead ((fn_tok f # op_tok (CHR ''('') # (v # ys) @ [op_tok (CHR '')'')]) @ u # ts) s"
    then obtain x where x: "r = Some x" "apply_fn ar f x None = Some w" by (auto split: bind_splits)
    from pre[OF h(2)] tail[OF _ x(1)] obtain s1 s2 where "parse_func ar p s = Some (perf_func ar g x None s2)" "ahead (u # ts) s2" "keeps s s1" "keeps s1 s2" by metis
    then show "\<exists>s'. parse_func ar p s = Some (0, Some w, s') \<and> ahead (u # ts) s' \<and> keeps s s'" using perf_func_value[OF f, of ar x None s2] x(2) keeps_trans by auto
  next
    fix s u ts assume h: "(do { x \<leftarrow> r; apply_fn ar f x None }) = None" "ahead ((fn_tok f # op_tok (CHR ''('') # (v # ys) @ [op_tok (CHR '')'')]) @ u # ts) s"
    from pre[OF h(2)] obtain s1 where s1: "ahead ((v # ys) @ op_tok (CHR '')'') # u # ts) s1" "parse_func ar p s = func_tail ar g p s1" by blast
    show "\<exists>w s'. parse_func ar p s = Some (-1, w, s')"
    proof (cases r)
      case None
      obtain w s2 where "p s1 = Some (-1, w, s2)" by (rule reads_None[OF p[unfolded None] s1(1)]) simp_all
      then show ?thesis using s1(2) by (simp add: func_tail_def)
    next
      case (Some x)
      with tail[OF s1(1)] obtain s2 where "func_tail ar g p s1 = Some (perf_func ar g x None s2)" by blast
      then show ?thesis using s1(2) h(1) Some perf_func_value[OF f, of ar x None s2] by simp
    qed
  qed
qed

lemma func_two:
  assumes p: "reads p (v # ys) r (\<lambda>y. True)" and q: "reads p (w # zs) r' (\<lambda>y. True)" and f: "map_of func_table f = Some g"
  shows "reads (parse_func ar p) (fn_tok f # op_tok (CHR ''('') # (v # ys) @ op_tok (CHR '','') # (w # zs) @ [op_tok (CHR '')'')])
    (do { x \<leftarrow> r; y \<leftarrow> r'; apply_fn ar f x (Some y) }) (\<lambda>y. True)"
proof -
  let ?in = "\<lambda>u ts. (v # ys) @ op_tok (CHR '','') # (w # zs) @ op_tok (CHR '')'') # u # ts"
  have pre: "\<exists>s1. ahead (?in u ts) s1 \<and> keeps s s1 \<and> parse_func ar p s = func_tail ar g p s1"
    if "ahead ((fn_tok f # op_tok (CHR ''('') # (v # ys) @ op_tok (CHR '','') # (w # zs) @ [op_tok (CHR '')'')]) @ u # ts) s" for s u ts
    using func_prefix[of f v "ys @ op_tok (CHR '','') # (w # zs) @ op_tok (CHR '')'') # u # ts" s g ar p] that f by simp
  have mid: "\<exists>s2 s3. ahead ((w # zs) @ op_tok (CHR '')'') # u # ts) s3 \<and> keeps s1 s3 \<and> p s1 = Some (0, Some x, s2) \<and>
      the_tok s2 = Some (op_tok (CHR '','')) \<and> accept_token comma_s s2 = Some (0, s3)"
    if ts: "ahead (?in u ts) s1" "r = Some x" for s1 u ts x
  proof -
    obtain s2 where s2: "p s1 = Some (0, Some x, s2)" "ahead (op_tok (CHR '','') # (w # zs) @ op_tok (CHR '')'') # u # ts) s2" "keeps s1 s2"
      by (rule reads_Some[OF p[unfolded ts(2)] ts(1)]) simp_all
    obtain s3 where "accept_token comma_s s2 = Some (0, s3)" "ahead ((w # zs) @ op_tok (CHR '')'') # u # ts) s3" "keeps s2 s3"
      using accept_ok[of "op_tok (CHR '','')" w "zs @ op_tok (CHR '')'') # u # ts" s2] s2(2) by auto
    then show ?thesis using s2(1) ahead_tok[OF s2(2)] keeps_trans[OF s2(3)] by blast
  qed
  have tail: "\<exists>s2. ahead (u # ts) s2 \<and> keeps s1 s2 \<and> func_tail ar g p s1 = Some (perf_func ar g x (Some y) s2)"
    if ts: "ahead (?in u ts) s1" "r = Some x" "r' = Some y" for s1 u ts x y
  proof -
    from mid[OF ts(1,2)] obtain s2 s3 where s3: "ahead ((w # zs) @ op_tok (CHR '')'') # u # ts) s3" "keeps s1 s3" "p s1 = Some (0, Some x, s2)"
      "the_tok s2 = Some (op_tok (CHR '',''))" "accept_token comma_s s2 = Some (0, s3)" by blast
    obtain s4 where s4: "p s3 = Some (0, Some y, s4)" "ahead (op_tok (CHR '')'') # u # ts) s4" "keeps s3 s4" by (rule reads_Some[OF q[unfolded ts(3)] s3(1)]) simp_all
    obtain s5 where "accept_token rpar_s s4 = Some (0, s5)" "ahead (u # ts) s5" "keeps s4 s5" using accept_ok[OF s4(2)] by auto
    then show ?thesis using s3(3-5) s4(1) keeps_trans[OF keeps_trans[OF s3(2) s4(3)]] by (intro exI[of _ s5]) (simp add: func_tail_def parse_func_rest_def)
  qed
  show ?thesis
  proof (rule readsI)
    fix s u ts z assume h: "(do { x \<leftarrow> r; y \<leftarrow> r'; apply_fn ar f x (Some y) }) = Some z"
      "ahead ((fn_tok f # op_tok (CHR ''('') # (v # ys) @ op_tok (CHR '','') # (w # zs) @ [op_tok (CHR '')'')]) @ u # ts) s"
    then obtain x y where x: "r = Some x" "r' = Some y" "apply_fn ar f x (Some y) = Some z" by (auto split: bind_splits)
    from pre[OF h(2)] tail[OF _ x(1,2)] obtain s1 s2 where "parse_func ar p s = Some (perf_func ar g x (Some y) s2)" "ahead (u # ts) s2" "keeps s s1" "keeps s1 s2" by metis
    then show "\<exists>s'. parse_func ar p s = Some (0, Some z, s') \<and> ahead (u # ts) s' \<and> keeps s s'" using perf_func_value[OF f, of ar x "Some y" s2] x(3) keeps_trans by auto
  next
    fix s u ts assume h: "(do { x \<leftarrow> r; y \<leftarrow> r'; apply_fn ar f x (Some y) }) = None"
      "ahead ((fn_tok f # op_tok (CHR ''('') # (v # ys) @ op_tok (CHR '','') # (w # zs) @ [op_tok (CHR '')'')]) @ u # ts) s"
    from pre[OF h(2)] obtain s1 where s1: "ahead (?in u ts) s1" "parse_func ar p s = func_tail ar g p s1" by blast
    consider "r = None" | x where "r = Some x" "r' = None" | x y where "r = Some x" "r' = Some y" by (cases r; cases r') auto
    then show "\<exists>z s'. parse_func ar p s = Some (-1, z, s')"
    proof cases
      case 1
      obtain z s2 where "p s1 = Some (-1, z, s2)" by (rule reads_None[OF p[unfolded 1] s1(1)]) simp_all
      then show ?thesis using s1(2) by (simp add: func_tail_def)
    next
      case (2 x)
      from mid[OF s1(1) 2(1)] obtain s2 s3 where s3: "ahead ((w # zs) @ op_tok (CHR '')'') # u # ts) s3" "p s1 = Some (0, Some x, s2)"
        "the_tok s2 = Some (op_tok (CHR '',''))" "accept_token comma_s s2 = Some (0, s3)" by blast
      obtain z s4 where "p s3 = Some (-1, z, s4)" by (rule reads_None[OF q[unfolded 2(2)] s3(1)]) simp_all
      then show ?thesis using s1(2) s3(2-4) by (simp add: func_tail_def parse_func_rest_def)
    next
      case (3 x y)
      with tail[OF s1(1)] obtain s2 where "func_tail ar g p s1 = Some (perf_func ar g x (Some y) s2)" by blast
      then show ?thesis using s1(2) h(1) 3 perf_func_value[OF f, of ar x "Some y" s2] by simp
    qed
  qed
qed

lemma atom_func:
  assumes p: "reads (parse_func ar (parse_atom n ar 0)) (fn_tok f # xs) r (\<lambda>y. True)"
  shows "reads (parse_atom (Suc n) ar 0) (fn_tok f # xs) r (\<lambda>y. True)"
proof (rule readsI)
  fix s u ts w assume h: "r = Some w" "ahead ((fn_tok f # xs) @ u # ts) s"
  obtain s1 where "parse_func ar (parse_atom n ar 0) s = Some (0, Some w, s1)" "ahead (u # ts) s1" "keeps s s1"
    by (rule reads_Some[OF p[unfolded h(1)] h(2)]) simp_all
  then show "\<exists>s'. parse_atom (Suc n) ar 0 s = Some (0, Some w, s') \<and> ahead (u # ts) s' \<and> keeps s s'" using ahead_tok[of "fn_tok f" _ s] h(2) by simp
next
  fix s u ts assume h: "r = None" "ahead ((fn_tok f # xs) @ u # ts) s"
  obtain w s1 where "parse_func ar (parse_atom n ar 0) s = Some (-1, w, s1)" by (rule reads_None[OF p[unfolded h(1)] h(2)]) simp_all
  then show "\<exists>w s'. parse_atom (Suc n) ar 0 s = Some (-1, w, s')" using ahead_tok[of "fn_tok f" _ s] h(2) by simp
qed

lemma s_atom_plain:
  assumes p: "reads p (v # ys) r (\<lambda>y. True)" and v: "tok_symbol v \<noteq> sub_s"
  shows "reads (parse_s_atom ar p) (v # ys) r (\<lambda>y. True)"
proof (rule readsI)
  fix s u ts w assume h: "r = Some w" "ahead ((v # ys) @ u # ts) s"
  obtain s1 where "p s = Some (0, Some w, s1)" "ahead (u # ts) s1" "keeps s s1" by (rule reads_Some[OF p[unfolded h(1)] h(2)]) simp_all
  then show "\<exists>s'. parse_s_atom ar p s = Some (0, Some w, s') \<and> ahead (u # ts) s' \<and> keeps s s'" using ahead_tok[of v _ s] h(2) v by (simp add: parse_s_atom_def)
next
  fix s u ts assume h: "r = None" "ahead ((v # ys) @ u # ts) s"
  obtain w s1 where "p s = Some (-1, w, s1)" by (rule reads_None[OF p[unfolded h(1)] h(2)]) simp_all
  then show "\<exists>w s'. parse_s_atom ar p s = Some (-1, w, s')" using ahead_tok[of v _ s] h(2) v by (simp add: parse_s_atom_def)
qed

lemma s_atom_minus:
  assumes p: "reads p (v # ys) r (\<lambda>y. True)"
  shows "reads (parse_s_atom ar p) (op_tok (CHR ''-'') # v # ys) (do { x \<leftarrow> r; Some (d_sub ar (d_int ar 0) x) }) (\<lambda>y. True)"
proof -
  have pre: "\<exists>s1. accept_token sub_s s = Some (0, s1) \<and> ahead ((v # ys) @ u # ts) s1 \<and> keeps s s1 \<and> the_tok s = Some (op_tok (CHR ''-''))"
    if "ahead ((op_tok (CHR ''-'') # v # ys) @ u # ts) s" for s u ts
    using accept_ok[of "op_tok (CHR ''-'')" v "ys @ u # ts" s] ahead_tok[of "op_tok (CHR ''-'')" _ s] that by simp
  show ?thesis
  proof (rule readsI)
    fix s u ts w assume h: "(do { x \<leftarrow> r; Some (d_sub ar (d_int ar 0) x) }) = Some w" "ahead ((op_tok (CHR ''-'') # v # ys) @ u # ts) s"
    then obtain x where x: "r = Some x" "w = d_sub ar (d_int ar 0) x" by (auto split: bind_splits)
    from pre[OF h(2)] obtain s1 where s1: "accept_token sub_s s = Some (0, s1)" "ahead ((v # ys) @ u # ts) s1" "keeps s s1" "the_tok s = Some (op_tok (CHR ''-''))" by blast
    obtain s2 where "p s1 = Some (0, Some x, s2)" "ahead (u # ts) s2" "keeps s1 s2" by (rule reads_Some[OF p[unfolded x(1)] s1(2)]) simp_all
    then show "\<exists>s'. parse_s_atom ar p s = Some (0, Some w, s') \<and> ahead (u # ts) s' \<and> keeps s s'"
      using s1 x(2) keeps_trans[OF s1(3)] by (simp add: parse_s_atom_def)
  next
    fix s u ts assume h: "(do { x \<leftarrow> r; Some (d_sub ar (d_int ar 0) x) }) = None" "ahead ((op_tok (CHR ''-'') # v # ys) @ u # ts) s"
    then have r: "r = None" by (auto split: bind_splits)
    from pre[OF h(2)] obtain s1 where s1: "accept_token sub_s s = Some (0, s1)" "ahead ((v # ys) @ u # ts) s1" "the_tok s = Some (op_tok (CHR ''-''))" by blast
    obtain w s2 where "p s1 = Some (-1, w, s2)" by (rule reads_None[OF p[unfolded r] s1(2)]) simp_all
    then show "\<exists>w s'. parse_s_atom ar p s = Some (-1, w, s')" using s1 by (simp add: parse_s_atom_def)
  qed
qed

subsection \<open>The parser computes the value\<close>

lemma toks_Cons:
  "\<exists>v ys. toks_atom a = v # ys \<and> tok_symbol v \<noteq> sub_s"
  "\<exists>v ys. toks_satom b = v # ys"
  "\<exists>v ys. toks_factor c = v # ys"
  "\<exists>v ys. toks_summand d = v # ys"
  "\<exists>v ys. toks_expr e = v # ys"
proof -
  show a: "\<exists>v ys. toks_atom a = v # ys \<and> tok_symbol v \<noteq> sub_s" for a by (cases a) simp_all
  show b: "\<exists>v ys. toks_satom b = v # ys" for b using a by (cases b) (auto, metis)
  show c: "\<exists>v ys. toks_factor c = v # ys" for c using b by (cases c) (auto, metis append_Cons)
  show d: "\<exists>v ys. toks_summand d = v # ys" for d using c by (cases d) (auto, (metis append_Cons)+)
  show "\<exists>v ys. toks_expr e = v # ys" using d by (cases e) (auto, (metis append_Cons)+)
qed

definition no_pow :: "sym_t \<Rightarrow> bool" where "no_pow y \<longleftrightarrow> y \<noteq> exp_s"
definition no_mul :: "sym_t \<Rightarrow> bool" where "no_mul y \<longleftrightarrow> no_pow y \<and> y \<noteq> mul_s \<and> y \<noteq> div_s"
definition no_op :: "sym_t \<Rightarrow> bool" where "no_op y \<longleftrightarrow> no_mul y \<and> y \<noteq> add_s \<and> y \<noteq> sub_s"

lemma no_simps [simp]: "no_pow mul_s" "no_pow div_s" "no_mul add_s" "no_mul sub_s" "no_op rpar_s" "no_op eof_s" "no_mul y \<Longrightarrow> no_pow y" "no_op y \<Longrightarrow> no_mul y"
  by (simp_all add: no_op_def no_mul_def no_pow_def)

lemma num_text_value: "num_text t \<Longrightarrow> \<exists>v. atof ar t = Some v"
proof -
  assume n: "num_text t"
  have "symbol (CHR ''e'') = txt_s" "symbol (CHR ''E'') = txt_s" by (simp_all add: symbol_def isdigit_def IS_ALPHA_def)
  then have e: "CHR ''e'' \<notin> set t" "CHR ''E'' \<notin> set t" using n by (force simp: num_text_def)+
  show ?thesis
  proof (cases "drop (length (digits t)) t")
    case Nil
    then show ?thesis by (simp add: atof_def)
  next
    case (Cons c r)
    then have c: "set (c # r) \<subseteq> set t" by (metis set_drop_subset)
    show ?thesis
    proof (cases "drop (length (digits r)) r")
      case Nil
      moreover have "c \<noteq> CHR ''e''" "c \<noteq> CHR ''E''" using c e by auto
      ultimately show ?thesis using Cons by (cases "c = CHR ''.''") (simp_all add: atof_def)
    next
      case (Cons c' r')
      then have "c' \<in> set r" by (metis in_set_dropD list.set_intros(1))
      then have "c' \<noteq> CHR ''e''" "c' \<noteq> CHR ''E''" "c \<noteq> CHR ''e''" "c \<noteq> CHR ''E''" using c e by auto
      then show ?thesis using \<open>drop (length (digits t)) t = c # r\<close> Cons by (cases "c = CHR ''.''") (simp_all add: atof_def)
    qed
  qed
qed

declare parse_atom.simps [simp del]

lemma parser_value:
  "wf_atom a \<Longrightarrow> length (toks_atom a) \<le> n \<Longrightarrow> reads (parse_atom n ar 0) (toks_atom a) (eval_atom ar a) (\<lambda>y. True)"
  "wf_satom b \<Longrightarrow> length (toks_satom b) \<le> n \<Longrightarrow> reads (parse_s_atom ar (parse_atom n ar 0)) (toks_satom b) (eval_satom ar b) (\<lambda>y. True)"
  "wf_factor c \<Longrightarrow> length (toks_factor c) \<le> n \<Longrightarrow> reads (parse_factor ar (parse_atom n ar 0)) (toks_factor c) (eval_factor ar c) no_pow"
  "wf_summand d \<Longrightarrow> length (toks_summand d) \<le> n \<Longrightarrow> reads (parse_term ar (parse_atom n ar 0)) (toks_summand d) (eval_summand ar d) no_mul"
  "wf_expr e \<Longrightarrow> length (toks_expr e) \<le> n \<Longrightarrow> reads (parse_expression ar 0 (parse_atom n ar 0)) (toks_expr e) (eval_expr ar e) no_op"
proof (induction a and b and c and d and e arbitrary: n and n and n and n and n)
  case (Par e)
  then obtain m where n: "n = Suc m" by (cases n) auto
  obtain v ys where v: "toks_expr e = v # ys" using toks_Cons by blast
  have "reads (parse_expression ar 0 (parse_atom m ar 0)) (v # ys) (eval_expr ar e) no_op" using Par.IH[of m] Par.prems n v by simp
  from atom_par[OF this] show ?case using n v by simp
next
  case (Num t)
  then show ?case using num_text_value[of t ar] atom_num[of ar t] by (cases n) auto
next
  case (Fn1 f a)
  then obtain m where n: "n = Suc m" by (cases n) auto
  obtain v ys where v: "toks_atom a = v # ys" using toks_Cons by blast
  obtain g where g: "map_of func_table f = Some g" using Fn1.prems(1) by auto
  have "reads (parse_atom m ar 0) (v # ys) (eval_atom ar a) (\<lambda>y. True)" using Fn1.IH[of m] Fn1.prems n v by simp
  from atom_func[OF func_one[OF this g]] show ?case using n v by simp
next
  case (Fn2 f a b)
  then obtain m where n: "n = Suc m" by (cases n) auto
  obtain v ys where v: "toks_atom a = v # ys" using toks_Cons by blast
  obtain w zs where w: "toks_atom b = w # zs" using toks_Cons by blast
  obtain g where g: "map_of func_table f = Some g" using Fn2.prems(1) by auto
  have "reads (parse_atom m ar 0) (v # ys) (eval_atom ar a) (\<lambda>y. True)" "reads (parse_atom m ar 0) (w # zs) (eval_atom ar b) (\<lambda>y. True)"
    using Fn2.IH(1)[of m] Fn2.IH(2)[of m] Fn2.prems n v w by simp_all
  from atom_func[OF func_two[OF this g]] show ?case using n v w by simp
next
  case (Plain a)
  then show ?case using toks_Cons(1)[of a] s_atom_plain[of "parse_atom n ar 0" _ _ "eval_atom ar a" ar] by auto
next
  case (Minus a)
  then show ?case using toks_Cons(1)[of a] s_atom_minus[of "parse_atom n ar 0" _ _ "eval_atom ar a" ar] by auto
next
  case (Base x)
  then show ?case unfolding parse_factor_def by (simp, intro level_one[where F = "\<lambda>y. True"]) (simp_all add: no_pow_def)
next
  case (Power x y)
  obtain v ys where v: "toks_satom y = v # ys" using toks_Cons by blast
  show ?case unfolding parse_factor_def
    using level_two[OF Power.IH(1)[of n] Power.IH(2)[of n, unfolded v], of "\<lambda>y. y = exp_s" "op_tok (CHR ''^'')" no_pow ar] Power.prems v
    by (simp add: op_value_def)
next
  case (Fac x)
  have "\<And>y. no_mul y \<Longrightarrow> no_pow y \<and> \<not> (y = mul_s \<or> y = div_s)" by (simp add: no_mul_def)
  moreover have "reads (parse_factor ar (parse_atom n ar 0)) (toks_factor x) (eval_factor ar x) no_pow" using Fac by simp
  ultimately show ?case unfolding parse_term_def using level_one[of "parse_factor ar (parse_atom n ar 0)"] by simp
next
  case (Times x y)
  obtain v ys where v: "toks_factor y = v # ys" using toks_Cons by blast
  show ?case unfolding parse_term_def
    using level_two[OF Times.IH(1)[of n] Times.IH(2)[of n, unfolded v], of "\<lambda>y. y = mul_s \<or> y = div_s" "op_tok (CHR ''*'')" no_mul ar] Times.prems v
    by (simp add: op_value_def)
next
  case (Over x y)
  obtain v ys where v: "toks_factor y = v # ys" using toks_Cons by blast
  show ?case unfolding parse_term_def
    using level_two[OF Over.IH(1)[of n] Over.IH(2)[of n, unfolded v], of "\<lambda>y. y = mul_s \<or> y = div_s" "op_tok (CHR ''/'')" no_mul ar] Over.prems v
    by (simp add: op_value_def)
next
  case (Sum x)
  have "\<And>y. no_op y \<Longrightarrow> no_mul y \<and> \<not> (y = add_s \<or> y = sub_s)" by (simp add: no_op_def)
  moreover have "reads (parse_term ar (parse_atom n ar 0)) (toks_summand x) (eval_summand ar x) no_mul" using Sum by simp
  ultimately show ?case unfolding parse_expression_def using level_one[of "parse_term ar (parse_atom n ar 0)"] by simp
next
  case (Plus x y)
  obtain v ys where v: "toks_summand y = v # ys" using toks_Cons by blast
  show ?case unfolding parse_expression_def
    using level_two[OF Plus.IH(1)[of n] Plus.IH(2)[of n, unfolded v], of "\<lambda>y. y = add_s \<or> y = sub_s" "op_tok (CHR ''+'')" no_op ar] Plus.prems v
    by (simp add: op_value_def)
next
  case (Less x y)
  obtain v ys where v: "toks_summand y = v # ys" using toks_Cons by blast
  show ?case unfolding parse_expression_def
    using level_two[OF Less.IH(1)[of n] Less.IH(2)[of n, unfolded v], of "\<lambda>y. y = add_s \<or> y = sub_s" "op_tok (CHR ''-'')" no_op ar] Less.prems v
    by (simp add: op_value_def)
qed

subsection \<open>The tokenizer\<close>

definition plain_op :: "char \<Rightarrow> bool" where
  "plain_op c \<longleftrightarrow> symbol c \<in> {add_s, sub_s, mul_s, div_s, exp_s, lpar_s, rpar_s, comma_s}"

inductive tok_ok :: "tok \<Rightarrow> bool" where
  tok_op: "plain_op c \<Longrightarrow> tok_ok (op_tok c)"
| tok_num: "num_text w \<Longrightarrow> tok_ok (num_tok w)"
| tok_fn: "map_of func_table f \<noteq> None \<Longrightarrow> tok_ok (fn_tok f)"

definition wordy :: "tok \<Rightarrow> bool" where "wordy t \<longleftrightarrow> tok_symbol t = num_s \<or> tok_symbol t = txt_s"

fun sep :: "tok list \<Rightarrow> bool" where
  "sep [] = True"
| "sep [t] = True"
| "sep (t # u # ts) = ((wordy t \<longrightarrow> \<not> wordy u) \<and> sep (u # ts))"

lemma collect_all:
  assumes "\<forall>c\<in>set cs. P (symbol c)" "len + length cs \<le> MAX_TOK_LEN" "r = [] \<or> \<not> P (symbol (hd r))"
  shows "collect P len (cs @ r) = (cs, r)"
  using assms
proof (induction cs arbitrary: len)
  case Nil
  then show ?case by (cases r) auto
qed simp

lemma func_names:
  assumes "map_of func_table f \<noteq> None"
  shows "f \<noteq> []" "length f < MAX_TOK_LEN" "symbol (hd f) = txt_s" "\<forall>c\<in>set f. symbol c = txt_s \<or> symbol c = dig_s"
proof -
  have "list_all (\<lambda>f. f \<noteq> [] \<and> length f < MAX_TOK_LEN \<and> symbol (hd f) = txt_s \<and> list_all (\<lambda>c. symbol c = txt_s \<or> symbol c = dig_s) f) (map fst func_table)"
    by code_simp
  moreover have "f \<in> set (map fst func_table)" using assms by (metis map_of_eq_None_iff list.set_map)
  ultimately show "f \<noteq> []" "length f < MAX_TOK_LEN" "symbol (hd f) = txt_s" "\<forall>c\<in>set f. symbol c = txt_s \<or> symbol c = dig_s"
    unfolding list_all_iff by blast+
qed

lemma op_char: "plain_op c \<Longrightarrow> c \<noteq> CHR '' '' \<and> symbol c \<noteq> inval_s \<and> symbol c \<noteq> dig_s \<and> symbol c \<noteq> txt_s \<and> symbol c \<noteq> dec_s"
  by (auto simp: plain_op_def symbol_def isdigit_def IS_ALPHA_def split: if_splits)

text \<open>The next text does not go on with a word.\<close>

lemma next_text:
  assumes "\<forall>t\<in>set ts. tok_ok t" "ts = [] \<or> \<not> wordy (hd ts)"
  shows "concat (map tok_txt ts) = [] \<or> plain_op (hd (concat (map tok_txt ts)))"
proof (cases ts)
  case (Cons t us)
  then have "tok_ok t" "\<not> wordy t" using assms by auto
  then show ?thesis using Cons by (cases t rule: tok_ok.cases) (auto simp: wordy_def)
qed simp

definition put_tok :: "tok \<Rightarrow> calc \<Rightarrow> calc" where
  "put_tok t s = s\<lparr>tokens := (tokens s)[tokens_len s := Some t], tokens_len := tokens_len s + 1\<rparr>"

lemma put_token_eq: "tokens_len s < MAX_TOKENS \<Longrightarrow> put_token t s = Some (put_tok t s)"
  by (simp add: put_token_def put_tok_def)

lemma tokenize_step:
  assumes t: "tok_ok t" "\<forall>u\<in>set ts. tok_ok u" "sep (t # ts)" and k: "tokens_len s < MAX_TOKENS" and p: "wordy t \<longrightarrow> after_text s = Some False"
  shows "tokenize (tok_txt t @ concat (map tok_txt ts)) s = tokenize (concat (map tok_txt ts)) (put_tok t s)"
  using t(1)
proof cases
  case (tok_op c)
  then show ?thesis using op_char[of c] k by (simp add: put_token_eq op_tok_def)
next
  case (tok_num w)
  obtain c cs where w: "w = c # cs" using tok_num(2) by (cases w) (auto simp: num_text_def)
  let ?r = "concat (map tok_txt ts)"
  have f: "after_text s = Some False" using p tok_num(1) by (simp add: wordy_def)
  have "ts = [] \<or> \<not> wordy (hd ts)" using t(3) tok_num(1) by (cases ts) (auto simp: wordy_def)
  then have "?r = [] \<or> \<not> (symbol (hd ?r) = dig_s \<or> symbol (hd ?r) = dec_s)" using next_text[OF t(2)] op_char by blast
  then have "collect (\<lambda>y. y = dig_s \<or> y = dec_s) 1 (cs @ ?r) = (cs, ?r)" using tok_num(2) w by (intro collect_all) (auto simp: num_text_def)
  moreover have "symbol c = dig_s" "Suc (length cs) < MAX_TOK_LEN" using tok_num(2) w by (auto simp: num_text_def)
  moreover from this(1) have "c \<noteq> CHR '' ''" by (auto simp: symbol_def isdigit_def IS_ALPHA_def)
  ultimately show ?thesis using tok_num(1) w f k by (simp add: put_token_eq num_tok_def)
next
  case (tok_fn f)
  note n = func_names[OF tok_fn(2)]
  obtain c cs where w: "f = c # cs" using n(1) by (cases f) auto
  let ?r = "concat (map tok_txt ts)"
  have "ts = [] \<or> \<not> wordy (hd ts)" using t(3) tok_fn(1) by (cases ts) (auto simp: wordy_def)
  then have "?r = [] \<or> \<not> (symbol (hd ?r) = txt_s \<or> symbol (hd ?r) = dig_s)" using next_text[OF t(2)] op_char by blast
  then have "collect (\<lambda>y. y = txt_s \<or> y = dig_s) 1 (cs @ ?r) = (cs, ?r)" using n w by (intro collect_all) auto
  moreover have "symbol c = txt_s" "Suc (length cs) < MAX_TOK_LEN" using n w by auto
  moreover from this(1) have "c \<noteq> CHR '' ''" by (auto simp: symbol_def isdigit_def IS_ALPHA_def)
  moreover obtain g where g: "map_of func_table f = Some g" using tok_fn(2) by auto
  moreover have "g \<noteq> inval_f" using map_of_SomeD[OF g] by (auto simp: func_table_def)
  ultimately show ?thesis using tok_fn(1) w k by (simp add: put_token_eq fn_tok_def get_func_def)
qed

lemma tokenize_ok:
  assumes "\<forall>t\<in>set ts. tok_ok t" "sep ts" "length (tokens s) = MAX_TOKENS" "tokens_len s + length ts < MAX_TOKENS"
    "ts \<noteq> [] \<and> wordy (hd ts) \<longrightarrow> after_text s = Some False"
  shows "\<exists>s'. tokenize (concat (map tok_txt ts)) s = Some (0, s') \<and> length (tokens s') = MAX_TOKENS \<and> tokens_len s' = tokens_len s + length ts + 1 \<and>
    take (tokens_len s') (tokens s') = take (tokens_len s) (tokens s) @ map Some (ts @ [eof_token]) \<and>
    current_idx s' = current_idx s \<and> keeps s s'"
  using assms
proof (induction ts arbitrary: s)
  case Nil
  then show ?case by (simp add: put_token_eq put_tok_def keeps_def take_Suc_conv_app_nth list_update_same_conv)
next
  case (Cons t ts)
  have k: "tokens_len s < MAX_TOKENS" using Cons.prems(4) by simp
  have sep: "sep ts" using Cons.prems(2) by (cases ts) auto
  have "tok_ok t" "\<forall>u\<in>set ts. tok_ok u" "wordy t \<longrightarrow> after_text s = Some False" using Cons.prems(1,5) by auto
  then have step: "tokenize (concat (map tok_txt (t # ts))) s = tokenize (concat (map tok_txt ts)) (put_tok t s)"
    using tokenize_step[of t ts s] Cons.prems(2) k by simp
  have a: "ts \<noteq> [] \<and> wordy (hd ts) \<longrightarrow> after_text (put_tok t s) = Some False"
  proof
    assume "ts \<noteq> [] \<and> wordy (hd ts)"
    then have "\<not> wordy t" using Cons.prems(2) by (cases ts) auto
    then show "after_text (put_tok t s) = Some False" using k Cons.prems(3) by (simp add: after_text_def put_tok_def wordy_def)
  qed
  obtain s' where s': "tokenize (concat (map tok_txt ts)) (put_tok t s) = Some (0, s')" "length (tokens s') = MAX_TOKENS"
    "tokens_len s' = tokens_len (put_tok t s) + length ts + 1"
    "take (tokens_len s') (tokens s') = take (tokens_len (put_tok t s)) (tokens (put_tok t s)) @ map Some (ts @ [eof_token])"
    "current_idx s' = current_idx (put_tok t s)" "keeps (put_tok t s) s'"
    using Cons.IH[of "put_tok t s"] Cons.prems(1,3,4) sep a by (auto simp: put_tok_def)
  have "take (tokens_len (put_tok t s)) (tokens (put_tok t s)) = take (tokens_len s) (tokens s) @ [Some t]"
    using k Cons.prems(3) by (simp add: put_tok_def take_Suc_conv_app_nth)
  then show ?case using s' step by (simp add: put_tok_def keeps_def)
qed

text \<open>The tokens of an expression are of this kind.\<close>

lemma plain_ops [simp]:
  "plain_op (CHR ''('')" "plain_op (CHR '')'')" "plain_op (CHR '','')" "plain_op (CHR ''-'')" "plain_op (CHR ''+'')" "plain_op (CHR ''*'')"
  "plain_op (CHR ''/'')" "plain_op (CHR ''^'')"
  using op_symbols by (simp_all add: plain_op_def op_tok_def)

lemma toks_ok:
  "wf_atom a \<Longrightarrow> \<forall>t\<in>set (toks_atom a). tok_ok t"
  "wf_satom b \<Longrightarrow> \<forall>t\<in>set (toks_satom b). tok_ok t"
  "wf_factor c \<Longrightarrow> \<forall>t\<in>set (toks_factor c). tok_ok t"
  "wf_summand d \<Longrightarrow> \<forall>t\<in>set (toks_summand d). tok_ok t"
  "wf_expr e \<Longrightarrow> \<forall>t\<in>set (toks_expr e). tok_ok t"
  by (induction a and b and c and d and e) (auto intro: tok_ok.intros)

lemma sep_op: "\<not> wordy t \<Longrightarrow> sep ts \<Longrightarrow> sep (t # ts)"
  by (cases ts) auto

lemma sep_word: "ts = [] \<or> \<not> wordy (hd ts) \<Longrightarrow> sep ts \<Longrightarrow> sep (t # ts)"
  by (cases ts) auto

lemma not_wordy [simp]: "\<not> wordy (op_tok (CHR ''(''))" "\<not> wordy (op_tok (CHR '')''))" "\<not> wordy (op_tok (CHR '',''))" "\<not> wordy (op_tok (CHR ''-''))"
  "\<not> wordy (op_tok (CHR ''+''))" "\<not> wordy (op_tok (CHR ''*''))" "\<not> wordy (op_tok (CHR ''/''))" "\<not> wordy (op_tok (CHR ''^''))"
  by (simp_all add: wordy_def)

definition joins :: "tok list \<Rightarrow> bool" where
  "joins xs \<longleftrightarrow> (\<forall>r. sep r \<longrightarrow> r = [] \<or> \<not> wordy (hd r) \<longrightarrow> sep (xs @ r))"

lemma joins_word: "joins [t]"
  by (simp add: joins_def sep_word)

lemma joins_front: "joins xs \<Longrightarrow> \<not> wordy p \<Longrightarrow> joins (p # xs)"
  by (simp add: joins_def sep_op)

lemma joins_back: "joins xs \<Longrightarrow> \<not> wordy p \<Longrightarrow> joins (xs @ [p])"
  by (simp add: joins_def sep_op)

lemma joins_two: "joins xs \<Longrightarrow> joins ys \<Longrightarrow> \<not> wordy p \<Longrightarrow> joins (xs @ p # ys)"
  by (simp add: joins_def sep_op)

lemma joins_fn: "joins xs \<Longrightarrow> \<not> wordy p \<Longrightarrow> joins (f # p # xs)"
  by (simp add: joins_def sep_op)

lemma toks_sep: "joins (toks_atom a)" "joins (toks_satom b)" "joins (toks_factor c)" "joins (toks_summand d)" "joins (toks_expr e)"
proof (induction a and b and c and d and e)
  case (Fn2 f a b)
  then show ?case using joins_fn[OF joins_back[OF joins_two[OF Fn2.IH(1,2)]]] by simp
qed (simp_all add: joins_word joins_front joins_back joins_two joins_fn)

end
