(* ===== verification/Calc_Requests.thy ===== *)
theory Calc_Requests
  imports Calc_Grammar
begin

text \<open>
  A request to the calculator as a whole: trimming, tokens, parser, printed result; and what happens with the request after it.
\<close>

subsection \<open>Before the parser\<close>

text \<open>The array of tokens is in order, and none of the tokens in it is the static one.\<close>

definition ready :: "calc \<Rightarrow> bool" where
  "ready s \<longleftrightarrow> length (tokens s) = MAX_TOKENS \<and> tokens_len s \<le> MAX_TOKENS \<and> (\<forall>i<tokens_len s. \<exists>t. tokens s ! i = Some t \<and> t \<noteq> eof_token)"

lemma clear_from_ok:
  assumes "\<forall>i\<in>set is. i < MAX_TOKENS \<and> (\<exists>t. tokens s ! i = Some t \<and> t \<noteq> eof_token)" "distinct is" "length (tokens s) = MAX_TOKENS"
  shows "\<exists>ts. clear_from is s = Some (s\<lparr>tokens := ts\<rparr>) \<and> length ts = MAX_TOKENS"
  using assms
proof (induction "is" arbitrary: s)
  case Nil
  then show ?case by (auto intro: exI[of _ "tokens s"])
next
  case (Cons i "is")
  let ?s = "s\<lparr>tokens := (tokens s)[i := None]\<rparr>"
  have "\<forall>j\<in>set is. j < MAX_TOKENS \<and> (\<exists>t. tokens ?s ! j = Some t \<and> t \<noteq> eof_token)"
    using Cons.prems by (auto simp: nth_list_update)
  then obtain ts where "clear_from is ?s = Some (?s\<lparr>tokens := ts\<rparr>)" "length ts = MAX_TOKENS" using Cons.IH[of ?s] Cons.prems by auto
  then show ?case using Cons.prems(1) by auto
qed

lemma clear_toks_ok: "ready s \<Longrightarrow> \<exists>ts. clear_toks s = Some (s\<lparr>tokens := ts\<rparr>) \<and> length ts = MAX_TOKENS"
  unfolding clear_toks_def by (rule clear_from_ok) (auto simp: ready_def)

lemma clear_from_eof:
  assumes "i \<in> set is" "distinct is" "tokens s ! i = Some eof_token" "i < length (tokens s)"
  shows "clear_from is s = None"
  using assms
proof (induction "is" arbitrary: s)
  case (Cons j "is")
  show ?case
  proof (cases "j = i")
    case False
    then have "clear_from is (s\<lparr>tokens := (tokens s)[j := None]\<rparr>) = None" using Cons.prems by (intro Cons.IH) auto
    then show ?thesis by (auto simp: bind_eq_None_conv)
  qed (use Cons.prems in simp)
qed simp

lemma trim_same: "\<forall>c\<in>set cs. \<not> isspace (of_char c) \<Longrightarrow> trim cs = cs"
proof -
  assume h: "\<forall>c\<in>set cs. \<not> isspace (of_char c)"
  then have "dropWhile (\<lambda>c. isspace (of_char c)) cs = cs" by (cases cs) auto
  moreover have "trim_end cs = cs" using h by (cases cs rule: trim_end.cases) auto
  ultimately show ?thesis by (simp add: trim_def)
qed

lemma symbol_no_space: "symbol c \<noteq> inval_s \<Longrightarrow> \<not> isspace (of_char c)"
proof
  assume h: "symbol c \<noteq> inval_s" "isspace (of_char c)"
  from h(2) have "(of_char c :: u8) = 0x20 \<or> (of_char c :: u8) = 0x0A \<or> (of_char c :: u8) = 0x09" by (simp add: isspace_def)
  moreover have "(of_char c :: u8) = of_char d \<longleftrightarrow> c = d" for d using char_byte by metis
  moreover have "of_char (CHR '' '') = (0x20 :: u8)" "of_char (CHR 0x0A) = (0x0A :: u8)" "of_char (CHR 0x09) = (0x09 :: u8)" by simp_all
  ultimately have "c = CHR '' '' \<or> c = CHR 0x0A \<or> c = CHR 0x09" by metis
  then show False using h(1) by (auto simp: symbol_def isdigit_def IS_ALPHA_def)
qed

lemma text_no_space: "\<forall>t\<in>set ts. tok_ok t \<Longrightarrow> \<forall>c\<in>set (concat (map tok_txt ts)). \<not> isspace (of_char c)"
proof -
  have "\<forall>c\<in>set (tok_txt t). \<not> isspace (of_char c)" if "tok_ok t" for t
    using that
  proof cases
    case (tok_op c)
    then show ?thesis using op_char[of c] symbol_no_space by simp
  next
    case (tok_num w)
    then have "\<forall>c\<in>set w. symbol c \<noteq> inval_s" by (auto simp: num_text_def)
    then show ?thesis using tok_num(1) symbol_no_space by simp
  next
    case (tok_fn f)
    then have "\<forall>c\<in>set f. symbol c \<noteq> inval_s" using func_names(4)[of f] by fastforce
    then show ?thesis using tok_fn(1) symbol_no_space by simp
  qed
  then show "\<forall>t\<in>set ts. tok_ok t \<Longrightarrow> \<forall>c\<in>set (concat (map tok_txt ts)). \<not> isspace (of_char c)" by auto
qed

subsection \<open>The printed number\<close>

definition fraction :: "'n arith \<Rightarrow> 'n \<Rightarrow> u32" where
  "fraction ar v = d_trunc ar (d_fun1 ar fabs_f (d_mul ar (d_sub ar v (d_int ar (sint (d_trunc ar v)))) (d_pow ar (d_int ar 10) (d_int ar 5))))"

definition num_printable :: "'n arith \<Rightarrow> 'n \<Rightarrow> bool" where
  "num_printable ar v \<longleftrightarrow> sint (d_trunc ar v) \<noteq> - (2 ^ 31) \<and> sint (fraction ar v) \<noteq> - (2 ^ 31)"

definition shown :: "'n arith \<Rightarrow> 'n \<Rightarrow> string" where
  "shown ar v = kputint (d_trunc ar v) @ CHR ''.'' # kputint (fraction ar v)"

lemma kputint_length: "length (kputint n) \<le> 11"
  using kputuint_length[of n] kputuint_length[of "- n"] by (simp add: kputint_def)

lemma num_to_string_ok:
  assumes "num_printable ar v" "\<forall>i<32. m (res + of_nat i) = 0"
  shows "num_to_string ar v res m = Some (put_str res (shown ar v) m)"
proof -
  let ?a = "kputint (d_trunc ar v)" and ?b = "kputint (fraction ar v)"
  let ?m = "put_str res (?a @ [CHR ''.'']) m"
  have la: "length ?a \<le> 11" and lb: "length ?b \<le> 11" by (rule kputint_length)+
  have a: "itoa (d_trunc ar v) res m = Some (of_nat (length ?a), put_str res ?a m)"
    using assms la by (intro itoa_eq) (auto simp: num_printable_def)
  have dot: "(put_str res ?a m)(res + of_nat (length ?a) := 0x2E) = ?m" by (simp add: put_str_append)
  have at: "res + of_nat (length ?a) + 1 + of_nat (length ?b) = res + of_nat (length ?a + 1 + length ?b)" by simp
  have "unat (of_nat (length ?a + 1 + length ?b) :: u32) = length ?a + 1 + length ?b"
    using la lb by (intro unat_of_nat_eq_u32) simp
  then have "?m (res + of_nat (length ?a) + 1 + of_nat (length ?b)) = m (res + of_nat (length ?a + 1 + length ?b))"
    unfolding at using la by (subst put_str_apply) (simp_all del: of_nat_add)
  moreover have "m (res + of_nat (length ?a + 1 + length ?b)) = 0" using assms(2)[rule_format, of "length ?a + 1 + length ?b"] la lb by linarith
  ultimately have z: "?m (res + of_nat (length ?a) + 1 + of_nat (length ?b)) = 0" by simp
  have b: "itoa (fraction ar v) (res + of_nat (length ?a) + 1) ?m = Some (of_nat (length ?b), put_str (res + of_nat (length ?a) + 1) ?b ?m)"
    using assms(1) z by (intro itoa_eq) (simp_all add: num_printable_def)
  have "put_str (res + of_nat (length ?a) + 1) ?b ?m = put_str res (shown ar v) m" by (simp add: shown_def put_str_append add.assoc)
  then show ?thesis using a b dot by (simp add: num_to_string_def fraction_def[symmetric] Let_def del: fun_upd_apply)
qed

subsection \<open>A request\<close>

lemma accept_eof:
  assumes "ahead [t] s"
  shows "\<exists>s'. accept_token (tok_symbol t) s = Some (0, s') \<and> keeps s s' \<and> tokens s' = tokens s \<and> tokens_len s' = tokens_len s"
  using assms ahead_tok[OF assms] by (auto simp: accept_token_def get_next_def ahead_def keeps_def)

lemma ahead_last: "ahead [t] s \<Longrightarrow> tokens s ! (tokens_len s - 1) = Some t \<and> 0 < tokens_len s"
proof -
  assume a: "ahead [t] s"
  then obtain i where "next_tok s = Some i" "Suc i = tokens_len s" by (auto simp: ahead_def)
  then show ?thesis using ahead_tok[OF a] by (auto simp: the_tok_def simp flip: \<open>Suc i = tokens_len s\<close>)
qed

definition calc_start :: "calc \<Rightarrow> tok list \<Rightarrow> bool" where
  "calc_start s ts \<longleftrightarrow> length (tokens s) = MAX_TOKENS \<and> tokens_len s = length ts \<and> tokens_len s < MAX_TOKENS \<and> current_idx s = 0 \<and>
     take (tokens_len s) (tokens s) = map Some ts"

lemma get_next_start:
  assumes "calc_start s (t # ts)"
  shows "\<exists>s'. get_next s = Some s' \<and> ahead (t # ts) s' \<and> keeps s s'"
proof -
  have d: "tokens s = map Some (t # ts) @ drop (tokens_len s) (tokens s)" using assms append_take_drop_id[of "tokens_len s" "tokens s"] unfolding calc_start_def by metis
  then have "tokens s ! 0 = Some t" by (metis append_Cons list.simps(9) nth_Cons_0)
  then show ?thesis using assms d by (auto simp: get_next_def ahead_def keeps_def calc_start_def)
qed

lemma parse_value:
  assumes "wf_expr e" "calc_start s (toks_expr e @ [eof_token])"
  shows "case eval_expr ar e of
      Some v \<Rightarrow> \<exists>s'. parse ar 0 s = Some (0, Some v, s') \<and> keeps s s' \<and> tokens s' ! (tokens_len s' - 1) = Some eof_token \<and> 0 < tokens_len s' \<and>
        length (tokens s') = MAX_TOKENS \<and> tokens_len s' < MAX_TOKENS
    | None \<Rightarrow> \<exists>v s'. parse ar 0 s = Some (-1, v, s')"
proof -
  obtain t ts where t: "toks_expr e = t # ts" using toks_Cons by blast
  obtain s1 where s1: "get_next s = Some s1" "ahead (toks_expr e @ [eof_token]) s1" "keeps s s1" using get_next_start[of s t "ts @ [eof_token]"] assms(2) t by auto
  have "length (toks_expr e) \<le> MAX_TOKENS" using assms(2) by (simp add: calc_start_def)
  then have r: "reads (parse_expression ar 0 (parse_atom MAX_TOKENS ar 0)) (toks_expr e) (eval_expr ar e) no_op" by (rule parser_value(5)[OF assms(1)])
  have eof: "no_op (tok_symbol eof_token)" by (simp add: eof_token_def)
  show ?thesis
  proof (cases "eval_expr ar e")
    case None
    obtain v s2 where "parse_expression ar 0 (parse_atom MAX_TOKENS ar 0) s1 = Some (-1, v, s2)" by (rule reads_None[OF r[unfolded None] s1(2) eof])
    then show ?thesis using None s1(1) by (simp add: parse_def)
  next
    case (Some v)
    obtain s2 where s2: "parse_expression ar 0 (parse_atom MAX_TOKENS ar 0) s1 = Some (0, Some v, s2)" "ahead [eof_token] s2" "keeps s1 s2"
      by (rule reads_Some[OF r[unfolded Some] s1(2) eof])
    obtain s3 where s3: "accept_token (tok_symbol eof_token) s2 = Some (0, s3)" "keeps s2 s3" "tokens s3 = tokens s2" "tokens_len s3 = tokens_len s2"
      using accept_eof[OF s2(2)] by blast
    have "parse ar 0 s = Some (0, Some v, s3)" using s1(1) s2(1) s3(1) by (simp add: parse_def)
    moreover have "length (tokens s2) = MAX_TOKENS" "tokens_len s2 < MAX_TOKENS" using s2(2) by (simp_all add: ahead_def)
    ultimately show ?thesis using Some keeps_trans[OF keeps_trans[OF s1(3) s2(3)] s3(2)] ahead_last[OF s2(2)] s3(3,4) by simp
  qed
qed

text \<open>The array after a successful request: the static token is the last one.\<close>

definition used :: "calc \<Rightarrow> bool" where
  "used s \<longleftrightarrow> length (tokens s) = MAX_TOKENS \<and> 0 < tokens_len s \<and> tokens_len s < MAX_TOKENS \<and> tokens s ! (tokens_len s - 1) = Some eof_token"

lemma used_faults: "used s \<Longrightarrow> process_request ar fall req res s = None"
proof -
  assume "used s"
  then have "clear_toks s = None" unfolding clear_toks_def by (intro clear_from_eof[of "tokens_len s - 1"]) (auto simp: used_def)
  then show ?thesis by (simp add: process_request_def)
qed

lemma request_value:
  assumes s: "ready s" and e: "wf_expr e" "length (toks_expr e) < 63"
    and m: "\<forall>i<32. calc_mem s (res + of_nat i) = 0" and v: "\<forall>v. eval_expr ar e = Some v \<longrightarrow> num_printable ar v"
  shows "case eval_expr ar e of
      Some v \<Rightarrow> \<exists>s'. process_request ar 0 (text_of e) res s = Some (0, s') \<and> calc_out s' = calc_out s \<and>
        calc_mem s' = put_str res (shown ar v) (calc_mem s) \<and> used s'
    | None \<Rightarrow> \<exists>s'. process_request ar 0 (text_of e) res s = Some (-1, s')"
proof -
  obtain ts where ts: "clear_toks s = Some (s\<lparr>tokens := ts\<rparr>)" "length ts = MAX_TOKENS" using clear_toks_ok[OF s] by blast
  let ?s = "s\<lparr>tokens := ts, tokens_len := 0, current_idx := 0, next_tok := None\<rparr>"
  have ok: "\<forall>t\<in>set (toks_expr e). tok_ok t" by (rule toks_ok(5)[OF e(1)])
  have trim: "trim (text_of e) = text_of e" unfolding text_of_def by (rule trim_same[OF text_no_space[OF ok]])
  have "sep (toks_expr e)" using toks_sep(5)[of e] unfolding joins_def by (auto dest: spec[of _ "[]"])
  then obtain s1 where s1: "tokenize (text_of e) ?s = Some (0, s1)" "calc_start s1 (toks_expr e @ [eof_token])" "keeps ?s s1"
    using tokenize_ok[OF ok, of ?s] ts(2) e(2) by (auto simp: text_of_def after_text_def calc_start_def MAX_TOKENS_def)
  note p = parse_value[OF e(1) s1(2), of ar]
  show ?thesis
  proof (cases "eval_expr ar e")
    case None
    then show ?thesis using p ts(1) s1(1) trim by (auto simp: process_request_def)
  next
    case (Some x)
    with p obtain s2 where s2: "parse ar 0 s1 = Some (0, Some x, s2)" "keeps s1 s2" "used s2" by (auto simp: used_def)
    have mem: "calc_mem s2 = calc_mem s" "calc_out s2 = calc_out s" using s1(3) s2(2) by (simp_all add: keeps_def)
    have "num_to_string ar x res (calc_mem s2) = Some (put_str res (shown ar x) (calc_mem s))"
      unfolding mem by (rule num_to_string_ok) (use m v Some in auto)
    then have "process_request ar 0 (text_of e) res s = Some (0, s2\<lparr>calc_mem := put_str res (shown ar x) (calc_mem s)\<rparr>)"
      using ts(1) s1(1) s2(1) trim by (simp add: process_request_def)
    then show ?thesis using Some mem s2(3) by (simp add: used_def)
  qed
qed

end
