(* ===== verification/Libbmp.thy ===== *)
theory Libbmp
  imports Bootstrap
begin

text \<open>
  Bitmap pictures, \<open>libraries/libbmp/libbmp.c\<close>, and the display of one in \<open>userland/bmpview.c\<close>, on the files and the heap of the C library.
  The headers are bytes of memory, read through the packed layout of their structures; the structure of an image is in the store \<open>images\<close>.
\<close>

subsection \<open>State\<close>

record bmp_image =
  bmp_header :: ptr
  bmp_info_header :: ptr
  bmp_image_file :: ptr

record 'w bmp = "'w stdio" +
  images :: "ptr \<rightharpoonup> bmp_image"

definition sizeof_bmp_header :: u32 where "sizeof_bmp_header = 14"
definition sizeof_bmp_info :: u32 where "sizeof_bmp_info = 40"
definition sizeof_bmp_image :: u32 where "sizeof_bmp_image = 12"
definition sizeof_bmp_pixel :: u32 where "sizeof_bmp_pixel = 3"

definition hdr_offset :: "ptr \<Rightarrow> mem8 \<Rightarrow> u32" where "hdr_offset h m = load_u32 (h + 10) m"
definition info_width :: "ptr \<Rightarrow> mem8 \<Rightarrow> u32" where "info_width i m = load_u32 (i + 4) m"
definition info_height :: "ptr \<Rightarrow> mem8 \<Rightarrow> u32" where "info_height i m = load_u32 (i + 8) m"

definition pixel_word :: "u8 \<Rightarrow> u8 \<Rightarrow> u8 \<Rightarrow> u8 \<Rightarrow> u32" where
  "pixel_word alpha red green blue = push_bit 24 (ucast alpha) OR push_bit 16 (ucast red) OR push_bit 8 (ucast green) OR ucast blue"

subsection \<open>Loading\<close>

definition bmp_load :: "'w os \<Rightarrow> ptr \<Rightarrow> ptr \<Rightarrow> ('w, 'z) bmp_scheme \<Rightarrow> (ptr \<times> ('w, 'z) bmp_scheme) option" where
  "bmp_load os path mode s = do {
     (f, s) \<leftarrow> fopen os sbrk path mode s;
     if f = 0 then Some (0, s)
     else do {
       (h, s) \<leftarrow> malloc sbrk sizeof_bmp_header s;
       (r, s) \<leftarrow> fseek f 0 SEEK_SET s;
       (n, s) \<leftarrow> fread os h 14 1 f s;
       if n \<noteq> 14 then do { s \<leftarrow> free h s; (r, s) \<leftarrow> fclose os f s; Some (0, s) }
       else do {
         (i, s) \<leftarrow> malloc sbrk sizeof_bmp_info s;
         (n, s) \<leftarrow> fread os i 40 1 f s;
         if n \<noteq> 40 then do { s \<leftarrow> free h s; s \<leftarrow> free i s; (r, s) \<leftarrow> fclose os f s; Some (0, s) }
         else do {
           (p, s) \<leftarrow> malloc sbrk sizeof_bmp_image s;
           if p = 0 then None
           else Some (p, s\<lparr>images := (images s)(p \<mapsto> \<lparr>bmp_header = h, bmp_info_header = i, bmp_image_file = f\<rparr>)\<rparr>)
         }
       }
     }
   }"

definition bmp_width :: "ptr \<Rightarrow> ('w, 'z) bmp_scheme \<Rightarrow> u32 option" where
  "bmp_width img s = do { im \<leftarrow> images s img; Some (info_width (bmp_info_header im) (kh_bytes s)) }"

definition bmp_height :: "ptr \<Rightarrow> ('w, 'z) bmp_scheme \<Rightarrow> u32 option" where
  "bmp_height img s = do { im \<leftarrow> images s img; Some (info_height (bmp_info_header im) (kh_bytes s)) }"

definition bmp_size :: "ptr \<Rightarrow> ('w, 'z) bmp_scheme \<Rightarrow> u32 option" where
  "bmp_size img s = do { w \<leftarrow> bmp_width img s; h \<leftarrow> bmp_height img s; Some (w * h * 3) }"

definition bmp_pixels :: "ptr \<Rightarrow> ('w, 'z) bmp_scheme \<Rightarrow> u32 option" where
  "bmp_pixels img s = do { n \<leftarrow> bmp_size img s; Some (n div 3) }"

definition bmp_size_with_alpha :: "ptr \<Rightarrow> ('w, 'z) bmp_scheme \<Rightarrow> u32 option" where
  "bmp_size_with_alpha img s = do { n \<leftarrow> bmp_pixels img s; Some (n * 4) }"

definition bmp_destroy :: "'w os \<Rightarrow> ptr \<Rightarrow> ('w, 'z) bmp_scheme \<Rightarrow> ('w, 'z) bmp_scheme option" where
  "bmp_destroy os img s = do {
     im \<leftarrow> images s img;
     s \<leftarrow> free (bmp_header im) s;
     s \<leftarrow> free (bmp_info_header im) s;
     (r, s) \<leftarrow> fclose os (bmp_image_file im) s;
     s \<leftarrow> free img s;
     Some (s\<lparr>images := (images s)(img := None)\<rparr>)
   }"

subsection \<open>Reading the pixels\<close>

text \<open>The rows of the file run from the bottom to the top. The bounds of the loops are read from memory in each round.\<close>

definition flip_pixel :: "ptr \<Rightarrow> ptr \<Rightarrow> ptr \<Rightarrow> u8 \<Rightarrow> int \<Rightarrow> int \<Rightarrow> int \<Rightarrow> mem8 \<Rightarrow> mem8" where
  "flip_pixel info buffer pixs alpha i j inv_j m =
     (let w = sint (info_width info m);
          src = pixs + 3 * word_of_int (i + inv_j * w)
      in store_u32 (buffer + 4 * word_of_int (i + j * w)) (pixel_word alpha (m (src + 2)) (m (src + 1)) (m src)) m)"

partial_function (option) flip_column :: "ptr \<Rightarrow> ptr \<Rightarrow> ptr \<Rightarrow> u8 \<Rightarrow> int \<Rightarrow> int \<Rightarrow> int \<Rightarrow> mem8 \<Rightarrow> mem8 option" where
  "flip_column info buffer pixs alpha i j inv_j m =
     (if j < sint (info_height info m)
      then flip_column info buffer pixs alpha i (j + 1) (inv_j - 1) (flip_pixel info buffer pixs alpha i j inv_j m)
      else Some m)"

partial_function (option) flip_columns :: "ptr \<Rightarrow> ptr \<Rightarrow> ptr \<Rightarrow> u8 \<Rightarrow> int \<Rightarrow> mem8 \<Rightarrow> mem8 option" where
  "flip_columns info buffer pixs alpha i m =
     (if i < sint (info_width info m)
      then do {
        m \<leftarrow> flip_column info buffer pixs alpha i 0 (sint (info_height info m) - 1) m;
        flip_columns info buffer pixs alpha (i + 1) m
      }
      else Some m)"

definition bmp_read ::
  "'w os \<Rightarrow> ptr \<Rightarrow> ptr \<Rightarrow> u32 \<Rightarrow> u32 \<Rightarrow> u8 \<Rightarrow> ('w, 'z) bmp_scheme \<Rightarrow> (int \<times> ('w, 'z) bmp_scheme) option"
where
  "bmp_read os img buffer start pixels alpha s = do {
     im \<leftarrow> images s img;
     if bmp_image_file im = 0 then Some (-1, s)
     else do {
       (r, s) \<leftarrow> fseek (bmp_image_file im) (hdr_offset (bmp_header im) (kh_bytes s) + start) SEEK_SET s;
       (pixs, s) \<leftarrow> malloc sbrk (sizeof_bmp_pixel * pixels) s;
       (n, s) \<leftarrow> fread os pixs (pixels * sizeof_bmp_pixel) 1 (bmp_image_file im) s;
       if n \<noteq> pixels * 3 then Some (-1, s)
       else do {
         m \<leftarrow> flip_columns (bmp_info_header im) buffer pixs alpha 0 (kh_bytes s);
         s \<leftarrow> free pixs (s\<lparr>kh_bytes := m\<rparr>);
         Some (sint ((n div 3) * 4), s)
       }
     }
   }"

subsection \<open>Showing a picture\<close>

text \<open>A margin is halved only when it is positive; a row starts behind the row in front of it and twice the margin.\<close>

definition margin :: "int \<Rightarrow> int \<Rightarrow> int" where
  "margin display sz = (let m = display - sz in if 0 < m then m sdiv 2 else m)"

fun display_rows :: "'w os \<Rightarrow> ptr \<Rightarrow> u32 \<Rightarrow> u32 \<Rightarrow> nat list \<Rightarrow> ('w, 'z) stdio_scheme \<Rightarrow> ('w, 'z) stdio_scheme option" where
  "display_rows os buffer img_width mh [] s = Some s"
| "display_rows os buffer img_width mh (i # is) s = do {
     (r, s) \<leftarrow> fwrite os (buffer + 4 * (of_nat i * img_width)) img_width 1 (stdout s) s;
     (r, s) \<leftarrow> fseek (stdout s) (mh + mh) SEEK_CUR s;
     display_rows os buffer img_width mh is s
   }"

definition image_display :: "'w os \<Rightarrow> int \<Rightarrow> int \<Rightarrow> ptr \<Rightarrow> ptr \<Rightarrow> ('w, 'z) bmp_scheme \<Rightarrow> ('w, 'z) bmp_scheme option" where
  "image_display os display_width display_height img buffer s = do {
     iw \<leftarrow> bmp_width img s;
     ih \<leftarrow> bmp_height img s;
     let mh = margin display_width (sint iw);
     let mv = margin display_height (sint ih);
     (r, s) \<leftarrow> fseek (stdout s) (word_of_int (mv * display_width + mh)) SEEK_SET s;
     display_rows os buffer iw (word_of_int mh) [0..<nat (sint ih)] s
   }"

subsection \<open>Where the pixels go\<close>

text \<open>Buffer, header and pixels are in blocks of their own; \<open>m0\<close> is the memory in front of the loops.\<close>

definition flip_area :: "nat \<Rightarrow> nat \<Rightarrow> ptr \<times> u32 \<Rightarrow> ptr \<times> u32 \<Rightarrow> ptr \<times> u32 \<Rightarrow> mem8 \<Rightarrow> bool" where
  "flip_area w h info buffer pixs m0 \<longleftrightarrow>
     area buffer \<inter> area info = {} \<and> area buffer \<inter> area pixs = {} \<and> 40 \<le> unat (snd info) \<and> 4 * (w * h) \<le> unat (snd buffer) \<and> 3 * (w * h) \<le> unat (snd pixs) \<and>
     unat (fst info) + unat (snd info) < 2 ^ 32 \<and> unat (fst buffer) + unat (snd buffer) < 2 ^ 32 \<and> unat (fst pixs) + unat (snd pixs) < 2 ^ 32 \<and>
     sint (info_width (fst info) m0) = int w \<and> sint (info_height (fst info) m0) = int h"

definition source_pixel :: "u8 \<Rightarrow> ptr \<Rightarrow> nat \<Rightarrow> mem8 \<Rightarrow> u32" where
  "source_pixel alpha pixs c m = pixel_word alpha (m (pixs + of_nat (3 * c + 2))) (m (pixs + of_nat (3 * c + 1))) (m (pixs + of_nat (3 * c)))"

definition frozen :: "ptr \<times> u32 \<Rightarrow> mem8 \<Rightarrow> mem8 \<Rightarrow> bool" where
  "frozen buffer m0 m \<longleftrightarrow> (\<forall>x :: u32. unat x \<notin> area buffer \<longrightarrow> m x = m0 x)"

definition placed :: "nat \<Rightarrow> nat \<Rightarrow> u8 \<Rightarrow> ptr \<Rightarrow> ptr \<Rightarrow> mem8 \<Rightarrow> (nat \<times> nat) set \<Rightarrow> mem8 \<Rightarrow> bool" where
  "placed w h alpha buffer pixs m0 D m \<longleftrightarrow> D \<subseteq> {..<w} \<times> {..<h} \<and>
     (\<forall>(i, j)\<in>D. load_u32 (buffer + 4 * of_nat (i + j * w)) m = source_pixel alpha pixs (i + (h - 1 - j) * w) m0)"

lemma cell_bound: "i < w \<Longrightarrow> j < h \<Longrightarrow> i + j * w < w * h" for i j w h :: nat
proof -
  assume "i < w" "j < h"
  then have "i + j * w < (j + 1) * w" by simp
  also have "\<dots> \<le> h * w" using \<open>j < h\<close> by (intro mult_right_mono) simp_all
  finally show ?thesis by (simp add: mult.commute)
qed

lemma cell_unique: "i < w \<Longrightarrow> i' < w \<Longrightarrow> i + j * w = i' + j' * w \<Longrightarrow> i = i' \<and> j = j'" for i j w :: nat
  by (metis add.commute add_right_cancel div_mult_self1 div_less gr_implies_not0 mod_less mod_mult_self1 plus_nat.add_0)

lemma frozen_bounds:
  assumes "flip_area w h info buffer pixs m0" "frozen buffer m0 m"
  shows "sint (info_width (fst info) m) = int w" "sint (info_height (fst info) m) = int h"
    "c < w * h \<Longrightarrow> source_pixel alpha (fst pixs) c m = source_pixel alpha (fst pixs) c m0"
proof -
  have same: "m (fst info + of_nat k) = m0 (fst info + of_nat k)" if "k < 40" for k
    using assms area_byte(1)[of "fst info" "snd info" k] that by (auto simp: flip_area_def frozen_def)
  have "load_u32 (fst info + of_nat d) m = load_u32 (fst info + of_nat d) m0" if "d + 3 < 40" for d
    using same[of d] same[of "d + 1"] same[of "d + 2"] same[of "d + 3"] that by (simp add: load_u32_def add.assoc add.commute add.left_commute)
  from this[of 4] this[of 8] show "sint (info_width (fst info) m) = int w" "sint (info_height (fst info) m) = int h"
    using assms(1) by (simp_all add: flip_area_def info_width_def info_height_def)
  have p: "m (fst pixs + of_nat k) = m0 (fst pixs + of_nat k)" if "k < 3 * (w * h)" for k
    using assms area_byte(1)[of "fst pixs" "snd pixs" k] that by (auto simp: flip_area_def frozen_def)
  show "source_pixel alpha (fst pixs) c m = source_pixel alpha (fst pixs) c m0" if "c < w * h"
  proof -
    have "3 * c < 3 * (w * h)" "3 * c + 1 < 3 * (w * h)" "3 * c + 2 < 3 * (w * h)" using that by simp_all
    then show ?thesis unfolding source_pixel_def by (simp only: p)
  qed
qed

lemma flip_pixel_eq:
  assumes a: "flip_area w h info buffer pixs m0" "frozen buffer m0 m" and ij: "i < w" "j < h"
  shows "flip_pixel (fst info) (fst buffer) (fst pixs) alpha (int i) (int j) (int h - 1 - int j) m =
    store_u32 (fst buffer + 4 * of_nat (i + j * w)) (source_pixel alpha (fst pixs) (i + (h - 1 - j) * w) m0) m"
proof -
  define c k where "c = i + (h - 1 - j) * w" and "k = i + j * w"
  have e: "int i + (int h - 1 - int j) * int w = int c" "int i + int j * int w = int k" using ij(2) by (simp_all add: of_nat_diff c_def k_def)
  have "c < w * h" unfolding c_def using ij by (intro cell_bound) simp_all
  then have "source_pixel alpha (fst pixs) c m = source_pixel alpha (fst pixs) c m0" by (rule frozen_bounds(3)[OF a])
  moreover have "flip_pixel (fst info) (fst buffer) (fst pixs) alpha (int i) (int j) (int h - 1 - int j) m =
    store_u32 (fst buffer + 4 * of_nat k) (source_pixel alpha (fst pixs) c m) m"
    unfolding flip_pixel_def frozen_bounds(1)[OF a] Let_def e source_pixel_def by (simp add: add.assoc add.commute add.left_commute)
  ultimately show ?thesis by (simp add: c_def k_def)
qed

lemma flip_pixel_placed:
  assumes a: "flip_area w h info buffer pixs m0" "frozen buffer m0 m" and ij: "i < w" "j < h" and D: "placed w h alpha (fst buffer) (fst pixs) m0 D m"
    and m': "m' = flip_pixel (fst info) (fst buffer) (fst pixs) alpha (int i) (int j) (int h - 1 - int j) m"
  shows "frozen buffer m0 m'" "placed w h alpha (fst buffer) (fst pixs) m0 (insert (i, j) D) m'"
proof -
  let ?k = "i + j * w"
  have nw: "unat (fst buffer) + unat (snd buffer) < 2 ^ 32" "4 * (w * h) \<le> unat (snd buffer)" using a(1) by (simp_all add: flip_area_def)
  have k4: "4 * k + 4 \<le> unat (snd buffer)" if "k < w * h" for k using nw(2) that by simp
  note eq = m'[unfolded flip_pixel_eq[OF a ij]]
  show "frozen buffer m0 m'" unfolding frozen_def
  proof (intro allI impI)
    fix x :: u32 assume x: "unat x \<notin> area buffer"
    then have "\<not> unat (x - (fst buffer + 4 * of_nat ?k)) < 4" using vector_byte(2)[OF nw(1) k4[OF cell_bound[OF ij]], of x] by auto
    then show "m' x = m0 x" using a(2) x unfolding eq frozen_def by (simp add: store_u32_other)
  qed
  have "load_u32 (fst buffer + 4 * of_nat (i' + j' * w)) m' = source_pixel alpha (fst pixs) (i' + (h - 1 - j') * w) m0" if d: "(i', j') \<in> insert (i, j) D" for i' j'
  proof (cases "(i', j') = (i, j)")
    case True
    then have ij': "i' = i" "j' = j" by auto
    show ?thesis unfolding eq ij' by (rule load_store_u32)
  next
    case False
    then have D': "(i', j') \<in> D" "i' < w" "j' < h" using d D by (auto simp: placed_def)
    define k k' where "k = ?k" and "k' = i' + j' * w"
    have ne: "k' \<noteq> k"
    proof
      assume "k' = k"
      then have "i' + j' * w = i + j * w" by (simp only: k_def k'_def)
      from cell_unique[OF D'(2) ij(1) this] False show False by blast
    qed
    have b: "4 * k + 4 \<le> unat (snd buffer)" "4 * k' + 4 \<le> unat (snd buffer)"
      using k4[OF cell_bound[OF ij]] k4[OF cell_bound[OF D'(2,3)]] by (simp_all add: k_def k'_def)
    then have "areas_apart (fst buffer + 4 * of_nat k) 4 (fst buffer + 4 * of_nat k') 4"
    proof -
      have u: "unat (fst buffer + 4 * of_nat k) = unat (fst buffer) + 4 * k" "unat (fst buffer + 4 * of_nat k') = unat (fst buffer) + 4 * k'"
        using vector_byte(1)[OF nw(1)] b by blast+
      show ?thesis by (rule areas_apart_below) (use u ne nw(1) b in presburger)
    qed
    then have "areas_apart (fst buffer + 4 * of_nat ?k) 4 (fst buffer + 4 * of_nat (i' + j' * w)) 4" by (simp only: k_def k'_def)
    then have "load_u32 (fst buffer + 4 * of_nat (i' + j' * w)) m' = load_u32 (fst buffer + 4 * of_nat (i' + j' * w)) m" unfolding eq by (rule load_store_apart)
    then show ?thesis using D D'(1) by (auto simp: placed_def)
  qed
  then show "placed w h alpha (fst buffer) (fst pixs) m0 (insert (i, j) D) m'" using D ij by (auto simp: placed_def)
qed

lemma flip_column_ok:
  assumes a: "flip_area w h info buffer pixs m0" and i: "i < w" and "frozen buffer m0 m" "placed w h alpha (fst buffer) (fst pixs) m0 D m" "j \<le> h"
  shows "\<exists>m'. flip_column (fst info) (fst buffer) (fst pixs) alpha (int i) (int j) (int h - 1 - int j) m = Some m' \<and> frozen buffer m0 m' \<and>
    placed w h alpha (fst buffer) (fst pixs) m0 (D \<union> {i} \<times> {j..<h}) m'"
  using assms(3-5)
proof (induction "h - j" arbitrary: j m D)
  case 0
  then show ?case by (subst flip_column.simps) (simp add: frozen_bounds(2)[OF a 0(2)])
next
  case (Suc n)
  then have j: "j < h" "n = h - (j + 1)" "j + 1 \<le> h" by simp_all
  define m1 where "m1 = flip_pixel (fst info) (fst buffer) (fst pixs) alpha (int i) (int j) (int h - 1 - int j) m"
  note step = flip_pixel_placed[OF a Suc.prems(1) i j(1) Suc.prems(2) m1_def]
  have run: "flip_column (fst info) (fst buffer) (fst pixs) alpha (int i) (int j) (int h - 1 - int j) m =
      flip_column (fst info) (fst buffer) (fst pixs) alpha (int i) (int (j + 1)) (int h - 1 - int (j + 1)) m1"
    using j(1) by (subst flip_column.simps) (simp add: frozen_bounds(2)[OF a Suc.prems(1)] m1_def algebra_simps)
  have D: "insert (i, j) D \<union> {i} \<times> {j + 1..<h} = D \<union> {i} \<times> {j..<h}" using j(1) by auto
  show ?case using Suc.hyps(1)[OF j(2) step j(3)] unfolding run D .
qed

lemma flip_columns_ok:
  assumes a: "flip_area w h info buffer pixs m0" and "frozen buffer m0 m" "placed w h alpha (fst buffer) (fst pixs) m0 D m" "i \<le> w"
  shows "\<exists>m'. flip_columns (fst info) (fst buffer) (fst pixs) alpha (int i) m = Some m' \<and> frozen buffer m0 m' \<and>
    placed w h alpha (fst buffer) (fst pixs) m0 (D \<union> {i..<w} \<times> {..<h}) m'"
  using assms(2-4)
proof (induction "w - i" arbitrary: i m D)
  case 0
  then show ?case by (subst flip_columns.simps) (simp add: frozen_bounds(1)[OF a 0(2)])
next
  case (Suc n)
  then have i: "i < w" "n = w - (i + 1)" "i + 1 \<le> w" by simp_all
  obtain m1 where m1: "flip_column (fst info) (fst buffer) (fst pixs) alpha (int i) (int 0) (int h - 1 - int 0) m = Some m1" "frozen buffer m0 m1"
    "placed w h alpha (fst buffer) (fst pixs) m0 (D \<union> {i} \<times> {0..<h}) m1" using flip_column_ok[OF a i(1) Suc.prems(1,2), of 0] by auto
  have run: "flip_columns (fst info) (fst buffer) (fst pixs) alpha (int i) m = flip_columns (fst info) (fst buffer) (fst pixs) alpha (int (i + 1)) m1"
    using i(1) m1(1) by (subst flip_columns.simps) (simp add: frozen_bounds[OF a Suc.prems(1)] algebra_simps)
  have D: "D \<union> {i} \<times> {0..<h} \<union> {i + 1..<w} \<times> {..<h} = D \<union> {i..<w} \<times> {..<h}" using i(1) by auto
  show ?case using Suc.hyps(1)[OF i(2) m1(2,3) i(3)] unfolding run D .
qed

subsection \<open>Reading a picture\<close>

definition fill :: "ptr \<Rightarrow> u8 list \<Rightarrow> mem8 \<Rightarrow> mem8" where
  "fill p bs m = (\<lambda>x. if unat (x - p) < length bs then bs ! unat (x - p) else m x)"

text \<open>The file behind an identifier: a read inside of it returns all that was asked for.\<close>

definition file_holds :: "'w os \<Rightarrow> int \<Rightarrow> u8 list \<Rightarrow> bool" where
  "file_holds os n content \<longleftrightarrow> (\<forall>seek len p m w. unat seek + unat len \<le> length content \<longrightarrow>
     os_read os n seek len p m w = (uint len, fill p (take (unat len) (drop (unat seek) content)) m, w))"

text \<open>An image of \<open>w\<close> times \<open>h\<close> pixels that has been loaded, and a buffer for it.\<close>

definition image_loaded :: "nat \<Rightarrow> nat \<Rightarrow> ptr \<Rightarrow> bmp_image \<Rightarrow> FILE \<Rightarrow> ptr \<Rightarrow> ('w, 'z) bmp_scheme \<Rightarrow> bool" where
  "image_loaded w h img im fd buffer s \<longleftrightarrow> w * h < 2 ^ 28 \<and> images s img = Some im \<and> bmp_image_file im \<noteq> 0 \<and> files s (bmp_image_file im) = Some fd \<and>
     (\<exists>ni. (bmp_info_header im, ni) \<in> heap_live s \<and> 40 \<le> unat ni) \<and> (\<exists>nb. (buffer, nb) \<in> heap_live s \<and> 4 * (w * h) \<le> unat nb) \<and>
     buffer \<noteq> bmp_info_header im \<and> sint (info_width (bmp_info_header im) (kh_bytes s)) = int w \<and> sint (info_height (bmp_info_header im) (kh_bytes s)) = int h"

lemma user_budget_files [simp]: "user_budget k (s\<lparr>files := f\<rparr>) = user_budget k s" "heap_live (s\<lparr>files := f\<rparr>) = heap_live s" for s :: "('w, 'z) stdio_scheme"
  by (simp_all add: user_budget_def wf_heap_def wf_blocks_def)

lemma wf_heap_io [simp]: "wf_heap (s\<lparr>files := f\<rparr>) = wf_heap s" "wf_heap (s\<lparr>world := x\<rparr>) = wf_heap s" for s :: "('w, 'z) stdio_scheme"
  by (simp_all add: wf_heap_def wf_blocks_def)

lemma bmp_more: "user_heap.more s' = user_heap.more s \<Longrightarrow> files s' = files s \<and> images s' = images s \<and> world s' = world s \<and> stdout s' = stdout s"
  for s s' :: "('w, 'z) bmp_scheme"
  by (cases s; cases s') simp

lemma info_same:
  assumes "40 \<le> unat ni" "unat i + unat ni < 2 ^ 32" "\<And>x. unat x \<in> area (i, ni) \<Longrightarrow> m' x = m x"
  shows "info_width i m' = info_width i m" "info_height i m' = info_height i m"
proof -
  have same: "m' (i + of_nat k) = m (i + of_nat k)" if "k < 40" for k using assms(3)[OF area_byte(1)[OF assms(2)]] that assms(1) by simp
  have "load_u32 (i + of_nat d) m' = load_u32 (i + of_nat d) m" if "d + 3 < 40" for d
    using same[of d] same[of "d + 1"] same[of "d + 2"] same[of "d + 3"] that by (simp add: load_u32_def add.assoc add.commute add.left_commute)
  from this[of 4] this[of 8] show "info_width i m' = info_width i m" "info_height i m' = info_height i m" by (simp_all add: info_width_def info_height_def)
qed

lemma fill_area:
  assumes "unat p + unat n < 2 ^ 32" "length bs \<le> unat n" "unat x \<notin> area (p, n)"
  shows "fill p bs m x = m x"
proof -
  have "\<not> unat (x - p) < length bs" using area_byte(1)[OF assms(1), of "unat (x - p)"] assms(2,3) by auto
  then show ?thesis by (simp add: fill_def)
qed

lemma bmp_read_ok:
  assumes im: "image_loaded w h img im fd buffer s" and b: "user_budget (alloc_cost (of_nat (3 * (w * h))) + k) s"
    and f: "file_holds os (f_id fd) content" "unat (hdr_offset (bmp_header im) (kh_bytes s) + start) + 3 * (w * h) \<le> length content"
  shows "\<exists>s'. bmp_read os img buffer start (of_nat (w * h)) alpha s = Some (4 * (int w * int h), s') \<and>
    (\<forall>i<w. \<forall>j<h. load_u32 (buffer + 4 * of_nat (i + j * w)) (kh_bytes s') =
      (let c = unat (hdr_offset (bmp_header im) (kh_bytes s) + start) + 3 * (i + (h - 1 - j) * w)
       in pixel_word alpha (content ! (c + 2)) (content ! (c + 1)) (content ! c)))"
proof -
  define off where "off = hdr_offset (bmp_header im) (kh_bytes s) + start"
  define N where "N = 3 * (w * h)"
  let ?f = "bmp_image_file im" and ?i = "bmp_info_header im"
  obtain ni nb where blk: "(?i, ni) \<in> heap_live s" "40 \<le> unat ni" "(buffer, nb) \<in> heap_live s" "4 * (w * h) \<le> unat nb" "buffer \<noteq> ?i"
    and st: "images s img = Some im" "?f \<noteq> 0" "files s ?f = Some fd" "w * h < 2 ^ 28"
    and wh: "sint (info_width ?i (kh_bytes s)) = int w" "sint (info_height ?i (kh_bytes s)) = int h"
    using im by (auto simp: image_loaded_def)
  have "N < 2 ^ 30" using st(4) by (simp add: N_def)
  then have N: "N < 2 ^ 30" "unat (of_nat N :: u32) = N" by (simp_all add: unat_of_nat_eq_u32)
  define s0 where "s0 = s\<lparr>files := (files s)(?f \<mapsto> fd\<lparr>seek_index := off\<rparr>)\<rparr>"
  have b0: "user_budget (alloc_cost (of_nat N) + k) s0" "heap_live s0 = heap_live s" "kh_bytes s0 = kh_bytes s" using b by (simp_all add: s0_def N_def)
  obtain pixs s1 where s1: "malloc sbrk (of_nat N) s0 = Some (pixs, s1)" "heap_allocated s0 (of_nat N) pixs s1" "user_budget k s1"
    "user_heap.more s1 = user_heap.more s0" by (rule malloc_budget[OF b0(1)]) (use N in simp)
  note more = bmp_more[OF s1(4)]
  obtain np where np: "of_nat N \<le> np" "heap_live s1 = insert (pixs, np) (heap_live s)" "\<forall>q \<in> heap_live s. area q \<inter> area (pixs, np) = {}"
    "\<forall>x. kh_bytes s1 x = (if unat x \<in> area (pixs, np) then 0 else kh_bytes s x)" "wf_heap s1"
    using s1(2) b0(2,3) by (auto simp: heap_allocated_def)
  have nw: "unat ?i + unat ni < 2 ^ 32" "unat buffer + unat nb < 2 ^ 32" "unat pixs + unat np < 2 ^ 32"
    using live_no_wrap[OF np(5)] np(2) blk by auto
  have lenp: "N \<le> unat np" using np(1) N(2) by (simp add: word_le_nat_alt)
  define bs where "bs = take N (drop (unat off) content)"
  have bs: "length bs = N" "\<And>c. c < N \<Longrightarrow> bs ! c = content ! (unat off + c)" using f(2) by (simp_all add: bs_def N_def off_def)
  define m where "m = fill pixs bs (kh_bytes s1)"
  have rd: "os_read os (f_id fd) off (of_nat N) pixs (kh_bytes s1) (world s1) = (int N, m, world s1)"
  proof -
    have "unat off + unat (of_nat N :: u32) \<le> length content" using f(2) unfolding N(2) by (simp only: off_def N_def)
    then have "os_read os (f_id fd) off (of_nat N) pixs (kh_bytes s1) (world s1) =
        (uint (of_nat N :: u32), fill pixs (take (unat (of_nat N :: u32)) (drop (unat off) content)) (kh_bytes s1), world s1)"
      using f(1) unfolding file_holds_def by blast
    then show ?thesis by (simp only: uint_nat N(2) m_def bs_def)
  qed
  define s2 where "s2 = s1\<lparr>kh_bytes := m, files := (files s1)(?f \<mapsto> fd\<lparr>seek_index := off + of_nat N\<rparr>), world := world s1\<rparr>"
  have fr: "fread os pixs (of_nat N) 1 ?f s1 = Some (of_nat N, s2)"
    using more rd by (simp add: fread_def s0_def s2_def Let_def)
  have "m x = kh_bytes s x" if "unat x \<notin> area (pixs, np)" for x
    using that np(4) fill_area[OF nw(3), of bs x "kh_bytes s1"] lenp bs(1) by (simp add: m_def)
  then have out: "m x = kh_bytes s x" if "unat x \<in> area q" "q \<in> heap_live s" for x q using that np(3) by blast
  have disj: "area (buffer, nb) \<inter> area (?i, ni) = {}" using wf_live_disjoint[OF np(5), of "(buffer, nb)" "(?i, ni)"] np(2) blk by simp
  have fa: "flip_area w h (?i, ni) (buffer, nb) (pixs, np) m"
    unfolding flip_area_def using disj np(3) blk nw lenp wh info_same[OF blk(2) nw(1), of m "kh_bytes s"] out[OF _ blk(1)] by (auto simp: N_def)
  have "placed w h alpha buffer pixs m {} m" "frozen (buffer, nb) m m" by (simp_all add: placed_def frozen_def)
  then obtain m' where m': "flip_columns ?i buffer pixs alpha 0 m = Some m'" "placed w h alpha buffer pixs m ({0..<w} \<times> {..<h}) m'"
    using flip_columns_ok[OF fa, of m alpha "{}" 0] by auto
  have "wf_heap (s2\<lparr>kh_bytes := m'\<rparr>)" "(pixs, np) \<in> heap_live (s2\<lparr>kh_bytes := m'\<rparr>)"
    using np(2,5) by (simp_all add: s2_def)
  from heap_free_correct[OF this] obtain s3 where s3: "free pixs (s2\<lparr>kh_bytes := m'\<rparr>) = Some s3" "kh_bytes s3 = m'"
    by (auto simp: free_def alloc_free_def)
  have sz: "sizeof_bmp_pixel * of_nat (w * h) = (of_nat N :: u32)" "of_nat (w * h) * 3 = (of_nat N :: u32)" by (simp_all add: sizeof_bmp_pixel_def N_def)
  have run: "bmp_read os img buffer start (of_nat (w * h)) alpha s = Some (sint ((of_nat N :: u32) div 3 * 4), s3)"
    unfolding bmp_read_def using st s1(1) fr m'(1) s3(1) sz
    by (simp add: fseek_def off_def[symmetric] s0_def[symmetric] mult.commute[of _ sizeof_bmp_pixel] s2_def[symmetric])
      (simp add: s2_def)
  have ret: "sint ((of_nat N :: u32) div 3 * 4) = 4 * (int w * int h)"
  proof -
    have "unat ((of_nat N :: u32) div 3) = w * h" using N(2) by (simp add: unat_div N_def)
    moreover have "a < 2 ^ 28 \<Longrightarrow> a * 4 < 2 ^ 32" for a :: nat by simp
    from this[OF st(4)] have "w * h * 4 < 2 ^ 32" .
    ultimately have u: "unat ((of_nat N :: u32) div 3 * 4) = 4 * (w * h)" by (simp add: unat_word_ariths mult.commute)
    have "h * w < 536870912" using st(4) by (subst mult.commute) simp
    then show ?thesis using u sint_small[of "(of_nat N :: u32) div 3 * 4"] by simp
  qed
  have pix: "load_u32 (buffer + 4 * of_nat (i + j * w)) (kh_bytes s3) = pixel_word alpha (content ! (unat off + 3 * (i + (h - 1 - j) * w) + 2))
      (content ! (unat off + 3 * (i + (h - 1 - j) * w) + 1)) (content ! (unat off + 3 * (i + (h - 1 - j) * w)))" if ij: "i < w" "j < h" for i j
  proof -
    define c where "c = i + (h - 1 - j) * w"
    have c: "c < w * h" unfolding c_def using ij by (intro cell_bound) simp_all
    have "m (pixs + of_nat d) = content ! (unat off + d)" if "d < N" for d
      using that bs N(1) by (simp add: m_def fill_def unat_of_nat_eq_u32)
    from this[of "3 * c"] this[of "3 * c + 1"] this[of "3 * c + 2"] c
    have "source_pixel alpha pixs c m = pixel_word alpha (content ! (unat off + 3 * c + 2)) (content ! (unat off + 3 * c + 1)) (content ! (unat off + 3 * c))"
      by (simp add: source_pixel_def N_def add.assoc del: of_nat_add of_nat_mult)
    then show ?thesis using m'(2) ij unfolding s3(2) c_def[symmetric] placed_def by (auto simp: c_def)
  qed
  show ?thesis using run ret pix unfolding off_def[symmetric] by (auto simp: Let_def)
qed

subsection \<open>Rows on the display\<close>

text \<open>The rows are written at positions that are the width of the picture and twice the margin apart.\<close>

definition row_write :: "'w os \<Rightarrow> int \<Rightarrow> (nat \<Rightarrow> u32) \<Rightarrow> u32 \<Rightarrow> ptr \<Rightarrow> mem8 \<Rightarrow> nat \<Rightarrow> 'w \<Rightarrow> 'w" where
  "row_write os n pos iw buffer m i x = snd (os_write os n (pos i) iw (buffer + 4 * (of_nat i * iw)) m x)"

lemma display_rows_ok:
  assumes "files s (stdout s) = Some fd"
  shows "\<exists>s'. display_rows os buffer iw mh [a..<a + n] s = Some s' \<and>
    world s' = fold (row_write os (f_id fd) (\<lambda>i. seek_index fd + of_nat (i - a) * (iw + 2 * mh)) iw buffer (kh_bytes s)) [a..<a + n] (world s)"
  using assms
proof (induction n arbitrary: a s fd)
  case (Suc n)
  define xs where "xs = [Suc a..<Suc a + n]"
  have up: "[a..<a + Suc n] = a # xs" by (simp add: upt_conv_Cons xs_def)
  define x where "x = snd (os_write os (f_id fd) (seek_index fd) iw (buffer + 4 * (of_nat a * iw)) (kh_bytes s) (world s))"
  define fd' where "fd' = fd\<lparr>seek_index := seek_index fd + iw + (mh + mh)\<rparr>"
  define s1 where "s1 = s\<lparr>files := (files s)(stdout s \<mapsto> fd'), world := x\<rparr>"
  have "display_rows os buffer iw mh (a # xs) s = display_rows os buffer iw mh xs s1"
    using Suc.prems by (cases s) (simp add: fwrite_def fseek_def SEEK_CUR_def SEEK_SET_def s1_def fd'_def x_def split: prod.splits)
  moreover have "files s1 (stdout s1) = Some fd'" by (simp add: s1_def)
  from Suc.IH[OF this, of "Suc a", folded xs_def] obtain s' where "display_rows os buffer iw mh xs s1 = Some s'"
    "world s' = fold (row_write os (f_id fd') (\<lambda>i. seek_index fd' + of_nat (i - Suc a) * (iw + 2 * mh)) iw buffer (kh_bytes s1)) xs (world s1)" by blast
  moreover have "fold (row_write os (f_id fd') (\<lambda>i. seek_index fd' + of_nat (i - Suc a) * (iw + 2 * mh)) iw buffer (kh_bytes s1)) xs y =
      fold (row_write os (f_id fd) (\<lambda>i. seek_index fd + of_nat (i - a) * (iw + 2 * mh)) iw buffer (kh_bytes s)) xs y" for y
  proof (rule fold_cong[OF refl refl])
    fix i assume "i \<in> set xs"
    then have "i - a = Suc (i - Suc a)" by (auto simp: xs_def)
    then show "row_write os (f_id fd') (\<lambda>i. seek_index fd' + of_nat (i - Suc a) * (iw + 2 * mh)) iw buffer (kh_bytes s1) i =
        row_write os (f_id fd) (\<lambda>i. seek_index fd + of_nat (i - a) * (iw + 2 * mh)) iw buffer (kh_bytes s) i"
      by (intro ext) (simp add: row_write_def fd'_def s1_def algebra_simps)
  qed
  moreover have "row_write os (f_id fd) (\<lambda>i. seek_index fd + of_nat (i - a) * (iw + 2 * mh)) iw buffer (kh_bytes s) a (world s) = world s1"
    by (simp add: row_write_def s1_def x_def)
  ultimately show ?case unfolding up by simp
qed simp

text \<open>Is the difference of the widths even, the rows are below each other, in the middle of the display.\<close>

lemma image_display_ok:
  assumes im: "images s img = Some im" "info_width (bmp_info_header im) (kh_bytes s) = iw" "sint (info_height (bmp_info_header im) (kh_bytes s)) = int h"
    and out: "files s (stdout s) = Some fd" and dw: "even (dw - sint iw)" "sint iw < dw" "int h < dh"
  shows "\<exists>s'. image_display os dw dh img buffer s = Some s' \<and>
    world s' = fold (row_write os (f_id fd) (\<lambda>i. word_of_int (((dh - int h) div 2 + int i) * dw + (dw - sint iw) div 2)) iw buffer (kh_bytes s)) [0..<h] (world s)"
proof -
  let ?mh = "(dw - sint iw) div 2" and ?mv = "(dh - int h) div 2"
  have m: "margin dw (sint iw) = ?mh" "margin dh (int h) = ?mv" using dw by (simp_all add: margin_def signed_divide_int_def)
  define fd' where "fd' = fd\<lparr>seek_index := word_of_int (?mv * dw + ?mh)\<rparr>"
  define s1 where "s1 = s\<lparr>files := (files s)(stdout s \<mapsto> fd')\<rparr>"
  have f1: "files s1 (stdout s1) = Some fd'" by (simp add: s1_def)
  from display_rows_ok[OF f1, of os buffer iw "word_of_int ?mh" 0 h] obtain s' where s': "display_rows os buffer iw (word_of_int ?mh) [0..<h] s1 = Some s'"
    "world s' = fold (row_write os (f_id fd') (\<lambda>i. seek_index fd' + of_nat i * (iw + 2 * word_of_int ?mh)) iw buffer (kh_bytes s1)) [0..<h] (world s1)" by auto
  have iw: "iw + 2 * word_of_int ?mh = word_of_int dw"
  proof -
    have "iw + 2 * word_of_int ?mh = word_of_int (sint iw + 2 * ?mh)" by simp
    also have "sint iw + 2 * ?mh = dw" using dw(1) by simp
    finally show ?thesis .
  qed
  have pos: "(\<lambda>i. seek_index fd' + of_nat i * (iw + 2 * word_of_int ?mh)) = (\<lambda>i. word_of_int ((?mv + int i) * dw + ?mh))"
    unfolding iw by (simp add: fun_eq_iff fd'_def algebra_simps)
  have "image_display os dw dh img buffer s = Some s'"
    using im out s'(1) m by (simp add: image_display_def bmp_width_def bmp_height_def fseek_def s1_def fd'_def Let_def)
  then show ?thesis using s'(2) unfolding pos by (simp add: fd'_def s1_def)
qed

end
