(* ===== verification/Programs.thy ===== *)
theory Programs
  imports Kstdio "HOL-Library.Signed_Division"
begin

text \<open>
  The programs \<open>userland/shell.c\<close>, \<open>ls.c\<close>, \<open>ps.c\<close> and \<open>init.c\<close>. They only call the C library: its functions and system calls, as the programs use
  them on standard output, are the record \<open>env\<close>, and what they change is the world \<open>'w\<close>. Strings are values; the fixed sizes of the shell's buffers
  are written out. The line buffer is cleared before each line, so that there are zeros behind the line.
\<close>

subsection \<open>The calls\<close>

record dir_entry =
  de_name :: string
  de_type :: u16
  de_size :: u32

record proc_entry =
  pe_pid :: u32
  pe_cmd :: string
  pe_details :: string
  pe_state :: int
  pe_privilege :: int
  pe_type :: int

text \<open>
  \<open>e_ioctl\<close> has the value its last argument points to, if that is not null; \<open>e_bmp_read\<close> reads all pixels of an image into the pixel buffer;
  \<open>e_show\<close> writes that many pixels of the buffer to the start of the display.
\<close>

record 'w env =
  e_ioctl :: "u32 \<Rightarrow> u32 option \<Rightarrow> 'w \<Rightarrow> int \<times> 'w"
  e_print :: "string \<Rightarrow> 'w \<Rightarrow> 'w"
  e_spawn :: "string \<Rightarrow> string list \<Rightarrow> 'w \<Rightarrow> int \<times> 'w"
  e_wait :: "int \<Rightarrow> 'w \<Rightarrow> int \<times> 'w"
  e_bmp_load :: "string \<Rightarrow> 'w \<Rightarrow> ptr \<times> 'w"
  e_bmp_read :: "ptr \<Rightarrow> 'w \<Rightarrow> 'w"
  e_show :: "int \<Rightarrow> 'w \<Rightarrow> 'w"
  e_open :: "string \<Rightarrow> 'w \<Rightarrow> int option \<times> 'w"
  e_list :: "int \<Rightarrow> nat \<Rightarrow> 'w \<Rightarrow> dir_entry option \<times> 'w"
  e_ps :: "nat \<Rightarrow> 'w \<Rightarrow> proc_entry option \<times> 'w"

definition STDOUT_CMD_SET_MODE :: u32 where "STDOUT_CMD_SET_MODE = 0x01"
definition STDOUT_CMD_GET_MODE :: u32 where "STDOUT_CMD_GET_MODE = 0x02"
definition STDOUT_CMD_GETW :: u32 where "STDOUT_CMD_GETW = 0x03"
definition STDOUT_CMD_GETH :: u32 where "STDOUT_CMD_GETH = 0x04"
definition STDOUT_CMD_CLEAR :: u32 where "STDOUT_CMD_CLEAR = 0x05"
definition STDOUT_CMD_GET_FG_COLOUR :: u32 where "STDOUT_CMD_GET_FG_COLOUR = 0x06"
definition STDOUT_CMD_SET_FG_COLOUR :: u32 where "STDOUT_CMD_SET_FG_COLOUR = 0x07"
definition STDOUT_CMD_ECHO_ENABLE :: u32 where "STDOUT_CMD_ECHO_ENABLE = 0x0A"
definition STDOUT_CMD_GET_DISP_TYPE :: u32 where "STDOUT_CMD_GET_DISP_TYPE = 0x0D"
definition STDOUT_MODE_TXT :: u32 where "STDOUT_MODE_TXT = 0x00"
definition STDOUT_MODE_PX :: u32 where "STDOUT_MODE_PX = 0x01"
definition STDOUT_DISP_TYPE_VGA :: int where "STDOUT_DISP_TYPE_VGA = 0x00"
definition STDOUT_DISP_TYPE_VESA :: int where "STDOUT_DISP_TYPE_VESA = 0x01"

definition newline :: "string \<Rightarrow> string" where "newline t = CHR 0x0A # t"

subsection \<open>Colours\<close>

definition vga_colour :: "string \<Rightarrow> u32" where
  "vga_colour col = (if col = ''blue'' then 1 else if col = ''green'' then 2 else if col = ''cyan'' then 3 else if col = ''red'' then 4
     else if col = ''magenta'' then 5 else if col = ''yellow'' then 6 else 7)"

definition vesa_colour :: "string \<Rightarrow> u32" where
  "vesa_colour col = (if col = ''blue'' then 0x000000FF else if col = ''green'' then 0x0000FF00 else if col = ''cyan'' then 0x0000FFFF
     else if col = ''red'' then 0x00FF0000 else if col = ''magenta'' then 0x00FF00FF else if col = ''yellow'' then 0x00FFFF00 else 0x00FFFFFF)"

definition shell_write_colour :: "'w env \<Rightarrow> string \<Rightarrow> string \<Rightarrow> 'w \<Rightarrow> 'w" where
  "shell_write_colour E str col w =
     (let (type, w) = e_ioctl E STDOUT_CMD_GET_DISP_TYPE None w
      in if type = STDOUT_DISP_TYPE_VGA
         then let (save, w) = e_ioctl E STDOUT_CMD_GET_FG_COLOUR None w;
                  w = snd (e_ioctl E STDOUT_CMD_SET_FG_COLOUR (Some (vga_colour col)) w);
                  w = e_print E str w
              in snd (e_ioctl E STDOUT_CMD_SET_FG_COLOUR (Some (word_of_int save)) w)
         else if type = STDOUT_DISP_TYPE_VESA
         then let w = snd (e_ioctl E STDOUT_CMD_SET_FG_COLOUR (Some (vesa_colour col)) w);
                  w = e_print E str w
              in snd (e_ioctl E STDOUT_CMD_SET_FG_COLOUR (Some 0x00FFFFFF) w)
         else w)"

text \<open>The other programs have copies of this function.\<close>

definition ls_write_colour :: "'w env \<Rightarrow> string \<Rightarrow> string \<Rightarrow> 'w \<Rightarrow> 'w" where
  "ls_write_colour = shell_write_colour"

definition ps_write_colour :: "'w env \<Rightarrow> string \<Rightarrow> string \<Rightarrow> 'w \<Rightarrow> 'w" where
  "ps_write_colour = shell_write_colour"

subsection \<open>The shell\<close>

record 'w shell =
  pixel_width :: int
  pixel_height :: int
  char_width :: int
  char_height :: int
  shell_mode :: u32
  top_bar_image :: ptr
  sh_world :: 'w

definition on_world :: "('w \<Rightarrow> 'w) \<Rightarrow> 'w shell \<Rightarrow> 'w shell" where
  "on_world f s = s\<lparr>sh_world := f (sh_world s)\<rparr>"

definition shell_ioctl :: "'w env \<Rightarrow> u32 \<Rightarrow> u32 option \<Rightarrow> 'w shell \<Rightarrow> int \<times> 'w shell" where
  "shell_ioctl E cmd arg s = (let (r, w) = e_ioctl E cmd arg (sh_world s) in (r, s\<lparr>sh_world := w\<rparr>))"

definition shell_print_welcome :: "'w env \<Rightarrow> 'w shell \<Rightarrow> 'w shell" where
  "shell_print_welcome E s =
     (let bar = replicate (nat (char_width s)) (CHR ''*'');
          title = ''   WELCOME TO DBOS!   '';
          side = (int (length bar) - int (length title)) sdiv 2;
          stars = fold (\<lambda>i. e_print E ''*'') [0..<nat side]
      in on_world (e_print E bar \<circ> stars \<circ> e_print E title \<circ> stars \<circ> e_print E bar) s)"

definition help_text :: "string list" where
  "help_text = [newline '' *********************** HELP ***********************'', newline ('' '' @ [CHR 0x22] @ ''help'' @ [CHR 0x22] @ '' - displays this information''),
     newline ('' '' @ [CHR 0x22] @ ''run'' @ [CHR 0x22] @ '' <cmd> <args> - runs a program with arguments''),
     newline ('' '' @ [CHR 0x22] @ ''exit'' @ [CHR 0x22] @ '' - exits the system!'')]"

definition shell_display_help :: "'w env \<Rightarrow> 'w \<Rightarrow> 'w" where
  "shell_display_help E w = fold (\<lambda>t. shell_write_colour E t ''blue'') help_text w"

definition shell_execute :: "'w env \<Rightarrow> string \<Rightarrow> string list \<Rightarrow> 'w \<Rightarrow> int \<times> 'w" where
  "shell_execute E filename args w =
     (let (pid, w) = e_spawn E (CHR ''/'' # filename) args w
      in if pid = -1 then (-1, shell_write_colour E (newline ''Error: Executable not found!'') ''red'' w) else (pid, w))"

text \<open>Words between single spaces; two spaces in a row make an empty one.\<close>

function words :: "string \<Rightarrow> string list" where
  "words line = (if line = [] then [] else let a = takeWhile (\<lambda>c. c \<noteq> CHR '' '') line in a # words (drop (Suc (length a)) line))"
  by auto
termination by (relation "measure length") auto

declare words.simps [simp del]

text \<open>
  The name of the program has 50 bytes; there is room for five pointers to arguments, the last of which must stay null, and 100 bytes for each.
\<close>

definition shell_run_command :: "'w env \<Rightarrow> string \<Rightarrow> 'w \<Rightarrow> (int \<times> 'w) option" where
  "shell_run_command E line w =
     (let cmd = takeWhile (\<lambda>c. c \<noteq> CHR '' '') line
      in if 50 \<le> length cmd then None
         else if length cmd < 2 then Some (-1, shell_write_colour E (newline ''Invalid executable name!'') ''red'' w)
         else if length line \<le> length cmd + 1 then Some (shell_execute E cmd [] w)
         else let args = words (drop (length cmd + 1) line)
              in if 5 \<le> length args \<or> list_ex (\<lambda>a. 100 \<le> length a) args then None else Some (shell_execute E cmd args w))"

definition shell_reset :: "'w env \<Rightarrow> 'w shell \<Rightarrow> 'w shell" where
  "shell_reset E s =
     (let (type, s) = shell_ioctl E STDOUT_CMD_GET_DISP_TYPE None s;
          s = (if type = STDOUT_DISP_TYPE_VESA
               then let s = on_world (e_bmp_read E (top_bar_image s)) s;
                        s = s\<lparr>shell_mode := STDOUT_MODE_PX\<rparr>;
                        s = snd (shell_ioctl E STDOUT_CMD_SET_MODE (Some (shell_mode s)) s)
                    in on_world (e_show E (pixel_width s * pixel_height s)) s
               else s);
          s = s\<lparr>shell_mode := STDOUT_MODE_TXT\<rparr>;
          s = snd (shell_ioctl E STDOUT_CMD_SET_MODE (Some (shell_mode s)) s);
          s = snd (shell_ioctl E STDOUT_CMD_CLEAR None s);
          s = snd (shell_ioctl E STDOUT_CMD_ECHO_ENABLE None s)
      in shell_print_welcome E s)"

definition shell_check :: "'w env \<Rightarrow> 'w shell \<Rightarrow> 'w shell" where
  "shell_check E s = (let (mode, s) = shell_ioctl E STDOUT_CMD_GET_MODE None s in if mode = uint STDOUT_MODE_PX then shell_reset E s else s)"

definition shell_parse_command :: "'w env \<Rightarrow> string \<Rightarrow> 'w shell \<Rightarrow> (int \<times> 'w shell) option" where
  "shell_parse_command E line s = do {
     (r, s) \<leftarrow>
       (if line = ''help'' then Some (0, on_world (shell_display_help E) s)
        else if take 4 line = ''run '' then do { (pid, w) \<leftarrow> shell_run_command E (drop 4 line) (sh_world s); Some (pid, s\<lparr>sh_world := w\<rparr>) }
        else if line = ''exit'' then Some (-9999, s)
        else if line = ''clear'' then Some (0, shell_reset E s)
        else Some (-1, on_world (shell_display_help E \<circ> shell_write_colour E (newline '' Invalid command!'') ''red'') s));
     Some (r, on_world (e_print E (newline [])) s)
   }"

text \<open>The lines that are typed are an argument; the loop ends at the command \<^verbatim>\<open>exit\<close>.\<close>

fun shell_main_loop :: "'w env \<Rightarrow> string list \<Rightarrow> 'w shell \<Rightarrow> 'w shell option" where
  "shell_main_loop E [] s = Some s"
| "shell_main_loop E (line # lines) s = do {
     (ret, s) \<leftarrow> shell_parse_command E line (on_world (shell_write_colour E (newline ''|--DBOS--|>> '') ''cyan'') s);
     let s = (if ret \<noteq> 0 \<and> ret \<noteq> -1 \<and> ret \<noteq> -9999 then on_world (\<lambda>w. snd (e_wait E ret w)) s else s);
     if ret = -9999 then Some s else shell_main_loop E lines (shell_check E s)
   }"

definition shell_init_mode :: "'w env \<Rightarrow> 'w shell \<Rightarrow> 'w shell" where
  "shell_init_mode E s =
     (let s = s\<lparr>shell_mode := STDOUT_MODE_PX\<rparr>;
          (ret, s) = shell_ioctl E STDOUT_CMD_SET_MODE (Some (shell_mode s)) s;
          s = (if ret = -1
               then snd (shell_ioctl E STDOUT_CMD_SET_MODE (Some STDOUT_MODE_TXT) (s\<lparr>shell_mode := STDOUT_MODE_TXT\<rparr>))
               else s\<lparr>shell_mode := STDOUT_MODE_PX\<rparr>);
          s = (if shell_mode s = STDOUT_MODE_PX
               then let (pw, s) = shell_ioctl E STDOUT_CMD_GETW None s;
                        (ph, s) = shell_ioctl E STDOUT_CMD_GETH None s;
                        s = s\<lparr>pixel_width := pw, pixel_height := ph, shell_mode := STDOUT_MODE_TXT\<rparr>
                    in snd (shell_ioctl E STDOUT_CMD_SET_MODE (Some STDOUT_MODE_TXT) s)
               else s);
          (cw, s) = shell_ioctl E STDOUT_CMD_GETW None s;
          (ch, s) = shell_ioctl E STDOUT_CMD_GETH None s
      in s\<lparr>char_width := cw, char_height := ch\<rparr>)"

definition bar_file :: "int \<Rightarrow> string option" where
  "bar_file w = map_of [(1920, ''/images/bar_1920.bmp''), (1280, ''/images/bar_1280.bmp''), (1024, ''/images/bar_1024.bmp''), (800, ''/images/bar_800.bmp''),
     (640, ''/images/bar_640.bmp'')] w"

definition shell_init_graphics :: "'w env \<Rightarrow> 'w shell \<Rightarrow> 'w shell" where
  "shell_init_graphics E s =
     (let s = (case bar_file (pixel_width s) of
                 None \<Rightarrow> s\<lparr>top_bar_image := 0\<rparr>
               | Some f \<Rightarrow> let (im, w) = e_bmp_load E f (sh_world s) in s\<lparr>top_bar_image := im, sh_world := w\<rparr>)
      in if top_bar_image s = 0 then s
         else let s = on_world (e_bmp_read E (top_bar_image s)) s;
                  s = s\<lparr>shell_mode := STDOUT_MODE_PX\<rparr>;
                  s = snd (shell_ioctl E STDOUT_CMD_SET_MODE (Some (shell_mode s)) s)
              in on_world (e_show E (pixel_width s * pixel_height s)) s)"

definition shell_init :: "'w env \<Rightarrow> 'w shell \<Rightarrow> 'w shell" where
  "shell_init E s = shell_reset E (shell_init_graphics E (shell_init_mode E s))"

definition shell_main :: "'w env \<Rightarrow> string list \<Rightarrow> 'w shell \<Rightarrow> 'w shell option" where
  "shell_main E lines s = shell_main_loop E lines (shell_init E s)"

subsection \<open>Listing files\<close>

text \<open>The entries are asked for one by one, until there is none.\<close>

partial_function (option) list_entries :: "'w env \<Rightarrow> int \<Rightarrow> nat \<Rightarrow> 'w \<Rightarrow> (dir_entry list \<times> 'w) option" where
  "list_entries E dir i w =
     (case e_list E dir i w of
        (None, w) \<Rightarrow> Some ([], w)
      | (Some e, w) \<Rightarrow> do { (es, w) \<leftarrow> list_entries E dir (i + 1) w; Some (e # es, w) })"

definition type_text :: "u16 \<Rightarrow> string" where
  "type_text t = (if t = 1 then ''  socket    '' else if t = 128 then ''  stub      '' else if t = 64 then ''  fifo      ''
     else if t = 32 then ''  directory '' else if t = 16 then ''  char dev  '' else if t = 8 then ''  blk dev   ''
     else if t = 2 then ''  symlink   '' else if t = 4 then ''  file      '' else [])"

text \<open>The name is printed as a format: with a percent sign in it, arguments are read that are not there.\<close>

definition ls_entry :: "'w env \<Rightarrow> nat \<Rightarrow> dir_entry \<Rightarrow> 'w \<Rightarrow> 'w option" where
  "ls_entry E j e w =
     (let size = kputint (de_size e);
          w = ls_write_colour E (newline ''|TYPE|:['') ''green'' w;
          w = e_print E (type_text (de_type e)) w;
          w = ls_write_colour E '']'' ''green'' w;
          w = ls_write_colour E ''  |SIZE|:[ '' ''cyan'' w;
          w = e_print E size w;
          w = fold (\<lambda>i. e_print E '' '') [0..<nat (12 - int (length size))] w;
          w = ls_write_colour E '']'' ''cyan'' w;
          w = ls_write_colour E ''  |NAME|:[ '' ''yellow'' w
      in do {
        w \<leftarrow> (if j = 0 then Some (ls_write_colour E (de_name e) ''red'' w)
              else if CHR ''%'' \<in> set (de_name e) then None else Some (e_print E (de_name e) w));
        Some (ls_write_colour E '' ]'' ''yellow'' w)
      })"

fun ls_entries :: "'w env \<Rightarrow> nat \<Rightarrow> dir_entry list \<Rightarrow> 'w \<Rightarrow> 'w option" where
  "ls_entries E j [] w = Some w"
| "ls_entries E j (e # es) w = do { w \<leftarrow> ls_entry E j e w; ls_entries E (j + 1) es w }"

definition ls_rule :: "string" where "ls_rule = newline (replicate 38 (CHR ''*''))"

text \<open>The first component says that the program went on to the end; otherwise it was aborted.\<close>

definition ls_main :: "'w env \<Rightarrow> string list \<Rightarrow> 'w \<Rightarrow> (bool \<times> 'w) option" where
  "ls_main E argv w =
     (if 2 < length argv then Some (False, ls_write_colour E ''ERROR: too many arguments!'' ''red'' w)
      else if length argv = 2 \<and> (argv ! 1 = [] \<or> hd (argv ! 1) \<noteq> CHR ''/'')
      then Some (False, ls_write_colour E (newline ''ERROR! pathname is missing a forward slash!'') ''red'' w)
      else let path = (if length argv = 2 then argv ! 1 else ''/'')
           in case e_open E path w of
                (None, w) \<Rightarrow> Some (False, ls_write_colour E (newline ''ERROR! directory not found!'') ''red'' w)
              | (Some dir, w) \<Rightarrow> do {
                  (es, w) \<leftarrow> list_entries E dir 0 w;
                  if es = [] then Some (False, ls_write_colour E (newline ''ERROR: filename specified is not a directory!'') ''red'' w)
                  else do {
                    let w = ls_write_colour E ls_rule ''blue'' w;
                    let w = ls_write_colour E (newline ''   DIRECTORY LISTING OF: '') ''blue'' w;
                    let w = e_print E path w;
                    let w = ls_write_colour E ls_rule ''blue'' w;
                    w \<leftarrow> ls_entries E 0 es w;
                    Some (True, ls_write_colour E ls_rule ''blue'' w)
                  }
                })"

subsection \<open>Listing processes\<close>

partial_function (option) ps_list :: "'w env \<Rightarrow> nat \<Rightarrow> 'w \<Rightarrow> (proc_entry list \<times> 'w) option" where
  "ps_list E i w =
     (case e_ps E i w of
        (None, w) \<Rightarrow> Some ([], w)
      | (Some e, w) \<Rightarrow> do { (es, w) \<leftarrow> ps_list E (i + 1) w; Some (e # es, w) })"

definition ps_entry :: "'w env \<Rightarrow> proc_entry \<Rightarrow> 'w \<Rightarrow> 'w" where
  "ps_entry E e w =
     (let w = ps_write_colour E (newline ''PID: ['') ''white'' w;
          w = e_print E (kputint (pe_pid e)) w;
          w = ps_write_colour E '']'' ''white'' w;
          w = ps_write_colour E ''   || CMD: [ '' ''red'' w;
          w = e_print E (pe_cmd e) w;
          w = ps_write_colour E '' ],  DETAILS: [ '' ''red'' w;
          w = e_print E (pe_details e) w;
          w = ps_write_colour E '' ]'' ''red'' w;
          w = ps_write_colour E (newline ''   || STATE: [ '') ''blue'' w;
          w = (if pe_state e = 2 then e_print E ''LIVING'' w else if pe_state e = 1 then e_print E ''READY'' w
               else if pe_state e = 3 then e_print E ''NAPPING'' w else if pe_state e = 4 then e_print E ''DEAD'' w else w);
          w = ps_write_colour E '' ]'' ''blue'' w;
          w = ps_write_colour E (newline ''   || PRIVILEGE: [ '') ''green'' w;
          w = (if pe_privilege e = 2 then e_print E ''RING 3 (USER)'' w else if pe_privilege e = 1 then e_print E ''RING 0 (SYS)'' w else w);
          w = ps_write_colour E '' ]'' ''green'' w;
          w = ps_write_colour E (newline ''   || TYPE: [ '') ''yellow'' w;
          w = (if pe_type e = 2 then e_print E ''CLONE'' w else if pe_type e = 1 then e_print E ''STANDALONE'' w else w)
      in ps_write_colour E ('' ]'' @ [CHR 0x0A]) ''yellow'' w)"

definition ps_main :: "'w env \<Rightarrow> 'w \<Rightarrow> 'w option" where
  "ps_main E w = do {
     (es, w) \<leftarrow> ps_list E 0 w;
     let w = ps_write_colour E (newline (replicate 47 (CHR ''*''))) ''blue'' w;
     let w = ps_write_colour E (newline ''***** LIST OF CURRENTLY RUNNING PROCESSES *****'') ''blue'' w;
     let w = ps_write_colour E (newline (replicate 47 (CHR ''*''))) ''blue'' w;
     Some (ps_write_colour E (replicate 47 (CHR ''*'')) ''blue'' (fold (ps_entry E) es w))
   }"

subsection \<open>The first program\<close>

definition init_main :: "'w env \<Rightarrow> string list \<Rightarrow> 'w \<Rightarrow> bool \<times> 'w" where
  "init_main E argv w =
     (let w = e_print E (''argc: '' @ kputint (of_nat (length argv))) w
      in if length argv \<noteq> 3 \<or> argv ! 1 \<noteq> ''DBOS-SOBD'' \<or> argv ! 2 \<noteq> ''SOBD-DBOS'' then (False, w)
         else let (pid, w) = e_spawn E ''/shell'' [] w;
                  (pid, w) = e_wait E pid w
              in (True, e_print E (newline (''Bye-bye :)'' @ [CHR 0x0A])) w))"

subsection \<open>Running a program\<close>

definition spaced :: "string list \<Rightarrow> string" where "spaced args = concat (map (\<lambda>a. CHR '' '' # a) args)"

definition word :: "string \<Rightarrow> bool" where "word a \<longleftrightarrow> a \<noteq> [] \<and> CHR '' '' \<notin> set a"

lemma take_word: "CHR '' '' \<notin> set a \<Longrightarrow> takeWhile (\<lambda>c. c \<noteq> CHR '' '') (a @ spaced as) = a"
proof -
  assume a: "CHR '' '' \<notin> set a"
  have "takeWhile (\<lambda>c. c \<noteq> CHR '' '') (spaced as) = []" by (cases as) (simp_all add: spaced_def)
  moreover have "\<forall>c\<in>set a. c \<noteq> CHR '' ''" using a by auto
  ultimately show ?thesis by (simp add: takeWhile_append)
qed

lemma words_spaced: "list_all word (a # as) \<Longrightarrow> words (a @ spaced as) = a # as"
proof (induction as arbitrary: a)
  case Nil
  then have "CHR '' '' \<notin> set a" "a \<noteq> []" by (simp_all add: word_def)
  moreover have d: "drop (Suc (length a)) (a @ spaced []) = []" by (simp add: spaced_def)
  ultimately show ?case unfolding words.simps[of "a @ spaced []"] Let_def take_word[OF \<open>CHR '' '' \<notin> set a\<close>] d by (simp add: words.simps)
next
  case (Cons b as)
  then have t: "takeWhile (\<lambda>c. c \<noteq> CHR '' '') (a @ spaced (b # as)) = a" "a \<noteq> []" by (simp_all add: take_word word_def)
  have "drop (Suc (length a)) (a @ spaced (b # as)) = b @ spaced as" by (simp add: spaced_def)
  then show ?case using t Cons by (subst words.simps) (simp add: Let_def)
qed

lemma run_command:
  assumes "2 \<le> length cmd" "length cmd < 50" "CHR '' '' \<notin> set cmd" "list_all word args" "length args \<le> 4" "list_all (\<lambda>a. length a < 100) args"
  shows "shell_run_command E (cmd @ spaced args) w = Some (shell_execute E cmd args w)"
proof (cases args)
  case Nil
  then show ?thesis unfolding shell_run_command_def Let_def take_word[OF assms(3)] using assms(1,2) by (simp add: spaced_def)
next
  case (Cons a as)
  have d: "drop (length cmd + 1) (cmd @ spaced (a # as)) = a @ spaced as" by (simp add: spaced_def)
  have "a \<noteq> []" using assms(4) Cons by (simp add: word_def)
  then have l: "\<not> length (cmd @ spaced (a # as)) \<le> length cmd + 1" by (simp add: spaced_def)
  have "\<not> list_ex (\<lambda>a. 100 \<le> length a) args" using assms(6) by (auto simp: list_ex_iff list_all_iff)
  then show ?thesis unfolding Cons shell_run_command_def Let_def take_word[OF assms(3)] d using assms(1,2,4,5) l Cons words_spaced[of a as] by simp
qed

lemma parse_run:
  assumes "2 \<le> length cmd" "length cmd < 50" "CHR '' '' \<notin> set cmd" "list_all word args" "length args \<le> 4" "list_all (\<lambda>a. length a < 100) args"
    and p: "e_spawn E (CHR ''/'' # cmd) args (sh_world s) = (child, w)"
  shows "shell_parse_command E (''run '' @ cmd @ spaced args) s =
    Some (child, s\<lparr>sh_world := e_print E (newline []) (if child = -1 then shell_write_colour E (newline ''Error: Executable not found!'') ''red'' w else w)\<rparr>)"
  using run_command[OF assms(1-6), of E "sh_world s"] p by (simp add: shell_parse_command_def shell_execute_def on_world_def)

text \<open>The shell waits for the program, and goes on with the next line.\<close>

lemma loop_run:
  assumes "2 \<le> length cmd" "length cmd < 50" "CHR '' '' \<notin> set cmd" "list_all word args" "length args \<le> 4" "list_all (\<lambda>a. length a < 100) args"
    and p: "e_spawn E (CHR ''/'' # cmd) args (shell_write_colour E (newline ''|--DBOS--|>> '') ''cyan'' (sh_world s)) = (child, w)" "0 < child"
  shows "shell_main_loop E ((''run '' @ cmd @ spaced args) # lines) s =
    shell_main_loop E lines (shell_check E (s\<lparr>sh_world := snd (e_wait E child (e_print E (newline []) w))\<rparr>))"
proof -
  let ?s = "on_world (shell_write_colour E (newline ''|--DBOS--|>> '') ''cyan'') s"
  have "shell_parse_command E (''run '' @ cmd @ spaced args) ?s = Some (child, ?s\<lparr>sh_world := e_print E (newline []) w\<rparr>)"
    using parse_run[OF assms(1-6), of E ?s child w] p by (simp add: on_world_def)
  then show ?thesis using p(2) by (simp add: on_world_def del: append_assoc append_Cons append.simps)
qed

lemma loop_exit:
  "shell_main_loop E (''exit'' # lines) s =
    Some (s\<lparr>sh_world := e_print E (newline []) (shell_write_colour E (newline ''|--DBOS--|>> '') ''cyan'' (sh_world s))\<rparr>)"
  by (simp add: shell_parse_command_def on_world_def)

subsection \<open>Colours come back\<close>

text \<open>A terminal with a foreground colour \<open>fg\<close>.\<close>

definition colour_terminal :: "'w env \<Rightarrow> ('w \<Rightarrow> u32) \<Rightarrow> bool" where
  "colour_terminal E fg \<longleftrightarrow> (\<forall>w. e_ioctl E STDOUT_CMD_GET_FG_COLOUR None w = (uint (fg w), w)) \<and>
     (\<forall>c w. fg (snd (e_ioctl E STDOUT_CMD_SET_FG_COLOUR (Some c) w)) = c) \<and>
     (\<forall>w. snd (e_ioctl E STDOUT_CMD_GET_DISP_TYPE None w) = w)"

lemma colour_restored:
  assumes "colour_terminal E fg" "fst (e_ioctl E STDOUT_CMD_GET_DISP_TYPE None w) = STDOUT_DISP_TYPE_VGA"
  shows "fg (shell_write_colour E str col w) = fg w"
proof -
  have "e_ioctl E STDOUT_CMD_GET_DISP_TYPE None w = (STDOUT_DISP_TYPE_VGA, w)" using assms by (simp add: colour_terminal_def prod_eq_iff)
  then show ?thesis using assms(1) by (simp add: shell_write_colour_def colour_terminal_def Let_def)
qed

subsection \<open>Entries are complete\<close>

lemma list_entries_ok:
  assumes "\<forall>i w. e_list E dir i w = (if i < n then Some (f i) else None, w)" "i \<le> n"
  shows "list_entries E dir i w = Some (map f [i..<n], w)"
  using assms(2)
proof (induction "n - i" arbitrary: i)
  case 0
  then show ?case using assms(1) by (subst list_entries.simps) simp
next
  case (Suc k)
  then have "list_entries E dir (i + 1) w = Some (map f [i + 1..<n], w)" by simp
  then show ?case using assms(1) Suc by (subst list_entries.simps) (simp add: upt_conv_Cons)
qed

lemma ps_list_ok:
  assumes "\<forall>i w. e_ps E i w = (if i < n then Some (f i) else None, w)" "i \<le> n"
  shows "ps_list E i w = Some (map f [i..<n], w)"
  using assms(2)
proof (induction "n - i" arbitrary: i)
  case 0
  then show ?case using assms(1) by (subst ps_list.simps) simp
next
  case (Suc k)
  then have "ps_list E (i + 1) w = Some (map f [i + 1..<n], w)" by simp
  then show ?case using assms(1) Suc by (subst ps_list.simps) (simp add: upt_conv_Cons)
qed

end
