(* ===== verification/Sample_Programs.thy ===== *)
theory Sample_Programs
  imports Sample_Libc Calc_Requests Libbmp Programs
begin

text \<open>Concrete states for the properties of the calculator, of bitmap pictures and of the shell.\<close>

subsection \<open>Calculator\<close>

text \<open>Integers in the place of floating point numbers.\<close>

definition sample_arith :: "int arith" where
  "sample_arith = \<lparr>d_int = \<lambda>i. i, d_tenth = 0, d_add = (+), d_sub = (-), d_mul = (*), d_div = (div), d_pow = \<lambda>a b. a ^ nat b,
     d_is_zero = \<lambda>a. a = 0, d_trunc = word_of_int, d_fun1 = \<lambda>f a. if f = fabs_f then \<bar>a\<bar> else a, d_fun2 = \<lambda>f a b. a mod b\<rparr>"

definition sample_calc :: calc where
  "sample_calc = \<lparr>tokens = replicate 64 None, tokens_len = 0, current_idx = 0, next_tok = None, calc_out = [], calc_mem = \<lambda>x. 0\<rparr>"

definition sample_num :: "string \<Rightarrow> factor" where "sample_num t = Base (Plain (Num t))"

text \<open>\<^verbatim>\<open>(1+2)*3\<close> and \<^verbatim>\<open>1/0\<close>\<close>

definition sample_expr :: expr where
  "sample_expr = Sum (Times (Base (Plain (Par (Plus (Fac (sample_num ''1'')) (Fac (sample_num ''2'')))))) (sample_num ''3''))"

lemma sample_expr_text: "text_of sample_expr = ''(1+2)*3''"
  by (simp add: text_of_def sample_expr_def sample_num_def)

lemma sample_calc_ready: "ready sample_calc"
  by (simp add: ready_def sample_calc_def MAX_TOKENS_def)

lemma sample_digits: "num_text ''1''" "num_text ''2''" "num_text ''3''"
  by (simp_all add: num_text_def MAX_TOK_LEN_def symbol_def isdigit_def)

lemma sample_values: "atof sample_arith ''1'' = Some 1" "atof sample_arith ''2'' = Some 2" "atof sample_arith ''3'' = Some 3"
  by (simp_all add: atof_def digits_def isdigit_def add_digits_def scale_def sample_arith_def)

lemma sample_expr_wf: "wf_expr sample_expr" "length (toks_expr sample_expr) < 63" "eval_expr sample_arith sample_expr = Some 9"
  by (simp_all add: sample_expr_def sample_num_def sample_digits sample_values) (simp add: sample_arith_def)

lemma sample_fraction: "fraction sample_arith 9 = 0" "d_trunc sample_arith 9 = 9"
  by (simp_all add: fraction_def sample_arith_def)

lemma sample_shown: "num_printable sample_arith 9" "shown sample_arith 9 = ''9.0''"
  by (simp_all add: num_printable_def shown_def sample_fraction kputint_def kputuint_def skip_divisor.simps uint_digits.simps digit_def char_of_def bit_0)

subsection \<open>A picture\<close>

text \<open>One column of two pixels; the blocks of the header, of the information and of the buffer.\<close>

definition picture_blocks :: "block list" where
  "picture_blocks = [(0x50000000, \<lparr>ka_size = 14, ka_next = 0x50000017, ka_present = True\<rparr>),
     (0x50000017, \<lparr>ka_size = 40, ka_next = 0x50000048, ka_present = True\<rparr>), (0x50000048, \<lparr>ka_size = 8, ka_next = 0, ka_present = True\<rparr>)]"

definition picture_image :: bmp_image where
  "picture_image = \<lparr>bmp_header = 0x50000009, bmp_info_header = 0x50000020, bmp_image_file = 0x40\<rparr>"

definition sample_picture :: "string bmp" where
  "sample_picture =
     \<lparr>allocated_size = 0, kh_start = 0x50000000, kh_end = 0x50001000, kh_head = 0x50000000, kh_items = map_of picture_blocks,
      kh_bytes = \<lambda>x. if x = 0x50000024 then 1 else if x = 0x50000028 then 2 else 0, heap_end_k = 0x50001000,
      files = [0x40 \<mapsto> \<lparr>f_id = 3, seek_index = 0, f_mode = MODE_R\<rparr>], stdin = 0, stdout = 0, stderr = 0, world = [], images = [0x60 \<mapsto> picture_image]\<rparr>"

definition sample_pixels :: "u8 list" where "sample_pixels = [1, 2, 3, 4, 5, 6]"

definition sample_reader :: "string os" where
  "sample_reader = sample_os\<lparr>os_read := \<lambda>i seek len p m w. (uint len, fill p (take (unat len) (drop (unat seek) sample_pixels)) m, w)\<rparr>"

lemma sample_reader_holds: "file_holds sample_reader 3 sample_pixels"
  by (simp add: file_holds_def sample_reader_def)

lemma sample_picture_heap: "wf_blocks sample_picture picture_blocks"
  by (simp add: wf_blocks_def sample_picture_def picture_blocks_def block_len_def)

lemma sample_picture_budget: "k \<le> 0x1000000 \<Longrightarrow> user_budget k sample_picture"
  using sample_picture_heap by (auto simp: user_budget_def wf_heap_def sample_picture_def)

lemma sample_picture_live: "(0x50000020, 40) \<in> heap_live sample_picture" "(0x50000051, 8) \<in> heap_live sample_picture"
  by (auto simp: live_of_def sample_picture_def picture_blocks_def sizeof_kalloc_def)

lemma sample_picture_loaded: "image_loaded 1 2 0x60 picture_image \<lparr>f_id = 3, seek_index = 0, f_mode = MODE_R\<rparr> 0x50000051 sample_picture"
proof -
  have "info_width 0x50000020 (kh_bytes sample_picture) = 1" "info_height 0x50000020 (kh_bytes sample_picture) = 2"
    by (simp_all add: info_width_def info_height_def load_u32_def sample_picture_def)
  then show ?thesis unfolding image_loaded_def using sample_picture_live by (auto simp: picture_image_def) (auto simp: sample_picture_def picture_image_def)
qed

subsection \<open>A terminal\<close>

text \<open>The world is a list of what was printed and started; programs get the number 7.\<close>

definition sample_env :: "string list env" where
  "sample_env = \<lparr>e_ioctl = \<lambda>c a w. (0, w), e_print = \<lambda>t w. w @ [t], e_spawn = \<lambda>p a w. (7, w @ p # a), e_wait = \<lambda>p w. (0, w), e_bmp_load = \<lambda>f w. (0, w),
     e_bmp_read = \<lambda>p w. w, e_show = \<lambda>n w. w, e_open = \<lambda>p w. (None, w), e_list = \<lambda>d i w. (None, w), e_ps = \<lambda>i w. (None, w)\<rparr>"

definition sample_shell :: "string list shell" where
  "sample_shell = \<lparr>pixel_width = 0, pixel_height = 0, char_width = 80, char_height = 25, shell_mode = 0, top_bar_image = 0, sh_world = []\<rparr>"

end
