(* ===== verification/Spec2Isabelle.thy ===== *)
theory Spec2Isabelle
  imports Sample_Screen Sample_Programs
begin

text \<open>
  \<^bold>\<open>Verification of DBOS.\<close> DBOS is a small operating system for the 32-bit PC: a kernel with memory management, interrupts, processes,
  system calls, a virtual file system and drivers, a C library and a few programs. This development translates the kernel, the drivers, the
  library and the programs from C and proves what makes them work. The properties C1 to C40 are in this theory, the lemmas behind them in
  the theories of the components.

  \<^bold>\<open>The program and its parts.\<close> The boot loader reports the memory; \<^verbatim>\<open>memory_phys.c\<close> counts references to page frames in a byte map,
  \<^verbatim>\<open>memory_paging.c\<close> keeps two-level page tables in frames, which it edits through one temporary window, and \<^verbatim>\<open>memory_heap.c\<close> is the
  kernel heap on top. \<^verbatim>\<open>gdt.c\<close>, \<^verbatim>\<open>idt.c\<close>, \<^verbatim>\<open>isr.c\<close> and \<^verbatim>\<open>interrupts.c\<close> set up the processor and dispatch interrupts; the interval timer
  (\<^verbatim>\<open>pit.c\<close>) calls the scheduler (\<^verbatim>\<open>scheduler.c\<close>), which moves processes (\<^verbatim>\<open>process.c\<close>) between a ready queue, a dead queue and a list of
  sleepers. Programs enter the kernel through interrupt 0x32 (\<^verbatim>\<open>syscall.c\<close>), which reaches the scheduler, the loader (\<^verbatim>\<open>elf.c\<close>,
  \<^verbatim>\<open>loader.c\<close>) and the virtual file system (\<^verbatim>\<open>vfs.c\<close>). Below it are the device file system (\<^verbatim>\<open>devfs.c\<close>) with the drivers and the archive
  file system (\<^verbatim>\<open>tarfs.c\<close>), whose archive is a boot module behind the ram disk device. The keyboard driver tells its listeners about keys;
  the terminal (\<^verbatim>\<open>gtty.c\<close>) is one of them and writes to the text screen (\<^verbatim>\<open>vga.c\<close>) or the graphics screen (\<^verbatim>\<open>vesa.c\<close>), which it finds on the
  PCI bus. Programs start in \<^verbatim>\<open>bootstrap.c\<close> and use the library in \<^verbatim>\<open>libraries\<close>.

  \<^bold>\<open>State.\<close> One record grows from theory to theory, each component adding its globals: \<open>kheap\<close>, \<open>phys\<close>, \<open>gdtr\<close>, \<open>intr\<close>, \<open>vm\<close>, \<open>pit\<close>, \<open>kern\<close>,
  \<open>vfs\<close>, \<open>devfs\<close>, \<open>initrd\<close>, \<open>vga\<close>, \<open>kbd\<close>, \<open>gtty\<close>, \<open>pci\<close>, \<open>vesa\<close>, \<open>serial\<close>. The user side starts again from \<open>kheap\<close>, the heap of the process, with
  \<open>user_heap\<close>, \<open>stdio\<close>, and \<open>program\<close> or \<open>bmp\<close>; calculator and shell have records of their own. An operation is a function on every
  extension of the record it needs, in the order in which the C code acts; a result of \<open>None\<close> is a fault: a null or dangling pointer, an
  index outside of an array, undefined behaviour, or a loop that does not end. Machine words are \<open>32 word\<close>, \<open>16 word\<close>, \<open>8 word\<close>; signed
  integers that matter at their width are words read with \<open>sint\<close>. Pointers are words; typed stores (\<open>procs\<close>, \<open>vnodes\<close>, \<open>io_nodes\<close>, the nodes of
  lists) map them to structures, and a freed structure leaves its store. Function pointers are symbols. Two writes run over the end of a
  block in ordinary use, the terminators of \<open>strdup\<close> and of the identifiers of file systems; they are carried out on the header that is
  there (\<open>zero_behind\<close>), and what is compared afterwards is memory with its headers (\<open>heap_byte\<close>).

  \<^bold>\<open>Heap and frames.\<close> The bytes of the kernel heap are the map \<open>kh_bytes\<close> from addresses. This stands for memory as long as the heap is
  \<open>heap_mapped\<close>: every page of it is present and writable and has a frame of its own that is neither the directory nor a page table. C1
  proves that \<open>kern_malloc\<close> keeps this while there are two free frames for each new page and the heap stays below the window at
  0xFFC00000; when frames run out, the code maps frame 0 again and again, and nothing is claimed.

  \<^bold>\<open>Theories.\<close>
    \<^item> \<open>Prelude\<close>: word types, page constants, loops with a page stride, lemmas on words.
    \<^item> \<open>Heap_Core\<close>: the allocator that \<^verbatim>\<open>memory_heap.c\<close> and \<^verbatim>\<open>libraries/alloc.c\<close> share; the locale \<open>heap_grower\<close> is what it needs of the code
      that extends the heap. \<open>Memory_Heap\<close> interprets it for the kernel (C2) and states the contract of an allocator as the locale
      \<open>allocator\<close>, which lists and queues use; \<open>Heap_Mapping\<close> has the frames below (C1), \<open>Heap_View\<close> bytes and headers together and where
      blocks are placed; \<open>Alloc\<close> interprets both locales for programs.
    \<^item> \<open>Memory_Phys\<close>: frames; the locale \<open>frame_allocator\<close> and its interpretation (C3, C4).
    \<^item> \<open>Memory_Paging\<close>: page tables, cloning, copy on write (C5, C6).
    \<^item> \<open>Gdt\<close>, \<open>Interrupts\<close>, \<open>Pit\<close>: processor tables, gates and handlers, the timer.
    \<^item> \<open>Linked_List\<close>, \<open>Queue\<close>, \<open>Liblist\<close>, \<open>Gen_Tree\<close>: the data structures. Lists and queues are verified at the level of pointers against
      sequences (C9 to C11); the locale \<open>bounded_queue\<close> holds of the pointer structure and of plain lists alike, which is why the theories
      above keep queues as lists.
    \<^item> \<open>Kstring\<close>, \<open>Kstdio\<close>, \<open>Byte_Memory\<close>: strings as character lists, arrays with explicit ends, printing, strings on bytes (C24).
    \<^item> \<open>Process\<close>, \<open>Scheduler\<close>: creation, destruction, search; the invariant \<open>sched_inv\<close> of the queues (C7, C14 to C16).
    \<^item> \<open>Elf\<close>: loading; reading a file is a parameter (C8).
    \<^item> \<open>Vfs\<close>, \<open>Devfs\<close>, \<open>Tarfs\<close>: mounting, lookup, device nodes, the archive (C20, C22). The code behind other symbols is the record \<open>calls\<close>,
      the drivers are the record \<open>drivers\<close>; the locale \<open>devfs_code\<close> is what clients need of the linked code.
    \<^item> \<open>Syscall\<close>: user memory through the page tables and the sixteen calls (C17 to C19, C21).
    \<^item> \<open>Devices\<close>, \<open>Initrd\<close>, \<open>Boot\<close>: device nodes of drivers, the ram disk, and the archive as the root (C23).
    \<^item> \<open>Vga\<close>, \<open>Keyboard\<close>, \<open>Gtty\<close>: the drivers of the console; \<open>Terminal\<close> and \<open>Line_Input\<close> prove what appears on the screen and what a program
      reads (C25 to C30).
    \<^item> \<open>Pci\<close>, \<open>Boot_Params\<close>, \<open>Vesa\<close>, \<open>Serial\<close>: bus enumeration, boot parameters, the graphics screen, the serial line and the log (C36 to C40).
      Reads from ports and the configuration space are arguments, writes are a trace.
    \<^item> \<open>Libc_String\<close>, \<open>Libc_Stdio\<close>, \<open>Libc_Files\<close>, \<open>Libc_Facts\<close>, \<open>Libc_Print\<close>, \<open>Bootstrap\<close>: the C library on a byte memory, its streams over
      a record of system calls, and the start of a program (C31 to C35).
    \<^item> \<open>Calc\<close>, \<open>Calc_Grammar\<close>, \<open>Calc_Requests\<close>: the calculator against a grammar of its expressions. \<open>Libbmp\<close>: pictures (C12). \<open>Programs\<close>: the shell (C13),
      \<^verbatim>\<open>ls\<close>, \<^verbatim>\<open>ps\<close> and \<^verbatim>\<open>init\<close> over a record of library calls.
    \<^item> \<open>Sample\<close>, \<open>Sample_Drivers\<close>, \<open>Sample_Screen\<close>, \<open>Sample_Libc\<close>, \<open>Sample_Programs\<close>: concrete states in which the hypotheses of the properties
      hold; the witnesses use them.

  \<^bold>\<open>Bounds.\<close> \<open>heap_budget k\<close> says that the heap can still grow by \<open>k\<close> bytes; \<open>alloc_cost\<close> and the costs built from it bound what an operation
  allocates. \<open>heap_full\<close> says that no block is free, \<open>small_holes h\<close> that every free block has less than \<open>h\<close> bytes. Mapping needs two free
  frames a page, one for the page and one for a table. Addresses stay below the last directory entry, which maps the tables themselves.
  Loops are structural, have termination proofs, or are partial functions shown to end; the only fuel is the depth of nested parentheses in
  \<open>parse_atom\<close>, for which the length of the token array is enough, since every level takes a token.

  \<^bold>\<open>Not modelled.\<close> The disk driver, which is commented out; the mathematics library and floating point arithmetic, which are parameters; option
  parsing; library wrappers of one system call; the order of start-up in \<^verbatim>\<open>kernel.c\<close> and \<^verbatim>\<open>memory_manager.c\<close>; the tables of PCI names; the
  main function of the picture viewer; printing of debug trees; the symbol generator of the build. Time, caches and the behaviour of the
  processor besides page translation are outside of the model. The kernel's own structures are values, so a program pointer into them is
  not seen as such. The temporary window is one more name of a frame and kept apart from the address space that shows it. The heap is seen
  through the directory that is loaded; that all directories share the tables of the kernel is not part of C1.
\<close>

section \<open>Memory\<close>



text \<open>C2: freeing a block that is in use takes exactly this block out of the blocks in use and keeps the heap well formed.\<close>

theorem kern_free_correct:
  assumes "wf_heap s" "(p, n) \<in> heap_live s"
  shows "\<exists>s'. kern_free p s = Some s' \<and> wf_heap s' \<and> heap_live s' = heap_live s - {(p, n)}"
  using heap_free_correct[OF assms] unfolding kern_free_def by blast

theorem kern_free_correct_witness:
  "\<exists>s'. kern_free 0xD0000052 sample = Some s' \<and> wf_heap s' \<and> heap_live s' = heap_live sample - {(0xD0000052, 64)}"
  by (rule kern_free_correct[OF sample_wf_heap]) (simp add: sample_live)

text \<open>What one allocation takes, freeing it gives back: the set of blocks in use is the one before.\<close>

theorem kern_malloc_free:
  assumes "wf_heap s" "kern_fits n s" "kern_malloc n s = Some (p, s')"
  shows "\<exists>s''. kern_free p s' = Some s'' \<and> wf_heap s'' \<and> kern_live s'' = kern_live s"
  by (rule ka.malloc_release[OF assms])

theorem kern_malloc_free_witness:
  "\<exists>p s' s''. kern_malloc 100 sample = Some (p, s') \<and> kern_free p s' = Some s'' \<and> wf_heap s'' \<and> kern_live s'' = kern_live sample"
proof -
  have f: "kern_fits 100 sample"
    by (simp add: kern_fits_def heap_room_def heap_total_size_def sizeof_kalloc_def pages_for_nat sample_def)
  obtain p s' where m: "kern_malloc 100 sample = Some (p, s')" using kern_malloc_ok[OF sample_wf_heap f] by blast
  from kern_malloc_free[OF sample_wf_heap f m] m show ?thesis by blast
qed

text \<open>
  C3: as long as frames are free, successive calls of \<open>alloc_phys_page\<close> hand out different frames that were free,
  and exactly these become used.
\<close>

theorem alloc_phys_distinct:
  assumes "phys_inv s" "n \<le> card (phys_frames s - used_frames s)"
  shows "distinct (fst (pf.alloc_many n s)) \<and> set (fst (pf.alloc_many n s)) \<subseteq> phys_frames s - used_frames s \<and>
    used_frames (snd (pf.alloc_many n s)) = used_frames s \<union> set (fst (pf.alloc_many n s))"
  by (rule pf.alloc_many_distinct[OF assms])

theorem alloc_phys_distinct_witness:
  "distinct (fst (pf.alloc_many 3 sample)) \<and> set (fst (pf.alloc_many 3 sample)) \<subseteq> phys_frames sample - used_frames sample \<and>
    used_frames (snd (pf.alloc_many 3 sample)) = used_frames sample \<union> set (fst (pf.alloc_many 3 sample))"
  by (rule alloc_phys_distinct[OF sample_phys]) (simp add: sample_free[unfolded free_frames_def])

text \<open>A frame that is allocated and freed again leaves the set of used frames as it was.\<close>

theorem alloc_phys_restores:
  assumes "phys_inv s" "used_frames s \<noteq> phys_frames s"
  shows "used_frames (alloc_phys_free (fst (alloc_phys_page s)) (snd (alloc_phys_page s))) = used_frames s"
  by (rule pf.alloc_free_restores[OF assms])

theorem alloc_phys_restores_witness:
  "used_frames (alloc_phys_free (fst (alloc_phys_page sample)) (snd (alloc_phys_page sample))) = used_frames sample"
  by (rule alloc_phys_restores[OF sample_phys]) (use sample_can_alloc in \<open>simp add: can_alloc_def\<close>)

text \<open>The index of a frame and its address determine each other, in the lower and in the upper memory.\<close>

theorem frame_index_roundtrip:
  assumes "wf_phys s" "i < phys_pages s"
  shows "alloc_phys_addr_to_index (alloc_phys_index_to_addr i s) s = int i"
  by (rule index_to_addr_inverse[OF assms])

theorem frame_index_roundtrip_witness: "alloc_phys_addr_to_index (alloc_phys_index_to_addr 200 sample) sample = 200"
  using frame_index_roundtrip[of sample 200] sample_phys by (simp add: phys_inv_def sample_pages)

text \<open>
  C4: for the memory sizes a multiboot loader reports, the initialisation of the frame allocator ends, counts the
  frames, and marks exactly the pages of its byte map as used.
\<close>

theorem init_phys_memory_correct:
  assumes "mboot_sane mb" "unat e \<le> 0xE0000000"
  shows "\<exists>s'. init_phys_memory mb e s = Some s' \<and> wf_phys s' \<and> free_list s' = free_list s \<and>
     phys_pages s' = unat (memory_upper mb) div 4 + unat (memory_lower mb) div 4 \<and>
     allocations s' = align_page e + 0x1000 \<and>
     (\<forall>i<phys_pages s'. refcount s' i =
        (if \<exists>a\<in>set (bytemap_pages mb e). alloc_phys_get_alloc a s' = Some i then 1 else 0))"
  by (rule init_phys_memory_reserves[OF assms])

theorem init_phys_memory_correct_witness:
  "\<exists>s'. init_phys_memory \<lparr>memory_lower = 639, memory_upper = 0x7000\<rparr> 0x200000 sample = Some s' \<and> wf_phys s' \<and> phys_pages s' = 7327"
  using init_phys_memory_correct[of "\<lparr>memory_lower = 639, memory_upper = 0x7000\<rparr>" "0x200000" sample] by (auto simp: mboot_sane_def)



text \<open>
  C6: the copy-on-write handler gives a process that writes to a shared page a frame of its own with the same
  contents, present, writable and with reference count 1; the shared frame keeps its contents and loses one
  reference, and no other page of the process changes.
\<close>

theorem page_fault_cow_correct:
  assumes "cow_fault (drop_bit 12 dir) v f k s"
  shows "cow_resolved (drop_bit 12 dir) v f k s (page_fault_cow dir v s)"
  by (rule page_fault_cow_resolves[OF assms])

theorem page_fault_cow_correct_witness: "cow_resolved 1 0x10000000 3 3 sample (page_fault_cow 0x1000 0x10000000 sample)"
  using page_fault_cow_correct[of "0x1000" "0x10000000" 3 3 sample] sample_cow by simp





section \<open>Processor tables and interrupts\<close>

text \<open>
  After \<open>gdt_initialise\<close> the four segments span all 4 GiB from address 0, with privilege 0 for the kernel and 3
  for programs, code executable and data not, and the task gate points to the task state segment.
\<close>

theorem gdt_segments:
  "seg (gdt (gdt_initialise g t s) (KERN_CODE_GATE div 8)) = (0, 0xFFFFF, 0, True, True, True) \<and>
   seg (gdt (gdt_initialise g t s) (KERN_DATA_GATE div 8)) = (0, 0xFFFFF, 0, True, False, True) \<and>
   seg (gdt (gdt_initialise g t s) (USER_CODE_GATE div 8)) = (0, 0xFFFFF, 3, True, True, True) \<and>
   seg (gdt (gdt_initialise g t s) (USER_DATA_GATE div 8)) = (0, 0xFFFFF, 3, True, False, True) \<and>
   entry_base (gdt (gdt_initialise g t s) (TSS_GATE div 8)) = t"
  by (intro conjI gdt_initialise_segments)

text \<open>
  After \<open>idt_initialise\<close> the 32 exception vectors lead to their stubs, the 16 interrupt lines to the stubs that
  only acknowledge them, all other vectors nowhere; the two interrupt controllers got their set-up and interrupts
  are on.
\<close>

theorem idt_vectors:
  "gate_addr (idt (idt_initialise sb a s) n) =
     (if n < 32 then isr_stub sb n else if n < 48 then quiet_stub sb n else if n < 256 then 0 else gate_addr (idt s n)) \<and>
   port_log (idt_initialise sb a s) = port_log s @ pic_setup \<and> interrupt_flag (idt_initialise sb a s)"
  by (intro conjI idt_initialise_state)

text \<open>
  Installing a handler for a vector registers it for this vector only, and makes the vector's gate lead to its
  assembly stub unless a stub is there already; no other gate changes.
\<close>

theorem install_handler_correct:
  assumes "n < 256" "real_stub sb (interrupt_vector_catchers s n)"
  shows "interrupt_handlers (install_interrupt_handler sb n h p s) = (interrupt_handlers s)(n := h) \<and>
    check_if_vector_installed sb n (install_interrupt_handler sb n h p s) \<and>
    (\<forall>m. m \<noteq> n \<longrightarrow> idt (install_interrupt_handler sb n h p s) m = idt s m) \<and>
    gate_addr (idt (install_interrupt_handler sb n h p s) n) =
      (if check_if_vector_installed sb n s then gate_addr (idt s n) else interrupt_vector_catchers s n)"
  using install_interrupt_handler_effect[OF assms, where h = h and p = p] by blast

theorem install_handler_correct_witness:
  "interrupt_handlers (initialise_syscalls \<lparr>isr_stub = \<lambda>i. 0, ignore_isr = 1, ignore_isr_error = 2, ignore_irq_master = 3, ignore_irq_slave = 4\<rparr> 0xC0105000 sample) 0x32 = 0xC0105000"
proof -
  let ?sb = "\<lparr>isr_stub = \<lambda>i. 0 :: ptr, ignore_isr = 1, ignore_isr_error = 2, ignore_irq_master = 3, ignore_irq_slave = 4\<rparr>"
  have "real_stub ?sb (interrupt_vector_catchers sample 0x32)" by (simp add: real_stub_def sample_def)
  from install_handler_correct[OF _ this, where h = "0xC0105000" and p = DPL_USER] show ?thesis by (simp add: initialise_syscalls_def)
qed

text \<open>
  An interrupt is acknowledged exactly where it came from: nothing for exceptions and software interrupts, the
  master controller for the lines 0 to 7, master and slave for the lines 8 to 15.
\<close>

theorem clear_irq_acknowledges:
  "port_log (clear_irq regs s) = port_log s @
     (if 40 \<le> int_no regs \<and> int_no regs \<le> 47 then [(0x20, 0x20), (0xA0, 0x20)]
      else if 32 \<le> int_no regs \<and> int_no regs \<le> 47 then [(0x20, 0x20)] else [])"
  by (rule clear_irq_ports)

text \<open>
  Programming the interval timer sends the command byte and then A9 and 00 as the divisor. The frequency of 1000 Hz
  that the comment promises needs the divisor 1193, whose bytes are A9 and 04: the cast comes before the shift.
\<close>

theorem pit_divisor_bytes:
  "port_log (initialise_pit sb h s) = port_log s @ [(0x43, 0x36), (0x40, 0xA9), (0x40, 0)]"
  by (rule initialise_pit_ports)

section \<open>Data structures\<close>

text \<open>
  C9: appending to a kernel list: the list has the new item at its end, with a fresh node, and no other list and no
  node outside of this list changes.
\<close>

theorem kernel_list_append:
  assumes "ka.wf_lmem s" "kern_fits sizeof_node (hp s)" "is_list s l xs" "d \<noteq> 0"
  shows "\<exists>n s'. linked_list_append kern_malloc l d s = Some (n, s') \<and> ka.inserted s l xs n (xs @ [(n, d)]) s'"
  by (rule ka.linked_list_append_correct[OF assms])

text \<open>C10: removing a node from a kernel list takes exactly this node out, frees it, and keeps the order of the others.\<close>

theorem kernel_list_remove:
  assumes "ka.wf_lmem s" "is_list s l (as @ (n, e) # bs)"
  shows "\<exists>s'. linked_list_remove kern_free l n s = Some s' \<and> ka.removed s l (as @ (n, e) # bs) n (as @ bs) s'"
  by (rule ka.linked_list_remove_correct[OF assms])

text \<open>The sample list: one header and one node on the kernel heap.\<close>

definition sample_list :: "devfs lmem" where
  "sample_list = \<lparr>hp = sample, lsts = [0xD00000E4 \<mapsto> \<lparr>list_head = 0xD00000F9, list_tail = 0xD00000F9, list_length = 1\<rparr>],
     nodes = [0xD00000F9 \<mapsto> \<lparr>previous = 0, nxt = 0, data = 7\<rparr>]\<rparr>"

lemma sample_list_wf: "ka.wf_lmem sample_list" "is_list sample_list 0xD00000E4 [(0xD00000F9, 7)]"
proof -
  show "ka.wf_lmem sample_list" unfolding ka.wf_lmem_def by (simp add: sample_list_def sample_kern_live sample_wf_heap)
  show "is_list sample_list 0xD00000E4 [(0xD00000F9, 7)]" by (simp add: is_list_def sample_list_def)
qed

theorem kernel_list_append_witness:
  "\<exists>n s'. linked_list_append kern_malloc 0xD00000E4 8 sample_list = Some (n, s') \<and> is_list s' 0xD00000E4 [(0xD00000F9, 7), (n, 8)]"
proof -
  have "kern_fits sizeof_node (hp sample_list)"
    by (simp add: kern_fits_def heap_room_def heap_total_size_def sizeof_kalloc_def sizeof_node_def pages_for_nat sample_def sample_list_def)
  from kernel_list_append[OF sample_list_wf(1) this sample_list_wf(2), of 8] show ?thesis by (auto simp: ka.inserted_def)
qed

theorem kernel_list_remove_witness:
  "\<exists>s'. linked_list_remove kern_free 0xD00000E4 0xD00000F9 sample_list = Some s' \<and> is_list s' 0xD00000E4 []"
  using kernel_list_remove[OF sample_list_wf(1), of "0xD00000E4" "[]" "0xD00000F9" 7 "[]"] sample_list_wf(2) by (auto simp: ka.removed_def)

text \<open>
  Inserting into an empty list at an index above 0 follows the null tail pointer; the code checks the index
  against the length only in its other branches.
\<close>

theorem insert_at_empty_list_faults:
  assumes "lsts s l = Some \<lparr>list_head = 0, list_tail = 0, list_length = 0\<rparr>" "l \<noteq> 0" "0 < index" "d \<noteq> 0" "nodes s 0 = None"
  shows "linked_list_insert_at_index kern_malloc l d index s = None"
  by (rule insert_at_empty_faults[OF assms])

theorem insert_at_empty_list_faults_witness:
  "linked_list_insert_at_index kern_malloc 0xD00000E4 8 1
     (sample_list\<lparr>lsts := [0xD00000E4 \<mapsto> \<lparr>list_head = 0, list_tail = 0, list_length = 0\<rparr>], nodes := Map.empty\<rparr>) = None"
  by (rule insert_at_empty_list_faults) simp_all

text \<open>
  C11: a kernel queue behaves like a bounded sequence: \<open>queue_enqueue\<close> adds at the end while there is room and drops
  the item otherwise, \<open>queue_dequeue\<close> takes from the front and gives null for an empty queue, and
  \<open>queue_force_remove\<close> takes out every copy of an item and keeps the order of the rest.
\<close>

theorem kernel_queue_contract:
  assumes "kq_inv q s" "kq_fits s" "d \<noteq> 0"
  shows "(\<exists>n s'. queue_enqueue kern_malloc kern_free q d s = Some (n, s') \<and> kq_inv q s' \<and> qlimit q s' = qlimit q s \<and>
      qcontents q s' = (if int (length (qcontents q s)) < qlimit q s \<or> qlimit q s = -1 then qcontents q s @ [d] else qcontents q s)) \<and>
    (\<exists>x s'. queue_dequeue kern_free q s = Some (x, s') \<and> kq_inv q s' \<and>
      x = (if qcontents q s = [] then 0 else hd (qcontents q s)) \<and> qcontents q s' = tl (qcontents q s)) \<and>
    (\<exists>s'. queue_force_remove kern_free q d s = Some s' \<and> kq_inv q s' \<and>
      qcontents q s' = filter (\<lambda>x. x \<noteq> d) (qcontents q s))"
  using kq.enq_ok[OF assms] kq.deq_ok[OF assms(1)] kq.purge_ok[OF assms(1,3)] by force

definition sample_queue :: "devfs qmem" where
  "sample_queue = \<lparr>qhp = sample, queues = [0xD00000E4 \<mapsto> \<lparr>q_head = 0xD00000F9, q_tail = 0xD00000F9, q_length = 1, q_limit = 256\<rparr>],
     qnodes = [0xD00000F9 \<mapsto> \<lparr>previous = 0, nxt = 0, data = 7\<rparr>]\<rparr>"

theorem kernel_queue_contract_witness:
  "\<exists>n s'. queue_enqueue kern_malloc kern_free 0xD00000E4 8 sample_queue = Some (n, s') \<and> qcontents 0xD00000E4 s' = [7, 8]"
proof -
  have q: "is_queue sample_queue 0xD00000E4 [(0xD00000F9, 7)] 256" by (simp add: is_queue_def sample_queue_def)
  note c = is_queue_contents[OF q]
  have "kq_inv 0xD00000E4 sample_queue" unfolding kq_inv_def ka.wf_qmem_def
    using q c by (auto simp: sample_queue_def sample_kern_live sample_wf_heap)
  moreover have "kq_fits sample_queue"
    by (simp add: kq_fits_def kern_fits_def heap_room_def heap_total_size_def sizeof_kalloc_def sizeof_queue_node_def pages_for_nat sample_def sample_queue_def)
  ultimately show ?thesis using kernel_queue_contract[of "0xD00000E4" sample_queue 8] c by auto
qed

text \<open>
  A program that appends to a list of its own finds the item again, at the index the list had as its length, and
  by its value when the list did not have it.
\<close>

theorem user_list_append:
  assumes "pb.user.wf_lmem s" "pb.user_fits sizeof_node (hp s)" "is_list s l xs" "d \<noteq> 0"
  shows "\<exists>n s'. list_append l d s = Some (n, s') \<and> n \<noteq> 0 \<and> is_list s' l (xs @ [(n, d)]) \<and>
    list_get_at l (int (length xs)) s' = Some n \<and> (d \<notin> snd ` set xs \<longrightarrow> list_find l d s' = Some n)"
  by (rule list_append_get_at[OF assms])

definition sample_user :: user_heap where
  "sample_user = \<lparr>allocated_size = 0, kh_start = 0x50001000, kh_end = 0x50002000, kh_head = 0x50001000,
     kh_items = [0x50001000 \<mapsto> \<lparr>ka_size = 12, ka_next = 0, ka_present = True\<rparr>], kh_bytes = \<lambda>a. 0x55, heap_end_k = 0x50002000\<rparr>"

lemma sample_user_heap: "wf_heap sample_user" "heap_live sample_user = {(0x50001009, 12)}"
proof -
  have "wf_blocks sample_user [(0x50001000, \<lparr>ka_size = 12, ka_next = 0, ka_present = True\<rparr>)]"
    by (simp add: wf_blocks_def sample_user_def block_len_def)
  then show "wf_heap sample_user" by (auto simp: wf_heap_def)
  show "heap_live sample_user = {(0x50001009, 12)}" by (auto simp: live_of_def sample_user_def sizeof_kalloc_def split: if_splits)
qed

lemma sample_user_fits: "unat n \<le> 1000 \<Longrightarrow> pb.user_fits n sample_user"
proof -
  assume n: "unat n \<le> 1000"
  have "unat (heap_total_size n) \<le> 2000"
    using n heap_total_size_bounds[of n] by simp
  then have "(unat (heap_total_size n) + 4095) div 4096 \<le> 1" using div_le_mono[of "unat (heap_total_size n) + 4095" 6095 4096] by simp
  then show ?thesis using n by (simp add: pb.user_fits_def sbrk_room_def sample_user_def pages_for_nat)
qed

theorem user_list_append_witness:
  "\<exists>n s'. list_append 0x50001009 9 \<lparr>hp = sample_user, lsts = [0x50001009 \<mapsto> \<lparr>list_head = 0, list_tail = 0, list_length = 0\<rparr>],
     nodes = Map.empty\<rparr> = Some (n, s') \<and> list_get_at 0x50001009 0 s' = Some n"
proof -
  let ?s = "\<lparr>hp = sample_user, lsts = [0x50001009 \<mapsto> \<lparr>list_head = 0, list_tail = 0, list_length = 0\<rparr>], nodes = Map.empty\<rparr>"
  have "pb.user.wf_lmem ?s" unfolding pb.user.wf_lmem_def by (simp add: sample_user_heap)
  moreover have "pb.user_fits sizeof_node (hp ?s)" using sample_user_fits[of sizeof_node] by (simp add: sizeof_node_def)
  moreover have "is_list ?s 0x50001009 []" by (simp add: is_list_def)
  ultimately show ?thesis using user_list_append[of ?s "0x50001009" "[]" 9] by auto
qed

text \<open>
  \<open>realloc\<close> of the user library frees the block and allocates another one, all of whose bytes are zero: the
  contents of the old block are not carried over.
\<close>

theorem alloc_reallocate_clears:
  assumes "wf_heap s" "(p, n) \<in> heap_live s" "alloc_free p s = Some s1" "pb.user_fits sz s1"
  shows "\<exists>q s'. alloc_reallocate sbrk p sz s = Some (q, s') \<and> wf_heap s' \<and> (\<forall>i < unat sz. kh_bytes s' (q + of_nat i) = 0)"
  by (rule pb.reallocate_cleared[OF assms])

theorem alloc_reallocate_clears_witness:
  "\<exists>q s'. alloc_reallocate sbrk 0x50001009 24 sample_user = Some (q, s') \<and> kh_bytes s' (q + 3) = 0 \<and> kh_bytes sample_user (0x50001009 + 3) = 0x55"
proof -
  obtain s1 where s1: "alloc_free 0x50001009 sample_user = Some s1" "s1 = sample_user\<lparr>kh_items := [0x50001000 \<mapsto> \<lparr>ka_size = 12, ka_next = 0, ka_present = False\<rparr>]\<rparr>"
    by (simp add: alloc_free_def heap_free_def sample_user_def sizeof_kalloc_def)
  have "pb.user_fits 24 s1" using sample_user_fits[of 24] by (simp add: s1(2) pb.user_fits_def sbrk_room_def)
  from alloc_reallocate_clears[OF sample_user_heap(1) _ s1(1) this, of 12] obtain q s' where
    q: "alloc_reallocate sbrk 0x50001009 24 sample_user = Some (q, s')" "\<forall>i < 24. kh_bytes s' (q + of_nat i) = 0"
    by (auto simp: sample_user_heap)
  have "kh_bytes s' (q + 3) = 0" using q(2)[rule_format, of 3] by simp
  moreover have "kh_bytes sample_user (0x50001009 + 3) = 0x55" by (simp add: sample_user_def)
  ultimately show ?thesis using q(1) by blast
qed

section \<open>Strings and numbers\<close>

text \<open>Reading a number that \<open>kputint\<close> printed gives the number back, for every 32-bit integer.\<close>

theorem print_read_int: "atoi (kputint n) = n"
  by (rule atoi_kputint)

text \<open>
  \<open>kputhex\<close> prints the hexadecimal digits of the number behind the prefix: they have its value, and so different
  numbers are printed differently.
\<close>

theorem kputhex_digits: "hex_value 0 (drop 2 (kputhex h)) = unat h \<and> inj kputhex"
  by (auto simp: inj_def kputhex_value dest: kputhex_inj)

text \<open>
  \<open>strtok\<close> skips the separators at the front and returns the longest piece without separators; the stored position is
  right behind the separator that ends it.
\<close>

theorem strtok_first_token:
  assumes "cstring s" "dropWhile (\<lambda>c. c \<in> set t) s = r" "r \<noteq> []"
  shows "strtok (Some s) t stored = (Some (takeWhile (\<lambda>c. c \<notin> set t) r), tl (dropWhile (\<lambda>c. c \<notin> set t) r))"
  by (rule strtok_token[OF assms])

theorem strtok_first_token_witness: "strtok (Some '' ls -a'') '' '' [] = (Some ''ls'', ''-a'')"
  using strtok_first_token[of "'' ls -a''" "'' ''" "''ls -a''" "[]"] by (simp add: cstring_def NUL_def)

text \<open>
  \<open>strstr\<close> finds the first position of the needle, or none, as long as the needle has at most one character more than
  the haystack. (A longer needle makes it read behind the end of the haystack.)
\<close>

theorem strstr_first_position:
  assumes "cstring h" "cstring n" "n \<noteq> []" "length n \<le> length h + 1"
  shows "strstr (h @ [NUL] @ x) n = Some (find (\<lambda>j. take (length n) (drop j h) = n) [0..<length h])"
  by (rule strstr_correct[OF assms])

theorem strstr_first_position_witness: "strstr (''abcabc'' @ [NUL] @ []) ''bc'' = Some (Some 1)"
  using strstr_first_position[of "''abcabc''" "''bc''" "[]"] by (simp add: cstring_def NUL_def upt_rec)

text \<open>
  \<open>strncpy\<close> with length \<open>len\<close> copies up to \<open>len + 1\<close> characters, the terminator included, and leaves the array when it
  is not longer than \<open>len\<close>.
\<close>

theorem strncpy_copies_one_more:
  assumes "0 \<le> len"
  shows "strncpy dest s len =
    (let w = take (Suc (nat len)) (s @ [NUL]) in if length w \<le> length dest then Some (w @ drop (length w) dest) else None)"
  by (rule strncpy_eq[OF assms])

theorem strncpy_copies_one_more_witness: "strncpy ''....'' ''abcdef'' 4 = None"
  using strncpy_copies_one_more[of 4 "''....''" "''abcdef''"] by (simp add: Let_def)

section \<open>Processes\<close>



text \<open>
  C15: a tick of the clock counts every sleeping process down and makes exactly those ready whose time is up, in the order
  of the napping list, behind the processes that are ready already; the scheduler's invariant stays. Counters are signed integers of 32 bits;
  one that wraps around is not up.
\<close>

theorem sched_timekeeper_correct:
  assumes "sched_inv s" "napping_ok (napping_list s) s"
  shows "\<exists>s'. sched_timekeeper regs s = Some (regs, s') \<and> sched_inv s' \<and>
    napping_list s' = map (\<lambda>t. t\<lparr>tp_counter := tp_counter t - 1\<rparr>) (filter (\<lambda>t. 0 < sint (tp_counter t - 1)) (napping_list s)) \<and>
    ready_queue s' = ready_queue s @ map tp_process (filter (\<lambda>t. sint (tp_counter t - 1) \<le> 0) (napping_list s)) \<and>
    current_process s' = current_process s \<and> dead_queue s' = dead_queue s"
  using tick_nappers_ok[OF assms] by (fastforce simp: sched_timekeeper_def sched_inv_def)

theorem sched_timekeeper_correct_witness:
  "\<exists>s'. sched_timekeeper (sample_regs 0) sample = Some (sample_regs 0, s') \<and> ready_queue s' = [0x3000, 0x1000, 0x4000] \<and> napping_list s' = []"
  using sched_timekeeper_correct[OF sample_sched sample_napping, of "sample_regs 0"] by auto

text \<open>A process that is put to sleep leaves the ready queue and gets the last entry of the napping list with its time.\<close>

theorem sched_make_napping_correct:
  assumes "sched_inv s" "procs s w = Some p" "state p = PROCESS_STATE_READY" "w \<noteq> current_process s" "w \<noteq> kernel_process s"
    "sched_make_napping w n s = Some s'"
  shows "sched_inv s' \<and> w \<notin> set (ready_queue s') \<and> st (procs s') w = PROCESS_STATE_NAPPING \<and>
    (\<exists>a. napping_list s' = napping_list s @ [\<lparr>tp_addr = a, tp_process = w, tp_counter = n\<rparr>])"
  by (rule sched_make_napping_ok[OF assms])

theorem sched_make_napping_correct_witness:
  "\<exists>s'. sched_make_napping 0x3000 10 sample = Some s' \<and> sched_inv s' \<and> 0x3000 \<notin> set (ready_queue s')"
proof -
  let ?s = "sample\<lparr>ready_queue := [0x1000], procs := (procs sample)(0x3000 \<mapsto> (sample_proc 3 PROCESS_STATE_NAPPING PROCESS_PRV_USER))\<rparr>"
  have "wf_blocks ?s sample_blocks = wf_blocks sample sample_blocks" by (simp add: wf_blocks_def)
  then have "wf_heap ?s" using sample_heap unfolding wf_heap_def by blast
  moreover have "kern_fits sizeof_t_process ?s"
    by (simp add: kern_fits_def heap_room_def heap_total_size_def sizeof_kalloc_def sizeof_t_process_def pages_for_nat sample_def)
  ultimately obtain a s1 where a: "kern_malloc sizeof_t_process ?s = Some (a, s1)" "a \<noteq> 0"
    using kern_malloc_ok[of ?s sizeof_t_process] by (auto simp: heap_allocated_def)
  have "(sample_proc 3 PROCESS_STATE_READY PROCESS_PRV_USER)\<lparr>state := PROCESS_STATE_NAPPING\<rparr> = sample_proc 3 PROCESS_STATE_NAPPING PROCESS_PRV_USER"
    by (simp add: sample_proc_def)
  moreover have "sample\<lparr>ready_queue := [0x1000], dead_queue := []\<rparr> = sample\<lparr>ready_queue := [0x1000]\<rparr>" by (simp add: sample_def)
  ultimately obtain s' where s': "sched_make_napping 0x3000 10 sample = Some s'"
    using a by (simp add: sched_make_napping_def sched_purge_process_def vq_force_remove_def upd_proc_def Let_def)
  from sched_make_napping_correct[OF sample_sched _ _ _ _ this] s' show ?thesis by auto
qed

text \<open>
  C16: \<open>proc_find\<close> returns in the first round of its loop over the children: in a process tree whose processes have different identifiers, the
  process with a given identifier is found exactly when it is on the chain of first children from the root. Every other process of the
  tree is reported as missing.
\<close>

theorem proc_find_first_chain:
  assumes "process_tree s = Some t" "tdata t \<noteq> 0" "set (tree_data t) \<subseteq> dom (procs s)"
    "inj_on (\<lambda>d. pid (the (procs s d))) (set (tree_data t))" "d \<in> set (tree_data t)" "pid (the (procs s d)) = n" "n \<noteq> 0"
  shows "proc_find n s = Some (if d \<in> set (first_chain t) then d else 0)"
  by (rule proc_find_chain[OF assms])

theorem proc_find_first_chain_witness: "proc_find 4 sample = Some 0 \<and> proc_find 2 sample = Some 0x2000"
proof -
  let ?t = "GTree 0x1000 [GTree 0x3000 [GTree 0x2000 []], GTree 0x4000 []]"
  have t: "process_tree sample = Some ?t" "tdata ?t \<noteq> 0" "set (tree_data ?t) \<subseteq> dom (procs sample)" by auto
  have inj: "inj_on (\<lambda>d. pid (the (procs sample d))) (set (tree_data ?t))" by (simp add: inj_on_def)
  have "proc_find 4 sample = Some (if 0x4000 \<in> set (first_chain ?t) then 0x4000 else 0)"
    by (rule proc_find_first_chain[OF t inj]) simp_all
  moreover have "proc_find 2 sample = Some (if 0x2000 \<in> set (first_chain ?t) then 0x2000 else 0)"
    by (rule proc_find_first_chain[OF t inj]) simp_all
  ultimately show ?thesis by simp
qed

section \<open>System calls\<close>

text \<open>
  A system call number outside of 1 to 16 changes nothing but the saved registers of the running process, and the
  same registers are restored.
\<close>

theorem syscall_unknown_number:
  assumes "sint (r_eax regs) \<le> 0 \<or> 16 < sint (r_eax regs)" "procs s (current_process s) = Some p"
  shows "syscall_handler env regs s = Some (regs, s\<lparr>procs := (procs s)(current_process s \<mapsto> p\<lparr>proc_regs := regs\<rparr>)\<rparr>)"
  by (rule syscall_unknown[OF assms])

theorem syscall_unknown_number_witness:
  "\<exists>s'. syscall_handler (dev_env sample_drivers sample_calls) (sample_regs 17) sample = Some (sample_regs 17, s')"
proof -
  have "sint (r_eax (sample_regs 17)) = 17" by (simp add: sample_regs_def)
  then show ?thesis using syscall_unknown_number[of "sample_regs 17" sample _ "dev_env sample_drivers sample_calls"] by simp
qed

text \<open>
  C17: \<open>exit\<close> ends the calling process for good: it is dead and at the end of the dead queue, the front of the ready queue
  runs, and the scheduler's invariant stays. The entry that was at the front of the dead queue is dropped.
\<close>

theorem sysc_exit_correct:
  assumes "sched_inv s" "c = current_process s" "c \<noteq> kernel_process s"
  shows "\<exists>s'. sysc_exit c status s = Some s' \<and> sched_inv s' \<and> current_process s' = hd (ready_queue s) \<and>
    ready_queue s' = tl (ready_queue s) \<and> dead_queue s' = tl (dead_queue s) @ [c] \<and> st (procs s') c = PROCESS_STATE_DEAD"
  by (rule sysc_exit_ok[OF assms])

theorem sysc_exit_correct_witness:
  "\<exists>s'. sysc_exit 0x2000 0 sample = Some s' \<and> current_process s' = 0x3000 \<and> ready_queue s' = [0x1000] \<and> dead_queue s' = [0x2000]"
  using sysc_exit_correct[OF sample_sched, of "0x2000" 0] by auto

text \<open>
  C18: \<open>kill\<close> of a ready process takes it out of the ready queue, puts it on the dead queue and returns 0; the caller goes
  on, and the scheduler's invariant stays.
\<close>

theorem sysc_kill_correct:
  assumes "sched_inv s" "proc_find (sint n) s = Some t" "procs s t = Some x" "state x = PROCESS_STATE_READY"
    "t \<noteq> current_process s" "t \<noteq> kernel_process s"
  shows "\<exists>s'. sysc_kill (current_process s) n s = Some s' \<and> sched_inv s' \<and> t \<notin> set (ready_queue s') \<and>
    dead_queue s' = dead_queue s @ [t] \<and> current_process s' = current_process s \<and>
    r_eax (proc_regs (the (procs s' (current_process s)))) = 0"
  by (rule sysc_kill_ok[OF assms])

theorem sysc_kill_correct_witness: "\<exists>s'. sysc_kill 0x2000 3 sample = Some s' \<and> sched_inv s' \<and> dead_queue s' = [0x3000]"
proof -
  have "proc_find (sint (3 :: u32)) sample = Some 0x3000" by (simp add: proc_find_def)
  from sysc_kill_correct[OF sample_sched this] show ?thesis by auto
qed



text \<open>\<open>sbrk\<close> with a negative number of bytes only returns the end of the heap; the loop that should free pages never runs.\<close>

theorem sysc_sbrk_never_shrinks:
  assumes "sint bytes < 0" "procs s process = Some p"
  shows "sysc_sbrk process bytes s = Some (s\<lparr>procs := (procs s)(process \<mapsto> set_eax (heap_end p) p)\<rparr>)"
  by (rule sysc_sbrk_negative[OF assms])

theorem sysc_sbrk_never_shrinks_witness:
  "\<exists>s'. sysc_sbrk 0x2000 (-8192) sample = Some s' \<and> map_option heap_end (procs s' 0x2000) = Some 0x50001000"
proof -
  have "sint (-8192 :: u32) < 0" by simp
  from sysc_sbrk_never_shrinks[OF this, of sample "0x2000"] show ?thesis by (simp add: set_eax_def)
qed

text \<open>
  \<open>close\<close> takes the node out of the list of the process, and so every node with a larger identifier is reached under
  an identifier that is smaller by one.
\<close>

theorem sysc_close_renumbers:
  assumes "procs s process = Some p" "k < length (pnodes p)" "k < 2 ^ 31"
  shows "\<exists>s'. sysc_close process (of_nat k) s = Some s' \<and>
    (\<forall>i. sysc_get_proc_node process (int i) s' = sysc_get_proc_node process (int (if i < k then i else Suc i)) s)"
  by (rule sysc_close_ok[OF assms])

theorem sysc_close_renumbers_witness:
  "\<exists>s'. sysc_close 0x2000 0 sample = Some s' \<and> sysc_get_proc_node 0x2000 0 s' = Some 0"
  using sysc_close_renumbers[of sample "0x2000" _ 0] by (fastforce simp: sysc_get_proc_node_def dest: spec[of _ 0])

section \<open>Files and devices\<close>

text \<open>
  A node that is mounted under the root of a system with a full heap is found under its path: after
  \<open>mount_in_vfs\<close>, \<open>vfs_find_node\<close> returns exactly this node, and the mount tree is well formed.
\<close>

theorem mount_find_roundtrip:
  assumes "mountable node nm r ts s" "length nm < 2 ^ 28"
    "heap_budget (mount_cost nm + find_cost (CHR ''/'' # nm)) s" "heap_full s"
  shows "\<exists>s1 s2. mount_in_vfs node (Some (CHR ''/'' # nm)) s = Some (node, s1) \<and> vfs_wf s1 \<and>
    vfs_find_node cs (Some (CHR ''/'' # nm)) s1 = Some (node, s2)"
proof -
  note m = assms(1)[unfolded mountable_def]
  obtain s1 where s1: "mount_in_vfs node (Some (CHR ''/'' # nm)) s = Some (node, s1)" "vnodes s1 = vnodes s"
    "vfs_mountpoint_tree s1 = Some (GTree r (ts @ [GTree node []]))" "vfs_wf s1" "heap_budget (find_cost (CHR ''/'' # nm)) s1"
    by (rule mount_one[OF assms(1,3,4)])
  obtain nd where nd: "vnodes s node = Some nd" "nd_name nd = nm" using m by blast
  have "last_child r ts node [] nd s1" using s1 nd m assms(2) by (simp add: last_child_def)
  then obtain s2 where "vfs_find_node cs (Some (CHR ''/'' # nd_name nd)) s1 = Some (node, s2)"
    by (rule find_mounted[where k = 0]) (use s1(5) nd(2) in auto)
  then show ?thesis using s1(1,4) nd(2) by blast
qed

theorem mount_find_roundtrip_witness:
  "\<exists>s1 s2. mount_in_vfs 0xD000009B (Some ''/tty'') sample = Some (0xD000009B, s1) \<and> vfs_wf s1 \<and>
    vfs_find_node sample_calls (Some ''/tty'') s1 = Some (0xD000009B, s2)"
proof -
  have "mountable 0xD000009B ''tty'' 0xD0000009 [GTree 0xD0000052 []] sample"
    using sample_vfs by (simp add: mountable_def component_def NUL_def)
  moreover have "heap_budget (mount_cost ''tty'' + find_cost ''/tty'') sample"
    by (rule sample_budget) (simp add: mount_cost_def find_cost_def stub_cost_def alloc_cost_def pages_for_nat heap_total_size_def
      sizeof_kalloc_def sizeof_vnode_def)
  ultimately show ?thesis using sample_full mount_find_roundtrip[of "0xD000009B" "''tty''" "0xD0000009" "[GTree 0xD0000052 []]" sample sample_calls] by simp
qed

text \<open>
  C20: from start-up to a device: on a full heap \<open>initialise_devfs\<close> mounts devfs under a free name and makes it ready, and a device node
  created in it is found by its path, with the device behind it and the devfs operations in front. The identifier of the file system is
  eleven bytes long in a block of ten; with no free block its terminator falls behind all blocks, where the next header overwrites it, and
  the comparison of identifiers goes through the memory as it is then.
\<close>

theorem devfs_device_roundtrip:
  fixes s :: "'z devfs_scheme"
  assumes "devfs_place nm r ts s" "heap_budget (device_cost nm dn) s" "idents_ok s" "heap_full s"
    "component dn" "length dn < 2 ^ 28" "ty \<noteq> 0" "base \<noteq> 0" "io_nodes s base = Some dev"
  shows "\<exists>s1 q s2 s3 nd. initialise_devfs (devfs_calls dr other) (Some (CHR ''/'' # nm)) s = Some s1 \<and> devfs_is_ready s1 \<and>
    create_node_devfs (root_node s1) (Some dn) ty base s1 = Some (q, s2) \<and> q \<noteq> 0 \<and>
    vfs_find_node (devfs_calls dr other) (Some (CHR ''/'' # nm @ CHR ''/'' # dn)) s2 = Some (q, s3) \<and>
    vnodes s3 q = Some nd \<and> base_pointer nd = base \<and> node_read nd = Sym ''read_node_devfs''"
  by (rule device_found[OF assms, of dr other]) blast

theorem devfs_device_roundtrip_witness:
  "\<exists>s1 q s2 s3. initialise_devfs (devfs_calls sample_drivers sample_calls) (Some ''/hw'') sample = Some s1 \<and>
    create_node_devfs (root_node s1) (Some ''tty'') 0x10 0x5000 s1 = Some (q, s2) \<and>
    vfs_find_node (devfs_calls sample_drivers sample_calls) (Some ''/hw/tty'') s2 = Some (q, s3)"
proof -
  have pl: "devfs_place ''hw'' 0xD0000009 [GTree 0xD0000052 []] sample"
    using sample_vfs by (simp add: devfs_place_def component_def NUL_def)
  have hb: "heap_budget (device_cost ''hw'' ''tty'') sample"
    by (rule sample_budget) (simp add: device_cost_def devfs_cost_def mount_cost_def find_cost_def stub_cost_def alloc_cost_def pages_for_nat
      heap_total_size_def sizeof_kalloc_def sizeof_vnode_def)
  have c: "component ''tty''" by (simp add: component_def NUL_def)
  have "\<exists>s1 q s2 s3 nd. initialise_devfs (devfs_calls sample_drivers sample_calls) (Some (CHR ''/'' # ''hw'')) sample = Some s1 \<and> devfs_is_ready s1 \<and>
    create_node_devfs (root_node s1) (Some ''tty'') 0x10 0x5000 s1 = Some (q, s2) \<and> q \<noteq> 0 \<and>
    vfs_find_node (devfs_calls sample_drivers sample_calls) (Some (CHR ''/'' # ''hw'' @ CHR ''/'' # ''tty'')) s2 = Some (q, s3) \<and>
    vnodes s3 q = Some nd \<and> base_pointer nd = 0x5000 \<and> node_read nd = Sym ''read_node_devfs''"
    by (rule devfs_device_roundtrip[OF pl hb sample_idents sample_full c]) simp_all
  then show ?thesis by auto
qed

text \<open>
  C21: from a system call to a driver: a program that opens the path of a device gets an identifier, and \<open>read\<close> with this
  identifier calls the driver's read function on this device with the program's arguments and returns its result.
\<close>

theorem device_open_read_correct:
  fixes s :: "'z devfs_scheme"
  assumes "fs_calls env = devfs_calls dr other" "devfs_mounted r ts nd s" "component nm" "length nm < 2 ^ 28"
    "heap_budget (find_cost (device_path nd nm) + k) s" "find_child (vnodes s) nm (devices s) = Some q" "q \<noteq> 0"
    "vnodes s q = Some nd'" "node_read nd' = Sym ''read_node_devfs''" "io_nodes s (base_pointer nd') = Some device" "io_read device = Sym f"
    "procs s process = Some p" "length (pnodes p) < 2 ^ 31" "user_string path s = Some (device_path nd nm)" "b \<noteq> 0"
  shows "\<exists>s1. sysc_open env process path s = Some s1 \<and>
    r_eax (proc_regs (the (procs s1 process))) = of_nat (length (pnodes p)) \<and>
    sysc_read env process (of_nat (length (pnodes p))) a z b s1 =
      do { (ret, s2) \<leftarrow> drv_io dr f (base_pointer nd') a z b s1; sysc_return process (word_of_int ret) s2 }"
  by (rule device_open_read[OF assms])

theorem device_open_read_correct_witness:
  "\<exists>s1. sysc_open (dev_env sample_drivers sample_calls) 0x2000 0x10001000 sample = Some s1 \<and>
    r_eax (proc_regs (the (procs s1 0x2000))) = 1 \<and>
    sysc_read (dev_env sample_drivers sample_calls) 0x2000 1 0 80 0x10000000 s1 = sysc_return 0x2000 80 s1"
proof -
  let ?p = "sample_proc 2 PROCESS_STATE_LIVING PROCESS_PRV_USER" and ?env = "dev_env sample_drivers sample_calls"
  let ?nd = "sample_node ''tty'' 0x10 (Sym ''read_node_devfs'') 0x5000"
  have "\<exists>s1. sysc_open ?env 0x2000 0x10001000 sample = Some s1 \<and>
    r_eax (proc_regs (the (procs s1 0x2000))) = of_nat (length (pnodes ?p)) \<and>
    sysc_read ?env 0x2000 (of_nat (length (pnodes ?p))) 0 80 0x10000000 s1 =
      do { (ret, s2) \<leftarrow> drv_io sample_drivers ''gtty_read'' (base_pointer ?nd) 0 80 0x10000000 s1; sysc_return 0x2000 (word_of_int ret) s2 }"
  proof (rule device_open_read_correct[where k = 0 and nm = "''tty''" and q = "0xD000009B" and device = sample_device, OF _ sample_devfs])
    show "heap_budget (find_cost (device_path sample_dev ''tty'') + 0) sample"
      by (rule sample_budget) (simp add: sample_dev_def find_cost_def alloc_cost_def pages_for_nat heap_total_size_def sizeof_kalloc_def)
  qed (simp_all add: dev_env_def component_def NUL_def strcmp_eq sample_device_def sample_string sample_dev_def)
  then show ?thesis by (simp add: sample_drivers_def)
qed

section \<open>Archive and boot module\<close>

text \<open>
  C22: a file in the root directory of the archive is found by its path through the virtual file system, and a read
  from a position returns the bytes of the archive that are the file's contents from there on, up to its end.
\<close>

theorem archive_file_read:
  fixes s :: "'z devfs_scheme"
  assumes "tar_mounted r ts base lim (pre @ (path, n) # es) s" "heap_full s" "heap_budget (4096 * (length pre + 7)) s"
    "root_child path" "tail_name (strip path) = nm" "nm \<noteq> []" "\<forall>e\<in>set pre. \<not> (root_child (fst e) \<and> tail_name (strip (fst e)) = nm)"
    "\<forall>c\<in>tdata ` set ts. nd_name (the (vnodes s c)) \<noteq> nm" "get_type_flags (hdr_typeflag (base + of_nat (tar_len pre)) s) \<noteq> VFS_NODE_TYPE_DIRE"
    "a < n" "unat z < 2 ^ 31" "kh_start s \<le> buf" "unat buf + unat z \<le> 2 ^ 32"
  shows "\<exists>q s1 s2. vfs_find_node (tarfs_calls other) (Some (CHR ''/'' # nm)) s = Some (q, s1) \<and>
    read_from_vfs_node (tarfs_calls other) q (of_nat a) z buf s1 = Some (int (min (unat z) (n - a)), s2) \<and>
    (\<forall>i<min (unat z) (n - a). kh_bytes s2 (buf + of_nat i) = kh_bytes s (base + of_nat (tar_len pre + 512 + a + i)))"
  by (rule vfs_read_file[OF assms])

theorem archive_file_read_witness:
  "\<exists>q s1 s2. vfs_find_node (tarfs_calls no_calls) (Some ''/motd'') sample_tar = Some (q, s1) \<and>
    read_from_vfs_node (tarfs_calls no_calls) q 1 100 0xD0000800 s1 = Some (4, s2) \<and>
    (\<forall>i<4. kh_bytes s2 (0xD0000800 + of_nat i) = kh_bytes sample_tar (0xC0300000 + of_nat (512 + 1 + i)))"
  using archive_file_read[of "0xD0000009" "[]" "0xC0300000" 2048 "[]" "''/motd''" 5 "[]" sample_tar "''motd''" 1 100 "0xD0000800" no_calls]
    sample_tar_mounted sample_tar_heap sample_tar_type
  by (simp add: root_child_def strip_def tail_name_def get_type_flags_def VFS_NODE_TYPE_FILE_def VFS_NODE_TYPE_DIRE_def sample_tar_def sample_def)

text \<open>The size field of an archive header is read back as the number that was written in octal, for all sizes of 32 bits.\<close>

lemma archive_size_roundtrip: "n < 8 ^ 11 \<Longrightarrow> get_file_size_tarfs (octal 11 n @ [NUL]) = of_nat n"
  by (rule file_size_octal)

lemma archive_size_roundtrip_witness: "get_file_size_tarfs (octal 11 123456 @ [NUL]) = 123456"
  using archive_size_roundtrip[of 123456] by simp

text \<open>
  C23: at start-up the boot module becomes a device and its archive the root of the file system: after
  \<open>initialise_initrd\<close> and the mount of \<^verbatim>\<open>/dev/ramdisk\<close>, the path \<^verbatim>\<open>/\<close> leads to a directory node over the memory of the module,
  and what was mounted below the old root is still there. The free blocks of the heap are too small for the identifier of the archive's
  file system, whose terminator is therefore written behind all blocks and not into the header of a block in use.
\<close>

theorem boot_from_archive:
  fixes s :: "'z initrd_scheme"
  assumes "devfs_mounted r ts nd s" "nd_name nd = ''dev''" "vnodes s r = Some rn" "type_flags rn = VFS_NODE_TYPE_SDIR"
    "get_mod_def_by_name ''dbos.initrd'' s = Some img" "\<forall>d\<in>set (devices s). nd_name (the (vnodes s d)) \<noteq> ''ramdisk''"
    "idents_ok s" "small_holes 8 s" "heap_budget boot_cost s"
  shows "\<exists>s1 p s2 no. initialise_initrd (tarfs_calls (devfs_calls dr other)) s = Some s1 \<and> initrd_dev_status (initrd_device s1) s1 = 1 \<and>
    create_tarfs_filesystem (tarfs_calls (devfs_calls dr other)) (Some ''/dev/ramdisk'') (Some ''/'') s1 = Some (p, s2) \<and>
    vfs_find_node (tarfs_calls (devfs_calls dr other)) (Some ''/'') s2 = Some (p, s2) \<and>
    vfs_mountpoint_tree s2 = Some (GTree p (ts @ [GTree (root_node s) []])) \<and>
    vnodes s2 p = Some (tarfs_node ''/'' no (mod_end img - mod_start img) VFS_NODE_TYPE_DIRE (mod_start img))"
  by (rule boot_archive[OF assms]) blast

theorem boot_from_archive_witness:
  "\<exists>s1 p s2 no. initialise_initrd (tarfs_calls (devfs_calls no_drivers no_calls)) sample_started = Some s1 \<and> initrd_dev_status (initrd_device s1) s1 = 1 \<and>
    create_tarfs_filesystem (tarfs_calls (devfs_calls no_drivers no_calls)) (Some ''/dev/ramdisk'') (Some ''/'') s1 = Some (p, s2) \<and>
    vfs_find_node (tarfs_calls (devfs_calls no_drivers no_calls)) (Some ''/'') s2 = Some (p, s2) \<and>
    vfs_mountpoint_tree s2 = Some (GTree p [GTree 0xD0000052 []]) \<and>
    vnodes s2 p = Some (tarfs_node ''/'' no 0x800 VFS_NODE_TYPE_DIRE 0xC0300000)"
proof -
  have v: "vnodes sample_started 0xD0000009 = Some (sample_node ''/'' VFS_NODE_TYPE_SDIR NULL_fn 0)"
    "devices sample_started = [0xD000009B]" "vnodes sample_started 0xD000009B = Some (sample_node ''tty'' 0x10 (Sym ''read_node_devfs'') 0x5000)"
    "root_node sample_started = 0xD0000052"
    by (simp_all add: sample_started_def sample_boot_def sample_def devfs.defs)
  have i: "get_mod_def_by_name ''dbos.initrd'' sample_started = Some \<lparr>mod_start = 0xC0300000, mod_end = 0xC0300800, mod_cmd = ''dbos.initrd''\<rparr>"
    by (simp add: get_mod_def_by_name_def last_module_eq sample_started_def sample_boot_def devfs.defs initrd.defs)
  have b: "heap_budget boot_cost sample_started"
    by (rule sample_started_heap(2)) (simp add: boot_cost_def add_device_cost_def create_tarfs_cost_def find_cost_def alloc_cost_def
      heap_total_size_def sizeof_kalloc_def pages_for_nat sizeof_io_node_def sizeof_vnode_def)
  show ?thesis
    using boot_from_archive[OF sample_started_heap(1) _ v(1) _ i _ sample_started_idents sample_started_heap(3) b, of no_drivers no_calls] v by (simp add: sample_dev_def)
qed

text \<open>
  A read from the ram disk that starts inside of it returns the bytes of the module from the position on, clipped at
  its end, into the buffer and nowhere else.
\<close>

theorem ramdisk_read:
  assumes "initrd_memory_start s \<noteq> 0" "initrd_memory_end s \<noteq> 0" "start_at \<le> initrd_memory_length s"
    "unat start_at + unat sz < 2 ^ 32" "unat (initrd_memory_length s) < 2 ^ 31"
    "apart buffer (initrd_memory_start s + start_at) (min sz (initrd_memory_length s - start_at))"
  shows "\<exists>s'. initrd_dev_read device start_at sz buffer s = (int (unat (min sz (initrd_memory_length s - start_at))), s') \<and>
    reads_from buffer (initrd_memory_start s + start_at) (min sz (initrd_memory_length s - start_at)) s s'"
  by (rule initrd_read[OF assms]) blast

theorem ramdisk_read_witness:
  "\<exists>s'. initrd_dev_read 0x5000 0x10 0x20 0xD0000800
      (sample_boot\<lparr>initrd_memory_start := 0xC0300000, initrd_memory_end := 0xC0300018, initrd_memory_length := 0x18\<rparr>) = (8, s') \<and>
    reads_from 0xD0000800 0xC0300010 8 (sample_boot\<lparr>initrd_memory_start := 0xC0300000, initrd_memory_end := 0xC0300018, initrd_memory_length := 0x18\<rparr>) s'"
proof -
  have "apart 0xD0000800 0xC0300010 8" by (rule apart_below) simp_all
  then show ?thesis
    using ramdisk_read[of "sample_boot\<lparr>initrd_memory_start := 0xC0300000, initrd_memory_end := 0xC0300018, initrd_memory_length := 0x18\<rparr>" "0x10" "0x20" "0xD0000800" "0x5000"]
    by (simp add: min_def)
qed

text \<open>
  C24: \<open>strdup\<close> damages the heap: it allocates the length and one, and sets the byte behind it to zero. When a hole of
  exactly this size lies in front of a block in use, the byte is the lowest one of that block's size: the next allocation is put inside
  of the block.
\<close>

theorem strdup_overlaps:
  assumes "exact_hole str pre (a, k) (b, l) s" "heap_budget (alloc_cost n) s" "unat n < 2 ^ 31"
  shows "\<exists>s1 p s2. strdup str s = Some (a + sizeof_kalloc, s1) \<and> kern_malloc n s1 = Some (p, s2) \<and>
    (b + sizeof_kalloc, ka_size l) \<in> heap_live s \<and> unat p \<in> area (b + sizeof_kalloc, ka_size l)"
  by (rule strdup_overlap[OF assms])

theorem strdup_overlaps_witness:
  "\<exists>s1 p s2. strdup ''hello'' sample_hole = Some (0xD0000009, s1) \<and> kern_malloc 100 s1 = Some (p, s2) \<and>
    (0xD0000018, 20) \<in> heap_live sample_hole \<and> unat p \<in> area (0xD0000018, 20)"
  using strdup_overlaps[OF sample_hole_exact[unfolded hole_block_def next_block_def], of 100]
    sample_hole_budget[of "alloc_cost 100"]
  by (simp add: alloc_cost_def heap_total_size_def sizeof_kalloc_def pages_for_nat)

section \<open>Console\<close>

text \<open>C25: what is written to the text screen is read back from it, clipped at the end of the screen.\<close>

theorem screen_write_read:
  assumes "unat a < 2000" "unat a + unat n < 2 ^ 32" "k = min (unat n) (2000 - unat a)"
  shows "\<exists>s1 s2. vga_dev_write d a n buf s = (int k, s1) \<and> vga_dev_read d a n buf2 s1 = (int k, s2) \<and>
    (\<forall>i<k. kh_bytes s2 (buf2 + of_nat i) = kh_bytes s (buf + of_nat i))"
  by (rule vga_write_read[OF assms])

theorem screen_write_read_witness:
  "\<exists>s1 s2. vga_dev_write 0x5000 1990 20 0xD0000100 sample_console = (10, s1) \<and> vga_dev_read 0x5000 1990 20 0xD0000800 s1 = (10, s2) \<and>
    (\<forall>i<10. kh_bytes s2 (0xD0000800 + of_nat i) = 0xAA)"
  using screen_write_read[of 1990 20 10 "0x5000" "0xD0000100" sample_console "0xD0000800"] by simp

text \<open>
  C26: whatever bytes are written to the terminal on the text screen, control characters included, the write returns, the
  cursor stays on the screen, and the last commands to the display controller put the hardware cursor at the same place.
\<close>

theorem terminal_cursor:
  fixes s :: "'z gtty_scheme"
  assumes "screen_inv s" "synced s" "display_mode s = GTTY_MODE_TXT"
  shows "\<exists>s'. gtty_write_vga (devfs_calls (vga_drivers dr) other) slot a n buf s = Some (sint n, s') \<and> term_step s s' \<and> screen_inv s' \<and> synced s'"
  by (rule vd.write_ok[OF assms])

theorem terminal_cursor_witness:
  "\<exists>s'. gtty_write_vga (devfs_calls (vga_drivers no_drivers) no_calls) 0xD0000104 0 5000 0xD0000400 sample_console = Some (5000, s') \<and>
    term_step sample_console s' \<and> screen_inv s' \<and> synced s'"
  using terminal_cursor[OF sample_console_screen, of no_drivers no_calls "0xD0000104" 0 5000 "0xD0000400"] by simp

text \<open>
  C27: text without control characters that fits into the line appears in the cells behind the cursor, in the current
  colour, no other cell changes, and the cursor moves behind it.
\<close>

theorem terminal_text:
  fixes s :: "'z gtty_scheme"
  assumes "screen_inv s" "display_mode s = GTTY_MODE_TXT" "main_x s + int (unat n) < 80"
    "\<forall>j<unat n. printable (kh_bytes s (p + of_nat j)) \<and> p + of_nat j \<noteq> 0 \<and> 4 \<le> unat (p + of_nat j - command_buffer s)"
    "loc = nat (main_x s + main_y s * 80)"
  shows "\<exists>s'. gtty_write_vga (devfs_calls (vga_drivers dr) other) slot a n p s = Some (int (unat n), s') \<and>
    main_x s' = main_x s + int (unat n) \<and> main_y s' = main_y s \<and>
    (\<forall>x. video s' x = (if loc \<le> x \<and> x < loc + unat n then vga_cell (kh_bytes s (p + of_nat (x - loc))) (colour_setting s) else video s x))"
proof -
  have "0 \<le> main_x s" using assms(1) by (simp add: screen_inv_def)
  then have "unat n < 80" using assms(3) by linarith
  then have "unat n < 2 ^ 31" by simp
  then have "sint n = int (unat n)" by (rule sint_small)
  then show ?thesis using vd.text_ok[OF assms(1,3,4,5), of dr other slot] assms(2)
    by (auto simp: gtty_write_vga_def GTTY_MODE_TXT_def GTTY_MODE_PX_def)
qed

theorem terminal_text_witness:
  "\<exists>s'. gtty_write_vga (devfs_calls (vga_drivers no_drivers) no_calls) 0xD0000104 0 30 0xD0000400 sample_console = Some (30, s') \<and>
    main_x s' = 30 \<and> main_y s' = 0 \<and> (\<forall>x. video s' x = (if x < 30 then vga_cell 0xAA 0x07 else video sample_console x))"
proof -
  have a: "0xD0000400 + of_nat j \<noteq> (0 :: u32) \<and> 4 \<le> unat (0xD0000400 + of_nat j - 0xD0000200 :: u32)" if "j < 30" for j
  proof -
    have "unat (0xD0000400 + of_nat j :: u32) = 0xD0000400 + j" using that by (simp add: unat_word_ariths unat_of_nat take_bit_nat_eq_self)
    then have "0xD0000400 + of_nat j \<noteq> (0 :: u32)" by (metis add_is_0 unat_0 zero_neq_numeral)
    moreover have "0xD0000400 + of_nat j - 0xD0000200 = (0x200 + of_nat j :: u32)" by (simp add: algebra_simps)
    ultimately show ?thesis using that by (simp add: unat_word_ariths unat_of_nat take_bit_nat_eq_self)
  qed
  then have "\<forall>j<unat (30 :: u32). printable (kh_bytes sample_console (0xD0000400 + of_nat j)) \<and> 0xD0000400 + of_nat j \<noteq> (0 :: u32) \<and>
      4 \<le> unat (0xD0000400 + of_nat j - command_buffer sample_console)" by (simp add: printable_def)
  from terminal_text[OF sample_console_screen(1) _ _ this, of 0 no_drivers no_calls "0xD0000104" 0] show ?thesis by (simp cong: if_cong)
qed

text \<open>
  C28: every sequence of scan codes is handled to its end, and afterwards the shift flag is that of the last press or release of
  the left shift key and the caps flag has changed with every caps lock; the listener is the terminal, echo included, and
  the screen is as it must be.
\<close>

theorem keyboard_modifiers:
  fixes s :: "'z gtty_scheme"
  assumes "console_ok cslot s"
  shows "\<exists>s'. kbd_run (\<lambda>p. gtty_keyboard_listener (devfs_calls (console_drivers dr other font slot) other) cslot) codes regs s = Some s' \<and>
    console_ok cslot s' \<and> kbd_listeners s' = kbd_listeners s \<and> (kbd_lshift s' \<noteq> 0 \<longleftrightarrow> shift_after codes (kbd_lshift s \<noteq> 0)) \<and>
    (kbd_caps s' \<noteq> 0 \<longleftrightarrow> ((kbd_caps s \<noteq> 0) \<noteq> odd (count_list codes KBD_CAPSLCK)))"
  by (rule kl.run_flags[OF assms])

theorem keyboard_modifiers_witness:
  "\<exists>s'. kbd_run (\<lambda>p. gtty_keyboard_listener (devfs_calls (console_drivers no_drivers no_calls (\<lambda>i. []) 0xD0000104) no_calls) 0xD0000100)
      [0x2A, 0x1E, 0x0E, 0x3A, 0x1C] zero_regs sample_console = Some s' \<and> console_ok 0xD0000100 s' \<and> kbd_lshift s' \<noteq> 0 \<and> kbd_caps s' \<noteq> 0"
  using keyboard_modifiers[OF sample_console_ok, of no_drivers no_calls "\<lambda>i. []" "0xD0000104" "[0x2A, 0x1E, 0x0E, 0x3A, 0x1C]" zero_regs]
  by (auto simp: shift_after_def kbd_codes)

text \<open>
  C29: from the keys to the program: when a program has asked for \<open>n\<close> characters and fewer keys of text and then enter are pressed,
  the terminal reports input, and a read of \<open>n\<close> returns exactly the typed line.
\<close>

theorem typed_line_read:
  fixes s :: "'z gtty_scheme"
  assumes "line_state cslot n q ib [] s" "\<forall>k\<in>set ks. regular_code k \<and> text_char (kbd_map ! unat k)" "length ks < n"
    "buf \<noteq> 0" "device \<noteq> 0" "\<forall>i<length ks. 1024 \<le> unat (buf + of_nat i - ib)" "apart buf ib (of_nat (length ks))"
  shows "\<exists>s1 s2. kbd_run (\<lambda>p. gtty_keyboard_listener (devfs_calls (console_drivers dr other font slot) other) cslot) (ks @ [0x1C]) regs s = Some s1 \<and>
    screen_inv s1 \<and> input_buffer_flag s1 = 1 \<and> gtty_dev_read device a (of_nat n) buf s1 = (int (length ks), s2) \<and>
    load_bytes buf (length ks) (kh_bytes s2) = map (\<lambda>k. kbd_map ! unat k) ks"
  by (rule typed_line[OF assms]) blast

theorem typed_line_read_witness:
  "\<exists>s1 s2. kbd_run (\<lambda>p. gtty_keyboard_listener (devfs_calls (console_drivers no_drivers no_calls (\<lambda>i. []) 0xD0000104) no_calls) 0xD0000100)
      [0x26, 0x1F, 0x1C] zero_regs sample_console = Some s1 \<and> input_buffer_flag s1 = 1 \<and>
    gtty_dev_read 0x6000 0 16 0xD0000800 s1 = (2, s2) \<and> load_bytes 0xD0000800 2 (kh_bytes s2) = ''ls''"
proof -
  have c: "\<forall>k\<in>set [0x26, 0x1F]. regular_code k \<and> text_char (kbd_map ! unat k)" by code_simp
  have m: "map (\<lambda>k. kbd_map ! unat k) [0x26, 0x1F :: u8] = ''ls''" by code_simp
  have l: "length [0x26, 0x1F :: u8] = 2" by simp
  have k: "[0x26, 0x1F] @ [0x1C] = [0x26, 0x1F, 0x1C :: u8]" "of_nat 16 = (16 :: u32)" "int 2 = 2" by simp_all
  have b: "(2 :: nat) < 16" "(0xD0000800 :: ptr) \<noteq> 0" "(0x6000 :: ptr) \<noteq> 0" "(2 :: nat) \<le> 64" by simp_all
  note r = typed_line_read[OF sample_console_line c, unfolded l m, OF b(1,2,3) sample_buffer[OF b(4)], unfolded k]
  show ?thesis using r[of no_drivers no_calls "\<lambda>i. []" "0xD0000104" zero_regs 0] by blast
qed

text \<open>
  C30: a tab counts as four characters without a look at the size that was asked for: typed as the last character, it makes the read
  return three bytes more than the buffer of the program has.
\<close>

theorem tab_overruns_read:
  assumes "input_buffer_size s = int n" "input_buffer_index s = int n - 1" "0 < n" "n \<le> 1000" "buf \<noteq> 0" "device \<noteq> 0"
    "\<forall>i<n + 3. 1024 \<le> unat (buf + of_nat i - input_buffer s)" "apart buf (input_buffer s) (of_nat (n + 3))"
  shows "\<exists>s1 s2. gtty_keyboard_listener cs cslot KBD_VAL_TYPE_REGULAR 0x09 (s\<lparr>gtty_echo := 0\<rparr>) = Some s1 \<and>
    gtty_dev_read device a (of_nat n) buf s1 = (int n + 3, s2) \<and>
    (\<forall>i<n + 3. kh_bytes s2 (buf + of_nat i) = kh_bytes s1 (input_buffer s + of_nat i))"
  by (rule tab_overrun[OF assms])

theorem tab_overruns_read_witness:
  "\<exists>s1 s2. gtty_keyboard_listener no_calls 0xD0000100 KBD_VAL_TYPE_REGULAR 0x09 (sample_console\<lparr>input_buffer_index := 15, gtty_echo := 0\<rparr>) = Some s1 \<and>
    gtty_dev_read 0x6000 0 16 0xD0000800 s1 = (19, s2)"
  using tab_overruns_read[of "sample_console\<lparr>input_buffer_index := 15\<rparr>" 16 "0xD0000800" "0x6000" no_calls "0xD0000100" 0] sample_buffer[of 19]
  by auto

text \<open>No key and no modifier gives a backslash, although the key maps have one: its scan code is the one of F12.\<close>

lemma backslash_unreachable: "regular_code c \<Longrightarrow> scan_char c s \<noteq> CHR 0x5C"
  by (rule no_backslash)

lemma backslash_unreachable_witness: "scan_char 0x2B sample_console \<noteq> CHR 0x5C"
  by (rule backslash_unreachable) code_simp

section \<open>Bus, graphics screen and log\<close>

text \<open>
  C36: after the scan of the bus of a single host controller, a search by vendor and device number returns the structure that
  describes the first device with these numbers, with its base addresses when its header is a standard one, and null when there is none.
\<close>

theorem pci_devices_found:
  assumes "(ucast (pci_read cfg 0 0 0 PCI_HEADER_TYPE) :: u8) AND PCI_MULTI_FUNC = 0"
    "heap_budget (32 * pci_cost) s" "pci_wf (s\<lparr>pci_devices := []\<rparr>)"
  shows "\<exists>s'. pci_initialise tb cfg s = Some s' \<and>
    (case find (has_ids cfg 0 v i) [0..<32] of None \<Rightarrow> pci_get_device v i s' = Some 0
     | Some d \<Rightarrow> \<exists>p. p \<noteq> 0 \<and> pci_get_device v i s' = Some p \<and> describes cfg 0 d p s')"
  by (rule pci_device_of_ids[OF assms])

theorem pci_devices_found_witness:
  "\<exists>s' p. pci_initialise sample_tables sample_cfg sample_screen = Some s' \<and> p \<noteq> 0 \<and> pci_get_device 0x1234 0x1111 s' = Some p \<and>
    describes sample_cfg 0 2 p s'"
  using pci_devices_found[OF sample_cfg_single sample_screen_pci, of sample_tables "0x1234" "0x1111"] unfolding sample_cfg_display by auto

text \<open>
  On a machine whose first device says that it has several functions nothing is scanned: the loop over the functions ends at the first
  one that is present.
\<close>

theorem pci_hosts_not_scanned:
  assumes "(ucast (pci_read cfg 0 0 0 PCI_HEADER_TYPE) :: u8) AND PCI_MULTI_FUNC \<noteq> 0" "present cfg 0 0"
  shows "pci_initialise tb cfg s = Some (s\<lparr>pci_devices := []\<rparr>)"
  by (rule pci_several_hosts[OF assms])

theorem pci_hosts_not_scanned_witness:
  "pci_initialise sample_tables sample_cfg_multi sample_screen = Some (sample_screen\<lparr>pci_devices := []\<rparr>)"
  by (rule pci_hosts_not_scanned) (simp_all add: present_def sample_cfg_multi_def sample_cfg_read)

text \<open>
  C37: the scan of the bus and the start of the graphics screen together: a display controller in some slot gives the frame buffer the
  address of its first base register, and the controller is switched to the mode through its ports.
\<close>

theorem display_found:
  assumes "(ucast (pci_read cfg 0 0 0 PCI_HEADER_TYPE) :: u8) AND PCI_MULTI_FUNC = 0"
    "heap_budget (32 * pci_cost) s" "pci_wf (s\<lparr>pci_devices := []\<rparr>)"
    "find (has_ids cfg 0 VESA_PCI_VENDOR_ID VESA_PCI_DEVICE_ID) [0..<32] = Some d"
    "standard_header (ucast (pci_read cfg 0 (of_nat d) 0 PCI_HEADER_TYPE))"
  shows "\<exists>s1 s2. pci_initialise tb cfg s = Some s1 \<and> init_with_pci version w h s1 = Some (0, s2) \<and>
    lfb s2 = pci_read_long cfg 0 (of_nat d) PCI_BAR0 AND 0xFFFFFFF0 \<and> lfb_width s2 = w \<and> lfb_height s2 = h \<and>
    vesa_ports s2 = vesa_ports s1 @ mode_ports version w h"
  by (rule display_on_bus[OF assms])

theorem display_found_witness:
  "\<exists>s1 s2. pci_initialise sample_tables sample_cfg sample_screen = Some s1 \<and> init_with_pci 0xB0C5 800 600 s1 = Some (0, s2) \<and>
    lfb s2 = 0xFD000000 \<and> lfb_width s2 = 800 \<and> lfb_height s2 = 600"
proof -
  have f: "find (has_ids sample_cfg 0 VESA_PCI_VENDOR_ID VESA_PCI_DEVICE_ID) [0..<32] = Some 2"
    using sample_cfg_display by (simp add: VESA_PCI_VENDOR_ID_def VESA_PCI_DEVICE_ID_def)
  have h: "standard_header (ucast (pci_read sample_cfg 0 (of_nat 2) 0 PCI_HEADER_TYPE))" by (simp add: standard_header_def sample_cfg_read)
  have b: "pci_read_long sample_cfg 0 (of_nat 2) PCI_BAR0 AND 0xFFFFFFF0 = 0xFD000000" by (simp add: pci_read_long_def PCI_BAR0_def sample_cfg_read)
  show ?thesis using display_found[OF sample_cfg_single sample_screen_pci f h, of sample_tables "0xB0C5" 800 600] unfolding b by blast
qed

text \<open>
  C38: a command line made of keys and values is parsed, and a search returns for every key the value of its first occurrence,
  or null for a key that is not there.
\<close>

theorem boot_parameter_roundtrip:
  assumes "\<forall>(k, v)\<in>set ps. param_text k \<and> param_text v" "ps \<noteq> []"
  shows "\<exists>params. parse_multiboot_params (command_line ps) x = Some (params, []) \<and> (\<forall>key. params_find_by_key params key = Some (map_of ps key))"
  using parse_command_line[OF assms] find_param by blast

theorem boot_parameter_roundtrip_witness:
  "\<exists>params. parse_multiboot_params ''res=800x600,root=initrd'' [] = Some (params, []) \<and> params_find_by_key params ''res'' = Some (Some ''800x600'')"
proof -
  have "\<forall>(k, v)\<in>set [(''res'', ''800x600''), (''root'', ''initrd'')]. param_text k \<and> param_text v" by (simp add: param_text_def NUL_def)
  from boot_parameter_roundtrip[OF this, of "[]"] obtain params where "parse_multiboot_params (command_line [(''res'', ''800x600''), (''root'', ''initrd'')]) [] = Some (params, [])"
    "params_find_by_key params ''res'' = Some (map_of [(''res'', ''800x600''), (''root'', ''initrd'')] ''res'')" by blast
  then show ?thesis by simp
qed

text \<open>
  C39: a transfer to the graphics screen is clipped at its end, and reading the same place back gives the words that were written.
\<close>

theorem graphics_write_read:
  assumes "vesa_mode s" "unat start_at < unat (video_mem_length s)" "unat start_at + unat sz < 2 ^ 32"
  shows "\<exists>s1 s2. vesa_dev_write dev start_at sz buf s = (int (clip start_at sz s), s1) \<and>
    vesa_dev_read dev start_at sz buf2 s1 = (int (clip start_at sz s), s2) \<and>
    (\<forall>i<clip start_at sz s. load_u32 (buf2 + 4 * of_nat i) (kh_bytes s2) = load_u32 (buf + 4 * of_nat i) (kh_bytes s))"
  by (rule vesa_write_read[OF assms])

theorem graphics_write_read_witness:
  "\<exists>s1 s2. vesa_dev_write 0x8000 307190 20 0xD0000000 sample_screen = (10, s1) \<and>
    vesa_dev_read 0x8000 307190 20 0xD0001000 s1 = (10, s2) \<and> load_u32 0xD0001000 (kh_bytes s2) = 0xAAAAAAAA"
proof -
  have c: "clip 307190 20 sample_screen = 10" by (simp add: clip_def video_mem_length_def)
  from graphics_write_read[OF sample_screen_mode, of 307190 20 "0x8000" "0xD0000000" "0xD0001000"] obtain s1 s2 where
    "vesa_dev_write 0x8000 307190 20 0xD0000000 sample_screen = (10, s1)" "vesa_dev_read 0x8000 307190 20 0xD0001000 s1 = (10, s2)"
    "\<forall>i<10. load_u32 (0xD0001000 + 4 * of_nat i) (kh_bytes s2) = load_u32 (0xD0000000 + 4 * of_nat i) (kh_bytes sample_screen)"
    unfolding c by (auto simp: video_mem_length_def)
  moreover from this(3) have "load_u32 0xD0001000 (kh_bytes s2) = load_u32 0xD0000000 (kh_bytes sample_screen)" by (force dest: spec[of _ 0])
  moreover have "load_u32 0xD0000000 (kh_bytes sample_screen) = 0xAAAAAAAA" by (simp add: load_u32_def)
  ultimately show ?thesis by auto
qed

text \<open>
  A pixel that is drawn is read back at its coordinates, and no other pixel on the screen changes.
\<close>

theorem pixel_draw_get:
  assumes "vesa_mode s" "on_screen x y s" "on_screen x' y' s"
  shows "vesa_get_pixel_at x' y' (snd (vesa_draw_pixel x y px s)) = (if x' = x \<and> y' = y then px else vesa_get_pixel_at x' y' s)"
  by (rule draw_get_pixel[OF assms])

theorem pixel_draw_get_witness: "vesa_get_pixel_at 3 4 (snd (vesa_draw_pixel 3 4 0x00FF0000 sample_screen)) = 0x00FF0000"
  using pixel_draw_get[OF sample_screen_mode, of 3 4 3 4] by (simp add: on_screen_def)

text \<open>
  C40: as long as the line becomes ready again and again, the log of a string ends before the file system is up, and has sent exactly its
  characters, a newline with two carriage returns behind it.
\<close>

theorem log_reaches_line:
  assumes "line_ready inp 0x20" "early s"
  shows "\<exists>n. log_string cs inp slot str s =
    Some (s\<lparr>port_log := port_log s @ map (Pair SERIAL_PORT) (concat (map log_bytes str)), port_reads := n\<rparr>)"
  by (rule log_early_sent[OF assms])

theorem log_reaches_line_witness:
  "\<exists>n. log_string no_calls sample_line 0xD0000100 [CHR ''o'', CHR ''k'', CHR 0x0A] sample_screen =
    Some (sample_screen\<lparr>port_log := port_log sample_screen @ map (Pair SERIAL_PORT) [0x6F, 0x6B, 0x0A, 0x0D, 0x0D], port_reads := n\<rparr>)"
  using log_reaches_line[OF sample_line_ready sample_screen_early, of no_calls "0xD0000100" "[CHR ''o'', CHR ''k'', CHR 0x0A]"] by (simp add: log_bytes_def)

section \<open>C library\<close>

text \<open>
  C31: printing to a stream whose device takes bytes in order delivers exactly the text of the reference \<open>kformat\<close>, returns its length, and
  touches no memory but the two places it uses on the stack.
\<close>

theorem printf_formats:
  assumes "appends os fid" "stream_to (stdout s) fid s" "kformat fmt args = Some out" "plain_format fmt"
    "str_at format fmt (kh_bytes s)" "clear_of slot tmp format (Suc (length fmt))" "list_all2 (print_arg slot tmp (kh_bytes s)) args ws"
  shows "\<exists>s'. printf os fp slot tmp format ws s = Some (of_nat (length out), s') \<and> world s' = world s @ out \<and>
    same_outside slot tmp (kh_bytes s) (kh_bytes s')"
  by (rule printf_text[OF assms])

theorem printf_formats_witness:
  "\<exists>s'. printf sample_os (\<lambda>d a b m. (0, m)) 0x2000 0x2100 0x100 [42, 0x300] sample_program = Some (8, s') \<and> world s' = ''n=42 abc''"
proof -
  have "list_all2 (print_arg 0x2000 0x2100 sample_text) [Kint 42, Kstr ''abc''] [42, 0x300]"
    using sample_text_strings(3) by (simp add: print_arg_def areas_apart_below)
  then show ?thesis using printf_formats[OF sample_program_stream(1) _ sample_format, of sample_program "0x100" "0x2000" "0x2100" "[42, 0x300]" "\<lambda>d a b m. (0, m)"]
      sample_program_stream(2) sample_text_strings(1) by (auto simp: clear_of_def areas_apart_below)
qed

text \<open>
  Printing into memory stores the text of the same reference at the destination, and at most one byte behind it changes.
\<close>

theorem sprintf_formats:
  assumes "kformat fmt args = Some out" "plain_format fmt" "str_at format fmt m" "list_all2 (arg_word str (Suc (length out)) m) args ws"
    "areas_apart str (Suc (length out)) format (Suc (length fmt))" "length out < 2 ^ 32"
  shows "\<exists>m'. sprintf fp str format ws m = Some (of_nat (length out), m') \<and> wrote str out m m'"
  using vsprintf_text[OF assms] by (simp add: sprintf_def)

theorem sprintf_formats_witness:
  "\<exists>m'. sprintf (\<lambda>d a b m. (0, m)) 0x400 0x100 [42, 0x300] sample_text = Some (8, m') \<and> wrote 0x400 ''n=42 abc'' sample_text m'"
proof -
  have "list_all2 (arg_word 0x400 9 sample_text) [Kint 42, Kstr ''abc''] [42, 0x300]"
    using sample_text_strings(3) by (simp add: areas_apart_below)
  then show ?thesis using sprintf_formats[OF sample_format _ sample_text_strings(1), of "0x400" "[42, 0x300]" "\<lambda>d a b m. (0, m)"]
    by (simp add: areas_apart_below)
qed

text \<open>
  C33: an integer printed with \<^verbatim>\<open>%d\<close> into a buffer is read back by \<open>sscanf\<close> with the same format, for every 32-bit integer.
\<close>

theorem sprintf_sscanf_roundtrip:
  assumes "str_at fmt ''%d'' m" "areas_apart buf 12 fmt 3" "areas_apart nslot 4 fmt 3" "areas_apart a 4 fmt 3"
  shows "\<exists>k m1 m2. sprintf fp buf fmt [n] m = Some (k, m1) \<and> sscanf nslot buf fmt [a] m1 = Some (1, m2) \<and> load_u32 a m2 = n"
  by (rule sprintf_sscanf[OF assms])

theorem sprintf_sscanf_roundtrip_witness:
  "\<exists>k m1 m2. sprintf (\<lambda>d a b m. (0, m)) 0x400 0x200 [-42] sample_text = Some (k, m1) \<and> sscanf 0x500 0x400 0x200 [0x600] m1 = Some (1, m2) \<and>
     load_u32 0x600 m2 = -42"
  by (rule sprintf_sscanf_roundtrip[OF sample_text_strings(2)]) (simp_all add: areas_apart_below)

text \<open>
  C34: \<open>memmove\<close> has the effect of a copy through a second buffer, on overlapping areas too: forwards, backwards and word by word it stores
  at each place of the destination what the source had before.
\<close>

theorem memmove_correct:
  assumes "unat dst + unat len \<le> 2 ^ 32" "unat src + unat len \<le> 2 ^ 32"
  shows "memmove dst src len m = (dst, \<lambda>x. if x - dst < len then m (src + (x - dst)) else m x)"
  by (rule memmove_eq[OF assms])

theorem memmove_correct_witness:
  "memmove 0x104 0x100 8 sample_text = (0x104, \<lambda>x. if x - 0x104 < 8 then sample_text (0x100 + (x - 0x104)) else sample_text x)"
  by (rule memmove_correct) simp_all

text \<open>
  \<open>strcmp\<close> returns zero exactly on equal strings, and a negative number exactly when the first one is smaller in the
  lexicographic order of the characters.
\<close>

theorem strcmp_orders:
  assumes "str_at p as m" "str_at q bs m"
  shows "\<exists>r. strcmp_libc p q m = Some r \<and> (r = 0 \<longleftrightarrow> as = bs) \<and> (r < 0 \<longleftrightarrow> as < bs)"
  by (rule strcmp_at[OF assms])

theorem strcmp_orders_witness: "\<exists>r. strcmp_libc 0x100 0x300 sample_text = Some r \<and> 0 < r"
  using strcmp_orders[OF sample_text_strings(1,3)] by (auto simp: less_char_def)

text \<open>
  C35: \<open>atoi\<close> of the library reads back a printed number that is not negative; for each negative number it returns -1, since it compares the
  number of digits with a length that counts the sign.
\<close>

theorem atoi_refuses_negative:
  assumes "str_at p (kputint n) m"
  shows "atoi_libc p m = Some (if 0 \<le> sint n then n else -1)"
  by (rule atoi_libc_kputint[OF assms])

theorem atoi_refuses_negative_witness: "atoi_libc 0x400 (put_str 0x400 (''-42'' @ [NUL]) (\<lambda>x. 0)) = Some (-1)"
proof -
  have "str_at 0x400 (kputint (-42)) (put_str 0x400 (''-42'' @ [NUL]) (\<lambda>x. 0))" by (simp add: kputint_42 NUL_def)
  moreover have "\<not> 0 \<le> sint (-42 :: u32)" by simp
  ultimately show ?thesis using atoi_refuses_negative by simp
qed

text \<open>
  C32: a program starts with the arguments the kernel's loader left: with their bytes at the start of the heap, \<open>main\<close> is called with a
  vector of pointers to copies of the program name and of each argument, in a well-formed heap, and the streams are set up.
\<close>

theorem bootstrap_passes_arguments:
  assumes "\<forall>a\<in>set (nm # argv). NUL \<notin> set a \<and> length a < 2 ^ 20" "length (nm # argv) < 2 ^ 20"
    "\<forall>i<argv_total_length nm argv. kh_bytes s (ALLOC_HEAP_START + of_nat i) = argv_bytes nm argv ! i"
    "kh_items s = Map.empty" "heap_end_k s = current_end"
    "0x50000000 + argv_total_length nm argv + 9 + 4 * length (nm # argv) < unat current_end"
    "unat current_end + alloc_cost (4 * of_nat (length (nm # argv))) + args_cost (nm # argv) \<le> 0xD0000000"
  shows "\<exists>arguments s'. main_ready (nm # argv) arguments s' \<and>
    stdin s' = stdin_s \<and> stdout s' = stdout_s \<and> stderr s' = stderr_s \<and> bootstrap_caller s' = bootstrap_caller s \<and>
    bootstrap invoke stdin_s stdout_s stderr_s main BOOTSTRAP_MAGIC current_end (of_nat (argv_total_length nm argv)) (of_nat (length (nm # argv))) s =
      do { (ret, s) \<leftarrow> main (of_nat (length (nm # argv))) arguments s'; s \<leftarrow> run_callers invoke s; Some (ret, s) }"
  using assms unfolding args_length_loader(1) by (intro bootstrap_arguments loader_args) (auto simp only: args_length_loader(1))

theorem bootstrap_passes_arguments_witness:
  "\<exists>arguments s'. main_ready [''ls'', ''-a''] arguments s' \<and>
    bootstrap (\<lambda>p s. Some s) 0x10 0x20 0x30 (\<lambda>argc argv s. Some (7, s)) BOOTSTRAP_MAGIC 0x50001000 6 2 sample_start = Some (7, s')"
proof -
  have costs: "alloc_cost 8 = 4096" "args_cost [''ls'', ''-a''] = 8192" by (simp_all add: args_cost_def alloc_cost_def) code_simp+
  have "argv_total_length ''ls'' [''-a''] = 6" by (simp add: argv_total_length_def)
  then show ?thesis
    using bootstrap_passes_arguments[of "''ls''" "[''-a'']" sample_start "0x50001000" "0x10" "0x20" "0x30" "\<lambda>p s. Some s" "\<lambda>argc argv s. Some (7, s)"]
      sample_start_bytes costs by (auto simp: NUL_def run_callers.simps sample_start_def)
qed

section \<open>Programs\<close>

text \<open>
  A request to the calculator with the text of an expression of its grammar prints the value of the expression, integer part and
  five digits of the fraction; a request without a value, such as a division by zero, is refused. Functions of the parser that end without
  a return statement are taken to leave 0 in the return register.
\<close>

theorem calc_evaluates:
  assumes "ready s" "wf_expr e" "length (toks_expr e) < 63" "\<forall>i<32. calc_mem s (res + of_nat i) = 0"
    "\<forall>v. eval_expr ar e = Some v \<longrightarrow> num_printable ar v"
  shows "case eval_expr ar e of
      Some v \<Rightarrow> \<exists>s'. process_request ar 0 (text_of e) res s = Some (0, s') \<and> calc_out s' = calc_out s \<and>
        calc_mem s' = put_str res (shown ar v) (calc_mem s) \<and> used s'
    | None \<Rightarrow> \<exists>s'. process_request ar 0 (text_of e) res s = Some (-1, s')"
  by (rule request_value[OF assms])

theorem calc_evaluates_witness:
  "\<exists>s'. process_request sample_arith 0 ''(1+2)*3'' 0x400 sample_calc = Some (0, s') \<and> calc_mem s' = put_str 0x400 ''9.0'' (\<lambda>x. 0)"
proof -
  have "\<forall>i<32. calc_mem sample_calc (0x400 + of_nat i) = 0" "\<forall>v. eval_expr sample_arith sample_expr = Some v \<longrightarrow> num_printable sample_arith v"
    using sample_shown(1) by (simp_all add: sample_calc_def sample_expr_wf(3))
  from calc_evaluates[OF sample_calc_ready sample_expr_wf(1,2) this] show ?thesis
    unfolding sample_expr_wf(3) by (auto simp: sample_expr_text sample_shown(2)) (auto simp: sample_calc_def)
qed

text \<open>
  The next request after one that was answered frees the static token of the end, which is not from the heap: it faults.
\<close>

theorem calc_second_request_faults:
  assumes "used s"
  shows "process_request ar fall req res s = None"
  by (rule used_faults[OF assms])

theorem calc_second_request_faults_witness:
  "\<exists>s'. process_request sample_arith 0 ''(1+2)*3'' 0x400 sample_calc = Some (0, s') \<and> process_request sample_arith 0 ''1'' 0x400 s' = None"
proof -
  have "\<forall>i<32. calc_mem sample_calc (0x400 + of_nat i) = 0" "\<forall>v. eval_expr sample_arith sample_expr = Some v \<longrightarrow> num_printable sample_arith v"
    using sample_shown(1) by (simp_all add: sample_calc_def sample_expr_wf(3))
  from request_value[OF sample_calc_ready sample_expr_wf(1,2) this] obtain s' where
    "process_request sample_arith 0 ''(1+2)*3'' 0x400 sample_calc = Some (0, s')" "used s'"
    unfolding sample_expr_wf(3) by (auto simp: sample_expr_text)
  then show ?thesis using calc_second_request_faults by blast
qed

text \<open>
  C12: \<open>bmp_read\<close> turns a picture of the file upright: pixel \<open>(i, j)\<close> of the buffer has alpha and the colours of column \<open>i\<close> in row
  \<open>j\<close> counted from the end of the file, and the result is the number of bytes of the buffer.
\<close>

theorem bitmap_upright:
  assumes "image_loaded w h img im fd buffer s" "user_budget (alloc_cost (of_nat (3 * (w * h))) + k) s"
    "file_holds os (f_id fd) content" "unat (hdr_offset (bmp_header im) (kh_bytes s) + start) + 3 * (w * h) \<le> length content"
  shows "\<exists>s'. bmp_read os img buffer start (of_nat (w * h)) alpha s = Some (4 * (int w * int h), s') \<and>
    (\<forall>i<w. \<forall>j<h. load_u32 (buffer + 4 * of_nat (i + j * w)) (kh_bytes s') =
      (let c = unat (hdr_offset (bmp_header im) (kh_bytes s) + start) + 3 * (i + (h - 1 - j) * w)
       in pixel_word alpha (content ! (c + 2)) (content ! (c + 1)) (content ! c)))"
  by (rule bmp_read_ok[OF assms])

theorem bitmap_upright_witness:
  "\<exists>s'. bmp_read sample_reader 0x60 0x50000051 0 2 0 sample_picture = Some (8, s') \<and>
    load_u32 0x50000051 (kh_bytes s') = 0x00060504 \<and> load_u32 0x50000055 (kh_bytes s') = 0x00030201"
proof -
  have b: "user_budget (alloc_cost (of_nat (3 * (1 * 2))) + 0) sample_picture"
    by (rule sample_picture_budget) (simp add: alloc_cost_def, code_simp)
  have o: "hdr_offset (bmp_header picture_image) (kh_bytes sample_picture) = 0"
    by (simp add: hdr_offset_def load_u32_def picture_image_def sample_picture_def)
  have f: "file_holds sample_reader (f_id \<lparr>f_id = 3, seek_index = 0, f_mode = MODE_R\<rparr>) sample_pixels" by (simp add: sample_reader_holds)
  from bitmap_upright[OF sample_picture_loaded b f, of 0 0] obtain s' where s':
    "bmp_read sample_reader 0x60 0x50000051 0 2 0 sample_picture = Some (8, s')"
    "\<forall>i<1. \<forall>j<2. load_u32 (0x50000051 + 4 * of_nat (i + j * 1)) (kh_bytes s') =
      (let c = 3 * (i + (2 - 1 - j) * 1) in pixel_word 0 (sample_pixels ! (c + 2)) (sample_pixels ! (c + 1)) (sample_pixels ! c))"
    by (auto simp: o sample_pixels_def)
  from s'(2)[rule_format, of 0 0] s'(2)[rule_format, of 0 1] have
    "load_u32 0x50000051 (kh_bytes s') = pixel_word 0 6 5 4" "load_u32 0x50000055 (kh_bytes s') = pixel_word 0 3 2 1"
    by (simp_all add: sample_pixels_def)
  moreover have "pixel_word 0 6 5 4 = 0x00060504" "pixel_word 0 3 2 1 = 0x00030201" by (simp_all add: pixel_word_def)
  ultimately show ?thesis using s'(1) by auto
qed

text \<open>
  The viewer puts a picture whose width differs from that of the display by an even number in the middle: row \<open>i\<close> is written at
  the place of row \<open>i\<close> below the upper margin, behind the left margin.
\<close>

theorem picture_centred:
  assumes "images s img = Some im" "info_width (bmp_info_header im) (kh_bytes s) = iw" "sint (info_height (bmp_info_header im) (kh_bytes s)) = int h"
    "files s (stdout s) = Some fd" "even (dw - sint iw)" "sint iw < dw" "int h < dh"
  shows "\<exists>s'. image_display os dw dh img buffer s = Some s' \<and>
    world s' = fold (row_write os (f_id fd) (\<lambda>i. word_of_int (((dh - int h) div 2 + int i) * dw + (dw - sint iw) div 2)) iw buffer (kh_bytes s)) [0..<h] (world s)"
  by (rule image_display_ok[OF assms])



end
